(* ===== verification/Quarters_Prelude.thy ===== *)
theory Quarters_Prelude
  imports Main "HOL-Library.Char_ord" "HOL-Library.List_Lexorder"
begin

text \<open>
  Shared vocabulary of the development.

  A Rust byte is a \<^typ>\<open>char\<close> (eight bits) and a byte slice, an \<open>OsStr\<close> or an ASCII
  \<open>str\<close> is a \<^typ>\<open>string\<close>; byte slices are ordered lexicographically as in Rust. Unsigned
  integers are natural numbers whose width is written out in the saturating, checked and
  big-endian operations below. A fallible function returns a sum whose left summand is the
  \<open>QuartersError\<close> of \<open>error.rs\<close>: its kind and the constant part of its message (observed
  numbers, paths, hints and wrapped sources are presentation only and are not kept).
\<close>

named_theorems result_simps \<open>inversion of successful results\<close>
named_theorems width_simps \<open>unfolding of fixed-width arithmetic\<close>

subsection \<open>Errors and results (\<open>error.rs\<close>)\<close>

datatype error_kind =
    InvalidInput
  | NotFound
  | AlreadyExists
  | SpaceActive
  | Unsupported
  | CorruptState
  | ResourceLimit
  | SystemError

fun error_kind_as_str :: "error_kind \<Rightarrow> string" where
  "error_kind_as_str InvalidInput = ''invalid_input''"
| "error_kind_as_str NotFound = ''not_found''"
| "error_kind_as_str AlreadyExists = ''already_exists''"
| "error_kind_as_str SpaceActive = ''space_active''"
| "error_kind_as_str Unsupported = ''unsupported''"
| "error_kind_as_str CorruptState = ''corrupt_state''"
| "error_kind_as_str ResourceLimit = ''resource_limit''"
| "error_kind_as_str SystemError = ''system''"

datatype quarters_error = QErr (kind: error_kind) (message: string)

type_synonym 'a result = "quarters_error + 'a"

abbreviation Ok :: "'a \<Rightarrow> 'a result" where "Ok \<equiv> Inr"
abbreviation Err :: "error_kind \<Rightarrow> string \<Rightarrow> 'a result" where "Err k m \<equiv> Inl (QErr k m)"

text \<open>The question-mark operator: propagate an error, continue with a value.\<close>

definition rbind :: "'a result \<Rightarrow> ('a \<Rightarrow> 'b result) \<Rightarrow> 'b result" where
  "rbind m f = (case m of Inl e \<Rightarrow> Inl e | Inr x \<Rightarrow> f x)"

definition ensure :: "bool \<Rightarrow> quarters_error \<Rightarrow> unit result" where
  "ensure b e = (if b then Ok () else Inl e)"

lemma rbind_Inr [simp]: "rbind (Inr x) f = f x"
  and rbind_Inl [simp]: "rbind (Inl e) f = Inl e"
  by (simp_all add: rbind_def)

lemma rbind_eq_Inr [result_simps]: "rbind m f = Inr y \<longleftrightarrow> (\<exists>x. m = Inr x \<and> f x = Inr y)"
  by (cases m) auto

lemma rbind_eq_Inl: "rbind m f = Inl e \<longleftrightarrow> m = Inl e \<or> (\<exists>x. m = Inr x \<and> f x = Inl e)"
  by (cases m) auto

lemma rbind_assoc: "rbind (rbind m f) g = rbind m (\<lambda>x. rbind (f x) g)"
  by (cases m) auto

lemma rbind_cong [fundef_cong]:
  "m = m' \<Longrightarrow> (\<And>x. m' = Inr x \<Longrightarrow> f x = f' x) \<Longrightarrow> rbind m f = rbind m' f'"
  by (cases m) auto

lemma ensure_eq_Inr [result_simps]: "ensure b e = Inr u \<longleftrightarrow> b"
  by (simp add: ensure_def)

lemma ensure_True [simp]: "b \<Longrightarrow> ensure b e = Ok ()"
  and ensure_False [simp]: "\<not> b \<Longrightarrow> ensure b e = Inl e"
  by (simp_all add: ensure_def)

lemma ensure_eq_Inl: "ensure b e = Inl e' \<longleftrightarrow> \<not> b \<and> e' = e"
  by (auto simp: ensure_def)

text \<open>A loop with early return: a fold that stops at the first error.\<close>

fun rfold :: "('s \<Rightarrow> 'a \<Rightarrow> 's result) \<Rightarrow> 's \<Rightarrow> 'a list \<Rightarrow> 's result" where
  "rfold f s [] = Ok s"
| "rfold f s (x # xs) = rbind (f s x) (\<lambda>s'. rfold f s' xs)"

lemma rfold_append: "rfold f s (xs @ ys) = rbind (rfold f s xs) (\<lambda>s'. rfold f s' ys)"
  by (induction xs arbitrary: s) (simp_all add: rbind_assoc)

lemma rfold_invariant:
  assumes "rfold f s xs = Inr t" and "P s"
    and "\<And>u x v. x \<in> set xs \<Longrightarrow> P u \<Longrightarrow> f u x = Inr v \<Longrightarrow> P v"
  shows "P t"
  using assms by (induction xs arbitrary: s) (auto simp: result_simps)

text \<open>\<open>is_ok\<close>, as the sources use it to turn a result into a condition.\<close>

fun is_ok :: "'a result \<Rightarrow> bool" where
  "is_ok (Inl _) = False"
| "is_ok (Inr _) = True"

lemma is_ok_iff: "is_ok r \<longleftrightarrow> (\<exists>x. r = Inr x)"
  by (cases r) auto

subsection \<open>Unsigned integers at their width\<close>

definition u32_max :: nat where "u32_max = 2 ^ 32 - 1"
definition u64_max :: nat where "u64_max = 2 ^ 64 - 1"

definition sat_add :: "nat \<Rightarrow> nat \<Rightarrow> nat" where
  "sat_add a b = min (a + b) u64_max"

definition checked_add :: "nat \<Rightarrow> nat \<Rightarrow> nat option" where
  "checked_add a b = (if a + b \<le> u64_max then Some (a + b) else None)"

lemma u64_max_num: "u64_max = 18446744073709551615"
  and u32_max_num: "u32_max = 4294967295"
  by (simp_all add: u64_max_def u32_max_def)

lemma sat_add_exact [width_simps]: "a + b \<le> u64_max \<Longrightarrow> sat_add a b = a + b"
  by (simp add: sat_add_def)

lemma sat_add_le: "sat_add a b \<le> u64_max"
  by (simp add: sat_add_def)

lemma sat_add_1_le_iff: "l < u64_max \<Longrightarrow> sat_add n 1 \<le> l \<longleftrightarrow> n + 1 \<le> l"
  by (auto simp: sat_add_def)

lemma checked_add_eq_Some [width_simps]:
  "checked_add a b = Some c \<longleftrightarrow> c = a + b \<and> a + b \<le> u64_max"
  by (auto simp: checked_add_def)

text \<open>Big-endian encodings: \<open>to_be_bytes\<close> and \<open>from_be_bytes\<close> at a byte width.\<close>

fun be_bytes :: "nat \<Rightarrow> nat \<Rightarrow> string" where
  "be_bytes 0 v = []"
| "be_bytes (Suc w) v = be_bytes w (v div 256) @ [char_of (v mod 256)]"

definition from_be_bytes :: "string \<Rightarrow> nat" where
  "from_be_bytes bs = foldl (\<lambda>acc b. acc * 256 + of_char b) 0 bs"

lemma length_be_bytes [simp]: "length (be_bytes w v) = w"
  by (induction w arbitrary: v) auto

lemma from_be_bytes_snoc: "from_be_bytes (bs @ [b]) = from_be_bytes bs * 256 + of_char b"
  by (simp add: from_be_bytes_def)

lemma from_be_bytes_be_bytes: "v < 256 ^ w \<Longrightarrow> from_be_bytes (be_bytes w v) = v"
proof (induction w arbitrary: v)
  case 0
  then show ?case by (simp add: from_be_bytes_def)
next
  case (Suc w)
  then have "v div 256 < 256 ^ w"
    by (simp add: less_mult_imp_div_less)
  then have "from_be_bytes (be_bytes w (v div 256)) = v div 256" by (rule Suc.IH)
  then show ?case by (simp add: from_be_bytes_snoc)
qed

lemma from_be_bytes_u32: "v \<le> u32_max \<Longrightarrow> from_be_bytes (be_bytes 4 v) = v"
  by (rule from_be_bytes_be_bytes) (simp add: u32_max_def)

lemma from_be_bytes_u64: "v \<le> u64_max \<Longrightarrow> from_be_bytes (be_bytes 8 v) = v"
  by (rule from_be_bytes_be_bytes) (simp add: u64_max_def)

lemma of_char_nat_less_256: "(of_char b :: nat) < 256"
proof -
  have "of_char b = (of_char b :: nat) mod 256" by (simp add: char_of_def [symmetric])
  then show ?thesis by (metis mod_less_divisor zero_less_numeral)
qed

lemma from_be_bytes_less: "from_be_bytes bs < 256 ^ length bs"
proof (induction bs rule: rev_induct)
  case Nil
  then show ?case by (simp add: from_be_bytes_def)
next
  case (snoc b bs)
  have "from_be_bytes bs * 256 + of_char b < (from_be_bytes bs + 1) * 256"
    using of_char_nat_less_256 [of b] by simp
  also have "\<dots> \<le> 256 ^ length bs * 256"
    using snoc.IH by (metis Suc_eq_plus1 Suc_leI mult_le_mono1)
  finally show ?case by (simp add: from_be_bytes_snoc ac_simps)
qed

lemma be_bytes_from_be_bytes: "length bs = w \<Longrightarrow> be_bytes w (from_be_bytes bs) = bs"
proof (induction bs arbitrary: w rule: rev_induct)
  case (snoc b bs)
  then obtain v where "w = Suc v" "length bs = v" by (cases w) auto
  with snoc.IH [of v] show ?case
    using of_char_nat_less_256 [of b] by (simp add: from_be_bytes_snoc)
qed simp

lemma be_bytes_inj: "a < 256 ^ w \<Longrightarrow> b < 256 ^ w \<Longrightarrow> be_bytes w a = be_bytes w b \<Longrightarrow> a = b"
  by (metis from_be_bytes_be_bytes)

text \<open>
  Reading the ordinary permission bits: \<open>mode & 0o777\<close>. The mask is written with the bit
  operation of the source; the arithmetic form is the one the proofs use.
\<close>

unbundle bit_operations_syntax

definition mode_bits :: "nat \<Rightarrow> nat" where
  "mode_bits m = m AND 511"

lemma mode_bits_mod: "mode_bits m = m mod 512"
proof -
  have "(511 :: nat) = mask 9" by (simp add: mask_eq_exp_minus_1)
  then have "m AND 511 = take_bit 9 m" by (simp add: take_bit_eq_mask)
  then show ?thesis by (simp add: mode_bits_def take_bit_eq_mod)
qed

lemma mode_bits_le [simp]: "mode_bits m \<le> 511"
  by (simp add: mode_bits_mod less_Suc_eq_le [symmetric])

lemma mode_bits_idem [simp]: "mode_bits (mode_bits m) = mode_bits m"
  by (simp add: mode_bits_mod)

lemma mode_bits_id: "m \<le> 511 \<Longrightarrow> mode_bits m = m"
  by (simp add: mode_bits_mod)

subsection \<open>Byte-string helpers of the standard library\<close>

definition starts_with :: "string \<Rightarrow> string \<Rightarrow> bool" where
  "starts_with s p \<longleftrightarrow> take (length p) s = p"

text \<open>\<open>str::split\<close>: the pieces between the separators, one more than there are separators.\<close>

fun split_on :: "char \<Rightarrow> string \<Rightarrow> string list" where
  "split_on sep [] = [[]]"
| "split_on sep (c # cs) =
     (if c = sep then [] # split_on sep cs
      else (case split_on sep cs of [] \<Rightarrow> [[c]] | piece # rest \<Rightarrow> (c # piece) # rest))"

lemma split_on_chars: "list_all (list_all P) (split_on sep s) \<Longrightarrow> list_all (\<lambda>c. P c \<or> c = sep) s"
proof (induction s)
  case (Cons c s)
  then show ?case
    by (cases "split_on sep s") (auto split: if_splits elim: list.pred_mono_strong)
qed simp

lemma split_on_not_Nil [simp]: "split_on sep s \<noteq> []"
  by (induction s) (auto split: list.splits)

lemma split_on_absent: "sep \<notin> set s \<Longrightarrow> split_on sep s = [s]"
  by (induction s) auto

lemma split_on_append: "sep \<notin> set p \<Longrightarrow> split_on sep (p @ sep # s) = p # split_on sep s"
  by (induction p) auto

definition strip_prefix :: "string \<Rightarrow> string \<Rightarrow> string option" where
  "strip_prefix s p = (if starts_with s p then Some (drop (length p) s) else None)"

definition ends_with :: "string \<Rightarrow> string \<Rightarrow> bool" where
  "ends_with s p \<longleftrightarrow> length p \<le> length s \<and> drop (length s - length p) s = p"

definition strip_suffix :: "string \<Rightarrow> string \<Rightarrow> string option" where
  "strip_suffix s p = (if ends_with s p then Some (take (length s - length p) s) else None)"

lemma starts_with_iff: "starts_with s p \<longleftrightarrow> (\<exists>t. s = p @ t)"
  unfolding starts_with_def by (metis append_eq_conv_conj append_take_drop_id)

lemma strip_prefix_eq_Some: "strip_prefix s p = Some t \<longleftrightarrow> s = p @ t"
  unfolding strip_prefix_def starts_with_def
  by (metis append_eq_conv_conj option.distinct(1) option.inject)

lemma strip_prefix_append [simp]: "strip_prefix (p @ t) p = Some t"
  by (simp add: strip_prefix_eq_Some)

lemma ends_with_iff: "ends_with s p \<longleftrightarrow> (\<exists>t. s = t @ p)"
proof
  assume "ends_with s p"
  then show "\<exists>t. s = t @ p"
    unfolding ends_with_def by (metis append_take_drop_id)
next
  assume "\<exists>t. s = t @ p"
  then show "ends_with s p" unfolding ends_with_def by auto
qed

lemma strip_suffix_eq_Some: "strip_suffix s p = Some t \<longleftrightarrow> s = t @ p"
proof
  assume "strip_suffix s p = Some t"
  then show "s = t @ p"
    unfolding strip_suffix_def ends_with_def by (metis append_take_drop_id option.distinct(1) option.inject)
next
  assume "s = t @ p"
  then show "strip_suffix s p = Some t"
    unfolding strip_suffix_def ends_with_def by simp
qed

text \<open>ASCII classes of \<open>u8\<close>.\<close>

definition byte_in :: "char \<Rightarrow> char \<Rightarrow> char \<Rightarrow> bool" where
  "byte_in lo hi b \<longleftrightarrow> (of_char lo :: nat) \<le> of_char b \<and> (of_char b :: nat) \<le> of_char hi"

definition is_ascii_digit :: "char \<Rightarrow> bool" where
  "is_ascii_digit b \<longleftrightarrow> byte_in (CHR ''0'') (CHR ''9'') b"

definition is_ascii_alphanumeric :: "char \<Rightarrow> bool" where
  "is_ascii_alphanumeric b \<longleftrightarrow>
     is_ascii_digit b \<or> byte_in (CHR ''a'') (CHR ''z'') b \<or> byte_in (CHR ''A'') (CHR ''Z'') b"

definition to_ascii_lowercase :: "char \<Rightarrow> char" where
  "to_ascii_lowercase b =
     (if byte_in (CHR ''A'') (CHR ''Z'') b then char_of ((of_char b :: nat) + 32) else b)"

lemmas ascii_defs = byte_in_def is_ascii_digit_def is_ascii_alphanumeric_def

text \<open>The sixteen lowercase digits used by every hexadecimal encoder of the sources.\<close>

definition hex_digits :: string where
  "hex_digits = ''0123456789abcdef''"

definition hex_byte :: "char \<Rightarrow> string" where
  "hex_byte b = [hex_digits ! ((of_char b :: nat) div 16), hex_digits ! ((of_char b :: nat) mod 16)]"

definition is_lower_hex :: "char \<Rightarrow> bool" where
  "is_lower_hex b \<longleftrightarrow> is_ascii_digit b \<or> byte_in (CHR ''a'') (CHR ''f'') b"

lemma hex_digits_lower: "d < 16 \<Longrightarrow> is_lower_hex (hex_digits ! d)"
  by (auto simp: hex_digits_def is_lower_hex_def ascii_defs less_Suc_eq numeral_eq_Suc)

lemma length_hex_byte [simp]: "length (hex_byte b) = 2"
  by (simp add: hex_byte_def)

lemma hex_byte_lower: "list_all is_lower_hex (hex_byte b)"
proof -
  have "(of_char b :: nat) div 16 < 16"
    using of_char_nat_less_256 [of b] by (simp add: less_mult_imp_div_less)
  then show ?thesis by (simp add: hex_byte_def hex_digits_lower)
qed

end
