(* ===== verification/Space_Model.thy ===== *)
theory Space_Model
  imports Quarters_Prelude
begin

text \<open>
  Validated names, identifiers and space manifests: \<open>model.rs\<close> of the core crate, the
  artifact identifiers of \<open>store/artifact/model.rs\<close>, the manifest and anchor policy of
  \<open>store_policy.rs\<close>. The four newtypes share one interface, the locale
  \<open>validated_string\<close>; every identifier is moreover a safe, visible path component, which is
  what the store relies on when it joins a name to a directory.
\<close>

subsection \<open>Newtypes and their grammars\<close>

datatype space_id = SpaceId (space_id_as_str: string)
datatype space_name = SpaceName (space_name_as_str: string)
datatype artifact_id = ArtifactId (artifact_id_as_str: string)
datatype artifact_name = ArtifactName (artifact_name_as_str: string)

definition hex_id_grammar :: "string \<Rightarrow> bool" where
  "hex_id_grammar value \<longleftrightarrow> length value = 32 \<and> list_all is_lower_hex value"

definition portable_name_grammar :: "string \<Rightarrow> bool" where
  "portable_name_grammar value \<longleftrightarrow>
     (1 \<le> length value \<and> length value \<le> 32) \<and>
     (case value of [] \<Rightarrow> False | byte # _ \<Rightarrow> is_ascii_alphanumeric byte) \<and>
     list_all (\<lambda>byte. is_ascii_alphanumeric byte \<or> byte = CHR ''-'' \<or> byte = CHR ''_'') value"

definition space_id_parse :: "string \<Rightarrow> space_id result" where
  "space_id_parse value =
     (if length value = 32 \<and>
         list_all (\<lambda>byte. is_ascii_digit byte \<or> byte_in (CHR ''a'') (CHR ''f'') byte) value
      then Ok (SpaceId value)
      else Err InvalidInput ''space IDs must be exactly 32 lowercase hexadecimal characters'')"

definition space_name_parse :: "string \<Rightarrow> space_name result" where
  "space_name_parse value =
     (let valid_length = 1 \<le> length value \<and> length value \<le> 32;
          valid_start = (case value of [] \<Rightarrow> False | byte # _ \<Rightarrow> is_ascii_alphanumeric byte);
          valid_body = list_all (\<lambda>byte. is_ascii_alphanumeric byte \<or> byte = CHR ''-'' \<or> byte = CHR ''_'') value
      in if valid_length \<and> valid_start \<and> valid_body then Ok (SpaceName value)
         else Err InvalidInput ''space names must be 1-32 ASCII letters, numbers, hyphens or underscores and start with a letter or number'')"

definition artifact_id_parse :: "string \<Rightarrow> artifact_id result" where
  "artifact_id_parse value =
     (if length value = 32 \<and>
         list_all (\<lambda>byte. is_ascii_digit byte \<or> byte_in (CHR ''a'') (CHR ''f'') byte) value
      then Ok (ArtifactId value)
      else Err InvalidInput ''artifact IDs must be exactly 32 lowercase hexadecimal characters'')"

definition artifact_name_parse :: "string \<Rightarrow> artifact_name result" where
  "artifact_name_parse value =
     (if (1 \<le> length value \<and> length value \<le> 32) \<and>
         (case value of [] \<Rightarrow> False | byte # _ \<Rightarrow> is_ascii_alphanumeric byte) \<and>
         list_all (\<lambda>byte. is_ascii_alphanumeric byte \<or> byte = CHR ''-'' \<or> byte = CHR ''_'') value
      then Ok (ArtifactName value)
      else Err InvalidInput ''artifact names must be 1-32 ASCII letters, numbers, hyphens or underscores and start with a letter or number'')"

text \<open>
  Generation: the sixteen bytes come from the operating system (\<open>None\<close> when it has no
  randomness), are encoded as hexadecimal and go through the parser.
\<close>

definition space_id_generate :: "string option \<Rightarrow> space_id result" where
  "space_id_generate random =
     (case random of
        None \<Rightarrow> Err SystemError ''could not obtain randomness for a stable space ID''
      | Some bytes \<Rightarrow> space_id_parse (concat (map hex_byte bytes)))"

definition artifact_id_generate :: "string option \<Rightarrow> artifact_id result" where
  "artifact_id_generate random =
     (case random of
        None \<Rightarrow> Err SystemError ''could not obtain randomness for an artifact ID''
      | Some bytes \<Rightarrow> artifact_id_parse (concat (map hex_byte bytes)))"

text \<open>\<open>SpaceName\<close> derives its order from the underlying string; sorting by target uses it.\<close>

instantiation space_name :: linorder
begin

definition less_eq_space_name :: "space_name \<Rightarrow> space_name \<Rightarrow> bool" where
  "less_eq_space_name a b \<longleftrightarrow> space_name_as_str a \<le> space_name_as_str b"

definition less_space_name :: "space_name \<Rightarrow> space_name \<Rightarrow> bool" where
  "less_space_name a b \<longleftrightarrow> space_name_as_str a < space_name_as_str b"

instance
  by standard (auto simp: less_eq_space_name_def less_space_name_def space_name.expand)

end

subsection \<open>The interface of a validated newtype\<close>

text \<open>
  A name that is joined to a directory must be a single visible component: not empty, without
  separator or NUL, and not starting with a dot (so neither a special entry nor one of the
  store's hidden control entries), and within one directory entry's length.
\<close>

definition visible_component :: "string \<Rightarrow> bool" where
  "visible_component value \<longleftrightarrow>
     value \<noteq> [] \<and> hd value \<noteq> CHR ''.'' \<and> CHR ''/'' \<notin> set value \<and> CHR 0x00 \<notin> set value \<and>
     length value \<le> 255"

locale validated_string =
  fixes parse :: "string \<Rightarrow> 'a result"
    and as_str :: "'a \<Rightarrow> string"
    and grammar :: "string \<Rightarrow> bool"
  assumes parse_accepts: "grammar v \<Longrightarrow> \<exists>x. parse v = Ok x \<and> as_str x = v"
    and parse_rejects: "\<not> grammar v \<Longrightarrow> \<exists>m. parse v = Err InvalidInput m"
    and as_str_inject: "as_str x = as_str y \<Longrightarrow> x = y"
    and grammar_visible: "grammar v \<Longrightarrow> visible_component v"
begin

lemma parse_eq_Ok: "parse v = Ok x \<longleftrightarrow> grammar v \<and> as_str x = v"
  by (metis Inl_Inr_False Inr_inject as_str_inject parse_accepts parse_rejects)

lemma parse_round_trip: "parse v = Ok x \<Longrightarrow> parse (as_str x) = Ok x"
  by (simp add: parse_eq_Ok)

lemma parse_injective: "parse v = Ok x \<Longrightarrow> parse w = Ok x \<Longrightarrow> v = w"
  by (simp add: parse_eq_Ok)

lemma parse_visible: "parse v = Ok x \<Longrightarrow> visible_component (as_str x)"
  by (auto simp: parse_eq_Ok intro: grammar_visible)

lemma parse_error_kind: "parse v = Inl e \<Longrightarrow> kind e = InvalidInput"
  by (metis parse_accepts parse_rejects Inl_Inr_False Inl_inject quarters_error.sel(1))

end

lemma alphanumeric_not_control:
  "is_ascii_alphanumeric b \<Longrightarrow> b \<noteq> CHR ''/'' \<and> b \<noteq> CHR 0x00 \<and> b \<noteq> CHR ''.''"
  by (auto simp: ascii_defs)

lemma lower_hex_alphanumeric: "is_lower_hex b \<Longrightarrow> is_ascii_alphanumeric b"
  by (auto simp: is_lower_hex_def ascii_defs)

lemma portable_name_visible: "portable_name_grammar v \<Longrightarrow> visible_component v"
  by (cases v) (auto simp: portable_name_grammar_def visible_component_def list_all_iff
      dest: alphanumeric_not_control)

lemma hex_id_visible: "hex_id_grammar v \<Longrightarrow> visible_component v"
  by (cases v) (auto simp: hex_id_grammar_def visible_component_def list_all_iff
      dest!: alphanumeric_not_control dest: lower_hex_alphanumeric)

lemma hex_id_grammar_alt:
  "hex_id_grammar v \<longleftrightarrow> length v = 32 \<and>
     list_all (\<lambda>byte. is_ascii_digit byte \<or> byte_in (CHR ''a'') (CHR ''f'') byte) v"
  by (simp add: hex_id_grammar_def is_lower_hex_def list_all_iff)

interpretation space_ids: validated_string space_id_parse space_id_as_str hex_id_grammar
  by unfold_locales
    (auto simp: space_id_parse_def hex_id_grammar_alt [symmetric] space_id.expand hex_id_visible)

interpretation artifact_ids: validated_string artifact_id_parse artifact_id_as_str hex_id_grammar
  by unfold_locales
    (auto simp: artifact_id_parse_def hex_id_grammar_alt [symmetric] artifact_id.expand hex_id_visible)

interpretation space_names: validated_string space_name_parse space_name_as_str portable_name_grammar
  by unfold_locales
    (auto simp: space_name_parse_def portable_name_grammar_def Let_def space_name.expand
      intro: portable_name_visible [unfolded portable_name_grammar_def])

interpretation artifact_names: validated_string artifact_name_parse artifact_name_as_str portable_name_grammar
  by unfold_locales
    (auto simp: artifact_name_parse_def portable_name_grammar_def artifact_name.expand
      intro: portable_name_visible [unfolded portable_name_grammar_def])

subsection \<open>Generated identifiers\<close>

lemma length_concat_hex [simp]: "length (concat (map hex_byte bs)) = 2 * length bs"
  by (induction bs) auto

lemma concat_hex_lower: "list_all is_lower_hex (concat (map hex_byte bs))"
  by (induction bs) (auto simp: hex_byte_lower)

lemma hex_id_of_bytes: "length bs = 16 \<Longrightarrow> hex_id_grammar (concat (map hex_byte bs))"
  by (simp add: hex_id_grammar_def concat_hex_lower)

lemma hex_digits_inj: "i < 16 \<Longrightarrow> j < 16 \<Longrightarrow> hex_digits ! i = hex_digits ! j \<Longrightarrow> i = j"
  using nth_eq_iff_index_eq [of hex_digits i j] by (simp add: hex_digits_def)

lemma hex_byte_inj: "hex_byte a = hex_byte b \<Longrightarrow> a = b"
proof -
  assume eq: "hex_byte a = hex_byte b"
  have div: "(of_char c :: nat) div 16 < 16" for c
    using of_char_nat_less_256 [of c] by (simp add: less_mult_imp_div_less)
  from eq have "(of_char a :: nat) div 16 = of_char b div 16"
    using hex_digits_inj [OF div [of a] div [of b]] by (simp add: hex_byte_def)
  moreover from eq have "(of_char a :: nat) mod 16 = of_char b mod 16"
    using hex_digits_inj [of "of_char a mod 16" "of_char b mod 16"] by (simp add: hex_byte_def)
  ultimately have "(of_char a :: nat) = of_char b" by (metis div_mod_decomp)
  then show "a = b" by simp
qed

lemma concat_hex_inj: "concat (map hex_byte as) = concat (map hex_byte bs) \<Longrightarrow> as = bs"
proof (induction as arbitrary: bs)
  case Nil
  then show ?case by (cases bs) (auto simp: hex_byte_def)
next
  case (Cons a as)
  from Cons.prems obtain b bs' where "bs = b # bs'" by (cases bs) (auto simp: hex_byte_def)
  with Cons show ?case by (auto simp: append_eq_append_conv dest: hex_byte_inj)
qed

lemma space_id_generate_ok:
  "length bytes = 16 \<Longrightarrow> space_id_generate (Some bytes) = Ok (SpaceId (concat (map hex_byte bytes)))"
  by (simp add: space_id_generate_def space_ids.parse_eq_Ok hex_id_of_bytes)

lemma artifact_id_generate_ok:
  "length bytes = 16 \<Longrightarrow> artifact_id_generate (Some bytes) = Ok (ArtifactId (concat (map hex_byte bytes)))"
  by (simp add: artifact_id_generate_def artifact_ids.parse_eq_Ok hex_id_of_bytes)

end
