(* ===== verification/Fs_Types.thy ===== *)
theory Fs_Types
  imports Space_Model
begin

text \<open>
  What the kernel reports to the program: the metadata record of \<open>stat\<close>, the outcome of one
  system call, the private-anchor policy of \<open>store_policy.rs\<close> and the bounded private read of
  \<open>store/private_read.rs\<close>. The file system itself is outside the program; a function that
  inspects it takes the observations it makes, in the order it makes them, so that an entry
  replaced between two calls is an input like any other.
\<close>

subsection \<open>Metadata\<close>

record file_stat =
  st_dev :: nat
  st_ino :: nat
  st_uid :: nat
  st_gid :: nat
  st_mode :: nat
  st_nlink :: nat
  st_size :: int
  st_mtime :: int
  st_mtime_nsec :: int
  st_ctime :: int
  st_ctime_nsec :: int

definition S_IFMT :: nat where "S_IFMT = 61440"
definition S_IFIFO :: nat where "S_IFIFO = 4096"
definition S_IFCHR :: nat where "S_IFCHR = 8192"
definition S_IFDIR :: nat where "S_IFDIR = 16384"
definition S_IFBLK :: nat where "S_IFBLK = 24576"
definition S_IFREG :: nat where "S_IFREG = 32768"
definition S_IFLNK :: nat where "S_IFLNK = 40960"
definition S_IFSOCK :: nat where "S_IFSOCK = 49152"

lemmas s_kinds = S_IFIFO_def S_IFCHR_def S_IFDIR_def S_IFBLK_def S_IFREG_def S_IFLNK_def S_IFSOCK_def

definition s_kind :: "nat \<Rightarrow> nat" where
  "s_kind mode = mode AND S_IFMT"

abbreviation is_dir :: "file_stat \<Rightarrow> bool" where "is_dir m \<equiv> s_kind (st_mode m) = S_IFDIR"
abbreviation is_file :: "file_stat \<Rightarrow> bool" where "is_file m \<equiv> s_kind (st_mode m) = S_IFREG"
abbreviation is_symlink :: "file_stat \<Rightarrow> bool" where "is_symlink m \<equiv> s_kind (st_mode m) = S_IFLNK"

text \<open>\<open>mode & 0o111 != 0\<close>.\<close>

definition executable_bits :: "nat \<Rightarrow> bool" where
  "executable_bits mode \<longleftrightarrow> mode div 64 mod 2 = 1 \<or> mode div 8 mod 2 = 1 \<or> mode mod 2 = 1"

text \<open>
  The outcome of one call: a value, the error the sources distinguish (\<open>ENOENT\<close>), or any other
  failure.
\<close>

datatype 'a sys = SysOk 'a | SysNotFound | SysFail

subsection \<open>Identity rechecks\<close>

text \<open>
  Every walker compares the metadata of an entry with what the opened descriptor and later
  lookups report; all fields that can change without a new inode take part.
\<close>

definition same_timestamps :: "file_stat \<Rightarrow> file_stat \<Rightarrow> bool" where
  "same_timestamps expected actual \<longleftrightarrow>
     st_mtime expected = st_mtime actual \<and> st_mtime_nsec expected = st_mtime_nsec actual \<and>
     st_ctime expected = st_ctime actual \<and> st_ctime_nsec expected = st_ctime_nsec actual"

definition same_entry :: "file_stat \<Rightarrow> file_stat \<Rightarrow> nat \<Rightarrow> bool" where
  "same_entry expected actual k \<longleftrightarrow>
     st_dev expected = st_dev actual \<and> st_ino expected = st_ino actual \<and>
     st_uid expected = st_uid actual \<and> st_gid expected = st_gid actual \<and>
     st_mode expected = st_mode actual \<and> st_nlink expected = st_nlink actual \<and>
     st_size expected = st_size actual \<and> same_timestamps expected actual \<and>
     s_kind (st_mode actual) = k"

lemma same_entry_iff: "same_entry a b k \<longleftrightarrow> a = b \<and> s_kind (st_mode b) = k"
  by (auto simp: same_entry_def same_timestamps_def)

subsection \<open>Private anchors (\<open>store_policy.rs\<close>)\<close>

definition validate_store_root :: "nat \<Rightarrow> file_stat \<Rightarrow> unit result" where
  "validate_store_root uid m =
     (let protected_from_other_writers = (st_mode m AND 18 = 0) in
      if is_dir m \<and> st_uid m = uid \<and> protected_from_other_writers then Ok ()
      else Err CorruptState
        (if is_symlink m then ''it is a symbolic link''
         else if \<not> is_dir m then ''it is not a directory''
         else if st_uid m \<noteq> uid then ''it is not owned by the current user''
         else ''it is writable by another user or group''))"

definition validate_private_dir :: "nat \<Rightarrow> file_stat \<Rightarrow> unit result" where
  "validate_private_dir uid m =
     (let private_mode = (mode_bits (st_mode m) = 448) in
      if is_dir m \<and> st_uid m = uid \<and> private_mode then Ok ()
      else Err CorruptState
        (if is_symlink m then ''it is a symbolic link''
         else if \<not> is_dir m then ''it is not a directory''
         else if st_uid m \<noteq> uid then ''it is not owned by the current user''
         else ''its mode is not 0700''))"

definition validate_private_file :: "nat \<Rightarrow> file_stat \<Rightarrow> unit result" where
  "validate_private_file uid m =
     (let private_mode = (mode_bits (st_mode m) = 384); single_link = (st_nlink m = 1) in
      if is_file m \<and> st_uid m = uid \<and> private_mode \<and> single_link then Ok ()
      else Err CorruptState
        (if is_symlink m then ''it is a symbolic link''
         else if \<not> is_file m then ''it is not a regular file''
         else if st_uid m \<noteq> uid then ''it is not owned by the current user''
         else if \<not> private_mode then ''its mode is not 0600''
         else if st_nlink m = 0 then ''it has no remaining link; it was removed or replaced while being inspected''
         else ''it has more than one hard link''))"

definition private_dir_stat :: "nat \<Rightarrow> file_stat \<Rightarrow> bool" where
  "private_dir_stat uid m \<longleftrightarrow> is_dir m \<and> st_uid m = uid \<and> mode_bits (st_mode m) = 448"

definition private_file_stat :: "nat \<Rightarrow> file_stat \<Rightarrow> bool" where
  "private_file_stat uid m \<longleftrightarrow>
     is_file m \<and> st_uid m = uid \<and> mode_bits (st_mode m) = 384 \<and> st_nlink m = 1"

lemma validate_private_dir_ok [result_simps]:
  "validate_private_dir uid m = Ok u \<longleftrightarrow> private_dir_stat uid m"
  by (auto simp: validate_private_dir_def private_dir_stat_def Let_def)

lemma validate_private_file_ok [result_simps]:
  "validate_private_file uid m = Ok u \<longleftrightarrow> private_file_stat uid m"
  by (auto simp: validate_private_file_def private_file_stat_def Let_def)

lemma validate_private_file_kind:
  "validate_private_file uid m = Inl e \<Longrightarrow> kind e = CorruptState"
  by (auto simp: validate_private_file_def Let_def split: if_splits)

subsection \<open>Bounded private reads (\<open>store/private_read.rs\<close>)\<close>

definition MAX_MANIFEST_BYTES :: nat where "MAX_MANIFEST_BYTES = 16 * 1024"
definition REPLACED_FILE_READ_ATTEMPTS :: nat where "REPLACED_FILE_READ_ATTEMPTS = 8"

text \<open>
  One attempt: the metadata of the name, the opened descriptor with its own metadata, and the
  bytes that reading the descriptor to its end would deliver.
\<close>

record private_read =
  pr_path :: "file_stat sys"
  pr_open :: "unit sys"
  pr_file :: "file_stat sys"
  pr_bytes :: "string sys"

definition missing_private_file :: "'a sys \<Rightarrow> 'b result" where
  "missing_private_file outcome =
     (case outcome of
        SysNotFound \<Rightarrow> Err CorruptState ''required private file is missing''
      | _ \<Rightarrow> Err SystemError ''inspect private file'')"

definition read_private_file_once :: "nat \<Rightarrow> private_read \<Rightarrow> string option result" where
  "read_private_file_once uid obs =
     (case pr_path obs of
        SysOk path_metadata \<Rightarrow>
          if st_nlink path_metadata = 0 then Ok None
          else rbind (validate_private_file uid path_metadata) (\<lambda>_.
            case pr_open obs of
              SysOk _ \<Rightarrow>
                (case pr_file obs of
                   SysOk file_metadata \<Rightarrow>
                     let same_inode = (st_dev path_metadata = st_dev file_metadata \<and>
                                       st_ino path_metadata = st_ino file_metadata)
                     in if st_nlink file_metadata = 0 \<or> \<not> same_inode then Ok None
                        else rbind (validate_private_file uid file_metadata) (\<lambda>_.
                          if st_size file_metadata > int MAX_MANIFEST_BYTES
                          then Err CorruptState ''private metadata file is larger than the bound''
                          else (case pr_bytes obs of
                              SysOk content \<Rightarrow>
                                let bytes = take (MAX_MANIFEST_BYTES + 1) content in
                                if length bytes > MAX_MANIFEST_BYTES
                                then Err CorruptState ''private metadata file grew beyond the bound''
                                else Ok (Some bytes)
                            | _ \<Rightarrow> Err SystemError ''read private file''))
                 | _ \<Rightarrow> Err SystemError ''inspect private file'')
            | _ \<Rightarrow> Err SystemError ''open private file'')
      | outcome \<Rightarrow> missing_private_file outcome)"

definition replacement_backoff :: "nat \<Rightarrow> nat" where
  "replacement_backoff attempt = push_bit (min attempt (REPLACED_FILE_READ_ATTEMPTS - 1)) 1"

text \<open>The retry loop; \<open>attempts\<close> lists the observations that are still allowed.\<close>

fun read_private_file_from :: "nat \<Rightarrow> private_read list \<Rightarrow> string result" where
  "read_private_file_from uid [] =
     Err ResourceLimit ''a private metadata file kept being replaced during a bounded read''"
| "read_private_file_from uid (obs # attempts) =
     rbind (read_private_file_once uid obs) (\<lambda>once.
     case once of Some bytes \<Rightarrow> Ok bytes | None \<Rightarrow> read_private_file_from uid attempts)"

definition read_private_file :: "nat \<Rightarrow> (nat \<Rightarrow> private_read) \<Rightarrow> string result" where
  "read_private_file uid obs = read_private_file_from uid (map obs [0..<REPLACED_FILE_READ_ATTEMPTS])"

text \<open>A successful attempt read the inode whose name was accepted, and no more than the bound.\<close>

definition trusted_read :: "nat \<Rightarrow> private_read \<Rightarrow> string \<Rightarrow> bool" where
  "trusted_read uid obs bytes \<longleftrightarrow>
     (\<exists>p f. pr_path obs = SysOk p \<and> pr_file obs = SysOk f \<and> pr_bytes obs = SysOk bytes \<and>
        st_dev p = st_dev f \<and> st_ino p = st_ino f \<and>
        private_file_stat uid p \<and> private_file_stat uid f \<and> length bytes \<le> MAX_MANIFEST_BYTES)"

lemma read_private_file_once_trusted:
  "read_private_file_once uid obs = Ok (Some bytes) \<Longrightarrow> trusted_read uid obs bytes"
  by (auto simp: read_private_file_once_def trusted_read_def missing_private_file_def Let_def
      rbind_eq_Inr validate_private_file_ok split: sys.splits if_splits)

lemma read_private_file_from_trusted:
  "read_private_file_from uid attempts = Ok bytes \<Longrightarrow> \<exists>obs\<in>set attempts. trusted_read uid obs bytes"
proof (induction attempts)
  case (Cons obs attempts)
  then show ?case
    by (auto simp: rbind_eq_Inr split: option.splits dest: read_private_file_once_trusted)
qed simp

text \<open>A file that is not being replaced: every call sees the same inode and content.\<close>

definition quiet_read :: "(file_stat \<times> string) option \<Rightarrow> nat \<Rightarrow> private_read" where
  "quiet_read entry attempt =
     (case entry of
        None \<Rightarrow> \<lparr>pr_path = SysNotFound, pr_open = SysNotFound, pr_file = SysNotFound, pr_bytes = SysNotFound\<rparr>
      | Some (m, bytes) \<Rightarrow> \<lparr>pr_path = SysOk m, pr_open = SysOk (), pr_file = SysOk m, pr_bytes = SysOk bytes\<rparr>)"

lemma read_attempts_unfold:
  "read_private_file uid obs =
     rbind (read_private_file_once uid (obs 0)) (\<lambda>once.
       case once of Some bytes \<Rightarrow> Ok bytes
       | None \<Rightarrow> read_private_file_from uid (map obs [1..<REPLACED_FILE_READ_ATTEMPTS]))"
  unfolding read_private_file_def REPLACED_FILE_READ_ATTEMPTS_def One_nat_def by (simp add: upt_rec [of 0])

lemma read_private_file_quiet:
  assumes "private_file_stat uid m" and "st_size m = int (length bytes)"
    and "length bytes \<le> MAX_MANIFEST_BYTES"
  shows "read_private_file uid (quiet_read (Some (m, bytes))) = Ok bytes"
proof -
  have "validate_private_file uid m = Ok ()" using assms(1) by (simp add: validate_private_file_ok)
  moreover have "st_nlink m \<noteq> 0" using assms(1) by (simp add: private_file_stat_def)
  ultimately have "read_private_file_once uid (quiet_read (Some (m, bytes)) 0) = Ok (Some bytes)"
    using assms(2,3) by (simp add: read_private_file_once_def quiet_read_def)
  then show ?thesis by (simp add: read_attempts_unfold)
qed

lemma read_private_file_missing:
  "read_private_file uid (quiet_read None) = Err CorruptState ''required private file is missing''"
  by (simp add: read_attempts_unfold read_private_file_once_def quiet_read_def missing_private_file_def)

lemma replacement_backoff_total:
  "(\<Sum>attempt<REPLACED_FILE_READ_ATTEMPTS. replacement_backoff attempt) = 255"
  by (simp add: REPLACED_FILE_READ_ATTEMPTS_def replacement_backoff_def lessThan_nat_numeral
      push_bit_eq_mult)

end
