(* ===== verification/Paths.thy ===== *)
theory Paths
  imports Quarters_Prelude
begin

text \<open>
  Relative paths, symbolic-link containment and the fixed lifecycle limits: the byte-level
  splitting and joining that the bundle format and the canonical digest share, the lexical
  resolution of \<open>store/lifecycle/walk.rs\<close> on top of \<open>std::path::Path::components\<close>, and
  \<open>CloneLimits\<close> of \<open>store/lifecycle/policy.rs\<close>.
\<close>

subsection \<open>Splitting and joining on the separator\<close>

fun split_slash :: "string \<Rightarrow> string list" where
  "split_slash [] = [[]]"
| "split_slash (c # cs) =
     (if c = CHR ''/'' then [] # split_slash cs
      else case split_slash cs of [] \<Rightarrow> [[c]] | q # qs \<Rightarrow> (c # q) # qs)"

fun join_slash :: "string list \<Rightarrow> string" where
  "join_slash [] = []"
| "join_slash [q] = q"
| "join_slash (q # qs) = q @ CHR ''/'' # join_slash qs"

lemma split_slash_not_Nil [simp]: "split_slash s \<noteq> []"
  by (induction s) (auto split: list.splits)

lemma join_slash_Cons: "qs \<noteq> [] \<Longrightarrow> join_slash (q # qs) = q @ CHR ''/'' # join_slash qs"
  by (cases qs) auto

lemma join_split_slash: "join_slash (split_slash s) = s"
proof (induction s)
  case (Cons c cs)
  then show ?case
    by (cases "split_slash cs"; cases "tl (split_slash cs)") (auto simp: join_slash_Cons)
qed simp

lemma split_slash_component: "q \<in> set (split_slash s) \<Longrightarrow> CHR ''/'' \<notin> set q"
  by (induction s arbitrary: q) (auto split: if_splits list.splits)

lemma split_slash_no_slash: "CHR ''/'' \<notin> set q \<Longrightarrow> split_slash q = [q]"
  by (induction q) auto

lemma split_slash_append:
  "CHR ''/'' \<notin> set q \<Longrightarrow> split_slash (q @ CHR ''/'' # s) = q # split_slash s"
  by (induction q) auto

lemma split_join_slash:
  "qs \<noteq> [] \<Longrightarrow> \<forall>q\<in>set qs. CHR ''/'' \<notin> set q \<Longrightarrow> split_slash (join_slash qs) = qs"
proof (induction qs)
  case (Cons q qs)
  then show ?case
    by (cases "qs = []") (auto simp: join_slash_Cons split_slash_no_slash split_slash_append)
qed simp

lemma join_slash_snoc:
  "join_slash (qs @ [q]) = (if qs = [] then q else join_slash qs @ CHR ''/'' # q)"
  by (induction qs rule: join_slash.induct) auto

lemma set_join_slash: "set (join_slash qs) \<subseteq> insert (CHR ''/'') (\<Union>q\<in>set qs. set q)"
  by (induction qs rule: join_slash.induct) auto

lemma length_join_slash: "length (join_slash qs) = sum_list (map length qs) + (length qs - 1)"
  by (induction qs rule: join_slash.induct) auto

lemma join_slash_inj:
  assumes "as \<noteq> []" and "bs \<noteq> []" and "\<forall>q\<in>set as \<union> set bs. CHR ''/'' \<notin> set q"
    and "join_slash as = join_slash bs"
  shows "as = bs"
proof -
  have "split_slash (join_slash as) = as" using assms(1,3) by (intro split_join_slash) auto
  moreover have "split_slash (join_slash bs) = bs" using assms(2,3) by (intro split_join_slash) auto
  ultimately show ?thesis using assms(4) by metis
qed

subsection \<open>Path components\<close>

definition is_absolute :: "string \<Rightarrow> bool" where
  "is_absolute path \<longleftrightarrow> starts_with path ''/''"

lemma is_absolute_Cons [simp]: "is_absolute (c # cs) \<longleftrightarrow> c = CHR ''/''"
  and is_absolute_Nil [simp]: "\<not> is_absolute []"
  by (auto simp: is_absolute_def starts_with_def)

datatype path_component = RootDir | CurDir | ParentDir | Normal string

text \<open>
  The component iterator of \<open>std::path\<close> on Unix: repeated separators and inner dots vanish, a
  leading dot of a relative path is reported.
\<close>

definition body_component :: "string \<Rightarrow> path_component list" where
  "body_component q =
     (if q = [] \<or> q = ''.'' then [] else if q = ''..'' then [ParentDir] else [Normal q])"

definition path_components :: "string \<Rightarrow> path_component list" where
  "path_components path =
     (if is_absolute path then RootDir # concat (map body_component (split_slash path))
      else (case split_slash path of
          [] \<Rightarrow> []
        | q # qs \<Rightarrow> (if q = ''.'' then [CurDir] else body_component q) @ concat (map body_component qs)))"

fun resolve_components :: "string list \<Rightarrow> path_component list \<Rightarrow> string list option" where
  "resolve_components resolved [] = Some resolved"
| "resolve_components resolved (CurDir # cs) = resolve_components resolved cs"
| "resolve_components resolved (Normal value # cs) = resolve_components (resolved @ [value]) cs"
| "resolve_components resolved (ParentDir # cs) =
     (if resolved = [] then None else resolve_components (butlast resolved) cs)"
| "resolve_components resolved (RootDir # cs) = None"

definition resolve_relative_link_target :: "string list \<Rightarrow> string \<Rightarrow> string list option" where
  "resolve_relative_link_target parent target =
     (if is_absolute target then None else resolve_components parent (path_components target))"

definition clean_component :: "string \<Rightarrow> bool" where
  "clean_component q \<longleftrightarrow> q \<noteq> [] \<and> q \<noteq> ''.'' \<and> q \<noteq> ''..'' \<and> CHR ''/'' \<notin> set q"

lemma body_component_Normal: "Normal v \<in> set (body_component q) \<Longrightarrow> v = q \<and> q \<noteq> [] \<and> q \<noteq> ''.'' \<and> q \<noteq> ''..''"
  by (auto simp: body_component_def split: if_splits)

lemma path_components_Normal:
  assumes "Normal v \<in> set (path_components path)"
  shows "clean_component v \<and> v \<in> set (split_slash path)"
proof -
  from assms have "\<exists>q\<in>set (split_slash path). Normal v \<in> set (body_component q)"
    unfolding path_components_def by (cases "split_slash path") (auto split: if_splits)
  then show ?thesis
    by (auto simp: clean_component_def dest: body_component_Normal split_slash_component)
qed

lemma path_components_relative:
  "\<not> is_absolute path \<Longrightarrow> RootDir \<notin> set (path_components path)"
  by (auto simp: path_components_def body_component_def split: list.splits if_splits)

lemma resolve_components_members:
  "resolve_components r cs = Some out \<Longrightarrow>
     set out \<subseteq> set r \<union> {v. Normal v \<in> set cs}"
proof (induction r cs rule: resolve_components.induct)
  case (4 r cs)
  then show ?case by (auto split: if_splits dest: in_set_butlastD)
qed auto

text \<open>
  What the resolution promises: it fails exactly when the link is absolute or when some prefix
  of its components climbs above the root of the walk.
\<close>

definition climb :: "path_component list \<Rightarrow> int" where
  "climb cs = int (length (filter (\<lambda>c. c = ParentDir) cs)) -
     int (length (filter (\<lambda>c. \<exists>v. c = Normal v) cs))"

lemma climb_simps [simp]:
  "climb [] = 0" "climb (CurDir # cs) = climb cs" "climb (RootDir # cs) = climb cs"
  "climb (Normal v # cs) = climb cs - 1" "climb (ParentDir # cs) = climb cs + 1"
  by (simp_all add: climb_def)

lemma all_take_Cons: "(\<forall>k. P (take k (c # cs))) \<longleftrightarrow> P [] \<and> (\<forall>k. P (c # take k cs))"
proof
  assume "\<forall>k. P (take k (c # cs))"
  then show "P [] \<and> (\<forall>k. P (c # take k cs))" by (metis take0 take_Suc_Cons)
next
  assume "P [] \<and> (\<forall>k. P (c # take k cs))"
  then show "\<forall>k. P (take k (c # cs))" by (simp add: take_Cons split: nat.splits)
qed

lemma resolve_components_Some_iff:
  "RootDir \<notin> set cs \<Longrightarrow>
     (\<exists>out. resolve_components r cs = Some out) \<longleftrightarrow> (\<forall>k. climb (take k cs) \<le> int (length r))"
proof (induction r cs rule: resolve_components.induct)
  case (2 r cs)
  then show ?case by (simp add: all_take_Cons [where P = "\<lambda>xs. climb xs \<le> int (length r)"])
next
  case (3 r v cs)
  then show ?case by (simp add: all_take_Cons [where P = "\<lambda>xs. climb xs \<le> int (length r)"] algebra_simps)
next
  case (4 r cs)
  show ?case
  proof (cases "r = []")
    case True
    have "climb (take 1 (ParentDir # cs)) > 0" by simp
    with True show ?thesis by (metis list.size(3) of_nat_0 not_le option.distinct(1) resolve_components.simps(4))
  next
    case False
    then have "int (length (butlast r)) = int (length r) - 1" by (cases r) auto
    with 4 False show ?thesis
      by (simp add: all_take_Cons [where P = "\<lambda>xs. climb xs \<le> int (length r)"] algebra_simps)
  qed
qed simp_all

subsection \<open>Lifecycle limits (\<open>store/lifecycle/policy.rs\<close>)\<close>

record clone_limits =
  lim_entries :: nat
  lim_logical_bytes :: nat
  lim_file_bytes :: nat
  lim_depth :: nat
  lim_component_bytes :: nat
  lim_relative_path_bytes :: nat
  lim_symlink_target_bytes :: nat

definition ALPHA :: clone_limits where
  "ALPHA =
     \<lparr>lim_entries = 100000,
      lim_logical_bytes = 10 * 1024 * 1024 * 1024,
      lim_file_bytes = 2 * 1024 * 1024 * 1024,
      lim_depth = 64,
      lim_component_bytes = 255,
      lim_relative_path_bytes = 4096,
      lim_symlink_target_bytes = 4096\<rparr>"

lemma ALPHA_simps [simp]:
  "lim_entries ALPHA = 100000"
  "lim_logical_bytes ALPHA = 10737418240"
  "lim_file_bytes ALPHA = 2147483648"
  "lim_depth ALPHA = 64"
  "lim_component_bytes ALPHA = 255"
  "lim_relative_path_bytes ALPHA = 4096"
  "lim_symlink_target_bytes ALPHA = 4096"
  by (simp_all add: ALPHA_def)

end
