(* ===== verification/Store_Policy.thy ===== *)
theory Store_Policy
  imports Fs_Types Paths
begin

text \<open>
  Space manifests (\<open>model.rs\<close>), the anchor and manifest policy (\<open>store_policy.rs\<close>), opening a
  stored space (\<open>store.rs\<close>) and the source identity that artifacts and transactions record
  (\<open>store/artifact/model.rs\<close>). The JSON reader is the record \<open>manifest_json\<close> of two functions, since
  \<open>serde_json\<close> is not part of the repository.
\<close>

subsection \<open>Entry names that may be removed\<close>

definition validate_removal_entry_name :: "string \<Rightarrow> unit result" where
  "validate_removal_entry_name name =
     (if name \<noteq> [] \<and> \<not> starts_with name ''.'' \<and> CHR ''/'' \<notin> set name \<and> CHR 0x00 \<notin> set name
      then Ok ()
      else Err InvalidInput ''removal requires one exact visible directory-entry name'')"

lemma validate_removal_entry_name_ok:
  "validate_removal_entry_name name = Ok u \<longleftrightarrow>
     name \<noteq> [] \<and> hd name \<noteq> CHR ''.'' \<and> CHR ''/'' \<notin> set name \<and> CHR 0x00 \<notin> set name"
  by (cases name) (auto simp: validate_removal_entry_name_def starts_with_def)

subsection \<open>Space manifests\<close>

datatype space_layout = Profile | Workspace

fun space_layout_as_str :: "space_layout \<Rightarrow> string" where
  "space_layout_as_str Profile = ''profile''"
| "space_layout_as_str Workspace = ''workspace''"

definition PROFILE_SCHEMA_VERSION :: nat where "PROFILE_SCHEMA_VERSION = 1"
definition WORKSPACE_SCHEMA_VERSION :: nat where "WORKSPACE_SCHEMA_VERSION = 2"
definition STABLE_SCHEMA_VERSION :: nat where "STABLE_SCHEMA_VERSION = 3"
definition SUPPORTED_SCHEMA_VERSIONS :: "nat list" where
  "SUPPORTED_SCHEMA_VERSIONS = [PROFILE_SCHEMA_VERSION, WORKSPACE_SCHEMA_VERSION, STABLE_SCHEMA_VERSION]"

lemmas schema_versions =
  PROFILE_SCHEMA_VERSION_def WORKSPACE_SCHEMA_VERSION_def STABLE_SCHEMA_VERSION_def

record space_manifest =
  sm_schema_version :: nat
  sm_layout :: "space_layout option"
  sm_space_id :: "space_id option"
  sm_name :: space_name
  sm_created_unix_ms :: nat
  sm_default_shell :: string
  sm_authority_model :: string

definition effective_layout :: "space_manifest \<Rightarrow> space_layout" where
  "effective_layout m = (case sm_layout m of None \<Rightarrow> Profile | Some l \<Rightarrow> l)"

record space =
  sp_root :: string
  sp_manifest :: space_manifest

definition validate_manifest_layout :: "space_manifest \<Rightarrow> unit result" where
  "validate_manifest_layout m =
     (let valid =
        (if sm_schema_version m = PROFILE_SCHEMA_VERSION then sm_layout m = None \<and> sm_space_id m = None
         else if sm_schema_version m = WORKSPACE_SCHEMA_VERSION then sm_layout m = Some Workspace \<and> sm_space_id m \<noteq> None
         else if sm_schema_version m = STABLE_SCHEMA_VERSION then sm_layout m \<noteq> None \<and> sm_space_id m \<noteq> None
         else False)
      in if valid then Ok ()
         else Err CorruptState ''space manifest layout and stable identity do not match its schema'')"

definition validate_stored_manifest :: "space_manifest \<Rightarrow> unit result" where
  "validate_stored_manifest m =
     rbind (validate_manifest_layout m) (\<lambda>_.
     if sm_authority_model m \<noteq> ''host-account-state-profile''
     then Err CorruptState ''space manifest has an unsupported authority model''
     else if sm_created_unix_ms m > u64_max
     then Err CorruptState ''space creation time cannot be represented by the supported metadata contract''
     else if \<not> is_absolute (sm_default_shell m)
     then Err CorruptState ''stored default shell path is not absolute''
     else Ok ())"

subsection \<open>Opening a stored space\<close>

text \<open>
  A space directory as the opener inspects it: its own metadata, the activity lock by name and
  by descriptor, the home directory, and the attempts to read the manifest file.
\<close>

record space_dir =
  sd_root :: "file_stat sys"
  sd_active :: "file_stat sys \<times> file_stat sys"
  sd_home :: "file_stat sys"
  sd_manifest :: "nat \<Rightarrow> private_read"

record manifest_json =
  mj_header :: "string \<Rightarrow> nat option"
  mj_manifest :: "string \<Rightarrow> space_manifest option"

text \<open>The activity lock is inspected by name, opened, and inspected again.\<close>

definition open_private_lock :: "nat \<Rightarrow> file_stat sys \<times> file_stat sys \<Rightarrow> unit result" where
  "open_private_lock uid obs =
     (case fst obs of
        SysOk path_metadata \<Rightarrow>
          rbind (validate_private_file uid path_metadata) (\<lambda>_.
          case snd obs of
            SysOk file_metadata \<Rightarrow> validate_private_file uid file_metadata
          | _ \<Rightarrow> Err SystemError ''open activity lock'')
      | outcome \<Rightarrow> missing_private_file outcome)"

definition validate_removal_anchors :: "nat \<Rightarrow> space_dir \<Rightarrow> unit result" where
  "validate_removal_anchors uid d =
     (case sd_root d of
        SysOk root_metadata \<Rightarrow>
          rbind (validate_private_dir uid root_metadata) (\<lambda>_. open_private_lock uid (sd_active d))
      | _ \<Rightarrow> Err SystemError ''inspect space directory'')"

definition validate_space_anchors :: "nat \<Rightarrow> space_dir \<Rightarrow> unit result" where
  "validate_space_anchors uid d =
     rbind (validate_removal_anchors uid d) (\<lambda>_.
     case sd_home d of
       SysOk home_metadata \<Rightarrow> validate_private_dir uid home_metadata
     | _ \<Rightarrow> Err SystemError ''inspect space home'')"

definition read_validated_manifest ::
  "manifest_json \<Rightarrow> nat \<Rightarrow> space_dir \<Rightarrow> string \<Rightarrow> space_manifest result" where
  "read_validated_manifest json uid d expected_name =
     rbind (read_private_file uid (sd_manifest d)) (\<lambda>bytes.
     case mj_header json bytes of
       None \<Rightarrow> Err CorruptState ''space manifest header is invalid''
     | Some version \<Rightarrow>
         if version \<notin> set SUPPORTED_SCHEMA_VERSIONS then Err CorruptState ''space uses schema''
         else (case mj_manifest json bytes of
             None \<Rightarrow> Err CorruptState ''space manifest is invalid''
           | Some manifest \<Rightarrow>
               rbind (validate_stored_manifest manifest) (\<lambda>_.
               if expected_name \<noteq> space_name_as_str (sm_name manifest)
               then Err CorruptState ''space directory and manifest names differ''
               else Ok manifest)))"

definition open_path_with_expected_name ::
  "manifest_json \<Rightarrow> nat \<Rightarrow> string \<Rightarrow> space_dir \<Rightarrow> string \<Rightarrow> space result" where
  "open_path_with_expected_name json uid path d expected_name =
     rbind (validate_space_anchors uid d) (\<lambda>_.
     rbind (read_validated_manifest json uid d expected_name) (\<lambda>manifest.
     Ok \<lparr>sp_root = path, sp_manifest = manifest\<rparr>))"

definition identity_for_removal ::
  "manifest_json \<Rightarrow> nat \<Rightarrow> string \<Rightarrow> space_dir option \<Rightarrow> space_name \<Rightarrow> space option result" where
  "identity_for_removal json uid path entry name =
     (case entry of
        None \<Rightarrow> Ok None
      | Some d \<Rightarrow>
          rbind (validate_removal_anchors uid d) (\<lambda>_.
          rbind (read_validated_manifest json uid d (space_name_as_str name)) (\<lambda>manifest.
          Ok (Some \<lparr>sp_root = path, sp_manifest = manifest\<rparr>))))"

subsection \<open>Source identities\<close>

record source_identity =
  si_schema_version :: nat
  si_name :: space_name
  si_created_unix_ms :: nat
  si_space_id :: "space_id option"

definition source_identity_for_space :: "space \<Rightarrow> source_identity" where
  "source_identity_for_space s =
     \<lparr>si_schema_version = sm_schema_version (sp_manifest s),
      si_name = sm_name (sp_manifest s),
      si_created_unix_ms = sm_created_unix_ms (sp_manifest s),
      si_space_id = sm_space_id (sp_manifest s)\<rparr>"

definition source_identity_matches :: "source_identity \<Rightarrow> space \<Rightarrow> bool" where
  "source_identity_matches self s =
     (let current = source_identity_for_space s in
      case (si_space_id self, si_space_id current) of
        (Some captured, Some opened) \<Rightarrow>
          captured = opened \<and> si_created_unix_ms self = si_created_unix_ms current \<and>
          si_schema_version self = si_schema_version current
      | (None, None) \<Rightarrow> self = current
      | (None, Some _) \<Rightarrow>
          si_schema_version self = PROFILE_SCHEMA_VERSION \<and> si_name self = si_name current \<and>
          si_created_unix_ms self = si_created_unix_ms current
      | (Some _, None) \<Rightarrow> False)"

definition valid_source_identity :: "source_identity \<Rightarrow> space_layout \<Rightarrow> bool" where
  "valid_source_identity source layout =
     (if si_created_unix_ms source = 0 then False
      else case layout of
        Profile \<Rightarrow>
          (si_schema_version source = PROFILE_SCHEMA_VERSION \<and> si_space_id source = None) \<or>
          (si_schema_version source = STABLE_SCHEMA_VERSION \<and> si_space_id source \<noteq> None)
      | Workspace \<Rightarrow>
          (si_schema_version source = WORKSPACE_SCHEMA_VERSION \<or> si_schema_version source = STABLE_SCHEMA_VERSION) \<and>
          si_space_id source \<noteq> None)"

lemma validate_stored_manifest_ok [result_simps]:
  "validate_stored_manifest m = Ok u \<longleftrightarrow>
     validate_manifest_layout m = Ok () \<and>
     sm_authority_model m = ''host-account-state-profile'' \<and>
     sm_created_unix_ms m \<le> u64_max \<and> is_absolute (sm_default_shell m)"
  by (auto simp: validate_stored_manifest_def rbind_eq_Inr split: if_splits)

lemma open_path_ok:
  "open_path_with_expected_name json uid path d expected = Ok s \<longleftrightarrow>
     validate_space_anchors uid d = Ok () \<and> sp_root s = path \<and>
     read_validated_manifest json uid d expected = Ok (sp_manifest s)"
  by (auto simp: open_path_with_expected_name_def rbind_eq_Inr)

lemma read_validated_manifest_ok:
  "read_validated_manifest json uid d expected = Ok m \<Longrightarrow>
     validate_stored_manifest m = Ok () \<and> space_name_as_str (sm_name m) = expected"
  by (auto simp: read_validated_manifest_def rbind_eq_Inr split: option.splits if_splits)

lemma source_identity_matches_self: "source_identity_matches (source_identity_for_space s) s"
  by (auto simp: source_identity_matches_def Let_def split: option.splits)

text \<open>A stable identity does not depend on the display name, which is what rename relies on.\<close>

lemma source_identity_matches_rename:
  assumes "sm_space_id (sp_manifest s) \<noteq> None"
  shows "source_identity_matches i (s\<lparr>sp_manifest := (sp_manifest s)\<lparr>sm_name := n\<rparr>, sp_root := r\<rparr>)
     \<longleftrightarrow> (si_space_id i \<noteq> None \<and> source_identity_matches i s) \<or>
        (si_space_id i = None \<and> si_schema_version i = PROFILE_SCHEMA_VERSION \<and> si_name i = n \<and>
         si_created_unix_ms i = sm_created_unix_ms (sp_manifest s))"
  using assms
  by (auto simp: source_identity_matches_def source_identity_for_space_def Let_def split: option.splits)

lemma source_identity_matches_space_id:
  assumes "source_identity_matches i s" and "source_identity_matches i t"
    and "si_space_id i = Some k"
  shows "sm_space_id (sp_manifest s) = Some k \<and> sm_space_id (sp_manifest t) = Some k"
  using assms
  by (auto simp: source_identity_matches_def source_identity_for_space_def Let_def split: option.splits)

end
