(* ===== verification/Artifact_Model.thy ===== *)
theory Artifact_Model
  imports Store_Policy
begin

text \<open>
  Artifact manifests and their validation: \<open>store/artifact/model.rs\<close>. Schema 1 and 3 are local
  captures bound to a source generation, schema 2 is an imported template whose historical
  source never becomes local authority.
\<close>

subsection \<open>Data\<close>

datatype artifact_kind = Template | Snapshot

fun artifact_kind_as_str :: "artifact_kind \<Rightarrow> string" where
  "artifact_kind_as_str Template = ''template''"
| "artifact_kind_as_str Snapshot = ''snapshot''"

datatype artifact_origin = OriginUser | AutomaticRollbackRecovery | ImportedBundle

datatype source_quiescence = Inactive | FrozenActive

fun source_quiescence_as_str :: "source_quiescence \<Rightarrow> string" where
  "source_quiescence_as_str Inactive = ''inactive''"
| "source_quiescence_as_str FrozenActive = ''frozen-active''"

record artifact_counts =
  ac_directories :: nat
  ac_files :: nat
  ac_symlinks :: nat
  ac_entries :: nat
  ac_logical_bytes :: nat

definition counts_default :: artifact_counts where
  "counts_default = \<lparr>ac_directories = 0, ac_files = 0, ac_symlinks = 0, ac_entries = 0, ac_logical_bytes = 0\<rparr>"

record content_integrity =
  ci_algorithm :: string
  ci_digest :: string
  ci_counts :: artifact_counts

record imported_bundle_provenance =
  ip_format_version :: nat
  ip_export_id :: artifact_id
  ip_source_artifact_id :: artifact_id
  ip_source_artifact_kind :: artifact_kind
  ip_source_identity :: source_identity
  ip_authenticated_tag :: string
  ip_import_platform :: string

record artifact_manifest =
  am_schema_version :: nat
  am_artifact_id :: artifact_id
  am_kind :: artifact_kind
  am_name :: artifact_name
  am_created_unix_ms :: nat
  am_source_identity :: "source_identity option"
  am_source_layout :: space_layout
  am_source_platform :: string
  am_default_shell :: string
  am_include_cache :: bool
  am_includes_sensitive_state :: bool
  am_origin :: artifact_origin
  am_imported_bundle :: "imported_bundle_provenance option"
  am_source_quiescence :: "source_quiescence option"
  am_content_integrity :: content_integrity

definition LEGACY_LOCAL_ARTIFACT_SCHEMA_VERSION :: nat where "LEGACY_LOCAL_ARTIFACT_SCHEMA_VERSION = 1"
definition IMPORTED_ARTIFACT_SCHEMA_VERSION :: nat where "IMPORTED_ARTIFACT_SCHEMA_VERSION = 2"
definition LOCAL_ARTIFACT_SCHEMA_VERSION :: nat where "LOCAL_ARTIFACT_SCHEMA_VERSION = 3"
definition INTEGRITY_ALGORITHM :: string where "INTEGRITY_ALGORITHM = ''blake3-256:quarters-canonical-v1''"

lemmas artifact_schemas =
  LEGACY_LOCAL_ARTIFACT_SCHEMA_VERSION_def IMPORTED_ARTIFACT_SCHEMA_VERSION_def
  LOCAL_ARTIFACT_SCHEMA_VERSION_def

subsection \<open>Validation\<close>

definition valid_digest :: "string \<Rightarrow> bool" where
  "valid_digest value \<longleftrightarrow>
     length value = 64 \<and>
     list_all (\<lambda>byte. is_ascii_digit byte \<or> byte_in (CHR ''a'') (CHR ''f'') byte) value"

definition known_platform :: "string \<Rightarrow> bool" where
  "known_platform p \<longleftrightarrow> p = ''macos'' \<or> p = ''linux''"

definition validate_counts :: "artifact_counts \<Rightarrow> unit result" where
  "validate_counts counts =
     (let entries = Option.bind (checked_add (ac_directories counts) (ac_files counts))
                      (\<lambda>value. checked_add value (ac_symlinks counts))
      in if entries = Some (ac_entries counts) then Ok ()
         else Err CorruptState ''artifact terminal entry counts are inconsistent'')"

definition validate_content_integrity :: "content_integrity \<Rightarrow> unit result" where
  "validate_content_integrity integrity =
     (if ci_algorithm integrity \<noteq> INTEGRITY_ALGORITHM
      then Err CorruptState ''unsupported artifact integrity algorithm''
      else if \<not> valid_digest (ci_digest integrity)
      then Err CorruptState ''artifact digest is not lowercase BLAKE3-256''
      else validate_counts (ci_counts integrity))"

definition validate_source_binding :: "artifact_manifest \<Rightarrow> unit result" where
  "validate_source_binding manifest =
     (if am_schema_version manifest = IMPORTED_ARTIFACT_SCHEMA_VERSION
      then (if am_source_identity manifest = None then Ok ()
            else Err CorruptState ''imported artifacts cannot bind a local source identity'')
      else (case am_source_identity manifest of
          None \<Rightarrow> Err CorruptState ''local artifact source identity is missing''
        | Some source \<Rightarrow>
            if valid_source_identity source (am_source_layout manifest) then Ok ()
            else Err CorruptState ''artifact source identity and layout are inconsistent''))"

definition validate_imported_provenance :: "artifact_manifest \<Rightarrow> unit result" where
  "validate_imported_provenance manifest =
     (let local_schema = am_schema_version manifest = LEGACY_LOCAL_ARTIFACT_SCHEMA_VERSION \<or>
                         am_schema_version manifest = LOCAL_ARTIFACT_SCHEMA_VERSION;
          imported_schema = am_schema_version manifest = IMPORTED_ARTIFACT_SCHEMA_VERSION
      in case (am_imported_bundle manifest, am_origin manifest) of
           (None, OriginUser) \<Rightarrow>
             if local_schema then Ok ()
             else if imported_schema
             then Err CorruptState ''schema-2 artifacts must be imported templates with authenticated provenance''
             else Err CorruptState ''local artifact provenance is inconsistent''
         | (None, AutomaticRollbackRecovery) \<Rightarrow>
             if local_schema then Ok ()
             else if imported_schema
             then Err CorruptState ''schema-2 artifacts must be imported templates with authenticated provenance''
             else Err CorruptState ''local artifact provenance is inconsistent''
         | (Some provenance, ImportedBundle) \<Rightarrow>
             if imported_schema \<and> am_kind manifest = Template \<and> ip_format_version provenance = 1 \<and>
                valid_source_identity (ip_source_identity provenance) (am_source_layout manifest) \<and>
                known_platform (ip_import_platform provenance) \<and>
                valid_digest (ip_authenticated_tag provenance)
             then Ok ()
             else if imported_schema
             then Err CorruptState ''schema-2 artifacts must be imported templates with authenticated provenance''
             else Err CorruptState ''local artifact provenance is inconsistent''
         | _ \<Rightarrow>
             if imported_schema
             then Err CorruptState ''schema-2 artifacts must be imported templates with authenticated provenance''
             else Err CorruptState ''local artifact provenance is inconsistent'')"

definition validate_source_quiescence :: "artifact_manifest \<Rightarrow> unit result" where
  "validate_source_quiescence manifest =
     (let valid =
        (if am_schema_version manifest = LEGACY_LOCAL_ARTIFACT_SCHEMA_VERSION \<or>
            am_schema_version manifest = IMPORTED_ARTIFACT_SCHEMA_VERSION
         then am_source_quiescence manifest = None
         else if am_schema_version manifest = LOCAL_ARTIFACT_SCHEMA_VERSION
         then am_source_quiescence manifest \<noteq> None
         else False)
      in if valid then Ok ()
         else Err CorruptState ''artifact source-quiescence evidence is inconsistent with its schema'')"

definition validate_artifact_manifest :: "artifact_manifest \<Rightarrow> artifact_kind \<Rightarrow> unit result" where
  "validate_artifact_manifest self expected_kind =
     (if \<not> (am_schema_version self = LEGACY_LOCAL_ARTIFACT_SCHEMA_VERSION \<or>
            am_schema_version self = IMPORTED_ARTIFACT_SCHEMA_VERSION \<or>
            am_schema_version self = LOCAL_ARTIFACT_SCHEMA_VERSION)
      then Err CorruptState ''unsupported artifact schema''
      else if am_kind self \<noteq> expected_kind
      then Err CorruptState ''artifact kind and store root differ''
      else if am_created_unix_ms self = 0
      then Err CorruptState ''artifact timestamps must be positive Unix milliseconds''
      else rbind (validate_source_binding self) (\<lambda>_.
        if \<not> known_platform (am_source_platform self)
        then Err CorruptState ''artifact source platform must be 'macos' or 'linux' ''
        else if \<not> is_absolute (am_default_shell self)
        then Err CorruptState ''artifact default shell must be an absolute path''
        else if \<not> am_includes_sensitive_state self
        then Err CorruptState ''artifact sensitive-state disclosure cannot be disabled''
        else if am_origin self = AutomaticRollbackRecovery \<and> am_kind self \<noteq> Snapshot
        then Err CorruptState ''automatic rollback recovery origin is valid only for snapshots''
        else rbind (validate_imported_provenance self) (\<lambda>_.
          rbind (validate_source_quiescence self) (\<lambda>_.
          validate_content_integrity (am_content_integrity self)))))"

subsection \<open>What a validated manifest guarantees\<close>

lemma validate_counts_ok [result_simps]:
  "validate_counts c = Ok u \<longleftrightarrow>
     ac_entries c = ac_directories c + ac_files c + ac_symlinks c \<and> ac_entries c \<le> u64_max"
  by (auto simp: validate_counts_def Let_def checked_add_def split: bind_splits if_splits)

lemma validate_content_integrity_ok [result_simps]:
  "validate_content_integrity i = Ok u \<longleftrightarrow>
     ci_algorithm i = INTEGRITY_ALGORITHM \<and> valid_digest (ci_digest i) \<and>
     validate_counts (ci_counts i) = Ok ()"
  by (auto simp: validate_content_integrity_def)

lemma validate_imported_provenance_ok:
  "validate_imported_provenance m = Ok u \<longleftrightarrow>
     (am_imported_bundle m = None \<and> am_origin m \<noteq> ImportedBundle \<and>
        (am_schema_version m = 1 \<or> am_schema_version m = 3)) \<or>
     (am_origin m = ImportedBundle \<and> am_schema_version m = 2 \<and> am_kind m = Template \<and>
        (\<exists>p. am_imported_bundle m = Some p \<and> ip_format_version p = 1 \<and>
           valid_source_identity (ip_source_identity p) (am_source_layout m) \<and>
           known_platform (ip_import_platform p) \<and> valid_digest (ip_authenticated_tag p)))"
  by (auto simp: validate_imported_provenance_def artifact_schemas Let_def
      split: option.splits artifact_origin.splits if_splits)

lemma validate_source_binding_ok:
  "validate_source_binding m = Ok u \<longleftrightarrow>
     (am_schema_version m = 2 \<and> am_source_identity m = None) \<or>
     (am_schema_version m \<noteq> 2 \<and> (\<exists>s. am_source_identity m = Some s \<and>
        valid_source_identity s (am_source_layout m)))"
  by (auto simp: validate_source_binding_def artifact_schemas split: option.splits if_splits)

lemma validate_source_quiescence_ok:
  "validate_source_quiescence m = Ok u \<longleftrightarrow>
     ((am_schema_version m = 1 \<or> am_schema_version m = 2) \<and> am_source_quiescence m = None) \<or>
     (am_schema_version m = 3 \<and> am_source_quiescence m \<noteq> None)"
  by (auto simp: validate_source_quiescence_def artifact_schemas Let_def)

lemma validate_artifact_manifest_ok:
  "validate_artifact_manifest m k = Ok u \<longleftrightarrow>
     am_schema_version m \<in> {1, 2, 3} \<and> am_kind m = k \<and> am_created_unix_ms m \<noteq> 0 \<and>
     validate_source_binding m = Ok () \<and> known_platform (am_source_platform m) \<and>
     is_absolute (am_default_shell m) \<and> am_includes_sensitive_state m \<and>
     (am_origin m = AutomaticRollbackRecovery \<longrightarrow> am_kind m = Snapshot) \<and>
     validate_imported_provenance m = Ok () \<and> validate_source_quiescence m = Ok () \<and>
     validate_content_integrity (am_content_integrity m) = Ok ()"
  unfolding validate_artifact_manifest_def
  by (auto simp: artifact_schemas rbind_eq_Inr)

text \<open>
  The identity that a healthy space contributes is acceptable to every artifact schema that can
  record it, provided the space's creation time is not the epoch itself.
\<close>

lemma healthy_space_identity_valid:
  assumes "validate_stored_manifest (sp_manifest s) = Ok ()"
    and "sm_created_unix_ms (sp_manifest s) \<noteq> 0"
  shows "valid_source_identity (source_identity_for_space s) (effective_layout (sp_manifest s))"
  using assms
  by (auto simp: validate_stored_manifest_ok validate_manifest_layout_def valid_source_identity_def
      source_identity_for_space_def effective_layout_def schema_versions Let_def
      split: if_splits option.splits space_layout.splits)

text \<open>
  Every manifest error is reported as corrupt state: a caller never mistakes a damaged artifact
  for bad input.
\<close>

definition corrupt_only :: "'a result \<Rightarrow> bool" where
  "corrupt_only r \<longleftrightarrow> (\<forall>e. r = Inl e \<longrightarrow> kind e = CorruptState)"

lemma corrupt_only_intros [simp]:
  "corrupt_only (Ok x)" "corrupt_only (Err CorruptState m)"
  by (simp_all add: corrupt_only_def)

lemma corrupt_only_rbind: "corrupt_only m \<Longrightarrow> (\<And>x. corrupt_only (f x)) \<Longrightarrow> corrupt_only (rbind m f)"
  by (auto simp: corrupt_only_def rbind_eq_Inl)

lemma corrupt_only_validators:
  "corrupt_only (validate_counts c)"
  "corrupt_only (validate_content_integrity i)"
  "corrupt_only (validate_source_binding m)"
  "corrupt_only (validate_source_quiescence m)"
  "corrupt_only (validate_imported_provenance m)"
proof -
  show counts: "corrupt_only (validate_counts c)" for c
    by (simp add: validate_counts_def Let_def)
  show "corrupt_only (validate_content_integrity i)"
    by (simp add: validate_content_integrity_def counts)
  show "corrupt_only (validate_source_binding m)"
    by (simp add: validate_source_binding_def split: option.splits)
  show "corrupt_only (validate_source_quiescence m)"
    by (simp add: validate_source_quiescence_def Let_def)
  show "corrupt_only (validate_imported_provenance m)"
    by (simp add: validate_imported_provenance_def Let_def split: option.splits artifact_origin.splits)
qed

lemma validate_artifact_manifest_corrupt: "corrupt_only (validate_artifact_manifest m k)"
  unfolding validate_artifact_manifest_def
  by (simp add: corrupt_only_rbind corrupt_only_validators)

end
