(* ===== verification/Bundle_Format.thy ===== *)
theory Bundle_Format
  imports Artifact_Model
begin

text \<open>
  The authenticated bundle framing of \<open>store/artifact/bundle/format.rs\<close>: the writer, the
  streaming parser with its directory stack and counters, and the sink interface through which
  both the authentication pass and the extraction pass of an import consume a bundle.

  BLAKE3 and \<open>serde_json\<close> are parameters, collected in the record \<open>bundle_env\<close>. A file being
  written is the string of its bytes; a file being read is the string of the bytes that are
  left. Hashers are the strings that were fed to them.
\<close>

subsection \<open>Header, constants and external functions\<close>

record bundle_header =
  bh_schema_version :: nat
  bh_export_id :: artifact_id
  bh_created_unix_ms :: nat
  bh_source_kind :: artifact_kind
  bh_source_artifact_id :: artifact_id
  bh_source_name :: artifact_name
  bh_source_identity :: source_identity
  bh_source_layout :: space_layout
  bh_source_platform :: string
  bh_default_shell :: string
  bh_include_cache :: bool
  bh_includes_sensitive_state :: bool
  bh_content_integrity :: content_integrity
  bh_authentication :: string

record bundle_env =
  be_derive_key :: "string \<Rightarrow> string \<Rightarrow> string"
  be_keyed_hash :: "string \<Rightarrow> string \<Rightarrow> string"
  be_to_vec :: "bundle_header \<Rightarrow> string option"
  be_from_slice :: "string \<Rightarrow> bundle_header option"

definition BUNDLE_VERSION :: nat where "BUNDLE_VERSION = 1"
definition BUNDLE_ALGORITHM :: string where "BUNDLE_ALGORITHM = ''blake3-keyed-256:quarters-bundle-v1''"
definition MAGIC :: string where "MAGIC = ''QTRS-BUNDLE'' @ [CHR 0x00, CHR 0x00, CHR 0x00, CHR 0x00, CHR 0x01]"
definition HEADER_LIMIT :: nat where "HEADER_LIMIT = 16 * 1024"
definition TAG_DIRECTORY :: char where "TAG_DIRECTORY = CHR 0x44"
definition TAG_FILE :: char where "TAG_FILE = CHR 0x46"
definition TAG_SYMLINK :: char where "TAG_SYMLINK = CHR 0x4C"
definition TAG_TERMINAL :: char where "TAG_TERMINAL = CHR 0x00"
definition KEY_DOMAIN :: string where "KEY_DOMAIN = ''org.agenxy.quarters.bundle.authentication-key-v1''"
definition BUFFER_BYTES :: nat where "BUFFER_BYTES = 64 * 1024"

lemmas tag_defs = TAG_DIRECTORY_def TAG_FILE_def TAG_SYMLINK_def TAG_TERMINAL_def

abbreviation bundle_input :: "string \<Rightarrow> 'a result" where "bundle_input m \<equiv> Err CorruptState m"
abbreviation limit_error :: "string \<Rightarrow> 'a result" where "limit_error label \<equiv> Err ResourceLimit label"

definition u32_from :: "nat \<Rightarrow> nat result" where
  "u32_from n = (if n \<le> u32_max then Ok n else Err ResourceLimit ''bundle length cannot be represented safely'')"

lemma u32_from_ok [result_simps]: "u32_from n = Ok m \<longleftrightarrow> m = n \<and> n \<le> u32_max"
  by (auto simp: u32_from_def)

subsection \<open>The writer\<close>

record bundle_writer =
  bw_file :: string
  bw_mac :: string

definition authenticated :: "bundle_writer \<Rightarrow> string \<Rightarrow> bundle_writer" where
  "authenticated w bytes = w\<lparr>bw_file := bw_file w @ bytes, bw_mac := bw_mac w @ bytes\<rparr>"

definition begin_bundle :: "bundle_env \<Rightarrow> string \<Rightarrow> bundle_header \<Rightarrow> bundle_writer result" where
  "begin_bundle env file header =
     (case be_to_vec env header of
        None \<Rightarrow> Err SystemError ''could not encode authenticated bundle header''
      | Some bytes \<Rightarrow>
          if length bytes > HEADER_LIMIT then limit_error ''bundle header bytes''
          else rbind (u32_from (length bytes)) (\<lambda>n.
            let w = \<lparr>bw_file = file, bw_mac = []\<rparr> in
            Ok (authenticated (authenticated (authenticated w MAGIC) (be_bytes 4 n)) bytes)))"

definition writer_path :: "bundle_writer \<Rightarrow> string \<Rightarrow> bundle_writer result" where
  "writer_path w path =
     rbind (u32_from (length path)) (\<lambda>n. Ok (authenticated (authenticated w (be_bytes 4 n)) path))"

definition writer_directory :: "bundle_writer \<Rightarrow> string \<Rightarrow> nat \<Rightarrow> bundle_writer result" where
  "writer_directory w path mode =
     rbind (writer_path (authenticated w [TAG_DIRECTORY]) path) (\<lambda>w.
     Ok (authenticated w (be_bytes 4 (mode_bits mode))))"

text \<open>
  The copy loop of \<open>file\<close>: whole buffers until the announced length is reached. The source is
  the string of bytes it still holds; a short source is an error.
\<close>

function copy_chunks ::
  "nat \<Rightarrow> string \<Rightarrow> bundle_writer \<Rightarrow> string \<Rightarrow> (string \<times> bundle_writer \<times> string) result" where
  "copy_chunks remaining source w canonical =
     (if remaining = 0 then Ok (source, w, canonical)
      else let n = min remaining BUFFER_BYTES in
        if length source < n then Err CorruptState ''bundle source file changed or could not be read''
        else copy_chunks (remaining - n) (drop n source) (authenticated w (take n source))
               (canonical @ take n source))"
  by pat_completeness auto
termination
  by (relation "measure (\<lambda>(remaining, _). remaining)") (auto simp: BUFFER_BYTES_def)

definition writer_file ::
  "bundle_writer \<Rightarrow> string \<Rightarrow> nat \<Rightarrow> string \<Rightarrow> nat \<Rightarrow> string \<Rightarrow> (bundle_writer \<times> string) result" where
  "writer_file w path mode source len canonical =
     rbind (writer_path (authenticated w [TAG_FILE]) path) (\<lambda>w.
     rbind (copy_chunks len source (authenticated (authenticated w (be_bytes 4 (mode_bits mode))) (be_bytes 8 len)) canonical)
       (\<lambda>(rest, w, canonical).
     if rest \<noteq> [] then Err CorruptState ''bundle source file grew while it was exported''
     else Ok (w, canonical)))"

definition writer_symlink :: "bundle_writer \<Rightarrow> string \<Rightarrow> string \<Rightarrow> bundle_writer result" where
  "writer_symlink w path target =
     rbind (writer_path (authenticated w [TAG_SYMLINK]) path) (\<lambda>w.
     rbind (u32_from (length target)) (\<lambda>n.
     Ok (authenticated (authenticated w (be_bytes 4 n)) target)))"

definition finish_bundle :: "bundle_env \<Rightarrow> string \<Rightarrow> bundle_writer \<Rightarrow> string \<times> string" where
  "finish_bundle env key w =
     (let w = authenticated w [TAG_TERMINAL];
          tag = be_keyed_hash env (be_derive_key env KEY_DOMAIN key) (bw_mac w)
      in (bw_file w @ tag, tag))"

subsection \<open>The sink interface\<close>

record 's entry_sink =
  sk_close_directory :: "'s \<Rightarrow> string \<Rightarrow> 's result"
  sk_directory :: "'s \<Rightarrow> string \<Rightarrow> nat \<Rightarrow> 's result"
  sk_file_start :: "'s \<Rightarrow> string \<Rightarrow> nat \<Rightarrow> nat \<Rightarrow> 's result"
  sk_file_chunk :: "'s \<Rightarrow> string \<Rightarrow> 's result"
  sk_file_end :: "'s \<Rightarrow> 's result"
  sk_symlink :: "'s \<Rightarrow> string \<Rightarrow> string \<Rightarrow> 's result"
  sk_finish :: "'s \<Rightarrow> 's result"

definition noop_sink :: "unit entry_sink" where
  "noop_sink =
     \<lparr>sk_close_directory = (\<lambda>_ _. Ok ()), sk_directory = (\<lambda>_ _ _. Ok ()),
      sk_file_start = (\<lambda>_ _ _ _. Ok ()), sk_file_chunk = (\<lambda>_ _. Ok ()), sk_file_end = (\<lambda>_. Ok ()),
      sk_symlink = (\<lambda>_ _ _. Ok ()), sk_finish = (\<lambda>_. Ok ())\<rparr>"

subsection \<open>The authenticating reader\<close>

record auth_reader =
  ar_rest :: string
  ar_mac :: string

definition read_into :: "auth_reader \<Rightarrow> nat \<Rightarrow> (string \<times> auth_reader) result" where
  "read_into r n =
     (if length (ar_rest r) < n then Err CorruptState ''authenticated bundle is truncated''
      else Ok (take n (ar_rest r),
               \<lparr>ar_rest = drop n (ar_rest r), ar_mac = ar_mac r @ take n (ar_rest r)\<rparr>))"

definition plain_fixed :: "auth_reader \<Rightarrow> nat \<Rightarrow> (string \<times> auth_reader) result" where
  "plain_fixed r n =
     (if length (ar_rest r) < n then Err CorruptState ''bundle authentication tag is truncated''
      else Ok (take n (ar_rest r), r\<lparr>ar_rest := drop n (ar_rest r)\<rparr>))"

definition plain_byte :: "auth_reader \<Rightarrow> bool" where
  "plain_byte r \<longleftrightarrow> ar_rest r \<noteq> []"

definition read_u32 :: "auth_reader \<Rightarrow> (nat \<times> auth_reader) result" where
  "read_u32 r = rbind (read_into r 4) (\<lambda>(bytes, r). Ok (from_be_bytes bytes, r))"

definition read_u64 :: "auth_reader \<Rightarrow> (nat \<times> auth_reader) result" where
  "read_u64 r = rbind (read_into r 8) (\<lambda>(bytes, r). Ok (from_be_bytes bytes, r))"

definition read_mode :: "auth_reader \<Rightarrow> (nat \<times> auth_reader) result" where
  "read_mode r =
     rbind (read_u32 r) (\<lambda>(mode, r).
     if mode_bits mode \<noteq> mode then bundle_input ''bundle entry contains unsupported special mode bits''
     else Ok (mode, r))"

subsection \<open>Parser state\<close>

datatype entry_kind = Directory | File | Symlink

record open_directory =
  od_path :: string
  od_component :: string
  od_last_child :: "string option"

record parse_state =
  ps_counts :: artifact_counts
  ps_directories :: "open_directory list"

definition parse_state_new :: parse_state where
  "parse_state_new =
     \<lparr>ps_counts = counts_default,
      ps_directories = [\<lparr>od_path = [], od_component = [], od_last_child = None\<rparr>]\<rparr>"

definition split_path :: "string \<Rightarrow> string list result" where
  "split_path path =
     (if path = [] \<or> starts_with path ''/'' \<or> CHR 0x00 \<in> set path
      then bundle_input ''bundle path is not a safe relative path''
      else let components = split_slash path in
        if list_ex (\<lambda>component. component = [] \<or> component = ''.'' \<or> component = ''..'' \<or>
             length component > lim_component_bytes ALPHA) components
        then bundle_input ''bundle path violates component or depth limits''
        else Ok components)"

text \<open>
  Closing directories: pop until only the parents of the new entry are open. The stack is a
  vector with its top at the end.
\<close>

function close_to :: "nat \<Rightarrow> open_directory list \<Rightarrow> string list \<Rightarrow> open_directory list \<times> string list" where
  "close_to depth directories closed =
     (if length directories - 1 > depth
      then close_to depth (butlast directories) (closed @ [od_path (last directories)])
      else (directories, closed))"
  by pat_completeness auto
termination
  by (relation "measure (\<lambda>(depth, directories, closed). length directories)") auto

definition validate_path :: "parse_state \<Rightarrow> string \<Rightarrow> entry_kind \<Rightarrow> (string list \<times> parse_state) result" where
  "validate_path st path entry_kind =
     rbind (split_path path) (\<lambda>components.
     let maximum = lim_depth ALPHA + (if entry_kind \<noteq> Directory then 1 else 0) in
     if length components > maximum then bundle_input ''bundle path violates component or depth limits''
     else let parent = butlast components in
       if length parent \<ge> length (ps_directories st) \<or>
          \<not> list_all (\<lambda>(component, directory). component = od_component directory)
                (zip parent (tl (ps_directories st)))
       then bundle_input ''bundle entry appears outside the open directory path''
       else let (directories, closed) = close_to (length parent) (ps_directories st) [] in
         if directories = [] then bundle_input ''bundle root directory is absent''
         else let final_component = last components; directory = last directories in
           if (case od_last_child directory of None \<Rightarrow> False | Some previous \<Rightarrow> final_component \<le> previous)
           then bundle_input ''bundle siblings are not in strict byte order''
           else let directories = butlast directories @ [directory\<lparr>od_last_child := Some final_component\<rparr>];
                    directories =
                      (if entry_kind = Directory
                       then directories @ [\<lparr>od_path = path, od_component = final_component, od_last_child = None\<rparr>]
                       else directories)
                in Ok (closed, st\<lparr>ps_directories := directories\<rparr>))"

definition close_all :: "parse_state \<Rightarrow> string list" where
  "close_all st = snd (close_to 0 (ps_directories st) [])"

definition note_entry :: "artifact_counts \<Rightarrow> artifact_counts result" where
  "note_entry c =
     (let entries = sat_add (ac_entries c) 1 in
      if entries > lim_entries ALPHA then limit_error ''bundle entries''
      else Ok (c\<lparr>ac_entries := entries\<rparr>))"

definition add_bytes :: "artifact_counts \<Rightarrow> nat \<Rightarrow> artifact_counts result" where
  "add_bytes c len =
     (case checked_add (ac_logical_bytes c) len of
        None \<Rightarrow> limit_error ''bundle logical bytes''
      | Some bytes \<Rightarrow>
          if bytes > lim_logical_bytes ALPHA then limit_error ''bundle logical bytes''
          else Ok (c\<lparr>ac_logical_bytes := bytes\<rparr>))"

definition note_directory :: "artifact_counts \<Rightarrow> artifact_counts result" where
  "note_directory c =
     rbind (note_entry c) (\<lambda>c. Ok (c\<lparr>ac_directories := sat_add (ac_directories c) 1\<rparr>))"

definition note_file :: "artifact_counts \<Rightarrow> nat \<Rightarrow> artifact_counts result" where
  "note_file c len =
     (if len > lim_file_bytes ALPHA then limit_error ''bundle file bytes''
      else rbind (note_entry c) (\<lambda>c. rbind (add_bytes c len) (\<lambda>c.
        Ok (c\<lparr>ac_files := sat_add (ac_files c) 1\<rparr>))))"

definition note_symlink :: "artifact_counts \<Rightarrow> nat \<Rightarrow> artifact_counts result" where
  "note_symlink c len =
     rbind (note_entry c) (\<lambda>c. rbind (add_bytes c len) (\<lambda>c.
     Ok (c\<lparr>ac_symlinks := sat_add (ac_symlinks c) 1\<rparr>)))"

definition validate_link_target :: "string \<Rightarrow> string \<Rightarrow> unit result" where
  "validate_link_target path target =
     (if target = [] \<or> starts_with target ''/'' \<or> CHR 0x00 \<in> set target
      then bundle_input ''bundle symlink target is not a safe relative path''
      else rbind (split_path path) (\<lambda>components.
        if resolve_relative_link_target (butlast components) target = None
        then bundle_input ''bundle symlink target escapes its root''
        else Ok ()))"

definition validate_header :: "bundle_header \<Rightarrow> artifact_counts \<Rightarrow> unit result" where
  "validate_header header counts =
     (if bh_schema_version header \<noteq> BUNDLE_VERSION \<or>
         bh_created_unix_ms header = 0 \<or>
         \<not> bh_includes_sensitive_state header \<or>
         \<not> known_platform (bh_source_platform header) \<or>
         \<not> is_absolute (bh_default_shell header) \<or>
         \<not> valid_source_identity (bh_source_identity header) (bh_source_layout header) \<or>
         bh_authentication header \<noteq> BUNDLE_ALGORITHM \<or>
         ci_counts (bh_content_integrity header) \<noteq> counts \<or>
         \<not> is_ok (validate_content_integrity (bh_content_integrity header))
      then bundle_input ''authenticated bundle header is inconsistent with its content''
      else Ok ())"

subsection \<open>The parser\<close>

text \<open>Report every closed directory to the sink, in the order they are closed.\<close>

definition close_directories :: "'s entry_sink \<Rightarrow> 's \<Rightarrow> string list \<Rightarrow> 's result" where
  "close_directories sink s closed = rfold (sk_close_directory sink) s closed"

definition read_path ::
  "'s entry_sink \<Rightarrow> auth_reader \<Rightarrow> 's \<Rightarrow> parse_state \<Rightarrow> entry_kind \<Rightarrow>
     (string \<times> auth_reader \<times> 's \<times> parse_state) result" where
  "read_path sink r s st entry_kind =
     rbind (read_u32 r) (\<lambda>(len, r).
     if len > lim_relative_path_bytes ALPHA then limit_error ''bundle relative-path bytes''
     else rbind (read_into r len) (\<lambda>(path, r).
       rbind (validate_path st path entry_kind) (\<lambda>(closed, st).
       rbind (close_directories sink s closed) (\<lambda>s.
       Ok (path, r, s, st)))))"

definition parse_directory ::
  "'s entry_sink \<Rightarrow> auth_reader \<Rightarrow> 's \<Rightarrow> parse_state \<Rightarrow> (auth_reader \<times> 's \<times> parse_state) result" where
  "parse_directory sink r s st =
     rbind (read_path sink r s st Directory) (\<lambda>(path, r, s, st).
     rbind (read_mode r) (\<lambda>(mode, r).
     rbind (note_directory (ps_counts st)) (\<lambda>counts.
     rbind (sk_directory sink s path mode) (\<lambda>s.
     Ok (r, s, st\<lparr>ps_counts := counts\<rparr>)))))"

function read_chunks ::
  "'s entry_sink \<Rightarrow> nat \<Rightarrow> auth_reader \<Rightarrow> 's \<Rightarrow> (auth_reader \<times> 's) result" where
  "read_chunks sink remaining r s =
     (if remaining = 0 then Ok (r, s)
      else let n = min remaining BUFFER_BYTES in
        rbind (read_into r n) (\<lambda>(bytes, r).
        rbind (sk_file_chunk sink s bytes) (\<lambda>s.
        read_chunks sink (remaining - n) r s)))"
  by pat_completeness auto
termination
  by (relation "measure (\<lambda>(sink, remaining, r, s). remaining)") (auto simp: BUFFER_BYTES_def)

definition parse_file ::
  "'s entry_sink \<Rightarrow> auth_reader \<Rightarrow> 's \<Rightarrow> parse_state \<Rightarrow> (auth_reader \<times> 's \<times> parse_state) result" where
  "parse_file sink r s st =
     rbind (read_path sink r s st File) (\<lambda>(path, r, s, st).
     rbind (read_mode r) (\<lambda>(mode, r).
     rbind (read_u64 r) (\<lambda>(len, r).
     rbind (note_file (ps_counts st) len) (\<lambda>counts.
     rbind (sk_file_start sink s path mode len) (\<lambda>s.
     rbind (read_chunks sink len r s) (\<lambda>(r, s).
     rbind (sk_file_end sink s) (\<lambda>s.
     Ok (r, s, st\<lparr>ps_counts := counts\<rparr>))))))))"

definition parse_symlink ::
  "'s entry_sink \<Rightarrow> auth_reader \<Rightarrow> 's \<Rightarrow> parse_state \<Rightarrow> (auth_reader \<times> 's \<times> parse_state) result" where
  "parse_symlink sink r s st =
     rbind (read_path sink r s st Symlink) (\<lambda>(path, r, s, st).
     rbind (read_u32 r) (\<lambda>(len, r).
     if len > lim_symlink_target_bytes ALPHA then limit_error ''bundle symlink-target bytes''
     else rbind (read_into r len) (\<lambda>(target, r).
       rbind (validate_link_target path target) (\<lambda>_.
       rbind (note_symlink (ps_counts st) len) (\<lambda>counts.
       rbind (sk_symlink sink s path target) (\<lambda>s.
       Ok (r, s, st\<lparr>ps_counts := counts\<rparr>)))))))"

lemma read_into_rest: "read_into r n = Ok (bytes, r') \<Longrightarrow> length (ar_rest r') + n = length (ar_rest r)"
  by (auto simp: read_into_def split: if_splits)

lemma read_u32_rest: "read_u32 r = Ok (v, r') \<Longrightarrow> length (ar_rest r') < length (ar_rest r)"
  by (auto simp: read_u32_def rbind_eq_Inr dest: read_into_rest)

lemma read_u64_rest: "read_u64 r = Ok (v, r') \<Longrightarrow> length (ar_rest r') < length (ar_rest r)"
  by (auto simp: read_u64_def rbind_eq_Inr dest: read_into_rest)

lemma read_mode_rest: "read_mode r = Ok (v, r') \<Longrightarrow> length (ar_rest r') < length (ar_rest r)"
  by (auto simp: read_mode_def rbind_eq_Inr split: if_splits dest: read_u32_rest)

lemma read_path_rest:
  "read_path sink r s st k = Ok (path, r', s', st') \<Longrightarrow> length (ar_rest r') < length (ar_rest r)"
  by (auto simp: read_path_def rbind_eq_Inr split: if_splits dest!: read_u32_rest read_into_rest)

lemma read_chunks_rest:
  "read_chunks sink n r s = Ok (r', s') \<Longrightarrow> length (ar_rest r') + n = length (ar_rest r)"
proof (induction sink n r s rule: read_chunks.induct)
  case (1 sink n r s)
  show ?case
  proof (cases "n = 0")
    case True
    with "1.prems" show ?thesis by simp
  next
    case False
    let ?m = "min n BUFFER_BYTES"
    from "1.prems" False obtain bytes r1 s1 where
      a: "read_into r ?m = Ok (bytes, r1)" and b: "sk_file_chunk sink s bytes = Ok s1"
      and c: "read_chunks sink (n - ?m) r1 s1 = Ok (r', s')"
      by (subst (asm) read_chunks.simps) (auto simp: rbind_eq_Inr Let_def)
    from "1.IH" [OF False refl a refl b c] read_into_rest [OF a] show ?thesis by simp
  qed
qed

declare read_chunks.simps [simp del] copy_chunks.simps [simp del] close_to.simps [simp del]

lemma parse_directory_rest:
  "parse_directory sink r s st = Ok (r', s', st') \<Longrightarrow> length (ar_rest r') < length (ar_rest r)"
  by (auto simp: parse_directory_def rbind_eq_Inr dest!: read_path_rest read_mode_rest)

lemma parse_file_rest:
  "parse_file sink r s st = Ok (r', s', st') \<Longrightarrow> length (ar_rest r') < length (ar_rest r)"
  by (auto simp: parse_file_def rbind_eq_Inr
      dest!: read_path_rest read_mode_rest read_u64_rest read_chunks_rest)

lemma parse_symlink_rest:
  "parse_symlink sink r s st = Ok (r', s', st') \<Longrightarrow> length (ar_rest r') < length (ar_rest r)"
  by (auto simp: parse_symlink_def rbind_eq_Inr split: if_splits
      dest!: read_path_rest read_u32_rest read_into_rest)

lemmas parse_entry_rest = parse_directory_rest parse_file_rest parse_symlink_rest

text \<open>The entry loop ends because every round consumes at least its tag byte.\<close>

function parse_entries ::
  "'s entry_sink \<Rightarrow> auth_reader \<Rightarrow> 's \<Rightarrow> parse_state \<Rightarrow> (auth_reader \<times> 's \<times> parse_state) result" where
  "parse_entries sink r s st =
     rbind (read_into r 1) (\<lambda>(bytes, r).
     let tag = hd bytes in
     if tag = TAG_DIRECTORY
     then rbind (parse_directory sink r s st) (\<lambda>(r, s, st). parse_entries sink r s st)
     else if tag = TAG_FILE
     then rbind (parse_file sink r s st) (\<lambda>(r, s, st). parse_entries sink r s st)
     else if tag = TAG_SYMLINK
     then rbind (parse_symlink sink r s st) (\<lambda>(r, s, st). parse_entries sink r s st)
     else if tag = TAG_TERMINAL then Ok (r, s, st)
     else bundle_input ''bundle contains an unknown entry tag'')"
  by pat_completeness auto
termination
  by (relation "measure (\<lambda>(sink, r, s, st). length (ar_rest r))")
    (auto dest!: parse_entry_rest read_into_rest)

declare parse_entries.simps [simp del]

definition parse_bundle ::
  "bundle_env \<Rightarrow> string \<Rightarrow> 's entry_sink \<Rightarrow> 's \<Rightarrow> string \<Rightarrow> (bundle_header \<times> string \<times> 's) result" where
  "parse_bundle env key sink s file =
     (let derived = be_derive_key env KEY_DOMAIN key;
          r = \<lparr>ar_rest = file, ar_mac = []\<rparr> in
      rbind (read_into r 16) (\<lambda>(magic, r).
      if magic \<noteq> MAGIC then bundle_input ''bundle magic or format version is unsupported''
      else rbind (read_u32 r) (\<lambda>(header_length, r).
        if header_length > HEADER_LIMIT then limit_error ''bundle header bytes''
        else rbind (read_into r header_length) (\<lambda>(header_bytes, r).
          rbind (parse_entries sink r s parse_state_new) (\<lambda>(r, s, st).
          let actual = be_keyed_hash env derived (ar_mac r) in
          rbind (plain_fixed r 32) (\<lambda>(expected, r).
          if actual \<noteq> expected
          then bundle_input ''bundle authentication failed; the key is wrong or the file changed''
          else if plain_byte r
          then bundle_input ''bundle has trailing bytes after its authentication tag''
          else (case be_from_slice env header_bytes of
              None \<Rightarrow> bundle_input ''authenticated bundle header is invalid''
            | Some header \<Rightarrow>
                rbind (validate_header header (ps_counts st)) (\<lambda>_.
                rbind (close_directories sink s (close_all st)) (\<lambda>s.
                rbind (sk_finish sink s) (\<lambda>s.
                Ok (header, expected, s)))))))))))"

end
