(* ===== verification/Bundle_Proofs.thy ===== *)
theory Bundle_Proofs
  imports Bundle_Format
begin

text \<open>
  What the bundle framing guarantees. The byte stream is related to a list of abstract entries:
  the parser succeeds exactly on the encodings of entry lists that its path, limit and sink
  checks accept (\<open>parse_entries_iff\<close>), the writer produces exactly these encodings, and the
  round trip, the authentication and the safety of delivered paths follow.
\<close>

subsection \<open>Abstract entries and their encoding\<close>

datatype entry =
    EDir (entry_path: string) (entry_mode: nat)
  | EFile (entry_path: string) (entry_mode: nat) (entry_content: string)
  | ELink (entry_path: string) (entry_target: string)

fun encode_body :: "entry \<Rightarrow> string" where
  "encode_body (EDir p m) = be_bytes 4 (length p) @ p @ be_bytes 4 m"
| "encode_body (EFile p m c) = be_bytes 4 (length p) @ p @ be_bytes 4 m @ be_bytes 8 (length c) @ c"
| "encode_body (ELink p t) = be_bytes 4 (length p) @ p @ be_bytes 4 (length t) @ t"

fun entry_tag :: "entry \<Rightarrow> char" where
  "entry_tag (EDir p m) = TAG_DIRECTORY"
| "entry_tag (EFile p m c) = TAG_FILE"
| "entry_tag (ELink p t) = TAG_SYMLINK"

definition encode_entry :: "entry \<Rightarrow> string" where
  "encode_entry e = entry_tag e # encode_body e"

definition encode_entries :: "entry list \<Rightarrow> string" where
  "encode_entries es = concat (map encode_entry es)"

fun entry_fits :: "entry \<Rightarrow> bool" where
  "entry_fits (EDir p m) \<longleftrightarrow> length p \<le> 4096 \<and> m \<le> 511"
| "entry_fits (EFile p m c) \<longleftrightarrow> length p \<le> 4096 \<and> m \<le> 511 \<and> length c \<le> lim_file_bytes ALPHA"
| "entry_fits (ELink p t) \<longleftrightarrow> length p \<le> 4096 \<and> length t \<le> 4096"

function chunks :: "string \<Rightarrow> string list" where
  "chunks c = (if c = [] then [] else take BUFFER_BYTES c # chunks (drop BUFFER_BYTES c))"
  by pat_completeness auto
termination
  by (relation "measure length") (auto simp: BUFFER_BYTES_def)

declare chunks.simps [simp del]

lemma BUFFER_BYTES_pos [simp]: "BUFFER_BYTES > 0" "BUFFER_BYTES \<noteq> 0"
  by (simp_all add: BUFFER_BYTES_def)

lemma concat_chunks: "concat (chunks c) = c"
proof (induction c rule: chunks.induct)
  case (1 c)
  then show ?case by (subst chunks.simps) simp
qed

lemma chunks_Nil [simp]: "chunks [] = []"
  by (simp add: chunks.simps)

lemma chunks_nonempty: "c \<noteq> [] \<Longrightarrow> chunks c = take BUFFER_BYTES c # chunks (drop BUFFER_BYTES c)"
  by (subst chunks.simps) simp

text \<open>One accepted entry: the state checks and the calls the sink receives, in order.\<close>

definition enter_path :: "'s entry_sink \<Rightarrow> 's \<times> parse_state \<Rightarrow> string \<Rightarrow> entry_kind \<Rightarrow> ('s \<times> parse_state) result" where
  "enter_path sink ss p k =
     rbind (validate_path (snd ss) p k) (\<lambda>(closed, st).
     rbind (close_directories sink (fst ss) closed) (\<lambda>s. Ok (s, st)))"

fun entry_step :: "'s entry_sink \<Rightarrow> 's \<times> parse_state \<Rightarrow> entry \<Rightarrow> ('s \<times> parse_state) result" where
  "entry_step sink ss (EDir p m) =
     rbind (enter_path sink ss p Directory) (\<lambda>(s, st).
     rbind (note_directory (ps_counts st)) (\<lambda>counts.
     rbind (sk_directory sink s p m) (\<lambda>s. Ok (s, st\<lparr>ps_counts := counts\<rparr>))))"
| "entry_step sink ss (EFile p m c) =
     rbind (enter_path sink ss p File) (\<lambda>(s, st).
     rbind (note_file (ps_counts st) (length c)) (\<lambda>counts.
     rbind (sk_file_start sink s p m (length c)) (\<lambda>s.
     rbind (rfold (sk_file_chunk sink) s (chunks c)) (\<lambda>s.
     rbind (sk_file_end sink s) (\<lambda>s. Ok (s, st\<lparr>ps_counts := counts\<rparr>))))))"
| "entry_step sink ss (ELink p t) =
     rbind (enter_path sink ss p Symlink) (\<lambda>(s, st).
     rbind (validate_link_target p t) (\<lambda>_.
     rbind (note_symlink (ps_counts st) (length t)) (\<lambda>counts.
     rbind (sk_symlink sink s p t) (\<lambda>s. Ok (s, st\<lparr>ps_counts := counts\<rparr>)))))"

subsection \<open>The reader\<close>

definition reads :: "auth_reader \<Rightarrow> string \<Rightarrow> auth_reader \<Rightarrow> bool" where
  "reads r bytes r' \<longleftrightarrow> ar_rest r = bytes @ ar_rest r' \<and> ar_mac r' = ar_mac r @ bytes"

lemma reads_append: "reads r (a @ b) r' \<longleftrightarrow> (\<exists>m. reads r a m \<and> reads m b r')"
proof
  assume "reads r (a @ b) r'"
  then have "reads r a \<lparr>ar_rest = b @ ar_rest r', ar_mac = ar_mac r @ a\<rparr>"
    "reads \<lparr>ar_rest = b @ ar_rest r', ar_mac = ar_mac r @ a\<rparr> b r'"
    by (simp_all add: reads_def)
  then show "\<exists>m. reads r a m \<and> reads m b r'" by blast
qed (auto simp: reads_def)

lemma reads_Nil [simp]: "reads r [] r' \<longleftrightarrow> r' = r"
  by (cases r; cases r') (auto simp: reads_def)

lemma read_into_iff: "read_into r n = Ok (bytes, r') \<longleftrightarrow> length bytes = n \<and> reads r bytes r'"
proof
  assume "read_into r n = Ok (bytes, r')"
  then show "length bytes = n \<and> reads r bytes r'"
    by (auto simp: read_into_def reads_def split: if_splits)
next
  assume "length bytes = n \<and> reads r bytes r'"
  then show "read_into r n = Ok (bytes, r')"
    by (cases r') (auto simp: read_into_def reads_def)
qed

lemma read_u32_iff:
  "read_u32 r = Ok (v, r') \<longleftrightarrow> v \<le> u32_max \<and> reads r (be_bytes 4 v) r'"
proof
  assume "read_u32 r = Ok (v, r')"
  then obtain bytes where b: "length bytes = 4" "reads r bytes r'" "v = from_be_bytes bytes"
    by (auto simp: read_u32_def rbind_eq_Inr read_into_iff)
  then show "v \<le> u32_max \<and> reads r (be_bytes 4 v) r'"
    using from_be_bytes_less [of bytes] by (simp add: be_bytes_from_be_bytes u32_max_def)
next
  assume "v \<le> u32_max \<and> reads r (be_bytes 4 v) r'"
  then have "read_into r 4 = Ok (be_bytes 4 v, r')" "from_be_bytes (be_bytes 4 v) = v"
    by (simp_all add: read_into_iff from_be_bytes_u32)
  then show "read_u32 r = Ok (v, r')" by (simp add: read_u32_def)
qed

lemma read_u64_iff:
  "read_u64 r = Ok (v, r') \<longleftrightarrow> v \<le> u64_max \<and> reads r (be_bytes 8 v) r'"
proof
  assume "read_u64 r = Ok (v, r')"
  then obtain bytes where b: "length bytes = 8" "reads r bytes r'" "v = from_be_bytes bytes"
    by (auto simp: read_u64_def rbind_eq_Inr read_into_iff)
  then show "v \<le> u64_max \<and> reads r (be_bytes 8 v) r'"
    using from_be_bytes_less [of bytes] by (simp add: be_bytes_from_be_bytes u64_max_def)
next
  assume "v \<le> u64_max \<and> reads r (be_bytes 8 v) r'"
  then have "read_into r 8 = Ok (be_bytes 8 v, r')" "from_be_bytes (be_bytes 8 v) = v"
    by (simp_all add: read_into_iff from_be_bytes_u64)
  then show "read_u64 r = Ok (v, r')" by (simp add: read_u64_def)
qed

lemma mode_bits_fixed: "mode_bits m = m \<longleftrightarrow> m \<le> 511"
  by (metis mode_bits_id mode_bits_le)

lemma read_mode_iff: "read_mode r = Ok (m, r') \<longleftrightarrow> m \<le> 511 \<and> reads r (be_bytes 4 m) r'"
proof -
  have "m \<le> 511 \<Longrightarrow> m \<le> u32_max" by (simp add: u32_max_num)
  then show ?thesis
    by (auto simp: read_mode_def rbind_eq_Inr read_u32_iff mode_bits_fixed split: if_splits)
qed

lemma read_path_iff:
  "read_path sink r s st k = Ok (p, r', s', st') \<longleftrightarrow>
     length p \<le> 4096 \<and> reads r (be_bytes 4 (length p) @ p) r' \<and> enter_path sink (s, st) p k = Ok (s', st')"
  (is "?L \<longleftrightarrow> ?R")
proof
  assume ?L
  then show ?R
    by (auto simp: read_path_def enter_path_def rbind_eq_Inr read_u32_iff read_into_iff reads_append
        split: if_splits)
next
  assume R: ?R
  then obtain m where "reads r (be_bytes 4 (length p)) m" "reads m p r'"
    by (auto simp: reads_append)
  moreover have "length p \<le> u32_max" using R by (simp add: u32_max_num)
  ultimately have "read_u32 r = Ok (length p, m)" "read_into m (length p) = Ok (p, r')"
    by (simp_all add: read_u32_iff read_into_iff)
  with R show ?L by (auto simp: read_path_def enter_path_def rbind_eq_Inr)
qed

lemma read_chunks_iff:
  "read_chunks sink n r s = Ok (r', s') \<longleftrightarrow>
     (\<exists>c. length c = n \<and> reads r c r' \<and> rfold (sk_file_chunk sink) s (chunks c) = Ok s')"
  (is "?L \<longleftrightarrow> ?R")
proof (induction sink n r s rule: read_chunks.induct)
  case (1 sink n r s)
  show ?case
  proof (cases "n = 0")
    case True
    then show ?thesis by (auto simp: read_chunks.simps)
  next
    case False
    let ?m = "min n BUFFER_BYTES"
    have "read_chunks sink n r s = Ok (r', s') \<longleftrightarrow>
       (\<exists>b r1 s1. read_into r ?m = Ok (b, r1) \<and> sk_file_chunk sink s b = Ok s1 \<and>
          read_chunks sink (n - ?m) r1 s1 = Ok (r', s'))"
      using False by (subst read_chunks.simps) (auto simp: rbind_eq_Inr Let_def)
    also have "\<dots> \<longleftrightarrow> (\<exists>b r1 s1 c. length b = ?m \<and> reads r b r1 \<and> sk_file_chunk sink s b = Ok s1 \<and>
          length c = n - ?m \<and> reads r1 c r' \<and> rfold (sk_file_chunk sink) s1 (chunks c) = Ok s')"
      using "1.IH" [OF False refl _ refl] by (auto simp: read_into_iff) blast+
    also have "\<dots> \<longleftrightarrow> (\<exists>d. length d = n \<and> reads r d r' \<and> rfold (sk_file_chunk sink) s (chunks d) = Ok s')"
    proof (intro iffI; elim exE conjE)
      fix b r1 s1 c
      assume b: "length b = ?m" "length c = n - ?m" "reads r b r1" "reads r1 c r'"
        and s: "sk_file_chunk sink s b = Ok s1" "rfold (sk_file_chunk sink) s1 (chunks c) = Ok s'"
      have ne: "b @ c \<noteq> []" using b False by auto
      have "take BUFFER_BYTES (b @ c) = b \<and> drop BUFFER_BYTES (b @ c) = c"
        using b by (cases "n \<le> BUFFER_BYTES") auto
      then have "chunks (b @ c) = b # chunks c" using chunks_nonempty [OF ne] by simp
      with b s show "\<exists>d. length d = n \<and> reads r d r' \<and> rfold (sk_file_chunk sink) s (chunks d) = Ok s'"
        by (intro exI [of _ "b @ c"]) (auto simp: reads_append)
    next
      fix d
      assume d: "length d = n" "reads r d r'" "rfold (sk_file_chunk sink) s (chunks d) = Ok s'"
      have ne: "d \<noteq> []" using d False by auto
      have "reads r (take BUFFER_BYTES d @ drop BUFFER_BYTES d) r'" using d by simp
      then obtain r1 where r1: "reads r (take BUFFER_BYTES d) r1" "reads r1 (drop BUFFER_BYTES d) r'"
        unfolding reads_append by blast
      obtain s1 where "sk_file_chunk sink s (take BUFFER_BYTES d) = Ok s1"
        "rfold (sk_file_chunk sink) s1 (chunks (drop BUFFER_BYTES d)) = Ok s'"
        using d(3) chunks_nonempty [OF ne] by (auto simp: rbind_eq_Inr)
      moreover have "length (take BUFFER_BYTES d) = ?m" "length (drop BUFFER_BYTES d) = n - ?m"
        using d(1) by auto
      ultimately show "\<exists>b r1 s1 c. length b = ?m \<and> reads r b r1 \<and> sk_file_chunk sink s b = Ok s1 \<and>
          length c = n - ?m \<and> reads r1 c r' \<and> rfold (sk_file_chunk sink) s1 (chunks c) = Ok s'"
        using r1 by blast
    qed
    finally show ?thesis .
  qed
qed

text \<open>Each entry parser accepts exactly the encoded bodies of its kind of entry.\<close>

lemma parse_directory_iff:
  "parse_directory sink r s st = Ok (r', s', st') \<longleftrightarrow>
     (\<exists>p m. entry_fits (EDir p m) \<and> reads r (encode_body (EDir p m)) r' \<and>
        entry_step sink (s, st) (EDir p m) = Ok (s', st'))"
proof -
  have "parse_directory sink r s st = Ok (r', s', st') \<longleftrightarrow>
     (\<exists>p r1 s1 st1 m r2. read_path sink r s st Directory = Ok (p, r1, s1, st1) \<and> read_mode r1 = Ok (m, r2) \<and>
       r2 = r' \<and> rbind (note_directory (ps_counts st1)) (\<lambda>counts.
         rbind (sk_directory sink s1 p m) (\<lambda>s. Ok (s, st1\<lparr>ps_counts := counts\<rparr>))) = Ok (s', st'))"
    by (auto simp: parse_directory_def rbind_eq_Inr)
  also have "\<dots> \<longleftrightarrow> (\<exists>p m r1. entry_fits (EDir p m) \<and> reads r (be_bytes 4 (length p) @ p) r1 \<and>
      reads r1 (be_bytes 4 m) r' \<and> entry_step sink (s, st) (EDir p m) = Ok (s', st'))"
    by (simp add: read_path_iff read_mode_iff rbind_eq_Inr del: reads_append) blast
  also have "\<dots> \<longleftrightarrow> (\<exists>p m. entry_fits (EDir p m) \<and> reads r (encode_body (EDir p m)) r' \<and>
        entry_step sink (s, st) (EDir p m) = Ok (s', st'))"
    by (simp add: reads_append) blast
  finally show ?thesis .
qed

lemma note_file_limit: "note_file c n = Ok c' \<Longrightarrow> n \<le> lim_file_bytes ALPHA"
  by (auto simp: note_file_def split: if_splits)

lemma lim_file_bytes_u64: "n \<le> lim_file_bytes ALPHA \<Longrightarrow> n \<le> u64_max"
  by (simp add: u64_max_num ALPHA_simps)

lemma parse_file_iff:
  "parse_file sink r s st = Ok (r', s', st') \<longleftrightarrow>
     (\<exists>p m c. entry_fits (EFile p m c) \<and> reads r (encode_body (EFile p m c)) r' \<and>
        entry_step sink (s, st) (EFile p m c) = Ok (s', st'))"
proof -
  have "parse_file sink r s st = Ok (r', s', st') \<longleftrightarrow>
     (\<exists>p r1 s1 st1 m r2 n r3 counts s2 s3. read_path sink r s st File = Ok (p, r1, s1, st1) \<and>
       read_mode r1 = Ok (m, r2) \<and> read_u64 r2 = Ok (n, r3) \<and> note_file (ps_counts st1) n = Ok counts \<and>
       sk_file_start sink s1 p m n = Ok s2 \<and> read_chunks sink n r3 s2 = Ok (r', s3) \<and>
       sk_file_end sink s3 = Ok s' \<and> st' = st1\<lparr>ps_counts := counts\<rparr>)"
    by (auto simp: parse_file_def rbind_eq_Inr)
  also have "\<dots> \<longleftrightarrow>
     (\<exists>p r1 s1 st1 m r2 c r3 counts s2 s3. length p \<le> 4096 \<and> reads r (be_bytes 4 (length p) @ p) r1 \<and>
       enter_path sink (s, st) p File = Ok (s1, st1) \<and>
       m \<le> 511 \<and> reads r1 (be_bytes 4 m) r2 \<and> length c \<le> lim_file_bytes ALPHA \<and> reads r2 (be_bytes 8 (length c)) r3 \<and>
       note_file (ps_counts st1) (length c) = Ok counts \<and>
       sk_file_start sink s1 p m (length c) = Ok s2 \<and> reads r3 c r' \<and>
       rfold (sk_file_chunk sink) s2 (chunks c) = Ok s3 \<and>
       sk_file_end sink s3 = Ok s' \<and> st' = st1\<lparr>ps_counts := counts\<rparr>)"
    unfolding read_path_iff read_mode_iff read_u64_iff read_chunks_iff
    using note_file_limit lim_file_bytes_u64 by blast
  also have "\<dots> \<longleftrightarrow> (\<exists>p m c. entry_fits (EFile p m c) \<and> reads r (encode_body (EFile p m c)) r' \<and>
        entry_step sink (s, st) (EFile p m c) = Ok (s', st'))"
    by (simp add: reads_append rbind_eq_Inr) blast
  finally show ?thesis .
qed

lemma parse_symlink_iff:
  "parse_symlink sink r s st = Ok (r', s', st') \<longleftrightarrow>
     (\<exists>p t. entry_fits (ELink p t) \<and> reads r (encode_body (ELink p t)) r' \<and>
        entry_step sink (s, st) (ELink p t) = Ok (s', st'))"
proof -
  have u32: "n \<le> 4096 \<Longrightarrow> n \<le> u32_max" for n by (simp add: u32_max_num)
  have "parse_symlink sink r s st = Ok (r', s', st') \<longleftrightarrow>
     (\<exists>p r1 s1 st1 n r2 t counts. read_path sink r s st Symlink = Ok (p, r1, s1, st1) \<and>
       read_u32 r1 = Ok (n, r2) \<and> n \<le> 4096 \<and> read_into r2 n = Ok (t, r') \<and>
       validate_link_target p t = Ok () \<and> note_symlink (ps_counts st1) n = Ok counts \<and>
       sk_symlink sink s1 p t = Ok s' \<and> st' = st1\<lparr>ps_counts := counts\<rparr>)"
    (is "_ = ?R")
  proof
    show "?R" if "parse_symlink sink r s st = Ok (r', s', st')"
      using that by (auto simp: parse_symlink_def rbind_eq_Inr ALPHA_simps split: if_splits)
    show "parse_symlink sink r s st = Ok (r', s', st')" if "?R"
      using that by (auto simp: parse_symlink_def ALPHA_simps)
  qed
  also have "\<dots> \<longleftrightarrow> (\<exists>p r1 s1 st1 r2 t counts. length p \<le> 4096 \<and> reads r (be_bytes 4 (length p) @ p) r1 \<and>
       enter_path sink (s, st) p Symlink = Ok (s1, st1) \<and>
       reads r1 (be_bytes 4 (length t)) r2 \<and> length t \<le> 4096 \<and> reads r2 t r' \<and>
       validate_link_target p t = Ok () \<and> note_symlink (ps_counts st1) (length t) = Ok counts \<and>
       sk_symlink sink s1 p t = Ok s' \<and> st' = st1\<lparr>ps_counts := counts\<rparr>)"
    unfolding read_path_iff read_u32_iff read_into_iff using u32 by blast
  also have "\<dots> \<longleftrightarrow> (\<exists>p t. entry_fits (ELink p t) \<and> reads r (encode_body (ELink p t)) r' \<and>
        entry_step sink (s, st) (ELink p t) = Ok (s', st'))"
    by (simp add: reads_append rbind_eq_Inr) blast
  finally show ?thesis .
qed

subsection \<open>The entry loop\<close>

lemma encode_entries_Nil [simp]: "encode_entries [] = []"
  and encode_entries_Cons [simp]: "encode_entries (e # es) = encode_entry e @ encode_entries es"
  by (simp_all add: encode_entries_def)

lemma tags_distinct [simp]:
  "TAG_DIRECTORY \<noteq> TAG_FILE" "TAG_DIRECTORY \<noteq> TAG_SYMLINK" "TAG_DIRECTORY \<noteq> TAG_TERMINAL"
  "TAG_FILE \<noteq> TAG_DIRECTORY" "TAG_FILE \<noteq> TAG_SYMLINK" "TAG_FILE \<noteq> TAG_TERMINAL"
  "TAG_SYMLINK \<noteq> TAG_DIRECTORY" "TAG_SYMLINK \<noteq> TAG_FILE" "TAG_SYMLINK \<noteq> TAG_TERMINAL"
  "TAG_TERMINAL \<noteq> TAG_DIRECTORY" "TAG_TERMINAL \<noteq> TAG_FILE" "TAG_TERMINAL \<noteq> TAG_SYMLINK"
  by (simp_all add: tag_defs)

definition parse_entry where
  "parse_entry sink tag r s st =
     (if tag = TAG_DIRECTORY then parse_directory sink r s st
      else if tag = TAG_FILE then parse_file sink r s st
      else parse_symlink sink r s st)"

lemma parse_entry_iff:
  assumes "tag \<in> {TAG_DIRECTORY, TAG_FILE, TAG_SYMLINK}"
  shows "parse_entry sink tag r s st = Ok (r', s', st') \<longleftrightarrow>
     (\<exists>e. entry_tag e = tag \<and> entry_fits e \<and> reads r (encode_body e) r' \<and>
        entry_step sink (s, st) e = Ok (s', st'))"
proof -
  have ex: "(\<exists>e. P e) \<longleftrightarrow> (\<exists>p m. P (EDir p m)) \<or> (\<exists>p m c. P (EFile p m c)) \<or> (\<exists>p t. P (ELink p t))" for P
    by (metis entry.exhaust)
  show ?thesis using assms
    by (auto simp only: ex parse_entry_def parse_directory_iff parse_file_iff parse_symlink_iff
        entry_tag.simps tags_distinct insert_iff empty_iff if_True if_False simp_thms refl ex_simps) blast+
qed

lemma reads_one: "read_into r 1 = Ok (b, r1) \<longleftrightarrow> (\<exists>t. b = [t] \<and> reads r [t] r1)"
  by (auto simp: read_into_iff length_Suc_conv)

lemma parse_entries_unfold:
  "parse_entries sink r s st =
     rbind (read_into r 1) (\<lambda>(b, r).
       if hd b = TAG_TERMINAL then Ok (r, s, st)
       else if hd b \<in> {TAG_DIRECTORY, TAG_FILE, TAG_SYMLINK}
       then rbind (parse_entry sink (hd b) r s st) (\<lambda>(r, s, st). parse_entries sink r s st)
       else bundle_input ''bundle contains an unknown entry tag'')"
  by (subst parse_entries.simps) (auto simp: parse_entry_def Let_def intro!: rbind_cong)

lemma parse_entries_Ok_iff:
  "parse_entries sink r s st = Ok (r', s', st') \<longleftrightarrow>
     (\<exists>t r1. reads r [t] r1 \<and>
        (if t = TAG_TERMINAL then r' = r1 \<and> s' = s \<and> st' = st
         else t \<in> {TAG_DIRECTORY, TAG_FILE, TAG_SYMLINK} \<and>
           (\<exists>r2 s2 st2. parse_entry sink t r1 s st = Ok (r2, s2, st2) \<and>
              parse_entries sink r2 s2 st2 = Ok (r', s', st'))))"
proof -
  define F where "F t r1 =
    (if t = TAG_TERMINAL then Ok (r1, s, st)
     else if t \<in> {TAG_DIRECTORY, TAG_FILE, TAG_SYMLINK}
     then rbind (parse_entry sink t r1 s st) (\<lambda>(r, s, st). parse_entries sink r s st)
     else bundle_input ''bundle contains an unknown entry tag'')" for t r1
  have F: "F t r1 = Ok (r', s', st') \<longleftrightarrow>
     (if t = TAG_TERMINAL then r' = r1 \<and> s' = s \<and> st' = st
      else t \<in> {TAG_DIRECTORY, TAG_FILE, TAG_SYMLINK} \<and>
           (\<exists>r2 s2 st2. parse_entry sink t r1 s st = Ok (r2, s2, st2) \<and>
              parse_entries sink r2 s2 st2 = Ok (r', s', st')))" for t r1
    by (auto simp: F_def rbind_eq_Inr)
  have "parse_entries sink r s st = Ok (r', s', st') \<longleftrightarrow>
    (\<exists>b r1. read_into r 1 = Ok (b, r1) \<and> F (hd b) r1 = Ok (r', s', st'))"
    unfolding F_def by (subst parse_entries_unfold) (simp add: rbind_eq_Inr split_paired_Ex)
  also have "\<dots> \<longleftrightarrow> (\<exists>t r1. reads r [t] r1 \<and> F t r1 = Ok (r', s', st'))"
    unfolding reads_one by (metis list.sel(1))
  finally show ?thesis unfolding F .
qed

lemma entry_tag_cases: "entry_tag e \<in> {TAG_DIRECTORY, TAG_FILE, TAG_SYMLINK}"
  by (cases e) simp_all

lemma entry_tag_not_terminal [simp]: "entry_tag e \<noteq> TAG_TERMINAL"
  by (cases e) simp_all

lemma parse_entries_complete:
  assumes "list_all entry_fits es" "reads r (encode_entries es @ [TAG_TERMINAL]) r'"
    "rfold (entry_step sink) (s, st) es = Ok (s', st')"
  shows "parse_entries sink r s st = Ok (r', s', st')"
  using assms
proof (induction es arbitrary: r s st)
  case Nil
  then show ?case by (subst parse_entries_Ok_iff) auto
next
  case (Cons e es)
  from Cons.prems(2) have "reads r ([entry_tag e] @ encode_body e @ (encode_entries es @ [TAG_TERMINAL])) r'"
    by (simp add: encode_entry_def)
  then obtain r1 r2 where r: "reads r [entry_tag e] r1" "reads r1 (encode_body e) r2"
    "reads r2 (encode_entries es @ [TAG_TERMINAL]) r'"
    unfolding reads_append by blast
  from Cons.prems(3) obtain s2 st2 where st: "entry_step sink (s, st) e = Ok (s2, st2)"
    "rfold (entry_step sink) (s2, st2) es = Ok (s', st')"
    by (auto simp: rbind_eq_Inr)
  have "parse_entry sink (entry_tag e) r1 s st = Ok (r2, s2, st2)"
    using Cons.prems(1) r st unfolding parse_entry_iff [OF entry_tag_cases] by auto
  moreover have "parse_entries sink r2 s2 st2 = Ok (r', s', st')"
    using Cons r st by simp
  ultimately show ?case
    using r entry_tag_cases entry_tag_not_terminal by (subst parse_entries_Ok_iff) metis
qed

lemma parse_entries_sound:
  assumes "parse_entries sink r s st = Ok (r', s', st')"
  shows "\<exists>es. list_all entry_fits es \<and> reads r (encode_entries es @ [TAG_TERMINAL]) r' \<and>
    rfold (entry_step sink) (s, st) es = Ok (s', st')"
  using assms
proof (induction "length (ar_rest r)" arbitrary: r s st rule: less_induct)
  case less
  from less.prems obtain t r1 where t: "reads r [t] r1" and
    rest: "if t = TAG_TERMINAL then r' = r1 \<and> s' = s \<and> st' = st
         else t \<in> {TAG_DIRECTORY, TAG_FILE, TAG_SYMLINK} \<and>
           (\<exists>r2 s2 st2. parse_entry sink t r1 s st = Ok (r2, s2, st2) \<and>
              parse_entries sink r2 s2 st2 = Ok (r', s', st'))"
    unfolding parse_entries_Ok_iff [of sink r] by blast
  show ?case
  proof (cases "t = TAG_TERMINAL")
    case True
    with rest t show ?thesis by (intro exI [of _ "[]"]) simp
  next
    case False
    with rest obtain r2 s2 st2 where tag: "t \<in> {TAG_DIRECTORY, TAG_FILE, TAG_SYMLINK}"
      and e: "parse_entry sink t r1 s st = Ok (r2, s2, st2)"
      and more: "parse_entries sink r2 s2 st2 = Ok (r', s', st')"
      by auto
    from e tag obtain e where e: "entry_tag e = t" "entry_fits e" "reads r1 (encode_body e) r2"
      "entry_step sink (s, st) e = Ok (s2, st2)"
      unfolding parse_entry_iff [OF tag] by blast
    have "length (ar_rest r2) < length (ar_rest r)" using t e by (simp add: reads_def)
    from less.hyps [OF this more] obtain es where es: "list_all entry_fits es"
      "reads r2 (encode_entries es @ [TAG_TERMINAL]) r'" "rfold (entry_step sink) (s2, st2) es = Ok (s', st')"
      by blast
    have "reads r ([t] @ encode_body e @ (encode_entries es @ [TAG_TERMINAL])) r'"
      unfolding reads_append using t e es by (auto simp: reads_append)
    with e es show ?thesis by (intro exI [of _ "e # es"]) (simp add: encode_entry_def)
  qed
qed

subsection \<open>Whole bundles\<close>

definition bundle_prefix :: "string \<Rightarrow> entry list \<Rightarrow> string" where
  "bundle_prefix header_bytes es =
     MAGIC @ be_bytes 4 (length header_bytes) @ header_bytes @ encode_entries es @ [TAG_TERMINAL]"

definition bundle_tag :: "bundle_env \<Rightarrow> string \<Rightarrow> string \<Rightarrow> string" where
  "bundle_tag env key bytes = be_keyed_hash env (be_derive_key env KEY_DOMAIN key) bytes"

definition run_entries :: "'s entry_sink \<Rightarrow> 's \<Rightarrow> entry list \<Rightarrow> ('s \<times> parse_state) result" where
  "run_entries sink s es = rfold (entry_step sink) (s, parse_state_new) es"

definition accepted ::
  "bundle_env \<Rightarrow> string \<Rightarrow> 's entry_sink \<Rightarrow> 's \<Rightarrow> string \<Rightarrow> entry list \<Rightarrow> bundle_header \<Rightarrow> 's \<Rightarrow> bool" where
  "accepted env key sink s hb es header s' \<longleftrightarrow>
     length hb \<le> HEADER_LIMIT \<and> list_all entry_fits es \<and>
     length (bundle_tag env key (bundle_prefix hb es)) = 32 \<and>
     be_from_slice env hb = Some header \<and>
     (\<exists>s1 st s2. run_entries sink s es = Ok (s1, st) \<and> validate_header header (ps_counts st) = Ok () \<and>
        close_directories sink s1 (close_all st) = Ok s2 \<and> sk_finish sink s2 = Ok s')"

lemma length_MAGIC [simp]: "length MAGIC = 16"
  by (simp add: MAGIC_def)

lemma HEADER_LIMIT_u32: "n \<le> HEADER_LIMIT \<Longrightarrow> n \<le> u32_max"
  by (simp add: HEADER_LIMIT_def u32_max_num)

lemma plain_fixed_iff:
  "plain_fixed r n = Ok (b, r') \<longleftrightarrow> length b = n \<and> ar_rest r = b @ ar_rest r' \<and> ar_mac r' = ar_mac r"
  by (cases r; cases r') (auto simp: plain_fixed_def)

text \<open>The stages of \<open>parse_bundle\<close>, each by what it accepts.\<close>

lemma parse_bundle_stages:
  "parse_bundle env key sink s file = Ok (header, tag, s') \<longleftrightarrow>
     (\<exists>r1 n r2 hb r3 r4 s1 st r5 s2.
        read_into \<lparr>ar_rest = file, ar_mac = []\<rparr> 16 = Ok (MAGIC, r1) \<and>
        read_u32 r1 = Ok (n, r2) \<and> n \<le> HEADER_LIMIT \<and> read_into r2 n = Ok (hb, r3) \<and>
        parse_entries sink r3 s parse_state_new = Ok (r4, s1, st) \<and>
        plain_fixed r4 32 = Ok (tag, r5) \<and> tag = bundle_tag env key (ar_mac r4) \<and> ar_rest r5 = [] \<and>
        be_from_slice env hb = Some header \<and> validate_header header (ps_counts st) = Ok () \<and>
        close_directories sink s1 (close_all st) = Ok s2 \<and> sk_finish sink s2 = Ok s')"
  (is "?L \<longleftrightarrow> ?R")
proof
  show ?R if ?L
    using that
    by (auto simp: parse_bundle_def rbind_eq_Inr Let_def plain_byte_def bundle_tag_def
        split: if_splits option.splits)
  show ?L if ?R
    using that by (auto simp: parse_bundle_def Let_def plain_byte_def bundle_tag_def)
qed

lemma parse_bundle_Ok_iff:
  "parse_bundle env key sink s file = Ok (header, tag, s') \<longleftrightarrow>
     (\<exists>hb es. file = bundle_prefix hb es @ tag \<and> tag = bundle_tag env key (bundle_prefix hb es) \<and>
        accepted env key sink s hb es header s')"
  (is "?L \<longleftrightarrow> ?R")
proof
  assume ?L
  then obtain r1 n r2 hb r3 r4 s1 st r5 s2 where
    a: "read_into \<lparr>ar_rest = file, ar_mac = []\<rparr> 16 = Ok (MAGIC, r1)"
      "read_u32 r1 = Ok (n, r2)" "n \<le> HEADER_LIMIT" "read_into r2 n = Ok (hb, r3)" and
    b: "parse_entries sink r3 s parse_state_new = Ok (r4, s1, st)" and
    c: "plain_fixed r4 32 = Ok (tag, r5)" "tag = bundle_tag env key (ar_mac r4)" "ar_rest r5 = []" and
    d: "be_from_slice env hb = Some header" "validate_header header (ps_counts st) = Ok ()"
      "close_directories sink s1 (close_all st) = Ok s2" "sk_finish sink s2 = Ok s'"
    unfolding parse_bundle_stages by blast
  from parse_entries_sound [OF b] obtain es where es: "list_all entry_fits es"
    "reads r3 (encode_entries es @ [TAG_TERMINAL]) r4" "run_entries sink s es = Ok (s1, st)"
    by (auto simp: run_entries_def)
  have "reads \<lparr>ar_rest = file, ar_mac = []\<rparr> (bundle_prefix hb es) r4"
    using a es by (auto simp: reads_def bundle_prefix_def read_into_iff read_u32_iff)
  moreover have "length hb \<le> HEADER_LIMIT" using a by (simp add: read_into_iff)
  ultimately show ?R
    using c d es by (auto simp: plain_fixed_iff reads_def accepted_def intro!: exI [of _ hb] exI [of _ es])
next
  assume ?R
  then obtain hb es where fl: "file = bundle_prefix hb es @ tag" "tag = bundle_tag env key (bundle_prefix hb es)"
    and acc: "accepted env key sink s hb es header s'"
    by blast
  then obtain s1 st s2 where run: "run_entries sink s es = Ok (s1, st)" and
    d: "be_from_slice env hb = Some header" "validate_header header (ps_counts st) = Ok ()"
      "close_directories sink s1 (close_all st) = Ok s2" "sk_finish sink s2 = Ok s'"
    and l: "length hb \<le> HEADER_LIMIT" "list_all entry_fits es" "length tag = 32"
    unfolding accepted_def by blast
  let ?r4 = "\<lparr>ar_rest = tag, ar_mac = bundle_prefix hb es\<rparr>"
  have "reads \<lparr>ar_rest = file, ar_mac = []\<rparr> (MAGIC @ be_bytes 4 (length hb) @ hb @ (encode_entries es @ [TAG_TERMINAL])) ?r4"
    using fl(1) by (simp add: reads_def bundle_prefix_def)
  then obtain r1 r2 r3 where r: "reads \<lparr>ar_rest = file, ar_mac = []\<rparr> MAGIC r1" "reads r1 (be_bytes 4 (length hb)) r2"
    "reads r2 hb r3" "reads r3 (encode_entries es @ [TAG_TERMINAL]) ?r4"
    unfolding reads_append [of _ MAGIC] reads_append [of _ "be_bytes 4 (length hb)"] reads_append [of _ hb]
    by blast
  have "parse_entries sink r3 s parse_state_new = Ok (?r4, s1, st)"
    using parse_entries_complete [OF l(2) r(4)] run by (simp add: run_entries_def)
  moreover have "read_into \<lparr>ar_rest = file, ar_mac = []\<rparr> 16 = Ok (MAGIC, r1)"
    "read_u32 r1 = Ok (length hb, r2)" "read_into r2 (length hb) = Ok (hb, r3)"
    using r l HEADER_LIMIT_u32 by (simp_all add: read_into_iff read_u32_iff)
  moreover have "plain_fixed ?r4 32 = Ok (tag, \<lparr>ar_rest = [], ar_mac = bundle_prefix hb es\<rparr>)"
    using l by (simp add: plain_fixed_iff)
  ultimately show ?L
    unfolding parse_bundle_stages using l d fl(2)
    by (intro exI conjI) (assumption | simp)+
qed

end
