(* ===== verification/Bundle_Safety.thy ===== *)
theory Bundle_Safety
  imports Bundle_Proofs
begin

text \<open>
  What a parsed bundle can and cannot contain. The directory stack of the parser is the chain
  of open ancestors of the last entry (\<open>stack_ok\<close>); from this follow that the entries come in
  strict depth-first byte order, that no path occurs twice, that every parent was announced as
  a directory before, and hence that nothing is ever placed below a file or a symbolic link.
\<close>

subsection \<open>The directory stack\<close>

lemma close_to_eq:
  "close_to d dirs acc = (take (Suc d) dirs, acc @ map od_path (rev (drop (Suc d) dirs)))"
proof (induction d dirs acc rule: close_to.induct)
  case (1 d dirs acc)
  show ?case
  proof (cases "length dirs - 1 > d")
    case True
    then have ne: "dirs \<noteq> []" and len: "Suc d \<le> length (butlast dirs)" by auto
    have "take (Suc d) dirs = take (Suc d) (butlast dirs)"
      using len by (metis append_butlast_last_id ne take_append diff_is_0_eq' take0 append_Nil2)
    moreover have "drop (Suc d) dirs = drop (Suc d) (butlast dirs) @ [last dirs]"
      using len by (metis append_butlast_last_id ne drop_append diff_is_0_eq' drop0)
    ultimately show ?thesis using 1 True by (subst close_to.simps) simp
  next
    case False
    then show ?thesis by (subst close_to.simps) simp
  qed
qed

lemma zip_prefix_iff:
  "length ps \<le> length ds \<Longrightarrow>
     list_all (\<lambda>(p, d). p = od_component d) (zip ps ds) \<longleftrightarrow> take (length ps) (map od_component ds) = ps"
proof (induction ps arbitrary: ds)
  case (Cons p ps)
  then show ?case by (cases ds) auto
qed simp

definition sibling_after :: "string \<Rightarrow> string option \<Rightarrow> bool" where
  "sibling_after c prev \<longleftrightarrow> (case prev of None \<Rightarrow> True | Some p \<Rightarrow> p < c)"

definition push_entry :: "entry_kind \<Rightarrow> string \<Rightarrow> string \<Rightarrow> open_directory list \<Rightarrow> open_directory list" where
  "push_entry k path c kept =
     butlast kept @ [(last kept)\<lparr>od_last_child := Some c\<rparr>] @
     (if k = Directory then [\<lparr>od_path = path, od_component = c, od_last_child = None\<rparr>] else [])"

lemma validate_path_Ok_iff:
  "validate_path st path k = Ok (closed, st') \<longleftrightarrow>
     (\<exists>cs. split_path path = Ok cs \<and> cs \<noteq> [] \<and>
        length cs \<le> 64 + (if k \<noteq> Directory then 1 else 0) \<and>
        length cs \<le> length (ps_directories st) \<and>
        take (length cs - 1) (map od_component (tl (ps_directories st))) = butlast cs \<and>
        closed = map od_path (rev (drop (length cs) (ps_directories st))) \<and>
        sibling_after (last cs) (od_last_child (last (take (length cs) (ps_directories st)))) \<and>
        st' = st\<lparr>ps_directories := push_entry k path (last cs) (take (length cs) (ps_directories st))\<rparr>)"
  (is "_ \<longleftrightarrow> (\<exists>cs. ?R cs)")
proof -
  have split_ne: "split_path path = Ok cs \<Longrightarrow> cs \<noteq> []" for cs
    by (auto simp: split_path_def Let_def split: if_splits)
  have "validate_path st path k = Ok (closed, st') \<longleftrightarrow> (\<exists>cs. split_path path = Ok cs \<and> ?R cs)"
  proof -
    have "(case split_path path of Inl e \<Rightarrow> False | Inr cs \<Rightarrow> ?R cs) =
        (validate_path st path k = Ok (closed, st'))"
    proof (cases "split_path path")
      case (Inr cs)
      note ne = split_ne [OF Inr]
      then have len: "Suc (length (butlast cs)) = length cs" by simp
      have outside: "(length (butlast cs) \<ge> length (ps_directories st) \<or>
          \<not> list_all (\<lambda>(component, directory). component = od_component directory)
                (zip (butlast cs) (tl (ps_directories st)))) \<longleftrightarrow>
        \<not> (length cs \<le> length (ps_directories st) \<and>
            take (length cs - 1) (map od_component (tl (ps_directories st))) = butlast cs)"
        (is "?O = ?I")
      proof (cases "length cs \<le> length (ps_directories st)")
        case True
        then have "length (butlast cs) \<le> length (tl (ps_directories st))" "length (butlast cs) < length (ps_directories st)"
          using len by simp_all
        then show ?thesis using True zip_prefix_iff [of "butlast cs" "tl (ps_directories st)"] by simp
      qed (use len in simp)
      have kept: "length cs \<le> length (ps_directories st) \<Longrightarrow> take (length cs) (ps_directories st) \<noteq> []"
        using ne by auto
      show ?thesis
        unfolding Inr validate_path_def rbind_Inr close_to_eq len Let_def prod.case sum.case outside
        using ne kept
        by (auto simp: sibling_after_def push_entry_def not_le split: option.splits)
    next
      case (Inl e)
      then show ?thesis by (simp add: validate_path_def)
    qed
    then show ?thesis by (auto split: sum.splits)
  qed
  then show ?thesis by blast
qed

text \<open>The spine of a stack is the component list of the entry that was read last.\<close>

definition open_components :: "open_directory list \<Rightarrow> string list" where
  "open_components dirs = map od_component (tl dirs)"

definition spine :: "open_directory list \<Rightarrow> string list" where
  "spine dirs = open_components dirs @ (case od_last_child (last dirs) of None \<Rightarrow> [] | Some c \<Rightarrow> [c])"

definition stack_ok :: "open_directory list \<Rightarrow> bool" where
  "stack_ok dirs \<longleftrightarrow> dirs \<noteq> [] \<and>
     (\<forall>i<length dirs - 1. od_last_child (dirs ! i) = Some (open_components dirs ! i)) \<and>
     (\<forall>i<length dirs. od_path (dirs ! i) = join_slash (take i (open_components dirs)))"

lemma length_open_components [simp]: "length (open_components dirs) = length dirs - 1"
  by (simp add: open_components_def)

lemma stack_ok_child:
  assumes "stack_ok dirs" "i < length dirs"
  shows "od_last_child (dirs ! i) = (if i < length (spine dirs) then Some (spine dirs ! i) else None)"
proof (cases "i = length dirs - 1")
  case True
  then have "last dirs = dirs ! i" using assms by (simp add: stack_ok_def last_conv_nth)
  with True assms show ?thesis by (auto simp: spine_def nth_append split: option.splits)
next
  case False
  with assms have "i < length dirs - 1" by simp
  with assms show ?thesis by (simp add: stack_ok_def spine_def nth_append)
qed

lemma append_less_append [simp]: "(us @ xs < us @ ys) = (xs < (ys :: 'a :: linorder list))"
  by (induction us) simp_all

lemma spine_less:
  assumes "stack_ok dirs" "cs \<noteq> []" "length cs \<le> length dirs"
    "take (length cs - 1) (open_components dirs) = butlast cs"
    "sibling_after (last cs) (od_last_child (last (take (length cs) dirs)))"
  shows "spine dirs < cs"
proof -
  let ?n = "length cs - 1"
  have n: "?n < length dirs" "?n \<le> length (spine dirs)"
    using assms(2,3) by (cases cs; simp add: spine_def)+
  have "last (take (length cs) dirs) = dirs ! ?n"
    using assms(2,3) n by (subst last_conv_nth) (auto simp: min_def)
  with assms(5) stack_ok_child [OF assms(1) n(1)]
  have sib: "?n < length (spine dirs) \<Longrightarrow> spine dirs ! ?n < last cs"
    by (auto simp: sibling_after_def)
  have pre: "take ?n (spine dirs) = butlast cs"
    using assms(3,4) by (simp add: spine_def)
  have cs: "cs = butlast cs @ [last cs]" using assms(2) by simp
  show ?thesis
  proof (cases "?n < length (spine dirs)")
    case True
    then have "spine dirs = butlast cs @ spine dirs ! ?n # drop (Suc ?n) (spine dirs)"
      using pre by (metis id_take_nth_drop)
    then have "(spine dirs < cs) = (butlast cs @ spine dirs ! ?n # drop (Suc ?n) (spine dirs) < butlast cs @ [last cs])"
      using cs by metis
    with sib [OF True] show ?thesis by simp
  next
    case False
    with pre n have "spine dirs = butlast cs" by simp
    moreover have "butlast cs < butlast cs @ [last cs]"
      using append_less_append [of "butlast cs" "[]" "[last cs]"] by simp
    ultimately show ?thesis using cs by metis
  qed
qed

lemma push_entry_stack:
  fixes k :: entry_kind
  assumes ok: "stack_ok dirs" and cs: "cs \<noteq> []" "length cs \<le> length dirs"
    "take (length cs - 1) (open_components dirs) = butlast cs"
    and path: "path = join_slash cs"
  defines "dirs' \<equiv> push_entry k path (last cs) (take (length cs) dirs)"
  shows "stack_ok dirs'" "spine dirs' = cs"
    "open_components dirs' = (if k = Directory then cs else butlast cs)"
    "d \<in> set (tl dirs') \<Longrightarrow> od_path d \<in> od_path ` set (tl dirs) \<or> k = Directory \<and> od_path d = path"
proof -
  obtain n where n: "length cs = Suc n" using cs(1) by (cases cs) auto
  then have nd: "n < length dirs" using cs(2) by simp
  let ?top = "(dirs ! n)\<lparr>od_last_child := Some (last cs)\<rparr>"
  let ?new = "if k = Directory then [\<lparr>od_path = path, od_component = last cs, od_last_child = None\<rparr>] else []"
  have "take (length cs) dirs = take n dirs @ [dirs ! n]" using n nd by (simp add: take_Suc_conv_app_nth)
  then have dirs': "dirs' = take n dirs @ [?top] @ ?new"
    by (simp add: dirs'_def push_entry_def)
  have tl_dirs': "tl dirs' = tl (take n dirs @ [?top]) @ ?new" by (auto simp: dirs' tl_append split: list.splits)
  have comps: "take n (open_components dirs) = butlast cs" using cs(3) n by simp
  have keep: "map od_component (tl (take n dirs @ [?top])) = butlast cs"
    using comps nd by (cases n; cases dirs) (auto simp: open_components_def take_Suc_conv_app_nth take_map)
  show oc: "open_components dirs' = (if k = Directory then cs else butlast cs)"
    using tl_dirs' keep cs(1) by (simp add: open_components_def)
  show "spine dirs' = cs"
    unfolding spine_def oc using cs(1) by (auto simp: dirs')
  have len: "length dirs' = (if k = Directory then Suc (Suc n) else Suc n)" using nd by (simp add: dirs')
  have child: "od_last_child (dirs' ! i) = Some (open_components dirs' ! i)" if i: "i < length dirs' - 1" for i
  proof (cases "i < n")
    case True
    then have "od_last_child (dirs' ! i) = Some (open_components dirs ! i)"
      using ok nd by (simp add: dirs' nth_append stack_ok_def)
    moreover have "open_components dirs ! i = butlast cs ! i" using True comps by (metis nth_take)
    moreover have "butlast cs ! i = cs ! i" using True n by (simp add: nth_butlast)
    ultimately show ?thesis using oc by simp
  next
    case False
    with i len have "i = n" "k = Directory" by (auto split: if_splits)
    then have "od_last_child (dirs' ! i) = Some (last cs)" using nd by (simp add: dirs' nth_append)
    with \<open>i = n\<close> \<open>k = Directory\<close> show ?thesis using n cs(1) by (simp add: oc last_conv_nth)
  qed
  have path_i: "od_path (dirs' ! i) = join_slash (take i (open_components dirs'))" if i: "i < length dirs'" for i
  proof (cases "i \<le> n")
    case True
    then have "od_path (dirs' ! i) = od_path (dirs ! i)" using nd by (auto simp: dirs' nth_append)
    also have "\<dots> = join_slash (take i (open_components dirs))" using ok True nd by (simp add: stack_ok_def)
    also have "take i (open_components dirs) = take i (butlast cs)"
      using True comps by (metis min.absorb1 take_take)
    also have "\<dots> = take i cs" using True n by (simp add: butlast_conv_take)
    finally show ?thesis using oc True n by (auto simp: butlast_conv_take)
  next
    case False
    with i len have "i = Suc n" "k = Directory" by (auto split: if_splits)
    then have "od_path (dirs' ! i) = path" using nd by (simp add: dirs' nth_append)
    with \<open>i = Suc n\<close> \<open>k = Directory\<close> show ?thesis using n path by (simp add: oc)
  qed
  show "stack_ok dirs'" using child path_i by (simp add: stack_ok_def) (simp add: dirs')
  show "od_path d \<in> od_path ` set (tl dirs) \<or> k = Directory \<and> od_path d = path" if d: "d \<in> set (tl dirs')"
  proof -
    have "od_path ` set (tl (take n dirs @ [?top])) \<subseteq> od_path ` set (tl dirs)"
    proof (cases n)
      case (Suc m)
      with nd have "tl (take n dirs @ [?top]) = take m (tl dirs) @ [?top]" "dirs ! n = tl dirs ! m" "m < length (tl dirs)"
        by (auto simp: tl_take nth_tl) (cases dirs; simp)
      then show ?thesis by (auto dest: in_set_takeD)
    qed simp
    then show ?thesis using d tl_dirs' by (auto split: if_splits)
  qed
qed

subsection \<open>Entries as state steps and sink events\<close>

datatype sink_event =
    CloseDirectory string
  | MakeDirectory string nat
  | FileStart string nat nat
  | FileChunk string
  | FileEnd
  | MakeSymlink string string

fun deliver :: "'s entry_sink \<Rightarrow> 's \<Rightarrow> sink_event \<Rightarrow> 's result" where
  "deliver sink s (CloseDirectory p) = sk_close_directory sink s p"
| "deliver sink s (MakeDirectory p m) = sk_directory sink s p m"
| "deliver sink s (FileStart p m n) = sk_file_start sink s p m n"
| "deliver sink s (FileChunk b) = sk_file_chunk sink s b"
| "deliver sink s FileEnd = sk_file_end sink s"
| "deliver sink s (MakeSymlink p t) = sk_symlink sink s p t"

fun kind_of :: "entry \<Rightarrow> entry_kind" where
  "kind_of (EDir p m) = Directory"
| "kind_of (EFile p m c) = File"
| "kind_of (ELink p t) = Symlink"

fun note_of :: "entry \<Rightarrow> artifact_counts \<Rightarrow> artifact_counts result" where
  "note_of (EDir p m) c = note_directory c"
| "note_of (EFile p m d) c = note_file c (length d)"
| "note_of (ELink p t) c = rbind (validate_link_target p t) (\<lambda>_. note_symlink c (length t))"

fun entry_events :: "entry \<Rightarrow> sink_event list" where
  "entry_events (EDir p m) = [MakeDirectory p m]"
| "entry_events (EFile p m c) = FileStart p m (length c) # map FileChunk (chunks c) @ [FileEnd]"
| "entry_events (ELink p t) = [MakeSymlink p t]"

definition advance :: "parse_state \<Rightarrow> entry \<Rightarrow> (sink_event list \<times> parse_state) result" where
  "advance st e =
     rbind (validate_path st (entry_path e) (kind_of e)) (\<lambda>(closed, st).
     rbind (note_of e (ps_counts st)) (\<lambda>counts.
     Ok (map CloseDirectory closed @ entry_events e, st\<lparr>ps_counts := counts\<rparr>)))"

lemma rfold_map: "rfold f s (map g xs) = rfold (\<lambda>s x. f s (g x)) s xs"
  by (induction xs arbitrary: s) simp_all

lemma enter_path_Ok_iff:
  "enter_path sink (s, st) p k = Ok (s', st') \<longleftrightarrow>
     (\<exists>closed. validate_path st p k = Ok (closed, st') \<and>
        rfold (deliver sink) s (map CloseDirectory closed) = Ok s')"
  by (auto simp: enter_path_def rbind_eq_Inr close_directories_def rfold_map)

lemma entry_step_Ok_iff:
  "entry_step sink (s, st) e = Ok (s', st') \<longleftrightarrow>
     (\<exists>evs. advance st e = Ok (evs, st') \<and> rfold (deliver sink) s evs = Ok s')"
  by (cases e) (auto simp: advance_def rbind_eq_Inr enter_path_Ok_iff rfold_append rfold_map; blast)+

fun advance_all :: "parse_state \<Rightarrow> entry list \<Rightarrow> (sink_event list \<times> parse_state) result" where
  "advance_all st [] = Ok ([], st)"
| "advance_all st (e # es) =
     rbind (advance st e) (\<lambda>(evs, st).
     rbind (advance_all st es) (\<lambda>(evs', st). Ok (evs @ evs', st)))"

lemma rfold_entry_step_iff:
  "rfold (entry_step sink) (s, st) es = Ok (s', st') \<longleftrightarrow>
     (\<exists>evs. advance_all st es = Ok (evs, st') \<and> rfold (deliver sink) s evs = Ok s')"
proof (induction es arbitrary: s st)
  case (Cons e es)
  then show ?case
    by (auto simp: rbind_eq_Inr entry_step_Ok_iff rfold_append)
qed auto

lemma run_entries_Ok_iff:
  "run_entries sink s es = Ok (s', st') \<longleftrightarrow>
     (\<exists>evs. advance_all parse_state_new es = Ok (evs, st') \<and> rfold (deliver sink) s evs = Ok s')"
  unfolding run_entries_def by (rule rfold_entry_step_iff)

subsection \<open>Order, parents and path safety\<close>

definition entry_components :: "entry \<Rightarrow> string list" where
  "entry_components e = split_slash (entry_path e)"

text \<open>
  A safe path: relative, no component that names the directory itself or its parent, no NUL, and
  within the depth and length limits. A safe link also stays below the root when it is resolved
  component by component.
\<close>

fun link_stays_inside :: "entry \<Rightarrow> bool" where
  "link_stays_inside (ELink p t) \<longleftrightarrow> t \<noteq> [] \<and> \<not> is_absolute t \<and> CHR 0x00 \<notin> set t \<and>
     (\<forall>k. climb (take k (path_components t)) \<le> int (length (split_slash p) - 1))"
| "link_stays_inside _ \<longleftrightarrow> True"

definition safe_entry :: "entry \<Rightarrow> bool" where
  "safe_entry e \<longleftrightarrow>
     list_all (\<lambda>c. clean_component c \<and> CHR 0x00 \<notin> set c \<and> length c \<le> 255) (entry_components e) \<and>
     length (entry_components e) \<le> (if kind_of e = Directory then 64 else 65) \<and>
     link_stays_inside e"

lemma split_slash_subset: "c \<in> set (split_slash path) \<Longrightarrow> set c \<subseteq> set path"
proof (induction path arbitrary: c)
  case (Cons x path)
  then have IH: "\<And>q. q \<in> set (split_slash path) \<Longrightarrow> set q \<subseteq> set path" by blast
  obtain q qs where "split_slash path = q # qs" by (cases "split_slash path") auto
  with Cons.prems IH [of q] IH [of c] show ?case by (auto split: if_splits)
qed simp

lemma split_path_Ok:
  assumes "split_path path = Ok cs"
  shows "cs = split_slash path" "CHR 0x00 \<notin> set path" "\<not> is_absolute path"
    "list_all (\<lambda>c. clean_component c \<and> CHR 0x00 \<notin> set c \<and> length c \<le> 255) cs"
proof -
  from assms show cs: "cs = split_slash path" and nul: "CHR 0x00 \<notin> set path" and "\<not> is_absolute path"
    by (auto simp: split_path_def Let_def is_absolute_def split: if_splits)
  from assms have "\<not> list_ex (\<lambda>c. c = [] \<or> c = ''.'' \<or> c = ''..'' \<or> length c > lim_component_bytes ALPHA) cs"
    unfolding cs split_path_def Let_def by (simp split: if_splits)
  then have "\<forall>c\<in>set cs. c \<noteq> [] \<and> c \<noteq> ''.'' \<and> c \<noteq> ''..'' \<and> length c \<le> 255"
    by (simp add: list_ex_iff not_less)
  moreover have "\<forall>c\<in>set cs. CHR ''/'' \<notin> set c \<and> CHR 0x00 \<notin> set c"
    using cs nul split_slash_component split_slash_subset by blast
  ultimately show "list_all (\<lambda>c. clean_component c \<and> CHR 0x00 \<notin> set c \<and> length c \<le> 255) cs"
    by (simp add: list_all_iff clean_component_def)
qed

lemma advance_Ok_iff:
  "advance st e = Ok (evs, st') \<longleftrightarrow>
     (\<exists>closed st1 counts. validate_path st (entry_path e) (kind_of e) = Ok (closed, st1) \<and>
        note_of e (ps_counts st1) = Ok counts \<and> evs = map CloseDirectory closed @ entry_events e \<and>
        st' = st1\<lparr>ps_counts := counts\<rparr>)"
  by (auto simp: advance_def rbind_eq_Inr)

lemma note_of_link:
  "note_of e c = Ok c' \<Longrightarrow> link_stays_inside e"
proof (cases e)
  case (ELink p t)
  assume "note_of e c = Ok c'"
  then have t: "t \<noteq> []" "\<not> is_absolute t" "CHR 0x00 \<notin> set t" and
    ex: "\<exists>cs out. split_path p = Ok cs \<and> resolve_relative_link_target (butlast cs) t = Some out"
    using ELink by (auto simp: validate_link_target_def rbind_eq_Inr is_absolute_def split: if_splits)
  from ex obtain cs out where "split_path p = Ok cs" "resolve_components (butlast cs) (path_components t) = Some out"
    using t by (auto simp: resolve_relative_link_target_def)
  then have "\<forall>k. climb (take k (path_components t)) \<le> int (length (butlast (split_slash p)))"
    using resolve_components_Some_iff [OF path_components_relative [OF t(2)]] split_path_Ok(1) by blast
  with t ELink show ?thesis by simp
qed simp_all

lemma advance_step:
  assumes "stack_ok (ps_directories st)" "advance st e = Ok (evs, st')"
  shows "safe_entry e" "stack_ok (ps_directories st')" "spine (ps_directories st') = entry_components e"
    "spine (ps_directories st) < entry_components e"
    "length (entry_components e) > 1 \<Longrightarrow>
       join_slash (butlast (entry_components e)) \<in> od_path ` set (tl (ps_directories st))"
    "od_path ` set (tl (ps_directories st')) \<subseteq>
       od_path ` set (tl (ps_directories st)) \<union> (if kind_of e = Directory then {entry_path e} else {})"
proof -
  let ?dirs = "ps_directories st"
  from assms(2) obtain closed st1 counts where
    v: "validate_path st (entry_path e) (kind_of e) = Ok (closed, st1)" and
    n: "note_of e (ps_counts st1) = Ok counts" and st': "st' = st1\<lparr>ps_counts := counts\<rparr>"
    by (auto simp: advance_Ok_iff)
  from v obtain cs where split: "split_path (entry_path e) = Ok cs" and
    cs: "cs \<noteq> []" "length cs \<le> length ?dirs" "take (length cs - 1) (open_components ?dirs) = butlast cs" and
    depth: "length cs \<le> 64 + (if kind_of e \<noteq> Directory then 1 else 0)" and
    sib: "sibling_after (last cs) (od_last_child (last (take (length cs) ?dirs)))" and
    st1: "st1 = st\<lparr>ps_directories := push_entry (kind_of e) (entry_path e) (last cs) (take (length cs) ?dirs)\<rparr>"
    unfolding validate_path_Ok_iff open_components_def by blast
  have ec: "entry_components e = cs" using split_path_Ok(1) [OF split] by (simp add: entry_components_def)
  have path: "entry_path e = join_slash cs" using split_path_Ok(1) [OF split] by (simp add: join_split_slash)
  show "safe_entry e"
    using split_path_Ok(4) [OF split] depth note_of_link [OF n] by (auto simp: safe_entry_def ec)
  note push = push_entry_stack [OF assms(1) cs path, where k = "kind_of e"]
  show "stack_ok (ps_directories st')" "spine (ps_directories st') = entry_components e"
    using push(1,2) by (simp_all add: st' st1 ec)
  show "spine ?dirs < entry_components e" using spine_less [OF assms(1) cs sib] by (simp add: ec)
  show "join_slash (butlast (entry_components e)) \<in> od_path ` set (tl ?dirs)"
    if "length (entry_components e) > 1"
  proof -
    let ?n = "length cs - 1"
    have n: "?n < length ?dirs" "?n - 1 < length (tl ?dirs)" "?dirs ! ?n = tl ?dirs ! (?n - 1)"
      using that cs(2) by (auto simp: ec nth_tl Suc_diff_Suc)
    have "od_path (?dirs ! ?n) = join_slash (butlast cs)"
      using assms(1) n(1) cs(3) by (simp add: stack_ok_def)
    with n show ?thesis unfolding ec by (metis image_eqI nth_mem)
  qed
  show "od_path ` set (tl (ps_directories st')) \<subseteq>
       od_path ` set (tl ?dirs) \<union> (if kind_of e = Directory then {entry_path e} else {})"
    using push(4) by (fastforce simp: st' st1)
qed

text \<open>The whole run: a strictly increasing depth-first listing whose parents come first.\<close>

definition parents_first :: "string set \<Rightarrow> entry list \<Rightarrow> bool" where
  "parents_first known es \<longleftrightarrow>
     (\<forall>i<length es. length (entry_components (es ! i)) > 1 \<longrightarrow>
        (let parent = join_slash (butlast (entry_components (es ! i))) in
           parent \<in> known \<or> (\<exists>j<i. \<exists>m. es ! j = EDir parent m)))"

lemma parents_first_Cons:
  assumes "length (entry_components e) > 1 \<Longrightarrow> join_slash (butlast (entry_components e)) \<in> known"
    and "parents_first (known \<union> (if kind_of e = Directory then {entry_path e} else {})) es"
  shows "parents_first known (e # es)"
  unfolding parents_first_def Let_def
proof (intro allI impI)
  fix i assume i: "i < length (e # es)" "length (entry_components ((e # es) ! i)) > 1"
  let ?parent = "join_slash (butlast (entry_components ((e # es) ! i)))"
  show "?parent \<in> known \<or> (\<exists>j<i. \<exists>m. (e # es) ! j = EDir ?parent m)"
  proof (cases i)
    case 0
    with assms(1) i show ?thesis by simp
  next
    case (Suc k)
    with assms(2) i consider "?parent \<in> known" | "kind_of e = Directory" "?parent = entry_path e"
      | j m where "j < k" "es ! j = EDir ?parent m"
      by (auto simp: parents_first_def Let_def split: if_splits)
    then show ?thesis
    proof cases
      case 2
      then have "(e # es) ! 0 = EDir ?parent (entry_mode e)" by (cases e) auto
      then show ?thesis using Suc by blast
    next
      case 3
      then have "Suc j < i" "(e # es) ! Suc j = EDir ?parent m" using Suc by simp_all
      then show ?thesis by blast
    qed blast
  qed
qed

lemma parents_first_mono: "parents_first known es \<Longrightarrow> known \<subseteq> known' \<Longrightarrow> parents_first known' es"
  unfolding parents_first_def Let_def by blast

lemma advance_all_listing:
  assumes "advance_all st es = Ok (evs, st')" "stack_ok (ps_directories st)"
  shows "list_all safe_entry es \<and> sorted_wrt (<) (spine (ps_directories st) # map entry_components es) \<and>
    parents_first (od_path ` set (tl (ps_directories st))) es"
  using assms
proof (induction es arbitrary: st evs)
  case Nil
  then show ?case by (simp add: parents_first_def)
next
  case (Cons e es)
  from Cons.prems(1) obtain evs1 st1 evs2 where
    a: "advance st e = Ok (evs1, st1)" and b: "advance_all st1 es = Ok (evs2, st')"
    by (auto simp: rbind_eq_Inr)
  note step = advance_step [OF Cons.prems(2) a]
  note IH = Cons.IH [OF b step(2)]
  have "parents_first (od_path ` set (tl (ps_directories st))) (e # es)"
    using parents_first_Cons [OF step(5)] parents_first_mono step(6) IH by blast
  moreover have "sorted_wrt (<) (spine (ps_directories st) # entry_components e # map entry_components es)"
    using step(3,4) IH by (auto intro: less_trans)
  ultimately show ?case using step(1) IH by simp
qed

lemma stack_ok_new: "stack_ok (ps_directories parse_state_new)"
  "od_path ` set (tl (ps_directories parse_state_new)) = {}"
  by (simp_all add: parse_state_new_def stack_ok_def open_components_def)

subsection \<open>Counts\<close>

fun entry_bytes :: "entry \<Rightarrow> nat" where
  "entry_bytes (EDir p m) = 0"
| "entry_bytes (EFile p m c) = length c"
| "entry_bytes (ELink p t) = length t"

definition counts_of :: "entry list \<Rightarrow> artifact_counts" where
  "counts_of es =
     \<lparr>ac_directories = length (filter (\<lambda>e. kind_of e = Directory) es),
      ac_files = length (filter (\<lambda>e. kind_of e = File) es),
      ac_symlinks = length (filter (\<lambda>e. kind_of e = Symlink) es),
      ac_entries = length es,
      ac_logical_bytes = sum_list (map entry_bytes es)\<rparr>"

definition counts_in_limits :: "artifact_counts \<Rightarrow> bool" where
  "counts_in_limits c \<longleftrightarrow> ac_entries c \<le> lim_entries ALPHA \<and> ac_logical_bytes c \<le> lim_logical_bytes ALPHA"

lemma counts_of_Nil: "counts_of [] = counts_default"
  by (simp add: counts_of_def counts_default_def)

lemma note_entry_Ok_iff:
  "note_entry c = Ok c' \<longleftrightarrow> ac_entries c < lim_entries ALPHA \<and> c' = c\<lparr>ac_entries := ac_entries c + 1\<rparr>"
proof (cases "ac_entries c < lim_entries ALPHA")
  case True
  then have "sat_add (ac_entries c) 1 = ac_entries c + 1" by (simp add: sat_add_exact u64_max_num)
  with True show ?thesis by (auto simp: note_entry_def Let_def)
next
  case False
  then have "\<not> sat_add (ac_entries c) 1 \<le> lim_entries ALPHA"
    using sat_add_1_le_iff [of "lim_entries ALPHA" "ac_entries c"] by (simp add: u64_max_num)
  with False show ?thesis by (simp add: note_entry_def Let_def)
qed

lemma add_bytes_Ok_iff:
  "add_bytes c n = Ok c' \<longleftrightarrow>
     ac_logical_bytes c + n \<le> lim_logical_bytes ALPHA \<and> c' = c\<lparr>ac_logical_bytes := ac_logical_bytes c + n\<rparr>"
  by (auto simp: add_bytes_def checked_add_def u64_max_num)

lemma sat_add_small: "n \<le> 100000 \<Longrightarrow> sat_add n (Suc 0) = Suc n"
  by (simp add: sat_add_exact u64_max_num)

lemma note_of_counts:
  assumes "note_of e (counts_of es) = Ok c" "counts_in_limits (counts_of es)"
  shows "c = counts_of (es @ [e]) \<and> counts_in_limits c"
proof -
  have f: "sat_add (length (filter P es)) (Suc 0) = Suc (length (filter P es))" for P
    using assms(2) le_trans [OF length_filter_le]
    by (intro sat_add_small) (auto simp: counts_in_limits_def counts_of_def)
  from assms show ?thesis
    by (cases e)
      (auto simp: note_directory_def note_file_def note_symlink_def rbind_eq_Inr note_entry_Ok_iff add_bytes_Ok_iff
        counts_of_def counts_in_limits_def f simp del: ALPHA_simps split: if_splits)
qed

lemma advance_all_counts:
  assumes "advance_all st es = Ok (evs, st')" "ps_counts st = counts_of pre" "counts_in_limits (counts_of pre)"
  shows "ps_counts st' = counts_of (pre @ es) \<and> counts_in_limits (counts_of (pre @ es))"
  using assms
proof (induction es arbitrary: st evs pre)
  case (Cons e es)
  from Cons.prems(1) obtain evs1 st1 evs2 where
    a: "advance st e = Ok (evs1, st1)" and b: "advance_all st1 es = Ok (evs2, st')"
    by (auto simp: rbind_eq_Inr)
  from a obtain c where "note_of e (counts_of pre) = Ok c" "ps_counts st1 = c"
    using Cons.prems(2) by (auto simp: advance_Ok_iff validate_path_Ok_iff)
  then have "ps_counts st1 = counts_of (pre @ [e])" "counts_in_limits (counts_of (pre @ [e]))"
    using note_of_counts [of e pre] Cons.prems(3) by auto
  from Cons.IH [OF b this] show ?case by simp
qed simp

subsection \<open>The writer\<close>

text \<open>One entry through the writer, and a whole bundle: the calls an export makes, in order.\<close>

fun write_entry :: "bundle_writer \<Rightarrow> entry \<Rightarrow> bundle_writer result" where
  "write_entry w (EDir p m) = writer_directory w p m"
| "write_entry w (EFile p m c) = rbind (writer_file w p m c (length c) []) (\<lambda>(w, _). Ok w)"
| "write_entry w (ELink p t) = writer_symlink w p t"

definition write_bundle :: "bundle_env \<Rightarrow> string \<Rightarrow> bundle_header \<Rightarrow> entry list \<Rightarrow> (string \<times> string) result" where
  "write_bundle env key header es =
     rbind (begin_bundle env [] header) (\<lambda>w.
     rbind (rfold write_entry w es) (\<lambda>w. Ok (finish_bundle env key w)))"

lemma authenticated_append [simp]: "authenticated (authenticated w a) b = authenticated w (a @ b)"
  by (simp add: authenticated_def)

lemma authenticated_Nil [simp]: "authenticated w [] = w"
  by (simp add: authenticated_def)

lemma copy_chunks_all:
  "copy_chunks (length c) c w can = Ok ([], authenticated w c, can @ c)"
proof (induction "length c" c w can rule: copy_chunks.induct)
  case (1 c w can)
  show ?case
  proof (cases "c = []")
    case True
    then show ?thesis by (simp add: copy_chunks.simps)
  next
    case False
    let ?n = "min (length c) BUFFER_BYTES"
    have "copy_chunks (length c) c w can =
        copy_chunks (length (drop ?n c)) (drop ?n c) (authenticated w (take ?n c)) (can @ take ?n c)"
      using False by (subst copy_chunks.simps) (simp add: Let_def)
    also have "\<dots> = Ok ([], authenticated (authenticated w (take ?n c)) (drop ?n c), (can @ take ?n c) @ drop ?n c)"
      using "1.hyps" [of ?n] False by simp
    finally show ?thesis by simp
  qed
qed

lemma write_entry_Ok: "entry_fits e \<Longrightarrow> write_entry w e = Ok (authenticated w (encode_entry e))"
proof -
  have u32: "n \<le> 4096 \<Longrightarrow> u32_from n = Ok n" for n by (simp add: u32_from_def u32_max_num)
  show "entry_fits e \<Longrightarrow> ?thesis"
    by (cases e)
      (simp_all add: writer_directory_def writer_file_def writer_symlink_def writer_path_def u32 copy_chunks_all
        encode_entry_def mode_bits_id)
qed

lemma write_entries_Ok:
  "list_all entry_fits es \<Longrightarrow> rfold write_entry w es = Ok (authenticated w (encode_entries es))"
  by (induction es arbitrary: w) (simp_all add: write_entry_Ok)

lemma write_bundle_Ok:
  assumes "be_to_vec env header = Some hb" "length hb \<le> HEADER_LIMIT" "list_all entry_fits es"
  shows "write_bundle env key header es =
    Ok (bundle_prefix hb es @ bundle_tag env key (bundle_prefix hb es), bundle_tag env key (bundle_prefix hb es))"
  using assms HEADER_LIMIT_u32 [OF assms(2)]
  by (simp add: write_bundle_def begin_bundle_def u32_from_def write_entries_Ok finish_bundle_def
      bundle_tag_def bundle_prefix_def Let_def) (simp add: authenticated_def)

end
