(* ===== verification/Bundle_Canonical.thy ===== *)
theory Bundle_Canonical
  imports Bundle_Safety "HOL-Library.Multiset"
begin

text \<open>
  The parser accepts exactly the canonical listings: safe paths in strict depth-first byte
  order, parents first, within the limits. With the framing result of \<open>Bundle_Proofs\<close> this
  gives the two directions of the bundle contract, the properties at the end of this theory.
\<close>

subsection \<open>Completeness of the path checks\<close>

lemma split_path_complete:
  assumes "list_all (\<lambda>c. clean_component c \<and> CHR 0x00 \<notin> set c \<and> length c \<le> 255) (split_slash path)"
  shows "split_path path = Ok (split_slash path)"
proof -
  have all: "\<forall>c\<in>set (split_slash path). c \<noteq> [] \<and> c \<noteq> ''.'' \<and> c \<noteq> ''..'' \<and> CHR 0x00 \<notin> set c \<and> length c \<le> 255"
    using assms by (simp add: list_all_iff clean_component_def)
  have "[] \<notin> set (split_slash path)" using all by blast
  then have "path \<noteq> []" "\<not> starts_with path ''/''"
    by (auto simp: starts_with_iff)
  moreover have "CHR 0x00 \<notin> set path"
    using all set_join_slash [of "split_slash path"] by (auto simp: join_split_slash)
  moreover have "\<not> list_ex (\<lambda>c. c = [] \<or> c = ''.'' \<or> c = ''..'' \<or> length c > lim_component_bytes ALPHA) (split_slash path)"
    unfolding list_ex_iff ALPHA_simps using all by (meson not_le)
  ultimately show ?thesis by (simp add: split_path_def Let_def)
qed

lemma validate_link_target_complete:
  assumes "link_stays_inside (ELink p t)" "split_path p = Ok (split_slash p)"
  shows "validate_link_target p t = Ok ()"
proof -
  have t: "t \<noteq> []" "\<not> is_absolute t" "CHR 0x00 \<notin> set t" using assms(1) by auto
  have "\<exists>out. resolve_components (butlast (split_slash p)) (path_components t) = Some out"
    using assms(1) by (subst resolve_components_Some_iff) (simp_all add: path_components_relative)
  then show ?thesis
    using t assms(2) by (auto simp: validate_link_target_def resolve_relative_link_target_def is_absolute_def)
qed

lemma note_of_complete:
  assumes "entry_fits e" "safe_entry e" "counts_in_limits (counts_of (es @ [e]))" "split_path (entry_path e) = Ok (entry_components e)"
  shows "\<exists>c. note_of e (counts_of es) = Ok c"
proof -
  have "ac_entries (counts_of es) < lim_entries ALPHA"
    "ac_logical_bytes (counts_of es) + entry_bytes e \<le> lim_logical_bytes ALPHA"
    using assms(3) by (auto simp: counts_in_limits_def counts_of_def)
  moreover have "validate_link_target p t = Ok ()" if "e = ELink p t" for p t
    using that assms(2,4) by (intro validate_link_target_complete) (auto simp: safe_entry_def entry_components_def)
  ultimately show ?thesis
    using assms(1)
    by (cases e) (auto simp: note_directory_def note_file_def note_symlink_def result_simps note_entry_Ok_iff add_bytes_Ok_iff)
qed

subsection \<open>Order between a directory and its next entry\<close>

lemma between_prefix:
  fixes s :: "string list"
  shows "p \<le> s \<Longrightarrow> s < p @ [x] \<Longrightarrow> \<exists>r. s = p @ r \<and> (r = [] \<or> hd r < x)"
proof (induction p arbitrary: s)
  case Nil
  then show ?case by (cases s) auto
next
  case (Cons a p)
  then show ?case by (cases s) (auto simp: less_le)
qed

definition tracks :: "entry list \<Rightarrow> parse_state \<Rightarrow> bool" where
  "tracks pre st \<longleftrightarrow> stack_ok (ps_directories st) \<and> ps_counts st = counts_of pre \<and>
     spine (ps_directories st) = (if pre = [] then [] else entry_components (last pre)) \<and>
     open_components (ps_directories st) =
       (if pre = [] then [] else if kind_of (last pre) = Directory then entry_components (last pre)
        else butlast (entry_components (last pre)))"

lemma tracks_new: "tracks [] parse_state_new"
  using stack_ok_new by (simp add: tracks_def parse_state_new_def counts_of_Nil spine_def open_components_def)

text \<open>The parent of the next canonical entry is a prefix of the open directories.\<close>

lemma parent_open:
  assumes "tracks pre st" "sorted_wrt (<) (map entry_components (pre @ [e]))"
    "parents_first {} (pre @ [e])" "list_all safe_entry (pre @ [e])"
  shows "take (length (entry_components e) - 1) (open_components (ps_directories st)) = butlast (entry_components e)"
    "length (entry_components e) - 1 \<le> length (open_components (ps_directories st))"
    "length (entry_components e) - 1 < length (spine (ps_directories st)) \<Longrightarrow>
       spine (ps_directories st) ! (length (entry_components e) - 1) < last (entry_components e)"
proof -
  let ?cs = "entry_components e" and ?spine = "spine (ps_directories st)"
  let ?open = "open_components (ps_directories st)" and ?parent = "butlast (entry_components e)"
  let ?n = "length (entry_components e) - 1"
  have ne: "?cs \<noteq> []" by (simp add: entry_components_def)
  have sorted: "\<forall>d\<in>set pre. entry_components d \<le> ?spine"
  proof (cases "pre = []")
    case False
    then obtain qs l where pre: "pre = qs @ [l]" by (metis rev_exhaust)
    with assms(1) have "?spine = entry_components l" by (simp add: tracks_def)
    with assms(2) pre show ?thesis by (auto simp: sorted_wrt_append intro: less_imp_le)
  qed simp
  have less: "?spine < ?parent @ [last ?cs]"
  proof (cases "pre = []")
    case True
    then have "?spine = []" using assms(1) by (simp add: tracks_def)
    then show ?thesis by (cases ?parent) simp_all
  next
    case False
    then have "?spine = entry_components (last pre)" "last pre \<in> set pre"
      using assms(1) by (simp_all add: tracks_def)
    with assms(2) ne show ?thesis by (simp add: sorted_wrt_append)
  qed
  have par: "?parent = [] \<or> (\<exists>d\<in>set pre. kind_of d = Directory \<and> entry_components d = ?parent)"
  proof (cases "length ?cs > 1")
    case True
    have "(pre @ [e]) ! length pre = e" "length pre < length (pre @ [e])" by simp_all
    with assms(3) True obtain j m where j: "j < length pre" "(pre @ [e]) ! j = EDir (join_slash ?parent) m"
      unfolding parents_first_def Let_def by (metis empty_iff)
    then have "pre ! j = EDir (join_slash ?parent) m" by (simp add: nth_append)
    moreover have "split_slash (join_slash ?parent) = ?parent"
    proof (rule split_join_slash)
      show "?parent \<noteq> []" using True by (metis Suc_less_eq length_append_singleton length_greater_0_conv
            append_butlast_last_id ne One_nat_def)
      show "\<forall>q\<in>set ?parent. CHR ''/'' \<notin> set q"
        using split_slash_component unfolding entry_components_def by (metis in_set_butlastD)
    qed
    ultimately show ?thesis using j by (metis entry_components_def entry.sel(1) kind_of.simps(1) nth_mem)
  next
    case False
    with ne show ?thesis by (cases ?cs) auto
  qed
  then have "?parent \<le> ?spine" using sorted by auto
  from between_prefix [OF this less] obtain r where r: "?spine = ?parent @ r" "r = [] \<or> hd r < last ?cs" by blast
  have spine_open: "?open = ?spine \<or> (pre \<noteq> [] \<and> kind_of (last pre) \<noteq> Directory \<and> ?open = butlast ?spine)"
    using assms(1) by (auto simp: tracks_def)
  have pre_open: "\<exists>q. ?open = ?parent @ q"
  proof (cases "r = []")
    case True
    show ?thesis
    proof (rule ccontr)
      assume neg: "\<not> ?thesis"
      with spine_open r True have last: "pre \<noteq> []" "kind_of (last pre) \<noteq> Directory" "entry_components (last pre) = ?parent"
        using assms(1) by (auto simp: tracks_def)
      then have "?parent \<noteq> []" by (metis entry_components_def split_slash_not_Nil)
      with par obtain d where d: "d \<in> set pre" "kind_of d = Directory" "entry_components d = ?parent" by auto
      have "distinct (map entry_components pre)" using assms(2) by (auto simp: sorted_wrt_append strict_sorted_iff)
      with d last show False by (metis distinct_map inj_onD last_in_set)
    qed
  next
    case False
    with spine_open r show ?thesis by (auto simp: butlast_append)
  qed
  then obtain q where q: "?open = ?parent @ q" by blast
  then show "take ?n ?open = ?parent" "?n \<le> length ?open" by simp_all
  show "?spine ! ?n < last ?cs" if "?n < length ?spine"
  proof -
    have "r \<noteq> []" "?spine ! ?n = hd r" using that r by (auto simp: nth_append hd_conv_nth)
    with r show ?thesis by simp
  qed
qed

lemma advance_complete:
  assumes tr: "tracks pre st" and fits: "entry_fits e" and safe: "list_all safe_entry (pre @ [e])"
    and sorted: "sorted_wrt (<) (map entry_components (pre @ [e]))" and parents: "parents_first {} (pre @ [e])"
    and limits: "counts_in_limits (counts_of pre)" "counts_in_limits (counts_of (pre @ [e]))"
  shows "\<exists>evs st'. advance st e = Ok (evs, st') \<and> tracks (pre @ [e]) st'"
proof -
  let ?cs = "entry_components e" and ?dirs = "ps_directories st"
  note open_facts = parent_open [OF tr sorted parents safe]
  have ne: "?cs \<noteq> []" by (simp add: entry_components_def)
  have ok: "stack_ok ?dirs" using tr by (simp add: tracks_def)
  have se: "safe_entry e" using safe by simp
  then have split: "split_path (entry_path e) = Ok ?cs"
    unfolding entry_components_def safe_entry_def by (intro split_path_complete) simp
  have n: "length ?cs - 1 < length ?dirs" "length ?cs \<le> length ?dirs"
    using open_facts(2) ok ne by (cases ?dirs; cases ?cs; simp add: stack_ok_def)+
  have "last (take (length ?cs) ?dirs) = ?dirs ! (length ?cs - 1)"
    using ne n by (subst last_conv_nth) (auto simp: min_def)
  then have sib: "sibling_after (last ?cs) (od_last_child (last (take (length ?cs) ?dirs)))"
    using stack_ok_child [OF ok n(1)] open_facts(3) by (auto simp: sibling_after_def)
  define st1 where "st1 = st\<lparr>ps_directories := push_entry (kind_of e) (entry_path e) (last ?cs) (take (length ?cs) ?dirs)\<rparr>"
  have v: "validate_path st (entry_path e) (kind_of e) =
      Ok (map od_path (rev (drop (length ?cs) ?dirs)), st1)"
    unfolding validate_path_Ok_iff st1_def
    using split ne n sib se open_facts(1)
    by (intro exI [of _ ?cs]) (auto simp: safe_entry_def open_components_def split: if_splits)
  obtain c where c: "note_of e (counts_of pre) = Ok c"
    using note_of_complete [OF fits se limits(2) split] by blast
  have c': "c = counts_of (pre @ [e])" using note_of_counts [OF c limits(1)] by simp
  have path: "entry_path e = join_slash ?cs" by (simp add: entry_components_def join_split_slash)
  note push = push_entry_stack [OF ok ne n(2) open_facts(1) path, where k = "kind_of e"]
  have "ps_counts st1 = counts_of pre" using tr by (simp add: tracks_def st1_def)
  then have "advance st e = Ok (map CloseDirectory (map od_path (rev (drop (length ?cs) ?dirs))) @ entry_events e,
      st1\<lparr>ps_counts := c\<rparr>)"
    using v c by (simp add: advance_def)
  moreover have "tracks (pre @ [e]) (st1\<lparr>ps_counts := c\<rparr>)"
    using push(1-3) c' by (simp add: tracks_def st1_def)
  ultimately show ?thesis by blast
qed

definition canonical_listing :: "entry list \<Rightarrow> bool" where
  "canonical_listing es \<longleftrightarrow> list_all safe_entry es \<and> sorted_wrt (<) (map entry_components es) \<and>
     parents_first {} es \<and> counts_in_limits (counts_of es)"

lemma parents_first_append: "parents_first known (es @ fs) \<Longrightarrow> parents_first known es"
  unfolding parents_first_def Let_def
proof (intro allI impI)
  fix i
  assume all: "\<forall>i<length (es @ fs). 1 < length (entry_components ((es @ fs) ! i)) \<longrightarrow>
      join_slash (butlast (entry_components ((es @ fs) ! i))) \<in> known \<or>
      (\<exists>j<i. \<exists>m. (es @ fs) ! j = EDir (join_slash (butlast (entry_components ((es @ fs) ! i)))) m)"
    and i: "i < length es" "1 < length (entry_components (es ! i))"
  then have "(es @ fs) ! j = es ! j" if "j \<le> i" for j using that by (simp add: nth_append)
  with all i show "join_slash (butlast (entry_components (es ! i))) \<in> known \<or>
      (\<exists>j<i. \<exists>m. es ! j = EDir (join_slash (butlast (entry_components (es ! i)))) m)"
    by (metis length_append less_imp_le order.refl trans_less_add1)
qed

lemma canonical_listing_prefix:
  assumes "canonical_listing (es @ fs)"
  shows "canonical_listing es"
proof -
  have "counts_in_limits (counts_of es)"
    using assms by (auto simp: canonical_listing_def counts_in_limits_def counts_of_def)
  with assms show ?thesis
    using parents_first_append by (auto simp: canonical_listing_def sorted_wrt_append)
qed

lemma advance_all_complete:
  assumes "tracks pre st" "canonical_listing (pre @ es)" "list_all entry_fits es"
  shows "\<exists>evs st'. advance_all st es = Ok (evs, st')"
  using assms
proof (induction es arbitrary: pre st)
  case (Cons e es)
  from Cons.prems(2) have ce: "canonical_listing (pre @ [e])"
    using canonical_listing_prefix [of "pre @ [e]" es] by simp
  then have cp: "canonical_listing pre" by (rule canonical_listing_prefix)
  from Cons.prems(1,3) ce cp obtain evs st1 where a: "advance st e = Ok (evs, st1)" "tracks (pre @ [e]) st1"
    using advance_complete [of pre st e] by (auto simp: canonical_listing_def)
  obtain evs' st' where "advance_all st1 es = Ok (evs', st')"
    using Cons.IH [OF a(2)] Cons.prems by auto
  with a show ?case by simp
qed simp

lemma advance_all_Ok_iff:
  assumes "list_all entry_fits es"
  shows "(\<exists>evs st. advance_all parse_state_new es = Ok (evs, st)) \<longleftrightarrow> canonical_listing es"
proof
  assume "\<exists>evs st. advance_all parse_state_new es = Ok (evs, st)"
  then obtain evs st where a: "advance_all parse_state_new es = Ok (evs, st)" by blast
  have "counts_in_limits (counts_of es)"
    using advance_all_counts [OF a, of "[]"]
    by (simp add: counts_of_Nil parse_state_new_def counts_in_limits_def counts_default_def)
  moreover have "parents_first {} es"
    using advance_all_listing [OF a stack_ok_new(1)] stack_ok_new(2) by simp
  ultimately show "canonical_listing es"
    using advance_all_listing [OF a stack_ok_new(1)] by (simp add: canonical_listing_def)
next
  assume "canonical_listing es"
  then show "\<exists>evs st. advance_all parse_state_new es = Ok (evs, st)"
    using advance_all_complete [OF tracks_new, of es] assms by simp
qed

lemma advance_all_state_counts:
  assumes "advance_all parse_state_new es = Ok (evs, st)"
  shows "ps_counts st = counts_of es"
  using advance_all_counts [OF assms, of "[]"]
  by (simp add: counts_of_Nil parse_state_new_def counts_in_limits_def counts_default_def)

subsection \<open>Directories are closed exactly once\<close>

fun closed_path :: "sink_event \<Rightarrow> string option" where
  "closed_path (CloseDirectory p) = Some p"
| "closed_path _ = None"

definition closed_paths :: "sink_event list \<Rightarrow> string list" where
  "closed_paths evs = List.map_filter closed_path evs"

definition directory_paths :: "entry list \<Rightarrow> string list" where
  "directory_paths es = map entry_path (filter (\<lambda>e. kind_of e = Directory) es)"

lemma closed_paths_append [simp]: "closed_paths (a @ b) = closed_paths a @ closed_paths b"
  by (simp add: closed_paths_def map_filter_def)

lemma closed_paths_close [simp]: "closed_paths (map CloseDirectory ps) = ps"
  by (induction ps) (simp_all add: closed_paths_def map_filter_def)

lemma closed_paths_entry [simp]: "closed_paths (entry_events e) = []"
  by (cases e) (auto simp: closed_paths_def map_filter_def filter_empty_conv)

lemma push_entry_paths:
  assumes "cs \<noteq> []" "length cs \<le> length dirs"
  shows "map od_path (tl (push_entry k path c (take (length cs) dirs))) =
    take (length cs - 1) (map od_path (tl dirs)) @ (if k = Directory then [path] else [])"
proof -
  obtain n where n: "length cs = Suc n" using assms(1) by (cases cs) auto
  obtain d ds where dirs: "dirs = d # ds" "n \<le> length ds" using assms n by (cases dirs) auto
  show ?thesis
  proof (cases n)
    case 0
    then show ?thesis using n dirs by (simp add: push_entry_def)
  next
    case (Suc m)
    then have "take n ds = take m ds @ [ds ! m]" using dirs by (simp add: take_Suc_conv_app_nth)
    then show ?thesis using n dirs Suc by (simp add: push_entry_def take_map)
  qed
qed

lemma advance_closes:
  assumes "advance st e = Ok (evs, st')"
  shows "mset (closed_paths evs) + mset (map od_path (tl (ps_directories st'))) =
    mset (map od_path (tl (ps_directories st))) + mset (directory_paths [e])"
proof -
  let ?dirs = "ps_directories st"
  from assms obtain closed st1 counts where
    v: "validate_path st (entry_path e) (kind_of e) = Ok (closed, st1)" and
    evs: "evs = map CloseDirectory closed @ entry_events e" and st': "ps_directories st' = ps_directories st1"
    by (auto simp: advance_Ok_iff)
  from v obtain cs where cs: "cs \<noteq> []" "length cs \<le> length ?dirs" and
    closed: "closed = map od_path (rev (drop (length cs) ?dirs))" and
    st1: "ps_directories st1 = push_entry (kind_of e) (entry_path e) (last cs) (take (length cs) ?dirs)"
    unfolding validate_path_Ok_iff by auto
  have "drop (length cs) ?dirs = drop (length cs - 1) (tl ?dirs)" using cs by (cases cs; cases ?dirs) auto
  then have "mset closed = mset (drop (length cs - 1) (map od_path (tl ?dirs)))"
    by (simp add: closed drop_map rev_map)
  moreover have "mset (take n xs) + mset (drop n xs) = mset xs" for n and xs :: "string list"
    by (metis append_take_drop_id mset_append)
  ultimately show ?thesis
    using push_entry_paths [OF cs] by (simp add: evs st' st1 directory_paths_def add.commute add.left_commute)
qed

lemma advance_all_closes:
  assumes "advance_all st es = Ok (evs, st')"
  shows "mset (closed_paths evs) + mset (map od_path (tl (ps_directories st'))) =
    mset (map od_path (tl (ps_directories st))) + mset (directory_paths es)"
  using assms
proof (induction es arbitrary: st evs)
  case Nil
  then show ?case by (simp add: closed_paths_def map_filter_def directory_paths_def)
next
  case (Cons e es)
  from Cons.prems obtain evs1 st1 evs2 where a: "advance st e = Ok (evs1, st1)"
    and b: "advance_all st1 es = Ok (evs2, st')" and evs: "evs = evs1 @ evs2"
    by (auto simp: rbind_eq_Inr)
  have "mset (directory_paths (e # es)) = mset (directory_paths [e]) + mset (directory_paths es)"
    by (simp add: directory_paths_def)
  with Cons.IH [OF b] advance_closes [OF a] show ?case
    by (simp add: evs union_assoc)
qed

lemma close_all_eq: "close_all st = map od_path (rev (tl (ps_directories st)))"
  by (simp add: close_all_def close_to_eq drop_Suc)

definition listing_events :: "entry list \<Rightarrow> sink_event list" where
  "listing_events es =
     (case advance_all parse_state_new es of
        Inl _ \<Rightarrow> []
      | Inr (evs, st) \<Rightarrow> evs @ map CloseDirectory (close_all st))"

lemma listing_events_closes:
  assumes "list_all entry_fits es" "canonical_listing es"
  shows "mset (closed_paths (listing_events es)) = mset (directory_paths es)"
proof -
  obtain evs st where a: "advance_all parse_state_new es = Ok (evs, st)"
    using advance_all_Ok_iff [OF assms(1)] assms(2) by blast
  have "mset (closed_paths evs) + mset (map od_path (tl (ps_directories st))) = mset (directory_paths es)"
    using advance_all_closes [OF a] by (simp add: parse_state_new_def)
  then show ?thesis by (simp add: listing_events_def a close_all_eq del: map_map)
qed

end
