(* ===== verification/Tree_Observation.thy ===== *)
theory Tree_Observation
  imports Bundle_Canonical
begin

text \<open>
  What a descriptor-relative walk of a directory tree observes. An observation holds, for one
  name, the outcome of every system call a walker makes on it: the first lookup, what opening it
  yields (the metadata of the descriptor and the listing, the bytes that reads return, or the
  link target), and the lookup that closes the visit. A tree that changes under the walk is an
  observation whose parts disagree.

  \<open>entries_of\<close> is the listing an observation stands for: what a walker that succeeds must have
  hashed or written, in which order.
\<close>

subsection \<open>Observations\<close>

datatype obs = Obs (ob_name: string) (ob_stat: "file_stat sys") (ob_body: obs_body) (ob_after: "file_stat sys")
  and obs_body =
    ObsDir (od_opened: "file_stat sys") (od_listing: "obs list") (od_complete: bool)
  | ObsFile (of_opened: "file_stat sys") (of_prepared: bool) (of_reads: "string list") (of_complete: bool)
  | ObsLink (ol_target: "string sys")

fun obs_weight :: "obs \<Rightarrow> nat" where
  "obs_weight (Obs n s (ObsDir opened os complete) a) = Suc (sum_list (map obs_weight os))"
| "obs_weight (Obs n s b a) = 1"

definition weights :: "obs list \<Rightarrow> nat" where
  "weights os = sum_list (map obs_weight os)"

lemma weights_simps [simp]: "weights [] = 0" "weights (o1 # os) = obs_weight o1 + weights os"
  by (simp_all add: weights_def)

lemma obs_weight_pos [simp]: "obs_weight ob > 0"
  by (cases ob rule: obs_weight.cases) simp_all

lemma obs_weight_dir: "ob_body ob = ObsDir opened os complete \<Longrightarrow> weights os < obs_weight ob"
  by (cases ob) (simp add: weights_def)

definition dot_entry :: "string \<Rightarrow> bool" where
  "dot_entry n \<longleftrightarrow> n = ''.'' \<or> n = ''..''"

text \<open>The names of a listing without the two dot entries, in byte order.\<close>

definition listed :: "obs list \<Rightarrow> obs list" where
  "listed os = sort_key ob_name (filter (\<lambda>ob. \<not> dot_entry (ob_name ob)) os)"

lemma weights_filter: "weights (filter P os) \<le> weights os"
  by (induction os) auto

lemma weights_insort: "weights (insort_key f x os) = obs_weight x + weights os"
  by (induction os) auto

lemma weights_sort: "weights (sort_key f os) = weights os"
  by (induction os) (auto simp: weights_insort)

lemma weights_listed: "weights (listed os) \<le> weights os"
  by (simp add: listed_def weights_sort weights_filter)

lemma weights_listed_dir:
  "ob_body ob = ObsDir opened os complete \<Longrightarrow> weights (listed os) < obs_weight ob + k"
  using weights_listed [of os] obs_weight_dir [of ob opened os complete] by simp

subsection \<open>The listing an observation stands for\<close>

fun sys_value :: "'a sys \<Rightarrow> 'a option" where
  "sys_value (SysOk x) = Some x"
| "sys_value _ = None"

function entries_of :: "string list \<Rightarrow> obs list \<Rightarrow> entry list" where
  "entries_of relative [] = []"
| "entries_of relative (ob # os) =
     (let path = relative @ [ob_name ob] in
      case sys_value (ob_stat ob) of
        None \<Rightarrow> []
      | Some stat \<Rightarrow>
          (case ob_body ob of
             ObsDir opened listing complete \<Rightarrow>
               EDir (join_slash path) (mode_bits (st_mode stat)) # entries_of path (listed listing)
           | ObsFile opened prepared blocks complete \<Rightarrow>
               [EFile (join_slash path) (mode_bits (st_mode stat)) (concat blocks)]
           | ObsLink target \<Rightarrow>
               (case sys_value target of None \<Rightarrow> [] | Some t \<Rightarrow> [ELink (join_slash path) t]))) @
     entries_of relative os"
  by pat_completeness auto
termination
  by (relation "measure (\<lambda>(relative, os). weights os)")
    (auto dest: weights_listed_dir)

declare entries_of.simps [simp del]

lemma entries_of_Nil [simp]: "entries_of relative [] = []"
  by (simp add: entries_of.simps)

subsection \<open>Well-formed names\<close>

text \<open>
  What the kernel promises of directory entries: names are not empty, contain neither a slash
  nor a NUL byte, and no name occurs twice in a directory; the target of a symbolic link is not
  empty and contains no NUL byte.
\<close>

definition name_ok :: "string \<Rightarrow> bool" where
  "name_ok n \<longleftrightarrow> n \<noteq> [] \<and> CHR ''/'' \<notin> set n \<and> CHR 0x00 \<notin> set n"

fun obs_wf :: "obs \<Rightarrow> bool" where
  "obs_wf (Obs n s (ObsDir opened os complete) a) \<longleftrightarrow>
     name_ok n \<and> distinct (map ob_name os) \<and> list_all obs_wf os"
| "obs_wf (Obs n s (ObsFile opened prepared blocks complete) a) \<longleftrightarrow> name_ok n"
| "obs_wf (Obs n s (ObsLink target) a) \<longleftrightarrow>
     name_ok n \<and> (case target of SysOk t \<Rightarrow> t \<noteq> [] \<and> CHR 0x00 \<notin> set t | _ \<Rightarrow> True)"

definition names_wf :: "obs list \<Rightarrow> bool" where
  "names_wf os \<longleftrightarrow> sorted_wrt (<) (map ob_name os) \<and> list_all obs_wf os \<and>
     list_all (\<lambda>ob. \<not> dot_entry (ob_name ob)) os"

lemma obs_wf_name: "obs_wf ob \<Longrightarrow> name_ok (ob_name ob)"
  by (cases ob rule: obs_wf.cases) simp_all

lemma obs_wf_dir: "obs_wf ob \<Longrightarrow> ob_body ob = ObsDir opened os complete \<Longrightarrow> distinct (map ob_name os) \<and> list_all obs_wf os"
  by (cases ob) simp

lemma obs_wf_link: "obs_wf ob \<Longrightarrow> ob_body ob = ObsLink (SysOk t) \<Longrightarrow> t \<noteq> [] \<and> CHR 0x00 \<notin> set t"
  by (cases ob) simp

lemma names_wf_listed:
  assumes "distinct (map ob_name os)" "list_all obs_wf os"
  shows "names_wf (listed os)"
proof -
  let ?xs = "filter (\<lambda>ob. \<not> dot_entry (ob_name ob)) os"
  have "distinct (map ob_name ?xs)" using assms(1) distinct_map_filter by blast
  moreover have "mset (map ob_name (sort_key ob_name ?xs)) = mset (map ob_name ?xs)" by simp
  ultimately have "distinct (map ob_name (listed os))"
    unfolding listed_def using mset_eq_imp_distinct_iff by blast
  moreover have "sorted (map ob_name (listed os))" by (simp add: listed_def)
  ultimately have "sorted_wrt (<) (map ob_name (listed os))" by (simp add: strict_sorted_iff)
  moreover have "set (listed os) = {ob \<in> set os. \<not> dot_entry (ob_name ob)}"
    by (simp add: listed_def)
  ultimately show ?thesis using assms(2) unfolding names_wf_def list_all_iff by blast
qed

lemma names_wf_Cons:
  "names_wf (ob # os) \<longleftrightarrow> obs_wf ob \<and> \<not> dot_entry (ob_name ob) \<and>
     (\<forall>o2\<in>set os. ob_name ob < ob_name o2) \<and> names_wf os"
  by (auto simp: names_wf_def)

subsection \<open>Order and parents of a listing\<close>

definition slash_free :: "string list \<Rightarrow> bool" where
  "slash_free path \<longleftrightarrow> (\<forall>q\<in>set path. CHR ''/'' \<notin> set q)"

lemma components_join: "slash_free path \<Longrightarrow> path \<noteq> [] \<Longrightarrow> split_slash (join_slash path) = path"
  by (simp add: slash_free_def split_join_slash)

lemma slash_free_snoc: "slash_free (path @ [n]) \<longleftrightarrow> slash_free path \<and> CHR ''/'' \<notin> set n"
  by (auto simp: slash_free_def)

text \<open>The entries of one observation: the head entry and, for a directory, what lies below it.\<close>

definition block_of :: "string list \<Rightarrow> obs \<Rightarrow> entry list" where
  "block_of relative ob = entries_of relative [ob]"

lemma entries_of_Cons: "entries_of relative (ob # os) = block_of relative ob @ entries_of relative os"
  by (simp add: block_of_def entries_of.simps)

lemma block_of_cases:
  fixes relative ob
  defines "path \<equiv> relative @ [ob_name ob]"
  obtains "block_of relative ob = []"
  | e where "block_of relative ob = [e]" "entry_path e = join_slash path" "kind_of e \<noteq> Directory"
  | opened listing complete m where "ob_body ob = ObsDir opened listing complete"
      "block_of relative ob = EDir (join_slash path) m # entries_of path (listed listing)"
proof (cases "sys_value (ob_stat ob)")
  case None
  then show ?thesis using that(1) by (simp add: block_of_def entries_of.simps)
next
  case (Some stat)
  show ?thesis
  proof (cases "ob_body ob")
    case (ObsDir opened listing complete)
    with Some that(3) show ?thesis by (simp add: block_of_def entries_of.simps path_def Let_def)
  next
    case (ObsFile opened prepared blocks complete)
    with Some that(2) show ?thesis by (simp add: block_of_def entries_of.simps path_def Let_def)
  next
    case (ObsLink target)
    with Some that(1,2) show ?thesis
      by (cases "sys_value target") (simp_all add: block_of_def entries_of.simps path_def Let_def)
  qed
qed

lemma entries_of_induct [case_names Nil Cons]:
  assumes "\<And>relative. P relative []"
    and "\<And>relative ob os. (\<And>opened listing complete. ob_body ob = ObsDir opened listing complete \<Longrightarrow>
           P (relative @ [ob_name ob]) (listed listing)) \<Longrightarrow> P relative os \<Longrightarrow> P relative (ob # os)"
  shows "P relative os"
proof (induction "weights os" arbitrary: relative os rule: less_induct)
  case less
  show ?case
  proof (cases os)
    case Nil
    then show ?thesis using assms(1) by simp
  next
    case (Cons ob os')
    show ?thesis unfolding Cons
    proof (rule assms(2))
      show "P (relative @ [ob_name ob]) (listed listing)" if "ob_body ob = ObsDir opened listing complete"
        for opened listing complete
        using less weights_listed_dir [OF that] Cons by simp
      show "P relative os'" using less Cons by simp
    qed
  qed
qed

lemma names_wf_slash: "names_wf (ob # os) \<Longrightarrow> slash_free relative \<Longrightarrow> slash_free (relative @ [ob_name ob])"
  using obs_wf_name by (auto simp: names_wf_Cons slash_free_snoc name_ok_def)

lemma names_wf_dir:
  "names_wf (ob # os) \<Longrightarrow> ob_body ob = ObsDir opened listing complete \<Longrightarrow> names_wf (listed listing)"
  by (auto simp: names_wf_Cons dest: obs_wf_dir intro!: names_wf_listed)

lemma entries_of_prefix:
  assumes "slash_free relative" "names_wf os" "e \<in> set (entries_of relative os)"
  shows "\<exists>ob\<in>set os. \<exists>rest. entry_components e = relative @ ob_name ob # rest"
  using assms
proof (induction relative os rule: entries_of_induct)
  case (Cons relative ob os)
  let ?path = "relative @ [ob_name ob]"
  have sf: "slash_free ?path" using Cons.prems names_wf_slash by blast
  then have self: "split_slash (join_slash ?path) = ?path" by (simp add: components_join)
  from Cons.prems(3) consider "e \<in> set (block_of relative ob)" | "e \<in> set (entries_of relative os)"
    by (auto simp: entries_of_Cons)
  then show ?case
  proof cases
    case 1
    show ?thesis
    proof (cases rule: block_of_cases [of relative ob])
      case 1
      with \<open>e \<in> set (block_of relative ob)\<close> show ?thesis by simp
    next
      case (2 e')
      with \<open>e \<in> set (block_of relative ob)\<close> self show ?thesis by (auto simp: entry_components_def)
    next
      case (3 opened listing complete m)
      with 1 consider "e = EDir (join_slash ?path) m" | "e \<in> set (entries_of ?path (listed listing))" by auto
      then show ?thesis
      proof cases
        case 1
        with self show ?thesis by (auto simp: entry_components_def)
      next
        case 2
        from Cons.IH(1) [OF 3(1) sf names_wf_dir [OF Cons.prems(2) 3(1)] 2]
        show ?thesis by auto
      qed
    qed
  next
    case 2
    with Cons.IH(2) Cons.prems show ?thesis by (auto simp: names_wf_Cons)
  qed
qed simp

lemma block_of_prefix:
  assumes "slash_free relative" "names_wf (ob # os)" "e \<in> set (block_of relative ob)"
  shows "\<exists>rest. entry_components e = relative @ ob_name ob # rest"
proof -
  have "names_wf [ob]" using assms(2) by (auto simp: names_wf_def)
  from entries_of_prefix [OF assms(1) this] assms(3) show ?thesis by (auto simp: block_of_def)
qed

lemma entries_of_sorted:
  assumes "slash_free relative" "names_wf os"
  shows "sorted_wrt (<) (map entry_components (entries_of relative os))"
  using assms
proof (induction relative os rule: entries_of_induct)
  case (Cons relative ob os)
  let ?path = "relative @ [ob_name ob]"
  have sf: "slash_free ?path" using Cons.prems names_wf_slash by blast
  have rest: "names_wf os" using Cons.prems by (simp add: names_wf_Cons)
  have block: "sorted_wrt (<) (map entry_components (block_of relative ob))"
  proof (cases rule: block_of_cases [of relative ob])
    case (3 opened listing complete m)
    note wf = names_wf_dir [OF Cons.prems(2) 3(1)]
    have "?path < entry_components e" if e: "e \<in> set (entries_of ?path (listed listing))" for e
    proof -
      obtain c r where "entry_components e = ?path @ c # r" using entries_of_prefix [OF sf wf e] by blast
      then show ?thesis using append_less_append [of ?path "[]" "c # r"] by simp
    qed
    moreover have "entry_components (EDir (join_slash ?path) m) = ?path"
      using sf by (simp add: entry_components_def components_join)
    ultimately show ?thesis using 3 Cons.IH(1) [OF 3(1) sf wf] by simp
  qed simp_all
  have "entry_components e < entry_components e'"
    if m: "e \<in> set (block_of relative ob)" "e' \<in> set (entries_of relative os)" for e e'
  proof -
    obtain r where e: "entry_components e = relative @ ob_name ob # r"
      using block_of_prefix [OF Cons.prems(1,2) m(1)] by blast
    obtain o2 r' where e': "o2 \<in> set os" "entry_components e' = relative @ ob_name o2 # r'"
      using entries_of_prefix [OF Cons.prems(1) rest m(2)] by blast
    then have "ob_name ob < ob_name o2" using Cons.prems(2) by (simp add: names_wf_Cons)
    then show ?thesis using e e' by simp
  qed
  with block Cons.IH(2) [OF Cons.prems(1) rest] show ?case
    by (simp add: entries_of_Cons sorted_wrt_append)
qed simp

lemma parents_first_join:
  assumes "parents_first known es" "parents_first known fs"
  shows "parents_first known (es @ fs)"
  unfolding parents_first_def Let_def
proof (intro allI impI)
  fix i
  assume i: "i < length (es @ fs)" "1 < length (entry_components ((es @ fs) ! i))"
  let ?parent = "join_slash (butlast (entry_components ((es @ fs) ! i)))"
  show "?parent \<in> known \<or> (\<exists>j<i. \<exists>m. (es @ fs) ! j = EDir ?parent m)"
  proof (cases "i < length es")
    case True
    then have e: "(es @ fs) ! i = es ! i" by (simp add: nth_append)
    with True i assms(1) have "?parent \<in> known \<or> (\<exists>j<i. \<exists>m. es ! j = EDir ?parent m)"
      unfolding parents_first_def Let_def by metis
    moreover have "(es @ fs) ! j = es ! j" if "j < i" for j using that True by (simp add: nth_append)
    ultimately show ?thesis by metis
  next
    case False
    define k where "k = i - length es"
    then have k: "i = length es + k" "k < length fs" using False i by auto
    then have "(es @ fs) ! i = fs ! k" by simp
    with k i assms(2) have "?parent \<in> known \<or> (\<exists>j<k. \<exists>m. fs ! j = EDir ?parent m)"
      unfolding parents_first_def Let_def by metis
    then show ?thesis
    proof
      assume "\<exists>j<k. \<exists>m. fs ! j = EDir ?parent m"
      then obtain j m where "j < k" "fs ! j = EDir ?parent m" by blast
      then have "length es + j < i" "(es @ fs) ! (length es + j) = EDir ?parent m" using k by simp_all
      then show ?thesis by blast
    qed blast
  qed
qed

lemma entries_of_parents:
  assumes "slash_free relative" "names_wf os" "relative = [] \<or> join_slash relative \<in> known"
  shows "parents_first known (entries_of relative os)"
  using assms
proof (induction relative os arbitrary: known rule: entries_of_induct)
  case (Nil relative)
  then show ?case by (simp add: parents_first_def)
next
  case (Cons relative ob os)
  let ?path = "relative @ [ob_name ob]"
  have sf: "slash_free ?path" using Cons.prems names_wf_slash by blast
  then have self: "split_slash (join_slash ?path) = ?path" by (simp add: components_join)
  have empty: "parents_first k []" for k by (simp add: parents_first_def)
  have head: "1 < length (entry_components e) \<Longrightarrow> join_slash (butlast (entry_components e)) \<in> known"
    if "entry_path e = join_slash ?path" for e
    using that self Cons.prems(3) by (auto simp: entry_components_def)
  have "parents_first known (block_of relative ob)"
  proof (cases rule: block_of_cases [of relative ob])
    case 1
    then show ?thesis by (simp add: empty)
  next
    case (2 e)
    then show ?thesis using parents_first_Cons [OF head empty] by simp
  next
    case (3 opened listing complete m)
    have "parents_first (known \<union> {join_slash ?path}) (entries_of ?path (listed listing))"
      using Cons.IH(1) [OF 3(1) sf names_wf_dir [OF Cons.prems(2) 3(1)]] by simp
    then show ?thesis
      using 3(2) head parents_first_Cons [of "EDir (join_slash ?path) m" known "entries_of ?path (listed listing)"]
      by simp
  qed
  moreover have "parents_first known (entries_of relative os)"
    using Cons.IH(2) Cons.prems by (simp add: names_wf_Cons)
  ultimately show ?case by (simp add: entries_of_Cons parents_first_join)
qed

end
