(* ===== verification/Integrity.thy ===== *)
theory Integrity
  imports Tree_Observation
begin

text \<open>
  The canonical digest of an artifact home (\<open>store/artifact/integrity.rs\<close>): the verifier that
  walks a tree by descriptors, checks every entry against what it looked up first, counts it
  against the limits and feeds the canonical stream to the hasher.

  The hasher is the string it was fed; \<open>digest\<close>, a parameter of \<open>digest_home\<close>, is the BLAKE3
  derivation and its hexadecimal form. Allocation failures are not modelled.
\<close>

subsection \<open>The verifier\<close>

record verifier =
  vf_hasher :: string
  vf_counts :: artifact_counts
  vf_buffered_entries :: nat

definition CANONICAL_CONTEXT :: string where "CANONICAL_CONTEXT = ''org.agenxy.quarters.artifact.quarters-canonical-v1''"
definition TAG_ROOT :: char where "TAG_ROOT = CHR 0x52"

abbreviation entry_error :: "string \<Rightarrow> 'a result" where "entry_error m \<equiv> Err CorruptState m"

definition sys_ok :: "string \<Rightarrow> 'a sys \<Rightarrow> 'a result" where
  "sys_ok m r = (case r of SysOk x \<Rightarrow> Ok x | _ \<Rightarrow> entry_error m)"

definition verify_owner_with_uid :: "file_stat \<Rightarrow> nat \<Rightarrow> unit result" where
  "verify_owner_with_uid stat uid =
     (if st_uid stat = uid then Ok () else entry_error ''artifact contains an entry owned by another user'')"

definition verify_identity :: "file_stat \<Rightarrow> file_stat \<Rightarrow> nat \<Rightarrow> unit result" where
  "verify_identity expected actual k =
     (if same_entry expected actual k then Ok () else entry_error ''artifact entry changed during verification'')"

definition feed :: "verifier \<Rightarrow> string \<Rightarrow> verifier" where
  "feed v bytes = v\<lparr>vf_hasher := vf_hasher v @ bytes\<rparr>"

definition hash_path :: "verifier \<Rightarrow> string list \<Rightarrow> verifier" where
  "hash_path v path = feed (feed v (be_bytes 8 (length (join_slash path)))) (join_slash path)"

definition hash_mode :: "verifier \<Rightarrow> nat \<Rightarrow> verifier" where
  "hash_mode v raw_mode = feed v (be_bytes 4 (mode_bits raw_mode))"

definition verifier_note_entry :: "verifier \<Rightarrow> verifier result" where
  "verifier_note_entry v =
     (let entries = sat_add (ac_entries (vf_counts v)) 1 in
      if entries > lim_entries ALPHA then limit_error ''artifact entries''
      else Ok (v\<lparr>vf_counts := (vf_counts v)\<lparr>ac_entries := entries\<rparr>\<rparr>))"

definition add_logical_bytes :: "verifier \<Rightarrow> nat \<Rightarrow> verifier result" where
  "add_logical_bytes v amount =
     (case checked_add (ac_logical_bytes (vf_counts v)) amount of
        None \<Rightarrow> limit_error ''artifact logical bytes''
      | Some bytes \<Rightarrow>
          if bytes > lim_logical_bytes ALPHA then limit_error ''artifact logical bytes''
          else Ok (v\<lparr>vf_counts := (vf_counts v)\<lparr>ac_logical_bytes := bytes\<rparr>\<rparr>))"

definition child_path :: "string list \<Rightarrow> string \<Rightarrow> string list result" where
  "child_path parent name =
     (if length name > lim_component_bytes ALPHA then limit_error ''artifact path-component bytes''
      else let child = parent @ [name] in
        if length (join_slash child) > lim_relative_path_bytes ALPHA then limit_error ''artifact relative-path bytes''
        else Ok child)"

text \<open>Reading a listing: the dot entries are skipped and the entry limit is checked before each push.\<close>

fun collect_names :: "nat \<Rightarrow> obs list \<Rightarrow> obs list \<Rightarrow> bool \<Rightarrow> obs list result" where
  "collect_names maximum names [] complete =
     (if complete then Ok names else entry_error ''read artifact directory'')"
| "collect_names maximum names (ob # os) complete =
     (if dot_entry (ob_name ob) then collect_names maximum names os complete
      else if length names \<ge> maximum then limit_error ''artifact entries''
      else collect_names maximum (names @ [ob]) os complete)"

definition directory_names :: "verifier \<Rightarrow> obs list \<Rightarrow> bool \<Rightarrow> (obs list \<times> verifier) result" where
  "directory_names v os complete =
     (let accounted = sat_add (ac_entries (vf_counts v)) (vf_buffered_entries v);
          available = lim_entries ALPHA - accounted in
      rbind (collect_names available [] os complete) (\<lambda>names.
      Ok (sort_key ob_name names,
          v\<lparr>vf_buffered_entries := sat_add (vf_buffered_entries v) (length names)\<rparr>)))"

text \<open>Reading a file: chunks until the end, never more than the announced length.\<close>

fun hash_file :: "verifier \<Rightarrow> nat \<Rightarrow> nat \<Rightarrow> string list \<Rightarrow> bool \<Rightarrow> verifier result" where
  "hash_file v expected observed [] complete =
     (if \<not> complete then entry_error ''could not read artifact file''
      else if observed = expected then Ok v
      else entry_error ''artifact file changed length during verification'')"
| "hash_file v expected observed (block # blocks) complete =
     (let observed = sat_add observed (length block) in
      if observed > expected then entry_error ''artifact file grew during verification''
      else hash_file (feed v block) expected observed blocks complete)"

definition visit_file :: "verifier \<Rightarrow> string list \<Rightarrow> file_stat \<Rightarrow> obs_body \<Rightarrow> file_stat sys \<Rightarrow> verifier result" where
  "visit_file v path expected body after =
     (if st_nlink expected \<noteq> 1 then entry_error ''artifact contains a multiply-linked regular file''
      else if st_size expected < 0 then entry_error ''artifact file has an invalid logical length''
      else let len = nat (st_size expected) in
        if len > lim_file_bytes ALPHA then limit_error ''artifact file bytes''
        else rbind (add_logical_bytes v len) (\<lambda>v.
          (case body of
             ObsFile opened prepared blocks complete \<Rightarrow>
               rbind (sys_ok ''inspect opened artifact file'' opened) (\<lambda>opened.
               rbind (verify_identity expected opened S_IFREG) (\<lambda>_.
               if \<not> prepared then entry_error ''prepare artifact file''
               else rbind (verifier_note_entry v) (\<lambda>v.
                 let v = v\<lparr>vf_counts := (vf_counts v)\<lparr>ac_files := sat_add (ac_files (vf_counts v)) 1\<rparr>\<rparr>;
                     v = feed v [TAG_FILE];
                     v = hash_path v path;
                     v = hash_mode v (st_mode expected);
                     v = feed v (be_bytes 8 len) in
                 rbind (hash_file v len 0 blocks complete) (\<lambda>v.
                 rbind (sys_ok ''recheck artifact file'' after) (\<lambda>after.
                 rbind (verify_identity expected after S_IFREG) (\<lambda>_. Ok v))))))
           | _ \<Rightarrow> entry_error ''open artifact file'')))"

definition visit_symlink :: "verifier \<Rightarrow> string list \<Rightarrow> file_stat \<Rightarrow> obs_body \<Rightarrow> file_stat sys \<Rightarrow> verifier result" where
  "visit_symlink v path expected body after =
     (case body of
        ObsLink target \<Rightarrow>
          rbind (sys_ok ''read artifact symlink'' target) (\<lambda>target.
          if resolve_relative_link_target (butlast path) target = None
          then entry_error ''artifact symbolic link escapes its root''
          else let len = length target in
            if len > lim_symlink_target_bytes ALPHA then limit_error ''artifact symlink-target bytes''
            else rbind (add_logical_bytes v len) (\<lambda>v.
              rbind (verifier_note_entry v) (\<lambda>v.
              let v = v\<lparr>vf_counts := (vf_counts v)\<lparr>ac_symlinks := sat_add (ac_symlinks (vf_counts v)) 1\<rparr>\<rparr>;
                  v = feed v [TAG_SYMLINK];
                  v = hash_path v path;
                  v = feed v (be_bytes 8 len);
                  v = feed v target in
              rbind (sys_ok ''recheck artifact symlink'' after) (\<lambda>after.
              rbind (verify_identity expected after S_IFLNK) (\<lambda>_. Ok v)))))
      | _ \<Rightarrow> entry_error ''read artifact symlink'')"

text \<open>
  The part of \<open>visit_directory\<close> before the recursive walk: depth, open, identity, counts and the
  directory header of the stream. It returns the listing to walk.
\<close>

definition enter_directory ::
  "verifier \<Rightarrow> string list \<Rightarrow> nat \<Rightarrow> file_stat \<Rightarrow> obs_body \<Rightarrow> (verifier \<times> obs list \<times> bool) result" where
  "enter_directory v path depth expected body =
     (let next_depth = depth + 1 in
      if next_depth > lim_depth ALPHA then limit_error ''artifact directory depth''
      else (case body of
          ObsDir opened listing complete \<Rightarrow>
            rbind (sys_ok ''inspect opened artifact directory'' opened) (\<lambda>opened.
            rbind (verify_identity expected opened S_IFDIR) (\<lambda>_.
            rbind (verifier_note_entry v) (\<lambda>v.
            let v = v\<lparr>vf_counts := (vf_counts v)\<lparr>ac_directories := sat_add (ac_directories (vf_counts v)) 1\<rparr>\<rparr>;
                v = feed v [TAG_DIRECTORY];
                v = hash_path v path;
                v = hash_mode v (st_mode expected) in
            Ok (v, listing, complete))))
        | _ \<Rightarrow> entry_error ''open artifact directory''))"

lemma collect_names_ok:
  "collect_names maximum names os complete = Ok out \<Longrightarrow>
     out = names @ filter (\<lambda>ob. \<not> dot_entry (ob_name ob)) os"
  by (induction maximum names os complete rule: collect_names.induct) (auto split: if_splits)

lemma directory_names_ok:
  assumes "directory_names v os complete = Ok (names, v')"
  shows "names = listed os" "vf_hasher v' = vf_hasher v" "vf_counts v' = vf_counts v"
  using assms by (auto simp: directory_names_def rbind_eq_Inr Let_def listed_def dest!: collect_names_ok)

lemma enter_directory_listing:
  "enter_directory v path depth expected body = Ok (v', listing, complete) \<Longrightarrow>
     \<exists>opened. body = ObsDir opened listing complete"
  by (auto simp: enter_directory_def Let_def rbind_eq_Inr split: if_splits obs_body.splits)

function walk_names ::
  "nat \<Rightarrow> string list \<Rightarrow> nat \<Rightarrow> obs list \<Rightarrow> verifier \<Rightarrow> verifier result" where
  "walk_names uid relative depth [] v = Ok v"
| "walk_names uid relative depth (ob # os) v =
     (let v = v\<lparr>vf_buffered_entries := vf_buffered_entries v - 1\<rparr> in
      rbind (child_path relative (ob_name ob)) (\<lambda>path.
      rbind (sys_ok ''inspect artifact entry'' (ob_stat ob)) (\<lambda>stat.
      rbind (verify_owner_with_uid stat uid) (\<lambda>_.
      rbind (if s_kind (st_mode stat) = S_IFDIR
             then rbind (enter_directory v path depth stat (ob_body ob)) (\<lambda>(v, listing, complete).
                  rbind (directory_names v listing complete) (\<lambda>(names, v).
                  rbind (walk_names uid path (depth + 1) names v) (\<lambda>v.
                  rbind (sys_ok ''recheck artifact directory'' (ob_after ob)) (\<lambda>after.
                  rbind (verify_identity stat after S_IFDIR) (\<lambda>_. Ok v)))))
             else if s_kind (st_mode stat) = S_IFREG
             then visit_file v path stat (ob_body ob) (ob_after ob)
             else if s_kind (st_mode stat) = S_IFLNK
             then visit_symlink v path stat (ob_body ob) (ob_after ob)
             else entry_error ''artifact contains an unsupported special entry'') (\<lambda>v.
      walk_names uid relative depth os v)))))"
  by pat_completeness auto
termination
  by (relation "measure (\<lambda>(uid, relative, depth, os, v). weights os)")
    (auto dest!: enter_directory_listing directory_names_ok(1) dest: weights_listed_dir)

declare walk_names.simps [simp del]

definition walk_directory ::
  "nat \<Rightarrow> string list \<Rightarrow> nat \<Rightarrow> obs list \<Rightarrow> bool \<Rightarrow> verifier \<Rightarrow> verifier result" where
  "walk_directory uid relative depth listing complete v =
     rbind (directory_names v listing complete) (\<lambda>(names, v). walk_names uid relative depth names v)"

definition hash_terminal :: "verifier \<Rightarrow> verifier" where
  "hash_terminal v =
     (let c = vf_counts v in
      feed v ([TAG_TERMINAL] @ be_bytes 8 (ac_entries c) @ be_bytes 8 (ac_directories c) @ be_bytes 8 (ac_files c) @
        be_bytes 8 (ac_symlinks c) @ be_bytes 8 (ac_logical_bytes c)))"

text \<open>A home directory as it is observed: the metadata of the opened root, and its listing.\<close>

record home_obs =
  ho_root :: "file_stat sys"
  ho_listing :: "obs list"
  ho_complete :: bool

definition digest_home :: "(string \<Rightarrow> string) \<Rightarrow> nat \<Rightarrow> home_obs \<Rightarrow> content_integrity result" where
  "digest_home digest uid home =
     rbind (sys_ok ''could not open artifact home'' (ho_root home)) (\<lambda>root.
     rbind (verify_owner_with_uid root uid) (\<lambda>_.
     let v = \<lparr>vf_hasher = [TAG_ROOT], vf_counts = counts_default, vf_buffered_entries = 0\<rparr>;
         v = hash_mode v (st_mode root) in
     rbind (walk_directory uid [] 0 (ho_listing home) (ho_complete home) v) (\<lambda>v.
     let v = hash_terminal v in
     Ok \<lparr>ci_algorithm = INTEGRITY_ALGORITHM, ci_digest = digest (vf_hasher v), ci_counts = vf_counts v\<rparr>)))"

definition verify_home :: "(string \<Rightarrow> string) \<Rightarrow> nat \<Rightarrow> home_obs \<Rightarrow> content_integrity \<Rightarrow> unit result" where
  "verify_home digest uid home expected =
     (if ci_algorithm expected \<noteq> INTEGRITY_ALGORITHM then Err CorruptState ''unsupported artifact integrity algorithm''
      else rbind (digest_home digest uid home) (\<lambda>actual.
        if actual = expected then Ok ()
        else Err CorruptState ''artifact content does not match its canonical integrity record''))"

subsection \<open>The canonical stream\<close>

fun canon_entry :: "entry \<Rightarrow> string" where
  "canon_entry (EDir p m) = TAG_DIRECTORY # be_bytes 8 (length p) @ p @ be_bytes 4 m"
| "canon_entry (EFile p m c) = TAG_FILE # be_bytes 8 (length p) @ p @ be_bytes 4 m @ be_bytes 8 (length c) @ c"
| "canon_entry (ELink p t) = TAG_SYMLINK # be_bytes 8 (length p) @ p @ be_bytes 8 (length t) @ t"

definition terminal_bytes :: "artifact_counts \<Rightarrow> string" where
  "terminal_bytes c =
     TAG_TERMINAL # be_bytes 8 (ac_entries c) @ be_bytes 8 (ac_directories c) @ be_bytes 8 (ac_files c) @
       be_bytes 8 (ac_symlinks c) @ be_bytes 8 (ac_logical_bytes c)"

definition canonical_stream :: "nat \<Rightarrow> entry list \<Rightarrow> string" where
  "canonical_stream mode es =
     TAG_ROOT # be_bytes 4 mode @ concat (map canon_entry es) @ terminal_bytes (counts_of es)"

lemma feed_simps [simp]:
  "vf_hasher (feed v b) = vf_hasher v @ b" "vf_counts (feed v b) = vf_counts v"
  "vf_buffered_entries (feed v b) = vf_buffered_entries v"
  by (simp_all add: feed_def)

lemma verifier_note_entry_Ok_iff:
  "verifier_note_entry v = Ok v' \<longleftrightarrow> ac_entries (vf_counts v) < lim_entries ALPHA \<and>
     v' = v\<lparr>vf_counts := (vf_counts v)\<lparr>ac_entries := ac_entries (vf_counts v) + 1\<rparr>\<rparr>"
proof (cases "ac_entries (vf_counts v) < lim_entries ALPHA")
  case True
  then have "sat_add (ac_entries (vf_counts v)) 1 = ac_entries (vf_counts v) + 1"
    by (simp add: sat_add_exact u64_max_num)
  with True show ?thesis by (auto simp: verifier_note_entry_def Let_def)
next
  case False
  then have "\<not> sat_add (ac_entries (vf_counts v)) 1 \<le> lim_entries ALPHA"
    using sat_add_1_le_iff [of "lim_entries ALPHA" "ac_entries (vf_counts v)"] by (simp add: u64_max_num)
  with False show ?thesis by (simp add: verifier_note_entry_def Let_def)
qed

lemma add_logical_bytes_Ok_iff:
  "add_logical_bytes v n = Ok v' \<longleftrightarrow> ac_logical_bytes (vf_counts v) + n \<le> lim_logical_bytes ALPHA \<and>
     v' = v\<lparr>vf_counts := (vf_counts v)\<lparr>ac_logical_bytes := ac_logical_bytes (vf_counts v) + n\<rparr>\<rparr>"
  by (auto simp: add_logical_bytes_def checked_add_def u64_max_num)

lemma sys_ok_iff: "sys_ok m r = Ok x \<longleftrightarrow> r = SysOk x"
  by (cases r) (auto simp: sys_ok_def)

lemma verify_identity_ok: "verify_identity a b k = Ok u \<longleftrightarrow> a = b \<and> s_kind (st_mode b) = k"
  by (simp add: verify_identity_def same_entry_iff)

lemma hash_file_ok:
  "hash_file v n k blocks complete = Ok v' \<Longrightarrow> n < u64_max \<Longrightarrow> k \<le> n \<Longrightarrow>
     v' = feed v (concat blocks) \<and> k + length (concat blocks) = n"
proof (induction v n k blocks complete rule: hash_file.induct)
  case (1 v n k complete)
  then show ?case by (auto simp: feed_def split: if_splits)
next
  case (2 v n k block blocks complete)
  have "sat_add k (length block) \<le> n" using "2.prems"(1) by (auto simp: Let_def split: if_splits)
  then have "sat_add k (length block) = k + length block"
    using "2.prems"(2) by (auto simp: sat_add_def min_def split: if_splits)
  with 2 show ?case by (auto simp: Let_def feed_def split: if_splits)
qed

text \<open>One visited entry: what it adds to the stream and to the counts.\<close>

definition visited :: "verifier \<Rightarrow> entry \<Rightarrow> verifier \<Rightarrow> bool" where
  "visited v e v' \<longleftrightarrow> vf_hasher v' = vf_hasher v @ canon_entry e \<and> entry_fits e \<and>
     ac_entries (vf_counts v) < lim_entries ALPHA \<and>
     (entry_bytes e > 0 \<longrightarrow> ac_logical_bytes (vf_counts v) + entry_bytes e \<le> lim_logical_bytes ALPHA) \<and>
     vf_counts v' =
       \<lparr>ac_directories = (if kind_of e = Directory then sat_add (ac_directories (vf_counts v)) 1 else ac_directories (vf_counts v)),
        ac_files = (if kind_of e = File then sat_add (ac_files (vf_counts v)) 1 else ac_files (vf_counts v)),
        ac_symlinks = (if kind_of e = Symlink then sat_add (ac_symlinks (vf_counts v)) 1 else ac_symlinks (vf_counts v)),
        ac_entries = ac_entries (vf_counts v) + 1,
        ac_logical_bytes = ac_logical_bytes (vf_counts v) + entry_bytes e\<rparr>"

lemma visited_counts:
  assumes "visited v e v'" "vf_counts v = counts_of pre" "counts_in_limits (counts_of pre)"
  shows "vf_counts v' = counts_of (pre @ [e])" "counts_in_limits (counts_of (pre @ [e]))"
proof -
  have f: "sat_add (length (filter P pre)) (Suc 0) = Suc (length (filter P pre))" for P
    using assms(3) le_trans [OF length_filter_le]
    by (intro sat_add_small) (auto simp: counts_in_limits_def counts_of_def)
  show "vf_counts v' = counts_of (pre @ [e])"
    using assms(1,2) by (cases e) (simp_all add: visited_def counts_of_def f)
  show "counts_in_limits (counts_of (pre @ [e]))"
    using assms by (cases "entry_bytes e = 0") (auto simp: visited_def counts_of_def counts_in_limits_def)
qed

lemma visit_file_ok:
  assumes "visit_file v path expected body after = Ok v'" "length (join_slash path) \<le> 4096"
  shows "\<exists>opened prepared blocks complete. body = ObsFile opened prepared blocks complete \<and>
    visited v (EFile (join_slash path) (mode_bits (st_mode expected)) (concat blocks)) v'"
proof -
  from assms(1) obtain opened prepared blocks complete where body: "body = ObsFile opened prepared blocks complete"
    by (cases body) (auto simp: visit_file_def Let_def rbind_eq_Inr split: if_splits)
  with assms(1) obtain v1 v2 where
    size: "\<not> nat (st_size expected) > lim_file_bytes ALPHA" and
    v1: "add_logical_bytes v (nat (st_size expected)) = Ok v1" and v2: "verifier_note_entry v1 = Ok v2" and
    h: "hash_file (feed (hash_mode (hash_path (feed (v2\<lparr>vf_counts := (vf_counts v2)
      \<lparr>ac_files := sat_add (ac_files (vf_counts v2)) 1\<rparr>\<rparr>) [TAG_FILE]) path) (st_mode expected))
        (be_bytes 8 (nat (st_size expected)))) (nat (st_size expected)) 0 blocks complete = Ok v'"
    by (auto simp: visit_file_def Let_def rbind_eq_Inr split: if_splits)
  have "nat (st_size expected) < u64_max" using size by (simp add: u64_max_num)
  from hash_file_ok [OF h this] have
    v': "v' = feed (feed (hash_mode (hash_path (feed (v2\<lparr>vf_counts := (vf_counts v2)
      \<lparr>ac_files := sat_add (ac_files (vf_counts v2)) 1\<rparr>\<rparr>) [TAG_FILE]) path) (st_mode expected))
        (be_bytes 8 (nat (st_size expected)))) (concat blocks)" and len: "length (concat blocks) = nat (st_size expected)"
    by simp_all
  have "visited v (EFile (join_slash path) (mode_bits (st_mode expected)) (concat blocks)) v'"
    using v1 v2 size assms(2)
    by (simp add: visited_def v' len [symmetric] hash_path_def hash_mode_def add_logical_bytes_Ok_iff verifier_note_entry_Ok_iff
        del: length_concat)
  with body show ?thesis by blast
qed

lemma visit_symlink_ok:
  assumes "visit_symlink v path expected body after = Ok v'" "length (join_slash path) \<le> 4096"
  shows "\<exists>target. body = ObsLink (SysOk target) \<and> resolve_relative_link_target (butlast path) target \<noteq> None \<and>
    visited v (ELink (join_slash path) target) v'"
proof -
  from assms(1) obtain target v1 v2 where
    body: "body = ObsLink (SysOk target)" "resolve_relative_link_target (butlast path) target \<noteq> None" and
    size: "\<not> length target > lim_symlink_target_bytes ALPHA" and
    v1: "add_logical_bytes v (length target) = Ok v1" and v2: "verifier_note_entry v1 = Ok v2" and
    v': "v' = feed (feed (hash_path (feed (v2\<lparr>vf_counts := (vf_counts v2)
      \<lparr>ac_symlinks := sat_add (ac_symlinks (vf_counts v2)) 1\<rparr>\<rparr>) [TAG_SYMLINK]) path) (be_bytes 8 (length target))) target"
    by (auto simp: visit_symlink_def Let_def rbind_eq_Inr sys_ok_iff split: if_splits obs_body.splits)
  have "visited v (ELink (join_slash path) target) v'"
    using v1 v2 size assms(2)
    by (simp add: visited_def v' hash_path_def add_logical_bytes_Ok_iff verifier_note_entry_Ok_iff)
  with body show ?thesis by blast
qed

lemma enter_directory_ok:
  assumes "enter_directory v path depth expected body = Ok (v', listing, complete)" "length (join_slash path) \<le> 4096"
  shows "depth < 64 \<and> visited v (EDir (join_slash path) (mode_bits (st_mode expected))) v'"
proof -
  from assms(1) obtain v1 where
    v1: "verifier_note_entry v = Ok v1" and depth: "\<not> depth + 1 > lim_depth ALPHA" and
    v': "v' = hash_mode (hash_path (feed (v1\<lparr>vf_counts := (vf_counts v1)
      \<lparr>ac_directories := sat_add (ac_directories (vf_counts v1)) 1\<rparr>\<rparr>) [TAG_DIRECTORY]) path) (st_mode expected)"
    by (auto simp: enter_directory_def Let_def rbind_eq_Inr split: if_splits obs_body.splits)
  show ?thesis
    using v1 depth assms(2)
    by (simp add: visited_def v' hash_path_def hash_mode_def verifier_note_entry_Ok_iff)
qed

subsection \<open>A successful walk is its listing\<close>

definition comp_ok :: "string \<Rightarrow> bool" where
  "comp_ok c \<longleftrightarrow> clean_component c \<and> CHR 0x00 \<notin> set c \<and> length c \<le> 255"

lemma comp_ok_slash_free: "list_all comp_ok path \<Longrightarrow> slash_free path"
  by (auto simp: slash_free_def list_all_iff comp_ok_def clean_component_def)

lemma entry_components_join:
  "list_all comp_ok path \<Longrightarrow> path \<noteq> [] \<Longrightarrow> entry_path e = join_slash path \<Longrightarrow> entry_components e = path"
  by (simp add: entry_components_def components_join comp_ok_slash_free)

lemma safe_entryI:
  assumes "list_all comp_ok path" "path \<noteq> []" "entry_path e = join_slash path"
    "length path \<le> (if kind_of e = Directory then 64 else 65)" "link_stays_inside e"
  shows "safe_entry e"
  using assms entry_components_join [OF assms(1-3)]
  by (simp add: safe_entry_def comp_ok_def [abs_def])

lemma resolved_link_stays_inside:
  assumes "list_all comp_ok path" "path \<noteq> []" "resolve_relative_link_target (butlast path) t \<noteq> None"
    "t \<noteq> []" "CHR 0x00 \<notin> set t"
  shows "link_stays_inside (ELink (join_slash path) t)"
proof -
  have rel: "\<not> is_absolute t" and "\<exists>out. resolve_components (butlast path) (path_components t) = Some out"
    using assms(3) by (auto simp: resolve_relative_link_target_def split: if_splits)
  then have "\<forall>k. climb (take k (path_components t)) \<le> int (length (butlast path))"
    using resolve_components_Some_iff [OF path_components_relative [OF rel]] by blast
  with rel assms(4,5) show ?thesis
    using assms(1,2) by (simp add: components_join comp_ok_slash_free)
qed

lemma child_path_ok:
  assumes "child_path relative n = Ok path" "list_all comp_ok relative" "name_ok n" "\<not> dot_entry n"
  shows "path = relative @ [n]" "list_all comp_ok path" "length (join_slash path) \<le> 4096"
  using assms by (auto simp: child_path_def Let_def comp_ok_def clean_component_def name_ok_def dot_entry_def split: if_splits)

text \<open>What a walk leaves behind, relative to the entries counted before it.\<close>

definition walked :: "verifier \<Rightarrow> entry list \<Rightarrow> verifier \<Rightarrow> bool" where
  "walked v es v' \<longleftrightarrow> vf_hasher v' = vf_hasher v @ concat (map canon_entry es) \<and>
     list_all entry_fits es \<and> list_all safe_entry es \<and>
     (\<forall>pre. vf_counts v = counts_of pre \<and> counts_in_limits (counts_of pre) \<longrightarrow>
        vf_counts v' = counts_of (pre @ es) \<and> counts_in_limits (counts_of (pre @ es)))"

lemma walked_Nil: "vf_hasher v' = vf_hasher v \<Longrightarrow> vf_counts v' = vf_counts v \<Longrightarrow> walked v [] v'"
  by (simp add: walked_def)

lemma walked_append:
  assumes "walked v es v1" "walked v1 fs v2"
  shows "walked v (es @ fs) v2"
proof -
  have "vf_counts v2 = counts_of (pre @ es @ fs) \<and> counts_in_limits (counts_of (pre @ es @ fs))"
    if "vf_counts v = counts_of pre" "counts_in_limits (counts_of pre)" for pre
  proof -
    have "vf_counts v1 = counts_of (pre @ es)" "counts_in_limits (counts_of (pre @ es))"
      using assms(1) that unfolding walked_def by blast+
    then show ?thesis using assms(2) unfolding walked_def by (metis append_assoc)
  qed
  with assms show ?thesis by (simp add: walked_def)
qed

lemma walked_visited:
  assumes "visited v e v'" "safe_entry e"
  shows "walked v [e] v'"
proof -
  have "vf_hasher v' = vf_hasher v @ canon_entry e" "entry_fits e"
    using assms(1) by (simp_all add: visited_def)
  moreover have "vf_counts v' = counts_of (pre @ [e]) \<and> counts_in_limits (counts_of (pre @ [e]))"
    if "vf_counts v = counts_of pre \<and> counts_in_limits (counts_of pre)" for pre
    using that visited_counts [OF assms(1)] by blast
  ultimately show ?thesis using assms(2) by (simp add: walked_def)
qed

lemma walked_buffered: "walked (v\<lparr>vf_buffered_entries := n\<rparr>) es v' = walked v es v'"
  by (simp add: walked_def)

lemma walk_names_walked:
  assumes "walk_names uid relative depth os v = Ok v'" "names_wf os" "list_all comp_ok relative"
    "length relative = depth" "depth \<le> 64"
  shows "walked v (entries_of relative os) v'"
  using assms
proof (induction relative os arbitrary: depth v v' rule: entries_of_induct)
  case (Nil relative)
  then show ?case by (simp add: walk_names.simps walked_Nil)
next
  case (Cons relative ob os)
  let ?v = "v\<lparr>vf_buffered_entries := vf_buffered_entries v - 1\<rparr>"
  have ob: "name_ok (ob_name ob)" "\<not> dot_entry (ob_name ob)" "obs_wf ob" "names_wf os"
    using Cons.prems(2) obs_wf_name by (auto simp: names_wf_Cons)
  from Cons.prems(1) obtain path stat v1 where
    path: "child_path relative (ob_name ob) = Ok path" and stat: "ob_stat ob = SysOk stat" and
    visit: "(if s_kind (st_mode stat) = S_IFDIR
             then rbind (enter_directory ?v path depth stat (ob_body ob)) (\<lambda>(v, listing, complete).
                  rbind (directory_names v listing complete) (\<lambda>(names, v).
                  rbind (walk_names uid path (depth + 1) names v) (\<lambda>v.
                  rbind (sys_ok ''recheck artifact directory'' (ob_after ob)) (\<lambda>after.
                  rbind (verify_identity stat after S_IFDIR) (\<lambda>_. Ok v)))))
             else if s_kind (st_mode stat) = S_IFREG
             then visit_file ?v path stat (ob_body ob) (ob_after ob)
             else if s_kind (st_mode stat) = S_IFLNK
             then visit_symlink ?v path stat (ob_body ob) (ob_after ob)
             else entry_error ''artifact contains an unsupported special entry'') = Ok v1" and
    rest: "walk_names uid relative depth os v1 = Ok v'"
    unfolding walk_names.simps(2) Let_def rbind_eq_Inr sys_ok_iff by blast
  note p = child_path_ok [OF path Cons.prems(3) ob(1,2)]
  have pne: "path \<noteq> []" "length path = depth + 1" using p(1) Cons.prems(4) by auto
  have "walked ?v (block_of relative ob) v1"
  proof -
    consider (dir) "s_kind (st_mode stat) = S_IFDIR" | (reg) "visit_file ?v path stat (ob_body ob) (ob_after ob) = Ok v1"
      | (lnk) "visit_symlink ?v path stat (ob_body ob) (ob_after ob) = Ok v1"
      using visit by (auto split: if_splits)
    then show ?thesis
    proof cases
      case dir
      with visit obtain v2 listing complete names v3 where
        e: "enter_directory ?v path depth stat (ob_body ob) = Ok (v2, listing, complete)" and
        d: "directory_names v2 listing complete = Ok (names, v3)" and
        w: "walk_names uid path (depth + 1) names v3 = Ok v1"
        by (auto simp: rbind_eq_Inr)
      obtain opened where body: "ob_body ob = ObsDir opened listing complete"
        using enter_directory_listing [OF e] by blast
      note en = enter_directory_ok [OF e p(3)]
      have "safe_entry (EDir (join_slash path) (mode_bits (st_mode stat)))"
        using p(2) pne en by (intro safe_entryI [of path]) auto
      then have "walked ?v [EDir (join_slash path) (mode_bits (st_mode stat))] v2"
        using en walked_visited by blast
      moreover have "walked v2 [] v3" using directory_names_ok [OF d] by (intro walked_Nil) auto
      moreover have "walked v3 (entries_of path (listed listing)) v1"
        using Cons.IH(1) [OF body, of "depth + 1" v3 v1] w directory_names_ok(1) [OF d] p pne en
          names_wf_dir [OF Cons.prems(2) body] by simp
      ultimately have "walked ?v ([EDir (join_slash path) (mode_bits (st_mode stat))] @ [] @ entries_of path (listed listing)) v1"
        by (intro walked_append)
      then show ?thesis using body stat p(1) by (simp add: block_of_def entries_of.simps Let_def)
    next
      case reg
      from visit_file_ok [OF reg p(3)] obtain opened prepared blocks complete where
        body: "ob_body ob = ObsFile opened prepared blocks complete" and
        vi: "visited ?v (EFile (join_slash path) (mode_bits (st_mode stat)) (concat blocks)) v1" by blast
      have "safe_entry (EFile (join_slash path) (mode_bits (st_mode stat)) (concat blocks))"
        using p(2) pne Cons.prems(5) by (intro safe_entryI [of path]) auto
      then show ?thesis
        using walked_visited [OF vi] body stat p(1) by (simp add: block_of_def entries_of.simps Let_def)
    next
      case lnk
      from visit_symlink_ok [OF lnk p(3)] obtain target where
        body: "ob_body ob = ObsLink (SysOk target)" and
        res: "resolve_relative_link_target (butlast path) target \<noteq> None" and
        vi: "visited ?v (ELink (join_slash path) target) v1" by blast
      have "link_stays_inside (ELink (join_slash path) target)"
        using resolved_link_stays_inside [OF p(2) pne(1) res] obs_wf_link [OF ob(3) body] by blast
      then have "safe_entry (ELink (join_slash path) target)"
        using p(2) pne Cons.prems(5) by (intro safe_entryI [of path]) auto
      then show ?thesis
        using walked_visited [OF vi] body stat p(1) by (simp add: block_of_def entries_of.simps Let_def)
    qed
  qed
  then have "walked v (block_of relative ob) v1" by (simp add: walked_buffered)
  moreover have "walked v1 (entries_of relative os) v'"
    using Cons.IH(2) [OF rest ob(4) Cons.prems(3-5)] .
  ultimately show ?case by (simp add: entries_of_Cons walked_append)
qed

subsection \<open>What a digest stands for\<close>

definition home_wf :: "home_obs \<Rightarrow> bool" where
  "home_wf home \<longleftrightarrow> distinct (map ob_name (ho_listing home)) \<and> list_all obs_wf (ho_listing home)"

definition home_entries :: "home_obs \<Rightarrow> entry list" where
  "home_entries home = entries_of [] (listed (ho_listing home))"

lemma home_entries_canonical:
  assumes "home_wf home" "list_all safe_entry (home_entries home)" "counts_in_limits (counts_of (home_entries home))"
  shows "canonical_listing (home_entries home)"
proof -
  have wf: "names_wf (listed (ho_listing home))" using assms(1) by (auto simp: home_wf_def intro: names_wf_listed)
  have "slash_free []" by (simp add: slash_free_def)
  from entries_of_sorted [OF this wf] entries_of_parents [OF this wf, of "{}"] assms(2,3) show ?thesis
    by (simp add: canonical_listing_def home_entries_def)
qed

lemma counts_default_in_limits: "counts_in_limits (counts_of [])"
  by (simp add: counts_of_Nil counts_in_limits_def counts_default_def)

lemma digest_home_Ok:
  assumes "digest_home digest uid home = Ok ci" "home_wf home"
  shows "\<exists>root. ho_root home = SysOk root \<and> st_uid root = uid \<and>
    list_all entry_fits (home_entries home) \<and> canonical_listing (home_entries home) \<and>
    ci = \<lparr>ci_algorithm = INTEGRITY_ALGORITHM,
          ci_digest = digest (canonical_stream (mode_bits (st_mode root)) (home_entries home)),
          ci_counts = counts_of (home_entries home)\<rparr>"
proof -
  let ?v0 = "\<lambda>root. hash_mode \<lparr>vf_hasher = [TAG_ROOT], vf_counts = counts_default, vf_buffered_entries = 0\<rparr> (st_mode root)"
  from assms(1) obtain root names v1 v where
    root: "ho_root home = SysOk root" "st_uid root = uid" and
    names: "directory_names (?v0 root) (ho_listing home) (ho_complete home) = Ok (names, v1)" and
    w: "walk_names uid [] 0 names v1 = Ok v" and
    ci: "ci = \<lparr>ci_algorithm = INTEGRITY_ALGORITHM, ci_digest = digest (vf_hasher (hash_terminal v)),
      ci_counts = vf_counts (hash_terminal v)\<rparr>"
    by (auto simp: digest_home_def walk_directory_def rbind_eq_Inr sys_ok_iff verify_owner_with_uid_def Let_def split: if_splits)
  note n = directory_names_ok [OF names]
  have wf: "names_wf names" using assms(2) n(1) by (auto simp: home_wf_def intro: names_wf_listed)
  have es: "entries_of [] names = home_entries home" by (simp add: n(1) home_entries_def)
  have "walked v1 (home_entries home) v" using walk_names_walked [OF w wf] by (simp add: es)
  moreover have "vf_counts v1 = counts_of []" using n(3) by (simp add: hash_mode_def counts_of_Nil)
  ultimately have h: "vf_hasher v = vf_hasher v1 @ concat (map canon_entry (home_entries home))"
    "list_all entry_fits (home_entries home)" "list_all safe_entry (home_entries home)"
    "vf_counts v = counts_of (home_entries home)" "counts_in_limits (counts_of (home_entries home))"
    using counts_default_in_limits unfolding walked_def by (blast, blast, blast, metis append_Nil, metis append_Nil)
  have "vf_hasher (hash_terminal v) = canonical_stream (mode_bits (st_mode root)) (home_entries home)"
    using h(1,4) n(2) by (simp add: hash_terminal_def Let_def canonical_stream_def terminal_bytes_def hash_mode_def)
  moreover have "vf_counts (hash_terminal v) = counts_of (home_entries home)"
    using h(4) by (simp add: hash_terminal_def Let_def)
  ultimately show ?thesis
    using root h home_entries_canonical [OF assms(2) h(3,5)] ci by simp
qed

lemma be8_prefixed_cancel:
  assumes "be_bytes 8 (length p) @ p @ x = be_bytes 8 (length q) @ q @ y" "length p \<le> lim_file_bytes ALPHA" "length q \<le> lim_file_bytes ALPHA"
  shows "p = q \<and> x = y"
proof -
  have "length p < 256 ^ 8" "length q < 256 ^ 8" using assms(2,3) by simp_all
  then have "length p = length q" "p @ x = q @ y"
    using assms(1) be_bytes_inj [of "length p" 8 "length q"] by (simp_all add: append_eq_append_conv)
  then show ?thesis by simp
qed

lemma be4_cancel:
  assumes "be_bytes 4 m @ x = be_bytes 4 n @ y" "m \<le> 511" "n \<le> 511"
  shows "m = n \<and> x = y"
  using assms be_bytes_inj [of m 4 n] by (simp add: append_eq_append_conv)

lemma canon_entry_cancel:
  assumes "canon_entry e @ x = canon_entry e' @ y" "entry_fits e" "entry_fits e'"
  shows "e = e' \<and> x = y"
proof (cases e)
  case (EDir p n)
  with assms(1) obtain p' n' where e': "e' = EDir p' n'" by (cases e') auto
  have "p = p' \<and> be_bytes 4 n @ x = be_bytes 4 n' @ y"
    using assms EDir e' by (intro be8_prefixed_cancel) simp_all
  with EDir e' assms be4_cancel [of n x n' y] show ?thesis by simp
next
  case (EFile p n c)
  with assms(1) obtain p' n' c' where e': "e' = EFile p' n' c'" by (cases e') auto
  have p: "p = p' \<and> be_bytes 4 n @ be_bytes 8 (length c) @ c @ x = be_bytes 4 n' @ be_bytes 8 (length c') @ c' @ y"
    using assms EFile e' by (intro be8_prefixed_cancel) simp_all
  then have n: "n = n' \<and> be_bytes 8 (length c) @ c @ x = be_bytes 8 (length c') @ c' @ y"
    using assms EFile e' by (intro be4_cancel) simp_all
  then have "c = c' \<and> x = y" using assms EFile e' by (intro be8_prefixed_cancel) simp_all
  with p n EFile e' show ?thesis by simp
next
  case (ELink p t)
  with assms(1) obtain p' t' where e': "e' = ELink p' t'" by (cases e') auto
  have p: "p = p' \<and> be_bytes 8 (length t) @ t @ x = be_bytes 8 (length t') @ t' @ y"
    using assms ELink e' by (intro be8_prefixed_cancel) simp_all
  then have "t = t' \<and> x = y" using assms ELink e' by (intro be8_prefixed_cancel) simp_all
  with p ELink e' show ?thesis by simp
qed

lemma canon_entry_not_terminal: "canon_entry e @ x \<noteq> TAG_TERMINAL # y"
  by (cases e) simp_all

lemma canon_entries_cancel:
  assumes "concat (map canon_entry es) @ TAG_TERMINAL # x = concat (map canon_entry es') @ TAG_TERMINAL # y"
    "list_all entry_fits es" "list_all entry_fits es'"
  shows "es = es'"
  using assms
proof (induction es arbitrary: es')
  case Nil
  then show ?case by (cases es') (auto dest: sym simp: canon_entry_not_terminal)
next
  case (Cons e es)
  show ?case
  proof (cases es')
    case Nil
    with Cons.prems show ?thesis by (simp add: canon_entry_not_terminal)
  next
    case (Cons e' fs)
    with Cons.prems Cons.IH [of fs] canon_entry_cancel [of e _ e'] show ?thesis by fastforce
  qed
qed

lemma canonical_stream_inj:
  assumes "canonical_stream m es = canonical_stream m' es'" "m \<le> 511" "m' \<le> 511"
    "list_all entry_fits es" "list_all entry_fits es'"
  shows "m = m' \<and> es = es'"
proof -
  have "m = m' \<and> concat (map canon_entry es) @ terminal_bytes (counts_of es) =
      concat (map canon_entry es') @ terminal_bytes (counts_of es')"
    using assms(1-3) by (intro be4_cancel) (simp_all add: canonical_stream_def)
  with assms(4,5) canon_entries_cancel show ?thesis unfolding terminal_bytes_def by blast
qed

subsection \<open>Properties\<close>

text \<open>
  C9: an integrity record identifies the content. If a digest was recorded for one home and
  verification later accepts a home against that record, then, unless the hash collides on the
  two streams, both have the same root mode and exactly the same listing: the same paths, modes,
  file contents and link targets. The listing is canonical and within the limits, and its counts
  are the recorded ones.
\<close>

theorem verified_content_is_recorded_content:
  assumes "digest_home digest uid home = Ok ci" "verify_home digest uid' home' ci = Ok ()"
    and "home_wf home" "home_wf home'"
    and "ho_root home = SysOk root" "ho_root home' = SysOk root'"
    and "digest (canonical_stream (mode_bits (st_mode root)) (home_entries home)) =
         digest (canonical_stream (mode_bits (st_mode root')) (home_entries home')) \<Longrightarrow>
         canonical_stream (mode_bits (st_mode root)) (home_entries home) =
         canonical_stream (mode_bits (st_mode root')) (home_entries home')"
  shows "home_entries home' = home_entries home \<and> mode_bits (st_mode root') = mode_bits (st_mode root) \<and>
    canonical_listing (home_entries home') \<and> ci_counts ci = counts_of (home_entries home')"
proof -
  have second: "digest_home digest uid' home' = Ok ci"
    using assms(2) by (auto simp: verify_home_def rbind_eq_Inr split: if_splits)
  note a = digest_home_Ok [OF assms(1,3)] and b = digest_home_Ok [OF second assms(4)]
  have "digest (canonical_stream (mode_bits (st_mode root)) (home_entries home)) =
      digest (canonical_stream (mode_bits (st_mode root')) (home_entries home'))"
    using a b assms(5,6) by auto
  note stream = assms(7) [OF this]
  have "list_all entry_fits (home_entries home)" "list_all entry_fits (home_entries home')" using a b by blast+
  from canonical_stream_inj [OF stream mode_bits_le mode_bits_le this] b show ?thesis by auto
qed

definition sample_stat :: "nat \<Rightarrow> nat \<Rightarrow> int \<Rightarrow> file_stat" where
  "sample_stat ino mode len =
     \<lparr>st_dev = 1, st_ino = ino, st_uid = 1000, st_gid = 1000, st_mode = mode, st_nlink = 1, st_size = len,
      st_mtime = 0, st_mtime_nsec = 0, st_ctime = 0, st_ctime_nsec = 0\<rparr>"

definition sample_home :: home_obs where
  "sample_home =
     \<lparr>ho_root = SysOk (sample_stat 1 16832 0),
      ho_listing =
        [Obs ''b'' (SysOk (sample_stat 3 33152 2)) (ObsFile (SysOk (sample_stat 3 33152 2)) True [''hi''] True) (SysOk (sample_stat 3 33152 2)),
         Obs ''a'' (SysOk (sample_stat 2 41471 1)) (ObsLink (SysOk ''b'')) (SysOk (sample_stat 2 41471 1))],
      ho_complete = True\<rparr>"

lemma sample_home_wf: "home_wf sample_home"
  by (simp add: home_wf_def sample_home_def name_ok_def dot_entry_def)

lemma sample_kinds [simp]:
  "s_kind 33152 = S_IFREG" "s_kind 41471 = S_IFLNK" "s_kind 16832 = S_IFDIR" "mode_bits 33152 = 384"
  "mode_bits 41471 = 511" "mode_bits 16832 = 448"
  by (simp_all add: s_kind_def S_IFMT_def s_kinds mode_bits_mod) 

lemma kinds_distinct [simp]:
  "S_IFREG \<noteq> S_IFDIR" "S_IFLNK \<noteq> S_IFDIR" "S_IFLNK \<noteq> S_IFREG" "S_IFDIR \<noteq> S_IFREG" "S_IFDIR \<noteq> S_IFLNK" "S_IFREG \<noteq> S_IFLNK"
  by (simp_all add: s_kinds)

lemmas walk_evals = digest_home_def sys_ok_def verify_owner_with_uid_def walk_directory_def directory_names_def
  walk_names.simps child_path_def visit_file_def visit_symlink_def verify_identity_def same_entry_def same_timestamps_def
  add_logical_bytes_def verifier_note_entry_def counts_default_def sat_add_def checked_add_def u64_max_num
  hash_mode_def hash_path_def feed_def resolve_relative_link_target_def path_components_def body_component_def
  hash_terminal_def dot_entry_def

lemma sample_home_digest: "\<exists>ci. digest_home (\<lambda>s. s) 1000 sample_home = Ok ci"
  by (simp add: sample_home_def sample_stat_def walk_evals Let_def)

theorem verified_content_is_recorded_content_witness:
  "\<exists>ci. digest_home (\<lambda>s. s) 1000 sample_home = Ok ci \<and> canonical_listing (home_entries sample_home) \<and>
     ci_counts ci = counts_of (home_entries sample_home)"
proof -
  obtain ci where ci: "digest_home (\<lambda>s. s) 1000 sample_home = Ok ci" using sample_home_digest by blast
  have "ci_algorithm ci = INTEGRITY_ALGORITHM" using digest_home_Ok [OF ci sample_home_wf] by auto
  with ci have v: "verify_home (\<lambda>s. s) 1000 sample_home ci = Ok ()" by (simp add: verify_home_def)
  have root: "ho_root sample_home = SysOk (sample_stat 1 16832 0)" by (simp add: sample_home_def)
  from verified_content_is_recorded_content [OF ci v sample_home_wf sample_home_wf root root] ci show ?thesis by blast
qed

lemma collect_names_full:
  "collect_names maximum names os complete =
     (let found = filter (\<lambda>ob. \<not> dot_entry (ob_name ob)) os in
      if found \<noteq> [] \<and> length names + length found > maximum then limit_error ''artifact entries''
      else if complete then Ok (names @ found)
      else entry_error ''read artifact directory'')"
  by (induction maximum names os complete rule: collect_names.induct) (auto simp: Let_def)

text \<open>
  the digest does not depend on the order in which a directory is enumerated. Two
  enumerations of the same entries give the same names in the same order, the same accounting and
  the same errors, in every directory, and so the whole digest is the same.
\<close>

theorem enumeration_order_is_irrelevant:
  assumes "mset os = mset os'" "distinct (map ob_name os)"
  shows "directory_names v os complete = directory_names v os' complete \<and>
    digest_home digest uid (home\<lparr>ho_listing := os\<rparr>) = digest_home digest uid (home\<lparr>ho_listing := os'\<rparr>)"
proof -
  let ?P = "\<lambda>ob. \<not> dot_entry (ob_name ob)"
  have m: "mset (filter ?P os) = mset (filter ?P os')" using assms(1) by simp
  then have len: "length (filter ?P os) = length (filter ?P os')" by (metis size_mset)
  have "inj_on ob_name (set (filter ?P os))"
    using assms(2) by (auto simp: distinct_map intro: inj_on_subset)
  then have s: "sort_key ob_name (filter ?P os) = sort_key ob_name (filter ?P os')"
    by (intro sort_key_inj_key_eq) (simp_all add: assms(1))
  have "directory_names v os complete = directory_names v os' complete" for v complete
    unfolding directory_names_def collect_names_full Let_def using len s
    by (auto simp: filter_empty_conv)
  then show ?thesis by (simp add: digest_home_def walk_directory_def)
qed

theorem enumeration_order_is_irrelevant_witness:
  "digest_home (\<lambda>s. s) 1000 (sample_home\<lparr>ho_listing := ho_listing sample_home\<rparr>) =
   digest_home (\<lambda>s. s) 1000 (sample_home\<lparr>ho_listing := rev (ho_listing sample_home)\<rparr>)"
proof -
  have "mset (ho_listing sample_home) = mset (rev (ho_listing sample_home))" by simp
  moreover have "distinct (map ob_name (ho_listing sample_home))" by (simp add: sample_home_def)
  ultimately show ?thesis using enumeration_order_is_irrelevant by blast
qed

end
