(* ===== verification/Bundle_Properties.thy ===== *)
theory Bundle_Properties
  imports Bundle_Canonical
begin

text \<open>
  The contract of the bundle format: what the parser accepts, that it accepts what the writer
  produces, what an accepted bundle can contain, and that the pass that extracts a bundle sees
  the entries the authentication pass has approved.
\<close>

subsection \<open>Unique decoding\<close>

lemma be_append_cancel:
  assumes "be_bytes w n @ x = be_bytes w m @ y" "n < 256 ^ w" "m < 256 ^ w"
  shows "n = m \<and> x = y"
  using assms be_bytes_inj [of n w m] by (simp add: append_eq_append_conv)

lemma u32_small: "n \<le> 4096 \<Longrightarrow> n < (256 :: nat) ^ 4"
  by simp

lemma length_prefixed_cancel:
  assumes "be_bytes 4 (length p) @ p @ x = be_bytes 4 (length q) @ q @ y" "length p \<le> 4096" "length q \<le> 4096"
  shows "p = q \<and> x = y"
  using be_append_cancel [OF assms(1) u32_small [OF assms(2)] u32_small [OF assms(3)]] by auto

lemma encode_entry_cancel:
  assumes "encode_entry e @ x = encode_entry e' @ y" "entry_fits e" "entry_fits e'"
  shows "e = e' \<and> x = y"
proof -
  have m: "m \<le> 511 \<Longrightarrow> m < 256 ^ 4" for m :: nat by simp
  have l: "n \<le> lim_file_bytes ALPHA \<Longrightarrow> n < 256 ^ 8" for n by simp
  from assms(1) have tag: "entry_tag e = entry_tag e'" and body: "encode_body e @ x = encode_body e' @ y"
    by (simp_all add: encode_entry_def)
  show ?thesis
  proof (cases e)
    case (EDir p n)
    with tag obtain p' n' where e': "e' = EDir p' n'" by (cases e') auto
    from body EDir e' assms(2,3) have "p = p' \<and> be_bytes 4 n @ x = be_bytes 4 n' @ y"
      by (intro length_prefixed_cancel) simp_all
    with be_append_cancel [of 4 n x n' y] m EDir e' assms(2,3) show ?thesis by simp
  next
    case (EFile p n c)
    with tag obtain p' n' c' where e': "e' = EFile p' n' c'" by (cases e') auto
    from body EFile e' assms(2,3) have p: "p = p' \<and> be_bytes 4 n @ be_bytes 8 (length c) @ c @ x =
        be_bytes 4 n' @ be_bytes 8 (length c') @ c' @ y"
      by (intro length_prefixed_cancel) simp_all
    then have n: "n = n' \<and> be_bytes 8 (length c) @ c @ x = be_bytes 8 (length c') @ c' @ y"
      using m EFile e' assms(2,3) by (intro be_append_cancel [where w = 4]) simp_all
    then have "length c = length c' \<and> c @ x = c' @ y"
      using l EFile e' assms(2,3) by (intro be_append_cancel [where w = 8]) simp_all
    with p n EFile e' show ?thesis by auto
  next
    case (ELink p t)
    with tag obtain p' t' where e': "e' = ELink p' t'" by (cases e') auto
    from body ELink e' assms(2,3) have p: "p = p' \<and> be_bytes 4 (length t) @ t @ x = be_bytes 4 (length t') @ t' @ y"
      by (intro length_prefixed_cancel) simp_all
    then have "t = t' \<and> x = y"
      using ELink e' assms(2,3) by (intro length_prefixed_cancel) simp_all
    with p ELink e' show ?thesis by simp
  qed
qed

lemma encode_entries_cancel:
  assumes "encode_entries es @ TAG_TERMINAL # x = encode_entries es' @ TAG_TERMINAL # y"
    "list_all entry_fits es" "list_all entry_fits es'"
  shows "es = es' \<and> x = y"
  using assms
proof (induction es arbitrary: es')
  case Nil
  then show ?case by (cases es') (auto simp: encode_entry_def dest: sym [of TAG_TERMINAL])
next
  case (Cons e es)
  show ?case
  proof (cases es')
    case Nil
    with Cons.prems show ?thesis by (simp add: encode_entry_def)
  next
    case (Cons e' fs)
    with Cons.prems Cons.IH [of fs]
      encode_entry_cancel [of e "encode_entries es @ TAG_TERMINAL # x" e' "encode_entries fs @ TAG_TERMINAL # y"]
    show ?thesis by simp
  qed
qed

lemma bundle_prefix_cancel:
  assumes "bundle_prefix hb es @ x = bundle_prefix hb' es' @ y"
    "length hb \<le> HEADER_LIMIT" "length hb' \<le> HEADER_LIMIT" "list_all entry_fits es" "list_all entry_fits es'"
  shows "hb = hb' \<and> es = es' \<and> x = y"
proof -
  have u: "n \<le> HEADER_LIMIT \<Longrightarrow> n < 256 ^ 4" for n by (simp add: HEADER_LIMIT_def)
  have "length hb = length hb' \<and> hb @ encode_entries es @ TAG_TERMINAL # x = hb' @ encode_entries es' @ TAG_TERMINAL # y"
    using assms(1-3) u by (intro be_append_cancel [where w = 4]) (simp_all add: bundle_prefix_def)
  with assms(4,5) encode_entries_cancel [of es x es' y] show ?thesis by auto
qed

subsection \<open>The contract\<close>

definition replay :: "'s entry_sink \<Rightarrow> 's \<Rightarrow> entry list \<Rightarrow> 's result" where
  "replay sink s es = rbind (rfold (deliver sink) s (listing_events es)) (sk_finish sink)"

lemma accepted_iff:
  "accepted env key sink s hb es header s' \<longleftrightarrow>
     length hb \<le> HEADER_LIMIT \<and> list_all entry_fits es \<and>
     length (bundle_tag env key (bundle_prefix hb es)) = 32 \<and> be_from_slice env hb = Some header \<and>
     canonical_listing es \<and> validate_header header (counts_of es) = Ok () \<and> replay sink s es = Ok s'"
proof -
  have "(\<exists>s1 st s2. run_entries sink s es = Ok (s1, st) \<and> validate_header header (ps_counts st) = Ok () \<and>
        close_directories sink s1 (close_all st) = Ok s2 \<and> sk_finish sink s2 = Ok s') \<longleftrightarrow>
     canonical_listing es \<and> validate_header header (counts_of es) = Ok () \<and> replay sink s es = Ok s'"
    if fits: "list_all entry_fits es"
  proof (cases "advance_all parse_state_new es")
    case (Inl err)
    then have "\<not> canonical_listing es" using advance_all_Ok_iff [OF fits] by simp
    with Inl show ?thesis by (simp add: run_entries_Ok_iff)
  next
    case (Inr r)
    obtain evs st where r: "r = (evs, st)" by (cases r)
    have "canonical_listing es" "ps_counts st = counts_of es"
      using Inr r advance_all_Ok_iff [OF fits] advance_all_state_counts by blast+
    with Inr r show ?thesis
      by (auto simp: run_entries_Ok_iff replay_def listing_events_def close_directories_def rfold_append rfold_map rbind_eq_Inr)
  qed
  then show ?thesis unfolding accepted_def by blast
qed

text \<open>
  C1: the parser succeeds exactly on authenticated canonical bundles. A file is accepted with
  header, tag and final sink state if and only if it is the magic, a bounded header, the
  encoding of a canonical entry listing, the terminal byte and the 32-byte keyed hash of
  everything before it, with nothing after it, the header decodes and agrees with the counted
  content, and the sink accepts the events of the listing in order.
\<close>

theorem parse_bundle_contract:
  "parse_bundle env key sink s file = Ok (header, tag, s') \<longleftrightarrow>
     (\<exists>hb es. file = bundle_prefix hb es @ tag \<and> tag = bundle_tag env key (bundle_prefix hb es) \<and>
        length tag = 32 \<and> length hb \<le> HEADER_LIMIT \<and> be_from_slice env hb = Some header \<and>
        list_all entry_fits es \<and> canonical_listing es \<and>
        validate_header header (counts_of es) = Ok () \<and> replay sink s es = Ok s')"
  unfolding parse_bundle_Ok_iff accepted_iff by auto

subsection \<open>Witness data\<close>

definition sample_listing :: "entry list" where
  "sample_listing = [EDir ''bin'' 448, EFile ''bin/a'' 384 ''hi'', ELink ''l'' ''bin/a'']"

definition sample_header :: bundle_header where
  "sample_header =
     \<lparr>bh_schema_version = 1, bh_export_id = ArtifactId (replicate 32 (CHR ''a'')), bh_created_unix_ms = 1,
      bh_source_kind = Snapshot, bh_source_artifact_id = ArtifactId (replicate 32 (CHR ''b'')),
      bh_source_name = ArtifactName ''base'',
      bh_source_identity = \<lparr>si_schema_version = PROFILE_SCHEMA_VERSION, si_name = SpaceName ''dev'',
        si_created_unix_ms = 5, si_space_id = None\<rparr>,
      bh_source_layout = Profile, bh_source_platform = ''linux'', bh_default_shell = ''/bin/sh'',
      bh_include_cache = False, bh_includes_sensitive_state = True,
      bh_content_integrity = \<lparr>ci_algorithm = INTEGRITY_ALGORITHM, ci_digest = replicate 64 (CHR ''0''),
        ci_counts = \<lparr>ac_directories = 1, ac_files = 1, ac_symlinks = 1, ac_entries = 3, ac_logical_bytes = 7\<rparr>\<rparr>,
      bh_authentication = BUNDLE_ALGORITHM\<rparr>"

definition sample_env :: bundle_env where
  "sample_env =
     \<lparr>be_derive_key = (\<lambda>domain key. key), be_keyed_hash = (\<lambda>key bytes. replicate 32 (CHR ''t'')),
      be_to_vec = (\<lambda>h. if h = sample_header then Some ''{}'' else None),
      be_from_slice = (\<lambda>b. if b = ''{}'' then Some sample_header else None)\<rparr>"

lemma sample_advances: "is_ok (advance_all parse_state_new sample_listing)"
  by (simp add: sample_listing_def advance_def validate_path_def split_path_def starts_with_def parse_state_new_def
      close_to_eq note_directory_def note_file_def note_symlink_def note_entry_def add_bytes_def counts_default_def
      sat_add_def checked_add_def u64_max_num validate_link_target_def resolve_relative_link_target_def
      path_components_def body_component_def Let_def)

lemma sample_fits: "list_all entry_fits sample_listing"
  by (simp add: sample_listing_def)

lemma sample_canonical: "canonical_listing sample_listing"
  using sample_advances advance_all_Ok_iff [OF sample_fits] by (auto simp: is_ok_iff)

lemma sample_header_valid: "validate_header sample_header (counts_of sample_listing) = Ok ()"
  by (simp add: validate_header_def sample_header_def sample_listing_def counts_of_def BUNDLE_VERSION_def
      known_platform_def valid_source_identity_def validate_content_integrity_def valid_digest_def validate_counts_def
      ascii_defs checked_add_def u64_max_num list_all_iff)

lemma sample_tag: "bundle_tag sample_env key bytes = replicate 32 (CHR ''t'')"
  by (simp add: bundle_tag_def sample_env_def)

lemma noop_deliver [simp]: "deliver noop_sink u ev = Ok ()"
  by (cases ev) (simp_all add: noop_sink_def)

lemma noop_rfold: "rfold (deliver noop_sink) u evs = Ok ()"
  by (induction evs) simp_all

lemma noop_replay [simp]: "replay noop_sink u es = Ok ()"
  by (simp add: replay_def noop_rfold) (simp add: noop_sink_def)

text \<open>
  C2: round trip. What the writer produces for a header and a canonical listing is accepted by the
  parser under the same key, which returns the header that was written and drives the sink
  through exactly the events of the listing. Encoding and decoding of this header and the
  length of this tag are what is needed of the JSON codec and of the keyed hash.
\<close>

theorem bundle_round_trip:
  assumes "be_to_vec env header = Some hb" "be_from_slice env hb = Some header" "length hb \<le> HEADER_LIMIT"
    and "length (bundle_tag env key (bundle_prefix hb es)) = 32"
    and "list_all entry_fits es" "canonical_listing es" "validate_header header (counts_of es) = Ok ()"
    and "replay sink s es = Ok s'"
  shows "\<exists>bytes tag. write_bundle env key header es = Ok (bytes, tag) \<and>
    parse_bundle env key sink s bytes = Ok (header, tag, s')"
  using assms write_bundle_Ok [OF assms(1,3,5)] by (auto simp: parse_bundle_Ok_iff accepted_iff)

theorem bundle_round_trip_witness:
  "\<exists>bytes tag. write_bundle sample_env ''key'' sample_header sample_listing = Ok (bytes, tag) \<and>
    parse_bundle sample_env ''key'' noop_sink () bytes = Ok (sample_header, tag, ())"
  by (rule bundle_round_trip [where hb = "''{}''"])
    (simp_all add: sample_tag sample_fits sample_canonical sample_header_valid HEADER_LIMIT_def, simp_all add: sample_env_def)

text \<open>
  C3: what an accepted bundle can contain. Every entry path is relative and made of clean,
  NUL-free components of at most 255 bytes within the depth limit, links never climb above the
  root, no path occurs twice, every parent of an entry was announced before it as a directory
  (so nothing is placed below a file or a symbolic link), the counts of the header are the
  counts of the content and within the limits, and every directory is closed exactly once.
\<close>

theorem accepted_bundle_is_safe:
  assumes "parse_bundle env key sink s file = Ok (header, tag, s')"
  shows "\<exists>hb es. file = bundle_prefix hb es @ tag \<and> list_all safe_entry es \<and>
    distinct (map entry_path es) \<and> parents_first {} es \<and>
    ci_counts (bh_content_integrity header) = counts_of es \<and> counts_in_limits (counts_of es) \<and>
    mset (closed_paths (listing_events es)) = mset (directory_paths es)"
proof -
  from assms obtain hb es where b: "file = bundle_prefix hb es @ tag" "list_all entry_fits es" "canonical_listing es"
    "validate_header header (counts_of es) = Ok ()"
    unfolding parse_bundle_Ok_iff accepted_iff by blast
  have "distinct (map entry_components es)"
    using b(3) by (auto simp: canonical_listing_def strict_sorted_iff)
  moreover have "entry_components = split_slash \<circ> entry_path" by (auto simp: entry_components_def)
  ultimately have "distinct (map split_slash (map entry_path es))" by simp
  then have "distinct (map entry_path es)" using distinct_map by blast
  moreover have "ci_counts (bh_content_integrity header) = counts_of es"
    using b(4) by (auto simp: validate_header_def split: if_splits)
  ultimately show ?thesis
    using b listing_events_closes [OF b(2,3)] unfolding canonical_listing_def by blast
qed

lemma sample_parses:
  "parse_bundle sample_env key noop_sink () (bundle_prefix ''{}'' sample_listing @ replicate 32 (CHR ''t'')) =
     Ok (sample_header, replicate 32 (CHR ''t''), ())"
  unfolding parse_bundle_Ok_iff accepted_iff
  by (intro exI [of _ "''{}''"] exI [of _ sample_listing])
    (simp add: sample_tag sample_fits sample_canonical sample_header_valid HEADER_LIMIT_def, simp add: sample_env_def)

theorem accepted_bundle_is_safe_witness:
  "\<exists>hb es. bundle_prefix ''{}'' sample_listing @ replicate 32 (CHR ''t'') =
      bundle_prefix hb es @ replicate 32 (CHR ''t'') \<and> list_all safe_entry es \<and>
    distinct (map entry_path es) \<and> parents_first {} es \<and>
    ci_counts (bh_content_integrity sample_header) = counts_of es \<and> counts_in_limits (counts_of es) \<and>
    mset (closed_paths (listing_events es)) = mset (directory_paths es)"
  using accepted_bundle_is_safe [OF sample_parses] .

text \<open>
  C4: the two passes of an import agree. A pass with any sink succeeds exactly when the
  authentication pass without effects succeeds on the same bytes and the sink accepts the events
  of the listing these bytes encode; both return the same header and tag. In particular the
  extraction pass never acts on a listing the authentication pass would refuse.
\<close>

theorem extraction_pass_follows_authentication:
  "parse_bundle env key sink s file = Ok (header, tag, s') \<longleftrightarrow>
     parse_bundle env key noop_sink () file = Ok (header, tag, ()) \<and>
     (\<exists>hb es. file = bundle_prefix hb es @ tag \<and> length hb \<le> HEADER_LIMIT \<and> list_all entry_fits es \<and>
        replay sink s es = Ok s')"
  (is "?L \<longleftrightarrow> ?N \<and> ?R")
proof
  show "?N \<and> ?R" if ?L
    using that unfolding parse_bundle_Ok_iff accepted_iff by auto
  show ?L if "?N \<and> ?R"
  proof -
    from that obtain hb es where r: "file = bundle_prefix hb es @ tag" "length hb \<le> HEADER_LIMIT"
      "list_all entry_fits es" "replay sink s es = Ok s'" by blast
    from that obtain hb' es' where n: "file = bundle_prefix hb' es' @ tag" "tag = bundle_tag env key (bundle_prefix hb' es')"
      "accepted env key noop_sink () hb' es' header ()"
      unfolding parse_bundle_Ok_iff by blast
    have "hb = hb' \<and> es = es'"
      using r n bundle_prefix_cancel [of hb es tag hb' es' tag] by (simp add: accepted_def)
    with r n show ?L unfolding parse_bundle_Ok_iff accepted_iff by auto
  qed
qed

end
