(* ===== verification/Bundle_Export.thy ===== *)
theory Bundle_Export
  imports Integrity Bundle_Properties
begin

text \<open>
  The export of an artifact into a bundle (\<open>store/artifact/bundle/export.rs\<close>): a second walk of
  the home that feeds the bundle writer and the canonical hasher together, refuses to publish when
  the canonical digest is not the one the manifest records, and the header it writes. The theory
  ends with the chain from an artifact over the exported bytes to the import that accepts them.

  The random export id and the clock are parameters; creating the staging file, syncing and
  linking it into place are not modelled.
\<close>

subsection \<open>The canonical hasher of an export\<close>

record canonical =
  cn_hasher :: string
  cn_counts :: artifact_counts

definition canonical_new :: "nat \<Rightarrow> canonical" where
  "canonical_new root_mode =
     \<lparr>cn_hasher = [TAG_ROOT] @ be_bytes 4 (mode_bits root_mode), cn_counts = counts_default\<rparr>"

definition canonical_update :: "canonical \<Rightarrow> string \<Rightarrow> canonical" where
  "canonical_update c bytes = c\<lparr>cn_hasher := cn_hasher c @ bytes\<rparr>"

definition canonical_validate_path :: "string list \<Rightarrow> unit result" where
  "canonical_validate_path path =
     (if path = [] \<or> length (last path) > lim_component_bytes ALPHA \<or>
         length (join_slash path) > lim_relative_path_bytes ALPHA
      then Err ResourceLimit ''artifact export path exceeds fixed limits''
      else Ok ())"

definition canonical_note_entry :: "canonical \<Rightarrow> canonical result" where
  "canonical_note_entry c =
     (let c = c\<lparr>cn_counts := (cn_counts c)\<lparr>ac_entries := sat_add (ac_entries (cn_counts c)) 1\<rparr>\<rparr> in
      if ac_entries (cn_counts c) > lim_entries ALPHA then Err ResourceLimit ''artifact export exceeds the entry limit''
      else Ok c)"

definition canonical_add_bytes :: "canonical \<Rightarrow> nat \<Rightarrow> canonical result" where
  "canonical_add_bytes c amount =
     (case checked_add (ac_logical_bytes (cn_counts c)) amount of
        None \<Rightarrow> Err ResourceLimit ''artifact export logical-byte count overflowed''
      | Some bytes \<Rightarrow>
          let c = c\<lparr>cn_counts := (cn_counts c)\<lparr>ac_logical_bytes := bytes\<rparr>\<rparr> in
          if ac_logical_bytes (cn_counts c) > lim_logical_bytes ALPHA
          then Err ResourceLimit ''artifact export exceeds the byte limit''
          else Ok c)"

definition canonical_hash_path :: "canonical \<Rightarrow> string list \<Rightarrow> canonical" where
  "canonical_hash_path c path =
     canonical_update (canonical_update c (be_bytes 8 (length (join_slash path)))) (join_slash path)"

definition canonical_directory :: "canonical \<Rightarrow> string list \<Rightarrow> nat \<Rightarrow> canonical result" where
  "canonical_directory c path mode =
     rbind (canonical_note_entry c) (\<lambda>c.
     let c = c\<lparr>cn_counts := (cn_counts c)\<lparr>ac_directories := sat_add (ac_directories (cn_counts c)) 1\<rparr>\<rparr>;
         c = canonical_update c [TAG_DIRECTORY];
         c = canonical_hash_path c path in
     Ok (canonical_update c (be_bytes 4 (mode_bits mode))))"

definition canonical_file_prefix :: "canonical \<Rightarrow> string list \<Rightarrow> nat \<Rightarrow> nat \<Rightarrow> canonical result" where
  "canonical_file_prefix c path mode len =
     (if len > lim_file_bytes ALPHA then Err ResourceLimit ''artifact export file exceeds fixed limits''
      else rbind (canonical_note_entry c) (\<lambda>c.
        rbind (canonical_add_bytes c len) (\<lambda>c.
        let c = c\<lparr>cn_counts := (cn_counts c)\<lparr>ac_files := sat_add (ac_files (cn_counts c)) 1\<rparr>\<rparr>;
            c = canonical_update c [TAG_FILE];
            c = canonical_hash_path c path;
            c = canonical_update c (be_bytes 4 (mode_bits mode)) in
        Ok (canonical_update c (be_bytes 8 len)))))"

definition canonical_symlink :: "canonical \<Rightarrow> string list \<Rightarrow> string \<Rightarrow> canonical result" where
  "canonical_symlink c path target =
     (if length target > lim_symlink_target_bytes ALPHA then Err ResourceLimit ''artifact export link exceeds fixed limits''
      else rbind (canonical_note_entry c) (\<lambda>c.
        rbind (canonical_add_bytes c (length target)) (\<lambda>c.
        let c = c\<lparr>cn_counts := (cn_counts c)\<lparr>ac_symlinks := sat_add (ac_symlinks (cn_counts c)) 1\<rparr>\<rparr>;
            c = canonical_update c [TAG_SYMLINK];
            c = canonical_hash_path c path;
            c = canonical_update c (be_bytes 8 (length target)) in
        Ok (canonical_update c target))))"

definition canonical_finish :: "(string \<Rightarrow> string) \<Rightarrow> canonical \<Rightarrow> content_integrity" where
  "canonical_finish digest c =
     (let n = cn_counts c;
          hasher = cn_hasher c @ [TAG_TERMINAL] @ be_bytes 8 (ac_entries n) @ be_bytes 8 (ac_directories n) @
            be_bytes 8 (ac_files n) @ be_bytes 8 (ac_symlinks n) @ be_bytes 8 (ac_logical_bytes n) in
      \<lparr>ci_algorithm = ''blake3-256:quarters-canonical-v1'', ci_digest = digest hasher, ci_counts = n\<rparr>)"

subsection \<open>The export walk\<close>

text \<open>
  A regular file is read by the writer: the observation gives the bytes that reads return until
  the end of the file or a failure.
\<close>

definition export_file ::
  "string list \<Rightarrow> file_stat \<Rightarrow> obs_body \<Rightarrow> file_stat sys \<Rightarrow> bundle_writer \<times> canonical \<Rightarrow> (bundle_writer \<times> canonical) result" where
  "export_file path expected body after wc =
     (let (w, c) = wc in
      if st_nlink expected \<noteq> 1 then entry_error ''artifact export contains a multiply-linked file''
      else if st_size expected < 0 then entry_error ''artifact export file length is invalid''
      else let len = nat (st_size expected) in
        rbind (canonical_file_prefix c path (st_mode expected) len) (\<lambda>c.
        (case body of
           ObsFile opened prepared blocks complete \<Rightarrow>
             rbind (sys_ok ''could not inspect opened export file'' opened) (\<lambda>opened.
             rbind (verify_identity expected opened S_IFREG) (\<lambda>_.
             if \<not> prepared then entry_error ''could not prepare export file''
             else if \<not> complete then entry_error ''bundle source file changed or could not be read''
             else rbind (writer_file w (join_slash path) (mode_bits (st_mode expected)) (concat blocks) len (cn_hasher c))
               (\<lambda>(w, hasher).
               rbind (sys_ok ''could not recheck exported file'' after) (\<lambda>after.
               rbind (verify_identity expected after S_IFREG) (\<lambda>_.
               Ok (w, c\<lparr>cn_hasher := hasher\<rparr>))))))
         | _ \<Rightarrow> entry_error ''could not open artifact export file'')))"

definition export_symlink ::
  "string list \<Rightarrow> file_stat \<Rightarrow> obs_body \<Rightarrow> file_stat sys \<Rightarrow> bundle_writer \<times> canonical \<Rightarrow> (bundle_writer \<times> canonical) result" where
  "export_symlink path expected body after wc =
     (let (w, c) = wc in
      case body of
        ObsLink target \<Rightarrow>
          rbind (sys_ok ''could not read artifact export link'' target) (\<lambda>target.
          if resolve_relative_link_target (butlast path) target = None
          then entry_error ''artifact export symbolic link escapes its root''
          else rbind (canonical_symlink c path target) (\<lambda>c.
            rbind (writer_symlink w (join_slash path) target) (\<lambda>w.
            rbind (sys_ok ''could not recheck exported link'' after) (\<lambda>after.
            rbind (verify_identity expected after S_IFLNK) (\<lambda>_. Ok (w, c))))))
      | _ \<Rightarrow> entry_error ''could not read artifact export link'')"

text \<open>The part of \<open>export_child_directory\<close> before the recursive walk; it returns the listing to walk.\<close>

definition export_enter_directory ::
  "string list \<Rightarrow> nat \<Rightarrow> file_stat \<Rightarrow> obs_body \<Rightarrow> bundle_writer \<times> canonical \<Rightarrow>
     ((bundle_writer \<times> canonical) \<times> obs list \<times> bool) result" where
  "export_enter_directory path depth expected body wc =
     (let (w, c) = wc in
      if depth + 1 > lim_depth ALPHA then entry_error ''artifact export directory exceeds the depth limit''
      else (case body of
          ObsDir opened listing complete \<Rightarrow>
            rbind (sys_ok ''could not inspect opened export directory'' opened) (\<lambda>opened.
            rbind (verify_identity expected opened S_IFDIR) (\<lambda>_.
            rbind (canonical_directory c path (st_mode expected)) (\<lambda>c.
            rbind (writer_directory w (join_slash path) (mode_bits (st_mode expected))) (\<lambda>w.
            Ok ((w, c), listing, complete)))))
        | _ \<Rightarrow> entry_error ''could not open artifact export directory''))"

definition export_names :: "obs list \<Rightarrow> bool \<Rightarrow> obs list result" where
  "export_names listing complete =
     (if \<not> complete then entry_error ''could not read artifact directory'' else Ok (listed listing))"

lemma export_enter_listing:
  "export_enter_directory path depth expected body wc = Ok (wc', listing, complete) \<Longrightarrow>
     \<exists>opened. body = ObsDir opened listing complete"
  by (auto simp: export_enter_directory_def Let_def rbind_eq_Inr split: if_splits obs_body.splits prod.splits)

function export_walk ::
  "nat \<Rightarrow> string list \<Rightarrow> nat \<Rightarrow> obs list \<Rightarrow> bundle_writer \<times> canonical \<Rightarrow> (bundle_writer \<times> canonical) result" where
  "export_walk uid relative depth [] wc = Ok wc"
| "export_walk uid relative depth (ob # os) wc =
     (let path = relative @ [ob_name ob] in
      rbind (canonical_validate_path path) (\<lambda>_.
      rbind (sys_ok ''could not inspect artifact export entry'' (ob_stat ob)) (\<lambda>stat.
      rbind (verify_owner_with_uid stat uid) (\<lambda>_.
      rbind (if s_kind (st_mode stat) = S_IFDIR
             then rbind (export_enter_directory path depth stat (ob_body ob) wc) (\<lambda>(wc, listing, complete).
                  rbind (export_names listing complete) (\<lambda>names.
                  rbind (export_walk uid path (depth + 1) names wc) (\<lambda>wc.
                  rbind (sys_ok ''could not recheck export directory'' (ob_after ob)) (\<lambda>after.
                  rbind (verify_identity stat after S_IFDIR) (\<lambda>_. Ok wc)))))
             else if s_kind (st_mode stat) = S_IFREG
             then export_file path stat (ob_body ob) (ob_after ob) wc
             else if s_kind (st_mode stat) = S_IFLNK
             then export_symlink path stat (ob_body ob) (ob_after ob) wc
             else entry_error ''artifact contains an unsupported export entry'') (\<lambda>wc.
      export_walk uid relative depth os wc)))))"
  by pat_completeness auto
termination
  by (relation "measure (\<lambda>(uid, relative, depth, os, wc). weights os)")
    (auto simp: export_names_def split: if_splits dest!: export_enter_listing dest: weights_listed_dir)

declare export_walk.simps [simp del]

definition export_directory ::
  "nat \<Rightarrow> obs list \<Rightarrow> bool \<Rightarrow> bundle_writer \<times> canonical \<Rightarrow> (bundle_writer \<times> canonical) result" where
  "export_directory uid listing complete wc =
     rbind (export_names listing complete) (\<lambda>names. export_walk uid [] 0 names wc)"

subsection \<open>The exported bundle\<close>

definition export_header ::
  "artifact_manifest \<Rightarrow> artifact_id \<Rightarrow> nat \<Rightarrow> bundle_header result" where
  "export_header manifest export_id now =
     (case (case am_source_identity manifest of
              Some identity \<Rightarrow> Some identity
            | None \<Rightarrow> map_option ip_source_identity (am_imported_bundle manifest)) of
        None \<Rightarrow> Err CorruptState ''artifact has no exportable source provenance''
      | Some source_identity \<Rightarrow>
          Ok \<lparr>bh_schema_version = BUNDLE_VERSION, bh_export_id = export_id, bh_created_unix_ms = now,
              bh_source_kind = am_kind manifest, bh_source_artifact_id = am_artifact_id manifest,
              bh_source_name = am_name manifest, bh_source_identity = source_identity,
              bh_source_layout = am_source_layout manifest, bh_source_platform = am_source_platform manifest,
              bh_default_shell = am_default_shell manifest, bh_include_cache = am_include_cache manifest,
              bh_includes_sensitive_state = True, bh_content_integrity = am_content_integrity manifest,
              bh_authentication = BUNDLE_ALGORITHM\<rparr>)"

text \<open>The bytes that \<open>write_and_publish\<close> writes before it links the staged file into place.\<close>

definition write_export ::
  "bundle_env \<Rightarrow> (string \<Rightarrow> string) \<Rightarrow> string \<Rightarrow> artifact_manifest \<Rightarrow> artifact_id \<Rightarrow> nat \<Rightarrow> nat \<Rightarrow> home_obs \<Rightarrow>
     (string \<times> string) result" where
  "write_export env digest key manifest export_id now uid home =
     rbind (export_header manifest export_id now) (\<lambda>header.
     rbind (sys_ok ''could not retain artifact home for export'' (ho_root home)) (\<lambda>root.
     rbind (verify_owner_with_uid root uid) (\<lambda>_.
     rbind (begin_bundle env [] header) (\<lambda>w.
     rbind (export_directory uid (ho_listing home) (ho_complete home) (w, canonical_new (st_mode root))) (\<lambda>(w, c).
     if canonical_finish digest c \<noteq> am_content_integrity manifest
     then Err CorruptState ''artifact changed while its authenticated bundle was written''
     else Ok (finish_bundle env key w))))))"

subsection \<open>A successful export writes the listing it hashed\<close>

lemma canonical_note_entry_Ok_iff:
  "canonical_note_entry c = Ok c' \<longleftrightarrow> ac_entries (cn_counts c) < lim_entries ALPHA \<and>
     c' = c\<lparr>cn_counts := (cn_counts c)\<lparr>ac_entries := ac_entries (cn_counts c) + 1\<rparr>\<rparr>"
proof (cases "ac_entries (cn_counts c) < lim_entries ALPHA")
  case True
  then have "sat_add (ac_entries (cn_counts c)) 1 = ac_entries (cn_counts c) + 1"
    by (simp add: sat_add_exact u64_max_num)
  with True show ?thesis by (auto simp: canonical_note_entry_def Let_def)
next
  case False
  then have "\<not> sat_add (ac_entries (cn_counts c)) 1 \<le> lim_entries ALPHA"
    using sat_add_1_le_iff [of "lim_entries ALPHA" "ac_entries (cn_counts c)"] by (simp add: u64_max_num)
  with False show ?thesis by (simp add: canonical_note_entry_def Let_def)
qed

lemma canonical_add_bytes_Ok_iff:
  "canonical_add_bytes c n = Ok c' \<longleftrightarrow> ac_logical_bytes (cn_counts c) + n \<le> lim_logical_bytes ALPHA \<and>
     c' = c\<lparr>cn_counts := (cn_counts c)\<lparr>ac_logical_bytes := ac_logical_bytes (cn_counts c) + n\<rparr>\<rparr>"
  by (auto simp: canonical_add_bytes_def checked_add_def u64_max_num Let_def)

lemma canonical_update_simps [simp]:
  "cn_hasher (canonical_update c b) = cn_hasher c @ b" "cn_counts (canonical_update c b) = cn_counts c"
  by (simp_all add: canonical_update_def)

text \<open>The canonical hasher of the export, seen as the verifier that digests the same entries.\<close>

definition as_verifier :: "canonical \<Rightarrow> verifier" where
  "as_verifier c = \<lparr>vf_hasher = cn_hasher c, vf_counts = cn_counts c, vf_buffered_entries = 0\<rparr>"

definition exported :: "bundle_writer \<times> canonical \<Rightarrow> entry list \<Rightarrow> bundle_writer \<times> canonical \<Rightarrow> bool" where
  "exported wc es wc' \<longleftrightarrow> fst wc' = authenticated (fst wc) (encode_entries es) \<and>
     walked (as_verifier (snd wc)) es (as_verifier (snd wc'))"

lemma exported_Nil: "exported wc [] wc"
  by (simp add: exported_def walked_def)

lemma encode_entries_append: "encode_entries (es @ fs) = encode_entries es @ encode_entries fs"
  by (simp add: encode_entries_def)

lemma exported_append: "exported wc es wc1 \<Longrightarrow> exported wc1 fs wc2 \<Longrightarrow> exported wc (es @ fs) wc2"
  using walked_append by (auto simp: exported_def encode_entries_append)

lemma exported_entry:
  assumes "w' = authenticated w (encode_entry e)" "visited (as_verifier c) e (as_verifier c')" "safe_entry e"
  shows "exported (w, c) [e] (w', c')"
  using assms walked_visited by (simp add: exported_def encode_entries_def)

lemma copy_chunks_exact:
  assumes "copy_chunks n source w can = Ok ([], w', can')"
  shows "n = length source"
  using assms
proof (induction n source w can rule: copy_chunks.induct)
  case (1 n source w can)
  show ?case
  proof (cases "n = 0")
    case True
    with "1.prems" show ?thesis by (simp add: copy_chunks.simps)
  next
    case False
    let ?n = "min n BUFFER_BYTES"
    from False "1.prems" have l: "\<not> length source < ?n" and
      c: "copy_chunks (n - ?n) (drop ?n source) (authenticated w (take ?n source)) (can @ take ?n source) = Ok ([], w', can')"
      by (subst (asm) copy_chunks.simps; simp add: Let_def split: if_splits)+
    have "n - ?n = length source - ?n" using "1.IH" [OF False refl l c] by simp
    then show ?thesis using eq_diff_iff [OF min.cobounded1 leI [OF l]] by simp
  qed
qed

lemma writer_file_Ok:
  assumes "writer_file w p m source len can = Ok (w', can')" "length p \<le> 4096" "m \<le> 511"
  shows "len = length source" "w' = authenticated w (encode_entry (EFile p m source))" "can' = can @ source"
proof -
  have u32: "u32_from (length p) = Ok (length p)" using assms(2) by (simp add: u32_from_def u32_max_num)
  from assms(1) obtain w1 where
    c: "copy_chunks len source w1 can = Ok ([], w', can')" and
    w1: "w1 = authenticated w (TAG_FILE # be_bytes 4 (length p) @ p @ be_bytes 4 m @ be_bytes 8 len)"
    using assms(3) by (auto simp: writer_file_def writer_path_def rbind_eq_Inr u32 mode_bits_id split: if_splits)
  show len: "len = length source" using copy_chunks_exact [OF c] .
  from c copy_chunks_all [of source w1 can] have "w' = authenticated w1 source" "can' = can @ source"
    by (simp_all add: len)
  then show "w' = authenticated w (encode_entry (EFile p m source))" "can' = can @ source"
    by (simp_all add: w1 len encode_entry_def)
qed

lemma export_file_ok:
  assumes "export_file path expected body after (w, c) = Ok (w', c')" "list_all comp_ok path" "path \<noteq> []"
    "length path \<le> 65" "length (join_slash path) \<le> 4096"
  shows "\<exists>opened prepared blocks complete. body = ObsFile opened prepared blocks complete \<and>
    exported (w, c) [EFile (join_slash path) (mode_bits (st_mode expected)) (concat blocks)] (w', c')"
proof -
  from assms(1) obtain opened prepared blocks complete where body: "body = ObsFile opened prepared blocks complete"
    by (cases body) (auto simp: export_file_def Let_def rbind_eq_Inr split: if_splits)
  with assms(1) obtain c1 hasher where
    c1: "canonical_file_prefix c path (st_mode expected) (nat (st_size expected)) = Ok c1" and
    wf: "writer_file w (join_slash path) (mode_bits (st_mode expected)) (concat blocks) (nat (st_size expected)) (cn_hasher c1) =
      Ok (w', hasher)" and c': "c' = c1\<lparr>cn_hasher := hasher\<rparr>"
    by (auto simp: export_file_def Let_def rbind_eq_Inr split: if_splits)
  note w = writer_file_Ok [OF wf assms(5) mode_bits_le]
  have "visited (as_verifier c) (EFile (join_slash path) (mode_bits (st_mode expected)) (concat blocks)) (as_verifier c')"
    using c1 w(1,3) assms(5)
    by (auto simp: canonical_file_prefix_def rbind_eq_Inr canonical_note_entry_Ok_iff canonical_add_bytes_Ok_iff Let_def
        visited_def as_verifier_def c' canonical_hash_path_def simp del: length_concat split: if_splits)
  moreover have "safe_entry (EFile (join_slash path) (mode_bits (st_mode expected)) (concat blocks))"
    using assms(2-4) by (intro safe_entryI [of path]) auto
  ultimately show ?thesis using body exported_entry [OF w(2)] by blast
qed

lemma export_symlink_ok:
  assumes "export_symlink path expected body after (w, c) = Ok (w', c')" "list_all comp_ok path" "path \<noteq> []"
    "length path \<le> 65" "length (join_slash path) \<le> 4096" "\<And>t. body = ObsLink (SysOk t) \<Longrightarrow> t \<noteq> [] \<and> CHR 0x00 \<notin> set t"
  shows "\<exists>target. body = ObsLink (SysOk target) \<and> exported (w, c) [ELink (join_slash path) target] (w', c')"
proof -
  from assms(1) obtain target where
    body: "body = ObsLink (SysOk target)" and res: "resolve_relative_link_target (butlast path) target \<noteq> None" and
    c': "canonical_symlink c path target = Ok c'" and w': "writer_symlink w (join_slash path) target = Ok w'"
    by (auto simp: export_symlink_def Let_def rbind_eq_Inr sys_ok_iff split: if_splits obs_body.splits)
  have fit: "length target \<le> 4096" using c' by (auto simp: canonical_symlink_def split: if_splits)
  have "visited (as_verifier c) (ELink (join_slash path) target) (as_verifier c')"
    using c' assms(5) fit
    by (auto simp: canonical_symlink_def rbind_eq_Inr canonical_note_entry_Ok_iff canonical_add_bytes_Ok_iff Let_def
        visited_def as_verifier_def canonical_hash_path_def split: if_splits)
  moreover have "safe_entry (ELink (join_slash path) target)"
    using assms(2-4) resolved_link_stays_inside [OF assms(2,3) res] assms(6) [OF body]
    by (intro safe_entryI [of path]) auto
  moreover have "w' = authenticated w (encode_entry (ELink (join_slash path) target))"
    using w' write_entry_Ok [of "ELink (join_slash path) target" w] assms(5) fit by simp
  ultimately show ?thesis using body exported_entry by blast
qed

lemma export_enter_ok:
  assumes "export_enter_directory path depth expected body (w, c) = Ok ((w', c'), listing, complete)"
    "list_all comp_ok path" "path \<noteq> []" "length path = depth + 1" "length (join_slash path) \<le> 4096"
  shows "depth < 64 \<and> exported (w, c) [EDir (join_slash path) (mode_bits (st_mode expected))] (w', c')"
proof -
  from assms(1) have depth: "depth < 64" and
    c': "canonical_directory c path (st_mode expected) = Ok c'" and
    w': "writer_directory w (join_slash path) (mode_bits (st_mode expected)) = Ok w'"
    by (auto simp: export_enter_directory_def Let_def rbind_eq_Inr split: if_splits obs_body.splits)
  have "visited (as_verifier c) (EDir (join_slash path) (mode_bits (st_mode expected))) (as_verifier c')"
    using c' assms(5)
    by (auto simp: canonical_directory_def rbind_eq_Inr canonical_note_entry_Ok_iff Let_def
        visited_def as_verifier_def canonical_hash_path_def)
  moreover have "safe_entry (EDir (join_slash path) (mode_bits (st_mode expected)))"
    using assms(2-4) depth by (intro safe_entryI [of path]) auto
  moreover have "w' = authenticated w (encode_entry (EDir (join_slash path) (mode_bits (st_mode expected))))"
    using w' write_entry_Ok [of "EDir (join_slash path) (mode_bits (st_mode expected))" w] assms(5) by simp
  ultimately show ?thesis using depth exported_entry by blast
qed

lemma canonical_validate_path_ok:
  assumes "canonical_validate_path (relative @ [n]) = Ok u" "list_all comp_ok relative" "name_ok n" "\<not> dot_entry n"
  shows "list_all comp_ok (relative @ [n])" "length (join_slash (relative @ [n])) \<le> 4096"
  using assms by (auto simp: canonical_validate_path_def comp_ok_def clean_component_def name_ok_def dot_entry_def split: if_splits)

lemma export_walk_exported:
  assumes "export_walk uid relative depth os wc = Ok wc'" "names_wf os" "list_all comp_ok relative"
    "length relative = depth" "depth \<le> 64"
  shows "exported wc (entries_of relative os) wc'"
  using assms
proof (induction relative os arbitrary: depth wc wc' rule: entries_of_induct)
  case (Nil relative)
  then show ?case by (simp add: export_walk.simps exported_Nil)
next
  case (Cons relative ob os)
  let ?path = "relative @ [ob_name ob]"
  have ob: "name_ok (ob_name ob)" "\<not> dot_entry (ob_name ob)" "obs_wf ob" "names_wf os"
    using Cons.prems(2) obs_wf_name by (auto simp: names_wf_Cons)
  from Cons.prems(1) obtain u stat wc1 where
    path: "canonical_validate_path ?path = Ok u" and stat: "ob_stat ob = SysOk stat" and
    visit: "(if s_kind (st_mode stat) = S_IFDIR
             then rbind (export_enter_directory ?path depth stat (ob_body ob) wc) (\<lambda>(wc, listing, complete).
                  rbind (export_names listing complete) (\<lambda>names.
                  rbind (export_walk uid ?path (depth + 1) names wc) (\<lambda>wc.
                  rbind (sys_ok ''could not recheck export directory'' (ob_after ob)) (\<lambda>after.
                  rbind (verify_identity stat after S_IFDIR) (\<lambda>_. Ok wc)))))
             else if s_kind (st_mode stat) = S_IFREG
             then export_file ?path stat (ob_body ob) (ob_after ob) wc
             else if s_kind (st_mode stat) = S_IFLNK
             then export_symlink ?path stat (ob_body ob) (ob_after ob) wc
             else entry_error ''artifact contains an unsupported export entry'') = Ok wc1" and
    rest: "export_walk uid relative depth os wc1 = Ok wc'"
    unfolding export_walk.simps(2) Let_def rbind_eq_Inr sys_ok_iff by blast
  note p = canonical_validate_path_ok [OF path Cons.prems(3) ob(1,2)]
  have pne: "?path \<noteq> []" "length ?path = depth + 1" "length ?path \<le> 65" using Cons.prems(4,5) by auto
  obtain w c w1 c1 where wc: "wc = (w, c)" "wc1 = (w1, c1)" by (metis surj_pair)
  have "exported wc (block_of relative ob) wc1"
  proof -
    consider (dir) "s_kind (st_mode stat) = S_IFDIR" | (reg) "export_file ?path stat (ob_body ob) (ob_after ob) wc = Ok wc1"
      | (lnk) "export_symlink ?path stat (ob_body ob) (ob_after ob) wc = Ok wc1"
      using visit by (auto split: if_splits)
    then show ?thesis
    proof cases
      case dir
      with visit obtain w2 c2 listing complete where
        e: "export_enter_directory ?path depth stat (ob_body ob) wc = Ok ((w2, c2), listing, complete)" and
        w: "export_walk uid ?path (depth + 1) (listed listing) (w2, c2) = Ok wc1"
        by (auto simp: rbind_eq_Inr export_names_def split: if_splits)
      obtain opened where body: "ob_body ob = ObsDir opened listing complete"
        using export_enter_listing [OF e] by blast
      have en: "depth < 64 \<and> exported wc [EDir (join_slash ?path) (mode_bits (st_mode stat))] (w2, c2)"
        using export_enter_ok [OF e [unfolded wc(1)] p(1) pne(1,2) p(2)] wc(1) by simp
      moreover have "exported (w2, c2) (entries_of ?path (listed listing)) wc1"
        using Cons.IH(1) [OF body w] names_wf_dir [OF Cons.prems(2) body] p(1) pne(2) en by simp
      ultimately have "exported wc ([EDir (join_slash ?path) (mode_bits (st_mode stat))] @ entries_of ?path (listed listing)) wc1"
        using exported_append by blast
      then show ?thesis using body stat by (simp add: block_of_def entries_of.simps Let_def)
    next
      case reg
      from export_file_ok [OF reg [unfolded wc] p(1) pne(1,3) p(2)] obtain opened prepared blocks complete where
        "ob_body ob = ObsFile opened prepared blocks complete"
        "exported wc [EFile (join_slash ?path) (mode_bits (st_mode stat)) (concat blocks)] wc1"
        unfolding wc by blast
      then show ?thesis using stat by (simp add: block_of_def entries_of.simps Let_def)
    next
      case lnk
      from export_symlink_ok [OF lnk [unfolded wc] p(1) pne(1,3) p(2) obs_wf_link [OF ob(3)]] obtain target where
        "ob_body ob = ObsLink (SysOk target)" "exported wc [ELink (join_slash ?path) target] wc1"
        unfolding wc by blast
      then show ?thesis using stat by (simp add: block_of_def entries_of.simps Let_def)
    qed
  qed
  moreover have "exported wc1 (entries_of relative os) wc'"
    using Cons.IH(2) [OF rest ob(4) Cons.prems(3-5)] .
  ultimately show ?case by (simp add: entries_of_Cons exported_append)
qed

subsection \<open>From an artifact over the exported bytes to an accepted import\<close>

lemma canonical_algorithm: "''blake3-256:quarters-canonical-v1'' = INTEGRITY_ALGORITHM"
  by (simp add: INTEGRITY_ALGORITHM_def)

lemma export_header_valid:
  assumes "validate_artifact_manifest manifest k = Ok ()" "export_header manifest export_id now = Ok header" "now > 0"
  shows "validate_header header (ci_counts (am_content_integrity manifest)) = Ok ()"
proof -
  obtain identity where h: "header = \<lparr>bh_schema_version = BUNDLE_VERSION, bh_export_id = export_id, bh_created_unix_ms = now,
              bh_source_kind = am_kind manifest, bh_source_artifact_id = am_artifact_id manifest,
              bh_source_name = am_name manifest, bh_source_identity = identity,
              bh_source_layout = am_source_layout manifest, bh_source_platform = am_source_platform manifest,
              bh_default_shell = am_default_shell manifest, bh_include_cache = am_include_cache manifest,
              bh_includes_sensitive_state = True, bh_content_integrity = am_content_integrity manifest,
              bh_authentication = BUNDLE_ALGORITHM\<rparr>" and
    i: "am_source_identity manifest = Some identity \<or>
      (am_source_identity manifest = None \<and> map_option ip_source_identity (am_imported_bundle manifest) = Some identity)"
    using assms(2) by (auto simp: export_header_def split: option.splits)
  have "valid_source_identity identity (am_source_layout manifest)"
    using assms(1) i by (auto simp: validate_artifact_manifest_ok validate_source_binding_ok validate_imported_provenance_ok)
  then show ?thesis
    using assms(1,3) by (simp add: validate_header_def h validate_artifact_manifest_ok)
qed

lemma write_export_Ok:
  assumes "write_export env digest key manifest export_id now uid home = Ok (bytes, tag)" "home_wf home"
  shows "\<exists>header hb root. export_header manifest export_id now = Ok header \<and> be_to_vec env header = Some hb \<and>
    length hb \<le> HEADER_LIMIT \<and> ho_root home = SysOk root \<and>
    list_all entry_fits (home_entries home) \<and> canonical_listing (home_entries home) \<and>
    bytes = bundle_prefix hb (home_entries home) @ tag \<and> tag = bundle_tag env key (bundle_prefix hb (home_entries home)) \<and>
    am_content_integrity manifest =
      \<lparr>ci_algorithm = INTEGRITY_ALGORITHM,
       ci_digest = digest (canonical_stream (mode_bits (st_mode root)) (home_entries home)),
       ci_counts = counts_of (home_entries home)\<rparr>"
proof -
  let ?es = "home_entries home"
  from assms(1) obtain header root w w' c where
    h: "export_header manifest export_id now = Ok header" and root: "ho_root home = SysOk root" and
    w: "begin_bundle env [] header = Ok w" and
    walk: "export_walk uid [] 0 (listed (ho_listing home)) (w, canonical_new (st_mode root)) = Ok (w', c)" and
    ci: "canonical_finish digest c = am_content_integrity manifest" and
    fin: "finish_bundle env key w' = (bytes, tag)"
    by (auto simp: write_export_def export_directory_def export_names_def rbind_eq_Inr sys_ok_iff split: if_splits)
  obtain hb where hb: "be_to_vec env header = Some hb" "length hb \<le> HEADER_LIMIT" and
    w_eq: "w = authenticated \<lparr>bw_file = [], bw_mac = []\<rparr> (MAGIC @ be_bytes 4 (length hb) @ hb)"
    using w by (auto simp: begin_bundle_def rbind_eq_Inr u32_from_ok Let_def split: option.splits if_splits)
  have wf: "names_wf (listed (ho_listing home))" using assms(2) by (auto simp: home_wf_def intro: names_wf_listed)
  have "exported (w, canonical_new (st_mode root)) ?es (w', c)"
    using export_walk_exported [OF walk wf] by (simp add: home_entries_def)
  then have w': "w' = authenticated w (encode_entries ?es)" and
    wk: "walked (as_verifier (canonical_new (st_mode root))) ?es (as_verifier c)"
    by (simp_all add: exported_def)
  have "vf_counts (as_verifier (canonical_new (st_mode root))) = counts_of []"
    by (simp add: as_verifier_def canonical_new_def counts_of_Nil)
  then have counts: "vf_counts (as_verifier c) = counts_of ([] @ ?es)" "counts_in_limits (counts_of ([] @ ?es))"
    using wk counts_default_in_limits unfolding walked_def by blast+
  have fits: "list_all entry_fits ?es" "list_all safe_entry ?es" and
    hash: "cn_hasher c = cn_hasher (canonical_new (st_mode root)) @ concat (map canon_entry ?es)"
    using wk by (simp_all add: walked_def as_verifier_def)
  have "am_content_integrity manifest = \<lparr>ci_algorithm = INTEGRITY_ALGORITHM,
      ci_digest = digest (canonical_stream (mode_bits (st_mode root)) ?es), ci_counts = counts_of ?es\<rparr>"
    using ci counts(1) hash
    by (simp add: canonical_finish_def Let_def canonical_algorithm as_verifier_def canonical_new_def canonical_stream_def
        terminal_bytes_def)
  moreover have "bytes = bundle_prefix hb ?es @ tag" "tag = bundle_tag env key (bundle_prefix hb ?es)"
    using fin by (auto simp: finish_bundle_def Let_def w' w_eq bundle_tag_def bundle_prefix_def authenticated_def)
  moreover have "canonical_listing ?es"
    using home_entries_canonical [OF assms(2) fits(2)] counts(2) by simp
  ultimately show ?thesis using h hb root fits(1) by blast
qed

text \<open>
  C8: an exported bundle can be imported and carries exactly the artifact. If the export of a
  valid artifact succeeds then the authentication pass of an import accepts the written bytes
  under the same key; the header it returns records the artifact's own integrity, and the entries
  of the bundle are the listing of the home whose canonical digest that integrity is. Needed of
  the codec and the hash are that encoded headers decode to themselves and that tags have 32
  bytes.
\<close>

theorem exported_bundles_are_importable:
  assumes "write_export env digest key manifest export_id now uid home = Ok (bytes, tag)"
    and "validate_artifact_manifest manifest k = Ok ()" "home_wf home" "now > 0"
    and "\<And>h hb. be_to_vec env h = Some hb \<Longrightarrow> be_from_slice env hb = Some h"
    and "\<And>b. length (bundle_tag env key b) = 32"
  shows "\<exists>header hb root. parse_bundle env key noop_sink () bytes = Ok (header, tag, ()) \<and>
    bh_content_integrity header = am_content_integrity manifest \<and> ho_root home = SysOk root \<and>
    bytes = bundle_prefix hb (home_entries home) @ tag \<and>
    ci_digest (am_content_integrity manifest) =
      digest (canonical_stream (mode_bits (st_mode root)) (home_entries home))"
proof -
  from write_export_Ok [OF assms(1,3)] obtain header hb root where
    h: "export_header manifest export_id now = Ok header" and hb: "be_to_vec env header = Some hb" "length hb \<le> HEADER_LIMIT"
    and root: "ho_root home = SysOk root" and
    es: "list_all entry_fits (home_entries home)" "canonical_listing (home_entries home)" and
    bytes: "bytes = bundle_prefix hb (home_entries home) @ tag" "tag = bundle_tag env key (bundle_prefix hb (home_entries home))" and
    ci: "am_content_integrity manifest =
      \<lparr>ci_algorithm = INTEGRITY_ALGORITHM,
       ci_digest = digest (canonical_stream (mode_bits (st_mode root)) (home_entries home)),
       ci_counts = counts_of (home_entries home)\<rparr>"
    by blast
  have "validate_header header (counts_of (home_entries home)) = Ok ()"
    using export_header_valid [OF assms(2) h assms(4)] ci by simp
  then have "accepted env key noop_sink () hb (home_entries home) header ()"
    using hb es assms(5,6) by (simp add: accepted_iff)
  then have "parse_bundle env key noop_sink () bytes = Ok (header, tag, ())"
    unfolding parse_bundle_Ok_iff using bytes by blast
  moreover have "bh_content_integrity header = am_content_integrity manifest"
    using h by (auto simp: export_header_def split: option.splits)
  ultimately show ?thesis using root bytes(1) ci by auto
qed

definition sample_manifest :: artifact_manifest where
  "sample_manifest =
     \<lparr>am_schema_version = 1, am_artifact_id = ArtifactId (replicate 32 (CHR ''b'')), am_kind = Snapshot,
      am_name = ArtifactName ''base'', am_created_unix_ms = 1,
      am_source_identity = Some \<lparr>si_schema_version = PROFILE_SCHEMA_VERSION, si_name = SpaceName ''dev'',
        si_created_unix_ms = 5, si_space_id = None\<rparr>,
      am_source_layout = Profile, am_source_platform = ''linux'', am_default_shell = ''/bin/sh'',
      am_include_cache = False, am_includes_sensitive_state = True, am_origin = OriginUser,
      am_imported_bundle = None, am_source_quiescence = None,
      am_content_integrity = \<lparr>ci_algorithm = INTEGRITY_ALGORITHM, ci_digest = replicate 64 (CHR ''0''),
        ci_counts = \<lparr>ac_directories = 0, ac_files = 1, ac_symlinks = 1, ac_entries = 2, ac_logical_bytes = 3\<rparr>\<rparr>\<rparr>"

definition sample_export_header :: bundle_header where
  "sample_export_header =
     (case export_header sample_manifest (ArtifactId (replicate 32 (CHR ''c''))) 9 of Inr h \<Rightarrow> h | Inl _ \<Rightarrow> sample_header)"

definition export_env :: bundle_env where
  "export_env =
     \<lparr>be_derive_key = (\<lambda>domain key. key), be_keyed_hash = (\<lambda>key bytes. replicate 32 (CHR ''t'')),
      be_to_vec = (\<lambda>h. if h = sample_export_header then Some ''{}'' else None),
      be_from_slice = (\<lambda>b. if b = ''{}'' then Some sample_export_header else None)\<rparr>"

lemma sample_manifest_valid: "validate_artifact_manifest sample_manifest Snapshot = Ok ()"
  by (simp add: validate_artifact_manifest_ok sample_manifest_def validate_source_binding_ok validate_imported_provenance_ok
      validate_source_quiescence_ok validate_content_integrity_ok validate_counts_ok known_platform_def
      valid_source_identity_def valid_digest_def ascii_defs list_all_iff u64_max_num)

lemma sample_export_header_ok:
  "export_header sample_manifest (ArtifactId (replicate 32 (CHR ''c''))) 9 = Ok sample_export_header"
  by (simp add: sample_export_header_def export_header_def sample_manifest_def)

lemma copy_chunks_short: "copy_chunks 2 ''hi'' w can = Ok ([], authenticated w ''hi'', can @ ''hi'')"
  using copy_chunks_all [of "''hi''" w can] by (simp add: numeral_2_eq_2)

lemma sample_export:
  "\<exists>bytes tag. write_export export_env (\<lambda>s. replicate 64 (CHR ''0'')) ''key'' sample_manifest
     (ArtifactId (replicate 32 (CHR ''c''))) 9 1000 sample_home = Ok (bytes, tag)"
proof -
  have "\<exists>w. begin_bundle export_env [] sample_export_header = Ok w"
    by (simp add: begin_bundle_def export_env_def HEADER_LIMIT_def u32_from_def u32_max_num Let_def)
  then obtain w where w: "begin_bundle export_env [] sample_export_header = Ok w" by blast
  have "\<exists>w' c. export_directory 1000 (ho_listing sample_home) (ho_complete sample_home) (w, canonical_new (st_mode (sample_stat 1 16832 0))) =
      Ok (w', c) \<and> cn_counts c = ci_counts (am_content_integrity sample_manifest)"
    by (simp add: export_directory_def export_names_def sample_home_def sample_stat_def listed_def dot_entry_def
        export_walk.simps canonical_validate_path_def sys_ok_def verify_owner_with_uid_def export_symlink_def export_file_def
        verify_identity_def same_entry_def same_timestamps_def resolve_relative_link_target_def path_components_def
        body_component_def canonical_symlink_def canonical_file_prefix_def canonical_note_entry_def canonical_add_bytes_def
        canonical_new_def counts_default_def sat_add_def checked_add_def u64_max_num writer_symlink_def writer_file_def
        writer_path_def u32_from_def u32_max_num copy_chunks_short canonical_update_def canonical_hash_path_def
        sample_manifest_def Let_def)
  then obtain w' c where
    d: "export_directory 1000 (ho_listing sample_home) (ho_complete sample_home) (w, canonical_new (st_mode (sample_stat 1 16832 0))) =
      Ok (w', c)" "cn_counts c = ci_counts (am_content_integrity sample_manifest)" by blast
  have "canonical_finish (\<lambda>s. replicate 64 (CHR ''0'')) c = am_content_integrity sample_manifest"
    using d(2) by (simp add: canonical_finish_def Let_def canonical_algorithm) (simp add: sample_manifest_def)
  moreover have "ho_root sample_home = SysOk (sample_stat 1 16832 0)" "st_uid (sample_stat 1 16832 0) = 1000"
    by (simp_all add: sample_home_def sample_stat_def)
  ultimately have "write_export export_env (\<lambda>s. replicate 64 (CHR ''0'')) ''key'' sample_manifest
     (ArtifactId (replicate 32 (CHR ''c''))) 9 1000 sample_home = Ok (finish_bundle export_env ''key'' w')"
    using d(1) by (simp add: write_export_def sample_export_header_ok sys_ok_def verify_owner_with_uid_def w)
  then show ?thesis by (metis surj_pair)
qed

theorem exported_bundles_are_importable_witness:
  "\<exists>bytes tag header. write_export export_env (\<lambda>s. replicate 64 (CHR ''0'')) ''key'' sample_manifest
     (ArtifactId (replicate 32 (CHR ''c''))) 9 1000 sample_home = Ok (bytes, tag) \<and>
     parse_bundle export_env ''key'' noop_sink () bytes = Ok (header, tag, ())"
proof -
  obtain bytes tag where e: "write_export export_env (\<lambda>s. replicate 64 (CHR ''0'')) ''key'' sample_manifest
     (ArtifactId (replicate 32 (CHR ''c''))) 9 1000 sample_home = Ok (bytes, tag)" using sample_export by blast
  have rt: "be_from_slice export_env hb = Some h" if "be_to_vec export_env h = Some hb" for h hb
    using that by (auto simp: export_env_def split: if_splits)
  have len: "length (bundle_tag export_env ''key'' b) = 32" for b
    by (simp add: bundle_tag_def export_env_def)
  have "(0::nat) < 9" by simp
  from exported_bundles_are_importable [OF e sample_manifest_valid sample_home_wf this rt len] e show ?thesis by blast
qed

end
