(* ===== verification/Mcp_Admission.thy ===== *)
theory Mcp_Admission
  imports Quarters_Prelude "HOL-Library.Multiset"
begin

text \<open>
  Bounded request admission and protocol-family isolation of the MCP server
  (\<open>quarters-mcp/src/lifecycle.rs\<close>). Every operation runs under one mutex, so a session is a
  sequence of atomic steps up to the close of the admission when the transport is dropped, and of
  the steps of handlers and responses that outlive it; a live \<open>RequestGuard\<close> is an element of the
  multiset of running handlers, and the notifications sent to waiters are counted.

  \<open>rmcp\<close> supplies the request types and drives the handlers. Of its requests the model keeps
  the methods the family check distinguishes; its documented behaviour used here is that a
  response is written after the handler of the request has returned.
\<close>

subsection \<open>Data\<close>

datatype request_id = Number int | StringId string

datatype request_phase = Reserved | Running | HandlerDone | ResponseStarted

record request_state =
  rs_phase :: request_phase
  rs_transport_owned :: bool
  rs_cancelled :: bool

definition request_state_default :: request_state where
  "request_state_default = \<lparr>rs_phase = Reserved, rs_transport_owned = True, rs_cancelled = False\<rparr>"

record admission_state =
  as_requests :: "request_id \<Rightarrow> request_state option"
  as_seen :: "request_id set"
  as_legacy :: bool
  as_notified :: nat

definition admission_new :: admission_state where
  "admission_new = \<lparr>as_requests = Map.empty, as_seen = {}, as_legacy = False, as_notified = 0\<rparr>"

definition MAX_IN_FLIGHT_REQUESTS :: nat where "MAX_IN_FLIGHT_REQUESTS = 32"
definition MAX_SESSION_REQUEST_IDS :: nat where "MAX_SESSION_REQUEST_IDS = 8192"
definition MAX_REQUEST_ID_BYTES :: nat where "MAX_REQUEST_ID_BYTES = 128"

datatype admission_failure = Duplicate | CancelledInFlight | Capacity | SessionLimit | IdTooLong

datatype protocol_version = V_2025_11_25 | V_2026_07_28 | OtherVersion string

datatype error_data =
    ErrorData (error_code: int) (error_message: string)
  | UnsupportedProtocolVersion protocol_version "protocol_version list"

text \<open>The JSON-RPC codes of \<open>invalid_request\<close> and \<open>METHOD_NOT_FOUND\<close>.\<close>

definition invalid_request :: "string \<Rightarrow> error_data" where "invalid_request m = ErrorData (-32600) m"

definition request_capacity_error :: error_data where
  "request_capacity_error = ErrorData (-30001) ''MCP request capacity reached''"

definition duplicate_request_error :: error_data where
  "duplicate_request_error = invalid_request ''JSON-RPC request id was already used in this session''"

definition request_id_limit_error :: error_data where
  "request_id_limit_error = ErrorData (-30003) ''MCP session request-id capacity reached''"

definition request_id_length_error :: error_data where
  "request_id_length_error = invalid_request ''String request ids may contain at most 128 UTF-8 bytes''"

fun admission_failure_error :: "admission_failure \<Rightarrow> error_data" where
  "admission_failure_error Duplicate = duplicate_request_error"
| "admission_failure_error CancelledInFlight = invalid_request
     ''JSON-RPC request id still belongs to a cancelled operation that has not finished; retry with a new id''"
| "admission_failure_error Capacity = request_capacity_error"
| "admission_failure_error SessionLimit = request_id_limit_error"
| "admission_failure_error IdTooLong = request_id_length_error"

fun validate_request_id :: "request_id \<Rightarrow> bool" where
  "validate_request_id (StringId v) \<longleftrightarrow> length v \<le> MAX_REQUEST_ID_BYTES"
| "validate_request_id (Number n) \<longleftrightarrow> True"

subsection \<open>Admission operations\<close>

definition in_flight :: "admission_state \<Rightarrow> nat" where
  "in_flight s = card (dom (as_requests s))"

definition reserve :: "admission_state \<Rightarrow> request_id \<Rightarrow> admission_state \<times> admission_failure option" where
  "reserve s rid =
     (if \<not> validate_request_id rid then (s, Some IdTooLong)
      else if as_legacy s \<and> rid \<in> as_seen s then (s, Some Duplicate)
      else case as_requests s rid of
          Some existing \<Rightarrow> (s, Some (if rs_cancelled existing then CancelledInFlight else Duplicate))
        | None \<Rightarrow>
            if as_legacy s \<and> card (as_seen s) \<ge> MAX_SESSION_REQUEST_IDS then (s, Some SessionLimit)
            else let s = (if as_legacy s then s\<lparr>as_seen := insert rid (as_seen s)\<rparr> else s) in
              if in_flight s \<ge> MAX_IN_FLIGHT_REQUESTS then (s, Some Capacity)
              else (s\<lparr>as_requests := (as_requests s)(rid \<mapsto> request_state_default)\<rparr>, None))"

definition claim :: "admission_state \<Rightarrow> request_id \<Rightarrow> admission_state \<times> error_data option" where
  "claim s rid =
     (case as_requests s rid of
        Some request \<Rightarrow>
          if rs_phase request \<noteq> Reserved then (s, Some duplicate_request_error)
          else (s\<lparr>as_requests := (as_requests s)(rid \<mapsto> request\<lparr>rs_phase := Running\<rparr>)\<rparr>, None)
      | None \<Rightarrow>
          if \<not> validate_request_id rid then (s, Some request_id_length_error)
          else if as_legacy s \<and> rid \<in> as_seen s then (s, Some duplicate_request_error)
          else if as_legacy s \<and> card (as_seen s) \<ge> MAX_SESSION_REQUEST_IDS then (s, Some request_id_limit_error)
          else let s = (if as_legacy s then s\<lparr>as_seen := insert rid (as_seen s)\<rparr> else s) in
            if in_flight s \<ge> MAX_IN_FLIGHT_REQUESTS then (s, Some request_capacity_error)
            else (s\<lparr>as_requests := (as_requests s)
                    (rid \<mapsto> \<lparr>rs_phase = Running, rs_transport_owned = False, rs_cancelled = False\<rparr>)\<rparr>, None))"

definition start_response :: "admission_state \<Rightarrow> request_id \<Rightarrow> admission_state" where
  "start_response s rid =
     (case as_requests s rid of
        None \<Rightarrow> s
      | Some request \<Rightarrow> s\<lparr>as_requests := (as_requests s)(rid \<mapsto> request\<lparr>rs_phase := ResponseStarted\<rparr>)\<rparr>)"

definition notify_waiters :: "admission_state \<Rightarrow> admission_state" where
  "notify_waiters s = s\<lparr>as_notified := as_notified s + 1\<rparr>"

definition remove_request :: "admission_state \<Rightarrow> request_id \<Rightarrow> admission_state" where
  "remove_request s rid = s\<lparr>as_requests := (as_requests s)(rid := None)\<rparr>"

definition finish_response :: "admission_state \<Rightarrow> request_id \<Rightarrow> admission_state" where
  "finish_response s rid = notify_waiters (remove_request s rid)"

definition close_admission :: "admission_state \<Rightarrow> admission_state" where
  "close_admission s =
     notify_waiters (s\<lparr>as_requests := Map.empty, as_seen := {}, as_legacy := False\<rparr>)"

definition cancel :: "admission_state \<Rightarrow> request_id \<Rightarrow> admission_state" where
  "cancel s rid =
     (case as_requests s rid of
        None \<Rightarrow> s
      | Some request \<Rightarrow>
          let s = s\<lparr>as_requests := (as_requests s)(rid \<mapsto> request\<lparr>rs_cancelled := True\<rparr>)\<rparr> in
          if rs_phase request = Reserved \<or> rs_phase request = HandlerDone
          then notify_waiters (remove_request s rid)
          else s)"

definition enter_legacy :: "admission_state \<Rightarrow> admission_state" where
  "enter_legacy s = s\<lparr>as_legacy := True, as_seen := as_seen s \<union> dom (as_requests s)\<rparr>"

definition finish_handler :: "admission_state \<Rightarrow> request_id \<Rightarrow> admission_state" where
  "finish_handler s rid =
     (case as_requests s rid of
        None \<Rightarrow> s
      | Some request \<Rightarrow>
          let response_started = (rs_phase request = ResponseStarted);
              request = (if \<not> response_started then request\<lparr>rs_phase := HandlerDone\<rparr> else request);
              s = s\<lparr>as_requests := (as_requests s)(rid \<mapsto> request)\<rparr>
          in if \<not> rs_transport_owned request \<or> rs_cancelled request \<and> \<not> response_started
             then notify_waiters (remove_request s rid)
             else s)"

lemmas admission_ops = reserve_def claim_def start_response_def finish_response_def close_admission_def
  cancel_def enter_legacy_def finish_handler_def notify_waiters_def remove_request_def

subsection \<open>Protocol families\<close>

datatype family_state = Unopened | Modern | Legacy

datatype client_request =
    InitializeRequest | PingRequest | SubscribeRequest | UnsubscribeRequest
  | DiscoverRequest | SubscriptionsListenRequest | GetTaskRequest | UpdateTaskRequest | CancelTaskRequest
  | OtherRequest string

definition expected_version :: "family_state \<Rightarrow> bool \<Rightarrow> protocol_version" where
  "expected_version state opening_legacy =
     (case state of
        Unopened \<Rightarrow> if opening_legacy then V_2025_11_25 else V_2026_07_28
      | Legacy \<Rightarrow> V_2025_11_25
      | Modern \<Rightarrow> V_2026_07_28)"

definition method_not_found :: "protocol_version \<Rightarrow> error_data" where
  "method_not_found expected =
     ErrorData (-32601) ''request method belongs to a different MCP lifecycle family''"

definition validate_family_method ::
  "client_request \<Rightarrow> family_state \<Rightarrow> protocol_version \<Rightarrow> error_data option" where
  "validate_family_method request state expected =
     (if state \<noteq> Unopened \<and> request = InitializeRequest then Some (method_not_found expected)
      else let cross_family =
             (if expected = V_2025_11_25
              then request \<in> {DiscoverRequest, SubscriptionsListenRequest, GetTaskRequest, UpdateTaskRequest, CancelTaskRequest}
              else request \<in> {PingRequest, SubscribeRequest, UnsubscribeRequest})
        in if cross_family then Some (method_not_found expected) else None)"

definition family_validate ::
  "family_state \<Rightarrow> admission_state \<Rightarrow> client_request \<Rightarrow> protocol_version option \<Rightarrow>
     (family_state \<times> admission_state) \<times> error_data option" where
  "family_validate state admission request meta_version =
     (let opening_legacy = (request = InitializeRequest);
          expected = expected_version state opening_legacy in
      case validate_family_method request state expected of
        Some e \<Rightarrow> ((state, admission), Some e)
      | None \<Rightarrow>
          (case meta_version of
             Some requested \<Rightarrow>
               if requested \<noteq> expected
               then ((state, admission), Some (UnsupportedProtocolVersion requested [expected]))
               else if opening_legacy then ((Legacy, enter_legacy admission), None)
               else if state = Unopened then ((Modern, admission), None)
               else ((state, admission), None)
           | None \<Rightarrow>
               if opening_legacy then ((Legacy, enter_legacy admission), None)
               else if state = Unopened then ((Modern, admission), None)
               else ((state, admission), None)))"

subsection \<open>A connection as a state machine\<close>

record connection =
  cn_family :: family_state
  cn_admission :: admission_state
  cn_guards :: "request_id multiset"

definition connection_new :: connection where
  "connection_new = \<lparr>cn_family = Unopened, cn_admission = admission_new, cn_guards = {#}\<rparr>"

text \<open>
  The start of \<open>handle_request\<close>: the family check, then the claim whose guard lives as long as
  the handler runs. The two take the locks one after the other, so other steps may run between.
\<close>

definition validate_request ::
  "connection \<Rightarrow> client_request \<Rightarrow> protocol_version option \<Rightarrow> connection \<times> error_data option" where
  "validate_request c request meta_version =
     (case family_validate (cn_family c) (cn_admission c) request meta_version of
        ((family, admission), e) \<Rightarrow> (c\<lparr>cn_family := family, cn_admission := admission\<rparr>, e))"

definition claim_request :: "connection \<Rightarrow> request_id \<Rightarrow> connection \<times> error_data option" where
  "claim_request c rid =
     (case claim (cn_admission c) rid of
        (admission, Some e) \<Rightarrow> (c\<lparr>cn_admission := admission\<rparr>, Some e)
      | (admission, None) \<Rightarrow> (c\<lparr>cn_admission := admission, cn_guards := add_mset rid (cn_guards c)\<rparr>, None))"

definition handle_request ::
  "connection \<Rightarrow> client_request \<Rightarrow> protocol_version option \<Rightarrow> request_id \<Rightarrow> connection \<times> error_data option" where
  "handle_request c request meta_version rid =
     (case validate_request c request meta_version of
        (c, Some e) \<Rightarrow> (c, Some e)
      | (c, None) \<Rightarrow> claim_request c rid)"

text \<open>Dropping the guard of a handler that has returned.\<close>

definition drop_guard :: "connection \<Rightarrow> request_id \<Rightarrow> connection" where
  "drop_guard c rid =
     c\<lparr>cn_admission := finish_handler (cn_admission c) rid, cn_guards := cn_guards c - {#rid#}\<rparr>"

inductive conn_step :: "connection \<Rightarrow> connection \<Rightarrow> bool" where
  step_reserve: "conn_step c (c\<lparr>cn_admission := fst (reserve (cn_admission c) rid)\<rparr>)"
| step_validate: "conn_step c (fst (validate_request c request meta_version))"
| step_claim: "conn_step c (fst (claim_request c rid))"
| step_drop_guard: "rid \<in># cn_guards c \<Longrightarrow> conn_step c (drop_guard c rid)"
| step_start_response: "conn_step c (c\<lparr>cn_admission := start_response (cn_admission c) rid\<rparr>)"
| step_finish_response: "rid \<notin># cn_guards c \<Longrightarrow>
    conn_step c (c\<lparr>cn_admission := finish_response (cn_admission c) rid\<rparr>)"
| step_cancel: "conn_step c (c\<lparr>cn_admission := cancel (cn_admission c) rid\<rparr>)"

inductive reachable :: "connection \<Rightarrow> bool" where
  reachable_new: "reachable connection_new"
| reachable_step: "reachable c \<Longrightarrow> conn_step c c' \<Longrightarrow> reachable c'"

inductive_cases conn_stepE: "conn_step c c'"

text \<open>
  The connection ends when the transport is dropped (\<open>transport.rs\<close>), which closes the admission
  under handlers that may still be running. Reservations, cancellations and the start of a response
  need the transport, so what is left are the handlers that were spawned before, which may still
  check their family, claim and return, and responses that were being written.
\<close>

definition close_connection :: "connection \<Rightarrow> connection" where
  "close_connection c = c\<lparr>cn_admission := close_admission (cn_admission c)\<rparr>"

inductive late_step :: "connection \<Rightarrow> connection \<Rightarrow> bool" where
  late_validate: "late_step c (fst (validate_request c request meta_version))"
| late_claim: "late_step c (fst (claim_request c rid))"
| late_drop_guard: "rid \<in># cn_guards c \<Longrightarrow> late_step c (drop_guard c rid)"
| late_finish_response: "rid \<notin># cn_guards c \<Longrightarrow>
    late_step c (c\<lparr>cn_admission := finish_response (cn_admission c) rid\<rparr>)"

subsection \<open>Invariants\<close>

text \<open>
  In-flight requests are bounded; in a legacy session every in-flight id is recorded as seen and
  the record is bounded; every live guard belongs to one in-flight request that is running or
  being answered, and to no other guard.
\<close>

definition admission_ok :: "admission_state \<Rightarrow> bool" where
  "admission_ok s \<longleftrightarrow>
     finite (dom (as_requests s)) \<and> in_flight s \<le> MAX_IN_FLIGHT_REQUESTS \<and>
     finite (as_seen s) \<and> card (as_seen s) \<le> MAX_SESSION_REQUEST_IDS \<and>
     (if as_legacy s then \<forall>rid. as_requests s rid \<noteq> None \<longrightarrow> rid \<in> as_seen s else as_seen s = {})"

definition guard_ok :: "connection \<Rightarrow> bool" where
  "guard_ok c \<longleftrightarrow>
     (\<forall>rid. count (cn_guards c) rid \<le> 1) \<and>
     (\<forall>rid. rid \<in># cn_guards c \<longrightarrow>
        (\<exists>r. as_requests (cn_admission c) rid = Some r \<and> rs_phase r \<in> {Running, ResponseStarted}))"

definition conn_ok :: "connection \<Rightarrow> bool" where
  "conn_ok c \<longleftrightarrow> admission_ok (cn_admission c) \<and> guard_ok c \<and>
     (as_legacy (cn_admission c) \<longleftrightarrow> cn_family c = Legacy)"

lemma dom_update_same: "m k = Some v \<Longrightarrow> dom (m(k \<mapsto> w)) = dom m"
  by auto

lemma reserve_ok:
  assumes "admission_ok s"
  shows "admission_ok (fst (reserve s rid))"
proof -
  have "finite (dom (as_requests s))" "finite (as_seen s)" using assms by (auto simp: admission_ok_def)
  with assms show ?thesis
    by (auto simp: reserve_def admission_ok_def in_flight_def Let_def card_insert_if insert_absorb split: option.splits)
qed

lemma claim_ok:
  assumes "admission_ok s"
  shows "admission_ok (fst (claim s rid))"
proof -
  have "finite (dom (as_requests s))" "finite (as_seen s)" using assms by (auto simp: admission_ok_def)
  with assms show ?thesis
    by (auto simp: claim_def admission_ok_def in_flight_def Let_def card_insert_if insert_absorb dom_update_same
        split: option.splits)
qed

lemma remove_request_ok:
  assumes "admission_ok s"
  shows "admission_ok (remove_request s rid)"
proof -
  have "card (dom (as_requests s) - {rid}) \<le> card (dom (as_requests s))"
    using assms by (auto simp: admission_ok_def intro: card_mono)
  with assms show ?thesis by (auto simp: admission_ok_def in_flight_def remove_request_def)
qed

lemma update_request_ok:
  assumes "admission_ok s" "as_requests s rid = Some r"
  shows "admission_ok (s\<lparr>as_requests := (as_requests s)(rid \<mapsto> r')\<rparr>)"
  using assms dom_update_same [where m = "as_requests s", OF assms(2)] by (auto simp: admission_ok_def in_flight_def)

lemma notify_ok [simp]: "admission_ok (notify_waiters s) = admission_ok s"
  by (simp add: admission_ok_def in_flight_def notify_waiters_def)

lemma start_response_ok: "admission_ok s \<Longrightarrow> admission_ok (start_response s rid)"
  by (auto simp: start_response_def update_request_ok split: option.splits)

lemma finish_response_ok: "admission_ok s \<Longrightarrow> admission_ok (finish_response s rid)"
  by (simp add: finish_response_def remove_request_ok)

lemma cancel_ok:
  assumes "admission_ok s"
  shows "admission_ok (cancel s rid)"
proof (cases "as_requests s rid")
  case (Some r)
  note u = update_request_ok [OF assms Some]
  show ?thesis using u remove_request_ok [OF u] by (simp add: cancel_def Some Let_def)
qed (simp add: cancel_def assms)

lemma finish_handler_ok:
  assumes "admission_ok s"
  shows "admission_ok (finish_handler s rid)"
proof (cases "as_requests s rid")
  case (Some r)
  have "admission_ok (if b then notify_waiters (remove_request s1 rid) else s1)" if "admission_ok s1" for b s1
    using that remove_request_ok by simp
  then show ?thesis
    unfolding finish_handler_def Some option.case Let_def using update_request_ok [OF assms Some] by blast
qed (simp add: finish_handler_def assms)

lemma enter_legacy_ok:
  assumes "admission_ok s" "\<not> as_legacy s"
  shows "admission_ok (enter_legacy s)"
  using assms by (auto simp: admission_ok_def enter_legacy_def in_flight_def
      MAX_IN_FLIGHT_REQUESTS_def MAX_SESSION_REQUEST_IDS_def)

lemma close_ok: "admission_ok (close_admission s)"
  unfolding close_admission_def notify_ok by (simp add: admission_ok_def in_flight_def)

lemmas admission_ok_intros = reserve_ok claim_ok start_response_ok finish_response_ok cancel_ok finish_handler_ok

subsection \<open>Every step keeps the invariant\<close>

lemma family_validate_ok:
  assumes "admission_ok s" "as_legacy s \<longleftrightarrow> state = Legacy"
    "family_validate state s request mv = ((state', s'), e)"
  shows "admission_ok s' \<and> (as_legacy s' \<longleftrightarrow> state' = Legacy) \<and> as_requests s' = as_requests s"
proof (cases "request = InitializeRequest \<and> e = None")
  case True
  then have "state = Unopened" "s' = enter_legacy s" "state' = Legacy"
    using assms(3)
    by (auto simp: family_validate_def validate_family_method_def Let_def split: option.splits if_splits)
  moreover from this(1) assms have "admission_ok (enter_legacy s)" by (intro enter_legacy_ok) auto
  ultimately show ?thesis by (simp add: enter_legacy_def)
next
  case False
  then have "s' = s" "state' = state \<or> state = Unopened \<and> state' = Modern"
    using assms(3) by (auto simp: family_validate_def Let_def split: option.splits if_splits)
  with assms show ?thesis by auto
qed

lemma reserve_requests:
  "as_requests s rid' = Some r \<Longrightarrow> as_requests (fst (reserve s rid)) rid' = Some r"
  by (auto simp: reserve_def Let_def split: option.splits)

lemma start_response_requests:
  "as_requests (start_response s rid) rid' =
     (if rid' = rid then map_option (\<lambda>r. r\<lparr>rs_phase := ResponseStarted\<rparr>) (as_requests s rid) else as_requests s rid')"
  by (auto simp: start_response_def split: option.splits)

lemma finish_response_requests:
  "as_requests (finish_response s rid) rid' = (if rid' = rid then None else as_requests s rid')"
  by (simp add: finish_response_def notify_waiters_def remove_request_def)

lemma cancel_requests:
  "as_requests (cancel s rid) rid' =
     (if rid' = rid
      then (case as_requests s rid of None \<Rightarrow> None
            | Some r \<Rightarrow> if rs_phase r = Reserved \<or> rs_phase r = HandlerDone then None else Some (r\<lparr>rs_cancelled := True\<rparr>))
      else as_requests s rid')"
  by (auto simp: cancel_def Let_def notify_waiters_def remove_request_def split: option.splits)

lemma finish_handler_Some:
  assumes "as_requests s rid = Some r"
  shows "finish_handler s rid =
    (if \<not> rs_transport_owned r \<or> rs_cancelled r \<and> rs_phase r \<noteq> ResponseStarted
     then notify_waiters (remove_request s rid)
     else if rs_phase r = ResponseStarted then s
     else s\<lparr>as_requests := (as_requests s)(rid \<mapsto> r\<lparr>rs_phase := HandlerDone\<rparr>)\<rparr>)"
proof (cases "rs_phase r = ResponseStarted")
  case True
  have "s\<lparr>as_requests := (as_requests s)(rid \<mapsto> r)\<rparr> = s" using assms by (simp add: fun_upd_idem)
  with True assms show ?thesis by (simp add: finish_handler_def Let_def)
next
  case False
  with assms show ?thesis by (simp add: finish_handler_def Let_def remove_request_def)
qed

lemma finish_handler_None: "as_requests s rid = None \<Longrightarrow> finish_handler s rid = s"
  by (simp add: finish_handler_def)

lemma finish_handler_other: "rid' \<noteq> rid \<Longrightarrow> as_requests (finish_handler s rid) rid' = as_requests s rid'"
  by (cases "as_requests s rid") (simp_all add: finish_handler_Some finish_handler_None notify_waiters_def remove_request_def)

lemma finish_handler_legacy: "as_legacy (finish_handler s rid) = as_legacy s"
  by (cases "as_requests s rid") (simp_all add: finish_handler_Some finish_handler_None notify_waiters_def remove_request_def)

lemma legacy_unchanged:
  "as_legacy (fst (reserve s rid)) = as_legacy s" "as_legacy (fst (claim s rid)) = as_legacy s"
  "as_legacy (start_response s rid) = as_legacy s" "as_legacy (finish_response s rid) = as_legacy s"
  "as_legacy (cancel s rid) = as_legacy s"
  by (auto simp: reserve_def claim_def start_response_def finish_response_def cancel_def Let_def
      notify_waiters_def remove_request_def split: option.splits)

lemma guard_ok_update:
  assumes "guard_ok c"
    "\<And>rid r. as_requests (cn_admission c) rid = Some r \<Longrightarrow> rs_phase r \<in> {Running, ResponseStarted} \<Longrightarrow>
       rid \<in># cn_guards c \<Longrightarrow> \<exists>r'. as_requests s rid = Some r' \<and> rs_phase r' \<in> {Running, ResponseStarted}"
  shows "guard_ok (c\<lparr>cn_admission := s\<rparr>)"
  unfolding guard_ok_def
proof (intro conjI allI impI)
  show "count (cn_guards (c\<lparr>cn_admission := s\<rparr>)) rid \<le> 1" for rid
    using assms(1) by (simp add: guard_ok_def)
  fix rid assume "rid \<in># cn_guards (c\<lparr>cn_admission := s\<rparr>)"
  then have g: "rid \<in># cn_guards c" by simp
  with assms(1) obtain r where "as_requests (cn_admission c) rid = Some r" "rs_phase r \<in> {Running, ResponseStarted}"
    unfolding guard_ok_def by blast
  with assms(2) g show "\<exists>r. as_requests (cn_admission (c\<lparr>cn_admission := s\<rparr>)) rid = Some r \<and>
      rs_phase r \<in> {Running, ResponseStarted}" by simp
qed

lemma claim_request_ok:
  assumes "conn_ok c"
  shows "conn_ok (fst (claim_request c rid))"
proof -
  obtain s e where cl: "claim (cn_admission c) rid = (s, e)" by (cases "claim (cn_admission c) rid")
  then have s: "admission_ok s" "as_legacy s = as_legacy (cn_admission c)"
    using claim_ok [of "cn_admission c" rid] legacy_unchanged(2) [of "cn_admission c" rid] assms
    by (simp_all add: conn_ok_def)
  show ?thesis
  proof (cases e)
    case None
    have "rid \<notin># cn_guards c"
    proof
      assume "rid \<in># cn_guards c"
      then obtain r where "as_requests (cn_admission c) rid = Some r" "rs_phase r \<noteq> Reserved"
        using assms unfolding conn_ok_def guard_ok_def by (metis insertE request_phase.distinct(1,5) singletonD)
      with cl None show False by (simp add: claim_def)
    qed
    moreover have "as_requests s = (as_requests (cn_admission c))(rid \<mapsto> the (as_requests s rid))"
      "\<exists>r. as_requests s rid = Some r \<and> rs_phase r = Running"
      using cl None by (auto simp: claim_def Let_def split: option.splits if_splits)
    ultimately have "guard_ok (c\<lparr>cn_admission := s, cn_guards := add_mset rid (cn_guards c)\<rparr>)"
      using assms unfolding guard_ok_def conn_ok_def
      by (auto simp: not_in_iff)
    with s None assms cl show ?thesis by (simp add: claim_request_def conn_ok_def)
  next
    case (Some err)
    then have "as_requests s = as_requests (cn_admission c)"
      using cl by (auto simp: claim_def Let_def split: option.splits if_splits)
    then have "guard_ok (c\<lparr>cn_admission := s\<rparr>)" using assms by (simp add: guard_ok_def conn_ok_def)
    with s Some assms cl show ?thesis by (simp add: claim_request_def conn_ok_def)
  qed
qed

lemma drop_guard_ok:
  assumes "conn_ok c"
  shows "conn_ok (drop_guard c rid)"
proof -
  have "guard_ok (drop_guard c rid)"
    unfolding guard_ok_def drop_guard_def
  proof (intro conjI allI impI)
    fix rid'
    show "count (cn_guards (c\<lparr>cn_admission := finish_handler (cn_admission c) rid, cn_guards := cn_guards c - {#rid#}\<rparr>)) rid' \<le> 1"
      using assms by (auto simp: conn_ok_def guard_ok_def intro: le_trans [OF diff_le_self])
    assume g: "rid' \<in># cn_guards (c\<lparr>cn_admission := finish_handler (cn_admission c) rid, cn_guards := cn_guards c - {#rid#}\<rparr>)"
    have "rid' \<noteq> rid"
    proof
      assume "rid' = rid"
      with g have "count (cn_guards c) rid \<ge> 2" by (simp add: in_diff_count)
      moreover have "count (cn_guards c) rid \<le> 1" using assms by (simp add: conn_ok_def guard_ok_def)
      ultimately show False by simp
    qed
    moreover have "rid' \<in># cn_guards c" using g by (auto dest: in_diffD)
    ultimately show "\<exists>r. as_requests (cn_admission (c\<lparr>cn_admission := finish_handler (cn_admission c) rid,
        cn_guards := cn_guards c - {#rid#}\<rparr>)) rid' = Some r \<and> rs_phase r \<in> {Running, ResponseStarted}"
      using assms finish_handler_other unfolding conn_ok_def guard_ok_def by simp
  qed
  with assms show ?thesis by (simp add: conn_ok_def drop_guard_def finish_handler_ok finish_handler_legacy)
qed

lemma conn_step_ok:
  assumes "conn_step c c'" "conn_ok c"
  shows "conn_ok c'"
  using assms
proof (induction rule: conn_step.induct)
  case (step_reserve c rid)
  have "guard_ok (c\<lparr>cn_admission := fst (reserve (cn_admission c) rid)\<rparr>)"
  proof (rule guard_ok_update)
    show "guard_ok c" using step_reserve by (simp add: conn_ok_def)
  qed (use step_reserve in \<open>auto simp: reserve_requests\<close>)
  with step_reserve show ?case by (simp add: conn_ok_def reserve_ok legacy_unchanged)
next
  case (step_validate c request mv)
  obtain f s e where v: "family_validate (cn_family c) (cn_admission c) request mv = ((f, s), e)"
    by (metis surj_pair)
  have "admission_ok s \<and> (as_legacy s \<longleftrightarrow> f = Legacy) \<and> as_requests s = as_requests (cn_admission c)"
    using family_validate_ok [OF _ _ v] step_validate by (simp add: conn_ok_def)
  with step_validate v show ?case by (simp add: validate_request_def conn_ok_def guard_ok_def)
next
  case (step_start_response c rid)
  have "guard_ok (c\<lparr>cn_admission := start_response (cn_admission c) rid\<rparr>)"
  proof (rule guard_ok_update)
    show "guard_ok c" using step_start_response by (simp add: conn_ok_def)
  qed (use step_start_response in \<open>auto simp: start_response_requests\<close>)
  with step_start_response show ?case by (simp add: conn_ok_def start_response_ok legacy_unchanged)
next
  case (step_finish_response rid c)
  have "guard_ok (c\<lparr>cn_admission := finish_response (cn_admission c) rid\<rparr>)"
  proof (rule guard_ok_update)
    show "guard_ok c" using step_finish_response by (simp add: conn_ok_def)
  qed (use step_finish_response in \<open>auto simp: finish_response_requests\<close>)
  with step_finish_response show ?case by (simp add: conn_ok_def finish_response_ok legacy_unchanged)
next
  case (step_cancel c rid)
  have "guard_ok (c\<lparr>cn_admission := cancel (cn_admission c) rid\<rparr>)"
  proof (rule guard_ok_update)
    show "guard_ok c" using step_cancel by (simp add: conn_ok_def)
  qed (use step_cancel in \<open>auto simp: cancel_requests\<close>)
  with step_cancel show ?case by (simp add: conn_ok_def cancel_ok legacy_unchanged)
qed (simp_all add: claim_request_ok drop_guard_ok)

lemma conn_ok_new: "conn_ok connection_new"
  by (simp add: conn_ok_def connection_new_def admission_new_def admission_ok_def guard_ok_def in_flight_def)

lemma reachable_ok: "reachable c \<Longrightarrow> conn_ok c"
  by (induction rule: reachable.induct) (auto simp: conn_ok_new conn_step_ok)

subsection \<open>Properties of a session\<close>

lemma guard_size:
  assumes "conn_ok c"
  shows "size (cn_guards c) \<le> in_flight (cn_admission c)" "set_mset (cn_guards c) \<subseteq> dom (as_requests (cn_admission c))"
proof -
  show sub: "set_mset (cn_guards c) \<subseteq> dom (as_requests (cn_admission c))"
    using assms unfolding conn_ok_def guard_ok_def by blast
  have "size (cn_guards c) = (\<Sum>rid\<in>set_mset (cn_guards c). count (cn_guards c) rid)"
    by (simp add: size_multiset_overloaded_eq)
  also have "\<dots> \<le> (\<Sum>rid\<in>set_mset (cn_guards c). 1)"
    using assms by (intro sum_mono) (simp add: conn_ok_def guard_ok_def)
  also have "\<dots> \<le> card (dom (as_requests (cn_admission c)))"
    using sub assms by (auto simp: conn_ok_def admission_ok_def intro: card_mono)
  finally show "size (cn_guards c) \<le> in_flight (cn_admission c)" by (simp add: in_flight_def)
qed

text \<open>
  After the close a handler that was running holds no slot any more. Every request in flight is one
  that a late handler claimed, so the handlers without a slot are at most those of the close.
\<close>

definition late_ok :: "connection \<Rightarrow> bool" where
  "late_ok c \<longleftrightarrow> admission_ok (cn_admission c) \<and>
     (as_legacy (cn_admission c) \<longrightarrow> cn_family c = Legacy) \<and>
     (\<forall>rid r. as_requests (cn_admission c) rid = Some r \<longrightarrow> rs_phase r = Running \<and> \<not> rs_transport_owned r) \<and>
     size (cn_guards c) \<le> 32 + card (set_mset (cn_guards c) \<inter> dom (as_requests (cn_admission c)))"

lemma late_ok_close:
  assumes "conn_ok c"
  shows "late_ok (close_connection c)"
proof -
  have "size (cn_guards c) \<le> 32"
    using guard_size(1) [OF assms] assms by (simp add: conn_ok_def admission_ok_def MAX_IN_FLIGHT_REQUESTS_def)
  then show ?thesis
    using close_ok [of "cn_admission c"] by (simp add: late_ok_def close_connection_def close_admission_def notify_waiters_def)
qed

lemma late_claim_ok:
  assumes "late_ok c"
  shows "late_ok (fst (claim_request c rid))"
proof -
  obtain s e where cl: "claim (cn_admission c) rid = (s, e)" by (cases "claim (cn_admission c) rid")
  then have s: "admission_ok s" "as_legacy s = as_legacy (cn_admission c)"
    using claim_ok [of "cn_admission c" rid] legacy_unchanged(2) [of "cn_admission c" rid] assms
    by (simp_all add: late_ok_def)
  let ?D = "dom (as_requests (cn_admission c))"
  show ?thesis
  proof (cases e)
    case None
    have fresh: "as_requests (cn_admission c) rid = None"
    proof (rule ccontr)
      assume "as_requests (cn_admission c) rid \<noteq> None"
      then obtain r where "as_requests (cn_admission c) rid = Some r" "rs_phase r = Running"
        using assms unfolding late_ok_def by blast
      with cl None show False by (simp add: claim_def)
    qed
    then have s': "as_requests s = (as_requests (cn_admission c))
        (rid \<mapsto> \<lparr>rs_phase = Running, rs_transport_owned = False, rs_cancelled = False\<rparr>)"
      using cl None by (auto simp: claim_def Let_def split: if_splits)
    have "insert rid (set_mset (cn_guards c)) \<inter> insert rid ?D = insert rid (set_mset (cn_guards c) \<inter> ?D)" by blast
    moreover have "rid \<notin> set_mset (cn_guards c) \<inter> ?D" using fresh by blast
    ultimately have "card (insert rid (set_mset (cn_guards c)) \<inter> insert rid ?D) = Suc (card (set_mset (cn_guards c) \<inter> ?D))"
      by simp
    then show ?thesis using assms s s' None cl by (auto simp: late_ok_def claim_request_def)
  next
    case (Some err)
    then have "as_requests s = as_requests (cn_admission c)"
      using cl by (auto simp: claim_def Let_def split: option.splits if_splits)
    then show ?thesis using assms s cl Some by (simp add: late_ok_def claim_request_def)
  qed
qed

lemma late_drop_ok:
  assumes "late_ok c" and "rid \<in># cn_guards c"
  shows "late_ok (drop_guard c rid)"
proof -
  let ?s = "finish_handler (cn_admission c) rid"
  have req: "as_requests ?s = (as_requests (cn_admission c))(rid := None)"
    using assms(1) by (cases "as_requests (cn_admission c) rid")
      (auto simp: late_ok_def finish_handler_None finish_handler_Some notify_waiters_def remove_request_def)
  have "set_mset (cn_guards c) = insert rid (set_mset (cn_guards c - {#rid#}))"
    using insert_DiffM [OF assms(2)] by (metis set_mset_add_mset_insert)
  then have "(set_mset (cn_guards c) \<inter> dom (as_requests (cn_admission c))) - {rid} \<subseteq>
      set_mset (cn_guards c - {#rid#}) \<inter> dom (as_requests ?s)"
    unfolding req dom_fun_upd using \<open>set_mset (cn_guards c) = _\<close> by auto
  then have "card ((set_mset (cn_guards c) \<inter> dom (as_requests (cn_admission c))) - {rid}) \<le>
      card (set_mset (cn_guards c - {#rid#}) \<inter> dom (as_requests ?s))"
    by (intro card_mono) auto
  moreover have "card (set_mset (cn_guards c) \<inter> dom (as_requests (cn_admission c))) - 1 \<le>
      card ((set_mset (cn_guards c) \<inter> dom (as_requests (cn_admission c))) - {rid})"
    by (simp add: card_Diff_singleton_if)
  moreover have "size (cn_guards c - {#rid#}) = size (cn_guards c) - 1" using assms(2) by (simp add: size_Diff_singleton)
  moreover have "\<And>rid' r. as_requests ?s rid' = Some r \<Longrightarrow> rs_phase r = Running \<and> \<not> rs_transport_owned r"
    using assms(1) by (auto simp: req late_ok_def split: if_splits)
  moreover have "size (cn_guards c) \<noteq> 0" using assms(2) by auto
  ultimately show ?thesis
    using assms(1) by (auto simp: late_ok_def drop_guard_def finish_handler_ok finish_handler_legacy)
qed

lemma late_finish_ok:
  assumes "late_ok c" and "rid \<notin># cn_guards c"
  shows "late_ok (c\<lparr>cn_admission := finish_response (cn_admission c) rid\<rparr>)"
proof -
  have "set_mset (cn_guards c) \<inter> dom (as_requests (finish_response (cn_admission c) rid)) =
      set_mset (cn_guards c) \<inter> dom (as_requests (cn_admission c))"
    using assms(2) by (auto simp: finish_response_requests split: if_splits)
  then show ?thesis
    using assms(1) by (auto simp: late_ok_def finish_response_ok finish_response_requests legacy_unchanged)
qed

lemma late_validate_ok:
  assumes "late_ok c"
  shows "late_ok (fst (validate_request c request mv))"
proof -
  obtain f s e where v: "family_validate (cn_family c) (cn_admission c) request mv = ((f, s), e)"
    by (metis surj_pair)
  have "admission_ok s \<and> (as_legacy s \<longrightarrow> f = Legacy) \<and> as_requests s = as_requests (cn_admission c)"
    using assms v enter_legacy_ok [of "cn_admission c"]
    by (auto simp: late_ok_def family_validate_def validate_family_method_def Let_def enter_legacy_def
        split: option.splits if_splits)
  with assms v show ?thesis by (simp add: late_ok_def validate_request_def)
qed

lemma late_steps_ok: "late_step\<^sup>*\<^sup>* c c' \<Longrightarrow> late_ok c \<Longrightarrow> late_ok c'"
  by (induction rule: rtranclp_induct)
    (auto elim!: late_step.cases intro: late_claim_ok late_drop_ok late_finish_ok late_validate_ok)

lemma late_bounds:
  assumes "late_ok c"
  shows "in_flight (cn_admission c) \<le> 32" "size (cn_guards c) \<le> 64" "card (as_seen (cn_admission c)) \<le> 8192"
proof -
  have ok: "finite (dom (as_requests (cn_admission c)))" "in_flight (cn_admission c) \<le> 32" "card (as_seen (cn_admission c)) \<le> 8192"
    using assms by (auto simp: late_ok_def admission_ok_def MAX_IN_FLIGHT_REQUESTS_def MAX_SESSION_REQUEST_IDS_def)
  then show "in_flight (cn_admission c) \<le> 32" "card (as_seen (cn_admission c)) \<le> 8192" by simp_all
  have "card (set_mset (cn_guards c) \<inter> dom (as_requests (cn_admission c))) \<le> in_flight (cn_admission c)"
    using ok(1) by (auto simp: in_flight_def intro: card_mono)
  then show "size (cn_guards c) \<le> 64" using assms ok(2) by (simp add: late_ok_def)
qed


definition sample_connection :: connection where
  "sample_connection =
     fst (claim_request (connection_new\<lparr>cn_admission := fst (reserve (cn_admission connection_new) (Number 1))\<rparr>) (Number 1))"

lemma sample_connection_reachable: "reachable sample_connection"
  unfolding sample_connection_def
  by (intro reachable_step [OF _ step_claim] reachable_step [OF _ step_reserve] reachable_new)


text \<open>Ids recorded in a legacy session stay recorded.\<close>

lemma seen_mono:
  "as_seen s \<subseteq> as_seen (fst (reserve s rid))" "as_seen s \<subseteq> as_seen (fst (claim s rid))"
  "as_seen (start_response s rid) = as_seen s" "as_seen (finish_response s rid) = as_seen s"
  "as_seen (cancel s rid) = as_seen s" "as_seen s \<subseteq> as_seen (enter_legacy s)"
  by (auto simp: reserve_def claim_def start_response_def finish_response_def cancel_def enter_legacy_def Let_def
      notify_waiters_def remove_request_def split: option.splits)

lemma finish_handler_seen: "as_seen (finish_handler s rid) = as_seen s"
  by (cases "as_requests s rid") (simp_all add: finish_handler_Some finish_handler_None notify_waiters_def remove_request_def)

lemma family_validate_mono:
  assumes "family_validate f s request mv = ((f', s'), e)"
  shows "as_requests s' = as_requests s \<and> as_seen s \<subseteq> as_seen s' \<and> (as_legacy s \<longrightarrow> as_legacy s') \<and> (f \<noteq> Unopened \<longrightarrow> f' = f)"
  using assms
  by (auto simp: family_validate_def validate_family_method_def Let_def enter_legacy_def split: option.splits if_splits)

lemma conn_step_legacy_mono:
  assumes "conn_step c c'"
  shows "as_seen (cn_admission c) \<subseteq> as_seen (cn_admission c') \<and>
    (as_legacy (cn_admission c) \<longrightarrow> as_legacy (cn_admission c')) \<and> (cn_family c \<noteq> Unopened \<longrightarrow> cn_family c' = cn_family c)"
  using assms
proof cases
  case (step_validate request mv)
  obtain f s e where v: "family_validate (cn_family c) (cn_admission c) request mv = ((f, s), e)"
    by (metis surj_pair)
  with family_validate_mono [OF v] step_validate show ?thesis by (auto simp: validate_request_def)
next
  case (step_claim rid)
  obtain s e where cl: "claim (cn_admission c) rid = (s, e)" by (metis surj_pair)
  with step_claim seen_mono(2) [of "cn_admission c" rid] legacy_unchanged(2) [of "cn_admission c" rid]
  show ?thesis by (cases e) (auto simp: claim_request_def)
qed (use seen_mono legacy_unchanged in \<open>auto simp: drop_guard_def finish_handler_seen finish_handler_legacy\<close>)

lemma conn_steps_legacy_mono:
  assumes "conn_step\<^sup>*\<^sup>* c c'" "as_legacy (cn_admission c)" "rid \<in> as_seen (cn_admission c)"
  shows "as_legacy (cn_admission c') \<and> rid \<in> as_seen (cn_admission c')"
  using assms by (induction rule: rtranclp_induct) (auto dest!: conn_step_legacy_mono)

text \<open>
  C14: an id of a legacy session is used at most once. After a request id has been admitted by
  the transport in a legacy session, no later sequence of steps, with responses, cancellations
  and releases in any order, makes the session admit that id again. The steps are those up to the
  drop of the transport, after which nothing is admitted by it any more.
\<close>

theorem legacy_ids_are_never_reused:
  assumes "as_legacy (cn_admission c)" "snd (reserve (cn_admission c) rid) = None"
    "conn_step\<^sup>*\<^sup>* (c\<lparr>cn_admission := fst (reserve (cn_admission c) rid)\<rparr>) c'"
  shows "snd (reserve (cn_admission c') rid) = Some Duplicate"
proof -
  have "validate_request_id rid" "rid \<in> as_seen (fst (reserve (cn_admission c) rid))"
    using assms(1,2) by (auto simp: reserve_def Let_def split: if_splits option.splits)
  moreover from this(2) have "as_legacy (cn_admission c')" "rid \<in> as_seen (cn_admission c')"
    using conn_steps_legacy_mono [OF assms(3), of rid] assms(1) legacy_unchanged(1) [of "cn_admission c" rid] by simp_all
  ultimately show ?thesis by (simp add: reserve_def [of "cn_admission c'"])
qed

definition sample_legacy :: connection where
  "sample_legacy = connection_new\<lparr>cn_family := Legacy, cn_admission := enter_legacy admission_new\<rparr>"

theorem legacy_ids_are_never_reused_witness:
  "snd (reserve (finish_response (fst (reserve (cn_admission sample_legacy) (Number 7))) (Number 7)) (Number 7)) =
     Some Duplicate"
proof -
  let ?c = "sample_legacy\<lparr>cn_admission := fst (reserve (cn_admission sample_legacy) (Number 7))\<rparr>"
  have "conn_step ?c (?c\<lparr>cn_admission := finish_response (cn_admission ?c) (Number 7)\<rparr>)"
    by (rule step_finish_response) (simp add: sample_legacy_def connection_new_def)
  then have "conn_step\<^sup>*\<^sup>* ?c (?c\<lparr>cn_admission := finish_response (cn_admission ?c) (Number 7)\<rparr>)" by simp
  moreover have "as_legacy (cn_admission sample_legacy)" "snd (reserve (cn_admission sample_legacy) (Number 7)) = None"
    by (simp_all add: sample_legacy_def enter_legacy_def admission_new_def reserve_def in_flight_def
        MAX_IN_FLIGHT_REQUESTS_def MAX_SESSION_REQUEST_IDS_def)
  ultimately show ?thesis
    using legacy_ids_are_never_reused [of sample_legacy "Number 7"] by fastforce
qed

text \<open>
  cancellation frees an id exactly when its work is over. In a modern session, cancelling a
  request whose handler has not started makes its id admissible at once; cancelling a running
  one keeps its slot and refuses the id as cancelled in flight until the handler finishes, which
  frees the id and notifies the waiters.
\<close>

theorem cancellation_releases_with_the_work:
  assumes "admission_ok s" "\<not> as_legacy s" "validate_request_id rid" "as_requests s rid = Some r"
  shows "(rs_phase r = Reserved \<longrightarrow>
      snd (reserve (cancel s rid) rid) = None \<and> as_notified (cancel s rid) = as_notified s + 1) \<and>
    (rs_phase r = Running \<longrightarrow>
      snd (reserve (cancel s rid) rid) = Some CancelledInFlight \<and> in_flight (cancel s rid) = in_flight s \<and>
      snd (reserve (finish_handler (cancel s rid) rid) rid) = None \<and>
      as_notified (finish_handler (cancel s rid) rid) = as_notified s + 1)"
proof -
  have fin: "finite (dom (as_requests s))" "card (dom (as_requests s)) \<le> MAX_IN_FLIGHT_REQUESTS" "rid \<in> dom (as_requests s)"
    using assms by (auto simp: admission_ok_def in_flight_def)
  have free: "snd (reserve s' rid) = None"
    if "as_requests s' = (as_requests s)(rid := None)" "as_legacy s' = as_legacy s" for s'
  proof -
    have "in_flight s' < MAX_IN_FLIGHT_REQUESTS"
      using fin that card_Diff1_less [OF fin(1,3)] by (simp add: in_flight_def)
    with that assms show ?thesis by (simp add: reserve_def)
  qed
  have "snd (reserve (cancel s rid) rid) = None \<and> as_notified (cancel s rid) = as_notified s + 1"
    if "rs_phase r = Reserved"
    using that assms by (auto intro!: free simp: cancel_def Let_def notify_waiters_def remove_request_def)
  moreover have "snd (reserve (cancel s rid) rid) = Some CancelledInFlight \<and> in_flight (cancel s rid) = in_flight s \<and>
      snd (reserve (finish_handler (cancel s rid) rid) rid) = None \<and>
      as_notified (finish_handler (cancel s rid) rid) = as_notified s + 1"
    if "rs_phase r = Running"
  proof -
    have c: "cancel s rid = s\<lparr>as_requests := (as_requests s)(rid \<mapsto> r\<lparr>rs_cancelled := True\<rparr>)\<rparr>"
      using that assms by (simp add: cancel_def)
    have f: "finish_handler (cancel s rid) rid = notify_waiters (remove_request (cancel s rid) rid)"
      using that by (subst finish_handler_Some [of _ _ "r\<lparr>rs_cancelled := True\<rparr>"]) (simp_all add: c)
    have "snd (reserve (finish_handler (cancel s rid) rid) rid) = None"
      unfolding f by (rule free) (simp_all add: c notify_waiters_def remove_request_def)
    moreover have "in_flight (cancel s rid) = in_flight s"
      using fin(3) by (simp add: c in_flight_def insert_absorb)
    ultimately show ?thesis
      using assms by (simp add: f) (simp add: c reserve_def notify_waiters_def remove_request_def)
  qed
  ultimately show ?thesis by blast
qed

definition sample_admission :: "request_phase \<Rightarrow> admission_state" where
  "sample_admission ph = admission_new\<lparr>as_requests := [Number 4 \<mapsto> request_state_default\<lparr>rs_phase := ph\<rparr>]\<rparr>"

theorem cancellation_releases_with_the_work_witness:
  "snd (reserve (cancel (sample_admission Reserved) (Number 4)) (Number 4)) = None \<and>
   snd (reserve (cancel (sample_admission Running) (Number 4)) (Number 4)) = Some CancelledInFlight \<and>
   snd (reserve (finish_handler (cancel (sample_admission Running) (Number 4)) (Number 4)) (Number 4)) = None"
proof -
  have ok: "admission_ok (sample_admission ph)" "\<not> as_legacy (sample_admission ph)" "validate_request_id (Number 4)"
    "as_requests (sample_admission ph) (Number 4) = Some (request_state_default\<lparr>rs_phase := ph\<rparr>)" for ph
    by (simp_all add: sample_admission_def admission_new_def admission_ok_def in_flight_def MAX_IN_FLIGHT_REQUESTS_def)
  show ?thesis
    using cancellation_releases_with_the_work [OF ok, of Reserved]
      cancellation_releases_with_the_work [OF ok, of Running] by simp
qed

text \<open>
  no lost wake-up. Whenever a step releases the id of a request, it also notifies the
  waiters, so a request that waits for a cancelled predecessor is woken by its release.
\<close>

theorem release_notifies_waiters:
  assumes "conn_step c c'" "as_requests (cn_admission c) rid \<noteq> None" "as_requests (cn_admission c') rid = None"
  shows "as_notified (cn_admission c') = as_notified (cn_admission c) + 1"
  using assms
proof cases
  case (step_validate request mv)
  obtain f s e where v: "family_validate (cn_family c) (cn_admission c) request mv = ((f, s), e)"
    by (metis surj_pair)
  with family_validate_mono [OF v] step_validate assms(2,3) show ?thesis by (simp add: validate_request_def)
next
  case (step_claim rid')
  obtain s e where cl: "claim (cn_admission c) rid' = (s, e)" by (metis surj_pair)
  then have "as_requests s rid \<noteq> None"
    using assms(2) by (auto simp: claim_def Let_def split: option.splits if_splits)
  with step_claim cl assms(3) show ?thesis by (cases e) (auto simp: claim_request_def)
next
  case (step_drop_guard rid')
  then show ?thesis
    using assms by (cases "as_requests (cn_admission c) rid'")
      (auto simp: drop_guard_def finish_handler_Some finish_handler_None notify_waiters_def remove_request_def split: if_splits)
qed (use assms(2,3) reserve_requests [of "cn_admission c" rid] in
    \<open>auto simp: start_response_requests finish_response_def cancel_def Let_def notify_waiters_def remove_request_def
      split: option.splits if_splits\<close>)

theorem release_notifies_waiters_witness:
  "as_notified (finish_response (cn_admission sample_connection\<lparr>as_legacy := False\<rparr>) (Number 1)) = 1"
proof -
  let ?c = "sample_connection\<lparr>cn_guards := {#}\<rparr>"
  have s: "as_notified (cn_admission ?c) = 0" "as_requests (cn_admission ?c) (Number 1) \<noteq> None"
    "as_legacy (cn_admission ?c) = False"
    by (simp_all add: sample_connection_def connection_new_def admission_new_def claim_request_def reserve_def claim_def
        in_flight_def MAX_IN_FLIGHT_REQUESTS_def request_state_default_def)
  have "conn_step ?c (?c\<lparr>cn_admission := finish_response (cn_admission ?c) (Number 1)\<rparr>)"
    by (rule step_finish_response) simp
  from release_notifies_waiters [OF this s(2)] s show ?thesis
    by (simp add: finish_response_def notify_waiters_def remove_request_def)
qed

definition family_version :: "family_state \<Rightarrow> protocol_version" where
  "family_version f = expected_version f False"

text \<open>
  The two protocol families are disjoint. A request that passes the family check leaves the
  connection in a family, the one it was in if it was open; a legacy connection is opened only by
  initialize and then accepts neither another initialize nor a 2026 method, a modern connection
  never accepts a 2025 method; and a declared protocol version is the version of the family.
\<close>

theorem families_are_disjoint:
  assumes "snd (validate_request c request mv) = None"
  defines "f \<equiv> cn_family (fst (validate_request c request mv))"
  shows "f \<noteq> Unopened \<and> (cn_family c \<noteq> Unopened \<longrightarrow> f = cn_family c) \<and>
    (f = Legacy \<longrightarrow> (request = InitializeRequest \<longleftrightarrow> cn_family c = Unopened) \<and>
       request \<notin> {DiscoverRequest, SubscriptionsListenRequest, GetTaskRequest, UpdateTaskRequest, CancelTaskRequest}) \<and>
    (f = Modern \<longrightarrow> request \<notin> {InitializeRequest, PingRequest, SubscribeRequest, UnsubscribeRequest}) \<and>
    (mv = None \<or> mv = Some (family_version f))"
proof (cases "cn_family c")
  case Unopened
  then show ?thesis using assms
    by (cases request)
      (auto simp: validate_request_def family_validate_def validate_family_method_def expected_version_def
        family_version_def Let_def split: option.splits if_splits)
next
  case Modern
  then show ?thesis using assms
    by (cases request)
      (auto simp: validate_request_def family_validate_def validate_family_method_def expected_version_def
        family_version_def Let_def split: option.splits if_splits)
next
  case Legacy
  then show ?thesis using assms
    by (cases request)
      (auto simp: validate_request_def family_validate_def validate_family_method_def expected_version_def
        family_version_def Let_def split: option.splits if_splits)
qed

theorem families_are_disjoint_witness:
  "cn_family (fst (validate_request connection_new (OtherRequest ''tools/list'') (Some V_2026_07_28))) = Modern"
proof -
  have n: "snd (validate_request connection_new (OtherRequest ''tools/list'') (Some V_2026_07_28)) = None"
    by (simp add: validate_request_def connection_new_def family_validate_def validate_family_method_def
        expected_version_def Let_def)
  from families_are_disjoint [OF n] show ?thesis
    by (cases "cn_family (fst (validate_request connection_new (OtherRequest ''tools/list'') (Some V_2026_07_28)))")
      (simp_all add: connection_new_def)
qed

end
