(* ===== verification/Mcp_Transport.thy ===== *)
theory Mcp_Transport
  imports Mcp_Admission
begin

text \<open>
  The bounded stdio transport of the MCP server (\<open>quarters-mcp/src/transport.rs\<close>): how an
  inbound message is classified, admitted, rejected or parked until the id it reuses is
  released, and how an outbound message is framed. One round of the loop of \<open>receive\<close> is one
  call of \<open>receive_step\<close>; what the round awaits (the clock against the deadline, the permit of
  the error channel, the next decoded frame) is an argument.

  \<open>serde_json\<close> values are a datatype; parsing and printing them, and the \<open>rmcp\<close> conversions to
  and from them, are parameters. Error texts that \<open>rmcp\<close> formats are not modelled.
\<close>

subsection \<open>JSON values\<close>

datatype json_number = JsonInt int | JsonFloat string

datatype json =
    JNull | JBool bool | JNumber json_number | JString string | JArray "json list" | JObject "(string \<times> json) list"

fun as_i64 :: "json_number \<Rightarrow> int option" where
  "as_i64 (JsonInt n) = (if - (2 ^ 63) \<le> n \<and> n < 2 ^ 63 then Some n else None)"
| "as_i64 (JsonFloat _) = None"

fun as_str :: "json \<Rightarrow> string option" where
  "as_str (JString s) = Some s"
| "as_str _ = None"

subsection \<open>Decoding\<close>

datatype notification = CancelledNotification "request_id option" | OtherNotification string

text \<open>What the transport reads of the \<open>_meta\<close> object of a request.\<close>

record request_meta =
  rm_protocol_version :: "protocol_version option"
  rm_missing_required_keys :: "string list"
  rm_has_client_info :: bool
  rm_client_info_ok :: bool
  rm_has_log_level :: bool
  rm_log_level_ok :: bool

datatype client_message =
    Request request_id client_request request_meta
  | Notification notification
  | OtherMessage

datatype inbound_frame =
    Message client_message
  | ProtocolError error_data "request_id option"
  | IgnoredNotification
  | ParseError
  | Oversized

datatype line_result = Line string | NoLine | MaxLineLengthExceeded | LineIo

definition invalid_params :: "string \<Rightarrow> error_data" where "invalid_params m = ErrorData (-32602) m"

definition recover_request_id :: "json option \<Rightarrow> request_id option" where
  "recover_request_id value =
     (case value of
        Some (JNumber number) \<Rightarrow> map_option Number (as_i64 number)
      | Some (JString s) \<Rightarrow> if length s \<le> 128 then Some (StringId s) else None
      | _ \<Rightarrow> None)"

definition invalid_request_id :: "json \<Rightarrow> bool" where
  "invalid_request_id value =
     (case value of
        JObject members \<Rightarrow> map_of members ''id'' \<noteq> None \<and> recover_request_id (map_of members ''id'') = None
      | _ \<Rightarrow> False)"

definition recover_protocol_value :: "json \<Rightarrow> inbound_frame" where
  "recover_protocol_value value =
     (case value of
        JObject members \<Rightarrow>
          let recognizable_message =
                Option.bind (map_of members ''jsonrpc'') as_str = Some ''2.0'' \<and>
                Option.bind (map_of members ''method'') as_str \<noteq> None in
          if recognizable_message \<and> map_of members ''id'' = None then IgnoredNotification
          else let recognizable_request = recognizable_message \<and> map_of members ''id'' \<noteq> None in
            if \<not> recognizable_request then ProtocolError (invalid_request ''Invalid Request'') None
            else (case recover_request_id (map_of members ''id'') of
                None \<Rightarrow> ProtocolError (invalid_request ''Invalid Request'') None
              | Some rid \<Rightarrow>
                  ProtocolError (invalid_params ''request parameters do not match the MCP method schema'') (Some rid))
      | _ \<Rightarrow> ProtocolError (invalid_request ''Invalid Request'') None)"

definition byte_order_mark :: string where
  "byte_order_mark = [CHR 0xEF, CHR 0xBB, CHR 0xBF]"

definition decoder_parse ::
  "(string \<Rightarrow> json option) \<Rightarrow> (json \<Rightarrow> client_message option) \<Rightarrow> line_result \<Rightarrow> inbound_frame option" where
  "decoder_parse from_str from_value line =
     (case line of
        Line text \<Rightarrow>
          let without_bom = (case strip_prefix text byte_order_mark of Some t \<Rightarrow> t | None \<Rightarrow> text) in
          (case from_str without_bom of
             None \<Rightarrow> Some ParseError
           | Some value \<Rightarrow>
               if invalid_request_id value then Some (ProtocolError (invalid_request ''Invalid Request'') None)
               else Some (case from_value value of
                   None \<Rightarrow> recover_protocol_value value
                 | Some msg \<Rightarrow> Message msg))
      | NoLine \<Rightarrow> None
      | MaxLineLengthExceeded \<Rightarrow> Some Oversized
      | LineIo \<Rightarrow> Some ParseError)"

subsection \<open>Admission of a msg\<close>

record pending_error =
  pe_error :: error_data
  pe_id :: "request_id option"
  pe_terminal :: bool

record awaiting_release =
  aw_message :: client_message
  aw_id :: request_id

datatype preparation =
    Deliver client_message
  | Ignore
  | Reject pending_error
  | Close
  | AwaitRelease client_message request_id

definition method_not_found_ping :: error_data where
  "method_not_found_ping = ErrorData (-32601) ''ping''"

fun join_with :: "string \<Rightarrow> string list \<Rightarrow> string" where
  "join_with sep [] = []"
| "join_with sep [x] = x"
| "join_with sep (x # xs) = x @ sep @ join_with sep xs"

definition modern_metadata_error ::
  "client_message \<Rightarrow> family_state \<Rightarrow> (request_id \<times> error_data) option" where
  "modern_metadata_error msg family =
     (case msg of
        Request rid request meta \<Rightarrow>
          if family = Legacy \<or> request = InitializeRequest then None
          else if request = PingRequest
          then (if rm_protocol_version meta \<noteq> None then Some (rid, method_not_found_ping) else None)
          else let missing = rm_missing_required_keys meta @
                 (if rm_has_client_info meta \<and> \<not> rm_client_info_ok meta
                  then [''io.modelcontextprotocol/clientInfo''] else []) @
                 (if rm_has_log_level meta \<and> \<not> rm_log_level_ok meta
                  then [''io.modelcontextprotocol/logLevel''] else [])
            in if missing \<noteq> []
               then Some (rid, invalid_params (''request _meta is missing or malformed: '' @ join_with '', '' missing))
               else None
      | _ \<Rightarrow> None)"

fun request_id_of :: "client_message \<Rightarrow> request_id option" where
  "request_id_of (Request rid _ _) = Some rid"
| "request_id_of _ = None"

fun cancellation_id :: "client_message \<Rightarrow> request_id option" where
  "cancellation_id (Notification (CancelledNotification rid)) = rid"
| "cancellation_id _ = None"

fun is_notification :: "client_message \<Rightarrow> bool" where
  "is_notification (Notification _) = True"
| "is_notification _ = False"

definition prepare_message ::
  "family_state \<Rightarrow> admission_state \<Rightarrow> client_message \<Rightarrow> admission_state \<times> preparation" where
  "prepare_message family admission msg =
     (if family = Unopened \<and> is_notification msg then (admission, Ignore)
      else case modern_metadata_error msg family of
          Some (rid, error) \<Rightarrow> (admission, Reject \<lparr>pe_error = error, pe_id = Some rid, pe_terminal = False\<rparr>)
        | None \<Rightarrow>
            (case request_id_of msg of
               Some rid \<Rightarrow>
                 (case reserve admission rid of
                    (admission, Some Duplicate) \<Rightarrow> (admission, Close)
                  | (admission, Some CancelledInFlight) \<Rightarrow> (admission, AwaitRelease msg rid)
                  | (admission, Some failure) \<Rightarrow>
                      (admission, Reject \<lparr>pe_error = admission_failure_error failure, pe_id = Some rid,
                                          pe_terminal = (failure \<noteq> Capacity)\<rparr>)
                  | (admission, None) \<Rightarrow>
                      (case cancellation_id msg of
                         Some cid \<Rightarrow> (cancel admission cid, Deliver msg)
                       | None \<Rightarrow> (admission, Deliver msg)))
             | None \<Rightarrow>
                 (case cancellation_id msg of
                    Some cid \<Rightarrow> (cancel admission cid, Deliver msg)
                  | None \<Rightarrow> (admission, Deliver msg))))"

text \<open>\<open>Inl\<close> hands the waiting request back while its id is held and the deadline lies ahead.\<close>

definition try_admit ::
  "admission_state \<Rightarrow> awaiting_release \<Rightarrow> bool \<Rightarrow> admission_state \<times> (awaiting_release + preparation)" where
  "try_admit admission waiting before_deadline =
     (case reserve admission (aw_id waiting) of
        (admission, None) \<Rightarrow> (admission, Inr (Deliver (aw_message waiting)))
      | (admission, Some CancelledInFlight) \<Rightarrow>
          if before_deadline then (admission, Inl waiting)
          else (admission, Inr (Reject \<lparr>pe_error = admission_failure_error CancelledInFlight,
                                        pe_id = Some (aw_id waiting), pe_terminal = False\<rparr>))
      | (admission, Some Duplicate) \<Rightarrow> (admission, Inr Close)
      | (admission, Some failure) \<Rightarrow>
          (admission, Inr (Reject \<lparr>pe_error = admission_failure_error failure, pe_id = Some (aw_id waiting),
                                   pe_terminal = (failure \<noteq> Capacity)\<rparr>)))"

subsection \<open>The receive loop\<close>

record transport =
  tr_family :: family_state
  tr_admission :: admission_state
  tr_error_writer_failed :: bool
  tr_pending :: "pending_error option"
  tr_awaiting :: "awaiting_release option"
  tr_sent :: "pending_error list"

datatype receive_outcome = Return "client_message option" | Continue

definition receive_frame :: "transport \<Rightarrow> inbound_frame option \<Rightarrow> transport \<times> receive_outcome" where
  "receive_frame t next =
     (case next of
        None \<Rightarrow> (t, Return None)
      | Some (Message msg) \<Rightarrow>
          (case prepare_message (tr_family t) (tr_admission t) msg of
             (admission, Deliver msg) \<Rightarrow> (t\<lparr>tr_admission := admission\<rparr>, Return (Some msg))
           | (admission, Ignore) \<Rightarrow> (t\<lparr>tr_admission := admission\<rparr>, Continue)
           | (admission, Reject pending) \<Rightarrow> (t\<lparr>tr_admission := admission, tr_pending := Some pending\<rparr>, Continue)
           | (admission, Close) \<Rightarrow> (t\<lparr>tr_admission := admission\<rparr>, Return None)
           | (admission, AwaitRelease msg rid) \<Rightarrow>
               (t\<lparr>tr_admission := admission, tr_awaiting := Some \<lparr>aw_message = msg, aw_id = rid\<rparr>\<rparr>, Continue))
      | Some ParseError \<Rightarrow>
          (t\<lparr>tr_pending := Some \<lparr>pe_error = ErrorData (-32700) ''Parse error'', pe_id = None, pe_terminal = False\<rparr>\<rparr>, Continue)
      | Some (ProtocolError error rid) \<Rightarrow>
          (t\<lparr>tr_pending := Some \<lparr>pe_error = error, pe_id = rid, pe_terminal = False\<rparr>\<rparr>, Continue)
      | Some IgnoredNotification \<Rightarrow> (t, Continue)
      | Some Oversized \<Rightarrow> (t, Return None))"

definition receive_step ::
  "transport \<Rightarrow> bool \<Rightarrow> bool \<Rightarrow> inbound_frame option \<Rightarrow> transport \<times> receive_outcome" where
  "receive_step t before_deadline permit next =
     (if tr_error_writer_failed t then (t, Return None)
      else case tr_awaiting t of
          Some waiting \<Rightarrow>
            let t = t\<lparr>tr_awaiting := None\<rparr> in
            (case try_admit (tr_admission t) waiting before_deadline of
               (admission, Inr (Deliver msg)) \<Rightarrow> (t\<lparr>tr_admission := admission\<rparr>, Return (Some msg))
             | (admission, Inr (Reject pending)) \<Rightarrow> (t\<lparr>tr_admission := admission, tr_pending := Some pending\<rparr>, Continue)
             | (admission, Inr Close) \<Rightarrow> (t\<lparr>tr_admission := admission\<rparr>, Return None)
             | (admission, Inr Ignore) \<Rightarrow> (t\<lparr>tr_admission := admission\<rparr>, Continue)
             | (admission, Inr (AwaitRelease _ _)) \<Rightarrow> (t\<lparr>tr_admission := admission\<rparr>, Continue)
             | (admission, Inl waiting) \<Rightarrow> (t\<lparr>tr_admission := admission, tr_awaiting := Some waiting\<rparr>, Continue))
        | None \<Rightarrow>
            (case tr_pending t of
               Some pending \<Rightarrow>
                 if \<not> permit then (t, Return None)
                 else let t = t\<lparr>tr_pending := None, tr_sent := tr_sent t @ [pending]\<rparr> in
                   if pe_terminal pending then (t, Return None) else (t, Continue)
             | None \<Rightarrow> receive_frame t next))"

subsection \<open>Encoding\<close>

definition MAX_MCP_MESSAGE_BYTES :: nat where "MAX_MCP_MESSAGE_BYTES = 1024 * 1024"

fun object_insert :: "string \<Rightarrow> json \<Rightarrow> (string \<times> json) list \<Rightarrow> (string \<times> json) list" where
  "object_insert k v [] = [(k, v)]"
| "object_insert k v ((k', v') # members) = (if k' = k then (k, v) # members else (k', v') # object_insert k v members)"

datatype server_message = ServerResponse request_id | ServerError "request_id option" | ServerOther

definition ensure_error_id :: "server_message \<Rightarrow> json \<Rightarrow> json option" where
  "ensure_error_id msg value =
     (case msg of
        ServerError None \<Rightarrow>
          (case value of JObject members \<Rightarrow> Some (JObject (object_insert ''id'' JNull members)) | _ \<Rightarrow> None)
      | _ \<Rightarrow> Some value)"

definition stamp_server_info :: "json option \<Rightarrow> json \<Rightarrow> json option" where
  "stamp_server_info implementation value =
     (case value of
        JObject members \<Rightarrow>
          (case map_of members ''result'' of
             Some (JObject result) \<Rightarrow>
               (case (case map_of result ''_meta'' of None \<Rightarrow> JObject [] | Some meta \<Rightarrow> meta) of
                  JObject meta \<Rightarrow>
                    (case implementation of
                       None \<Rightarrow> None
                     | Some info \<Rightarrow>
                         Some (JObject (object_insert ''result''
                           (JObject (object_insert ''_meta''
                             (JObject (object_insert ''io.modelcontextprotocol/serverInfo'' info meta)) result)) members)))
                | _ \<Rightarrow> None)
           | _ \<Rightarrow> Some value)
      | _ \<Rightarrow> Some value)"

definition encode_message ::
  "(server_message \<Rightarrow> json option) \<Rightarrow> (json \<Rightarrow> string option) \<Rightarrow> json option \<Rightarrow> family_state \<Rightarrow> server_message \<Rightarrow> string \<Rightarrow>
     string option" where
  "encode_message to_value to_vec implementation family msg output =
     Option.bind (to_value msg) (\<lambda>value.
     Option.bind (ensure_error_id msg value) (\<lambda>value.
     Option.bind (if family = Modern then stamp_server_info implementation value else Some value) (\<lambda>value.
     Option.bind (to_vec value) (\<lambda>encoded.
       if length encoded + 1 > MAX_MCP_MESSAGE_BYTES then None
       else Some (output @ encoded @ [CHR 0x0A])))))"

subsection \<open>Properties\<close>

lemma reserve_success:
  "reserve s rid = (s', None) \<Longrightarrow>
     as_requests s rid = None \<and> as_requests s' = (as_requests s)(rid \<mapsto> request_state_default) \<and> validate_request_id rid"
  by (auto simp: reserve_def Let_def split: if_splits option.splits)

lemma reserve_failure: "reserve s rid = (s', Some failure) \<Longrightarrow> as_requests s' = as_requests s"
  by (auto simp: reserve_def Let_def split: if_splits option.splits)

lemmas reserve_cases = reserve_success reserve_failure

lemma request_no_cancellation: "request_id_of m = Some rid \<Longrightarrow> cancellation_id m = None"
  by (cases m) auto

text \<open>
  a request reaches the service only when it has been admitted. If a message is delivered it is
  the message that was received, and a delivered request had no request of its id in flight and
  now holds a fresh reservation; a message that is not delivered changes no reservation.
\<close>

theorem delivered_requests_are_admitted:
  "case prepare_message family s m of
     (s', Deliver m') \<Rightarrow> m' = m \<and>
       (case request_id_of m of
          Some rid \<Rightarrow> as_requests s rid = None \<and> as_requests s' = (as_requests s)(rid \<mapsto> request_state_default) \<and>
            validate_request_id rid
        | None \<Rightarrow> s' = (case cancellation_id m of Some cid \<Rightarrow> cancel s cid | None \<Rightarrow> s))
   | (s', _) \<Rightarrow> as_requests s' = as_requests s"
  by (auto simp: prepare_message_def request_no_cancellation dest!: reserve_cases
      split: option.splits prod.splits admission_failure.splits)

lemma try_admit_cases:
  "case try_admit s w before_deadline of
     (s', Inl w') \<Rightarrow> w' = w \<and> before_deadline \<and> as_requests s' = as_requests s
   | (s', Inr (Deliver m)) \<Rightarrow> m = aw_message w \<and> as_requests s (aw_id w) = None \<and>
       as_requests s' = (as_requests s)(aw_id w \<mapsto> request_state_default)
   | (s', Inr (Reject p)) \<Rightarrow> pe_id p = Some (aw_id w) \<and> as_requests s' = as_requests s
   | (s', Inr Close) \<Rightarrow> as_requests s' = as_requests s
   | (s', Inr _) \<Rightarrow> False"
  by (auto simp: try_admit_def dest!: reserve_cases split: option.splits prod.splits admission_failure.splits)

text \<open>
  A request that waits for the id of a cancelled predecessor is never lost. Each round of
  the loop keeps it waiting (only while the deadline lies ahead), or delivers exactly this request
  with a fresh reservation, or queues an error that carries its id, or ends the connection; no
  further frame is read meanwhile.
\<close>

theorem waiting_request_is_accounted_for:
  assumes "tr_awaiting t = Some w" "receive_step t before_deadline permit next = (t', out)"
  shows "(before_deadline \<and> tr_awaiting t' = Some w \<and> out = Continue) \<or>
    (out = Return (Some (aw_message w)) \<and> tr_awaiting t' = None \<and>
      as_requests (tr_admission t') (aw_id w) = Some request_state_default) \<or>
    (out = Continue \<and> tr_awaiting t' = None \<and> (\<exists>p. tr_pending t' = Some p \<and> pe_id p = Some (aw_id w))) \<or>
    out = Return None"
  using assms try_admit_cases [where s = "tr_admission t" and w = w and before_deadline = before_deadline]
  by (auto simp: receive_step_def Let_def split: if_splits prod.splits sum.splits preparation.splits)

definition sample_transport :: transport where
  "sample_transport =
     \<lparr>tr_family = Modern, tr_admission = cancel (sample_admission Running) (Number 4), tr_error_writer_failed = False,
      tr_pending = None, tr_awaiting = Some \<lparr>aw_message = OtherMessage, aw_id = Number 4\<rparr>, tr_sent = []\<rparr>"

theorem waiting_request_is_accounted_for_witness:
  "tr_awaiting (fst (receive_step sample_transport True True None)) = tr_awaiting sample_transport"
proof -
  have step: "receive_step sample_transport True True None = (sample_transport, Continue)"
    by (simp add: receive_step_def sample_transport_def try_admit_def reserve_def cancel_def sample_admission_def
        admission_new_def request_state_default_def)
  have "tr_awaiting sample_transport = Some \<lparr>aw_message = OtherMessage, aw_id = Number 4\<rparr>"
    by (simp add: sample_transport_def)
  from waiting_request_is_accounted_for [OF this step] show ?thesis using step by simp
qed

definition transport_ok :: "transport \<Rightarrow> bool" where
  "transport_ok t \<longleftrightarrow> tr_awaiting t = None \<or> tr_pending t = None"

lemma receive_frame_sent: "receive_frame t next = (t', out) \<Longrightarrow> tr_sent t' = tr_sent t"
  by (auto simp: receive_frame_def split: option.splits inbound_frame.splits prod.splits preparation.splits)

lemma receive_frame_ok:
  assumes "tr_awaiting t = None" "tr_pending t = None" "receive_frame t next = (t', out)"
  shows "transport_ok t'"
  using assms
  by (auto simp: receive_frame_def transport_ok_def split: option.splits inbound_frame.splits prod.splits preparation.splits)

text \<open>
  One error at a time, and none is dropped. The loop keeps at most one of a waiting request
  and a pending error, reads no frame while it has one, and a pending error leaves the loop only
  by being sent, in order, or with the end of the connection; a terminal error ends it.
\<close>

theorem pending_errors_are_sent_in_order:
  assumes "transport_ok t" "receive_step t before_deadline permit next = (t', out)"
  shows "transport_ok t' \<and>
    (tr_awaiting t \<noteq> None \<or> tr_pending t \<noteq> None \<longrightarrow> receive_step t before_deadline permit next' = (t', out)) \<and>
    (\<forall>p. tr_pending t = Some p \<longrightarrow>
       tr_pending t' = None \<and> tr_sent t' = tr_sent t @ [p] \<and> (pe_terminal p \<longrightarrow> out = Return None) \<or>
       out = Return None \<and> tr_pending t' = Some p \<and> tr_sent t' = tr_sent t) \<and>
    (tr_pending t = None \<longrightarrow> tr_sent t' = tr_sent t)"
proof (cases "tr_error_writer_failed t")
  case True
  with assms show ?thesis by (auto simp: receive_step_def)
next
  case False
  show ?thesis
  proof (cases "tr_awaiting t")
    case (Some w)
    then have "tr_pending t = None" using assms(1) by (simp add: transport_ok_def)
    with Some False assms(2) show ?thesis
      by (auto simp: receive_step_def Let_def transport_ok_def split: prod.splits sum.splits preparation.splits)
  next
    case None
    note na = None
    show ?thesis
    proof (cases "tr_pending t")
      case None
      then have "receive_frame t next = (t', out)" using na False assms(2) by (simp add: receive_step_def)
      from receive_frame_ok [OF na None this] receive_frame_sent [OF this] na None show ?thesis by simp
    next
      case (Some p)
      with na False assms(2) show ?thesis
        by (auto simp: receive_step_def Let_def transport_ok_def split: if_splits)
    qed
  qed
qed

definition sample_pending :: pending_error where
  "sample_pending = \<lparr>pe_error = request_capacity_error, pe_id = Some (Number 9), pe_terminal = False\<rparr>"

theorem pending_errors_are_sent_in_order_witness:
  "tr_sent (fst (receive_step (sample_transport\<lparr>tr_awaiting := None, tr_pending := Some sample_pending\<rparr>) True True None)) =
     [sample_pending]"
proof -
  let ?t = "sample_transport\<lparr>tr_awaiting := None, tr_pending := Some sample_pending\<rparr>"
  obtain t' out where step: "receive_step ?t True True None = (t', out)" by (metis surj_pair)
  moreover have "out = Continue"
    using step by (auto simp: receive_step_def sample_transport_def sample_pending_def)
  moreover have "transport_ok ?t" by (simp add: transport_ok_def)
  ultimately show ?thesis
    using pending_errors_are_sent_in_order [of ?t True True None t' out None]
    by (auto simp: sample_transport_def)
qed

lemma map_of_object_insert: "map_of (object_insert k v ms) x = (if x = k then Some v else map_of ms x)"
  by (induction k v ms rule: object_insert.induct) auto

text \<open>
  Outbound frames are bounded lines with an id. What the encoder appends to the output is the
  printed value and a newline, at most one mebibyte together, and the value printed for an error
  without a request id is an object whose id member is null, stamped or not.
\<close>

theorem outbound_frames_are_bounded:
  assumes "encode_message to_value to_vec implementation family msg output = Some output'"
  shows "\<exists>v encoded. output' = output @ encoded @ [CHR 0x0A] \<and> to_vec v = Some encoded \<and>
    length (encoded @ [CHR 0x0A]) \<le> 1048576 \<and>
    (msg = ServerError None \<longrightarrow> (\<exists>members. v = JObject members \<and> map_of members ''id'' = Some JNull))"
proof -
  from assms obtain v0 v1 v encoded where
    v1: "ensure_error_id msg v0 = Some v1" and
    v: "(if family = Modern then stamp_server_info implementation v1 else Some v1) = Some v" and
    enc: "to_vec v = Some encoded" and
    out: "(if length encoded + 1 > MAX_MCP_MESSAGE_BYTES then None else Some (output @ encoded @ [CHR 0x0A])) = Some output'"
    unfolding encode_message_def bind_eq_Some_conv by blast
  have "\<exists>members. v = JObject members \<and> map_of members ''id'' = Some JNull" if "msg = ServerError None"
  proof -
    from that v1 obtain ms where "v1 = JObject ms" "map_of ms ''id'' = Some JNull"
      by (auto simp: ensure_error_id_def map_of_object_insert split: json.splits)
    with v show ?thesis
      by (auto simp: stamp_server_info_def map_of_object_insert split: if_splits option.splits json.splits)
  qed
  with enc out show ?thesis
    by (intro exI [of _ v] exI [of _ encoded]) (auto simp: MAX_MCP_MESSAGE_BYTES_def split: if_splits)
qed

theorem outbound_frames_are_bounded_witness:
  "\<exists>v encoded. ''{}'' @ [CHR 0x0A] = [] @ encoded @ [CHR 0x0A] \<and>
    (\<lambda>v. Some ''{}'') (v :: json) = Some encoded \<and> length (encoded @ [CHR 0x0A]) \<le> 1048576 \<and>
    (ServerError None = ServerError None \<longrightarrow> (\<exists>members. v = JObject members \<and> map_of members ''id'' = Some JNull))"
proof (rule outbound_frames_are_bounded)
  show "encode_message (\<lambda>m. Some (JObject [])) (\<lambda>v. Some ''{}'') None Legacy (ServerError None) [] = Some (''{}'' @ [CHR 0x0A])"
    by (simp add: encode_message_def ensure_error_id_def MAX_MCP_MESSAGE_BYTES_def)
qed

end
