(* ===== verification/Store_World.thy ===== *)
theory Store_World
  imports Artifact_Model
begin

text \<open>
  The mutable store as the transactions of \<open>store/rename.rs\<close> and \<open>store/artifact/rollback.rs\<close> see
  it: the entries of the spaces directory, the trash, and the small set of system calls of
  \<open>store.rs\<close> that change them. Every system call consults a fault script, so one run of a program
  is a run with chosen failures: a call may return an error (the program then goes on with its
  error path) or the process may stop there, after which nothing more happens. A write may stop
  after any prefix of its bytes; every other call is atomic, as the kernel documents for
  \<open>rename\<close>, \<open>unlink\<close> and exclusive creation. The calls take effect in program order, which is
  what the \<open>sync_directory\<close> after each of them is for.

  Programs over this store are reasoned about with triples that have a second postcondition, for
  the states in which the program was cut short.
\<close>

subsection \<open>Entries\<close>

record dir_node =
  dn_stat :: file_stat
  dn_home :: "file_stat sys"
  dn_files :: "string \<rightharpoonup> file_stat \<times> string"

text \<open>A symbolic link records whether it resolves, which only \<open>Path::exists\<close> asks.\<close>

datatype node = DirNode dir_node | FileNode file_stat string | LinkNode file_stat bool | OtherNode file_stat

fun node_stat :: "node \<Rightarrow> file_stat" where
  "node_stat (DirNode n) = dn_stat n"
| "node_stat (FileNode m _) = m"
| "node_stat (LinkNode m _) = m"
| "node_stat (OtherNode m) = m"

definition MANIFEST_FILE :: string where "MANIFEST_FILE = ''.quarters.json''"
definition ACTIVE_FILE :: string where "ACTIVE_FILE = ''.active''"
definition CREATION_LOCK_FILE :: string where "CREATION_LOCK_FILE = ''.creating.lock''"

lemma control_files_distinct [simp]:
  "MANIFEST_FILE \<noteq> CREATION_LOCK_FILE" "ACTIVE_FILE \<noteq> CREATION_LOCK_FILE"
  "CREATION_LOCK_FILE \<noteq> MANIFEST_FILE" "CREATION_LOCK_FILE \<noteq> ACTIVE_FILE"
  "MANIFEST_FILE \<noteq> ACTIVE_FILE" "ACTIVE_FILE \<noteq> MANIFEST_FILE"
  by (simp_all add: MANIFEST_FILE_def ACTIVE_FILE_def CREATION_LOCK_FILE_def)

definition inner_stat :: "dir_node \<Rightarrow> string \<Rightarrow> file_stat sys" where
  "inner_stat n name = (case dn_files n name of None \<Rightarrow> SysNotFound | Some (m, _) \<Rightarrow> SysOk m)"

text \<open>What the opener of a space sees of an entry.\<close>

fun as_space_dir :: "node \<Rightarrow> space_dir" where
  "as_space_dir (DirNode n) =
     \<lparr>sd_root = SysOk (dn_stat n), sd_active = (inner_stat n ACTIVE_FILE, inner_stat n ACTIVE_FILE),
      sd_home = dn_home n, sd_manifest = quiet_read (dn_files n MANIFEST_FILE)\<rparr>"
| "as_space_dir e =
     \<lparr>sd_root = SysOk (node_stat e), sd_active = (SysFail, SysFail), sd_home = SysFail,
      sd_manifest = quiet_read None\<rparr>"

record disk =
  dk_spaces :: "string \<rightharpoonup> node"
  dk_trash :: "(nat \<times> node) list"
  dk_next :: nat

subsection \<open>Programs with faults\<close>

datatype fault = Go | Fault nat | Crash nat

datatype 'a outcome = Done 'a | Failed quarters_error | Crashed

type_synonym 'a io = "disk \<times> fault list \<Rightarrow> 'a outcome \<times> disk \<times> fault list"

definition ret :: "'a \<Rightarrow> 'a io" where
  "ret x w = (Done x, w)"

definition fail :: "quarters_error \<Rightarrow> 'a io" where
  "fail e w = (Failed e, w)"

definition bind_io :: "'a io \<Rightarrow> ('a \<Rightarrow> 'b io) \<Rightarrow> 'b io" where
  "bind_io m f w =
     (case m w of
        (Done x, w') \<Rightarrow> f x w'
      | (Failed e, w') \<Rightarrow> (Failed e, w')
      | (Crashed, w') \<Rightarrow> (Crashed, w'))"

definition lift :: "'a result \<Rightarrow> 'a io" where
  "lift r = (case r of Inl e \<Rightarrow> fail e | Inr x \<Rightarrow> ret x)"

text \<open>\<open>match\<close> on a result: an error value is handled, the end of the process is not.\<close>

definition catch :: "'a io \<Rightarrow> (quarters_error \<Rightarrow> 'a io) \<Rightarrow> 'a io" where
  "catch m h w =
     (case m w of
        (Done x, w') \<Rightarrow> (Done x, w')
      | (Failed e, w') \<Rightarrow> h e w'
      | (Crashed, w') \<Rightarrow> (Crashed, w'))"

text \<open>
  One system call: its complete effect, or, when the script says so, an error or the end of the
  process after a partial effect.
\<close>

definition syscall :: "string \<Rightarrow> (nat \<Rightarrow> disk \<Rightarrow> disk) \<Rightarrow> (disk \<Rightarrow> 'a result \<times> disk) \<Rightarrow> 'a io" where
  "syscall action part op w =
     (case w of (d, script) \<Rightarrow>
       (case script of
          Fault n # rest \<Rightarrow> (Failed (QErr SystemError action), part n d, rest)
        | Crash n # rest \<Rightarrow> (Crashed, part n d, rest)
        | _ \<Rightarrow> (case op d of
             (Inl e, d') \<Rightarrow> (Failed e, d', tl script)
           | (Inr x, d') \<Rightarrow> (Done x, d', tl script))))"

abbreviation atomic :: "nat \<Rightarrow> disk \<Rightarrow> disk" where "atomic \<equiv> \<lambda>_ d. d"

text \<open>A loop over a list with early exit.\<close>

fun iterate :: "('a \<Rightarrow> 's \<Rightarrow> 's io) \<Rightarrow> 'a list \<Rightarrow> 's \<Rightarrow> 's io" where
  "iterate f [] s = ret s"
| "iterate f (x # xs) s = bind_io (f x s) (iterate f xs)"

subsection \<open>System calls on the spaces directory\<close>

definition read_entry :: "string \<Rightarrow> string \<Rightarrow> node option io" where
  "read_entry action name = syscall action atomic (\<lambda>d. (Ok (dk_spaces d name), d))"

definition entry_exists :: "string \<Rightarrow> bool io" where
  "entry_exists name = bind_io (read_entry ''inspect path'' name) (\<lambda>e. ret (e \<noteq> None))"

text \<open>\<open>Path::exists\<close> follows links and answers \<open>false\<close> when the inspection itself fails.\<close>

definition path_exists :: "string \<Rightarrow> bool io" where
  "path_exists name =
     catch (bind_io (read_entry ''inspect path'' name) (\<lambda>e.
       ret (case e of None \<Rightarrow> False | Some (LinkNode _ resolves) \<Rightarrow> resolves | Some _ \<Rightarrow> True)))
       (\<lambda>_. ret False)"

text \<open>Enumerating the spaces directory; the order is the kernel's and a parameter.\<close>

definition read_dir :: "((string \<rightharpoonup> node) \<Rightarrow> string list) \<Rightarrow> string \<Rightarrow> string list io" where
  "read_dir order action = syscall action atomic (\<lambda>d. (Ok (order (dk_spaces d)), d))"

definition next_entry :: "string \<Rightarrow> unit io" where
  "next_entry action = syscall action atomic (\<lambda>d. (Ok (), d))"

definition sync_directory :: "unit io" where
  "sync_directory = syscall ''sync directory'' atomic (\<lambda>d. (Ok (), d))"

definition empty_dir :: "node \<Rightarrow> bool" where
  "empty_dir e = (case e of DirNode n \<Rightarrow> dn_files n = Map.empty \<and> dn_home n = SysNotFound | _ \<Rightarrow> False)"

text \<open>
  \<open>rename\<close>: the destination may be absent, a file replaced by a file, or an empty directory
  replaced by a directory.
\<close>

definition may_replace :: "node \<Rightarrow> node option \<Rightarrow> bool" where
  "may_replace e dst =
     (case dst of
        None \<Rightarrow> True
      | Some old \<Rightarrow> (case e of DirNode _ \<Rightarrow> empty_dir old | _ \<Rightarrow> (case old of DirNode _ \<Rightarrow> False | _ \<Rightarrow> True)))"

definition rename_entry :: "string \<Rightarrow> string \<Rightarrow> string \<Rightarrow> unit io" where
  "rename_entry action src dst = syscall action atomic (\<lambda>d.
     (case dk_spaces d src of
        None \<Rightarrow> (Err SystemError action, d)
      | Some e \<Rightarrow>
          if src = dst then (Ok (), d)
          else if may_replace e (dk_spaces d dst)
          then (Ok (), d\<lparr>dk_spaces := (dk_spaces d)(src := None, dst \<mapsto> e)\<rparr>)
          else (Err SystemError action, d)))"

definition remove_file :: "string \<Rightarrow> string \<Rightarrow> unit io" where
  "remove_file action name = syscall action atomic (\<lambda>d.
     (case dk_spaces d name of
        None \<Rightarrow> (Err SystemError action, d)
      | Some (DirNode _) \<Rightarrow> (Err SystemError action, d)
      | Some _ \<Rightarrow> (Ok (), d\<lparr>dk_spaces := (dk_spaces d)(name := None)\<rparr>)))"

text \<open>The metadata of a file that the program has just created with mode 0600.\<close>

definition created_stat :: "nat \<Rightarrow> nat \<Rightarrow> nat \<Rightarrow> file_stat" where
  "created_stat uid ino len =
     \<lparr>st_dev = 0, st_ino = ino, st_uid = uid, st_gid = 0, st_mode = 33152, st_nlink = 1,
      st_size = int len, st_mtime = 0, st_mtime_nsec = 0, st_ctime = 0, st_ctime_nsec = 0\<rparr>"

definition put_file :: "nat \<Rightarrow> string \<Rightarrow> string \<Rightarrow> disk \<Rightarrow> disk" where
  "put_file uid name bytes d =
     d\<lparr>dk_spaces := (dk_spaces d)(name \<mapsto> FileNode (created_stat uid (dk_next d) (length bytes)) bytes),
       dk_next := Suc (dk_next d)\<rparr>"

definition write_private_file :: "nat \<Rightarrow> string \<Rightarrow> string \<Rightarrow> unit io" where
  "write_private_file uid name bytes =
     bind_io (syscall ''create private file'' atomic (\<lambda>d.
       if dk_spaces d name \<noteq> None then (Err SystemError ''create private file'', d)
       else (Ok (), put_file uid name [] d))) (\<lambda>_.
     bind_io (syscall ''write private file'' (\<lambda>n. put_file uid name (take n bytes)) (\<lambda>d.
       (Ok (), put_file uid name bytes d))) (\<lambda>_.
     syscall ''sync private file'' atomic (\<lambda>d. (Ok (), d))))"

text \<open>
  \<open>unique_suffix\<close> never repeats, so a destination in the trash is always free; a ticket stands
  for the path.
\<close>

definition rename_to_trash :: "string \<Rightarrow> string \<Rightarrow> nat io" where
  "rename_to_trash action name = syscall action atomic (\<lambda>d.
     (case dk_spaces d name of
        None \<Rightarrow> (Err SystemError action, d)
      | Some e \<Rightarrow>
          (Ok (dk_next d), d\<lparr>dk_spaces := (dk_spaces d)(name := None),
                             dk_trash := (dk_next d, e) # dk_trash d, dk_next := Suc (dk_next d)\<rparr>)))"

definition remove_tree_restoring_owner_access :: "nat \<Rightarrow> unit io" where
  "remove_tree_restoring_owner_access ticket = syscall ''remove tree'' atomic (\<lambda>d.
     (Ok (), d\<lparr>dk_trash := filter (\<lambda>e. fst e \<noteq> ticket) (dk_trash d)\<rparr>))"

definition create_private_dir :: "unit io" where
  "create_private_dir = syscall ''create private directory'' atomic (\<lambda>d. (Ok (), d))"

definition edit_directory ::
  "string \<Rightarrow> string \<Rightarrow> ((string \<rightharpoonup> file_stat \<times> string) \<Rightarrow> (string \<rightharpoonup> file_stat \<times> string) result) \<Rightarrow> unit io" where
  "edit_directory action name change = syscall action atomic (\<lambda>d.
     (case dk_spaces d name of
        Some (DirNode n) \<Rightarrow>
          (case change (dn_files n) of
             Inl e \<Rightarrow> (Inl e, d)
           | Inr files \<Rightarrow> (Ok (), d\<lparr>dk_spaces := (dk_spaces d)(name \<mapsto> DirNode (n\<lparr>dn_files := files\<rparr>))\<rparr>))
      | _ \<Rightarrow> (Err SystemError action, d)))"

definition private_bytes :: "nat \<Rightarrow> node option \<Rightarrow> string result" where
  "private_bytes uid e =
     read_private_file uid (quiet_read
       (case e of None \<Rightarrow> None | Some (FileNode m bytes) \<Rightarrow> Some (m, bytes) | Some e \<Rightarrow> Some (node_stat e, [])))"

subsection \<open>Weakest preconditions\<close>

text \<open>
  A program meets \<open>Q\<close> on a normal return, \<open>E\<close> on an error and \<open>C\<close> when the process stops, for
  every script whose entries are among the admitted faults \<open>F\<close>.
\<close>

fun post :: "('a \<Rightarrow> disk \<Rightarrow> bool) \<Rightarrow> (quarters_error \<Rightarrow> disk \<Rightarrow> bool) \<Rightarrow> (disk \<Rightarrow> bool) \<Rightarrow> 'a outcome \<Rightarrow> disk \<Rightarrow> bool" where
  "post Q E C (Done x) d = Q x d"
| "post Q E C (Failed e) d = E e d"
| "post Q E C Crashed d = C d"

definition wp ::
  "(fault \<Rightarrow> bool) \<Rightarrow> 'a io \<Rightarrow> ('a \<Rightarrow> disk \<Rightarrow> bool) \<Rightarrow> (quarters_error \<Rightarrow> disk \<Rightarrow> bool) \<Rightarrow> (disk \<Rightarrow> bool) \<Rightarrow> disk \<Rightarrow> bool" where
  "wp F m Q E C d \<longleftrightarrow>
     (\<forall>script r d' rest. list_all F script \<longrightarrow> m (d, script) = (r, d', rest) \<longrightarrow>
        list_all F rest \<and> post Q E C r d')"

named_theorems wp_rules \<open>backward rules, one per program construct\<close>

lemma wpI:
  "(\<And>script r d' rest. list_all F script \<Longrightarrow> m (d, script) = (r, d', rest) \<Longrightarrow>
      list_all F rest \<and> post Q E C r d') \<Longrightarrow> wp F m Q E C d"
  by (simp add: wp_def)

lemma wp_run:
  "wp F m Q E C d \<Longrightarrow> list_all F script \<Longrightarrow> m (d, script) = (r, d', rest) \<Longrightarrow>
     list_all F rest \<and> post Q E C r d'"
  by (simp add: wp_def)

lemma wp_any_script: "wp (\<lambda>_. True) m Q E C d \<Longrightarrow> m (d, script) = (r, d', rest) \<Longrightarrow> post Q E C r d'"
  by (auto simp: list_all_iff dest: wp_run)

lemma wp_ret [wp_rules]: "Q x d \<Longrightarrow> wp F (ret x) Q E C d"
  by (auto simp: wp_def ret_def)

lemma wp_fail [wp_rules]: "E e d \<Longrightarrow> wp F (fail e) Q E C d"
  by (auto simp: wp_def fail_def)

lemma wp_bind [wp_rules]:
  assumes "wp F m (\<lambda>x. wp F (f x) Q E C) E C d"
  shows "wp F (bind_io m f) Q E C d"
proof (rule wpI)
  fix script r d' rest
  assume F: "list_all F script" and run: "bind_io m f (d, script) = (r, d', rest)"
  obtain r1 d1 s1 where m: "m (d, script) = (r1, d1, s1)" by (rule prod_cases3)
  from wp_run [OF assms F m] have "list_all F s1" and p: "post (\<lambda>x. wp F (f x) Q E C) E C r1 d1" by auto
  with run m show "list_all F rest \<and> post Q E C r d'"
    by (cases r1) (auto simp: bind_io_def dest: wp_run)
qed

lemma wp_catch [wp_rules]:
  assumes "wp F m Q (\<lambda>e. wp F (h e) Q E C) C d"
  shows "wp F (catch m h) Q E C d"
proof (rule wpI)
  fix script r d' rest
  assume F: "list_all F script" and run: "catch m h (d, script) = (r, d', rest)"
  obtain r1 d1 s1 where m: "m (d, script) = (r1, d1, s1)" by (rule prod_cases3)
  from wp_run [OF assms F m] have "list_all F s1" and p: "post Q (\<lambda>e. wp F (h e) Q E C) C r1 d1" by auto
  with run m show "list_all F rest \<and> post Q E C r d'"
    by (cases r1) (auto simp: catch_def dest: wp_run)
qed

lemma wp_lift [wp_rules]:
  "(\<And>e. r = Inl e \<Longrightarrow> E e d) \<Longrightarrow> (\<And>x. r = Inr x \<Longrightarrow> Q x d) \<Longrightarrow> wp F (lift r) Q E C d"
  unfolding lift_def by (cases r) (auto intro: wp_rules)

lemma wp_syscall:
  assumes "\<And>n. F (Fault n) \<Longrightarrow> E (QErr SystemError action) (part n d)" and "\<And>n. F (Crash n) \<Longrightarrow> C (part n d)"
    and "\<And>e d'. op d = (Inl e, d') \<Longrightarrow> E e d'" and "\<And>x d'. op d = (Inr x, d') \<Longrightarrow> Q x d'"
  shows "wp F (syscall action part op) Q E C d"
proof (rule wpI)
  fix script r d' rest
  assume F: "list_all F script" and run: "syscall action part op (d, script) = (r, d', rest)"
  obtain r1 d1 where op: "op d = (r1, d1)" by (rule prod.exhaust)
  show "list_all F rest \<and> post Q E C r d'"
    using F run op assms
    by (cases r1) (auto simp: syscall_def split: list.splits fault.splits)
qed

lemma wp_conseq:
  assumes "wp F m Q E C d" and "\<And>x d'. Q x d' \<Longrightarrow> Q' x d'" and "\<And>e d'. E e d' \<Longrightarrow> E' e d'"
    and "\<And>d'. C d' \<Longrightarrow> C' d'"
  shows "wp F m Q' E' C' d"
proof (rule wpI)
  fix script r d' rest
  assume "list_all F script" and "m (d, script) = (r, d', rest)"
  from wp_run [OF assms(1) this] show "list_all F rest \<and> post Q' E' C' r d'"
    using assms(2-4) by (cases r) auto
qed

text \<open>An invariant of the loop body is an invariant of the loop.\<close>

lemma wp_iterate:
  assumes "I s d" and "\<And>x s d. x \<in> set xs \<Longrightarrow> I s d \<Longrightarrow> wp F (f x s) I E C d"
  shows "wp F (iterate f xs s) I E C d"
  using assms
proof (induction xs arbitrary: s d)
  case (Cons x xs)
  have "wp F (f x s) (\<lambda>s'. wp F (iterate f xs s') I E C) E C d"
    by (rule wp_conseq [OF Cons.prems(2) [of x s d]]) (auto intro!: Cons.IH Cons.prems(1,2))
  then show ?case by (simp add: wp_bind)
qed (auto intro: wp_rules)

lemma wp_iterate_list:
  assumes "I xs s d" and "\<And>x xs s d. I (x # xs) s d \<Longrightarrow> wp F (f x s) (I xs) E C d"
  shows "wp F (iterate f xs s) (I []) E C d"
  using assms(1)
proof (induction xs arbitrary: s d)
  case (Cons x xs)
  have "wp F (f x s) (\<lambda>s'. wp F (iterate f xs s') (I []) E C) E C d"
    by (rule wp_conseq [OF assms(2) [OF Cons.prems]]) (auto intro: Cons.IH)
  then show ?case by (simp add: wp_bind)
qed (auto intro: wp_rules)

text \<open>
  The triple of a transaction step: a precondition, the postcondition of a normal return, and one
  condition for everything else.
\<close>

definition triple :: "(fault \<Rightarrow> bool) \<Rightarrow> (disk \<Rightarrow> bool) \<Rightarrow> 'a io \<Rightarrow> ('a \<Rightarrow> disk \<Rightarrow> bool) \<Rightarrow> (disk \<Rightarrow> bool) \<Rightarrow> bool" where
  "triple F P m Q C \<longleftrightarrow> (\<forall>d. P d \<longrightarrow> wp F m Q (\<lambda>_. C) C d)"

lemma triple_wp: "triple F P m Q C \<Longrightarrow> P d \<Longrightarrow> wp F m Q (\<lambda>_. C) C d"
  by (simp add: triple_def)

lemma triple_bind:
  assumes "triple F P m R C" and "\<And>x. triple F (R x) (f x) Q C"
  shows "triple F P (bind_io m f) Q C"
  unfolding triple_def
proof (intro allI impI wp_bind)
  fix d
  assume "P d"
  with assms(1) have "wp F m R (\<lambda>_. C) C d" by (rule triple_wp)
  then show "wp F m (\<lambda>x. wp F (f x) Q (\<lambda>_. C) C) (\<lambda>_. C) C d"
    by (rule wp_conseq) (auto intro: triple_wp [OF assms(2)])
qed

lemma triple_conseq:
  assumes "triple F P m Q C" and "\<And>d. P' d \<Longrightarrow> P d" and "\<And>x d. Q x d \<Longrightarrow> Q' x d" and "\<And>d. C d \<Longrightarrow> C' d"
  shows "triple F P' m Q' C'"
  unfolding triple_def
proof (intro allI impI)
  fix d
  assume "P' d"
  then have "wp F m Q (\<lambda>_. C) C d" by (intro triple_wp [OF assms(1)] assms(2))
  then show "wp F m Q' (\<lambda>_. C') C' d" by (rule wp_conseq) (auto intro: assms(3,4))
qed

lemma triple_ret: "(\<And>d. P d \<Longrightarrow> Q x d) \<Longrightarrow> triple F P (ret x) Q C"
  by (simp add: triple_def wp_rules)

lemma triple_fail: "(\<And>d. P d \<Longrightarrow> C d) \<Longrightarrow> triple F P (fail e) Q C"
  by (simp add: triple_def wp_rules)

lemma triple_if:
  "(b \<Longrightarrow> triple F P m Q C) \<Longrightarrow> (\<not> b \<Longrightarrow> triple F P n Q C) \<Longrightarrow> triple F P (if b then m else n) Q C"
  by simp

lemma triple_catch_fail:
  assumes "triple F P m Q C"
  shows "triple F P (catch m (\<lambda>e. fail (f e))) Q C"
  unfolding triple_def
proof (intro allI impI wp_catch)
  fix d
  assume "P d"
  with assms have "wp F m Q (\<lambda>_. C) C d" by (rule triple_wp)
  then show "wp F m Q (\<lambda>e. wp F (fail (f e)) Q (\<lambda>_. C) C) C d"
    by (rule wp_conseq) (auto intro: wp_fail)
qed

lemma triple_lift:
  assumes "\<And>d e. P d \<Longrightarrow> r = Inl e \<Longrightarrow> C d" and "\<And>d x. P d \<Longrightarrow> r = Inr x \<Longrightarrow> Q x d"
  shows "triple F P (lift r) Q C"
  using assms unfolding triple_def by (auto intro: wp_lift)

lemma triple_syscall:
  assumes "\<And>d n. P d \<Longrightarrow> C (part n d)"
    and "\<And>d e d'. P d \<Longrightarrow> op d = (Inl e, d') \<Longrightarrow> C d'"
    and "\<And>d x d'. P d \<Longrightarrow> op d = (Inr x, d') \<Longrightarrow> Q x d'"
  shows "triple F P (syscall action part op) Q C"
  unfolding triple_def
proof (intro allI impI)
  fix d
  assume "P d"
  then show "wp F (syscall action part op) Q (\<lambda>_. C) C d"
    by (intro wp_syscall) (use assms in blast)+
qed

subsection \<open>Runs without faults\<close>

text \<open>The run in which no call is disturbed, for results the program is to produce.\<close>

definition runs :: "'a io \<Rightarrow> ('a \<Rightarrow> disk \<Rightarrow> bool) \<Rightarrow> disk \<Rightarrow> bool" where
  "runs m Q d \<longleftrightarrow> (\<exists>x d'. m (d, []) = (Done x, d', []) \<and> Q x d')"

named_theorems runs_rules \<open>backward rules for undisturbed runs\<close>

lemma runs_ret [runs_rules]: "Q x d \<Longrightarrow> runs (ret x) Q d"
  by (simp add: runs_def ret_def)

lemma runs_bind [runs_rules]: "runs m (\<lambda>x. runs (f x) Q) d \<Longrightarrow> runs (bind_io m f) Q d"
  by (auto simp: runs_def bind_io_def)

lemma runs_catch [runs_rules]: "runs m Q d \<Longrightarrow> runs (catch m h) Q d"
  by (auto simp: runs_def catch_def)

lemma runs_lift [runs_rules]: "r = Inr x \<Longrightarrow> Q x d \<Longrightarrow> runs (lift r) Q d"
  by (simp add: runs_def lift_def ret_def)

lemma runs_syscall: "op d = (Inr x, d') \<Longrightarrow> Q x d' \<Longrightarrow> runs (syscall action part op) Q d"
  by (simp add: runs_def syscall_def)

lemma runs_conseq: "runs m Q d \<Longrightarrow> (\<And>x d'. Q x d' \<Longrightarrow> Q' x d') \<Longrightarrow> runs m Q' d"
  by (auto simp: runs_def)

lemma runs_iterate:
  assumes "I xs s d" and "\<And>x xs s d. I (x # xs) s d \<Longrightarrow> runs (f x s) (I xs) d"
  shows "runs (iterate f xs s) (I []) d"
  using assms(1)
proof (induction xs arbitrary: s d)
  case (Cons x xs)
  have "runs (f x s) (\<lambda>s'. runs (iterate f xs s') (I [])) d"
    by (rule runs_conseq [OF assms(2) [OF Cons.prems]]) (rule Cons.IH)
  then show ?case by (simp add: runs_bind)
qed (auto intro: runs_rules)

text \<open>A normal return of a run without faults satisfies the normal postcondition of the triple.\<close>

lemma runs_wp: "runs m Q d \<Longrightarrow> wp F m R E C d \<Longrightarrow> runs m (\<lambda>x d'. Q x d' \<and> R x d') d"
  unfolding runs_def by (auto dest: wp_run [where script = "[]"])

subsection \<open>The system calls under these rules\<close>

lemma wp_read_entry [wp_rules]:
  "(\<And>a. E (QErr SystemError a) d) \<Longrightarrow> C d \<Longrightarrow> Q (dk_spaces d name) d \<Longrightarrow> wp F (read_entry action name) Q E C d"
  unfolding read_entry_def by (rule wp_syscall) auto

lemma wp_sync_directory [wp_rules]:
  "(\<And>a. E (QErr SystemError a) d) \<Longrightarrow> C d \<Longrightarrow> Q () d \<Longrightarrow> wp F sync_directory Q E C d"
  unfolding sync_directory_def by (rule wp_syscall) auto

lemma wp_create_private_dir [wp_rules]:
  "(\<And>a. E (QErr SystemError a) d) \<Longrightarrow> C d \<Longrightarrow> Q () d \<Longrightarrow> wp F create_private_dir Q E C d"
  unfolding create_private_dir_def by (rule wp_syscall) auto

lemma wp_entry_exists [wp_rules]:
  "(\<And>a. E (QErr SystemError a) d) \<Longrightarrow> C d \<Longrightarrow> Q (dk_spaces d name \<noteq> None) d \<Longrightarrow> wp F (entry_exists name) Q E C d"
  unfolding entry_exists_def by (intro wp_rules)

lemma triple_read_entry:
  "(\<And>d. P d \<Longrightarrow> C d \<and> Q (dk_spaces d name) d) \<Longrightarrow> triple F P (read_entry action name) Q C"
  unfolding triple_def by (intro allI impI wp_rules) auto

lemma triple_entry_exists:
  "(\<And>d. P d \<Longrightarrow> C d \<and> Q (dk_spaces d name \<noteq> None) d) \<Longrightarrow> triple F P (entry_exists name) Q C"
  unfolding triple_def by (intro allI impI wp_rules) auto

lemma triple_sync: "(\<And>d. P d \<Longrightarrow> C d \<and> Q () d) \<Longrightarrow> triple F P sync_directory Q C"
  unfolding triple_def by (intro allI impI wp_rules) auto

lemma triple_create_private_dir: "(\<And>d. P d \<Longrightarrow> C d \<and> Q () d) \<Longrightarrow> triple F P create_private_dir Q C"
  unfolding triple_def by (intro allI impI wp_rules) auto

lemma triple_rename:
  assumes "\<And>d. P d \<Longrightarrow> C d"
    and "\<And>d e. P d \<Longrightarrow> dk_spaces d src = Some e \<Longrightarrow> src \<noteq> dst \<Longrightarrow> may_replace e (dk_spaces d dst) \<Longrightarrow>
       Q () (d\<lparr>dk_spaces := (dk_spaces d)(src := None, dst \<mapsto> e)\<rparr>)"
    and "src \<noteq> dst"
  shows "triple F P (rename_entry action src dst) Q C"
  unfolding rename_entry_def
  by (rule triple_syscall) (use assms in \<open>auto split: option.splits if_splits\<close>)

lemma triple_remove_file:
  assumes "\<And>d. P d \<Longrightarrow> C d" and "\<And>d. P d \<Longrightarrow> Q () (d\<lparr>dk_spaces := (dk_spaces d)(name := None)\<rparr>)"
  shows "triple F P (remove_file action name) Q C"
  unfolding remove_file_def
  by (rule triple_syscall) (use assms in \<open>auto split: option.splits node.splits\<close>)

lemma triple_rename_to_trash:
  assumes "\<And>d. P d \<Longrightarrow> C d"
    and "\<And>d e. P d \<Longrightarrow> dk_spaces d name = Some e \<Longrightarrow>
       Q (dk_next d) (d\<lparr>dk_spaces := (dk_spaces d)(name := None), dk_trash := (dk_next d, e) # dk_trash d,
          dk_next := Suc (dk_next d)\<rparr>)"
  shows "triple F P (rename_to_trash action name) Q C"
  unfolding rename_to_trash_def
  by (rule triple_syscall) (use assms in \<open>auto split: option.splits\<close>)

lemma triple_remove_tree:
  assumes "\<And>d. P d \<Longrightarrow> C d"
    and "\<And>d. P d \<Longrightarrow> Q () (d\<lparr>dk_trash := filter (\<lambda>e. fst e \<noteq> ticket) (dk_trash d)\<rparr>)"
  shows "triple F P (remove_tree_restoring_owner_access ticket) Q C"
  unfolding remove_tree_restoring_owner_access_def
  by (rule triple_syscall) (use assms in auto)

lemma triple_write_private_prefix:
  assumes "\<And>d. P d \<Longrightarrow> C d"
    and "\<And>d. P d \<Longrightarrow> dk_spaces d name = None \<Longrightarrow> C (put_file uid name [] d)"
    and "\<And>d n. P d \<Longrightarrow> dk_spaces d name = None \<Longrightarrow> C (put_file uid name (take n bytes) (put_file uid name [] d))"
    and "\<And>d. P d \<Longrightarrow> dk_spaces d name = None \<Longrightarrow> Q () (put_file uid name bytes (put_file uid name [] d))"
  shows "triple F P (write_private_file uid name bytes) Q C"
proof -
  define P1 where "P1 d \<longleftrightarrow> (\<exists>d0. P d0 \<and> dk_spaces d0 name = None \<and> d = put_file uid name [] d0)" for d
  define P2 where "P2 d \<longleftrightarrow> (\<exists>d0. P d0 \<and> dk_spaces d0 name = None \<and>
    d = put_file uid name bytes (put_file uid name [] d0))" for d
  show ?thesis
    unfolding write_private_file_def
  proof (rule triple_bind [where R = "\<lambda>_. P1"])
    show "triple F P (syscall ''create private file'' atomic (\<lambda>d.
       if dk_spaces d name \<noteq> None then (Err SystemError ''create private file'', d)
       else (Ok (), put_file uid name [] d))) (\<lambda>_. P1) C"
      by (rule triple_syscall) (use assms(1) P1_def in \<open>auto split: if_splits\<close>)
  next
    fix u :: unit
    show "triple F P1 (bind_io (syscall ''write private file'' (\<lambda>n. put_file uid name (take n bytes)) (\<lambda>d.
       (Ok (), put_file uid name bytes d))) (\<lambda>_. syscall ''sync private file'' atomic (\<lambda>d. (Ok (), d)))) Q C"
    proof (rule triple_bind [where R = "\<lambda>_. P2"])
      show "triple F P1 (syscall ''write private file'' (\<lambda>n. put_file uid name (take n bytes)) (\<lambda>d.
         (Ok (), put_file uid name bytes d))) (\<lambda>_. P2) C"
        by (rule triple_syscall) (use assms(3) P1_def P2_def in auto)
      show "triple F P2 (syscall ''sync private file'' atomic (\<lambda>d. (Ok (), d))) Q C" for v :: unit
        by (rule triple_syscall) (use assms(3) [of _ "length bytes"] assms(4) P2_def in auto)
    qed
  qed
qed

lemma triple_write_private_file:
  assumes "\<And>d. P d \<Longrightarrow> C d"
    and "\<And>d b c. P d \<Longrightarrow> dk_spaces d name = None \<Longrightarrow> C (put_file uid name b d)"
    and "\<And>d b c. P d \<Longrightarrow> dk_spaces d name = None \<Longrightarrow> C (put_file uid name b (put_file uid name c d))"
    and "\<And>d. P d \<Longrightarrow> dk_spaces d name = None \<Longrightarrow> Q () (put_file uid name bytes (put_file uid name [] d))"
  shows "triple F P (write_private_file uid name bytes) Q C"
  by (rule triple_write_private_prefix) (use assms in auto)

lemma put_file_simps [simp]:
  "dk_spaces (put_file uid name b d) = (dk_spaces d)(name \<mapsto> FileNode (created_stat uid (dk_next d) (length b)) b)"
  "dk_trash (put_file uid name b d) = dk_trash d"
  by (simp_all add: put_file_def)

lemma created_stat_private [simp]: "private_file_stat uid (created_stat uid i n)"
  by (simp add: private_file_stat_def created_stat_def s_kind_def S_IFMT_def S_IFREG_def mode_bits_mod)

lemma created_stat_size [simp]: "st_size (created_stat uid i n) = int n"
  by (simp add: created_stat_def)

lemma private_bytes_file [simp]:
  "private_file_stat uid m \<Longrightarrow> st_size m = int (length b) \<Longrightarrow> length b \<le> MAX_MANIFEST_BYTES \<Longrightarrow>
     private_bytes uid (Some (FileNode m b)) = Ok b"
  by (simp add: private_bytes_def read_private_file_quiet)

lemma runs_read_entry [runs_rules]: "Q (dk_spaces d name) d \<Longrightarrow> runs (read_entry action name) Q d"
  unfolding read_entry_def by (rule runs_syscall) auto

lemma runs_sync_directory [runs_rules]: "Q () d \<Longrightarrow> runs sync_directory Q d"
  unfolding sync_directory_def by (rule runs_syscall) auto

lemma runs_create_private_dir [runs_rules]: "Q () d \<Longrightarrow> runs create_private_dir Q d"
  unfolding create_private_dir_def by (rule runs_syscall) auto

lemma runs_entry_exists [runs_rules]: "Q (dk_spaces d name \<noteq> None) d \<Longrightarrow> runs (entry_exists name) Q d"
  unfolding entry_exists_def by (intro runs_rules)

lemma runs_rename_entry:
  "dk_spaces d src = Some e \<Longrightarrow> src \<noteq> dst \<Longrightarrow> may_replace e (dk_spaces d dst) \<Longrightarrow>
     Q () (d\<lparr>dk_spaces := (dk_spaces d)(src := None, dst \<mapsto> e)\<rparr>) \<Longrightarrow> runs (rename_entry action src dst) Q d"
  unfolding rename_entry_def by (rule runs_syscall) auto

lemma runs_remove_file:
  "dk_spaces d name = Some (FileNode m b) \<Longrightarrow> Q () (d\<lparr>dk_spaces := (dk_spaces d)(name := None)\<rparr>) \<Longrightarrow>
     runs (remove_file action name) Q d"
  unfolding remove_file_def by (rule runs_syscall) auto

lemma runs_rename_to_trash:
  "dk_spaces d name = Some e \<Longrightarrow>
     Q (dk_next d) (d\<lparr>dk_spaces := (dk_spaces d)(name := None), dk_trash := (dk_next d, e) # dk_trash d,
          dk_next := Suc (dk_next d)\<rparr>) \<Longrightarrow> runs (rename_to_trash action name) Q d"
  unfolding rename_to_trash_def by (rule runs_syscall) auto

lemma runs_remove_tree:
  "Q () (d\<lparr>dk_trash := filter (\<lambda>e. fst e \<noteq> ticket) (dk_trash d)\<rparr>) \<Longrightarrow>
     runs (remove_tree_restoring_owner_access ticket) Q d"
  unfolding remove_tree_restoring_owner_access_def by (rule runs_syscall) auto

lemma runs_write_private_file:
  "dk_spaces d name = None \<Longrightarrow> Q () (put_file uid name bytes (put_file uid name [] d)) \<Longrightarrow>
     runs (write_private_file uid name bytes) Q d"
  unfolding write_private_file_def
  by (intro runs_rules runs_syscall) auto

subsection \<open>Programs that only look\<close>

definition keeps :: "'a io \<Rightarrow> bool" where
  "keeps m \<longleftrightarrow> (\<forall>d s r d' s'. m (d, s) = (r, d', s') \<longrightarrow> d' = d \<and> (\<exists>k. s' = drop k s))"

named_theorems keeps_rules \<open>programs that leave the disk as it is\<close>

lemma keepsD: "keeps m \<Longrightarrow> m (d, s) = (r, d', s') \<Longrightarrow> d' = d \<and> (\<exists>k. s' = drop k s)"
  by (auto simp: keeps_def)

lemma keeps_ret [keeps_rules]: "keeps (ret x)"
  unfolding keeps_def ret_def by (metis drop0 prod.inject)

lemma keeps_fail [keeps_rules]: "keeps (fail e)"
  unfolding keeps_def fail_def by (metis drop0 prod.inject)

lemma keeps_lift [keeps_rules]: "keeps (lift r)"
  unfolding lift_def by (cases r) (auto intro: keeps_rules)

lemma keeps_bind [keeps_rules]:
  assumes "keeps m" and "\<And>x. keeps (f x)"
  shows "keeps (bind_io m f)"
  unfolding keeps_def
proof (intro allI impI)
  fix d s r d' s'
  assume run: "bind_io m f (d, s) = (r, d', s')"
  obtain r1 d1 s1 where m: "m (d, s) = (r1, d1, s1)" by (rule prod_cases3)
  from keepsD [OF assms(1) m] obtain k where d1: "d1 = d" "s1 = drop k s" by blast
  show "d' = d \<and> (\<exists>k. s' = drop k s)"
  proof (cases r1)
    case (Done x)
    with run m have "f x (d1, s1) = (r, d', s')" by (simp add: bind_io_def)
    from keepsD [OF assms(2) this] d1 show ?thesis by (auto simp: drop_drop)
  qed (use run m d1 in \<open>auto simp: bind_io_def\<close>)
qed

lemma keeps_catch [keeps_rules]:
  assumes "keeps m" and "\<And>e. keeps (h e)"
  shows "keeps (catch m h)"
  unfolding keeps_def
proof (intro allI impI)
  fix d s r d' s'
  assume run: "catch m h (d, s) = (r, d', s')"
  obtain r1 d1 s1 where m: "m (d, s) = (r1, d1, s1)" by (rule prod_cases3)
  from keepsD [OF assms(1) m] obtain k where d1: "d1 = d" "s1 = drop k s" by blast
  show "d' = d \<and> (\<exists>k. s' = drop k s)"
  proof (cases r1)
    case (Failed e)
    with run m have "h e (d1, s1) = (r, d', s')" by (simp add: catch_def)
    from keepsD [OF assms(2) this] d1 show ?thesis by (auto simp: drop_drop)
  qed (use run m d1 in \<open>auto simp: catch_def\<close>)
qed

lemma keeps_iterate [keeps_rules]: "(\<And>x s. keeps (f x s)) \<Longrightarrow> keeps (iterate f xs s)"
  by (induction xs arbitrary: s) (auto intro!: keeps_rules)

lemma keeps_syscall:
  assumes "\<And>d. snd (op d) = d"
  shows "keeps (syscall action atomic op)"
proof -
  have "\<exists>k. tl s = drop k s" for s :: "fault list" by (metis drop_Suc drop0)
  moreover have "\<exists>k. s = drop k (x # s)" for x and s :: "fault list" by (metis drop_Suc_Cons drop0)
  moreover have "op d = (r, d') \<Longrightarrow> d' = d" for d r d' using assms [of d] by simp
  ultimately show ?thesis
    unfolding keeps_def syscall_def by (auto split: list.splits fault.splits sum.splits prod.splits)
qed

lemma keeps_reads [keeps_rules]:
  "keeps (read_entry action name)" "keeps (read_dir order action)" "keeps (next_entry action)"
  "keeps sync_directory" "keeps create_private_dir"
  unfolding read_entry_def read_dir_def next_entry_def sync_directory_def create_private_dir_def
  by (simp_all add: keeps_syscall)

lemma keeps_exists [keeps_rules]: "keeps (entry_exists name)" "keeps (path_exists name)"
  unfolding entry_exists_def path_exists_def by (intro keeps_rules)+

lemma keeps_if [keeps_rules]: "(b \<Longrightarrow> keeps m) \<Longrightarrow> (\<not> b \<Longrightarrow> keeps n) \<Longrightarrow> keeps (if b then m else n)"
  by simp

lemma wp_keeps:
  assumes "keeps m" and "\<And>x. Q x d" and "\<And>e. E e d" and "C d"
  shows "wp F m Q E C d"
proof (rule wpI)
  fix script r d' rest
  assume F: "list_all F script" and "m (d, script) = (r, d', rest)"
  with keepsD [OF assms(1)] obtain k where "d' = d" "rest = drop k script" by blast
  moreover have "list_all F (drop k script)" using F by (auto simp: list_all_iff dest: in_set_dropD)
  ultimately show "list_all F rest \<and> post Q E C r d'" using assms(2-4) by (cases r) auto
qed

lemma triple_keeps: "keeps m \<Longrightarrow> (\<And>d. P d \<Longrightarrow> C d) \<Longrightarrow> triple F P m (\<lambda>_. P) C"
  unfolding triple_def by (auto intro: wp_keeps)

lemma wp_path_exists:
  assumes "\<And>n. F (Fault n) \<Longrightarrow> Q False d" and "C d"
    and "Q (case dk_spaces d name of None \<Rightarrow> False | Some (LinkNode _ resolves) \<Rightarrow> resolves | Some _ \<Rightarrow> True) d"
  shows "wp F (path_exists name) Q E C d"
  unfolding path_exists_def read_entry_def
  by (intro wp_catch wp_bind wp_syscall wp_ret) (use assms in \<open>auto intro: wp_ret\<close>)

lemma runs_path_exists [runs_rules]:
  "Q (case dk_spaces d name of None \<Rightarrow> False | Some (LinkNode _ resolves) \<Rightarrow> resolves | Some _ \<Rightarrow> True) d \<Longrightarrow>
     runs (path_exists name) Q d"
  unfolding path_exists_def by (intro runs_rules)

lemma runs_next_entry [runs_rules]: "Q () d \<Longrightarrow> runs (next_entry action) Q d"
  unfolding next_entry_def by (rule runs_syscall) auto

lemma runs_read_dir [runs_rules]: "Q (order (dk_spaces d)) d \<Longrightarrow> runs (read_dir order action) Q d"
  unfolding read_dir_def by (rule runs_syscall) auto

lemma wp_next_entry [wp_rules]:
  "(\<And>a. E (QErr SystemError a) d) \<Longrightarrow> C d \<Longrightarrow> Q () d \<Longrightarrow> wp F (next_entry action) Q E C d"
  unfolding next_entry_def by (rule wp_syscall) auto

lemma wp_read_dir [wp_rules]:
  "(\<And>a. E (QErr SystemError a) d) \<Longrightarrow> C d \<Longrightarrow> Q (order (dk_spaces d)) d \<Longrightarrow> wp F (read_dir order action) Q E C d"
  unfolding read_dir_def by (rule wp_syscall) auto

end
