(* ===== verification/Store_Markers.thy ===== *)
theory Store_Markers
  imports Store_World
begin

text \<open>
  The durable markers of the two transactions and what every other operation asks of them: the
  rollback marker and the inventory of interrupted rollbacks (\<open>store/artifact/rollback.rs\<close>), the
  rename marker and its target scan (\<open>store/rename.rs\<close>), the freeze marker (\<open>store/freeze.rs\<close>), the scan budget (\<open>store/scan.rs\<close>) and
  \<open>Store::open\<close>, which refuses a name that an interrupted transaction owns. JSON
  (\<open>serde_json\<close>) and the enumeration order of a directory are fields of the record
  \<open>store_host\<close>. A name that is not UTF-8 cannot have the form of a marker, so the conversion to
  text is not a separate step.
\<close>

subsection \<open>Rollback markers\<close>

datatype rollback_state = Prepared | Retired | Published

record rollback_marker =
  rm_schema_version :: nat
  rm_transaction_id :: artifact_id
  rm_state :: rollback_state
  rm_target :: space_name
  rm_target_identity :: source_identity
  rm_staging_entry :: string
  rm_retired_entry :: string
  rm_snapshot_id :: artifact_id
  rm_recovery_snapshot_id :: artifact_id

definition MARKER_SCHEMA_VERSION :: nat where "MARKER_SCHEMA_VERSION = 1"
definition MAX_ROLLBACK_MARKERS :: nat where "MAX_ROLLBACK_MARKERS = 1024"

record rename_marker =
  nm_schema_version :: nat
  nm_transaction_id :: space_id
  nm_previous :: space_name
  nm_name :: space_name
  nm_source_identity :: source_identity

definition RENAME_SCHEMA_VERSION :: nat where "RENAME_SCHEMA_VERSION = 1"

record freeze_marker =
  fm_schema_version :: nat
  fm_space_id :: space_id
  fm_created_unix_ms :: nat
  fm_writer_version :: string

record store_host =
  h_uid :: nat
  h_json :: manifest_json
  h_marker_bytes :: "rollback_marker \<Rightarrow> string"
  h_marker_parse :: "string \<Rightarrow> rollback_marker option"
  h_rename_bytes :: "rename_marker \<Rightarrow> string"
  h_rename_parse :: "string \<Rightarrow> rename_marker option"
  h_manifest_bytes :: "space_manifest \<Rightarrow> string"
  h_freeze_header :: "string \<Rightarrow> nat option"
  h_freeze_parse :: "string \<Rightarrow> freeze_marker option"
  h_freeze_bytes :: "freeze_marker \<Rightarrow> string"
  h_order :: "(string \<rightharpoonup> node) \<Rightarrow> string list"

definition rollback_marker_name :: "string \<Rightarrow> string" where
  "rollback_marker_name ident = ''.rollback-'' @ ident @ ''.json''"

definition marker_temporary_name :: "string \<Rightarrow> string" where
  "marker_temporary_name ident = ''.rollback-'' @ ident @ ''.tmp''"

definition staging_name :: "string \<Rightarrow> string" where
  "staging_name ident = ''.rollback-staging-'' @ ident"

definition retired_name :: "string \<Rightarrow> string" where
  "retired_name ident = ''.rolled-back-'' @ ident"

definition parse_id :: "string option \<Rightarrow> artifact_id option" where
  "parse_id value = (case value of None \<Rightarrow> None | Some v \<Rightarrow>
     (case artifact_id_parse v of Inl _ \<Rightarrow> None | Inr ident \<Rightarrow> Some ident))"

definition marker_id_from_name :: "string \<Rightarrow> artifact_id option" where
  "marker_id_from_name name =
     parse_id (Option.bind (strip_prefix name ''.rollback-'') (\<lambda>value. strip_suffix value ''.json''))"

definition temporary_id_from_name :: "string \<Rightarrow> artifact_id option" where
  "temporary_id_from_name name =
     parse_id (Option.bind (strip_prefix name ''.rollback-'') (\<lambda>value. strip_suffix value ''.tmp''))"

definition staging_id_from_name :: "string \<Rightarrow> artifact_id option" where
  "staging_id_from_name name = parse_id (strip_prefix name ''.rollback-staging-'')"

definition validate_marker_components :: "rollback_marker \<Rightarrow> artifact_id \<Rightarrow> unit result" where
  "validate_marker_components marker path_id =
     (let expected_staging = staging_name (artifact_id_as_str (rm_transaction_id marker));
          expected_retired = retired_name (artifact_id_as_str (rm_transaction_id marker))
      in if rm_transaction_id marker = path_id \<and> rm_staging_entry marker = expected_staging \<and>
            rm_retired_entry marker = expected_retired
         then Ok ()
         else Err CorruptState ''rollback marker path components do not match its transaction ID'')"

definition decode_marker :: "store_host \<Rightarrow> string \<Rightarrow> rollback_marker result" where
  "decode_marker host bytes =
     (case h_marker_parse host bytes of
        None \<Rightarrow> Err CorruptState ''rollback marker is invalid''
      | Some marker \<Rightarrow>
          if rm_schema_version marker \<noteq> MARKER_SCHEMA_VERSION
          then Err CorruptState ''unsupported rollback marker schema''
          else Ok marker)"

definition read_marker :: "store_host \<Rightarrow> string \<Rightarrow> rollback_marker io" where
  "read_marker host name =
     bind_io (read_entry ''read private file'' name) (\<lambda>e.
     bind_io (lift (private_bytes (h_uid host) e)) (\<lambda>bytes.
     lift (decode_marker host bytes)))"

text \<open>A marker is replaced through a temporary file in the same directory.\<close>

definition replace_marker :: "store_host \<Rightarrow> string \<Rightarrow> rollback_marker \<Rightarrow> unit io" where
  "replace_marker host ident marker =
     bind_io (entry_exists (marker_temporary_name ident)) (\<lambda>present.
     if present then fail (QErr CorruptState ''rollback marker temporary file exists'')
     else
       bind_io (write_private_file (h_uid host) (marker_temporary_name ident) (h_marker_bytes host marker)) (\<lambda>_.
       bind_io (rename_entry ''replace rollback marker'' (marker_temporary_name ident) (rollback_marker_name ident)) (\<lambda>_.
       sync_directory)))"

definition write_marker_new :: "store_host \<Rightarrow> string \<Rightarrow> rollback_marker \<Rightarrow> unit io" where
  "write_marker_new host ident marker =
     bind_io (entry_exists (rollback_marker_name ident)) (\<lambda>present.
     if present then fail (QErr CorruptState ''rollback marker already exists before publication'')
     else replace_marker host ident marker)"

subsection \<open>Opening entries\<close>

definition open_node :: "store_host \<Rightarrow> string \<Rightarrow> node option \<Rightarrow> string \<Rightarrow> space result" where
  "open_node host path e expected_name =
     (case e of
        None \<Rightarrow> Err SystemError ''inspect space directory''
      | Some n \<Rightarrow> open_path_with_expected_name (h_json host) (h_uid host) path (as_space_dir n) expected_name)"

definition open_relocated_path :: "store_host \<Rightarrow> string \<Rightarrow> space_name \<Rightarrow> space io" where
  "open_relocated_path host path expected_name =
     bind_io (read_entry ''inspect space directory'' path) (\<lambda>e.
     lift (open_node host path e (space_name_as_str expected_name)))"

definition open_path :: "store_host \<Rightarrow> string \<Rightarrow> space io" where
  "open_path host path =
     bind_io (read_entry ''inspect space directory'' path) (\<lambda>e. lift (open_node host path e path))"

definition check_space_anchors :: "store_host \<Rightarrow> string \<Rightarrow> unit io" where
  "check_space_anchors host path =
     bind_io (read_entry ''inspect space directory'' path) (\<lambda>e.
     lift (case e of
        None \<Rightarrow> Err SystemError ''inspect space directory''
      | Some n \<Rightarrow> validate_space_anchors (h_uid host) (as_space_dir n)))"

definition sync_entry :: "store_host \<Rightarrow> string \<Rightarrow> unit io" where
  "sync_entry host path =
     bind_io (read_entry ''inspect directory before syncing'' path) (\<lambda>e.
     bind_io (lift (case e of
        None \<Rightarrow> Err SystemError ''inspect directory before syncing''
      | Some n \<Rightarrow> validate_private_dir (h_uid host) (node_stat n))) (\<lambda>_.
     sync_directory))"

subsection \<open>Scan budgets (\<open>store/scan.rs\<close>)\<close>

definition MAX_DIRECTORY_SCAN_ENTRIES :: nat where "MAX_DIRECTORY_SCAN_ENTRIES = 131072"

definition scan_observe :: "nat \<Rightarrow> nat result" where
  "scan_observe examined =
     (if sat_add examined 1 \<le> MAX_DIRECTORY_SCAN_ENTRIES then Ok (sat_add examined 1)
      else Err ResourceLimit ''the directory contains more filesystem entries than the scan bound'')"

text \<open>
  The common loop of every scan of the spaces directory: take the next entry, charge the budget,
  run the body.
\<close>

definition scan_entry :: "string \<Rightarrow> ('a \<Rightarrow> 's \<Rightarrow> 's io) \<Rightarrow> 'a \<Rightarrow> nat \<times> 's \<Rightarrow> (nat \<times> 's) io" where
  "scan_entry action body name st =
     bind_io (next_entry action) (\<lambda>_.
     bind_io (lift (scan_observe (fst st))) (\<lambda>examined.
     bind_io (body name (snd st)) (\<lambda>s. ret (examined, s))))"

definition scan_directory ::
  "store_host \<Rightarrow> string \<Rightarrow> (string \<Rightarrow> 's \<Rightarrow> 's io) \<Rightarrow> 's \<Rightarrow> 's io" where
  "scan_directory host action body s =
     bind_io (read_dir (h_order host) action) (\<lambda>names.
     bind_io (iterate (scan_entry action body) names (0, s)) (\<lambda>st. ret (snd st)))"

subsection \<open>The recovery decision\<close>

datatype rollback_recovery_action = Abort | RestoreOld | CompleteNew

fun recovery_table :: "rollback_state \<Rightarrow> bool \<times> bool \<times> bool \<Rightarrow> rollback_recovery_action option" where
  "recovery_table Prepared (True, True, False) = Some Abort"
| "recovery_table Prepared (False, True, True) = Some RestoreOld"
| "recovery_table Retired (False, True, True) = Some RestoreOld"
| "recovery_table Retired (True, False, True) = Some CompleteNew"
| "recovery_table Published (True, False, True) = Some CompleteNew"
| "recovery_table Published (True, False, False) = Some CompleteNew"
| "recovery_table _ _ = None"

definition recovery_action :: "store_host \<Rightarrow> rollback_marker \<Rightarrow> rollback_recovery_action io" where
  "recovery_action host marker =
     (let target = space_name_as_str (rm_target marker) in
     bind_io (entry_exists target) (\<lambda>t.
     bind_io (entry_exists (rm_staging_entry marker)) (\<lambda>s.
     bind_io (entry_exists (rm_retired_entry marker)) (\<lambda>r.
     case recovery_table (rm_state marker) (t, s, r) of
       None \<Rightarrow> fail (QErr CorruptState ''rollback has an ambiguous filesystem tuple'')
     | Some action \<Rightarrow>
         bind_io (case action of
             RestoreOld \<Rightarrow> open_relocated_path host (rm_retired_entry marker) (rm_target marker)
           | _ \<Rightarrow> open_path host target) (\<lambda>space.
         if \<not> source_identity_matches (rm_target_identity marker) space
         then fail (QErr CorruptState ''rollback target identity conflicts with its marker'')
         else ret action)))))"

fun marker_state_text :: "rollback_state \<Rightarrow> string" where
  "marker_state_text Prepared = ''prepared''"
| "marker_state_text Retired = ''retired''"
| "marker_state_text Published = ''published''"

record rollback_observation =
  ro_transaction_id :: artifact_id
  ro_target :: space_name
  ro_state :: string
  ro_action :: rollback_recovery_action

record recovery_plan =
  rp_marker_path :: string
  rp_marker :: rollback_marker
  rp_observation :: rollback_observation

record recovery_issue =
  ri_marker :: string
  ri_target :: "space_name option"
  ri_error :: quarters_error

record recovery_inventory =
  inv_plans :: "recovery_plan list"
  inv_issues :: "recovery_issue list"

definition reject_excess_rollback_entries :: "nat \<Rightarrow> unit result" where
  "reject_excess_rollback_entries count =
     (if count \<le> MAX_ROLLBACK_MARKERS then Ok ()
      else Err ResourceLimit ''the store contains more rollback entries than the bound'')"

subsection \<open>The inventory\<close>

text \<open>The loop state: plans and issues so far, and the markers counted against the bound.\<close>

record inventory_scan =
  is_plans :: "recovery_plan list"
  is_issues :: "recovery_issue list"
  is_markers :: nat

definition note_issue :: "string \<Rightarrow> space_name option \<Rightarrow> quarters_error \<Rightarrow> inventory_scan \<Rightarrow> inventory_scan" where
  "note_issue name target error st =
     st\<lparr>is_issues := is_issues st @ [\<lparr>ri_marker = name, ri_target = target, ri_error = error\<rparr>]\<rparr>"

definition plan_for :: "string \<Rightarrow> rollback_marker \<Rightarrow> rollback_recovery_action \<Rightarrow> recovery_plan" where
  "plan_for name marker action =
     \<lparr>rp_marker_path = name, rp_marker = marker,
      rp_observation = \<lparr>ro_transaction_id = rm_transaction_id marker, ro_target = rm_target marker,
        ro_state = marker_state_text (rm_state marker), ro_action = action\<rparr>\<rparr>"

definition attempt :: "'a io \<Rightarrow> 'a result io" where
  "attempt m = catch (bind_io m (\<lambda>x. ret (Inr x))) (\<lambda>e. ret (Inl e))"

definition inventory_marker ::
  "store_host \<Rightarrow> space_name option \<Rightarrow> string \<Rightarrow> artifact_id \<Rightarrow> inventory_scan \<Rightarrow> inventory_scan io" where
  "inventory_marker host target name ident st =
     bind_io (attempt (read_marker host name)) (\<lambda>decoded.
     case decoded of
       Inl error \<Rightarrow> ret (note_issue name None error st)
     | Inr marker \<Rightarrow>
         (case validate_marker_components marker ident of
            Inl error \<Rightarrow> ret (note_issue name (Some (rm_target marker)) error st)
          | Inr _ \<Rightarrow>
              if (case target of None \<Rightarrow> False | Some expected \<Rightarrow> expected \<noteq> rm_target marker) then ret st
              else bind_io (attempt (recovery_action host marker)) (\<lambda>decided.
                case decided of
                  Inl error \<Rightarrow> ret (note_issue name (Some (rm_target marker)) error st)
                | Inr action \<Rightarrow> ret (st\<lparr>is_plans := is_plans st @ [plan_for name marker action]\<rparr>))))"

definition inventory_entry ::
  "store_host \<Rightarrow> space_name option \<Rightarrow> string \<Rightarrow> inventory_scan \<Rightarrow> inventory_scan io" where
  "inventory_entry host target name st =
     (case marker_id_from_name name of
        None \<Rightarrow> ret st
      | Some ident \<Rightarrow>
          bind_io (lift (reject_excess_rollback_entries (sat_add (is_markers st) 1))) (\<lambda>_.
          inventory_marker host target name ident (st\<lparr>is_markers := sat_add (is_markers st) 1\<rparr>)))"

fun adjacent_duplicates :: "recovery_plan list \<Rightarrow> space_name list" where
  "adjacent_duplicates (a # b # rest) =
     (if ro_target (rp_observation a) = ro_target (rp_observation b) then [ro_target (rp_observation a)] else [])
     @ adjacent_duplicates (b # rest)"
| "adjacent_duplicates _ = []"

definition reject_duplicate_targets ::
  "recovery_plan list \<Rightarrow> recovery_issue list \<Rightarrow> recovery_plan list \<times> recovery_issue list" where
  "reject_duplicate_targets plans issues =
     (let duplicate_targets = adjacent_duplicates plans;
          duplicated = (\<lambda>plan. ro_target (rp_observation plan) \<in> set duplicate_targets)
      in if duplicate_targets = [] then (plans, issues)
         else (filter (\<lambda>plan. \<not> duplicated plan) plans,
               issues @ map (\<lambda>plan. \<lparr>ri_marker = rp_marker_path plan,
                   ri_target = Some (ro_target (rp_observation plan)),
                   ri_error = QErr CorruptState ''multiple rollback markers target space''\<rparr>) (filter duplicated plans)))"

definition load_recovery_inventory :: "store_host \<Rightarrow> space_name option \<Rightarrow> recovery_inventory io" where
  "load_recovery_inventory host target =
     bind_io (scan_directory host ''read rollback markers'' (inventory_entry host target)
       \<lparr>is_plans = [], is_issues = [], is_markers = 0\<rparr>) (\<lambda>st.
     let plans = sort_key (\<lambda>plan. ro_target (rp_observation plan)) (is_plans st) in
     case reject_duplicate_targets plans (is_issues st) of
       (plans, issues) \<Rightarrow> ret \<lparr>inv_plans = plans, inv_issues = sort_key ri_marker issues\<rparr>)"

definition rollback_observation_for_unlocked :: "store_host \<Rightarrow> space_name \<Rightarrow> rollback_observation option io" where
  "rollback_observation_for_unlocked host target =
     bind_io (load_recovery_inventory host (Some target)) (\<lambda>inventory.
     case find (\<lambda>issue. ri_target issue = Some target) (inv_issues inventory) of
       Some issue \<Rightarrow> fail (ri_error issue)
     | None \<Rightarrow>
         (case filter (\<lambda>plan. ro_target (rp_observation plan) = target) (inv_plans inventory) of
            [] \<Rightarrow> ret None
          | [plan] \<Rightarrow> ret (Some (rp_observation plan))
          | _ \<Rightarrow> fail (QErr CorruptState ''multiple rollback markers target space'')))"

definition ensure_no_rollback_target :: "store_host \<Rightarrow> space_name \<Rightarrow> unit io" where
  "ensure_no_rollback_target host target =
     bind_io (rollback_observation_for_unlocked host target) (\<lambda>found.
     if found \<noteq> None then fail (QErr SpaceActive ''space has a rollback in progress'') else ret ())"

text \<open>Whether a retired tree still belongs to a transaction that recovery can finish.\<close>

definition rollback_retired_entry_is_actionable :: "store_host \<Rightarrow> string \<Rightarrow> bool io" where
  "rollback_retired_entry_is_actionable host name =
     (case parse_id (strip_prefix name ''.rolled-back-'') of
        None \<Rightarrow> ret False
      | Some ident \<Rightarrow>
          bind_io (attempt (read_marker host (rollback_marker_name (artifact_id_as_str ident)))) (\<lambda>decoded.
          case decoded of
            Inl _ \<Rightarrow> ret False
          | Inr marker \<Rightarrow>
              if \<not> is_ok (validate_marker_components marker ident) then ret False
              else bind_io (attempt (recovery_action host marker)) (\<lambda>decided. ret (is_ok decided))))"

subsection \<open>Rename markers\<close>

definition rename_marker_name :: "string \<Rightarrow> string" where
  "rename_marker_name ident = ''.rename-'' @ ident @ ''.json''"

definition parse_rename_marker_name :: "string \<Rightarrow> space_id option" where
  "parse_rename_marker_name name =
     (case Option.bind (strip_prefix name ''.rename-'') (\<lambda>value. strip_suffix value ''.json'') of
        None \<Rightarrow> None
      | Some value \<Rightarrow> (case space_id_parse value of Inl _ \<Rightarrow> None | Inr ident \<Rightarrow> Some ident))"

definition validate_rename_marker :: "rename_marker \<Rightarrow> space_id \<Rightarrow> unit result" where
  "validate_rename_marker marker ident =
     (if nm_schema_version marker = RENAME_SCHEMA_VERSION \<and> nm_transaction_id marker = ident \<and>
         nm_previous marker \<noteq> nm_name marker \<and> si_space_id (nm_source_identity marker) \<noteq> None
      then Ok ()
      else Err CorruptState ''rename marker fields are inconsistent'')"

definition decode_rename_marker :: "store_host \<Rightarrow> space_id \<Rightarrow> string \<Rightarrow> rename_marker result" where
  "decode_rename_marker host ident bytes =
     (case h_rename_parse host bytes of
        None \<Rightarrow> Err CorruptState ''rename marker is invalid''
      | Some marker \<Rightarrow> rbind (validate_rename_marker marker ident) (\<lambda>_. Ok marker))"

text \<open>
  The reading that the three scans share: no value for a name of another form, otherwise the
  marker or the reason why it cannot be used.
\<close>

definition read_rename_marker :: "store_host \<Rightarrow> string \<Rightarrow> rename_marker result option io" where
  "read_rename_marker host name =
     (case parse_rename_marker_name name of
        None \<Rightarrow> ret None
      | Some ident \<Rightarrow>
          bind_io (attempt (bind_io (read_entry ''read private file'' name) (\<lambda>e.
             bind_io (lift (private_bytes (h_uid host) e)) (\<lambda>bytes.
             lift (decode_rename_marker host ident bytes))))) (\<lambda>decoded. ret (Some decoded)))"

definition valid_marker_entry :: "store_host \<Rightarrow> string \<Rightarrow> rename_marker option io" where
  "valid_marker_entry host name =
     bind_io (read_rename_marker host name) (\<lambda>decoded.
     ret (case decoded of Some (Inr marker) \<Rightarrow> Some marker | _ \<Rightarrow> None))"

text \<open>The scan stops at the first marker that names the space; the flag records the early return.\<close>

definition rename_target_entry :: "store_host \<Rightarrow> space_name \<Rightarrow> string \<Rightarrow> nat \<times> bool \<Rightarrow> (nat \<times> bool) io" where
  "rename_target_entry host name entry st =
     (if snd st then ret st
      else bind_io (next_entry ''read rename recovery entry'') (\<lambda>_.
        bind_io (lift (scan_observe (fst st))) (\<lambda>examined.
        bind_io (valid_marker_entry host entry) (\<lambda>found.
        ret (examined, case found of None \<Rightarrow> False
           | Some marker \<Rightarrow> nm_previous marker = name \<or> nm_name marker = name)))))"

definition rename_target_exists :: "store_host \<Rightarrow> space_name \<Rightarrow> bool io" where
  "rename_target_exists host name =
     bind_io (read_dir (h_order host) ''read rename recovery namespace'') (\<lambda>names.
     bind_io (iterate (rename_target_entry host name) names (0, False)) (\<lambda>st. ret (snd st)))"

definition ensure_no_rename_target :: "store_host \<Rightarrow> space_name \<Rightarrow> unit io" where
  "ensure_no_rename_target host name =
     bind_io (rename_target_exists host name) (\<lambda>found.
     if found then fail (QErr SpaceActive ''space has an interrupted rename transaction'') else ret ())"

subsection \<open>Opening a space by name\<close>

definition store_open :: "store_host \<Rightarrow> space_name \<Rightarrow> space io" where
  "store_open host name =
     bind_io (ensure_no_rename_target host name) (\<lambda>_.
     bind_io (ensure_no_rollback_target host name) (\<lambda>_.
     bind_io (entry_exists (space_name_as_str name)) (\<lambda>present.
     if \<not> present then fail (QErr NotFound ''space does not exist'')
     else open_path host (space_name_as_str name))))"

end
