(* ===== verification/Rollback_Inventory.thy ===== *)
theory Rollback_Inventory
  imports Store_Markers
begin

text \<open>
  What the inventory of interrupted rollbacks guarantees for an arbitrary spaces directory: it
  changes nothing, and every plan it returns is backed by a readable marker whose components
  match its name, an unambiguous tuple of entries and a matching space identity, with at most one
  plan per target.
\<close>

subsection \<open>Scanning changes nothing\<close>

lemma keeps_option [keeps_rules]:
  "keeps n \<Longrightarrow> (\<And>x. keeps (f x)) \<Longrightarrow> keeps (case v of None \<Rightarrow> n | Some x \<Rightarrow> f x)"
  by (simp split: option.splits)

lemma keeps_sum [keeps_rules]:
  "(\<And>x. keeps (f x)) \<Longrightarrow> (\<And>x. keeps (g x)) \<Longrightarrow> keeps (case v of Inl x \<Rightarrow> f x | Inr x \<Rightarrow> g x)"
  by (simp split: sum.splits)

lemma keeps_attempt [keeps_rules]: "keeps m \<Longrightarrow> keeps (attempt m)"
  unfolding attempt_def by (intro keeps_rules)

lemma keeps_read_marker [keeps_rules]: "keeps (read_marker host name)"
  unfolding read_marker_def by (intro keeps_rules)

lemma keeps_open [keeps_rules]:
  "keeps (open_path host path)" "keeps (open_relocated_path host path n)" "keeps (check_space_anchors host path)"
  "keeps (sync_entry host path)"
  unfolding open_path_def open_relocated_path_def check_space_anchors_def sync_entry_def
  by (intro keeps_rules)+

lemma keeps_recovery_action [keeps_rules]: "keeps (recovery_action host marker)"
  unfolding recovery_action_def Let_def
  by (auto intro!: keeps_rules split: rollback_recovery_action.splits)

lemma keeps_scan_directory [keeps_rules]:
  "(\<And>name s. keeps (body name s)) \<Longrightarrow> keeps (scan_directory host action body s)"
  unfolding scan_directory_def scan_entry_def by (intro keeps_rules)

lemma keeps_inventory_entry [keeps_rules]: "keeps (inventory_entry host target name st)"
  unfolding inventory_entry_def inventory_marker_def by (intro keeps_rules)

lemma keeps_load_recovery_inventory [keeps_rules]: "keeps (load_recovery_inventory host target)"
  unfolding load_recovery_inventory_def Let_def
  by (intro keeps_rules) (auto intro: keeps_rules split: prod.splits)

lemma keeps_store_open [keeps_rules]: "keeps (store_open host name)"
  unfolding store_open_def ensure_no_rename_target_def ensure_no_rollback_target_def rename_target_exists_def
    rename_target_entry_def valid_marker_entry_def read_rename_marker_def rollback_observation_for_unlocked_def
  by (intro keeps_rules) (auto intro!: keeps_rules split: list.splits)

subsection \<open>Names\<close>

lemma parse_id_eq_Some: "parse_id v = Some i \<longleftrightarrow> v = Some (artifact_id_as_str i) \<and> hex_id_grammar (artifact_id_as_str i)"
proof (cases v)
  case (Some w)
  have "parse_id (Some w) = Some i \<longleftrightarrow> artifact_id_parse w = Ok i"
    by (simp add: parse_id_def split: sum.splits)
  with Some show ?thesis by (auto simp: artifact_ids.parse_eq_Ok)
qed (simp add: parse_id_def)

lemma marker_id_from_name_eq_Some:
  "marker_id_from_name name = Some i \<longleftrightarrow>
     name = rollback_marker_name (artifact_id_as_str i) \<and> hex_id_grammar (artifact_id_as_str i)"
  by (auto simp: marker_id_from_name_def parse_id_eq_Some bind_eq_Some_conv strip_prefix_eq_Some strip_suffix_eq_Some
      rollback_marker_name_def)

lemma temporary_id_from_name_eq_Some:
  "temporary_id_from_name name = Some i \<longleftrightarrow>
     name = marker_temporary_name (artifact_id_as_str i) \<and> hex_id_grammar (artifact_id_as_str i)"
  by (auto simp: temporary_id_from_name_def parse_id_eq_Some bind_eq_Some_conv strip_prefix_eq_Some
      strip_suffix_eq_Some marker_temporary_name_def)

lemma staging_id_from_name_eq_Some:
  "staging_id_from_name name = Some i \<longleftrightarrow>
     name = staging_name (artifact_id_as_str i) \<and> hex_id_grammar (artifact_id_as_str i)"
  by (auto simp: staging_id_from_name_def parse_id_eq_Some strip_prefix_eq_Some staging_name_def)

lemma name_lengths:
  "length (rollback_marker_name i) = length i + 15" "length (marker_temporary_name i) = length i + 14"
  "length (staging_name i) = length i + 18" "length (retired_name i) = length i + 13"
  by (simp_all add: rollback_marker_name_def marker_temporary_name_def staging_name_def retired_name_def)

lemma name_inject [simp]:
  "rollback_marker_name i = rollback_marker_name j \<longleftrightarrow> i = j"
  "marker_temporary_name i = marker_temporary_name j \<longleftrightarrow> i = j"
  "staging_name i = staging_name j \<longleftrightarrow> i = j" "retired_name i = retired_name j \<longleftrightarrow> i = j"
  by (simp_all add: rollback_marker_name_def marker_temporary_name_def staging_name_def retired_name_def)

subsection \<open>The decision\<close>

definition present :: "disk \<Rightarrow> string \<Rightarrow> bool" where
  "present d name \<longleftrightarrow> dk_spaces d name \<noteq> None"

definition marker_tuple :: "disk \<Rightarrow> rollback_marker \<Rightarrow> bool \<times> bool \<times> bool" where
  "marker_tuple d marker =
     (present d (space_name_as_str (rm_target marker)), present d (rm_staging_entry marker),
      present d (rm_retired_entry marker))"

definition identity_entry :: "rollback_marker \<Rightarrow> rollback_recovery_action \<Rightarrow> string" where
  "identity_entry marker action =
     (if action = RestoreOld then rm_retired_entry marker else space_name_as_str (rm_target marker))"

text \<open>The decision table applies and the tree that will survive is the recorded space.\<close>

definition decided :: "store_host \<Rightarrow> disk \<Rightarrow> rollback_marker \<Rightarrow> rollback_recovery_action \<Rightarrow> bool" where
  "decided host d marker action \<longleftrightarrow>
     recovery_table (rm_state marker) (marker_tuple d marker) = Some action \<and>
     (\<exists>space. open_node host (identity_entry marker action) (dk_spaces d (identity_entry marker action))
          (space_name_as_str (rm_target marker)) = Ok space \<and>
        source_identity_matches (rm_target_identity marker) space)"

lemma wp_open_path:
  "(\<And>e. E e d) \<Longrightarrow> C d \<Longrightarrow> (\<And>s. open_node host path (dk_spaces d path) path = Ok s \<Longrightarrow> Q s d) \<Longrightarrow>
     wp F (open_path host path) Q E C d"
  unfolding open_path_def by (intro wp_rules) auto

lemma wp_open_relocated_path:
  "(\<And>e. E e d) \<Longrightarrow> C d \<Longrightarrow> (\<And>s. open_node host path (dk_spaces d path) (space_name_as_str n) = Ok s \<Longrightarrow> Q s d) \<Longrightarrow>
     wp F (open_relocated_path host path n) Q E C d"
  unfolding open_relocated_path_def by (intro wp_rules) auto

lemma wp_open_identity:
  assumes "\<And>e. E e d" and "C d"
    and "\<And>s. open_node host (identity_entry marker action) (dk_spaces d (identity_entry marker action))
          (space_name_as_str (rm_target marker)) = Ok s \<Longrightarrow> Q s d"
  shows "wp F (case action of
      RestoreOld \<Rightarrow> open_relocated_path host (rm_retired_entry marker) (rm_target marker)
    | _ \<Rightarrow> open_path host (space_name_as_str (rm_target marker))) Q E C d"
  using assms
  by (cases action) (auto intro: wp_open_path wp_open_relocated_path simp: identity_entry_def)

lemma wp_recovery_action:
  assumes "\<And>e. E e d" and "C d" and "\<And>a. decided host d marker a \<Longrightarrow> Q a d"
  shows "wp F (recovery_action host marker) Q E C d"
proof -
  have fin: "wp F (case recovery_table (rm_state marker) (marker_tuple d marker) of
       None \<Rightarrow> fail (QErr CorruptState ''rollback has an ambiguous filesystem tuple'')
     | Some action \<Rightarrow>
         bind_io (case action of
             RestoreOld \<Rightarrow> open_relocated_path host (rm_retired_entry marker) (rm_target marker)
           | _ \<Rightarrow> open_path host (space_name_as_str (rm_target marker))) (\<lambda>space.
         if \<not> source_identity_matches (rm_target_identity marker) space
         then fail (QErr CorruptState ''rollback target identity conflicts with its marker'')
         else ret action)) Q E C d"
    using assms
    by (auto split: option.splits intro!: wp_rules wp_open_identity simp: decided_def)
  show ?thesis
    unfolding recovery_action_def Let_def
    by (intro wp_bind wp_entry_exists assms(1,2)) (rule fin [unfolded marker_tuple_def present_def])
qed

lemma runs_recovery_action:
  assumes "decided host d marker a" and "Q a d"
  shows "runs (recovery_action host marker) Q d"
proof -
  from assms(1) obtain s where
    tab: "recovery_table (rm_state marker) (marker_tuple d marker) = Some a" and
    op: "open_node host (identity_entry marker a) (dk_spaces d (identity_entry marker a))
          (space_name_as_str (rm_target marker)) = Ok s" and
    m: "source_identity_matches (rm_target_identity marker) s"
    unfolding decided_def by blast
  have "runs (case a of
             RestoreOld \<Rightarrow> open_relocated_path host (rm_retired_entry marker) (rm_target marker)
           | _ \<Rightarrow> open_path host (space_name_as_str (rm_target marker))) (\<lambda>x d'. x = s \<and> d' = d) d"
    using op unfolding open_path_def open_relocated_path_def
    by (cases a) (auto intro!: runs_rules simp: identity_entry_def)
  then have fin: "runs (bind_io (case a of
             RestoreOld \<Rightarrow> open_relocated_path host (rm_retired_entry marker) (rm_target marker)
           | _ \<Rightarrow> open_path host (space_name_as_str (rm_target marker))) (\<lambda>space.
         if \<not> source_identity_matches (rm_target_identity marker) space
         then fail (QErr CorruptState ''rollback target identity conflicts with its marker'')
         else ret a)) Q d"
    using m assms(2) by (intro runs_bind) (auto elim!: runs_conseq intro: runs_rules)
  show ?thesis
    unfolding recovery_action_def Let_def
    by (intro runs_rules) (use fin tab in \<open>auto simp: marker_tuple_def present_def\<close>)
qed

subsection \<open>Sound plans\<close>

definition marker_at :: "store_host \<Rightarrow> disk \<Rightarrow> string \<Rightarrow> rollback_marker \<Rightarrow> bool" where
  "marker_at host d name marker \<longleftrightarrow>
     (\<exists>bytes. private_bytes (h_uid host) (dk_spaces d name) = Ok bytes \<and> decode_marker host bytes = Ok marker)"

definition plan_sound :: "store_host \<Rightarrow> disk \<Rightarrow> recovery_plan \<Rightarrow> bool" where
  "plan_sound host d plan \<longleftrightarrow>
     (\<exists>ident. marker_id_from_name (rp_marker_path plan) = Some ident \<and>
        validate_marker_components (rp_marker plan) ident = Ok ()) \<and>
     marker_at host d (rp_marker_path plan) (rp_marker plan) \<and>
     decided host d (rp_marker plan) (ro_action (rp_observation plan)) \<and>
     plan = plan_for (rp_marker_path plan) (rp_marker plan) (ro_action (rp_observation plan))"

lemma wp_read_marker:
  "(\<And>e. E e d) \<Longrightarrow> C d \<Longrightarrow> (\<And>m. marker_at host d name m \<Longrightarrow> Q m d) \<Longrightarrow> wp F (read_marker host name) Q E C d"
  unfolding read_marker_def marker_at_def by (intro wp_rules) auto

lemma wp_attempt: "wp F m (\<lambda>x. Q (Inr x)) (\<lambda>e. Q (Inl e)) C d \<Longrightarrow> wp F (attempt m) Q E C d"
  unfolding attempt_def by (intro wp_catch wp_bind) (auto elim!: wp_conseq intro: wp_rules)

definition plans_sound :: "store_host \<Rightarrow> disk \<Rightarrow> inventory_scan \<Rightarrow> bool" where
  "plans_sound host d st \<longleftrightarrow>
     (\<forall>p\<in>set (is_plans st). plan_sound host d p) \<and> length (is_plans st) \<le> is_markers st \<and>
     is_markers st \<le> MAX_ROLLBACK_MARKERS"

lemma plans_sound_note_issue [simp]: "plans_sound host d (note_issue n t e st) = plans_sound host d st"
  by (simp add: plans_sound_def note_issue_def)

lemma plans_sound_empty: "plans_sound host d \<lparr>is_plans = [], is_issues = i, is_markers = 0\<rparr>"
  by (simp add: plans_sound_def)

lemma plan_sound_plan_for:
  "marker_id_from_name name = Some ident \<Longrightarrow> validate_marker_components marker ident = Ok () \<Longrightarrow>
     marker_at host d name marker \<Longrightarrow> decided host d marker a \<Longrightarrow> plan_sound host d (plan_for name marker a)"
  by (auto simp: plan_sound_def plan_for_def)

lemma plans_sound_snoc:
  "plans_sound host d st \<Longrightarrow> length (is_plans st) < is_markers st \<Longrightarrow> plan_sound host d p \<Longrightarrow>
     plans_sound host d (st\<lparr>is_plans := is_plans st @ [p]\<rparr>)"
  by (auto simp: plans_sound_def)

lemma wp_inventory_marker:
  assumes "plans_sound host d st" and "length (is_plans st) < is_markers st"
    and name: "marker_id_from_name name = Some ident" and C: "C d"
  shows "wp F (inventory_marker host target name ident st) (\<lambda>st' d'. d' = d \<and> plans_sound host d st') E C d"
proof -
  have fin: "wp F (attempt (recovery_action host marker)) (\<lambda>decided. wp F (case decided of
                  Inl error \<Rightarrow> ret (note_issue name (Some (rm_target marker)) error st)
                | Inr action \<Rightarrow> ret (st\<lparr>is_plans := is_plans st @ [plan_for name marker action]\<rparr>))
            (\<lambda>st' d'. d' = d \<and> plans_sound host d st') E C) E C d"
    if "marker_at host d name marker" and "validate_marker_components marker ident = Ok ()" for marker
    using assms that
    by (intro wp_attempt wp_recovery_action)
      (auto intro!: wp_rules plans_sound_snoc plan_sound_plan_for)
  show ?thesis
    unfolding inventory_marker_def
    by (intro wp_bind wp_attempt wp_read_marker)
      (use assms fin in \<open>auto intro!: wp_rules split: sum.splits\<close>)
qed

lemma wp_inventory_entry:
  assumes "plans_sound host d st" and E: "\<And>e. E e d" and C: "C d"
  shows "wp F (inventory_entry host target name st) (\<lambda>st' d'. d' = d \<and> plans_sound host d st') E C d"
proof (cases "marker_id_from_name name")
  case None
  then show ?thesis unfolding inventory_entry_def using assms by (auto intro: wp_rules)
next
  case (Some ident)
  let ?st = "st\<lparr>is_markers := sat_add (is_markers st) 1\<rparr>"
  have "wp F (inventory_marker host target name ident ?st) (\<lambda>st' d'. d' = d \<and> plans_sound host d st') E C d"
    if "reject_excess_rollback_entries (sat_add (is_markers st) 1) = Ok ()"
  proof (rule wp_inventory_marker)
    have "sat_add (is_markers st) 1 = is_markers st + 1"
      using assms(1) by (intro sat_add_exact) (simp add: plans_sound_def MAX_ROLLBACK_MARKERS_def u64_max_num)
    with that assms(1) show "plans_sound host d ?st" "length (is_plans ?st) < is_markers ?st"
      by (auto simp: plans_sound_def reject_excess_rollback_entries_def split: if_splits)
  qed (use Some C in auto)
  then show ?thesis
    unfolding inventory_entry_def using Some E by (auto intro!: wp_rules)
qed

lemma wp_scan_directory:
  assumes "I s d" and "\<And>e. E e d" and "C d"
    and body: "\<And>name s. name \<in> set (h_order host (dk_spaces d)) \<Longrightarrow> I s d \<Longrightarrow>
       wp F (body name s) (\<lambda>s' d'. d' = d \<and> I s' d) E C d"
  shows "wp F (scan_directory host action body s) (\<lambda>s' d'. d' = d \<and> I s' d) E C d"
  unfolding scan_directory_def
proof (intro wp_bind wp_read_dir)
  have "wp F (iterate (scan_entry action body) (h_order host (dk_spaces d)) (0, s)) (\<lambda>st d'. d' = d \<and> I (snd st) d) E C d"
  proof (rule wp_iterate)
    fix name and st :: "nat \<times> 'a" and d'
    assume n: "name \<in> set (h_order host (dk_spaces d))" and st: "d' = d \<and> I (snd st) d"
    have step: "wp F (body name (snd st)) (\<lambda>s. wp F (ret (ex, s)) (\<lambda>st d'. d' = d \<and> I (snd st) d) E C) E C d"
      for ex :: nat
      by (rule wp_conseq [OF body [OF n]]) (use st in \<open>auto intro: wp_rules\<close>)
    show "wp F (scan_entry action body name st) (\<lambda>st d'. d' = d \<and> I (snd st) d) E C d'"
      unfolding scan_entry_def
      by (intro wp_bind wp_next_entry wp_lift) (use st step assms(2,3) in auto)
  qed (use assms in auto)
  then show "wp F (iterate (scan_entry action body) (h_order host (dk_spaces d)) (0, s))
      (\<lambda>st. wp F (ret (snd st)) (\<lambda>s' d'. d' = d \<and> I s' d) E C) E C d"
    by (rule wp_conseq) (auto intro: wp_rules)
qed (use assms in auto)

lemma wp_scan_directory_inv:
  assumes "I s d" and E: "\<And>s d e. I s d \<Longrightarrow> E e d" and C: "\<And>s d. I s d \<Longrightarrow> C d"
    and body: "\<And>name s d. I s d \<Longrightarrow> wp F (body name s) I E C d"
  shows "wp F (scan_directory host action body s) I E C d"
  unfolding scan_directory_def
proof (intro wp_bind wp_read_dir)
  show "wp F (iterate (scan_entry action body) (h_order host (dk_spaces d)) (0, s))
      (\<lambda>st. wp F (ret (snd st)) I E C) E C d"
  proof (rule wp_conseq [OF wp_iterate [where I = "\<lambda>st. I (snd st)"]])
    fix name and st :: "nat \<times> 'a" and d
    assume st: "I (snd st) d"
    have "wp F (body name (snd st)) (\<lambda>s. wp F (ret (ex, s)) (\<lambda>st. I (snd st)) E C) E C d" for ex :: nat
      by (rule wp_conseq [OF body [OF st]]) (auto intro: wp_rules)
    then show "wp F (scan_entry action body name st) (\<lambda>st. I (snd st)) E C d"
      unfolding scan_entry_def
      by (intro wp_bind wp_next_entry wp_lift) (use st E C in auto)
  qed (use assms in \<open>auto intro: wp_rules\<close>)
qed (use assms in auto)

lemma runs_scan_directory:
  assumes I: "I (h_order host (dk_spaces d)) s d" and len: "length (h_order host (dk_spaces d)) \<le> MAX_DIRECTORY_SCAN_ENTRIES"
    and body: "\<And>x xs s d. I (x # xs) s d \<Longrightarrow> runs (body x s) (I xs) d"
  shows "runs (scan_directory host action body s) (I []) d"
proof -
  define J where "J xs st d \<longleftrightarrow> fst st + length xs \<le> MAX_DIRECTORY_SCAN_ENTRIES \<and> I xs (snd st) d" for xs st d
  have "runs (iterate (scan_entry action body) (h_order host (dk_spaces d)) (0, s)) (J []) d"
  proof (rule runs_iterate)
    fix x xs and st :: "nat \<times> 'a" and d
    assume J: "J (x # xs) st d"
    then have obs: "scan_observe (fst st) = Ok (Suc (fst st))"
      by (simp add: J_def scan_observe_def sat_add_exact u64_max_num MAX_DIRECTORY_SCAN_ENTRIES_def)
    have "runs (body x (snd st)) (\<lambda>s. runs (ret (Suc (fst st), s)) (J xs)) d"
      by (rule runs_conseq [OF body]) (use J in \<open>auto simp: J_def intro: runs_ret\<close>)
    then show "runs (scan_entry action body x st) (J xs) d"
      unfolding scan_entry_def by (intro runs_bind runs_next_entry runs_lift [OF obs])
  qed (use I len in \<open>simp add: J_def\<close>)
  then have "runs (iterate (scan_entry action body) (h_order host (dk_spaces d)) (0, s))
      (\<lambda>st. runs (ret (snd st)) (I [])) d"
    by (rule runs_conseq) (auto simp: J_def intro: runs_ret)
  then show ?thesis unfolding scan_directory_def by (intro runs_bind runs_read_dir)
qed

lemma runs_attempt: "runs m (\<lambda>x. Q (Inr x)) d \<Longrightarrow> runs (attempt m) Q d"
  unfolding attempt_def by (intro runs_rules) (auto elim!: runs_conseq intro: runs_ret)

text \<open>A listing names every entry once; at most one name of each family per transaction keeps the counted bounds.\<close>

definition enumerates :: "store_host \<Rightarrow> bool" where
  "enumerates host \<longleftrightarrow> (\<forall>m. finite (dom m) \<longrightarrow> distinct (h_order host m) \<and> set (h_order host m) = dom m)"

lemma family_count:
  assumes "distinct xs" and "\<And>n. n \<in> set xs \<Longrightarrow> P n \<Longrightarrow> \<exists>t\<in>set ts. n = f t" and "length ts \<le> k"
  shows "length (filter P xs) \<le> k"
proof -
  have "length (filter P xs) = card (set (filter P xs))" using assms(1) by (simp add: distinct_card [symmetric])
  also have "\<dots> \<le> card (f ` set ts)" by (rule card_mono) (use assms(2) in auto)
  also have "\<dots> \<le> length ts" using card_image_le [of "set ts" f] card_length [of ts] by simp
  finally show ?thesis using assms(3) by simp
qed

subsection \<open>Duplicate targets\<close>

lemma adjacent_duplicates_complete:
  assumes "sorted (map f xs)" and "f = (\<lambda>p. ro_target (rp_observation p))"
    and "i < j" and "j < length xs" and "f (xs ! i) = f (xs ! j)"
  shows "f (xs ! i) \<in> set (adjacent_duplicates xs)"
  using assms(1,3-5)
proof (induction xs arbitrary: i j rule: adjacent_duplicates.induct)
  case (1 a b rest)
  show ?case
  proof (cases i)
    case 0
    have "f a \<le> f b" "f b \<le> f ((a # b # rest) ! j)"
      using "1.prems" 0 by (cases j; auto simp: nth_Cons split: nat.splits)+
    with 0 "1.prems"(4) have "f a = f b" by simp
    with 0 show ?thesis using assms(2) by simp
  next
    case (Suc i')
    with "1.prems" obtain j' where "j = Suc j'" by (cases j) auto
    with Suc "1.prems" "1.IH" [of i' j'] show ?thesis by simp
  qed
qed auto

lemma distinct_filter_no_duplicates:
  assumes "sorted (map f xs)" and "f = (\<lambda>p. ro_target (rp_observation p))"
  shows "distinct (map f (filter (\<lambda>p. f p \<notin> set (adjacent_duplicates xs)) xs))"
proof -
  have key: "distinct (map f (filter (\<lambda>p. f p \<notin> D) ys))"
    if "\<And>i j. i < j \<Longrightarrow> j < length ys \<Longrightarrow> f (ys ! i) = f (ys ! j) \<Longrightarrow> f (ys ! i) \<in> D" for D ys
    using that
  proof (induction ys)
    case (Cons y ys)
    have tail: "f (ys ! i) \<in> D" if "i < j" "j < length ys" "f (ys ! i) = f (ys ! j)" for i j
      using Cons.prems [of "Suc i" "Suc j"] that by simp
    have "f y \<in> D" if "k < length ys" "f (ys ! k) = f y" for k
      using Cons.prems [of 0 "Suc k"] that by simp
    then have "f y \<notin> D \<Longrightarrow> f y \<notin> f ` set ys" by (metis imageE in_set_conv_nth)
    with Cons.IH [OF tail] show ?case by auto
  qed simp
  show ?thesis by (rule key) (use adjacent_duplicates_complete [OF assms] in blast)
qed

lemma reject_duplicate_targets_plans:
  "fst (reject_duplicate_targets plans issues) =
     filter (\<lambda>plan. ro_target (rp_observation plan) \<notin> set (adjacent_duplicates plans)) plans"
proof (cases "adjacent_duplicates plans = []")
  case True
  then show ?thesis by (simp add: reject_duplicate_targets_def)
qed (simp add: reject_duplicate_targets_def Let_def)

lemma inventory_plans_distinct:
  "reject_duplicate_targets (sort_key (\<lambda>p. ro_target (rp_observation p)) plans) issues = (plans', issues') \<Longrightarrow>
     distinct (map (\<lambda>p. ro_target (rp_observation p)) plans') \<and> set plans' \<subseteq> set plans \<and>
     length plans' \<le> length plans"
  using reject_duplicate_targets_plans [of "sort_key (\<lambda>p. ro_target (rp_observation p)) plans" issues]
    distinct_filter_no_duplicates [OF sorted_sort_key [of "\<lambda>p. ro_target (rp_observation p)" plans] refl]
  by (auto simp del: filter_sort) (metis length_filter_le length_sort)

text \<open>The guarantee, for every disk and every script.\<close>

definition inventory_sound :: "store_host \<Rightarrow> disk \<Rightarrow> recovery_inventory \<Rightarrow> bool" where
  "inventory_sound host d inventory \<longleftrightarrow>
     (\<forall>p\<in>set (inv_plans inventory). plan_sound host d p) \<and>
     distinct (map (\<lambda>p. ro_target (rp_observation p)) (inv_plans inventory)) \<and>
     length (inv_plans inventory) \<le> MAX_ROLLBACK_MARKERS"

lemma wp_load_recovery_inventory:
  assumes "\<And>e. E e d" and "C d" and "\<And>i. inventory_sound host d i \<Longrightarrow> Q i d"
  shows "wp F (load_recovery_inventory host target) Q E C d"
  unfolding load_recovery_inventory_def Let_def
proof (rule wp_bind, rule wp_conseq)
  show "wp F (scan_directory host ''read rollback markers'' (inventory_entry host target)
       \<lparr>is_plans = [], is_issues = [], is_markers = 0\<rparr>) (\<lambda>st d'. d' = d \<and> plans_sound host d st) E C d"
    by (rule wp_scan_directory [where I = "\<lambda>st d. plans_sound host d st"])
      (use assms plans_sound_empty in \<open>auto intro: wp_inventory_entry\<close>)
next
  fix st d'
  assume st: "d' = d \<and> plans_sound host d st"
  obtain plans issues where r: "reject_duplicate_targets
      (sort_key (\<lambda>p. ro_target (rp_observation p)) (is_plans st)) (is_issues st) = (plans, issues)"
    by (rule prod.exhaust)
  from inventory_plans_distinct [OF r] st
  have "inventory_sound host d \<lparr>inv_plans = plans, inv_issues = sort_key ri_marker issues\<rparr>"
    by (auto simp: inventory_sound_def plans_sound_def)
  then show "wp F (case reject_duplicate_targets (sort_key (\<lambda>p. ro_target (rp_observation p)) (is_plans st))
      (is_issues st) of (plans, issues) \<Rightarrow> ret \<lparr>inv_plans = plans, inv_issues = sort_key ri_marker issues\<rparr>) Q E C d'"
    using st r by (auto intro!: wp_rules assms(3))
qed auto

subsection \<open>Opening by name\<close>

lemma wp_keeps_bind:
  assumes "keeps m" and "\<And>e. E e d" and "C d" and "\<And>x. wp F (f x) Q E C d"
  shows "wp F (bind_io m f) Q E C d"
  by (rule wp_bind, rule wp_keeps) (use assms in auto)

lemma keeps_guards [keeps_rules]:
  "keeps (ensure_no_rename_target host name)" "keeps (ensure_no_rollback_target host name)"
  unfolding ensure_no_rename_target_def ensure_no_rollback_target_def rename_target_exists_def
    rollback_observation_for_unlocked_def rename_target_entry_def valid_marker_entry_def read_rename_marker_def
  by (auto intro!: keeps_rules split: list.split)

lemma wp_store_open:
  assumes "\<And>e. E e d" and "C d"
    and "\<And>s. open_node host (space_name_as_str name) (dk_spaces d (space_name_as_str name)) (space_name_as_str name) = Ok s \<Longrightarrow> Q s d"
  shows "wp F (store_open host name) Q E C d"
proof -
  have "wp F (bind_io (entry_exists (space_name_as_str name)) (\<lambda>present.
     if \<not> present then fail (QErr NotFound ''space does not exist'')
     else open_path host (space_name_as_str name))) Q E C d"
    by (intro wp_bind wp_entry_exists) (use assms in \<open>auto intro!: wp_fail wp_open_path\<close>)
  then show ?thesis
    unfolding store_open_def by (intro wp_keeps_bind [OF keeps_guards(1)] wp_keeps_bind [OF keeps_guards(2)]) (use assms in auto)
qed

end
