(* ===== verification/Freeze.thy ===== *)
theory Freeze
  imports Rollback_Inventory
begin

text \<open>
  The cooperative freeze policy of \<open>store/freeze.rs\<close>: an identity-bound marker beside the spaces,
  written through a temporary file, with its decoding, validation, publication and removal. The
  clock and the writer version are arguments.
\<close>

subsection \<open>Markers\<close>

datatype freeze_state_value = UnsupportedLegacy | Unfrozen | Frozen

fun freeze_state_as_str :: "freeze_state_value \<Rightarrow> string" where
  "freeze_state_as_str UnsupportedLegacy = ''unsupported_legacy''"
| "freeze_state_as_str Unfrozen = ''unfrozen''"
| "freeze_state_as_str Frozen = ''frozen''"

record freeze_report =
  fr_name :: string
  fr_space_id :: string
  fr_state :: freeze_state_value
  fr_changed :: bool

definition FREEZE_SCHEMA_VERSION :: nat where "FREEZE_SCHEMA_VERSION = 1"
definition MAX_FREEZE_MARKER_BYTES :: nat where "MAX_FREEZE_MARKER_BYTES = 4 * 1024"

definition freeze_name :: "space_id \<Rightarrow> string" where
  "freeze_name ident = ''.freeze-'' @ space_id_as_str ident @ ''.json''"

definition freeze_temporary_name :: "space_id \<Rightarrow> string" where
  "freeze_temporary_name ident = ''.freeze-'' @ space_id_as_str ident @ ''.tmp''"

definition require_stable_id :: "space \<Rightarrow> space_id result" where
  "require_stable_id s =
     (case sm_space_id (sp_manifest s) of
        None \<Rightarrow> Err Unsupported ''cooperative freeze requires a stable space identity''
      | Some ident \<Rightarrow> Ok ident)"

definition validate_freeze_marker :: "freeze_marker \<Rightarrow> space_id \<Rightarrow> unit result" where
  "validate_freeze_marker marker expected =
     (let version = fm_writer_version marker;
          version_is_safe = version \<noteq> [] \<and> length version \<le> 64 \<and>
            list_all (\<lambda>byte. is_ascii_alphanumeric byte \<or> byte = CHR ''.'' \<or> byte = CHR ''-'' \<or> byte = CHR ''+'') version
      in if fm_schema_version marker = FREEZE_SCHEMA_VERSION \<and> fm_space_id marker = expected \<and>
            fm_created_unix_ms marker \<le> u64_max \<and> version_is_safe
         then Ok ()
         else Err CorruptState ''the cooperative freeze marker fields are inconsistent'')"

definition decode_freeze_marker :: "store_host \<Rightarrow> space_id \<Rightarrow> string \<Rightarrow> freeze_marker result" where
  "decode_freeze_marker host expected bytes =
     (if length bytes > MAX_FREEZE_MARKER_BYTES
      then Err ResourceLimit ''the cooperative freeze marker exceeds 4096 bytes''
      else case h_freeze_header host bytes of
        None \<Rightarrow> Err CorruptState ''the cooperative freeze marker header is invalid''
      | Some version \<Rightarrow>
          if version > FREEZE_SCHEMA_VERSION
          then Err Unsupported ''the cooperative freeze schema is newer than this Quarters build supports''
          else (case h_freeze_parse host bytes of
              None \<Rightarrow> Err CorruptState ''the cooperative freeze marker is invalid''
            | Some marker \<Rightarrow> rbind (validate_freeze_marker marker expected) (\<lambda>_. Ok marker)))"

definition path_is_missing :: "string \<Rightarrow> bool io" where
  "path_is_missing name =
     catch (bind_io (read_entry ''inspect path'' name) (\<lambda>e. ret (e = None))) (\<lambda>_. ret False)"

definition read_freeze_marker :: "store_host \<Rightarrow> space_id \<Rightarrow> freeze_marker option io" where
  "read_freeze_marker host expected =
     bind_io (read_entry ''inspect cooperative freeze marker'' (freeze_name expected)) (\<lambda>e.
     if e = None then ret None
     else
       bind_io (attempt (bind_io (read_entry ''read private file'' (freeze_name expected)) (\<lambda>e.
         lift (private_bytes (h_uid host) e)))) (\<lambda>content.
       case content of
         Inl error \<Rightarrow>
           bind_io (path_is_missing (freeze_name expected)) (\<lambda>missing.
           if missing then ret None else fail error)
       | Inr bytes \<Rightarrow>
           bind_io (lift (decode_freeze_marker host expected bytes)) (\<lambda>marker. ret (Some marker))))"

definition cleanup_marker_temporary :: "store_host \<Rightarrow> string \<Rightarrow> unit io" where
  "cleanup_marker_temporary host name =
     bind_io (read_entry ''inspect freeze marker temporary file'' name) (\<lambda>e.
     case e of
       None \<Rightarrow> ret ()
     | Some n \<Rightarrow>
         bind_io (lift (validate_private_file (h_uid host) (node_stat n))) (\<lambda>_.
         remove_file ''remove freeze marker temporary file'' name))"

definition write_freeze_marker :: "store_host \<Rightarrow> space_id \<Rightarrow> freeze_marker \<Rightarrow> unit io" where
  "write_freeze_marker host ident marker =
     bind_io (cleanup_marker_temporary host (freeze_temporary_name ident)) (\<lambda>_.
     bind_io (write_private_file (h_uid host) (freeze_temporary_name ident) (h_freeze_bytes host marker)) (\<lambda>_.
     bind_io (rename_entry ''publish cooperative freeze marker'' (freeze_temporary_name ident) (freeze_name ident)) (\<lambda>_.
     sync_directory)))"

definition remove_freeze_marker :: "string \<Rightarrow> unit io" where
  "remove_freeze_marker name = remove_file ''remove cooperative freeze marker'' name"

definition remove_invalid_confirmed_marker :: "store_host \<Rightarrow> string \<Rightarrow> quarters_error \<Rightarrow> unit io" where
  "remove_invalid_confirmed_marker host name parse_error =
     bind_io (read_entry ''inspect invalid cooperative freeze marker'' name) (\<lambda>e.
     case e of
       None \<Rightarrow> fail (QErr SystemError ''inspect invalid cooperative freeze marker'')
     | Some n \<Rightarrow>
         (case validate_private_file (h_uid host) (node_stat n) of
            Inl _ \<Rightarrow> fail parse_error
          | Inr _ \<Rightarrow> remove_freeze_marker name))"

subsection \<open>Operations\<close>

definition freeze_report_of :: "space \<Rightarrow> freeze_state_value \<Rightarrow> bool \<Rightarrow> freeze_report result" where
  "freeze_report_of s state changed =
     rbind (require_stable_id s) (\<lambda>ident.
     Ok \<lparr>fr_name = space_name_as_str (sm_name (sp_manifest s)), fr_space_id = space_id_as_str ident,
         fr_state = state, fr_changed = changed\<rparr>)"

definition new_freeze_marker :: "nat \<Rightarrow> string \<Rightarrow> space_id \<Rightarrow> freeze_marker" where
  "new_freeze_marker now version ident =
     \<lparr>fm_schema_version = FREEZE_SCHEMA_VERSION, fm_space_id = ident, fm_created_unix_ms = now,
      fm_writer_version = version\<rparr>"

definition publish_freeze :: "store_host \<Rightarrow> nat result \<Rightarrow> string \<Rightarrow> space \<Rightarrow> space_id \<Rightarrow> freeze_report io" where
  "publish_freeze host epoch_millis version space ident =
     bind_io (lift epoch_millis) (\<lambda>now.
     bind_io (write_freeze_marker host ident (new_freeze_marker now version ident)) (\<lambda>_.
     bind_io (read_freeze_marker host ident) (\<lambda>published.
     if published = None
     then fail (QErr SystemError ''the freeze marker disappeared after publication'')
     else bind_io sync_directory (\<lambda>_. lift (freeze_report_of space Frozen True)))))"

definition freeze :: "store_host \<Rightarrow> nat result \<Rightarrow> string \<Rightarrow> space_name \<Rightarrow> freeze_report io" where
  "freeze host epoch_millis version name =
     bind_io (store_open host name) (\<lambda>space.
     bind_io (lift (require_stable_id space)) (\<lambda>ident.
     bind_io (read_freeze_marker host ident) (\<lambda>found.
     if found \<noteq> None then bind_io sync_directory (\<lambda>_. lift (freeze_report_of space Frozen False))
     else publish_freeze host epoch_millis version space ident)))"

definition clear_marker :: "store_host \<Rightarrow> space_id \<Rightarrow> freeze_marker option result \<Rightarrow> bool io" where
  "clear_marker host ident found =
     (case found of
        Inr None \<Rightarrow> ret False
      | Inr (Some _) \<Rightarrow> bind_io (remove_freeze_marker (freeze_name ident)) (\<lambda>_. ret True)
      | Inl parse_error \<Rightarrow>
          bind_io (remove_invalid_confirmed_marker host (freeze_name ident) parse_error) (\<lambda>_. ret True))"

definition unfreeze :: "store_host \<Rightarrow> space_name \<Rightarrow> freeze_report io" where
  "unfreeze host name =
     bind_io (store_open host name) (\<lambda>space.
     bind_io (lift (require_stable_id space)) (\<lambda>ident.
     bind_io (cleanup_marker_temporary host (freeze_temporary_name ident)) (\<lambda>_.
     bind_io (attempt (read_freeze_marker host ident)) (\<lambda>found.
     bind_io (clear_marker host ident found) (\<lambda>changed.
     bind_io sync_directory (\<lambda>_.
     lift (freeze_report_of space Unfrozen changed)))))))"

definition freeze_state :: "store_host \<Rightarrow> space \<Rightarrow> freeze_state_value io" where
  "freeze_state host space =
     (case sm_space_id (sp_manifest space) of
        None \<Rightarrow> ret UnsupportedLegacy
      | Some ident \<Rightarrow>
          bind_io (read_freeze_marker host ident) (\<lambda>found.
          ret (if found \<noteq> None then Frozen else Unfrozen)))"

definition ensure_not_frozen :: "store_host \<Rightarrow> space \<Rightarrow> unit io" where
  "ensure_not_frozen host space =
     bind_io (freeze_state host space) (\<lambda>state.
     if state \<noteq> Frozen then ret () else fail (QErr SpaceActive ''space is cooperatively frozen''))"

subsection \<open>What the marker on disk says\<close>

definition frozen_on_disk :: "store_host \<Rightarrow> space_id \<Rightarrow> disk \<Rightarrow> bool" where
  "frozen_on_disk host ident d \<longleftrightarrow>
     (\<exists>bytes marker. private_bytes (h_uid host) (dk_spaces d (freeze_name ident)) = Ok bytes \<and>
        decode_freeze_marker host ident bytes = Ok marker)"

lemma private_bytes_None [simp]: "private_bytes uid None \<noteq> Ok bytes"
  by (simp add: private_bytes_def read_private_file_missing)

lemma keeps_path_is_missing [keeps_rules]: "keeps (path_is_missing name)"
  unfolding path_is_missing_def by (intro keeps_rules)

lemma keeps_read_freeze_marker [keeps_rules]: "keeps (read_freeze_marker host ident)"
  unfolding read_freeze_marker_def by (intro keeps_rules)

lemma keeps_freeze_state [keeps_rules]: "keeps (freeze_state host space)" "keeps (ensure_not_frozen host space)"
  unfolding freeze_state_def ensure_not_frozen_def by (intro keeps_rules)+

lemma wp_path_is_missing:
  "Q False d \<Longrightarrow> C d \<Longrightarrow> Q (dk_spaces d name = None) d \<Longrightarrow> wp F (path_is_missing name) Q E C d"
  unfolding path_is_missing_def by (intro wp_rules) auto

lemma wp_read_freeze_marker:
  assumes E: "\<And>e. E e d" and C: "C d" and absent: "dk_spaces d (freeze_name ident) = None \<Longrightarrow> Q None d"
    and found: "\<And>m. frozen_on_disk host ident d \<Longrightarrow> Q (Some m) d"
  shows "wp F (read_freeze_marker host ident) Q E C d"
proof -
  have miss: "wp F (bind_io (path_is_missing (freeze_name ident)) (\<lambda>missing. if missing then ret None else fail error)) Q E C d"
    for error
    by (rule wp_bind, rule wp_path_is_missing) (use E C absent in \<open>auto intro: wp_rules\<close>)
  have hit: "wp F (bind_io (lift (decode_freeze_marker host ident bytes)) (\<lambda>marker. ret (Some marker))) Q E C d"
    if "private_bytes (h_uid host) (dk_spaces d (freeze_name ident)) = Ok bytes" for bytes
    by (intro wp_bind wp_lift wp_ret found) (use E that in \<open>auto simp: frozen_on_disk_def\<close>)
  have body: "wp F (attempt (bind_io (read_entry a (freeze_name ident)) (\<lambda>e. lift (private_bytes (h_uid host) e))))
      (\<lambda>content. wp F (case content of
         Inl error \<Rightarrow>
           bind_io (path_is_missing (freeze_name ident)) (\<lambda>missing.
           if missing then ret None else fail error)
       | Inr bytes \<Rightarrow>
           bind_io (lift (decode_freeze_marker host ident bytes)) (\<lambda>marker. ret (Some marker))) Q E C) E C d" for a
    by (intro wp_attempt wp_bind [of _ "read_entry _ _"] wp_read_entry wp_lift) (use miss hit C in auto)
  show ?thesis
    unfolding read_freeze_marker_def
    by (rule wp_bind, rule wp_read_entry) (use E C absent body in \<open>auto intro: wp_ret wp_bind\<close>)
qed

lemma runs_freeze_state:
  "frozen_on_disk host ident d \<Longrightarrow> sm_space_id (sp_manifest s) = Some ident \<Longrightarrow> Q Frozen d \<Longrightarrow> runs (freeze_state host s) Q d"
  "dk_spaces d (freeze_name ident) = None \<Longrightarrow> sm_space_id (sp_manifest s) = Some ident \<Longrightarrow> Q Unfrozen d \<Longrightarrow>
     runs (freeze_state host s) Q d"
proof -
  assume f: "frozen_on_disk host ident d" and s: "sm_space_id (sp_manifest s) = Some ident" and Q: "Q Frozen d"
  obtain bytes marker where b: "private_bytes (h_uid host) (dk_spaces d (freeze_name ident)) = Ok bytes"
    "decode_freeze_marker host ident bytes = Ok marker" using f by (auto simp: frozen_on_disk_def)
  have "dk_spaces d (freeze_name ident) \<noteq> None" using b(1) by (metis private_bytes_None)
  then have "runs (read_freeze_marker host ident) (\<lambda>m d'. m = Some marker \<and> d' = d) d"
    unfolding read_freeze_marker_def attempt_def using b
    by (auto intro!: runs_rules simp: runs_bind)
  then show "runs (freeze_state host s) Q d"
    unfolding freeze_state_def using s Q by (auto intro!: runs_bind runs_ret elim!: runs_conseq)
next
  assume "dk_spaces d (freeze_name ident) = None" "sm_space_id (sp_manifest s) = Some ident" "Q Unfrozen d"
  then show "runs (freeze_state host s) Q d"
    unfolding freeze_state_def read_freeze_marker_def by (auto intro!: runs_rules)
qed

subsection \<open>What freezing and unfreezing do to the store\<close>

text \<open>Nothing but the two names of one identity changes, and the marker is never half written.\<close>

definition freeze_touches :: "(node option \<Rightarrow> bool) \<Rightarrow> space_id \<Rightarrow> disk \<Rightarrow> disk \<Rightarrow> bool" where
  "freeze_touches fresh ident d d' \<longleftrightarrow>
     (\<forall>n. n \<noteq> freeze_name ident \<longrightarrow> n \<noteq> freeze_temporary_name ident \<longrightarrow> dk_spaces d' n = dk_spaces d n) \<and>
     dk_trash d' = dk_trash d \<and>
     (dk_spaces d' (freeze_name ident) = dk_spaces d (freeze_name ident) \<or> fresh (dk_spaces d' (freeze_name ident)))"

definition whole_file :: "nat \<Rightarrow> string \<Rightarrow> node option \<Rightarrow> bool" where
  "whole_file uid bytes e \<longleftrightarrow> (\<exists>i. e = Some (FileNode (created_stat uid i (length bytes)) bytes))"

definition freeze_effect ::
  "store_host \<Rightarrow> nat result \<Rightarrow> string \<Rightarrow> space_id \<Rightarrow> disk \<Rightarrow> disk \<Rightarrow> bool" where
  "freeze_effect host now version ident = freeze_touches
     (\<lambda>e. \<exists>ms. now = Ok ms \<and> whole_file (h_uid host) (h_freeze_bytes host (new_freeze_marker ms version ident)) e) ident"

definition unfreeze_effect :: "space_id \<Rightarrow> disk \<Rightarrow> disk \<Rightarrow> bool" where
  "unfreeze_effect = freeze_touches (\<lambda>e. e = None)"

lemma freeze_names_distinct [simp]:
  "freeze_temporary_name ident \<noteq> freeze_name ident" "freeze_name ident \<noteq> freeze_temporary_name ident"
  by (simp_all add: freeze_temporary_name_def freeze_name_def)

lemma freeze_touches_refl [simp]: "freeze_touches fresh ident d d"
  by (simp add: freeze_touches_def)

lemma freeze_touches_temporary:
  "freeze_touches fresh ident d d' \<Longrightarrow>
     freeze_touches fresh ident d (d'\<lparr>dk_spaces := (dk_spaces d')(freeze_temporary_name ident := e)\<rparr>)"
  "freeze_touches fresh ident d d' \<Longrightarrow> freeze_touches fresh ident d (put_file uid (freeze_temporary_name ident) b d')"
  by (simp_all add: freeze_touches_def)

lemma triple_cleanup_marker_temporary:
  assumes "\<And>d. P d \<Longrightarrow> P (d\<lparr>dk_spaces := (dk_spaces d)(name := None)\<rparr>)"
  shows "triple F P (cleanup_marker_temporary host name) (\<lambda>_. P) P"
  unfolding cleanup_marker_temporary_def
  by (rule triple_bind [OF triple_read_entry [where Q = "\<lambda>_. P"]])
    (auto split: option.split intro!: triple_ret triple_bind [OF triple_lift [where Q = "\<lambda>_. P"]] triple_remove_file assms)

lemma triple_write_freeze_marker:
  assumes "\<And>e. whole_file (h_uid host) (h_freeze_bytes host marker) e \<Longrightarrow> fresh e"
  shows "triple F (freeze_touches fresh ident d) (write_freeze_marker host ident marker)
           (\<lambda>_. freeze_touches fresh ident d) (freeze_touches fresh ident d)"
proof -
  define bytes where "bytes = h_freeze_bytes host marker"
  define staged where "staged d' \<longleftrightarrow> freeze_touches fresh ident d d' \<and>
    whole_file (h_uid host) bytes (dk_spaces d' (freeze_temporary_name ident))" for d'
  have cleanup: "triple F (freeze_touches fresh ident d) (cleanup_marker_temporary host (freeze_temporary_name ident))
    (\<lambda>_. freeze_touches fresh ident d) (freeze_touches fresh ident d)"
    by (rule triple_cleanup_marker_temporary) (rule freeze_touches_temporary)
  have write_step: "triple F (freeze_touches fresh ident d)
    (write_private_file (h_uid host) (freeze_temporary_name ident) bytes) (\<lambda>_. staged) (freeze_touches fresh ident d)"
    by (rule triple_write_private_file)
      (auto simp: staged_def whole_file_def intro!: freeze_touches_temporary)
  have rename_step: "triple F staged
    (rename_entry a (freeze_temporary_name ident) (freeze_name ident)) (\<lambda>_. freeze_touches fresh ident d)
    (freeze_touches fresh ident d)" for a
    by (rule triple_rename) (use assms in \<open>auto simp: staged_def bytes_def freeze_touches_def\<close>)
  show ?thesis
    unfolding write_freeze_marker_def bytes_def [symmetric]
    by (rule triple_bind [OF cleanup], rule triple_bind [OF write_step], rule triple_bind [OF rename_step])
      (rule triple_sync, simp)
qed

text \<open>The space that a name opens on a disk, with its stable identity.\<close>

definition names_space :: "store_host \<Rightarrow> space_name \<Rightarrow> disk \<Rightarrow> space \<Rightarrow> space_id \<Rightarrow> bool" where
  "names_space host name d space ident \<longleftrightarrow>
     open_node host (space_name_as_str name) (dk_spaces d (space_name_as_str name)) (space_name_as_str name) = Ok space \<and>
     sm_name (sp_manifest space) = name \<and> sm_space_id (sp_manifest space) = Some ident"

lemma names_spaceI:
  assumes "open_node host (space_name_as_str name) (dk_spaces d (space_name_as_str name)) (space_name_as_str name) = Ok space"
    and "require_stable_id space = Ok ident"
  shows "names_space host name d space ident"
  using assms read_validated_manifest_ok [of "h_json host" "h_uid host" _ "space_name_as_str name" "sp_manifest space"]
  by (auto simp: names_space_def open_node_def open_path_ok require_stable_id_def split: option.splits intro: space_name.expand)

lemma names_space_unique:
  "names_space host name d space ident \<Longrightarrow> names_space host name d space' ident' \<Longrightarrow> space' = space \<and> ident' = ident"
  by (simp add: names_space_def)

definition report_names :: "space \<Rightarrow> space_id \<Rightarrow> freeze_state_value \<Rightarrow> freeze_report \<Rightarrow> bool" where
  "report_names space ident state report \<longleftrightarrow>
     fr_name report = space_name_as_str (sm_name (sp_manifest space)) \<and>
     fr_space_id report = space_id_as_str ident \<and> fr_state report = state"

lemma wp_report_frozen:
  assumes "\<And>e. E e d" and "C d" and "require_stable_id space = Ok ident"
    and "\<And>report. report_names space ident state report \<Longrightarrow> fr_changed report = b \<Longrightarrow> Q report d"
  shows "wp F (bind_io sync_directory (\<lambda>_. lift (freeze_report_of space state b))) Q E C d"
  by (intro wp_bind wp_sync_directory wp_lift) (use assms in \<open>auto simp: freeze_report_of_def report_names_def\<close>)

lemma wp_publish_freeze:
  assumes "require_stable_id space = Ok ident"
  shows "wp F (publish_freeze host now version space ident)
     (\<lambda>report d'. freeze_effect host now version ident d d' \<and> frozen_on_disk host ident d' \<and>
        report_names space ident Frozen report \<and> fr_changed report)
     (\<lambda>_. freeze_effect host now version ident d) (freeze_effect host now version ident d) d"
    (is "wp _ _ ?Q (\<lambda>_. ?C) _ _")
proof -
  let ?check = "bind_io (read_freeze_marker host ident) (\<lambda>published.
     if published = None
     then fail (QErr SystemError ''the freeze marker disappeared after publication'')
     else bind_io sync_directory (\<lambda>_. lift (freeze_report_of space Frozen True)))"
  have check: "wp F ?check ?Q (\<lambda>_. ?C) ?C d'" if "?C d'" for d'
    by (rule wp_bind, rule wp_read_freeze_marker)
      (use that assms in \<open>auto intro!: wp_fail wp_report_frozen\<close>)
  have written: "wp F (write_freeze_marker host ident (new_freeze_marker ms version ident)) (\<lambda>_. ?C) (\<lambda>_. ?C) ?C d"
    if "now = Ok ms" for ms
    unfolding freeze_effect_def
    by (rule triple_wp [OF triple_write_freeze_marker]) (use that in auto)
  have "wp F (write_freeze_marker host ident (new_freeze_marker ms version ident))
      (\<lambda>_. wp F ?check ?Q (\<lambda>_. ?C) ?C) (\<lambda>_. ?C) ?C d" if "now = Ok ms" for ms
    by (rule wp_conseq [OF written [OF that]]) (auto intro: check)
  then show ?thesis
    unfolding publish_freeze_def
    by (intro wp_bind [of _ "lift now"] wp_lift wp_bind [of _ "write_freeze_marker _ _ _"]) (auto simp: freeze_effect_def)
qed

lemma wp_freeze:
  "wp F (freeze host now version name)
     (\<lambda>report d'. \<exists>space ident. names_space host name d space ident \<and> freeze_effect host now version ident d d' \<and>
        frozen_on_disk host ident d' \<and> report_names space ident Frozen report \<and> (fr_changed report \<or> d' = d))
     (\<lambda>_ d'. d' = d \<or> (\<exists>space ident. names_space host name d space ident \<and> freeze_effect host now version ident d d'))
     (\<lambda>d'. d' = d \<or> (\<exists>space ident. names_space host name d space ident \<and> freeze_effect host now version ident d d')) d"
  (is "wp _ _ ?Q (\<lambda>_. ?C) _ _")
proof -
  let ?tail = "\<lambda>space ident. bind_io (read_freeze_marker host ident) (\<lambda>found.
     if found \<noteq> None then bind_io sync_directory (\<lambda>_. lift (freeze_report_of space Frozen False))
     else publish_freeze host now version space ident)"
  have "wp F (?tail space ident) ?Q (\<lambda>_. ?C) ?C d"
    if named: "names_space host name d space ident" and stable: "require_stable_id space = Ok ident" for space ident
  proof (rule wp_bind, rule wp_read_freeze_marker)
    have unchanged: "freeze_effect host now version ident d d" by (simp add: freeze_effect_def)
    show "wp F (if Some m \<noteq> None then bind_io sync_directory (\<lambda>_. lift (freeze_report_of space Frozen False))
       else publish_freeze host now version space ident) ?Q (\<lambda>_. ?C) ?C d"
      if "frozen_on_disk host ident d" for m :: freeze_marker
      unfolding if_P [OF option.discI [OF refl]]
    proof (rule wp_report_frozen [OF _ _ stable])
      show "?Q report d" if "report_names space ident Frozen report" "fr_changed report = False" for report
        using that named \<open>frozen_on_disk host ident d\<close> unchanged by blast
    qed (use named unchanged in blast)+
    show "wp F (if None \<noteq> (None :: freeze_marker option) then bind_io sync_directory (\<lambda>_. lift (freeze_report_of space Frozen False))
       else publish_freeze host now version space ident) ?Q (\<lambda>_. ?C) ?C d"
      by simp (rule wp_conseq [OF wp_publish_freeze [OF stable]]; use named in blast)
  qed auto
  then show ?thesis
    unfolding freeze_def
    by (intro wp_bind [of _ "store_open _ _"] wp_store_open wp_bind [of _ "lift _"] wp_lift) (auto dest: names_spaceI)
qed

lemma triple_clear_marker:
  assumes "\<And>d. P d \<Longrightarrow> P (d\<lparr>dk_spaces := (dk_spaces d)(freeze_name ident := None)\<rparr>)"
    and "found = Inr None \<Longrightarrow> \<forall>d. P d \<longrightarrow> dk_spaces d (freeze_name ident) = None"
  shows "triple F P (clear_marker host ident found) (\<lambda>_ d. P d \<and> dk_spaces d (freeze_name ident) = None) P"
proof -
  have remove: "triple F P (bind_io (remove_freeze_marker (freeze_name ident)) (\<lambda>_. ret True))
     (\<lambda>_ d. P d \<and> dk_spaces d (freeze_name ident) = None) P"
    unfolding remove_freeze_marker_def
    by (rule triple_bind [OF triple_remove_file [where Q = "\<lambda>_ d. P d \<and> dk_spaces d (freeze_name ident) = None"]])
      (auto intro: assms triple_ret)
  have invalid: "triple F P (remove_invalid_confirmed_marker host (freeze_name ident) e)
     (\<lambda>_ d. P d \<and> dk_spaces d (freeze_name ident) = None) P" for e
    unfolding remove_invalid_confirmed_marker_def remove_freeze_marker_def
    by (rule triple_bind [OF triple_read_entry [where Q = "\<lambda>_. P"]])
      (auto split: option.split sum.split intro!: triple_fail triple_remove_file assms)
  show ?thesis
    unfolding clear_marker_def
    using remove assms(2) by (auto split: sum.split option.split intro!: triple_ret triple_bind [OF invalid])
qed

lemma wp_unfreeze:
  "wp F (unfreeze host name)
     (\<lambda>report d'. \<exists>space ident. names_space host name d space ident \<and> unfreeze_effect ident d d' \<and>
        dk_spaces d' (freeze_name ident) = None \<and> report_names space ident Unfrozen report)
     (\<lambda>_ d'. d' = d \<or> (\<exists>space ident. names_space host name d space ident \<and> unfreeze_effect ident d d'))
     (\<lambda>d'. d' = d \<or> (\<exists>space ident. names_space host name d space ident \<and> unfreeze_effect ident d d')) d"
  (is "wp _ _ ?Q (\<lambda>_. ?C) _ _")
proof -
  let ?clear = "\<lambda>space ident found. bind_io (clear_marker host ident found) (\<lambda>changed.
     bind_io sync_directory (\<lambda>_. lift (freeze_report_of space Unfrozen changed)))"
  have clear: "wp F (?clear space ident found) ?Q (\<lambda>_. ?C) ?C d'"
    if "unfreeze_effect ident d d'" "require_stable_id space = Ok ident" "names_space host name d space ident"
      "found = Inr None \<Longrightarrow> dk_spaces d' (freeze_name ident) = None" for space ident found d'
  proof (rule wp_bind, rule wp_conseq)
    let ?P = "\<lambda>e. unfreeze_effect ident d e \<and> (found = Inr None \<longrightarrow> dk_spaces e (freeze_name ident) = None)"
    show "wp F (clear_marker host ident found) (\<lambda>_ e. ?P e \<and> dk_spaces e (freeze_name ident) = None)
       (\<lambda>_. ?P) ?P d'"
      by (rule triple_wp [OF triple_clear_marker]) (use that in \<open>auto simp: unfreeze_effect_def freeze_touches_def\<close>)
  qed (use that(3) in \<open>auto intro!: wp_report_frozen [OF _ _ that(2)]\<close>)
  have read: "wp F (bind_io (attempt (read_freeze_marker host ident)) (?clear space ident)) ?Q (\<lambda>_. ?C) ?C d'"
    if "unfreeze_effect ident d d'" "require_stable_id space = Ok ident" "names_space host name d space ident" for space ident d'
    by (intro wp_bind [of _ "attempt _"] wp_attempt wp_read_freeze_marker clear [OF that]) (use that in auto)
  have "wp F (bind_io (cleanup_marker_temporary host (freeze_temporary_name ident)) (\<lambda>_.
     bind_io (attempt (read_freeze_marker host ident)) (?clear space ident))) ?Q (\<lambda>_. ?C) ?C d"
    if "require_stable_id space = Ok ident" "names_space host name d space ident" for space ident
    by (rule wp_bind, rule wp_conseq [OF triple_wp [OF triple_cleanup_marker_temporary [where P = "unfreeze_effect ident d"]]])
      (use that in \<open>auto simp: unfreeze_effect_def intro: freeze_touches_temporary intro!: read [unfolded unfreeze_effect_def]\<close>)
  then show ?thesis
    unfolding unfreeze_def
    by (intro wp_bind [of _ "store_open _ _"] wp_store_open wp_bind [of _ "lift _"] wp_lift) (auto dest: names_spaceI)
qed

subsection \<open>The policy as an observer sees it\<close>

definition with_identity :: "space_id \<Rightarrow> space \<Rightarrow> space" where
  "with_identity ident space = space\<lparr>sp_manifest := (sp_manifest space)\<lparr>sm_space_id := Some ident\<rparr>\<rparr>"

lemma run_result: "runs m (\<lambda>x d'. x = v \<and> d' = d) d \<Longrightarrow> m (d, []) = (Done v, d, [])"
  unfolding runs_def by auto

lemma ensure_not_frozen_run:
  "freeze_state host space (d, []) = (Done state, d, []) \<Longrightarrow>
     ensure_not_frozen host space (d, []) =
       (if state \<noteq> Frozen then Done () else Failed (QErr SpaceActive ''space is cooperatively frozen''), d, [])"
  by (simp add: ensure_not_frozen_def bind_io_def ret_def fail_def)

lemma frozen_run:
  assumes "frozen_on_disk host ident d" and "sm_space_id (sp_manifest space) = Some ident"
  shows "freeze_state host space (d, []) = (Done Frozen, d, [])"
    and "ensure_not_frozen host space (d, []) = (Failed (QErr SpaceActive ''space is cooperatively frozen''), d, [])"
proof -
  show seen: "freeze_state host space (d, []) = (Done Frozen, d, [])"
    by (rule run_result, rule runs_freeze_state(1) [OF assms]) simp
  show "ensure_not_frozen host space (d, []) = (Failed (QErr SpaceActive ''space is cooperatively frozen''), d, [])"
    by (simp add: ensure_not_frozen_run [OF seen])
qed

lemma unfrozen_run:
  assumes "dk_spaces d (freeze_name ident) = None" and "sm_space_id (sp_manifest space) = Some ident"
  shows "freeze_state host space (d, []) = (Done Unfrozen, d, [])" and "ensure_not_frozen host space (d, []) = (Done (), d, [])"
proof -
  show seen: "freeze_state host space (d, []) = (Done Unfrozen, d, [])"
    by (rule run_result, rule runs_freeze_state(2) [OF assms]) simp
  show "ensure_not_frozen host space (d, []) = (Done (), d, [])" by (simp add: ensure_not_frozen_run [OF seen])
qed

lemma with_identity_id [simp]: "sm_space_id (sp_manifest (with_identity ident space)) = Some ident"
  by (simp add: with_identity_def)

text \<open>
  C12: whatever calls fail and wherever the process stops, freezing the space called \<open>name\<close> changes
  nothing at all, or only the marker and the temporary file of the stable identity in the manifest
  of the directory \<open>name\<close>, and the marker is either as it was or completely written. When freeze
  returns, the directory \<open>name\<close> opens to a space of that name whose identity the report carries with
  the state frozen, every later inspection of that space, and of any other with its identity,
  answers Frozen and refuses mutation, and a report of no change left the store as it was.
\<close>

theorem freeze_is_atomic_and_observed:
  "case freeze host now version name (d, script) of (outcome, d', rest) \<Rightarrow>
     (case outcome of
        Done report \<Rightarrow>
          \<exists>space ident. names_space host name d space ident \<and> freeze_effect host now version ident d d' \<and>
            fr_name report = space_name_as_str name \<and> fr_space_id report = space_id_as_str ident \<and>
            fr_state report = Frozen \<and> (fr_changed report \<or> d' = d) \<and>
            freeze_state host space (d', []) = (Done Frozen, d', []) \<and>
            ensure_not_frozen host space (d', []) =
              (Failed (QErr SpaceActive ''space is cooperatively frozen''), d', []) \<and>
            (\<forall>other. freeze_state host (with_identity ident other) (d', []) = (Done Frozen, d', []) \<and>
               ensure_not_frozen host (with_identity ident other) (d', []) =
                 (Failed (QErr SpaceActive ''space is cooperatively frozen''), d', []))
      | _ \<Rightarrow> d' = d \<or> (\<exists>space ident. names_space host name d space ident \<and> freeze_effect host now version ident d d'))"
proof -
  obtain outcome d' rest where run: "freeze host now version name (d, script) = (outcome, d', rest)" by (rule prod_cases3)
  have all: "list_all (\<lambda>_. True) script" by (simp add: list_all_iff)
  note effect = wp_run [OF wp_freeze all run]
  show ?thesis
  proof (cases outcome)
    case (Done report)
    then obtain space ident where named: "names_space host name d space ident"
      and more: "freeze_effect host now version ident d d'" "frozen_on_disk host ident d'"
        "report_names space ident Frozen report" "fr_changed report \<or> d' = d"
      using effect by auto
    show ?thesis
      unfolding run using named more frozen_run [OF more(2)]
      by (auto simp: Done names_space_def report_names_def intro!: exI [of _ space] exI [of _ ident])
  qed (use effect in \<open>auto simp: run\<close>)
qed

text \<open>
  whatever calls fail and wherever the process stops, unfreezing the space called \<open>name\<close> changes
  nothing at all, or only the marker and the temporary file of the stable identity of that space,
  and the marker is either as it was or gone. When unfreeze returns, also over a marker that could
  not be decoded, every later inspection of that space answers Unfrozen and lets mutation through.
\<close>

theorem unfreeze_is_atomic_and_observed:
  "case unfreeze host name (d, script) of (outcome, d', rest) \<Rightarrow>
     (case outcome of
        Done report \<Rightarrow>
          \<exists>space ident. names_space host name d space ident \<and> unfreeze_effect ident d d' \<and>
            fr_name report = space_name_as_str name \<and> fr_space_id report = space_id_as_str ident \<and>
            fr_state report = Unfrozen \<and>
            freeze_state host space (d', []) = (Done Unfrozen, d', []) \<and>
            ensure_not_frozen host space (d', []) = (Done (), d', [])
      | _ \<Rightarrow> d' = d \<or> (\<exists>space ident. names_space host name d space ident \<and> unfreeze_effect ident d d'))"
proof -
  obtain outcome d' rest where run: "unfreeze host name (d, script) = (outcome, d', rest)" by (rule prod_cases3)
  have all: "list_all (\<lambda>_. True) script" by (simp add: list_all_iff)
  note effect = wp_run [OF wp_unfreeze all run]
  show ?thesis
  proof (cases outcome)
    case (Done report)
    then obtain space ident where named: "names_space host name d space ident"
      and more: "unfreeze_effect ident d d'" "dk_spaces d' (freeze_name ident) = None" "report_names space ident Unfrozen report"
      using effect by auto
    show ?thesis
      unfolding run using named more unfrozen_run [OF more(2)]
      by (auto simp: Done names_space_def report_names_def intro!: exI [of _ space] exI [of _ ident])
  qed (use effect in \<open>auto simp: run\<close>)
qed

end
