(* ===== verification/Rollback.thy ===== *)
theory Rollback
  imports Rollback_Inventory
begin

text \<open>
  The guarded rollback transaction of \<open>store/artifact/rollback.rs\<close>: the durable marker and its
  three states, the publication of a staged home in place of the target, the inventory of
  interrupted transactions, the decision table and the three recovery actions, and the
  reclamation of staging without a marker. JSON (\<open>serde_json\<close>) and the enumeration order of a
  directory are fields of the record \<open>store_host\<close>; the snapshot catalogue and the copy of the
  snapshot's home enter \<open>execute_rollback\<close> as the results they return.
\<close>

subsection \<open>Retained staging identity (\<open>store/lifecycle/identity.rs\<close>)\<close>

record path_identity =
  pi_device :: nat
  pi_inode :: nat

definition path_identity_from_metadata :: "file_stat \<Rightarrow> path_identity" where
  "path_identity_from_metadata m = \<lparr>pi_device = st_dev m, pi_inode = st_ino m\<rparr>"

definition path_identity_matches :: "path_identity \<Rightarrow> file_stat \<Rightarrow> bool" where
  "path_identity_matches self m \<longleftrightarrow> self = path_identity_from_metadata m"

record staging_identity =
  sg_root :: path_identity
  sg_lock :: path_identity

definition verify_root :: "staging_identity \<Rightarrow> node option \<Rightarrow> unit result" where
  "verify_root self e =
     (case e of
        None \<Rightarrow> Err SystemError ''reinspect lifecycle staging root''
      | Some n \<Rightarrow>
          if is_dir (node_stat n) \<and> \<not> is_symlink (node_stat n) \<and> path_identity_matches (sg_root self) (node_stat n)
          then Ok ()
          else Err CorruptState ''the lifecycle staging root changed during the transaction'')"

definition verify_lock :: "staging_identity \<Rightarrow> node option \<Rightarrow> unit result" where
  "verify_lock self e =
     (case e of
        Some (DirNode n) \<Rightarrow>
          (case inner_stat n CREATION_LOCK_FILE of
             SysOk m \<Rightarrow>
               if is_file m \<and> path_identity_matches (sg_lock self) m then Ok ()
               else Err CorruptState ''the lifecycle creation lock changed during the transaction''
           | _ \<Rightarrow> Err SystemError ''reinspect lifecycle creation lock'')
      | _ \<Rightarrow> Err SystemError ''reinspect lifecycle creation lock'')"

definition verify_staging :: "staging_identity \<Rightarrow> string \<Rightarrow> unit io" where
  "verify_staging self root =
     bind_io (read_entry ''reinspect lifecycle staging root'' root) (\<lambda>e.
     bind_io (lift (verify_root self e)) (\<lambda>_.
     bind_io (read_entry ''reinspect lifecycle creation lock'' root) (\<lambda>e.
     lift (verify_lock self e))))"

definition remove_inner_file :: "string \<Rightarrow> string \<Rightarrow> string \<Rightarrow> unit io" where
  "remove_inner_file action root name = edit_directory action root (\<lambda>files.
     if files name = None then Err SystemError action else Ok (files(name := None)))"

subsection \<open>Publication\<close>

definition validate_snapshot_target ::
  "string \<Rightarrow> (string \<Rightarrow> unit result) \<Rightarrow> artifact_manifest \<Rightarrow> space \<Rightarrow> unit result" where
  "validate_snapshot_target platform validate_shell snapshot target =
     (if am_source_platform snapshot \<noteq> platform
      then Err Unsupported ''snapshot platform differs from the current host''
      else if (case am_source_identity snapshot of None \<Rightarrow> True | Some ident \<Rightarrow> \<not> source_identity_matches ident target)
      then Err InvalidInput ''snapshot belongs to a different Quarter identity''
      else validate_shell (sm_default_shell (sp_manifest target)))"

text \<open>What the snapshot catalogue answers when the snapshot is opened again.\<close>

definition revalidate_publication ::
  "store_host \<Rightarrow> space \<Rightarrow> artifact_manifest \<Rightarrow> artifact_manifest result \<Rightarrow> string \<Rightarrow> unit io" where
  "revalidate_publication host target snapshot snapshot_now staging =
     bind_io (store_open host (sm_name (sp_manifest target))) (\<lambda>current.
     if sp_manifest current \<noteq> sp_manifest target
     then fail (QErr CorruptState ''rollback target identity changed'')
     else bind_io (lift snapshot_now) (\<lambda>current_snapshot.
       if current_snapshot \<noteq> snapshot
       then fail (QErr CorruptState ''rollback snapshot identity changed'')
       else check_space_anchors host staging))"

definition publication_marker ::
  "space \<Rightarrow> artifact_manifest \<Rightarrow> artifact_id \<Rightarrow> artifact_id \<Rightarrow> rollback_marker" where
  "publication_marker target snapshot transaction_id recovery_id =
     \<lparr>rm_schema_version = MARKER_SCHEMA_VERSION,
      rm_transaction_id = transaction_id,
      rm_state = Prepared,
      rm_target = sm_name (sp_manifest target),
      rm_target_identity = source_identity_for_space target,
      rm_staging_entry = staging_name (artifact_id_as_str transaction_id),
      rm_retired_entry = retired_name (artifact_id_as_str transaction_id),
      rm_snapshot_id = am_artifact_id snapshot,
      rm_recovery_snapshot_id = recovery_id\<rparr>"

definition post_commit_cleanup_error :: "quarters_error \<Rightarrow> quarters_error" where
  "post_commit_cleanup_error error =
     QErr (kind error) ''rollback completed, but retired-state cleanup failed''"

definition post_commit :: "unit io \<Rightarrow> unit io" where
  "post_commit m = catch m (\<lambda>error. fail (post_commit_cleanup_error error))"

text \<open>The tail after the exchange: retire the old tree, remove the marker, reclaim.\<close>

definition commit_rollback :: "string \<Rightarrow> string \<Rightarrow> unit io" where
  "commit_rollback marker_path retired =
     bind_io create_private_dir (\<lambda>_.
     bind_io (rename_to_trash ''retire replaced rollback state'' retired) (\<lambda>reclaiming.
     bind_io sync_directory (\<lambda>_.
     bind_io sync_directory (\<lambda>_.
     bind_io (remove_file ''remove completed rollback marker'' marker_path) (\<lambda>_.
     bind_io (post_commit sync_directory) (\<lambda>_.
     bind_io (post_commit (remove_tree_restoring_owner_access reclaiming)) (\<lambda>_.
     post_commit sync_directory)))))))"

definition exchange_target ::
  "store_host \<Rightarrow> staging_identity \<Rightarrow> string \<Rightarrow> string \<Rightarrow> unit io" where
  "exchange_target host ident staging target =
     bind_io (verify_staging ident staging) (\<lambda>_.
     bind_io (remove_inner_file ''remove rollback staging lock'' staging CREATION_LOCK_FILE) (\<lambda>_.
     bind_io (sync_entry host staging) (\<lambda>_.
     bind_io (check_space_anchors host staging) (\<lambda>_.
     bind_io (rename_entry ''publish rollback target'' staging target) (\<lambda>_.
     sync_directory)))))"

definition publish_rollback ::
  "store_host \<Rightarrow> space \<Rightarrow> artifact_manifest \<Rightarrow> artifact_manifest result \<Rightarrow> staging_identity \<Rightarrow> artifact_id \<Rightarrow>
   artifact_id \<Rightarrow> unit io" where
  "publish_rollback host target snapshot snapshot_now ident transaction_id recovery_id =
     (let t = artifact_id_as_str transaction_id;
          root = space_name_as_str (sm_name (sp_manifest target));
          retired = retired_name t;
          staging = staging_name t;
          marker = publication_marker target snapshot transaction_id recovery_id
      in
     bind_io (revalidate_publication host target snapshot snapshot_now staging) (\<lambda>_.
     bind_io (write_marker_new host t marker) (\<lambda>_.
     bind_io sync_directory (\<lambda>_.
     bind_io (read_marker host (rollback_marker_name t)) (\<lambda>written.
     if written \<noteq> marker then fail (QErr CorruptState ''rollback marker changed after publication'')
     else
     bind_io (rename_entry ''retire rollback target'' root retired) (\<lambda>_.
     bind_io sync_directory (\<lambda>_.
     bind_io (replace_marker host t (marker\<lparr>rm_state := Retired\<rparr>)) (\<lambda>_.
     bind_io (exchange_target host ident staging root) (\<lambda>_.
     bind_io (replace_marker host t (marker\<lparr>rm_state := Published\<rparr>)) (\<lambda>_.
     commit_rollback (rollback_marker_name t) retired))))))))))"

subsection \<open>Staging\<close>

text \<open>Files of the staging directory are created exclusively, with mode 0600.\<close>

definition write_inner_file :: "store_host \<Rightarrow> string \<Rightarrow> string \<Rightarrow> string \<Rightarrow> unit io" where
  "write_inner_file host root name bytes = edit_directory ''create private file'' root (\<lambda>files.
     if files name \<noteq> None then Err SystemError ''create private file''
     else Ok (files(name \<mapsto> (created_stat (h_uid host) 0 (length bytes), bytes))))"

text \<open>
  The copy of the snapshot's home, the directory skeleton and the second verification of the
  snapshot enter as their results; the manifest and provenance bytes come from \<open>serde_json\<close>.
\<close>

record rollback_inputs =
  ri_copy :: "unit result"
  ri_skeleton :: "unit result"
  ri_manifest_bytes :: string
  ri_provenance_bytes :: string
  ri_snapshot_verified :: "unit result"
  ri_snapshot_now :: "artifact_manifest result"

definition PROVENANCE_FILE :: string where "PROVENANCE_FILE = ''.quarters-provenance.json''"

definition execute_rollback ::
  "store_host \<Rightarrow> rollback_inputs \<Rightarrow> space \<Rightarrow> artifact_manifest \<Rightarrow> staging_identity \<Rightarrow> artifact_id \<Rightarrow> artifact_id \<Rightarrow> unit io" where
  "execute_rollback host inp target snapshot ident transaction_id recovery_id =
     (let staging = staging_name (artifact_id_as_str transaction_id) in
     bind_io (lift (ri_copy inp)) (\<lambda>_.
     bind_io (lift (ri_skeleton inp)) (\<lambda>_.
     bind_io (write_inner_file host staging ACTIVE_FILE []) (\<lambda>_.
     bind_io (write_inner_file host staging MANIFEST_FILE (ri_manifest_bytes inp)) (\<lambda>_.
     bind_io (write_inner_file host staging PROVENANCE_FILE (ri_provenance_bytes inp)) (\<lambda>_.
     bind_io sync_directory (\<lambda>_.
     bind_io (sync_entry host staging) (\<lambda>_.
     bind_io (check_space_anchors host staging) (\<lambda>_.
     bind_io (lift (ri_snapshot_verified inp)) (\<lambda>_.
     publish_rollback host target snapshot (ri_snapshot_now inp) ident transaction_id recovery_id))))))))))"

subsection \<open>Recovery\<close>

definition retire_recovery_path :: "string \<Rightarrow> nat list \<Rightarrow> nat list io" where
  "retire_recovery_path path reclaiming =
     bind_io (rename_to_trash ''retire rollback recovery path'' path) (\<lambda>destination.
     ret (reclaiming @ [destination]))"

definition remove_marker_durable :: "string \<Rightarrow> unit io" where
  "remove_marker_durable marker =
     bind_io (remove_file ''remove recovered rollback marker'' marker) (\<lambda>_. sync_directory)"

definition transition_marker :: "store_host \<Rightarrow> recovery_plan \<Rightarrow> rollback_state \<Rightarrow> unit io" where
  "transition_marker host plan state =
     (if rm_state (rp_marker plan) = state then ret ()
      else replace_marker host (artifact_id_as_str (rm_transaction_id (rp_marker plan)))
        ((rp_marker plan)\<lparr>rm_state := state\<rparr>))"

definition recover_abort :: "recovery_plan \<Rightarrow> nat list \<Rightarrow> nat list io" where
  "recover_abort plan reclaiming =
     bind_io (remove_marker_durable (rp_marker_path plan)) (\<lambda>_.
     retire_recovery_path (rm_staging_entry (rp_marker plan)) reclaiming)"

definition recover_restore_old :: "store_host \<Rightarrow> recovery_plan \<Rightarrow> nat list \<Rightarrow> nat list io" where
  "recover_restore_old host plan reclaiming =
     bind_io (transition_marker host plan Prepared) (\<lambda>_.
     bind_io (rename_entry ''restore retired rollback target'' (rm_retired_entry (rp_marker plan))
       (space_name_as_str (rm_target (rp_marker plan)))) (\<lambda>_.
     bind_io sync_directory (\<lambda>_.
     bind_io (remove_marker_durable (rp_marker_path plan)) (\<lambda>_.
     retire_recovery_path (rm_staging_entry (rp_marker plan)) reclaiming))))"

definition recover_complete_new :: "store_host \<Rightarrow> recovery_plan \<Rightarrow> nat list \<Rightarrow> nat list io" where
  "recover_complete_new host plan reclaiming =
     bind_io (transition_marker host plan Published) (\<lambda>_.
     bind_io (entry_exists (rm_retired_entry (rp_marker plan))) (\<lambda>present.
     bind_io (if present
       then bind_io (retire_recovery_path (rm_retired_entry (rp_marker plan)) reclaiming) (\<lambda>reclaiming.
            bind_io sync_directory (\<lambda>_. bind_io sync_directory (\<lambda>_. ret reclaiming)))
       else ret reclaiming) (\<lambda>reclaiming.
     bind_io (remove_marker_durable (rp_marker_path plan)) (\<lambda>_. ret reclaiming))))"

definition apply_recovery_plan :: "store_host \<Rightarrow> recovery_plan \<Rightarrow> nat list \<Rightarrow> nat list io" where
  "apply_recovery_plan host plan reclaiming =
     (case ro_action (rp_observation plan) of
        Abort \<Rightarrow> recover_abort plan reclaiming
      | RestoreOld \<Rightarrow> recover_restore_old host plan reclaiming
      | CompleteNew \<Rightarrow> recover_complete_new host plan reclaiming)"

definition reclaim_temporary_entry :: "store_host \<Rightarrow> string \<Rightarrow> nat \<Rightarrow> nat io" where
  "reclaim_temporary_entry host name removed =
     (case temporary_id_from_name name of
        None \<Rightarrow> ret removed
      | Some _ \<Rightarrow>
          bind_io (lift (reject_excess_rollback_entries (sat_add removed 1))) (\<lambda>_.
          bind_io (read_entry ''inspect rollback marker temporary file'' name) (\<lambda>e.
          bind_io (lift (case e of
             None \<Rightarrow> Err SystemError ''inspect rollback marker temporary file''
           | Some n \<Rightarrow> validate_private_file (h_uid host) (node_stat n))) (\<lambda>_.
          bind_io (remove_file ''remove rollback marker temporary file'' name) (\<lambda>_.
          ret (sat_add removed 1))))))"

definition reclaim_marker_temporaries :: "store_host \<Rightarrow> unit io" where
  "reclaim_marker_temporaries host =
     bind_io (scan_directory host ''read rollback marker temporaries'' (reclaim_temporary_entry host) 0) (\<lambda>removed.
     if 0 < removed then sync_directory else ret ())"

text \<open>
  \<open>held\<close> says which creation locks a live process holds; the kernel drops a lock with its
  process.
\<close>

definition staging_lock_free :: "store_host \<Rightarrow> (string \<Rightarrow> bool) \<Rightarrow> string \<Rightarrow> node \<Rightarrow> bool result" where
  "staging_lock_free host held name e =
     (case e of
        DirNode n \<Rightarrow>
          (case inner_stat n CREATION_LOCK_FILE of
             SysNotFound \<Rightarrow> Ok True
           | obs \<Rightarrow> rbind (open_private_lock (h_uid host) (obs, obs)) (\<lambda>_. Ok (\<not> held name)))
      | _ \<Rightarrow> Err SystemError ''inspect rollback staging lock'')"

definition orphan_staging_entry ::
  "store_host \<Rightarrow> (string \<Rightarrow> bool) \<Rightarrow> string \<Rightarrow> nat \<times> nat list \<Rightarrow> (nat \<times> nat list) io" where
  "orphan_staging_entry host held name st =
     (case staging_id_from_name name of
        None \<Rightarrow> ret st
      | Some ident \<Rightarrow>
          bind_io (lift (reject_excess_rollback_entries (sat_add (fst st) 1))) (\<lambda>_.
          let st = (sat_add (fst st) 1, snd st) in
          bind_io (path_exists (rollback_marker_name (artifact_id_as_str ident))) (\<lambda>marked.
          if marked then ret st
          else
            bind_io (read_entry ''inspect rollback staging'' name) (\<lambda>e.
            bind_io (lift (case e of
               None \<Rightarrow> Err SystemError ''inspect rollback staging''
             | Some n \<Rightarrow> rbind (validate_private_dir (h_uid host) (node_stat n)) (\<lambda>_.
                 staging_lock_free host held name n))) (\<lambda>free.
            if \<not> free then ret st
            else bind_io (retire_recovery_path name (snd st)) (\<lambda>reclaiming. ret (fst st, reclaiming)))))))"

definition reclaim_orphan_staging :: "store_host \<Rightarrow> (string \<Rightarrow> bool) \<Rightarrow> nat list \<Rightarrow> nat list io" where
  "reclaim_orphan_staging host held reclaiming =
     bind_io (scan_directory host ''read rollback staging'' (orphan_staging_entry host held) (0, reclaiming)) (\<lambda>st.
     ret (snd st))"

definition recover_plans ::
  "store_host \<Rightarrow> recovery_plan list \<Rightarrow> (nat list \<times> rollback_observation list) io" where
  "recover_plans host plans = iterate (\<lambda>plan st.
     bind_io (apply_recovery_plan host plan (fst st)) (\<lambda>reclaiming.
     ret (reclaiming, snd st @ [rp_observation plan]))) plans ([], [])"

definition recover_rollbacks :: "store_host \<Rightarrow> (string \<Rightarrow> bool) \<Rightarrow> rollback_observation list io" where
  "recover_rollbacks host held =
     bind_io (reclaim_marker_temporaries host) (\<lambda>_.
     bind_io (load_recovery_inventory host None) (\<lambda>inventory.
     bind_io (recover_plans host (inv_plans inventory)) (\<lambda>st.
     bind_io (reclaim_orphan_staging host held (fst st)) (\<lambda>reclaiming.
     bind_io sync_directory (\<lambda>_.
     bind_io sync_directory (\<lambda>_.
     bind_io (iterate (\<lambda>path _. remove_tree_restoring_owner_access path) reclaiming ()) (\<lambda>_.
     bind_io sync_directory (\<lambda>_.
     ret (snd st)))))))))"

end
