(* ===== verification/Manifest_Replace.thy ===== *)
theory Manifest_Replace
  imports Freeze Rollback
begin

text \<open>
  Files inside one space directory, and \<open>replace_manifest\<close> of \<open>store/create.rs\<close>: the replacement of
  a manifest through a temporary file of the same directory, which renaming and upgrading share.
\<close>

subsection \<open>Files of a space directory\<close>

definition inner_files :: "disk \<Rightarrow> string \<Rightarrow> (string \<rightharpoonup> file_stat \<times> string) option" where
  "inner_files d root = (case dk_spaces d root of Some (DirNode n) \<Rightarrow> Some (dn_files n) | _ \<Rightarrow> None)"

definition put_inner :: "nat \<Rightarrow> string \<Rightarrow> string \<Rightarrow> string \<Rightarrow> disk \<Rightarrow> disk" where
  "put_inner uid root name bytes d =
     (case dk_spaces d root of
        Some (DirNode n) \<Rightarrow>
          d\<lparr>dk_spaces := (dk_spaces d)(root \<mapsto> DirNode (n\<lparr>dn_files :=
              (dn_files n)(name \<mapsto> (created_stat uid (dk_next d) (length bytes), bytes))\<rparr>)),
            dk_next := Suc (dk_next d)\<rparr>
      | _ \<Rightarrow> d)"

definition write_private_inner :: "nat \<Rightarrow> string \<Rightarrow> string \<Rightarrow> string \<Rightarrow> unit io" where
  "write_private_inner uid root name bytes =
     bind_io (syscall ''create private file'' atomic (\<lambda>d.
       case inner_files d root of
         None \<Rightarrow> (Err SystemError ''create private file'', d)
       | Some files \<Rightarrow>
           if files name \<noteq> None then (Err SystemError ''create private file'', d)
           else (Ok (), put_inner uid root name [] d))) (\<lambda>_.
     bind_io (syscall ''write private file'' (\<lambda>n. put_inner uid root name (take n bytes)) (\<lambda>d.
       (Ok (), put_inner uid root name bytes d))) (\<lambda>_.
     syscall ''sync private file'' atomic (\<lambda>d. (Ok (), d))))"

definition read_inner :: "string \<Rightarrow> string \<Rightarrow> string \<Rightarrow> (file_stat \<times> string) option io" where
  "read_inner action root name =
     bind_io (syscall action atomic (\<lambda>d. (Ok (inner_files d root), d))) (\<lambda>files.
     case files of None \<Rightarrow> fail (QErr SystemError action) | Some files \<Rightarrow> ret (files name))"

definition rename_inner :: "string \<Rightarrow> string \<Rightarrow> string \<Rightarrow> string \<Rightarrow> unit io" where
  "rename_inner action root src dst = edit_directory action root (\<lambda>files.
     case files src of
       None \<Rightarrow> Err SystemError action
     | Some e \<Rightarrow> Ok (files(src := None, dst \<mapsto> e)))"

subsection \<open>Replacing a manifest\<close>

definition manifest_temporary :: "string \<Rightarrow> string" where
  "manifest_temporary operation = ''.quarters-'' @ operation @ ''.tmp''"

definition replace_manifest :: "store_host \<Rightarrow> string \<Rightarrow> space_manifest \<Rightarrow> string \<Rightarrow> unit io" where
  "replace_manifest host root manifest operation =
     bind_io (lift (validate_stored_manifest manifest)) (\<lambda>_.
     bind_io (write_private_inner (h_uid host) root (manifest_temporary operation) (h_manifest_bytes host manifest)) (\<lambda>_.
     bind_io (attempt (rename_inner ''replace space manifest'' root (manifest_temporary operation) MANIFEST_FILE)) (\<lambda>renamed.
     case renamed of
       Inl error \<Rightarrow>
         bind_io (attempt (remove_inner_file ''remove file'' root (manifest_temporary operation))) (\<lambda>_. fail error)
     | Inr _ \<Rightarrow> sync_entry host root)))"

subsection \<open>The two states of a replacement\<close>

text \<open>A stray temporary file is harmless when the program itself could have left it.\<close>

definition clean_inner :: "nat \<Rightarrow> (file_stat \<times> string) option \<Rightarrow> bool" where
  "clean_inner uid e \<longleftrightarrow> (case e of None \<Rightarrow> True | Some (m, _) \<Rightarrow> private_file_stat uid m)"

definition with_files :: "dir_node \<Rightarrow> (string \<rightharpoonup> file_stat \<times> string) \<Rightarrow> node" where
  "with_files n files = DirNode (n\<lparr>dn_files := files\<rparr>)"

definition elsewhere :: "string set \<Rightarrow> disk \<Rightarrow> disk \<Rightarrow> bool" where
  "elsewhere names d0 d \<longleftrightarrow> (\<forall>x. x \<notin> names \<longrightarrow> dk_spaces d x = dk_spaces d0 x) \<and> dk_trash d = dk_trash d0"

definition manifest_pending :: "store_host \<Rightarrow> string \<Rightarrow> dir_node \<Rightarrow> node \<Rightarrow> bool" where
  "manifest_pending host operation n e \<longleftrightarrow>
     (\<exists>t. clean_inner (h_uid host) t \<and> e = with_files n ((dn_files n)(manifest_temporary operation := t)))"

definition manifest_replaced :: "store_host \<Rightarrow> string \<Rightarrow> dir_node \<Rightarrow> space_manifest \<Rightarrow> node \<Rightarrow> bool" where
  "manifest_replaced host operation n manifest e \<longleftrightarrow>
     (\<exists>i. let b = h_manifest_bytes host manifest in
        e = with_files n ((dn_files n)(manifest_temporary operation := None,
              MANIFEST_FILE \<mapsto> (created_stat (h_uid host) i (length b), b))))"

definition at_entry :: "string \<Rightarrow> (node \<Rightarrow> bool) \<Rightarrow> (disk \<Rightarrow> bool) \<Rightarrow> disk \<Rightarrow> bool" where
  "at_entry root P R d \<longleftrightarrow> (\<exists>e. dk_spaces d root = Some e \<and> P e) \<and> R d"

text \<open>What a frame condition must allow: changes of the one directory and of the counter.\<close>

definition frames :: "string \<Rightarrow> (disk \<Rightarrow> bool) \<Rightarrow> bool" where
  "frames root R \<longleftrightarrow> (\<forall>d e k. R d \<longrightarrow> R (d\<lparr>dk_spaces := (dk_spaces d)(root := e), dk_next := k\<rparr>))"

lemma framesD: "frames root R \<Longrightarrow> R d \<Longrightarrow> R (d\<lparr>dk_spaces := (dk_spaces d)(root := e), dk_next := k\<rparr>)"
  by (simp add: frames_def)

lemma framesD_entry: "frames root R \<Longrightarrow> R d \<Longrightarrow> R (d\<lparr>dk_spaces := (dk_spaces d)(root := e)\<rparr>)"
  using framesD [of root R d "dk_next d" e] by simp

lemma manifest_temporary_neq [simp]:
  "manifest_temporary operation \<noteq> MANIFEST_FILE" "MANIFEST_FILE \<noteq> manifest_temporary operation"
  "manifest_temporary operation \<noteq> ACTIVE_FILE" "ACTIVE_FILE \<noteq> manifest_temporary operation"
proof -
  show "manifest_temporary operation \<noteq> MANIFEST_FILE" "manifest_temporary operation \<noteq> ACTIVE_FILE"
    by (simp_all add: manifest_temporary_def MANIFEST_FILE_def ACTIVE_FILE_def)
  then show "MANIFEST_FILE \<noteq> manifest_temporary operation" "ACTIVE_FILE \<noteq> manifest_temporary operation" by auto
qed

lemma put_inner_at:
  assumes "dk_spaces d root = Some (with_files n files)"
  shows "put_inner uid root name b d = d\<lparr>dk_spaces := (dk_spaces d)(root \<mapsto>
     with_files n (files(name \<mapsto> (created_stat uid (dk_next d) (length b), b)))), dk_next := Suc (dk_next d)\<rparr>"
  using assms by (simp add: put_inner_def with_files_def)

lemma created_pending:
  "manifest_pending host op n (with_files n ((dn_files n)(manifest_temporary op \<mapsto> (created_stat (h_uid host) i k, b))))"
  unfolding manifest_pending_def clean_inner_def
  by (rule exI [of _ "Some (created_stat (h_uid host) i k, b)"]) simp

lemma pending_put:
  assumes "frames root R" and "at_entry root (manifest_pending host op n) R d"
  shows "at_entry root (manifest_pending host op n) R (put_inner (h_uid host) root (manifest_temporary op) b d)"
proof -
  obtain t where e: "dk_spaces d root = Some (with_files n ((dn_files n)(manifest_temporary op := t)))" and R: "R d"
    using assms(2) by (auto simp: at_entry_def manifest_pending_def)
  show ?thesis
    unfolding put_inner_at [OF e] at_entry_def using framesD [OF assms(1) R] by (simp add: created_pending)
qed

text \<open>The temporary file holds the new bytes.\<close>

definition manifest_written :: "store_host \<Rightarrow> string \<Rightarrow> dir_node \<Rightarrow> space_manifest \<Rightarrow> node \<Rightarrow> bool" where
  "manifest_written host operation n manifest e \<longleftrightarrow>
     (\<exists>i. let b = h_manifest_bytes host manifest in
        e = with_files n ((dn_files n)(manifest_temporary operation \<mapsto> (created_stat (h_uid host) i (length b), b))))"

lemma written_pending: "manifest_written host op n manifest e \<Longrightarrow> manifest_pending host op n e"
  by (auto simp: manifest_written_def Let_def created_pending)

lemma put_written:
  assumes "frames root R" and "at_entry root (manifest_pending host op n) R d"
  shows "at_entry root (manifest_written host op n manifest) R
    (put_inner (h_uid host) root (manifest_temporary op) (h_manifest_bytes host manifest) d)"
proof -
  obtain t where e: "dk_spaces d root = Some (with_files n ((dn_files n)(manifest_temporary op := t)))" and R: "R d"
    using assms(2) by (auto simp: at_entry_def manifest_pending_def)
  show ?thesis
    unfolding put_inner_at [OF e] at_entry_def manifest_written_def Let_def
    using framesD [OF assms(1) R] by auto
qed

lemma at_entry_mono: "at_entry root P R d \<Longrightarrow> (\<And>e. P e \<Longrightarrow> P' e) \<Longrightarrow> at_entry root P' R d"
  by (auto simp: at_entry_def)

lemma triple_write_manifest:
  assumes "frames root R"
  shows "triple F (at_entry root (manifest_pending host op n) R)
     (write_private_inner (h_uid host) root (manifest_temporary op) (h_manifest_bytes host manifest))
     (\<lambda>_. at_entry root (manifest_written host op n manifest) R) (at_entry root (manifest_pending host op n) R)"
proof -
  note put = pending_put [OF assms] put_written [OF assms] at_entry_mono [OF _ written_pending]
  show ?thesis
    unfolding write_private_inner_def
    by (intro triple_bind [where R = "\<lambda>_. at_entry root (manifest_pending host op n) R"]
        triple_bind [where R = "\<lambda>_. at_entry root (manifest_written host op n manifest) R"] triple_syscall)
      (auto split: option.splits if_splits intro: put)
qed

lemma triple_rename_manifest:
  assumes "frames root R"
  shows "triple F (at_entry root (manifest_written host op n manifest) R)
     (rename_inner action root (manifest_temporary op) MANIFEST_FILE)
     (\<lambda>_. at_entry root (manifest_replaced host op n manifest) R) (at_entry root (manifest_written host op n manifest) R)"
  unfolding rename_inner_def edit_directory_def
proof (rule triple_syscall)
  fix d x d'
  assume "at_entry root (manifest_written host op n manifest) R d"
    and op: "(case dk_spaces d root of
       Some (DirNode n) \<Rightarrow>
         (case case dn_files n (manifest_temporary op) of None \<Rightarrow> Err SystemError action
             | Some e \<Rightarrow> Ok ((dn_files n)(manifest_temporary op := None, MANIFEST_FILE \<mapsto> e)) of
            Inl e \<Rightarrow> (Inl e, d)
          | Inr files \<Rightarrow> (Ok (), d\<lparr>dk_spaces := (dk_spaces d)(root \<mapsto> DirNode (n\<lparr>dn_files := files\<rparr>))\<rparr>))
     | _ \<Rightarrow> (Err SystemError action, d)) = (Inr x, d')"
  then obtain i b where b: "b = h_manifest_bytes host manifest"
    and e: "dk_spaces d root = Some (with_files n ((dn_files n)(manifest_temporary op \<mapsto> (created_stat (h_uid host) i (length b), b))))"
    and R: "R d" by (auto simp: at_entry_def manifest_written_def Let_def)
  have "d' = d\<lparr>dk_spaces := (dk_spaces d)(root \<mapsto> with_files n ((dn_files n)(manifest_temporary op := None,
     MANIFEST_FILE \<mapsto> (created_stat (h_uid host) i (length b), b))))\<rparr>"
    using op e by (auto simp: with_files_def)
  then show "at_entry root (manifest_replaced host op n manifest) R d'"
    using framesD_entry [OF assms R] b by (auto simp: at_entry_def manifest_replaced_def Let_def)
qed (auto split: option.splits node.splits sum.splits)

lemma triple_remove_temporary:
  assumes "frames root R"
  shows "triple F (at_entry root (manifest_pending host op n) R)
     (remove_inner_file action root (manifest_temporary op))
     (\<lambda>_. at_entry root (\<lambda>e. e = with_files n ((dn_files n)(manifest_temporary op := None))) R)
     (at_entry root (manifest_pending host op n) R)"
  unfolding remove_inner_file_def edit_directory_def
proof (rule triple_syscall)
  fix d x d'
  assume "at_entry root (manifest_pending host op n) R d"
    and op: "(case dk_spaces d root of
       Some (DirNode n) \<Rightarrow>
         (case if dn_files n (manifest_temporary op) = None then Err SystemError action
             else Ok ((dn_files n)(manifest_temporary op := None)) of
            Inl e \<Rightarrow> (Inl e, d)
          | Inr files \<Rightarrow> (Ok (), d\<lparr>dk_spaces := (dk_spaces d)(root \<mapsto> DirNode (n\<lparr>dn_files := files\<rparr>))\<rparr>))
     | _ \<Rightarrow> (Err SystemError action, d)) = (Inr x, d')"
  then obtain t where e: "dk_spaces d root = Some (with_files n ((dn_files n)(manifest_temporary op := t)))"
    and R: "R d" by (auto simp: at_entry_def manifest_pending_def)
  have "d' = d\<lparr>dk_spaces := (dk_spaces d)(root \<mapsto> with_files n ((dn_files n)(manifest_temporary op := None)))\<rparr>"
    using op e by (auto simp: with_files_def split: if_splits)
  then show "at_entry root (\<lambda>e. e = with_files n ((dn_files n)(manifest_temporary op := None))) R d'"
    using framesD_entry [OF assms R] by (simp add: at_entry_def)
qed (auto split: option.splits node.splits sum.splits)

lemma cleared_pending: "manifest_pending host op n (with_files n ((dn_files n)(manifest_temporary op := None)))"
  unfolding manifest_pending_def clean_inner_def by (rule exI [of _ None]) simp

lemma triple_sync_entry: "(\<And>d. P d \<Longrightarrow> C d) \<Longrightarrow> triple F P (sync_entry host path) (\<lambda>_. P) C"
  unfolding sync_entry_def by (rule triple_keeps) (auto intro!: keeps_rules)

text \<open>
  Under any faults a replacement leaves the directory as it was, up to its own temporary file, or
  with the new manifest and no temporary file.
\<close>

lemma triple_attempt:
  assumes "triple F P m Q C" and "\<And>d. C d \<Longrightarrow> C' d"
    and "\<And>x. triple F (Q x) (f (Inr x)) R C'" and "\<And>e. triple F C (f (Inl e)) R C'"
  shows "triple F P (bind_io (attempt m) f) R C'"
  unfolding triple_def
proof (intro allI impI wp_bind wp_attempt)
  fix d
  assume "P d"
  with assms(1) have "wp F m Q (\<lambda>_. C) C d" by (rule triple_wp)
  then show "wp F m (\<lambda>x. wp F (f (Inr x)) R (\<lambda>_. C') C') (\<lambda>e. wp F (f (Inl e)) R (\<lambda>_. C') C') C' d"
    by (rule wp_conseq) (auto intro: triple_wp [OF assms(3)] triple_wp [OF assms(4)] assms(2))
qed

lemma triple_replace_manifest:
  assumes "frames root R"
  shows "triple F (at_entry root (manifest_pending host op n) R) (replace_manifest host root manifest op)
     (\<lambda>_. at_entry root (manifest_replaced host op n manifest) R)
     (\<lambda>d. at_entry root (manifest_pending host op n) R d \<or> at_entry root (manifest_replaced host op n manifest) R d)"
    (is "triple F ?pending _ _ ?C")
proof -
  have give_up: "triple F (at_entry root (manifest_written host op n manifest) R)
     (bind_io (attempt (remove_inner_file ''remove file'' root (manifest_temporary op))) (\<lambda>_. fail error))
     (\<lambda>_. at_entry root (manifest_replaced host op n manifest) R) ?C" for error
    by (rule triple_conseq [where P = ?pending and C = ?C, OF triple_attempt [OF triple_remove_temporary [OF assms]]])
      (auto intro!: triple_fail intro: at_entry_mono written_pending cleared_pending)
  have "triple F (at_entry root (manifest_written host op n manifest) R)
     (bind_io (attempt (rename_inner ''replace space manifest'' root (manifest_temporary op) MANIFEST_FILE)) (\<lambda>renamed.
     case renamed of
       Inl error \<Rightarrow>
         bind_io (attempt (remove_inner_file ''remove file'' root (manifest_temporary op))) (\<lambda>_. fail error)
     | Inr _ \<Rightarrow> sync_entry host root)) (\<lambda>_. at_entry root (manifest_replaced host op n manifest) R) ?C"
    by (rule triple_attempt [OF triple_rename_manifest [OF assms]])
      (auto intro!: give_up triple_sync_entry intro: at_entry_mono written_pending)
  then show ?thesis
    unfolding replace_manifest_def
    by (intro triple_bind [OF triple_lift [where Q = "\<lambda>_. ?pending"]]
        triple_bind [OF triple_conseq [OF triple_write_manifest [OF assms]]]) auto
qed

subsection \<open>Undisturbed replacements\<close>

lemma runs_write_inner:
  assumes "dk_spaces d root = Some (with_files n files)" and "files name = None"
    and "\<And>i k. Q () (d\<lparr>dk_spaces := (dk_spaces d)(root \<mapsto>
        with_files n (files(name \<mapsto> (created_stat uid i (length bytes), bytes)))), dk_next := k\<rparr>)"
  shows "runs (write_private_inner uid root name bytes) Q d"
proof -
  have files: "inner_files d root = Some files" using assms(1) by (simp add: inner_files_def with_files_def)
  let ?d1 = "put_inner uid root name [] d"
  have d1: "dk_spaces ?d1 root = Some (with_files n (files(name \<mapsto> (created_stat uid (dk_next d) 0, []))))"
    by (simp add: put_inner_at [OF assms(1)])
  have d2: "put_inner uid root name bytes ?d1 = d\<lparr>dk_spaces := (dk_spaces d)(root \<mapsto>
      with_files n (files(name \<mapsto> (created_stat uid (Suc (dk_next d)) (length bytes), bytes)))), dk_next := Suc (Suc (dk_next d))\<rparr>"
    by (subst put_inner_at [OF d1]) (simp add: put_inner_at [OF assms(1)])
  show ?thesis
    unfolding write_private_inner_def
    by (intro runs_rules runs_syscall) (use files assms(2,3) d2 in auto)
qed

lemma disk_update_order: "d\<lparr>dk_next := k, dk_spaces := s\<rparr> = d\<lparr>dk_spaces := s, dk_next := k\<rparr>"
  by simp

lemma runs_edit_directory:
  assumes "dk_spaces d root = Some (with_files n files)" and "change files = Ok files'"
    and "Q () (d\<lparr>dk_spaces := (dk_spaces d)(root \<mapsto> with_files n files')\<rparr>)"
  shows "runs (edit_directory action root change) Q d"
  unfolding edit_directory_def
  by (rule runs_syscall) (use assms in \<open>auto simp: with_files_def\<close>)

lemma runs_replace_manifest:
  assumes "dk_spaces d root = Some (with_files n files)" and "files (manifest_temporary op) = None"
    and "validate_stored_manifest manifest = Ok ()" and "validate_private_dir (h_uid host) (dn_stat n) = Ok ()"
    and "\<And>i k b. b = h_manifest_bytes host manifest \<Longrightarrow> Q () (d\<lparr>dk_spaces := (dk_spaces d)(root \<mapsto>
        with_files n (files(manifest_temporary op := None, MANIFEST_FILE \<mapsto> (created_stat (h_uid host) i (length b), b)))),
        dk_next := k\<rparr>)"
  shows "runs (replace_manifest host root manifest op) Q d"
proof -
  let ?b = "h_manifest_bytes host manifest"
  have valid: "runs (lift (validate_stored_manifest manifest)) R d" if "R () d" for R
    using assms(3) that by (auto intro: runs_rules)
  have tail: "runs (bind_io (attempt (rename_inner a root (manifest_temporary op) MANIFEST_FILE)) (\<lambda>renamed.
     case renamed of
       Inl error \<Rightarrow>
         bind_io (attempt (remove_inner_file ''remove file'' root (manifest_temporary op))) (\<lambda>_. fail error)
     | Inr _ \<Rightarrow> sync_entry host root)) Q
     (d\<lparr>dk_spaces := (dk_spaces d)(root \<mapsto> with_files n (files(manifest_temporary op \<mapsto> (created_stat (h_uid host) i (length ?b), ?b)))),
       dk_next := k\<rparr>)" for a i k
    unfolding attempt_def rename_inner_def sync_entry_def
    by (intro runs_bind runs_catch runs_ret runs_read_entry runs_lift runs_sync_directory runs_edit_directory)
      (use assms(4) assms(5) [OF refl] in \<open>auto simp: with_files_def disk_update_order intro!: runs_rules\<close>)
  show ?thesis
    unfolding replace_manifest_def
    by (intro runs_bind [of "lift _"] valid runs_bind [of "write_private_inner _ _ _ _"] runs_write_inner [OF assms(1,2)] tail)
qed

lemma runs_remove_inner:
  assumes "dk_spaces d root = Some (with_files n files)" and "files name \<noteq> None"
    and "Q () (d\<lparr>dk_spaces := (dk_spaces d)(root \<mapsto> with_files n (files(name := None)))\<rparr>)"
  shows "runs (remove_inner_file action root name) Q d"
  unfolding remove_inner_file_def
  by (rule runs_edit_directory [OF assms(1)]) (use assms(2,3) in auto)

subsection \<open>Opening a directory whose manifest was replaced\<close>

text \<open>What is relied on of \<open>serde_json\<close>: a manifest that was written is read back.\<close>

definition manifest_codec :: "store_host \<Rightarrow> space_manifest \<Rightarrow> bool" where
  "manifest_codec host manifest \<longleftrightarrow>
     (let b = h_manifest_bytes host manifest in
      mj_header (h_json host) b = Some (sm_schema_version manifest) \<and> mj_manifest (h_json host) b = Some manifest \<and>
      length b \<le> MAX_MANIFEST_BYTES)"

lemma open_with_files:
  assumes "files ACTIVE_FILE = dn_files n ACTIVE_FILE" and "files MANIFEST_FILE = dn_files n MANIFEST_FILE"
  shows "open_node host path (Some (with_files n files)) name = open_node host path (Some (DirNode n)) name"
  using assms by (simp add: open_node_def with_files_def inner_stat_def)

lemma open_replaced:
  assumes "open_node host path (Some (DirNode n)) name = Ok s" and "manifest_replaced host op n manifest e"
    and "manifest_codec host manifest" and "validate_stored_manifest manifest = Ok ()"
    and "sm_schema_version manifest \<in> set SUPPORTED_SCHEMA_VERSIONS"
  shows "open_node host path' (Some e) expected =
    (if expected = space_name_as_str (sm_name manifest) then Ok \<lparr>sp_root = path', sp_manifest = manifest\<rparr>
     else Err CorruptState ''space directory and manifest names differ'')"
proof -
  let ?b = "h_manifest_bytes host manifest"
  obtain i where e: "e = with_files n ((dn_files n)(manifest_temporary op := None,
              MANIFEST_FILE \<mapsto> (created_stat (h_uid host) i (length ?b), ?b)))"
    using assms(2) by (auto simp: manifest_replaced_def Let_def)
  have "validate_space_anchors (h_uid host) (as_space_dir (DirNode n)) = Ok ()"
    using assms(1) by (simp add: open_node_def open_path_ok)
  then have anchors: "validate_space_anchors (h_uid host) (as_space_dir e) = Ok ()"
    by (simp add: e with_files_def inner_stat_def validate_space_anchors_def validate_removal_anchors_def)
  have "read_private_file (h_uid host) (sd_manifest (as_space_dir e)) = Ok ?b"
    using assms(3) by (simp add: e with_files_def read_private_file_quiet manifest_codec_def Let_def)
  then have "read_validated_manifest (h_json host) (h_uid host) (as_space_dir e) expected =
     (if expected = space_name_as_str (sm_name manifest) then Ok manifest
      else Err CorruptState ''space directory and manifest names differ'')"
    using assms(3-5) by (simp add: read_validated_manifest_def manifest_codec_def Let_def)
  then show ?thesis
    by (simp add: open_node_def open_path_with_expected_name_def anchors)
qed

end
