(* ===== verification/Space_Rename.thy ===== *)
theory Space_Rename
  imports Manifest_Replace
begin

text \<open>
  The rename transaction of \<open>store/rename.rs\<close>: the guards, the durable marker, the move of the
  directory, the rewrite of its manifest, and the recovery of interrupted renames. The lifecycle
  lease, the count of legacy artifact bindings, the migration of the runtime directory and the
  generated identifier are inputs.
\<close>

subsection \<open>Guards and reports\<close>

record space_rename_report =
  srr_previous :: string
  srr_name :: string
  srr_space_id :: string
  srr_changed :: bool

record rename_scan_counts =
  rs_marker_count :: nat
  rs_issues :: nat

record rename_recovery =
  rr_recovered :: nat
  rr_issues :: nat

definition MAX_RENAMES :: nat where "MAX_RENAMES = 128"

record rename_inputs =
  rn_lease :: "unit result"
  rn_bindings :: "nat result"
  rn_migrate :: "unit result"
  rn_id :: "space_id result"

definition validate_distinct_names :: "space_name \<Rightarrow> space_name \<Rightarrow> unit result" where
  "validate_distinct_names previous name =
     (if previous \<noteq> name then Ok ()
      else Err InvalidInput ''the new space name must differ from the current name'')"

definition reject_legacy :: "space \<Rightarrow> unit result" where
  "reject_legacy s =
     (if sm_space_id (sp_manifest s) \<noteq> None then Ok ()
      else Err Unsupported ''legacy spaces must receive a stable identity before rename'')"

definition reject_legacy_artifact_bindings :: "nat result \<Rightarrow> unit result" where
  "reject_legacy_artifact_bindings legacy_artifact_bindings =
     rbind legacy_artifact_bindings (\<lambda>bindings.
     if bindings = 0 then Ok ()
     else Err Unsupported ''space has artifact bindings captured before stable identity upgrade'')"

definition reject_destination :: "space_name \<Rightarrow> unit io" where
  "reject_destination name =
     bind_io (entry_exists (space_name_as_str name)) (\<lambda>present.
     if \<not> present then ret () else fail (QErr AlreadyExists ''space already exists''))"

definition rename_report :: "space \<Rightarrow> space_name \<Rightarrow> space_name \<Rightarrow> bool \<Rightarrow> space_rename_report result" where
  "rename_report s previous name changed =
     (case sm_space_id (sp_manifest s) of
        None \<Rightarrow> Err Unsupported ''rename requires a stable space identity''
      | Some ident \<Rightarrow>
          Ok \<lparr>srr_previous = space_name_as_str previous, srr_name = space_name_as_str name,
              srr_space_id = space_id_as_str ident, srr_changed = changed\<rparr>)"

definition validate_marker_identity :: "rename_marker \<Rightarrow> space \<Rightarrow> unit result" where
  "validate_marker_identity marker s =
     (if source_identity_matches (nm_source_identity marker) s then Ok ()
      else Err CorruptState ''rename source identity changed after the transaction was prepared'')"

subsection \<open>The transaction\<close>

definition write_rename_marker :: "store_host \<Rightarrow> rename_marker \<Rightarrow> unit io" where
  "write_rename_marker host marker =
     write_private_file (h_uid host) (rename_marker_name (space_id_as_str (nm_transaction_id marker)))
       (h_rename_bytes host marker)"

definition complete_moved_rename :: "store_host \<Rightarrow> string \<Rightarrow> rename_marker \<Rightarrow> unit io" where
  "complete_moved_rename host destination marker =
     bind_io (open_relocated_path host destination (nm_previous marker)) (\<lambda>moved.
     bind_io (lift (validate_marker_identity marker moved)) (\<lambda>_.
     replace_manifest host destination ((sp_manifest moved)\<lparr>sm_name := nm_name marker\<rparr>) ''rename''))"

definition cleanup_manifest_temporary :: "store_host \<Rightarrow> string \<Rightarrow> unit io" where
  "cleanup_manifest_temporary host root =
     bind_io (read_inner ''inspect rename manifest temporary'' root (manifest_temporary ''rename'')) (\<lambda>e.
     case e of
       None \<Rightarrow> ret ()
     | Some (metadata, _) \<Rightarrow>
         bind_io (lift (validate_private_file (h_uid host) metadata)) (\<lambda>_.
         remove_inner_file ''remove rename manifest temporary'' root (manifest_temporary ''rename'')))"

definition rename_guards :: "store_host \<Rightarrow> space_name \<Rightarrow> space_name \<Rightarrow> space io" where
  "rename_guards host previous name =
     bind_io (ensure_no_rename_target host previous) (\<lambda>_.
     bind_io (ensure_no_rename_target host name) (\<lambda>_.
     bind_io (ensure_no_rollback_target host previous) (\<lambda>_.
     bind_io (ensure_no_rollback_target host name) (\<lambda>_.
     bind_io (store_open host previous) (\<lambda>source.
     bind_io (ensure_not_frozen host source) (\<lambda>_.
     bind_io (lift (reject_legacy source)) (\<lambda>_.
     ret source)))))))"

definition rename_plan ::
  "store_host \<Rightarrow> rename_inputs \<Rightarrow> space_name \<Rightarrow> space_name \<Rightarrow> space_rename_report io" where
  "rename_plan host inp previous name =
     bind_io (lift (validate_distinct_names previous name)) (\<lambda>_.
     bind_io (rename_guards host previous name) (\<lambda>source.
     bind_io (lift (reject_legacy_artifact_bindings (rn_bindings inp))) (\<lambda>_.
     bind_io (reject_destination name) (\<lambda>_.
     bind_io (lift (rn_lease inp)) (\<lambda>_.
     lift (rename_report source previous name False))))))"

definition new_rename_marker :: "space \<Rightarrow> space_id \<Rightarrow> space_name \<Rightarrow> space_name \<Rightarrow> rename_marker" where
  "new_rename_marker source ident previous name =
     \<lparr>nm_schema_version = RENAME_SCHEMA_VERSION, nm_transaction_id = ident, nm_previous = previous,
      nm_name = name, nm_source_identity = source_identity_for_space source\<rparr>"

text \<open>From the marker to its removal; a failed move takes the marker back.\<close>

definition move_space :: "store_host \<Rightarrow> rename_marker \<Rightarrow> unit io" where
  "move_space host marker =
     (let path = rename_marker_name (space_id_as_str (nm_transaction_id marker));
          destination = space_name_as_str (nm_name marker)
      in
     bind_io (write_rename_marker host marker) (\<lambda>_.
     bind_io sync_directory (\<lambda>_.
     bind_io (attempt (rename_entry ''move space for rename'' (space_name_as_str (nm_previous marker)) destination)) (\<lambda>moved.
     case moved of
       Inl error \<Rightarrow>
         bind_io (attempt (remove_file ''remove file'' path)) (\<lambda>_.
         bind_io (attempt sync_directory) (\<lambda>_. fail error))
     | Inr _ \<Rightarrow>
         bind_io sync_directory (\<lambda>_.
         bind_io (complete_moved_rename host destination marker) (\<lambda>_.
         bind_io (remove_file ''remove completed rename marker'' path) (\<lambda>_.
         sync_directory)))))))"

definition rename_space ::
  "store_host \<Rightarrow> rename_inputs \<Rightarrow> space_name \<Rightarrow> space_name \<Rightarrow> space_rename_report io" where
  "rename_space host inp previous name =
     bind_io (lift (validate_distinct_names previous name)) (\<lambda>_.
     bind_io (rename_guards host previous name) (\<lambda>source.
     bind_io (reject_destination name) (\<lambda>_.
     bind_io (lift (rn_lease inp)) (\<lambda>_.
     bind_io (lift (reject_legacy_artifact_bindings (rn_bindings inp))) (\<lambda>_.
     bind_io (lift (rn_migrate inp)) (\<lambda>_.
     bind_io (lift (rn_id inp)) (\<lambda>ident.
     bind_io (move_space host (new_rename_marker source ident previous name)) (\<lambda>_.
     bind_io (store_open host name) (\<lambda>renamed.
     lift (rename_report renamed previous name True))))))))))"

subsection \<open>Recovery\<close>

definition finish_rename :: "store_host \<Rightarrow> string \<Rightarrow> rename_marker \<Rightarrow> unit io" where
  "finish_rename host destination marker =
     bind_io (catch (open_relocated_path host destination (nm_previous marker))
        (\<lambda>_. open_relocated_path host destination (nm_name marker))) (\<lambda>moved.
     bind_io (lift (validate_marker_identity marker moved)) (\<lambda>_.
     if sm_name (sp_manifest moved) = nm_previous marker
     then bind_io (cleanup_manifest_temporary host destination) (\<lambda>_.
          complete_moved_rename host destination marker)
     else ret ()))"

definition recover_one :: "store_host \<Rightarrow> string \<Rightarrow> rename_marker \<Rightarrow> unit io" where
  "recover_one host marker_path marker =
     (let source_path = space_name_as_str (nm_previous marker);
          destination = space_name_as_str (nm_name marker)
      in
     bind_io (entry_exists source_path) (\<lambda>source_exists.
     bind_io (entry_exists destination) (\<lambda>destination_exists.
     bind_io (case (source_exists, destination_exists) of
         (True, False) \<Rightarrow>
           bind_io (open_relocated_path host source_path (nm_previous marker)) (\<lambda>source.
           lift (validate_marker_identity marker source))
       | (False, True) \<Rightarrow> finish_rename host destination marker
       | _ \<Rightarrow> fail (QErr CorruptState ''rename marker has ambiguous source and destination state'')) (\<lambda>_.
     remove_file ''remove recovered rename marker'' marker_path))))"

definition rename_scan_entry :: "store_host \<Rightarrow> string \<Rightarrow> rename_scan_counts \<Rightarrow> rename_scan_counts io" where
  "rename_scan_entry host name scan =
     bind_io (read_rename_marker host name) (\<lambda>decoded.
     ret (case decoded of
        None \<Rightarrow> scan
      | Some (Inl _) \<Rightarrow> scan\<lparr>rs_issues := sat_add (rs_issues scan) 1\<rparr>
      | Some (Inr _) \<Rightarrow> scan\<lparr>rs_marker_count := sat_add (rs_marker_count scan) 1\<rparr>))"

definition rename_scan :: "store_host \<Rightarrow> rename_scan_counts io" where
  "rename_scan host =
     scan_directory host ''read rename recovery namespace'' (rename_scan_entry host)
       \<lparr>rs_marker_count = 0, rs_issues = 0\<rparr>"

definition rename_recovery_count :: "store_host \<Rightarrow> nat io" where
  "rename_recovery_count host = bind_io (rename_scan host) (\<lambda>scan. ret (rs_marker_count scan))"

definition rename_recovery_issue_count :: "store_host \<Rightarrow> nat io" where
  "rename_recovery_issue_count host = bind_io (rename_scan host) (\<lambda>scan. ret (rs_issues scan))"

definition recover_rename_entry :: "store_host \<Rightarrow> string \<Rightarrow> rename_recovery \<Rightarrow> rename_recovery io" where
  "recover_rename_entry host name recovery =
     bind_io (valid_marker_entry host name) (\<lambda>found.
     case found of
       None \<Rightarrow> ret recovery
     | Some marker \<Rightarrow>
         if MAX_RENAMES \<le> rr_recovered recovery then ret recovery
         else bind_io (attempt (recover_one host name marker)) (\<lambda>outcome.
           ret (if is_ok outcome then recovery\<lparr>rr_recovered := sat_add (rr_recovered recovery) 1\<rparr>
                else recovery\<lparr>rr_issues := sat_add (rr_issues recovery) 1\<rparr>)))"

definition recover_rename_batch :: "store_host \<Rightarrow> rename_recovery io" where
  "recover_rename_batch host =
     scan_directory host ''read rename recovery namespace'' (recover_rename_entry host)
       \<lparr>rr_recovered = 0, rr_issues = 0\<rparr>"

definition recover_renames :: "store_host \<Rightarrow> rename_recovery io" where
  "recover_renames host =
     bind_io (recover_rename_batch host) (\<lambda>recovery.
     bind_io sync_directory (\<lambda>_. ret recovery))"

end
