(* ===== verification/Rename_Safety.thy ===== *)
theory Rename_Safety
  imports Space_Rename
begin

text \<open>
  The states an interrupted rename can be in. A transaction owns three names of the spaces
  directory: its marker, the old name and the new one; whatever else the store holds is a frame
  \<open>R\<close> that the transaction never disturbs. Under every fault script the transaction and its
  recovery stay inside these states.
\<close>

subsection \<open>A transaction and its names\<close>

record rename_tx =
  rx_marker :: rename_marker
  rx_dir :: dir_node
  rx_manifest :: space_manifest

abbreviation nmk :: "rename_tx \<Rightarrow> string" where
  "nmk t \<equiv> rename_marker_name (space_id_as_str (nm_transaction_id (rx_marker t)))"
abbreviation nsrc :: "rename_tx \<Rightarrow> string" where "nsrc t \<equiv> space_name_as_str (nm_previous (rx_marker t))"
abbreviation ndst :: "rename_tx \<Rightarrow> string" where "ndst t \<equiv> space_name_as_str (nm_name (rx_marker t))"

definition rename_names :: "rename_tx \<Rightarrow> string set" where
  "rename_names t = {nmk t, nsrc t, ndst t}"

definition renamed_manifest :: "rename_tx \<Rightarrow> space_manifest" where
  "renamed_manifest t = (rx_manifest t)\<lparr>sm_name := nm_name (rx_marker t)\<rparr>"

lemma renamed_manifest_name [simp]: "sm_name (renamed_manifest t) = nm_name (rx_marker t)"
  by (simp add: renamed_manifest_def)

text \<open>
  What is relied on of \<open>serde_json\<close>: a marker that was written is read back, and a prefix of it
  is no marker or the same one (it may lack the final newline only).
\<close>

definition rename_codec :: "store_host \<Rightarrow> rename_marker \<Rightarrow> bool" where
  "rename_codec host marker \<longleftrightarrow>
     (let b = h_rename_bytes host marker in
      h_rename_parse host b = Some marker \<and> length b \<le> MAX_MANIFEST_BYTES \<and>
      (\<forall>k. h_rename_parse host (take k b) \<in> {None, Some marker}))"

definition wf_rename :: "store_host \<Rightarrow> rename_tx \<Rightarrow> bool" where
  "wf_rename host t \<longleftrightarrow>
     hex_id_grammar (space_id_as_str (nm_transaction_id (rx_marker t))) \<and>
     portable_name_grammar (nsrc t) \<and> portable_name_grammar (ndst t) \<and>
     validate_rename_marker (rx_marker t) (nm_transaction_id (rx_marker t)) = Ok () \<and>
     rename_codec host (rx_marker t) \<and> manifest_codec host (renamed_manifest t) \<and>
     open_node host (nsrc t) (Some (DirNode (rx_dir t))) (nsrc t) = Ok \<lparr>sp_root = nsrc t, sp_manifest = rx_manifest t\<rparr> \<and>
     source_identity_matches (nm_source_identity (rx_marker t)) \<lparr>sp_root = nsrc t, sp_manifest = rx_manifest t\<rparr> \<and>
     clean_inner (h_uid host) (dn_files (rx_dir t) (manifest_temporary ''rename''))"

lemma rename_names_distinct:
  assumes "wf_rename host t"
  shows "nmk t \<noteq> nsrc t" "nmk t \<noteq> ndst t" "nsrc t \<noteq> ndst t" "nsrc t \<noteq> nmk t" "ndst t \<noteq> nmk t" "ndst t \<noteq> nsrc t"
proof -
  have "length (nmk t) > 32" "length (nsrc t) \<le> 32" "length (ndst t) \<le> 32"
    using assms by (auto simp: wf_rename_def hex_id_grammar_def portable_name_grammar_def rename_marker_name_def)
  then show "nmk t \<noteq> nsrc t" "nmk t \<noteq> ndst t" "nsrc t \<noteq> nmk t" "ndst t \<noteq> nmk t" by auto
  show "nsrc t \<noteq> ndst t"
    using assms by (auto simp: wf_rename_def validate_rename_marker_def space_name.expand split: if_splits)
  then show "ndst t \<noteq> nsrc t" by simp
qed

lemma layout_ignores_name: "validate_manifest_layout (m\<lparr>sm_name := n\<rparr>) = validate_manifest_layout m"
  by (simp add: validate_manifest_layout_def)

lemma wf_manifest:
  assumes "wf_rename host t"
  shows "validate_stored_manifest (rx_manifest t) = Ok ()" "validate_stored_manifest (renamed_manifest t) = Ok ()"
    "sm_schema_version (renamed_manifest t) \<in> set SUPPORTED_SCHEMA_VERSIONS" "sm_name (rx_manifest t) = nm_previous (rx_marker t)"
    "validate_private_dir (h_uid host) (dn_stat (rx_dir t)) = Ok ()"
proof -
  have anchors: "validate_space_anchors (h_uid host) (as_space_dir (DirNode (rx_dir t))) = Ok ()" and
    read: "read_validated_manifest (h_json host) (h_uid host) (as_space_dir (DirNode (rx_dir t))) (nsrc t) = Ok (rx_manifest t)"
    using assms by (auto simp: wf_rename_def open_node_def open_path_ok)
  show valid: "validate_stored_manifest (rx_manifest t) = Ok ()" and "sm_name (rx_manifest t) = nm_previous (rx_marker t)"
    using read_validated_manifest_ok [OF read] by (auto simp: space_name.expand)
  from valid show new: "validate_stored_manifest (renamed_manifest t) = Ok ()"
    by (simp add: validate_stored_manifest_ok renamed_manifest_def layout_ignores_name)
  from new show "sm_schema_version (renamed_manifest t) \<in> set SUPPORTED_SCHEMA_VERSIONS"
    by (auto simp: validate_stored_manifest_ok validate_manifest_layout_def SUPPORTED_SCHEMA_VERSIONS_def Let_def split: if_splits)
  from anchors show "validate_private_dir (h_uid host) (dn_stat (rx_dir t)) = Ok ()"
    by (auto simp: validate_space_anchors_def validate_removal_anchors_def rbind_eq_Inr)
qed

text \<open>The display name is no part of the identity of a space with a stable identifier.\<close>

lemma identity_survives_rename:
  assumes "wf_rename host t"
  shows "source_identity_matches (nm_source_identity (rx_marker t)) \<lparr>sp_root = p, sp_manifest = rx_manifest t\<rparr>"
    "source_identity_matches (nm_source_identity (rx_marker t)) \<lparr>sp_root = p, sp_manifest = renamed_manifest t\<rparr>"
  using assms
  by (auto simp: wf_rename_def validate_rename_marker_def source_identity_matches_def source_identity_for_space_def
      renamed_manifest_def Let_def split: if_splits option.splits)

subsection \<open>The states\<close>

definition frame_for :: "string set \<Rightarrow> (disk \<Rightarrow> bool) \<Rightarrow> bool" where
  "frame_for names R \<longleftrightarrow> (\<forall>d d'. R d \<longrightarrow> elsewhere names d d' \<longrightarrow> R d')"

definition torn_marker :: "store_host \<Rightarrow> rename_tx \<Rightarrow> node option \<Rightarrow> bool" where
  "torn_marker host t e \<longleftrightarrow> (\<exists>k. whole_file (h_uid host) (take k (h_rename_bytes host (rx_marker t))) e)"

definition whole_marker :: "store_host \<Rightarrow> rename_tx \<Rightarrow> node option \<Rightarrow> bool" where
  "whole_marker host t = whole_file (h_uid host) (h_rename_bytes host (rx_marker t))"

definition at_source :: "rename_tx \<Rightarrow> (disk \<Rightarrow> bool) \<Rightarrow> (node option \<Rightarrow> bool) \<Rightarrow> disk \<Rightarrow> bool" where
  "at_source t R M d \<longleftrightarrow>
     M (dk_spaces d (nmk t)) \<and> dk_spaces d (nsrc t) = Some (DirNode (rx_dir t)) \<and> dk_spaces d (ndst t) = None \<and> R d"

definition beside :: "rename_tx \<Rightarrow> (disk \<Rightarrow> bool) \<Rightarrow> (node option \<Rightarrow> bool) \<Rightarrow> disk \<Rightarrow> bool" where
  "beside t R M d \<longleftrightarrow> M (dk_spaces d (nmk t)) \<and> dk_spaces d (nsrc t) = None \<and> R d"

definition at_destination ::
  "rename_tx \<Rightarrow> (disk \<Rightarrow> bool) \<Rightarrow> (node option \<Rightarrow> bool) \<Rightarrow> (node \<Rightarrow> bool) \<Rightarrow> disk \<Rightarrow> bool" where
  "at_destination t R M P = at_entry (ndst t) P (beside t R M)"

abbreviation old_content :: "store_host \<Rightarrow> rename_tx \<Rightarrow> node \<Rightarrow> bool" where
  "old_content host t \<equiv> manifest_pending host ''rename'' (rx_dir t)"
abbreviation new_content :: "store_host \<Rightarrow> rename_tx \<Rightarrow> node \<Rightarrow> bool" where
  "new_content host t \<equiv> manifest_replaced host ''rename'' (rx_dir t) (renamed_manifest t)"

abbreviation absent :: "node option \<Rightarrow> bool" where "absent e \<equiv> e = None"

inductive rename_state :: "store_host \<Rightarrow> rename_tx \<Rightarrow> (disk \<Rightarrow> bool) \<Rightarrow> disk \<Rightarrow> bool"
  for host :: store_host and t :: rename_tx and R :: "disk \<Rightarrow> bool" where
  rn_before: "at_source t R absent d \<Longrightarrow> rename_state host t R d"
| rn_marked: "at_source t R (torn_marker host t) d \<Longrightarrow> rename_state host t R d"
| rn_moved: "at_destination t R (whole_marker host t) (old_content host t) d \<Longrightarrow> rename_state host t R d"
| rn_rewritten: "at_destination t R (whole_marker host t) (new_content host t) d \<Longrightarrow> rename_state host t R d"
| rn_finished: "at_destination t R absent (new_content host t) d \<Longrightarrow> rename_state host t R d"

lemma whole_torn: "whole_marker host t e \<Longrightarrow> torn_marker host t e"
  unfolding whole_marker_def torn_marker_def by (rule exI [of _ "length (h_rename_bytes host (rx_marker t))"]) simp

lemma elsewhere_refl [simp]: "elsewhere names d d"
  by (simp add: elsewhere_def)

lemma frame_forD: "frame_for names R \<Longrightarrow> R d \<Longrightarrow> elsewhere names d d' \<Longrightarrow> R d'"
  by (auto simp: frame_for_def)

lemma beside_frames:
  assumes "wf_rename host t" and "frame_for (rename_names t) R"
  shows "frames (ndst t) (beside t R M)"
proof -
  have "R (d\<lparr>dk_spaces := (dk_spaces d)(ndst t := e), dk_next := k\<rparr>)" if "R d" for d e k
    by (rule frame_forD [OF assms(2) that]) (auto simp: elsewhere_def rename_names_def)
  then show ?thesis
    using rename_names_distinct [OF assms(1)] by (auto simp: frames_def beside_def)
qed

subsection \<open>The move\<close>

lemma triple_write_rename_marker:
  assumes wf: "wf_rename host t" and R: "frame_for (rename_names t) R"
  shows "triple F (at_source t R absent) (write_rename_marker host (rx_marker t))
    (\<lambda>_. at_source t R (whole_marker host t)) (rename_state host t R)"
proof -
  note ne = rename_names_distinct [OF wf]
  have R': "R (put_file (h_uid host) (nmk t) b (put_file (h_uid host) (nmk t) c d))" if "R d" for d b c
    by (rule frame_forD [OF R that]) (auto simp: elsewhere_def rename_names_def)
  have R'': "R (put_file (h_uid host) (nmk t) b d)" if "R d" for d b
    by (rule frame_forD [OF R that]) (auto simp: elsewhere_def rename_names_def)
  show ?thesis
    unfolding write_rename_marker_def
  proof (rule triple_write_private_prefix)
    fix d
    assume P: "at_source t R absent d"
    then show "rename_state host t R d" by (rule rn_before)
    have "torn_marker host t (Some (FileNode (created_stat (h_uid host) i 0) []))" for i
      unfolding torn_marker_def whole_file_def by (rule exI [of _ 0]) auto
    then show "rename_state host t R (put_file (h_uid host) (nmk t) [] d)"
      by (intro rn_marked) (use P ne R'' in \<open>auto simp: at_source_def\<close>)
    show "rename_state host t R (put_file (h_uid host) (nmk t) (take n (h_rename_bytes host (rx_marker t)))
       (put_file (h_uid host) (nmk t) [] d))" for n
      by (rule rn_marked) (use P ne R' in \<open>auto simp: at_source_def torn_marker_def whole_file_def\<close>)
    show "at_source t R (whole_marker host t) (put_file (h_uid host) (nmk t) (h_rename_bytes host (rx_marker t))
       (put_file (h_uid host) (nmk t) [] d))"
      using P ne R' by (auto simp: at_source_def whole_marker_def whole_file_def)
  qed
qed

lemma triple_open_entry:
  assumes "\<And>d x. P d \<Longrightarrow> open_node host path (dk_spaces d path) (space_name_as_str n) = Ok x \<Longrightarrow> x = s"
  shows "triple F P (open_relocated_path host path n) (\<lambda>x d. P d \<and> x = s) P"
  unfolding triple_def by (auto intro!: wp_open_relocated_path assms)

lemma old_content_opens:
  assumes "wf_rename host t" and "old_content host t e"
  shows "open_node host path (Some e) (nsrc t) = Ok \<lparr>sp_root = path, sp_manifest = rx_manifest t\<rparr>"
proof -
  have "open_node host path (Some e) (nsrc t) = open_node host path (Some (DirNode (rx_dir t))) (nsrc t)"
    using assms(2) by (auto simp: manifest_pending_def intro!: open_with_files)
  also have "\<dots> = Ok \<lparr>sp_root = path, sp_manifest = rx_manifest t\<rparr>"
    using assms(1) by (simp add: wf_rename_def open_node_def open_path_ok)
  finally show ?thesis .
qed

lemma new_content_opens:
  assumes "wf_rename host t" and "new_content host t e"
  shows "open_node host path (Some e) (ndst t) = Ok \<lparr>sp_root = path, sp_manifest = renamed_manifest t\<rparr>"
    "open_node host path (Some e) (nsrc t) = Err CorruptState ''space directory and manifest names differ''"
proof -
  have "open_node host (nsrc t) (Some (DirNode (rx_dir t))) (nsrc t) = Ok \<lparr>sp_root = nsrc t, sp_manifest = rx_manifest t\<rparr>"
    and "manifest_codec host (renamed_manifest t)" using assms(1) by (simp_all add: wf_rename_def)
  note open_replaced [OF this(1) assms(2) this(2) wf_manifest(2,3) [OF assms(1)]]
  then show "open_node host path (Some e) (ndst t) = Ok \<lparr>sp_root = path, sp_manifest = renamed_manifest t\<rparr>"
    "open_node host path (Some e) (nsrc t) = Err CorruptState ''space directory and manifest names differ''"
    using rename_names_distinct(3) [OF assms(1)] by (simp_all add: renamed_manifest_def)
qed

lemma triple_complete_moved_rename:
  assumes wf: "wf_rename host t" and R: "frame_for (rename_names t) R"
  shows "triple F (at_destination t R (whole_marker host t) (old_content host t))
    (complete_moved_rename host (ndst t) (rx_marker t))
    (\<lambda>_. at_destination t R (whole_marker host t) (new_content host t)) (rename_state host t R)"
proof -
  let ?s = "\<lparr>sp_root = ndst t, sp_manifest = rx_manifest t\<rparr>"
  let ?moved = "at_destination t R (whole_marker host t) (old_content host t)"
  have opened: "triple F ?moved (open_relocated_path host (ndst t) (nm_previous (rx_marker t))) (\<lambda>x d. ?moved d \<and> x = ?s) ?moved"
    by (rule triple_open_entry) (auto simp: at_destination_def at_entry_def old_content_opens [OF wf])
  have check: "triple F (\<lambda>d. ?moved d \<and> x = ?s) (lift (validate_marker_identity (rx_marker t) x)) (\<lambda>_ d. ?moved d \<and> x = ?s) ?moved" for x
    by (rule triple_lift) auto
  have rewrite: "triple F (\<lambda>d. ?moved d \<and> x = ?s)
     (replace_manifest host (ndst t) ((sp_manifest x)\<lparr>sm_name := nm_name (rx_marker t)\<rparr>) ''rename'')
     (\<lambda>_. at_destination t R (whole_marker host t) (new_content host t)) (rename_state host t R)" for x
  proof (cases "x = ?s")
    case True
    then have "(sp_manifest x)\<lparr>sm_name := nm_name (rx_marker t)\<rparr> = renamed_manifest t" by (simp add: renamed_manifest_def)
    then show ?thesis
      unfolding at_destination_def
      by (auto intro!: triple_conseq [OF triple_replace_manifest [OF beside_frames [OF wf R]]]
          intro: rn_moved rn_rewritten simp: at_destination_def)
  qed (simp add: triple_def)
  show ?thesis
    unfolding complete_moved_rename_def
    by (rule triple_bind [OF triple_conseq [OF opened]], assumption, assumption, rule rn_moved, assumption,
        rule triple_bind [OF triple_conseq [OF check]], assumption, assumption, rule rn_moved, assumption, rule rewrite)
qed

lemma triple_pre: "(b \<Longrightarrow> triple F P m Q C) \<Longrightarrow> triple F (\<lambda>d. P d \<and> b) m Q C"
  by (auto simp: triple_def)

lemma triple_drop_rename_marker:
  assumes wf: "wf_rename host t" and R: "frame_for (rename_names t) R"
  shows "triple F (at_source t R M) (remove_file a (nmk t)) (\<lambda>_. at_source t R absent) (at_source t R M)"
    "triple F (at_destination t R M P) (remove_file a (nmk t)) (\<lambda>_. at_destination t R absent P) (at_destination t R M P)"
proof -
  note ne = rename_names_distinct [OF wf]
  have R': "R (d\<lparr>dk_spaces := (dk_spaces d)(nmk t := None)\<rparr>)" if "R d" for d
    by (rule frame_forD [OF R that]) (auto simp: elsewhere_def rename_names_def)
  show "triple F (at_source t R M) (remove_file a (nmk t)) (\<lambda>_. at_source t R absent) (at_source t R M)"
    by (rule triple_remove_file) (use ne R' in \<open>auto simp: at_source_def\<close>)
  show "triple F (at_destination t R M P) (remove_file a (nmk t)) (\<lambda>_. at_destination t R absent P) (at_destination t R M P)"
    by (rule triple_remove_file) (use ne R' in \<open>auto simp: at_destination_def at_entry_def beside_def\<close>)
qed

lemma at_source_mono: "at_source t R M d \<Longrightarrow> (\<And>e. M e \<Longrightarrow> M' e) \<Longrightarrow> at_source t R M' d"
  by (auto simp: at_source_def)

lemma source_state: "at_source t R (whole_marker host t) d \<Longrightarrow> rename_state host t R d"
  by (auto intro!: rn_marked elim: at_source_mono whole_torn)

lemma triple_move_entry:
  assumes wf: "wf_rename host t" and R: "frame_for (rename_names t) R"
  shows "triple F (at_source t R (whole_marker host t)) (rename_entry a (nsrc t) (ndst t))
    (\<lambda>_. at_destination t R (whole_marker host t) (old_content host t)) (at_source t R (whole_marker host t))"
proof (rule triple_rename)
  note ne = rename_names_distinct [OF wf]
  fix d e
  assume P: "at_source t R (whole_marker host t) d" and e: "dk_spaces d (nsrc t) = Some e"
  let ?d = "d\<lparr>dk_spaces := (dk_spaces d)(nsrc t := None, ndst t \<mapsto> e)\<rparr>"
  have "old_content host t (DirNode (rx_dir t))"
    unfolding manifest_pending_def with_files_def
    by (rule exI [of _ "dn_files (rx_dir t) (manifest_temporary ''rename'')"]) (use wf in \<open>simp add: wf_rename_def\<close>)
  moreover have "R ?d"
    by (rule frame_forD [OF R, of d]) (use P in \<open>auto simp: at_source_def elsewhere_def rename_names_def\<close>)
  ultimately show "at_destination t R (whole_marker host t) (old_content host t) ?d"
    using P e ne by (auto simp: at_source_def at_destination_def at_entry_def beside_def)
qed (use rename_names_distinct [OF wf] in auto)

lemma triple_move_space:
  assumes wf: "wf_rename host t" and R: "frame_for (rename_names t) R"
  shows "triple F (at_source t R absent) (move_space host (rx_marker t))
    (\<lambda>_. at_destination t R absent (new_content host t)) (rename_state host t R)"
proof -
  let ?S = "rename_state host t R"
  have give_up: "triple F (at_source t R (whole_marker host t))
     (bind_io (attempt (remove_file a (nmk t))) (\<lambda>_. bind_io (attempt sync_directory) (\<lambda>_. fail e :: unit io)))
     (\<lambda>_. at_destination t R absent (new_content host t)) ?S" for a e
  proof (rule triple_attempt [OF triple_drop_rename_marker(1) [OF wf R]])
    have tail: "triple F ?S (bind_io (attempt sync_directory) (\<lambda>_. fail e :: unit io)) Q ?S" for Q :: "unit \<Rightarrow> disk \<Rightarrow> bool"
      by (rule triple_attempt [OF triple_sync [where P = ?S and Q = "\<lambda>_. ?S" and C = ?S]]) (auto intro: triple_fail)
    show "triple F (at_source t R absent) (bind_io (attempt sync_directory) (\<lambda>_. fail e :: unit io))
      (\<lambda>_. at_destination t R absent (new_content host t)) ?S"
      by (rule triple_conseq [OF tail]) (auto intro: rn_before)
    show "triple F (at_source t R (whole_marker host t)) (bind_io (attempt sync_directory) (\<lambda>_. fail e :: unit io))
      (\<lambda>_. at_destination t R absent (new_content host t)) ?S"
      by (rule triple_conseq [OF tail]) (auto intro: source_state)
  qed (rule source_state)
  have finish: "triple F (at_destination t R (whole_marker host t) (old_content host t))
     (bind_io sync_directory (\<lambda>_. bind_io (complete_moved_rename host (ndst t) (rx_marker t)) (\<lambda>_.
      bind_io (remove_file a (nmk t)) (\<lambda>_. sync_directory))))
     (\<lambda>_. at_destination t R absent (new_content host t)) ?S" for a
    by (intro triple_bind [OF triple_sync [where Q = "\<lambda>_. at_destination t R (whole_marker host t) (old_content host t)"]]
        triple_bind [OF triple_complete_moved_rename [OF wf R]]
        triple_bind [OF triple_conseq [OF triple_drop_rename_marker(2) [OF wf R]]] triple_sync)
      (auto intro: rn_moved rn_rewritten rn_finished)
  show ?thesis
    unfolding move_space_def Let_def
    by (rule triple_bind [OF triple_write_rename_marker [OF wf R]],
        rule triple_bind [OF triple_sync [where Q = "\<lambda>_. at_source t R (whole_marker host t)"]],
        simp add: source_state,
        rule triple_attempt [OF triple_move_entry [OF wf R]])
      (auto intro: source_state give_up finish)
qed

subsection \<open>Recovery of one rename\<close>

lemma read_validated_manifest_other:
  "read_validated_manifest json uid d n = Ok m \<Longrightarrow>
     read_validated_manifest json uid d n' =
       (if n' = space_name_as_str (sm_name m) then Ok m else Err CorruptState ''space directory and manifest names differ'')"
  unfolding read_validated_manifest_def
  by (cases "read_private_file uid (sd_manifest d)"; cases "mj_header json (projr (read_private_file uid (sd_manifest d)))";
      cases "mj_manifest json (projr (read_private_file uid (sd_manifest d)))")
    (auto simp: rbind_eq_Inr split: if_splits)

lemma old_content_not_new:
  assumes "wf_rename host t" and "old_content host t e"
  shows "open_node host path (Some e) (ndst t) \<noteq> Ok s"
proof -
  have read: "read_validated_manifest (h_json host) (h_uid host) (as_space_dir e) (nsrc t) = Ok (rx_manifest t)"
    using old_content_opens [OF assms] by (simp add: open_node_def open_path_ok)
  show ?thesis
    using read_validated_manifest_other [OF read, of "ndst t"] rename_names_distinct(6) [OF assms(1)] wf_manifest(4) [OF assms(1)]
    by (simp add: open_node_def open_path_ok)
qed

lemma triple_cleanup_manifest_temporary:
  assumes wf: "wf_rename host t" and R: "frame_for (rename_names t) R"
  shows "triple F (at_destination t R M (old_content host t)) (cleanup_manifest_temporary host (ndst t))
     (\<lambda>_. at_destination t R M (old_content host t)) (at_destination t R M (old_content host t))"
proof -
  let ?P = "at_destination t R M (old_content host t)"
  have "triple F ?P (remove_inner_file a (ndst t) (manifest_temporary ''rename'')) (\<lambda>_. ?P) ?P" for a
    unfolding at_destination_def
    by (rule triple_conseq [OF triple_remove_temporary [OF beside_frames [OF wf R]]])
      (auto elim!: at_entry_mono intro: cleared_pending)
  moreover have "keeps (read_inner a (ndst t) (manifest_temporary ''rename''))" for a
    unfolding read_inner_def by (auto intro!: keeps_rules keeps_syscall)
  ultimately show ?thesis
    unfolding cleanup_manifest_temporary_def
    by (intro triple_bind [OF triple_keeps])
      (auto intro!: triple_ret triple_bind [OF triple_lift [where Q = "\<lambda>_. ?P"]] split: option.split)
qed

lemma wp_open_moved:
  assumes "wf_rename host t" and "\<And>e. E e d" and "C d"
    and "\<And>s. open_node host (ndst t) (dk_spaces d (ndst t)) (nsrc t) = Ok s \<or>
       open_node host (ndst t) (dk_spaces d (ndst t)) (ndst t) = Ok s \<Longrightarrow> Q s d"
  shows "wp F (catch (open_relocated_path host (ndst t) (nm_previous (rx_marker t)))
     (\<lambda>_. open_relocated_path host (ndst t) (nm_name (rx_marker t)))) Q E C d"
  by (intro wp_catch wp_open_relocated_path) (use assms in auto)

lemma triple_finish_rename:
  assumes wf: "wf_rename host t" and R: "frame_for (rename_names t) R"
  shows "triple F (at_destination t R (whole_marker host t) (old_content host t)) (finish_rename host (ndst t) (rx_marker t))
     (\<lambda>_. at_destination t R (whole_marker host t) (new_content host t)) (rename_state host t R)"
    "triple F (at_destination t R M (new_content host t)) (finish_rename host (ndst t) (rx_marker t))
     (\<lambda>_. at_destination t R M (new_content host t)) (at_destination t R M (new_content host t))"
proof -
  let ?old = "at_destination t R (whole_marker host t) (old_content host t)"
  let ?new = "at_destination t R M (new_content host t)"
  let ?open = "catch (open_relocated_path host (ndst t) (nm_previous (rx_marker t)))
     (\<lambda>_. open_relocated_path host (ndst t) (nm_name (rx_marker t)))"
  have old: "triple F ?old ?open (\<lambda>x d. ?old d \<and> sm_name (sp_manifest x) = nm_previous (rx_marker t)) ?old"
    unfolding triple_def
    by (auto intro!: wp_open_moved [OF wf] simp: at_destination_def at_entry_def old_content_opens [OF wf]
        old_content_not_new [OF wf] wf_manifest(4) [OF wf])
  have new: "triple F ?new ?open (\<lambda>x d. ?new d \<and> sm_name (sp_manifest x) \<noteq> nm_previous (rx_marker t)) ?new"
    unfolding triple_def
    using rename_names_distinct(3) [OF wf]
    by (auto intro!: wp_open_moved [OF wf] simp: at_destination_def at_entry_def new_content_opens [OF wf] renamed_manifest_def)
  show "triple F ?old (finish_rename host (ndst t) (rx_marker t))
     (\<lambda>_. at_destination t R (whole_marker host t) (new_content host t)) (rename_state host t R)"
    unfolding finish_rename_def
    by (rule triple_bind [OF triple_conseq [OF old]], assumption, assumption, erule rn_moved, rule triple_pre,
        rule triple_bind [OF triple_lift [where Q = "\<lambda>_. ?old"]], erule rn_moved, assumption)
      (auto intro!: triple_bind [where R = "\<lambda>_. ?old"] triple_conseq [OF triple_cleanup_manifest_temporary [OF wf R]]
        triple_complete_moved_rename [OF wf R] intro: rn_moved)
  show "triple F ?new (finish_rename host (ndst t) (rx_marker t)) (\<lambda>_. ?new) ?new"
    unfolding finish_rename_def
    by (rule triple_bind [OF new], rule triple_pre, rule triple_bind [OF triple_lift [where Q = "\<lambda>_. ?new"]])
      (auto intro!: triple_ret)
qed

text \<open>A rename is settled when the space is at one of the two names, with its manifest, and the marker is gone.\<close>

definition rename_settled :: "store_host \<Rightarrow> rename_tx \<Rightarrow> (disk \<Rightarrow> bool) \<Rightarrow> disk \<Rightarrow> bool" where
  "rename_settled host t R d \<longleftrightarrow> at_source t R absent d \<or> at_destination t R absent (new_content host t) d"

lemma settled_state: "rename_settled host t R d \<Longrightarrow> rename_state host t R d"
  by (auto simp: rename_settled_def intro: rn_before rn_finished)

lemma triple_entry_value:
  assumes "\<And>d. P d \<Longrightarrow> (dk_spaces d name \<noteq> None) = v"
  shows "triple F P (entry_exists name) (\<lambda>b d. P d \<and> b = v) P"
  by (rule triple_entry_exists) (use assms in auto)

lemma triple_recover_source:
  assumes wf: "wf_rename host t" and R: "frame_for (rename_names t) R"
  shows "triple F (at_source t R M) (recover_one host (nmk t) (rx_marker t)) (\<lambda>_. at_source t R absent) (at_source t R M)"
  unfolding recover_one_def Let_def
proof (rule triple_bind [OF triple_entry_value [where v = True]])
  fix b
  have opened: "triple F (at_source t R M) (bind_io (open_relocated_path host (nsrc t) (nm_previous (rx_marker t))) (\<lambda>source.
     lift (validate_marker_identity (rx_marker t) source))) (\<lambda>_. at_source t R M) (at_source t R M)"
    by (rule triple_keeps) (auto intro!: keeps_rules)
  show "triple F (\<lambda>d. at_source t R M d \<and> b = True) (bind_io (entry_exists (ndst t)) (\<lambda>destination_exists.
     bind_io (case (b, destination_exists) of
         (True, False) \<Rightarrow>
           bind_io (open_relocated_path host (nsrc t) (nm_previous (rx_marker t))) (\<lambda>source.
           lift (validate_marker_identity (rx_marker t) source))
       | (False, True) \<Rightarrow> finish_rename host (ndst t) (rx_marker t)
       | _ \<Rightarrow> fail (QErr CorruptState ''rename marker has ambiguous source and destination state'')) (\<lambda>_.
     remove_file ''remove recovered rename marker'' (nmk t)))) (\<lambda>_. at_source t R absent) (at_source t R M)"
    by (rule triple_pre, rule triple_bind [OF triple_entry_value [where v = False]], simp add: at_source_def, rule triple_pre)
      (auto intro!: triple_bind [OF opened] triple_drop_rename_marker [OF wf R])
qed (simp add: at_source_def)

lemma triple_recover_destination:
  assumes wf: "wf_rename host t"
    and step: "triple F (at_destination t R M P) (finish_rename host (ndst t) (rx_marker t)) Q C"
    and C: "\<And>d. at_destination t R M P d \<Longrightarrow> C d"
    and drop: "\<And>u a. triple F (Q u) (remove_file a (nmk t)) Q' C"
  shows "triple F (at_destination t R M P) (recover_one host (nmk t) (rx_marker t)) Q' C"
proof -
  let ?P = "at_destination t R M P"
  have there: "?P d \<Longrightarrow> (dk_spaces d (ndst t) \<noteq> None) = True" "?P d \<Longrightarrow> (dk_spaces d (nsrc t) \<noteq> None) = False" for d
    by (auto simp: at_destination_def at_entry_def beside_def)
  have src: "triple F ?P (entry_exists (nsrc t)) (\<lambda>b d. ?P d \<and> b = False) C"
    and dst: "triple F ?P (entry_exists (ndst t)) (\<lambda>b d. ?P d \<and> b = True) C"
    by (rule triple_conseq [OF triple_entry_value], erule there, assumption, assumption, erule C)+
  show ?thesis
    unfolding recover_one_def Let_def
    by (rule triple_bind [OF src], rule triple_pre, rule triple_bind [OF dst], rule triple_pre)
      (auto intro!: triple_bind [OF step] drop)
qed

lemma triple_recover_one:
  assumes wf: "wf_rename host t" and R: "frame_for (rename_names t) R"
  shows "triple F (rename_state host t R) (recover_one host (nmk t) (rx_marker t)) (\<lambda>_. rename_settled host t R) (rename_state host t R)"
proof -
  have source: "triple F (at_source t R M) (recover_one host (nmk t) (rx_marker t)) (\<lambda>_. rename_settled host t R) (rename_state host t R)"
    if "\<And>d. at_source t R M d \<Longrightarrow> rename_state host t R d" for M
    by (rule triple_conseq [OF triple_recover_source [OF wf R]]) (auto simp: rename_settled_def that)
  have old: "triple F (at_destination t R (whole_marker host t) (old_content host t)) (recover_one host (nmk t) (rx_marker t))
     (\<lambda>_. rename_settled host t R) (rename_state host t R)"
    by (rule triple_recover_destination [OF wf triple_finish_rename(1) [OF wf R]])
      (auto intro: rn_moved rn_rewritten simp: rename_settled_def intro!: triple_conseq [OF triple_drop_rename_marker(2) [OF wf R]])
  have new: "triple F (at_destination t R M (new_content host t)) (recover_one host (nmk t) (rx_marker t))
     (\<lambda>_. rename_settled host t R) (rename_state host t R)"
    if "\<And>d. at_destination t R M (new_content host t) d \<Longrightarrow> rename_state host t R d" for M
    by (rule triple_conseq [OF triple_recover_destination [OF wf triple_finish_rename(2) [OF wf R] _ triple_drop_rename_marker(2) [OF wf R]]])
      (auto simp: rename_settled_def that)
  show ?thesis
    unfolding triple_def
    by (auto elim!: rename_state.cases dest: triple_wp [OF source, rotated] triple_wp [OF old] triple_wp [OF new, rotated]
        intro: rename_state.intros)
qed

subsection \<open>Undisturbed recovery\<close>

lemma runs_open_entry:
  "open_node host path (dk_spaces d path) (space_name_as_str n) = Ok s \<Longrightarrow> Q s d \<Longrightarrow> runs (open_relocated_path host path n) Q d"
  unfolding open_relocated_path_def by (intro runs_bind runs_read_entry runs_lift)

lemma runs_cleanup_manifest_temporary:
  assumes "dk_spaces d root = Some (with_files n files)"
    and "clean_inner (h_uid host) (files (manifest_temporary ''rename''))"
    and "Q () (d\<lparr>dk_spaces := (dk_spaces d)(root \<mapsto> with_files n (files(manifest_temporary ''rename'' := None)))\<rparr>)"
  shows "runs (cleanup_manifest_temporary host root) Q d"
proof -
  have files: "inner_files d root = Some files" using assms(1) by (simp add: inner_files_def with_files_def)
  have gone: "files(manifest_temporary ''rename'' := None) = files" if "files (manifest_temporary ''rename'') = None"
    using that by auto
  have same: "d\<lparr>dk_spaces := (dk_spaces d)(root \<mapsto> with_files n files)\<rparr> = d"
    using assms(1) by (metis disk.surjective disk.update_convs(1) fun_upd_triv)
  have read: "runs (read_inner a root m) Q' d" if "Q' (files m) d" for a m Q'
    unfolding read_inner_def by (intro runs_bind runs_syscall) (use files that in \<open>auto intro: runs_ret\<close>)
  show ?thesis
    unfolding cleanup_manifest_temporary_def
  proof (intro runs_bind read)
    show "runs (case files (manifest_temporary ''rename'') of None \<Rightarrow> ret ()
       | Some (metadata, _) \<Rightarrow>
         bind_io (lift (validate_private_file (h_uid host) metadata)) (\<lambda>_.
         remove_inner_file ''remove rename manifest temporary'' root (manifest_temporary ''rename''))) Q d"
      using assms(2,3) gone same
      by (auto split: option.splits simp: clean_inner_def validate_private_file_ok
          intro!: runs_ret runs_bind runs_lift runs_remove_inner [OF assms(1)])
  qed
qed

lemma runs_complete_moved_rename:
  assumes wf: "wf_rename host t"
    and e: "dk_spaces d (ndst t) = Some (with_files (rx_dir t) ((dn_files (rx_dir t))(manifest_temporary ''rename'' := None)))"
    and Q: "\<And>e k. new_content host t e \<Longrightarrow> Q () (d\<lparr>dk_spaces := (dk_spaces d)(ndst t \<mapsto> e), dk_next := k\<rparr>)"
  shows "runs (complete_moved_rename host (ndst t) (rx_marker t)) Q d"
  unfolding complete_moved_rename_def
proof (rule runs_bind, rule runs_open_entry)
  let ?s = "\<lparr>sp_root = ndst t, sp_manifest = rx_manifest t\<rparr>"
  show "open_node host (ndst t) (dk_spaces d (ndst t)) (nsrc t) = Ok ?s"
    using old_content_opens [OF wf cleared_pending] e by simp
  have ident: "validate_marker_identity (rx_marker t) ?s = Ok ()"
    by (simp add: validate_marker_identity_def identity_survives_rename [OF wf])
  have manifest: "(sp_manifest ?s)\<lparr>sm_name := nm_name (rx_marker t)\<rparr> = renamed_manifest t" by (simp add: renamed_manifest_def)
  show "runs (bind_io (lift (validate_marker_identity (rx_marker t) ?s)) (\<lambda>_.
     replace_manifest host (ndst t) ((sp_manifest ?s)\<lparr>sm_name := nm_name (rx_marker t)\<rparr>) ''rename'')) Q d"
    unfolding manifest
    by (intro runs_bind runs_lift [OF ident] runs_replace_manifest [OF e] wf_manifest [OF wf] Q)
      (auto simp: manifest_replaced_def Let_def)
qed

lemma runs_finish_rename:
  assumes wf: "wf_rename host t" and R: "frame_for (rename_names t) R"
  shows "at_destination t R M (old_content host t) d \<Longrightarrow>
     runs (finish_rename host (ndst t) (rx_marker t)) (\<lambda>_. at_destination t R M (new_content host t)) d"
    and "at_destination t R M (new_content host t) d \<Longrightarrow>
     runs (finish_rename host (ndst t) (rx_marker t)) (\<lambda>_. at_destination t R M (new_content host t)) d"
proof -
  have ident: "validate_marker_identity (rx_marker t) \<lparr>sp_root = p, sp_manifest = rx_manifest t\<rparr> = Ok ()"
    "validate_marker_identity (rx_marker t) \<lparr>sp_root = p, sp_manifest = renamed_manifest t\<rparr> = Ok ()" for p
    by (simp_all add: validate_marker_identity_def identity_survives_rename [OF wf])
  note frame = beside_frames [OF wf R]
  {
    assume d: "at_destination t R M (old_content host t) d"
    then obtain tmp where c: "clean_inner (h_uid host) tmp" and b: "beside t R M d"
      and e: "dk_spaces d (ndst t) = Some (with_files (rx_dir t) ((dn_files (rx_dir t))(manifest_temporary ''rename'' := tmp)))"
      by (auto simp: at_destination_def at_entry_def manifest_pending_def)
    have opened: "open_node host (ndst t) (dk_spaces d (ndst t)) (nsrc t) = Ok \<lparr>sp_root = ndst t, sp_manifest = rx_manifest t\<rparr>"
      using d by (auto simp: at_destination_def at_entry_def old_content_opens [OF wf])
    show "runs (finish_rename host (ndst t) (rx_marker t)) (\<lambda>_. at_destination t R M (new_content host t)) d"
      unfolding finish_rename_def
      using wf_manifest(4) [OF wf] c framesD [OF frame b]
      by (auto intro!: runs_bind runs_catch runs_open_entry [OF opened] runs_lift [OF ident(1)]
          runs_cleanup_manifest_temporary [OF e] runs_complete_moved_rename [OF wf] simp: at_destination_def at_entry_def)
  next
    assume d: "at_destination t R M (new_content host t) d"
    then obtain e where e: "dk_spaces d (ndst t) = Some e" "new_content host t e"
      by (auto simp: at_destination_def at_entry_def)
    note opens = new_content_opens [OF wf e(2), of "ndst t"]
    have "runs (catch (open_relocated_path host (ndst t) (nm_previous (rx_marker t)))
        (\<lambda>_. open_relocated_path host (ndst t) (nm_name (rx_marker t)))) (\<lambda>s d'. s = \<lparr>sp_root = ndst t, sp_manifest = renamed_manifest t\<rparr> \<and> d' = d) d"
      unfolding runs_def open_relocated_path_def
      by (simp add: catch_def bind_io_def read_entry_def syscall_def lift_def fail_def ret_def e(1) opens)
    then have "runs (catch (open_relocated_path host (ndst t) (nm_previous (rx_marker t)))
        (\<lambda>_. open_relocated_path host (ndst t) (nm_name (rx_marker t))))
        (\<lambda>moved. runs (bind_io (lift (validate_marker_identity (rx_marker t) moved)) (\<lambda>_.
     if sm_name (sp_manifest moved) = nm_previous (rx_marker t)
     then bind_io (cleanup_manifest_temporary host (ndst t)) (\<lambda>_.
          complete_moved_rename host (ndst t) (rx_marker t))
     else ret ())) (\<lambda>_. at_destination t R M (new_content host t))) d"
      by (rule runs_conseq)
        (use d rename_names_distinct(3) [OF wf] in \<open>auto intro!: runs_bind runs_lift [OF ident(2)] runs_ret\<close>)
    then show "runs (finish_rename host (ndst t) (rx_marker t)) (\<lambda>_. at_destination t R M (new_content host t)) d"
      unfolding finish_rename_def by (rule runs_bind)
  }
qed

lemma runs_entry_value:
  "(dk_spaces d name \<noteq> None) = v \<Longrightarrow> Q v d \<Longrightarrow> runs (entry_exists name) Q d"
  by (rule runs_entry_exists) simp

lemma runs_drop_marker:
  assumes wf: "wf_rename host t" and R: "frame_for (rename_names t) R"
    and M: "\<And>e. M e \<Longrightarrow> torn_marker host t e"
  shows "at_source t R M d \<Longrightarrow> runs (remove_file a (nmk t)) (\<lambda>_. at_source t R absent) d"
    and "at_destination t R M P d \<Longrightarrow> runs (remove_file a (nmk t)) (\<lambda>_. at_destination t R absent P) d"
proof -
  note ne = rename_names_distinct [OF wf]
  have R': "R (d\<lparr>dk_spaces := (dk_spaces d)(nmk t := None)\<rparr>)" if "R d"
    by (rule frame_forD [OF R that]) (auto simp: elsewhere_def rename_names_def)
  have is_file: "\<exists>m b. dk_spaces d (nmk t) = Some (FileNode m b)" if "M (dk_spaces d (nmk t))"
    using M [OF that] by (auto simp: torn_marker_def whole_file_def)
  {
    assume s: "at_source t R M d"
    then obtain m b where f: "dk_spaces d (nmk t) = Some (FileNode m b)" using is_file by (auto simp: at_source_def)
    show "runs (remove_file a (nmk t)) (\<lambda>_. at_source t R absent) d"
      by (rule runs_remove_file [OF f]) (use s ne R' in \<open>auto simp: at_source_def\<close>)
  next
    assume s: "at_destination t R M P d"
    then obtain m b where f: "dk_spaces d (nmk t) = Some (FileNode m b)"
      using is_file by (auto simp: at_destination_def at_entry_def beside_def)
    show "runs (remove_file a (nmk t)) (\<lambda>_. at_destination t R absent P) d"
      by (rule runs_remove_file [OF f]) (use s ne R' in \<open>auto simp: at_destination_def at_entry_def beside_def\<close>)
  }
qed

lemma runs_recover_destination:
  assumes wf: "wf_rename host t" and R: "frame_for (rename_names t) R"
    and d: "at_destination t R (whole_marker host t) P d"
    and fin: "runs (finish_rename host (ndst t) (rx_marker t)) (\<lambda>_. at_destination t R (whole_marker host t) (new_content host t)) d"
  shows "runs (recover_one host (nmk t) (rx_marker t)) (\<lambda>_. at_destination t R absent (new_content host t)) d"
proof -
  have e: "(dk_spaces d (nsrc t) \<noteq> None) = False" "(dk_spaces d (ndst t) \<noteq> None) = True"
    using d by (auto simp: at_destination_def at_entry_def beside_def)
  have "runs (finish_rename host (ndst t) (rx_marker t)) (\<lambda>_. runs (remove_file a (nmk t))
      (\<lambda>_. at_destination t R absent (new_content host t))) d" for a
    by (rule runs_conseq [OF fin]) (rule runs_drop_marker(2) [OF wf R whole_torn])
  then show ?thesis
    unfolding recover_one_def Let_def
    by (intro runs_bind [of "entry_exists _"] runs_entry_value [OF e(1)] runs_entry_value [OF e(2)]) (simp add: runs_bind)
qed

lemma runs_recover_one:
  assumes wf: "wf_rename host t" and R: "frame_for (rename_names t) R" and d: "rename_state host t R d"
    and m: "dk_spaces d (nmk t) \<noteq> None"
  shows "runs (recover_one host (nmk t) (rx_marker t)) (\<lambda>_. rename_settled host t R) d"
  using d
proof cases
  case rn_marked
  have e: "(dk_spaces d (nsrc t) \<noteq> None) = True" "(dk_spaces d (ndst t) \<noteq> None) = False"
    and src: "dk_spaces d (nsrc t) = Some (DirNode (rx_dir t))" using rn_marked by (auto simp: at_source_def)
  have opened: "open_node host (nsrc t) (dk_spaces d (nsrc t)) (nsrc t) = Ok \<lparr>sp_root = nsrc t, sp_manifest = rx_manifest t\<rparr>"
    using wf src by (simp add: wf_rename_def)
  have ident: "validate_marker_identity (rx_marker t) \<lparr>sp_root = nsrc t, sp_manifest = rx_manifest t\<rparr> = Ok ()"
    by (simp add: validate_marker_identity_def identity_survives_rename [OF wf])
  have drop: "runs (remove_file a (nmk t)) (\<lambda>_. rename_settled host t R) d" for a
    by (rule runs_conseq [OF runs_drop_marker(1) [OF wf R _ rn_marked]]) (auto simp: rename_settled_def)
  show ?thesis
    unfolding recover_one_def Let_def
    by (intro runs_bind [of "entry_exists _"] runs_entry_value [OF e(1)] runs_entry_value [OF e(2)])
      (auto intro!: runs_bind runs_open_entry [OF opened] runs_lift [OF ident] drop)
next
  case rn_moved
  then show ?thesis
    by (intro runs_conseq [OF runs_recover_destination [OF wf R rn_moved runs_finish_rename(1) [OF wf R rn_moved]]])
      (simp add: rename_settled_def)
next
  case rn_rewritten
  then show ?thesis
    by (intro runs_conseq [OF runs_recover_destination [OF wf R rn_rewritten runs_finish_rename(2) [OF wf R rn_rewritten]]])
      (simp add: rename_settled_def)
qed (use m in \<open>auto simp: at_source_def at_destination_def at_entry_def beside_def\<close>)

end
