(* ===== verification/Rename_Store.thy ===== *)
theory Rename_Store
  imports Rename_Safety
begin

text \<open>
  A store with any number of interrupted renames: the batch that recovers them keeps every one of
  them recoverable when it is cut short, and settles all of them when it is not. The transactions
  own disjoint names because a new rename refuses a name that a marker mentions.
\<close>

subsection \<open>Families\<close>

definition rename_family :: "store_host \<Rightarrow> rename_tx list \<Rightarrow> bool" where
  "rename_family host ts \<longleftrightarrow> (\<forall>t\<in>set ts. wf_rename host t) \<and>
     (\<forall>t\<in>set ts. \<forall>u\<in>set ts. t \<noteq> u \<longrightarrow> rename_names t \<inter> rename_names u = {})"

definition renaming_names :: "rename_tx list \<Rightarrow> string set" where
  "renaming_names ts = (\<Union>t\<in>set ts. rename_names t)"

abbreviation anywhere :: "disk \<Rightarrow> bool" where "anywhere \<equiv> \<lambda>_. True"

definition rename_store :: "store_host \<Rightarrow> rename_tx list \<Rightarrow> disk \<Rightarrow> disk \<Rightarrow> bool" where
  "rename_store host ts d0 d \<longleftrightarrow>
     (\<forall>t\<in>set ts. rename_state host t anywhere d) \<and> elsewhere (renaming_names ts) d0 d"

definition others :: "store_host \<Rightarrow> rename_tx list \<Rightarrow> disk \<Rightarrow> rename_tx \<Rightarrow> disk \<Rightarrow> bool" where
  "others host ts d0 t d \<longleftrightarrow>
     (\<forall>u\<in>set ts. u \<noteq> t \<longrightarrow> rename_state host u anywhere d) \<and> elsewhere (renaming_names ts) d0 d"

lemma at_source_frame: "at_source t R M d \<longleftrightarrow> at_source t anywhere M d \<and> R d"
  by (auto simp: at_source_def)

lemma at_destination_frame: "at_destination t R M P d \<longleftrightarrow> at_destination t anywhere M P d \<and> R d"
  by (auto simp: at_destination_def at_entry_def beside_def)

lemma rename_state_frame: "rename_state host t R d \<longleftrightarrow> rename_state host t anywhere d \<and> R d"
  unfolding rename_state.simps
  by (subst (1 2) at_source_frame, subst (1 2 3) at_destination_frame) auto

lemma rename_settled_frame: "rename_settled host t R d \<longleftrightarrow> rename_settled host t anywhere d \<and> R d"
  unfolding rename_settled_def by (subst at_source_frame, subst at_destination_frame) auto

text \<open>A state depends on the names of its transaction only.\<close>

lemma at_local:
  assumes "\<And>n. n \<in> rename_names t \<Longrightarrow> dk_spaces d' n = dk_spaces d n"
  shows "at_source t anywhere M d' = at_source t anywhere M d"
    "at_destination t anywhere M P d' = at_destination t anywhere M P d"
  using assms by (auto simp: at_source_def at_destination_def at_entry_def beside_def rename_names_def)

lemma rename_state_local:
  assumes "\<And>n. n \<in> rename_names t \<Longrightarrow> dk_spaces d' n = dk_spaces d n"
  shows "rename_state host t anywhere d' = rename_state host t anywhere d"
  unfolding rename_state.simps by (simp add: at_local [OF assms])

lemma others_frame:
  assumes fam: "rename_family host ts" and t: "t \<in> set ts"
  shows "frame_for (rename_names t) (others host ts d0 t)"
  unfolding frame_for_def
proof (intro allI impI)
  fix d d'
  assume o: "others host ts d0 t d" and e: "elsewhere (rename_names t) d d'"
  have "rename_state host u anywhere d'" if u: "u \<in> set ts" "u \<noteq> t" for u
  proof -
    have "dk_spaces d' n = dk_spaces d n" if "n \<in> rename_names u" for n
    proof -
      have "rename_names u \<inter> rename_names t = {}" using fam t u by (auto simp: rename_family_def)
      then show ?thesis using e that by (auto simp: elsewhere_def)
    qed
    then have "rename_state host u anywhere d' = rename_state host u anywhere d" by (rule rename_state_local)
    then show ?thesis using o u by (simp add: others_def)
  qed
  moreover have "elsewhere (renaming_names ts) d0 d'"
    using o e t by (auto simp: others_def elsewhere_def renaming_names_def)
  ultimately show "others host ts d0 t d'" by (simp add: others_def)
qed

lemma rename_store_at: "t \<in> set ts \<Longrightarrow> rename_store host ts d0 d \<longleftrightarrow> rename_state host t (others host ts d0 t) d"
  by (subst rename_state_frame) (auto simp: rename_store_def others_def)

subsection \<open>Which markers the scan finds\<close>

definition rename_marker_at :: "store_host \<Rightarrow> disk \<Rightarrow> string \<Rightarrow> rename_marker \<Rightarrow> bool" where
  "rename_marker_at host d name marker \<longleftrightarrow>
     (\<exists>ident bytes. parse_rename_marker_name name = Some ident \<and>
        private_bytes (h_uid host) (dk_spaces d name) = Ok bytes \<and> decode_rename_marker host ident bytes = Ok marker)"

lemma parse_rename_marker_name_eq_Some:
  "parse_rename_marker_name name = Some i \<longleftrightarrow>
     name = rename_marker_name (space_id_as_str i) \<and> hex_id_grammar (space_id_as_str i)"
proof -
  have "(case space_id_parse v of Inl _ \<Rightarrow> None | Inr ident \<Rightarrow> Some ident) = Some i \<longleftrightarrow> space_id_parse v = Ok i" for v
    by (auto split: sum.splits)
  then have "parse_rename_marker_name name = Some i \<longleftrightarrow>
     (\<exists>v. Option.bind (strip_prefix name ''.rename-'') (\<lambda>value. strip_suffix value ''.json'') = Some v \<and> space_id_parse v = Ok i)"
    by (auto simp: parse_rename_marker_name_def split: option.splits)
  then show ?thesis
    by (auto simp: space_ids.parse_eq_Ok bind_eq_Some_conv strip_prefix_eq_Some strip_suffix_eq_Some rename_marker_name_def)
qed

lemma rename_marker_name_inject [simp]: "rename_marker_name i = rename_marker_name j \<longleftrightarrow> i = j"
  by (simp add: rename_marker_name_def)

lemma marker_name_of:
  assumes wf: "wf_rename host t" and n: "n \<in> rename_names t" and p: "parse_rename_marker_name n = Some i"
  shows "n = nmk t" "i = nm_transaction_id (rx_marker t)"
proof -
  have "length (nsrc t) \<le> 32" "length (ndst t) \<le> 32"
    using wf by (auto simp: wf_rename_def portable_name_grammar_def)
  moreover have "length n > 32" using p by (auto simp: parse_rename_marker_name_eq_Some hex_id_grammar_def rename_marker_name_def)
  ultimately show n': "n = nmk t" using n by (auto simp: rename_names_def)
  then show "i = nm_transaction_id (rx_marker t)"
    using p by (simp add: parse_rename_marker_name_eq_Some space_id.expand)
qed

lemma marker_path_parses: "wf_rename host t \<Longrightarrow> parse_rename_marker_name (nmk t) = Some (nm_transaction_id (rx_marker t))"
  by (simp add: parse_rename_marker_name_eq_Some wf_rename_def)

lemma state_marker:
  assumes "rename_state host t R d"
  shows "dk_spaces d (nmk t) = None \<or> torn_marker host t (dk_spaces d (nmk t))"
  using assms by cases (auto simp: at_source_def at_destination_def at_entry_def beside_def whole_torn)

lemma torn_bytes:
  assumes "wf_rename host t" and "torn_marker host t e"
  obtains k where "private_bytes (h_uid host) e = Ok (take k (h_rename_bytes host (rx_marker t)))"
  using assms by (auto simp: torn_marker_def whole_file_def wf_rename_def rename_codec_def Let_def)

text \<open>A marker that decodes is the marker of its transaction; a complete marker decodes.\<close>

lemma marker_at_own:
  assumes wf: "wf_rename host t" and s: "rename_state host t R d" and m: "rename_marker_at host d (nmk t) marker"
  shows "marker = rx_marker t"
proof -
  obtain ident bytes where p: "parse_rename_marker_name (nmk t) = Some ident"
    and b: "private_bytes (h_uid host) (dk_spaces d (nmk t)) = Ok bytes" and dec: "decode_rename_marker host ident bytes = Ok marker"
    using m by (auto simp: rename_marker_at_def)
  have "dk_spaces d (nmk t) \<noteq> None" using b by (metis private_bytes_None)
  then have torn: "torn_marker host t (dk_spaces d (nmk t))" using state_marker [OF s] by (elim disjE) simp_all
  obtain k where "private_bytes (h_uid host) (dk_spaces d (nmk t)) = Ok (take k (h_rename_bytes host (rx_marker t)))"
    by (rule torn_bytes [OF wf torn])
  then have "bytes = take k (h_rename_bytes host (rx_marker t))" using b by simp
  moreover have "h_rename_parse host bytes = Some marker"
    using dec by (auto simp: decode_rename_marker_def rbind_eq_Inr split: option.splits)
  moreover have "h_rename_parse host (take k (h_rename_bytes host (rx_marker t))) \<in> {None, Some (rx_marker t)}"
    using wf unfolding wf_rename_def rename_codec_def Let_def by simp
  ultimately show ?thesis by simp
qed

lemma marker_at_whole:
  assumes wf: "wf_rename host t" and w: "whole_marker host t (dk_spaces d (nmk t))"
  shows "rename_marker_at host d (nmk t) (rx_marker t)"
proof -
  have "private_bytes (h_uid host) (dk_spaces d (nmk t)) = Ok (h_rename_bytes host (rx_marker t))"
    using w wf by (auto simp: whole_marker_def whole_file_def wf_rename_def rename_codec_def Let_def)
  moreover have "decode_rename_marker host (nm_transaction_id (rx_marker t)) (h_rename_bytes host (rx_marker t)) = Ok (rx_marker t)"
    using wf by (simp add: decode_rename_marker_def wf_rename_def rename_codec_def Let_def)
  ultimately show ?thesis using marker_path_parses [OF wf] by (auto simp: rename_marker_at_def)
qed

definition no_foreign_rename :: "store_host \<Rightarrow> rename_tx list \<Rightarrow> disk \<Rightarrow> bool" where
  "no_foreign_rename host ts d \<longleftrightarrow> (\<forall>name marker. rename_marker_at host d name marker \<longrightarrow> name \<in> renaming_names ts)"

lemma found_marker:
  assumes fam: "rename_family host ts" and s: "rename_store host ts d0 d" and nf: "no_foreign_rename host ts d0"
    and m: "rename_marker_at host d name marker"
  shows "\<exists>t\<in>set ts. name = nmk t \<and> marker = rx_marker t"
proof -
  have "name \<in> renaming_names ts"
  proof (rule ccontr)
    assume out: "name \<notin> renaming_names ts"
    then have "dk_spaces d name = dk_spaces d0 name" using s by (simp add: rename_store_def elsewhere_def)
    then have "rename_marker_at host d0 name marker" using m by (simp add: rename_marker_at_def)
    with nf out show False by (auto simp: no_foreign_rename_def)
  qed
  then obtain t where t: "t \<in> set ts" "name \<in> rename_names t" by (auto simp: renaming_names_def)
  have wf: "wf_rename host t" using fam t by (simp add: rename_family_def)
  obtain i where "parse_rename_marker_name name = Some i" using m by (auto simp: rename_marker_at_def)
  from marker_name_of(1) [OF wf t(2) this] have n: "name = nmk t" .
  have st: "rename_state host t anywhere d" using s t by (simp add: rename_store_def)
  from marker_at_own [OF wf st] m n t show ?thesis by auto
qed

subsection \<open>The batch under faults\<close>

lemma wp_valid_marker_entry:
  assumes "C d" and "Q None d" and "\<And>m. rename_marker_at host d name m \<Longrightarrow> Q (Some m) d"
  shows "wp F (valid_marker_entry host name) Q E C d"
proof (cases "parse_rename_marker_name name")
  case None
  then show ?thesis
    unfolding valid_marker_entry_def read_rename_marker_def using assms by (auto intro!: wp_bind wp_ret)
next
  case (Some ident)
  have "wp F (attempt (bind_io (read_entry a name) (\<lambda>e. bind_io (lift (private_bytes (h_uid host) e)) (\<lambda>bytes.
      lift (decode_rename_marker host ident bytes)))))
      (\<lambda>decoded. wp F (ret (Some decoded)) (\<lambda>decoded. wp F (ret (case decoded of Some (Inr marker) \<Rightarrow> Some marker | _ \<Rightarrow> None)) Q E C) E C)
      E C d" for a
    by (intro wp_attempt wp_bind wp_read_entry wp_lift wp_ret)
      (use assms Some in \<open>auto simp: rename_marker_at_def\<close>)
  then show ?thesis
    unfolding valid_marker_entry_def read_rename_marker_def using Some by (simp add: wp_bind)
qed

lemma wp_recover_rename_entry:
  assumes fam: "rename_family host ts" and nf: "no_foreign_rename host ts d0"
    and s: "rename_store host ts d0 d" and r: "rr_recovered rec \<le> MAX_RENAMES"
  shows "wp F (recover_rename_entry host name rec) (\<lambda>rec d. rename_store host ts d0 d \<and> rr_recovered rec \<le> MAX_RENAMES)
     (\<lambda>_. rename_store host ts d0) (rename_store host ts d0) d"
  unfolding recover_rename_entry_def
proof (rule wp_bind, rule wp_valid_marker_entry)
  fix m
  assume "rename_marker_at host d name m"
  from found_marker [OF fam s nf this] obtain t where t: "t \<in> set ts" and n: "name = nmk t" and m: "m = rx_marker t" by auto
  have wf: "wf_rename host t" using fam t by (simp add: rename_family_def)
  let ?R = "others host ts d0 t"
  have "wp F (recover_one host (nmk t) (rx_marker t)) (\<lambda>_. rename_store host ts d0) (\<lambda>_. rename_store host ts d0) (rename_store host ts d0) d"
    unfolding rename_store_at [OF t]
    by (rule wp_conseq [OF triple_wp [OF triple_recover_one [OF wf others_frame [OF fam t]]]])
      (use s in \<open>auto intro: settled_state simp: rename_store_at [OF t]\<close>)
  then have "wp F (attempt (recover_one host name m)) (\<lambda>_. rename_store host ts d0) E (rename_store host ts d0) d" for E
    unfolding n m by (rule wp_attempt)
  then have "wp F (attempt (recover_one host name m)) (\<lambda>outcome. wp F (ret (if is_ok outcome then rec\<lparr>rr_recovered := sat_add (rr_recovered rec) 1\<rparr>
                else rec\<lparr>rr_issues := sat_add (rr_issues rec) 1\<rparr>)) (\<lambda>rec d. rename_store host ts d0 d \<and> rr_recovered rec \<le> MAX_RENAMES)
     (\<lambda>_. rename_store host ts d0) (rename_store host ts d0)) (\<lambda>_. rename_store host ts d0) (rename_store host ts d0) d"
    if "\<not> MAX_RENAMES \<le> rr_recovered rec"
    by (rule wp_conseq) (use that r in \<open>auto intro!: wp_ret simp: sat_add_exact u64_max_num MAX_RENAMES_def\<close>)
  then show "wp F (case Some m of None \<Rightarrow> ret rec
     | Some marker \<Rightarrow>
         if MAX_RENAMES \<le> rr_recovered rec then ret rec
         else bind_io (attempt (recover_one host name marker)) (\<lambda>outcome.
           ret (if is_ok outcome then rec\<lparr>rr_recovered := sat_add (rr_recovered rec) 1\<rparr>
                else rec\<lparr>rr_issues := sat_add (rr_issues rec) 1\<rparr>)))
     (\<lambda>rec d. rename_store host ts d0 d \<and> rr_recovered rec \<le> MAX_RENAMES)
     (\<lambda>_. rename_store host ts d0) (rename_store host ts d0) d"
    using s r by (auto intro: wp_ret wp_bind)
qed (use s r in \<open>auto intro: wp_ret\<close>)

lemma wp_recover_renames:
  assumes "rename_family host ts" and "no_foreign_rename host ts d0" and "rename_store host ts d0 d"
  shows "wp F (recover_renames host) (\<lambda>rec d. rename_store host ts d0 d \<and> rr_recovered rec \<le> MAX_RENAMES)
     (\<lambda>_. rename_store host ts d0) (rename_store host ts d0) d"
proof -
  have "wp F (recover_rename_batch host) (\<lambda>rec d. rename_store host ts d0 d \<and> rr_recovered rec \<le> MAX_RENAMES)
     (\<lambda>_. rename_store host ts d0) (rename_store host ts d0) d"
    unfolding recover_rename_batch_def
    by (rule wp_scan_directory_inv [where I = "\<lambda>rec d. rename_store host ts d0 d \<and> rr_recovered rec \<le> MAX_RENAMES"])
      (use assms in \<open>auto intro: wp_recover_rename_entry\<close>)
  then have "wp F (recover_rename_batch host) (\<lambda>rec. wp F (bind_io sync_directory (\<lambda>_. ret rec))
     (\<lambda>rec d. rename_store host ts d0 d \<and> rr_recovered rec \<le> MAX_RENAMES) (\<lambda>_. rename_store host ts d0) (rename_store host ts d0))
     (\<lambda>_. rename_store host ts d0) (rename_store host ts d0) d"
    by (rule wp_conseq) (auto intro!: wp_rules)
  then show ?thesis unfolding recover_renames_def by (rule wp_bind)
qed

subsection \<open>The undisturbed batch\<close>

text \<open>
  Nothing is left to do for a rename that is settled, or whose marker was cut short while it was
  written: such a marker does not decode and the space has not moved.
\<close>

definition rename_done :: "store_host \<Rightarrow> rename_tx \<Rightarrow> disk \<Rightarrow> bool" where
  "rename_done host t d \<longleftrightarrow> rename_settled host t anywhere d \<or>
     (at_source t anywhere (torn_marker host t) d \<and> (\<forall>marker. \<not> rename_marker_at host d (nmk t) marker))"

lemma rename_done_local:
  assumes "\<And>n. n \<in> rename_names t \<Longrightarrow> dk_spaces d' n = dk_spaces d n"
  shows "rename_done host t d' = rename_done host t d"
  using assms at_local [OF assms] by (simp add: rename_done_def rename_settled_def rename_marker_at_def rename_names_def)

lemma done_without_marker:
  assumes wf: "wf_rename host t" and s: "rename_state host t anywhere d"
    and no: "\<And>marker. \<not> rename_marker_at host d (nmk t) marker"
  shows "rename_done host t d"
  using s
proof cases
  case rn_moved
  then have "whole_marker host t (dk_spaces d (nmk t))" by (simp add: at_destination_def at_entry_def beside_def)
  from marker_at_whole [OF wf this] no show ?thesis by blast
next
  case rn_rewritten
  then have "whole_marker host t (dk_spaces d (nmk t))" by (simp add: at_destination_def at_entry_def beside_def)
  from marker_at_whole [OF wf this] no show ?thesis by blast
qed (use no in \<open>simp_all add: rename_done_def rename_settled_def\<close>)

lemma marker_at_present: "rename_marker_at host d name m \<Longrightarrow> dk_spaces d name \<noteq> None"
  unfolding rename_marker_at_def by (metis private_bytes_None)

lemma runs_valid_marker_entry:
  "rename_marker_at host d name m \<Longrightarrow> Q (Some m) d \<Longrightarrow> runs (valid_marker_entry host name) Q d"
  "(\<And>m. \<not> rename_marker_at host d name m) \<Longrightarrow> Q None d \<Longrightarrow> runs (valid_marker_entry host name) Q d"
proof -
  assume "rename_marker_at host d name m" and Q: "Q (Some m) d"
  then obtain i b where i: "parse_rename_marker_name name = Some i"
    "private_bytes (h_uid host) (dk_spaces d name) = Ok b" "decode_rename_marker host i b = Ok m"
    by (auto simp: rename_marker_at_def)
  then show "runs (valid_marker_entry host name) Q d"
    unfolding valid_marker_entry_def read_rename_marker_def
    using Q by (auto intro!: runs_bind runs_attempt runs_read_entry runs_lift runs_ret)
next
  assume no: "\<And>m. \<not> rename_marker_at host d name m" and Q: "Q None d"
  then show "runs (valid_marker_entry host name) Q d"
    unfolding runs_def valid_marker_entry_def read_rename_marker_def
    by (auto simp: rename_marker_at_def bind_io_def ret_def attempt_def catch_def read_entry_def syscall_def lift_def
        fail_def split: option.splits sum.splits)
qed

definition renames_left :: "rename_tx list \<Rightarrow> string list \<Rightarrow> nat" where
  "renames_left ts xs = length (filter (\<lambda>n. n \<in> nmk ` set ts) xs)"

definition batch_inv ::
  "store_host \<Rightarrow> rename_tx list \<Rightarrow> disk \<Rightarrow> string list \<Rightarrow> rename_recovery \<Rightarrow> disk \<Rightarrow> bool" where
  "batch_inv host ts d0 xs rec d \<longleftrightarrow>
     rename_store host ts d0 d \<and> rr_recovered rec + renames_left ts xs \<le> MAX_RENAMES \<and> rr_issues rec = 0 \<and>
     (\<forall>t\<in>set ts. nmk t \<notin> set xs \<longrightarrow> rename_done host t d)"

lemma runs_recover_rename_entry:
  assumes fam: "rename_family host ts" and nf: "no_foreign_rename host ts d0"
    and I: "batch_inv host ts d0 (x # xs) rec d"
  shows "runs (recover_rename_entry host x rec) (batch_inv host ts d0 xs) d"
proof (cases "\<exists>m. rename_marker_at host d x m")
  case True
  then obtain m where at: "rename_marker_at host d x m" by blast
  have s: "rename_store host ts d0 d" using I by (simp add: batch_inv_def)
  from found_marker [OF fam s nf at] obtain t where t: "t \<in> set ts" and x: "x = nmk t" and m: "m = rx_marker t" by auto
  have wf: "wf_rename host t" using fam t by (simp add: rename_family_def)
  have left: "renames_left ts (x # xs) = Suc (renames_left ts xs)" using t x by (simp add: renames_left_def)
  then have room: "Suc (rr_recovered rec) + renames_left ts xs \<le> MAX_RENAMES" using I by (simp add: batch_inv_def)
  have after: "batch_inv host ts d0 xs (rec\<lparr>rr_recovered := sat_add (rr_recovered rec) 1\<rparr>) d'"
    if s': "rename_settled host t (others host ts d0 t) d'" and e: "elsewhere (rename_names t) d d'" for d'
  proof -
    have "rename_done host u d'" if u: "u \<in> set ts" "nmk u \<notin> set xs" for u
    proof (cases "u = t")
      case True
      have "rename_settled host t anywhere d'" using s' by (subst (asm) rename_settled_frame) simp
      then show ?thesis by (simp add: True rename_done_def)
    next
      case False
      then have "rename_names u \<inter> rename_names t = {}" using fam t u by (auto simp: rename_family_def)
      then have "dk_spaces d' n = dk_spaces d n" if "n \<in> rename_names u" for n using e that by (auto simp: elsewhere_def)
      then have "rename_done host u d' = rename_done host u d" by (rule rename_done_local)
      moreover have "nmk u \<noteq> x"
        using \<open>rename_names u \<inter> rename_names t = {}\<close> x by (auto simp: rename_names_def)
      ultimately show ?thesis using I u by (simp add: batch_inv_def)
    qed
    moreover have "rename_store host ts d0 d'" using settled_state [OF s'] by (simp add: rename_store_at [OF t])
    ultimately show ?thesis
      using room I by (simp add: batch_inv_def sat_add_exact u64_max_num MAX_RENAMES_def)
  qed
  have "runs (recover_one host x m) (\<lambda>_ d'. rename_settled host t (others host ts d0 t) d' \<and> rename_settled host t (elsewhere (rename_names t) d) d') d"
  proof -
    have "frame_for (rename_names t) (elsewhere (rename_names t) d)" by (auto simp: frame_for_def elsewhere_def)
    note second = triple_wp [OF triple_recover_one [OF wf this], where F = "\<lambda>_. True"]
    have "rename_state host t (elsewhere (rename_names t) d) d"
      using s t by (subst rename_state_frame) (simp add: rename_store_def)
    note second [OF this]
    moreover have "runs (recover_one host x m) (\<lambda>_. rename_settled host t (others host ts d0 t)) d"
      unfolding x m
      by (rule runs_recover_one [OF wf others_frame [OF fam t]])
        (use s marker_at_present [OF at] x in \<open>simp_all add: rename_store_at [OF t]\<close>)
    ultimately show ?thesis unfolding x m by (rule runs_wp [rotated])
  qed
  then have "runs (attempt (recover_one host x m)) (\<lambda>outcome. runs (ret (if is_ok outcome then rec\<lparr>rr_recovered := sat_add (rr_recovered rec) 1\<rparr>
                else rec\<lparr>rr_issues := sat_add (rr_issues rec) 1\<rparr>)) (batch_inv host ts d0 xs)) d"
  proof (intro runs_attempt, elim runs_conseq)
    fix u :: unit and d'
    assume "rename_settled host t (others host ts d0 t) d' \<and> rename_settled host t (elsewhere (rename_names t) d) d'"
    then have "rename_settled host t (others host ts d0 t) d'" "elsewhere (rename_names t) d d'"
      by (simp, subst (asm) (2) rename_settled_frame, simp)
    from after [OF this]
    show "runs (ret (if is_ok (Inr u) then rec\<lparr>rr_recovered := sat_add (rr_recovered rec) 1\<rparr>
                else rec\<lparr>rr_issues := sat_add (rr_issues rec) 1\<rparr>)) (batch_inv host ts d0 xs) d'"
      by (simp add: runs_ret)
  qed
  then show ?thesis
    unfolding recover_rename_entry_def
    using room by (intro runs_bind [of "valid_marker_entry _ _"] runs_valid_marker_entry(1) [OF at]) (simp add: runs_bind)
next
  case False
  have "rename_done host t d" if t: "t \<in> set ts" "nmk t \<notin> set xs" for t
  proof (cases "nmk t = x")
    case True
    then show ?thesis
      using False fam t I by (intro done_without_marker) (auto simp: batch_inv_def rename_family_def rename_store_def)
  next
    case False
    then show ?thesis using t I by (simp add: batch_inv_def)
  qed
  then have "batch_inv host ts d0 xs rec d"
    using I by (auto simp: batch_inv_def renames_left_def split: if_splits)
  then show ?thesis
    unfolding recover_rename_entry_def
    using False by (intro runs_bind runs_valid_marker_entry(2)) (auto intro: runs_ret)
qed

definition bounded_renames :: "store_host \<Rightarrow> rename_tx list \<Rightarrow> disk \<Rightarrow> bool" where
  "bounded_renames host ts d0 \<longleftrightarrow>
     enumerates host \<and> length ts \<le> MAX_RENAMES \<and> finite (dom (dk_spaces d0)) \<and>
     card (dom (dk_spaces d0) \<union> renaming_names ts) \<le> MAX_DIRECTORY_SCAN_ENTRIES"

lemma rename_listing:
  assumes b: "bounded_renames host ts d0" and s: "rename_store host ts d0 d"
  shows "distinct (h_order host (dk_spaces d))" "set (h_order host (dk_spaces d)) = dom (dk_spaces d)"
    "length (h_order host (dk_spaces d)) \<le> MAX_DIRECTORY_SCAN_ENTRIES"
proof -
  let ?D = "dom (dk_spaces d0) \<union> renaming_names ts"
  have sub: "dom (dk_spaces d) \<subseteq> ?D"
  proof
    fix n
    assume "n \<in> dom (dk_spaces d)"
    then show "n \<in> ?D" using s by (cases "n \<in> renaming_names ts") (auto simp: rename_store_def elsewhere_def dom_def)
  qed
  have fin: "finite ?D" using b by (simp add: bounded_renames_def renaming_names_def rename_names_def)
  then have "finite (dom (dk_spaces d))" using sub by (rule finite_subset [rotated])
  then show dist: "distinct (h_order host (dk_spaces d))" and set: "set (h_order host (dk_spaces d)) = dom (dk_spaces d)"
    using b by (auto simp: bounded_renames_def enumerates_def)
  have "length (h_order host (dk_spaces d)) = card (dom (dk_spaces d))" using dist set by (metis distinct_card)
  also have "\<dots> \<le> card ?D" by (rule card_mono [OF fin sub])
  finally show "length (h_order host (dk_spaces d)) \<le> MAX_DIRECTORY_SCAN_ENTRIES" using b by (simp add: bounded_renames_def)
qed

lemma runs_recover_renames:
  assumes fam: "rename_family host ts" and nf: "no_foreign_rename host ts d0"
    and b: "bounded_renames host ts d0" and s: "rename_store host ts d0 d"
  shows "runs (recover_renames host) (\<lambda>rec d'. rename_store host ts d0 d' \<and> rr_issues rec = 0 \<and> (\<forall>t\<in>set ts. rename_done host t d')) d"
proof -
  note l = rename_listing [OF b s]
  have start: "batch_inv host ts d0 (h_order host (dk_spaces d)) \<lparr>rr_recovered = 0, rr_issues = 0\<rparr> d"
  proof -
    have "renames_left ts (h_order host (dk_spaces d)) \<le> MAX_RENAMES"
      unfolding renames_left_def
      by (rule family_count [where f = nmk and ts = ts]) (use l b in \<open>auto simp: bounded_renames_def\<close>)
    moreover have "rename_done host t d" if t: "t \<in> set ts" and "nmk t \<notin> set (h_order host (dk_spaces d))" for t
    proof (rule done_without_marker)
      show "wf_rename host t" "rename_state host t anywhere d"
        using fam s t by (simp_all add: rename_family_def rename_store_def)
      show "\<not> rename_marker_at host d (nmk t) m" for m
        using that(2) l(2) marker_at_present by blast
    qed
    ultimately show ?thesis using s by (simp add: batch_inv_def)
  qed
  have "runs (recover_rename_batch host) (batch_inv host ts d0 []) d"
    unfolding recover_rename_batch_def
    by (rule runs_scan_directory [where I = "batch_inv host ts d0", OF start l(3)])
      (rule runs_recover_rename_entry [OF fam nf])
  then have "runs (recover_rename_batch host) (\<lambda>rec. runs (bind_io sync_directory (\<lambda>_. ret rec))
     (\<lambda>rec d'. rename_store host ts d0 d' \<and> rr_issues rec = 0 \<and> (\<forall>t\<in>set ts. rename_done host t d'))) d"
    by (rule runs_conseq) (auto intro!: runs_bind runs_sync_directory runs_ret simp: batch_inv_def)
  then show ?thesis unfolding recover_renames_def by (rule runs_bind)
qed

end
