(* ===== verification/Rollback_Safety.thy ===== *)
theory Rollback_Safety
  imports Rollback
begin

text \<open>
  The states an interrupted rollback can be in, and that publication and recovery stay inside
  them whatever call fails and wherever the process stops. A transaction owns five names of the
  spaces directory; everything it does changes only these.
\<close>

subsection \<open>A transaction and its names\<close>

record rollback_tx =
  tx_marker :: rollback_marker
  tx_old :: node
  tx_new :: node

abbreviation tx_id :: "rollback_tx \<Rightarrow> string" where
  "tx_id t \<equiv> artifact_id_as_str (rm_transaction_id (tx_marker t))"

abbreviation mk :: "rollback_tx \<Rightarrow> string" where "mk t \<equiv> rollback_marker_name (tx_id t)"
abbreviation tmp :: "rollback_tx \<Rightarrow> string" where "tmp t \<equiv> marker_temporary_name (tx_id t)"
abbreviation stg :: "rollback_tx \<Rightarrow> string" where "stg t \<equiv> staging_name (tx_id t)"
abbreviation rtd :: "rollback_tx \<Rightarrow> string" where "rtd t \<equiv> retired_name (tx_id t)"
abbreviation tgt :: "rollback_tx \<Rightarrow> string" where "tgt t \<equiv> space_name_as_str (rm_target (tx_marker t))"

definition tx_names :: "rollback_tx \<Rightarrow> string set" where
  "tx_names t = {mk t, tmp t, stg t, rtd t, tgt t}"

definition is_target_space :: "store_host \<Rightarrow> rollback_marker \<Rightarrow> node \<Rightarrow> bool" where
  "is_target_space host marker e \<longleftrightarrow>
     (\<exists>n. e = DirNode n) \<and>
     (\<exists>s. open_node host (space_name_as_str (rm_target marker)) (Some e) (space_name_as_str (rm_target marker)) = Ok s \<and>
        source_identity_matches (rm_target_identity marker) s)"

text \<open>What \<open>serde_json\<close> is relied on for: a marker that was written is read back.\<close>

definition marker_codec :: "store_host \<Rightarrow> rollback_marker \<Rightarrow> bool" where
  "marker_codec host marker \<longleftrightarrow>
     (\<forall>st. h_marker_parse host (h_marker_bytes host (marker\<lparr>rm_state := st\<rparr>)) = Some (marker\<lparr>rm_state := st\<rparr>) \<and>
        length (h_marker_bytes host (marker\<lparr>rm_state := st\<rparr>)) \<le> MAX_MANIFEST_BYTES)"

definition wf_tx :: "store_host \<Rightarrow> rollback_tx \<Rightarrow> bool" where
  "wf_tx host t \<longleftrightarrow>
     hex_id_grammar (tx_id t) \<and> portable_name_grammar (tgt t) \<and>
     validate_marker_components (tx_marker t) (rm_transaction_id (tx_marker t)) = Ok () \<and>
     rm_schema_version (tx_marker t) = MARKER_SCHEMA_VERSION \<and> marker_codec host (tx_marker t) \<and>
     is_target_space host (tx_marker t) (tx_old t) \<and> is_target_space host (tx_marker t) (tx_new t)"

lemma wf_tx_entries:
  assumes "wf_tx host t"
  shows "rm_staging_entry (tx_marker t) = stg t" "rm_retired_entry (tx_marker t) = rtd t"
  using assms by (auto simp: wf_tx_def validate_marker_components_def Let_def split: if_splits)

lemma tx_names_distinct:
  assumes "wf_tx host t"
  shows "mk t \<noteq> tmp t" "mk t \<noteq> stg t" "mk t \<noteq> rtd t" "mk t \<noteq> tgt t" "tmp t \<noteq> stg t" "tmp t \<noteq> rtd t"
    "tmp t \<noteq> tgt t" "stg t \<noteq> rtd t" "stg t \<noteq> tgt t" "rtd t \<noteq> tgt t"
proof -
  have len: "length (tx_id t) = 32" "length (tgt t) \<le> 32"
    using assms by (auto simp: wf_tx_def hex_id_grammar_def portable_name_grammar_def)
  note neq = arg_cong [where f = length]
  show "mk t \<noteq> tmp t" "mk t \<noteq> stg t" "mk t \<noteq> rtd t" "mk t \<noteq> tgt t" "tmp t \<noteq> stg t" "tmp t \<noteq> rtd t"
    "tmp t \<noteq> tgt t" "stg t \<noteq> rtd t" "stg t \<noteq> tgt t" "rtd t \<noteq> tgt t"
    using len by (auto dest!: neq simp: name_lengths)
qed

lemma tx_names_disjoint:
  assumes "wf_tx host t" and "wf_tx host u" and "tx_id t \<noteq> tx_id u" and "tgt t \<noteq> tgt u"
  shows "tx_names t \<inter> tx_names u = {}"
proof -
  have len: "length (tx_id t) = 32" "length (tgt t) \<le> 32" "length (tx_id u) = 32" "length (tgt u) \<le> 32"
    using assms by (auto simp: wf_tx_def hex_id_grammar_def portable_name_grammar_def)
  have cross: "x \<noteq> y" if "length x \<noteq> length y" for x y :: string using that by blast
  have "mk t \<notin> tx_names u" "tmp t \<notin> tx_names u" "stg t \<notin> tx_names u" "rtd t \<notin> tx_names u" "tgt t \<notin> tx_names u"
    unfolding tx_names_def using len assms(3,4) by (simp_all add: cross name_lengths)
  then show ?thesis unfolding tx_names_def [of t] by blast
qed

subsection \<open>The layout of its entries\<close>

definition has_marker :: "store_host \<Rightarrow> rollback_tx \<Rightarrow> rollback_state option \<Rightarrow> disk \<Rightarrow> bool" where
  "has_marker host t mo d =
     (case mo of
        None \<Rightarrow> dk_spaces d (mk t) = None
      | Some st \<Rightarrow> (\<exists>m. let b = h_marker_bytes host ((tx_marker t)\<lparr>rm_state := st\<rparr>) in
           dk_spaces d (mk t) = Some (FileNode m b) \<and> private_file_stat (h_uid host) m \<and> st_size m = int (length b)))"

definition clean_tmp :: "store_host \<Rightarrow> rollback_tx \<Rightarrow> disk \<Rightarrow> bool" where
  "clean_tmp host t d \<longleftrightarrow>
     (case dk_spaces d (tmp t) of None \<Rightarrow> True | Some (FileNode m _) \<Rightarrow> private_file_stat (h_uid host) m | _ \<Rightarrow> False)"

text \<open>Relative to the disk \<open>d0\<close> at the start: marker state, target, staging and retired entry.\<close>

definition slot ::
  "store_host \<Rightarrow> rollback_tx \<Rightarrow> disk \<Rightarrow> rollback_state option \<Rightarrow> node option \<Rightarrow> node option \<Rightarrow> node option \<Rightarrow> disk \<Rightarrow> bool" where
  "slot host t d0 mo T S R d \<longleftrightarrow>
     has_marker host t mo d \<and> clean_tmp host t d \<and>
     dk_spaces d (tgt t) = T \<and> dk_spaces d (stg t) = S \<and> dk_spaces d (rtd t) = R \<and>
     (\<forall>n. n \<notin> tx_names t \<longrightarrow> dk_spaces d n = dk_spaces d0 n)"

definition stageable :: "store_host \<Rightarrow> node \<Rightarrow> bool" where
  "stageable host e \<longleftrightarrow>
     (\<exists>n. e = DirNode n \<and> private_dir_stat (h_uid host) (dn_stat n) \<and>
        (case dn_files n CREATION_LOCK_FILE of None \<Rightarrow> True | Some (m, _) \<Rightarrow> private_file_stat (h_uid host) m))"

inductive tx_state :: "store_host \<Rightarrow> rollback_tx \<Rightarrow> disk \<Rightarrow> disk \<Rightarrow> bool"
  for host :: store_host and t :: rollback_tx and d0 :: disk where
  tx_untouched: "slot host t d0 None (Some (tx_old t)) S None d \<Longrightarrow> (\<And>e. S = Some e \<Longrightarrow> stageable host e) \<Longrightarrow>
    tx_state host t d0 d"
| tx_prepared: "slot host t d0 (Some Prepared) (Some (tx_old t)) (Some e) None d \<Longrightarrow> stageable host e \<Longrightarrow>
    tx_state host t d0 d"
| tx_aside: "slot host t d0 (Some st) None (Some e) (Some (tx_old t)) d \<Longrightarrow> st \<noteq> Published \<Longrightarrow> stageable host e \<Longrightarrow>
    tx_state host t d0 d"
| tx_exchanged: "slot host t d0 (Some st) (Some (tx_new t)) None (Some (tx_old t)) d \<Longrightarrow> st \<noteq> Prepared \<Longrightarrow>
    tx_state host t d0 d"
| tx_reclaimed: "slot host t d0 (Some Published) (Some (tx_new t)) None None d \<Longrightarrow> tx_state host t d0 d"
| tx_finished: "slot host t d0 None (Some (tx_new t)) None None d \<Longrightarrow> tx_state host t d0 d"

subsection \<open>Marker updates\<close>

lemma triple_replace_marker:
  assumes wf: "wf_tx host t"
  shows "triple F (slot host t d0 mo T S R)
    (replace_marker host (tx_id t) ((tx_marker t)\<lparr>rm_state := st\<rparr>))
    (\<lambda>_. slot host t d0 (Some st) T S R)
    (\<lambda>d. slot host t d0 mo T S R d \<or> slot host t d0 (Some st) T S R d)"
proof -
  note ne = tx_names_distinct [OF wf]
  let ?b = "h_marker_bytes host ((tx_marker t)\<lparr>rm_state := st\<rparr>)"
  let ?C = "\<lambda>d. slot host t d0 mo T S R d \<or> slot host t d0 (Some st) T S R d"
  define W where "W d \<longleftrightarrow> slot host t d0 mo T S R d \<and>
    (\<exists>m. dk_spaces d (tmp t) = Some (FileNode m ?b) \<and> private_file_stat (h_uid host) m \<and> st_size m = int (length ?b))" for d
  have put: "slot host t d0 mo T S R (put_file (h_uid host) (tmp t) b d)" if "slot host t d0 mo T S R d" for d b
    using ne that by (auto simp: slot_def has_marker_def clean_tmp_def tx_names_def split: option.splits)
  have wr: "triple F (slot host t d0 mo T S R) (write_private_file (h_uid host) (tmp t) ?b) (\<lambda>_. W) ?C"
    by (rule triple_write_private_file) (simp_all add: put W_def)
  have ren: "triple F W (rename_entry ''replace rollback marker'' (tmp t) (mk t)) (\<lambda>_. slot host t d0 (Some st) T S R) ?C"
    by (rule triple_rename)
      (use ne in \<open>auto simp: W_def slot_def has_marker_def clean_tmp_def tx_names_def Let_def split: option.splits\<close>)
  have body: "triple F (slot host t d0 mo T S R)
     (bind_io (write_private_file (h_uid host) (tmp t) ?b) (\<lambda>_.
       bind_io (rename_entry ''replace rollback marker'' (tmp t) (mk t)) (\<lambda>_. sync_directory)))
     (\<lambda>_. slot host t d0 (Some st) T S R) ?C"
    by (intro triple_bind [OF wr] triple_bind [OF ren] triple_sync) auto
  show ?thesis
    unfolding replace_marker_def
    by (rule triple_bind [where R = "\<lambda>_. slot host t d0 mo T S R"], rule triple_entry_exists)
      (auto intro: triple_if triple_fail body)
qed

lemma triple_replace_marker_state:
  assumes "wf_tx host t" and "marker = (tx_marker t)\<lparr>rm_state := st\<rparr>"
    and "\<And>d. slot host t d0 mo T S R d \<Longrightarrow> C d" and "\<And>d. slot host t d0 (Some st) T S R d \<Longrightarrow> C d"
  shows "triple F (slot host t d0 mo T S R) (replace_marker host (tx_id t) marker)
    (\<lambda>_. slot host t d0 (Some st) T S R) C"
  using triple_replace_marker [OF assms(1)] assms(2-4) by (blast intro: triple_conseq)

subsection \<open>Moves within the transaction\<close>

lemma triple_retire_target:
  assumes "wf_tx host t" and "\<And>d. slot host t d0 mo (Some e) S None d \<Longrightarrow> C d"
  shows "triple F (slot host t d0 mo (Some e) S None) (rename_entry a (tgt t) (rtd t))
    (\<lambda>_. slot host t d0 mo None S (Some e)) C"
  using tx_names_distinct [OF assms(1)] assms(2)
  by (intro triple_rename)
    (auto simp: slot_def has_marker_def clean_tmp_def tx_names_def Let_def split: option.splits)

lemma triple_restore_target:
  assumes "wf_tx host t" and "\<And>d. slot host t d0 mo None S (Some e) d \<Longrightarrow> C d"
  shows "triple F (slot host t d0 mo None S (Some e)) (rename_entry a (rtd t) (tgt t))
    (\<lambda>_. slot host t d0 mo (Some e) S None) C"
  using tx_names_distinct [OF assms(1)] assms(2)
  by (intro triple_rename)
    (auto simp: slot_def has_marker_def clean_tmp_def tx_names_def Let_def split: option.splits)

lemma triple_publish_staging:
  assumes "wf_tx host t" and "\<And>d. slot host t d0 mo None (Some e) R d \<Longrightarrow> C d"
  shows "triple F (slot host t d0 mo None (Some e) R) (rename_entry a (stg t) (tgt t))
    (\<lambda>_. slot host t d0 mo (Some e) None R) C"
  using tx_names_distinct [OF assms(1)] assms(2)
  by (intro triple_rename)
    (auto simp: slot_def has_marker_def clean_tmp_def tx_names_def Let_def split: option.splits)

lemma triple_trash_retired:
  assumes "wf_tx host t" and "\<And>d. slot host t d0 mo T S R d \<Longrightarrow> C d"
  shows "triple F (slot host t d0 mo T S R) (rename_to_trash a (rtd t)) (\<lambda>_. slot host t d0 mo T S None) C"
  using tx_names_distinct [OF assms(1)] assms(2)
  by (intro triple_rename_to_trash)
    (auto simp: slot_def has_marker_def clean_tmp_def tx_names_def Let_def split: option.splits)

lemma triple_trash_staging:
  assumes "wf_tx host t" and "\<And>d. slot host t d0 mo T S R d \<Longrightarrow> C d"
  shows "triple F (slot host t d0 mo T S R) (rename_to_trash a (stg t)) (\<lambda>_. slot host t d0 mo T None R) C"
  using tx_names_distinct [OF assms(1)] assms(2)
  by (intro triple_rename_to_trash)
    (auto simp: slot_def has_marker_def clean_tmp_def tx_names_def Let_def split: option.splits)

lemma triple_drop_marker:
  assumes "wf_tx host t" and "\<And>d. slot host t d0 mo T S R d \<Longrightarrow> C d"
  shows "triple F (slot host t d0 mo T S R) (remove_file a (mk t)) (\<lambda>_. slot host t d0 None T S R) C"
  using tx_names_distinct [OF assms(1)] assms(2)
  by (intro triple_remove_file)
    (auto simp: slot_def has_marker_def clean_tmp_def tx_names_def Let_def split: option.splits)

lemma slot_trash [simp]: "slot host t d0 mo T S R (d\<lparr>dk_trash := x\<rparr>) = slot host t d0 mo T S R d"
  by (cases mo) (simp_all add: slot_def has_marker_def clean_tmp_def)

lemma triple_unlock_staging:
  assumes "wf_tx host t" and "\<And>d. slot host t d0 mo T (Some (DirNode n)) R d \<Longrightarrow> C d"
  shows "triple F (slot host t d0 mo T (Some (DirNode n)) R) (remove_inner_file a (stg t) CREATION_LOCK_FILE)
    (\<lambda>_. slot host t d0 mo T (Some (DirNode (n\<lparr>dn_files := (dn_files n)(CREATION_LOCK_FILE := None)\<rparr>))) R) C"
  unfolding remove_inner_file_def edit_directory_def
  using tx_names_distinct [OF assms(1)] assms(2)
  by (intro triple_syscall)
    (auto simp: slot_def has_marker_def clean_tmp_def tx_names_def Let_def
      split: option.splits node.splits sum.splits if_splits)

lemma triple_sync_keep: "(\<And>d. P d \<Longrightarrow> C d) \<Longrightarrow> triple F P sync_directory (\<lambda>_. P) C"
  by (rule triple_sync) blast

subsection \<open>Publication\<close>

text \<open>
  A transaction ready for publication: the target is the space to replace, the staging directory
  holds the new tree and its creation lock, and nothing else of the transaction exists.
\<close>

definition ready :: "store_host \<Rightarrow> space \<Rightarrow> artifact_manifest \<Rightarrow> artifact_id \<Rightarrow> artifact_id \<Rightarrow> rollback_tx \<Rightarrow> dir_node \<Rightarrow> bool" where
  "ready host target snapshot transaction_id recovery_id t staged \<longleftrightarrow>
     wf_tx host t \<and> tx_marker t = publication_marker target snapshot transaction_id recovery_id \<and>
     stageable host (DirNode staged) \<and>
     tx_new t = DirNode (staged\<lparr>dn_files := (dn_files staged)(CREATION_LOCK_FILE := None)\<rparr>)"

lemma stageable_unlocked:
  "stageable host (DirNode n) \<Longrightarrow> stageable host (DirNode (n\<lparr>dn_files := (dn_files n)(CREATION_LOCK_FILE := None)\<rparr>))"
  by (simp add: stageable_def)

lemma triple_commit_rollback:
  assumes wf: "wf_tx host t"
  shows "triple F (slot host t d0 (Some Published) (Some (tx_new t)) None (Some (tx_old t)))
    (commit_rollback (mk t) (rtd t)) (\<lambda>_. slot host t d0 None (Some (tx_new t)) None None) (tx_state host t d0)"
proof -
  let ?X = "slot host t d0 (Some Published) (Some (tx_new t)) None (Some (tx_old t))"
  let ?Y = "slot host t d0 (Some Published) (Some (tx_new t)) None None"
  let ?Z = "slot host t d0 None (Some (tx_new t)) None None"
  have x: "?X d \<Longrightarrow> tx_state host t d0 d" for d by (rule tx_exchanged) auto
  have y: "?Y d \<Longrightarrow> tx_state host t d0 d" for d by (rule tx_reclaimed)
  have z: "?Z d \<Longrightarrow> tx_state host t d0 d" for d by (rule tx_finished)
  have sync_z: "triple F ?Z (post_commit sync_directory) (\<lambda>_. ?Z) (tx_state host t d0)"
    unfolding post_commit_def by (intro triple_catch_fail triple_sync_keep z)
  have tree: "triple F ?Z (post_commit (remove_tree_restoring_owner_access k)) (\<lambda>_. ?Z) (tx_state host t d0)" for k
    unfolding post_commit_def by (intro triple_catch_fail triple_remove_tree) (auto intro: z)
  have mkdir: "triple F ?X create_private_dir (\<lambda>_. ?X) (tx_state host t d0)"
    by (rule triple_create_private_dir) (auto intro: x)
  show ?thesis
    unfolding commit_rollback_def
    by (intro triple_bind [OF mkdir] triple_bind [OF triple_trash_retired [OF wf x]]
        triple_bind [OF triple_sync_keep [OF y]] triple_bind [OF triple_drop_marker [OF wf y]]
        triple_bind [OF sync_z] triple_bind [OF tree] sync_z)
qed

lemma triple_exchange_target:
  assumes wf: "wf_tx host t" and new: "tx_new t = DirNode (n\<lparr>dn_files := (dn_files n)(CREATION_LOCK_FILE := None)\<rparr>)"
    and st: "stageable host (DirNode n)"
  shows "triple F (slot host t d0 (Some Retired) None (Some (DirNode n)) (Some (tx_old t)))
    (exchange_target host ident (stg t) (tgt t))
    (\<lambda>_. slot host t d0 (Some Retired) (Some (tx_new t)) None (Some (tx_old t))) (tx_state host t d0)"
proof -
  let ?X = "slot host t d0 (Some Retired) None (Some (DirNode n)) (Some (tx_old t))"
  let ?Y = "slot host t d0 (Some Retired) None (Some (tx_new t)) (Some (tx_old t))"
  let ?Z = "slot host t d0 (Some Retired) (Some (tx_new t)) None (Some (tx_old t))"
  have x: "?X d \<Longrightarrow> tx_state host t d0 d" for d by (rule tx_aside [OF _ _ st]) auto
  have y: "?Y d \<Longrightarrow> tx_state host t d0 d" for d
    using stageable_unlocked [OF st] new by (intro tx_aside [where e = "tx_new t"]) auto
  have z: "?Z d \<Longrightarrow> tx_state host t d0 d" for d by (rule tx_exchanged) auto
  have v: "keeps (verify_staging ident (stg t))"
    unfolding verify_staging_def by (intro keeps_rules)
  have unlock: "triple F ?X (remove_inner_file a (stg t) CREATION_LOCK_FILE) (\<lambda>_. ?Y) (tx_state host t d0)" for a
    using triple_unlock_staging [OF wf x] new by simp
  show ?thesis
    unfolding exchange_target_def
    by (intro triple_bind [OF triple_keeps [OF v x]] triple_bind [OF unlock]
        triple_bind [OF triple_keeps [OF keeps_open(4) y]] triple_bind [OF triple_keeps [OF keeps_open(3) y]]
        triple_bind [OF triple_publish_staging [OF wf y]] triple_sync_keep [OF z])
qed

lemma keeps_revalidate [keeps_rules]: "keeps (revalidate_publication host target snapshot now staging)"
  unfolding revalidate_publication_def by (intro keeps_rules)

lemma triple_publish_rollback:
  assumes rdy: "ready host target snapshot transaction_id recovery_id t n"
  shows "triple F (slot host t d0 None (Some (tx_old t)) (Some (DirNode n)) None)
    (publish_rollback host target snapshot now ident transaction_id recovery_id)
    (\<lambda>_. slot host t d0 None (Some (tx_new t)) None None) (tx_state host t d0)"
proof -
  from rdy have wf: "wf_tx host t" and st: "stageable host (DirNode n)"
    and new: "tx_new t = DirNode (n\<lparr>dn_files := (dn_files n)(CREATION_LOCK_FILE := None)\<rparr>)"
    and m: "publication_marker target snapshot transaction_id recovery_id = tx_marker t"
    by (auto simp: ready_def)
  have names: "artifact_id_as_str transaction_id = tx_id t"
    "space_name_as_str (sm_name (sp_manifest target)) = tgt t" and prep: "tx_marker t = (tx_marker t)\<lparr>rm_state := Prepared\<rparr>"
    unfolding m [symmetric] by (simp_all add: publication_marker_def)
  let ?A = "slot host t d0 None (Some (tx_old t)) (Some (DirNode n)) None"
  let ?B = "slot host t d0 (Some Prepared) (Some (tx_old t)) (Some (DirNode n)) None"
  let ?D = "\<lambda>s. slot host t d0 (Some s) None (Some (DirNode n)) (Some (tx_old t))"
  let ?G = "\<lambda>s. slot host t d0 (Some s) (Some (tx_new t)) None (Some (tx_old t))"
  let ?C = "tx_state host t d0"
  have a: "?A d \<Longrightarrow> ?C d" for d by (rule tx_untouched) (use st in auto)
  have b: "?B d \<Longrightarrow> ?C d" for d by (rule tx_prepared) (use st in auto)
  have dd: "s \<noteq> Published \<Longrightarrow> ?D s d \<Longrightarrow> ?C d" for s d by (rule tx_aside) (use st in auto)
  have g: "s \<noteq> Prepared \<Longrightarrow> ?G s d \<Longrightarrow> ?C d" for s d by (rule tx_exchanged) auto
  have write_new: "triple F ?A (write_marker_new host (tx_id t) (tx_marker t)) (\<lambda>_. ?B) ?C"
    unfolding write_marker_new_def
    by (intro triple_bind [OF triple_keeps [OF keeps_exists(1) a]] triple_if triple_fail [OF a]
        triple_replace_marker_state [OF wf prep] a b)
  have retire: "triple F ?B (rename_entry ac (tgt t) (rtd t)) (\<lambda>_. ?D Prepared) ?C" for ac
    by (rule triple_retire_target [OF wf b])
  have to_retired: "triple F (?D Prepared) (replace_marker host (tx_id t) ((tx_marker t)\<lparr>rm_state := Retired\<rparr>))
      (\<lambda>_. ?D Retired) ?C"
    by (rule triple_replace_marker_state [OF wf refl]) (auto intro: dd)
  have to_published: "triple F (?G Retired) (replace_marker host (tx_id t) ((tx_marker t)\<lparr>rm_state := Published\<rparr>))
      (\<lambda>_. ?G Published) ?C"
    by (rule triple_replace_marker_state [OF wf refl]) (auto intro: g)
  have sync_d: "triple F (?D Prepared) sync_directory (\<lambda>_. ?D Prepared) ?C"
    by (rule triple_sync_keep) (auto intro: dd)
  show ?thesis
    unfolding publish_rollback_def Let_def m names
    by (intro triple_bind [OF triple_keeps [OF keeps_revalidate a]] triple_bind [OF write_new]
        triple_bind [OF triple_sync_keep [OF b]] triple_bind [OF triple_keeps [OF keeps_read_marker b]] triple_if
        triple_fail [OF b] triple_bind [OF retire] triple_bind [OF sync_d] triple_bind [OF to_retired]
        triple_bind [OF triple_exchange_target [OF wf new st]] triple_bind [OF to_published] triple_commit_rollback [OF wf])
qed

end
