(* ===== verification/Rollback_Recovery.thy ===== *)
theory Rollback_Recovery
  imports Rollback_Safety
begin

text \<open>
  Recovery of one transaction: the action that the inventory plans for a transaction is the one
  its entries call for, carrying it out leaves the transaction resolved, and stopping in the
  middle leaves it in a state from which recovery can start again.
\<close>

subsection \<open>Plans that fit\<close>

definition resolved :: "store_host \<Rightarrow> rollback_tx \<Rightarrow> disk \<Rightarrow> disk \<Rightarrow> bool" where
  "resolved host t d0 d \<longleftrightarrow>
     slot host t d0 None (Some (tx_old t)) None None d \<or> slot host t d0 None (Some (tx_new t)) None None d"

inductive plan_fits :: "store_host \<Rightarrow> rollback_tx \<Rightarrow> disk \<Rightarrow> recovery_plan \<Rightarrow> disk \<Rightarrow> bool"
  for host :: store_host and t :: rollback_tx and d0 :: disk and p :: recovery_plan where
  fits_abort: "rp_marker p = (tx_marker t)\<lparr>rm_state := Prepared\<rparr> \<Longrightarrow> rp_marker_path p = mk t \<Longrightarrow>
    ro_action (rp_observation p) = Abort \<Longrightarrow>
    slot host t d0 (Some Prepared) (Some (tx_old t)) (Some e) None d \<Longrightarrow> stageable host e \<Longrightarrow> plan_fits host t d0 p d"
| fits_restore: "rp_marker p = (tx_marker t)\<lparr>rm_state := st\<rparr> \<Longrightarrow> rp_marker_path p = mk t \<Longrightarrow> st \<noteq> Published \<Longrightarrow>
    ro_action (rp_observation p) = RestoreOld \<Longrightarrow>
    slot host t d0 (Some st) None (Some e) (Some (tx_old t)) d \<Longrightarrow> stageable host e \<Longrightarrow> plan_fits host t d0 p d"
| fits_complete: "rp_marker p = (tx_marker t)\<lparr>rm_state := st\<rparr> \<Longrightarrow> rp_marker_path p = mk t \<Longrightarrow>
    ro_action (rp_observation p) = CompleteNew \<Longrightarrow>
    slot host t d0 (Some st) (Some (tx_new t)) None R d \<Longrightarrow>
    st \<noteq> Prepared \<and> R = Some (tx_old t) \<or> st = Published \<and> R = None \<Longrightarrow> plan_fits host t d0 p d"

lemma slot_marker_at:
  assumes "wf_tx host t" and "slot host t d0 mo T S R d"
  shows "marker_at host d (mk t) marker \<longleftrightarrow> (\<exists>st. mo = Some st \<and> marker = (tx_marker t)\<lparr>rm_state := st\<rparr>)"
proof (cases mo)
  case None
  then have "dk_spaces d (mk t) = None" using assms(2) by (simp add: slot_def has_marker_def)
  then show ?thesis
    using None by (simp add: marker_at_def private_bytes_def read_private_file_missing)
next
  case (Some st)
  let ?b = "h_marker_bytes host ((tx_marker t)\<lparr>rm_state := st\<rparr>)"
  from Some assms(2) obtain m where "dk_spaces d (mk t) = Some (FileNode m ?b)"
    "private_file_stat (h_uid host) m" "st_size m = int (length ?b)"
    by (auto simp: slot_def has_marker_def Let_def)
  moreover have "length ?b \<le> MAX_MANIFEST_BYTES" and "decode_marker host ?b = Ok ((tx_marker t)\<lparr>rm_state := st\<rparr>)"
    using assms(1) by (simp_all add: wf_tx_def marker_codec_def decode_marker_def)
  ultimately show ?thesis using Some by (auto simp: marker_at_def)
qed

lemma slot_decided:
  assumes wf: "wf_tx host t" and s: "slot host t d0 mo T S R d" and dec: "decided host d ((tx_marker t)\<lparr>rm_state := st\<rparr>) a"
  shows "recovery_table st (T \<noteq> None, S \<noteq> None, R \<noteq> None) = Some a"
  using assms wf_tx_entries [OF wf]
  by (auto simp: decided_def marker_tuple_def present_def slot_def)

lemma open_node_path:
  "open_node host p e n = Ok s \<Longrightarrow> open_node host q e n = Ok (s\<lparr>sp_root := q\<rparr>)"
  by (auto simp: open_node_def open_path_ok split: option.splits)

lemma matches_root [simp]: "source_identity_matches i (s\<lparr>sp_root := q\<rparr>) = source_identity_matches i s"
  by (simp add: source_identity_matches_def source_identity_for_space_def)

lemma decided_slot:
  assumes wf: "wf_tx host t" and s: "slot host t d0 (Some st) T S R d"
    and tab: "recovery_table st (T \<noteq> None, S \<noteq> None, R \<noteq> None) = Some a"
    and e: "(if a = RestoreOld then R else T) = Some e" and ok: "is_target_space host (tx_marker t) e"
  shows "decided host d ((tx_marker t)\<lparr>rm_state := st\<rparr>) a"
proof -
  let ?m = "(tx_marker t)\<lparr>rm_state := st\<rparr>"
  from ok obtain sp where "open_node host (tgt t) (Some e) (tgt t) = Ok sp"
    "source_identity_matches (rm_target_identity (tx_marker t)) sp"
    by (auto simp: is_target_space_def)
  then have "open_node host (identity_entry ?m a) (Some e) (tgt t) = Ok (sp\<lparr>sp_root := identity_entry ?m a\<rparr>)"
    "source_identity_matches (rm_target_identity ?m) (sp\<lparr>sp_root := identity_entry ?m a\<rparr>)"
    by (auto intro: open_node_path)
  moreover have "dk_spaces d (identity_entry ?m a) = Some e"
    using s e wf_tx_entries [OF wf] by (auto simp: identity_entry_def slot_def split: if_splits)
  moreover have "recovery_table st (marker_tuple d ?m) = Some a"
    using s tab wf_tx_entries [OF wf] by (simp add: marker_tuple_def present_def slot_def)
  ultimately show ?thesis unfolding decided_def by auto
qed

text \<open>A sound plan for a transaction fits it, and a marked transaction has a decided action.\<close>

lemma plan_fits_sound:
  assumes wf: "wf_tx host t" and tx: "tx_state host t d0 d" and sound: "plan_sound host d p"
    and path: "rp_marker_path p = mk t"
  shows "plan_fits host t d0 p d"
proof -
  have at: "marker_at host d (mk t) (rp_marker p)"
    and dec: "decided host d (rp_marker p) (ro_action (rp_observation p))"
    using sound path by (auto simp: plan_sound_def)
  note shape = slot_marker_at [OF wf] slot_decided [OF wf]
  from tx show ?thesis
  proof cases
    case (tx_untouched S)
    then show ?thesis using shape(1) [OF tx_untouched(1)] at by auto
  next
    case (tx_prepared e)
    then have m: "rp_marker p = (tx_marker t)\<lparr>rm_state := Prepared\<rparr>" using shape(1) [OF tx_prepared(1)] at by auto
    with shape(2) [OF tx_prepared(1) dec [unfolded m]] have "ro_action (rp_observation p) = Abort" by auto
    with m path tx_prepared show ?thesis by (intro fits_abort) auto
  next
    case (tx_aside st e)
    then have m: "rp_marker p = (tx_marker t)\<lparr>rm_state := st\<rparr>" using shape(1) [OF tx_aside(1)] at by auto
    with shape(2) [OF tx_aside(1) dec [unfolded m]] tx_aside(2) have "ro_action (rp_observation p) = RestoreOld" by (cases st) auto
    with m path tx_aside show ?thesis by (intro fits_restore) auto
  next
    case (tx_exchanged st)
    then have m: "rp_marker p = (tx_marker t)\<lparr>rm_state := st\<rparr>" using shape(1) [OF tx_exchanged(1)] at by auto
    with shape(2) [OF tx_exchanged(1) dec [unfolded m]] tx_exchanged(2) have "ro_action (rp_observation p) = CompleteNew"
      by (cases st) auto
    with m path tx_exchanged show ?thesis by (intro fits_complete) auto
  next
    case tx_reclaimed
    then have m: "rp_marker p = (tx_marker t)\<lparr>rm_state := Published\<rparr>" using shape(1) [OF tx_reclaimed] at by auto
    with shape(2) [OF tx_reclaimed dec [unfolded m]] have "ro_action (rp_observation p) = CompleteNew" by auto
    with m path tx_reclaimed show ?thesis by (intro fits_complete) auto
  next
    case tx_finished
    then show ?thesis using shape(1) [OF tx_finished] at by auto
  qed
qed

lemma tx_state_decided:
  assumes wf: "wf_tx host t" and tx: "tx_state host t d0 d"
  shows "has_marker host t None d \<or>
    (\<exists>st a. marker_at host d (mk t) ((tx_marker t)\<lparr>rm_state := st\<rparr>) \<and> decided host d ((tx_marker t)\<lparr>rm_state := st\<rparr>) a)"
proof -
  have ok: "is_target_space host (tx_marker t) (tx_old t)" "is_target_space host (tx_marker t) (tx_new t)"
    using wf by (auto simp: wf_tx_def)
  note at = slot_marker_at [OF wf]
  note dec = decided_slot [OF wf]
  from tx show ?thesis
  proof cases
    case (tx_untouched S)
    then show ?thesis by (simp add: slot_def)
  next
    case (tx_prepared e)
    then show ?thesis using at [OF tx_prepared(1)] dec [OF tx_prepared(1), of Abort] ok by auto
  next
    case (tx_aside st e)
    then show ?thesis using at [OF tx_aside(1)] dec [OF tx_aside(1), of RestoreOld] ok by (cases st) auto
  next
    case (tx_exchanged st)
    then show ?thesis using at [OF tx_exchanged(1)] dec [OF tx_exchanged(1), of CompleteNew] ok by (cases st) auto
  next
    case tx_reclaimed
    then show ?thesis using at [OF tx_reclaimed] dec [OF tx_reclaimed, of CompleteNew] ok by auto
  next
    case tx_finished
    then show ?thesis by (simp add: slot_def)
  qed
qed

lemma plan_fits_state: "plan_fits host t d0 p d \<Longrightarrow> tx_state host t d0 d"
  by (cases rule: plan_fits.cases)
    (auto intro: tx_prepared tx_aside tx_exchanged tx_reclaimed)

subsection \<open>Carrying out a plan\<close>

lemma triple_remove_marker_durable:
  assumes "wf_tx host t" and "\<And>d. slot host t d0 mo T S R d \<Longrightarrow> C d" and "\<And>d. slot host t d0 None T S R d \<Longrightarrow> C d"
  shows "triple F (slot host t d0 mo T S R) (remove_marker_durable (mk t)) (\<lambda>_. slot host t d0 None T S R) C"
  unfolding remove_marker_durable_def
  by (intro triple_bind [OF triple_drop_marker [OF assms(1,2)]] triple_sync_keep assms(3))

lemma triple_transition_marker:
  assumes "wf_tx host t" and "rp_marker p = (tx_marker t)\<lparr>rm_state := st\<rparr>"
    and "\<And>d. slot host t d0 (Some st) T S R d \<Longrightarrow> C d" and "\<And>d. slot host t d0 (Some st') T S R d \<Longrightarrow> C d"
  shows "triple F (slot host t d0 (Some st) T S R) (transition_marker host p st') (\<lambda>_. slot host t d0 (Some st') T S R) C"
proof (cases "st = st'")
  case True
  then show ?thesis using assms(2) by (simp add: transition_marker_def triple_ret)
next
  case False
  then show ?thesis
    unfolding transition_marker_def using assms triple_replace_marker_state [OF assms(1) refl assms(3,4)]
    by simp
qed

lemma triple_retire_staging:
  assumes "wf_tx host t" and "\<And>d. slot host t d0 mo T S R d \<Longrightarrow> C d"
  shows "triple F (slot host t d0 mo T S R) (retire_recovery_path (stg t) rc) (\<lambda>_. slot host t d0 mo T None R) C"
  unfolding retire_recovery_path_def
  by (intro triple_bind [OF triple_trash_staging [OF assms]] triple_ret)

lemma triple_abort:
  assumes wf: "wf_tx host t" and p: "rp_marker p = (tx_marker t)\<lparr>rm_state := Prepared\<rparr>" "rp_marker_path p = mk t"
    and st: "stageable host e"
  shows "triple F (slot host t d0 (Some Prepared) (Some (tx_old t)) (Some e) None) (recover_abort p rc)
    (\<lambda>_. slot host t d0 None (Some (tx_old t)) None None) (tx_state host t d0)"
proof -
  have a: "slot host t d0 (Some Prepared) (Some (tx_old t)) (Some e) None d \<Longrightarrow> tx_state host t d0 d" for d
    by (rule tx_prepared [OF _ st])
  have b: "slot host t d0 None (Some (tx_old t)) (Some e) None d \<Longrightarrow> tx_state host t d0 d" for d
    by (rule tx_untouched) (use st in auto)
  have entries: "rm_staging_entry (rp_marker p) = stg t" using p wf_tx_entries [OF wf] by simp
  show ?thesis
    unfolding recover_abort_def p(2) entries
    by (intro triple_bind [OF triple_remove_marker_durable [OF wf a b]] triple_retire_staging [OF wf b])
qed

lemma triple_restore_old:
  assumes wf: "wf_tx host t" and p: "rp_marker p = (tx_marker t)\<lparr>rm_state := st\<rparr>" "rp_marker_path p = mk t"
    and st: "st \<noteq> Published" and e: "stageable host e"
  shows "triple F (slot host t d0 (Some st) None (Some e) (Some (tx_old t))) (recover_restore_old host p rc)
    (\<lambda>_. slot host t d0 None (Some (tx_old t)) None None) (tx_state host t d0)"
proof -
  have a: "s \<noteq> Published \<Longrightarrow> slot host t d0 (Some s) None (Some e) (Some (tx_old t)) d \<Longrightarrow> tx_state host t d0 d" for d s
    by (rule tx_aside [OF _ _ e])
  have b: "slot host t d0 (Some Prepared) (Some (tx_old t)) (Some e) None d \<Longrightarrow> tx_state host t d0 d" for d
    by (rule tx_prepared [OF _ e])
  have c: "slot host t d0 None (Some (tx_old t)) (Some e) None d \<Longrightarrow> tx_state host t d0 d" for d
    by (rule tx_untouched) (use e in auto)
  have entries: "rm_staging_entry (rp_marker p) = stg t" "rm_retired_entry (rp_marker p) = rtd t"
    "space_name_as_str (rm_target (rp_marker p)) = tgt t"
    using p wf_tx_entries [OF wf] by simp_all
  have tr: "triple F (slot host t d0 (Some st) None (Some e) (Some (tx_old t))) (transition_marker host p Prepared)
      (\<lambda>_. slot host t d0 (Some Prepared) None (Some e) (Some (tx_old t))) (tx_state host t d0)"
    by (rule triple_transition_marker [OF wf p(1)]) (use st in \<open>auto intro: a\<close>)
  have mv: "triple F (slot host t d0 (Some Prepared) None (Some e) (Some (tx_old t))) (rename_entry ac (rtd t) (tgt t))
      (\<lambda>_. slot host t d0 (Some Prepared) (Some (tx_old t)) (Some e) None) (tx_state host t d0)" for ac
    by (rule triple_restore_target [OF wf]) (auto intro: a)
  show ?thesis
    unfolding recover_restore_old_def p(2) entries
    by (intro triple_bind [OF tr] triple_bind [OF mv] triple_bind [OF triple_sync_keep [OF b]]
        triple_bind [OF triple_remove_marker_durable [OF wf b c]] triple_retire_staging [OF wf c])
qed

lemma triple_complete_new:
  assumes wf: "wf_tx host t" and p: "rp_marker p = (tx_marker t)\<lparr>rm_state := st\<rparr>" "rp_marker_path p = mk t"
    and R: "st \<noteq> Prepared \<and> R = Some (tx_old t) \<or> st = Published \<and> R = None"
  shows "triple F (slot host t d0 (Some st) (Some (tx_new t)) None R) (recover_complete_new host p rc)
    (\<lambda>_. slot host t d0 None (Some (tx_new t)) None None) (tx_state host t d0)"
proof -
  let ?X = "\<lambda>s R. slot host t d0 (Some s) (Some (tx_new t)) None R"
  let ?Z = "slot host t d0 None (Some (tx_new t)) None None"
  have a: "?X st R d \<Longrightarrow> tx_state host t d0 d" "?X Published R d \<Longrightarrow> tx_state host t d0 d" for d
    using R by (auto intro: tx_exchanged tx_reclaimed)
  have b: "?X Published None d \<Longrightarrow> tx_state host t d0 d" for d by (rule tx_reclaimed)
  have z: "?Z d \<Longrightarrow> tx_state host t d0 d" for d by (rule tx_finished)
  have entries: "rm_retired_entry (rp_marker p) = rtd t" using p wf_tx_entries [OF wf] by simp
  have look: "triple F (?X Published R) (entry_exists (rtd t)) (\<lambda>there d. there = (R \<noteq> None) \<and> ?X Published R d) (tx_state host t d0)"
    by (rule triple_entry_exists) (auto simp: slot_def intro: a(2) [unfolded slot_def])
  have retire: "triple F (\<lambda>d. there = (R \<noteq> None) \<and> ?X Published R d)
      (if there then bind_io (retire_recovery_path (rtd t) rc) (\<lambda>rc.
            bind_io sync_directory (\<lambda>_. bind_io sync_directory (\<lambda>_. ret rc)))
       else ret rc) (\<lambda>_. ?X Published None) (tx_state host t d0)" for there
  proof (cases there)
    case True
    have "triple F (?X Published R) (bind_io (retire_recovery_path (rtd t) rc) (\<lambda>rc.
            bind_io sync_directory (\<lambda>_. bind_io sync_directory (\<lambda>_. ret rc)))) (\<lambda>_. ?X Published None) (tx_state host t d0)"
      unfolding retire_recovery_path_def
      by (intro triple_bind [OF triple_bind [OF triple_trash_retired [OF wf a(2)] triple_ret]]
          triple_bind [OF triple_sync_keep [OF b]] triple_ret)
    with True show ?thesis by (auto elim: triple_conseq)
  next
    case False
    then show ?thesis by (auto intro!: triple_ret)
  qed
  have fin: "triple F (?X Published None) (bind_io (remove_marker_durable (mk t)) (\<lambda>_. ret rc)) (\<lambda>_. ?Z) (tx_state host t d0)" for rc
    by (intro triple_bind [OF triple_remove_marker_durable [OF wf b z]] triple_ret)
  show ?thesis
    unfolding recover_complete_new_def p(2) entries
    by (intro triple_bind [OF triple_transition_marker [OF wf p(1) a]] triple_bind [OF look] triple_bind [OF retire] fin)
qed

text \<open>The contract of one recovery step.\<close>

lemma triple_apply_recovery_plan:
  assumes wf: "wf_tx host t"
  shows "triple F (plan_fits host t d0 p) (apply_recovery_plan host p rc)
    (\<lambda>_. resolved host t d0) (tx_state host t d0)"
  unfolding triple_def
proof (intro allI impI)
  fix d
  assume "plan_fits host t d0 p d"
  then show "wp F (apply_recovery_plan host p rc) (\<lambda>_. resolved host t d0) (\<lambda>_. tx_state host t d0) (tx_state host t d0) d"
  proof cases
    case (fits_abort e)
    show ?thesis
      unfolding apply_recovery_plan_def using fits_abort
      by (simp, intro wp_conseq [OF triple_wp [OF triple_abort [OF wf fits_abort(1,2,5)] fits_abort(4)]]) (auto simp: resolved_def)
  next
    case (fits_restore st e)
    show ?thesis
      unfolding apply_recovery_plan_def using fits_restore
      by (simp, intro wp_conseq [OF triple_wp [OF triple_restore_old [OF wf fits_restore(1,2,3,6)] fits_restore(5)]]) (auto simp: resolved_def)
  next
    case (fits_complete st R)
    show ?thesis
      unfolding apply_recovery_plan_def using fits_complete
      by (simp, intro wp_conseq [OF triple_wp [OF triple_complete_new [OF wf fits_complete(1,2,5)] fits_complete(4)]]) (auto simp: resolved_def)
  qed
qed

end
