(* ===== verification/Rollback_Store.thy ===== *)
theory Rollback_Store
  imports Rollback_Recovery
begin

text \<open>
  Recovery of the whole store: any number of interrupted rollbacks with different identifiers and
  targets. Recovery keeps every one of them recoverable wherever the process stops, touches no
  entry that is neither theirs nor a control entry, and a run that is not disturbed resolves all
  of them.
\<close>

subsection \<open>Families of transactions\<close>

definition tx_family :: "store_host \<Rightarrow> rollback_tx list \<Rightarrow> bool" where
  "tx_family host ts \<longleftrightarrow>
     (\<forall>t\<in>set ts. wf_tx host t) \<and> distinct (map (\<lambda>t. tx_id t) ts) \<and> distinct (map (\<lambda>t. tgt t) ts)"

definition control :: "string \<Rightarrow> bool" where
  "control n \<longleftrightarrow>
     marker_id_from_name n \<noteq> None \<or> temporary_id_from_name n \<noteq> None \<or> staging_id_from_name n \<noteq> None"

definition all_names :: "rollback_tx list \<Rightarrow> string set" where
  "all_names ts = (\<Union>t\<in>set ts. tx_names t)"

text \<open>Every marker in the directory belongs to one of the transactions.\<close>

definition covered :: "rollback_tx list \<Rightarrow> disk \<Rightarrow> bool" where
  "covered ts d \<longleftrightarrow>
     (\<forall>n. dk_spaces d n \<noteq> None \<longrightarrow> marker_id_from_name n \<noteq> None \<longrightarrow> (\<exists>t\<in>set ts. n = mk t))"

definition store_state :: "store_host \<Rightarrow> rollback_tx list \<Rightarrow> disk \<Rightarrow> disk \<Rightarrow> bool" where
  "store_state host ts d0 d \<longleftrightarrow>
     (\<forall>t\<in>set ts. tx_state host t d d) \<and> covered ts d \<and>
     (\<forall>n. n \<notin> all_names ts \<longrightarrow> dk_spaces d n = dk_spaces d0 n \<or> control n \<and> dk_spaces d n = None)"

lemma family_disjoint:
  assumes "tx_family host ts" and "t \<in> set ts" and "u \<in> set ts" and "t \<noteq> u"
  shows "tx_names t \<inter> tx_names u = {}"
proof (rule tx_names_disjoint)
  from assms have "inj_on (\<lambda>t. tx_id t) (set ts)" "inj_on (\<lambda>t. tgt t) (set ts)"
    by (auto simp: tx_family_def distinct_map)
  then show "tx_id t \<noteq> tx_id u" "tgt t \<noteq> tgt u" using assms(2-4) by (auto dest: inj_onD)
qed (use assms in \<open>auto simp: tx_family_def\<close>)

lemma control_names:
  assumes "wf_tx host t" and "n \<in> tx_names t"
  shows "marker_id_from_name n \<noteq> None \<Longrightarrow> n = mk t" "temporary_id_from_name n \<noteq> None \<Longrightarrow> n = tmp t"
    "staging_id_from_name n \<noteq> None \<Longrightarrow> n = stg t"
proof -
  have len: "length (tx_id t) = 32" "length (tgt t) \<le> 32"
    using assms(1) by (auto simp: wf_tx_def hex_id_grammar_def portable_name_grammar_def)
  have lens: "marker_id_from_name n \<noteq> None \<Longrightarrow> length n = 47" "temporary_id_from_name n \<noteq> None \<Longrightarrow> length n = 46"
    "staging_id_from_name n \<noteq> None \<Longrightarrow> length n = 50"
    by (auto simp: marker_id_from_name_eq_Some temporary_id_from_name_eq_Some staging_id_from_name_eq_Some
        name_lengths hex_id_grammar_def)
  have "length n = 47 \<Longrightarrow> n = mk t" "length n = 46 \<Longrightarrow> n = tmp t" "length n = 50 \<Longrightarrow> n = stg t"
    using assms(2) len by (auto simp: tx_names_def name_lengths)
  then show "marker_id_from_name n \<noteq> None \<Longrightarrow> n = mk t" "temporary_id_from_name n \<noteq> None \<Longrightarrow> n = tmp t"
    "staging_id_from_name n \<noteq> None \<Longrightarrow> n = stg t"
    using lens by blast+
qed

subsection \<open>Locality\<close>

lemma slot_local:
  assumes "slot host u a mo T S R x" and "\<And>n. n \<in> tx_names u \<Longrightarrow> dk_spaces y n = dk_spaces x n"
  shows "slot host u y mo T S R y"
  using assms by (cases mo) (auto simp: slot_def has_marker_def clean_tmp_def tx_names_def)

lemma tx_state_local:
  assumes "tx_state host u a x" and "\<And>n. n \<in> tx_names u \<Longrightarrow> dk_spaces y n = dk_spaces x n"
  shows "tx_state host u y y"
  using assms(1)
  by (cases rule: tx_state.cases)
    (auto intro: tx_state.intros slot_local [where x = x] assms(2))

lemma plan_fits_local:
  assumes "plan_fits host u a p x" and "\<And>n. n \<in> tx_names u \<Longrightarrow> dk_spaces y n = dk_spaces x n"
  shows "plan_fits host u y p y"
  using assms(1)
  by (cases rule: plan_fits.cases)
    (auto intro: plan_fits.intros slot_local [where x = x] assms(2))

lemma resolved_local:
  assumes "resolved host u a x" and "\<And>n. n \<in> tx_names u \<Longrightarrow> dk_spaces y n = dk_spaces x n"
  shows "resolved host u y y"
  using assms by (auto simp: resolved_def intro: slot_local [where x = x])

lemma slot_frame: "slot host t d0 mo T S R d \<Longrightarrow> n \<notin> tx_names t \<Longrightarrow> dk_spaces d n = dk_spaces d0 n"
  by (simp add: slot_def)

lemma tx_state_frame: "tx_state host t d0 d \<Longrightarrow> n \<notin> tx_names t \<Longrightarrow> dk_spaces d n = dk_spaces d0 n"
  by (cases rule: tx_state.cases) (auto dest: slot_frame)

lemma resolved_state: "resolved host t d0 d \<Longrightarrow> tx_state host t d0 d"
  by (auto simp: resolved_def intro: tx_untouched tx_finished)

text \<open>What one transaction does keeps the others and everything else.\<close>

lemma store_state_step:
  assumes fam: "tx_family host ts" and t: "t \<in> set ts" and d1: "store_state host ts d0 d1" and tx: "tx_state host t d1 d"
  shows "store_state host ts d0 d"
  unfolding store_state_def
proof (intro conjI ballI allI impI)
  fix u
  assume u: "u \<in> set ts"
  show "tx_state host u d d"
  proof (cases "u = t")
    case True
    then show ?thesis using tx by (auto intro: tx_state_local)
  next
    case False
    then have "tx_names t \<inter> tx_names u = {}" using family_disjoint [OF fam t u] by blast
    then have "dk_spaces d n = dk_spaces d1 n" if "n \<in> tx_names u" for n
      using tx_state_frame [OF tx] that by blast
    moreover have "tx_state host u d1 d1" using d1 u by (simp add: store_state_def)
    ultimately show ?thesis by (auto intro: tx_state_local)
  qed
next
  have wf: "wf_tx host t" using fam t by (simp add: tx_family_def)
  show "covered ts d"
    unfolding covered_def
  proof (intro allI impI)
    fix n
    assume n: "dk_spaces d n \<noteq> None" "marker_id_from_name n \<noteq> None"
    show "\<exists>t\<in>set ts. n = mk t"
    proof (cases "n \<in> tx_names t")
      case True
      then show ?thesis using control_names(1) [OF wf True n(2)] t by blast
    next
      case False
      then show ?thesis using tx_state_frame [OF tx False] n d1 by (auto simp: store_state_def covered_def)
    qed
  qed
next
  fix n
  assume "n \<notin> all_names ts"
  then show "dk_spaces d n = dk_spaces d0 n \<or> control n \<and> dk_spaces d n = None"
    using tx_state_frame [OF tx, of n] d1 t by (auto simp: store_state_def all_names_def)
qed

text \<open>Removing a control entry that no transaction owns changes nothing of interest.\<close>

lemma store_state_remove_foreign:
  assumes "store_state host ts d0 d" and "n \<notin> all_names ts" and "control n"
    and "dk_spaces d' = (dk_spaces d)(n := None)"
  shows "store_state host ts d0 d'"
proof -
  have "tx_state host u d' d'" if "u \<in> set ts" for u
  proof -
    have "tx_state host u d d" using assms(1) that by (simp add: store_state_def)
    then show ?thesis
      by (rule tx_state_local) (use assms(2,4) that in \<open>auto simp: all_names_def\<close>)
  qed
  with assms show ?thesis by (auto simp: store_state_def covered_def)
qed

lemma store_state_trash:
  assumes "store_state host ts d0 d" and "dk_spaces d' = dk_spaces d"
  shows "store_state host ts d0 d'"
proof -
  have "tx_state host u d' d'" if "u \<in> set ts" for u
    by (rule tx_state_local [of host u d d]) (use assms that in \<open>auto simp: store_state_def\<close>)
  with assms show ?thesis by (auto simp: store_state_def covered_def)
qed

subsection \<open>Temporaries\<close>

lemma slot_drop_tmp:
  assumes "wf_tx host t" and "slot host t a mo T S R d" and "dk_spaces d' = (dk_spaces d)(tmp t := None)"
  shows "slot host t a mo T S R d'"
  using assms(2,3) tx_names_distinct [OF assms(1)]
  by (cases mo) (auto simp: slot_def has_marker_def clean_tmp_def tx_names_def)

lemma tx_state_drop_tmp:
  assumes "wf_tx host t" and "tx_state host t a d" and "dk_spaces d' = (dk_spaces d)(tmp t := None)"
  shows "tx_state host t a d'"
  using assms(2) by (cases rule: tx_state.cases)
    (auto intro: tx_state.intros slot_drop_tmp [OF assms(1) _ assms(3)])

lemma store_state_drop_temporary:
  assumes fam: "tx_family host ts" and s: "store_state host ts d0 d" and n: "temporary_id_from_name n \<noteq> None"
    and d': "dk_spaces d' = (dk_spaces d)(n := None)"
  shows "store_state host ts d0 d'"
proof (cases "n \<in> all_names ts")
  case True
  then obtain t where t: "t \<in> set ts" "n \<in> tx_names t" by (auto simp: all_names_def)
  then have wf: "wf_tx host t" using fam by (simp add: tx_family_def)
  have "n = tmp t" by (rule control_names(2) [OF wf t(2) n])
  with s t d' have "tx_state host t d d'" by (auto simp: store_state_def intro: tx_state_drop_tmp [OF wf])
  then show ?thesis by (rule store_state_step [OF fam t(1) s])
next
  case False
  then show ?thesis using n by (intro store_state_remove_foreign [OF s False _ d']) (simp add: control_def)
qed

lemma wp_reclaim_temporary_entry:
  assumes fam: "tx_family host ts" and s: "store_state host ts d0 d"
  shows "wp F (reclaim_temporary_entry host name removed) (\<lambda>_. store_state host ts d0)
    (\<lambda>_. store_state host ts d0) (store_state host ts d0) d"
proof (cases "temporary_id_from_name name")
  case None
  then show ?thesis unfolding reclaim_temporary_entry_def using s by (auto intro: wp_rules)
next
  case (Some i)
  have rm: "wp F (remove_file a name) (\<lambda>_. store_state host ts d0) (\<lambda>_. store_state host ts d0) (store_state host ts d0) d" for a
    by (rule triple_wp [OF triple_remove_file [where P = "\<lambda>x. x = d"]])
      (use s Some in \<open>auto intro: store_state_drop_temporary [OF fam s]\<close>)
  have "wp F (bind_io (remove_file a name) (\<lambda>_. ret k)) (\<lambda>_. store_state host ts d0) (\<lambda>_. store_state host ts d0)
      (store_state host ts d0) d" for a and k :: nat
    by (rule wp_bind, rule wp_conseq [OF rm]) (auto intro: wp_rules)
  then have rest: "wp F (bind_io (lift r) (\<lambda>_. bind_io (remove_file a name) (\<lambda>_. ret k))) (\<lambda>_. store_state host ts d0)
      (\<lambda>_. store_state host ts d0) (store_state host ts d0) d" for r :: "unit result" and a and k :: nat
    by (rule wp_bind [OF wp_lift, rotated]) (use s in auto)
  show ?thesis
    unfolding reclaim_temporary_entry_def Some option.case
    by (rule wp_bind, rule wp_lift, simp add: s, rule wp_bind, rule wp_read_entry) (use s rest in auto)
qed

lemma wp_reclaim_marker_temporaries:
  assumes fam: "tx_family host ts" and s: "store_state host ts d0 d"
  shows "wp F (reclaim_marker_temporaries host) (\<lambda>_. store_state host ts d0)
    (\<lambda>_. store_state host ts d0) (store_state host ts d0) d"
  unfolding reclaim_marker_temporaries_def
  by (rule wp_bind, rule wp_conseq [OF wp_scan_directory_inv [where I = "\<lambda>_. store_state host ts d0"]])
    (auto intro: wp_reclaim_temporary_entry [OF fam] s wp_rules)

subsection \<open>The loop over plans\<close>

definition plans_fit :: "store_host \<Rightarrow> rollback_tx list \<Rightarrow> recovery_plan list \<Rightarrow> disk \<Rightarrow> bool" where
  "plans_fit host ts plans d \<longleftrightarrow>
     distinct (map (\<lambda>p. ro_target (rp_observation p)) plans) \<and>
     (\<forall>p\<in>set plans. \<exists>t\<in>set ts. ro_target (rp_observation p) = rm_target (tx_marker t) \<and> plan_fits host t d p d)"

lemma plan_sound_fits:
  assumes fam: "tx_family host ts" and s: "store_state host ts d0 d" and p: "plan_sound host d p"
  shows "\<exists>t\<in>set ts. ro_target (rp_observation p) = rm_target (tx_marker t) \<and> plan_fits host t d p d"
proof -
  from p have at: "marker_at host d (rp_marker_path p) (rp_marker p)" and "marker_id_from_name (rp_marker_path p) \<noteq> None"
    by (auto simp: plan_sound_def)
  moreover from at have "dk_spaces d (rp_marker_path p) \<noteq> None"
    by (cases "dk_spaces d (rp_marker_path p)") (auto simp: marker_at_def private_bytes_def read_private_file_missing)
  ultimately obtain t where t: "t \<in> set ts" "rp_marker_path p = mk t"
    using s by (auto simp: store_state_def covered_def)
  then have wf: "wf_tx host t" and tx: "tx_state host t d d" using fam s by (auto simp: tx_family_def store_state_def)
  have fits: "plan_fits host t d p d" by (rule plan_fits_sound [OF wf tx p t(2)])
  then have "rm_target (rp_marker p) = rm_target (tx_marker t)" by cases auto
  moreover have "ro_target (rp_observation p) = rm_target (rp_marker p)"
    using p by (metis plan_for_def plan_sound_def recovery_plan.select_convs(3) rollback_observation.select_convs(2))
  ultimately show ?thesis using t fits by auto
qed

lemma inventory_plans_fit:
  assumes "tx_family host ts" and "store_state host ts d0 d" and "inventory_sound host d i"
  shows "plans_fit host ts (inv_plans i) d"
  using assms plan_sound_fits [OF assms(1,2)] by (auto simp: plans_fit_def inventory_sound_def)

text \<open>Carrying out the first plan leaves the remaining ones fitting.\<close>

lemma plans_fit_step:
  assumes fam: "tx_family host ts" and fit: "plans_fit host ts (p # ps) d1" and t: "t \<in> set ts"
    and target: "ro_target (rp_observation p) = rm_target (tx_marker t)" and tx: "tx_state host t d1 d"
  shows "plans_fit host ts ps d"
  unfolding plans_fit_def
proof (intro conjI ballI)
  show "distinct (map (\<lambda>p. ro_target (rp_observation p)) ps)" using fit by (simp add: plans_fit_def)
  fix q
  assume q: "q \<in> set ps"
  then obtain u where u: "u \<in> set ts" "ro_target (rp_observation q) = rm_target (tx_marker u)" "plan_fits host u d1 q d1"
    using fit by (auto simp: plans_fit_def)
  have "u \<noteq> t" using fit q target u(2) by (auto simp: plans_fit_def image_iff)
  then have "dk_spaces d n = dk_spaces d1 n" if "n \<in> tx_names u" for n
    using family_disjoint [OF fam t u(1)] tx_state_frame [OF tx, of n] that by blast
  then have "plan_fits host u d q d" by (rule plan_fits_local [OF u(3)])
  with u show "\<exists>t\<in>set ts. ro_target (rp_observation q) = rm_target (tx_marker t) \<and> plan_fits host t d q d" by blast
qed

lemma wp_apply_recovery_plan:
  assumes fam: "tx_family host ts" and s: "store_state host ts d0 d" and fit: "plans_fit host ts (p # ps) d"
  shows "wp F (apply_recovery_plan host p rc) (\<lambda>_ d'. store_state host ts d0 d' \<and> plans_fit host ts ps d')
    (\<lambda>_. store_state host ts d0) (store_state host ts d0) d"
proof -
  from fit obtain t where t: "t \<in> set ts" "ro_target (rp_observation p) = rm_target (tx_marker t)"
    and pf: "plan_fits host t d p d" by (auto simp: plans_fit_def)
  have wf: "wf_tx host t" using fam t(1) by (simp add: tx_family_def)
  show ?thesis
    by (rule wp_conseq [OF triple_wp [OF triple_apply_recovery_plan [OF wf] pf]])
      (auto intro: store_state_step [OF fam t(1) s] plans_fit_step [OF fam fit t] dest: resolved_state)
qed

lemma wp_recover_plans:
  assumes fam: "tx_family host ts" and "store_state host ts d0 d" and "plans_fit host ts plans d"
  shows "wp F (recover_plans host plans) (\<lambda>_. store_state host ts d0)
    (\<lambda>_. store_state host ts d0) (store_state host ts d0) d"
  unfolding recover_plans_def
proof (rule wp_conseq [OF wp_iterate_list
      [where I = "\<lambda>ps _ d. store_state host ts d0 d \<and> plans_fit host ts ps d"]])
  fix p ps d and st :: "nat list \<times> rollback_observation list"
  assume "store_state host ts d0 d \<and> plans_fit host ts (p # ps) d"
  then show "wp F (bind_io (apply_recovery_plan host p (fst st)) (\<lambda>reclaiming. ret (reclaiming, snd st @ [rp_observation p])))
      (\<lambda>_ d. store_state host ts d0 d \<and> plans_fit host ts ps d) (\<lambda>_. store_state host ts d0) (store_state host ts d0) d"
    by (intro wp_bind wp_conseq [OF wp_apply_recovery_plan [OF fam]]) (auto intro: wp_rules)
qed (use assms in auto)

subsection \<open>Orphaned staging\<close>

text \<open>The faults of this part: the process may stop at any call, but \<open>Path::exists\<close> does not fail.\<close>

definition crash_only :: "fault \<Rightarrow> bool" where
  "crash_only f \<longleftrightarrow> (case f of Fault _ \<Rightarrow> False | _ \<Rightarrow> True)"

lemma unmarked_staging:
  assumes wf: "wf_tx host t" and tx: "tx_state host t d d" and m: "dk_spaces d (mk t) = None"
    and d': "dk_spaces d' = (dk_spaces d)(stg t := None)"
  shows "tx_state host t d d'"
proof -
  note ne = tx_names_distinct [OF wf]
  have drop: "slot host t d mo T S R d \<Longrightarrow> slot host t d mo T None R d'" for mo T S R
    using ne d' by (cases mo) (auto simp: slot_def has_marker_def clean_tmp_def tx_names_def)
  from tx show ?thesis
  proof cases
    case (tx_untouched S)
    then show ?thesis using tx_state.tx_untouched [OF drop [OF tx_untouched(1)]] by simp
  next
    case tx_finished
    then show ?thesis by (intro tx_state.tx_finished drop)
  qed (use m in \<open>auto simp: slot_def has_marker_def Let_def\<close>)
qed

lemma store_state_drop_staging:
  assumes fam: "tx_family host ts" and s: "store_state host ts d0 d" and n: "staging_id_from_name n = Some i"
    and m: "dk_spaces d (rollback_marker_name (artifact_id_as_str i)) = None"
    and d': "dk_spaces d' = (dk_spaces d)(n := None)"
  shows "store_state host ts d0 d'"
proof (cases "n \<in> all_names ts")
  case True
  then obtain t where t: "t \<in> set ts" "n \<in> tx_names t" by (auto simp: all_names_def)
  then have wf: "wf_tx host t" using fam by (simp add: tx_family_def)
  have nt: "n = stg t" by (rule control_names(3) [OF wf t(2)]) (simp add: n)
  with n have "tx_id t = artifact_id_as_str i" by (simp add: staging_id_from_name_eq_Some)
  with m have unmarked: "dk_spaces d (mk t) = None" by simp
  have tx: "tx_state host t d d" using s t(1) by (simp add: store_state_def)
  have "tx_state host t d d'" by (rule unmarked_staging [OF wf tx unmarked d' [unfolded nt]])
  then show ?thesis by (rule store_state_step [OF fam t(1) s])
next
  case False
  then show ?thesis using n by (intro store_state_remove_foreign [OF s False _ d']) (simp add: control_def)
qed

lemma store_state_marker_link:
  assumes fam: "tx_family host ts" and "store_state host ts d0 d" and "marker_id_from_name n = Some i"
  shows "\<not> (\<exists>m b. dk_spaces d n = Some (LinkNode m b))"
proof
  assume "\<exists>m b. dk_spaces d n = Some (LinkNode m b)"
  then obtain m b where l: "dk_spaces d n = Some (LinkNode m b)" by blast
  with assms obtain t where t: "t \<in> set ts" "n = mk t" by (auto simp: store_state_def covered_def)
  have "tx_state host t d d" using assms(2) t by (simp add: store_state_def)
  then show False using l t by cases (auto simp: slot_def has_marker_def Let_def)
qed

lemma wp_orphan_staging_entry:
  assumes fam: "tx_family host ts" and s: "store_state host ts d0 d"
  shows "wp crash_only (orphan_staging_entry host held name st) (\<lambda>_. store_state host ts d0)
    (\<lambda>_. store_state host ts d0) (store_state host ts d0) d"
proof (cases "staging_id_from_name name")
  case None
  then show ?thesis unfolding orphan_staging_entry_def using s by (auto intro: wp_rules)
next
  case (Some i)
  let ?I = "store_state host ts d0"
  let ?m = "rollback_marker_name (artifact_id_as_str i)"
  have id: "marker_id_from_name ?m = Some i"
    using Some by (simp add: marker_id_from_name_eq_Some staging_id_from_name_eq_Some)
  have retire: "wp crash_only (bind_io (retire_recovery_path name rc) (\<lambda>reclaiming. ret (k, reclaiming)))
      (\<lambda>_. ?I) (\<lambda>_. ?I) ?I d" if m: "dk_spaces d ?m = None" for rc and k :: nat
  proof -
    have "?I (d\<lparr>dk_spaces := (dk_spaces d)(name := None), dk_trash := x, dk_next := y\<rparr>)" for x y
      by (rule store_state_drop_staging [OF fam s Some m]) simp
    then have "wp crash_only (rename_to_trash a name) (\<lambda>_. ?I) (\<lambda>_. ?I) ?I d" for a
      by (intro triple_wp [OF triple_rename_to_trash [where P = "\<lambda>x. x = d"]]) (use s in auto)
    then show ?thesis
      unfolding retire_recovery_path_def
      by (rule wp_bind [OF wp_bind [OF wp_conseq]]) (auto intro!: wp_rules)
  qed
  have rest: "wp crash_only (bind_io (read_entry a name) (\<lambda>e. bind_io (lift (f e)) (\<lambda>free.
      if \<not> free then ret st' else bind_io (retire_recovery_path name rc) (\<lambda>reclaiming. ret (k, reclaiming)))))
      (\<lambda>_. ?I) (\<lambda>_. ?I) ?I d" if "dk_spaces d ?m = None" for rc st' a and k :: nat and f :: "node option \<Rightarrow> bool result"
  proof (rule wp_bind, rule wp_read_entry)
    show "wp crash_only (bind_io (lift (f (dk_spaces d name))) (\<lambda>free. if \<not> free then ret st'
       else bind_io (retire_recovery_path name rc) (\<lambda>reclaiming. ret (k, reclaiming)))) (\<lambda>_. ?I) (\<lambda>_. ?I) ?I d"
      by (rule wp_bind, rule wp_lift) (use s retire [OF that] in \<open>auto intro: wp_ret\<close>)
  qed (use s in auto)
  show ?thesis
    unfolding orphan_staging_entry_def Some option.case Let_def
    by (rule wp_bind, rule wp_lift, simp add: s, rule wp_bind, rule wp_path_exists)
      (use s rest store_state_marker_link [OF fam s id] in
        \<open>auto simp: crash_only_def split: option.splits node.splits intro: wp_ret\<close>)
qed

subsection \<open>Recovery as a whole\<close>

lemma wp_remove_trees:
  assumes "store_state host ts d0 d"
  shows "wp F (iterate (\<lambda>path _. remove_tree_restoring_owner_access path) paths ()) (\<lambda>_. store_state host ts d0)
    (\<lambda>_. store_state host ts d0) (store_state host ts d0) d"
proof (rule wp_iterate [where I = "\<lambda>_. store_state host ts d0", OF assms])
  fix path d and u :: unit
  assume s: "store_state host ts d0 d"
  show "wp F (remove_tree_restoring_owner_access path) (\<lambda>_. store_state host ts d0)
     (\<lambda>_. store_state host ts d0) (store_state host ts d0) d"
    by (rule triple_wp [OF triple_remove_tree [where P = "\<lambda>x. x = d"]])
      (use s in \<open>auto intro: store_state_trash\<close>)
qed

lemma wp_recover_rollbacks:
  assumes fam: "tx_family host ts" and s: "store_state host ts d0 d"
  shows "wp crash_only (recover_rollbacks host held) (\<lambda>_. store_state host ts d0)
    (\<lambda>_. store_state host ts d0) (store_state host ts d0) d"
proof -
  let ?I = "store_state host ts d0"
  have inv: "triple crash_only ?I (load_recovery_inventory host None)
      (\<lambda>i d. ?I d \<and> plans_fit host ts (inv_plans i) d) ?I"
    unfolding triple_def
    by (intro allI impI wp_load_recovery_inventory) (auto intro: inventory_plans_fit [OF fam])
  have plans: "triple crash_only (\<lambda>d. ?I d \<and> plans_fit host ts ps d) (recover_plans host ps) (\<lambda>_. ?I) ?I" for ps
    unfolding triple_def by (auto intro: wp_recover_plans [OF fam])
  have temps: "triple crash_only ?I (reclaim_marker_temporaries host) (\<lambda>_. ?I) ?I"
    unfolding triple_def by (auto intro: wp_reclaim_marker_temporaries [OF fam])
  have scan: "triple crash_only ?I (scan_directory host a (orphan_staging_entry host held) st) (\<lambda>_. ?I) ?I" for a st
    unfolding triple_def
    by (intro allI impI wp_scan_directory_inv [where I = "\<lambda>_. ?I"]) (auto intro: wp_orphan_staging_entry [OF fam])
  have orphans: "triple crash_only ?I (reclaim_orphan_staging host held rc) (\<lambda>_. ?I) ?I" for rc
    unfolding reclaim_orphan_staging_def by (intro triple_bind [OF scan] triple_ret)
  have trees: "triple crash_only ?I (iterate (\<lambda>path _. remove_tree_restoring_owner_access path) paths ()) (\<lambda>_. ?I) ?I" for paths
    unfolding triple_def by (auto intro: wp_remove_trees)
  have "triple crash_only ?I (recover_rollbacks host held) (\<lambda>_. ?I) ?I"
    unfolding recover_rollbacks_def
    by (intro triple_bind [OF temps] triple_bind [OF inv] triple_bind [OF plans] triple_bind [OF orphans]
        triple_bind [OF triple_sync_keep] triple_bind [OF trees] triple_ret)
  then show ?thesis using s by (rule triple_wp)
qed

end
