(* ===== verification/Rollback_Completion.thy ===== *)
theory Rollback_Completion
  imports Rollback_Store
begin

text \<open>
  Recovery that is not disturbed returns and resolves every transaction: the bounds of the three
  scans are sufficient, every marker yields a plan, every plan can be carried out, and what is
  left of staging is reclaimed.
\<close>

subsection \<open>One plan runs\<close>

lemma runs_replace_marker:
  assumes "marker_temporary_name i \<noteq> rollback_marker_name i" and "dk_spaces d (marker_temporary_name i) = None"
    and "dk_spaces d (rollback_marker_name i) = Some (FileNode m b)"
    and "\<And>d' m. dk_spaces d' = (dk_spaces d)(rollback_marker_name i \<mapsto> FileNode m (h_marker_bytes host marker)) \<Longrightarrow> Q () d'"
  shows "runs (replace_marker host i marker) Q d"
proof -
  let ?t = "marker_temporary_name i" and ?k = "rollback_marker_name i" and ?b = "h_marker_bytes host marker"
  let ?e = "put_file (h_uid host) ?t ?b (put_file (h_uid host) ?t [] d)"
  have "runs (bind_io (write_private_file (h_uid host) ?t ?b) (\<lambda>_.
      bind_io (rename_entry ''replace rollback marker'' ?t ?k) (\<lambda>_. sync_directory))) Q d"
  proof (intro runs_bind runs_write_private_file runs_rename_entry runs_sync_directory)
    show "Q () (?e\<lparr>dk_spaces := (dk_spaces ?e)(?t := None,
        ?k \<mapsto> FileNode (created_stat (h_uid host) (dk_next (put_file (h_uid host) ?t [] d)) (length ?b)) ?b)\<rparr>)"
      by (rule assms(4)) (use assms(1,2) in \<open>auto simp: fun_eq_iff\<close>)
  qed (use assms in \<open>auto simp: may_replace_def\<close>)
  then show ?thesis
    unfolding replace_marker_def using assms(2) by (intro runs_bind runs_entry_exists) simp
qed

lemma runs_remove_marker_durable:
  "dk_spaces d k = Some (FileNode m b) \<Longrightarrow> (\<And>d'. dk_spaces d' = (dk_spaces d)(k := None) \<Longrightarrow> Q () d') \<Longrightarrow>
     runs (remove_marker_durable k) Q d"
  unfolding remove_marker_durable_def by (intro runs_rules runs_remove_file) auto

lemma runs_retire_recovery_path:
  "dk_spaces d k = Some e \<Longrightarrow> (\<And>d' r. dk_spaces d' = (dk_spaces d)(k := None) \<Longrightarrow> Q r d') \<Longrightarrow>
     runs (retire_recovery_path k rc) Q d"
  unfolding retire_recovery_path_def by (intro runs_bind runs_rename_to_trash runs_ret) auto

lemma slot_marker_file:
  "slot host t d0 (Some st) T S R d \<Longrightarrow> \<exists>m b. dk_spaces d (mk t) = Some (FileNode m b)"
  by (auto simp: slot_def has_marker_def Let_def)

lemma runs_transition_marker:
  assumes wf: "wf_tx host t" and p: "rp_marker p = (tx_marker t)\<lparr>rm_state := st\<rparr>"
    and s: "slot host t d0 (Some st) T S R d" and tmp: "dk_spaces d (tmp t) = None"
    and Q: "\<And>d' m b. dk_spaces d' = (dk_spaces d)(mk t \<mapsto> FileNode m b) \<Longrightarrow> Q () d'"
  shows "runs (transition_marker host p st') Q d"
proof -
  obtain m b where k: "dk_spaces d (mk t) = Some (FileNode m b)" using slot_marker_file [OF s] by blast
  show ?thesis
  proof (cases "st = st'")
    case True
    then show ?thesis using p k Q [of d m b] by (auto simp: transition_marker_def fun_upd_idem intro: runs_ret)
  next
    case False
    have "runs (replace_marker host (tx_id t) x) Q d" for x
      by (rule runs_replace_marker [OF _ tmp k]) (use tx_names_distinct [OF wf] Q in auto)
    with False p show ?thesis by (simp add: transition_marker_def)
  qed
qed

lemma runs_apply_recovery_plan:
  assumes wf: "wf_tx host t" and fit: "plan_fits host t d0 p d" and tmp: "dk_spaces d (tmp t) = None"
  shows "runs (apply_recovery_plan host p rc) (\<lambda>_ d'. dk_spaces d' (tmp t) = None) d"
proof -
  note ne = tx_names_distinct [OF wf] tx_names_distinct [OF wf, symmetric]
  note entries = wf_tx_entries [OF wf]
  from fit show ?thesis
  proof cases
    case (fits_abort e)
    then show ?thesis
      using slot_marker_file [OF fits_abort(4)] ne tmp entries
      unfolding apply_recovery_plan_def recover_abort_def
      by (auto intro!: runs_bind runs_remove_marker_durable runs_retire_recovery_path simp: slot_def)
  next
    case (fits_restore st e)
    have s: "dk_spaces d (tgt t) = None" "dk_spaces d (stg t) = Some e" "dk_spaces d (rtd t) = Some (tx_old t)"
      using fits_restore(5) by (simp_all add: slot_def)
    have "runs (recover_restore_old host p rc) (\<lambda>_ d'. dk_spaces d' (tmp t) = None) d"
      unfolding recover_restore_old_def fits_restore(1,2)
      by (rule runs_bind, rule runs_transition_marker [OF wf fits_restore(1,5) tmp])
        (use s ne tmp entries in \<open>auto intro!: runs_bind runs_rename_entry runs_sync_directory
          runs_remove_marker_durable runs_retire_recovery_path simp: may_replace_def\<close>)
    then show ?thesis using fits_restore(4) by (simp add: apply_recovery_plan_def)
  next
    case (fits_complete st R)
    have s: "dk_spaces d (rtd t) = R" using fits_complete(4) by (simp add: slot_def)
    have "runs (recover_complete_new host p rc) (\<lambda>_ d'. dk_spaces d' (tmp t) = None) d"
      unfolding recover_complete_new_def fits_complete(1,2)
    proof (rule runs_bind, rule runs_transition_marker [OF wf fits_complete(1,4) tmp])
      fix d' :: disk and m b
      assume d': "dk_spaces d' = (dk_spaces d)(mk t \<mapsto> FileNode m b)"
      let ?r = "rm_retired_entry ((tx_marker t)\<lparr>rm_state := st\<rparr>)"
      show "runs (bind_io (entry_exists ?r) (\<lambda>present. bind_io (if present
         then bind_io (retire_recovery_path ?r rc) (\<lambda>reclaiming.
              bind_io sync_directory (\<lambda>_. bind_io sync_directory (\<lambda>_. ret reclaiming)))
         else ret rc) (\<lambda>reclaiming. bind_io (remove_marker_durable (mk t)) (\<lambda>_. ret reclaiming))))
         (\<lambda>_ d'. dk_spaces d' (tmp t) = None) d'"
        using d' s ne tmp entries fits_complete(5)
        by (intro runs_bind runs_entry_exists)
          (auto intro!: runs_bind runs_ret runs_sync_directory runs_retire_recovery_path runs_remove_marker_durable)
    qed
    then show ?thesis using fits_complete(3) by (simp add: apply_recovery_plan_def)
  qed
qed

subsection \<open>Scans that stay within their bounds\<close>

text \<open>All control entries belong to the transactions, and the directory is within the scan bound.\<close>

definition owned :: "rollback_tx list \<Rightarrow> disk \<Rightarrow> bool" where
  "owned ts d \<longleftrightarrow> (\<forall>n. dk_spaces d n \<noteq> None \<longrightarrow> control n \<longrightarrow> n \<in> all_names ts)"

definition bounded_store :: "store_host \<Rightarrow> rollback_tx list \<Rightarrow> disk \<Rightarrow> bool" where
  "bounded_store host ts d0 \<longleftrightarrow>
     enumerates host \<and> length ts \<le> MAX_ROLLBACK_MARKERS \<and> finite (dom (dk_spaces d0)) \<and>
     card (dom (dk_spaces d0) \<union> all_names ts) \<le> MAX_DIRECTORY_SCAN_ENTRIES"

lemma finite_all_names: "finite (all_names ts)"
  by (simp add: all_names_def tx_names_def)

lemma listing:
  assumes b: "bounded_store host ts d0" and s: "store_state host ts d0 d"
  shows "distinct (h_order host (dk_spaces d))" "set (h_order host (dk_spaces d)) = dom (dk_spaces d)"
    "length (h_order host (dk_spaces d)) \<le> MAX_DIRECTORY_SCAN_ENTRIES"
proof -
  let ?D = "dom (dk_spaces d0) \<union> all_names ts"
  have sub: "dom (dk_spaces d) \<subseteq> ?D"
  proof
    fix n
    assume n: "n \<in> dom (dk_spaces d)"
    show "n \<in> ?D"
    proof (cases "n \<in> all_names ts")
      case False
      with n s have "dk_spaces d n = dk_spaces d0 n" by (auto simp: store_state_def dom_def)
      with n show ?thesis by (auto simp: dom_def)
    qed simp
  qed
  have fin: "finite ?D" using b by (simp add: bounded_store_def finite_all_names)
  then have "finite (dom (dk_spaces d))" using sub by (rule finite_subset [rotated])
  then show dist: "distinct (h_order host (dk_spaces d))" and set: "set (h_order host (dk_spaces d)) = dom (dk_spaces d)"
    using b by (auto simp: bounded_store_def enumerates_def)
  have "length (h_order host (dk_spaces d)) = card (dom (dk_spaces d))"
    using dist set by (metis distinct_card)
  also have "\<dots> \<le> card ?D" by (rule card_mono [OF fin sub])
  finally show "length (h_order host (dk_spaces d)) \<le> MAX_DIRECTORY_SCAN_ENTRIES"
    using b by (simp add: bounded_store_def)
qed

lemma within_bound: "k + 1 \<le> MAX_ROLLBACK_MARKERS \<Longrightarrow>
    reject_excess_rollback_entries (sat_add k 1) = Ok () \<and> sat_add k 1 = k + 1"
  by (simp add: reject_excess_rollback_entries_def sat_add_exact MAX_ROLLBACK_MARKERS_def u64_max_num)

lemma owned_names:
  assumes fam: "tx_family host ts" and o: "owned ts d" and n: "dk_spaces d n \<noteq> None"
  shows "marker_id_from_name n \<noteq> None \<Longrightarrow> \<exists>t\<in>set ts. n = mk t"
    "temporary_id_from_name n \<noteq> None \<Longrightarrow> \<exists>t\<in>set ts. n = tmp t"
    "staging_id_from_name n \<noteq> None \<Longrightarrow> \<exists>t\<in>set ts. n = stg t"
proof -
  have "\<exists>t\<in>set ts. n \<in> tx_names t \<and> wf_tx host t" if "control n"
    using o n that fam by (auto simp: owned_def all_names_def tx_family_def)
  then show "marker_id_from_name n \<noteq> None \<Longrightarrow> \<exists>t\<in>set ts. n = mk t"
    "temporary_id_from_name n \<noteq> None \<Longrightarrow> \<exists>t\<in>set ts. n = tmp t"
    "staging_id_from_name n \<noteq> None \<Longrightarrow> \<exists>t\<in>set ts. n = stg t"
    by (fastforce simp: control_def dest: control_names)+
qed

lemma tx_name_ids:
  assumes "wf_tx host t"
  shows "marker_id_from_name (mk t) = Some (rm_transaction_id (tx_marker t))"
    "temporary_id_from_name (tmp t) = Some (rm_transaction_id (tx_marker t))"
    "staging_id_from_name (stg t) = Some (rm_transaction_id (tx_marker t))"
  using assms
  by (auto simp: marker_id_from_name_eq_Some temporary_id_from_name_eq_Some staging_id_from_name_eq_Some wf_tx_def)

lemma owned_store_state:
  assumes "owned ts d0" and "store_state host ts d0 d"
  shows "owned ts d"
  unfolding owned_def
proof (intro allI impI)
  fix n
  assume n: "dk_spaces d n \<noteq> None" "control n"
  show "n \<in> all_names ts"
  proof (rule ccontr)
    assume "n \<notin> all_names ts"
    moreover from this n(1) assms(2) have "dk_spaces d0 n \<noteq> None" by (auto simp: store_state_def)
    ultimately show False using assms(1) n(2) by (simp add: owned_def)
  qed
qed

lemma owned_remove: "owned ts d \<Longrightarrow> dk_spaces d' = (dk_spaces d)(n := None) \<Longrightarrow> owned ts d'"
  by (auto simp: owned_def split: if_splits)

lemma owned_step:
  assumes "owned ts d1" and "t \<in> set ts" and "tx_state host t d1 d"
  shows "owned ts d"
  unfolding owned_def
proof (intro allI impI)
  fix n
  assume "dk_spaces d n \<noteq> None" "control n"
  then show "n \<in> all_names ts"
    using assms tx_state_frame [OF assms(3), of n] by (cases "n \<in> tx_names t") (auto simp: owned_def all_names_def)
qed

subsection \<open>The temporaries are gone\<close>

definition temps_inv :: "store_host \<Rightarrow> rollback_tx list \<Rightarrow> disk \<Rightarrow> string list \<Rightarrow> nat \<Rightarrow> disk \<Rightarrow> bool" where
  "temps_inv host ts d0 xs removed d \<longleftrightarrow>
     store_state host ts d0 d \<and> owned ts d \<and> distinct xs \<and> set xs \<subseteq> dom (dk_spaces d) \<and>
     removed + length (filter (\<lambda>n. temporary_id_from_name n \<noteq> None) xs) \<le> MAX_ROLLBACK_MARKERS \<and>
     (\<forall>t\<in>set ts. dk_spaces d (tmp t) \<noteq> None \<longrightarrow> tmp t \<in> set xs)"

lemma runs_reclaim_temporary_entry:
  assumes fam: "tx_family host ts" and I: "temps_inv host ts d0 (x # xs) removed d"
  shows "runs (reclaim_temporary_entry host x removed) (\<lambda>r. temps_inv host ts d0 xs r) d"
proof (cases "temporary_id_from_name x")
  case None
  have "tmp t \<noteq> x" if "t \<in> set ts" for t
    using tx_name_ids(2) [of host t] fam that None by (auto simp: tx_family_def)
  with None I show ?thesis
    unfolding reclaim_temporary_entry_def by (auto simp: temps_inv_def intro!: runs_ret)
next
  case (Some i)
  have s: "store_state host ts d0 d" and o: "owned ts d" and x: "dk_spaces d x \<noteq> None" "x \<notin> set xs"
    using I by (auto simp: temps_inv_def)
  obtain t where t: "t \<in> set ts" "x = tmp t" using owned_names(2) [OF fam o x(1)] Some by auto
  have "tx_state host t d d" using s t by (simp add: store_state_def)
  then have "clean_tmp host t d" by cases (auto simp: slot_def)
  then obtain m b where f: "dk_spaces d x = Some (FileNode m b)" "private_file_stat (h_uid host) m"
    using x(1) t(2) by (auto simp: clean_tmp_def split: option.splits node.splits)
  have bound: "removed + 1 \<le> MAX_ROLLBACK_MARKERS" using I Some by (simp add: temps_inv_def)
  let ?d = "d\<lparr>dk_spaces := (dk_spaces d)(x := None)\<rparr>"
  have "store_state host ts d0 ?d" by (rule store_state_drop_temporary [OF fam s]) (use Some in auto)
  moreover have "owned ts ?d" by (rule owned_remove [OF o]) simp
  ultimately have "temps_inv host ts d0 xs (removed + 1) ?d"
    using I Some x by (auto simp: temps_inv_def split: if_splits)
  then show ?thesis
    unfolding reclaim_temporary_entry_def Some option.case
    using within_bound [OF bound] f
    by (auto intro!: runs_bind runs_lift runs_read_entry runs_remove_file runs_ret simp: validate_private_file_ok)
qed

lemma runs_reclaim_marker_temporaries:
  assumes fam: "tx_family host ts" and b: "bounded_store host ts d0" and s: "store_state host ts d0 d" and o: "owned ts d"
  shows "runs (reclaim_marker_temporaries host)
    (\<lambda>_ d'. store_state host ts d0 d' \<and> owned ts d' \<and> (\<forall>t\<in>set ts. dk_spaces d' (tmp t) = None)) d"
proof -
  note l = listing [OF b s]
  have "length (filter (\<lambda>n. temporary_id_from_name n \<noteq> None) (h_order host (dk_spaces d))) \<le> MAX_ROLLBACK_MARKERS"
    by (rule family_count [where ts = ts and f = "\<lambda>t. tmp t", OF l(1)])
      (use l(2) owned_names(2) [OF fam o] b in \<open>auto simp: bounded_store_def\<close>)
  then have "temps_inv host ts d0 (h_order host (dk_spaces d)) 0 d"
    using s o l by (auto simp: temps_inv_def)
  then have "runs (scan_directory host ''read rollback marker temporaries'' (reclaim_temporary_entry host) 0)
      (\<lambda>r. temps_inv host ts d0 [] r) d"
    by (rule runs_scan_directory [OF _ l(3)]) (rule runs_reclaim_temporary_entry [OF fam])
  then show ?thesis
    unfolding reclaim_marker_temporaries_def
    by (intro runs_bind) (auto elim!: runs_conseq simp: temps_inv_def intro!: runs_rules)
qed

subsection \<open>Every marker yields a plan\<close>

definition inventory_inv :: "store_host \<Rightarrow> disk \<Rightarrow> string list \<Rightarrow> inventory_scan \<Rightarrow> disk \<Rightarrow> bool" where
  "inventory_inv host d xs st d' \<longleftrightarrow>
     d' = d \<and> distinct xs \<and> set xs \<subseteq> dom (dk_spaces d) \<and> is_issues st = [] \<and>
     is_markers st + length (filter (\<lambda>n. marker_id_from_name n \<noteq> None) xs) \<le> MAX_ROLLBACK_MARKERS \<and>
     (\<forall>p\<in>set (is_plans st). plan_sound host d p \<and> rp_marker_path p \<notin> set xs) \<and>
     distinct (map rp_marker_path (is_plans st)) \<and>
     (\<forall>n. dk_spaces d n \<noteq> None \<longrightarrow> marker_id_from_name n \<noteq> None \<longrightarrow>
        n \<in> set xs \<or> n \<in> rp_marker_path ` set (is_plans st))"

lemma runs_read_marker: "marker_at host d name m \<Longrightarrow> Q m d \<Longrightarrow> runs (read_marker host name) Q d"
  unfolding read_marker_def marker_at_def by (auto intro!: runs_bind runs_read_entry runs_lift)

lemma runs_inventory_marker:
  assumes "marker_at host d name marker" and "validate_marker_components marker ident = Ok ()"
    and "decided host d marker a" and "Q (st\<lparr>is_plans := is_plans st @ [plan_for name marker a]\<rparr>) d"
  shows "runs (inventory_marker host None name ident st) Q d"
proof -
  have "runs (attempt (recovery_action host marker)) (\<lambda>decided. runs (case decided of
                  Inl error \<Rightarrow> ret (note_issue name (Some (rm_target marker)) error st)
                | Inr action \<Rightarrow> ret (st\<lparr>is_plans := is_plans st @ [plan_for name marker action]\<rparr>)) Q) d"
    by (intro runs_attempt runs_recovery_action [OF assms(3)]) (simp add: runs_ret assms(4))
  then show ?thesis
    unfolding inventory_marker_def using assms(2)
    by (intro runs_bind runs_attempt runs_read_marker [OF assms(1)]) (simp add: runs_bind)
qed

lemma runs_inventory_entry:
  assumes fam: "tx_family host ts" and s: "store_state host ts d0 d" and I: "inventory_inv host d (x # xs) st d'"
  shows "runs (inventory_entry host None x st) (inventory_inv host d xs) d'"
proof (cases "marker_id_from_name x")
  case None
  then have "n \<noteq> x" if "marker_id_from_name n \<noteq> None" for n using that by auto
  with I have rest: "n \<in> set xs \<or> n \<in> rp_marker_path ` set (is_plans st)"
    if "dk_spaces d n \<noteq> None" "marker_id_from_name n \<noteq> None" for n
    using that unfolding inventory_inv_def by (meson set_ConsD)
  have "inventory_inv host d xs st d'"
    unfolding inventory_inv_def
    by (intro conjI allI impI rest) (use I None in \<open>auto simp: inventory_inv_def\<close>)
  with None show ?thesis unfolding inventory_entry_def by (auto intro: runs_ret)
next
  case (Some i)
  have d': "d' = d" and x: "dk_spaces d x \<noteq> None" "x \<notin> set xs" using I by (auto simp: inventory_inv_def)
  from s Some x obtain t where t: "t \<in> set ts" "x = mk t" by (auto simp: store_state_def covered_def)
  have wf: "wf_tx host t" and tx: "tx_state host t d d" using fam s t by (auto simp: tx_family_def store_state_def)
  have i: "i = rm_transaction_id (tx_marker t)" using tx_name_ids(1) [OF wf] Some t by simp
  have "\<not> has_marker host t None d" using x t by (simp add: has_marker_def)
  with tx_state_decided [OF wf tx] obtain st' a where m: "marker_at host d x ((tx_marker t)\<lparr>rm_state := st'\<rparr>)"
    "decided host d ((tx_marker t)\<lparr>rm_state := st'\<rparr>) a" using t by auto
  have v: "validate_marker_components ((tx_marker t)\<lparr>rm_state := st'\<rparr>) i = Ok ()"
    using wf i by (simp add: wf_tx_def validate_marker_components_def Let_def)
  have bound: "is_markers st + 1 \<le> MAX_ROLLBACK_MARKERS" using I Some by (simp add: inventory_inv_def)
  let ?p = "plan_for x ((tx_marker t)\<lparr>rm_state := st'\<rparr>) a"
  have sound: "plan_sound host d ?p" by (rule plan_sound_plan_for [OF Some v m])
  have path: "rp_marker_path ?p = x" by (simp add: plan_for_def)
  have inv: "inventory_inv host d xs (st\<lparr>is_markers := is_markers st + 1, is_plans := is_plans st @ [?p]\<rparr>) d"
    using I Some sound x unfolding inventory_inv_def by (auto simp: path)
  have "runs (inventory_marker host None x i (st\<lparr>is_markers := is_markers st + 1\<rparr>)) (inventory_inv host d xs) d"
    by (rule runs_inventory_marker [OF m(1) v m(2)]) (use inv in simp)
  then show ?thesis
    unfolding inventory_entry_def Some option.case d'
    using within_bound [OF bound] by (intro runs_bind runs_lift [of _ "()"]) auto
qed

lemma no_adjacent_duplicates:
  "distinct (map (\<lambda>p. ro_target (rp_observation p)) ps) \<Longrightarrow> adjacent_duplicates ps = []"
  by (induction ps rule: adjacent_duplicates.induct) auto

lemma plans_distinct_targets:
  assumes fam: "tx_family host ts" and s: "store_state host ts d0 d"
    and sound: "\<forall>p\<in>set ps. plan_sound host d p" and dist: "distinct (map rp_marker_path ps)"
  shows "distinct (map (\<lambda>p. ro_target (rp_observation p)) ps)"
proof -
  have same: "rp_marker_path p = rp_marker_path q" if p: "p \<in> set ps" and q: "q \<in> set ps"
    and eq: "ro_target (rp_observation p) = ro_target (rp_observation q)" for p q
  proof -
    from plan_sound_fits [OF fam s] sound p q obtain t u where
      t: "t \<in> set ts" "ro_target (rp_observation p) = rm_target (tx_marker t)" "plan_fits host t d p d" and
      u: "u \<in> set ts" "ro_target (rp_observation q) = rm_target (tx_marker u)" "plan_fits host u d q d" by blast
    have "inj_on (\<lambda>t. tgt t) (set ts)" using fam by (simp add: tx_family_def distinct_map)
    then have "t = u" by (rule inj_onD) (use t(1,2) u(1,2) eq in auto)
    moreover have "rp_marker_path p = mk t" using t(3) by cases auto
    moreover have "rp_marker_path q = mk u" using u(3) by cases auto
    ultimately show ?thesis by simp
  qed
  have inj: "inj_on rp_marker_path (set ps)" and "distinct ps" using dist by (simp_all add: distinct_map)
  moreover have "inj_on (\<lambda>p. ro_target (rp_observation p)) (set ps)"
    by (rule inj_onI, rule inj_onD [OF inj same])
  ultimately show ?thesis by (simp add: distinct_map)
qed

lemma runs_load_recovery_inventory:
  assumes fam: "tx_family host ts" and b: "bounded_store host ts d0" and s: "store_state host ts d0 d" and o: "owned ts d"
  shows "runs (load_recovery_inventory host None) (\<lambda>i d'. d' = d \<and> plans_fit host ts (inv_plans i) d \<and> inv_issues i = [] \<and>
    (\<forall>t\<in>set ts. dk_spaces d (mk t) \<noteq> None \<longrightarrow> (\<exists>p\<in>set (inv_plans i). rp_marker_path p = mk t))) d"
proof -
  note l = listing [OF b s]
  have "length (filter (\<lambda>n. marker_id_from_name n \<noteq> None) (h_order host (dk_spaces d))) \<le> MAX_ROLLBACK_MARKERS"
    by (rule family_count [where ts = ts and f = "\<lambda>t. mk t", OF l(1)])
      (use l(2) owned_names(1) [OF fam o] b in \<open>auto simp: bounded_store_def\<close>)
  then have I: "inventory_inv host d (h_order host (dk_spaces d)) \<lparr>is_plans = [], is_issues = [], is_markers = 0\<rparr> d"
    using l by (auto simp: inventory_inv_def)
  have scan: "runs (scan_directory host ''read rollback markers'' (inventory_entry host None)
       \<lparr>is_plans = [], is_issues = [], is_markers = 0\<rparr>) (inventory_inv host d []) d"
    by (rule runs_scan_directory [where I = "\<lambda>xs st d'. inventory_inv host d xs st d'", OF I l(3)])
      (rule runs_inventory_entry [OF fam s])
  show ?thesis
    unfolding load_recovery_inventory_def Let_def
  proof (rule runs_bind, rule runs_conseq [OF scan])
    fix st d'
    assume I: "inventory_inv host d [] st d'"
    let ?ps = "sort_key (\<lambda>p. ro_target (rp_observation p)) (is_plans st)"
    have sound: "\<forall>p\<in>set ?ps. plan_sound host d p" using I by (simp add: inventory_inv_def)
    have dist: "distinct (map (\<lambda>p. ro_target (rp_observation p)) (is_plans st))"
      by (rule plans_distinct_targets [OF fam s]) (use I in \<open>auto simp: inventory_inv_def\<close>)
    then have dist': "distinct (map (\<lambda>p. ro_target (rp_observation p)) ?ps)"
      by (simp add: distinct_map)
    then have "reject_duplicate_targets ?ps (is_issues st) = (?ps, [])"
      using I no_adjacent_duplicates [OF dist'] by (simp add: reject_duplicate_targets_def inventory_inv_def)
    moreover have "plans_fit host ts ?ps d"
      using dist' sound plan_sound_fits [OF fam s] by (simp add: plans_fit_def)
    moreover have "\<exists>p\<in>set ?ps. rp_marker_path p = mk t" if "t \<in> set ts" "dk_spaces d (mk t) \<noteq> None" for t
    proof -
      have "marker_id_from_name (mk t) \<noteq> None" using tx_name_ids(1) fam that(1) by (auto simp: tx_family_def)
      then have "mk t \<in> rp_marker_path ` set (is_plans st)" using I that(2) by (auto simp: inventory_inv_def)
      then show ?thesis by auto
    qed
    ultimately show "runs (case reject_duplicate_targets ?ps (is_issues st) of
        (plans, issues) \<Rightarrow> ret \<lparr>inv_plans = plans, inv_issues = sort_key ri_marker issues\<rparr>)
      (\<lambda>i d'. d' = d \<and> plans_fit host ts (inv_plans i) d \<and> inv_issues i = [] \<and>
        (\<forall>t\<in>set ts. dk_spaces d (mk t) \<noteq> None \<longrightarrow> (\<exists>p\<in>set (inv_plans i). rp_marker_path p = mk t))) d'"
      using I by (auto simp: inventory_inv_def intro!: runs_ret)
  qed
qed

subsection \<open>Every plan is carried out\<close>

definition plans_inv :: "store_host \<Rightarrow> rollback_tx list \<Rightarrow> disk \<Rightarrow> recovery_plan list \<Rightarrow> disk \<Rightarrow> bool" where
  "plans_inv host ts d0 ps d \<longleftrightarrow>
     store_state host ts d0 d \<and> owned ts d \<and> plans_fit host ts ps d \<and>
     (\<forall>t\<in>set ts. dk_spaces d (tmp t) = None \<and>
        (dk_spaces d (mk t) \<noteq> None \<longrightarrow> (\<exists>p\<in>set ps. rp_marker_path p = mk t)))"

lemma runs_apply_next:
  assumes fam: "tx_family host ts" and I: "plans_inv host ts d0 (p # ps) d"
  shows "runs (apply_recovery_plan host p rc) (\<lambda>_. plans_inv host ts d0 ps) d"
proof -
  have s: "store_state host ts d0 d" and o: "owned ts d" and fit: "plans_fit host ts (p # ps) d"
    using I by (auto simp: plans_inv_def)
  from fit obtain t where t: "t \<in> set ts" "ro_target (rp_observation p) = rm_target (tx_marker t)"
    and pf: "plan_fits host t d p d" by (auto simp: plans_fit_def)
  have wf: "wf_tx host t" using fam t(1) by (simp add: tx_family_def)
  have path: "rp_marker_path p = mk t" using pf by cases auto
  have "dk_spaces d (tmp t) = None" using I t(1) by (simp add: plans_inv_def)
  from runs_wp [OF runs_apply_recovery_plan [OF wf pf this] triple_wp [OF triple_apply_recovery_plan [OF wf] pf]]
  show ?thesis
  proof (rule runs_conseq)
    fix d'
    assume "dk_spaces d' (tmp t) = None \<and> resolved host t d d'"
    then have tmp: "dk_spaces d' (tmp t) = None" and res: "resolved host t d d'" by auto
    have tx: "tx_state host t d d'" by (rule resolved_state [OF res])
    have "dk_spaces d' (tmp u) = None \<and> (dk_spaces d' (mk u) \<noteq> None \<longrightarrow> (\<exists>p\<in>set ps. rp_marker_path p = mk u))"
      if u: "u \<in> set ts" for u
    proof (cases "u = t")
      case True
      then show ?thesis using tmp res by (auto simp: resolved_def slot_def has_marker_def)
    next
      case False
      have "tx_names t \<inter> tx_names u = {}" using family_disjoint [OF fam t(1) u] False by blast
      then have "dk_spaces d' n = dk_spaces d n" if "n \<in> tx_names u" for n
        using tx_state_frame [OF tx, of n] that by blast
      then have "dk_spaces d' (tmp u) = dk_spaces d (tmp u)" "dk_spaces d' (mk u) = dk_spaces d (mk u)"
        by (simp_all add: tx_names_def)
      moreover have "mk t \<noteq> mk u" using \<open>tx_names t \<inter> tx_names u = {}\<close> by (auto simp: tx_names_def)
      ultimately show ?thesis using I u path by (auto simp: plans_inv_def)
    qed
    then show "plans_inv host ts d0 ps d'"
      using store_state_step [OF fam t(1) s tx] owned_step [OF o t(1) tx] plans_fit_step [OF fam fit t tx]
      by (simp add: plans_inv_def)
  qed
qed

lemma runs_recover_plans:
  assumes fam: "tx_family host ts" and I: "plans_inv host ts d0 ps d"
  shows "runs (recover_plans host ps) (\<lambda>st d'. plans_inv host ts d0 [] d' \<and> snd st = map rp_observation ps) d"
proof -
  define J where "J xs (st :: nat list \<times> rollback_observation list) d' \<longleftrightarrow> plans_inv host ts d0 xs d' \<and>
    snd st @ map rp_observation xs = map rp_observation ps" for xs st d'
  have "runs (recover_plans host ps) (J []) d"
    unfolding recover_plans_def
  proof (rule runs_iterate)
    fix p xs d and st :: "nat list \<times> rollback_observation list"
    assume J: "J (p # xs) st d"
    have "runs (apply_recovery_plan host p (fst st)) (\<lambda>_. plans_inv host ts d0 xs) d"
      by (rule runs_apply_next [OF fam]) (use J in \<open>simp add: J_def\<close>)
    then show "runs (bind_io (apply_recovery_plan host p (fst st)) (\<lambda>reclaiming. ret (reclaiming, snd st @ [rp_observation p])))
        (J xs) d"
      by (intro runs_bind) (rule runs_conseq, assumption, use J in \<open>auto simp: J_def intro!: runs_ret\<close>)
  qed (use I in \<open>simp add: J_def\<close>)
  then show ?thesis by (rule runs_conseq) (simp add: J_def)
qed

subsection \<open>Staging is reclaimed\<close>

definition orphans_inv ::
  "store_host \<Rightarrow> rollback_tx list \<Rightarrow> disk \<Rightarrow> string list \<Rightarrow> nat \<times> nat list \<Rightarrow> disk \<Rightarrow> bool" where
  "orphans_inv host ts d0 xs st d \<longleftrightarrow>
     store_state host ts d0 d \<and> owned ts d \<and> distinct xs \<and> set xs \<subseteq> dom (dk_spaces d) \<and>
     fst st + length (filter (\<lambda>n. staging_id_from_name n \<noteq> None) xs) \<le> MAX_ROLLBACK_MARKERS \<and>
     (\<forall>t\<in>set ts. dk_spaces d (tmp t) = None \<and> dk_spaces d (mk t) = None \<and>
        (dk_spaces d (stg t) \<noteq> None \<longrightarrow> stg t \<in> set xs))"

lemma unmarked_stageable:
  assumes "tx_state host t d d" and "dk_spaces d (mk t) = None" and "dk_spaces d (stg t) = Some e"
  shows "stageable host e"
  using assms by cases (auto simp: slot_def has_marker_def Let_def)

lemma stageable_free:
  assumes "stageable host e" and "\<not> held name"
  shows "rbind (validate_private_dir (h_uid host) (node_stat e)) (\<lambda>_. staging_lock_free host held name e) = Ok True"
proof -
  from assms(1) obtain n where e: "e = DirNode n" and p: "private_dir_stat (h_uid host) (dn_stat n)"
    and l: "case dn_files n CREATION_LOCK_FILE of None \<Rightarrow> True | Some (m, _) \<Rightarrow> private_file_stat (h_uid host) m"
    by (auto simp: stageable_def)
  have "validate_private_dir (h_uid host) (dn_stat n) = Ok ()" using p by (simp add: validate_private_dir_ok)
  moreover have "staging_lock_free host held name (DirNode n) = Ok True"
  proof (cases "dn_files n CREATION_LOCK_FILE")
    case None
    then show ?thesis by (simp add: staging_lock_free_def inner_stat_def)
  next
    case (Some f)
    obtain m b where f: "f = (m, b)" by (cases f)
    then have "validate_private_file (h_uid host) m = Ok ()" using l Some by (simp add: validate_private_file_ok)
    then show ?thesis using Some f assms(2) by (simp add: staging_lock_free_def inner_stat_def open_private_lock_def)
  qed
  ultimately show ?thesis by (simp add: e)
qed

lemma runs_orphan_staging_entry:
  assumes fam: "tx_family host ts" and free: "\<And>t. t \<in> set ts \<Longrightarrow> \<not> held (stg t)"
    and I: "orphans_inv host ts d0 (x # xs) st d"
  shows "runs (orphan_staging_entry host held x st) (orphans_inv host ts d0 xs) d"
proof (cases "staging_id_from_name x")
  case None
  have "stg t \<noteq> x" if "t \<in> set ts" for t
    using tx_name_ids(3) [of host t] fam that None by (auto simp: tx_family_def)
  with None I show ?thesis
    unfolding orphan_staging_entry_def by (auto simp: orphans_inv_def intro!: runs_ret)
next
  case (Some i)
  have s: "store_state host ts d0 d" and o: "owned ts d" and x: "dk_spaces d x \<noteq> None" "x \<notin> set xs"
    using I by (auto simp: orphans_inv_def)
  obtain t where t: "t \<in> set ts" "x = stg t" using owned_names(3) [OF fam o x(1)] Some by auto
  have wf: "wf_tx host t" and tx: "tx_state host t d d" using s t fam by (auto simp: store_state_def tx_family_def)
  have i: "artifact_id_as_str i = tx_id t" using tx_name_ids(3) [OF wf] Some t by simp
  have m: "dk_spaces d (mk t) = None" using I t(1) by (simp add: orphans_inv_def)
  obtain e where e: "dk_spaces d x = Some e" using x by auto
  have chk: "rbind (validate_private_dir (h_uid host) (node_stat e)) (\<lambda>_. staging_lock_free host held x e) = Ok True"
    by (rule stageable_free) (use unmarked_stageable [OF tx m] e t free in auto)
  have bound: "fst st + 1 \<le> MAX_ROLLBACK_MARKERS" using I Some by (simp add: orphans_inv_def)
  have inv: "orphans_inv host ts d0 xs (fst st + 1, rc) d'" if d': "dk_spaces d' = (dk_spaces d)(x := None)" for d' rc
  proof -
    have "store_state host ts d0 d'"
      by (rule store_state_drop_staging [OF fam s Some _ d']) (simp add: i m)
    then show ?thesis
      using I Some x d' owned_remove [OF o d'] by (auto simp: orphans_inv_def split: if_splits)
  qed
  have retire: "runs (bind_io (retire_recovery_path x rc) (\<lambda>reclaiming. ret (fst st + 1, reclaiming)))
      (orphans_inv host ts d0 xs) d" for rc
    by (intro runs_bind runs_retire_recovery_path [OF e] runs_ret inv)
  have w: "sat_add (fst st) 1 = fst st + 1" "reject_excess_rollback_entries (fst st + 1) = Ok ()"
    using within_bound [OF bound] by auto
  show ?thesis
    unfolding orphan_staging_entry_def Some option.case i Let_def w(1) fst_conv snd_conv
  proof (intro runs_bind runs_lift [OF w(2)] runs_path_exists)
    show "runs (if case dk_spaces d (mk t) of None \<Rightarrow> False | Some (LinkNode _ resolves) \<Rightarrow> resolves | Some _ \<Rightarrow> True
       then ret (fst st + 1, snd st)
       else bind_io (read_entry ''inspect rollback staging'' x) (\<lambda>e.
            bind_io (lift (case e of None \<Rightarrow> Err SystemError ''inspect rollback staging''
             | Some n \<Rightarrow> rbind (validate_private_dir (h_uid host) (node_stat n)) (\<lambda>_. staging_lock_free host held x n))) (\<lambda>free.
            if \<not> free then ret (fst st + 1, snd st)
            else bind_io (retire_recovery_path x (snd st)) (\<lambda>reclaiming. ret (fst st + 1, reclaiming)))))
       (orphans_inv host ts d0 xs) d"
      using m e chk retire
      by (simp, intro runs_bind runs_read_entry runs_lift [of _ True]) auto
  qed
qed

lemma runs_reclaim_orphan_staging:
  assumes fam: "tx_family host ts" and b: "bounded_store host ts d0" and free: "\<And>t. t \<in> set ts \<Longrightarrow> \<not> held (stg t)"
    and I: "plans_inv host ts d0 [] d"
  shows "runs (reclaim_orphan_staging host held rc) (\<lambda>r d'. \<exists>st. orphans_inv host ts d0 [] st d') d"
proof -
  have s: "store_state host ts d0 d" and o: "owned ts d" using I by (auto simp: plans_inv_def)
  note l = listing [OF b s]
  have "length (filter (\<lambda>n. staging_id_from_name n \<noteq> None) (h_order host (dk_spaces d))) \<le> MAX_ROLLBACK_MARKERS"
    by (rule family_count [where ts = ts and f = "\<lambda>t. stg t", OF l(1)])
      (use l(2) owned_names(3) [OF fam o] b in \<open>auto simp: bounded_store_def\<close>)
  then have "orphans_inv host ts d0 (h_order host (dk_spaces d)) (0, rc) d"
    using I l by (auto simp: orphans_inv_def plans_inv_def)
  then have "runs (scan_directory host ''read rollback staging'' (orphan_staging_entry host held) (0, rc))
      (\<lambda>st. orphans_inv host ts d0 [] st) d"
    by (rule runs_scan_directory [OF _ l(3)]) (rule runs_orphan_staging_entry [where held = held, OF fam free])
  then show ?thesis
    unfolding reclaim_orphan_staging_def by (intro runs_bind) (auto elim!: runs_conseq intro!: runs_ret)
qed

lemma orphans_resolved:
  assumes I: "orphans_inv host ts d0 [] st d" and t: "t \<in> set ts"
  shows "resolved host t d d" "dk_spaces d (tmp t) = None"
proof -
  have tx: "tx_state host t d d" and m: "dk_spaces d (mk t) = None" and g: "dk_spaces d (stg t) = None"
    using I t by (auto simp: orphans_inv_def store_state_def)
  from tx show "resolved host t d d"
  proof cases
    case (tx_untouched S)
    then have "S = None" using g by (simp add: slot_def)
    with tx_untouched show ?thesis by (simp add: resolved_def)
  qed (use m in \<open>auto simp: resolved_def slot_def has_marker_def Let_def\<close>)
  show "dk_spaces d (tmp t) = None" using I t by (simp add: orphans_inv_def)
qed

subsection \<open>The whole run\<close>

lemma runs_remove_trees:
  assumes "\<And>d'. dk_spaces d' = dk_spaces d \<Longrightarrow> Q () d'"
  shows "runs (iterate (\<lambda>path _. remove_tree_restoring_owner_access path) paths ()) Q d"
proof -
  have "runs (iterate (\<lambda>path _. remove_tree_restoring_owner_access path) paths ()) (\<lambda>_ d'. dk_spaces d' = dk_spaces d) d"
    by (rule runs_iterate [where I = "\<lambda>_ _ d'. dk_spaces d' = dk_spaces d"])
      (auto intro: runs_remove_tree)
  then show ?thesis by (rule runs_conseq) (use assms in auto)
qed

lemma runs_recover_rollbacks:
  assumes fam: "tx_family host ts" and b: "bounded_store host ts d0" and s: "store_state host ts d0 d" and o: "owned ts d"
    and free: "\<And>t. t \<in> set ts \<Longrightarrow> \<not> held (stg t)"
  shows "runs (recover_rollbacks host held) (\<lambda>_ d'.
    (\<forall>t\<in>set ts. resolved host t d' d' \<and> dk_spaces d' (tmp t) = None) \<and> store_state host ts d0 d') d"
proof -
  let ?Q = "\<lambda>d'. (\<forall>t\<in>set ts. resolved host t d' d' \<and> dk_spaces d' (tmp t) = None) \<and> store_state host ts d0 d'"
  have "?Q d'" if I: "orphans_inv host ts d0 [] st x" and d': "dk_spaces d' = dk_spaces x" for st x d'
  proof (intro conjI ballI)
    show "resolved host t d' d'" "dk_spaces d' (tmp t) = None" if "t \<in> set ts" for t
      using resolved_local [OF orphans_resolved(1) [OF I that]] orphans_resolved(2) [OF I that] d' by auto
    show "store_state host ts d0 d'"
      using I d' by (auto simp: orphans_inv_def intro: store_state_trash)
  qed
  then have tail: "runs (bind_io sync_directory (\<lambda>_. bind_io sync_directory (\<lambda>_.
      bind_io (iterate (\<lambda>path _. remove_tree_restoring_owner_access path) paths ()) (\<lambda>_.
      bind_io sync_directory (\<lambda>_. ret obs))))) (\<lambda>_. ?Q) x"
    if "orphans_inv host ts d0 [] st x" for paths st x and obs :: "rollback_observation list"
    using that by (intro runs_bind runs_sync_directory runs_remove_trees runs_ret) blast
  have orphans: "runs (bind_io (reclaim_orphan_staging host held rc) (\<lambda>reclaiming.
      bind_io sync_directory (\<lambda>_. bind_io sync_directory (\<lambda>_.
      bind_io (iterate (\<lambda>path _. remove_tree_restoring_owner_access path) reclaiming ()) (\<lambda>_.
      bind_io sync_directory (\<lambda>_. ret obs)))))) (\<lambda>_. ?Q) x"
    if "plans_inv host ts d0 [] x" for rc x and obs :: "rollback_observation list"
    by (rule runs_bind, rule runs_conseq [OF runs_reclaim_orphan_staging [where held = held, OF fam b free that]]) (auto intro: tail)
  have plans: "plans_inv host ts d0 (inv_plans i) x"
    if "store_state host ts d0 x \<and> owned ts x \<and> (\<forall>t\<in>set ts. dk_spaces x (tmp t) = None)"
      "plans_fit host ts (inv_plans i) x"
      "\<forall>t\<in>set ts. dk_spaces x (mk t) \<noteq> None \<longrightarrow> (\<exists>p\<in>set (inv_plans i). rp_marker_path p = mk t)" for i x
    using that by (simp add: plans_inv_def)
  show ?thesis
    unfolding recover_rollbacks_def
  proof (rule runs_bind, rule runs_conseq [OF runs_reclaim_marker_temporaries [OF fam b s o]])
    fix x
    assume x: "store_state host ts d0 x \<and> owned ts x \<and> (\<forall>t\<in>set ts. dk_spaces x (tmp t) = None)"
    show "runs (bind_io (load_recovery_inventory host None) (\<lambda>inventory.
       bind_io (recover_plans host (inv_plans inventory)) (\<lambda>st.
       bind_io (reclaim_orphan_staging host held (fst st)) (\<lambda>reclaiming.
       bind_io sync_directory (\<lambda>_. bind_io sync_directory (\<lambda>_.
       bind_io (iterate (\<lambda>path _. remove_tree_restoring_owner_access path) reclaiming ()) (\<lambda>_.
       bind_io sync_directory (\<lambda>_. ret (snd st))))))))) (\<lambda>_. ?Q) x"
    proof (rule runs_bind, rule runs_conseq [OF runs_load_recovery_inventory [OF fam b]])
      fix i y
      assume y: "y = x \<and> plans_fit host ts (inv_plans i) x \<and> inv_issues i = [] \<and>
        (\<forall>t\<in>set ts. dk_spaces x (mk t) \<noteq> None \<longrightarrow> (\<exists>p\<in>set (inv_plans i). rp_marker_path p = mk t))"
      then have "plans_inv host ts d0 (inv_plans i) y" using plans [OF x] by blast
      then show "runs (bind_io (recover_plans host (inv_plans i)) (\<lambda>st.
         bind_io (reclaim_orphan_staging host held (fst st)) (\<lambda>reclaiming.
         bind_io sync_directory (\<lambda>_. bind_io sync_directory (\<lambda>_.
         bind_io (iterate (\<lambda>path _. remove_tree_restoring_owner_access path) reclaiming ()) (\<lambda>_.
         bind_io sync_directory (\<lambda>_. ret (snd st)))))))) (\<lambda>_. ?Q) y"
        by (intro runs_bind [OF runs_conseq [OF runs_recover_plans [OF fam]]]) (auto intro: orphans)
    qed (use x in auto)
  qed
qed

end
