(* ===== verification/Rollback_Properties.thy ===== *)
theory Rollback_Properties
  imports Rollback_Completion
begin

text \<open>
  The guarantees of the rollback transaction, and one concrete store on which their hypotheses
  hold.
\<close>

subsection \<open>A sample store\<close>

definition rb_id :: artifact_id where "rb_id = ArtifactId (replicate 32 (CHR ''a''))"
definition rb_name :: space_name where "rb_name = SpaceName ''work''"

definition rb_manifest :: space_manifest where
  "rb_manifest =
     \<lparr>sm_schema_version = 3, sm_layout = Some Profile, sm_space_id = Some (SpaceId (replicate 32 (CHR ''b''))),
      sm_name = rb_name, sm_created_unix_ms = 7, sm_default_shell = ''/bin/sh'',
      sm_authority_model = ''host-account-state-profile''\<rparr>"

definition rb_space :: space where
  "rb_space = \<lparr>sp_root = ''work'', sp_manifest = rb_manifest\<rparr>"

definition dir_stat :: "nat \<Rightarrow> file_stat" where
  "dir_stat ino =
     \<lparr>st_dev = 0, st_ino = ino, st_uid = 0, st_gid = 0, st_mode = 16832, st_nlink = 2, st_size = 0,
      st_mtime = 0, st_mtime_nsec = 0, st_ctime = 0, st_ctime_nsec = 0\<rparr>"

definition rb_dir :: "nat \<Rightarrow> dir_node" where
  "rb_dir ino =
     \<lparr>dn_stat = dir_stat ino, dn_home = SysOk (dir_stat (ino + 1)),
      dn_files = [ACTIVE_FILE \<mapsto> (created_stat 0 1 0, []), MANIFEST_FILE \<mapsto> (created_stat 0 2 1, ''m'')]\<rparr>"

definition rb_staged :: dir_node where
  "rb_staged = (rb_dir 20)\<lparr>dn_files := (dn_files (rb_dir 20))(CREATION_LOCK_FILE \<mapsto> (created_stat 0 3 0, []))\<rparr>"

definition rb_artifact :: artifact_manifest where
  "rb_artifact =
     \<lparr>am_schema_version = 3, am_artifact_id = rb_id, am_kind = Snapshot, am_name = ArtifactName ''before'',
      am_created_unix_ms = 8, am_source_identity = Some (source_identity_for_space rb_space),
      am_source_layout = Profile, am_source_platform = ''linux'', am_default_shell = ''/bin/sh'', am_include_cache = True,
      am_includes_sensitive_state = True, am_origin = OriginUser, am_imported_bundle = None,
      am_source_quiescence = Some Inactive,
      am_content_integrity = \<lparr>ci_algorithm = INTEGRITY_ALGORITHM, ci_digest = [], ci_counts = counts_default\<rparr>\<rparr>"

definition rb_marker :: rollback_marker where
  "rb_marker = publication_marker rb_space rb_artifact rb_id rb_id"

definition rb_host :: store_host where
  "rb_host =
     \<lparr>h_uid = 0, h_json = \<lparr>mj_header = \<lambda>_. Some 3, mj_manifest = \<lambda>_. Some rb_manifest\<rparr>,
      h_marker_bytes = (\<lambda>m. marker_state_text (rm_state m)),
      h_marker_parse = (\<lambda>b. if b = ''prepared'' then Some (rb_marker\<lparr>rm_state := Prepared\<rparr>)
         else if b = ''retired'' then Some (rb_marker\<lparr>rm_state := Retired\<rparr>)
         else Some (rb_marker\<lparr>rm_state := Published\<rparr>)),
      h_rename_bytes = (\<lambda>_. []), h_rename_parse = (\<lambda>_. None), h_manifest_bytes = (\<lambda>_. []),
      h_freeze_header = (\<lambda>_. None), h_freeze_parse = (\<lambda>_. None), h_freeze_bytes = (\<lambda>_. []),
      h_order = (\<lambda>m. sorted_list_of_set (dom m))\<rparr>"

definition rb_tx :: rollback_tx where
  "rb_tx = \<lparr>tx_marker = rb_marker, tx_old = DirNode (rb_dir 10),
     tx_new = DirNode (rb_staged\<lparr>dn_files := (dn_files rb_staged)(CREATION_LOCK_FILE := None)\<rparr>)\<rparr>"

definition rb_disk :: disk where
  "rb_disk =
     \<lparr>dk_spaces = [''work'' \<mapsto> DirNode (rb_dir 10), stg rb_tx \<mapsto> DirNode rb_staged,
        ''other'' \<mapsto> DirNode (rb_dir 30)], dk_trash = [], dk_next = 100\<rparr>"

lemma dir_stat_private [simp]: "private_dir_stat 0 (dir_stat i)"
  by (simp add: private_dir_stat_def dir_stat_def s_kind_def S_IFMT_def S_IFDIR_def mode_bits_mod)

lemma rb_manifest_valid: "validate_stored_manifest rb_manifest = Ok ()"
  by (simp add: validate_stored_manifest_ok validate_manifest_layout_def rb_manifest_def schema_versions
      u64_max_num is_absolute_def starts_with_def Let_def)

lemma rb_file_valid: "validate_private_file 0 (created_stat 0 i n) = Ok ()"
  by (simp add: validate_private_file_ok)

lemma rb_dir_valid: "validate_private_dir 0 (dir_stat i) = Ok ()"
  by (simp add: validate_private_dir_ok)

lemma rb_opens:
  "open_node rb_host ''work'' (Some (DirNode (rb_dir i))) ''work'' = Ok rb_space"
proof -
  let ?d = "as_space_dir (DirNode (rb_dir i))"
  have lock: "open_private_lock 0 (sd_active ?d) = Ok ()"
    using rb_file_valid by (simp add: rb_dir_def inner_stat_def open_private_lock_def)
  have "validate_space_anchors 0 ?d = Ok ()"
    using lock by (simp add: validate_space_anchors_def validate_removal_anchors_def rb_dir_def rb_dir_valid)
  moreover have "read_private_file 0 (sd_manifest ?d) = Ok ''m''"
    by (simp add: rb_dir_def read_private_file_quiet MAX_MANIFEST_BYTES_def)
  then have "read_validated_manifest (h_json rb_host) 0 ?d ''work'' = Ok rb_manifest"
    by (simp add: read_validated_manifest_def rb_host_def rb_manifest_valid SUPPORTED_SCHEMA_VERSIONS_def
        schema_versions) (simp add: rb_manifest_def rb_name_def)
  ultimately show ?thesis
    by (simp add: open_node_def open_path_ok rb_space_def rb_host_def)
qed

lemma rb_names:
  "rm_transaction_id rb_marker = rb_id" "rm_target rb_marker = rb_name"
  "rm_state rb_marker = Prepared" "rm_schema_version rb_marker = MARKER_SCHEMA_VERSION"
  "rm_staging_entry rb_marker = staging_name (artifact_id_as_str rb_id)"
  "rm_retired_entry rb_marker = retired_name (artifact_id_as_str rb_id)"
  "rm_target_identity rb_marker = source_identity_for_space rb_space"
  by (simp_all add: rb_marker_def publication_marker_def rb_space_def rb_manifest_def)

lemma rb_id_hex: "hex_id_grammar (artifact_id_as_str rb_id)"
  by (simp add: rb_id_def hex_id_grammar_def list_all_iff is_lower_hex_def ascii_defs)

lemma rb_new: "tx_new rb_tx = DirNode (rb_dir 20)"
  by (simp add: rb_tx_def rb_staged_def rb_dir_def fun_upd_idem)

lemma rb_wf: "wf_tx rb_host rb_tx"
proof -
  have "is_target_space rb_host rb_marker (DirNode (rb_dir i))" for i
    using rb_opens [of i] source_identity_matches_self [of rb_space]
    by (auto simp: is_target_space_def rb_names rb_name_def)
  moreover have "portable_name_grammar ''work''"
    by (simp add: portable_name_grammar_def ascii_defs)
  moreover have "marker_codec rb_host rb_marker"
    unfolding marker_codec_def
  proof
    fix st
    show "h_marker_parse rb_host (h_marker_bytes rb_host (rb_marker\<lparr>rm_state := st\<rparr>)) =
        Some (rb_marker\<lparr>rm_state := st\<rparr>) \<and>
      length (h_marker_bytes rb_host (rb_marker\<lparr>rm_state := st\<rparr>)) \<le> MAX_MANIFEST_BYTES"
      by (cases st) (simp_all add: rb_host_def MAX_MANIFEST_BYTES_def)
  qed
  ultimately show ?thesis
    using rb_id_hex rb_new
    by (simp add: wf_tx_def rb_tx_def rb_names rb_name_def validate_marker_components_def)
qed

lemma rb_stageable: "stageable rb_host (DirNode rb_staged)"
  by (simp add: stageable_def rb_staged_def rb_dir_def rb_host_def)

lemma rb_ready: "ready rb_host rb_space rb_artifact rb_id rb_id rb_tx rb_staged"
  using rb_wf rb_stageable by (simp add: ready_def) (simp add: rb_tx_def rb_marker_def)

lemma rb_tx_names:
  "tgt rb_tx = ''work''" "tx_old rb_tx = DirNode (rb_dir 10)" "tx_id rb_tx = replicate 32 (CHR ''a'')"
  by (simp_all add: rb_tx_def rb_names rb_name_def rb_id_def)

lemma rb_entries:
  "dk_spaces rb_disk (mk rb_tx) = None" "dk_spaces rb_disk (tmp rb_tx) = None"
  "dk_spaces rb_disk (rtd rb_tx) = None" "dk_spaces rb_disk ''work'' = Some (DirNode (rb_dir 10))"
  "dk_spaces rb_disk (stg rb_tx) = Some (DirNode rb_staged)"
  by (simp_all add: rb_disk_def rb_tx_names rollback_marker_name_def marker_temporary_name_def retired_name_def
      staging_name_def)

lemma rb_slot: "slot rb_host rb_tx rb_disk None (Some (tx_old rb_tx)) (Some (DirNode rb_staged)) None rb_disk"
  using rb_entries rb_tx_names(1,2) by (simp add: slot_def has_marker_def clean_tmp_def)

lemma rb_family: "tx_family rb_host [rb_tx]"
  using rb_wf by (simp add: tx_family_def)

lemma rb_control: "\<not> control ''work''" "\<not> control ''other''"
  by (simp_all add: control_def marker_id_from_name_def temporary_id_from_name_def staging_id_from_name_def
      strip_prefix_def starts_with_def parse_id_def)

lemma rb_covered: "owned [rb_tx] rb_disk" "covered [rb_tx] rb_disk"
proof -
  have "n \<in> all_names [rb_tx]" if "dk_spaces rb_disk n \<noteq> None" "control n" for n
    using that rb_control by (auto simp: rb_disk_def all_names_def tx_names_def split: if_splits)
  then show "owned [rb_tx] rb_disk" by (simp add: owned_def)
  have "marker_id_from_name n = None" if n: "dk_spaces rb_disk n \<noteq> None" for n
  proof (rule ccontr)
    assume m: "marker_id_from_name n \<noteq> None"
    then have "n = ''work'' \<or> n = ''other'' \<or> n = stg rb_tx"
      using n by (auto simp: rb_disk_def split: if_splits)
    moreover have "n \<noteq> ''work''" "n \<noteq> ''other''" using m rb_control by (auto simp: control_def)
    ultimately have "stg rb_tx = mk rb_tx"
      using control_names(1) [OF rb_wf _ m] by (auto simp: tx_names_def)
    then show False using tx_names_distinct(2) [OF rb_wf] by simp
  qed
  then show "covered [rb_tx] rb_disk" by (auto simp: covered_def)
qed

lemma rb_store_state: "store_state rb_host [rb_tx] rb_disk rb_disk"
  using tx_untouched [OF rb_slot] rb_stageable rb_covered(2) by (simp add: store_state_def)

lemma rb_bounded: "bounded_store rb_host [rb_tx] rb_disk"
proof -
  have dom: "dom (dk_spaces rb_disk) = {''work'', stg rb_tx, ''other''}" by (auto simp: rb_disk_def)
  have all: "all_names [rb_tx] = {mk rb_tx, tmp rb_tx, stg rb_tx, rtd rb_tx, tgt rb_tx}"
    by (simp add: all_names_def tx_names_def)
  have "card (set [''work'', stg rb_tx, ''other'', mk rb_tx, tmp rb_tx, stg rb_tx, rtd rb_tx, tgt rb_tx])
      \<le> 8" by (rule order.trans [OF card_length]) simp
  then have "card (dom (dk_spaces rb_disk) \<union> all_names [rb_tx]) \<le> MAX_DIRECTORY_SCAN_ENTRIES"
    by (simp add: dom all MAX_DIRECTORY_SCAN_ENTRIES_def insert_commute)
  then show ?thesis
    using dom by (simp add: bounded_store_def enumerates_def rb_host_def MAX_ROLLBACK_MARKERS_def)
qed

subsection \<open>Publication\<close>

text \<open>
  C7: Publication is atomic with respect to faults. Whatever system call of \<open>publish_rollback\<close> fails and wherever the
  process stops, the five entries of the transaction are in one of six states: the old space
  still in place, the old space set aside with the staged tree waiting, or the new tree in place,
  each with a marker in which recovery finds a definite action (or none when nothing is left to
  do); no other entry changes; and a normal return means that the new tree is in place and that
  marker, staging and retired tree are gone.\<close>

theorem rollback_publication_is_atomic:
  assumes "ready host target snapshot transaction_id recovery_id t n"
    and "slot host t d None (Some (tx_old t)) (Some (DirNode n)) None d"
    and "publish_rollback host target snapshot now ident transaction_id recovery_id (d, script) = (r, d', rest)"
  shows "tx_state host t d d' \<and> (r = Done () \<longrightarrow> slot host t d None (Some (tx_new t)) None None d')"
proof -
  have "post (\<lambda>_. slot host t d None (Some (tx_new t)) None None) (\<lambda>_. tx_state host t d) (tx_state host t d) r d'"
    using wp_run [OF triple_wp [OF triple_publish_rollback [OF assms(1)] assms(2)] _ assms(3), of "\<lambda>_. True"]
    by (simp add: list_all_iff)
  then show ?thesis by (cases r) (auto intro: tx_finished)
qed

theorem rollback_publication_is_atomic_witness:
  "tx_state rb_host rb_tx rb_disk
     (fst (snd (publish_rollback rb_host rb_space rb_artifact (Ok rb_artifact)
        \<lparr>sg_root = path_identity_from_metadata (dir_stat 20), sg_lock = path_identity_from_metadata (created_stat 0 3 0)\<rparr>
        rb_id rb_id (rb_disk, [Go, Go, Crash 0]))))"
proof -
  obtain r d' rest where "publish_rollback rb_host rb_space rb_artifact (Ok rb_artifact)
        \<lparr>sg_root = path_identity_from_metadata (dir_stat 20), sg_lock = path_identity_from_metadata (created_stat 0 3 0)\<rparr>
        rb_id rb_id (rb_disk, [Go, Go, Crash 0]) = (r, d', rest)" by (rule prod_cases3)
  with rollback_publication_is_atomic [OF rb_ready rb_slot this] show ?thesis by simp
qed

subsection \<open>Recovery\<close>

text \<open>
  Recovery can itself be interrupted. If every interrupted rollback of the store is in one of
  the states above, then however often \<open>recover_rollbacks\<close> is started and wherever each run stops,
  every one of them still is, and every other entry is the one it was, except that control
  entries of no transaction may have been reclaimed.\<close>

theorem interrupted_recovery_is_recoverable:
  assumes "tx_family host ts" and "store_state host ts d0 d" and "list_all crash_only script"
    and "recover_rollbacks host held (d, script) = (r, d', rest)"
  shows "store_state host ts d0 d'"
  using wp_run [OF wp_recover_rollbacks [OF assms(1,2)] assms(3,4)] by (cases r) auto

theorem interrupted_recovery_is_recoverable_witness:
  "store_state rb_host [rb_tx] rb_disk
     (fst (snd (recover_rollbacks rb_host (\<lambda>_. False) (rb_disk, [Go, Crash 0]))))"
proof -
  obtain r d' rest where "recover_rollbacks rb_host (\<lambda>_. False) (rb_disk, [Go, Crash 0]) = (r, d', rest)"
    by (rule prod_cases3)
  with interrupted_recovery_is_recoverable [OF rb_family rb_store_state _ this] show ?thesis
    by (simp add: crash_only_def)
qed

text \<open>
  C6: Recovery resolves. For up to 1024 interrupted rollbacks with different identifiers and
  targets, in a directory within the scan bound and with no live process holding a staging lock,
  a run of \<open>recover_rollbacks\<close> that is not disturbed returns; afterwards every target is
  completely the old or completely the new tree, no marker, temporary file, staging or retired
  tree of any of them is left, and every other space is unchanged.\<close>

theorem recovery_resolves_every_rollback:
  assumes "tx_family host ts" and "bounded_store host ts d0" and "store_state host ts d0 d" and "owned ts d0"
    and "\<forall>t\<in>set ts. \<not> held (stg t)"
  shows "\<exists>observations d'. recover_rollbacks host held (d, []) = (Done observations, d', []) \<and>
    (\<forall>t\<in>set ts. dk_spaces d' (tgt t) \<in> {Some (tx_old t), Some (tx_new t)} \<and>
       (\<forall>n\<in>{mk t, tmp t, stg t, rtd t}. dk_spaces d' n = None)) \<and>
    (\<forall>n. n \<notin> all_names ts \<longrightarrow> \<not> control n \<longrightarrow> dk_spaces d' n = dk_spaces d0 n)"
proof -
  have "runs (recover_rollbacks host held) (\<lambda>_ d'.
    (\<forall>t\<in>set ts. resolved host t d' d' \<and> dk_spaces d' (tmp t) = None) \<and> store_state host ts d0 d') d"
    by (rule runs_recover_rollbacks [OF assms(1-3) owned_store_state [OF assms(4,3)]]) (use assms(5) in blast)
  then show ?thesis
    unfolding runs_def by (fastforce simp: resolved_def slot_def has_marker_def store_state_def)
qed

theorem recovery_resolves_every_rollback_witness:
  "\<exists>observations d'. recover_rollbacks rb_host (\<lambda>_. False) (rb_disk, []) = (Done observations, d', []) \<and>
     dk_spaces d' (stg rb_tx) = None \<and> dk_spaces d' ''other'' = Some (DirNode (rb_dir 30))"
proof -
  have "''other'' \<notin> all_names [rb_tx]"
    by (simp add: all_names_def tx_names_def rb_tx_names rollback_marker_name_def marker_temporary_name_def
        staging_name_def retired_name_def)
  moreover have "dk_spaces rb_disk ''other'' = Some (DirNode (rb_dir 30))"
    by (simp add: rb_disk_def rb_tx_names staging_name_def)
  ultimately show ?thesis
    using recovery_resolves_every_rollback [OF rb_family rb_bounded rb_store_state rb_covered(1), of "\<lambda>_. False"]
      rb_control(2) by fastforce
qed

text \<open>
  Recovery never guesses. For every spaces directory and under every fault, each plan of the
  inventory rests on a marker that was read and whose components match its file name, on the one
  row of the decision table for the entries that exist, and on an openable space with the
  recorded identity; no two plans have the same target, there are at most 1024, and the inventory
  changes nothing.\<close>

theorem recovery_plans_are_unambiguous:
  assumes "load_recovery_inventory host target (d, script) = (Done inventory, d', rest)"
  shows "d' = d \<and> inventory_sound host d inventory"
proof -
  have "wp (\<lambda>_. True) (load_recovery_inventory host target) (\<lambda>i d'. d' = d \<and> inventory_sound host d i)
     (\<lambda>_ _. True) (\<lambda>_. True) d"
    by (rule wp_load_recovery_inventory) auto
  from wp_run [OF this _ assms] show ?thesis by (simp add: list_all_iff)
qed

theorem recovery_plans_are_unambiguous_witness:
  "\<exists>inventory d'. load_recovery_inventory rb_host None (rb_disk, []) = (Done inventory, d', []) \<and>
     inventory_sound rb_host rb_disk inventory"
proof -
  have "runs (load_recovery_inventory rb_host None) (\<lambda>_ _. True) rb_disk"
    by (rule runs_conseq [OF runs_load_recovery_inventory [OF rb_family rb_bounded rb_store_state rb_covered(1)]]) auto
  then obtain i d' where "load_recovery_inventory rb_host None (rb_disk, []) = (Done i, d', [])"
    by (auto simp: runs_def)
  with recovery_plans_are_unambiguous [OF this] show ?thesis by blast
qed

definition interrupted_recoveries :: "store_host \<Rightarrow> (string \<Rightarrow> bool) \<Rightarrow> fault list list \<Rightarrow> disk \<Rightarrow> disk" where
  "interrupted_recoveries host held scripts d =
     fold (\<lambda>script d. fst (snd (recover_rollbacks host held (d, script)))) scripts d"

lemma interrupted_recoveries_state:
  assumes fam: "tx_family host ts" and "store_state host ts d0 d" and "list_all (list_all crash_only) scripts"
  shows "store_state host ts d0 (interrupted_recoveries host held scripts d)"
  using assms(2,3) unfolding interrupted_recoveries_def
proof (induction scripts arbitrary: d)
  case (Cons script scripts)
  obtain r d' rest where run: "recover_rollbacks host held (d, script) = (r, d', rest)" by (rule prod_cases3)
  have "store_state host ts d0 d'"
    using wp_run [OF wp_recover_rollbacks [OF fam Cons.prems(1)] _ run] Cons.prems(2) by (cases r) auto
  with Cons run show ?case by simp
qed simp

lemma single_store_state:
  assumes "wf_tx host t" and "tx_state host t d d'" and "owned [t] d"
  shows "store_state host [t] d d'"
proof -
  have "covered [t] d'"
    unfolding covered_def
  proof (intro allI impI)
    fix n
    assume n: "dk_spaces d' n \<noteq> None" "marker_id_from_name n \<noteq> None"
    have "n \<in> tx_names t"
    proof (rule ccontr)
      assume out: "n \<notin> tx_names t"
      then have "dk_spaces d n \<noteq> None" using tx_state_frame [OF assms(2) out] n(1) by simp
      then show False using assms(3) n(2) out by (simp add: owned_def control_def all_names_def)
    qed
    then show "\<exists>u\<in>set [t]. n = mk u" using control_names(1) [OF assms(1) _ n(2)] by simp
  qed
  moreover have "tx_state host t d' d'" by (rule tx_state_local [OF assms(2)]) simp
  moreover have "dk_spaces d' n = dk_spaces d n" if "n \<notin> all_names [t]" for n
    using tx_state_frame [OF assms(2)] that by (simp add: all_names_def)
  ultimately show ?thesis by (simp add: store_state_def)
qed

text \<open>
  C5: A rollback survives any sequence of failures. After a publication that failed or stopped
  anywhere, and any number of recovery runs that stopped anywhere, one undisturbed recovery run
  returns with the target completely old or completely new and nothing of the transaction left.\<close>

theorem rollback_survives_crashes:
  assumes "ready host target snapshot transaction_id recovery_id t n"
    and "slot host t d None (Some (tx_old t)) (Some (DirNode n)) None d"
    and "owned [t] d" and "bounded_store host [t] d" and "\<not> held (stg t)"
    and "publish_rollback host target snapshot now ident transaction_id recovery_id (d, script) = (r, d1, rest)"
    and "list_all (list_all crash_only) scripts"
  shows "\<exists>observations d2.
    recover_rollbacks host held (interrupted_recoveries host held scripts d1, []) = (Done observations, d2, []) \<and>
    dk_spaces d2 (tgt t) \<in> {Some (tx_old t), Some (tx_new t)} \<and>
    (\<forall>n\<in>{mk t, tmp t, stg t, rtd t}. dk_spaces d2 n = None)"
proof -
  have wf: "wf_tx host t" using assms(1) by (simp add: ready_def)
  then have fam: "tx_family host [t]" by (simp add: tx_family_def)
  have "post (\<lambda>_. slot host t d None (Some (tx_new t)) None None) (\<lambda>_. tx_state host t d) (tx_state host t d) r d1"
    using wp_run [OF triple_wp [OF triple_publish_rollback [OF assms(1)] assms(2)] _ assms(6), of "\<lambda>_. True"]
    by (simp add: list_all_iff)
  then have "tx_state host t d d1" by (cases r) (auto intro: tx_finished)
  then have s: "store_state host [t] d (interrupted_recoveries host held scripts d1)"
    by (intro interrupted_recoveries_state [OF fam _ assms(7)] single_store_state [OF wf _ assms(3)])
  have "runs (recover_rollbacks host held) (\<lambda>_ d'.
    (\<forall>u\<in>set [t]. resolved host u d' d' \<and> dk_spaces d' (tmp u) = None) \<and> store_state host [t] d d')
    (interrupted_recoveries host held scripts d1)"
    by (rule runs_recover_rollbacks [OF fam assms(4) s owned_store_state [OF assms(3) s]]) (use assms(5) in simp)
  then show ?thesis
    unfolding runs_def by (fastforce simp: resolved_def slot_def has_marker_def)
qed

theorem rollback_survives_crashes_witness:
  "\<exists>observations d2. recover_rollbacks rb_host (\<lambda>_. False) (interrupted_recoveries rb_host (\<lambda>_. False) [[Crash 0]]
      (fst (snd (publish_rollback rb_host rb_space rb_artifact (Ok rb_artifact)
        \<lparr>sg_root = path_identity_from_metadata (dir_stat 20), sg_lock = path_identity_from_metadata (created_stat 0 3 0)\<rparr>
        rb_id rb_id (rb_disk, [Go, Go, Crash 0])))), []) = (Done observations, d2, []) \<and>
    dk_spaces d2 (stg rb_tx) = None"
proof -
  obtain r d' rest where run: "publish_rollback rb_host rb_space rb_artifact (Ok rb_artifact)
        \<lparr>sg_root = path_identity_from_metadata (dir_stat 20), sg_lock = path_identity_from_metadata (created_stat 0 3 0)\<rparr>
        rb_id rb_id (rb_disk, [Go, Go, Crash 0]) = (r, d', rest)" by (rule prod_cases3)
  have "\<exists>observations d2. recover_rollbacks rb_host (\<lambda>_. False)
      (interrupted_recoveries rb_host (\<lambda>_. False) [[Crash 0]] d', []) = (Done observations, d2, []) \<and>
    dk_spaces d2 (tgt rb_tx) \<in> {Some (tx_old rb_tx), Some (tx_new rb_tx)} \<and>
    (\<forall>n\<in>{mk rb_tx, tmp rb_tx, stg rb_tx, rtd rb_tx}. dk_spaces d2 n = None)"
    by (rule rollback_survives_crashes [OF rb_ready rb_slot rb_covered(1) rb_bounded _ run])
      (simp_all add: crash_only_def)
  then show ?thesis using run by auto
qed

subsection \<open>A swallowed inspection error\<close>

text \<open>
  The reclamation of staging asks \<open>Path::exists\<close> for the marker, which answers \<open>false\<close> when
  the inspection fails. A single failed inspection therefore makes recovery discard the staging
  tree of a transaction whose marker is present, and afterwards no row of the decision table
  applies to that marker: the rollback needs manual reconciliation although it was recoverable.\<close>

theorem failed_inspection_strands_a_marked_rollback:
  assumes "wf_tx host t" and "slot host t d0 (Some Prepared) (Some (tx_old t)) (Some e) None d" and "stageable host e"
    and "\<not> held (stg t)"
  shows "decided host d ((tx_marker t)\<lparr>rm_state := Prepared\<rparr>) Abort \<and>
    (\<exists>st d'. orphan_staging_entry host held (stg t) (0, []) (d, [Fault 0]) = (Done st, d', []) \<and>
       marker_at host d' (mk t) ((tx_marker t)\<lparr>rm_state := Prepared\<rparr>) \<and> dk_spaces d' (stg t) = None \<and>
       (\<forall>action. \<not> decided host d' ((tx_marker t)\<lparr>rm_state := Prepared\<rparr>) action))"
proof -
  let ?m = "(tx_marker t)\<lparr>rm_state := Prepared\<rparr>"
  have dec: "decided host d ?m Abort"
    by (rule decided_slot [OF assms(1,2)]) (use assms(1) in \<open>auto simp: wf_tx_def\<close>)
  let ?d = "d\<lparr>dk_spaces := (dk_spaces d)(stg t := None), dk_trash := (dk_next d, e) # dk_trash d, dk_next := Suc (dk_next d)\<rparr>"
  have e: "dk_spaces d (stg t) = Some e" using assms(2) by (simp add: slot_def)
  have chk: "rbind (validate_private_dir (h_uid host) (node_stat e)) (\<lambda>_. staging_lock_free host held (stg t) e) = Ok True"
    by (rule stageable_free) (use assms(3,4) in auto)
  have w: "sat_add 0 (Suc 0) = Suc 0" "reject_excess_rollback_entries (Suc 0) = Ok ()"
    by (simp_all add: reject_excess_rollback_entries_def MAX_ROLLBACK_MARKERS_def sat_add_def u64_max_num)
  have run: "orphan_staging_entry host held (stg t) (0, []) (d, [Fault 0]) = (Done (1, [dk_next d]), ?d, [])"
    using e chk w
    by (simp add: orphan_staging_entry_def Let_def tx_name_ids(3) [OF assms(1)] bind_io_def lift_def ret_def path_exists_def catch_def
        read_entry_def syscall_def retire_recovery_path_def rename_to_trash_def)
  have "rename_to_trash [] (stg t) (d, []) = (Done (dk_next d), ?d, [])"
    using e by (simp add: rename_to_trash_def syscall_def)
  from wp_run [OF triple_wp [OF triple_trash_staging [OF assms(1)] assms(2)] _ this, of "\<lambda>_. True"]
  have s: "slot host t d0 (Some Prepared) (Some (tx_old t)) None None ?d" by simp
  have "marker_at host ?d (mk t) ?m" using slot_marker_at [OF assms(1) s] by blast
  moreover have "\<not> decided host ?d ?m action" for action using slot_decided [OF assms(1) s] by fastforce
  ultimately show ?thesis using dec run by fastforce
qed

theorem failed_inspection_strands_a_marked_rollback_witness:
  "\<exists>st d'. orphan_staging_entry rb_host (\<lambda>_. False) (stg rb_tx) (0, [])
     (put_file 0 (mk rb_tx) ''prepared'' rb_disk, [Fault 0]) = (Done st, d', []) \<and> dk_spaces d' (stg rb_tx) = None"
proof -
  have "slot rb_host rb_tx rb_disk (Some Prepared) (Some (tx_old rb_tx)) (Some (DirNode rb_staged)) None
      (put_file 0 (mk rb_tx) ''prepared'' rb_disk)"
    using rb_slot tx_names_distinct [OF rb_wf]
    by (auto simp: slot_def has_marker_def clean_tmp_def tx_names_def rb_host_def)
  from failed_inspection_strands_a_marked_rollback [OF rb_wf this rb_stageable, of "\<lambda>_. False"]
  show ?thesis by blast
qed

end
