(* ===== verification/Rename_Properties.thy ===== *)
theory Rename_Properties
  imports Rename_Store Rollback_Properties
begin

text \<open>
  The guarantees of the rename transaction, and one concrete store on which their hypotheses hold.
\<close>

subsection \<open>The guards\<close>

lemma wp_ensure_not_frozen:
  assumes "\<And>e. E e d" and "C d"
    and "(\<And>ident. sm_space_id (sp_manifest s) = Some ident \<Longrightarrow> \<not> frozen_on_disk host ident d) \<Longrightarrow> Q () d"
  shows "wp F (ensure_not_frozen host s) Q E C d"
proof (cases "sm_space_id (sp_manifest s)")
  case None
  then show ?thesis
    unfolding ensure_not_frozen_def freeze_state_def using assms by (auto intro!: wp_rules)
next
  case (Some ident)
  have "wp F (read_freeze_marker host ident) (\<lambda>found. wp F (ret (if found \<noteq> None then Frozen else Unfrozen))
     (\<lambda>state. wp F (if state \<noteq> Frozen then ret () else fail (QErr SpaceActive ''space is cooperatively frozen'')) Q E C) E C) E C d"
  proof (rule wp_read_freeze_marker)
    assume "dk_spaces d (freeze_name ident) = None"
    then have "\<not> frozen_on_disk host ident d" by (auto simp: frozen_on_disk_def)
    then show "wp F (ret (if None \<noteq> None then Frozen else Unfrozen))
     (\<lambda>state. wp F (if state \<noteq> Frozen then ret () else fail (QErr SpaceActive ''space is cooperatively frozen'')) Q E C) E C d"
      using assms(3) Some by (auto intro!: wp_ret)
  qed (use assms in \<open>auto intro!: wp_rules\<close>)
  then show ?thesis
    unfolding ensure_not_frozen_def freeze_state_def using Some by (simp add: wp_bind)
qed

lemma wp_rename_guards:
  assumes "\<And>e. E e d" and "C d"
    and "\<And>s. open_node host (space_name_as_str previous) (dk_spaces d (space_name_as_str previous)) (space_name_as_str previous) = Ok s \<Longrightarrow>
       (\<And>ident. sm_space_id (sp_manifest s) = Some ident \<Longrightarrow> \<not> frozen_on_disk host ident d) \<Longrightarrow>
       sm_space_id (sp_manifest s) \<noteq> None \<Longrightarrow> Q s d"
  shows "wp F (rename_guards host previous name) Q E C d"
proof -
  have "wp F (bind_io (store_open host previous) (\<lambda>source. bind_io (ensure_not_frozen host source) (\<lambda>_.
     bind_io (lift (reject_legacy source)) (\<lambda>_. ret source)))) Q E C d"
    by (intro wp_bind wp_store_open wp_ensure_not_frozen wp_lift wp_ret)
      (use assms in \<open>auto simp: reject_legacy_def split: if_splits\<close>)
  then show ?thesis
    unfolding rename_guards_def by (intro wp_keeps_bind [OF keeps_guards(1)] wp_keeps_bind [OF keeps_guards(2)]) (use assms in auto)
qed

subsection \<open>The whole operation\<close>

definition rename_ready ::
  "store_host \<Rightarrow> rename_inputs \<Rightarrow> space_name \<Rightarrow> space_name \<Rightarrow> rename_tx \<Rightarrow> disk \<Rightarrow> bool" where
  "rename_ready host inp previous name t d \<longleftrightarrow>
     wf_rename host t \<and> at_source t anywhere absent d \<and> rn_id inp = Ok (nm_transaction_id (rx_marker t)) \<and>
     rx_marker t = new_rename_marker \<lparr>sp_root = nsrc t, sp_manifest = rx_manifest t\<rparr> (nm_transaction_id (rx_marker t)) previous name"

lemma frame_elsewhere: "frame_for names (elsewhere names d)"
  by (auto simp: frame_for_def elsewhere_def)

lemma wp_rename_space:
  assumes ready: "rename_ready host inp previous name t d"
  shows "wp F (rename_space host inp previous name)
     (\<lambda>report d'. at_destination t (elsewhere (rename_names t) d) absent (new_content host t) d' \<and>
        srr_name report = ndst t \<and> srr_previous report = nsrc t \<and> srr_changed report \<and>
        (\<exists>ident. sm_space_id (rx_manifest t) = Some ident \<and> srr_space_id report = space_id_as_str ident))
     (\<lambda>_. rename_state host t (elsewhere (rename_names t) d)) (rename_state host t (elsewhere (rename_names t) d)) d"
    (is "wp F _ ?Q (\<lambda>_. ?S) _ _")
proof -
  have wf: "wf_rename host t" and src: "at_source t anywhere absent d" and id: "rn_id inp = Ok (nm_transaction_id (rx_marker t))"
    and mk: "rx_marker t = new_rename_marker \<lparr>sp_root = nsrc t, sp_manifest = rx_manifest t\<rparr> (nm_transaction_id (rx_marker t)) previous name"
    using ready by (simp_all add: rename_ready_def)
  have names: "nm_previous (rx_marker t) = previous" "nm_name (rx_marker t) = name"
    by (subst mk, simp add: new_rename_marker_def)+
  have start: "at_source t (elsewhere (rename_names t) d) absent d"
    using src by (subst at_source_frame) simp
  then have S: "?S d" by (rule rn_before)
  have report: "wp F (bind_io (store_open host name) (\<lambda>renamed. lift (rename_report renamed previous name True))) ?Q (\<lambda>_. ?S) ?S d'"
    if "at_destination t (elsewhere (rename_names t) d) absent (new_content host t) d'" for d'
  proof -
    have "open_node host (ndst t) (dk_spaces d' (ndst t)) (ndst t) = Ok \<lparr>sp_root = ndst t, sp_manifest = renamed_manifest t\<rparr>"
      using that by (auto simp: at_destination_def at_entry_def new_content_opens [OF wf])
    then show ?thesis
      using that rn_finished [OF that] unfolding names
      by (intro wp_bind wp_store_open wp_lift)
        (auto simp: rename_report_def renamed_manifest_def names split: option.splits)
  qed
  have move: "wp F (bind_io (move_space host (new_rename_marker s (nm_transaction_id (rx_marker t)) previous name)) (\<lambda>_.
     bind_io (store_open host name) (\<lambda>renamed. lift (rename_report renamed previous name True)))) ?Q (\<lambda>_. ?S) ?S d"
    if "open_node host (space_name_as_str previous) (dk_spaces d (space_name_as_str previous)) (space_name_as_str previous) = Ok s" for s
  proof -
    have "s = \<lparr>sp_root = nsrc t, sp_manifest = rx_manifest t\<rparr>"
      using that wf src by (simp add: names at_source_def wf_rename_def)
    then have marker: "new_rename_marker s (nm_transaction_id (rx_marker t)) previous name = rx_marker t" using mk by simp
    have "wp F (move_space host (rx_marker t)) (\<lambda>_. at_destination t (elsewhere (rename_names t) d) absent (new_content host t))
       (\<lambda>_. ?S) ?S d"
      by (rule triple_wp [OF triple_move_space [OF wf frame_elsewhere] start])
    then show ?thesis
      unfolding marker by (intro wp_bind [of _ "move_space _ _"]) (auto elim!: wp_conseq intro: report)
  qed
  show ?thesis
    unfolding rename_space_def
    apply (rule wp_bind, rule wp_lift, rule S)
    apply (rule wp_bind, rule wp_rename_guards, rule S, rule S)
    apply (rule wp_keeps_bind, unfold reject_destination_def, (intro keeps_rules)[1], rule S, rule S)
    apply (rule wp_bind, rule wp_lift, rule S)+
    using move id by simp
qed

definition interrupted_rename_recoveries :: "store_host \<Rightarrow> fault list list \<Rightarrow> disk \<Rightarrow> disk" where
  "interrupted_rename_recoveries host scripts d =
     fold (\<lambda>script d. fst (snd (recover_renames host (d, script)))) scripts d"

lemma interrupted_rename_recoveries_state:
  assumes "rename_family host ts" and "no_foreign_rename host ts d0" and "rename_store host ts d0 d"
  shows "rename_store host ts d0 (interrupted_rename_recoveries host scripts d)"
  using assms(3) unfolding interrupted_rename_recoveries_def
proof (induction scripts arbitrary: d)
  case (Cons script scripts)
  obtain r d' rest where run: "recover_renames host (d, script) = (r, d', rest)" by (rule prod_cases3)
  have "rename_store host ts d0 d'"
    using wp_run [OF wp_recover_renames [OF assms(1,2) Cons.prems] _ run, of "\<lambda>_. True"]
    by (cases r) (auto simp: list_all_iff)
  with Cons run show ?case by simp
qed simp

subsection \<open>An undisturbed rename\<close>

text \<open>No transaction is interrupted, and the directory is within the scan bound.\<close>

definition quiet_store :: "store_host \<Rightarrow> disk \<Rightarrow> bool" where
  "quiet_store host d \<longleftrightarrow>
     enumerates host \<and> finite (dom (dk_spaces d)) \<and> card (dom (dk_spaces d)) \<le> MAX_DIRECTORY_SCAN_ENTRIES \<and>
     (\<forall>n. dk_spaces d n \<noteq> None \<longrightarrow> marker_id_from_name n = None \<and> parse_rename_marker_name n = None)"

lemma quiet_listing:
  assumes "quiet_store host d"
  shows "set (h_order host (dk_spaces d)) = dom (dk_spaces d)" "length (h_order host (dk_spaces d)) \<le> MAX_DIRECTORY_SCAN_ENTRIES"
proof -
  have l: "distinct (h_order host (dk_spaces d))" "set (h_order host (dk_spaces d)) = dom (dk_spaces d)"
    using assms by (auto simp: quiet_store_def enumerates_def)
  then show "set (h_order host (dk_spaces d)) = dom (dk_spaces d)" by simp
  have "length (h_order host (dk_spaces d)) = card (dom (dk_spaces d))" using l by (metis distinct_card)
  then show "length (h_order host (dk_spaces d)) \<le> MAX_DIRECTORY_SCAN_ENTRIES" using assms by (simp add: quiet_store_def)
qed

lemma runs_no_rename_target:
  assumes q: "quiet_store host d" and "Q () d"
  shows "runs (ensure_no_rename_target host name) Q d"
proof -
  let ?I = "\<lambda>xs st d'. d' = d \<and> snd st = False \<and> fst st + length xs \<le> MAX_DIRECTORY_SCAN_ENTRIES \<and> set xs \<subseteq> dom (dk_spaces d)"
  have "runs (iterate (rename_target_entry host name) (h_order host (dk_spaces d)) (0, False)) (?I []) d"
  proof (rule runs_iterate [where I = ?I])
    fix x xs and st :: "nat \<times> bool" and d'
    assume I: "?I (x # xs) st d'"
    then have obs: "scan_observe (fst st) = Ok (Suc (fst st))"
      by (simp add: scan_observe_def sat_add_exact u64_max_num MAX_DIRECTORY_SCAN_ENTRIES_def)
    have none: "\<not> rename_marker_at host d x m" for m using q I by (auto simp: quiet_store_def rename_marker_at_def)
    show "runs (rename_target_entry host name x st) (?I xs) d'"
      unfolding rename_target_entry_def
      using I by (auto intro!: runs_bind runs_next_entry runs_lift [OF obs] runs_valid_marker_entry(2) [OF none] runs_ret)
  qed (use quiet_listing [OF q] in auto)
  then have "runs (iterate (rename_target_entry host name) (h_order host (dk_spaces d)) (0, False))
     (\<lambda>st. runs (ret (snd st)) (\<lambda>found. runs (if found then fail (QErr SpaceActive ''space has an interrupted rename transaction'') else ret ()) Q)) d"
    by (rule runs_conseq) (use assms(2) in \<open>auto intro!: runs_ret\<close>)
  then show ?thesis
    unfolding ensure_no_rename_target_def rename_target_exists_def by (intro runs_bind runs_read_dir)
qed

lemma runs_no_rollback_target:
  assumes q: "quiet_store host d" and "Q () d"
  shows "runs (ensure_no_rollback_target host name) Q d"
proof -
  let ?st = "\<lparr>is_plans = [], is_issues = [], is_markers = 0\<rparr>"
  have scan: "runs (scan_directory host a (inventory_entry host (Some name)) ?st)
     ((\<lambda>xs st d'. d' = d \<and> st = ?st \<and> set xs \<subseteq> dom (dk_spaces d)) []) d" for a
    by (rule runs_scan_directory [OF _ quiet_listing(2) [OF q]])
      (use q quiet_listing(1) [OF q] in \<open>auto intro!: runs_ret simp: inventory_entry_def quiet_store_def\<close>)
  have load: "runs (load_recovery_inventory host (Some name)) (\<lambda>inv d'. d' = d \<and> inv = \<lparr>inv_plans = [], inv_issues = []\<rparr>) d"
    unfolding load_recovery_inventory_def
    by (rule runs_bind, rule runs_conseq [OF scan]) (auto intro!: runs_ret simp: reject_duplicate_targets_def Let_def)
  show ?thesis
    unfolding ensure_no_rollback_target_def rollback_observation_for_unlocked_def
    by (intro runs_bind [of "bind_io _ _"] runs_bind [of "load_recovery_inventory _ _"], rule runs_conseq [OF load])
      (use assms(2) in \<open>auto intro!: runs_ret\<close>)
qed

lemma runs_store_open:
  assumes q: "quiet_store host d"
    and o: "open_node host (space_name_as_str name) (dk_spaces d (space_name_as_str name)) (space_name_as_str name) = Ok s" and "Q s d"
  shows "runs (store_open host name) Q d"
proof -
  have "dk_spaces d (space_name_as_str name) \<noteq> None" using o by (auto simp: open_node_def split: option.splits)
  then have "runs (bind_io (entry_exists (space_name_as_str name)) (\<lambda>present.
     if \<not> present then fail (QErr NotFound ''space does not exist'')
     else open_path host (space_name_as_str name))) Q d"
    unfolding open_path_def using o assms(3)
    by (intro runs_bind runs_entry_exists) (auto intro!: runs_bind runs_read_entry runs_lift)
  then show ?thesis
    unfolding store_open_def
    by (intro runs_bind [of "ensure_no_rename_target _ _"] runs_bind [of "ensure_no_rollback_target _ _"]
        runs_no_rename_target [OF q] runs_no_rollback_target [OF q])
qed

lemma runs_finish_move:
  assumes wf: "wf_rename host t" and R: "frame_for (rename_names t) R" and clear: "dn_files (rx_dir t) (manifest_temporary ''rename'') = None"
    and e: "dk_spaces d (ndst t) = Some (DirNode (rx_dir t))" and b: "beside t R (whole_marker host t) d"
  shows "runs (bind_io (complete_moved_rename host (ndst t) (rx_marker t)) (\<lambda>_. bind_io (remove_file a (nmk t)) (\<lambda>_. sync_directory)))
     (\<lambda>_. at_destination t R absent (new_content host t)) d"
proof -
  have drop: "runs (bind_io (remove_file a (nmk t)) (\<lambda>_. sync_directory)) (\<lambda>_. at_destination t R absent (new_content host t)) d'"
    if "at_destination t R (whole_marker host t) (new_content host t) d'" for d'
    by (rule runs_bind, rule runs_conseq [OF runs_drop_marker(2) [OF wf R whole_torn that]]) (auto intro: runs_sync_directory)
  have "(dn_files (rx_dir t))(manifest_temporary ''rename'' := None) = dn_files (rx_dir t)" using clear by auto
  then have e': "dk_spaces d (ndst t) = Some (with_files (rx_dir t) ((dn_files (rx_dir t))(manifest_temporary ''rename'' := None)))"
    using e by (simp add: with_files_def)
  show ?thesis
    by (rule runs_bind, rule runs_complete_moved_rename [OF wf e'], rule drop)
      (auto simp: at_destination_def at_entry_def intro: framesD [OF beside_frames [OF wf R] b])
qed

lemma runs_move_space:
  assumes wf: "wf_rename host t" and R: "frame_for (rename_names t) R" and s: "at_source t R absent d"
    and clear: "dn_files (rx_dir t) (manifest_temporary ''rename'') = None"
  shows "runs (move_space host (rx_marker t)) (\<lambda>_. at_destination t R absent (new_content host t)) d"
proof -
  let ?b = "h_rename_bytes host (rx_marker t)"
  let ?d1 = "put_file (h_uid host) (nmk t) ?b (put_file (h_uid host) (nmk t) [] d)"
  let ?d2 = "?d1\<lparr>dk_spaces := (dk_spaces ?d1)(nsrc t := None, ndst t \<mapsto> DirNode (rx_dir t))\<rparr>"
  note ne = rename_names_distinct [OF wf]
  have "R ?d2"
    using s by (auto simp: at_source_def elsewhere_def rename_names_def intro!: frame_forD [OF R, of d])
  then have "beside t R (whole_marker host t) ?d2"
    using ne by (auto simp: beside_def whole_marker_def whole_file_def)
  moreover have "dk_spaces ?d2 (ndst t) = Some (DirNode (rx_dir t))" by simp
  ultimately have finish: "runs (bind_io (complete_moved_rename host (ndst t) (rx_marker t)) (\<lambda>_. bind_io (remove_file a (nmk t)) (\<lambda>_. sync_directory)))
     (\<lambda>_. at_destination t R absent (new_content host t)) ?d2" for a
    using runs_finish_move [OF wf R clear] by blast
  have move: "runs (rename_entry a (nsrc t) (ndst t)) Q ?d1" if "Q () ?d2" for a Q
    by (rule runs_rename_entry [where e = "DirNode (rx_dir t)"]) (use s ne that in \<open>auto simp: at_source_def may_replace_def\<close>)
  show ?thesis
    unfolding move_space_def Let_def write_rename_marker_def
    by (intro runs_bind [of "write_private_file _ _ _"] runs_write_private_file runs_bind [of sync_directory] runs_sync_directory
        runs_bind [of "attempt _"] runs_attempt move)
      (use s finish in \<open>auto simp: at_source_def intro!: runs_bind [of sync_directory] runs_sync_directory\<close>)
qed

lemma portable_not_control:
  assumes "portable_name_grammar n"
  shows "marker_id_from_name n = None" "parse_rename_marker_name n = None"
proof -
  have "length n \<le> 32" using assms by (simp add: portable_name_grammar_def)
  then have "marker_id_from_name n \<noteq> Some i" "parse_rename_marker_name n \<noteq> Some j" for i j
    by (auto simp: marker_id_from_name_eq_Some parse_rename_marker_name_eq_Some hex_id_grammar_def name_lengths rename_marker_name_def)
  then show "marker_id_from_name n = None" "parse_rename_marker_name n = None" by (meson not_Some_eq)+
qed

lemma quiet_after_move:
  assumes wf: "wf_rename host t" and q: "quiet_store host d" and src: "at_source t anywhere absent d"
    and d': "at_destination t (elsewhere (rename_names t) d) absent P d'"
  shows "quiet_store host d'"
proof -
  have "dk_spaces d' n = None \<longleftrightarrow> n \<noteq> ndst t \<and> (n = nsrc t \<or> dk_spaces d n = None)" for n
    using d' src rename_names_distinct [OF wf]
    by (cases "n \<in> rename_names t")
      (auto simp: at_destination_def at_entry_def beside_def at_source_def elsewhere_def rename_names_def)
  then have dom: "dom (dk_spaces d') = insert (ndst t) (dom (dk_spaces d) - {nsrc t})" by (auto simp: dom_def)
  have fin: "finite (dom (dk_spaces d))" using q by (simp add: quiet_store_def)
  have "card (dom (dk_spaces d')) = Suc (card (dom (dk_spaces d) - {nsrc t}))"
    unfolding dom by (rule card_insert_disjoint) (use fin src in \<open>auto simp: at_source_def\<close>)
  also have "\<dots> = card (dom (dk_spaces d))"
    by (rule card_Suc_Diff1 [OF fin]) (use src in \<open>auto simp: at_source_def\<close>)
  finally have "card (dom (dk_spaces d')) = card (dom (dk_spaces d))" .
  moreover have "marker_id_from_name n = None \<and> parse_rename_marker_name n = None" if "dk_spaces d' n \<noteq> None" for n
  proof -
    have "n = ndst t \<or> dk_spaces d n \<noteq> None" using that dom by (auto simp: dom_def set_eq_iff)
    then show ?thesis
      using q wf by (elim disjE) (simp_all add: portable_not_control quiet_store_def wf_rename_def)
  qed
  ultimately show ?thesis
    using q fin dom unfolding quiet_store_def by simp
qed

lemma runs_rename_space:
  assumes ready: "rename_ready host inp previous name t d" and q: "quiet_store host d"
    and clear: "dn_files (rx_dir t) (manifest_temporary ''rename'') = None"
    and env: "rn_lease inp = Ok ()" "rn_bindings inp = Ok 0" "rn_migrate inp = Ok ()"
    and thawed: "\<And>ident. sm_space_id (rx_manifest t) = Some ident \<Longrightarrow> dk_spaces d (freeze_name ident) = None"
  shows "runs (rename_space host inp previous name) (\<lambda>_ _. True) d"
proof -
  have wf: "wf_rename host t" and src: "at_source t anywhere absent d" and id: "rn_id inp = Ok (nm_transaction_id (rx_marker t))"
    and mk: "rx_marker t = new_rename_marker \<lparr>sp_root = nsrc t, sp_manifest = rx_manifest t\<rparr> (nm_transaction_id (rx_marker t)) previous name"
    using ready by (simp_all add: rename_ready_def)
  have names: "nm_previous (rx_marker t) = previous" "nm_name (rx_marker t) = name"
    by (subst mk, simp add: new_rename_marker_def)+
  note ne = rename_names_distinct [OF wf]
  let ?s = "\<lparr>sp_root = nsrc t, sp_manifest = rx_manifest t\<rparr>"
  obtain ident where ident: "sm_space_id (rx_manifest t) = Some ident"
  proof -
    have "si_space_id (nm_source_identity (rx_marker t)) \<noteq> None"
      using wf by (simp add: wf_rename_def validate_rename_marker_def split: if_splits)
    then have "sm_space_id (rx_manifest t) \<noteq> None"
      by (subst (asm) mk) (simp add: new_rename_marker_def source_identity_for_space_def)
    then show ?thesis using that by blast
  qed
  have opened: "open_node host (space_name_as_str previous) (dk_spaces d (space_name_as_str previous)) (space_name_as_str previous) = Ok ?s"
    using wf src by (simp add: names [symmetric] at_source_def wf_rename_def)
  have guards: "runs (rename_guards host previous name) Q d" if "Q ?s d" for Q
    unfolding rename_guards_def ensure_not_frozen_def
    by (intro runs_bind [of "ensure_no_rename_target _ _"] runs_bind [of "ensure_no_rollback_target _ _"]
        runs_no_rename_target [OF q] runs_no_rollback_target [OF q] runs_bind [of "store_open _ _"] runs_store_open [OF q opened]
        runs_bind [of "bind_io _ _"] runs_bind [of "freeze_state _ _"] runs_freeze_state(2) [OF thawed [OF ident]])
      (use ident that in \<open>auto intro!: runs_ret runs_bind runs_lift simp: reject_legacy_def\<close>)
  let ?R = "elsewhere (rename_names t) d"
  have start: "at_source t ?R absent d" using src by (subst at_source_frame) simp
  have report: "runs (bind_io (store_open host name) (\<lambda>renamed. lift (rename_report renamed previous name True))) (\<lambda>_ _. True) d'"
    if d': "at_destination t ?R absent (new_content host t) d'" for d'
  proof -
    obtain e where e: "dk_spaces d' (ndst t) = Some e" "new_content host t e" using d' by (auto simp: at_destination_def at_entry_def)
    have "quiet_store host d'" by (rule quiet_after_move [OF wf q src d'])
    moreover have "open_node host (space_name_as_str name) (dk_spaces d' (space_name_as_str name)) (space_name_as_str name) =
        Ok \<lparr>sp_root = ndst t, sp_manifest = renamed_manifest t\<rparr>"
      using e new_content_opens(1) [OF wf] by (simp add: names [symmetric])
    ultimately show ?thesis
      using ident by (intro runs_bind runs_store_open) (auto intro!: runs_lift simp: rename_report_def renamed_manifest_def)
  qed
  have move: "runs (move_space host (new_rename_marker ?s (nm_transaction_id (rx_marker t)) previous name))
     (\<lambda>_. runs (bind_io (store_open host name) (\<lambda>renamed. lift (rename_report renamed previous name True))) (\<lambda>_ _. True)) d"
    unfolding mk [symmetric]
    by (rule runs_conseq [OF runs_move_space [OF wf frame_elsewhere start clear]]) (rule report)
  have bindings: "reject_legacy_artifact_bindings (rn_bindings inp) = Ok ()"
    using env(2) by (simp add: reject_legacy_artifact_bindings_def)
  have distinct: "validate_distinct_names previous name = Ok ()" using ne(3) by (auto simp: validate_distinct_names_def names)
  have free: "runs (reject_destination name) Q d" if "Q () d" for Q
    unfolding reject_destination_def
    by (intro runs_bind runs_entry_exists) (use src that in \<open>auto simp: at_source_def names intro: runs_ret\<close>)
  show ?thesis
    unfolding rename_space_def
    by (intro runs_bind [of "lift _"] runs_lift [OF distinct] runs_lift [OF bindings] runs_bind [of "rename_guards _ _ _"] guards
        runs_bind [of "reject_destination _"] free runs_lift [OF env(1)] runs_lift [OF env(3)] runs_lift [OF id]
        runs_bind [of "move_space _ _"] move)
qed

subsection \<open>A sample store\<close>

definition rn_sample_id :: space_id where "rn_sample_id = SpaceId (replicate 32 (CHR ''c''))"
definition rn_sample_name :: space_name where "rn_sample_name = SpaceName ''play''"

definition rn_marker :: rename_marker where
  "rn_marker = new_rename_marker rb_space rn_sample_id rb_name rn_sample_name"

definition rn_host :: store_host where
  "rn_host = rb_host\<lparr>
     h_json := \<lparr>mj_header = \<lambda>_. Some 3,
        mj_manifest = \<lambda>b. if b = ''m'' then Some rb_manifest else Some (rb_manifest\<lparr>sm_name := rn_sample_name\<rparr>)\<rparr>,
     h_manifest_bytes := (\<lambda>_. ''n''), h_rename_bytes := (\<lambda>_. ''r''),
     h_rename_parse := (\<lambda>b. if b = ''r'' then Some rn_marker else None)\<rparr>"

definition rn_tx :: rename_tx where
  "rn_tx = \<lparr>rx_marker = rn_marker, rx_dir = rb_dir 10, rx_manifest = rb_manifest\<rparr>"

definition rn_disk :: disk where
  "rn_disk = \<lparr>dk_spaces = [''work'' \<mapsto> DirNode (rb_dir 10), ''other'' \<mapsto> DirNode (rb_dir 30)], dk_trash = [], dk_next = 100\<rparr>"

definition rn_inputs :: rename_inputs where
  "rn_inputs = \<lparr>rn_lease = Ok (), rn_bindings = Ok 0, rn_migrate = Ok (), rn_id = Ok rn_sample_id\<rparr>"

lemma rn_host_sel:
  "h_uid rn_host = 0" "h_rename_bytes rn_host m = ''r''" "h_manifest_bytes rn_host x = ''n''"
  "h_rename_parse rn_host b = (if b = ''r'' then Some rn_marker else None)"
  "mj_header (h_json rn_host) b = Some 3"
  "mj_manifest (h_json rn_host) b = (if b = ''m'' then Some rb_manifest else Some (rb_manifest\<lparr>sm_name := rn_sample_name\<rparr>))"
  "h_order rn_host = (\<lambda>m. sorted_list_of_set (dom m))"
  by (simp_all add: rn_host_def rb_host_def)

lemma rn_tx_sel:
  "nsrc rn_tx = ''work''" "ndst rn_tx = ''play''" "rx_dir rn_tx = rb_dir 10" "rx_manifest rn_tx = rb_manifest"
  "rx_marker rn_tx = rn_marker" "nm_transaction_id rn_marker = rn_sample_id" "nm_previous rn_marker = rb_name"
  "nm_name rn_marker = rn_sample_name" "nm_source_identity rn_marker = source_identity_for_space rb_space"
  "nm_schema_version rn_marker = RENAME_SCHEMA_VERSION" "space_name_as_str rb_name = ''work''"
  "space_name_as_str rn_sample_name = ''play''"
  by (simp_all add: rn_tx_def rn_marker_def new_rename_marker_def rb_name_def rn_sample_name_def)

lemma rn_opens: "open_node rn_host ''work'' (Some (DirNode (rb_dir i))) ''work'' = Ok rb_space"
proof -
  let ?d = "as_space_dir (DirNode (rb_dir i))"
  have "validate_space_anchors 0 ?d = Ok ()"
    using rb_opens [of i] by (simp add: open_node_def open_path_ok rb_host_def)
  moreover have "read_private_file 0 (sd_manifest ?d) = Ok ''m''"
    by (simp add: rb_dir_def read_private_file_quiet MAX_MANIFEST_BYTES_def)
  then have "read_validated_manifest (h_json rn_host) 0 ?d ''work'' = Ok rb_manifest"
    by (simp add: read_validated_manifest_def rn_host_sel rb_manifest_valid SUPPORTED_SCHEMA_VERSIONS_def schema_versions)
      (simp add: rb_manifest_def rb_name_def)
  ultimately show ?thesis
    by (simp add: open_node_def open_path_ok rb_space_def rn_host_sel)
qed

lemma rn_wf: "wf_rename rn_host rn_tx"
proof -
  have "hex_id_grammar (space_id_as_str rn_sample_id)"
    by (simp add: rn_sample_id_def hex_id_grammar_def is_lower_hex_def ascii_defs list_all_iff)
  moreover have "portable_name_grammar ''work''" "portable_name_grammar ''play''"
    by (simp_all add: portable_name_grammar_def ascii_defs)
  moreover have "validate_rename_marker rn_marker rn_sample_id = Ok ()"
    by (simp add: validate_rename_marker_def rn_tx_sel rb_name_def rn_sample_name_def rb_space_def rb_manifest_def source_identity_for_space_def)
  moreover have "rename_codec rn_host rn_marker"
    by (simp add: rename_codec_def rn_host_sel MAX_MANIFEST_BYTES_def Let_def)
  moreover have "manifest_codec rn_host (renamed_manifest rn_tx)"
    by (simp add: manifest_codec_def rn_host_sel renamed_manifest_def rn_tx_sel MAX_MANIFEST_BYTES_def Let_def)
      (simp add: rb_manifest_def)
  moreover have "\<lparr>sp_root = ''work'', sp_manifest = rb_manifest\<rparr> = rb_space" by (simp add: rb_space_def)
  moreover have "clean_inner 0 (dn_files (rb_dir 10) (manifest_temporary ''rename''))"
    by (simp add: clean_inner_def rb_dir_def)
  ultimately show ?thesis
    using rn_opens [of 10] source_identity_matches_self [of rb_space]
    by (simp add: wf_rename_def rn_tx_sel rn_host_sel)
qed

lemma rn_ready: "rename_ready rn_host rn_inputs rb_name rn_sample_name rn_tx rn_disk"
proof -
  have "\<lparr>sp_root = nsrc rn_tx, sp_manifest = rx_manifest rn_tx\<rparr> = rb_space" by (simp add: rb_space_def rn_tx_sel)
  moreover have "at_source rn_tx anywhere absent rn_disk"
    by (simp add: at_source_def rn_tx_sel rn_disk_def rename_marker_name_def)
  ultimately show ?thesis
    by (simp add: rename_ready_def rn_wf rn_tx_sel rn_inputs_def) (simp add: rn_marker_def)
qed

lemma rn_names: "renaming_names [rn_tx] = {nmk rn_tx, ''work'', ''play''}" "rename_names rn_tx = {nmk rn_tx, ''work'', ''play''}"
  by (simp_all add: renaming_names_def rename_names_def rn_tx_sel)

lemma rn_no_foreign: "no_foreign_rename rn_host [rn_tx] rn_disk"
proof -
  have "parse_rename_marker_name ''other'' = None" by (rule ccontr) (auto simp: parse_rename_marker_name_eq_Some rename_marker_name_def)
  moreover have "dk_spaces rn_disk n \<noteq> None \<Longrightarrow> n = ''other'' \<or> n = ''work''" for n
    by (auto simp: rn_disk_def split: if_splits)
  ultimately show ?thesis
    unfolding no_foreign_rename_def rn_names using marker_at_present
    by (metis insertI1 insertI2 option.distinct(1) rename_marker_at_def)
qed

lemma rn_bounded: "bounded_renames rn_host [rn_tx] rn_disk"
proof -
  have dom: "dom (dk_spaces rn_disk) = {''work'', ''other''}" by (auto simp: rn_disk_def)
  have "card ({''work'', ''other''} \<union> {nmk rn_tx, ''work'', ''play''}) \<le> card {''work'', ''other''} + card {nmk rn_tx, ''work'', ''play''}"
    by (rule card_Un_le)
  also have "\<dots> \<le> 5" by (simp add: card_insert_if)
  finally show ?thesis
    unfolding bounded_renames_def dom rn_names by (simp add: enumerates_def rn_host_sel MAX_RENAMES_def MAX_DIRECTORY_SCAN_ENTRIES_def)
qed

lemma rn_family: "rename_family rn_host [rn_tx]"
  by (simp add: rename_family_def rn_wf)

lemma rn_store: "rename_store rn_host [rn_tx] rn_disk rn_disk"
  using rn_ready by (auto simp: rename_store_def rename_ready_def intro: rn_before)

lemma rn_quiet: "quiet_store rn_host rn_disk"
proof -
  have dom: "dom (dk_spaces rn_disk) = {''work'', ''other''}" by (auto simp: rn_disk_def)
  have "marker_id_from_name n = None \<and> parse_rename_marker_name n = None" if "dk_spaces rn_disk n \<noteq> None" for n
  proof -
    have "n \<in> {''work'', ''other''}" using that unfolding dom [symmetric] by (rule domIff [THEN iffD2])
    then have "portable_name_grammar n" by (elim insertE emptyE) (simp_all add: portable_name_grammar_def ascii_defs)
    then show ?thesis by (simp add: portable_not_control)
  qed
  moreover have "enumerates rn_host" by (simp add: enumerates_def rn_host_sel)
  ultimately show ?thesis
    unfolding quiet_store_def dom by (simp add: MAX_DIRECTORY_SCAN_ENTRIES_def)
qed

lemma rn_clear: "dn_files (rx_dir rn_tx) (manifest_temporary ''rename'') = None"
  by (simp add: rn_tx_sel rb_dir_def)

lemma rn_thawed: "dk_spaces rn_disk (freeze_name ident) = None"
  by (simp add: rn_disk_def freeze_name_def)

subsection \<open>Properties\<close>

lemma single_rename_store:
  assumes "rename_state host t (elsewhere (rename_names t) d0) d"
  shows "rename_store host [t] d0 d"
  using assms by (subst (asm) rename_state_frame) (simp add: rename_store_def renaming_names_def)

text \<open>
  C10: A rename survives any sequence of failures. After a rename whose calls failed or that
  stopped anywhere, and any number of recovery runs that were disturbed anywhere, one undisturbed
  recovery run returns without an issue; the space is then complete under exactly one of the two
  names, with the manifest of that name, no decodable marker is left, and nothing else changed.
\<close>

theorem rename_survives_crashes:
  assumes "rename_ready host inp previous name t d"
    and "no_foreign_rename host [t] d" and "bounded_renames host [t] d"
    and "rename_space host inp previous name (d, script) = (r, d1, rest)"
  shows "\<exists>recovery d2.
    recover_renames host (interrupted_rename_recoveries host scripts d1, []) = (Done recovery, d2, []) \<and>
    rr_issues recovery = 0 \<and> rename_done host t d2 \<and> elsewhere (rename_names t) d d2"
proof -
  have fam: "rename_family host [t]" using assms(1) by (simp add: rename_family_def rename_ready_def)
  have "rename_state host t (elsewhere (rename_names t) d) d1"
    using wp_run [OF wp_rename_space [OF assms(1)] _ assms(4), of "\<lambda>_. True"]
    by (cases r) (auto simp: list_all_iff intro: rn_finished)
  then have "rename_store host [t] d (interrupted_rename_recoveries host scripts d1)"
    by (intro interrupted_rename_recoveries_state [OF fam assms(2)] single_rename_store)
  from runs_recover_renames [OF fam assms(2,3) this]
  show ?thesis unfolding runs_def by (auto simp: rename_store_def renaming_names_def)
qed

theorem rename_survives_crashes_witness:
  "\<exists>recovery d2. recover_renames rn_host (interrupted_rename_recoveries rn_host [[Crash 0], [Go, Fault 0]]
      (fst (snd (rename_space rn_host rn_inputs rb_name rn_sample_name (rn_disk, [Go, Go, Crash 0])))), []) =
    (Done recovery, d2, []) \<and> rename_done rn_host rn_tx d2"
proof -
  obtain r d1 rest where run: "rename_space rn_host rn_inputs rb_name rn_sample_name (rn_disk, [Go, Go, Crash 0]) = (r, d1, rest)"
    by (rule prod_cases3)
  from rename_survives_crashes [OF rn_ready rn_no_foreign rn_bounded run, of "[[Crash 0], [Go, Fault 0]]"] run
  show ?thesis by auto
qed

text \<open>
  When a rename returns, the directory that was under the old name is under the new one with
  only the name in its manifest changed, the old name and the marker are free, nothing else in the
  spaces directory changed, and the report carries the identity that the space had before.
\<close>

theorem completed_rename_moves_the_space:
  assumes "rename_ready host inp previous name t d"
    and "rename_space host inp previous name (d, script) = (Done report, d1, rest)"
  shows "dk_spaces d1 (space_name_as_str previous) = None \<and> dk_spaces d1 (nmk t) = None \<and>
    elsewhere (rename_names t) d d1 \<and>
    Some (srr_space_id report) = map_option space_id_as_str (sm_space_id (rx_manifest t)) \<and>
    (\<exists>e. dk_spaces d1 (space_name_as_str name) = Some e \<and> manifest_replaced host ''rename'' (rx_dir t) (renamed_manifest t) e \<and>
       open_node host (space_name_as_str name) (Some e) (space_name_as_str name) =
         Ok \<lparr>sp_root = space_name_as_str name, sp_manifest = renamed_manifest t\<rparr>)"
proof -
  have wf: "wf_rename host t" using assms(1) by (simp add: rename_ready_def)
  have names: "nm_previous (rx_marker t) = previous" "nm_name (rx_marker t) = name"
    using assms(1) by (auto simp: rename_ready_def new_rename_marker_def dest: arg_cong [where f = nm_previous] arg_cong [where f = nm_name])
  have "at_destination t (elsewhere (rename_names t) d) absent (new_content host t) d1 \<and>
     (\<exists>ident. sm_space_id (rx_manifest t) = Some ident \<and> srr_space_id report = space_id_as_str ident)"
    using wp_run [OF wp_rename_space [OF assms(1)] _ assms(2), of "\<lambda>_. True"] by (simp add: list_all_iff)
  then show ?thesis
    using new_content_opens(1) [OF wf] by (auto simp: at_destination_def at_entry_def beside_def names)
qed

theorem completed_rename_moves_the_space_witness:
  "\<exists>report d1. rename_space rn_host rn_inputs rb_name rn_sample_name (rn_disk, []) = (Done report, d1, []) \<and>
     dk_spaces d1 ''work'' = None \<and> dk_spaces d1 ''play'' \<noteq> None \<and> srr_space_id report = replicate 32 (CHR ''b'')"
proof -
  have "runs (rename_space rn_host rn_inputs rb_name rn_sample_name) (\<lambda>_ _. True) rn_disk"
    by (rule runs_rename_space [OF rn_ready rn_quiet rn_clear]) (simp_all add: rn_inputs_def rn_thawed)
  then obtain report d1 where run: "rename_space rn_host rn_inputs rb_name rn_sample_name (rn_disk, []) = (Done report, d1, [])"
    by (auto simp: runs_def)
  from completed_rename_moves_the_space [OF rn_ready run] run
  show ?thesis by (auto simp: rn_tx_sel rb_manifest_def)
qed

text \<open>
  An undisturbed rename of an inactive, unfrozen space to a free name returns: when no other
  transaction is interrupted, the directory is within the scan bound, no legacy binding exists and
  no temporary manifest is left over, the operation ends with a report.
\<close>

theorem undisturbed_rename_completes:
  assumes "rename_ready host inp previous name t d" and "quiet_store host d"
    and "dn_files (rx_dir t) (manifest_temporary ''rename'') = None"
    and "rn_lease inp = Ok ()" and "rn_bindings inp = Ok 0" and "rn_migrate inp = Ok ()"
    and "\<And>ident. sm_space_id (rx_manifest t) = Some ident \<Longrightarrow> dk_spaces d (freeze_name ident) = None"
  shows "\<exists>report d'. rename_space host inp previous name (d, []) = (Done report, d', [])"
  using runs_rename_space [OF assms] by (auto simp: runs_def)

theorem undisturbed_rename_completes_witness:
  "\<exists>report d'. rename_space rn_host rn_inputs rb_name rn_sample_name (rn_disk, []) = (Done report, d', [])"
  by (rule undisturbed_rename_completes [OF rn_ready rn_quiet rn_clear]) (simp_all add: rn_inputs_def rn_thawed)

text \<open>
  C11: One undisturbed recovery run settles every interrupted rename of a store, up to the batch
  limit of 128, whatever state each of them was left in, and changes nothing that no transaction
  owns.
\<close>

theorem recovery_settles_every_rename:
  assumes "rename_family host ts" and "no_foreign_rename host ts d0" and "bounded_renames host ts d0"
    and "rename_store host ts d0 d"
  shows "\<exists>recovery d'. recover_renames host (d, []) = (Done recovery, d', []) \<and> rr_issues recovery = 0 \<and>
    (\<forall>t\<in>set ts. rename_done host t d') \<and> elsewhere (renaming_names ts) d0 d'"
  using runs_recover_renames [OF assms] by (auto simp: runs_def rename_store_def)

theorem recovery_settles_every_rename_witness:
  "\<exists>recovery d'. recover_renames rn_host (rn_disk, []) = (Done recovery, d', []) \<and> rename_done rn_host rn_tx d'"
  using recovery_settles_every_rename [OF rn_family rn_no_foreign rn_bounded rn_store] by auto

text \<open>
  A recovery run that is disturbed anywhere leaves every interrupted rename in a state from
  which recovery goes on, and a run that returns has recovered at most 128 transactions.
\<close>

theorem interrupted_rename_recovery_is_recoverable:
  assumes "rename_family host ts" and "no_foreign_rename host ts d0" and "rename_store host ts d0 d"
    and "recover_renames host (d, script) = (r, d', rest)"
  shows "rename_store host ts d0 d' \<and> (case r of Done recovery \<Rightarrow> rr_recovered recovery \<le> MAX_RENAMES | _ \<Rightarrow> True)"
  using wp_run [OF wp_recover_renames [OF assms(1-3)] _ assms(4), of "\<lambda>_. True"] by (cases r) (auto simp: list_all_iff)

theorem interrupted_rename_recovery_is_recoverable_witness:
  "rename_store rn_host [rn_tx] rn_disk (fst (snd (recover_renames rn_host (rn_disk, [Go, Crash 0]))))"
proof -
  obtain r d' rest where run: "recover_renames rn_host (rn_disk, [Go, Crash 0]) = (r, d', rest)" by (rule prod_cases3)
  from interrupted_rename_recovery_is_recoverable [OF rn_family rn_no_foreign rn_store run] run show ?thesis by simp
qed

text \<open>
  A rename to the same name, to a name that is taken, of a frozen space or of a space without
  a stable identity is refused under every fault script, and the store is left exactly as it was.
\<close>

theorem refused_rename_changes_nothing:
  assumes "previous = name \<or> dk_spaces d (space_name_as_str name) \<noteq> None \<or>
     (\<forall>s. open_node host (space_name_as_str previous) (dk_spaces d (space_name_as_str previous)) (space_name_as_str previous) = Ok s \<longrightarrow>
        sm_space_id (sp_manifest s) = None \<or> (\<exists>ident. sm_space_id (sp_manifest s) = Some ident \<and> frozen_on_disk host ident d))"
  shows "case rename_space host inp previous name (d, script) of
     (outcome, d', rest) \<Rightarrow> d' = d \<and> (\<forall>report. outcome \<noteq> Done report)"
proof -
  have refused: "wp (\<lambda>_. True) (rename_space host inp previous name) (\<lambda>_ _. False) (\<lambda>_ d'. d' = d) (\<lambda>d'. d' = d) d"
  proof (cases "previous = name")
    case False
    have "wp (\<lambda>_. True) (bind_io (reject_destination name) f) (\<lambda>_ _. False) (\<lambda>_ d'. d' = d) (\<lambda>d'. d' = d) d"
      if "dk_spaces d (space_name_as_str name) \<noteq> None" for f :: "unit \<Rightarrow> space_rename_report io"
      unfolding reject_destination_def
      by (intro wp_bind [of _ "bind_io _ _"] wp_bind [of _ "entry_exists _"] wp_entry_exists) (use that in \<open>auto intro: wp_fail\<close>)
    then show ?thesis
      unfolding rename_space_def validate_distinct_names_def
      by (intro wp_bind [of _ "lift _"] wp_lift wp_bind [of _ "rename_guards _ _ _"] wp_rename_guards)
        (use assms False in \<open>auto\<close>)
  qed (auto simp: rename_space_def validate_distinct_names_def intro!: wp_bind wp_lift)
  obtain r d' rest where run: "rename_space host inp previous name (d, script) = (r, d', rest)" by (rule prod_cases3)
  have "post (\<lambda>_ _. False) (\<lambda>_ d'. d' = d) (\<lambda>d'. d' = d) r d'"
    using wp_run [OF refused _ run] by (simp add: list_all_iff)
  then show ?thesis unfolding run by (cases r) auto
qed

theorem refused_rename_changes_nothing_witness:
  "case rename_space rn_host rn_inputs rb_name (SpaceName ''other'') (rn_disk, [Go, Fault 0]) of
     (outcome, d', rest) \<Rightarrow> d' = rn_disk \<and> (\<forall>report. outcome \<noteq> Done report)"
  by (rule refused_rename_changes_nothing) (simp add: rn_disk_def)

end
