(* ===== verification/Space_Upgrade.thy ===== *)
theory Space_Upgrade
  imports Rename_Properties
begin

text \<open>
  The upgrade of a legacy space to a stable identity (\<open>store/upgrade.rs\<close>): the manifest is replaced
  in place, so an interrupted upgrade leaves the legacy space or the upgraded one. The lifecycle
  lease, the runtime migration and the generated identifier are inputs.
\<close>

subsection \<open>The operation\<close>

record space_upgrade_report =
  sur_name :: string
  sur_previous_schema :: nat
  sur_schema :: nat
  sur_space_id :: "string option"
  sur_would_change :: bool
  sur_changed :: bool

record upgrade_inputs =
  up_lease :: "unit result"
  up_migrate :: "unit result"
  up_id :: "space_id result"

definition upgrade_report :: "space \<Rightarrow> space_upgrade_report" where
  "upgrade_report s =
     (case sm_space_id (sp_manifest s) of
        Some ident \<Rightarrow>
          \<lparr>sur_name = space_name_as_str (sm_name (sp_manifest s)), sur_previous_schema = sm_schema_version (sp_manifest s),
           sur_schema = sm_schema_version (sp_manifest s), sur_space_id = Some (space_id_as_str ident),
           sur_would_change = False, sur_changed = False\<rparr>
      | None \<Rightarrow>
          \<lparr>sur_name = space_name_as_str (sm_name (sp_manifest s)), sur_previous_schema = sm_schema_version (sp_manifest s),
           sur_schema = STABLE_SCHEMA_VERSION, sur_space_id = None, sur_would_change = True, sur_changed = False\<rparr>)"

definition upgrade_guards :: "store_host \<Rightarrow> upgrade_inputs \<Rightarrow> space_name \<Rightarrow> space io" where
  "upgrade_guards host inp name =
     bind_io (ensure_no_rename_target host name) (\<lambda>_.
     bind_io (ensure_no_rollback_target host name) (\<lambda>_.
     bind_io (store_open host name) (\<lambda>space.
     bind_io (ensure_not_frozen host space) (\<lambda>_.
     bind_io (lift (up_lease inp)) (\<lambda>_.
     ret space)))))"

definition upgrade_plan :: "store_host \<Rightarrow> upgrade_inputs \<Rightarrow> space_name \<Rightarrow> space_upgrade_report io" where
  "upgrade_plan host inp name =
     bind_io (upgrade_guards host inp name) (\<lambda>space. ret (upgrade_report space))"

definition upgraded_manifest :: "space_manifest \<Rightarrow> space_id \<Rightarrow> space_manifest" where
  "upgraded_manifest manifest ident =
     manifest\<lparr>sm_schema_version := STABLE_SCHEMA_VERSION, sm_layout := Some Profile, sm_space_id := Some ident\<rparr>"

definition assign_identity :: "store_host \<Rightarrow> upgrade_inputs \<Rightarrow> space_name \<Rightarrow> space \<Rightarrow> space_upgrade_report io" where
  "assign_identity host inp name space =
     bind_io (lift (up_id inp)) (\<lambda>ident.
     bind_io (replace_manifest host (sp_root space) (upgraded_manifest (sp_manifest space) ident) ''upgrade'') (\<lambda>_.
     bind_io (store_open host name) (\<lambda>upgraded.
     bind_io (lift (up_migrate inp)) (\<lambda>_.
     case sm_space_id (sp_manifest upgraded) of
       None \<Rightarrow> fail (QErr SystemError ''the upgraded space did not retain its stable identity'')
     | Some ident \<Rightarrow>
         ret \<lparr>sur_name = space_name_as_str (sm_name (sp_manifest upgraded)), sur_previous_schema = PROFILE_SCHEMA_VERSION,
              sur_schema = STABLE_SCHEMA_VERSION, sur_space_id = Some (space_id_as_str ident),
              sur_would_change = True, sur_changed = True\<rparr>))))"

definition upgrade_space :: "store_host \<Rightarrow> upgrade_inputs \<Rightarrow> space_name \<Rightarrow> space_upgrade_report io" where
  "upgrade_space host inp name =
     bind_io (upgrade_guards host inp name) (\<lambda>space.
     if sm_space_id (sp_manifest space) \<noteq> None
     then bind_io (lift (up_migrate inp)) (\<lambda>_. ret (upgrade_report space))
     else if sm_schema_version (sp_manifest space) \<noteq> PROFILE_SCHEMA_VERSION \<or> effective_layout (sp_manifest space) \<noteq> Profile
     then fail (QErr Unsupported ''only a valid legacy schema-1 profile can be upgraded'')
     else assign_identity host inp name space)"

subsection \<open>What an upgrade can leave behind\<close>

lemma wp_upgrade_guards:
  assumes "\<And>e. E e d" and "C d"
    and "\<And>s. open_node host (space_name_as_str name) (dk_spaces d (space_name_as_str name)) (space_name_as_str name) = Ok s \<Longrightarrow> Q s d"
  shows "wp F (upgrade_guards host inp name) Q E C d"
proof -
  have "wp F (bind_io (store_open host name) (\<lambda>space. bind_io (ensure_not_frozen host space) (\<lambda>_.
     bind_io (lift (up_lease inp)) (\<lambda>_. ret space)))) Q E C d"
    by (intro wp_bind wp_store_open wp_ensure_not_frozen wp_lift wp_ret) (use assms in auto)
  then show ?thesis
    unfolding upgrade_guards_def
    by (intro wp_keeps_bind [OF keeps_guards(1)] wp_keeps_bind [OF keeps_guards(2)]) (use assms in auto)
qed

lemma elsewhere_frames: "frames root (elsewhere {root} d)"
  by (auto simp: frames_def elsewhere_def)

definition upgrade_complete ::
  "store_host \<Rightarrow> upgrade_inputs \<Rightarrow> string \<Rightarrow> dir_node \<Rightarrow> space_manifest \<Rightarrow> disk \<Rightarrow> disk \<Rightarrow> bool" where
  "upgrade_complete host inp root n manifest d d' \<longleftrightarrow>
     (\<exists>ident. up_id inp = Ok ident \<and>
        at_entry root (manifest_replaced host ''upgrade'' n (upgraded_manifest manifest ident)) (elsewhere {root} d) d')"

text \<open>The directory is as before, up to its own temporary file, or holds the upgraded manifest.\<close>

definition upgrade_effect ::
  "store_host \<Rightarrow> upgrade_inputs \<Rightarrow> string \<Rightarrow> dir_node \<Rightarrow> space_manifest \<Rightarrow> disk \<Rightarrow> disk \<Rightarrow> bool" where
  "upgrade_effect host inp root n manifest d d' \<longleftrightarrow>
     at_entry root (manifest_pending host ''upgrade'' n) (elsewhere {root} d) d' \<or>
     upgrade_complete host inp root n manifest d d'"

lemma wp_assign_identity:
  assumes start: "at_entry root (manifest_pending host ''upgrade'' n) (elsewhere {root} d) d" and root: "sp_root s = root"
  shows "wp F (assign_identity host inp name s)
     (\<lambda>_. upgrade_complete host inp root n (sp_manifest s) d)
     (\<lambda>_. upgrade_effect host inp root n (sp_manifest s) d) (upgrade_effect host inp root n (sp_manifest s) d) d"
    (is "wp F _ (\<lambda>_. ?Q) (\<lambda>_. ?S) _ _")
proof -
  have tail: "wp F (bind_io (store_open host name) (\<lambda>upgraded. bind_io (lift (up_migrate inp)) (\<lambda>_.
     case sm_space_id (sp_manifest upgraded) of
       None \<Rightarrow> fail (QErr SystemError ''the upgraded space did not retain its stable identity'')
     | Some ident \<Rightarrow> ret (f upgraded ident)))) (\<lambda>_. ?Q) (\<lambda>_. ?S) ?S d'"
    if "?Q d'" for d' and f :: "space \<Rightarrow> space_id \<Rightarrow> space_upgrade_report"
  proof -
    have "?S d'" using that by (simp add: upgrade_effect_def)
    then show ?thesis
      using that by (intro wp_bind wp_keeps [OF keeps_store_open] wp_lift) (auto split: option.split intro!: wp_fail wp_ret)
  qed
  have replace: "wp F (replace_manifest host root (upgraded_manifest (sp_manifest s) ident) ''upgrade'') (\<lambda>_. ?Q) (\<lambda>_. ?S) ?S d"
    if "up_id inp = Ok ident" for ident
    by (rule wp_conseq [OF triple_wp [OF triple_replace_manifest [OF elsewhere_frames] start]])
      (use that in \<open>auto simp: upgrade_effect_def upgrade_complete_def\<close>)
  show ?thesis
    unfolding assign_identity_def root
    by (intro wp_bind [of _ "lift (up_id inp)"] wp_lift wp_bind [of _ "replace_manifest _ _ _ _"] wp_conseq [OF replace] tail)
      (use start in \<open>auto simp: upgrade_effect_def\<close>)
qed

text \<open>
  C24: Under every fault script an upgrade changes nothing but the manifest of the one space and the
  upgrade's own temporary file: the space directory is as it was, with at most that temporary file
  besides, or its manifest is completely the upgraded one. When the upgrade of a legacy space
  returns, the manifest on disk is the upgraded one.
\<close>

theorem upgrade_is_atomic:
  assumes "dk_spaces d (space_name_as_str name) = Some (DirNode n)"
    and "clean_inner (h_uid host) (dn_files n (manifest_temporary ''upgrade''))"
    and "open_node host (space_name_as_str name) (Some (DirNode n)) (space_name_as_str name) =
       Ok \<lparr>sp_root = space_name_as_str name, sp_manifest = manifest\<rparr>"
  shows "case upgrade_space host inp name (d, script) of (outcome, d', rest) \<Rightarrow>
     upgrade_effect host inp (space_name_as_str name) n manifest d d' \<and>
     (\<forall>report. outcome = Done report \<longrightarrow> sm_space_id manifest = None \<longrightarrow>
        upgrade_complete host inp (space_name_as_str name) n manifest d d')"
proof -
  let ?root = "space_name_as_str name"
  let ?S = "upgrade_effect host inp ?root n manifest d"
  have "manifest_pending host ''upgrade'' n (DirNode n)"
    unfolding manifest_pending_def with_files_def
    by (rule exI [of _ "dn_files n (manifest_temporary ''upgrade'')"]) (use assms(2) in simp)
  then have start: "at_entry ?root (manifest_pending host ''upgrade'' n) (elsewhere {?root} d) d"
    using assms(1) by (simp add: at_entry_def)
  then have S: "?S d" by (simp add: upgrade_effect_def)
  let ?Q = "\<lambda>d'. ?S d' \<and> (sm_space_id manifest = None \<longrightarrow> upgrade_complete host inp ?root n manifest d d')"
  have assign: "wp (\<lambda>_. True) (assign_identity host inp name \<lparr>sp_root = ?root, sp_manifest = manifest\<rparr>) (\<lambda>_. ?Q) (\<lambda>_. ?S) ?S d"
    using wp_assign_identity [OF start, of "\<lparr>sp_root = ?root, sp_manifest = manifest\<rparr>"]
    by (rule wp_conseq) (auto simp: upgrade_effect_def)
  have "wp (\<lambda>_. True) (upgrade_space host inp name) (\<lambda>_. ?Q) (\<lambda>_. ?S) ?S d"
    unfolding upgrade_space_def
    by (rule wp_bind, rule wp_upgrade_guards) (use assms(1,3) S assign in \<open>auto intro!: wp_bind wp_lift wp_ret wp_fail\<close>)
  moreover obtain outcome d' rest where run: "upgrade_space host inp name (d, script) = (outcome, d', rest)" by (rule prod_cases3)
  ultimately have "post (\<lambda>_. ?Q) (\<lambda>_. ?S) ?S outcome d'" by (rule wp_any_script)
  then show ?thesis unfolding run by (cases outcome) auto
qed

text \<open>
  An upgrade that stopped while it wrote its temporary manifest blocks every later upgrade of
  that space: nothing removes \<open>.quarters-upgrade.tmp\<close>, and the exclusive creation of the same file
  fails, so under every fault script a later upgrade does not return and leaves the disk as it is,
  the file included.
\<close>

theorem interrupted_upgrade_blocks_every_later_one:
  assumes "dk_spaces d (space_name_as_str name) = Some (DirNode n)"
    and "dn_files n (manifest_temporary ''upgrade'') \<noteq> None"
    and "open_node host (space_name_as_str name) (Some (DirNode n)) (space_name_as_str name) =
       Ok \<lparr>sp_root = space_name_as_str name, sp_manifest = manifest\<rparr>"
    and "sm_space_id manifest = None"
  shows "case upgrade_space host inp name (d, script) of (outcome, d', rest) \<Rightarrow>
     d' = d \<and> (\<forall>report. outcome \<noteq> Done report)"
proof -
  let ?root = "space_name_as_str name"
  have files: "inner_files d ?root = Some (dn_files n)" using assms(1) by (simp add: inner_files_def)
  have create: "wp (\<lambda>_. True) (write_private_inner uid ?root (manifest_temporary ''upgrade'') b) Q (\<lambda>_ d'. d' = d) (\<lambda>d'. d' = d) d"
    for uid b Q
    unfolding write_private_inner_def by (rule wp_bind, rule wp_syscall) (use files assms(2) in auto)
  have replace: "wp (\<lambda>_. True) (replace_manifest host ?root m ''upgrade'') Q (\<lambda>_ d'. d' = d) (\<lambda>d'. d' = d) d" for m Q
    unfolding replace_manifest_def by (rule wp_bind, rule wp_lift, simp) (rule wp_bind, rule create)
  have "wp (\<lambda>_. True) (assign_identity host inp name \<lparr>sp_root = ?root, sp_manifest = manifest\<rparr>) (\<lambda>_ _. False) (\<lambda>_ d'. d' = d) (\<lambda>d'. d' = d) d"
    unfolding assign_identity_def by (rule wp_bind, rule wp_lift, simp) (simp add: wp_bind replace)
  then have "wp (\<lambda>_. True) (upgrade_space host inp name) (\<lambda>_ _. False) (\<lambda>_ d'. d' = d) (\<lambda>d'. d' = d) d"
    unfolding upgrade_space_def
    by (intro wp_bind [of _ "upgrade_guards _ _ _"] wp_upgrade_guards) (use assms in \<open>auto intro!: wp_fail\<close>)
  moreover obtain outcome d' rest where run: "upgrade_space host inp name (d, script) = (outcome, d', rest)" by (rule prod_cases3)
  ultimately have "post (\<lambda>_ _. False) (\<lambda>_ d'. d' = d) (\<lambda>d'. d' = d) outcome d'" by (rule wp_any_script)
  then show ?thesis unfolding run by (cases outcome) auto
qed

subsection \<open>A sample store\<close>

definition up_manifest :: space_manifest where
  "up_manifest = rb_manifest\<lparr>sm_schema_version := 1, sm_layout := None, sm_space_id := None\<rparr>"

definition up_host :: store_host where
  "up_host = rb_host\<lparr>h_json := \<lparr>mj_header = \<lambda>_. Some 1, mj_manifest = \<lambda>_. Some up_manifest\<rparr>,
     h_manifest_bytes := (\<lambda>_. ''n''),
     h_order := (\<lambda>m. if m ''work'' = None then [] else [''work''])\<rparr>"

definition up_disk :: disk where
  "up_disk = \<lparr>dk_spaces = [''work'' \<mapsto> DirNode (rb_dir 10)], dk_trash = [], dk_next = 100\<rparr>"

definition up_inputs :: upgrade_inputs where
  "up_inputs = \<lparr>up_lease = Ok (), up_migrate = Ok (), up_id = Ok rn_sample_id\<rparr>"

definition up_space :: space where "up_space = \<lparr>sp_root = ''work'', sp_manifest = up_manifest\<rparr>"

definition up_left :: dir_node where
  "up_left = (rb_dir 10)\<lparr>dn_files := (dn_files (rb_dir 10))(manifest_temporary ''upgrade'' \<mapsto> (created_stat 0 101 0, []))\<rparr>"

lemma up_host_sel: "h_uid up_host = 0" "h_manifest_bytes up_host x = ''n''"
  "h_order up_host m = (if m ''work'' = None then [] else [''work''])" "mj_header (h_json up_host) b = Some 1"
  "mj_manifest (h_json up_host) b = Some up_manifest"
  by (simp_all add: up_host_def rb_host_def)

lemma up_opens: "open_node up_host ''work'' (Some (DirNode (rb_dir i))) ''work'' = Ok up_space"
proof -
  let ?d = "as_space_dir (DirNode (rb_dir i))"
  have "validate_space_anchors 0 ?d = Ok ()"
    using rb_opens [of i] by (simp add: open_node_def open_path_ok rb_host_def)
  moreover have "read_private_file 0 (sd_manifest ?d) = Ok ''m''"
    by (simp add: rb_dir_def read_private_file_quiet MAX_MANIFEST_BYTES_def)
  moreover have "validate_stored_manifest up_manifest = Ok ()"
    using rb_manifest_valid by (simp add: up_manifest_def validate_stored_manifest_ok validate_manifest_layout_def schema_versions)
  ultimately have "read_validated_manifest (h_json up_host) 0 ?d ''work'' = Ok up_manifest"
    by (simp add: read_validated_manifest_def up_host_sel SUPPORTED_SCHEMA_VERSIONS_def schema_versions)
      (simp add: up_manifest_def rb_manifest_def rb_name_def)
  then show ?thesis
    using \<open>validate_space_anchors 0 ?d = Ok ()\<close> by (simp add: open_node_def open_path_ok up_space_def up_host_sel)
qed

theorem upgrade_is_atomic_witness:
  "case upgrade_space up_host up_inputs rb_name (up_disk, [Go, Crash 0]) of (outcome, d', rest) \<Rightarrow>
     upgrade_effect up_host up_inputs ''work'' (rb_dir 10) up_manifest up_disk d'"
proof -
  have "dk_spaces up_disk (space_name_as_str rb_name) = Some (DirNode (rb_dir 10))"
    by (simp add: up_disk_def rb_name_def)
  moreover have "clean_inner (h_uid up_host) (dn_files (rb_dir 10) (manifest_temporary ''upgrade''))"
    by (simp add: rb_dir_def clean_inner_def)
  moreover have "open_node up_host (space_name_as_str rb_name) (Some (DirNode (rb_dir 10))) (space_name_as_str rb_name) =
       Ok \<lparr>sp_root = space_name_as_str rb_name, sp_manifest = up_manifest\<rparr>"
    using up_opens by (simp add: rb_name_def up_space_def)
  ultimately show ?thesis
    using upgrade_is_atomic [of up_disk rb_name "rb_dir 10" up_host up_manifest up_inputs "[Go, Crash 0]"]
    by (auto simp: rb_name_def split: prod.splits)
qed

lemma up_not_marker: "marker_id_from_name ''work'' = None" "parse_rename_marker_name ''work'' = None"
  by (simp_all add: portable_not_control portable_name_grammar_def ascii_defs)

text \<open>One entry is listed; each of the scans makes two calls on it.\<close>

lemma up_scan: "read_dir (h_order up_host) a (up_disk, Go # s) = (Done [''work''], up_disk, s)"
  "next_entry a (up_disk, Go # s) = (Done (), up_disk, s)"
  by (simp_all add: read_dir_def next_entry_def syscall_def up_host_sel up_disk_def)

lemma up_no_rename_target: "ensure_no_rename_target up_host nm (up_disk, Go # Go # s) = (Done (), up_disk, s)"
  by (simp add: ensure_no_rename_target_def rename_target_exists_def bind_io_def up_scan rename_target_entry_def lift_def ret_def
      scan_observe_def sat_add_exact u64_max_num MAX_DIRECTORY_SCAN_ENTRIES_def valid_marker_entry_def read_rename_marker_def up_not_marker)

lemma up_no_rollback_target: "ensure_no_rollback_target up_host nm (up_disk, Go # Go # s) = (Done (), up_disk, s)"
  by (simp add: ensure_no_rollback_target_def rollback_observation_for_unlocked_def load_recovery_inventory_def scan_directory_def
      scan_entry_def bind_io_def up_scan lift_def ret_def inventory_entry_def up_not_marker reject_duplicate_targets_def Let_def
      scan_observe_def sat_add_exact u64_max_num MAX_DIRECTORY_SCAN_ENTRIES_def)

lemma up_entry: "dk_spaces up_disk ''work'' = Some (DirNode (rb_dir 10))" "space_name_as_str rb_name = ''work''"
  by (simp_all add: up_disk_def rb_name_def)

lemma up_store_open: "store_open up_host rb_name (up_disk, Go # Go # Go # Go # Go # Go # s) = (Done up_space, up_disk, s)"
  by (simp add: store_open_def bind_io_def up_no_rename_target up_no_rollback_target entry_exists_def read_entry_def syscall_def
      ret_def open_path_def lift_def up_entry up_opens)

lemma up_interrupted:
  "upgrade_space up_host up_inputs rb_name (up_disk, replicate 11 Go @ [Crash 0]) =
     (Crashed, up_disk\<lparr>dk_spaces := [''work'' \<mapsto> DirNode up_left], dk_next := 102\<rparr>, [])"
proof -
  have script: "replicate 11 Go @ [Crash 0] = Go # Go # Go # Go # Go # Go # Go # Go # Go # Go # Go # [Crash 0]"
    by (simp add: numeral_eq_Suc)
  have guards: "upgrade_guards up_host up_inputs rb_name (up_disk, Go # Go # Go # Go # Go # Go # Go # Go # Go # Go # s) =
     (Done up_space, up_disk, s)" for s
    by (simp add: upgrade_guards_def bind_io_def up_no_rename_target up_no_rollback_target up_store_open ensure_not_frozen_def
        freeze_state_def up_space_def up_manifest_def lift_def ret_def up_inputs_def)
  have clear: "dn_files (rb_dir 10) (manifest_temporary ''upgrade'') = None" by (simp add: rb_dir_def)
  have valid: "validate_stored_manifest (upgraded_manifest up_manifest rn_sample_id) = Ok ()"
    using rb_manifest_valid
    by (simp add: upgraded_manifest_def up_manifest_def validate_stored_manifest_ok validate_manifest_layout_def schema_versions)
  have "assign_identity up_host up_inputs rb_name up_space (up_disk, [Go, Crash 0]) =
     (Crashed, up_disk\<lparr>dk_spaces := [''work'' \<mapsto> DirNode up_left], dk_next := 102\<rparr>, [])"
    by (simp add: assign_identity_def bind_io_def lift_def ret_def up_inputs_def up_space_def replace_manifest_def valid
        write_private_inner_def syscall_def inner_files_def up_disk_def clear put_inner_def up_host_sel up_left_def)
  then show ?thesis
    unfolding script upgrade_space_def bind_io_def guards
    by (simp add: up_space_def up_manifest_def effective_layout_def schema_versions)
qed

theorem interrupted_upgrade_blocks_every_later_one_witness:
  "\<exists>d1. upgrade_space up_host up_inputs rb_name (up_disk, replicate 11 Go @ [Crash 0]) = (Crashed, d1, []) \<and>
     (case upgrade_space up_host up_inputs rb_name (d1, []) of (outcome, d', rest) \<Rightarrow> d' = d1 \<and> (\<forall>report. outcome \<noteq> Done report))"
proof -
  let ?d = "up_disk\<lparr>dk_spaces := [''work'' \<mapsto> DirNode up_left], dk_next := 102\<rparr>"
  have "dk_spaces ?d (space_name_as_str rb_name) = Some (DirNode up_left)" by (simp add: rb_name_def)
  moreover have "dn_files up_left (manifest_temporary ''upgrade'') \<noteq> None" by (simp add: up_left_def)
  moreover have "with_files (rb_dir 10) (dn_files up_left) = DirNode up_left" by (simp add: with_files_def up_left_def)
  then have "open_node up_host ''work'' (Some (DirNode up_left)) ''work'' = Ok up_space"
    using open_with_files [of "dn_files up_left" "rb_dir 10" up_host "''work''" "''work''"] up_opens by (simp add: up_left_def)
  then have "open_node up_host (space_name_as_str rb_name) (Some (DirNode up_left)) (space_name_as_str rb_name) =
       Ok \<lparr>sp_root = space_name_as_str rb_name, sp_manifest = up_manifest\<rparr>"
    by (simp add: rb_name_def up_space_def)
  moreover have "sm_space_id up_manifest = None" by (simp add: up_manifest_def)
  ultimately have later: "case upgrade_space up_host up_inputs rb_name (?d, []) of (outcome, d', rest) \<Rightarrow> d' = ?d \<and> (\<forall>report. outcome \<noteq> Done report)"
    by (rule interrupted_upgrade_blocks_every_later_one)
  show ?thesis by (rule exI [of _ ?d], rule conjI [OF up_interrupted later])
qed

end
