(* ===== verification/Text.thy ===== *)
theory Text
  imports Quarters_Prelude
begin

text \<open>
  Presentation of untrusted text: \<open>text.rs\<close> of the core crate, and the part of the standard
  library it rests on. A Rust \<open>char\<close> is its code point, a \<open>str\<close> the list of its code points;
  \<open>utf8\<close> is its encoding and \<open>to_string_lossy\<close> the decoder of \<open>OsStr\<close>, which replaces every
  maximal invalid prefix by U+FFFD.
\<close>

subsection \<open>Code points and their encoding\<close>

type_synonym ustr = "nat list"

definition ascii :: "string \<Rightarrow> ustr" where
  "ascii s = map of_char s"

definition len_utf8 :: "nat \<Rightarrow> nat" where
  "len_utf8 c = (if c < 128 then 1 else if c < 2048 then 2 else if c < 65536 then 3 else 4)"

definition utf8_len :: "ustr \<Rightarrow> nat" where
  "utf8_len s = sum_list (map len_utf8 s)"

definition utf8_char :: "nat \<Rightarrow> nat list" where
  "utf8_char c =
     (if c < 128 then [c]
      else if c < 2048 then [192 + c div 64, 128 + c mod 64]
      else if c < 65536 then [224 + c div 4096, 128 + c div 64 mod 64, 128 + c mod 64]
      else [240 + c div 262144, 128 + c div 4096 mod 64, 128 + c div 64 mod 64, 128 + c mod 64])"

definition utf8 :: "ustr \<Rightarrow> string" where
  "utf8 s = map char_of (concat (map utf8_char s))"

lemma length_utf8_char: "length (utf8_char c) = len_utf8 c"
  by (simp add: utf8_char_def len_utf8_def)

lemma length_utf8: "length (utf8 s) = utf8_len s"
  by (induction s) (simp_all add: utf8_def utf8_len_def length_utf8_char)

lemma utf8_len_append [simp]: "utf8_len (s @ t) = utf8_len s + utf8_len t"
  and utf8_len_Cons [simp]: "utf8_len (c # s) = len_utf8 c + utf8_len s"
  and utf8_len_Nil [simp]: "utf8_len [] = 0"
  by (simp_all add: utf8_len_def)

lemma len_utf8_pos: "1 \<le> len_utf8 c"
  by (simp add: len_utf8_def)

lemma set_ascii: "c \<in> set (ascii s) \<Longrightarrow> c < 256"
  using of_char_nat_less_256 by (auto simp: ascii_def)

subsection \<open>Lossy decoding\<close>

definition REPLACEMENT :: nat where "REPLACEMENT = 65533"

definition continuation :: "nat \<Rightarrow> bool" where
  "continuation b \<longleftrightarrow> 128 \<le> b \<and> b \<le> 191"

definition second_of_three :: "nat \<Rightarrow> nat \<Rightarrow> bool" where
  "second_of_three a b \<longleftrightarrow>
     (if a = 224 then 160 \<le> b \<and> b \<le> 191 else if a = 237 then 128 \<le> b \<and> b \<le> 159 else continuation b)"

definition second_of_four :: "nat \<Rightarrow> nat \<Rightarrow> bool" where
  "second_of_four a b \<longleftrightarrow>
     (if a = 240 then 144 \<le> b \<and> b \<le> 191 else if a = 244 then 128 \<le> b \<and> b \<le> 143 else continuation b)"

text \<open>One step: the decoded character and the number of bytes it consumed.\<close>

definition decode_step :: "nat \<Rightarrow> nat list \<Rightarrow> nat \<times> nat" where
  "decode_step a rest =
     (let ok2 = (case rest of b # _ \<Rightarrow> continuation b | [] \<Rightarrow> False);
          ok3 = (case rest of b # _ \<Rightarrow> second_of_three a b | [] \<Rightarrow> False);
          ok4 = (case rest of b # _ \<Rightarrow> second_of_four a b | [] \<Rightarrow> False);
          third = (case rest of _ # c # _ \<Rightarrow> continuation c | _ \<Rightarrow> False);
          fourth = (case rest of _ # _ # d # _ \<Rightarrow> continuation d | _ \<Rightarrow> False)
      in if a < 128 then (a, 1)
         else if 194 \<le> a \<and> a \<le> 223 then
           (if ok2 then ((a - 192) * 64 + (rest ! 0 - 128), 2) else (REPLACEMENT, 1))
         else if 224 \<le> a \<and> a \<le> 239 then
           (if \<not> ok3 then (REPLACEMENT, 1)
            else if \<not> third then (REPLACEMENT, 2)
            else ((a - 224) * 4096 + (rest ! 0 - 128) * 64 + (rest ! 1 - 128), 3))
         else if 240 \<le> a \<and> a \<le> 244 then
           (if \<not> ok4 then (REPLACEMENT, 1)
            else if \<not> third then (REPLACEMENT, 2)
            else if \<not> fourth then (REPLACEMENT, 3)
            else ((a - 240) * 262144 + (rest ! 0 - 128) * 4096 + (rest ! 1 - 128) * 64 + (rest ! 2 - 128), 4))
         else (REPLACEMENT, 1))"

function decode_lossy :: "nat list \<Rightarrow> ustr" where
  "decode_lossy [] = []"
| "decode_lossy (a # rest) =
     (case decode_step a rest of (c, used) \<Rightarrow> c # decode_lossy (drop (used - 1) rest))"
  by pat_completeness auto
termination by (relation "measure length") auto

definition to_string_lossy :: "string \<Rightarrow> ustr" where
  "to_string_lossy s = decode_lossy (map of_char s)"

lemma decode_step_ascii: "fst (decode_step a rest) < 128 \<longleftrightarrow> a < 128"
  unfolding decode_step_def Let_def REPLACEMENT_def
  by (auto simp: second_of_three_def second_of_four_def continuation_def split: list.splits if_splits)

lemma decode_step_ascii_value: "a < 128 \<Longrightarrow> decode_step a rest = (a, 1)"
  by (simp add: decode_step_def)

lemma decode_lossy_ascii: "\<forall>b\<in>set s. b < 128 \<Longrightarrow> decode_lossy s = s"
  by (induction s) (auto simp: decode_step_ascii_value)

lemma decode_lossy_ascii_only:
  "\<forall>c\<in>set (decode_lossy s). c < 128 \<Longrightarrow> decode_lossy s = s"
proof (induction s rule: decode_lossy.induct)
  case (2 a rest)
  obtain c used where step: "decode_step a rest = (c, used)" by fastforce
  with "2.prems" have "c < 128" by simp
  then have "a < 128" using decode_step_ascii [of a rest] step by simp
  then have "c = a" and "used = 1" using step by (auto simp: decode_step_ascii_value)
  then show ?case using 2 step by simp
qed simp

lemma map_of_char_inj: "map (of_char :: char \<Rightarrow> nat) s = map of_char t \<longleftrightarrow> s = t"
  by (simp add: inj_map_eq_map inj_of_char)

lemma to_string_lossy_ascii:
  assumes "\<forall>b\<in>set t. (of_char b :: nat) < 128"
  shows "to_string_lossy s = ascii t \<longleftrightarrow> s = t"
proof
  assume eq: "to_string_lossy s = ascii t"
  have "decode_lossy (map of_char s) = map of_char s"
    by (rule decode_lossy_ascii_only) (use eq assms in \<open>auto simp: to_string_lossy_def ascii_def\<close>)
  with eq show "s = t" by (simp add: to_string_lossy_def ascii_def map_of_char_inj)
next
  assume "s = t"
  then show "to_string_lossy s = ascii t"
    using assms by (simp add: to_string_lossy_def ascii_def decode_lossy_ascii)
qed

subsection \<open>Characters that must not be displayed\<close>

definition is_control :: "nat \<Rightarrow> bool" where
  "is_control c \<longleftrightarrow> c < 32 \<or> (127 \<le> c \<and> c \<le> 159)"

definition invisible_ranges :: "(nat \<times> nat) list" where
  "invisible_ranges =
     [(0xad, 0xad), (0x600, 0x605), (0x61c, 0x61c), (0x6dd, 0x6dd), (0x70f, 0x70f), (0x890, 0x891),
      (0x8e2, 0x8e2), (0x180e, 0x180e), (0x200b, 0x200f), (0x202a, 0x202e), (0x2060, 0x2064),
      (0x2066, 0x206f), (0x2d7f, 0x2d7f), (0xfeff, 0xfeff), (0xfff9, 0xfffb), (0x110bd, 0x110bd),
      (0x110cd, 0x110cd), (0x13430, 0x1343f), (0x1bca0, 0x1bca3), (0x1d173, 0x1d17a),
      (0xe0001, 0xe0001), (0xe0020, 0xe007f)]"

definition unsafe_presentation_character :: "nat \<Rightarrow> bool" where
  "unsafe_presentation_character c \<longleftrightarrow>
     is_control c \<or> (\<exists>(lo, hi)\<in>set invisible_ranges. lo \<le> c \<and> c \<le> hi)"

fun hex_nat :: "nat \<Rightarrow> string" where
  "hex_nat n = (if n < 16 then [hex_digits ! n] else hex_nat (n div 16) @ [hex_digits ! (n mod 16)])"

definition escape_unicode :: "nat \<Rightarrow> ustr" where
  "escape_unicode c = ascii (CHR 0x5C # ''u{'' @ hex_nat c @ ''}'')"

definition escape_untrusted_text :: "ustr \<Rightarrow> ustr" where
  "escape_untrusted_text value =
     concat (map (\<lambda>c. if unsafe_presentation_character c then escape_unicode c else [c]) value)"

definition escape_untrusted_text_bounded :: "ustr \<Rightarrow> nat \<Rightarrow> ustr" where
  "escape_untrusted_text_bounded value maximum =
     (let escaped = escape_untrusted_text value
      in if length escaped \<le> maximum then escaped
         else if maximum \<le> 3 then take maximum escaped
         else take (maximum - 3) escaped @ ascii ''...'')"

text \<open>The loop that keeps whole characters while their encoding fits the budget.\<close>

fun take_bytes :: "nat \<Rightarrow> ustr \<Rightarrow> ustr \<Rightarrow> ustr" where
  "take_bytes budget bounded [] = bounded"
| "take_bytes budget bounded (c # cs) =
     (if sat_add (utf8_len bounded) (len_utf8 c) > budget then bounded
      else take_bytes budget (bounded @ [c]) cs)"

definition escape_untrusted_text_bounded_bytes :: "ustr \<Rightarrow> nat \<Rightarrow> ustr" where
  "escape_untrusted_text_bounded_bytes value maximum =
     (let escaped = escape_untrusted_text value
      in if utf8_len escaped \<le> maximum then escaped
         else let suffix = (if 3 \<le> maximum then ascii ''...'' else []);
                  budget = maximum - utf8_len suffix
              in take_bytes budget [] escaped @ suffix)"

definition encode_untrusted_text_hex_bounded :: "ustr \<Rightarrow> nat \<Rightarrow> string" where
  "encode_untrusted_text_hex_bounded value maximum_input_bytes =
     (let bytes = utf8 value; retained = min (length bytes) maximum_input_bytes
      in ''hex:'' @ concat (map hex_byte (take retained bytes))
         @ (if retained < length bytes then ''...'' else []))"

subsection \<open>Inert and bounded output\<close>

lemma printable_ascii_safe: "32 \<le> c \<Longrightarrow> c < 127 \<Longrightarrow> \<not> unsafe_presentation_character c"
  by (simp add: unsafe_presentation_character_def is_control_def invisible_ranges_def)

lemma lower_hex_printable: "is_lower_hex b \<Longrightarrow> 32 \<le> (of_char b :: nat) \<and> (of_char b :: nat) < 127"
  by (auto simp: is_lower_hex_def ascii_defs)

lemma hex_nat_lower: "b \<in> set (hex_nat n) \<Longrightarrow> is_lower_hex b"
proof (induction n rule: hex_nat.induct)
  case (1 n)
  then show ?case by (auto simp del: hex_nat.simps simp: hex_nat.simps [of n] hex_digits_lower split: if_splits)
qed

lemma escape_unicode_safe: "c \<in> set (escape_unicode n) \<Longrightarrow> 32 \<le> c \<and> c < 127"
  by (auto simp: escape_unicode_def ascii_def simp del: hex_nat.simps dest: hex_nat_lower lower_hex_printable)

lemma escape_untrusted_text_safe:
  "c \<in> set (escape_untrusted_text value) \<Longrightarrow> \<not> unsafe_presentation_character c"
  by (auto simp: escape_untrusted_text_def dest!: escape_unicode_safe dest: printable_ascii_safe
      split: if_splits)

lemma escape_untrusted_text_id:
  "\<forall>c\<in>set value. \<not> unsafe_presentation_character c \<Longrightarrow> escape_untrusted_text value = value"
  by (induction "value") (simp_all add: escape_untrusted_text_def)

lemma dots_safe: "c \<in> set (ascii ''...'') \<Longrightarrow> \<not> unsafe_presentation_character c"
  by (auto simp: ascii_def dest: printable_ascii_safe [rotated 2] simp: printable_ascii_safe)

lemma take_bytes_set: "c \<in> set (take_bytes budget bounded cs) \<Longrightarrow> c \<in> set bounded \<union> set cs"
  by (induction budget bounded cs rule: take_bytes.induct) (auto split: if_splits)

lemma take_bytes_bound:
  assumes "utf8_len bounded \<le> budget" and "budget < u64_max"
  shows "utf8_len (take_bytes budget bounded cs) \<le> budget"
  using assms
  by (induction budget bounded cs rule: take_bytes.induct) (auto simp: sat_add_def not_less min_def split: if_splits)

lemma take_bytes_prefix: "\<exists>n. take_bytes budget bounded cs = bounded @ take n cs"
proof (induction budget bounded cs rule: take_bytes.induct)
  case (2 budget bounded c cs)
  show ?case
  proof (cases "sat_add (utf8_len bounded) (len_utf8 c) > budget")
    case False
    with 2 obtain n where "take_bytes budget (bounded @ [c]) cs = (bounded @ [c]) @ take n cs" by auto
    with False have "take_bytes budget bounded (c # cs) = bounded @ take (Suc n) (c # cs)" by simp
    then show ?thesis by blast
  qed (auto intro: exI [of _ 0])
qed simp

lemma utf8_len_dots: "utf8_len (ascii ''...'') = 3"
  by (simp add: ascii_def len_utf8_def)

lemma escape_bounded_length: "length (escape_untrusted_text_bounded value maximum) \<le> maximum"
  by (auto simp: escape_untrusted_text_bounded_def Let_def ascii_def)

lemma escape_bounded_safe:
  "c \<in> set (escape_untrusted_text_bounded value maximum) \<Longrightarrow> \<not> unsafe_presentation_character c"
  by (auto simp: escape_untrusted_text_bounded_def Let_def
      dest: in_set_takeD dots_safe escape_untrusted_text_safe split: if_splits)

lemma escape_bounded_bytes_length:
  assumes "maximum \<le> u64_max"
  shows "length (utf8 (escape_untrusted_text_bounded_bytes value maximum)) \<le> maximum"
proof (cases "3 \<le> maximum")
  case True
  then have "utf8_len (take_bytes (maximum - 3) [] cs) \<le> maximum - 3" for cs
    using assms by (intro take_bytes_bound) auto
  with True show ?thesis
    unfolding length_utf8 escape_untrusted_text_bounded_bytes_def Let_def
    by (simp add: utf8_len_dots le_diff_conv2)
next
  case False
  then have "utf8_len (take_bytes maximum [] cs) \<le> maximum" for cs
    by (intro take_bytes_bound) (auto simp: u64_max_num)
  with False show ?thesis
    unfolding length_utf8 escape_untrusted_text_bounded_bytes_def Let_def by simp
qed

lemma escape_bounded_bytes_safe:
  "c \<in> set (escape_untrusted_text_bounded_bytes value maximum) \<Longrightarrow> \<not> unsafe_presentation_character c"
  by (auto simp: escape_untrusted_text_bounded_bytes_def Let_def
      dest!: take_bytes_set dest: dots_safe escape_untrusted_text_safe split: if_splits)

subsection \<open>Properties\<close>

text \<open>
  C39: Text that came from a store, an archive or a caller is inert once escaped: no control,
  bidirectional or invisible format character is left in the output of the two bounded
  renderings; a rendering stays within its character or its UTF-8 byte budget for every budget
  of a machine word, and text that is harmless and fits is shown as it is.
\<close>

theorem escaped_text_is_inert_and_bounded:
  assumes "maximum \<le> u64_max"
  shows "list_all (\<lambda>c. \<not> unsafe_presentation_character c) (escape_untrusted_text_bounded value maximum) \<and>
     list_all (\<lambda>c. \<not> unsafe_presentation_character c) (escape_untrusted_text_bounded_bytes value maximum) \<and>
     length (escape_untrusted_text_bounded value maximum) \<le> maximum \<and>
     length (utf8 (escape_untrusted_text_bounded_bytes value maximum)) \<le> maximum \<and>
     (list_all (\<lambda>c. \<not> unsafe_presentation_character c) value \<longrightarrow>
        (length value \<le> maximum \<longrightarrow> escape_untrusted_text_bounded value maximum = value) \<and>
        (length (utf8 value) \<le> maximum \<longrightarrow> escape_untrusted_text_bounded_bytes value maximum = value))"
proof -
  have harmless: "escape_untrusted_text_bounded value maximum = value"
    if "list_all (\<lambda>c. \<not> unsafe_presentation_character c) value" and "length value \<le> maximum"
    using that by (simp add: escape_untrusted_text_bounded_def escape_untrusted_text_id list_all_iff)
  have harmless_bytes: "escape_untrusted_text_bounded_bytes value maximum = value"
    if "list_all (\<lambda>c. \<not> unsafe_presentation_character c) value" and "length (utf8 value) \<le> maximum"
    using that by (simp add: escape_untrusted_text_bounded_bytes_def escape_untrusted_text_id list_all_iff length_utf8)
  show ?thesis
    using harmless harmless_bytes
    by (simp add: list_all_iff escape_bounded_safe escape_bounded_bytes_safe
        escape_bounded_length escape_bounded_bytes_length [OF assms])
qed

lemma escaped_text_is_inert_and_bounded_witness:
  "list_all (\<lambda>c. \<not> unsafe_presentation_character c)
     (escape_untrusted_text_bounded_bytes [0x61, 0x1b, 0x202e, 0x20ac] 12) \<and>
   length (utf8 (escape_untrusted_text_bounded_bytes [0x61, 0x1b, 0x202e, 0x20ac] 12)) \<le> 12 \<and>
   escape_untrusted_text_bounded_bytes [0x61, 0x20ac] 4 = [0x61, 0x20ac]"
proof -
  have fits: "length (utf8 [0x61, 0x20ac]) \<le> 4"
    by (simp add: length_utf8 len_utf8_def)
  have safe: "list_all (\<lambda>c. \<not> unsafe_presentation_character c) [0x61, 0x20ac]"
    by (simp add: unsafe_presentation_character_def is_control_def invisible_ranges_def)
  show ?thesis
    using escaped_text_is_inert_and_bounded [of 12 "[0x61, 0x1b, 0x202e, 0x20ac]"]
      escaped_text_is_inert_and_bounded [of 4 "[0x61, 0x20ac]"] fits safe
    by (simp add: u64_max_num)
qed

text \<open>The inverse of the hexadecimal encoding, digit by digit.\<close>

definition hex_value :: "char \<Rightarrow> nat" where
  "hex_value d = (if is_ascii_digit d then of_char d - 48 else of_char d - 87)"

fun hex_decode :: "string \<Rightarrow> string" where
  "hex_decode (a # b # rest) = char_of (hex_value a * 16 + hex_value b) # hex_decode rest"
| "hex_decode _ = []"

lemma hex_value_digit: "d < 16 \<Longrightarrow> hex_value (hex_digits ! d) = d"
  by (auto simp: hex_digits_def hex_value_def ascii_defs less_Suc_eq numeral_eq_Suc)

lemma hex_decode_byte: "hex_decode (hex_byte b @ rest) = b # hex_decode rest"
proof -
  have "(of_char b :: nat) div 16 < 16"
    using of_char_nat_less_256 [of b] by (simp add: less_mult_imp_div_less)
  then show ?thesis
    by (simp add: hex_byte_def hex_value_digit)
qed

lemma hex_decode_bytes: "hex_decode (concat (map hex_byte bytes) @ t) = bytes @ hex_decode t"
  by (induction bytes) (simp_all add: hex_decode_byte)

lemma length_hex_bytes: "length (concat (map hex_byte bytes)) = 2 * length bytes"
  by (induction bytes) simp_all

lemma hex_bytes_lower: "list_all is_lower_hex (concat (map hex_byte bytes))"
  by (induction bytes) (simp_all add: hex_byte_lower)

text \<open>
  The hexadecimal rendering used for unvalidated names is a prefix \<open>hex:\<close>, lowercase
  digits only, and three dots exactly when bytes were dropped; the digits decode to the first
  bytes of the text, so nothing that was kept is lost or reinterpreted.
\<close>

theorem hex_rendering_decodes:
  "\<exists>digits. encode_untrusted_text_hex_bounded value maximum =
       ''hex:'' @ digits @ (if maximum < length (utf8 value) then ''...'' else []) \<and>
     list_all is_lower_hex digits \<and> length digits = 2 * min maximum (length (utf8 value)) \<and>
     hex_decode digits = take maximum (utf8 value)"
proof -
  let ?kept = "take (min (length (utf8 value)) maximum) (utf8 value)"
  have kept: "?kept = take maximum (utf8 value)"
    by (simp add: min_def)
  have "hex_decode (concat (map hex_byte ?kept)) = take maximum (utf8 value)"
    using hex_decode_bytes [of ?kept "[]"] kept by simp
  then show ?thesis
    by (intro exI [of _ "concat (map hex_byte ?kept)"])
      (auto simp: encode_untrusted_text_hex_bounded_def Let_def length_hex_bytes hex_bytes_lower min_def)
qed

end
