(* ===== verification/Environment.thy ===== *)
theory Environment
  imports Paths Store_Policy Text
begin

text \<open>
  The environment of a launched process: \<open>environment.rs\<close> of the core crate with the platform
  hook \<open>extend_environment\<close>, and the baseline escape \<open>run_host\<close> of \<open>quarters-cli/src/process.rs\<close>.
  An environment is a finite map from names to values (a \<open>BTreeMap\<close> of \<open>OsString\<close>s: bytes).
  The prepared runtime directory and the verified agent socket are inputs of the plan; they
  come from \<open>platform::runtime_directory\<close> and \<open>agent::active_socket\<close>, whose errors end it.
\<close>

type_synonym environment = "string \<rightharpoonup> string"

datatype operating_system = Linux | Macos

subsection \<open>Names\<close>

definition REDIRECTED_VARIABLES :: "string list" where
  "REDIRECTED_VARIABLES =
     [''CARGO_HOME'', ''CFFIXED_USER_HOME'', ''CLAUDE_CONFIG_DIR'', ''CODEX_HOME'', ''GH_CONFIG_DIR'',
      ''GIT_CONFIG_GLOBAL'', ''GNUPGHOME'', ''HISTFILE'', ''NPM_CONFIG_CACHE'', ''NPM_CONFIG_USERCONFIG'',
      ''OPENCODE_CONFIG_DIR'', ''SSH_AUTH_SOCK'', ''TMPDIR'', ''TMUX_TMPDIR'', ''UV_CACHE_DIR'',
      ''UV_PYTHON_INSTALL_DIR'', ''UV_TOOL_DIR'', ''XDG_CACHE_HOME'', ''XDG_CONFIG_HOME'',
      ''XDG_DATA_HOME'', ''XDG_RUNTIME_DIR'', ''XDG_STATE_HOME'', ''ZDOTDIR'']"

definition safe_names :: "string list" where
  "safe_names =
     [''CLICOLOR'', ''CLICOLOR_FORCE'', ''COLORTERM'', ''DEVELOPER_DIR'', ''DISPLAY'', ''EDITOR'',
      ''GPG_TTY'', ''LANG'', ''LC_ALL'', ''LC_CTYPE'', ''LESS'', ''LOGNAME'', ''MANPAGER'', ''NO_COLOR'',
      ''PAGER'', ''PATH'', ''SHELL'', ''SSH_TTY'', ''TERM'', ''TERM_PROGRAM'', ''TERM_PROGRAM_VERSION'',
      ''USER'', ''VISUAL'', ''WAYLAND_DISPLAY'', ''__CFBundleIdentifier'']"

definition safe_to_inherit :: "string \<Rightarrow> bool" where
  "safe_to_inherit name =
     (let lossy = to_string_lossy name
      in lossy \<in> ascii ` set safe_names \<or> take 3 lossy = ascii ''LC_'')"

definition is_ascii_alphabetic :: "char \<Rightarrow> bool" where
  "is_ascii_alphabetic b \<longleftrightarrow> byte_in (CHR ''a'') (CHR ''z'') b \<or> byte_in (CHR ''A'') (CHR ''Z'') b"

definition validate_variable_name :: "string \<Rightarrow> unit result" where
  "validate_variable_name name =
     (let valid = name \<noteq> [] \<and>
            (case name of [] \<Rightarrow> False | byte # _ \<Rightarrow> is_ascii_alphabetic byte \<or> byte = CHR ''_'') \<and>
            list_all (\<lambda>byte. is_ascii_alphanumeric byte \<or> byte = CHR ''_'') name
      in if valid then Ok () else Err InvalidInput ''is not a valid environment variable name'')"

definition profile_owned :: "string \<Rightarrow> bool" where
  "profile_owned name \<longleftrightarrow>
     name = ''HOME'' \<or> name = ''PATH'' \<or> starts_with name ''QUARTERS_'' \<or> name \<in> set REDIRECTED_VARIABLES"

definition validate_inherited_variable :: "string \<Rightarrow> unit result" where
  "validate_inherited_variable name =
     rbind (validate_variable_name name) (\<lambda>_.
     if \<not> profile_owned name then Ok ()
     else Err InvalidInput ''is owned by the space profile and cannot be inherited'')"

subsection \<open>The captured host\<close>

definition host_get :: "environment \<Rightarrow> string \<Rightarrow> string option" where
  "host_get host name = host name"

definition original_xdg_runtime :: "environment \<Rightarrow> string option" where
  "original_xdg_runtime host =
     (case host_get host ''QUARTERS_HOST_XDG_RUNTIME_DIR'' of
        Some value \<Rightarrow> Some value
      | None \<Rightarrow> if host_get host ''QUARTERS_SPACE'' = None then host_get host ''XDG_RUNTIME_DIR'' else None)"

definition safe_values :: "environment \<Rightarrow> environment" where
  "safe_values host = (\<lambda>name. if safe_to_inherit name then host name else None)"

subsection \<open>Paths of the profile\<close>

text \<open>\<open>Path::join\<close>, \<open>Path::parent\<close>, \<open>split_paths\<close> and \<open>join_paths\<close> on Unix.\<close>

definition path_join :: "string \<Rightarrow> string \<Rightarrow> string" where
  "path_join base p =
     (if is_absolute p then p
      else if base = [] \<or> last base = CHR ''/'' then base @ p
      else base @ CHR ''/'' # p)"

definition trim_components :: "string list \<Rightarrow> string list" where
  "trim_components qs = rev (dropWhile (\<lambda>q. q = [] \<or> q = ''.'') (rev qs))"

definition path_parent :: "string \<Rightarrow> string option" where
  "path_parent p =
     (case split_slash p of
        [] \<Rightarrow> None
      | first # rest \<Rightarrow>
          (let kept = trim_components rest in
           if first = [] then
             (if kept = [] then None
              else Some (CHR ''/'' # join_slash (trim_components (butlast kept))))
           else if kept = [] then Some []
           else Some (join_slash (first # trim_components (butlast kept)))))"

fun split_paths :: "string \<Rightarrow> string list" where
  "split_paths [] = [[]]"
| "split_paths (c # cs) =
     (if c = CHR '':'' then [] # split_paths cs
      else case split_paths cs of [] \<Rightarrow> [[c]] | q # qs \<Rightarrow> (c # q) # qs)"

fun join_colon :: "string list \<Rightarrow> string" where
  "join_colon [] = []"
| "join_colon [q] = q"
| "join_colon (q # qs) = q @ CHR '':'' # join_colon qs"

definition join_paths :: "string list \<Rightarrow> string option" where
  "join_paths qs = (if list_all (\<lambda>q. CHR '':'' \<notin> set q) qs then Some (join_colon qs) else None)"

definition space_home :: "space \<Rightarrow> string" where
  "space_home sp = path_join (sp_root sp) ''home''"

definition store_root :: "space \<Rightarrow> string" where
  "store_root sp =
     (case Option.bind (path_parent (sp_root sp)) path_parent of None \<Rightarrow> ''/'' | Some p \<Rightarrow> p)"

definition profile_executable_directories :: "string \<Rightarrow> string list" where
  "profile_executable_directories home =
     [path_join home ''.local/bin'', path_join home ''.cargo/bin'', path_join home ''go/bin'',
      path_join home ''.bun/bin'']"

definition prepend_paths :: "environment \<Rightarrow> string list \<Rightarrow> environment result" where
  "prepend_paths vals prefixes =
     (let paths = prefixes @ (case vals ''PATH'' of None \<Rightarrow> [] | Some existing \<Rightarrow> split_paths existing)
      in case join_paths paths of
           None \<Rightarrow> Err InvalidInput ''host PATH cannot be represented safely''
         | Some joined \<Rightarrow> Ok (vals(''PATH'' \<mapsto> joined)))"

definition prepend_profile_path :: "environment \<Rightarrow> string \<Rightarrow> environment result" where
  "prepend_profile_path vals home = prepend_paths vals (profile_executable_directories home)"

subsection \<open>The plan\<close>

record environment_plan =
  plan_values :: environment
  explicit_inheritance :: "string list"

definition preserve_host_value ::
  "environment \<Rightarrow> environment \<Rightarrow> string \<Rightarrow> string \<Rightarrow> environment" where
  "preserve_host_value vals host source destination =
     (case (case host_get host destination of Some v \<Rightarrow> Some v | None \<Rightarrow> host_get host source) of
        Some v \<Rightarrow> vals(destination \<mapsto> v)
      | None \<Rightarrow> vals)"

text \<open>The values the profile computes, in the order of their insertion.\<close>

definition profile_values :: "space \<Rightarrow> string \<Rightarrow> string \<Rightarrow> string option \<Rightarrow> (string \<times> string) list" where
  "profile_values sp home runtime socket =
     (let config = path_join home ''.config''; local = path_join home ''.local'';
          cache = path_join home ''.cache''; name = space_name_as_str (sm_name (sp_manifest sp))
      in [(''HOME'', home),
          (''XDG_CONFIG_HOME'', config),
          (''XDG_DATA_HOME'', path_join local ''share''),
          (''XDG_STATE_HOME'', path_join local ''state''),
          (''XDG_CACHE_HOME'', cache),
          (''XDG_RUNTIME_DIR'', runtime),
          (''TMPDIR'', path_join runtime ''tmp''),
          (''ZDOTDIR'', home),
          (''HISTFILE'', path_join local ''state/shell/zsh_history''),
          (''GIT_CONFIG_GLOBAL'', path_join home ''.gitconfig''),
          (''GH_CONFIG_DIR'', path_join config ''gh''),
          (''GNUPGHOME'', path_join home ''.gnupg'')]
         @ (case socket of None \<Rightarrow> [] | Some path \<Rightarrow> [(''SSH_AUTH_SOCK'', path)])
         @ [(''CARGO_HOME'', path_join home ''.cargo''),
          (''NPM_CONFIG_USERCONFIG'', path_join config ''npm/npmrc''),
          (''NPM_CONFIG_CACHE'', path_join cache ''npm''),
          (''CODEX_HOME'', path_join home ''.codex''),
          (''CLAUDE_CONFIG_DIR'', path_join home ''.claude''),
          (''OPENCODE_CONFIG_DIR'', path_join config ''opencode''),
          (''UV_CACHE_DIR'', path_join cache ''uv''),
          (''UV_PYTHON_INSTALL_DIR'', path_join local ''share/uv/python''),
          (''UV_TOOL_DIR'', path_join local ''share/uv/tools''),
          (''TMUX_TMPDIR'', path_join runtime ''tmux''),
          (''QUARTERS_SPACE'', name),
          (''QUARTERS_PROMPT_NAME'', name),
          (''QUARTERS_PROMPT_PREFIX'', ''[q:'' @ name @ ''] ''),
          (''QUARTERS_SPACE_ROOT'', sp_root sp),
          (''QUARTERS_SPACE_HOME'', home),
          (''QUARTERS_ROOT'', store_root sp)])"

definition insert_all :: "environment \<Rightarrow> (string \<times> string) list \<Rightarrow> environment" where
  "insert_all vals kvs = fold (\<lambda>(k, v) m. m(k \<mapsto> v)) kvs vals"

definition insert_profile_values ::
  "environment \<Rightarrow> space \<Rightarrow> string \<Rightarrow> string \<Rightarrow> environment \<Rightarrow> string option result \<Rightarrow> environment result" where
  "insert_profile_values vals sp home runtime host active_socket =
     rbind active_socket (\<lambda>socket.
     let vals = insert_all vals (profile_values sp home runtime socket);
         vals = preserve_host_value vals host ''HOME'' ''QUARTERS_HOST_HOME'';
         vals = preserve_host_value vals host ''PATH'' ''QUARTERS_HOST_PATH'';
         vals = preserve_host_value vals host ''TMPDIR'' ''QUARTERS_HOST_TMPDIR'';
         vals = preserve_host_value vals host ''XDG_RUNTIME_DIR'' ''QUARTERS_HOST_XDG_RUNTIME_DIR''
     in prepend_profile_path vals home)"

fun platform_extend_environment :: "operating_system \<Rightarrow> environment \<Rightarrow> string \<Rightarrow> environment" where
  "platform_extend_environment Linux vals home = vals"
| "platform_extend_environment Macos vals home = vals(''CFFIXED_USER_HOME'' \<mapsto> home)"

definition inherit_one ::
  "environment \<Rightarrow> environment \<times> string list \<Rightarrow> string \<Rightarrow> (environment \<times> string list) result" where
  "inherit_one host st name =
     rbind (validate_inherited_variable name) (\<lambda>_.
     case host_get host name of
       None \<Rightarrow> Err InvalidInput ''cannot inherit a variable that is unset on the host''
     | Some v \<Rightarrow> Ok ((fst st)(name \<mapsto> v), List.insert name (snd st)))"

definition for_space ::
  "operating_system \<Rightarrow> space \<Rightarrow> environment \<Rightarrow> string \<Rightarrow> string list \<Rightarrow> string result \<Rightarrow>
   string option result \<Rightarrow> environment_plan result" where
  "for_space os sp host effective_home inherited_names runtime_directory active_socket =
     rbind (rfold (inherit_one host) (safe_values host, []) inherited_names) (\<lambda>(vals, explicit).
     rbind runtime_directory (\<lambda>runtime.
     rbind (insert_profile_values vals sp effective_home runtime host active_socket) (\<lambda>vals.
     rbind (if path_components effective_home \<noteq> path_components (space_home sp)
            then prepend_paths (vals(''QUARTERS_NO_HOST_ESCAPE'' \<mapsto> ''home-view'')) [path_join runtime ''bin'']
            else Ok vals) (\<lambda>vals.
     Ok \<lparr>plan_values = platform_extend_environment os vals effective_home,
         explicit_inheritance = explicit\<rparr>))))"

definition apply_filesystem_confinement ::
  "environment_plan \<Rightarrow> string list \<Rightarrow> string \<Rightarrow> environment_plan result" where
  "apply_filesystem_confinement plan executable_path home =
     (if list_ex (\<lambda>name. name \<in> set (explicit_inheritance plan))
           [''NPM_CONFIG_PREFIX'', ''RUSTUP_HOME'', ''UV_TOOL_BIN_DIR'']
      then Err InvalidInput ''cannot be inherited with filesystem confinement''
      else case join_paths executable_path of
        None \<Rightarrow> Err SystemError ''could not construct the confined executable PATH''
      | Some joined \<Rightarrow>
          (let vals = (plan_values plan)(''PATH'' \<mapsto> joined);
               vals = vals(''QUARTERS_HOST_PATH'' := None);
               vals = vals(''QUARTERS_CONFINEMENT'' \<mapsto> ''filesystem'');
               ctxt = (if vals ''QUARTERS_NO_HOST_ESCAPE'' \<noteq> None then ''home-view+filesystem'' else ''filesystem'');
               vals = vals(''QUARTERS_NO_HOST_ESCAPE'' \<mapsto> ctxt);
               vals = vals(''RUSTUP_HOME'' \<mapsto> path_join home ''.rustup'');
               vals = vals(''NPM_CONFIG_PREFIX'' \<mapsto> path_join home ''.local/share/npm'');
               vals = vals(''UV_TOOL_BIN_DIR'' \<mapsto> path_join home ''.local/bin'')
           in Ok (plan\<lparr>plan_values := vals\<rparr>)))"

definition plan_value :: "environment_plan \<Rightarrow> string \<Rightarrow> string option" where
  "plan_value plan name = plan_values plan name"

text \<open>\<open>Command::env_clear\<close> followed by \<open>envs\<close>: the child sees the plan and nothing else.\<close>

definition plan_apply :: "environment_plan \<Rightarrow> environment \<Rightarrow> environment" where
  "plan_apply plan inherited = (Map.empty :: environment) ++ plan_values plan"

text \<open>
  Diagnostics: the entries are visited in the order of their names (\<open>keys\<close>, the sorted names of
  the plan) and collected, so of two names with one lossy rendering the later one is kept.
\<close>

definition REDACTED :: ustr where "REDACTED = ascii ''<explicitly inherited; redacted>''"

definition diagnostic_entry :: "environment_plan \<Rightarrow> string \<Rightarrow> (ustr \<times> ustr) option" where
  "diagnostic_entry plan key =
     (case plan_values plan key of
        None \<Rightarrow> None
      | Some v \<Rightarrow>
          (let name = to_string_lossy key in
           Some (name, if name \<in> ascii ` set (explicit_inheritance plan) then REDACTED else to_string_lossy v)))"

definition diagnostic_values :: "environment_plan \<Rightarrow> string list \<Rightarrow> ustr \<rightharpoonup> ustr" where
  "diagnostic_values plan keys = map_of (rev (List.map_filter (diagnostic_entry plan) keys))"

subsection \<open>The baseline escape\<close>

type_synonym changes = "string \<rightharpoonup> string option"

definition remove_all :: "changes \<Rightarrow> string list \<Rightarrow> changes" where
  "remove_all changes names = fold (\<lambda>name m. m(name \<mapsto> None)) names changes"

definition restore_host_value :: "environment \<Rightarrow> changes \<Rightarrow> string \<Rightarrow> string \<Rightarrow> changes" where
  "restore_host_value process changes destination source = changes(destination \<mapsto> process source)"

definition CONTEXT_VARIABLES :: "string list" where
  "CONTEXT_VARIABLES =
     [''QUARTERS_HOST_HOME'', ''QUARTERS_HOST_PATH'', ''QUARTERS_HOST_TMPDIR'',
      ''QUARTERS_HOST_XDG_RUNTIME_DIR'', ''QUARTERS_CONFINEMENT'', ''QUARTERS_NO_HOST_ESCAPE'',
      ''QUARTERS_PROMPT_NAME'', ''QUARTERS_PROMPT_PREFIX'', ''QUARTERS_ROOT'', ''QUARTERS_SPACE'',
      ''QUARTERS_SPACE_HOME'', ''QUARTERS_SPACE_ROOT'']"

definition host_command_environment :: "environment \<Rightarrow> changes" where
  "host_command_environment process =
     (let changes = remove_all Map.empty REDIRECTED_VARIABLES;
          changes = restore_host_value process changes ''HOME'' ''QUARTERS_HOST_HOME'';
          changes = restore_host_value process changes ''PATH'' ''QUARTERS_HOST_PATH'';
          changes = restore_host_value process changes ''TMPDIR'' ''QUARTERS_HOST_TMPDIR'';
          changes = restore_host_value process changes ''XDG_RUNTIME_DIR'' ''QUARTERS_HOST_XDG_RUNTIME_DIR''
      in remove_all changes CONTEXT_VARIABLES)"

definition split_command :: "string list \<Rightarrow> (string \<times> string list) result" where
  "split_command raw_command =
     (case raw_command of [] \<Rightarrow> Err InvalidInput ''a command is required'' | program # arguments \<Rightarrow> Ok (program, arguments))"

text \<open>\<open>Command::env\<close> and \<open>env_remove\<close> over the inherited environment.\<close>

definition apply_changes :: "environment \<Rightarrow> changes \<Rightarrow> environment" where
  "apply_changes process changes =
     (\<lambda>name. case changes name of None \<Rightarrow> process name | Some change \<Rightarrow> change)"

definition run_host :: "environment \<Rightarrow> string list \<Rightarrow> (string \<times> string list \<times> environment) result" where
  "run_host process raw_command =
     rbind (split_command raw_command) (\<lambda>(program, arguments).
     if process ''QUARTERS_SPACE'' = None
     then Err InvalidInput ''quarters host must be run from inside a space''
     else if process ''QUARTERS_NO_HOST_ESCAPE'' \<noteq> None
     then Err Unsupported ''host escape is disabled''
     else Ok (program, arguments, apply_changes process (host_command_environment process)))"

subsection \<open>Names: classes and their overlap\<close>

lemma decode_lossy_prefix:
  "\<forall>c\<in>set t. c < 128 \<Longrightarrow> take (length t) (decode_lossy s) = t \<longleftrightarrow> take (length t) s = t"
proof (induction t arbitrary: s)
  case (Cons c t)
  show ?case
  proof (cases s)
    case (Cons a rest)
    show ?thesis
    proof (cases "a < 128")
      case True
      then show ?thesis using Cons Cons.IH Cons.prems by (simp add: decode_step_ascii_value)
    next
      case False
      then have "\<not> fst (decode_step a rest) < 128" by (simp add: decode_step_ascii)
      with False Cons Cons.prems show ?thesis by (auto split: prod.splits)
    qed
  qed simp
qed simp

lemma safe_names_bytes: "list_all (list_all (\<lambda>b. (of_char b :: nat) < 128)) safe_names"
  by (simp add: safe_names_def)

lemma safe_names_ascii: "n \<in> set safe_names \<Longrightarrow> b \<in> set n \<Longrightarrow> (of_char b :: nat) < 128"
  using safe_names_bytes by (auto simp: list_all_iff)

lemma safe_to_inherit_iff:
  "safe_to_inherit name \<longleftrightarrow> name \<in> set safe_names \<or> starts_with name ''LC_''"
proof -
  have "to_string_lossy name \<in> ascii ` set safe_names \<longleftrightarrow> name \<in> set safe_names"
    using to_string_lossy_ascii safe_names_ascii by (auto simp: image_iff)
  moreover have "take 3 (to_string_lossy name) = ascii ''LC_'' \<longleftrightarrow> starts_with name ''LC_''"
    using decode_lossy_prefix [of "ascii ''LC_''" "map of_char name"]
    by (simp add: to_string_lossy_def ascii_def starts_with_def take_map map_of_char_inj numeral_3_eq_3
        flip: list.map)
  ultimately show ?thesis by (simp add: safe_to_inherit_def Let_def)
qed

lemma safe_and_owned: "safe_to_inherit n \<Longrightarrow> profile_owned n \<Longrightarrow> n = ''PATH''"
  unfolding safe_to_inherit_iff
proof (elim disjE)
  assume "n \<in> set safe_names" and "profile_owned n"
  then show ?thesis
    unfolding safe_names_def
    by (simp only: list.set insert_iff empty_iff)
      (elim disjE FalseE, simp_all add: profile_owned_def REDIRECTED_VARIABLES_def starts_with_def)
next
  assume lc: "starts_with n ''LC_''" and owned: "profile_owned n"
  then obtain t where "n = ''LC_'' @ t" by (auto simp: starts_with_iff)
  with owned show ?thesis
    by (simp add: profile_owned_def REDIRECTED_VARIABLES_def starts_with_def)
qed

lemma validate_inherited_ok: "validate_inherited_variable n = Ok u \<Longrightarrow> \<not> profile_owned n"
  by (auto simp: validate_inherited_variable_def result_simps split: if_splits)

lemma validate_inherited_ascii:
  "validate_inherited_variable n = Ok u \<Longrightarrow> b \<in> set n \<Longrightarrow> (of_char b :: nat) < 128"
  by (auto simp: validate_inherited_variable_def validate_variable_name_def result_simps list_all_iff
      ascii_defs split: if_splits)

end
