(* ===== verification/Environment_Properties.thy ===== *)
theory Environment_Properties
  imports Environment
begin

text \<open>
  What the environment plan promises: every value of a child is allowlisted, explicitly
  inherited or computed by the profile; the baseline escape restores the host context exactly;
  how far the backup chain of nested launches reaches; the isolated modes refuse the escape;
  and diagnostics never show an explicitly inherited value.
\<close>

subsection \<open>Lookup in the map-building steps\<close>

lemma insert_all_lookup:
  "insert_all vals kvs n = (case map_of (rev kvs) n of Some v \<Rightarrow> Some v | None \<Rightarrow> vals n)"
  by (induction kvs arbitrary: vals)
    (auto simp: insert_all_def map_add_def split: option.splits)

lemma insert_all_other: "n \<notin> fst ` set kvs \<Longrightarrow> insert_all vals kvs n = vals n"
proof -
  assume "n \<notin> fst ` set kvs"
  then have "map_of (rev kvs) n = None" by (simp add: map_of_eq_None_iff)
  then show ?thesis by (simp add: insert_all_lookup)
qed

lemma remove_all_lookup:
  "remove_all changes names n = (if n \<in> set names then Some None else changes n)"
  by (induction names arbitrary: changes) (auto simp: remove_all_def)

lemma preserve_lookup:
  "preserve_host_value vals host source destination n =
     (if n = destination
      then (case host destination of Some v \<Rightarrow> Some v
            | None \<Rightarrow> (case host source of Some v \<Rightarrow> Some v | None \<Rightarrow> vals destination))
      else vals n)"
  by (auto simp: preserve_host_value_def host_get_def split: option.splits)

lemma prepend_paths_lookup:
  "prepend_paths vals prefixes = Ok vals' \<Longrightarrow> n \<noteq> ''PATH'' \<Longrightarrow> vals' n = vals n"
  by (auto simp: prepend_paths_def Let_def split: option.splits)

lemma prepend_paths_PATH:
  "prepend_paths vals prefixes = Ok vals' \<Longrightarrow>
     vals' ''PATH'' = Some (join_colon (prefixes @ (case vals ''PATH'' of None \<Rightarrow> [] | Some p \<Rightarrow> split_paths p)))"
  by (auto simp: prepend_paths_def join_paths_def Let_def split: option.splits if_splits)

text \<open>The loop over the explicitly inherited names.\<close>

lemma inherit_loop:
  assumes "rfold (inherit_one host) (vals, explicit) names = Ok (vals', explicit')"
  shows "set explicit' = set explicit \<union> set names" (is ?e)
    and "\<forall>n\<in>set names. \<not> profile_owned n \<and> host n \<noteq> None \<and> (\<forall>b\<in>set n. (of_char b :: nat) < 128)" (is ?v)
    and "vals' n = (if n \<in> set names then host n else vals n)" (is "?l n")
proof -
  have "?e \<and> ?v \<and> (\<forall>n. ?l n)"
    using assms
  proof (induction names arbitrary: vals explicit)
    case (Cons m names)
    from Cons.prems obtain u v where ok: "validate_inherited_variable m = Ok u" "host m = Some v"
      and rest: "rfold (inherit_one host) (vals(m \<mapsto> v), List.insert m explicit) names = Ok (vals', explicit')"
      by (auto simp: inherit_one_def [of _ _ m] host_get_def result_simps split: option.splits)
    from Cons.IH [OF rest] ok show ?case
      by (auto dest: validate_inherited_ok validate_inherited_ascii)
  qed simp
  then show ?e and ?v and "?l n" by blast+
qed

text \<open>The names the profile computes: all owned, none a backup, \<open>PATH\<close> or the escape guard.\<close>

definition profile_keys :: "string list" where
  "profile_keys =
     [''HOME'', ''XDG_CONFIG_HOME'', ''XDG_DATA_HOME'', ''XDG_STATE_HOME'', ''XDG_CACHE_HOME'',
      ''XDG_RUNTIME_DIR'', ''TMPDIR'', ''ZDOTDIR'', ''HISTFILE'', ''GIT_CONFIG_GLOBAL'', ''GH_CONFIG_DIR'',
      ''GNUPGHOME'', ''SSH_AUTH_SOCK'', ''CARGO_HOME'', ''NPM_CONFIG_USERCONFIG'', ''NPM_CONFIG_CACHE'',
      ''CODEX_HOME'', ''CLAUDE_CONFIG_DIR'', ''OPENCODE_CONFIG_DIR'', ''UV_CACHE_DIR'',
      ''UV_PYTHON_INSTALL_DIR'', ''UV_TOOL_DIR'', ''TMUX_TMPDIR'', ''QUARTERS_SPACE'',
      ''QUARTERS_PROMPT_NAME'', ''QUARTERS_PROMPT_PREFIX'', ''QUARTERS_SPACE_ROOT'',
      ''QUARTERS_SPACE_HOME'', ''QUARTERS_ROOT'']"

definition backups :: "(string \<times> string) list" where
  "backups =
     [(''QUARTERS_HOST_HOME'', ''HOME''), (''QUARTERS_HOST_PATH'', ''PATH''),
      (''QUARTERS_HOST_TMPDIR'', ''TMPDIR''), (''QUARTERS_HOST_XDG_RUNTIME_DIR'', ''XDG_RUNTIME_DIR'')]"

lemma profile_values_keys: "fst ` set (profile_values sp home runtime socket) \<subseteq> set profile_keys"
  unfolding profile_values_def profile_keys_def Let_def by (cases socket) simp_all

lemma profile_keys_owned: "list_all profile_owned profile_keys"
  by (simp add: profile_keys_def profile_owned_def REDIRECTED_VARIABLES_def starts_with_def)

lemma backups_owned: "list_all profile_owned (map fst backups)"
  by (simp add: backups_def profile_owned_def starts_with_def)

lemma backup_names:
  "n \<in> {''HOME'', ''PATH'', ''TMPDIR'', ''XDG_RUNTIME_DIR''} \<Longrightarrow> map_of backups (''QUARTERS_HOST_'' @ n) = Some n"
  by (elim insertE emptyE) (simp_all add: backups_def)

lemma special_owned: "list_all profile_owned [''PATH'', ''QUARTERS_NO_HOST_ESCAPE'', ''CFFIXED_USER_HOME'']"
  by (simp add: profile_owned_def REDIRECTED_VARIABLES_def starts_with_def)

lemma not_in_list_all: "list_all P xs \<Longrightarrow> \<not> P n \<Longrightarrow> n \<notin> set xs"
  by (auto simp: list_all_iff)

lemma profile_keys_disjoint:
  "list_all (\<lambda>n. n \<notin> set profile_keys)
     [''PATH'', ''QUARTERS_NO_HOST_ESCAPE'', ''QUARTERS_HOST_HOME'', ''QUARTERS_HOST_PATH'',
      ''QUARTERS_HOST_TMPDIR'', ''QUARTERS_HOST_XDG_RUNTIME_DIR'', ''QUARTERS_CONFINEMENT'', ''CFFIXED_USER_HOME'']"
  by (simp add: profile_keys_def)

lemma not_profile_key: "n \<notin> set profile_keys \<Longrightarrow> insert_all vals (profile_values sp home runtime socket) n = vals n"
  by (rule insert_all_other) (use profile_values_keys in blast)

lemma owned_base:
  assumes "rfold (inherit_one host) (safe_values host, []) names = Ok (vals, explicit)"
  shows "profile_owned n \<Longrightarrow> n \<noteq> ''PATH'' \<Longrightarrow> vals n = None"
    and "\<not> profile_owned n \<Longrightarrow> vals n = (if n \<in> set names \<or> safe_to_inherit n then host n else None)"
    and "vals ''PATH'' = host ''PATH''"
proof -
  note loop = inherit_loop [OF assms]
  show "profile_owned n \<Longrightarrow> n \<noteq> ''PATH'' \<Longrightarrow> vals n = None"
    using loop(2) loop(3) [of n] safe_and_owned [of n] by (auto simp: safe_values_def)
  show "\<not> profile_owned n \<Longrightarrow> vals n = (if n \<in> set names \<or> safe_to_inherit n then host n else None)"
    using loop(3) [of n] by (auto simp: safe_values_def)
  have "profile_owned ''PATH''" and "safe_to_inherit ''PATH''"
    by (simp_all add: profile_owned_def safe_to_inherit_iff safe_names_def)
  then show "vals ''PATH'' = host ''PATH''"
    using loop(2) loop(3) [of "''PATH''"] by (auto simp: safe_values_def)
qed

subsection \<open>The plan, name by name\<close>

definition backup_value :: "environment \<Rightarrow> string \<Rightarrow> string \<Rightarrow> string option" where
  "backup_value host source destination =
     (case host destination of Some v \<Rightarrow> Some v | None \<Rightarrow> host source)"

definition guarded_home :: "space \<Rightarrow> string \<Rightarrow> bool" where
  "guarded_home sp home \<longleftrightarrow> path_components home \<noteq> path_components (space_home sp)"

definition computed ::
  "operating_system \<Rightarrow> space \<Rightarrow> string \<Rightarrow> string \<Rightarrow> string option \<Rightarrow> environment" where
  "computed os sp home runtime socket n =
     (if n = ''QUARTERS_NO_HOST_ESCAPE'' then (if guarded_home sp home then Some ''home-view'' else None)
      else if n = ''CFFIXED_USER_HOME'' then (if os = Macos then Some home else None)
      else map_of (rev (profile_values sp home runtime socket)) n)"

lemma insert_profile_values_ok:
  assumes "insert_profile_values vals sp home runtime host sock = Ok vals'"
  shows "\<exists>socket. sock = Ok socket \<and>
    (\<forall>n. n \<noteq> ''PATH'' \<longrightarrow> vals' n =
       (case map_of backups n of
          Some source \<Rightarrow> (case backup_value host source n of Some v \<Rightarrow> Some v | None \<Rightarrow> vals n)
        | None \<Rightarrow> insert_all vals (profile_values sp home runtime socket) n)) \<and>
    vals' ''PATH'' = Some (join_colon (profile_executable_directories home @
       (case vals ''PATH'' of None \<Rightarrow> [] | Some p \<Rightarrow> split_paths p)))"
proof -
  from assms obtain socket where sock: "sock = Ok socket"
    by (auto simp: insert_profile_values_def result_simps)
  define b1 where "b1 = preserve_host_value (insert_all vals (profile_values sp home runtime socket)) host ''HOME'' ''QUARTERS_HOST_HOME''"
  define b2 where "b2 = preserve_host_value b1 host ''PATH'' ''QUARTERS_HOST_PATH''"
  define b3 where "b3 = preserve_host_value b2 host ''TMPDIR'' ''QUARTERS_HOST_TMPDIR''"
  define b4 where "b4 = preserve_host_value b3 host ''XDG_RUNTIME_DIR'' ''QUARTERS_HOST_XDG_RUNTIME_DIR''"
  have final: "prepend_paths b4 (profile_executable_directories home) = Ok vals'"
    using assms sock
    by (simp add: insert_profile_values_def prepend_profile_path_def b1_def b2_def b3_def b4_def Let_def)
  have plain: "insert_all vals (profile_values sp home runtime socket) n = vals n"
    if "n \<in> {''PATH'', ''QUARTERS_HOST_HOME'', ''QUARTERS_HOST_PATH'', ''QUARTERS_HOST_TMPDIR'',
      ''QUARTERS_HOST_XDG_RUNTIME_DIR''}" for n
    by (rule not_profile_key) (use that profile_keys_disjoint in \<open>elim insertE emptyE, simp_all\<close>)
  have b4: "b4 n = (case map_of backups n of
          Some source \<Rightarrow> (case backup_value host source n of Some v \<Rightarrow> Some v | None \<Rightarrow> vals n)
        | None \<Rightarrow> insert_all vals (profile_values sp home runtime socket) n)" for n
    unfolding b4_def b3_def b2_def b1_def preserve_lookup
    by (simp add: backups_def backup_value_def plain split: option.splits)
  have "b4 ''PATH'' = vals ''PATH''"
    by (simp add: b4 backups_def plain)
  with prepend_paths_PATH [OF final] prepend_paths_lookup [OF final] b4 sock show ?thesis
    by auto
qed

lemma for_space_ok:
  assumes "for_space os sp host home names rt sock = Ok plan"
  obtains runtime socket where "rt = Ok runtime" and "sock = Ok socket"
    and "set (explicit_inheritance plan) = set names"
    and "\<forall>n\<in>set names. \<not> profile_owned n \<and> host n \<noteq> None \<and> (\<forall>b\<in>set n. (of_char b :: nat) < 128)"
    and "\<And>n. \<not> profile_owned n \<Longrightarrow>
      plan_values plan n = (if n \<in> set names \<or> safe_to_inherit n then host n else None)"
    and "\<And>n source. map_of backups n = Some source \<Longrightarrow> plan_values plan n = backup_value host source n"
    and "\<And>n. profile_owned n \<Longrightarrow> n \<noteq> ''PATH'' \<Longrightarrow> map_of backups n = None \<Longrightarrow>
      plan_values plan n = computed os sp home runtime socket n"
    and "plan_values plan ''PATH'' \<noteq> None"
proof -
  from assms obtain base explicit runtime vals vals' where
    loop: "rfold (inherit_one host) (safe_values host, []) names = Ok (base, explicit)"
    and rt: "rt = Ok runtime"
    and ins: "insert_profile_values base sp home runtime host sock = Ok vals"
    and guard: "(if guarded_home sp home
       then prepend_paths (vals(''QUARTERS_NO_HOST_ESCAPE'' \<mapsto> ''home-view'')) [path_join runtime ''bin'']
       else Ok vals) = Ok vals'"
    and plan: "plan = \<lparr>plan_values = platform_extend_environment os vals' home, explicit_inheritance = explicit\<rparr>"
    by (auto simp: for_space_def guarded_home_def result_simps)
  from insert_profile_values_ok [OF ins] obtain socket where sock: "sock = Ok socket"
    and look: "\<And>n. n \<noteq> ''PATH'' \<Longrightarrow> vals n =
       (case map_of backups n of
          Some source \<Rightarrow> (case backup_value host source n of Some v \<Rightarrow> Some v | None \<Rightarrow> base n)
        | None \<Rightarrow> insert_all base (profile_values sp home runtime socket) n)"
    and path: "vals ''PATH'' \<noteq> None" by auto
  have guarded: "vals' n = (if n = ''QUARTERS_NO_HOST_ESCAPE'' \<and> guarded_home sp home then Some ''home-view'' else vals n)"
    if "n \<noteq> ''PATH''" for n
    using guard that by (cases "guarded_home sp home") (simp_all add: prepend_paths_lookup [of _ _ vals' n])
  have plan_eq: "plan_values plan n = (if n = ''CFFIXED_USER_HOME'' \<and> os = Macos then Some home else vals' n)" for n
    using plan by (cases os) auto
  have owned: "n \<noteq> ''PATH''" "n \<noteq> ''QUARTERS_NO_HOST_ESCAPE''" "n \<noteq> ''CFFIXED_USER_HOME''"
    "map_of backups n = None" "n \<notin> set profile_keys" if "\<not> profile_owned n" for n
    using not_in_list_all [OF special_owned that] not_in_list_all [OF backups_owned that]
      not_in_list_all [OF profile_keys_owned that]
    by (simp_all add: map_of_eq_None_iff)
  show thesis
  proof (rule that [OF rt sock])
    show "set (explicit_inheritance plan) = set names"
      using inherit_loop(1) [OF loop] plan by simp
    show "\<forall>n\<in>set names. \<not> profile_owned n \<and> host n \<noteq> None \<and> (\<forall>b\<in>set n. (of_char b :: nat) < 128)"
      by (rule inherit_loop(2) [OF loop])
    show "plan_values plan n = (if n \<in> set names \<or> safe_to_inherit n then host n else None)"
      if "\<not> profile_owned n" for n
      using owned [OF that] that owned_base(2) [OF loop that]
      by (simp add: plan_eq guarded look not_profile_key)
    show "plan_values plan n = backup_value host source n" if "map_of backups n = Some source" for n source
    proof -
      have "n \<in> fst ` set backups" using that by (auto dest: map_of_SomeD intro: rev_image_eqI)
      then have "profile_owned n" and "n \<noteq> ''PATH''" and "n \<noteq> ''QUARTERS_NO_HOST_ESCAPE''" and "n \<noteq> ''CFFIXED_USER_HOME''"
        using backups_owned by (auto simp: backups_def list_all_iff)
      with that owned_base(1) [OF loop] show ?thesis
        by (simp add: plan_eq guarded look split: option.splits)
    qed
    show "plan_values plan n = computed os sp home runtime socket n"
      if own: "profile_owned n" "n \<noteq> ''PATH''" "map_of backups n = None" for n
    proof -
      have base: "base n = None" using own owned_base(1) [OF loop] by blast
      have special: "n \<notin> set profile_keys" if "n = ''QUARTERS_NO_HOST_ESCAPE'' \<or> n = ''CFFIXED_USER_HOME''"
        using that profile_keys_disjoint by (elim disjE) simp_all
      show ?thesis
      proof (cases "n = ''QUARTERS_NO_HOST_ESCAPE'' \<or> n = ''CFFIXED_USER_HOME''")
        case True
        then have "insert_all base (profile_values sp home runtime socket) n = None"
          using not_profile_key [OF special] base by simp
        with True own show ?thesis
          by (elim disjE) (simp_all add: plan_eq guarded look computed_def)
      next
        case False
        with own base show ?thesis
          by (simp add: plan_eq guarded look computed_def insert_all_lookup split: option.splits)
      qed
    qed
    show "plan_values plan ''PATH'' \<noteq> None"
      using guard path by (cases "guarded_home sp home") (simp_all add: plan_eq prepend_paths_PATH)
  qed
qed

text \<open>The context variables of a plan, and the backups of a host outside every space.\<close>

lemma plan_context:
  assumes "for_space os sp host home names rt sock = Ok plan"
  shows "plan_values plan ''QUARTERS_NO_HOST_ESCAPE'' = (if guarded_home sp home then Some ''home-view'' else None)"
    and "plan_values plan ''QUARTERS_SPACE'' \<noteq> None"
proof -
  show "plan_values plan ''QUARTERS_NO_HOST_ESCAPE'' = (if guarded_home sp home then Some ''home-view'' else None)"
    using assms by (rule for_space_ok) (simp add: profile_owned_def starts_with_def backups_def computed_def)
  show "plan_values plan ''QUARTERS_SPACE'' \<noteq> None"
    using assms by (rule for_space_ok)
      (simp add: profile_owned_def starts_with_def backups_def computed_def profile_values_def Let_def map_add_def)
qed

lemma plan_captures_host:
  assumes "for_space os sp host home names rt sock = Ok plan"
    and "\<forall>n. starts_with n ''QUARTERS_'' \<longrightarrow> host n = None"
    and "n \<in> {''HOME'', ''PATH'', ''TMPDIR'', ''XDG_RUNTIME_DIR''}"
  shows "plan_values plan (''QUARTERS_HOST_'' @ n) = host n"
proof (rule for_space_ok [OF assms(1)])
  assume "\<And>n source. map_of backups n = Some source \<Longrightarrow> plan_values plan n = backup_value host source n"
  then show ?thesis
    using backup_names [OF assms(3)] assms(2) [rule_format, of "''QUARTERS_HOST_'' @ n"]
    by (simp add: backup_value_def starts_with_def)
qed

subsection \<open>When a plan exists\<close>

lemma split_paths_no_colon: "q \<in> set (split_paths s) \<Longrightarrow> CHR '':'' \<notin> set q"
  by (induction s arbitrary: q) (auto split: if_splits list.splits)

lemma prepend_paths_ok:
  assumes "list_all (\<lambda>q. CHR '':'' \<notin> set q) prefixes"
  shows "\<exists>vals'. prepend_paths vals prefixes = Ok vals'"
  using assms split_paths_no_colon
  by (fastforce simp: prepend_paths_def join_paths_def Let_def list_all_iff split: option.splits)

lemma inherit_loop_ok:
  assumes "\<forall>n\<in>set names. is_ok (validate_inherited_variable n) \<and> host n \<noteq> None"
  shows "\<exists>st'. rfold (inherit_one host) st names = Ok st'"
  using assms
proof (induction names arbitrary: st)
  case (Cons n names)
  then have "\<exists>st'. inherit_one host st n = Ok st'"
    by (auto simp: inherit_one_def host_get_def is_ok_iff)
  with Cons show ?case by auto
qed simp

lemma path_join_colon: "CHR '':'' \<notin> set base \<Longrightarrow> CHR '':'' \<notin> set p \<Longrightarrow> CHR '':'' \<notin> set (path_join base p)"
  by (simp add: path_join_def)

text \<open>
  The plan fails only for a refused name, an unset inherited variable, a failed runtime or
  agent inspection, or a separator in the profile's own paths.
\<close>

lemma for_space_succeeds:
  assumes "\<forall>n\<in>set names. is_ok (validate_inherited_variable n) \<and> host n \<noteq> None"
    and "CHR '':'' \<notin> set home" and "CHR '':'' \<notin> set runtime"
  shows "\<exists>plan. for_space os sp host home names (Ok runtime) (Ok socket) = Ok plan"
proof -
  obtain vals explicit where loop: "rfold (inherit_one host) (safe_values host, []) names = Ok (vals, explicit)"
    using inherit_loop_ok [OF assms(1)] by (metis surj_pair)
  have dirs: "list_all (\<lambda>q. CHR '':'' \<notin> set q) (profile_executable_directories home)"
    using assms(2) by (simp add: profile_executable_directories_def path_join_colon)
  obtain vals1 where one: "insert_profile_values vals sp home runtime host (Ok socket) = Ok vals1"
    using prepend_paths_ok [OF dirs]
    by (simp add: insert_profile_values_def prepend_profile_path_def Let_def) blast
  have "list_all (\<lambda>q. CHR '':'' \<notin> set q) [path_join runtime ''bin'']"
    using assms(3) by (simp add: path_join_colon)
  then obtain vals2 where two: "(if guarded_home sp home
       then prepend_paths (vals1(''QUARTERS_NO_HOST_ESCAPE'' \<mapsto> ''home-view'')) [path_join runtime ''bin'']
       else Ok vals1) = Ok vals2"
    using prepend_paths_ok [of "[path_join runtime ''bin'']"] by (cases "guarded_home sp home") auto
  show ?thesis
    using loop one two by (simp add: for_space_def guarded_home_def)
qed

subsection \<open>Properties of the plan\<close>

text \<open>
  C25: A plan is an allowlist. Every variable of a launched process is either a host value whose
  name is on the fixed list of harmless names or was requested by a valid name, and then its
  name is not owned by the profile; or a value the profile computed from the space and its
  runtime directory, independently of the host; or one of the four backups of the host
  context; or the search path. Home, temporary, configuration and credential locations of the
  host never reach the child under their own names.
\<close>

theorem plan_is_allowlisted:
  assumes "for_space os sp host home names (Ok runtime) (Ok socket) = Ok plan"
    and "plan_values plan n = Some v"
  shows "if profile_owned n
     then n = ''PATH'' \<or> computed os sp home runtime socket n = Some v \<or>
       (\<exists>source. (n, source) \<in> set backups \<and> (host n = Some v \<or> host source = Some v))
     else host n = Some v \<and> (safe_to_inherit n \<or> n \<in> set names)"
proof (rule for_space_ok [OF assms(1)])
  fix runtime' socket'
  assume same: "Ok runtime = Ok runtime'" "Ok socket = Ok socket'"
    and plain: "\<And>n. \<not> profile_owned n \<Longrightarrow>
      plan_values plan n = (if n \<in> set names \<or> safe_to_inherit n then host n else None)"
    and kept: "\<And>n source. map_of backups n = Some source \<Longrightarrow> plan_values plan n = backup_value host source n"
    and own: "\<And>n. profile_owned n \<Longrightarrow> n \<noteq> ''PATH'' \<Longrightarrow> map_of backups n = None \<Longrightarrow>
      plan_values plan n = computed os sp home runtime' socket' n"
  show ?thesis
  proof (cases "map_of backups n")
    case None
    then show ?thesis using plain [of n] own [of n] same assms(2)
      by (cases "profile_owned n") (auto split: if_splits)
  next
    case (Some source)
    have "host n = Some v \<or> host source = Some v"
      using kept [OF Some] assms(2) by (auto simp: backup_value_def split: option.splits)
    moreover have "profile_owned n"
      using not_in_list_all [OF backups_owned, of n] map_of_SomeD [OF Some] by force
    ultimately show ?thesis using map_of_SomeD [OF Some] by auto
  qed
qed

lemma escape_lookup:
  "apply_changes process (host_command_environment process) n =
     (if n \<in> set CONTEXT_VARIABLES then None
      else if n \<in> {''HOME'', ''PATH'', ''TMPDIR'', ''XDG_RUNTIME_DIR''} then process (''QUARTERS_HOST_'' @ n)
      else if n \<in> set REDIRECTED_VARIABLES then None
      else process n)"
  unfolding apply_changes_def host_command_environment_def Let_def restore_host_value_def remove_all_lookup
  by simp

lemma context_prefix: "n \<in> set CONTEXT_VARIABLES \<Longrightarrow> starts_with n ''QUARTERS_''"
proof -
  have "list_all (\<lambda>n. starts_with n ''QUARTERS_'') CONTEXT_VARIABLES"
    by (simp add: CONTEXT_VARIABLES_def starts_with_def)
  then show "n \<in> set CONTEXT_VARIABLES \<Longrightarrow> starts_with n ''QUARTERS_''"
    by (simp add: list_all_iff)
qed

lemma profile_keys_cleared:
  "list_all (\<lambda>n. n = ''HOME'' \<or> n \<in> set CONTEXT_VARIABLES \<or> n \<in> set REDIRECTED_VARIABLES) profile_keys"
  unfolding profile_keys_def by (simp add: CONTEXT_VARIABLES_def REDIRECTED_VARIABLES_def)

lemma backups_cleared: "list_all (\<lambda>n. n \<in> set CONTEXT_VARIABLES) (map fst backups)"
  by (simp add: backups_def CONTEXT_VARIABLES_def)

text \<open>What the escape leaves alone is nothing the profile ever sets.\<close>

lemma owned_elsewhere:
  assumes "n \<notin> set CONTEXT_VARIABLES" and "n \<notin> {''HOME'', ''PATH'', ''TMPDIR'', ''XDG_RUNTIME_DIR''}"
    and "n \<notin> set REDIRECTED_VARIABLES"
  shows "map_of backups n = None" and "computed os sp home runtime socket n = None"
proof -
  show "map_of backups n = None"
    using not_in_list_all [OF backups_cleared assms(1)] by (simp add: map_of_eq_None_iff)
  have "n \<notin> set profile_keys"
    by (rule not_in_list_all [OF profile_keys_cleared]) (use assms in simp)
  then have "map_of (rev (profile_values sp home runtime socket)) n = None"
    using profile_values_keys [of sp home runtime socket] by (simp add: map_of_eq_None_iff) blast
  moreover have "n \<noteq> ''QUARTERS_NO_HOST_ESCAPE''" and "n \<noteq> ''CFFIXED_USER_HOME''"
    using assms(1,3) by (simp_all add: CONTEXT_VARIABLES_def REDIRECTED_VARIABLES_def)
  ultimately show "computed os sp home runtime socket n = None"
    by (simp add: computed_def)
qed

text \<open>
  C37: The baseline escape is the inverse of the launch. For a host that defines no
  \<open>QUARTERS_\<close> variable, as is the case outside every space, running the escape from a launched process gives its command exactly the host
  environment restricted to the four captured variables, the harmless names and the names
  that were explicitly inherited: each has its host value, an unset one stays unset, and
  nothing of the profile is left.
\<close>

theorem host_escape_inverts_the_launch:
  assumes launch: "for_space os sp host (space_home sp) names rt sock = Ok plan"
    and outside: "\<forall>n. starts_with n ''QUARTERS_'' \<longrightarrow> host n = None"
  shows "run_host (plan_apply plan inherited) (program # arguments) =
     Ok (program, arguments,
         host |` ({''HOME'', ''PATH'', ''TMPDIR'', ''XDG_RUNTIME_DIR''} \<union> {n. safe_to_inherit n} \<union> set names))"
proof (rule for_space_ok [OF launch])
  fix runtime socket
  assume names: "\<forall>n\<in>set names. \<not> profile_owned n \<and> host n \<noteq> None \<and> (\<forall>b\<in>set n. (of_char b :: nat) < 128)"
    and plain: "\<And>n. \<not> profile_owned n \<Longrightarrow>
      plan_values plan n = (if n \<in> set names \<or> safe_to_inherit n then host n else None)"
    and kept: "\<And>n source. map_of backups n = Some source \<Longrightarrow> plan_values plan n = backup_value host source n"
    and own: "\<And>n. profile_owned n \<Longrightarrow> n \<noteq> ''PATH'' \<Longrightarrow> map_of backups n = None \<Longrightarrow>
      plan_values plan n = computed os sp (space_home sp) runtime socket n"
  let ?S = "{''HOME'', ''PATH'', ''TMPDIR'', ''XDG_RUNTIME_DIR''} \<union> {n. safe_to_inherit n} \<union> set names"
  note guard = plan_context(1) [OF launch]
  note inside = plan_context(2) [OF launch]
  note captured = plan_captures_host [OF launch outside]
  have "apply_changes (plan_values plan) (host_command_environment (plan_values plan)) n = (host |` ?S) n" for n
  proof -
    consider (ctxt) "n \<in> set CONTEXT_VARIABLES"
      | (four) "n \<in> {''HOME'', ''PATH'', ''TMPDIR'', ''XDG_RUNTIME_DIR''}" "n \<notin> set CONTEXT_VARIABLES"
      | (redirected) "n \<notin> set CONTEXT_VARIABLES" "n \<notin> {''HOME'', ''PATH'', ''TMPDIR'', ''XDG_RUNTIME_DIR''}"
          "n \<in> set REDIRECTED_VARIABLES"
      | (rest) "n \<notin> set CONTEXT_VARIABLES" "n \<notin> {''HOME'', ''PATH'', ''TMPDIR'', ''XDG_RUNTIME_DIR''}"
          "n \<notin> set REDIRECTED_VARIABLES" by argo
    then show ?thesis
    proof cases
      case ctxt
      then show ?thesis using outside [rule_format, OF context_prefix [OF ctxt]]
        by (simp add: escape_lookup restrict_map_def)
    next
      case four
      then show ?thesis using captured by (simp only: escape_lookup restrict_map_def) auto
    next
      case redirected
      then have "profile_owned n" by (simp add: profile_owned_def)
      then have "n \<notin> ?S" using redirected(2) names safe_and_owned [of n] by blast
      then show ?thesis using redirected by (simp only: escape_lookup restrict_map_def) simp
    next
      case rest
      have "plan_values plan n = (host |` ?S) n"
      proof (cases "profile_owned n")
        case True
        then have "host n = None" using rest outside by (auto simp: profile_owned_def)
        moreover have "plan_values plan n = None"
          using own [OF True] rest owned_elsewhere [OF rest] by simp
        ultimately show ?thesis by (simp add: restrict_map_def)
      next
        case False
        then show ?thesis using plain rest by (simp add: restrict_map_def)
      qed
      then show ?thesis using rest by (simp only: escape_lookup) simp
    qed
  qed
  then show ?thesis using guard inside
    by (simp add: guarded_home_def run_host_def split_command_def plan_apply_def fun_eq_iff)
qed

text \<open>
  How far the backups of nested launches reach. From a space launched inside another space
  the escape gives each of the four variables its value on the real host when the host had
  one; but for a variable that was unset on the host it gives the private value of the outer
  space. In particular a host without \<open>TMPDIR\<close> gets the outer space's private temporary
  directory, although the escape is meant to return to the real host and not to the outer space.
\<close>

theorem nested_escape_falls_back_to_the_outer_space:
  assumes outer: "for_space os sp host (space_home sp) names (Ok runtime) sock = Ok plan"
    and inner: "for_space os sp' (plan_values plan) (space_home sp') names' rt' sock' = Ok plan'"
    and outside: "\<forall>n. starts_with n ''QUARTERS_'' \<longrightarrow> host n = None"
  shows "\<exists>env. run_host (plan_values plan') (program # arguments) = Ok (program, arguments, env) \<and>
     (\<forall>n\<in>{''HOME'', ''PATH'', ''TMPDIR'', ''XDG_RUNTIME_DIR''}.
        env n = (case host n of Some v \<Rightarrow> Some v | None \<Rightarrow> plan_values plan n)) \<and>
     plan_values plan ''TMPDIR'' = Some (path_join runtime ''tmp'')"
proof -
  let ?four = "{''HOME'', ''PATH'', ''TMPDIR'', ''XDG_RUNTIME_DIR''}"
  note captured = plan_captures_host [OF outer outside]
  have private_tmp: "plan_values plan ''TMPDIR'' = Some (path_join runtime ''tmp'')"
    using outer by (rule for_space_ok)
      (simp add: profile_owned_def REDIRECTED_VARIABLES_def backups_def computed_def profile_values_def Let_def
        map_add_def split: option.splits)
  show ?thesis
  proof (rule for_space_ok [OF inner])
    assume kept: "\<And>n source. map_of backups n = Some source \<Longrightarrow>
        plan_values plan' n = backup_value (plan_values plan) source n"
    let ?env = "apply_changes (plan_values plan') (host_command_environment (plan_values plan'))"
    have "?env n = (case host n of Some v \<Rightarrow> Some v | None \<Rightarrow> plan_values plan n)" if "n \<in> ?four" for n
    proof -
      have "n \<notin> set CONTEXT_VARIABLES"
        using that by (elim insertE emptyE) (simp_all add: CONTEXT_VARIABLES_def)
      with that have "?env n = plan_values plan' (''QUARTERS_HOST_'' @ n)" by (simp only: escape_lookup) simp
      also have "\<dots> = backup_value (plan_values plan) n (''QUARTERS_HOST_'' @ n)"
        by (rule kept [OF backup_names [OF that]])
      finally show ?thesis using captured [OF that] by (simp add: backup_value_def)
    qed
    then show ?thesis
      using plan_context [OF inner] private_tmp
      by (intro exI [of _ ?env]) (simp add: guarded_home_def run_host_def split_command_def)
  qed
qed

definition confined_values :: "environment \<Rightarrow> string \<Rightarrow> string \<Rightarrow> string \<Rightarrow> environment" where
  "confined_values vals joined mode home = vals
     (''PATH'' \<mapsto> joined, ''QUARTERS_HOST_PATH'' := None, ''QUARTERS_CONFINEMENT'' \<mapsto> ''filesystem'',
      ''QUARTERS_NO_HOST_ESCAPE'' \<mapsto> mode, ''RUSTUP_HOME'' \<mapsto> path_join home ''.rustup'',
      ''NPM_CONFIG_PREFIX'' \<mapsto> path_join home ''.local/share/npm'',
      ''UV_TOOL_BIN_DIR'' \<mapsto> path_join home ''.local/bin'')"

lemma confinement_ok:
  assumes "apply_filesystem_confinement plan executable_path home = Ok plan'"
  obtains joined mode where "join_paths executable_path = Some joined"
    and "plan_values plan' = confined_values (plan_values plan) joined mode home"
    and "set (explicit_inheritance plan) \<inter> {''NPM_CONFIG_PREFIX'', ''RUSTUP_HOME'', ''UV_TOOL_BIN_DIR''} = {}"
proof -
  have free: "\<not> list_ex (\<lambda>name. name \<in> set (explicit_inheritance plan))
      [''NPM_CONFIG_PREFIX'', ''RUSTUP_HOME'', ''UV_TOOL_BIN_DIR'']"
    using assms by (auto simp only: apply_filesystem_confinement_def split: if_splits)
  then obtain joined where joined: "join_paths executable_path = Some joined"
    using assms by (auto simp only: apply_filesystem_confinement_def if_False split: option.splits)
  have "set (explicit_inheritance plan) \<inter> {''NPM_CONFIG_PREFIX'', ''RUSTUP_HOME'', ''UV_TOOL_BIN_DIR''} = {}"
    using free by simp
  moreover have "\<exists>mode. plan_values plan' = confined_values (plan_values plan) joined mode home"
    using assms free joined
    by (intro exI [of _ "if plan_values plan ''QUARTERS_NO_HOST_ESCAPE'' \<noteq> None then ''home-view+filesystem'' else ''filesystem''"])
      (clarsimp simp: apply_filesystem_confinement_def confined_values_def Let_def)
  ultimately show thesis using joined that by blast
qed

text \<open>
  C38: The isolated modes cannot be left by the baseline escape. A plan for a different effective
  home and every confined plan carry the guard, so the escape is refused as unsupported; a
  confined plan moreover has exactly the confined search path, does not disclose the host's
  path, and keeps the redirected tool state inside the given home.
\<close>

theorem isolated_modes_refuse_the_escape:
  assumes "for_space os sp host home names rt sock = Ok plan"
  shows "(guarded_home sp home \<longrightarrow>
       run_host (plan_values plan) (program # arguments) = Err Unsupported ''host escape is disabled'') \<and>
     (\<forall>plan'. apply_filesystem_confinement plan executable_path home = Ok plan' \<longrightarrow>
       run_host (plan_values plan') (program # arguments) = Err Unsupported ''host escape is disabled'' \<and>
       plan_value plan' ''PATH'' = join_paths executable_path \<and>
       plan_value plan' ''QUARTERS_HOST_PATH'' = None \<and>
       plan_value plan' ''RUSTUP_HOME'' = Some (path_join home ''.rustup'') \<and>
       plan_value plan' ''NPM_CONFIG_PREFIX'' = Some (path_join home ''.local/share/npm'') \<and>
       plan_value plan' ''UV_TOOL_BIN_DIR'' = Some (path_join home ''.local/bin'') \<and>
       set names \<inter> {''NPM_CONFIG_PREFIX'', ''RUSTUP_HOME'', ''UV_TOOL_BIN_DIR''} = {})"
proof (rule for_space_ok [OF assms])
  assume explicit: "set (explicit_inheritance plan) = set names"
  have refused: "run_host (plan_values plan) (program # arguments) = Err Unsupported ''host escape is disabled''"
    if "guarded_home sp home"
    using plan_context [OF assms] that by (simp add: run_host_def split_command_def)
  have confined: "run_host (plan_values plan') (program # arguments) = Err Unsupported ''host escape is disabled'' \<and>
       plan_value plan' ''PATH'' = join_paths executable_path \<and>
       plan_value plan' ''QUARTERS_HOST_PATH'' = None \<and>
       plan_value plan' ''RUSTUP_HOME'' = Some (path_join home ''.rustup'') \<and>
       plan_value plan' ''NPM_CONFIG_PREFIX'' = Some (path_join home ''.local/share/npm'') \<and>
       plan_value plan' ''UV_TOOL_BIN_DIR'' = Some (path_join home ''.local/bin'') \<and>
       set names \<inter> {''NPM_CONFIG_PREFIX'', ''RUSTUP_HOME'', ''UV_TOOL_BIN_DIR''} = {}"
    if confined: "apply_filesystem_confinement plan executable_path home = Ok plan'" for plan'
  proof -
    obtain joined mode where "join_paths executable_path = Some joined"
      and "plan_values plan' = confined_values (plan_values plan) joined mode home"
      and "set names \<inter> {''NPM_CONFIG_PREFIX'', ''RUSTUP_HOME'', ''UV_TOOL_BIN_DIR''} = {}"
      by (rule confinement_ok [OF confined, unfolded explicit])
    then show ?thesis using plan_context(2) [OF assms]
      by (simp add: confined_values_def run_host_def split_command_def plan_value_def)
  qed
  show ?thesis using refused confined by simp
qed

text \<open>
  Diagnostics disclose no explicitly inherited value: whatever is listed under such a name is
  the redaction mark, and everything else that is listed is the value of a planned variable
  that was not explicitly inherited.
\<close>

theorem diagnostics_redact_explicit_inheritance:
  assumes "for_space os sp host home names rt sock = Ok plan"
    and "diagnostic_values plan keys shown_name = Some shown"
  shows "\<exists>n\<in>set keys. shown_name = to_string_lossy n \<and>
     (if n \<in> set names then shown = REDACTED
      else \<exists>v. plan_values plan n = Some v \<and> shown = to_string_lossy v)"
proof (rule for_space_ok [OF assms(1)])
  assume explicit: "set (explicit_inheritance plan) = set names"
    and names: "\<forall>n\<in>set names. \<not> profile_owned n \<and> host n \<noteq> None \<and> (\<forall>b\<in>set n. (of_char b :: nat) < 128)"
  from assms(2) obtain n where n: "n \<in> set keys" "diagnostic_entry plan n = Some (shown_name, shown)"
    by (auto simp: diagnostic_values_def map_filter_def dest!: map_of_SomeD)
  have "to_string_lossy n \<in> ascii ` set names \<longleftrightarrow> n \<in> set names"
    using names to_string_lossy_ascii by (auto simp: image_iff)
  with n explicit show ?thesis
    by (intro bexI [of _ n]) (auto simp: diagnostic_entry_def Let_def split: option.splits if_splits)
qed

subsection \<open>A concrete launch\<close>

definition env_space :: "string \<Rightarrow> space" where
  "env_space name = \<lparr>sp_root = ''/s/spaces/'' @ name,
     sp_manifest = \<lparr>sm_schema_version = 1, sm_layout = None, sm_space_id = None, sm_name = SpaceName name,
       sm_created_unix_ms = 1, sm_default_shell = ''/bin/sh'', sm_authority_model = ''host-account-state-profile''\<rparr>\<rparr>"

definition env_host :: environment where
  "env_host = map_of [(''HOME'', ''/home/u''), (''PATH'', ''/bin''), (''LANG'', ''C''), (''API_KEY'', ''k'')]"

definition env_launch :: "string \<Rightarrow> environment \<Rightarrow> string list \<Rightarrow> environment_plan result" where
  "env_launch name host names =
     for_space Linux (env_space name) host (space_home (env_space name)) names (Ok (''/run/'' @ name)) (Ok None)"

lemma env_host_outside: "\<forall>n. starts_with n ''QUARTERS_'' \<longrightarrow> env_host n = None"
  by (auto simp: env_host_def starts_with_iff)

lemma env_outer: "\<exists>plan. env_launch ''a'' env_host [''API_KEY''] = Ok plan"
  unfolding env_launch_def
  by (rule for_space_succeeds)
    (simp_all add: space_home_def env_space_def path_join_def env_host_def validate_inherited_variable_def
      validate_variable_name_def ascii_defs is_ascii_alphabetic_def profile_owned_def REDIRECTED_VARIABLES_def
      starts_with_def)

lemma env_inner: "\<exists>plan. env_launch ''b'' host [] = Ok plan"
  unfolding env_launch_def
  by (rule for_space_succeeds) (simp_all add: space_home_def env_space_def path_join_def)

lemma env_api_key: "env_launch ''a'' env_host [''API_KEY''] = Ok plan \<Longrightarrow> plan_values plan ''API_KEY'' = Some ''k''"
  unfolding env_launch_def
  by (erule for_space_ok)
    (simp add: profile_owned_def REDIRECTED_VARIABLES_def starts_with_def env_host_def)

lemma plan_is_allowlisted_witness:
  "\<exists>plan. env_launch ''a'' env_host [''API_KEY''] = Ok plan \<and> plan_values plan ''API_KEY'' = Some ''k'' \<and>
     env_host ''API_KEY'' = Some ''k'' \<and> ''API_KEY'' \<in> set [''API_KEY'']"
proof -
  obtain plan where plan: "env_launch ''a'' env_host [''API_KEY''] = Ok plan" using env_outer ..
  have "\<not> profile_owned ''API_KEY''"
    by (simp add: profile_owned_def REDIRECTED_VARIABLES_def starts_with_def)
  then have "env_host ''API_KEY'' = Some ''k''"
    using plan_is_allowlisted [OF plan [unfolded env_launch_def] env_api_key [OF plan]] by simp
  with plan env_api_key [OF plan] show ?thesis by auto
qed

lemma host_escape_inverts_the_launch_witness:
  "\<exists>plan. env_launch ''a'' env_host [''API_KEY''] = Ok plan \<and>
     run_host (plan_apply plan Map.empty) [''id'', ''-u''] = Ok (''id'', [''-u''],
       env_host |` ({''HOME'', ''PATH'', ''TMPDIR'', ''XDG_RUNTIME_DIR''} \<union> {n. safe_to_inherit n} \<union> set [''API_KEY'']))"
proof -
  obtain plan where plan: "env_launch ''a'' env_host [''API_KEY''] = Ok plan" using env_outer ..
  from host_escape_inverts_the_launch [OF plan [unfolded env_launch_def] env_host_outside, of Map.empty "''id''" "[''-u'']"]
  show ?thesis using plan by blast
qed

lemma nested_escape_falls_back_to_the_outer_space_witness:
  "\<exists>plan plan' env. env_launch ''a'' env_host [''API_KEY''] = Ok plan \<and>
     env_launch ''b'' (plan_values plan) [] = Ok plan' \<and>
     run_host (plan_values plan') [''id''] = Ok (''id'', [], env) \<and>
     env_host ''TMPDIR'' = None \<and> env ''TMPDIR'' = Some ''/run/a/tmp'' \<and> env ''HOME'' = Some ''/home/u''"
proof -
  obtain plan where plan: "env_launch ''a'' env_host [''API_KEY''] = Ok plan" using env_outer ..
  obtain plan' where plan': "env_launch ''b'' (plan_values plan) [] = Ok plan'" using env_inner ..
  from nested_escape_falls_back_to_the_outer_space
    [OF plan [unfolded env_launch_def] plan' [unfolded env_launch_def] env_host_outside, of "''id''" "[]"]
  obtain env where "run_host (plan_values plan') [''id''] = Ok (''id'', [], env)"
    and "\<forall>n\<in>{''HOME'', ''PATH'', ''TMPDIR'', ''XDG_RUNTIME_DIR''}.
        env n = (case env_host n of Some v \<Rightarrow> Some v | None \<Rightarrow> plan_values plan n)"
    and "plan_values plan ''TMPDIR'' = Some (path_join (''/run/'' @ ''a'') ''tmp'')" by blast
  then have "run_host (plan_values plan') [''id''] = Ok (''id'', [], env) \<and> env_host ''TMPDIR'' = None \<and>
      env ''TMPDIR'' = Some ''/run/a/tmp'' \<and> env ''HOME'' = Some ''/home/u''"
    by (simp add: env_host_def path_join_def)
  with plan plan' show ?thesis by blast
qed

lemma isolated_modes_refuse_the_escape_witness:
  "\<exists>plan plan'. env_launch ''a'' env_host [''API_KEY''] = Ok plan \<and>
     apply_filesystem_confinement plan [''/bin''] ''/s/spaces/a/home'' = Ok plan' \<and>
     run_host (plan_values plan') [''id''] = Err Unsupported ''host escape is disabled'' \<and>
     plan_value plan' ''PATH'' = join_paths [''/bin'']"
proof -
  obtain plan where plan: "env_launch ''a'' env_host [''API_KEY''] = Ok plan" using env_outer ..
  have home: "space_home (env_space ''a'') = ''/s/spaces/a/home''"
    by (simp add: space_home_def env_space_def path_join_def)
  have "set (explicit_inheritance plan) = set [''API_KEY'']"
    using plan unfolding env_launch_def by (rule for_space_ok)
  then obtain plan' where plan': "apply_filesystem_confinement plan [''/bin''] ''/s/spaces/a/home'' = Ok plan'"
    by (simp add: apply_filesystem_confinement_def join_paths_def Let_def)
  from isolated_modes_refuse_the_escape [OF plan [unfolded env_launch_def], of "''id''" "[]" "[''/bin'']"] plan' home
  have "run_host (plan_values plan') [''id''] = Err Unsupported ''host escape is disabled'' \<and>
     plan_value plan' ''PATH'' = join_paths [''/bin'']" by simp
  with plan plan' show ?thesis by blast
qed

lemma diagnostics_redact_explicit_inheritance_witness:
  "\<exists>plan. env_launch ''a'' env_host [''API_KEY''] = Ok plan \<and>
     diagnostic_values plan [''API_KEY''] (ascii ''API_KEY'') = Some REDACTED"
proof -
  obtain plan where plan: "env_launch ''a'' env_host [''API_KEY''] = Ok plan" using env_outer ..
  have lossy: "to_string_lossy ''API_KEY'' = ascii ''API_KEY''"
    by (simp add: to_string_lossy_ascii)
  have "diagnostic_values plan [''API_KEY''] (ascii ''API_KEY'') \<noteq> None"
    using env_api_key [OF plan] lossy
    by (simp add: diagnostic_values_def map_filter_def diagnostic_entry_def Let_def)
  then obtain shown where shown: "diagnostic_values plan [''API_KEY''] (ascii ''API_KEY'') = Some shown" by auto
  from diagnostics_redact_explicit_inheritance [OF plan [unfolded env_launch_def] shown]
  have "shown = REDACTED" by simp
  with plan shown show ?thesis by auto
qed

end
