(* ===== verification/Space_Remove.thy ===== *)
theory Space_Remove
  imports Rename_Properties
begin

text \<open>
  Removal of a space, \<open>store/remove.rs\<close>: the guards, the retirement of the directory into the
  trash by one rename, and the deletion of the retired tree by its retained identity. The
  presence of the spaces directory, the private agent, the activity lease, the depth probe of
  the tree, the unique suffix and the runtime directory are inputs; the deletion of a retired
  tree is one step, since nothing outside the trash can see its parts.
\<close>

subsection \<open>The trash\<close>

definition trash_entry :: "disk \<Rightarrow> nat \<Rightarrow> node option" where
  "trash_entry d ticket = map_of (dk_trash d) ticket"

definition read_trash :: "string \<Rightarrow> nat \<Rightarrow> node option io" where
  "read_trash action ticket = syscall action atomic (\<lambda>d. (Ok (trash_entry d ticket), d))"

definition verify_directory :: "string \<Rightarrow> path_identity \<Rightarrow> node option \<Rightarrow> unit result" where
  "verify_directory action self e =
     (case e of
        None \<Rightarrow> Err SystemError action
      | Some n \<Rightarrow>
          if is_dir (node_stat n) \<and> \<not> is_symlink (node_stat n) \<and> path_identity_matches self (node_stat n)
          then Ok ()
          else Err CorruptState ''the lifecycle directory generation changed during the transaction'')"

definition verify_expected_identity :: "path_identity option \<Rightarrow> file_stat \<Rightarrow> unit result" where
  "verify_expected_identity identity metadata =
     (if (case identity of None \<Rightarrow> True | Some expected \<Rightarrow> path_identity_matches expected metadata) then Ok ()
      else Err CorruptState ''the private removal root changed before cleanup'')"

definition remove_exact_tree_restoring_owner_access :: "store_host \<Rightarrow> nat \<Rightarrow> path_identity \<Rightarrow> unit io" where
  "remove_exact_tree_restoring_owner_access host ticket identity =
     bind_io (read_trash ''inspect private removal tree'' ticket) (\<lambda>e.
     case e of
       None \<Rightarrow> ret ()
     | Some n \<Rightarrow>
         bind_io (lift (validate_private_dir (h_uid host) (node_stat n))) (\<lambda>_.
         bind_io (lift (verify_expected_identity (Some identity) (node_stat n))) (\<lambda>_.
         bind_io (read_trash ''reinspect private removal tree'' ticket) (\<lambda>e.
         case e of
           None \<Rightarrow> ret ()
         | Some n \<Rightarrow>
             bind_io (lift (verify_expected_identity (Some identity) (node_stat n))) (\<lambda>_.
             remove_tree_restoring_owner_access ticket)))))"

subsection \<open>Retirement\<close>

record removal_inputs =
  rv_spaces_root :: "bool result"
  rv_agent :: "unit result"
  rv_lock :: "unit result"
  rv_depth :: "unit result"
  rv_suffix :: "unit result"
  rv_runtime :: "unit result"

record retired_space =
  rt_path :: nat
  rt_identity :: path_identity

definition removal_metadata :: "string \<Rightarrow> file_stat io" where
  "removal_metadata name =
     bind_io (read_entry ''inspect removal target'' name) (\<lambda>e.
     case e of None \<Rightarrow> fail (QErr NotFound ''space does not exist'') | Some n \<Rightarrow> ret (node_stat n))"

text \<open>The held lock is the file that was opened; it must still be the one under its name.\<close>

definition active_stat :: "node option \<Rightarrow> file_stat sys" where
  "active_stat e = (case e of Some (DirNode n) \<Rightarrow> inner_stat n ACTIVE_FILE | _ \<Rightarrow> SysFail)"

definition open_active_lock :: "store_host \<Rightarrow> string \<Rightarrow> file_stat io" where
  "open_active_lock host name =
     bind_io (read_entry ''inspect activity lock'' name) (\<lambda>e.
     bind_io (lift (open_private_lock (h_uid host) (active_stat e, active_stat e))) (\<lambda>_.
     case active_stat e of SysOk m \<Rightarrow> ret m | _ \<Rightarrow> fail (QErr SystemError ''open activity lock'')))"

definition verify_held_lock :: "file_stat \<Rightarrow> string \<Rightarrow> unit io" where
  "verify_held_lock held name =
     bind_io (read_entry ''reinspect removal lock'' name) (\<lambda>e.
     case active_stat e of
       SysOk current \<Rightarrow>
         if st_dev held = st_dev current \<and> st_ino held = st_ino current then ret ()
         else fail (QErr CorruptState ''the space activity lock changed before removal'')
     | _ \<Rightarrow> fail (QErr SystemError ''reinspect removal lock''))"

definition sync_retirement :: "unit io" where
  "sync_retirement = bind_io sync_directory (\<lambda>_. sync_directory)"

definition retire_space :: "store_host \<Rightarrow> removal_inputs \<Rightarrow> string \<Rightarrow> retired_space io" where
  "retire_space host inp name =
     bind_io (removal_metadata name) (\<lambda>metadata.
     bind_io (lift (validate_private_dir (h_uid host) metadata)) (\<lambda>_.
     let identity = path_identity_from_metadata metadata in
     bind_io (open_active_lock host name) (\<lambda>held.
     bind_io (lift (rv_lock inp)) (\<lambda>_.
     bind_io (verify_held_lock held name) (\<lambda>_.
     bind_io (lift (rv_depth inp)) (\<lambda>_.
     bind_io create_private_dir (\<lambda>_.
     bind_io (lift (rv_suffix inp)) (\<lambda>_.
     bind_io (bind_io (read_entry ''reinspect removal target'' name)
        (\<lambda>e. lift (verify_directory ''reinspect removal target'' identity e))) (\<lambda>_.
     bind_io (rename_to_trash ''retire space'' name) (\<lambda>retired.
     bind_io (bind_io (read_trash ''verify retired space'' retired)
        (\<lambda>e. lift (verify_directory ''verify retired space'' identity e))) (\<lambda>_.
     bind_io sync_retirement (\<lambda>_.
     ret \<lparr>rt_path = retired, rt_identity = identity\<rparr>))))))))))))"

definition delete_retired_space :: "store_host \<Rightarrow> retired_space \<Rightarrow> unit io" where
  "delete_retired_space host retired =
     bind_io (bind_io (read_trash ''reinspect retired space'' (rt_path retired))
        (\<lambda>e. lift (verify_directory ''reinspect retired space'' (rt_identity retired) e))) (\<lambda>_.
     bind_io (remove_exact_tree_restoring_owner_access host (rt_path retired) (rt_identity retired)) (\<lambda>_.
     sync_directory))"

subsection \<open>The operation\<close>

definition store_identity_for_removal :: "store_host \<Rightarrow> space_name \<Rightarrow> space option io" where
  "store_identity_for_removal host name =
     bind_io (read_entry ''inspect removal identity'' (space_name_as_str name)) (\<lambda>e.
     lift (identity_for_removal (h_json host) (h_uid host) (space_name_as_str name) (map_option as_space_dir e) name))"

definition removal_guards :: "store_host \<Rightarrow> removal_inputs \<Rightarrow> space_name \<Rightarrow> space io" where
  "removal_guards host inp name =
     bind_io (ensure_no_rename_target host name) (\<lambda>_.
     bind_io (ensure_no_rollback_target host name) (\<lambda>_.
     bind_io (catch (store_identity_for_removal host name)
        (\<lambda>_. fail (QErr CorruptState ''cannot prove private SSH-agent state is absent''))) (\<lambda>found.
     case found of
       None \<Rightarrow> fail (QErr NotFound ''space does not exist'')
     | Some identity \<Rightarrow>
         bind_io (ensure_not_frozen host identity) (\<lambda>_.
         bind_io (lift (rv_agent inp)) (\<lambda>_. ret identity)))))"

definition remove_space :: "store_host \<Rightarrow> removal_inputs \<Rightarrow> string \<Rightarrow> unit io" where
  "remove_space host inp name =
     bind_io (lift (validate_removal_entry_name name)) (\<lambda>_.
     bind_io (lift (rv_spaces_root inp)) (\<lambda>present.
     if \<not> present then fail (QErr NotFound ''space does not exist'')
     else
       bind_io (case space_name_parse name of
           Inr validated \<Rightarrow> bind_io (removal_guards host inp validated) (\<lambda>identity. ret (Some identity))
         | Inl _ \<Rightarrow> ret None) (\<lambda>removable.
       bind_io (retire_space host inp name) (\<lambda>retired.
       bind_io (delete_retired_space host retired) (\<lambda>_.
       case removable of Some _ \<Rightarrow> lift (rv_runtime inp) | None \<Rightarrow> ret ())))))"

subsection \<open>Rules for the steps\<close>

lemma keeps_read_trash [keeps_rules]: "keeps (read_trash action ticket)"
  unfolding read_trash_def by (simp add: keeps_syscall)

lemma keeps_sys [keeps_rules]:
  "(\<And>x. keeps (f x)) \<Longrightarrow> keeps g \<Longrightarrow> keeps h \<Longrightarrow> keeps (case v of SysOk x \<Rightarrow> f x | SysNotFound \<Rightarrow> g | SysFail \<Rightarrow> h)"
  by (simp split: sys.splits)

lemma keeps_removal_reads [keeps_rules]:
  "keeps (removal_metadata name)" "keeps (open_active_lock host name)" "keeps (verify_held_lock held name)"
  "keeps sync_retirement" "keeps (store_identity_for_removal host vname)" "keeps (removal_guards host inp vname)"
  unfolding removal_metadata_def open_active_lock_def verify_held_lock_def sync_retirement_def
    store_identity_for_removal_def removal_guards_def
  by (intro keeps_rules)+

definition retired_disk :: "string \<Rightarrow> node \<Rightarrow> disk \<Rightarrow> disk" where
  "retired_disk name e d =
     d\<lparr>dk_spaces := (dk_spaces d)(name := None), dk_trash := (dk_next d, e) # dk_trash d, dk_next := Suc (dk_next d)\<rparr>"

lemma wp_rename_to_trash:
  assumes "\<And>e. E e d" and "C d" and "\<And>e. dk_spaces d name = Some e \<Longrightarrow> Q (dk_next d) (retired_disk name e d)"
  shows "wp F (rename_to_trash action name) Q E C d"
  unfolding rename_to_trash_def
  by (rule wp_syscall) (use assms in \<open>auto simp: retired_disk_def split: option.splits\<close>)

lemma wp_removal_metadata:
  assumes "\<And>e. E e d" and "C d" and "\<And>e. dk_spaces d name = Some e \<Longrightarrow> Q (node_stat e) d"
  shows "wp F (removal_metadata name) Q E C d"
  unfolding removal_metadata_def
  by (intro wp_bind wp_read_entry) (use assms in \<open>auto split: option.splits intro!: wp_rules\<close>)

lemma wp_retire_space:
  assumes before: "\<And>e. E e d" "C d"
    and retired: "\<And>e. dk_spaces d name = Some e \<Longrightarrow> validate_private_dir (h_uid host) (node_stat e) = Ok () \<Longrightarrow>
      rv_lock inp = Ok () \<Longrightarrow> rv_depth inp = Ok () \<Longrightarrow>
      (\<forall>e'. E e' (retired_disk name e d)) \<and> C (retired_disk name e d) \<and>
      Q \<lparr>rt_path = dk_next d, rt_identity = path_identity_from_metadata (node_stat e)\<rparr> (retired_disk name e d)"
  shows "wp F (retire_space host inp name) Q E C d"
proof -
  have tail: "wp F (bind_io (rename_to_trash ''retire space'' name) (\<lambda>retired.
     bind_io (bind_io (read_trash ''verify retired space'' retired)
        (\<lambda>e. lift (verify_directory ''verify retired space'' (path_identity_from_metadata m) e))) (\<lambda>_.
     bind_io sync_retirement (\<lambda>_.
     ret \<lparr>rt_path = retired, rt_identity = path_identity_from_metadata m\<rparr>)))) Q E C d"
    if m: "\<And>e. dk_spaces d name = Some e \<Longrightarrow> m = node_stat e \<and> validate_private_dir (h_uid host) (node_stat e) = Ok ()"
      and locked: "rv_lock inp = Ok ()" "rv_depth inp = Ok ()" for m
    by (intro wp_bind [of _ "rename_to_trash _ _"] wp_rename_to_trash wp_keeps_bind wp_ret before keeps_rules)
      (use m locked retired in auto)
  have "wp F (let identity = path_identity_from_metadata m in
     bind_io (open_active_lock host name) (\<lambda>held.
     bind_io (lift (rv_lock inp)) (\<lambda>_.
     bind_io (verify_held_lock held name) (\<lambda>_.
     bind_io (lift (rv_depth inp)) (\<lambda>_.
     bind_io create_private_dir (\<lambda>_.
     bind_io (lift (rv_suffix inp)) (\<lambda>_.
     bind_io (bind_io (read_entry ''reinspect removal target'' name)
        (\<lambda>e. lift (verify_directory ''reinspect removal target'' identity e))) (\<lambda>_.
     bind_io (rename_to_trash ''retire space'' name) (\<lambda>retired.
     bind_io (bind_io (read_trash ''verify retired space'' retired)
        (\<lambda>e. lift (verify_directory ''verify retired space'' identity e))) (\<lambda>_.
     bind_io sync_retirement (\<lambda>_.
     ret \<lparr>rt_path = retired, rt_identity = identity\<rparr>))))))))))) Q E C d"
    if "\<And>e. dk_spaces d name = Some e \<Longrightarrow> m = node_stat e \<and> validate_private_dir (h_uid host) (node_stat e) = Ok ()" for m
    unfolding Let_def
    by (intro wp_keeps_bind [of "open_active_lock _ _"] wp_bind [of _ "lift (rv_lock _)"] wp_bind [of _ "lift (rv_depth _)"] wp_lift
        wp_keeps_bind [of "verify_held_lock _ _"] wp_keeps_bind [of create_private_dir] wp_keeps_bind [of "lift (rv_suffix _)"]
        wp_keeps_bind [of "bind_io (read_entry _ _) _"] tail keeps_rules before)
      (use that in auto)
  then show ?thesis
    unfolding retire_space_def
    by (intro wp_bind [of _ "removal_metadata _"] wp_removal_metadata wp_bind [of _ "lift _"] wp_lift before)
      (auto intro: before)
qed

lemma wp_remove_tree:
  assumes "\<And>e. E e d" and "C d" and "Q () (d\<lparr>dk_trash := filter (\<lambda>e. fst e \<noteq> ticket) (dk_trash d)\<rparr>)"
  shows "wp F (remove_tree_restoring_owner_access ticket) Q E C d"
  unfolding remove_tree_restoring_owner_access_def by (rule wp_syscall) (use assms in auto)

lemma wp_read_trash:
  assumes "\<And>e. E e d" and "C d" and "Q (trash_entry d ticket) d"
  shows "wp F (read_trash action ticket) Q E C d"
  unfolding read_trash_def by (rule wp_syscall) (use assms in auto)

lemma wp_delete_retired_space:
  assumes "\<And>e. E e d" and "C d" and "trash_entry d (rt_path retired) \<noteq> None"
    and "\<And>e. E e (d\<lparr>dk_trash := filter (\<lambda>e. fst e \<noteq> rt_path retired) (dk_trash d)\<rparr>)"
    and "C (d\<lparr>dk_trash := filter (\<lambda>e. fst e \<noteq> rt_path retired) (dk_trash d)\<rparr>)"
    and "Q () (d\<lparr>dk_trash := filter (\<lambda>e. fst e \<noteq> rt_path retired) (dk_trash d)\<rparr>)"
  shows "wp F (delete_retired_space host retired) Q E C d"
proof -
  obtain n where n: "trash_entry d (rt_path retired) = Some n" using assms(3) by auto
  have "wp F (remove_exact_tree_restoring_owner_access host (rt_path retired) (rt_identity retired))
     (\<lambda>_. wp F sync_directory Q E C) E C d"
    unfolding remove_exact_tree_restoring_owner_access_def
    by (intro wp_bind [of _ "read_trash _ _"] wp_read_trash assms(1,2))
      (use n assms in \<open>auto intro!: wp_bind [of _ "lift _"] wp_lift wp_bind [of _ "read_trash _ _"] wp_read_trash wp_remove_tree wp_sync_directory\<close>)
  then show ?thesis
    unfolding delete_retired_space_def
    by (intro wp_keeps_bind [of "bind_io (read_trash _ _) _"] keeps_rules wp_bind [of _ "remove_exact_tree_restoring_owner_access _ _ _"] assms(1,2))
qed

subsection \<open>What a removal may do\<close>

text \<open>The conditions under which a directory may leave the store.\<close>

definition removable :: "store_host \<Rightarrow> removal_inputs \<Rightarrow> string \<Rightarrow> disk \<Rightarrow> bool" where
  "removable host inp name d \<longleftrightarrow>
     validate_removal_entry_name name = Ok () \<and> rv_lock inp = Ok () \<and> rv_depth inp = Ok () \<and>
     (\<exists>e. dk_spaces d name = Some e \<and> validate_private_dir (h_uid host) (node_stat e) = Ok ()) \<and>
     (\<forall>validated. space_name_parse name = Ok validated \<longrightarrow> rv_agent inp = Ok () \<and>
        (\<exists>s. identity_for_removal (h_json host) (h_uid host) name (map_option as_space_dir (dk_spaces d name)) validated = Ok (Some s) \<and>
           (\<forall>ident. sm_space_id (sp_manifest s) = Some ident \<longrightarrow> \<not> frozen_on_disk host ident d)))"

definition retired_or_deleted :: "string \<Rightarrow> disk \<Rightarrow> disk \<Rightarrow> bool" where
  "retired_or_deleted name d d' \<longleftrightarrow>
     dk_spaces d' = (dk_spaces d)(name := None) \<and>
     (\<exists>e. dk_spaces d name = Some e \<and> dk_trash d' = (dk_next d, e) # dk_trash d \<or>
          dk_trash d' = filter (\<lambda>e. fst e \<noteq> dk_next d) (dk_trash d))"

lemma retired_disk_state:
  assumes "dk_spaces d name = Some e"
  shows "retired_or_deleted name d (retired_disk name e d)"
    and "retired_or_deleted name d ((retired_disk name e d)\<lparr>dk_trash :=
      filter (\<lambda>e. fst e \<noteq> dk_next d) (dk_trash (retired_disk name e d))\<rparr>)"
    and "filter (\<lambda>e. fst e \<noteq> dk_next d) (dk_trash (retired_disk name e d)) = filter (\<lambda>e. fst e \<noteq> dk_next d) (dk_trash d)"
    and "trash_entry (retired_disk name e d) (dk_next d) = Some e"
  using assms by (simp_all add: retired_or_deleted_def retired_disk_def trash_entry_def)

lemma wp_removal_guards:
  assumes "\<And>e. E e d" and "C d"
    and "\<And>s. identity_for_removal (h_json host) (h_uid host) (space_name_as_str name)
        (map_option as_space_dir (dk_spaces d (space_name_as_str name))) name = Ok (Some s) \<Longrightarrow>
      (\<And>ident. sm_space_id (sp_manifest s) = Some ident \<Longrightarrow> \<not> frozen_on_disk host ident d) \<Longrightarrow> rv_agent inp = Ok () \<Longrightarrow> Q s d"
  shows "wp F (removal_guards host inp name) Q E C d"
proof -
  have "wp F (bind_io (catch (store_identity_for_removal host name)
        (\<lambda>_. fail (QErr CorruptState ''cannot prove private SSH-agent state is absent''))) (\<lambda>found.
     case found of
       None \<Rightarrow> fail (QErr NotFound ''space does not exist'')
     | Some identity \<Rightarrow>
         bind_io (ensure_not_frozen host identity) (\<lambda>_.
         bind_io (lift (rv_agent inp)) (\<lambda>_. ret identity)))) Q E C d"
    unfolding store_identity_for_removal_def
    by (intro wp_bind [of _ "catch _ _"] wp_catch wp_bind [of _ "read_entry _ _"] wp_read_entry wp_lift)
      (use assms in \<open>auto split: option.splits intro!: wp_fail wp_bind wp_ensure_not_frozen wp_lift wp_ret\<close>)
  then show ?thesis
    unfolding removal_guards_def
    by (intro wp_keeps_bind [OF keeps_guards(1)] wp_keeps_bind [OF keeps_guards(2)]) (use assms in auto)
qed

lemma space_name_parse_str: "space_name_parse name = Ok validated \<Longrightarrow> space_name_as_str validated = name"
  by (auto simp: space_name_parse_def Let_def split: if_splits)

lemma wp_remove_space:
  "wp F (remove_space host inp name)
     (\<lambda>_ d'. removable host inp name d \<and> retired_or_deleted name d d' \<and>
        dk_trash d' = filter (\<lambda>e. fst e \<noteq> dk_next d) (dk_trash d))
     (\<lambda>_ d'. d' = d \<or> removable host inp name d \<and> retired_or_deleted name d d')
     (\<lambda>d'. d' = d \<or> removable host inp name d \<and> retired_or_deleted name d d') d"
    (is "wp F _ ?Q ?E ?C d")
proof -
  have delete: "wp F (bind_io (retire_space host inp name) (\<lambda>retired.
       bind_io (delete_retired_space host retired) (\<lambda>_.
       case found of Some _ \<Rightarrow> lift (rv_runtime inp) | None \<Rightarrow> ret ()))) ?Q ?E ?C d"
    if ok: "validate_removal_entry_name name = Ok ()"
      and guards: "\<And>validated. space_name_parse name = Ok validated \<Longrightarrow> rv_agent inp = Ok () \<and>
        (\<exists>s. identity_for_removal (h_json host) (h_uid host) name (map_option as_space_dir (dk_spaces d name)) validated = Ok (Some s) \<and>
           (\<forall>ident. sm_space_id (sp_manifest s) = Some ident \<longrightarrow> \<not> frozen_on_disk host ident d))"
    for found :: "space option"
  proof -
    have allowed: "removable host inp name d" if "dk_spaces d name = Some e"
      "validate_private_dir (h_uid host) (node_stat e) = Ok ()" "rv_lock inp = Ok ()" "rv_depth inp = Ok ()" for e
      using that ok guards by (auto simp: removable_def)
    have tail: "wp F (case found of Some _ \<Rightarrow> lift (rv_runtime inp) | None \<Rightarrow> ret ()) ?Q ?E ?C d'" if "?Q () d'" for d'
      using that by (auto split: option.splits intro!: wp_lift wp_ret)
    have deleted: "wp F (bind_io (delete_retired_space host \<lparr>rt_path = dk_next d, rt_identity = ident\<rparr>) (\<lambda>_.
       case found of Some _ \<Rightarrow> lift (rv_runtime inp) | None \<Rightarrow> ret ())) ?Q ?E ?C (retired_disk name e d)"
      if "dk_spaces d name = Some e" "removable host inp name d" for e ident
      using that retired_disk_state [OF that(1)]
      by (intro wp_bind wp_delete_retired_space tail) simp_all
    show ?thesis
      by (intro wp_bind [of _ "retire_space _ _ _"] wp_retire_space conjI allI)
        (blast intro: allowed deleted retired_disk_state(1))+
  qed
  have "wp F (bind_io (case space_name_parse name of
           Inr validated \<Rightarrow> bind_io (removal_guards host inp validated) (\<lambda>identity. ret (Some identity))
         | Inl _ \<Rightarrow> ret None) (\<lambda>found.
       bind_io (retire_space host inp name) (\<lambda>retired.
       bind_io (delete_retired_space host retired) (\<lambda>_.
       case found of Some _ \<Rightarrow> lift (rv_runtime inp) | None \<Rightarrow> ret ())))) ?Q ?E ?C d"
    if ok: "validate_removal_entry_name name = Ok ()"
  proof (cases "space_name_parse name")
    case (Inr validated)
    note str = space_name_parse_str [OF Inr]
    show ?thesis
      unfolding Inr sum.case
      by (intro wp_bind [of _ "bind_io (removal_guards _ _ _) _"] wp_bind [of _ "removal_guards _ _ _"] wp_removal_guards
          wp_ret delete ok) (use str Inr in auto)
  qed (use ok in \<open>auto intro!: wp_bind [of _ "ret _"] wp_ret delete\<close>)
  then show ?thesis
    unfolding remove_space_def
    by (intro wp_bind [of _ "lift _"] wp_lift) (auto intro!: wp_fail)
qed

subsection \<open>An undisturbed removal\<close>

lemma private_stat_kinds:
  "private_dir_stat uid m \<Longrightarrow> is_dir m \<and> \<not> is_symlink m" "private_file_stat uid m \<Longrightarrow> is_file m"
  by (auto simp: private_dir_stat_def private_file_stat_def S_IFDIR_def S_IFLNK_def)

text \<open>A whole directory that nobody uses: private, with a private activity lock.\<close>

definition idle_directory :: "store_host \<Rightarrow> dir_node \<Rightarrow> bool" where
  "idle_directory host n \<longleftrightarrow>
     private_dir_stat (h_uid host) (dn_stat n) \<and>
     (\<exists>m bytes. dn_files n ACTIVE_FILE = Some (m, bytes) \<and> private_file_stat (h_uid host) m)"

lemma runs_retire_space:
  assumes e: "dk_spaces d name = Some (DirNode n)" and idle: "idle_directory host n"
    and inp: "rv_lock inp = Ok ()" "rv_depth inp = Ok ()" "rv_suffix inp = Ok ()"
    and Q: "Q \<lparr>rt_path = dk_next d, rt_identity = path_identity_from_metadata (dn_stat n)\<rparr> (retired_disk name (DirNode n) d)"
  shows "runs (retire_space host inp name) Q d"
proof -
  obtain m bytes where a: "active_stat (Some (DirNode n)) = SysOk m" "private_file_stat (h_uid host) m"
    and p: "private_dir_stat (h_uid host) (dn_stat n)"
    using idle by (auto simp: idle_directory_def active_stat_def inner_stat_def)
  have lock: "open_private_lock (h_uid host) (SysOk m, SysOk m) = Ok ()"
    using a(2) by (simp add: open_private_lock_def rbind_eq_Inr validate_private_file_ok)
  have same: "verify_directory action (path_identity_from_metadata (dn_stat n)) (Some (DirNode n)) = Ok ()" for action
    using private_stat_kinds(1) [OF p] by (simp add: verify_directory_def path_identity_matches_def)
  have rest: "runs (bind_io (rename_to_trash ''retire space'' name) (\<lambda>retired.
     bind_io (bind_io (read_trash ''verify retired space'' retired)
        (\<lambda>e. lift (verify_directory ''verify retired space'' (path_identity_from_metadata (dn_stat n)) e))) (\<lambda>_.
     bind_io sync_retirement (\<lambda>_. ret \<lparr>rt_path = retired, rt_identity = path_identity_from_metadata (dn_stat n)\<rparr>)))) Q d"
    unfolding sync_retirement_def read_trash_def
    by (intro runs_bind [of "rename_to_trash _ _"] runs_rename_to_trash [OF e] runs_bind [of "bind_io _ _"] runs_bind [of "syscall _ _ _"]
        runs_syscall [OF refl] runs_lift [where x = "()"] runs_bind [of sync_directory] runs_sync_directory runs_ret)
      (use same Q in \<open>simp_all add: trash_entry_def retired_disk_def\<close>)
  show ?thesis
    unfolding retire_space_def removal_metadata_def open_active_lock_def verify_held_lock_def Let_def
    by (intro runs_bind [of "bind_io _ _"] runs_bind [of "read_entry _ _"] runs_read_entry runs_bind [of "lift _"] runs_lift [where x = "()"]
        runs_bind [of create_private_dir] runs_create_private_dir)
      (use e p a lock same inp rest in \<open>auto simp: validate_private_dir_ok intro!: runs_bind [of "lift _"] runs_lift runs_ret
        runs_bind [of "bind_io _ _"] runs_bind [of "read_entry _ _"] runs_read_entry runs_bind [of create_private_dir] runs_create_private_dir\<close>)
qed

lemma runs_delete_retired:
  assumes e: "trash_entry d ticket = Some n" and p: "private_dir_stat (h_uid host) (node_stat n)"
    and Q: "Q () (d\<lparr>dk_trash := filter (\<lambda>e. fst e \<noteq> ticket) (dk_trash d)\<rparr>)"
  shows "runs (delete_retired_space host \<lparr>rt_path = ticket, rt_identity = path_identity_from_metadata (node_stat n)\<rparr>) Q d"
proof -
  have seen: "runs (read_trash action ticket) Q' d" if "Q' (Some n) d" for action Q'
    unfolding read_trash_def by (rule runs_syscall [OF refl]) (use e that in simp_all)
  have same: "verify_directory action (path_identity_from_metadata (node_stat n)) (Some n) = Ok ()"
      "verify_expected_identity (Some (path_identity_from_metadata (node_stat n))) (node_stat n) = Ok ()" for action
    using private_stat_kinds(1) [OF p] by (simp_all add: verify_directory_def verify_expected_identity_def path_identity_matches_def)
  show ?thesis
    unfolding delete_retired_space_def remove_exact_tree_restoring_owner_access_def
    by (intro runs_bind [of "bind_io _ _"] runs_bind [of "read_trash _ _"] seen runs_lift)
      (use same p Q in \<open>auto simp: validate_private_dir_ok intro!: runs_bind [of "bind_io _ _"] runs_bind [of "lift _"] runs_lift runs_bind [of "read_trash _ _"] seen
        runs_remove_tree runs_sync_directory\<close>)
qed

text \<open>A space that may be removed: an idle directory with a readable manifest and no freeze marker.\<close>

definition removal_ready :: "store_host \<Rightarrow> removal_inputs \<Rightarrow> space_name \<Rightarrow> disk \<Rightarrow> bool" where
  "removal_ready host inp name d \<longleftrightarrow>
     (\<exists>n s ident. dk_spaces d (space_name_as_str name) = Some (DirNode n) \<and> idle_directory host n \<and>
        identity_for_removal (h_json host) (h_uid host) (space_name_as_str name) (Some (as_space_dir (DirNode n))) name = Ok (Some s) \<and>
        sm_space_id (sp_manifest s) = Some ident \<and> dk_spaces d (freeze_name ident) = None) \<and>
     inp = \<lparr>rv_spaces_root = Ok True, rv_agent = Ok (), rv_lock = Ok (), rv_depth = Ok (), rv_suffix = Ok (), rv_runtime = Ok ()\<rparr> \<and>
     space_name_parse (space_name_as_str name) = Ok name \<and> validate_removal_entry_name (space_name_as_str name) = Ok () \<and>
     quiet_store host d \<and> dk_next d \<notin> fst ` set (dk_trash d)"

lemma runs_remove_space:
  assumes "removal_ready host inp name d"
  shows "runs (remove_space host inp (space_name_as_str name))
    (\<lambda>_ d'. dk_spaces d' = (dk_spaces d)(space_name_as_str name := None) \<and> dk_trash d' = dk_trash d) d"
proof -
  obtain n s ident where n: "dk_spaces d (space_name_as_str name) = Some (DirNode n)" "idle_directory host n"
    and s: "identity_for_removal (h_json host) (h_uid host) (space_name_as_str name) (Some (as_space_dir (DirNode n))) name = Ok (Some s)"
      "sm_space_id (sp_manifest s) = Some ident" "dk_spaces d (freeze_name ident) = None"
    and inp: "rv_spaces_root inp = Ok True" "rv_agent inp = Ok ()" "rv_lock inp = Ok ()" "rv_depth inp = Ok ()" "rv_suffix inp = Ok ()"
      "rv_runtime inp = Ok ()"
    and name: "space_name_parse (space_name_as_str name) = Ok name" "validate_removal_entry_name (space_name_as_str name) = Ok ()"
    and q: "quiet_store host d" and fresh: "dk_next d \<notin> fst ` set (dk_trash d)"
    using assms by (auto simp: removal_ready_def)
  let ?d = "retired_disk (space_name_as_str name) (DirNode n) d"
  have gone: "filter (\<lambda>e. fst e \<noteq> dk_next d) (dk_trash ?d) = dk_trash d"
    using fresh by (auto simp: retired_disk_def filter_id_conv image_iff)
  have identity: "runs (catch (store_identity_for_removal host name) h) Q d" if "Q (Some s) d" for h Q
    unfolding store_identity_for_removal_def
    by (intro runs_catch runs_bind [of "read_entry _ _"] runs_read_entry runs_lift) (use n s that in auto)
  have thawed: "runs (ensure_not_frozen host s) Q d" if "Q () d" for Q
    unfolding ensure_not_frozen_def by (intro runs_bind runs_freeze_state(2) [OF s(3,2)]) (simp add: runs_ret that)
  have guards: "runs (removal_guards host inp name) Q d" if "Q s d" for Q
    unfolding removal_guards_def
    by (intro runs_bind [of "ensure_no_rename_target _ _"] runs_no_rename_target [OF q]
        runs_bind [of "ensure_no_rollback_target _ _"] runs_no_rollback_target [OF q] runs_bind [of "catch _ _"] identity)
      (auto intro!: runs_bind [of "ensure_not_frozen _ _"] thawed runs_bind [of "lift _"] runs_lift [OF inp(2)] runs_ret that)
  have delete: "runs (delete_retired_space host \<lparr>rt_path = dk_next d, rt_identity = path_identity_from_metadata (dn_stat n)\<rparr>) Q ?d"
    if "Q () (?d\<lparr>dk_trash := filter (\<lambda>e. fst e \<noteq> dk_next d) (dk_trash ?d)\<rparr>)" for Q
    using runs_delete_retired [of ?d "dk_next d" "DirNode n" host Q] n(2) that
    by (simp add: trash_entry_def retired_disk_def idle_directory_def)
  show ?thesis
    unfolding remove_space_def
    by (intro runs_bind [of "lift _"] runs_lift [OF name(2)] runs_lift [OF inp(1)])
      (use name(1) gone in \<open>auto intro!: runs_bind [of "bind_io _ _"] runs_bind [of "removal_guards _ _ _"] guards runs_ret
        runs_bind [of "retire_space _ _ _"] runs_retire_space [OF n inp(3-5)] runs_bind [of "delete_retired_space _ _"] delete
        runs_lift [OF inp(6)] simp: retired_disk_def\<close>)
qed

text \<open>
  C17: Removal is atomic and guarded. Whatever system call fails and wherever the process stops, the
  store is either exactly as it was, or one visible directory of the given name has left it and
  is in the trash, whole, or deleted; no other entry changes. A directory leaves the store only
  if it is a private directory whose activity lock was obtained and, when its name is a valid
  space name, whose manifest was read back, which has no running agent and is not frozen. When
  the operation returns, the directory is gone from the store and from the trash.
\<close>

theorem removal_is_atomic_and_guarded:
  "case remove_space host inp name (d, script) of (r, d', rest) \<Rightarrow>
     (d' = d \<and> r \<noteq> Done ()) \<or>
     (removable host inp name d \<and> retired_or_deleted name d d' \<and>
      (r = Done () \<longrightarrow> dk_trash d' = filter (\<lambda>e. fst e \<noteq> dk_next d) (dk_trash d)))"
proof -
  obtain r d' rest where run: "remove_space host inp name (d, script) = (r, d', rest)" by (rule prod_cases3)
  show ?thesis
    unfolding run using wp_any_script [OF wp_remove_space run] by (cases r) auto
qed

definition rv_sample :: removal_inputs where
  "rv_sample = \<lparr>rv_spaces_root = Ok True, rv_agent = Ok (), rv_lock = Ok (), rv_depth = Ok (), rv_suffix = Ok (), rv_runtime = Ok ()\<rparr>"

lemma rv_ready: "removal_ready rn_host rv_sample rb_name rn_disk"
proof -
  let ?n = "rb_dir 10"
  have idle: "idle_directory rn_host ?n"
    using rb_file_valid rb_dir_valid by (simp add: idle_directory_def rb_dir_def rn_host_sel validate_private_file_ok validate_private_dir_ok)
  have "identity_for_removal (h_json rn_host) 0 ''work'' (Some (as_space_dir (DirNode ?n))) rb_name = Ok (Some rb_space)"
    using rn_opens [of 10]
    by (auto simp: open_node_def open_path_with_expected_name_def identity_for_removal_def validate_space_anchors_def rn_host_sel rb_name_def
        rbind_eq_Inr)
  moreover have "space_name_parse ''work'' = Ok rb_name"
    by (simp add: rb_name_def space_name_parse_def portable_name_grammar_def ascii_defs)
  ultimately show ?thesis
    using idle rn_quiet rn_thawed
    by (auto simp: removal_ready_def rv_sample_def rn_disk_def rn_host_sel rn_tx_sel rb_space_def rb_manifest_def
        validate_removal_entry_name_def starts_with_def freeze_name_def)
qed

theorem removal_is_atomic_and_guarded_witness:
  "\<exists>d' rest. remove_space rn_host rv_sample ''work'' (rn_disk, []) = (Done (), d', rest) \<and>
     removable rn_host rv_sample ''work'' rn_disk \<and> retired_or_deleted ''work'' rn_disk d' \<and> dk_trash d' = []"
proof -
  obtain d' where "remove_space rn_host rv_sample ''work'' (rn_disk, []) = (Done (), d', [])"
    using runs_remove_space [OF rv_ready] by (auto simp: runs_def rn_tx_sel)
  with removal_is_atomic_and_guarded [where host = rn_host and inp = rv_sample and name = "''work''" and d = rn_disk and script = "[]"] show ?thesis
    by (auto simp: rn_disk_def)
qed

end
