(* ===== verification/Space_Create.thy ===== *)
theory Space_Create
  imports Space_Remove
begin

text \<open>
  Creation of a space, \<open>store/create.rs\<close>: a hidden working directory with a held lock, its
  population, the checks before publication, and publication by one rename. The contents of the
  home directory other than its files are not part of the store model, so the directory
  skeleton is a sequence of calls that may fail. The layout check, the shell's metadata, the
  unique suffix, the lock attempt, the generated identifier, the clock and the platform's
  directory list are inputs; the management lock is left out; the deletion of a working directory is one step.
\<close>

subsection \<open>Directories\<close>

definition created_dir_stat :: "nat \<Rightarrow> nat \<Rightarrow> file_stat" where
  "created_dir_stat uid ino =
     \<lparr>st_dev = 0, st_ino = ino, st_uid = uid, st_gid = 0, st_mode = 16832, st_nlink = 2,
      st_size = 0, st_mtime = 0, st_mtime_nsec = 0, st_ctime = 0, st_ctime_nsec = 0\<rparr>"

definition create_private_entry :: "store_host \<Rightarrow> string \<Rightarrow> unit io" where
  "create_private_entry host name =
     bind_io (read_entry ''inspect private directory'' name) (\<lambda>e.
     case e of
       Some n \<Rightarrow> lift (validate_private_dir (h_uid host) (node_stat n))
     | None \<Rightarrow>
         bind_io (syscall ''create private directory'' atomic (\<lambda>d.
            case dk_spaces d name of
              Some (DirNode _) \<Rightarrow> (Ok (), d)
            | Some _ \<Rightarrow> (Err SystemError ''create private directory'', d)
            | None \<Rightarrow> (Ok (), d\<lparr>dk_spaces := (dk_spaces d)(name \<mapsto> DirNode
                 \<lparr>dn_stat = created_dir_stat (h_uid host) (dk_next d), dn_home = SysNotFound, dn_files = Map.empty\<rparr>),
               dk_next := Suc (dk_next d)\<rparr>))) (\<lambda>_.
         bind_io (read_entry ''inspect created private directory'' name) (\<lambda>e.
         lift (case e of
            None \<Rightarrow> Err SystemError ''inspect created private directory''
          | Some n \<Rightarrow> validate_private_dir (h_uid host) (node_stat n)))))"

definition home_stat :: "node option \<Rightarrow> file_stat sys" where
  "home_stat e = (case e of Some (DirNode n) \<Rightarrow> dn_home n | _ \<Rightarrow> SysFail)"

definition create_private_home :: "store_host \<Rightarrow> string \<Rightarrow> unit io" where
  "create_private_home host root =
     bind_io (read_entry ''inspect private directory'' root) (\<lambda>e.
     case home_stat e of
       SysOk m \<Rightarrow> lift (validate_private_dir (h_uid host) m)
     | SysFail \<Rightarrow> fail (QErr SystemError ''inspect private directory'')
     | SysNotFound \<Rightarrow>
         bind_io (syscall ''create private directory'' atomic (\<lambda>d.
            (case dk_spaces d root of
               Some (DirNode n) \<Rightarrow>
                 if dn_home n \<noteq> SysNotFound then (Ok (), d)
                 else (Ok (), d\<lparr>dk_spaces := (dk_spaces d)(root \<mapsto> DirNode
                     (n\<lparr>dn_home := SysOk (created_dir_stat (h_uid host) (dk_next d))\<rparr>)), dk_next := Suc (dk_next d)\<rparr>)
             | _ \<Rightarrow> (Err SystemError ''create private directory'', d)))) (\<lambda>_.
         bind_io (read_entry ''inspect created private directory'' root) (\<lambda>e.
         lift (case home_stat e of
            SysOk m \<Rightarrow> validate_private_dir (h_uid host) m
          | _ \<Rightarrow> Err SystemError ''inspect created private directory''))))"

subsection \<open>Initial user state\<close>

definition text_lines :: "string list \<Rightarrow> string" where
  "text_lines ls = concat (map (\<lambda>l. l @ [CHR 0x0A]) ls)"

definition zshrc :: string where
  "zshrc = text_lines
     [''# Quarters-owned starting point. This file belongs to this space.'',
      ''export HISTFILE='' @ [CHR 0x22] @ ''${XDG_STATE_HOME:-$HOME/.local/state}/shell/zsh_history'' @ [CHR 0x22],
      ''setopt APPEND_HISTORY INC_APPEND_HISTORY SHARE_HISTORY'',
      ''if command -v quarters >/dev/null 2>&1; then'',
      ''  eval '' @ [CHR 0x22] @ ''$(quarters shell-init zsh 2>/dev/null)'' @ [CHR 0x22],
      ''fi'']"

definition bashrc :: string where
  "bashrc = text_lines
     [''# Quarters-owned starting point. This file belongs to this space.'',
      ''HISTFILE='' @ [CHR 0x22] @ ''${XDG_STATE_HOME:-$HOME/.local/state}/shell/bash_history'' @ [CHR 0x22],
      ''export HISTFILE'',
      ''if command -v quarters >/dev/null 2>&1; then'',
      ''  eval '' @ [CHR 0x22] @ ''$(quarters shell-init bash 2>/dev/null)'' @ [CHR 0x22],
      ''fi'']"

definition gitconfig :: string where
  "gitconfig = text_lines
     [''# Host credential helpers are deliberately cleared.'', ''[credential]'',
      [CHR 0x09] @ ''helper ='', [CHR 0x09] @ ''useHttpPath = true'']"

definition ssh_config :: string where
  "ssh_config = text_lines
     [''# Quarters-owned SSH configuration.'',
      ''# OpenSSH expands ~ from the host passwd home; use explicit space paths.'',
      ''Host *'', ''  AddKeysToAgent no'']"

definition workspace_directories :: "string list" where
  "workspace_directories =
     [''Desktop'', ''Documents'', ''Downloads'', ''Music'', ''Pictures'', ''Public'', ''Templates'', ''Videos'']"

definition private_directories :: "string list" where
  "private_directories =
     [''.cache'', ''.cargo'', ''.claude'', ''.codex'', ''.config/gh'', ''.config/npm'', ''.gnupg'', ''.local/bin'',
      ''.local/share'', ''.local/state/shell'', ''.ssh'']"

record creation_inputs =
  ci_layout :: "unit result"
  ci_shell :: "file_stat sys"
  ci_suffix :: "string result"
  ci_lock :: "unit result"
  ci_id :: "space_id result"
  ci_now :: "nat result"
  ci_platform_directories :: "string list"

text \<open>The shell's metadata follow links, as \<open>fs::metadata\<close> does.\<close>

definition validate_shell :: "string \<Rightarrow> file_stat sys \<Rightarrow> unit result" where
  "validate_shell shell obs =
     (let executable = (case obs of SysOk m \<Rightarrow> is_file m \<and> executable_bits (st_mode m) | _ \<Rightarrow> False)
      in if is_absolute shell \<and> executable then Ok ()
         else Err InvalidInput ''default shell must be an existing absolute executable file'')"

definition create_shell_files :: "store_host \<Rightarrow> string \<Rightarrow> unit io" where
  "create_shell_files host root =
     bind_io (write_private_inner (h_uid host) root ''home/.zshrc'' zshrc) (\<lambda>_.
     write_private_inner (h_uid host) root ''home/.bashrc'' bashrc)"

definition create_git_config :: "store_host \<Rightarrow> string \<Rightarrow> unit io" where
  "create_git_config host root = write_private_inner (h_uid host) root ''home/.gitconfig'' gitconfig"

definition write_manifest :: "store_host \<Rightarrow> string \<Rightarrow> space_manifest \<Rightarrow> unit io" where
  "write_manifest host root manifest =
     write_private_inner (h_uid host) root MANIFEST_FILE (h_manifest_bytes host manifest)"

definition new_manifest :: "space_name \<Rightarrow> string \<Rightarrow> space_layout \<Rightarrow> space_id \<Rightarrow> nat \<Rightarrow> space_manifest" where
  "new_manifest name shell layout ident now =
     \<lparr>sm_schema_version = STABLE_SCHEMA_VERSION, sm_layout = Some layout, sm_space_id = Some ident,
      sm_name = name, sm_created_unix_ms = now, sm_default_shell = shell,
      sm_authority_model = ''host-account-state-profile''\<rparr>"

definition create_skeleton :: "string list \<Rightarrow> unit io" where
  "create_skeleton relatives = iterate (\<lambda>_ _. create_private_dir) relatives ()"

definition populate_space ::
  "store_host \<Rightarrow> creation_inputs \<Rightarrow> string \<Rightarrow> space_name \<Rightarrow> string \<Rightarrow> space_layout \<Rightarrow> space_manifest io" where
  "populate_space host inp root name shell layout =
     bind_io (create_private_home host root) (\<lambda>_.
     bind_io (create_skeleton private_directories) (\<lambda>_.
     bind_io (if layout = Workspace then create_skeleton (workspace_directories @ ci_platform_directories inp) else ret ()) (\<lambda>_.
     bind_io (create_shell_files host root) (\<lambda>_.
     bind_io (create_git_config host root) (\<lambda>_.
     bind_io (write_private_inner (h_uid host) root ''home/.ssh/config'' ssh_config) (\<lambda>_.
     bind_io (write_private_inner (h_uid host) root ACTIVE_FILE []) (\<lambda>_.
     bind_io (lift (ci_id inp)) (\<lambda>ident.
     bind_io (lift (ci_now inp)) (\<lambda>now.
     let manifest = new_manifest name shell layout ident now in
     bind_io (write_manifest host root manifest) (\<lambda>_. ret manifest))))))))))"

subsection \<open>The working directory\<close>

definition creating_name :: "space_name \<Rightarrow> string \<Rightarrow> string" where
  "creating_name name suffix = ''.creating-'' @ space_name_as_str name @ ''-'' @ suffix"

definition reject_unfinished_path :: "string \<Rightarrow> unit io" where
  "reject_unfinished_path path =
     bind_io (entry_exists path) (\<lambda>present.
     if \<not> present then ret () else fail (QErr CorruptState ''unfinished creation path exists''))"

definition remove_entry_tree :: "store_host \<Rightarrow> path_identity option \<Rightarrow> string \<Rightarrow> unit io" where
  "remove_entry_tree host identity path =
     bind_io (read_entry ''inspect private removal tree'' path) (\<lambda>e.
     case e of
       None \<Rightarrow> ret ()
     | Some n \<Rightarrow>
         bind_io (lift (validate_private_dir (h_uid host) (node_stat n))) (\<lambda>_.
         bind_io (lift (verify_expected_identity identity (node_stat n))) (\<lambda>_.
         bind_io (read_entry ''reinspect private removal tree'' path) (\<lambda>e.
         case e of
           None \<Rightarrow> ret ()
         | Some n \<Rightarrow>
             bind_io (lift (verify_expected_identity identity (node_stat n))) (\<lambda>_.
             syscall ''remove private recovery tree'' atomic (\<lambda>d.
               (Ok (), d\<lparr>dk_spaces := (dk_spaces d)(path := None)\<rparr>)))))))"

definition or_else_cleanup :: "'a io \<Rightarrow> unit io \<Rightarrow> 'a io" where
  "or_else_cleanup m cleanup = catch m (\<lambda>error. bind_io (attempt cleanup) (\<lambda>_. fail error))"

definition open_or_create_private_lock :: "store_host \<Rightarrow> string \<Rightarrow> unit io" where
  "open_or_create_private_lock host root =
     bind_io (read_inner ''create observation lock'' root CREATION_LOCK_FILE) (\<lambda>e.
     case e of
       Some (m, _) \<Rightarrow> lift (open_private_lock (h_uid host) (SysOk m, SysOk m))
     | None \<Rightarrow>
         bind_io (syscall ''create observation lock'' atomic (\<lambda>d.
            case inner_files d root of
              None \<Rightarrow> (Err SystemError ''create observation lock'', d)
            | Some files \<Rightarrow>
                if files CREATION_LOCK_FILE \<noteq> None then (Err SystemError ''create observation lock'', d)
                else (Ok (), put_inner (h_uid host) root CREATION_LOCK_FILE [] d))) (\<lambda>_.
         bind_io (read_inner ''inspect created observation lock'' root CREATION_LOCK_FILE) (\<lambda>e.
         lift (case e of
            None \<Rightarrow> Err SystemError ''inspect created observation lock''
          | Some (m, _) \<Rightarrow> validate_private_file (h_uid host) m))))"

definition acquire_creation_lock :: "store_host \<Rightarrow> creation_inputs \<Rightarrow> string \<Rightarrow> unit io" where
  "acquire_creation_lock host inp temporary =
     bind_io (or_else_cleanup (open_or_create_private_lock host temporary) (remove_entry_tree host None temporary)) (\<lambda>_.
     or_else_cleanup (lift (ci_lock inp)) (remove_entry_tree host None temporary))"

definition capture_staging :: "string \<Rightarrow> staging_identity io" where
  "capture_staging root =
     bind_io (read_entry ''capture lifecycle staging root'' root) (\<lambda>e.
     bind_io (lift (case e of None \<Rightarrow> Err SystemError ''capture lifecycle staging root'' | Some n \<Rightarrow> Ok (node_stat n))) (\<lambda>root_metadata.
     bind_io (read_inner ''capture lifecycle creation lock'' root CREATION_LOCK_FILE) (\<lambda>lock.
     lift (case lock of
        None \<Rightarrow> Err SystemError ''capture lifecycle creation lock''
      | Some (lock_metadata, _) \<Rightarrow>
          Ok \<lparr>sg_root = path_identity_from_metadata root_metadata, sg_lock = path_identity_from_metadata lock_metadata\<rparr>))))"

definition cleanup_staging :: "store_host \<Rightarrow> staging_identity \<Rightarrow> string \<Rightarrow> unit io" where
  "cleanup_staging host self root = remove_entry_tree host (Some (sg_root self)) root"

subsection \<open>The transaction\<close>

definition reject_publish_collision :: "string \<Rightarrow> unit io" where
  "reject_publish_collision destination =
     bind_io (entry_exists destination) (\<lambda>present.
     if \<not> present then ret () else fail (QErr AlreadyExists ''space already exists''))"

definition prepare_publication :: "store_host \<Rightarrow> staging_identity \<Rightarrow> string \<Rightarrow> space_name \<Rightarrow> unit io" where
  "prepare_publication host ident temporary name =
     bind_io (verify_staging ident temporary) (\<lambda>_.
     bind_io (lift (space_name_parse (space_name_as_str name))) (\<lambda>publication_name.
     bind_io (ensure_no_rename_target host publication_name) (\<lambda>_.
     bind_io (ensure_no_rollback_target host publication_name) (\<lambda>_.
     bind_io (reject_publish_collision (space_name_as_str name)) (\<lambda>_.
     verify_staging ident temporary)))))"

definition creation_guards :: "store_host \<Rightarrow> creation_inputs \<Rightarrow> space_name \<Rightarrow> string \<Rightarrow> string io" where
  "creation_guards host inp name shell =
     bind_io (lift (ci_layout inp)) (\<lambda>_.
     bind_io (lift (validate_shell shell (ci_shell inp))) (\<lambda>_.
     bind_io (ensure_no_rename_target host name) (\<lambda>_.
     bind_io (ensure_no_rollback_target host name) (\<lambda>_.
     bind_io (entry_exists (space_name_as_str name)) (\<lambda>present.
     if present then fail (QErr AlreadyExists ''space already exists'')
     else
       bind_io (lift (ci_suffix inp)) (\<lambda>suffix.
       bind_io (reject_unfinished_path (creating_name name suffix)) (\<lambda>_.
       ret (creating_name name suffix))))))))"

definition publish_space :: "store_host \<Rightarrow> staging_identity \<Rightarrow> string \<Rightarrow> space_name \<Rightarrow> unit io" where
  "publish_space host ident temporary name =
     (let cleanup = cleanup_staging host ident temporary; destination = space_name_as_str name in
     bind_io (or_else_cleanup (prepare_publication host ident temporary name) cleanup) (\<lambda>_.
     bind_io (or_else_cleanup (remove_inner_file ''remove creation marker'' temporary CREATION_LOCK_FILE) cleanup) (\<lambda>_.
     bind_io (or_else_cleanup (sync_entry host temporary) cleanup) (\<lambda>_.
     bind_io (or_else_cleanup (rename_entry ''publish space'' temporary destination) cleanup) (\<lambda>_.
     sync_directory)))))"

definition create_with_layout ::
  "store_host \<Rightarrow> creation_inputs \<Rightarrow> space_name \<Rightarrow> string \<Rightarrow> space_layout \<Rightarrow> space io" where
  "create_with_layout host inp name shell layout =
     bind_io (creation_guards host inp name shell) (\<lambda>temporary.
     bind_io (create_private_entry host temporary) (\<lambda>_.
     bind_io (acquire_creation_lock host inp temporary) (\<lambda>_.
     bind_io (capture_staging temporary) (\<lambda>ident.
     bind_io (or_else_cleanup (populate_space host inp temporary name shell layout) (cleanup_staging host ident temporary)) (\<lambda>_.
     bind_io (publish_space host ident temporary name) (\<lambda>_.
     open_path host (space_name_as_str name)))))))"

definition create :: "store_host \<Rightarrow> creation_inputs \<Rightarrow> space_name \<Rightarrow> string \<Rightarrow> space io" where
  "create host inp name shell = create_with_layout host inp name shell Profile"

subsection \<open>The working directory under faults\<close>

text \<open>A directory entry with a property of its contents, inside a frame.\<close>

definition at_dir :: "string \<Rightarrow> (dir_node \<Rightarrow> bool) \<Rightarrow> (disk \<Rightarrow> bool) \<Rightarrow> disk \<Rightarrow> bool" where
  "at_dir root N R d \<longleftrightarrow> (\<exists>n. dk_spaces d root = Some (DirNode n) \<and> N n) \<and> R d"

definition private_or_absent :: "nat \<Rightarrow> (file_stat \<times> string) option \<Rightarrow> bool" where
  "private_or_absent uid v \<longleftrightarrow> (\<forall>m b. v = Some (m, b) \<longrightarrow> private_file_stat uid m)"

definition file_stable :: "nat \<Rightarrow> string \<Rightarrow> (dir_node \<Rightarrow> bool) \<Rightarrow> bool" where
  "file_stable uid f N \<longleftrightarrow> (\<forall>n v. N n \<longrightarrow> private_or_absent uid v \<longrightarrow> N (n\<lparr>dn_files := (dn_files n)(f := v)\<rparr>))"

lemma private_or_absent_simps [simp]: "private_or_absent uid None" "private_or_absent uid (Some (created_stat uid i len, b))"
  by (simp_all add: private_or_absent_def)

definition created_file :: "nat \<Rightarrow> string \<Rightarrow> string \<Rightarrow> dir_node \<Rightarrow> bool" where
  "created_file uid f bytes n \<longleftrightarrow> (\<exists>i. dn_files n f = Some (created_stat uid i (length bytes), bytes))"

lemma at_dir_mono: "at_dir root N R d \<Longrightarrow> (\<And>n. N n \<Longrightarrow> N' n) \<Longrightarrow> at_dir root N' R d"
  by (auto simp: at_dir_def)

lemma at_dir_put:
  assumes "frames root R" and "file_stable uid f N" and "at_dir root N R d"
  shows "at_dir root (\<lambda>n. N n \<and> created_file uid f b n) R (put_inner uid root f b d)"
proof -
  obtain n where n: "dk_spaces d root = Some (DirNode n)" "N n" and R: "R d"
    using assms(3) by (auto simp: at_dir_def)
  have "R (put_inner uid root f b d)"
    using framesD [OF assms(1) R] n by (simp add: put_inner_def)
  then show ?thesis
    using n assms(2) by (auto simp: at_dir_def put_inner_def file_stable_def created_file_def)
qed

lemma triple_write_inner:
  assumes "frames root R" and "file_stable uid f N"
  shows "triple F (at_dir root N R) (write_private_inner uid root f bytes)
     (\<lambda>_. at_dir root (\<lambda>n. N n \<and> created_file uid f bytes n) R) (at_dir root N R)"
proof -
  have put: "at_dir root N R (put_inner uid root f b d)" if "at_dir root N R d" for b d
    using at_dir_put [OF assms that] by (rule at_dir_mono) simp
  have full: "at_dir root (\<lambda>n. N n \<and> created_file uid f b n) R (put_inner uid root f b d)" if "at_dir root N R d" for b d
    by (rule at_dir_put [OF assms that])
  have less: "at_dir root (\<lambda>n. N n \<and> created_file uid f b n) R d \<Longrightarrow> at_dir root N R d" for b d
    by (erule at_dir_mono) simp
  show ?thesis
    unfolding write_private_inner_def
    by (intro triple_bind [where R = "\<lambda>_. at_dir root N R"]
        triple_bind [where R = "\<lambda>_. at_dir root (\<lambda>n. N n \<and> created_file uid f bytes n) R"] triple_syscall)
      (auto split: option.splits if_splits intro: put full less)
qed

lemma triple_create_home:
  assumes "frames root R" and "\<And>n h. N n \<Longrightarrow> N (n\<lparr>dn_home := h\<rparr>)"
  shows "triple F (at_dir root N R) (create_private_home host root)
     (\<lambda>_. at_dir root (\<lambda>n. N n \<and> (\<exists>m. dn_home n = SysOk m \<and> private_dir_stat (h_uid host) m)) R) (at_dir root N R)"
    (is "triple F ?P _ ?Q ?P")
proof -
  have check: "triple F ?P (bind_io (read_entry ''inspect created private directory'' root) (\<lambda>e.
         lift (case home_stat e of
            SysOk m \<Rightarrow> validate_private_dir (h_uid host) m
          | _ \<Rightarrow> Err SystemError ''inspect created private directory''))) ?Q ?P"
    unfolding triple_def
    by (intro allI impI wp_bind wp_read_entry wp_lift)
      (auto simp: at_dir_def home_stat_def validate_private_dir_ok split: sys.splits)
  have make: "triple F ?P (syscall ''create private directory'' atomic (\<lambda>d.
            (case dk_spaces d root of
               Some (DirNode n) \<Rightarrow>
                 if dn_home n \<noteq> SysNotFound then (Ok (), d)
                 else (Ok (), d\<lparr>dk_spaces := (dk_spaces d)(root \<mapsto> DirNode
                     (n\<lparr>dn_home := SysOk (created_dir_stat (h_uid host) (dk_next d))\<rparr>)), dk_next := Suc (dk_next d)\<rparr>)
             | _ \<Rightarrow> (Err SystemError ''create private directory'', d)))) (\<lambda>_. ?P) ?P"
    by (rule triple_syscall)
      (use framesD [OF assms(1)] assms(2) in \<open>auto simp: at_dir_def split: if_splits\<close>)
  have cont: "wp F (case home_stat (dk_spaces d root) of
       SysOk m \<Rightarrow> lift (validate_private_dir (h_uid host) m)
     | SysFail \<Rightarrow> fail (QErr SystemError ''inspect private directory'')
     | SysNotFound \<Rightarrow>
         bind_io (syscall ''create private directory'' atomic (\<lambda>d.
            (case dk_spaces d root of
               Some (DirNode n) \<Rightarrow>
                 if dn_home n \<noteq> SysNotFound then (Ok (), d)
                 else (Ok (), d\<lparr>dk_spaces := (dk_spaces d)(root \<mapsto> DirNode
                     (n\<lparr>dn_home := SysOk (created_dir_stat (h_uid host) (dk_next d))\<rparr>)), dk_next := Suc (dk_next d)\<rparr>)
             | _ \<Rightarrow> (Err SystemError ''create private directory'', d)))) (\<lambda>_.
         bind_io (read_entry ''inspect created private directory'' root) (\<lambda>e.
         lift (case home_stat e of
            SysOk m \<Rightarrow> validate_private_dir (h_uid host) m
          | _ \<Rightarrow> Err SystemError ''inspect created private directory'')))) ?Q (\<lambda>_. ?P) ?P d"
    if P: "?P d" for d
  proof (cases "home_stat (dk_spaces d root)")
    case SysNotFound
    show ?thesis unfolding SysNotFound sys.case by (rule triple_wp [OF triple_bind [OF make check] P])
  qed (use P in \<open>auto simp: at_dir_def home_stat_def validate_private_dir_ok intro!: wp_lift wp_fail split: option.splits node.splits\<close>)
  show ?thesis
    unfolding create_private_home_def triple_def
    by (intro allI impI wp_bind [of _ "read_entry _ _"] wp_read_entry cont) auto
qed

subsection \<open>Population\<close>

definition private_dir_node :: "nat \<Rightarrow> dir_node \<Rightarrow> bool" where
  "private_dir_node uid n \<longleftrightarrow> private_dir_stat uid (dn_stat n) \<and> private_or_absent uid (dn_files n CREATION_LOCK_FILE)"

definition with_home :: "nat \<Rightarrow> dir_node \<Rightarrow> bool" where
  "with_home uid n \<longleftrightarrow> private_dir_node uid n \<and> (\<exists>m. dn_home n = SysOk m \<and> private_dir_stat uid m)"

definition populated :: "store_host \<Rightarrow> space_manifest \<Rightarrow> dir_node \<Rightarrow> bool" where
  "populated host manifest n \<longleftrightarrow>
     with_home (h_uid host) n \<and> created_file (h_uid host) ACTIVE_FILE [] n \<and>
     created_file (h_uid host) MANIFEST_FILE (h_manifest_bytes host manifest) n"

lemma with_home_private: "with_home uid n \<Longrightarrow> private_dir_node uid n"
  by (simp add: with_home_def)

lemma file_stable_rules [intro]:
  "file_stable uid f (private_dir_node uid)" "file_stable uid f (with_home uid)"
  "f \<noteq> g \<Longrightarrow> file_stable uid f (created_file uid g b)"
  "file_stable uid f N \<Longrightarrow> file_stable uid f N' \<Longrightarrow> file_stable uid f (\<lambda>n. N n \<and> N' n)"
  by (auto simp: file_stable_def private_dir_node_def with_home_def created_file_def)

lemma triple_weaken: "triple F P m Q C \<Longrightarrow> (\<And>x d. Q x d \<Longrightarrow> Q' x d) \<Longrightarrow> (\<And>d. C d \<Longrightarrow> C' d) \<Longrightarrow> triple F P m Q' C'"
  by (rule triple_conseq [of F P m Q C]) auto

lemma triple_assume: "(B \<Longrightarrow> triple F P m Q C) \<Longrightarrow> triple F (\<lambda>d. B \<and> P d) m Q C"
  by (auto simp: triple_def)

lemma triple_skeleton:
  "(\<And>d. P d \<Longrightarrow> C d) \<Longrightarrow> triple F P (create_skeleton relatives) (\<lambda>_. P) C"
  unfolding create_skeleton_def by (rule triple_keeps) (auto intro!: keeps_rules)

lemma triple_user_file:
  assumes "frames root R"
  shows "triple F (at_dir root (with_home uid) R) (write_private_inner uid root f bytes)
     (\<lambda>_. at_dir root (with_home uid) R) (at_dir root (private_dir_node uid) R)"
  by (rule triple_weaken [OF triple_write_inner [OF assms]])
    (auto elim!: at_dir_mono simp: with_home_def)

lemma triple_populate:
  assumes R: "frames root R"
  shows "triple F (at_dir root (private_dir_node (h_uid host)) R) (populate_space host inp root name shell layout)
     (\<lambda>manifest d. (\<exists>ident now. ci_id inp = Ok ident \<and> ci_now inp = Ok now \<and> manifest = new_manifest name shell layout ident now) \<and>
        at_dir root (populated host manifest) R d)
     (at_dir root (private_dir_node (h_uid host)) R)" (is "triple F ?P _ ?Q ?P")
proof -
  let ?H = "at_dir root (with_home (h_uid host)) R"
  have HP: "?H d \<Longrightarrow> ?P d" for d by (erule at_dir_mono) (simp add: with_home_def)
  have home: "triple F ?P (create_private_home host root) (\<lambda>_. ?H) ?P"
    by (rule triple_weaken [OF triple_create_home [OF R]]) (auto simp: private_dir_node_def with_home_def elim!: at_dir_mono)
  have skeleton: "triple F ?H (create_skeleton relatives) (\<lambda>_. ?H) ?P" for relatives
    by (rule triple_skeleton) (rule HP)
  have extra: "triple F ?H (if layout = Workspace then create_skeleton relatives else ret ()) (\<lambda>_. ?H) ?P" for relatives
    by (simp add: skeleton triple_ret)
  note user = triple_user_file [OF R, where F = F and uid = "h_uid host"]
  have active: "triple F ?H (write_private_inner (h_uid host) root ACTIVE_FILE [])
     (\<lambda>_. at_dir root (\<lambda>n. with_home (h_uid host) n \<and> created_file (h_uid host) ACTIVE_FILE [] n) R) ?P"
    by (rule triple_weaken [OF triple_write_inner [OF R]]) (auto intro: HP)
  let ?A = "at_dir root (\<lambda>n. with_home (h_uid host) n \<and> created_file (h_uid host) ACTIVE_FILE [] n) R"
  have AP: "?A d \<Longrightarrow> ?P d" for d by (erule at_dir_mono) (simp add: with_home_def)
  have manifest: "triple F ?A (bind_io (write_manifest host root manifest) (\<lambda>_. ret manifest))
     (\<lambda>x d. x = manifest \<and> at_dir root (populated host manifest) R d) ?P" for manifest
    unfolding write_manifest_def
    by (rule triple_bind [OF triple_weaken [OF triple_write_inner [OF R]] triple_ret])
      (auto simp: populated_def elim!: at_dir_mono intro!: file_stable_rules intro: with_home_private)
  have finish: "triple F ?A (bind_io (lift (ci_id inp)) (\<lambda>ident.
     bind_io (lift (ci_now inp)) (\<lambda>now.
     let manifest = new_manifest name shell layout ident now in
     bind_io (write_manifest host root manifest) (\<lambda>_. ret manifest)))) ?Q ?P"
    unfolding Let_def
    by (intro triple_bind [OF triple_lift [where Q = "\<lambda>ident d. ci_id inp = Ok ident \<and> ?A d"]]
        triple_bind [OF triple_lift [where Q = "\<lambda>now d. ci_id inp = Ok _ \<and> ci_now inp = Ok now \<and> ?A d"]])
      (auto intro: AP intro!: triple_assume triple_weaken [OF manifest])
  show ?thesis
    unfolding populate_space_def create_shell_files_def create_git_config_def
    by (intro triple_bind [OF home] triple_bind [OF skeleton] triple_bind [OF extra] triple_bind [OF triple_bind [OF user user]]
        triple_bind [OF user] triple_bind [OF active] finish)
qed

subsection \<open>Cleanup and publication\<close>

text \<open>What a creation may leave behind: nothing, or its private working directory.\<close>

definition leftover :: "store_host \<Rightarrow> string \<Rightarrow> (disk \<Rightarrow> bool) \<Rightarrow> disk \<Rightarrow> bool" where
  "leftover host temporary R d \<longleftrightarrow>
     (dk_spaces d temporary = None \<and> R d) \<or> at_dir temporary (private_dir_node (h_uid host)) R d"

lemma leftover_dir: "at_dir temporary (private_dir_node (h_uid host)) R d \<Longrightarrow> leftover host temporary R d"
  by (simp add: leftover_def)

lemma triple_remove_entry_tree:
  assumes "frames temporary R"
  shows "triple F (at_dir temporary (private_dir_node (h_uid host)) R) (remove_entry_tree host identity temporary)
     (\<lambda>_. leftover host temporary R) (leftover host temporary R)"
proof -
  have gone: "leftover host temporary R (d\<lparr>dk_spaces := (dk_spaces d)(temporary := None)\<rparr>)"
    if "at_dir temporary (private_dir_node (h_uid host)) R d" for d
    using that framesD_entry [OF assms, of d None] by (auto simp: leftover_def at_dir_def)
  have drop: "wp F (syscall a atomic (\<lambda>d. (Ok (), d\<lparr>dk_spaces := (dk_spaces d)(temporary := None)\<rparr>)))
     (\<lambda>_. leftover host temporary R) (\<lambda>_. leftover host temporary R) (leftover host temporary R) d"
    if "at_dir temporary (private_dir_node (h_uid host)) R d" for a d
    by (rule wp_syscall) (use that gone leftover_dir in auto)
  show ?thesis
    unfolding remove_entry_tree_def triple_def
    by (intro allI impI wp_bind [of _ "read_entry _ _"] wp_read_entry leftover_dir)
      (auto split: option.splits intro!: wp_ret wp_bind [of _ "lift _"] wp_lift wp_bind [of _ "read_entry _ _"] wp_read_entry drop
        intro: leftover_dir)
qed

lemma triple_or_else_cleanup:
  assumes "triple F P m Q C" and "triple F C cleanup (\<lambda>_. L) L" and "\<And>d. C d \<Longrightarrow> L d"
  shows "triple F P (or_else_cleanup m cleanup) Q L"
  unfolding triple_def or_else_cleanup_def
proof (intro allI impI wp_catch)
  fix d
  assume "P d"
  have handler: "wp F (bind_io (attempt cleanup) (\<lambda>_. fail e)) Q (\<lambda>_. L) L d'" if "C d'" for e d'
    by (intro wp_bind wp_attempt) (rule wp_conseq [OF triple_wp [OF assms(2) that]], auto intro!: wp_fail)
  show "wp F m Q (\<lambda>e. wp F (bind_io (attempt cleanup) (\<lambda>_. fail e)) Q (\<lambda>_. L) L) L d"
    by (rule wp_conseq [OF triple_wp [OF assms(1) \<open>P d\<close>]]) (auto intro: handler assms(3))
qed

lemmas triple_cleanup = triple_or_else_cleanup [OF _ triple_remove_entry_tree leftover_dir]

definition published :: "store_host \<Rightarrow> string \<Rightarrow> string \<Rightarrow> space_manifest \<Rightarrow> (disk \<Rightarrow> bool) \<Rightarrow> disk \<Rightarrow> bool" where
  "published host temporary destination manifest R d \<longleftrightarrow>
     dk_spaces d temporary = None \<and> at_dir destination (populated host manifest) R d"

lemma keeps_verify_staging [keeps_rules]: "keeps (verify_staging ident root)"
  unfolding verify_staging_def by (intro keeps_rules)

lemma keeps_prepare_publication [keeps_rules]: "keeps (prepare_publication host ident temporary name)"
  unfolding prepare_publication_def reject_publish_collision_def by (intro keeps_rules)

lemma populated_private: "populated host manifest n \<Longrightarrow> private_dir_node (h_uid host) n"
  by (simp add: populated_def with_home_def)

lemma file_stable_populated: "f \<noteq> ACTIVE_FILE \<Longrightarrow> f \<noteq> MANIFEST_FILE \<Longrightarrow> file_stable (h_uid host) f (populated host manifest)"
  unfolding populated_def by (intro file_stable_rules) auto

lemma triple_remove_lock:
  assumes "frames root R"
  shows "triple F (at_dir root (populated host manifest) R) (remove_inner_file action root CREATION_LOCK_FILE)
     (\<lambda>_. at_dir root (populated host manifest) R) (at_dir root (populated host manifest) R)"
  unfolding remove_inner_file_def edit_directory_def
proof (rule triple_syscall)
  fix d x d'
  assume P: "at_dir root (populated host manifest) R d"
    and op: "(case dk_spaces d root of
       Some (DirNode n) \<Rightarrow>
         (case if dn_files n CREATION_LOCK_FILE = None then Err SystemError action
             else Ok ((dn_files n)(CREATION_LOCK_FILE := None)) of
            Inl e \<Rightarrow> (Inl e, d)
          | Inr files \<Rightarrow> (Ok (), d\<lparr>dk_spaces := (dk_spaces d)(root \<mapsto> DirNode (n\<lparr>dn_files := files\<rparr>))\<rparr>))
     | _ \<Rightarrow> (Err SystemError action, d)) = (Inr x, d')"
  from P obtain n where n: "dk_spaces d root = Some (DirNode n)" "populated host manifest n" and R: "R d"
    by (auto simp: at_dir_def)
  have "d' = d\<lparr>dk_spaces := (dk_spaces d)(root \<mapsto> DirNode (n\<lparr>dn_files := (dn_files n)(CREATION_LOCK_FILE := None)\<rparr>))\<rparr>"
    using op n by (auto split: if_splits)
  then show "at_dir root (populated host manifest) R d'"
    using n framesD_entry [OF assms R] file_stable_populated [of CREATION_LOCK_FILE host manifest]
    by (auto simp: at_dir_def file_stable_def)
qed (auto split: option.splits node.splits sum.splits)

lemma triple_publish_space:
  assumes R: "frames temporary R" and distinct: "temporary \<noteq> space_name_as_str name"
    and R': "\<And>d e. R d \<Longrightarrow> R' (d\<lparr>dk_spaces := (dk_spaces d)(temporary := None, space_name_as_str name \<mapsto> e)\<rparr>)"
  shows "triple F (at_dir temporary (populated host manifest) R) (publish_space host ident temporary name)
     (\<lambda>_. published host temporary (space_name_as_str name) manifest R')
     (\<lambda>d. leftover host temporary R d \<or> published host temporary (space_name_as_str name) manifest R' d)"
    (is "triple F ?P _ ?Q ?C")
proof -
  have weak: "?P d \<Longrightarrow> at_dir temporary (private_dir_node (h_uid host)) R d" for d
    by (erule at_dir_mono) (rule populated_private)
  have step: "triple F ?P (or_else_cleanup m (cleanup_staging host ident temporary)) (\<lambda>_. ?P) ?C"
    if "triple F ?P m (\<lambda>_. ?P) ?P" for m :: "unit io"
    unfolding cleanup_staging_def
    by (rule triple_weaken [OF triple_cleanup [OF triple_weaken [OF that] R]]) (auto intro: weak)
  have move: "triple F ?P (rename_entry ''publish space'' temporary (space_name_as_str name)) ?Q
     (at_dir temporary (private_dir_node (h_uid host)) R)"
    by (rule triple_rename) (use distinct R' in \<open>auto intro: populated_private simp: published_def at_dir_def\<close>)
  have rename: "triple F ?P (or_else_cleanup (rename_entry ''publish space'' temporary (space_name_as_str name))
     (cleanup_staging host ident temporary)) ?Q ?C"
    unfolding cleanup_staging_def by (rule triple_weaken [OF triple_cleanup [OF move R]]) auto
  show ?thesis
    unfolding publish_space_def Let_def
    by (intro triple_bind [OF step] triple_bind [OF rename] triple_keeps triple_remove_lock R triple_sync keeps_rules) auto
qed

subsection \<open>The whole operation\<close>

lemma creating_not_visible: "portable_name_grammar (space_name_as_str n) \<Longrightarrow> creating_name name suffix \<noteq> space_name_as_str n"
  by (auto simp: creating_name_def portable_name_grammar_def ascii_defs split: list.splits)

lemma created_dir_stat_private [simp]: "private_dir_stat uid (created_dir_stat uid i)"
  by (simp add: private_dir_stat_def created_dir_stat_def s_kind_def S_IFMT_def S_IFDIR_def mode_bits_mod)

lemma triple_create_entry:
  assumes "frames temporary R"
  shows "triple F (\<lambda>d. dk_spaces d temporary = None \<and> R d) (create_private_entry host temporary)
     (\<lambda>_. at_dir temporary (private_dir_node (h_uid host)) R) (leftover host temporary R)"
proof -
  let ?P = "\<lambda>d. dk_spaces d temporary = None \<and> R d" and ?Q = "at_dir temporary (private_dir_node (h_uid host)) R"
  let ?L = "leftover host temporary R"
  have make: "triple F ?P (syscall ''create private directory'' atomic (\<lambda>d.
            case dk_spaces d temporary of
              Some (DirNode _) \<Rightarrow> (Ok (), d)
            | Some _ \<Rightarrow> (Err SystemError ''create private directory'', d)
            | None \<Rightarrow> (Ok (), d\<lparr>dk_spaces := (dk_spaces d)(temporary \<mapsto> DirNode
                 \<lparr>dn_stat = created_dir_stat (h_uid host) (dk_next d), dn_home = SysNotFound, dn_files = Map.empty\<rparr>),
               dk_next := Suc (dk_next d)\<rparr>))) (\<lambda>_. ?Q) ?L"
    by (rule triple_syscall)
      (use framesD [OF assms] in \<open>auto simp: leftover_def at_dir_def private_dir_node_def\<close>)
  have check: "triple F ?Q (bind_io (read_entry ''inspect created private directory'' temporary) (\<lambda>e.
         lift (case e of
            None \<Rightarrow> Err SystemError ''inspect created private directory''
          | Some n \<Rightarrow> validate_private_dir (h_uid host) (node_stat n)))) (\<lambda>_. ?Q) ?L"
    by (intro triple_keeps keeps_rules) (rule leftover_dir)
  have L: "?L d" if "?P d" for d using that by (simp add: leftover_def)
  show ?thesis
    unfolding create_private_entry_def triple_def
    by (intro allI impI wp_bind [of _ "read_entry _ _"] wp_read_entry)
      (use L triple_wp [OF triple_bind [OF make check]] in \<open>auto split: option.splits\<close>)
qed

lemma triple_acquire_lock:
  assumes R: "frames temporary R"
  shows "triple F (at_dir temporary (private_dir_node (h_uid host)) R) (acquire_creation_lock host inp temporary)
     (\<lambda>_. at_dir temporary (private_dir_node (h_uid host)) R) (leftover host temporary R)"
    (is "triple F ?P _ _ ?L")
proof -
  have put: "?P (put_inner (h_uid host) temporary CREATION_LOCK_FILE [] d)" if "?P d" for d
    by (rule at_dir_mono [OF at_dir_put [OF R _ that, of "h_uid host"]]) auto
  have make: "triple F ?P (syscall ''create observation lock'' atomic (\<lambda>d.
            case inner_files d temporary of
              None \<Rightarrow> (Err SystemError ''create observation lock'', d)
            | Some files \<Rightarrow>
                if files CREATION_LOCK_FILE \<noteq> None then (Err SystemError ''create observation lock'', d)
                else (Ok (), put_inner (h_uid host) temporary CREATION_LOCK_FILE [] d))) (\<lambda>_. ?P) ?P"
    by (rule triple_syscall) (use put in \<open>auto split: option.splits if_splits\<close>)
  have reads: "keeps (read_inner action temporary f)" for action f
    unfolding read_inner_def by (intro keeps_rules keeps_syscall) auto
  have rest: "triple F ?P (bind_io (read_inner action temporary CREATION_LOCK_FILE) (\<lambda>e. lift (g e))) (\<lambda>_. ?P) ?P" for action g
    by (intro triple_keeps keeps_rules reads) auto
  have split: "triple F ?P (case e of
       Some (m, _) \<Rightarrow> lift (open_private_lock (h_uid host) (SysOk m, SysOk m))
     | None \<Rightarrow>
         bind_io (syscall ''create observation lock'' atomic (\<lambda>d.
            case inner_files d temporary of
              None \<Rightarrow> (Err SystemError ''create observation lock'', d)
            | Some files \<Rightarrow>
                if files CREATION_LOCK_FILE \<noteq> None then (Err SystemError ''create observation lock'', d)
                else (Ok (), put_inner (h_uid host) temporary CREATION_LOCK_FILE [] d))) (\<lambda>_.
         bind_io (read_inner ''inspect created observation lock'' temporary CREATION_LOCK_FILE) (\<lambda>e.
         lift (case e of
            None \<Rightarrow> Err SystemError ''inspect created observation lock''
          | Some (m, _) \<Rightarrow> validate_private_file (h_uid host) m)))) (\<lambda>_. ?P) ?P" for e :: "(file_stat \<times> string) option"
    by (cases e) (auto intro!: triple_bind [OF make] rest triple_lift)
  have "triple F ?P (open_or_create_private_lock host temporary) (\<lambda>_. ?P) ?P"
    unfolding open_or_create_private_lock_def
    by (intro triple_bind [OF triple_keeps [OF reads]] split)
  then show ?thesis
    unfolding acquire_creation_lock_def
    by (intro triple_bind [OF triple_cleanup [OF _ R]] triple_cleanup [OF _ R] triple_lift)
qed

lemma wp_creation_guards:
  assumes "\<And>e. E e d" and "C d"
    and "\<And>suffix. is_absolute shell \<Longrightarrow> dk_spaces d (space_name_as_str name) = None \<Longrightarrow> ci_suffix inp = Ok suffix \<Longrightarrow>
      dk_spaces d (creating_name name suffix) = None \<Longrightarrow> Q (creating_name name suffix) d"
  shows "wp F (creation_guards host inp name shell) Q E C d"
proof -
  have "wp F (bind_io (lift (ci_suffix inp)) (\<lambda>suffix.
       bind_io (reject_unfinished_path (creating_name name suffix)) (\<lambda>_.
       ret (creating_name name suffix)))) Q E C d"
    if "is_absolute shell" and "dk_spaces d (space_name_as_str name) = None"
    unfolding reject_unfinished_path_def
    by (intro wp_bind wp_lift wp_entry_exists) (use assms that in \<open>auto intro!: wp_fail wp_ret\<close>)
  then have "wp F (bind_io (entry_exists (space_name_as_str name)) (\<lambda>present.
     if present then fail (QErr AlreadyExists ''space already exists'')
     else
       bind_io (lift (ci_suffix inp)) (\<lambda>suffix.
       bind_io (reject_unfinished_path (creating_name name suffix)) (\<lambda>_.
       ret (creating_name name suffix))))) Q E C d" if "is_absolute shell"
    by (intro wp_bind [of _ "entry_exists _"] wp_entry_exists) (use assms(1,2) that in \<open>auto intro!: wp_fail\<close>)
  then show ?thesis
    unfolding creation_guards_def
    by (intro wp_bind [of _ "lift _"] wp_lift wp_keeps_bind [OF keeps_guards(1)] wp_keeps_bind [OF keeps_guards(2)])
      (use assms(1,2) in \<open>auto simp: validate_shell_def Let_def split: if_splits\<close>)
qed

lemma new_manifest_sel:
  "sm_name (new_manifest name shell layout ident now) = name"
  "sm_schema_version (new_manifest name shell layout ident now) = STABLE_SCHEMA_VERSION"
  "sm_created_unix_ms (new_manifest name shell layout ident now) = now"
  by (simp_all add: new_manifest_def)

lemma new_manifest_valid:
  "is_absolute shell \<Longrightarrow> now \<le> u64_max \<Longrightarrow> validate_stored_manifest (new_manifest name shell layout ident now) = Ok ()"
  by (simp add: validate_stored_manifest_def validate_manifest_layout_def new_manifest_def schema_versions)

lemma open_populated:
  assumes "populated host manifest n" and "manifest_codec host manifest" and "validate_stored_manifest manifest = Ok ()"
    and "sm_schema_version manifest \<in> set SUPPORTED_SCHEMA_VERSIONS" and "space_name_as_str (sm_name manifest) = path"
  shows "open_node host path (Some (DirNode n)) path = Ok \<lparr>sp_root = path, sp_manifest = manifest\<rparr>"
proof -
  let ?b = "h_manifest_bytes host manifest"
  obtain i j h where files: "dn_files n ACTIVE_FILE = Some (created_stat (h_uid host) i 0, [])"
      "dn_files n MANIFEST_FILE = Some (created_stat (h_uid host) j (length ?b), ?b)"
    and home: "dn_home n = SysOk h" "private_dir_stat (h_uid host) h" and root: "private_dir_stat (h_uid host) (dn_stat n)"
    using assms(1) by (auto simp: populated_def with_home_def private_dir_node_def created_file_def)
  have lock_ok: "validate_private_file (h_uid host) (created_stat (h_uid host) i 0) = Ok ()"
    by (simp add: validate_private_file_ok)
  have dirs: "validate_private_dir (h_uid host) h = Ok ()" "validate_private_dir (h_uid host) (dn_stat n) = Ok ()"
    using root home by (simp_all add: validate_private_dir_ok)
  have active: "open_private_lock (h_uid host) (inner_stat n ACTIVE_FILE, inner_stat n ACTIVE_FILE) = Ok ()"
    using files(1) lock_ok by (simp add: open_private_lock_def inner_stat_def)
  have anchors: "validate_space_anchors (h_uid host) (as_space_dir (DirNode n)) = Ok ()"
    using home dirs active by (simp add: validate_space_anchors_def validate_removal_anchors_def)
  have "read_private_file (h_uid host) (sd_manifest (as_space_dir (DirNode n))) = Ok ?b"
    using files(2) assms(2) by (simp add: read_private_file_quiet manifest_codec_def Let_def)
  then have "read_validated_manifest (h_json host) (h_uid host) (as_space_dir (DirNode n)) path = Ok manifest"
    using assms(2-5) by (simp add: read_validated_manifest_def manifest_codec_def Let_def)
  then show ?thesis
    using anchors by (simp add: open_node_def open_path_with_expected_name_def)
qed

text \<open>The two states a creation may end in, besides the store as it was.\<close>

definition creation_abandoned :: "store_host \<Rightarrow> string \<Rightarrow> disk \<Rightarrow> disk \<Rightarrow> bool" where
  "creation_abandoned host temporary d d' \<longleftrightarrow>
     (\<exists>e. dk_spaces d' = (dk_spaces d)(temporary := e) \<and> dk_trash d' = dk_trash d \<and>
        (e = None \<or> (\<exists>n. e = Some (DirNode n) \<and> private_dir_node (h_uid host) n)))"

definition creation_published :: "store_host \<Rightarrow> space_manifest \<Rightarrow> disk \<Rightarrow> disk \<Rightarrow> bool" where
  "creation_published host manifest d d' \<longleftrightarrow>
     (let destination = space_name_as_str (sm_name manifest) in
      dk_spaces d destination = None \<and>
      (\<exists>n. dk_spaces d' = (dk_spaces d)(destination \<mapsto> DirNode n) \<and> dk_trash d' = dk_trash d \<and>
        open_node host destination (Some (DirNode n)) destination = Ok \<lparr>sp_root = destination, sp_manifest = manifest\<rparr>))"

lemma leftover_abandoned:
  assumes "leftover host temporary (elsewhere {temporary} d) d'" shows "creation_abandoned host temporary d d'"
proof -
  have "elsewhere {temporary} d d'" using assms by (auto simp: leftover_def at_dir_def)
  then have "dk_spaces d' = (dk_spaces d)(temporary := dk_spaces d' temporary)" "dk_trash d' = dk_trash d"
    by (auto simp: elsewhere_def)
  with assms show ?thesis
    unfolding creation_abandoned_def
    by (intro exI [of _ "dk_spaces d' temporary"]) (auto simp: leftover_def at_dir_def)
qed

lemma published_creation:
  assumes "published host temporary (space_name_as_str (sm_name manifest)) manifest (elsewhere {temporary, space_name_as_str (sm_name manifest)} d) d'"
    and "dk_spaces d temporary = None" and "manifest_codec host manifest" and "validate_stored_manifest manifest = Ok ()"
    and "sm_schema_version manifest \<in> set SUPPORTED_SCHEMA_VERSIONS" and "dk_spaces d (space_name_as_str (sm_name manifest)) = None"
  shows "creation_published host manifest d d'"
proof -
  let ?dst = "space_name_as_str (sm_name manifest)"
  obtain n where n: "dk_spaces d' ?dst = Some (DirNode n)" "populated host manifest n" "dk_spaces d' temporary = None"
    and frame: "elsewhere {temporary, ?dst} d d'"
    using assms(1) by (auto simp: published_def at_dir_def)
  have "dk_spaces d' = (dk_spaces d)(?dst \<mapsto> DirNode n)"
  proof
    fix x
    show "dk_spaces d' x = ((dk_spaces d)(?dst \<mapsto> DirNode n)) x"
      using frame n assms(2) by (cases "x = ?dst"; cases "x = temporary") (auto simp: elsewhere_def)
  qed
  moreover have "dk_trash d' = dk_trash d" using frame by (simp add: elsewhere_def)
  ultimately show ?thesis
    unfolding creation_published_def Let_def
    using open_populated [OF n(2) assms(3-5) refl] assms(6) by blast
qed

lemma keeps_capture_staging [keeps_rules]: "keeps (capture_staging root)"
proof -
  have "keeps (read_inner action root f)" for action f
    unfolding read_inner_def by (intro keeps_rules keeps_syscall) auto
  then show ?thesis unfolding capture_staging_def by (intro keeps_rules)
qed

text \<open>The manifest that a creation would publish.\<close>

definition planned_manifest ::
  "creation_inputs \<Rightarrow> space_name \<Rightarrow> string \<Rightarrow> space_layout \<Rightarrow> space_manifest \<Rightarrow> bool" where
  "planned_manifest inp name shell layout manifest \<longleftrightarrow>
     (\<exists>ident now. ci_id inp = Ok ident \<and> ci_now inp = Ok now \<and> manifest = new_manifest name shell layout ident now)"

definition creation_codec :: "store_host \<Rightarrow> creation_inputs \<Rightarrow> space_name \<Rightarrow> string \<Rightarrow> space_layout \<Rightarrow> bool" where
  "creation_codec host inp name shell layout \<longleftrightarrow>
     (\<forall>manifest. planned_manifest inp name shell layout manifest \<longrightarrow>
        manifest_codec host manifest \<and> sm_created_unix_ms manifest \<le> u64_max)"

lemma bind_io_assoc: "bind_io (bind_io m f) g = bind_io m (\<lambda>x. bind_io (f x) g)"
  by (rule ext) (auto simp: bind_io_def split: prod.splits outcome.splits)

lemma triple_create_body:
  assumes temp: "temporary \<noteq> space_name_as_str name"
  shows "triple F (\<lambda>d'. dk_spaces d' temporary = None \<and> elsewhere {temporary} d d')
     (bind_io (create_private_entry host temporary) (\<lambda>_.
     bind_io (acquire_creation_lock host inp temporary) (\<lambda>_.
     bind_io (capture_staging temporary) (\<lambda>ident.
     bind_io (or_else_cleanup (populate_space host inp temporary name shell layout) (cleanup_staging host ident temporary)) (\<lambda>_.
     publish_space host ident temporary name)))))
     (\<lambda>_ d'. \<exists>manifest. planned_manifest inp name shell layout manifest \<and>
        published host temporary (space_name_as_str name) manifest (elsewhere {temporary, space_name_as_str name} d) d')
     (\<lambda>d'. leftover host temporary (elsewhere {temporary} d) d' \<or>
        (\<exists>manifest. planned_manifest inp name shell layout manifest \<and>
          published host temporary (space_name_as_str name) manifest (elsewhere {temporary, space_name_as_str name} d) d'))"
    (is "triple F _ _ ?Q ?C")
proof -
  let ?R = "elsewhere {temporary} d" and ?R' = "elsewhere {temporary, space_name_as_str name} d"
  let ?P = "at_dir temporary (private_dir_node (h_uid host)) ?R"
  have R: "frames temporary ?R" by (auto simp: frames_def elsewhere_def)
  have populate: "triple F ?P (or_else_cleanup (populate_space host inp temporary name shell layout) (cleanup_staging host ident temporary))
     (\<lambda>manifest d'. planned_manifest inp name shell layout manifest \<and> at_dir temporary (populated host manifest) ?R d') ?C" for ident
    unfolding cleanup_staging_def planned_manifest_def
    by (rule triple_weaken [OF triple_cleanup [OF triple_populate [OF R] R]]) auto
  have publish: "triple F (\<lambda>d'. planned_manifest inp name shell layout manifest \<and> at_dir temporary (populated host manifest) ?R d')
     (publish_space host ident temporary name) ?Q ?C" for manifest ident
  proof (rule triple_assume)
    assume "planned_manifest inp name shell layout manifest"
    then show "triple F (at_dir temporary (populated host manifest) ?R) (publish_space host ident temporary name) ?Q ?C"
      by (intro triple_weaken [OF triple_publish_space [OF R temp, where R' = ?R']]) (auto simp: elsewhere_def)
  qed
  have entry: "triple F (\<lambda>d'. dk_spaces d' temporary = None \<and> ?R d') (create_private_entry host temporary) (\<lambda>_. ?P) ?C"
    by (rule triple_weaken [OF triple_create_entry [OF R]]) auto
  have lock: "triple F ?P (acquire_creation_lock host inp temporary) (\<lambda>_. ?P) ?C"
    by (rule triple_weaken [OF triple_acquire_lock [OF R]]) auto
  have capture: "triple F ?P (capture_staging temporary) (\<lambda>_. ?P) ?C"
    by (rule triple_keeps [OF keeps_capture_staging]) (simp add: leftover_dir)
  show ?thesis
    by (intro triple_bind [OF entry] triple_bind [OF lock] triple_bind [OF capture] triple_bind [OF populate publish])
qed

lemma wp_create_with_layout:
  assumes name: "portable_name_grammar (space_name_as_str name)" and codec: "creation_codec host inp name shell layout"
  shows "wp F (create_with_layout host inp name shell layout)
     (\<lambda>s d'. \<exists>manifest. planned_manifest inp name shell layout manifest \<and> creation_published host manifest d d' \<and>
        s = \<lparr>sp_root = space_name_as_str name, sp_manifest = manifest\<rparr>)
     (\<lambda>_ d'. d' = d \<or> (\<exists>suffix. ci_suffix inp = Ok suffix \<and> creation_abandoned host (creating_name name suffix) d d') \<or>
        (\<exists>manifest. planned_manifest inp name shell layout manifest \<and> creation_published host manifest d d'))
     (\<lambda>d'. d' = d \<or> (\<exists>suffix. ci_suffix inp = Ok suffix \<and> creation_abandoned host (creating_name name suffix) d d') \<or>
        (\<exists>manifest. planned_manifest inp name shell layout manifest \<and> creation_published host manifest d d')) d"
    (is "wp F _ ?Q ?E ?C d")
proof -
  have body: "wp F (bind_io (create_private_entry host temporary) (\<lambda>_.
     bind_io (acquire_creation_lock host inp temporary) (\<lambda>_.
     bind_io (capture_staging temporary) (\<lambda>ident.
     bind_io (or_else_cleanup (populate_space host inp temporary name shell layout) (cleanup_staging host ident temporary)) (\<lambda>_.
     bind_io (publish_space host ident temporary name) (\<lambda>_.
     open_path host (space_name_as_str name))))))) ?Q ?E ?C d"
    if shell: "is_absolute shell" and suffix: "ci_suffix inp = Ok suffix" and temp: "temporary = creating_name name suffix"
      and free: "dk_spaces d temporary = None" and vacant: "dk_spaces d (space_name_as_str name) = None" for suffix temporary
  proof -
    have abandoned: "?C d'" if "leftover host temporary (elsewhere {temporary} d) d'" for d'
      using leftover_abandoned [OF that] suffix temp by auto
    have fine: "planned_manifest inp name shell layout manifest \<and> creation_published host manifest d d'"
      if plan: "planned_manifest inp name shell layout manifest"
        and pub: "published host temporary (space_name_as_str name) manifest (elsewhere {temporary, space_name_as_str name} d) d'"
      for manifest d'
    proof -
      have facts: "sm_name manifest = name" "validate_stored_manifest manifest = Ok ()"
        "sm_schema_version manifest \<in> set SUPPORTED_SCHEMA_VERSIONS" "manifest_codec host manifest"
        using plan codec shell
        by (auto simp: planned_manifest_def creation_codec_def new_manifest_valid new_manifest_sel
            SUPPORTED_SCHEMA_VERSIONS_def)
      show ?thesis
        using plan published_creation [of host temporary manifest d d'] pub free facts vacant by simp
    qed
    have opened: "wp F (open_path host (space_name_as_str name)) ?Q ?E ?C d'"
      if "planned_manifest inp name shell layout manifest" and "creation_published host manifest d d'" for manifest d'
    proof -
      have "sm_name manifest = name" using that(1) by (auto simp: planned_manifest_def new_manifest_def)
      then show ?thesis
        by (intro wp_open_path) (use that in \<open>auto simp: creation_published_def Let_def\<close>)
    qed
    have "temporary \<noteq> space_name_as_str name" using creating_not_visible [OF name] temp by simp
    from triple_wp [OF triple_create_body [OF this, where F = F and host = host and inp = inp and shell = shell and layout = layout and d = d]]
    have "wp F (bind_io (create_private_entry host temporary) (\<lambda>_.
       bind_io (acquire_creation_lock host inp temporary) (\<lambda>_.
       bind_io (capture_staging temporary) (\<lambda>ident.
       bind_io (or_else_cleanup (populate_space host inp temporary name shell layout) (cleanup_staging host ident temporary)) (\<lambda>_.
       publish_space host ident temporary name)))))
      (\<lambda>_. wp F (open_path host (space_name_as_str name)) ?Q ?E ?C) ?E ?C d"
      by (rule wp_conseq) (use free in \<open>auto dest: fine abandoned intro: opened\<close>)
    then have "wp F (bind_io (bind_io (create_private_entry host temporary) (\<lambda>_.
       bind_io (acquire_creation_lock host inp temporary) (\<lambda>_.
       bind_io (capture_staging temporary) (\<lambda>ident.
       bind_io (or_else_cleanup (populate_space host inp temporary name shell layout) (cleanup_staging host ident temporary)) (\<lambda>_.
       publish_space host ident temporary name))))) (\<lambda>_. open_path host (space_name_as_str name))) ?Q ?E ?C d"
      by (rule wp_bind)
    then show ?thesis by (simp add: bind_io_assoc)
  qed
  show ?thesis
    unfolding create_with_layout_def
    by (intro wp_bind [of _ "creation_guards _ _ _ _"] wp_creation_guards body) auto
qed

text \<open>
  C15: Creation is atomic. Whatever system call fails and wherever the process stops, the store is
  as it was, or has one additional hidden working directory that only the owner can enter, or
  has the complete new space under its name, which was free before and opens with the manifest that was planned: a
  stable identity, the current schema and the given layout and shell. No other entry changes,
  an existing space is never touched, and an operation that returns has published the space
  that it reports.
\<close>

theorem creation_is_atomic:
  assumes "portable_name_grammar (space_name_as_str name)" and "creation_codec host inp name shell layout"
  shows "case create_with_layout host inp name shell layout (d, script) of (r, d', rest) \<Rightarrow>
     (\<exists>manifest. planned_manifest inp name shell layout manifest \<and> creation_published host manifest d d' \<and>
        (\<forall>s. r = Done s \<longrightarrow> s = \<lparr>sp_root = space_name_as_str name, sp_manifest = manifest\<rparr>)) \<or>
     ((\<forall>s. r \<noteq> Done s) \<and>
       (d' = d \<or> (\<exists>suffix. ci_suffix inp = Ok suffix \<and> creation_abandoned host (creating_name name suffix) d d')))"
proof -
  obtain r d' rest where run: "create_with_layout host inp name shell layout (d, script) = (r, d', rest)" by (rule prod_cases3)
  show ?thesis
    unfolding run using wp_any_script [OF wp_create_with_layout [OF assms] run] by (cases r) auto
qed

definition cr_inputs :: creation_inputs where
  "cr_inputs = \<lparr>ci_layout = Ok (), ci_shell = SysOk (created_stat 0 1 0\<lparr>st_mode := 33261\<rparr>), ci_suffix = Ok ''1-2-3'', ci_lock = Ok (),
     ci_id = Ok (SpaceId (replicate 32 (CHR ''b''))), ci_now = Ok 7, ci_platform_directories = []\<rparr>"

lemma cr_codec: "creation_codec rn_host cr_inputs rn_sample_name ''/bin/sh'' Profile"
  unfolding creation_codec_def planned_manifest_def
  by (auto simp: cr_inputs_def manifest_codec_def rn_host_sel new_manifest_def rb_manifest_def schema_versions
      MAX_MANIFEST_BYTES_def u64_max_num Let_def)

lemma cr_name: "portable_name_grammar (space_name_as_str rn_sample_name)"
  by (simp add: rn_sample_name_def portable_name_grammar_def ascii_defs)

lemma creation_is_atomic_witness:
  "case create_with_layout rn_host cr_inputs rn_sample_name ''/bin/sh'' Profile (rn_disk, [Go, Go, Crash 0]) of (r, d', rest) \<Rightarrow>
     (\<exists>manifest. planned_manifest cr_inputs rn_sample_name ''/bin/sh'' Profile manifest \<and> creation_published rn_host manifest rn_disk d') \<or>
     d' = rn_disk \<or> creation_abandoned rn_host (creating_name rn_sample_name ''1-2-3'') rn_disk d'"
  using creation_is_atomic [OF cr_name cr_codec, of rn_disk "[Go, Go, Crash 0]"]
  by (auto simp: cr_inputs_def split: prod.splits)

end
