(* ===== verification/Create_Completion.thy ===== *)
theory Create_Completion
  imports Space_Create
begin

text \<open>
  An undisturbed creation returns: in a store without interrupted transactions, with a free name
  and usable inputs, the operation ends with the published space.
\<close>

subsection \<open>Steps of an undisturbed run\<close>

lemma runs_or_else_cleanup: "runs m Q d \<Longrightarrow> runs (or_else_cleanup m cleanup) Q d"
  unfolding or_else_cleanup_def by (rule runs_catch)

lemma runs_read_inner:
  "dk_spaces d root = Some (DirNode n) \<Longrightarrow> Q (dn_files n f) d \<Longrightarrow> runs (read_inner action root f) Q d"
  unfolding read_inner_def
  by (intro runs_bind runs_syscall [where d' = d]) (auto simp: inner_files_def intro: runs_ret)

lemma runs_keeps_dir: "runs m Q d \<Longrightarrow> keeps m \<Longrightarrow> runs m (\<lambda>x d'. Q x d' \<and> d' = d) d"
  unfolding runs_def by (auto dest: keepsD)

text \<open>The working directory of an undisturbed run: identity, held lock, home and unused names.\<close>

definition staged :: "nat \<Rightarrow> file_stat \<Rightarrow> file_stat \<Rightarrow> string set \<Rightarrow> dir_node \<Rightarrow> bool" where
  "staged uid rs ls unused n \<longleftrightarrow>
     dn_stat n = rs \<and> private_dir_stat uid rs \<and> dn_files n CREATION_LOCK_FILE = Some (ls, []) \<and> private_file_stat uid ls \<and>
     (\<exists>m. dn_home n = SysOk m \<and> private_dir_stat uid m) \<and> (\<forall>f\<in>unused. dn_files n f = None)"

lemma staged_file_stable: "f \<notin> unused \<Longrightarrow> f \<noteq> CREATION_LOCK_FILE \<Longrightarrow> file_stable uid f (staged uid rs ls unused)"
  by (auto simp: file_stable_def staged_def)

lemma runs_write_at:
  assumes R: "frames root R" and s: "file_stable uid f N" and d: "at_dir root (\<lambda>n. N n \<and> dn_files n f = None) R d"
  shows "runs (write_private_inner uid root f bytes) (\<lambda>_. at_dir root (\<lambda>n. N n \<and> created_file uid f bytes n) R) d"
proof -
  obtain n where n: "dk_spaces d root = Some (DirNode n)" "N n" "dn_files n f = None" and Rd: "R d"
    using d by (auto simp: at_dir_def)
  have at: "dk_spaces d root = Some (with_files n (dn_files n))" using n(1) by (simp add: with_files_def)
  show ?thesis
    by (rule runs_write_inner [OF at n(3)])
      (use n(2) s framesD [OF R Rd] in \<open>auto simp: at_dir_def with_files_def file_stable_def created_file_def\<close>)
qed

lemma runs_user_file:
  assumes R: "frames root R" and d: "at_dir root (staged uid rs ls (insert f unused)) R d"
    and f: "f \<notin> unused" "f \<noteq> CREATION_LOCK_FILE"
    and Q: "\<And>d'. at_dir root (staged uid rs ls unused) R d' \<Longrightarrow> Q () d'"
  shows "runs (write_private_inner uid root f bytes) Q d"
proof -
  have "at_dir root (\<lambda>n. staged uid rs ls unused n \<and> dn_files n f = None) R d"
    using d by (rule at_dir_mono) (auto simp: staged_def)
  from runs_write_at [OF R staged_file_stable [OF f] this] show ?thesis
    by (rule runs_conseq) (auto intro!: Q elim: at_dir_mono)
qed

lemma runs_skeleton: "Q () d \<Longrightarrow> runs (create_skeleton relatives) Q d"
  unfolding create_skeleton_def
  by (induction relatives) (auto intro!: runs_ret runs_bind runs_create_private_dir)

lemma runs_create_home:
  assumes R: "frames root R"
    and d: "dk_spaces d root = Some (DirNode n)" "dn_home n = SysNotFound" "R d"
    and Q: "\<And>i k. Q () (d\<lparr>dk_spaces := (dk_spaces d)(root \<mapsto> DirNode (n\<lparr>dn_home := SysOk (created_dir_stat (h_uid host) i)\<rparr>)), dk_next := k\<rparr>)"
  shows "runs (create_private_home host root) Q d"
  unfolding create_private_home_def
  by (intro runs_bind [of "read_entry _ _"] runs_read_entry)
    (use d Q in \<open>auto simp: home_stat_def validate_private_dir_ok intro!: runs_bind runs_syscall runs_read_entry runs_lift\<close>)

lemma runs_create_entry:
  assumes "dk_spaces d name = None"
    and Q: "\<And>i k. Q () (d\<lparr>dk_spaces := (dk_spaces d)(name \<mapsto> DirNode
       \<lparr>dn_stat = created_dir_stat (h_uid host) i, dn_home = SysNotFound, dn_files = Map.empty\<rparr>), dk_next := k\<rparr>)"
  shows "runs (create_private_entry host name) Q d"
  unfolding create_private_entry_def
  by (intro runs_bind [of "read_entry _ _"] runs_read_entry)
    (use assms in \<open>auto simp: validate_private_dir_ok intro!: runs_bind runs_syscall runs_read_entry runs_lift\<close>)

lemma runs_acquire_lock:
  assumes d: "dk_spaces d root = Some (DirNode n)" "dn_files n CREATION_LOCK_FILE = None" and l: "ci_lock inp = Ok ()"
    and Q: "\<And>i k. Q () (d\<lparr>dk_spaces := (dk_spaces d)(root \<mapsto> DirNode
       (n\<lparr>dn_files := (dn_files n)(CREATION_LOCK_FILE \<mapsto> (created_stat (h_uid host) i 0, []))\<rparr>)), dk_next := k\<rparr>)"
  shows "runs (acquire_creation_lock host inp root) Q d"
  unfolding acquire_creation_lock_def open_or_create_private_lock_def
  by (intro runs_bind [of "or_else_cleanup _ _"] runs_or_else_cleanup runs_bind [of "read_inner _ _ _"] runs_read_inner [OF d(1)])
    (use d l Q in \<open>auto simp: inner_files_def put_inner_def validate_private_file_ok
       intro!: runs_bind runs_syscall runs_read_inner runs_lift runs_or_else_cleanup\<close>)

subsection \<open>Population and publication\<close>

definition user_files :: "string list" where
  "user_files = [''home/.zshrc'', ''home/.bashrc'', ''home/.gitconfig'', ''home/.ssh/config'', ACTIVE_FILE, MANIFEST_FILE]"

lemma user_files_distinct: "distinct user_files" "CREATION_LOCK_FILE \<notin> set user_files"
  by (simp_all add: user_files_def ACTIVE_FILE_def MANIFEST_FILE_def CREATION_LOCK_FILE_def)

definition complete :: "store_host \<Rightarrow> space_manifest \<Rightarrow> file_stat \<Rightarrow> file_stat \<Rightarrow> dir_node \<Rightarrow> bool" where
  "complete host manifest rs ls n \<longleftrightarrow> staged (h_uid host) rs ls {} n \<and> populated host manifest n"

lemma runs_populate:
  assumes R: "frames root R" and d: "at_dir root (staged (h_uid host) rs ls (set user_files)) R d"
    and inp: "ci_id inp = Ok ident" "ci_now inp = Ok now"
    and Q: "\<And>d' manifest. manifest = new_manifest name shell layout ident now \<Longrightarrow>
      at_dir root (complete host manifest rs ls) R d' \<Longrightarrow> Q manifest d'"
  shows "runs (bind_io (create_skeleton private_directories) (\<lambda>_.
     bind_io (if layout = Workspace then create_skeleton (workspace_directories @ ci_platform_directories inp) else ret ()) (\<lambda>_.
     bind_io (create_shell_files host root) (\<lambda>_.
     bind_io (create_git_config host root) (\<lambda>_.
     bind_io (write_private_inner (h_uid host) root ''home/.ssh/config'' ssh_config) (\<lambda>_.
     bind_io (write_private_inner (h_uid host) root ACTIVE_FILE []) (\<lambda>_.
     bind_io (lift (ci_id inp)) (\<lambda>ident.
     bind_io (lift (ci_now inp)) (\<lambda>now.
     let manifest = new_manifest name shell layout ident now in
     bind_io (write_manifest host root manifest) (\<lambda>_. ret manifest)))))))))) Q d"
proof -
  let ?m = "new_manifest name shell layout ident now" and ?u = "h_uid host"
  have last: "runs (bind_io (write_manifest host root ?m) (\<lambda>_. ret ?m)) Q d'"
    if "at_dir root (\<lambda>n. staged ?u rs ls {MANIFEST_FILE} n \<and> created_file ?u ACTIVE_FILE [] n) R d'" for d'
  proof -
    have pre: "at_dir root (\<lambda>n. (staged ?u rs ls {} n \<and> created_file ?u ACTIVE_FILE [] n) \<and> dn_files n MANIFEST_FILE = None) R d'"
      using that by (rule at_dir_mono) (auto simp: staged_def)
    have stable: "file_stable ?u MANIFEST_FILE (\<lambda>n. staged ?u rs ls {} n \<and> created_file ?u ACTIVE_FILE [] n)"
      by (intro file_stable_rules staged_file_stable) auto
    show ?thesis
      unfolding write_manifest_def
      by (rule runs_bind, rule runs_conseq [OF runs_write_at [OF R stable pre]])
        (auto intro!: runs_ret Q elim!: at_dir_mono simp: complete_def populated_def with_home_def private_dir_node_def private_or_absent_def staged_def)
  qed
  have finish: "runs (bind_io (write_private_inner ?u root ACTIVE_FILE []) (\<lambda>_.
     bind_io (lift (ci_id inp)) (\<lambda>ident.
     bind_io (lift (ci_now inp)) (\<lambda>now.
     let manifest = new_manifest name shell layout ident now in
     bind_io (write_manifest host root manifest) (\<lambda>_. ret manifest))))) Q d'"
    if "at_dir root (staged ?u rs ls {ACTIVE_FILE, MANIFEST_FILE}) R d'" for d'
  proof -
    have pre: "at_dir root (\<lambda>n. staged ?u rs ls {MANIFEST_FILE} n \<and> dn_files n ACTIVE_FILE = None) R d'"
      using that by (rule at_dir_mono) (auto simp: staged_def)
    show ?thesis
      unfolding Let_def
      by (rule runs_bind, rule runs_conseq [OF runs_write_at [OF R staged_file_stable pre]])
        (auto intro!: runs_bind [of "lift _"] runs_lift [OF inp(1)] runs_lift [OF inp(2)] last)
  qed
  have extra: "runs (if layout = Workspace then create_skeleton relatives else ret ()) Q' d'" if "Q' () d'" for relatives Q' d'
    using that by (simp add: runs_skeleton runs_ret)
  show ?thesis
    unfolding create_shell_files_def create_git_config_def
    by (intro runs_bind [of "create_skeleton _"] runs_skeleton runs_bind [of "if _ then _ else _"] extra runs_bind [of "bind_io _ _"]
        runs_bind [of "write_private_inner _ _ ''home/.zshrc'' _"] runs_user_file [OF R d [unfolded user_files_def list.set]]
        runs_bind [of "write_private_inner _ _ ''home/.gitconfig'' _"] runs_bind [of "write_private_inner _ _ ''home/.ssh/config'' _"]
        runs_user_file [OF R, of "h_uid host" rs ls "''home/.bashrc''" "{''home/.gitconfig'', ''home/.ssh/config'', ACTIVE_FILE, MANIFEST_FILE}"]
        runs_user_file [OF R, of "h_uid host" rs ls "''home/.gitconfig''" "{''home/.ssh/config'', ACTIVE_FILE, MANIFEST_FILE}"]
        runs_user_file [OF R, of "h_uid host" rs ls "''home/.ssh/config''" "{ACTIVE_FILE, MANIFEST_FILE}"] finish)
      (auto simp: ACTIVE_FILE_def MANIFEST_FILE_def CREATION_LOCK_FILE_def)
qed

definition staged_identity :: "file_stat \<Rightarrow> file_stat \<Rightarrow> staging_identity" where
  "staged_identity rs ls = \<lparr>sg_root = path_identity_from_metadata rs, sg_lock = path_identity_from_metadata ls\<rparr>"

lemma runs_verify_staging:
  assumes "dk_spaces d root = Some (DirNode n)" and "staged uid rs ls unused n" and "Q () d"
  shows "runs (verify_staging (staged_identity rs ls) root) Q d"
  unfolding verify_staging_def
  by (intro runs_bind runs_read_entry runs_lift)
    (use assms private_stat_kinds in \<open>auto simp: staged_def verify_root_def verify_lock_def inner_stat_def staged_identity_def
      path_identity_matches_def\<close>)

lemma runs_capture:
  assumes "dk_spaces d root = Some (DirNode n)" and "dn_stat n = rs" and "dn_files n CREATION_LOCK_FILE = Some (ls, [])"
    and "Q (staged_identity rs ls) d"
  shows "runs (capture_staging root) Q d"
  unfolding capture_staging_def
  by (intro runs_bind runs_read_entry runs_lift runs_read_inner [OF assms(1)])
    (use assms in \<open>auto simp: staged_identity_def intro!: runs_lift\<close>)

lemma runs_prepare_publication:
  assumes q: "quiet_store host d" and n: "dk_spaces d temporary = Some (DirNode n)" "staged uid rs ls unused n"
    and name: "portable_name_grammar (space_name_as_str name)" and free: "dk_spaces d (space_name_as_str name) = None" and Q: "Q () d"
  shows "runs (prepare_publication host (staged_identity rs ls) temporary name) Q d"
proof -
  obtain parsed where parsed: "space_name_parse (space_name_as_str name) = Ok parsed"
    using space_names.parse_accepts [OF name] by auto
  have collide: "runs (reject_publish_collision (space_name_as_str name)) Q' d" if "Q' () d" for Q'
    unfolding reject_publish_collision_def
    by (intro runs_bind runs_entry_exists) (use free that in \<open>auto intro: runs_ret\<close>)
  show ?thesis
    unfolding prepare_publication_def
    by (intro runs_bind [of "verify_staging _ _"] runs_verify_staging [OF n] runs_bind [of "lift _"] runs_lift [OF parsed]
        runs_bind [of "ensure_no_rename_target _ _"] runs_no_rename_target [OF q]
        runs_bind [of "ensure_no_rollback_target _ _"] runs_no_rollback_target [OF q]
        runs_bind [of "reject_publish_collision _"] collide Q)
qed

lemma runs_publish:
  assumes q: "quiet_store host d" and n: "dk_spaces d temporary = Some (DirNode n)" "complete host manifest rs ls n"
    and name: "portable_name_grammar (space_name_as_str name)" and free: "dk_spaces d (space_name_as_str name) = None"
    and ne: "temporary \<noteq> space_name_as_str name"
    and Q: "Q () (d\<lparr>dk_spaces := (dk_spaces d)(temporary := None, space_name_as_str name \<mapsto>
       DirNode (n\<lparr>dn_files := (dn_files n)(CREATION_LOCK_FILE := None)\<rparr>))\<rparr>)"
  shows "runs (publish_space host (staged_identity rs ls) temporary name) Q d"
proof -
  let ?n = "n\<lparr>dn_files := (dn_files n)(CREATION_LOCK_FILE := None)\<rparr>"
  let ?d = "d\<lparr>dk_spaces := (dk_spaces d)(temporary \<mapsto> DirNode ?n)\<rparr>"
  have st: "staged (h_uid host) rs ls {} n" using n(2) by (simp add: complete_def)
  have at: "dk_spaces d temporary = Some (with_files n (dn_files n))" using n(1) by (simp add: with_files_def)
  have lock: "dn_files n CREATION_LOCK_FILE \<noteq> None" and priv: "validate_private_dir (h_uid host) (dn_stat n) = Ok ()"
    using st by (simp_all add: staged_def validate_private_dir_ok)
  have tail: "runs (bind_io (or_else_cleanup (sync_entry host temporary) c) (\<lambda>_.
     bind_io (or_else_cleanup (rename_entry ''publish space'' temporary (space_name_as_str name)) c) (\<lambda>_. sync_directory))) Q ?d" for c
    unfolding sync_entry_def
    by (intro runs_bind [of "or_else_cleanup _ _"] runs_or_else_cleanup runs_bind [of "read_entry _ _"] runs_read_entry
        runs_bind [of "lift _"] runs_lift [where x = "()"] runs_sync_directory runs_rename_entry [where e = "DirNode ?n"])
      (use priv ne free Q in \<open>auto simp: may_replace_def fun_upd_twist\<close>)
  show ?thesis
    unfolding publish_space_def Let_def
    by (intro runs_bind [of "or_else_cleanup (prepare_publication _ _ _ _) _"] runs_or_else_cleanup
        runs_prepare_publication [OF q n(1) st name free]
        runs_bind [of "or_else_cleanup (remove_inner_file _ _ _) _"] runs_remove_inner [OF at lock])
      (use tail in \<open>simp add: with_files_def\<close>)
qed

subsection \<open>The whole run\<close>

lemma creating_not_control: "marker_id_from_name (creating_name name suffix) = None" "parse_rename_marker_name (creating_name name suffix) = None"
proof -
  have "marker_id_from_name (creating_name name suffix) \<noteq> Some i" "parse_rename_marker_name (creating_name name suffix) \<noteq> Some j" for i j
    by (auto simp: marker_id_from_name_eq_Some parse_rename_marker_name_eq_Some creating_name_def rollback_marker_name_def
        rename_marker_name_def)
  then show "marker_id_from_name (creating_name name suffix) = None" "parse_rename_marker_name (creating_name name suffix) = None"
    by (meson not_Some_eq)+
qed

lemma quiet_with_creation:
  assumes q: "quiet_store host d0" and room: "card (dom (dk_spaces d0)) < MAX_DIRECTORY_SCAN_ENTRIES"
    and d: "elsewhere {creating_name name suffix} d0 d" "dk_spaces d (creating_name name suffix) \<noteq> None"
  shows "quiet_store host d"
proof -
  let ?t = "creating_name name suffix"
  have dom: "dom (dk_spaces d) = insert ?t (dom (dk_spaces d0))"
    using d by (auto simp: elsewhere_def dom_def) metis
  have "card (dom (dk_spaces d)) \<le> Suc (card (dom (dk_spaces d0)))"
    unfolding dom using q by (simp add: card_insert_if quiet_store_def)
  moreover have "marker_id_from_name x = None \<and> parse_rename_marker_name x = None" if "dk_spaces d x \<noteq> None" for x
    using that q d(1) creating_not_control by (cases "x = ?t") (auto simp: quiet_store_def elsewhere_def)
  ultimately show ?thesis using q room dom by (simp add: quiet_store_def)
qed

lemma runs_open_path:
  "open_node host path (dk_spaces d path) path = Ok s \<Longrightarrow> Q s d \<Longrightarrow> runs (open_path host path) Q d"
  unfolding open_path_def by (auto intro!: runs_bind runs_read_entry runs_lift)

text \<open>Everything the operation relies on: a usable request and a free name in a quiet store with room.\<close>

definition creation_ready ::
  "store_host \<Rightarrow> creation_inputs \<Rightarrow> space_name \<Rightarrow> string \<Rightarrow> space_layout \<Rightarrow> disk \<Rightarrow> bool" where
  "creation_ready host inp name shell layout d \<longleftrightarrow>
     (\<exists>suffix ident now.
        ci_layout inp = Ok () \<and> validate_shell shell (ci_shell inp) = Ok () \<and> ci_suffix inp = Ok suffix \<and> ci_lock inp = Ok () \<and>
        ci_id inp = Ok ident \<and> ci_now inp = Ok now \<and>
        dk_spaces d (space_name_as_str name) = None \<and> dk_spaces d (creating_name name suffix) = None) \<and>
     quiet_store host d \<and> card (dom (dk_spaces d)) < MAX_DIRECTORY_SCAN_ENTRIES"

lemma runs_guards:
  assumes q: "quiet_store host d" and inp: "ci_layout inp = Ok ()" "validate_shell shell (ci_shell inp) = Ok ()" "ci_suffix inp = Ok suffix"
    and free: "dk_spaces d (space_name_as_str name) = None" "dk_spaces d (creating_name name suffix) = None"
    and Q: "Q (creating_name name suffix) d"
  shows "runs (creation_guards host inp name shell) Q d"
proof -
  have fresh: "runs (reject_unfinished_path (creating_name name suffix)) Q' d" if "Q' () d" for Q'
    unfolding reject_unfinished_path_def by (intro runs_bind runs_entry_exists) (use free that in \<open>auto intro: runs_ret\<close>)
  have rest: "runs (bind_io (lift (ci_suffix inp)) (\<lambda>suffix.
       bind_io (reject_unfinished_path (creating_name name suffix)) (\<lambda>_. ret (creating_name name suffix)))) Q d"
    by (intro runs_bind [of "lift _"] runs_lift [OF inp(3)] runs_bind [of "reject_unfinished_path _"] fresh runs_ret Q)
  show ?thesis
    unfolding creation_guards_def
    by (intro runs_bind [of "lift _"] runs_lift [OF inp(1)] runs_lift [OF inp(2)]
        runs_bind [of "ensure_no_rename_target _ _"] runs_no_rename_target [OF q]
        runs_bind [of "ensure_no_rollback_target _ _"] runs_no_rollback_target [OF q]
        runs_bind [of "entry_exists _"] runs_entry_exists)
      (use free rest in simp)
qed

lemma runs_create_body:
  assumes q: "quiet_store host d" and room: "card (dom (dk_spaces d)) < MAX_DIRECTORY_SCAN_ENTRIES"
    and inp: "ci_lock inp = Ok ()" "ci_id inp = Ok ident" "ci_now inp = Ok now"
    and name: "portable_name_grammar (space_name_as_str name)" and t: "t = creating_name name suffix"
    and free: "dk_spaces d (space_name_as_str name) = None" "dk_spaces d t = None"
    and manifest: "manifest = new_manifest name shell layout ident now" "is_absolute shell" "now \<le> u64_max" "manifest_codec host manifest"
  shows "runs (bind_io (create_private_entry host t) (\<lambda>_.
     bind_io (acquire_creation_lock host inp t) (\<lambda>_.
     bind_io (capture_staging t) (\<lambda>sg.
     bind_io (or_else_cleanup (populate_space host inp t name shell layout) (cleanup_staging host sg t)) (\<lambda>_.
     bind_io (publish_space host sg t name) (\<lambda>_.
     open_path host (space_name_as_str name))))))) (\<lambda>_ _. True) d"
proof -
  let ?R = "elsewhere {t} d" and ?uid = "h_uid host"
  have R: "frames t ?R" by (auto simp: frames_def elsewhere_def)
  have ne: "t \<noteq> space_name_as_str name" using creating_not_visible [OF name] t by simp
  have opened: "runs (open_path host (space_name_as_str name)) (\<lambda>_ _. True) d'"
    if "dk_spaces d' (space_name_as_str name) = Some (DirNode n)" "populated host manifest n" for d' n
  proof -
    have "open_node host (space_name_as_str name) (Some (DirNode n)) (space_name_as_str name) =
        Ok \<lparr>sp_root = space_name_as_str name, sp_manifest = manifest\<rparr>"
      by (rule open_populated [OF that(2) manifest(4)])
        (use manifest in \<open>simp_all add: new_manifest_valid new_manifest_sel SUPPORTED_SCHEMA_VERSIONS_def\<close>)
    with that(1) show ?thesis by (auto intro!: runs_open_path)
  qed
  have publish: "runs (bind_io (publish_space host (staged_identity rs ls) t name) (\<lambda>_. open_path host (space_name_as_str name)))
      (\<lambda>_ _. True) d'" if d': "at_dir t (complete host manifest rs ls) ?R d'" for d' rs ls
  proof -
    obtain n where n: "dk_spaces d' t = Some (DirNode n)" "complete host manifest rs ls n" and e: "?R d'"
      using d' by (auto simp: at_dir_def)
    have q': "quiet_store host d'" by (rule quiet_with_creation [OF q room]) (use e n(1) t in auto)
    have free': "dk_spaces d' (space_name_as_str name) = None" using e ne free(1) by (simp add: elsewhere_def)
    show ?thesis
      by (rule runs_bind, rule runs_publish [OF q' n name free' ne])
        (use n(2) in \<open>auto intro!: opened simp: complete_def populated_def with_home_def private_dir_node_def created_file_def
          CREATION_LOCK_FILE_def ACTIVE_FILE_def MANIFEST_FILE_def\<close>)
  qed
  have populate: "runs (bind_io (or_else_cleanup (populate_space host inp t name shell layout) (cleanup_staging host sg t)) (\<lambda>_.
       bind_io (publish_space host sg t name) (\<lambda>_. open_path host (space_name_as_str name)))) (\<lambda>_ _. True) d'"
    if "dk_spaces d' t = Some (DirNode n)" "dn_home n = SysNotFound" "?R d'" "sg = staged_identity rs ls"
      "\<And>m. private_dir_stat ?uid m \<Longrightarrow> staged ?uid rs ls (set user_files) (n\<lparr>dn_home := SysOk m\<rparr>)" for d' n sg rs ls
    unfolding populate_space_def
    by (intro runs_bind [of "or_else_cleanup _ _"] runs_or_else_cleanup runs_bind [of "create_private_home _ _"]
        runs_create_home [OF R that(1-3)] runs_populate [OF R _ inp(2,3), of host rs ls])
      (use that publish manifest(1) in \<open>auto simp: at_dir_def elsewhere_def\<close>)
  show ?thesis
    by (intro runs_bind [of "create_private_entry _ _"] runs_create_entry [OF free(2)]
        runs_bind [of "acquire_creation_lock _ _ _"] runs_acquire_lock [OF _ _ inp(1)]
        runs_bind [of "capture_staging _"] runs_capture populate)
      (use user_files_distinct in \<open>auto simp: elsewhere_def staged_def\<close>)
qed

lemma runs_create:
  assumes name: "portable_name_grammar (space_name_as_str name)" and codec: "creation_codec host inp name shell layout"
    and ready: "creation_ready host inp name shell layout d"
  shows "runs (create_with_layout host inp name shell layout) (\<lambda>_ _. True) d"
proof -
  obtain suffix ident now where inp: "ci_layout inp = Ok ()" "validate_shell shell (ci_shell inp) = Ok ()" "ci_suffix inp = Ok suffix"
      "ci_lock inp = Ok ()" "ci_id inp = Ok ident" "ci_now inp = Ok now"
    and free: "dk_spaces d (space_name_as_str name) = None" "dk_spaces d (creating_name name suffix) = None"
    and q: "quiet_store host d" "card (dom (dk_spaces d)) < MAX_DIRECTORY_SCAN_ENTRIES"
    using ready by (auto simp: creation_ready_def)
  have plan: "planned_manifest inp name shell layout (new_manifest name shell layout ident now)"
    using inp by (auto simp: planned_manifest_def)
  then have c: "manifest_codec host (new_manifest name shell layout ident now)" "now \<le> u64_max"
    using codec by (auto simp: creation_codec_def new_manifest_sel)
  have shell: "is_absolute shell" using inp(2) by (auto simp: validate_shell_def Let_def split: if_splits)
  show ?thesis
    unfolding create_with_layout_def
    by (intro runs_bind [of "creation_guards _ _ _ _"] runs_guards [OF q(1) inp(1-3) free]
        runs_create_body [OF q inp(4-6) name refl free refl shell c(2,1)])
qed

text \<open>
  C16: An undisturbed creation returns. With a usable request, a free name and a store that holds no
  interrupted transaction and has room for one more entry within the scan bound, the operation ends
  with the space it was asked for, published under its name with the planned manifest.
\<close>

theorem undisturbed_creation_completes:
  assumes "portable_name_grammar (space_name_as_str name)" and "creation_codec host inp name shell layout"
    and "creation_ready host inp name shell layout d"
  shows "\<exists>manifest d'. create_with_layout host inp name shell layout (d, []) =
       (Done \<lparr>sp_root = space_name_as_str name, sp_manifest = manifest\<rparr>, d', []) \<and>
     planned_manifest inp name shell layout manifest \<and> creation_published host manifest d d'"
proof -
  obtain s d' where run: "create_with_layout host inp name shell layout (d, []) = (Done s, d', [])"
    using runs_create [OF assms] by (auto simp: runs_def)
  from wp_any_script [OF wp_create_with_layout [OF assms(1,2)] run] run show ?thesis by auto
qed

lemma cr_ready: "creation_ready rn_host cr_inputs rn_sample_name ''/bin/sh'' Profile rn_disk"
proof -
  have dom: "dom (dk_spaces rn_disk) = {''work'', ''other''}" by (auto simp: rn_disk_def)
  have "validate_shell ''/bin/sh'' (ci_shell cr_inputs) = Ok ()"
    by (simp add: validate_shell_def cr_inputs_def is_absolute_def starts_with_def created_stat_def s_kind_def S_IFMT_def S_IFREG_def
        mode_bits_mod executable_bits_def Let_def)
  moreover have "card (dom (dk_spaces rn_disk)) < MAX_DIRECTORY_SCAN_ENTRIES"
    unfolding dom by (simp add: MAX_DIRECTORY_SCAN_ENTRIES_def)
  ultimately show ?thesis
    using rn_quiet by (simp add: creation_ready_def cr_inputs_def rn_disk_def rn_sample_name_def creating_name_def)
qed

theorem undisturbed_creation_completes_witness:
  "\<exists>manifest d'. create_with_layout rn_host cr_inputs rn_sample_name ''/bin/sh'' Profile (rn_disk, []) =
     (Done \<lparr>sp_root = ''play'', sp_manifest = manifest\<rparr>, d', []) \<and> creation_published rn_host manifest rn_disk d'"
  using undisturbed_creation_completes [OF cr_name cr_codec cr_ready] by (auto simp: rn_sample_name_def)

end
