(* ===== verification/Store_Recovery.thy ===== *)
theory Store_Recovery
  imports Create_Completion
begin

text \<open>
  Recovery of a whole store, \<open>store_recovery.rs\<close>: inspection and cleanup of abandoned creations,
  retired directories and temporary freeze markers, after the rename and rollback transactions
  have been recovered. A ticket stands for a path in the trash, and an input says which
  reserved prefix its name has. Further inputs are the layout and management lock, the locks
  that live processes hold, the directories that earlier releases retired (all of them, and those without a lease), and what the
  artifact directories, which lie outside the spaces directory, contribute. The deletion of a
  retired tree is one step.
\<close>

subsection \<open>Names\<close>

definition CREATING_PREFIX :: string where "CREATING_PREFIX = ''.creating-''"
definition MAX_RECOVERY_ENTRIES :: nat where "MAX_RECOVERY_ENTRIES = 1024"

definition has_prefix :: "string \<Rightarrow> string \<Rightarrow> bool" where
  "has_prefix name prefix = starts_with name prefix"

definition parse_wrapped_space_id :: "string \<Rightarrow> string \<Rightarrow> string \<Rightarrow> bool" where
  "parse_wrapped_space_id name prefix suffix =
     (case Option.bind (strip_prefix name prefix) (\<lambda>value. strip_suffix value suffix) of
        None \<Rightarrow> False
      | Some value \<Rightarrow> is_ok (space_id_parse value))"

definition parse_wrapped_artifact_id :: "string \<Rightarrow> string \<Rightarrow> string \<Rightarrow> bool" where
  "parse_wrapped_artifact_id name prefix suffix =
     (case Option.bind (strip_prefix name prefix) (\<lambda>value. strip_suffix value suffix) of
        None \<Rightarrow> False
      | Some value \<Rightarrow> is_ok (artifact_id_parse value))"

definition parse_prefixed_artifact_id :: "string \<Rightarrow> string \<Rightarrow> bool" where
  "parse_prefixed_artifact_id name prefix =
     (case strip_prefix name prefix of None \<Rightarrow> False | Some value \<Rightarrow> is_ok (artifact_id_parse value))"

definition is_known_space_hidden_entry :: "store_host \<Rightarrow> string \<Rightarrow> bool io" where
  "is_known_space_hidden_entry host name =
     (if has_prefix name CREATING_PREFIX then ret True
      else if parse_wrapped_artifact_id name ''.rollback-'' ''.json''
        \<or> parse_wrapped_artifact_id name ''.rollback-'' ''.tmp''
        \<or> parse_wrapped_space_id name ''.rename-'' ''.json''
        \<or> parse_wrapped_space_id name ''.freeze-'' ''.json''
        \<or> parse_wrapped_space_id name ''.freeze-'' ''.tmp''
        \<or> parse_prefixed_artifact_id name ''.rollback-staging-'' then ret True
      else rollback_retired_entry_is_actionable host name)"

subsection \<open>Reserved entries\<close>

definition push_bounded :: "string \<Rightarrow> 'a \<Rightarrow> 'a list \<Rightarrow> 'a list result" where
  "push_bounded family v vs =
     (if MAX_RECOVERY_ENTRIES \<le> length vs then Err ResourceLimit (''the store contains more than 1024 '' @ family)
      else Ok (vs @ [v]))"

definition matching_entries :: "store_host \<Rightarrow> string list \<Rightarrow> string list io" where
  "matching_entries host prefixes =
     scan_directory host ''read recovery entry'' (\<lambda>name matches.
       if \<not> list_ex (has_prefix name) prefixes then ret matches else lift (push_bounded ''reserved recovery entries'' name matches)) []"

datatype trash_family = RetiredEntry | ReclaimingEntry | UnreservedEntry

definition matching_trash :: "(nat \<Rightarrow> trash_family) \<Rightarrow> trash_family \<Rightarrow> nat list io" where
  "matching_trash family wanted =
     bind_io (syscall ''read recovery parent'' atomic (\<lambda>d. (Ok (map fst (dk_trash d)), d))) (\<lambda>tickets.
     bind_io (iterate (scan_entry ''read recovery entry'' (\<lambda>ticket matches.
        if family ticket \<noteq> wanted then ret matches else lift (push_bounded ''reserved recovery entries'' ticket matches))) tickets (0, [])) (\<lambda>st.
     ret (snd st)))"

definition count_unknown_space_entries :: "store_host \<Rightarrow> nat io" where
  "count_unknown_space_entries host =
     scan_directory host ''read spaces recovery entry'' (\<lambda>name unknown.
       if \<not> has_prefix name ''.'' then ret unknown
       else bind_io (is_known_space_hidden_entry host name) (\<lambda>known.
         ret (if known then unknown else sat_add unknown 1))) 0"

definition freeze_marker_temporaries :: "store_host \<Rightarrow> string list io" where
  "freeze_marker_temporaries host =
     scan_directory host ''read freeze recovery entry'' (\<lambda>name temporaries.
       if \<not> parse_wrapped_space_id name ''.freeze-'' ''.tmp'' then ret temporaries
       else
         bind_io (read_entry ''inspect freeze marker temporary file'' name) (\<lambda>e.
         bind_io (lift (case e of
            None \<Rightarrow> Err SystemError ''inspect freeze marker temporary file''
          | Some n \<Rightarrow> validate_private_file (h_uid host) (node_stat n))) (\<lambda>_.
         lift (push_bounded ''freeze marker temporary files'' name temporaries)))) []"

definition remove_freeze_marker_temporaries :: "store_host \<Rightarrow> nat io" where
  "remove_freeze_marker_temporaries host =
     bind_io (freeze_marker_temporaries host) (\<lambda>temporaries.
     bind_io (iterate (\<lambda>temporary _. remove_file ''remove freeze marker temporary file'' temporary) temporaries ()) (\<lambda>_.
     bind_io (if temporaries \<noteq> [] then sync_directory else ret ()) (\<lambda>_.
     ret (length temporaries))))"

subsection \<open>Creations\<close>

record recovery_inputs =
  rc_layout :: "unit result"
  rc_management :: "unit result"
  rc_lock :: "string \<Rightarrow> bool result"
  rc_staging_held :: "string \<Rightarrow> bool"
  rc_family :: "nat \<Rightarrow> trash_family"
  rc_published :: "nat list result"
  rc_unleased :: "nat list result"
  rc_runtimes :: "unit result"
  rc_artifact_retirement :: "unit result"

text \<open>The lock file of a creation as an inspection of its path sees it.\<close>

definition creation_lock_stat :: "node option \<Rightarrow> file_stat sys" where
  "creation_lock_stat e =
     (case e of None \<Rightarrow> SysNotFound | Some (DirNode n) \<Rightarrow> inner_stat n CREATION_LOCK_FILE | Some _ \<Rightarrow> SysFail)"

definition open_creation_lock :: "store_host \<Rightarrow> string \<Rightarrow> unit io" where
  "open_creation_lock host path =
     bind_io (read_entry ''inspect activity lock'' path) (\<lambda>e.
     lift (open_private_lock (h_uid host) (creation_lock_stat e, creation_lock_stat e)))"

definition classify_creation ::
  "store_host \<Rightarrow> recovery_inputs \<Rightarrow> string \<Rightarrow> string list \<times> nat \<Rightarrow> (string list \<times> nat) io" where
  "classify_creation host inp path st =
     (case st of (stale, active) \<Rightarrow>
     bind_io (read_entry ''inspect creation directory'' path) (\<lambda>e.
     case e of
       None \<Rightarrow> ret (stale, active)
     | Some n \<Rightarrow>
         bind_io (lift (validate_private_dir (h_uid host) (node_stat n))) (\<lambda>_.
         bind_io (read_entry ''inspect creation lock'' path) (\<lambda>e.
         case creation_lock_stat e of
           SysNotFound \<Rightarrow> ret (stale @ [path], active)
         | SysFail \<Rightarrow> fail (QErr SystemError ''inspect creation lock'')
         | SysOk _ \<Rightarrow>
             bind_io (attempt (open_creation_lock host path)) (\<lambda>opened.
             case opened of
               Inl error \<Rightarrow>
                 bind_io (attempt (read_entry ''inspect creation directory'' path)) (\<lambda>seen.
                 if seen = Inr None then ret (stale, active) else fail error)
             | Inr _ \<Rightarrow>
                 (case rc_lock inp path of
                    Inl error \<Rightarrow> fail error
                  | Inr acquired \<Rightarrow> ret (if acquired then (stale @ [path], active) else (stale, Suc active))))))))"

definition classify_creations :: "store_host \<Rightarrow> recovery_inputs \<Rightarrow> (string list \<times> nat) io" where
  "classify_creations host inp =
     bind_io (matching_entries host [CREATING_PREFIX]) (\<lambda>paths.
     iterate (classify_creation host inp) paths ([], 0))"

subsection \<open>Preparation\<close>

record recovery_summary =
  ry_active_creations :: nat
  ry_unfinished_creations :: nat
  ry_retired_entries :: nat
  ry_rollback_transactions :: nat
  ry_rename_transactions :: nat
  ry_rename_issues :: nat
  ry_rollbacks :: "rollback_observation list"
  ry_rollback_issues :: "recovery_issue list"
  ry_active_artifact_creations :: nat
  ry_unfinished_artifact_creations :: nat
  ry_reclaiming_artifacts :: nat
  ry_artifact_manifest_temps :: nat
  ry_freeze_marker_temps :: nat
  ry_orphaned_artifacts :: nat
  ry_template_logical_bytes :: nat
  ry_snapshot_logical_bytes :: nat
  ry_unknown_entries_at_least :: nat

definition default_summary :: recovery_summary where
  "default_summary =
     \<lparr>ry_active_creations = 0, ry_unfinished_creations = 0, ry_retired_entries = 0, ry_rollback_transactions = 0,
      ry_rename_transactions = 0, ry_rename_issues = 0, ry_rollbacks = [], ry_rollback_issues = [],
      ry_active_artifact_creations = 0, ry_unfinished_artifact_creations = 0, ry_reclaiming_artifacts = 0,
      ry_artifact_manifest_temps = 0, ry_freeze_marker_temps = 0, ry_orphaned_artifacts = 0, ry_template_logical_bytes = 0,
      ry_snapshot_logical_bytes = 0, ry_unknown_entries_at_least = 0\<rparr>"

text \<open>A retirement finds its path gone without complaint.\<close>

definition unique_suffix :: "unit io" where
  "unique_suffix = syscall ''read the clock'' atomic (\<lambda>d. (Ok (), d))"

definition retire_creation :: "string \<Rightarrow> nat list \<Rightarrow> nat list io" where
  "retire_creation path reclaiming =
     bind_io unique_suffix (\<lambda>_.
     bind_io (syscall ''retire recovery directory'' atomic (\<lambda>d.
        case dk_spaces d path of
          None \<Rightarrow> (Ok None, d)
        | Some e \<Rightarrow> (Ok (Some (dk_next d)), d\<lparr>dk_spaces := (dk_spaces d)(path := None),
            dk_trash := (dk_next d, e) # dk_trash d, dk_next := Suc (dk_next d)\<rparr>))) (\<lambda>target.
     ret (case target of None \<Rightarrow> reclaiming | Some t \<Rightarrow> reclaiming @ [t])))"

definition retire_trash :: "nat \<Rightarrow> nat list \<Rightarrow> nat list io" where
  "retire_trash ticket reclaiming =
     bind_io unique_suffix (\<lambda>_.
     bind_io (syscall ''retire recovery directory'' atomic (\<lambda>d.
        case trash_entry d ticket of
          None \<Rightarrow> (Ok None, d)
        | Some e \<Rightarrow> (Ok (Some (dk_next d)), d\<lparr>dk_trash := (dk_next d, e) # filter (\<lambda>x. fst x \<noteq> ticket) (dk_trash d),
            dk_next := Suc (dk_next d)\<rparr>))) (\<lambda>target.
     ret (case target of None \<Rightarrow> reclaiming | Some t \<Rightarrow> reclaiming @ [t])))"

definition validate_recovery_entry :: "store_host \<Rightarrow> nat \<Rightarrow> unit io" where
  "validate_recovery_entry host ticket =
     bind_io (read_trash ''inspect recovery directory'' ticket) (\<lambda>e.
     case e of None \<Rightarrow> ret () | Some n \<Rightarrow> lift (validate_private_dir (h_uid host) (node_stat n)))"

definition prepare_recovery :: "store_host \<Rightarrow> recovery_inputs \<Rightarrow> (recovery_summary \<times> nat list) io" where
  "prepare_recovery host inp =
     bind_io (lift (rc_layout inp)) (\<lambda>_.
     bind_io (classify_creations host inp) (\<lambda>(creations, active_creations).
     bind_io (matching_trash (rc_family inp) RetiredEntry) (\<lambda>own_retired.
     bind_io (matching_trash (rc_family inp) ReclaimingEntry) (\<lambda>existing_reclaiming.
     bind_io (lift (rc_unleased inp)) (\<lambda>published.
     let retired = own_retired @ published in
     bind_io (iterate (\<lambda>path _. validate_recovery_entry host path) (retired @ existing_reclaiming) ()) (\<lambda>_.
     bind_io (iterate retire_creation creations []) (\<lambda>reclaiming.
     bind_io (iterate retire_trash (retired @ existing_reclaiming) reclaiming) (\<lambda>reclaiming.
     bind_io sync_directory (\<lambda>_.
     bind_io sync_directory (\<lambda>_.
     bind_io (count_unknown_space_entries host) (\<lambda>unknown.
     ret (default_summary\<lparr>ry_active_creations := active_creations, ry_unfinished_creations := length creations,
            ry_retired_entries := sat_add (sat_add (length own_retired) (length published)) (length existing_reclaiming),
            ry_unknown_entries_at_least := unknown\<rparr>, reclaiming))))))))))))"

subsection \<open>Artifacts\<close>

text \<open>
  The artifact directories as inspections see them: the name when it is text, the metadata, the
  creation lock with the attempt to take it, and the temporary manifest of the entry's own id. Paths
  in the directory are numbers; the path of a temporary manifest is that of its entry with the file name.
\<close>

record artifact_entry =
  ae_name :: "string option"
  ae_path :: nat
  ae_stat :: "file_stat sys"
  ae_lock :: "file_stat sys"
  ae_acquire :: "bool result"
  ae_temporary :: "file_stat sys"

record artifact_candidates =
  ac_active :: nat
  ac_stale :: "nat list"
  ac_reclaiming :: "nat list"
  ac_manifest_temps :: "(nat \<times> string) list"
  ac_unknown :: nat

definition no_candidates :: artifact_candidates where
  "no_candidates = \<lparr>ac_active = 0, ac_stale = [], ac_reclaiming = [], ac_manifest_temps = [], ac_unknown = 0\<rparr>"

definition validate_artifact_recovery_directory :: "nat \<Rightarrow> file_stat sys \<Rightarrow> unit result" where
  "validate_artifact_recovery_directory uid obs =
     (case obs of SysOk m \<Rightarrow> validate_private_dir uid m | _ \<Rightarrow> Err SystemError ''inspect artifact recovery directory'')"

definition parse_reserved_artifact_id :: "string \<Rightarrow> string \<Rightarrow> artifact_id option" where
  "parse_reserved_artifact_id name prefix =
     (case strip_prefix name prefix of
        None \<Rightarrow> None
      | Some value \<Rightarrow> (case artifact_id_parse value of Inl _ \<Rightarrow> None | Inr ident \<Rightarrow> Some ident))"

definition classify_artifact_creation :: "nat \<Rightarrow> artifact_entry \<Rightarrow> artifact_candidates \<Rightarrow> artifact_candidates result" where
  "classify_artifact_creation uid entry candidates =
     rbind (validate_artifact_recovery_directory uid (ae_stat entry)) (\<lambda>_.
     rbind (case ae_lock entry of
         SysNotFound \<Rightarrow> Ok True
       | SysFail \<Rightarrow> Err SystemError ''inspect artifact creation lock''
       | SysOk m \<Rightarrow> rbind (open_private_lock uid (SysOk m, SysOk m)) (\<lambda>_. ae_acquire entry)) (\<lambda>free.
     if \<not> free then Ok (candidates\<lparr>ac_active := sat_add (ac_active candidates) 1\<rparr>)
     else rbind (push_bounded ''unfinished artifact creations'' (ae_path entry) (ac_stale candidates)) (\<lambda>stale.
       Ok (candidates\<lparr>ac_stale := stale\<rparr>))))"

definition inspect_manifest_temp ::
  "nat \<Rightarrow> artifact_entry \<Rightarrow> artifact_id \<Rightarrow> artifact_candidates \<Rightarrow> artifact_candidates result" where
  "inspect_manifest_temp uid entry ident candidates =
     rbind (validate_artifact_recovery_directory uid (ae_stat entry)) (\<lambda>_.
     let temporary = (ae_path entry, ''.manifest-'' @ artifact_id_as_str ident @ ''.tmp'') in
     case ae_temporary entry of
       SysNotFound \<Rightarrow> Ok candidates
     | SysFail \<Rightarrow> Err SystemError ''inspect artifact manifest temporary file''
     | SysOk m \<Rightarrow>
         rbind (validate_private_file uid m) (\<lambda>_.
         rbind (push_bounded ''artifact manifest temporary files'' temporary (ac_manifest_temps candidates)) (\<lambda>temps.
         Ok (candidates\<lparr>ac_manifest_temps := temps\<rparr>))))"

definition classify_artifact_entry :: "nat \<Rightarrow> artifact_entry \<Rightarrow> artifact_candidates \<Rightarrow> artifact_candidates result" where
  "classify_artifact_entry uid entry candidates =
     (let unknown = Ok (candidates\<lparr>ac_unknown := sat_add (ac_unknown candidates) 1\<rparr>) in
      case ae_name entry of
        None \<Rightarrow> unknown
      | Some name \<Rightarrow>
          if parse_reserved_artifact_id name ''.creating-'' \<noteq> None then classify_artifact_creation uid entry candidates
          else if parse_reserved_artifact_id name ''.reclaiming-'' \<noteq> None then
            rbind (validate_artifact_recovery_directory uid (ae_stat entry)) (\<lambda>_.
            rbind (push_bounded ''artifact reclaiming'' (ae_path entry) (ac_reclaiming candidates)) (\<lambda>reclaiming.
            Ok (candidates\<lparr>ac_reclaiming := reclaiming\<rparr>)))
          else (case artifact_id_parse name of
              Inr ident \<Rightarrow> inspect_manifest_temp uid entry ident candidates
            | Inl _ \<Rightarrow> unknown))"

fun scan_artifacts ::
  "nat \<Rightarrow> artifact_entry result list \<Rightarrow> nat \<Rightarrow> artifact_candidates \<Rightarrow> artifact_candidates result" where
  "scan_artifacts uid [] examined candidates = Ok candidates"
| "scan_artifacts uid (entry # entries) examined candidates =
     rbind entry (\<lambda>entry.
     rbind (scan_observe examined) (\<lambda>examined.
     rbind (classify_artifact_entry uid entry candidates) (scan_artifacts uid entries examined)))"

definition artifact_candidates_of ::
  "nat \<Rightarrow> file_stat sys \<Rightarrow> artifact_entry result list result \<Rightarrow> artifact_candidates result" where
  "artifact_candidates_of uid root listing =
     (case root of
        SysNotFound \<Rightarrow> Ok no_candidates
      | SysFail \<Rightarrow> Err SystemError ''inspect artifact recovery root''
      | SysOk m \<Rightarrow>
          rbind (validate_private_dir uid m) (\<lambda>_.
          rbind listing (\<lambda>entries. scan_artifacts uid entries 0 no_candidates)))"

record artifact_recovery_state =
  ars_active_creations :: nat
  ars_unfinished_creations :: nat
  ars_reclaiming :: nat
  ars_manifest_temps :: nat
  ars_orphaned :: nat
  ars_template_bytes :: nat
  ars_snapshot_bytes :: nat
  ars_unknown_entries :: nat

text \<open>One artifact directory: its observed entries, and of each healthy artifact whether its source is gone and its bytes.\<close>

record artifact_root =
  ao_root :: "file_stat sys"
  ao_entries :: "artifact_entry result list result"
  ao_healthy :: "(bool \<times> nat) list result"

definition add_bytes :: "artifact_kind \<Rightarrow> nat \<Rightarrow> artifact_recovery_state \<Rightarrow> artifact_recovery_state result" where
  "add_bytes k bytes state =
     (let aggregate = (case k of Template \<Rightarrow> ars_template_bytes state | Snapshot \<Rightarrow> ars_snapshot_bytes state) in
      if u64_max < aggregate + bytes then Err ResourceLimit ''artifact logical-byte aggregate overflowed''
      else Ok (case k of
          Template \<Rightarrow> state\<lparr>ars_template_bytes := aggregate + bytes\<rparr>
        | Snapshot \<Rightarrow> state\<lparr>ars_snapshot_bytes := aggregate + bytes\<rparr>))"

fun count_artifacts ::
  "artifact_kind \<Rightarrow> (bool \<times> nat) list \<Rightarrow> artifact_recovery_state \<Rightarrow> artifact_recovery_state result" where
  "count_artifacts k [] state = Ok state"
| "count_artifacts k ((orphaned, bytes) # rest) state =
     rbind (add_bytes k bytes (if orphaned then state\<lparr>ars_orphaned := sat_add (ars_orphaned state) 1\<rparr> else state))
       (count_artifacts k rest)"

definition inspect_artifact_root ::
  "nat \<Rightarrow> artifact_kind \<Rightarrow> artifact_root \<Rightarrow> artifact_recovery_state \<Rightarrow> artifact_recovery_state result" where
  "inspect_artifact_root uid k r state =
     rbind (artifact_candidates_of uid (ao_root r) (ao_entries r)) (\<lambda>candidates.
     rbind (ao_healthy r) (\<lambda>healthy.
     count_artifacts k healthy (state\<lparr>
       ars_active_creations := sat_add (ars_active_creations state) (ac_active candidates),
       ars_unfinished_creations := sat_add (ars_unfinished_creations state) (length (ac_stale candidates)),
       ars_reclaiming := sat_add (ars_reclaiming state) (length (ac_reclaiming candidates)),
       ars_manifest_temps := sat_add (ars_manifest_temps state) (length (ac_manifest_temps candidates)),
       ars_unknown_entries := sat_add (ars_unknown_entries state) (ac_unknown candidates)\<rparr>)))"

definition inspect_artifact_state :: "nat \<Rightarrow> (artifact_kind \<Rightarrow> artifact_root) \<Rightarrow> artifact_recovery_state result" where
  "inspect_artifact_state uid roots =
     rbind (inspect_artifact_root uid Template (roots Template)
       \<lparr>ars_active_creations = 0, ars_unfinished_creations = 0, ars_reclaiming = 0, ars_manifest_temps = 0, ars_orphaned = 0,
        ars_template_bytes = 0, ars_snapshot_bytes = 0, ars_unknown_entries = 0\<rparr>)
       (inspect_artifact_root uid Snapshot (roots Snapshot))"

definition apply_artifacts :: "recovery_summary \<Rightarrow> artifact_recovery_state \<Rightarrow> recovery_summary" where
  "apply_artifacts summary state =
     summary\<lparr>ry_active_artifact_creations := ars_active_creations state,
       ry_unfinished_artifact_creations := ars_unfinished_creations state,
       ry_reclaiming_artifacts := ars_reclaiming state, ry_artifact_manifest_temps := ars_manifest_temps state,
       ry_orphaned_artifacts := ars_orphaned state, ry_template_logical_bytes := ars_template_bytes state,
       ry_snapshot_logical_bytes := ars_snapshot_bytes state,
       ry_unknown_entries_at_least := sat_add (ry_unknown_entries_at_least summary) (ars_unknown_entries state)\<rparr>"

subsection \<open>The operations\<close>

definition rollback_issues_for_recovery :: "store_host \<Rightarrow> recovery_issue list io" where
  "rollback_issues_for_recovery host = bind_io (load_recovery_inventory host None) (\<lambda>inventory. ret (inv_issues inventory))"

definition inspect_store ::
  "store_host \<Rightarrow> recovery_inputs \<Rightarrow> rollback_observation list \<Rightarrow> recovery_issue list \<Rightarrow> nat \<Rightarrow> nat \<Rightarrow>
     artifact_recovery_state \<Rightarrow> recovery_summary io" where
  "inspect_store host inp rollbacks rollback_issues rename_transactions rename_issues artifacts =
     bind_io (lift (rc_layout inp)) (\<lambda>_.
     bind_io (classify_creations host inp) (\<lambda>(unfinished, active).
     bind_io (matching_trash (rc_family inp) RetiredEntry) (\<lambda>retired.
     bind_io (matching_trash (rc_family inp) ReclaimingEntry) (\<lambda>reclaiming.
     bind_io (lift (rc_published inp)) (\<lambda>published.
     bind_io (count_unknown_space_entries host) (\<lambda>unknown.
     bind_io (freeze_marker_temporaries host) (\<lambda>temporaries.
     ret (apply_artifacts (default_summary\<lparr>ry_active_creations := active, ry_unfinished_creations := length unfinished,
          ry_retired_entries := sat_add (sat_add (length retired) (length reclaiming)) (length published),
          ry_rollback_transactions := length rollbacks, ry_rename_transactions := rename_transactions,
          ry_rename_issues := rename_issues, ry_rollbacks := rollbacks, ry_rollback_issues := rollback_issues,
          ry_freeze_marker_temps := length temporaries,
          ry_unknown_entries_at_least := sat_add (sat_add unknown (length rollback_issues)) rename_issues\<rparr>) artifacts))))))))"

definition recovery_summary_of ::
  "store_host \<Rightarrow> recovery_inputs \<Rightarrow> (artifact_kind \<Rightarrow> artifact_root) \<Rightarrow> recovery_summary io" where
  "recovery_summary_of host inp roots =
     bind_io (lift (rc_layout inp)) (\<lambda>_.
     bind_io (load_recovery_inventory host None) (\<lambda>inventory.
     bind_io (rename_recovery_count host) (\<lambda>rename_transactions.
     bind_io (rename_recovery_issue_count host) (\<lambda>rename_issues.
     bind_io (lift (inspect_artifact_state (h_uid host) roots)) (\<lambda>artifacts.
     inspect_store host inp (map rp_observation (inv_plans inventory)) (inv_issues inventory) rename_transactions rename_issues
       artifacts)))))"

definition note_failure :: "nat \<Rightarrow> quarters_error option \<Rightarrow> quarters_error option io" where
  "note_failure path first_failure =
     bind_io (attempt (remove_tree_restoring_owner_access path)) (\<lambda>outcome.
     ret (case outcome of
        Inr _ \<Rightarrow> first_failure
      | Inl error \<Rightarrow> (case first_failure of None \<Rightarrow> Some error | Some _ \<Rightarrow> first_failure)))"

definition reclaim_stale_state ::
  "store_host \<Rightarrow> recovery_inputs \<Rightarrow> artifact_recovery_state \<Rightarrow> recovery_summary io" where
  "reclaim_stale_state host inp artifacts =
     bind_io (lift (rc_management inp)) (\<lambda>_.
     bind_io (prepare_recovery host inp) (\<lambda>(summary, reclaiming).
     bind_io (remove_freeze_marker_temporaries host) (\<lambda>temps.
     bind_io (lift (rc_artifact_retirement inp)) (\<lambda>_.
     bind_io (iterate note_failure reclaiming None) (\<lambda>first_failure.
     bind_io (attempt sync_directory) (\<lambda>sync_result.
     case first_failure of
       Some error \<Rightarrow> fail error
     | None \<Rightarrow>
         bind_io (lift sync_result) (\<lambda>_.
         bind_io (lift (rc_runtimes inp)) (\<lambda>_.
         ret (apply_artifacts (summary\<lparr>ry_freeze_marker_temps := temps\<rparr>) artifacts)))))))))"

definition recover :: "store_host \<Rightarrow> recovery_inputs \<Rightarrow> (artifact_kind \<Rightarrow> artifact_root) \<Rightarrow> recovery_summary io" where
  "recover host inp roots =
     bind_io (lift (rc_layout inp)) (\<lambda>_.
     bind_io (recover_renames host) (\<lambda>rename_recovery.
     bind_io (rename_recovery_issue_count host) (\<lambda>remaining_issues.
     let rename_issues = sat_add remaining_issues (rr_issues rename_recovery) in
     bind_io (recover_rollbacks host (rc_staging_held inp)) (\<lambda>rollbacks.
     bind_io (rollback_issues_for_recovery host) (\<lambda>rollback_issues.
     bind_io (lift (inspect_artifact_state (h_uid host) roots)) (\<lambda>artifacts.
     bind_io (reclaim_stale_state host inp artifacts) (\<lambda>summary.
     ret (summary\<lparr>ry_rollback_transactions := length rollbacks, ry_rename_transactions := rr_recovered rename_recovery,
       ry_rename_issues := rename_issues, ry_rollbacks := rollbacks, ry_rollback_issues := rollback_issues,
       ry_unknown_entries_at_least :=
         sat_add (sat_add (ry_unknown_entries_at_least summary) (length rollback_issues)) rename_issues\<rparr>))))))))"

end
