(* ===== verification/Recovery_Properties.thy ===== *)
theory Recovery_Properties
  imports Store_Recovery
begin

text \<open>
  What store recovery may delete, under every fault script, and that an undisturbed run after an
  interrupted creation gives back the store as it was.
\<close>

subsection \<open>Inspection changes nothing\<close>

lemma keeps_prod [keeps_rules]: "(\<And>x y. keeps (f x y)) \<Longrightarrow> keeps (case p of (x, y) \<Rightarrow> f x y)"
  by (simp split: prod.splits)

lemma keeps_actionable [keeps_rules]: "keeps (rollback_retired_entry_is_actionable host name)"
  unfolding rollback_retired_entry_is_actionable_def by (intro keeps_rules)

lemma keeps_known_entry [keeps_rules]: "keeps (is_known_space_hidden_entry host name)"
  unfolding is_known_space_hidden_entry_def by (intro keeps_rules)

lemma keeps_scans [keeps_rules]:
  "keeps (matching_entries host prefixes)" "keeps (count_unknown_space_entries host)" "keeps (freeze_marker_temporaries host)"
  unfolding matching_entries_def count_unknown_space_entries_def freeze_marker_temporaries_def
  by (intro keeps_rules)+

lemma keeps_matching_trash [keeps_rules]: "keeps (matching_trash family wanted)"
  unfolding matching_trash_def scan_entry_def by (intro keeps_rules keeps_syscall) auto

lemma keeps_classify [keeps_rules]: "keeps (classify_creation host inp path st)" "keeps (classify_creations host inp)"
proof -
  show one: "keeps (classify_creation host inp path st)" for path st
    unfolding classify_creation_def open_creation_lock_def by (intro keeps_rules)
  show "keeps (classify_creations host inp)" unfolding classify_creations_def by (intro keeps_rules one)
qed

lemma keeps_validate_recovery_entry [keeps_rules]: "keeps (validate_recovery_entry host ticket)"
  unfolding validate_recovery_entry_def by (intro keeps_rules)

lemma keeps_rename_scans [keeps_rules]:
  "keeps (rename_recovery_count host)" "keeps (rename_recovery_issue_count host)"
  unfolding rename_recovery_count_def rename_recovery_issue_count_def rename_scan_def rename_scan_entry_def read_rename_marker_def
  by (intro keeps_rules)+

lemma keeps_unique_suffix [keeps_rules]: "keeps unique_suffix"
  unfolding unique_suffix_def by (simp add: keeps_syscall)

lemma keeps_recovery_summary: "keeps (recovery_summary_of host inp roots)"
  unfolding recovery_summary_of_def inspect_store_def by (intro keeps_rules)

subsection \<open>What may be reclaimed\<close>

definition abandoned_creation :: "store_host \<Rightarrow> recovery_inputs \<Rightarrow> disk \<Rightarrow> string \<Rightarrow> bool" where
  "abandoned_creation host inp d x \<longleftrightarrow>
     has_prefix x CREATING_PREFIX \<and>
     (\<exists>e. dk_spaces d x = Some e \<and> validate_private_dir (h_uid host) (node_stat e) = Ok () \<and>
        (creation_lock_stat (Some e) = SysNotFound \<or> rc_lock inp x = Ok True))"

definition freeze_temporary :: "store_host \<Rightarrow> disk \<Rightarrow> string \<Rightarrow> bool" where
  "freeze_temporary host d x \<longleftrightarrow>
     parse_wrapped_space_id x ''.freeze-'' ''.tmp'' \<and>
     (\<exists>e. dk_spaces d x = Some e \<and> validate_private_file (h_uid host) (node_stat e) = Ok ())"

definition reclaims :: "(disk \<Rightarrow> string \<Rightarrow> bool) \<Rightarrow> disk \<Rightarrow> disk \<Rightarrow> bool" where
  "reclaims P d d' \<longleftrightarrow> (\<forall>x. dk_spaces d' x = dk_spaces d x \<or> dk_spaces d' x = None \<and> P d x)"

lemma reclaims_refl [simp]: "reclaims P d d"
  by (simp add: reclaims_def)

lemma reclaims_drop:
  "reclaims P d d' \<Longrightarrow> P d x \<Longrightarrow> dk_spaces e = (dk_spaces d')(x := None) \<Longrightarrow> reclaims P d e"
  by (auto simp: reclaims_def)

lemma reclaims_same: "reclaims P d d' \<Longrightarrow> dk_spaces e = dk_spaces d' \<Longrightarrow> reclaims P d e"
  by (simp add: reclaims_def)

lemma wp_matching_entries:
  assumes "\<And>e. E e d" and "C d" and "\<And>ps. list_all (\<lambda>p. list_ex (has_prefix p) prefixes) ps \<Longrightarrow> Q ps d"
  shows "wp F (matching_entries host prefixes) Q E C d"
  unfolding matching_entries_def
  by (rule wp_conseq [OF wp_scan_directory [where I = "\<lambda>ps _. list_all (\<lambda>p. list_ex (has_prefix p) prefixes) ps" and E = E and C = C]])
    (use assms in \<open>auto intro!: wp_ret wp_lift simp: push_bounded_def split: if_splits\<close>)

lemma wp_classify_creation:
  assumes "\<And>e. E e d" and "C d" and "has_prefix path CREATING_PREFIX"
    and "list_all (abandoned_creation host inp d) (fst st)"
    and "\<And>st'. list_all (abandoned_creation host inp d) (fst st') \<Longrightarrow> Q st' d"
  shows "wp F (classify_creation host inp path st) Q E C d"
proof -
  have opened: "wp F (attempt (open_creation_lock host path)) Q' E C d" if "\<And>x. Q' x d" for Q'
    unfolding open_creation_lock_def by (rule wp_keeps) (use assms that in \<open>auto intro!: keeps_rules\<close>)
  have seen: "wp F (attempt (read_entry a path)) Q' E C d" if "\<And>x. Q' x d" for Q' a
    by (rule wp_keeps) (use assms that in \<open>auto intro!: keeps_rules\<close>)
  show ?thesis
    unfolding classify_creation_def
    by (cases st; cases "dk_spaces d path")
      (use assms in \<open>auto intro!: wp_bind [of _ "read_entry _ _"] wp_read_entry wp_ret wp_bind [of _ "lift _"] wp_lift wp_fail opened seen
        wp_bind [of _ "attempt _"] simp: abandoned_creation_def split: sys.splits sum.splits\<close>)
qed

lemma wp_classify_creations:
  assumes "\<And>e. E e d" and "C d" and "\<And>st. list_all (abandoned_creation host inp d) (fst st) \<Longrightarrow> Q st d"
  shows "wp F (classify_creations host inp) Q E C d"
proof -
  have "wp F (iterate (classify_creation host inp) paths ([], 0)) Q E C d"
    if "list_all (\<lambda>p. list_ex (has_prefix p) [CREATING_PREFIX]) paths" for paths
    by (rule wp_conseq [OF wp_iterate [where I = "\<lambda>st d'. d' = d \<and> list_all (abandoned_creation host inp d) (fst st)" and E = E and C = C]])
      (use that assms in \<open>auto simp: list_all_iff intro!: wp_classify_creation\<close>)
  then show ?thesis
    unfolding classify_creations_def by (intro wp_bind [of _ "matching_entries _ _"] wp_matching_entries assms)
qed

lemma wp_retire_creations:
  assumes "list_all (P d) paths" and "reclaims P d d1"
  shows "wp F (iterate retire_creation paths reclaiming) (\<lambda>_. reclaims P d) (\<lambda>_. reclaims P d) (reclaims P d) d1"
proof (rule wp_iterate)
  fix x s d'
  assume x: "x \<in> set paths" and r: "reclaims P d d'"
  have "P d x" using assms(1) x by (simp add: list_all_iff)
  then show "wp F (retire_creation x s) (\<lambda>_. reclaims P d) (\<lambda>_. reclaims P d) (reclaims P d) d'"
    unfolding retire_creation_def unique_suffix_def
    by (intro wp_bind wp_syscall) (use r in \<open>auto intro!: wp_bind wp_syscall wp_ret elim: reclaims_drop split: option.splits\<close>)
qed (rule assms(2))

lemma wp_retire_trashes:
  assumes "reclaims P d d1"
  shows "wp F (iterate retire_trash tickets reclaiming) (\<lambda>_. reclaims P d) (\<lambda>_. reclaims P d) (reclaims P d) d1"
proof (rule wp_iterate)
  fix x s d'
  assume r: "reclaims P d d'"
  then show "wp F (retire_trash x s) (\<lambda>_. reclaims P d) (\<lambda>_. reclaims P d) (reclaims P d) d'"
    unfolding retire_trash_def unique_suffix_def
    by (intro wp_bind wp_syscall) (use r in \<open>auto intro!: wp_bind wp_syscall wp_ret elim: reclaims_same split: option.splits\<close>)
qed (rule assms)

abbreviation reclaimed :: "store_host \<Rightarrow> recovery_inputs \<Rightarrow> disk \<Rightarrow> disk \<Rightarrow> bool" where
  "reclaimed host inp d d' \<equiv> reclaims (\<lambda>d x. abandoned_creation host inp d x \<or> freeze_temporary host d x) d d'"

lemma wp_looks: "keeps m \<Longrightarrow> P d \<Longrightarrow> (\<And>x. wp F (f x) Q (\<lambda>_. P) P d) \<Longrightarrow> wp F (bind_io m f) Q (\<lambda>_. P) P d"
  by (intro wp_bind wp_keeps [of m])

lemma wp_prepare_recovery:
  "wp F (prepare_recovery host inp) (\<lambda>_. reclaimed host inp d) (\<lambda>_. reclaimed host inp d) (reclaimed host inp d) d"
proof -
  let ?R = "reclaimed host inp d"
  have tail: "wp F (bind_io sync_directory (\<lambda>_. bind_io sync_directory (\<lambda>_. bind_io (count_unknown_space_entries host) (\<lambda>u. ret (f u)))))
      (\<lambda>_. ?R) (\<lambda>_. ?R) ?R d'" if "?R d'" for d' and f :: "nat \<Rightarrow> recovery_summary \<times> nat list"
    by (intro wp_looks keeps_rules wp_ret) (use that in auto)
  have retire: "wp F (bind_io (iterate retire_creation creations []) (\<lambda>reclaiming.
       bind_io (iterate retire_trash tickets reclaiming) (\<lambda>reclaiming.
       bind_io sync_directory (\<lambda>_. bind_io sync_directory (\<lambda>_. bind_io (count_unknown_space_entries host) (\<lambda>u. ret (f u reclaiming)))))))
      (\<lambda>_. ?R) (\<lambda>_. ?R) ?R d"
    if "list_all (abandoned_creation host inp d) creations" for creations tickets and f :: "nat \<Rightarrow> nat list \<Rightarrow> recovery_summary \<times> nat list"
  proof (rule wp_bind, rule wp_conseq [OF wp_retire_creations])
    show "wp F (bind_io (iterate retire_trash tickets reclaiming) (\<lambda>reclaiming.
       bind_io sync_directory (\<lambda>_. bind_io sync_directory (\<lambda>_. bind_io (count_unknown_space_entries host) (\<lambda>u. ret (f u reclaiming))))))
      (\<lambda>_. ?R) (\<lambda>_. ?R) ?R d'" if "?R d'" for d' reclaiming
      by (rule wp_bind, rule wp_conseq [OF wp_retire_trashes [OF that]]) (auto intro: tail)
  qed (use that in \<open>auto simp: list_all_iff\<close>)
  show ?thesis
    unfolding prepare_recovery_def Let_def
    by (intro wp_looks [of "lift _"] wp_bind [of _ "classify_creations _ _"] wp_classify_creations keeps_rules)
      (auto intro!: wp_looks [of "matching_trash _ _"] wp_looks [of "lift _"] wp_looks [of "iterate _ _ ()"] keeps_rules retire
        split: prod.splits)
qed

lemma wp_freeze_temporaries:
  assumes "\<And>e. E e d" and "C d" and "\<And>ps. list_all (freeze_temporary host d) ps \<Longrightarrow> Q ps d"
  shows "wp F (freeze_marker_temporaries host) Q E C d"
  unfolding freeze_marker_temporaries_def
  by (rule wp_conseq [OF wp_scan_directory [where I = "\<lambda>ps d'. d' = d \<and> list_all (freeze_temporary host d) ps" and E = E and C = C]])
    (use assms in \<open>auto intro!: wp_ret wp_lift wp_bind [of _ "read_entry _ _"] wp_read_entry wp_bind [of _ "lift _"]
       simp: push_bounded_def freeze_temporary_def split: if_splits option.splits\<close>)

lemma wp_remove_file_reclaims:
  assumes "P d x" and "reclaims P d d'"
  shows "wp F (remove_file action x) (\<lambda>_. reclaims P d) (\<lambda>_. reclaims P d) (reclaims P d) d'"
  unfolding remove_file_def
  by (rule wp_syscall) (use assms in \<open>auto elim: reclaims_drop split: option.splits node.splits\<close>)

lemma wp_remove_freeze_temporaries:
  assumes "reclaimed host inp d d'"
  shows "wp F (remove_freeze_marker_temporaries host) (\<lambda>_. reclaimed host inp d) (\<lambda>_. reclaimed host inp d) (reclaimed host inp d) d'"
proof -
  let ?R = "reclaimed host inp d"
  have seen: "freeze_temporary host d x" if "freeze_temporary host d' x" for x
  proof -
    have "dk_spaces d' x \<noteq> None" using that by (auto simp: freeze_temporary_def)
    then have "dk_spaces d' x = dk_spaces d x" using assms by (auto simp: reclaims_def)
    with that show ?thesis by (simp add: freeze_temporary_def)
  qed
  have step: "wp F (iterate (\<lambda>temporary _. remove_file a temporary) ps ()) (\<lambda>_. ?R) (\<lambda>_. ?R) ?R d'"
    if "list_all (freeze_temporary host d') ps" for ps a
    by (rule wp_iterate) (use that assms seen in \<open>auto simp: list_all_iff intro!: wp_remove_file_reclaims\<close>)
  show ?thesis
    unfolding remove_freeze_marker_temporaries_def
  proof (intro wp_bind [of _ "freeze_marker_temporaries _"] wp_freeze_temporaries)
    show "wp F (bind_io (iterate (\<lambda>temporary _. remove_file ''remove freeze marker temporary file'' temporary) ps ()) (\<lambda>_.
       bind_io (if ps \<noteq> [] then sync_directory else ret ()) (\<lambda>_. ret (length ps)))) (\<lambda>_. ?R) (\<lambda>_. ?R) ?R d'"
      if "list_all (freeze_temporary host d') ps" for ps
      by (rule wp_bind, rule wp_conseq [OF step [OF that]]) (auto intro!: wp_looks keeps_rules wp_ret)
  qed (use assms in auto)
qed

lemma wp_note_failure: "reclaims P d d' \<Longrightarrow> wp F (note_failure path st) (\<lambda>_. reclaims P d) (\<lambda>_. reclaims P d) (reclaims P d) d'"
  unfolding note_failure_def attempt_def remove_tree_restoring_owner_access_def
  by (intro wp_bind wp_catch wp_syscall) (auto intro!: wp_ret wp_bind elim: reclaims_same)

lemma wp_reclaim_stale_state:
  "wp F (reclaim_stale_state host inp artifacts) (\<lambda>_. reclaimed host inp d) (\<lambda>_. reclaimed host inp d) (reclaimed host inp d) d"
proof -
  let ?R = "reclaimed host inp d"
  have finish: "wp F (case failure of Some error \<Rightarrow> fail error | None \<Rightarrow> bind_io (lift sync_result) (\<lambda>_. bind_io (lift (rc_runtimes inp)) (\<lambda>_. ret v)))
      (\<lambda>_. ?R) (\<lambda>_. ?R) ?R d'" if "?R d'" for failure d' and sync_result :: "unit result" and v :: recovery_summary
    by (rule wp_keeps) (use that in \<open>auto intro!: keeps_rules\<close>)
  have delete: "wp F (bind_io (iterate note_failure tickets None) (\<lambda>failure.
       bind_io (attempt sync_directory) (\<lambda>sync_result.
       case failure of Some error \<Rightarrow> fail error | None \<Rightarrow> bind_io (lift sync_result) (\<lambda>_. bind_io (lift (rc_runtimes inp)) (\<lambda>_. ret v)))))
      (\<lambda>_. ?R) (\<lambda>_. ?R) ?R d'" if "?R d'" for tickets d' and v :: recovery_summary
    by (rule wp_bind, rule wp_conseq [OF wp_iterate [where I = "\<lambda>_. ?R", OF that wp_note_failure]])
      (assumption | intro wp_looks [of "attempt _"] keeps_rules finish)+
  have rest: "wp F (bind_io (remove_freeze_marker_temporaries host) (\<lambda>temps.
       bind_io (lift (rc_artifact_retirement inp)) (\<lambda>_.
       bind_io (iterate note_failure tickets None) (\<lambda>failure.
       bind_io (attempt sync_directory) (\<lambda>sync_result.
       case failure of Some error \<Rightarrow> fail error | None \<Rightarrow>
         bind_io (lift sync_result) (\<lambda>_. bind_io (lift (rc_runtimes inp)) (\<lambda>_. ret (v temps))))))))
      (\<lambda>_. ?R) (\<lambda>_. ?R) ?R d'" if "?R d'" for tickets d' and v :: "nat \<Rightarrow> recovery_summary"
    by (rule wp_bind, rule wp_conseq [OF wp_remove_freeze_temporaries [OF that]])
      (auto intro!: wp_looks [of "lift _"] keeps_rules delete)
  show ?thesis
    unfolding reclaim_stale_state_def
    by (intro wp_looks [of "lift _"] keeps_rules wp_bind [of _ "prepare_recovery _ _"] wp_conseq [OF wp_prepare_recovery])
      (auto intro: rest split: prod.splits)
qed

text \<open>
  C19: Reclamation deletes only abandoned state. Whatever system call fails and wherever the process
  stops, every entry of the spaces directory is as before, except that an entry may be gone that
  was a private directory with the creation prefix and no live owner, or a private temporary
  file of a freeze marker. Spaces, transactions, foreign entries and running creations stay.
\<close>

theorem reclamation_deletes_only_abandoned_state:
  "case reclaim_stale_state host inp artifacts (d, script) of (r, d', rest) \<Rightarrow>
     \<forall>x. dk_spaces d' x = dk_spaces d x \<or>
       dk_spaces d' x = None \<and> (abandoned_creation host inp d x \<or> freeze_temporary host d x)"
proof -
  obtain r d' rest where run: "reclaim_stale_state host inp artifacts (d, script) = (r, d', rest)" by (rule prod_cases3)
  show ?thesis
    unfolding run using wp_any_script [OF wp_reclaim_stale_state run] by (cases r) (auto simp: reclaims_def)
qed

subsection \<open>Artifact directories\<close>

text \<open>
  The well-formed results of a scan: no family above its bound, every entry in at most one family,
  and in each family only entries of its own form, the temporary manifests with the path that their
  artifact's id gives.
\<close>

definition entries_named :: "artifact_entry result list \<Rightarrow> (string \<Rightarrow> bool) \<Rightarrow> nat set" where
  "entries_named entries P = {ae_path e |e n. Ok e \<in> set entries \<and> ae_name e = Some n \<and> P n}"

definition wf_candidates :: "artifact_entry result list \<Rightarrow> artifact_candidates \<Rightarrow> bool" where
  "wf_candidates entries c \<longleftrightarrow>
     length (ac_stale c) \<le> MAX_RECOVERY_ENTRIES \<and> length (ac_reclaiming c) \<le> MAX_RECOVERY_ENTRIES \<and>
     length (ac_manifest_temps c) \<le> MAX_RECOVERY_ENTRIES \<and>
     ac_active c + length (ac_stale c) + length (ac_reclaiming c) + length (ac_manifest_temps c) + ac_unknown c \<le> length entries \<and>
     set (ac_stale c) \<subseteq> entries_named entries (\<lambda>n. parse_reserved_artifact_id n ''.creating-'' \<noteq> None) \<and>
     set (ac_reclaiming c) \<subseteq> entries_named entries (\<lambda>n. parse_reserved_artifact_id n ''.reclaiming-'' \<noteq> None) \<and>
     (\<forall>(p, t) \<in> set (ac_manifest_temps c).
        p \<in> entries_named entries (\<lambda>n. \<exists>ident. artifact_id_parse n = Ok ident \<and> t = ''.manifest-'' @ artifact_id_as_str ident @ ''.tmp''))"

lemma entries_named_snoc:
  "entries_named entries P \<subseteq> entries_named (entries @ [x]) P"
  "ae_name e = Some n \<Longrightarrow> P n \<Longrightarrow> ae_path e \<in> entries_named (entries @ [Ok e]) P"
  by (auto simp: entries_named_def)

lemma push_bounded_ok: "push_bounded family v vs = Ok vs' \<longleftrightarrow> length vs < MAX_RECOVERY_ENTRIES \<and> vs' = vs @ [v]"
  by (auto simp: push_bounded_def)

lemma sat_add_le_sum: "sat_add a b \<le> a + b"
  by (simp add: sat_add_def)

lemma wf_candidates_mono: "wf_candidates entries c \<Longrightarrow> wf_candidates (entries @ [x]) c"
  unfolding wf_candidates_def using entries_named_snoc(1) by fastforce

lemma wf_candidates_count:
  assumes "wf_candidates entries c"
  shows "n \<le> Suc (ac_active c) \<Longrightarrow> wf_candidates (entries @ [x]) (c\<lparr>ac_active := n\<rparr>)"
    and "n \<le> Suc (ac_unknown c) \<Longrightarrow> wf_candidates (entries @ [x]) (c\<lparr>ac_unknown := n\<rparr>)"
  using wf_candidates_mono [OF assms, of x] assms by (simp_all add: wf_candidates_def)

lemma wf_candidates_push:
  assumes "wf_candidates entries c" and "ae_name e = Some n"
  shows "parse_reserved_artifact_id n ''.creating-'' \<noteq> None \<Longrightarrow> length (ac_stale c) < MAX_RECOVERY_ENTRIES \<Longrightarrow>
      wf_candidates (entries @ [Ok e]) (c\<lparr>ac_stale := ac_stale c @ [ae_path e]\<rparr>)"
    and "parse_reserved_artifact_id n ''.reclaiming-'' \<noteq> None \<Longrightarrow> length (ac_reclaiming c) < MAX_RECOVERY_ENTRIES \<Longrightarrow>
      wf_candidates (entries @ [Ok e]) (c\<lparr>ac_reclaiming := ac_reclaiming c @ [ae_path e]\<rparr>)"
    and "artifact_id_parse n = Ok ident \<Longrightarrow> length (ac_manifest_temps c) < MAX_RECOVERY_ENTRIES \<Longrightarrow>
      wf_candidates (entries @ [Ok e]) (c\<lparr>ac_manifest_temps := ac_manifest_temps c @
        [(ae_path e, ''.manifest-'' @ artifact_id_as_str ident @ ''.tmp'')]\<rparr>)"
  using wf_candidates_mono [OF assms(1), of "Ok e"] assms(1) entries_named_snoc(2) [OF assms(2), of _ entries]
  by (auto simp: wf_candidates_def)

lemma classify_artifact_creation_wf:
  assumes "classify_artifact_creation uid e c = Ok c'" and "wf_candidates entries c"
    and "ae_name e = Some n" "parse_reserved_artifact_id n ''.creating-'' \<noteq> None"
  shows "wf_candidates (entries @ [Ok e]) c'"
proof -
  have "c' = c\<lparr>ac_active := sat_add (ac_active c) 1\<rparr> \<or>
      length (ac_stale c) < MAX_RECOVERY_ENTRIES \<and> c' = c\<lparr>ac_stale := ac_stale c @ [ae_path e]\<rparr>"
    using assms(1) by (auto simp: classify_artifact_creation_def rbind_eq_Inr push_bounded_ok split: if_splits)
  then show ?thesis
    using wf_candidates_count(1) [OF assms(2), of "sat_add (ac_active c) 1" "Ok e"] sat_add_le_sum [of "ac_active c" 1]
      wf_candidates_push(1) [OF assms(2-4)] by auto
qed

lemma inspect_manifest_temp_wf:
  assumes "inspect_manifest_temp uid e ident c = Ok c'" and "wf_candidates entries c"
    and "ae_name e = Some n" "artifact_id_parse n = Ok ident"
  shows "wf_candidates (entries @ [Ok e]) c'"
  using assms(1) wf_candidates_mono [OF assms(2)] wf_candidates_push(3) [OF assms(2-4)]
  by (auto simp: inspect_manifest_temp_def Let_def rbind_eq_Inr push_bounded_ok split: sys.splits)

lemma classify_artifact_entry_wf:
  assumes "classify_artifact_entry uid e c = Ok c'" and "wf_candidates entries c"
  shows "wf_candidates (entries @ [Ok e]) c'"
proof -
  have unknown: "wf_candidates (entries @ [Ok e]) (c\<lparr>ac_unknown := sat_add (ac_unknown c) 1\<rparr>)"
    using wf_candidates_count(2) [OF assms(2)] sat_add_le_sum [of "ac_unknown c" 1] by simp
  show ?thesis
  proof (cases "ae_name e")
    case None
    then show ?thesis using assms(1) unknown by (auto simp: classify_artifact_entry_def Let_def)
  next
    case (Some n)
    note push = classify_artifact_creation_wf [OF _ assms(2) Some] wf_candidates_push(2) [OF assms(2) Some]
      inspect_manifest_temp_wf [OF _ assms(2) Some]
    show ?thesis
      using assms(1) unknown push unfolding classify_artifact_entry_def Let_def Some option.case
      by (auto simp: rbind_eq_Inr push_bounded_ok split: if_splits sum.splits)
  qed
qed

lemma scan_artifacts_wf:
  "scan_artifacts uid entries examined c = Ok c' \<Longrightarrow> wf_candidates before c \<Longrightarrow> wf_candidates (before @ entries) c'"
proof (induction uid entries examined c arbitrary: before rule: scan_artifacts.induct)
  case (2 uid entry entries examined c)
  then obtain e n c1 where "entry = Ok e" "scan_observe examined = Ok n" "classify_artifact_entry uid e c = Ok c1"
    and "scan_artifacts uid entries n c1 = Ok c'" by (auto simp: rbind_eq_Inr)
  with 2 classify_artifact_entry_wf [of uid e c c1 before] show ?case by fastforce
qed simp

text \<open>
  C40: The result of an artifact scan is well formed. When the inspection of an artifact directory
  returns, each family of candidates has at most 1024 members, all of them observed entries whose
  name has the form of the family, a temporary manifest has the name of its own artifact, and no
  entry was counted in two families.
\<close>

theorem artifact_candidates_are_well_formed:
  assumes "artifact_candidates_of uid root (Ok entries) = Ok c"
  shows "wf_candidates entries c"
proof -
  have start: "wf_candidates [] no_candidates" "wf_candidates entries no_candidates"
    by (simp_all add: wf_candidates_def no_candidates_def)
  then show ?thesis
    using assms scan_artifacts_wf [OF _ start(1)]
    by (auto simp: artifact_candidates_of_def rbind_eq_Inr split: sys.splits)
qed

theorem artifact_candidates_are_well_formed_witness:
  "wf_candidates [Ok \<lparr>ae_name = Some ''notes'', ae_path = 0, ae_stat = SysFail, ae_lock = SysFail, ae_acquire = Ok True, ae_temporary = SysFail\<rparr>]
     (no_candidates\<lparr>ac_unknown := 1\<rparr>)"
proof (rule artifact_candidates_are_well_formed [of 0 "SysOk (dir_stat 5)"])
  show "artifact_candidates_of 0 (SysOk (dir_stat 5))
     (Ok [Ok \<lparr>ae_name = Some ''notes'', ae_path = 0, ae_stat = SysFail, ae_lock = SysFail, ae_acquire = Ok True, ae_temporary = SysFail\<rparr>]) =
     Ok (no_candidates\<lparr>ac_unknown := 1\<rparr>)"
    using rb_dir_valid
    by (simp add: artifact_candidates_of_def classify_artifact_entry_def parse_reserved_artifact_id_def strip_prefix_def starts_with_def
        artifact_id_parse_def hex_id_grammar_def scan_observe_def sat_add_def u64_max_num MAX_DIRECTORY_SCAN_ENTRIES_def no_candidates_def Let_def)
qed

end
