(* ===== verification/Recovery_Completion.thy ===== *)
theory Recovery_Completion
  imports Recovery_Properties
begin

text \<open>
  An undisturbed recovery run of a store without interrupted transactions returns and removes
  every abandoned creation; after an interrupted creation the store is as it was.
\<close>

subsection \<open>Scans that find nothing\<close>

lemma runs_idle_scan:
  assumes q: "quiet_store host d" and body: "\<And>x. dk_spaces d x \<noteq> None \<Longrightarrow> body x s = ret s" and Q: "Q s d"
  shows "runs (scan_directory host action body s) Q d"
proof -
  have "runs (scan_directory host action body s) ((\<lambda>xs s' d'. d' = d \<and> s' = s \<and> set xs \<subseteq> dom (dk_spaces d)) []) d"
    by (rule runs_scan_directory [OF _ quiet_listing(2) [OF q]]) (use quiet_listing(1) [OF q] body in \<open>auto intro!: runs_ret\<close>)
  then show ?thesis by (rule runs_conseq) (use Q in auto)
qed

lemma runs_collect:
  assumes q: "quiet_store host d"
    and no: "\<And>x xs. dk_spaces d x \<noteq> None \<Longrightarrow> \<not> P x \<Longrightarrow> body x xs = ret xs"
    and yes: "\<And>x xs Q. dk_spaces d x \<noteq> None \<Longrightarrow> P x \<Longrightarrow> length xs < n \<Longrightarrow> Q (xs @ [x]) d \<Longrightarrow> runs (body x xs) Q d"
    and n: "length (filter P (h_order host (dk_spaces d))) \<le> n"
    and Q: "Q (filter P (h_order host (dk_spaces d))) d"
  shows "runs (scan_directory host action body []) Q d"
proof -
  let ?I = "\<lambda>xs found d'. d' = d \<and> found @ filter P xs = filter P (h_order host (dk_spaces d)) \<and> set xs \<subseteq> dom (dk_spaces d)"
  have "runs (scan_directory host action body []) (?I []) d"
  proof (rule runs_scan_directory [OF _ quiet_listing(2) [OF q]])
    fix x xs found d'
    assume I: "?I (x # xs) found d'"
    show "runs (body x found) (?I xs) d'"
    proof (cases "P x")
      case True
      with I have "length (found @ [x]) \<le> length (filter P (h_order host (dk_spaces d)))"
        by (metis (no_types, lifting) append.assoc append_Cons append_Nil filter.simps(2) length_append le_add1)
      with n have "length found < n" by simp
      then show ?thesis using True I by (auto intro!: yes)
    qed (use I no in \<open>auto intro!: runs_ret\<close>)
  qed (use quiet_listing(1) [OF q] in auto)
  then show ?thesis by (rule runs_conseq) (use Q in auto)
qed

subsection \<open>A store with abandoned creations only\<close>

definition plain_name :: "string \<Rightarrow> bool" where
  "plain_name x \<longleftrightarrow>
     temporary_id_from_name x = None \<and> staging_id_from_name x = None \<and> parse_id (strip_prefix x ''.rolled-back-'') = None \<and>
     \<not> parse_wrapped_space_id x ''.freeze-'' ''.tmp''"

abbreviation creating :: "string \<Rightarrow> bool" where "creating x \<equiv> has_prefix x CREATING_PREFIX"

definition resting_store :: "store_host \<Rightarrow> recovery_inputs \<Rightarrow> disk \<Rightarrow> bool" where
  "resting_store host inp d \<longleftrightarrow>
     quiet_store host d \<and> (\<forall>x. dk_spaces d x \<noteq> None \<longrightarrow> plain_name x) \<and>
     (\<forall>x e. dk_spaces d x = Some e \<longrightarrow> creating x \<longrightarrow> (\<exists>n. e = DirNode n \<and> private_dir_node (h_uid host) n) \<and> rc_lock inp x = Ok True) \<and>
     card {x. dk_spaces d x \<noteq> None \<and> creating x} \<le> MAX_RECOVERY_ENTRIES \<and>
     length (dk_trash d) \<le> MAX_RECOVERY_ENTRIES \<and> list_all (\<lambda>(_, e). private_dir_stat (h_uid host) (node_stat e)) (dk_trash d)"

definition willing_inputs :: "store_host \<Rightarrow> recovery_inputs \<Rightarrow> (artifact_kind \<Rightarrow> artifact_root) \<Rightarrow> bool" where
  "willing_inputs host inp roots \<longleftrightarrow>
     rc_layout inp = Ok () \<and> rc_management inp = Ok () \<and> rc_unleased inp = Ok [] \<and> rc_runtimes inp = Ok () \<and>
     rc_artifact_retirement inp = Ok () \<and> is_ok (inspect_artifact_state (h_uid host) roots)"

lemma resting_quiet: "resting_store host inp d \<Longrightarrow> quiet_store host d"
  by (simp add: resting_store_def)

lemma resting_same:
  "resting_store host inp d \<Longrightarrow> dk_spaces d' = dk_spaces d \<Longrightarrow> dk_trash d' = dk_trash d \<Longrightarrow> resting_store host inp d'"
  by (simp add: resting_store_def quiet_store_def)

lemma runs_matching_creations:
  assumes r: "resting_store host inp d" and Q: "\<And>paths. set paths = {x. dk_spaces d x \<noteq> None \<and> creating x} \<Longrightarrow> Q paths d"
  shows "runs (matching_entries host [CREATING_PREFIX]) Q d"
proof -
  let ?l = "filter creating (h_order host (dk_spaces d))"
  note q = resting_quiet [OF r]
  have l: "set ?l = {x. dk_spaces d x \<noteq> None \<and> creating x}" using quiet_listing(1) [OF q] by auto
  have "distinct ?l" using q by (auto simp: quiet_store_def enumerates_def)
  then have "length ?l = card {x. dk_spaces d x \<noteq> None \<and> creating x}" using l by (metis distinct_card)
  then have len: "length ?l \<le> MAX_RECOVERY_ENTRIES" using r by (simp add: resting_store_def)
  show ?thesis
    unfolding matching_entries_def
    by (rule runs_collect [OF q, where P = creating and n = MAX_RECOVERY_ENTRIES])
      (use len Q [OF l] in \<open>auto intro!: runs_lift simp: push_bounded_def\<close>)
qed

lemma runs_classify_creation:
  assumes e: "dk_spaces d x = Some (DirNode n)" "private_dir_node (h_uid host) n" "rc_lock inp x = Ok True"
    and Q: "Q (fst st @ [x], snd st) d"
  shows "runs (classify_creation host inp x st) Q d"
proof -
  have lock: "open_private_lock (h_uid host) (SysOk m, SysOk m) = Ok ()" if "dn_files n CREATION_LOCK_FILE = Some (m, b)" for m b
    using e(2) that by (auto simp: private_dir_node_def private_or_absent_def open_private_lock_def rbind_eq_Inr validate_private_file_ok)
  have opened: "runs (attempt (open_creation_lock host x)) Q' d"
    if "dn_files n CREATION_LOCK_FILE = Some (m, b)" and "Q' (Inr ()) d" for m b Q'
    unfolding open_creation_lock_def
    by (intro runs_attempt runs_bind [of "read_entry _ _"] runs_read_entry runs_lift)
      (use e(1) that lock [OF that(1)] in \<open>auto simp: creation_lock_stat_def inner_stat_def\<close>)
  obtain stale active where st: "st = (stale, active)" by (cases st)
  show ?thesis
  proof (cases "dn_files n CREATION_LOCK_FILE")
    case None
    then show ?thesis
      unfolding classify_creation_def st prod.case
      using e Q st by (auto simp: validate_private_dir_ok private_dir_node_def creation_lock_stat_def inner_stat_def
        intro!: runs_bind [of "lift _"] runs_lift runs_bind [of "read_entry _ _"] runs_read_entry runs_ret)
  next
    case (Some v)
    then obtain m b where v: "dn_files n CREATION_LOCK_FILE = Some (m, b)" by (cases v) auto
    then show ?thesis
      unfolding classify_creation_def st prod.case
      using e Q st by (auto simp: validate_private_dir_ok private_dir_node_def creation_lock_stat_def inner_stat_def
        intro!: runs_bind [of "lift _"] runs_lift runs_bind [of "read_entry _ _"] runs_read_entry runs_ret runs_bind [of "attempt _"]
          opened [OF v])
  qed
qed

lemma resting_creation:
  assumes "resting_store host inp d" and "dk_spaces d x \<noteq> None" and "creating x"
  obtains n where "dk_spaces d x = Some (DirNode n)" "private_dir_node (h_uid host) n" "rc_lock inp x = Ok True"
proof -
  obtain e where e: "dk_spaces d x = Some e" using assms(2) by blast
  have "\<forall>x e. dk_spaces d x = Some e \<longrightarrow> creating x \<longrightarrow> (\<exists>n. e = DirNode n \<and> private_dir_node (h_uid host) n) \<and> rc_lock inp x = Ok True"
    using assms(1) by (simp add: resting_store_def)
  then have "(\<exists>n. e = DirNode n \<and> private_dir_node (h_uid host) n) \<and> rc_lock inp x = Ok True" using e assms(3) by simp
  then show ?thesis using e that by auto
qed

lemma runs_classify_creations:
  assumes r: "resting_store host inp d" and Q: "\<And>paths. set paths = {x. dk_spaces d x \<noteq> None \<and> creating x} \<Longrightarrow> Q (paths, 0) d"
  shows "runs (classify_creations host inp) Q d"
proof -
  have "runs (iterate (classify_creation host inp) paths ([], 0)) Q d" if p: "set paths = {x. dk_spaces d x \<noteq> None \<and> creating x}" for paths
  proof -
    let ?I = "\<lambda>xs st d'. d' = d \<and> fst st @ xs = paths \<and> snd st = 0"
    have "runs (iterate (classify_creation host inp) paths ([], 0)) (?I []) d"
    proof (rule runs_iterate [where I = ?I])
      fix x xs d' and st :: "string list \<times> nat"
      assume I: "?I (x # xs) st d'"
      then have "x \<in> set paths" by (metis in_set_conv_decomp)
      then have "dk_spaces d x \<noteq> None" "creating x" using p by auto
      then obtain n where "dk_spaces d x = Some (DirNode n)" "private_dir_node (h_uid host) n" "rc_lock inp x = Ok True"
        by (rule resting_creation [OF r])
      then show "runs (classify_creation host inp x st) (?I xs) d'" using I by (auto intro!: runs_classify_creation)
    qed simp
    then show ?thesis by (rule runs_conseq) (use Q [OF p] in auto)
  qed
  then show ?thesis
    unfolding classify_creations_def by (intro runs_bind [of "matching_entries _ _"] runs_matching_creations [OF r])
qed

lemma runs_matching_trash:
  assumes "length (dk_trash d) \<le> MAX_RECOVERY_ENTRIES" and "\<And>ts. set ts \<subseteq> fst ` set (dk_trash d) \<Longrightarrow> Q ts d"
  shows "runs (matching_trash family wanted) Q d"
proof -
  obtain l where l: "l = map fst (dk_trash d)" by blast
  let ?l = l
  let ?I = "\<lambda>xs st d'. d' = d \<and> fst st + length xs \<le> MAX_RECOVERY_ENTRIES \<and> length (snd st) \<le> fst st \<and>
     set (snd st) \<subseteq> set ?l \<and> set xs \<subseteq> set ?l"
  have "runs (iterate (scan_entry ''read recovery entry'' (\<lambda>ticket matches.
        if family ticket \<noteq> wanted then ret matches
        else lift (push_bounded ''reserved recovery entries'' ticket matches))) ?l (0, [])) (?I []) d"
  proof (rule runs_iterate [where I = ?I])
    fix x xs and st :: "nat \<times> nat list" and d'
    assume I: "?I (x # xs) st d'"
    then have obs: "scan_observe (fst st) = Ok (Suc (fst st))"
      by (simp add: scan_observe_def sat_add_exact u64_max_num MAX_DIRECTORY_SCAN_ENTRIES_def MAX_RECOVERY_ENTRIES_def)
    show "runs (scan_entry ''read recovery entry'' (\<lambda>ticket matches.
        if family ticket \<noteq> wanted then ret matches
        else lift (push_bounded ''reserved recovery entries'' ticket matches)) x st) (?I xs) d'"
      unfolding scan_entry_def
      using I by (auto intro!: runs_bind [of "next_entry _"] runs_next_entry runs_bind [of "lift _"] runs_lift [OF obs] runs_bind [of "ret _"]
          runs_lift runs_ret simp: push_bounded_def)
  qed (use assms(1) l in simp)
  then have "runs (iterate (scan_entry ''read recovery entry'' (\<lambda>ticket matches.
        if family ticket \<noteq> wanted then ret matches
        else lift (push_bounded ''reserved recovery entries'' ticket matches))) ?l (0, [])) (\<lambda>st. runs (ret (snd st)) Q) d"
    by (rule runs_conseq) (use assms(2) l in \<open>auto intro!: runs_ret\<close>)
  then show ?thesis
    unfolding matching_trash_def
    by (intro runs_bind [of "syscall _ _ _"] runs_syscall [OF refl] runs_bind [of "iterate _ _ _"]) (simp add: l)
qed

lemma runs_retire_creation:
  assumes "\<And>ts' d'. dk_spaces d' = (dk_spaces d)(x := None) \<Longrightarrow> Q ts' d'"
  shows "runs (retire_creation x ts) Q d"
  unfolding retire_creation_def unique_suffix_def
  by (cases "dk_spaces d x") (auto intro!: runs_bind runs_syscall runs_ret assms)

lemma runs_retire_trash:
  assumes "\<And>ts' d'. dk_spaces d' = dk_spaces d \<Longrightarrow> Q ts' d'"
  shows "runs (retire_trash x ts) Q d"
  unfolding retire_trash_def unique_suffix_def
  by (cases "trash_entry d x") (auto intro!: runs_bind runs_syscall runs_ret assms)

lemma runs_retire_creations:
  assumes Q: "\<And>ts d'. (\<forall>x. dk_spaces d' x = (if x \<in> set paths then None else dk_spaces d x)) \<Longrightarrow> Q ts d'"
  shows "runs (iterate retire_creation paths reclaiming) Q d"
proof -
  let ?I = "\<lambda>xs (ts :: nat list) d'. set xs \<subseteq> set paths \<and> (\<forall>x. x \<notin> set paths \<longrightarrow> dk_spaces d' x = dk_spaces d x) \<and>
     (\<forall>x\<in>set paths. x \<notin> set xs \<longrightarrow> dk_spaces d' x = None)"
  have "runs (iterate retire_creation paths reclaiming) (?I []) d"
  proof (rule runs_iterate [where I = ?I])
    fix x xs and d' :: disk and ts :: "nat list"
    assume "?I (x # xs) ts d'"
    then show "runs (retire_creation x ts) (?I xs) d'"
      by (intro runs_retire_creation) auto
  qed auto
  then show ?thesis by (rule runs_conseq) (auto intro!: Q)
qed

lemma runs_retire_trashes:
  assumes Q: "\<And>ts d'. dk_spaces d' = dk_spaces d \<Longrightarrow> Q ts d'"
  shows "runs (iterate retire_trash tickets reclaiming) Q d"
proof -
  let ?I = "\<lambda>(xs :: nat list) (ts :: nat list) d'. dk_spaces d' = dk_spaces d"
  have "runs (iterate retire_trash tickets reclaiming) (?I []) d"
  proof (rule runs_iterate [where I = ?I])
    fix x xs and d' :: disk and ts :: "nat list"
    assume "?I (x # xs) ts d'"
    then show "runs (retire_trash x ts) (?I xs) d'"
      by (intro runs_retire_trash) auto
  qed auto
  then show ?thesis by (rule runs_conseq) (auto intro!: Q)
qed

lemma runs_validate_entries:
  assumes "list_all (\<lambda>(_, e). private_dir_stat (h_uid host) (node_stat e)) (dk_trash d)" and Q: "Q () d"
  shows "runs (iterate (\<lambda>path _. validate_recovery_entry host path) tickets ()) Q d"
proof -
  have "runs (iterate (\<lambda>path _. validate_recovery_entry host path) tickets ()) ((\<lambda>_ _ d'. d' = d) []) d"
  proof (rule runs_iterate)
    fix x and u :: unit and d'
    assume "d' = d"
    then show "runs (validate_recovery_entry host x) (\<lambda>_ d'. d' = d) d'"
      unfolding validate_recovery_entry_def read_trash_def
      by (intro runs_bind runs_syscall [OF refl])
        (use assms(1) in \<open>auto intro!: runs_ret runs_lift simp: trash_entry_def validate_private_dir_ok list_all_iff
           dest!: map_of_SomeD split: option.splits\<close>)
  qed simp
  then show ?thesis by (rule runs_conseq) (use Q in auto)
qed

lemma runs_count_unknown:
  assumes q: "quiet_store host d" and plain: "\<And>x. dk_spaces d x \<noteq> None \<Longrightarrow> plain_name x" and Q: "\<And>n. Q n d"
  shows "runs (count_unknown_space_entries host) Q d"
proof -
  have known: "\<exists>b. is_known_space_hidden_entry host x = ret b" if "dk_spaces d x \<noteq> None" for x
    using plain [OF that] by (auto simp: is_known_space_hidden_entry_def plain_name_def rollback_retired_entry_is_actionable_def)
  have "runs (count_unknown_space_entries host) ((\<lambda>xs _ d'. d' = d \<and> set xs \<subseteq> dom (dk_spaces d)) []) d"
    unfolding count_unknown_space_entries_def
  proof (rule runs_scan_directory [OF _ quiet_listing(2) [OF q]])
    fix x xs n d'
    assume I: "d' = d \<and> set (x # xs) \<subseteq> dom (dk_spaces d)"
    then obtain b where b: "is_known_space_hidden_entry host x = ret b" using known [of x] by auto
    show "runs (if \<not> has_prefix x ''.'' then ret n
       else bind_io (is_known_space_hidden_entry host x) (\<lambda>known. ret (if known then n else sat_add n 1)))
       (\<lambda>_ d'. d' = d \<and> set xs \<subseteq> dom (dk_spaces d)) d'"
      unfolding b using I by (auto intro!: runs_bind runs_ret)
  qed (use quiet_listing(1) [OF q] in auto)
  then show ?thesis by (rule runs_conseq) (use Q in auto)
qed

lemma quiet_shrinks:
  assumes "quiet_store host d" and "\<And>x. dk_spaces d' x \<noteq> None \<Longrightarrow> dk_spaces d x \<noteq> None"
  shows "quiet_store host d'"
proof -
  have sub: "dom (dk_spaces d') \<subseteq> dom (dk_spaces d)" using assms(2) by auto
  have fin: "finite (dom (dk_spaces d))" using assms(1) by (simp add: quiet_store_def)
  have "card (dom (dk_spaces d')) \<le> card (dom (dk_spaces d))" by (rule card_mono [OF fin sub])
  then show ?thesis
    using assms finite_subset [OF sub fin] unfolding quiet_store_def by (meson order_trans)
qed

abbreviation without_creations :: "disk \<Rightarrow> disk \<Rightarrow> bool" where
  "without_creations d d' \<equiv> \<forall>x. dk_spaces d' x = (if creating x then None else dk_spaces d x)"

lemma runs_prepare_recovery:
  assumes r: "resting_store host inp d" and i: "rc_layout inp = Ok ()" "rc_unleased inp = Ok []"
    and Q: "\<And>s d'. without_creations d d' \<Longrightarrow> Q s d'"
  shows "runs (prepare_recovery host inp) Q d"
proof -
  note q = resting_quiet [OF r]
  have trash: "length (dk_trash d) \<le> MAX_RECOVERY_ENTRIES" "list_all (\<lambda>(_, e). private_dir_stat (h_uid host) (node_stat e)) (dk_trash d)"
    using r by (simp_all add: resting_store_def)
  have tail: "runs (bind_io sync_directory (\<lambda>_. bind_io sync_directory (\<lambda>_. bind_io (count_unknown_space_entries host) (\<lambda>u. ret (f u))))) Q d'"
    if w: "without_creations d d'" for d' f
  proof -
    have sub: "dk_spaces d x \<noteq> None" if "dk_spaces d' x \<noteq> None" for x using that w by (auto split: if_splits)
    have plain: "plain_name x" if "dk_spaces d' x \<noteq> None" for x using r sub [OF that] by (auto simp: resting_store_def)
    show ?thesis
      by (intro runs_bind [of sync_directory] runs_sync_directory runs_bind [of "count_unknown_space_entries _"]
          runs_count_unknown [OF quiet_shrinks [OF q sub] plain] runs_ret Q [OF w])
  qed
  have gone: "without_creations d d2" if "set paths = {x. dk_spaces d x \<noteq> None \<and> creating x}"
      "\<forall>x. dk_spaces d1 x = (if x \<in> set paths then None else dk_spaces d x)" "dk_spaces d2 = dk_spaces d1" for paths d1 d2
    using that by auto
  show ?thesis
    unfolding prepare_recovery_def Let_def
    by (intro runs_bind [of "lift _"] runs_lift [OF i(1)] runs_bind [of "classify_creations _ _"] runs_classify_creations [OF r],
        unfold prod.case,
        intro runs_bind [of "matching_trash _ _"] runs_matching_trash [OF trash(1)] runs_bind [of "lift _"] runs_lift [OF i(2)]
          runs_bind [of "iterate _ _ ()"] runs_validate_entries [OF trash(2)] runs_bind [of "iterate retire_creation _ _"] runs_retire_creations
          runs_bind [of "iterate retire_trash _ _"] runs_retire_trashes tail)
      (rule gone)
qed

lemma runs_reclaim_stale_state:
  assumes r: "resting_store host inp d" and i: "willing_inputs host inp roots"
    and Q: "\<And>s d'. without_creations d d' \<Longrightarrow> Q s d'"
  shows "runs (reclaim_stale_state host inp artifacts) Q d"
proof -
  note q = resting_quiet [OF r]
  have i': "rc_layout inp = Ok ()" "rc_management inp = Ok ()" "rc_unleased inp = Ok []" "rc_runtimes inp = Ok ()"
    "rc_artifact_retirement inp = Ok ()" using i by (simp_all add: willing_inputs_def)
  have none: "runs (remove_freeze_marker_temporaries host) Q' d'" if w: "without_creations d d'" and "Q' 0 d'" for Q' d'
  proof -
    have sub: "dk_spaces d x \<noteq> None" if "dk_spaces d' x \<noteq> None" for x using that w by (auto split: if_splits)
    have plain: "\<not> parse_wrapped_space_id x ''.freeze-'' ''.tmp''" if "dk_spaces d' x \<noteq> None" for x
      using r sub [OF that] by (auto simp: resting_store_def plain_name_def)
    show ?thesis
      unfolding remove_freeze_marker_temporaries_def freeze_marker_temporaries_def
      by (intro runs_bind [of "scan_directory _ _ _ _"] runs_idle_scan [OF quiet_shrinks [OF q sub]])
        (use plain that(2) in \<open>auto intro!: runs_bind runs_ret\<close>)
  qed
  have delete: "runs (iterate note_failure tickets None) Q' d'" if "\<And>d''. dk_spaces d'' = dk_spaces d' \<Longrightarrow> Q' None d''" for tickets Q' d'
  proof -
    let ?I = "\<lambda>(xs :: nat list) f d''. f = None \<and> dk_spaces d'' = dk_spaces d'"
    have "runs (iterate note_failure tickets None) (?I []) d'"
    proof (rule runs_iterate [where I = ?I])
      fix x xs and d'' :: disk and f :: "quarters_error option"
      assume "?I (x # xs) f d''"
      then show "runs (note_failure x f) (?I xs) d''"
        unfolding note_failure_def by (auto intro!: runs_bind runs_attempt runs_remove_tree runs_ret)
    qed simp
    then show ?thesis by (rule runs_conseq) (auto intro: that)
  qed
  have finish: "runs (bind_io (remove_freeze_marker_temporaries host) (\<lambda>temps.
       bind_io (lift (rc_artifact_retirement inp)) (\<lambda>_.
       bind_io (iterate note_failure tickets None) (\<lambda>failure.
       bind_io (attempt sync_directory) (\<lambda>sync_result.
       case failure of Some error \<Rightarrow> fail error | None \<Rightarrow>
         bind_io (lift sync_result) (\<lambda>_. bind_io (lift (rc_runtimes inp)) (\<lambda>_. ret (v temps)))))))) Q d'"
    if w: "without_creations d d'" for tickets d' v
    by (intro runs_bind [of "remove_freeze_marker_temporaries _"] none [OF w] runs_bind [of "lift _"] runs_lift [OF i'(5)]
        runs_bind [of "iterate note_failure _ _"] delete runs_bind [of "attempt _"] runs_attempt runs_sync_directory)
      (use w in \<open>auto intro!: runs_bind [of "lift _"] runs_lift [OF i'(4)] runs_lift runs_ret Q\<close>)
  show ?thesis
    unfolding reclaim_stale_state_def
    by (intro runs_bind [of "lift _"] runs_lift [OF i'(2)] runs_bind [of "prepare_recovery _ _"] runs_prepare_recovery [OF r i'(1,3)])
      (auto intro: finish split: prod.splits)
qed

subsection \<open>Transactions that are not there\<close>

lemma runs_no_renames:
  assumes r: "resting_store host inp d" and Q: "\<And>rec d'. dk_spaces d' = dk_spaces d \<Longrightarrow> dk_trash d' = dk_trash d \<Longrightarrow> Q rec d'"
  shows "runs (recover_renames host) Q d"
proof -
  note q = resting_quiet [OF r]
  have none: "\<not> rename_marker_at host d x m" for x m
    using marker_at_present [of host d x m] q by (auto simp: quiet_store_def rename_marker_at_def)
  have "runs (recover_renames host) (\<lambda>rec d'. rename_store host [] d d' \<and> rr_issues rec = 0 \<and> (\<forall>t\<in>set []. rename_done host t d')) d"
    by (rule runs_recover_renames)
      (use q none in \<open>auto simp: rename_family_def no_foreign_rename_def quiet_store_def bounded_renames_def
        renaming_names_def rename_store_def elsewhere_def MAX_RENAMES_def\<close>)
  then show ?thesis
    by (rule runs_conseq) (auto simp: rename_store_def renaming_names_def elsewhere_def intro!: Q)
qed

lemma runs_empty_inventory:
  assumes "quiet_store host d" and "Q \<lparr>inv_plans = [], inv_issues = []\<rparr> d"
  shows "runs (load_recovery_inventory host None) Q d"
  unfolding load_recovery_inventory_def
  by (intro runs_bind [of "scan_directory _ _ _ _"] runs_idle_scan [OF assms(1)])
    (use assms in \<open>auto simp: inventory_entry_def quiet_store_def reject_duplicate_targets_def Let_def intro!: runs_ret\<close>)

lemma runs_no_rollbacks:
  assumes r: "resting_store host inp d" and Q: "Q [] d"
  shows "runs (recover_rollbacks host held) Q d"
proof -
  note q = resting_quiet [OF r]
  have plain: "temporary_id_from_name x = None" "staging_id_from_name x = None" if "dk_spaces d x \<noteq> None" for x
    using r that by (auto simp: resting_store_def plain_name_def)
  have temporaries: "runs (reclaim_marker_temporaries host) Q' d" if "Q' () d" for Q'
    unfolding reclaim_marker_temporaries_def
    by (intro runs_bind [of "scan_directory _ _ _ _"] runs_idle_scan [OF q])
      (use plain that in \<open>auto simp: reclaim_temporary_entry_def intro!: runs_ret\<close>)
  have staging: "runs (reclaim_orphan_staging host held []) Q' d" if "Q' [] d" for Q'
    unfolding reclaim_orphan_staging_def
    by (intro runs_bind [of "scan_directory _ _ _ _"] runs_idle_scan [OF q])
      (use plain that in \<open>auto simp: orphan_staging_entry_def intro!: runs_ret\<close>)
  show ?thesis
    unfolding recover_rollbacks_def
    by (intro runs_bind [of "reclaim_marker_temporaries _"] temporaries runs_bind [of "load_recovery_inventory _ _"] runs_empty_inventory [OF q])
      (simp add: recover_plans_def, intro runs_bind [of "ret _"] runs_ret,
       auto intro!: runs_bind [of "reclaim_orphan_staging _ _ _"] staging runs_bind [of sync_directory] runs_sync_directory runs_ret
         runs_bind [of "ret _"] Q)
qed

lemma runs_recover:
  assumes r: "resting_store host inp d" and i: "willing_inputs host inp roots"
    and Q: "\<And>s d'. without_creations d d' \<Longrightarrow> Q s d'"
  shows "runs (recover host inp roots) Q d"
proof -
  obtain artifacts where a: "inspect_artifact_state (h_uid host) roots = Ok artifacts"
    using i by (auto simp: willing_inputs_def is_ok_iff)
  have i': "rc_layout inp = Ok ()" using i by (simp add: willing_inputs_def)
  have issues: "runs (rename_recovery_issue_count host) Q' d'" if "resting_store host inp d'" "\<And>n. Q' n d'" for Q' d'
    unfolding rename_recovery_issue_count_def rename_scan_def
    by (intro runs_bind [of "scan_directory _ _ _ _"] runs_idle_scan [OF resting_quiet [OF that(1)]])
      (use that resting_quiet [OF that(1)] in \<open>auto simp: rename_scan_entry_def read_rename_marker_def quiet_store_def bind_io_def ret_def
         intro!: runs_ret\<close>)
  have rest: "runs (bind_io (rename_recovery_issue_count host) (\<lambda>remaining_issues.
     bind_io (recover_rollbacks host (rc_staging_held inp)) (\<lambda>rollbacks.
     bind_io (rollback_issues_for_recovery host) (\<lambda>rollback_issues.
     bind_io (lift (inspect_artifact_state (h_uid host) roots)) (\<lambda>artifacts.
     bind_io (reclaim_stale_state host inp artifacts) (\<lambda>summary.
     ret (f remaining_issues rollbacks rollback_issues summary))))))) Q d'"
    if same: "dk_spaces d' = dk_spaces d" "dk_trash d' = dk_trash d" for f d'
  proof -
    note r' = resting_same [OF r same]
    show ?thesis
      unfolding rollback_issues_for_recovery_def
      by (intro runs_bind [of "rename_recovery_issue_count _"] issues [OF r'] runs_bind [of "recover_rollbacks _ _"] runs_no_rollbacks [OF r']
          runs_bind [of "bind_io _ _"] runs_bind [of "load_recovery_inventory _ _"] runs_empty_inventory [OF resting_quiet [OF r']]
          runs_ret runs_bind [of "lift _"] runs_lift [OF a] runs_bind [of "reclaim_stale_state _ _ _"] runs_reclaim_stale_state [OF r' i] Q)
        (simp add: same)
  qed
  show ?thesis
    unfolding recover_def Let_def
    by (intro runs_bind [of "lift _"] runs_lift [OF i'] runs_bind [of "recover_renames _"] runs_no_renames [OF r] rest)
qed

subsection \<open>After an interrupted creation\<close>

definition recovery_ready ::
  "store_host \<Rightarrow> recovery_inputs \<Rightarrow> (artifact_kind \<Rightarrow> artifact_root) \<Rightarrow> space_name \<Rightarrow> disk \<Rightarrow> bool" where
  "recovery_ready host inp roots name d \<longleftrightarrow>
     resting_store host inp d \<and> (\<forall>x. dk_spaces d x \<noteq> None \<longrightarrow> \<not> creating x) \<and>
     card (dom (dk_spaces d)) < MAX_DIRECTORY_SCAN_ENTRIES \<and>
     (\<forall>suffix. rc_lock inp (creating_name name suffix) = Ok True) \<and> willing_inputs host inp roots"

lemma creating_plain: "plain_name (creating_name name suffix)" "creating (creating_name name suffix)"
  by (simp_all add: plain_name_def creating_name_def temporary_id_from_name_def staging_id_from_name_def strip_prefix_def
      parse_wrapped_space_id_def parse_id_def has_prefix_def CREATING_PREFIX_def starts_with_iff)

lemma portable_plain:
  assumes "portable_name_grammar x" shows "plain_name x" "\<not> creating x"
proof -
  have "\<not> portable_name_grammar (CHR ''.'' # r)" "\<not> portable_name_grammar []" for r
    by (simp_all add: portable_name_grammar_def ascii_defs)
  with assms obtain c r where x: "x = c # r" and c: "c \<noteq> CHR ''.''" by (metis list.exhaust)
  show "plain_name x" "\<not> creating x"
    unfolding x using c
    by (simp_all add: plain_name_def temporary_id_from_name_def staging_id_from_name_def strip_prefix_def
        parse_wrapped_space_id_def parse_id_def has_prefix_def CREATING_PREFIX_def starts_with_iff)
qed

lemma resting_insert:
  assumes ready: "recovery_ready host inp roots name d" and d': "dk_spaces d' = (dk_spaces d)(x := e)" "dk_trash d' = dk_trash d"
    and x: "plain_name x" "marker_id_from_name x = None" "parse_rename_marker_name x = None"
    and e: "creating x \<Longrightarrow> e = None \<or> (\<exists>n. e = Some (DirNode n) \<and> private_dir_node (h_uid host) n) \<and> rc_lock inp x = Ok True"
  shows "resting_store host inp d'"
proof -
  have r: "resting_store host inp d" and room: "card (dom (dk_spaces d)) < MAX_DIRECTORY_SCAN_ENTRIES"
    using ready by (auto simp: recovery_ready_def)
  have nc: "\<not> creating y" if "dk_spaces d y \<noteq> None" for y
    using ready that by (simp add: recovery_ready_def)
  have q: "quiet_store host d" by (rule resting_quiet [OF r])
  have dom: "dom (dk_spaces d') \<subseteq> insert x (dom (dk_spaces d))" using d'(1) by (auto split: if_splits)
  have fin: "finite (dom (dk_spaces d))" using q by (simp add: quiet_store_def)
  have "card (dom (dk_spaces d')) \<le> Suc (card (dom (dk_spaces d)))"
    using card_mono [OF _ dom] fin by (simp add: card_insert_if split: if_splits)
  then have "quiet_store host d'"
    using q room x(2,3) d'(1) finite_subset [OF dom] fin by (auto simp: quiet_store_def split: if_splits)
  moreover have "{y. dk_spaces d' y \<noteq> None \<and> creating y} \<subseteq> {x}" using nc d'(1) by (auto split: if_splits)
  then have "card {y. dk_spaces d' y \<noteq> None \<and> creating y} \<le> 1" using card_mono [of "{x}"] by simp
  then have "card {y. dk_spaces d' y \<noteq> None \<and> creating y} \<le> MAX_RECOVERY_ENTRIES" by (simp add: MAX_RECOVERY_ENTRIES_def)
  moreover have "plain_name y" if "dk_spaces d' y \<noteq> None" for y
    using that r d'(1) x(1) by (auto simp: resting_store_def split: if_splits)
  moreover have "(\<exists>n. u = DirNode n \<and> private_dir_node (h_uid host) n) \<and> rc_lock inp y = Ok True"
    if "dk_spaces d' y = Some u" "creating y" for y u
    using that d'(1) e nc [of y] by (auto split: if_splits)
  ultimately show ?thesis
    using r d'(2) by (auto simp: resting_store_def)
qed

lemma resting_after_creation:
  assumes name: "portable_name_grammar (space_name_as_str name)" and ready: "recovery_ready host inp roots name d"
    and d': "creation_abandoned host (creating_name name suffix) d d' \<or>
      (\<exists>n. dk_spaces d' = (dk_spaces d)(space_name_as_str name \<mapsto> DirNode n) \<and> dk_trash d' = dk_trash d)"
  shows "resting_store host inp d'"
  using d'
proof (elim disjE exE conjE)
  assume "creation_abandoned host (creating_name name suffix) d d'"
  then obtain e where e: "dk_spaces d' = (dk_spaces d)(creating_name name suffix := e)" "dk_trash d' = dk_trash d"
    and priv: "e = None \<or> (\<exists>n. e = Some (DirNode n) \<and> private_dir_node (h_uid host) n)"
    by (auto simp: creation_abandoned_def)
  show ?thesis
    by (rule resting_insert [OF ready e creating_plain(1) creating_not_control]) (use priv ready in \<open>auto simp: recovery_ready_def\<close>)
next
  fix n
  assume "dk_spaces d' = (dk_spaces d)(space_name_as_str name \<mapsto> DirNode n)" "dk_trash d' = dk_trash d"
  from resting_insert [OF ready this portable_plain(1) [OF name] portable_not_control [OF name]] portable_plain(2) [OF name]
  show ?thesis by simp
qed

text \<open>
  C18: An interrupted creation leaves nothing behind. After a creation whose calls failed or that
  stopped anywhere, one undisturbed run of store recovery returns; the spaces directory is then
  exactly as before the creation, or, when the creation had already published the complete
  space, exactly as the creation left it.
\<close>

theorem interrupted_creation_is_reclaimed:
  assumes name: "portable_name_grammar (space_name_as_str name)" and codec: "creation_codec host cinp name shell layout"
    and ready: "recovery_ready host inp roots name d"
    and run: "create_with_layout host cinp name shell layout (d, script) = (r, d1, rest)"
  shows "\<exists>summary d2. recover host inp roots (d1, []) = (Done summary, d2, []) \<and>
     (dk_spaces d2 = dk_spaces d \<or>
      dk_spaces d2 = dk_spaces d1 \<and> (\<exists>manifest. planned_manifest cinp name shell layout manifest \<and> creation_published host manifest d d1))"
proof -
  have willing: "willing_inputs host inp roots" using ready by (simp add: recovery_ready_def)
  have nc: "dk_spaces d x = None" if "creating x" for x
    using ready that unfolding recovery_ready_def by (meson not_None_eq)
  have out: "(\<exists>manifest. planned_manifest cinp name shell layout manifest \<and> creation_published host manifest d d1) \<or> d1 = d \<or>
      (\<exists>suffix. creation_abandoned host (creating_name name suffix) d d1)"
    using wp_any_script [OF wp_create_with_layout [OF name codec] run] by (cases r) auto
  have published: "\<exists>n. dk_spaces d1 = (dk_spaces d)(space_name_as_str name \<mapsto> DirNode n) \<and> dk_trash d1 = dk_trash d"
    if "planned_manifest cinp name shell layout manifest" "creation_published host manifest d d1" for manifest
    using that by (auto simp: planned_manifest_def creation_published_def Let_def new_manifest_def)
  have rest: "resting_store host inp d1"
    using out resting_after_creation [OF name ready] published ready by (auto simp: recovery_ready_def)
  obtain summary d2 where run2: "recover host inp roots (d1, []) = (Done summary, d2, [])" and w: "without_creations d1 d2"
    using runs_recover [OF rest willing, of "\<lambda>_. without_creations d1"] by (auto simp: runs_def)
  have "dk_spaces d2 = dk_spaces d" if "d1 = d \<or> creation_abandoned host (creating_name name suffix) d d1" for suffix
  proof
    fix x
    have "dk_spaces d1 x = dk_spaces d x" if "\<not> creating x"
      using that \<open>d1 = d \<or> _\<close> creating_plain(2) [of name suffix] by (auto simp: creation_abandoned_def)
    then show "dk_spaces d2 x = dk_spaces d x" using w nc by auto
  qed
  moreover have "dk_spaces d2 = dk_spaces d1" if "dk_spaces d1 = (dk_spaces d)(space_name_as_str name \<mapsto> DirNode n)" for n
  proof
    show "dk_spaces d2 x = dk_spaces d1 x" for x
      using w nc that portable_plain(2) [OF name] by auto
  qed
  ultimately show ?thesis using out run2 published by blast
qed

definition rc_sample :: recovery_inputs where
  "rc_sample = \<lparr>rc_layout = Ok (), rc_management = Ok (), rc_lock = (\<lambda>_. Ok True), rc_staging_held = (\<lambda>_. False),
     rc_family = (\<lambda>_. ReclaimingEntry), rc_published = Ok [], rc_unleased = Ok [], rc_runtimes = Ok (), rc_artifact_retirement = Ok ()\<rparr>"

definition no_artifacts :: "artifact_kind \<Rightarrow> artifact_root" where
  "no_artifacts _ = \<lparr>ao_root = SysNotFound, ao_entries = Ok [], ao_healthy = Ok []\<rparr>"

lemma rc_ready: "recovery_ready rn_host rc_sample no_artifacts rn_sample_name rn_disk"
proof -
  have dom: "dom (dk_spaces rn_disk) = {''work'', ''other''}" by (auto simp: rn_disk_def)
  have port: "portable_name_grammar x" if "dk_spaces rn_disk x \<noteq> None" for x
  proof -
    have "x \<in> {''work'', ''other''}" using that unfolding dom [symmetric] by (rule domIff [THEN iffD2])
    then show ?thesis by (elim insertE emptyE) (simp_all add: portable_name_grammar_def ascii_defs)
  qed
  have none: "{x. dk_spaces rn_disk x \<noteq> None \<and> creating x} = {}"
    using portable_plain(2) [OF port] by blast
  have "resting_store rn_host rc_sample rn_disk"
    unfolding resting_store_def none
  proof (intro conjI allI impI)
    show "plain_name x" if "dk_spaces rn_disk x \<noteq> None" for x using portable_plain(1) [OF port [OF that]] .
    show "\<exists>n. e = DirNode n \<and> private_dir_node (h_uid rn_host) n" "rc_lock rc_sample x = Ok True"
      if "dk_spaces rn_disk x = Some e" "creating x" for x e
      using portable_plain(2) [OF port [of x]] that by simp_all
  qed (use rn_quiet in \<open>simp_all add: rn_disk_def MAX_RECOVERY_ENTRIES_def\<close>)
  moreover have "card (dom (dk_spaces rn_disk)) < MAX_DIRECTORY_SCAN_ENTRIES" unfolding dom by (simp add: MAX_DIRECTORY_SCAN_ENTRIES_def)
  moreover have "willing_inputs rn_host rc_sample no_artifacts"
    by (simp add: willing_inputs_def rc_sample_def no_artifacts_def inspect_artifact_state_def inspect_artifact_root_def
        artifact_candidates_of_def)
  ultimately show ?thesis
    using portable_plain(2) [OF port] by (simp add: recovery_ready_def rc_sample_def)
qed

theorem interrupted_creation_is_reclaimed_witness:
  "case create_with_layout rn_host cr_inputs rn_sample_name ''/bin/sh'' Profile (rn_disk, replicate 40 Go @ [Crash 0]) of (r, d1, rest) \<Rightarrow>
     \<exists>summary d2. recover rn_host rc_sample no_artifacts (d1, []) = (Done summary, d2, []) \<and>
       (dk_spaces d2 = dk_spaces rn_disk \<or> dk_spaces d2 = dk_spaces d1)"
proof -
  obtain r d1 rest where run: "create_with_layout rn_host cr_inputs rn_sample_name ''/bin/sh'' Profile (rn_disk, replicate 40 Go @ [Crash 0]) = (r, d1, rest)"
    by (rule prod_cases3)
  show ?thesis unfolding run prod.case using interrupted_creation_is_reclaimed [OF cr_name cr_codec rc_ready run] by blast
qed

end
