(* ===== verification/Root_Format.thy ===== *)
theory Root_Format
  imports Space_Create Text
begin

text \<open>
  The root-format marker of a store, \<open>store/layout.rs\<close> and \<open>store/layout/marker.rs\<close>: which
  directory names a store uses, the strict reading of the marker, its publication by a hard link
  to a staging file, and the recovery of an interrupted publication. The entries here are those
  of the root directory of the store, in the world of the transactions; two names of one file are
  two entries with the same inode number, and the link count of both changes together.

  The metadata of the root, of the opened root and the suffix of the staging file are inputs, as
  is the JSON of the marker; the management lock is an input of the operations that take it.
\<close>

subsection \<open>Markers\<close>

definition MARKER_FILE :: string where "MARKER_FILE = ''.quarters-store.json''"
definition STAGING_PREFIX :: string where "STAGING_PREFIX = ''.quarters-store-staging-''"
definition STAGING_SUFFIX :: string where "STAGING_SUFFIX = ''.tmp''"
definition SCHEMA_VERSION :: nat where "SCHEMA_VERSION = 1"
definition MAX_MARKER_FILE_BYTES :: nat where "MAX_MARKER_FILE_BYTES = 4 * 1024"
definition MAX_MARKER_REPLACEMENT_READS :: nat where "MAX_MARKER_REPLACEMENT_READS = 8"
definition MAX_ROOT_ENTRIES :: nat where "MAX_ROOT_ENTRIES = 1024"

datatype root_format = Visible | Dotted

record store_marker =
  mk_schema_version :: nat
  mk_root_format :: root_format
  mk_writer_version :: string

record format_env =
  fe_root :: "file_stat sys"
  fe_held :: file_stat
  fe_suffix :: "string result"
  fe_version :: string
  fe_header :: "string \<Rightarrow> nat option"
  fe_marker :: "string \<Rightarrow> store_marker option"
  fe_bytes :: "store_marker \<Rightarrow> string"

definition layout_error :: "string \<Rightarrow> 'a result" where
  "layout_error msg = Err CorruptState msg"

definition valid_writer_version :: "string \<Rightarrow> bool" where
  "valid_writer_version value \<longleftrightarrow>
     value \<noteq> [] \<and> length value \<le> 64 \<and>
     list_all (\<lambda>c. is_ascii_alphanumeric c \<or> c \<in> {CHR ''.'', CHR ''-'', CHR ''+''}) value"

definition valid_unique_suffix :: "string \<Rightarrow> bool" where
  "valid_unique_suffix value \<longleftrightarrow>
     (let components = split_on (CHR ''-'') value;
          valid = list_all (\<lambda>component. component \<noteq> [] \<and> length component \<le> 20 \<and> list_all is_ascii_digit component)
                    (take 3 components)
      in valid \<and> length (filter (\<lambda>c. c = CHR ''-'') value) = 2 \<and> drop 3 components = [])"

definition valid_staging_name :: "string \<Rightarrow> bool" where
  "valid_staging_name name \<longleftrightarrow>
     (case Option.bind (strip_prefix name STAGING_PREFIX) (\<lambda>value. strip_suffix value STAGING_SUFFIX) of
        None \<Rightarrow> False
      | Some suffix \<Rightarrow> valid_unique_suffix suffix)"

definition parse_root_marker :: "format_env \<Rightarrow> string \<Rightarrow> root_format result" where
  "parse_root_marker env bytes =
     (case fe_header env bytes of
        None \<Rightarrow> Err CorruptState ''the root-format marker header is invalid''
      | Some version \<Rightarrow>
          if SCHEMA_VERSION < version then Err Unsupported ''the store root-format schema is newer than this build supports''
          else
            (case fe_marker env bytes of
               None \<Rightarrow> Err CorruptState ''the root-format marker is invalid''
             | Some marker \<Rightarrow>
                 if mk_schema_version marker \<noteq> SCHEMA_VERSION \<or> \<not> valid_writer_version (mk_writer_version marker)
                 then layout_error ''the root-format marker has unsupported metadata''
                 else Ok (mk_root_format marker)))"

definition validate_marker_metadata :: "nat \<Rightarrow> nat \<Rightarrow> file_stat \<Rightarrow> unit result" where
  "validate_marker_metadata uid expected_links m =
     (if is_file m \<and> \<not> is_symlink m \<and> st_uid m = uid \<and> st_nlink m = expected_links \<and> st_mode m AND 18 = 0
      then Ok ()
      else layout_error ''the root-format marker is not a protected current-user file'')"

subsection \<open>Links\<close>

definition same_inode :: "file_stat \<Rightarrow> file_stat \<Rightarrow> bool" where
  "same_inode a b \<longleftrightarrow> st_dev a = st_dev b \<and> st_ino a = st_ino b"

definition relink :: "file_stat \<Rightarrow> nat \<Rightarrow> (string \<rightharpoonup> node) \<Rightarrow> (string \<rightharpoonup> node)" where
  "relink m links entries = (\<lambda>x.
     case entries x of
       Some (FileNode m' b) \<Rightarrow> Some (FileNode (if same_inode m m' then m'\<lparr>st_nlink := links\<rparr> else m') b)
     | e \<Rightarrow> e)"

definition hard_link :: "string \<Rightarrow> string \<Rightarrow> string \<Rightarrow> unit io" where
  "hard_link action src dst = syscall action atomic (\<lambda>d.
     case dk_spaces d src of
       Some (FileNode m b) \<Rightarrow>
         if dk_spaces d dst \<noteq> None then (Err SystemError action, d)
         else (Ok (), d\<lparr>dk_spaces := relink m (Suc (st_nlink m)) ((dk_spaces d)(dst \<mapsto> FileNode m b))\<rparr>)
     | _ \<Rightarrow> (Err SystemError action, d))"

definition unlink_entry :: "string \<Rightarrow> string \<Rightarrow> unit io" where
  "unlink_entry action name = syscall action atomic (\<lambda>d.
     case dk_spaces d name of
       None \<Rightarrow> (Err SystemError action, d)
     | Some (DirNode _) \<Rightarrow> (Err SystemError action, d)
     | Some (FileNode m b) \<Rightarrow> (Ok (), d\<lparr>dk_spaces := relink m (st_nlink m - 1) ((dk_spaces d)(name := None))\<rparr>)
     | Some _ \<Rightarrow> (Ok (), d\<lparr>dk_spaces := (dk_spaces d)(name := None)\<rparr>))"

definition inspect_root :: "format_env \<Rightarrow> string \<Rightarrow> file_stat io" where
  "inspect_root env action = syscall action atomic (\<lambda>d.
     (case fe_root env of SysOk m \<Rightarrow> Ok m | _ \<Rightarrow> Err SystemError action, d))"

definition open_root :: "format_env \<Rightarrow> file_stat io" where
  "open_root env =
     bind_io (syscall ''retain the root'' atomic (\<lambda>d. (Ok (), d))) (\<lambda>_.
     syscall ''inspect the retained root'' atomic (\<lambda>d. (Ok (fe_held env), d)))"

definition unlink_exact :: "store_host \<Rightarrow> format_env \<Rightarrow> string \<Rightarrow> file_stat \<Rightarrow> unit io" where
  "unlink_exact host env name expected =
     bind_io (inspect_root env ''reinspect Quarters root'') (\<lambda>root_metadata.
     bind_io (lift (validate_store_root (h_uid host) root_metadata)) (\<lambda>_.
     bind_io (open_root env) (\<lambda>held.
     if \<not> same_inode held root_metadata then lift (layout_error ''the Quarters root changed during root-format cleanup'')
     else
       bind_io (read_entry ''recheck root-format staging identity'' name) (\<lambda>e.
       case e of
         None \<Rightarrow> fail (QErr SystemError ''recheck root-format staging identity'')
       | Some n \<Rightarrow>
           if \<not> same_inode (node_stat n) expected then lift (layout_error ''a root-format staging entry changed during cleanup'')
           else unlink_entry ''remove exact root-format staging entry'' name))))"

definition sync_root :: "store_host \<Rightarrow> format_env \<Rightarrow> unit io" where
  "sync_root host env =
     bind_io (inspect_root env ''inspect Quarters root before syncing'') (\<lambda>metadata.
     bind_io (lift (validate_store_root (h_uid host) metadata)) (\<lambda>_.
     bind_io (syscall ''open Quarters root for syncing'' atomic (\<lambda>d. (Ok (), d))) (\<lambda>_. sync_directory)))"

subsection \<open>Scans of the root directory\<close>

definition root_entry :: "string \<Rightarrow> (string \<Rightarrow> 's \<Rightarrow> 's io) \<Rightarrow> string \<Rightarrow> nat \<times> 's \<Rightarrow> (nat \<times> 's) io" where
  "root_entry action body name st =
     (let observed = sat_add (fst st) 1 in
      if MAX_ROOT_ENTRIES < observed then fail (QErr ResourceLimit ''the Quarters root exceeds the bounded scan'')
      else bind_io (next_entry action) (\<lambda>_. bind_io (body name (snd st)) (\<lambda>s. ret (observed, s))))"

definition scan_root :: "store_host \<Rightarrow> string \<Rightarrow> (string \<Rightarrow> 's \<Rightarrow> 's io) \<Rightarrow> 's \<Rightarrow> 's io" where
  "scan_root host action body s =
     bind_io (read_dir (h_order host) action) (\<lambda>names.
     bind_io (iterate (root_entry action body) names (0, s)) (\<lambda>st. ret (snd st)))"

definition require_entry :: "string \<Rightarrow> string \<Rightarrow> file_stat io" where
  "require_entry action name =
     bind_io (read_entry action name) (\<lambda>e.
     case e of None \<Rightarrow> fail (QErr SystemError action) | Some n \<Rightarrow> ret (node_stat n))"

text \<open>\<open>OsStr::to_str\<close>: the bytes are well-formed UTF-8.\<close>

fun well_formed_utf8 :: "nat list \<Rightarrow> bool" where
  "well_formed_utf8 [] \<longleftrightarrow> True"
| "well_formed_utf8 (a # rest) \<longleftrightarrow>
     (if a < 128 then well_formed_utf8 rest
      else case rest of
        [] \<Rightarrow> False
      | b # rest2 \<Rightarrow>
          if 194 \<le> a \<and> a \<le> 223 then continuation b \<and> well_formed_utf8 rest2
          else case rest2 of
            [] \<Rightarrow> False
          | c # rest3 \<Rightarrow>
              if 224 \<le> a \<and> a \<le> 239
              then continuation b \<and> continuation c \<and> (a = 224 \<longrightarrow> 160 \<le> b) \<and> (a = 237 \<longrightarrow> b \<le> 159) \<and> well_formed_utf8 rest3
              else case rest3 of
                [] \<Rightarrow> False
              | e # rest4 \<Rightarrow>
                  240 \<le> a \<and> a \<le> 244 \<and> continuation b \<and> continuation c \<and> continuation e \<and>
                  (a = 240 \<longrightarrow> 144 \<le> b) \<and> (a = 244 \<longrightarrow> b \<le> 143) \<and> well_formed_utf8 rest4)"

definition has_str :: "string \<Rightarrow> bool" where
  "has_str name \<longleftrightarrow> well_formed_utf8 (map of_char name)"

definition matching_publication_staging :: "store_host \<Rightarrow> file_stat \<Rightarrow> string option io" where
  "matching_publication_staging host marker =
     scan_root host ''read interrupted root-format staging'' (\<lambda>name matching.
       if \<not> has_str name then ret matching
       else if \<not> valid_staging_name name then ret matching
       else bind_io (require_entry ''inspect interrupted root-format staging'' name) (\<lambda>metadata.
         if \<not> same_inode metadata marker then ret matching
         else if matching \<noteq> None then lift (layout_error ''the interrupted root-format publication has multiple staging links'')
         else ret (Some name))) None"

definition reclaim_safe_staging :: "store_host \<Rightarrow> format_env \<Rightarrow> unit io" where
  "reclaim_safe_staging host env =
     scan_root host ''read root-format staging entry'' (\<lambda>name _.
       if \<not> has_str name then ret ()
       else if \<not> starts_with name STAGING_PREFIX then ret ()
       else if \<not> valid_staging_name name then lift (layout_error ''a reserved root-format staging entry has an invalid name'')
       else
         bind_io (require_entry ''inspect root-format staging'' name) (\<lambda>metadata.
         bind_io (lift (validate_marker_metadata (h_uid host) 1 metadata)) (\<lambda>_.
         unlink_exact host env name metadata))) ()"

subsection \<open>Reading\<close>

definition read_bounded :: "store_host \<Rightarrow> string \<Rightarrow> nat \<Rightarrow> nat \<Rightarrow> string io" where
  "read_bounded host path length_hint expected_links =
     (if MAX_MARKER_FILE_BYTES < length_hint then fail (QErr ResourceLimit ''the root-format marker exceeds 4096 bytes'')
      else
        bind_io (read_entry ''open root-format marker'' path) (\<lambda>e.
        case e of
          None \<Rightarrow> fail (QErr SystemError ''open root-format marker'')
        | Some (LinkNode _ _) \<Rightarrow> fail (QErr SystemError ''open root-format marker'')
        | Some n \<Rightarrow>
            bind_io (lift (validate_marker_metadata (h_uid host) expected_links (node_stat n))) (\<lambda>_.
            bind_io (syscall ''prepare the root-format marker'' atomic (\<lambda>d. (Ok (), d))) (\<lambda>_.
            bind_io (syscall ''read root-format marker'' atomic (\<lambda>d.
               (Ok (take (Suc MAX_MARKER_FILE_BYTES) (case n of FileNode _ b \<Rightarrow> b | _ \<Rightarrow> [])), d))) (\<lambda>bytes.
            if MAX_MARKER_FILE_BYTES < length bytes
            then fail (QErr ResourceLimit ''the root-format marker grew beyond 4096 bytes while it was read'')
            else ret bytes)))))"

datatype marker_read = Resolved "root_format option" | PublicationConverged

definition publication_converged :: "store_host \<Rightarrow> string \<Rightarrow> file_stat \<Rightarrow> bool io" where
  "publication_converged host path previous =
     bind_io (read_entry ''reinspect root-format publication'' path) (\<lambda>e.
     case e of
       None \<Rightarrow> ret False
     | Some n \<Rightarrow>
         if \<not> same_inode (node_stat n) previous \<or> st_nlink (node_stat n) \<noteq> 1 then ret False
         else bind_io (lift (validate_marker_metadata (h_uid host) 1 (node_stat n))) (\<lambda>_. ret True))"

definition read_marker_once :: "store_host \<Rightarrow> format_env \<Rightarrow> marker_read io" where
  "read_marker_once host env =
     bind_io (read_entry ''inspect root-format marker'' MARKER_FILE) (\<lambda>e.
     case e of
       None \<Rightarrow> ret (Resolved None)
     | Some n \<Rightarrow>
         let metadata = node_stat n; expected_links = (if st_nlink metadata = 2 then 2 else 1) in
         bind_io (lift (validate_marker_metadata (h_uid host) expected_links metadata)) (\<lambda>_.
         bind_io (if expected_links = 2
             then bind_io (matching_publication_staging host metadata) (\<lambda>matching. ret (matching = None))
             else ret False) (\<lambda>unexplained.
         if unexplained then
           bind_io (publication_converged host MARKER_FILE metadata) (\<lambda>converged.
           if converged then ret PublicationConverged
           else lift (layout_error ''the root-format marker has an unexplained second filesystem link''))
         else
           bind_io (attempt (read_bounded host MARKER_FILE (nat (st_size metadata)) expected_links)) (\<lambda>content.
           case content of
             Inl error \<Rightarrow>
               bind_io (if expected_links = 2 then publication_converged host MARKER_FILE metadata else ret False) (\<lambda>converged.
               if converged then ret PublicationConverged else fail error)
           | Inr bytes \<Rightarrow>
               bind_io (lift (parse_root_marker env bytes)) (\<lambda>fmt.
               if expected_links = 2 \<and> fmt \<noteq> Visible
               then lift (layout_error ''the interrupted root-format publication is not a visible-format marker'')
               else ret (Resolved (Some fmt)))))))"

fun read_root_marker_attempts :: "store_host \<Rightarrow> format_env \<Rightarrow> nat \<Rightarrow> root_format option io" where
  "read_root_marker_attempts host env 0 =
     fail (QErr ResourceLimit ''the root-format marker kept changing during a bounded read'')"
| "read_root_marker_attempts host env (Suc n) =
     bind_io (read_marker_once host env) (\<lambda>outcome.
     case outcome of
       Resolved fmt \<Rightarrow> ret fmt
     | PublicationConverged \<Rightarrow> read_root_marker_attempts host env n)"

definition read_root_marker :: "store_host \<Rightarrow> format_env \<Rightarrow> root_format option io" where
  "read_root_marker host env = read_root_marker_attempts host env MAX_MARKER_REPLACEMENT_READS"

subsection \<open>Resolution\<close>

record store_layout =
  ly_spaces_root :: string
  ly_trash_root :: string
  ly_root_format :: root_format

definition visible_layout :: store_layout where
  "visible_layout = \<lparr>ly_spaces_root = ''spaces'', ly_trash_root = ''trash'', ly_root_format = Visible\<rparr>"

definition dotted_layout :: store_layout where
  "dotted_layout = \<lparr>ly_spaces_root = ''.spaces'', ly_trash_root = ''.trash'', ly_root_format = Dotted\<rparr>"

definition category_presence :: "string \<Rightarrow> string \<Rightarrow> bool io" where
  "category_presence first second =
     bind_io (entry_exists first) (\<lambda>present. if present then ret True else entry_exists second)"

definition resolve :: "store_host \<Rightarrow> format_env \<Rightarrow> store_layout io" where
  "resolve host env =
     bind_io (syscall ''inspect Quarters root'' atomic (\<lambda>d. (Ok (fe_root env), d))) (\<lambda>root.
     case root of
       SysNotFound \<Rightarrow> ret visible_layout
     | SysFail \<Rightarrow> fail (QErr SystemError ''inspect Quarters root'')
     | SysOk metadata \<Rightarrow>
         bind_io (lift (validate_store_root (h_uid host) metadata)) (\<lambda>_.
         bind_io (category_presence ''spaces'' ''trash'') (\<lambda>visible.
         bind_io (category_presence ''.spaces'' ''.trash'') (\<lambda>dotted.
         bind_io (read_root_marker host env) (\<lambda>marker.
         case marker of
           Some Dotted \<Rightarrow>
             if visible then lift (layout_error ''the dotted root-format marker conflicts with visible store directories'')
             else ret dotted_layout
         | _ \<Rightarrow>
             if dotted then lift (layout_error
               (if marker = None then ''dotted store directories exist without an authoritative root-format marker''
                else ''the visible root-format marker conflicts with dotted store directories''))
             else ret visible_layout)))))"

definition existing_spaces_root :: "store_host \<Rightarrow> format_env \<Rightarrow> string option io" where
  "existing_spaces_root host env =
     bind_io (syscall ''inspect Quarters root'' atomic (\<lambda>d. (Ok (fe_root env), d))) (\<lambda>root.
     case root of
       SysNotFound \<Rightarrow> ret None
     | SysFail \<Rightarrow> fail (QErr SystemError ''inspect Quarters root'')
     | SysOk metadata \<Rightarrow>
         bind_io (lift (validate_store_root (h_uid host) metadata)) (\<lambda>_.
         bind_io (resolve host env) (\<lambda>layout.
         bind_io (read_entry ''inspect spaces directory'' (ly_spaces_root layout)) (\<lambda>e.
         case e of
           None \<Rightarrow> ret None
         | Some n \<Rightarrow>
             bind_io (lift (validate_private_dir (h_uid host) (node_stat n))) (\<lambda>_. ret (Some (ly_spaces_root layout)))))))"

definition require_writable :: "store_layout \<Rightarrow> unit result" where
  "require_writable layout =
     (if ly_root_format layout = Visible then Ok ()
      else Err Unsupported ''this Quarters build opens dotted-format stores for inspection only'')"

definition validate_categories :: "store_host \<Rightarrow> store_layout \<Rightarrow> unit io" where
  "validate_categories host layout =
     bind_io (require_entry ''inspect store spaces directory'' (ly_spaces_root layout)) (\<lambda>spaces.
     bind_io (lift (validate_private_dir (h_uid host) spaces)) (\<lambda>_.
     bind_io (read_entry ''inspect store trash directory'' (ly_trash_root layout)) (\<lambda>e.
     case e of None \<Rightarrow> ret () | Some n \<Rightarrow> lift (validate_private_dir (h_uid host) (node_stat n)))))"

subsection \<open>Publication and its recovery\<close>

definition staging_file :: "string \<Rightarrow> string" where
  "staging_file suffix = STAGING_PREFIX @ suffix @ STAGING_SUFFIX"

definition visible_marker :: "format_env \<Rightarrow> store_marker" where
  "visible_marker env =
     \<lparr>mk_schema_version = SCHEMA_VERSION, mk_root_format = Visible, mk_writer_version = fe_version env\<rparr>"

text \<open>The content of a file that is already there; the inode stays.\<close>

definition set_content :: "string \<Rightarrow> string \<Rightarrow> disk \<Rightarrow> disk" where
  "set_content name bytes d =
     (case dk_spaces d name of
        Some (FileNode m _) \<Rightarrow>
          d\<lparr>dk_spaces := (dk_spaces d)(name \<mapsto> FileNode (m\<lparr>st_size := int (length bytes)\<rparr>) bytes)\<rparr>
      | _ \<Rightarrow> d)"

definition create_new :: "nat \<Rightarrow> string \<Rightarrow> string \<Rightarrow> unit io" where
  "create_new uid action name = syscall action atomic (\<lambda>d.
     if dk_spaces d name \<noteq> None then (Err SystemError action, d) else (Ok (), put_file uid name [] d))"

definition create_visible_staging :: "store_host \<Rightarrow> format_env \<Rightarrow> string \<Rightarrow> file_stat io" where
  "create_visible_staging host env temporary =
     (let bytes = fe_bytes env (visible_marker env) in
     bind_io (create_new (h_uid host) ''create root-format staging file'' temporary) (\<lambda>_.
     bind_io (require_entry ''inspect created root-format staging file'' temporary) (\<lambda>metadata.
     bind_io (lift (validate_marker_metadata (h_uid host) 1 metadata)) (\<lambda>_.
     bind_io (attempt (bind_io
         (syscall ''write root-format staging file'' (\<lambda>n. set_content temporary (take n bytes))
            (\<lambda>d. (Ok (), set_content temporary bytes d)))
         (\<lambda>_. syscall ''sync root-format staging file'' atomic (\<lambda>d. (Ok (), d))))) (\<lambda>result.
     case result of
       Inr _ \<Rightarrow> ret metadata
     | Inl error \<Rightarrow>
         bind_io (attempt (unlink_exact host env temporary metadata)) (\<lambda>cleanup.
         case cleanup of
           Inr _ \<Rightarrow> fail error
         | Inl _ \<Rightarrow> fail (QErr (kind error)
             ''root-format staging failed and its exact file could not be reclaimed''))))))) "

definition publish_visible_marker :: "store_host \<Rightarrow> format_env \<Rightarrow> string \<Rightarrow> file_stat \<Rightarrow> unit io" where
  "publish_visible_marker host env temporary staging =
     bind_io (require_entry ''reinspect root-format staging file'' temporary) (\<lambda>current.
     bind_io (lift (validate_marker_metadata (h_uid host) 1 current)) (\<lambda>_.
     if \<not> same_inode current staging then lift (layout_error ''the root-format staging file changed before publication'')
     else
       bind_io (hard_link ''publish root-format marker'' temporary MARKER_FILE) (\<lambda>_.
       bind_io (unlink_exact host env temporary staging) (\<lambda>_.
       bind_io (sync_root host env) (\<lambda>_.
       bind_io (read_root_marker host env) (\<lambda>marker.
       if marker = Some Visible then ret ()
       else lift (layout_error ''the published root-format marker did not verify as visible'')))))))"

definition recover_interrupted_publication :: "store_host \<Rightarrow> format_env \<Rightarrow> unit io" where
  "recover_interrupted_publication host env =
     bind_io (read_entry ''inspect interrupted root-format marker'' MARKER_FILE) (\<lambda>e.
     case e of
       None \<Rightarrow> ret ()
     | Some n \<Rightarrow>
         if st_nlink (node_stat n) = 1 then ret ()
         else
           bind_io (lift (validate_marker_metadata (h_uid host) 2 (node_stat n))) (\<lambda>_.
           bind_io (read_bounded host MARKER_FILE (nat (st_size (node_stat n))) 2) (\<lambda>bytes.
           bind_io (lift (parse_root_marker env bytes)) (\<lambda>fmt.
           if fmt \<noteq> Visible then lift (layout_error ''an interrupted root-format publication did not contain a visible marker'')
           else
             bind_io (matching_publication_staging host (node_stat n)) (\<lambda>matching.
             case matching of
               None \<Rightarrow> lift (layout_error ''the root-format marker has an unexplained second filesystem link'')
             | Some staging \<Rightarrow>
                 bind_io (unlink_exact host env staging (node_stat n)) (\<lambda>_.
                 bind_io (sync_root host env) (\<lambda>_.
                 bind_io (read_root_marker host env) (\<lambda>marker.
                 if marker = Some Visible then ret ()
                 else lift (layout_error ''the recovered root-format marker did not verify as visible'')))))))))"

definition attempt_visible_marker :: "store_host \<Rightarrow> format_env \<Rightarrow> unit io" where
  "attempt_visible_marker host env =
     bind_io (recover_interrupted_publication host env) (\<lambda>_.
     bind_io (reclaim_safe_staging host env) (\<lambda>_.
     bind_io (read_root_marker host env) (\<lambda>marker.
     if marker \<noteq> None then ret ()
     else
       bind_io (lift (fe_suffix env)) (\<lambda>suffix.
       let temporary = staging_file suffix in
       bind_io (create_visible_staging host env temporary) (\<lambda>staging.
       catch (publish_visible_marker host env temporary staging) (\<lambda>error.
         bind_io (attempt (entry_exists MARKER_FILE)) (\<lambda>probe.
         case probe of
           Inr True \<Rightarrow> fail error
         | Inr False \<Rightarrow>
             bind_io (attempt (unlink_exact host env temporary staging)) (\<lambda>cleanup.
             case cleanup of
               Inr _ \<Rightarrow> fail error
             | Inl _ \<Rightarrow> fail (QErr (kind error)
                 ''root-format publication failed and its exact staging file could not be reclaimed''))
         | Inl _ \<Rightarrow> fail error)))))))"

subsection \<open>Operations of the store\<close>

definition ensure_store_root :: "store_host \<Rightarrow> format_env \<Rightarrow> format_env io" where
  "ensure_store_root host env =
     (case fe_root env of
        SysOk metadata \<Rightarrow> bind_io (lift (validate_store_root (h_uid host) metadata)) (\<lambda>_. ret env)
      | SysFail \<Rightarrow> fail (QErr SystemError ''inspect Quarters root'')
      | SysNotFound \<Rightarrow>
          bind_io create_private_dir (\<lambda>_. ret (env\<lparr>fe_root := SysOk (fe_held env)\<rparr>)))"

definition begin_mutation :: "store_host \<Rightarrow> format_env \<Rightarrow> unit result \<Rightarrow> store_layout io" where
  "begin_mutation host env management =
     bind_io (resolve host env) (\<lambda>preliminary.
     bind_io (lift (require_writable preliminary)) (\<lambda>_.
     bind_io (lift management) (\<lambda>_.
     bind_io (recover_interrupted_publication host env) (\<lambda>_.
     bind_io (resolve host env) (\<lambda>layout.
     bind_io (lift (require_writable layout)) (\<lambda>_.
     bind_io (validate_categories host layout) (\<lambda>_. ret layout)))))))"

definition ensure_layout :: "store_host \<Rightarrow> format_env \<Rightarrow> unit result \<Rightarrow> unit io" where
  "ensure_layout host env management =
     bind_io (ensure_store_root host env) (\<lambda>env.
     bind_io (resolve host env) (\<lambda>preliminary.
     bind_io (lift (require_writable preliminary)) (\<lambda>_.
     bind_io (lift management) (\<lambda>_.
     bind_io (recover_interrupted_publication host env) (\<lambda>_.
     bind_io (resolve host env) (\<lambda>layout.
     bind_io (lift (require_writable layout)) (\<lambda>_.
     bind_io (create_private_entry host (ly_spaces_root layout)) (\<lambda>_.
     bind_io (create_private_entry host (ly_trash_root layout)) (\<lambda>_.
     attempt_visible_marker host env)))))))))"

end
