(* ===== verification/Root_Publication.thy ===== *)
theory Root_Publication
  imports Root_Format
begin

text \<open>
  The publication of the root-format marker under faults: the four states a root directory goes
  through, and that every step of publication and recovery stays among them.
\<close>

subsection \<open>Names and inodes\<close>

lemma marker_not_staging [simp]: "\<not> valid_staging_name MARKER_FILE" "\<not> starts_with MARKER_FILE STAGING_PREFIX"
  by (simp_all add: valid_staging_name_def MARKER_FILE_def STAGING_PREFIX_def strip_prefix_def starts_with_def)

lemma staging_name_prefix: "valid_staging_name x \<Longrightarrow> starts_with x STAGING_PREFIX"
  by (auto simp: valid_staging_name_def strip_prefix_def split: option.splits if_splits)

lemma staging_not_marker: "valid_staging_name x \<Longrightarrow> x \<noteq> MARKER_FILE"
  by auto

lemma staging_file_valid: "valid_unique_suffix suffix \<Longrightarrow> valid_staging_name (staging_file suffix)"
proof -
  have "strip_suffix (suffix @ STAGING_SUFFIX) STAGING_SUFFIX = Some suffix" for suffix
    by (simp add: strip_suffix_def ends_with_def)
  then show "valid_unique_suffix suffix \<Longrightarrow> valid_staging_name (staging_file suffix)"
    by (simp add: valid_staging_name_def staging_file_def)
qed

lemma ascii_has_str: "list_all (\<lambda>c. (of_char c :: nat) < 128) s \<Longrightarrow> has_str s"
  unfolding has_str_def by (induction s) auto

lemma staging_name_has_str:
  assumes "valid_staging_name x"
  shows "has_str x"
proof -
  obtain suffix where x: "x = STAGING_PREFIX @ suffix @ STAGING_SUFFIX" and v: "valid_unique_suffix suffix"
    using assms by (auto simp: valid_staging_name_def strip_prefix_eq_Some strip_suffix_eq_Some bind_eq_Some_conv split: option.splits)
  let ?pieces = "split_on (CHR ''-'') suffix"
  have "take 3 ?pieces = ?pieces" using v by (simp add: valid_unique_suffix_def Let_def)
  then have "list_all (list_all is_ascii_digit) ?pieces"
    using v unfolding valid_unique_suffix_def Let_def by (auto simp: list_all_iff)
  then have "list_all (\<lambda>c. is_ascii_digit c \<or> c = CHR ''-'') suffix" by (rule split_on_chars)
  then have "list_all (\<lambda>c. (of_char c :: nat) < 128) suffix"
    by (rule list.pred_mono_strong) (auto simp: ascii_defs)
  moreover have "list_all (\<lambda>c. (of_char c :: nat) < 128) (STAGING_PREFIX @ [])" "list_all (\<lambda>c. (of_char c :: nat) < 128) STAGING_SUFFIX"
    by (simp_all add: STAGING_PREFIX_def STAGING_SUFFIX_def)
  ultimately show ?thesis unfolding x by (intro ascii_has_str) simp
qed

definition linked_stat :: "nat \<Rightarrow> nat \<Rightarrow> nat \<Rightarrow> nat \<Rightarrow> file_stat" where
  "linked_stat uid i len links = (created_stat uid i len)\<lparr>st_nlink := links\<rparr>"

lemma linked_stat_sel [simp]:
  "st_nlink (linked_stat uid i len k) = k" "st_dev (linked_stat uid i len k) = 0" "st_ino (linked_stat uid i len k) = i"
  "st_size (linked_stat uid i len k) = int len" "(linked_stat uid i len k)\<lparr>st_nlink := j\<rparr> = linked_stat uid i len j"
  "(linked_stat uid i len k)\<lparr>st_size := int n\<rparr> = linked_stat uid i n k"
  "same_inode (linked_stat uid i len k) (linked_stat uid' j len' k') \<longleftrightarrow> i = j"
  by (simp_all add: linked_stat_def created_stat_def same_inode_def)

lemma linked_stat_created: "created_stat uid i len = linked_stat uid i len 1"
  by (simp add: linked_stat_def created_stat_def)

lemma mode_0600: "(33152 :: nat) AND 18 = 0" "s_kind 33152 = S_IFREG" "S_IFREG \<noteq> S_IFLNK"
  by (simp_all add: s_kind_def S_IFMT_def S_IFREG_def S_IFLNK_def)

lemma linked_stat_valid [simp]: "validate_marker_metadata uid k (linked_stat uid i len k) = Ok ()"
  by (simp add: validate_marker_metadata_def linked_stat_def created_stat_def mode_0600)

definition unused_inode :: "nat \<Rightarrow> (string \<rightharpoonup> node) \<Rightarrow> bool" where
  "unused_inode i entries \<longleftrightarrow> (\<forall>x m b. entries x = Some (FileNode m b) \<longrightarrow> \<not> (st_dev m = 0 \<and> st_ino m = i))"

lemma relink_unused:
  assumes "unused_inode i entries"
  shows "relink (linked_stat uid i len k) j entries = entries"
proof
  fix x
  have "\<not> same_inode (linked_stat uid i len k) m" if "entries x = Some (FileNode m b)" for m b
  proof -
    have "\<not> (st_dev m = 0 \<and> st_ino m = i)" using assms that unfolding unused_inode_def by blast
    then show ?thesis by (auto simp: same_inode_def)
  qed
  then show "relink (linked_stat uid i len k) j entries x = entries x"
    by (simp add: relink_def split: option.split node.split)
qed

lemma relink_upd:
  "relink m j (entries(x \<mapsto> FileNode m' b)) = (relink m j entries)(x \<mapsto> FileNode (if same_inode m m' then m'\<lparr>st_nlink := j\<rparr> else m') b)"
  "relink m j (entries(x := None)) = (relink m j entries)(x := None)"
  by (auto simp: relink_def fun_eq_iff)

subsection \<open>States of a publication\<close>

definition usable_env :: "store_host \<Rightarrow> format_env \<Rightarrow> bool" where
  "usable_env host env \<longleftrightarrow>
     (\<exists>root suffix. fe_root env = SysOk root \<and> validate_store_root (h_uid host) root = Ok () \<and> same_inode (fe_held env) root \<and>
        fe_suffix env = Ok suffix \<and> valid_unique_suffix suffix) \<and>
     (let bytes = fe_bytes env (visible_marker env) in
      fe_header env bytes = Some SCHEMA_VERSION \<and> fe_marker env bytes = Some (visible_marker env) \<and> length bytes \<le> MAX_MARKER_FILE_BYTES) \<and>
     valid_writer_version (fe_version env)"

text \<open>A root directory without a marker, without reserved names and within the scan bound.\<close>

definition unmarked_root :: "store_host \<Rightarrow> disk \<Rightarrow> bool" where
  "unmarked_root host d \<longleftrightarrow>
     enumerates host \<and> finite (dom (dk_spaces d)) \<and> card (dom (dk_spaces d)) + 2 \<le> MAX_ROOT_ENTRIES \<and>
     dk_spaces d MARKER_FILE = None \<and> (\<forall>x. dk_spaces d x \<noteq> None \<longrightarrow> \<not> starts_with x STAGING_PREFIX) \<and>
     (\<forall>i \<ge> dk_next d. unused_inode i (dk_spaces d))"

definition marker_bytes :: "format_env \<Rightarrow> string" where
  "marker_bytes env = fe_bytes env (visible_marker env)"

definition marker_file :: "store_host \<Rightarrow> format_env \<Rightarrow> nat \<Rightarrow> nat \<Rightarrow> node" where
  "marker_file host env i links = FileNode (linked_stat (h_uid host) i (length (marker_bytes env)) links) (marker_bytes env)"

definition unpublished :: "disk \<Rightarrow> disk \<Rightarrow> bool" where
  "unpublished d0 d \<longleftrightarrow> dk_spaces d = dk_spaces d0 \<and> dk_next d0 \<le> dk_next d"

definition staged_at :: "store_host \<Rightarrow> string \<Rightarrow> nat \<Rightarrow> string \<Rightarrow> disk \<Rightarrow> disk \<Rightarrow> bool" where
  "staged_at host x i c d0 d \<longleftrightarrow> valid_staging_name x \<and> dk_next d0 \<le> i \<and> dk_next d0 \<le> dk_next d \<and>
     (\<exists>len. dk_spaces d = (dk_spaces d0)(x \<mapsto> FileNode (linked_stat (h_uid host) i len 1) c))"

definition linked_at :: "store_host \<Rightarrow> format_env \<Rightarrow> string \<Rightarrow> nat \<Rightarrow> disk \<Rightarrow> disk \<Rightarrow> bool" where
  "linked_at host env x i d0 d \<longleftrightarrow> valid_staging_name x \<and> dk_next d0 \<le> i \<and> dk_next d0 \<le> dk_next d \<and>
     dk_spaces d = (dk_spaces d0)(x \<mapsto> marker_file host env i 2, MARKER_FILE \<mapsto> marker_file host env i 2)"

definition published_root :: "store_host \<Rightarrow> format_env \<Rightarrow> disk \<Rightarrow> disk \<Rightarrow> bool" where
  "published_root host env d0 d \<longleftrightarrow> dk_next d0 \<le> dk_next d \<and>
     (\<exists>i \<ge> dk_next d0. dk_spaces d = (dk_spaces d0)(MARKER_FILE \<mapsto> marker_file host env i 1))"

definition publication :: "store_host \<Rightarrow> format_env \<Rightarrow> disk \<Rightarrow> disk \<Rightarrow> bool" where
  "publication host env d0 d \<longleftrightarrow>
     unpublished d0 d \<or> (\<exists>x i c. staged_at host x i c d0 d) \<or> (\<exists>x i. linked_at host env x i d0 d) \<or> published_root host env d0 d"

lemma publication_intros:
  "unpublished d0 d \<Longrightarrow> publication host env d0 d" "staged_at host x i c d0 d \<Longrightarrow> publication host env d0 d"
  "linked_at host env x i d0 d \<Longrightarrow> publication host env d0 d" "published_root host env d0 d \<Longrightarrow> publication host env d0 d"
  by (auto simp: publication_def)

subsection \<open>Steps\<close>

lemma unmarked_facts:
  assumes "unmarked_root host d0"
  shows "dk_spaces d0 MARKER_FILE = None" "valid_staging_name x \<Longrightarrow> dk_spaces d0 x = None"
    "dk_next d0 \<le> i \<Longrightarrow> relink (linked_stat uid i len k) j (dk_spaces d0) = dk_spaces d0"
  using assms staging_name_prefix [of x] relink_unused [of i "dk_spaces d0"] by (auto simp: unmarked_root_def)

lemma keeps_root_reads [keeps_rules]:
  "keeps (inspect_root env action)" "keeps (open_root env)" "keeps (require_entry action name)" "keeps (sync_root host env)"
  unfolding inspect_root_def open_root_def require_entry_def sync_root_def
  by (intro keeps_rules keeps_syscall; simp)+

lemma keeps_scan_root [keeps_rules]: "(\<And>name s. keeps (body name s)) \<Longrightarrow> keeps (scan_root host action body s)"
  unfolding scan_root_def root_entry_def Let_def by (intro keeps_rules)

lemma keeps_matching_staging [keeps_rules]: "keeps (matching_publication_staging host m)"
  unfolding matching_publication_staging_def by (intro keeps_rules)

lemma keeps_read_bounded [keeps_rules]: "keeps (read_bounded host path n links)"
proof -
  have "keeps (case n of LinkNode _ _ \<Rightarrow> f n | _ \<Rightarrow> g n)" if "keeps (f n)" "keeps (g n)" for n and f g :: "node \<Rightarrow> string io"
    using that by (cases n) auto
  then show ?thesis
    unfolding read_bounded_def
    by (intro keeps_rules) (auto intro!: keeps_rules keeps_syscall split: node.splits)
qed

lemma keeps_converged [keeps_rules]: "keeps (publication_converged host path m)"
  unfolding publication_converged_def by (intro keeps_rules)

lemma keeps_read_marker_once [keeps_rules]: "keeps (read_marker_once host env)"
  unfolding read_marker_once_def Let_def by (intro keeps_rules)

lemma keeps_marker_attempts [keeps_rules]: "keeps (read_root_marker_attempts host env n)"
proof (induction n)
  case (Suc n)
  then show ?case
    by (auto intro!: keeps_rules split: marker_read.splits)
qed (simp add: keeps_fail)

lemma keeps_read_root_marker [keeps_rules]: "keeps (read_root_marker host env)"
  unfolding read_root_marker_def by (rule keeps_rules)

lemma keeps_root_format [keeps_rules]: "keeps f \<Longrightarrow> keeps g \<Longrightarrow> keeps (case m of Visible \<Rightarrow> f | Dotted \<Rightarrow> g)"
  by (simp split: root_format.splits)

lemma keeps_resolve [keeps_rules]: "keeps (resolve host env)"
  unfolding resolve_def category_presence_def by (intro keeps_rules keeps_syscall) auto

text \<open>Without a marker a read finds none; with one it never answers that there is none.\<close>

definition marker_answer :: "disk \<Rightarrow> marker_read \<Rightarrow> disk \<Rightarrow> bool" where
  "marker_answer d r d' \<longleftrightarrow> d' = d \<and> (\<forall>f. r = Resolved f \<longrightarrow> (f = None) = (dk_spaces d MARKER_FILE = None))"

lemma marker_answers:
  "marker_answer d PublicationConverged d" "dk_spaces d MARKER_FILE = None \<Longrightarrow> marker_answer d (Resolved None) d"
  "dk_spaces d MARKER_FILE \<noteq> None \<Longrightarrow> marker_answer d (Resolved (Some f)) d"
  by (simp_all add: marker_answer_def)

lemma wp_marker_once:
  assumes "\<And>e. E e d" and "C d"
  shows "wp F (read_marker_once host env) (marker_answer d) E C d"
proof (cases "dk_spaces d MARKER_FILE")
  case None
  then show ?thesis
    unfolding read_marker_once_def by (intro wp_bind wp_read_entry) (use assms in \<open>auto intro!: wp_ret marker_answers\<close>)
next
  case (Some n)
  have answer: "marker_answer d (Resolved (Some f)) d" for f using Some by (simp add: marker_answers)
  have converged: "wp F (publication_converged host p m) Q E C d" if "\<And>c. Q c d" for p m Q
    by (intro wp_keeps keeps_converged that assms)
  have read: "wp F (attempt (read_bounded host p k l)) Q E C d" if "\<And>c. Q c d" for p k l Q
    by (intro wp_keeps keeps_rules that assms)
  have scan: "wp F (matching_publication_staging host m) Q E C d" if "\<And>c. Q c d" for m Q
    by (intro wp_keeps keeps_rules that assms)
  show ?thesis
    unfolding read_marker_once_def Let_def
    by (intro wp_bind [of _ "read_entry _ _"] wp_read_entry)
      (use assms in \<open>auto simp: Some layout_error_def intro!: wp_bind [of _ "lift _"] wp_lift wp_bind [of _ "bind_io _ _"]
        wp_bind [of _ "ret _"] wp_ret wp_fail wp_bind [of _ "matching_publication_staging _ _"] scan wp_bind [of _ "attempt _"] read
        wp_bind [of _ "publication_converged _ _ _"] converged answer marker_answers(1) split: sum.splits\<close>)
qed

lemma wp_marker_presence:
  assumes "\<And>e. E e d" and "C d" and "\<And>r. (r = None) = (dk_spaces d MARKER_FILE = None) \<Longrightarrow> Q r d"
  shows "wp F (read_root_marker host env) Q E C d"
proof -
  have "wp F (read_root_marker_attempts host env n) Q E C d" for n
  proof (induction n)
    case (Suc n)
    show ?case
      unfolding read_root_marker_attempts.simps
      by (rule wp_bind, rule wp_conseq [OF wp_marker_once [where E = E and C = C]])
        (use assms Suc in \<open>auto simp: marker_answer_def intro: wp_ret split: marker_read.splits\<close>)
  qed (use assms in \<open>simp add: wp_fail\<close>)
  then show ?thesis unfolding read_root_marker_def .
qed

lemma wp_scan_root:
  assumes start: "I (h_order host (dk_spaces d)) s d" and stop: "\<And>xs s d e. I xs s d \<Longrightarrow> E e d" "\<And>xs s d. I xs s d \<Longrightarrow> C d"
    and body: "\<And>x xs s d. I (x # xs) s d \<Longrightarrow> wp F (body x s) (I xs) E C d"
  shows "wp F (scan_root host action body s) (I []) E C d"
proof -
  have entries: "wp F (iterate (root_entry action body) (h_order host (dk_spaces d)) (0, s)) (\<lambda>st. I [] (snd st)) E C d"
  proof (rule wp_iterate_list [where I = "\<lambda>xs st. I xs (snd st)"])
    fix x xs and st :: "nat \<times> 'a" and d'
    assume I: "I (x # xs) (snd st) d'"
    have step: "wp F (body x (snd st)) (\<lambda>s. wp F (ret (k, s)) (\<lambda>st. I xs (snd st)) E C) E C d'" for k :: nat
      by (rule wp_conseq [OF body [OF I]]) (auto intro: wp_ret)
    show "wp F (root_entry action body x st) (\<lambda>st. I xs (snd st)) E C d'"
    proof (cases "MAX_ROOT_ENTRIES < sat_add (fst st) 1")
      case True
      then show ?thesis by (simp add: root_entry_def wp_fail stop(1) [OF I])
    next
      case False
      show ?thesis
        unfolding root_entry_def Let_def if_not_P [OF False]
        by (intro wp_bind [of _ "next_entry _"] wp_next_entry wp_bind [of _ "body x (snd st)"] step) (use stop [OF I] in auto)
    qed
  qed (simp add: start)
  have finish: "wp F (iterate (root_entry action body) (h_order host (dk_spaces d)) (0, s)) (\<lambda>st. wp F (ret (snd st)) (I []) E C) E C d"
    by (rule wp_conseq [OF entries]) (auto intro: wp_ret)
  show ?thesis
    unfolding scan_root_def by (intro wp_bind wp_read_dir finish) (use stop [OF start] in auto)
qed

lemma wp_require_entry:
  "(\<And>e. E e d) \<Longrightarrow> C d \<Longrightarrow> (\<And>n. dk_spaces d x = Some n \<Longrightarrow> Q (node_stat n) d) \<Longrightarrow> wp F (require_entry action x) Q E C d"
  unfolding require_entry_def
  by (intro wp_bind wp_read_entry) (auto intro: wp_fail wp_ret split: option.splits)

definition explains :: "disk \<Rightarrow> file_stat \<Rightarrow> string option \<Rightarrow> bool" where
  "explains d m r \<longleftrightarrow> (\<forall>x. r = Some x \<longrightarrow> valid_staging_name x \<and> (\<exists>n. dk_spaces d x = Some n \<and> same_inode (node_stat n) m))"

lemma wp_matching_staging:
  assumes "\<And>e. E e d" and "C d" and Q: "\<And>r. explains d m r \<Longrightarrow> Q r d"
  shows "wp F (matching_publication_staging host m) Q E C d"
proof -
  have "wp F (matching_publication_staging host m) ((\<lambda>_ r d'. d' = d \<and> explains d m r) []) E C d"
    unfolding matching_publication_staging_def
  proof (rule wp_scan_root)
    fix x :: string and r d'
    assume I: "d' = d \<and> explains d m r"
    show "wp F (if \<not> has_str x then ret r
       else if \<not> valid_staging_name x then ret r
       else bind_io (require_entry ''inspect interrupted root-format staging'' x) (\<lambda>metadata.
         if \<not> same_inode metadata m then ret r
         else if r \<noteq> None then lift (layout_error ''the interrupted root-format publication has multiple staging links'')
         else ret (Some x))) (\<lambda>r d'. d' = d \<and> explains d m r) E C d'"
      using I assms(1,2)
      by (auto intro!: wp_ret wp_bind [of _ "require_entry _ _"] wp_require_entry wp_lift simp: layout_error_def)
        (auto simp: explains_def)
  qed (use assms(1,2) in \<open>auto simp: explains_def\<close>)
  then show ?thesis by (rule wp_conseq) (use Q in auto)
qed

lemma wp_unlink_exact:
  assumes "\<And>e. E e d" and "C d"
    and found: "dk_spaces d x = Some (FileNode m b)" and Q: "Q () (d\<lparr>dk_spaces := relink m (st_nlink m - 1) ((dk_spaces d)(x := None))\<rparr>)"
  shows "wp F (unlink_exact host env x expected) Q E C d"
proof -
  have gone: "wp F (unlink_entry a x) Q E C d" for a
    unfolding unlink_entry_def by (rule wp_syscall) (use assms in auto)
  show ?thesis
    unfolding unlink_exact_def inspect_root_def open_root_def
    by (intro wp_bind [of _ "syscall _ _ _"] wp_bind [of _ "bind_io _ _"] wp_syscall wp_bind [of _ "lift _"] wp_lift)
      (use assms(1,2) found in \<open>auto intro!: wp_bind [of _ "lift _"] wp_lift wp_bind [of _ "bind_io _ _"] wp_bind [of _ "syscall _ _ _"] wp_syscall
        wp_bind [of _ "read_entry _ _"] wp_read_entry gone simp: layout_error_def\<close>)
qed

subsection \<open>Transitions\<close>

definition calm :: "store_host \<Rightarrow> format_env \<Rightarrow> disk \<Rightarrow> disk \<Rightarrow> bool" where
  "calm host env d0 d \<longleftrightarrow> unpublished d0 d \<or> (\<exists>x i c. staged_at host x i c d0 d) \<or> published_root host env d0 d"

lemma calm_publication: "calm host env d0 d \<Longrightarrow> publication host env d0 d"
  by (auto simp: calm_def publication_def)

lemma marker_file_stat [simp]: "node_stat (marker_file host env i k) = linked_stat (h_uid host) i (length (marker_bytes env)) k"
  by (simp add: marker_file_def)

text \<open>Removing the staging name of a linked or staged file.\<close>

lemma unlink_linked:
  assumes U: "unmarked_root host d0" and l: "linked_at host env x i d0 d"
  shows "published_root host env d0 (d\<lparr>dk_spaces := relink (linked_stat (h_uid host) i (length (marker_bytes env)) 2) 1 ((dk_spaces d)(x := None))\<rparr>)"
proof -
  have x: "valid_staging_name x" "dk_next d0 \<le> i" "dk_next d0 \<le> dk_next d" "x \<noteq> MARKER_FILE"
    and d: "dk_spaces d = (dk_spaces d0)(x \<mapsto> marker_file host env i 2, MARKER_FILE \<mapsto> marker_file host env i 2)"
    using l staging_not_marker by (auto simp: linked_at_def)
  have "(dk_spaces d)(x := None) = (dk_spaces d0)(x := None, MARKER_FILE \<mapsto> marker_file host env i 2)"
    using x(4) d by (auto simp: fun_eq_iff)
  also have "(dk_spaces d0)(x := None) = dk_spaces d0" using unmarked_facts(2) [OF U x(1)] by (simp add: fun_eq_iff)
  finally have eq: "(dk_spaces d)(x := None) = (dk_spaces d0)(MARKER_FILE \<mapsto> marker_file host env i 2)" .
  have "relink (linked_stat (h_uid host) i (length (marker_bytes env)) 2) 1 ((dk_spaces d)(x := None)) =
      (dk_spaces d0)(MARKER_FILE \<mapsto> marker_file host env i 1)"
    unfolding eq using unmarked_facts(3) [OF U x(2)] by (simp add: relink_upd marker_file_def)
  then show ?thesis
    unfolding published_root_def using x(2,3) by (intro conjI exI [of _ i]) simp_all
qed

lemma unlink_staged:
  assumes U: "unmarked_root host d0" and s: "valid_staging_name x" "dk_next d0 \<le> i" "dk_next d0 \<le> dk_next d"
    and d: "dk_spaces d = (dk_spaces d0)(x \<mapsto> FileNode (linked_stat (h_uid host) i len 1) c)"
  shows "unpublished d0 (d\<lparr>dk_spaces := relink (linked_stat (h_uid host) i len 1) k ((dk_spaces d)(x := None))\<rparr>)"
proof -
  have "(dk_spaces d0)(x := None) = dk_spaces d0" using unmarked_facts(2) [OF U s(1)] by (simp add: fun_eq_iff)
  then show ?thesis
    using s(3) unmarked_facts(3) [OF U s(2)] by (simp add: unpublished_def d relink_upd)
qed

lemma linked_entries:
  assumes "unmarked_root host d0" and "linked_at host env x i d0 d"
  shows "dk_spaces d MARKER_FILE = Some (marker_file host env i 2)" "dk_spaces d x = Some (marker_file host env i 2)"
    "valid_staging_name y \<Longrightarrow> dk_spaces d y = Some n \<Longrightarrow> y = x"
  using assms staging_not_marker [of x] staging_not_marker [of y] unmarked_facts(2) [of host d0 y]
  by (auto simp: linked_at_def split: if_splits)

lemma calm_marker:
  assumes "unmarked_root host d0" and "calm host env d0 d" and "dk_spaces d MARKER_FILE = Some n"
  shows "published_root host env d0 d" "\<exists>i. n = marker_file host env i 1"
  using assms unmarked_facts(1) [OF assms(1)] staging_not_marker
  by (auto simp: calm_def unpublished_def staged_at_def published_root_def split: if_splits)

lemma wp_recover_publication:
  assumes U: "unmarked_root host d0" and p: "publication host env d0 d"
  shows "wp F (recover_interrupted_publication host env) (\<lambda>_. calm host env d0) (\<lambda>_. publication host env d0) (publication host env d0) d"
proof (cases "\<exists>x i. linked_at host env x i d0 d")
  case False
  then have c: "calm host env d0 d" using p by (auto simp: calm_def publication_def)
  show ?thesis
    unfolding recover_interrupted_publication_def
  proof (intro wp_bind [of _ "read_entry _ _"] wp_read_entry p)
    show "wp F (case dk_spaces d MARKER_FILE of None \<Rightarrow> ret () | Some n \<Rightarrow> if st_nlink (node_stat n) = 1 then ret () else f n)
       (\<lambda>_. calm host env d0) (\<lambda>_. publication host env d0) (publication host env d0) d" for f
      using c calm_marker(2) [OF U c] by (cases "dk_spaces d MARKER_FILE") (auto intro: wp_ret)
  qed
next
  case True
  then obtain x i where l: "linked_at host env x i d0 d" by blast
  note e = linked_entries [OF U l]
  let ?m = "linked_stat (h_uid host) i (length (marker_bytes env)) 2"
  let ?P = "publication host env d0"
  have verify: "wp F (bind_io (sync_root host env) (\<lambda>_. bind_io (read_root_marker host env) (\<lambda>marker.
       if marker = Some Visible then ret () else lift (layout_error e)))) (\<lambda>_. calm host env d0) (\<lambda>_. ?P) ?P d'"
    if pr: "published_root host env d0 d'" for d' e
  proof -
    have q: "?P d'" and c: "calm host env d0 d'" using pr by (auto simp: publication_def calm_def)
    show ?thesis
      by (intro wp_bind [of _ "sync_root _ _"] wp_keeps [of "sync_root _ _"] wp_bind [of _ "read_root_marker _ _"]
          wp_keeps [of "read_root_marker _ _"] keeps_rules q)
        (use q c in \<open>auto intro!: wp_ret wp_lift\<close>)
  qed
  have unlink: "wp F (bind_io (unlink_exact host env y ?m) (\<lambda>_. bind_io (sync_root host env) (\<lambda>_. bind_io (read_root_marker host env) (\<lambda>marker.
       if marker = Some Visible then ret () else lift (layout_error e))))) (\<lambda>_. calm host env d0) (\<lambda>_. ?P) ?P d"
    if "explains d ?m (Some y)" for y e
  proof -
    have "y = x" using that e(3) by (auto simp: explains_def)
    then show ?thesis
      using e(2) p by (auto simp: marker_file_def intro!: wp_bind [of _ "unlink_exact _ _ _ _"] wp_unlink_exact verify unlink_linked [OF U l, simplified])
  qed
  have rest: "wp F (bind_io (lift (parse_root_marker env bytes)) (\<lambda>fmt.
       if fmt \<noteq> Visible then lift (layout_error e1)
       else bind_io (matching_publication_staging host ?m) (\<lambda>matching.
         case matching of None \<Rightarrow> lift (layout_error e2)
         | Some staging \<Rightarrow> bind_io (unlink_exact host env staging ?m) (\<lambda>_. bind_io (sync_root host env) (\<lambda>_.
             bind_io (read_root_marker host env) (\<lambda>marker.
             if marker = Some Visible then ret () else lift (layout_error e3))))))) (\<lambda>_. calm host env d0) (\<lambda>_. ?P) ?P d" for bytes e1 e2 e3
    using p by (auto intro!: wp_bind [of _ "lift _"] wp_lift wp_bind [of _ "matching_publication_staging _ _"] wp_matching_staging unlink
        simp: layout_error_def split: option.splits)
  have branch: "wp F (case dk_spaces d MARKER_FILE of None \<Rightarrow> ret () | Some n \<Rightarrow> if st_nlink (node_stat n) = 1 then ret () else f n) Q E C d"
    if "wp F (f (marker_file host env i 2)) Q E C d" for f Q E C
    using that by (simp add: e(1))
  have content: "wp F (read_bounded host a k l) Q (\<lambda>_. ?P) ?P d" if "\<And>bytes. Q bytes d" for a k l Q
    by (intro wp_keeps keeps_rules that p)
  show ?thesis
    unfolding recover_interrupted_publication_def
    by (intro wp_bind [of _ "read_entry _ _"] wp_read_entry p, rule branch, unfold marker_file_stat,
        intro wp_bind [of _ "lift (validate_marker_metadata _ _ _)"] wp_lift p wp_bind [of _ "read_bounded _ _ _ _"] content rest)
qed

definition settled_root :: "store_host \<Rightarrow> format_env \<Rightarrow> disk \<Rightarrow> disk \<Rightarrow> bool" where
  "settled_root host env d0 d \<longleftrightarrow> unpublished d0 d \<or> published_root host env d0 d"

definition reclaiming_root :: "store_host \<Rightarrow> format_env \<Rightarrow> disk \<Rightarrow> string list \<Rightarrow> disk \<Rightarrow> bool" where
  "reclaiming_root host env d0 xs d \<longleftrightarrow> settled_root host env d0 d \<or> (\<exists>x i c. staged_at host x i c d0 d \<and> x \<in> set xs)"

lemma staged_prefix: "staged_at host x i c d0 d \<Longrightarrow> has_str x \<and> starts_with x STAGING_PREFIX"
  by (simp add: staged_at_def staging_name_prefix staging_name_has_str)

lemma reclaiming_publication: "reclaiming_root host env d0 xs d \<Longrightarrow> publication host env d0 d"
  by (auto simp: reclaiming_root_def settled_root_def publication_def)

lemma settled_names:
  assumes "unmarked_root host d0" and "settled_root host env d0 d" and "valid_staging_name y"
  shows "dk_spaces d y = None"
  using assms unmarked_facts(2) [OF assms(1,3)] staging_not_marker [OF assms(3)]
  by (auto simp: settled_root_def unpublished_def published_root_def)

lemma staged_names:
  assumes "unmarked_root host d0" and "staged_at host x i c d0 d" and "valid_staging_name y" and "dk_spaces d y = Some n"
  shows "y = x" "\<exists>len. n = FileNode (linked_stat (h_uid host) i len 1) c"
  using assms unmarked_facts(2) [OF assms(1,3)] by (auto simp: staged_at_def split: if_splits)

lemma wp_reclaim_entry:
  assumes U: "unmarked_root host d0" and I: "reclaiming_root host env d0 (y # xs) d" and y: "valid_staging_name y"
    and n: "dk_spaces d y = Some n"
  shows "wp F (unlink_exact host env y expected) (\<lambda>_. reclaiming_root host env d0 xs) (\<lambda>_. publication host env d0) (publication host env d0) d"
proof -
  have "\<not> settled_root host env d0 d" using settled_names [OF U _ y] n by auto
  then obtain x i c where s: "staged_at host x i c d0 d" using I by (auto simp: reclaiming_root_def)
  from staged_names [OF U s y n] obtain len where yx: "y = x" and node: "n = FileNode (linked_stat (h_uid host) i len 1) c" by blast
  have d: "dk_spaces d = (dk_spaces d0)(x \<mapsto> FileNode (linked_stat (h_uid host) i len 1) c)" "dk_next d0 \<le> i" "dk_next d0 \<le> dk_next d"
    using s n yx node by (auto simp: staged_at_def)
  have "reclaiming_root host env d0 xs (d\<lparr>dk_spaces := relink (linked_stat (h_uid host) i len 1) (1 - 1) ((dk_spaces d)(y := None))\<rparr>)"
    using unlink_staged [OF U y d(2,3) d(1) [folded yx]] yx by (simp add: reclaiming_root_def settled_root_def)
  then show ?thesis
    using reclaiming_publication [OF I] n node by (intro wp_unlink_exact) auto
qed

lemma wp_reclaim_safe_staging:
  assumes U: "unmarked_root host d0" and c: "calm host env d0 d"
  shows "wp F (reclaim_safe_staging host env) (\<lambda>_. settled_root host env d0) (\<lambda>_. publication host env d0) (publication host env d0) d"
proof -
  have fin: "finite (dom (dk_spaces d))"
    using U c by (auto simp: unmarked_root_def calm_def unpublished_def staged_at_def published_root_def)
  then have names: "set (h_order host (dk_spaces d)) = dom (dk_spaces d)" using U by (simp add: unmarked_root_def enumerates_def)
  have start: "reclaiming_root host env d0 (h_order host (dk_spaces d)) d"
    using c unfolding calm_def
  proof (elim disjE exE)
    fix x i b
    assume s: "staged_at host x i b d0 d"
    then have "x \<in> dom (dk_spaces d)" by (auto simp: staged_at_def)
    then have "x \<in> set (h_order host (dk_spaces d))" by (simp add: names)
    with s show ?thesis by (auto simp: reclaiming_root_def)
  qed (simp_all add: reclaiming_root_def settled_root_def)
  have "wp F (reclaim_safe_staging host env) ((\<lambda>xs _. reclaiming_root host env d0 xs) [])
     (\<lambda>_. publication host env d0) (publication host env d0) d"
    unfolding reclaim_safe_staging_def
  proof (rule wp_scan_root [where I = "\<lambda>xs _. reclaiming_root host env d0 xs", OF start])
    fix y xs u d'
    assume I: "reclaiming_root host env d0 (y # xs) d'"
    note p = reclaiming_publication [OF I]
    show "wp F (if \<not> has_str y then ret ()
       else if \<not> starts_with y STAGING_PREFIX then ret ()
       else if \<not> valid_staging_name y then lift (layout_error ''a reserved root-format staging entry has an invalid name'')
       else bind_io (require_entry ''inspect root-format staging'' y) (\<lambda>metadata.
         bind_io (lift (validate_marker_metadata (h_uid host) 1 metadata)) (\<lambda>_. unlink_exact host env y metadata)))
       (\<lambda>_. reclaiming_root host env d0 xs) (\<lambda>_. publication host env d0) (publication host env d0) d'"
    proof (cases "has_str y \<and> starts_with y STAGING_PREFIX")
      case False
      then have "reclaiming_root host env d0 xs d'"
        using I unfolding reclaiming_root_def by (fastforce dest: staged_prefix)
      with False show ?thesis by (auto simp: wp_ret)
    next
      case True
      then show ?thesis
        using p wp_reclaim_entry [OF U I]
        by (auto simp: layout_error_def intro!: wp_lift wp_bind [of _ "require_entry _ _"] wp_require_entry wp_bind [of _ "lift _"])
    qed
  qed (simp_all add: reclaiming_publication)
  then show ?thesis by (rule wp_conseq) (auto simp: reclaiming_root_def)
qed

subsection \<open>Creating and publishing\<close>

definition ready_at :: "store_host \<Rightarrow> format_env \<Rightarrow> string \<Rightarrow> nat \<Rightarrow> disk \<Rightarrow> disk \<Rightarrow> bool" where
  "ready_at host env x i d0 d \<longleftrightarrow> valid_staging_name x \<and> dk_next d0 \<le> i \<and> dk_next d0 \<le> dk_next d \<and>
     dk_spaces d = (dk_spaces d0)(x \<mapsto> marker_file host env i 1)"

lemma ready_staged: "ready_at host env x i d0 d \<Longrightarrow> staged_at host x i (marker_bytes env) d0 d"
  by (auto simp: ready_at_def staged_at_def marker_file_def)

lemma staged_publication:
  "staged_at host x i c d0 d \<Longrightarrow> publication host env d0 d" "unpublished d0 d \<Longrightarrow> publication host env d0 d"
  by (auto simp: publication_def)

lemma wp_unlink_staged:
  assumes U: "unmarked_root host d0" and s: "staged_at host x i c d0 d"
  shows "wp F (unlink_exact host env x expected) (\<lambda>_. unpublished d0) (\<lambda>_. publication host env d0) (publication host env d0) d"
proof -
  obtain len where d: "dk_spaces d = (dk_spaces d0)(x \<mapsto> FileNode (linked_stat (h_uid host) i len 1) c)"
    and x: "valid_staging_name x" "dk_next d0 \<le> i" "dk_next d0 \<le> dk_next d" using s by (auto simp: staged_at_def)
  show ?thesis
    by (rule wp_unlink_exact [where m = "linked_stat (h_uid host) i len 1" and b = c])
      (use unlink_staged [OF U x d] d staged_publication(1) [OF s] in auto)
qed

lemma wp_create_staging:
  assumes U: "unmarked_root host d0" and u: "unpublished d0 d" and x: "valid_staging_name x"
  shows "wp F (create_visible_staging host env x)
     (\<lambda>m d'. \<exists>i. ready_at host env x i d0 d' \<and> same_inode m (linked_stat (h_uid host) i 0 1))
     (\<lambda>_. publication host env d0) (publication host env d0) d"
proof -
  let ?P = "publication host env d0" and ?i = "dk_next d" and ?b = "marker_bytes env"
  let ?Q = "\<lambda>m d'. \<exists>i. ready_at host env x i d0 d' \<and> same_inode m (linked_stat (h_uid host) i 0 1)"
  let ?m = "linked_stat (h_uid host) ?i 0 1"
  have d: "dk_spaces d = dk_spaces d0" "dk_next d0 \<le> ?i" using u by (simp_all add: unpublished_def)
  have pd: "?P d" using u by (simp add: publication_def)
  have set_content: "staged_at host x ?i b' d0 (set_content x b' d1)" if "staged_at host x ?i b d0 d1" for b b' d1
    using that by (auto simp: staged_at_def set_content_def)
  have full: "ready_at host env x ?i d0 (set_content x ?b d1)" if "staged_at host x ?i b d0 d1" for b d1
    using that by (auto simp: staged_at_def ready_at_def set_content_def marker_file_def)
  have cleanup: "wp F (bind_io (attempt (unlink_exact host env x m)) (\<lambda>cleanup.
         case cleanup of Inr _ \<Rightarrow> fail error | Inl _ \<Rightarrow> fail (QErr (kind error) msg))) Q (\<lambda>_. ?P) ?P d1"
    if "staged_at host x ?i b d0 d1" for d1 b m error msg and Q :: "file_stat \<Rightarrow> disk \<Rightarrow> bool"
    unfolding attempt_def
    by (intro wp_bind wp_catch, rule wp_conseq [OF wp_unlink_staged [OF U that]])
      (auto intro!: wp_ret wp_bind wp_fail staged_publication(2))
  have filled: "wp F (attempt (bind_io
         (syscall ''write root-format staging file'' (\<lambda>n. set_content x (take n ?b)) (\<lambda>d. (Ok (), set_content x ?b d)))
         (\<lambda>_. syscall ''sync root-format staging file'' atomic (\<lambda>d. (Ok (), d)))))
      (\<lambda>r d'. (is_ok r \<longrightarrow> ready_at host env x ?i d0 d') \<and> (\<exists>b. staged_at host x ?i b d0 d')) (\<lambda>_. ?P) ?P d1"
    if s: "staged_at host x ?i b d0 d1" for d1 b
    unfolding attempt_def
    by (intro wp_catch wp_bind wp_syscall)
      (use set_content [OF s] full [OF s] staged_publication(1) [of host x ?i _ d0 _ env] in \<open>auto intro!: wp_syscall wp_ret\<close>)
  have rest: "wp F (bind_io (attempt (bind_io
         (syscall ''write root-format staging file'' (\<lambda>n. set_content x (take n ?b)) (\<lambda>d. (Ok (), set_content x ?b d)))
         (\<lambda>_. syscall ''sync root-format staging file'' atomic (\<lambda>d. (Ok (), d))))) (\<lambda>result.
     case result of
       Inr _ \<Rightarrow> ret ?m
     | Inl error \<Rightarrow>
         bind_io (attempt (unlink_exact host env x ?m)) (\<lambda>cleanup.
         case cleanup of
           Inr _ \<Rightarrow> fail error
         | Inl _ \<Rightarrow> fail (QErr (kind error) ''root-format staging failed and its exact file could not be reclaimed''))))
      ?Q (\<lambda>_. ?P) ?P d1" if s: "staged_at host x ?i b d0 d1" for d1 b
    by (rule wp_bind, rule wp_conseq [OF filled [OF s]])
      (auto intro!: wp_ret cleanup exI [of _ ?i] split: sum.splits)
  have staged: "staged_at host x ?i [] d0 (put_file (h_uid host) x [] d)"
    using d x by (auto simp: staged_at_def put_file_def linked_stat_created intro!: exI [of _ 0])
  have entry: "dk_spaces (put_file (h_uid host) x [] d) x = Some (FileNode ?m [])"
    by (simp add: put_file_def linked_stat_created)
  have after: "wp F (bind_io (require_entry a x) (\<lambda>metadata. bind_io (lift (validate_marker_metadata (h_uid host) 1 metadata)) (\<lambda>_. f metadata)))
     ?Q (\<lambda>_. ?P) ?P (put_file (h_uid host) x [] d)" if "wp F (f ?m) ?Q (\<lambda>_. ?P) ?P (put_file (h_uid host) x [] d)" for a f
    by (intro wp_bind [of _ "require_entry _ _"] wp_require_entry wp_bind [of _ "lift _"] wp_lift)
      (use that entry staged_publication(1) [OF staged] in auto)
  show ?thesis
    unfolding create_visible_staging_def Let_def create_new_def marker_bytes_def [symmetric]
    by (intro wp_bind [of _ "syscall _ _ _"] wp_syscall) (use pd after rest [OF staged] in \<open>auto split: if_splits\<close>)
qed

lemma link_ready:
  assumes U: "unmarked_root host d0" and r: "ready_at host env x i d0 d"
  shows "dk_spaces d x = Some (marker_file host env i 1)" "dk_spaces d MARKER_FILE = None"
    "linked_at host env x i d0 (d\<lparr>dk_spaces := relink (linked_stat (h_uid host) i (length (marker_bytes env)) 1) 2
       ((dk_spaces d)(MARKER_FILE \<mapsto> marker_file host env i 1))\<rparr>)"
  using r unmarked_facts(1,3) [OF U] staging_not_marker [of x]
  by (auto simp: ready_at_def linked_at_def relink_upd marker_file_def)

definition publishing :: "store_host \<Rightarrow> format_env \<Rightarrow> string \<Rightarrow> disk \<Rightarrow> disk \<Rightarrow> bool" where
  "publishing host env x d0 d \<longleftrightarrow>
     publication host env d0 d \<and> (dk_spaces d MARKER_FILE = None \<longrightarrow> (\<exists>i c. staged_at host x i c d0 d))"

lemma publishing_states:
  assumes "unmarked_root host d0"
  shows "ready_at host env x i d0 d \<Longrightarrow> publishing host env x d0 d" "linked_at host env x i d0 d \<Longrightarrow> publishing host env x d0 d"
    "published_root host env d0 d \<Longrightarrow> publishing host env x d0 d"
  using linked_entries(1) [OF assms, of env x i d]
  by (auto simp: publishing_def publication_def published_root_def dest: ready_staged)

lemma wp_publish:
  assumes U: "unmarked_root host d0" and r: "ready_at host env x i d0 d" and m: "same_inode m (linked_stat (h_uid host) i 0 1)"
  shows "wp F (publish_visible_marker host env x m) (\<lambda>_. published_root host env d0) (\<lambda>_. publishing host env x d0)
     (publication host env d0) d"
proof -
  let ?P = "publication host env d0" and ?S = "publishing host env x d0" and ?D = "published_root host env d0"
  note e = link_ready [OF U r]
  have P: "?S d' \<Longrightarrow> ?P d'" for d' by (simp add: publishing_def)
  have S: "?S d" by (rule publishing_states(1) [OF U r])
  have verify: "wp F (bind_io (sync_root host env) (\<lambda>_. bind_io (read_root_marker host env) (\<lambda>marker.
       if marker = Some Visible then ret () else lift (layout_error e)))) (\<lambda>_. ?D) (\<lambda>_. ?S) ?P d'" if "?D d'" for d' e
  proof -
    have s: "?S d'" by (rule publishing_states(3) [OF U that])
    show ?thesis
      by (intro wp_bind [of _ "sync_root _ _"] wp_keeps [of "sync_root _ _"] wp_bind [of _ "read_root_marker _ _"]
          wp_keeps [of "read_root_marker _ _"] keeps_rules s P [OF s])
        (use s that in \<open>auto intro!: wp_ret wp_lift\<close>)
  qed
  have unlink: "wp F (bind_io (unlink_exact host env x m) (\<lambda>_. bind_io (sync_root host env) (\<lambda>_. bind_io (read_root_marker host env) (\<lambda>marker.
       if marker = Some Visible then ret () else lift (layout_error e))))) (\<lambda>_. ?D) (\<lambda>_. ?S) ?P d'"
    if l: "linked_at host env x i d0 d'" for d' e
  proof -
    have s: "?S d'" by (rule publishing_states(2) [OF U l])
    have x: "dk_spaces d' x = Some (FileNode (linked_stat (h_uid host) i (length (marker_bytes env)) 2) (marker_bytes env))"
      using linked_entries(2) [OF U l] by (simp add: marker_file_def)
    have gone: "?D (d'\<lparr>dk_spaces := relink (linked_stat (h_uid host) i (length (marker_bytes env)) 2)
         (st_nlink (linked_stat (h_uid host) i (length (marker_bytes env)) 2) - 1) ((dk_spaces d')(x := None))\<rparr>)"
      using unlink_linked [OF U l] by simp
    show ?thesis
      by (rule wp_bind, rule wp_unlink_exact [where m = "linked_stat (h_uid host) i (length (marker_bytes env)) 2" and b = "marker_bytes env"])
        (use s P [OF s] x verify [OF gone] in auto)
  qed
  have link: "wp F (bind_io (hard_link a x MARKER_FILE) f) (\<lambda>_. ?D) (\<lambda>_. ?S) ?P d"
    if "\<And>d'. linked_at host env x i d0 d' \<Longrightarrow> wp F (f ()) (\<lambda>_. ?D) (\<lambda>_. ?S) ?P d'" for a f
    unfolding hard_link_def
    by (intro wp_bind wp_syscall)
      (use S P [OF S] e(1,2) that [OF e(3)] in \<open>auto simp: marker_file_def numeral_2_eq_2\<close>)
  show ?thesis
    unfolding publish_visible_marker_def
    by (intro wp_bind [of _ "require_entry _ _"] wp_require_entry S P [OF S] wp_bind [of _ "lift _"] wp_lift)
      (use m e(1) S in \<open>auto simp: same_inode_def intro!: wp_lift link unlink\<close>)
qed

lemma wp_attempt_visible_marker:
  assumes U: "unmarked_root host d0" and V: "usable_env host env" and p: "publication host env d0 d"
  shows "wp F (attempt_visible_marker host env) (\<lambda>_. published_root host env d0) (\<lambda>_. publication host env d0) (publication host env d0) d"
proof -
  let ?P = "publication host env d0" and ?D = "published_root host env d0"
  obtain suffix where suffix: "fe_suffix env = Ok suffix" "valid_unique_suffix suffix" using V by (auto simp: usable_env_def)
  let ?x = "staging_file suffix"
  have x: "valid_staging_name ?x" by (rule staging_file_valid [OF suffix(2)])
  have handler: "wp F (bind_io (attempt (entry_exists MARKER_FILE)) (\<lambda>probe.
         case probe of
           Inr True \<Rightarrow> fail error
         | Inr False \<Rightarrow>
             bind_io (attempt (unlink_exact host env ?x m)) (\<lambda>cleanup.
             case cleanup of Inr _ \<Rightarrow> fail error | Inl _ \<Rightarrow> fail (QErr (kind error) msg))
         | Inl _ \<Rightarrow> fail error)) (\<lambda>_. ?D) (\<lambda>_. ?P) ?P d'"
    if s: "publishing host env ?x d0 d'" for d' m error msg
  proof -
    have q: "?P d'" using s by (simp add: publishing_def)
    have cleanup: "wp F (bind_io (attempt (unlink_exact host env ?x m)) (\<lambda>cleanup.
             case cleanup of Inr _ \<Rightarrow> fail error | Inl _ \<Rightarrow> fail (QErr (kind error) msg))) (\<lambda>_. ?D) (\<lambda>_. ?P) ?P d'"
      if "dk_spaces d' MARKER_FILE = None"
    proof -
      obtain i c where st: "staged_at host ?x i c d0 d'" using s \<open>dk_spaces d' MARKER_FILE = None\<close> by (auto simp: publishing_def)
      show ?thesis
        unfolding attempt_def
        by (intro wp_bind wp_catch, rule wp_conseq [OF wp_unlink_staged [OF U st]])
          (auto intro!: wp_ret wp_bind wp_fail staged_publication(2))
    qed
    show ?thesis
      unfolding attempt_def entry_exists_def
      by (intro wp_bind wp_catch wp_read_entry wp_ret)
        (use q cleanup in \<open>auto intro!: wp_ret wp_fail simp: attempt_def split: bool.splits\<close>)
  qed
  have fresh: "wp F (bind_io (lift (fe_suffix env)) (\<lambda>suffix.
       let temporary = staging_file suffix in
       bind_io (create_visible_staging host env temporary) (\<lambda>staging.
       catch (publish_visible_marker host env temporary staging) (\<lambda>error.
         bind_io (attempt (entry_exists MARKER_FILE)) (\<lambda>probe.
         case probe of
           Inr True \<Rightarrow> fail error
         | Inr False \<Rightarrow>
             bind_io (attempt (unlink_exact host env temporary staging)) (\<lambda>cleanup.
             case cleanup of
               Inr _ \<Rightarrow> fail error
             | Inl _ \<Rightarrow> fail (QErr (kind error)
                 ''root-format publication failed and its exact staging file could not be reclaimed''))
         | Inl _ \<Rightarrow> fail error))))) (\<lambda>_. ?D) (\<lambda>_. ?P) ?P d'"
    if u: "unpublished d0 d'" for d'
    unfolding suffix(1) Let_def
  proof (intro wp_bind [of _ "lift _"] wp_lift staged_publication(2) [OF u])
    fix suffix'
    assume "Ok suffix = Ok suffix'"
    then have eq: "suffix' = suffix" by simp
    show "wp F (bind_io (create_visible_staging host env (staging_file suffix')) (\<lambda>staging.
       catch (publish_visible_marker host env (staging_file suffix') staging) (\<lambda>error.
         bind_io (attempt (entry_exists MARKER_FILE)) (\<lambda>probe.
         case probe of
           Inr True \<Rightarrow> fail error
         | Inr False \<Rightarrow>
             bind_io (attempt (unlink_exact host env (staging_file suffix') staging)) (\<lambda>cleanup.
             case cleanup of
               Inr _ \<Rightarrow> fail error
             | Inl _ \<Rightarrow> fail (QErr (kind error)
                 ''root-format publication failed and its exact staging file could not be reclaimed''))
         | Inl _ \<Rightarrow> fail error)))) (\<lambda>_. ?D) (\<lambda>_. ?P) ?P d'"
      unfolding eq
    proof (rule wp_bind, rule wp_conseq [OF wp_create_staging [OF U u x]], elim exE conjE)
      fix staging d'' i
      assume r: "ready_at host env ?x i d0 d''" and m: "same_inode staging (linked_stat (h_uid host) i 0 1)"
      show "wp F (catch (publish_visible_marker host env ?x staging) (\<lambda>error.
           bind_io (attempt (entry_exists MARKER_FILE)) (\<lambda>probe.
           case probe of
             Inr True \<Rightarrow> fail error
           | Inr False \<Rightarrow>
               bind_io (attempt (unlink_exact host env ?x staging)) (\<lambda>cleanup.
               case cleanup of
                 Inr _ \<Rightarrow> fail error
               | Inl _ \<Rightarrow> fail (QErr (kind error)
                   ''root-format publication failed and its exact staging file could not be reclaimed''))
           | Inl _ \<Rightarrow> fail error))) (\<lambda>_. ?D) (\<lambda>_. ?P) ?P d''"
        by (intro wp_catch, rule wp_conseq [OF wp_publish [OF U r m]]) (assumption | rule handler)+
    qed
  qed
  have again: "wp F (bind_io (read_root_marker host env) (\<lambda>marker. if marker \<noteq> None then ret () else f)) (\<lambda>_. ?D) (\<lambda>_. ?P) ?P d'"
    if s: "settled_root host env d0 d'" and f: "\<And>d'. unpublished d0 d' \<Longrightarrow> wp F f (\<lambda>_. ?D) (\<lambda>_. ?P) ?P d'" for d' f
  proof -
    have q: "?P d'" using s by (auto simp: settled_root_def publication_def)
    show ?thesis
    proof (intro wp_bind wp_marker_presence q)
      fix r
      assume r: "(r = None) = (dk_spaces d' MARKER_FILE = None)"
      show "wp F (if r \<noteq> None then ret () else f) (\<lambda>_. ?D) (\<lambda>_. ?P) ?P d'"
        using s f [of d'] r unmarked_facts(1) [OF U]
        by (auto simp: settled_root_def unpublished_def published_root_def intro!: wp_ret)
    qed
  qed
  show ?thesis
    unfolding attempt_visible_marker_def
    by (rule wp_bind, rule wp_conseq [OF wp_recover_publication [OF U p]],
        rule wp_bind, rule wp_conseq [OF wp_reclaim_safe_staging [OF U]])
      (assumption | rule again fresh)+
qed

text \<open>
  C26: The publication of the root-format marker is atomic. From a root directory that holds no
  marker, or from any state that an earlier attempt left, whatever system call fails and wherever
  the process stops, the root holds its old entries and nothing else, or in addition one staging
  file under a valid staging name, or that file linked under the marker name as well, with the
  complete marker as content, or the complete marker alone; an attempt that returns has published it.
\<close>

theorem marker_publication_is_atomic:
  assumes "unmarked_root host d0" and "usable_env host env" and "publication host env d0 d"
  shows "case attempt_visible_marker host env (d, script) of (r, d', rest) \<Rightarrow>
     publication host env d0 d' \<and> (r = Done () \<longrightarrow> published_root host env d0 d')"
proof -
  obtain r d' rest where run: "attempt_visible_marker host env (d, script) = (r, d', rest)" by (rule prod_cases3)
  show ?thesis
    unfolding run using wp_any_script [OF wp_attempt_visible_marker [OF assms] run] publication_intros(4) [of host env d0 d']
    by (cases r) auto
qed

definition rf_root :: file_stat where "rf_root = (created_stat 0 5 0)\<lparr>st_mode := 16832\<rparr>"

definition rf_env :: format_env where
  "rf_env = \<lparr>fe_root = SysOk rf_root, fe_held = rf_root, fe_suffix = Ok ''1-2-3'', fe_version = ''1'',
     fe_header = (\<lambda>_. Some 1), fe_marker = (\<lambda>_. Some \<lparr>mk_schema_version = 1, mk_root_format = Visible, mk_writer_version = ''1''\<rparr>),
     fe_bytes = (\<lambda>_. ''v'')\<rparr>"

definition rf_disk :: disk where
  "rf_disk = \<lparr>dk_spaces = [''spaces'' \<mapsto> DirNode (rb_dir 10)], dk_trash = [], dk_next = 100\<rparr>"

lemma rf_unmarked: "unmarked_root rn_host rf_disk"
proof -
  have dom: "dom (dk_spaces rf_disk) = {''spaces''}" by (simp add: rf_disk_def)
  show ?thesis
    unfolding unmarked_root_def dom
    by (simp add: rf_disk_def enumerates_def rn_host_sel MAX_ROOT_ENTRIES_def MARKER_FILE_def STAGING_PREFIX_def starts_with_def
        unused_inode_def)
qed

lemma rf_usable: "usable_env rn_host rf_env"
  by (simp add: usable_env_def rf_env_def rn_host_sel validate_store_root_def rf_root_def created_stat_def s_kind_def S_IFMT_def S_IFDIR_def
      same_inode_def SCHEMA_VERSION_def MAX_MARKER_FILE_BYTES_def visible_marker_def valid_writer_version_def valid_unique_suffix_def
      ascii_defs Let_def)

theorem marker_publication_is_atomic_witness:
  "case attempt_visible_marker rn_host rf_env (rf_disk, [Go, Go, Go, Go, Crash 0]) of (r, d', rest) \<Rightarrow> publication rn_host rf_env rf_disk d'"
proof -
  have "publication rn_host rf_env rf_disk rf_disk" by (simp add: publication_def unpublished_def)
  from marker_publication_is_atomic [OF rf_unmarked rf_usable this, of "[Go, Go, Go, Go, Crash 0]"] show ?thesis
    by (auto split: prod.splits)
qed

end
