(* ===== verification/Root_Completion.thy ===== *)
theory Root_Completion
  imports Root_Publication
begin

text \<open>
  Undisturbed attempts to publish the root-format marker: each step returns, whatever state earlier
  attempts left, and the root ends with the complete marker and its other entries as they were.
\<close>

subsection \<open>Steps\<close>

lemma runs_inspect_root: "fe_root env = SysOk m \<Longrightarrow> Q m d \<Longrightarrow> runs (inspect_root env a) Q d"
  unfolding inspect_root_def by (rule runs_syscall) auto

lemma runs_open_root: "Q (fe_held env) d \<Longrightarrow> runs (open_root env) Q d"
  unfolding open_root_def by (intro runs_bind runs_syscall) auto

lemma usable_root:
  assumes "usable_env host env"
  obtains m where "fe_root env = SysOk m" "validate_store_root (h_uid host) m = Ok ()" "same_inode (fe_held env) m"
  using assms by (auto simp: usable_env_def)

lemma runs_sync_root:
  assumes V: "usable_env host env" and Q: "Q () d"
  shows "runs (sync_root host env) Q d"
proof -
  obtain m where m: "fe_root env = SysOk m" "validate_store_root (h_uid host) m = Ok ()" using usable_root [OF V] by metis
  show ?thesis
    unfolding sync_root_def
    by (intro runs_bind [of "inspect_root _ _"] runs_inspect_root [OF m(1)] runs_bind [of "lift _"] runs_lift [OF m(2)]
        runs_bind [of "syscall _ _ _"] runs_syscall [OF refl] runs_sync_directory Q)
qed

lemma runs_unlink_exact:
  assumes V: "usable_env host env" and found: "dk_spaces d x = Some (FileNode m b)" "same_inode m expected"
    and Q: "Q () (d\<lparr>dk_spaces := relink m (st_nlink m - 1) ((dk_spaces d)(x := None))\<rparr>)"
  shows "runs (unlink_exact host env x expected) Q d"
proof -
  obtain r where r: "fe_root env = SysOk r" "validate_store_root (h_uid host) r = Ok ()" "same_inode (fe_held env) r"
    using usable_root [OF V] by metis
  have gone: "runs (unlink_entry a x) Q d" for a
    unfolding unlink_entry_def by (rule runs_syscall) (use found Q in auto)
  show ?thesis
    unfolding unlink_exact_def
    by (intro runs_bind [of "inspect_root _ _"] runs_inspect_root [OF r(1)] runs_bind [of "lift _"] runs_lift [OF r(2)]
        runs_bind [of "open_root _"] runs_open_root)
      (use r(3) found gone in \<open>auto intro!: runs_bind [of "read_entry _ _"] runs_read_entry\<close>)
qed

lemma runs_require_entry: "dk_spaces d x = Some n \<Longrightarrow> Q (node_stat n) d \<Longrightarrow> runs (require_entry a x) Q d"
  unfolding require_entry_def by (intro runs_bind runs_read_entry) (auto intro: runs_ret)

lemma runs_scan_root:
  assumes start: "I (h_order host (dk_spaces d)) s d" and bound: "length (h_order host (dk_spaces d)) \<le> MAX_ROOT_ENTRIES"
    and body: "\<And>x xs s d. I (x # xs) s d \<Longrightarrow> runs (body x s) (I xs) d"
  shows "runs (scan_root host a body s) (I []) d"
proof -
  let ?J = "\<lambda>xs (st :: nat \<times> 'a) d'. fst st + length xs \<le> MAX_ROOT_ENTRIES \<and> I xs (snd st) d'"
  have "runs (iterate (root_entry a body) (h_order host (dk_spaces d)) (0, s)) (?J []) d"
  proof (rule runs_iterate)
    fix x xs and st :: "nat \<times> 'a" and d'
    assume J: "?J (x # xs) st d'"
    then have le: "sat_add (fst st) 1 = Suc (fst st)" "\<not> MAX_ROOT_ENTRIES < Suc (fst st)" "I (x # xs) (snd st) d'"
      by (auto simp: MAX_ROOT_ENTRIES_def sat_add_def u64_max_num)
    have step: "runs (body x (snd st)) (\<lambda>s. runs (ret (Suc (fst st), s)) (?J xs)) d'"
      by (rule runs_conseq [OF body [OF le(3)]]) (use J in \<open>auto intro: runs_ret\<close>)
    show "runs (root_entry a body x st) (?J xs) d'"
      unfolding root_entry_def Let_def le(1) if_not_P [OF le(2)]
      by (intro runs_bind [of "next_entry _"] runs_next_entry runs_bind [of "body x (snd st)"] step)
  qed (use start bound in simp)
  then have "runs (iterate (root_entry a body) (h_order host (dk_spaces d)) (0, s)) (\<lambda>st. runs (ret (snd st)) (I [])) d"
    by (rule runs_conseq) (auto intro: runs_ret)
  then show ?thesis unfolding scan_root_def by (intro runs_bind runs_read_dir)
qed

subsection \<open>The marker as published\<close>

lemma usable_bytes:
  assumes "usable_env host env"
  shows "parse_root_marker env (marker_bytes env) = Ok Visible" "length (marker_bytes env) \<le> MAX_MARKER_FILE_BYTES"
  using assms by (auto simp: usable_env_def Let_def parse_root_marker_def marker_bytes_def visible_marker_def)

lemma runs_read_bounded:
  assumes "dk_spaces d x = Some (marker_file host env i k)" and "usable_env host env" and "Q (marker_bytes env) d"
  shows "runs (read_bounded host x (length (marker_bytes env)) k) Q d"
proof -
  have "\<not> MAX_MARKER_FILE_BYTES < length (marker_bytes env)" using usable_bytes(2) [OF assms(2)] by simp
  moreover have "take (Suc MAX_MARKER_FILE_BYTES) (marker_bytes env) = marker_bytes env" using usable_bytes(2) [OF assms(2)] by simp
  ultimately show ?thesis
    unfolding read_bounded_def if_not_P [OF \<open>\<not> MAX_MARKER_FILE_BYTES < length (marker_bytes env)\<close>]
    by (intro runs_bind [of "read_entry _ _"] runs_read_entry)
      (auto simp: assms(1,3) marker_file_def intro!: runs_bind [of "lift _"] runs_lift runs_bind [of "syscall _ _ _"] runs_syscall runs_ret)
qed

lemma runs_read_root_marker:
  assumes "runs (read_marker_once host env) (\<lambda>r d'. r = Resolved f \<and> Q f d') d"
  shows "runs (read_root_marker host env) Q d"
proof -
  have eight: "MAX_MARKER_REPLACEMENT_READS = Suc 7" by (simp add: MAX_MARKER_REPLACEMENT_READS_def)
  show ?thesis
    unfolding read_root_marker_def eight read_root_marker_attempts.simps
    by (intro runs_bind runs_conseq [OF assms]) (auto intro: runs_ret)
qed

lemma runs_read_no_marker: "dk_spaces d MARKER_FILE = None \<Longrightarrow> Q None d \<Longrightarrow> runs (read_root_marker host env) Q d"
  by (rule runs_read_root_marker [where f = None])
    (auto simp: read_marker_once_def intro!: runs_bind [of "read_entry _ _"] runs_read_entry runs_ret)

lemma runs_read_published:
  assumes V: "usable_env host env" and p: "published_root host env d0 d" and Q: "Q (Some Visible) d"
  shows "runs (read_root_marker host env) Q d"
proof -
  obtain i where entry: "dk_spaces d MARKER_FILE = Some (marker_file host env i 1)" using p by (auto simp: published_root_def)
  have content: "runs (attempt (read_bounded host MARKER_FILE (length (marker_bytes env)) (Suc 0))) Q' d" if "Q' (Inr (marker_bytes env)) d" for Q'
    by (intro runs_attempt runs_read_bounded [OF _ V] that) (use entry in simp)
  have "runs (read_marker_once host env) (\<lambda>r d'. r = Resolved (Some Visible) \<and> Q (Some Visible) d') d"
    unfolding read_marker_once_def
    by (intro runs_bind [of "read_entry _ _"] runs_read_entry)
      (use Q in \<open>auto simp: entry Let_def usable_bytes(1) [OF V]
         intro!: runs_bind [of "lift _"] runs_lift runs_bind [of "ret _"] runs_ret runs_bind [of "attempt _"] content\<close>)
  then show ?thesis by (rule runs_read_root_marker)
qed

subsection \<open>Recovery and reclamation\<close>

lemma listed_root:
  assumes U: "unmarked_root host d0" and p: "publication host env d0 d"
  shows "set (h_order host (dk_spaces d)) = dom (dk_spaces d)" "distinct (h_order host (dk_spaces d))"
    "length (h_order host (dk_spaces d)) \<le> MAX_ROOT_ENTRIES"
proof -
  have sub: "\<exists>x. dom (dk_spaces d) \<subseteq> insert x (insert MARKER_FILE (dom (dk_spaces d0)))"
    using p by (auto simp: publication_def unpublished_def staged_at_def linked_at_def published_root_def)
  then obtain x where sub: "dom (dk_spaces d) \<subseteq> insert x (insert MARKER_FILE (dom (dk_spaces d0)))" by blast
  have fin: "finite (dom (dk_spaces d0))" "card (dom (dk_spaces d0)) + 2 \<le> MAX_ROOT_ENTRIES" and e: "enumerates host"
    using U by (auto simp: unmarked_root_def)
  then have fd: "finite (dom (dk_spaces d))" using sub finite_subset by blast
  show names: "set (h_order host (dk_spaces d)) = dom (dk_spaces d)" and dist: "distinct (h_order host (dk_spaces d))"
    using e fd by (auto simp: enumerates_def)
  have "card (dom (dk_spaces d)) \<le> card (insert x (insert MARKER_FILE (dom (dk_spaces d0))))"
    by (rule card_mono [OF _ sub]) (use fin in simp)
  also have "\<dots> \<le> card (dom (dk_spaces d0)) + 2"
    using fin(1) by (simp add: card_insert_if)
  finally show "length (h_order host (dk_spaces d)) \<le> MAX_ROOT_ENTRIES"
    using fin(2) distinct_card [OF dist] names by simp
qed

lemma runs_matching:
  assumes U: "unmarked_root host d0" and l: "linked_at host env x i d0 d"
    and Q: "Q (Some x) d"
  shows "runs (matching_publication_staging host (linked_stat (h_uid host) i len k)) Q d"
proof -
  let ?m = "linked_stat (h_uid host) i len k"
  let ?I = "\<lambda>xs r d'. d' = d \<and> distinct xs \<and> set xs \<subseteq> dom (dk_spaces d) \<and> r = (if x \<in> set xs then None else Some x)"
  note names = listed_root [OF U publication_intros(3) [OF l]]
  have x: "valid_staging_name x" "x \<in> dom (dk_spaces d)" using l linked_entries(2) [OF U l] by (auto simp: linked_at_def)
  have "runs (matching_publication_staging host ?m) (?I []) d"
    unfolding matching_publication_staging_def
  proof (rule runs_scan_root [OF _ names(3)])
    show "?I (h_order host (dk_spaces d)) None d" using names x by simp
  next
    fix y :: string and ys r d'
    assume I: "?I (y # ys) r d'"
    show "runs (if \<not> has_str y then ret r
       else if \<not> valid_staging_name y then ret r
       else bind_io (require_entry ''inspect interrupted root-format staging'' y) (\<lambda>metadata.
         if \<not> same_inode metadata ?m then ret r
         else if r \<noteq> None then lift (layout_error ''the interrupted root-format publication has multiple staging links'')
         else ret (Some y))) (?I ys) d'"
    proof (cases "valid_staging_name y")
      case False
      then have "y \<noteq> x" using x(1) by auto
      with False I show ?thesis by (auto intro!: runs_ret)
    next
      case True
      have "dk_spaces d y \<noteq> None" using I by auto
      then have "y = x" using linked_entries(3) [OF U l True] by blast
      then show ?thesis
        using True I linked_entries(2) [OF U l] staging_name_has_str [OF True] by (auto intro!: runs_bind [of "require_entry _ _"] runs_require_entry runs_ret)
    qed
  qed
  then show ?thesis by (rule runs_conseq) (use Q in auto)
qed

lemma runs_recover_publication:
  assumes U: "unmarked_root host d0" and V: "usable_env host env" and p: "publication host env d0 d"
  shows "runs (recover_interrupted_publication host env) (\<lambda>_. calm host env d0) d"
proof (cases "\<exists>x i. linked_at host env x i d0 d")
  case False
  then have c: "calm host env d0 d" using p by (auto simp: calm_def publication_def)
  then show ?thesis
    unfolding recover_interrupted_publication_def
    by (intro runs_bind [of "read_entry _ _"] runs_read_entry)
      (auto dest: calm_marker(2) [OF U c] intro!: runs_ret split: option.splits)
next
  case True
  then obtain x i where l: "linked_at host env x i d0 d" by blast
  note e = linked_entries [OF U l]
  let ?m = "linked_stat (h_uid host) i (length (marker_bytes env)) 2"
  have verify: "runs (bind_io (sync_root host env) (\<lambda>_. bind_io (read_root_marker host env) (\<lambda>marker.
       if marker = Some Visible then ret () else lift (layout_error e)))) (\<lambda>_. calm host env d0) d'"
    if pr: "published_root host env d0 d'" for d' e
    by (intro runs_bind [of "sync_root _ _"] runs_sync_root [OF V] runs_bind [of "read_root_marker _ _"] runs_read_published [OF V pr])
      (use pr in \<open>auto simp: calm_def intro!: runs_ret\<close>)
  have unlink: "runs (unlink_exact host env x ?m) (\<lambda>_. published_root host env d0) d"
    by (rule runs_unlink_exact [OF V]) (use e(2) unlink_linked [OF U l] in \<open>auto simp: marker_file_def\<close>)
  have branch: "runs (case dk_spaces d MARKER_FILE of None \<Rightarrow> ret () | Some n \<Rightarrow> if st_nlink (node_stat n) = 1 then ret () else f n) Q d"
    if "runs (f (marker_file host env i 2)) Q d" for f Q
    using that by (simp add: e(1))
  show ?thesis
    unfolding recover_interrupted_publication_def
    by (intro runs_bind [of "read_entry _ _"] runs_read_entry, rule branch)
      (auto simp: usable_bytes(1) [OF V] intro!: runs_bind [of "lift _"] runs_lift runs_bind [of "read_bounded _ _ _ _"]
        runs_read_bounded [OF e(1) V] runs_bind [of "matching_publication_staging _ _"] runs_matching [OF U l]
        runs_bind [of "unlink_exact _ _ _ _"] runs_conseq [OF unlink] verify)
qed

lemma runs_reclaim_staging:
  assumes U: "unmarked_root host d0" and V: "usable_env host env" and c: "calm host env d0 d"
  shows "runs (reclaim_safe_staging host env) (\<lambda>_ _. True) d"
proof -
  let ?I = "\<lambda>ys (_ :: unit) d'. distinct ys \<and> set ys \<subseteq> dom (dk_spaces d') \<and> calm host env d0 d'"
  note names = listed_root [OF U calm_publication [OF c]]
  have "runs (reclaim_safe_staging host env) (?I []) d"
    unfolding reclaim_safe_staging_def
  proof (rule runs_scan_root [OF _ names(3)])
    fix y ys u d'
    assume I: "?I (y # ys) u d'"
    then obtain n where n: "dk_spaces d' y = Some n" by auto
    show "runs (if \<not> has_str y then ret ()
       else if \<not> starts_with y STAGING_PREFIX then ret ()
       else if \<not> valid_staging_name y then lift (layout_error ''a reserved root-format staging entry has an invalid name'')
       else bind_io (require_entry ''inspect root-format staging'' y) (\<lambda>metadata.
         bind_io (lift (validate_marker_metadata (h_uid host) 1 metadata)) (\<lambda>_. unlink_exact host env y metadata)))
       (?I ys) d'"
    proof (cases "starts_with y STAGING_PREFIX")
      case False
      with I show ?thesis by (auto intro: runs_ret)
    next
      case True
      then have old: "dk_spaces d0 y = None" "y \<noteq> MARKER_FILE" using U by (auto simp: unmarked_root_def)
      then obtain x i b where s: "staged_at host x i b d0 d'"
        using I n by (auto simp: calm_def unpublished_def published_root_def)
      then have x: "valid_staging_name x" "y = x" "dk_next d0 \<le> i" "dk_next d0 \<le> dk_next d'" using old n by (auto simp: staged_at_def split: if_splits)
      obtain len where d': "dk_spaces d' = (dk_spaces d0)(x \<mapsto> FileNode (linked_stat (h_uid host) i len 1) b)"
        using s by (auto simp: staged_at_def)
      let ?d = "d'\<lparr>dk_spaces := relink (linked_stat (h_uid host) i len 1) (1 - 1) ((dk_spaces d')(x := None))\<rparr>"
      have gone: "unpublished d0 ?d" by (rule unlink_staged [OF U x(1,3,4) d'])
      have "set ys \<subseteq> dom (dk_spaces d0)" using I d' x(2) by auto
      then have after: "?I ys () ?d" using I gone by (auto simp: calm_def unpublished_def)
      have "runs (unlink_exact host env y (linked_stat (h_uid host) i len 1)) (?I ys) d'"
        by (rule runs_unlink_exact [OF V, where m = "linked_stat (h_uid host) i len 1" and b = b]) (use d' x(2) after in auto)
      then show ?thesis
        using True x(1,2) d' staging_name_has_str [OF x(1)] by (auto intro!: runs_bind [of "require_entry _ _"] runs_require_entry runs_bind [of "lift _"] runs_lift)
    qed
  qed (use names c in auto)
  then show ?thesis by (rule runs_conseq) auto
qed

subsection \<open>Publication\<close>

lemma runs_create_staging:
  assumes x: "dk_spaces d x = None"
  shows "runs (create_visible_staging host env x) (\<lambda>_ _. True) d"
proof -
  have stat: "dk_spaces (put_file (h_uid host) x [] d) x = Some (FileNode (linked_stat (h_uid host) (dk_next d) 0 1) [])"
    by (simp add: put_file_def linked_stat_created)
  show ?thesis
    unfolding create_visible_staging_def create_new_def Let_def
    by (intro runs_bind [of "syscall _ _ _"] runs_syscall)
      (use stat x in \<open>auto intro!: runs_bind [of "require_entry _ _"] runs_require_entry runs_bind [of "lift _"] runs_lift
         runs_bind [of "attempt _"] runs_attempt runs_bind [of "syscall _ _ _"] runs_syscall runs_ret\<close>)
qed

lemma runs_publish_marker:
  assumes U: "unmarked_root host d0" and V: "usable_env host env" and r: "ready_at host env x i d0 d"
    and m: "same_inode m (linked_stat (h_uid host) i 0 1)"
  shows "runs (publish_visible_marker host env x m) (\<lambda>_ _. True) d"
proof -
  note e = link_ready [OF U r]
  have verify: "runs (bind_io (sync_root host env) (\<lambda>_. bind_io (read_root_marker host env) (\<lambda>marker.
       if marker = Some Visible then ret () else lift (layout_error e)))) (\<lambda>_ _. True) d'"
    if pr: "published_root host env d0 d'" for d' e
    by (intro runs_bind [of "sync_root _ _"] runs_sync_root [OF V] runs_bind [of "read_root_marker _ _"] runs_read_published [OF V pr])
      (auto intro!: runs_ret)
  have unlink: "runs (unlink_exact host env x m) (\<lambda>_. published_root host env d0) d'" if l: "linked_at host env x i d0 d'" for d'
    by (rule runs_unlink_exact [OF V, where m = "linked_stat (h_uid host) i (length (marker_bytes env)) 2" and b = "marker_bytes env"])
      (use linked_entries(2) [OF U l] unlink_linked [OF U l] m in \<open>auto simp: marker_file_def same_inode_def\<close>)
  have link: "runs (hard_link a x MARKER_FILE) (\<lambda>_. linked_at host env x i d0) d" for a
    unfolding hard_link_def by (rule runs_syscall) (use e in \<open>auto simp: marker_file_def numeral_2_eq_2\<close>)
  have same: "same_inode (linked_stat (h_uid host) i (length (marker_bytes env)) 1) m"
    using m by (auto simp: same_inode_def)
  show ?thesis
    unfolding publish_visible_marker_def
    by (intro runs_bind [of "require_entry _ _"] runs_require_entry [OF e(1)] runs_bind [of "lift _"])
      (use same in \<open>auto intro!: runs_lift runs_bind [of "hard_link _ _ _"] runs_conseq [OF link] runs_bind [of "unlink_exact _ _ _ _"]
         runs_conseq [OF unlink] verify\<close>)
qed

lemma runs_attempt_visible_marker:
  assumes U: "unmarked_root host d0" and V: "usable_env host env" and p: "publication host env d0 d"
  shows "runs (attempt_visible_marker host env) (\<lambda>_ _. True) d"
proof -
  obtain suffix where suffix: "fe_suffix env = Ok suffix" "valid_unique_suffix suffix" using V by (auto simp: usable_env_def)
  let ?x = "staging_file suffix"
  have x: "valid_staging_name ?x" by (rule staging_file_valid [OF suffix(2)])
  have staging: "runs (create_visible_staging host env ?x)
       (\<lambda>m d''. \<exists>i. ready_at host env ?x i d0 d'' \<and> same_inode m (linked_stat (h_uid host) i 0 1)) d'"
    if u: "unpublished d0 d'" for d'
  proof -
    have "dk_spaces d' ?x = None" using u unmarked_facts(2) [OF U x] by (simp add: unpublished_def)
    from runs_wp [OF runs_create_staging [OF this] wp_create_staging [OF U u x, where F = "\<lambda>_. True"]] show ?thesis
      by (rule runs_conseq) auto
  qed
  have fresh: "runs (bind_io (create_visible_staging host env ?x) (\<lambda>m. catch (publish_visible_marker host env ?x m) (h m)))
       (\<lambda>_ _. True) d'" if "unpublished d0 d'" for d' h
    by (intro runs_bind runs_conseq [OF staging [OF that]], elim exE conjE, intro runs_catch runs_publish_marker [OF U V])
  have again: "runs (bind_io (read_root_marker host env) (\<lambda>marker. if marker \<noteq> None then ret () else f)) (\<lambda>_ _. True) d'"
    if s: "settled_root host env d0 d'" and f: "\<And>d'. unpublished d0 d' \<Longrightarrow> runs f (\<lambda>_ _. True) d'" for d' f
    using s unfolding settled_root_def
  proof (elim disjE)
    assume u: "unpublished d0 d'"
    then have "dk_spaces d' MARKER_FILE = None" using unmarked_facts(1) [OF U] by (simp add: unpublished_def)
    then show ?thesis by (intro runs_bind [of "read_root_marker _ _"] runs_read_no_marker) (use f [OF u] in auto)
  next
    assume "published_root host env d0 d'"
    then show ?thesis by (intro runs_bind [of "read_root_marker _ _"] runs_read_published [OF V]) (auto intro: runs_ret)
  qed
  have reclaim: "runs (reclaim_safe_staging host env) (\<lambda>_. settled_root host env d0) d'" if c: "calm host env d0 d'" for d'
    by (rule runs_conseq [OF runs_wp [OF runs_reclaim_staging [OF U V c] wp_reclaim_safe_staging [OF U c]]])
      simp
  show ?thesis
    unfolding attempt_visible_marker_def suffix(1) Let_def
    by (intro runs_bind [of "recover_interrupted_publication _ _"] runs_conseq [OF runs_recover_publication [OF U V p]]
        runs_bind [of "reclaim_safe_staging _ _"] runs_conseq [OF reclaim] again)
      (auto intro!: runs_bind [of "lift _"] runs_lift fresh)
qed

subsection \<open>Any number of interrupted attempts\<close>

text \<open>Each attempt has its own staging suffix and stops where its script says.\<close>

fun marker_attempts :: "store_host \<Rightarrow> format_env \<Rightarrow> (string \<times> fault list) list \<Rightarrow> disk \<Rightarrow> disk" where
  "marker_attempts host env [] d = d"
| "marker_attempts host env ((suffix, script) # rest) d =
     (case attempt_visible_marker host (env\<lparr>fe_suffix := Ok suffix\<rparr>) (d, script) of
        (_, d', _) \<Rightarrow> marker_attempts host env rest d')"

lemma publication_suffix [simp]: "publication host (env\<lparr>fe_suffix := s\<rparr>) d0 d = publication host env d0 d"
proof -
  have "marker_bytes (env\<lparr>fe_suffix := s\<rparr>) = marker_bytes env" by (simp add: marker_bytes_def visible_marker_def)
  then show ?thesis by (simp add: publication_def linked_at_def published_root_def marker_file_def)
qed

lemma publication_suffix_eq: "publication host (env\<lparr>fe_suffix := s\<rparr>) = publication host env"
  by (intro ext) simp

lemma usable_suffix: "usable_env host env \<Longrightarrow> valid_unique_suffix suffix \<Longrightarrow> usable_env host (env\<lparr>fe_suffix := Ok suffix\<rparr>)"
  by (auto simp: usable_env_def visible_marker_def)

lemma marker_attempts_publication:
  assumes U: "unmarked_root host d0" and V: "usable_env host env"
  shows "publication host env d0 d \<Longrightarrow> list_all (\<lambda>attempt. valid_unique_suffix (fst attempt)) history \<Longrightarrow>
     publication host env d0 (marker_attempts host env history d)"
proof (induction history arbitrary: d)
  case (Cons attempt rest)
  obtain suffix script where a: "attempt = (suffix, script)" by (cases attempt)
  then have v: "usable_env host (env\<lparr>fe_suffix := Ok suffix\<rparr>)" using Cons.prems(2) usable_suffix [OF V] by simp
  obtain r d' s where run: "attempt_visible_marker host (env\<lparr>fe_suffix := Ok suffix\<rparr>) (d, script) = (r, d', s)" by (rule prod_cases3)
  have "post (\<lambda>_. published_root host (env\<lparr>fe_suffix := Ok suffix\<rparr>) d0) (\<lambda>_. publication host env d0) (publication host env d0) r d'"
    using wp_any_script [OF wp_attempt_visible_marker [OF U v] run] Cons.prems(1) by (simp add: publication_suffix_eq)
  then have "publication host env d0 d'"
    using publication_intros(4) [of host "env\<lparr>fe_suffix := Ok suffix\<rparr>" d0 d'] by (cases r) auto
  then show ?case using Cons a run by simp
qed simp

text \<open>
  C27: An interrupted publication of the root-format marker converges. After any number of attempts on
  a root without a marker, each with its own staging suffix and each failed or stopped at any
  system call, one undisturbed attempt returns, and the root then holds the complete marker and
  exactly the entries that it held before the first attempt.
\<close>

theorem interrupted_publication_converges:
  assumes "unmarked_root host d0" and "usable_env host env"
    and "list_all (\<lambda>attempt. valid_unique_suffix (fst attempt)) history"
  shows "\<exists>d'. attempt_visible_marker host env (marker_attempts host env history d0, []) = (Done (), d', []) \<and>
     published_root host env d0 d'"
proof -
  have "publication host env d0 d0" by (simp add: publication_def unpublished_def)
  from marker_attempts_publication [OF assms(1,2) this assms(3)]
  have p: "publication host env d0 (marker_attempts host env history d0)" .
  obtain d' where run: "attempt_visible_marker host env (marker_attempts host env history d0, []) = (Done (), d', [])"
    using runs_attempt_visible_marker [OF assms(1,2) p] by (auto simp: runs_def)
  from wp_any_script [OF wp_attempt_visible_marker [OF assms(1,2) p] run] run show ?thesis by auto
qed

theorem interrupted_publication_converges_witness:
  "\<exists>d'. attempt_visible_marker rn_host rf_env
       (marker_attempts rn_host rf_env [(''1-2-4'', [Go, Go, Go, Go, Crash 0]), (''1-2-5'', [Go, Fault 0])] rf_disk, []) = (Done (), d', []) \<and>
     published_root rn_host rf_env rf_disk d'"
proof -
  have "valid_unique_suffix ''1-2-4''" "valid_unique_suffix ''1-2-5''"
    by (simp_all add: valid_unique_suffix_def ascii_defs)
  then show ?thesis by (intro interrupted_publication_converges [OF rf_unmarked rf_usable]) simp
qed

end
