(* ===== verification/Mount_Topology.thy ===== *)
theory Mount_Topology
  imports Environment "HOL-Library.Sublist"
begin

text \<open>
  The mount topology of the confinement policy, \<open>platform/linux/confinement/mounts.rs\<close>: the bounded
  parser of \<open>/proc/self/mountinfo\<close>, the placement of a path on its filesystem, and the refusal of a
  grant that a bind, subtree or nested mount connects to protected state.

  A path is the list of its components, on which \<open>Path::starts_with\<close>, \<open>strip_prefix\<close>, \<open>join\<close> and the
  equality of paths work. The answers of \<open>statx\<close> are inputs.
\<close>

subsection \<open>Lines of mountinfo\<close>

type_synonym path = "path_component list"

record mount =
  mt_id :: nat
  mt_device :: "nat \<times> nat"
  mt_root :: "path option"
  mt_point :: path

definition MAX_MOUNTINFO_BYTES :: nat where "MAX_MOUNTINFO_BYTES = 1048576"
definition MAX_MOUNTS :: nat where "MAX_MOUNTS = 8192"
definition MAX_LINE_BYTES :: nat where "MAX_LINE_BYTES = 16384"

abbreviation newline :: char where "newline \<equiv> CHR 0x0A"
abbreviation backslash :: char where "backslash \<equiv> CHR 0x5C"

definition invalid_mountinfo :: "'a result" where
  "invalid_mountinfo = Err Unsupported ''filesystem policy mount topology is malformed''"

definition unlocated :: "'a result" where
  "unlocated = Err Unsupported ''a filesystem policy path cannot be located in the mount topology''"

definition digit_value :: "char \<Rightarrow> nat" where
  "digit_value c = of_char c - 48"

definition digits_value :: "nat \<Rightarrow> string \<Rightarrow> nat" where
  "digits_value base digits = foldl (\<lambda>v c. v * base + digit_value c) 0 digits"

definition parse_digits :: "nat \<Rightarrow> string \<Rightarrow> nat result" where
  "parse_digits limit field =
     (if field = [] \<or> \<not> list_all is_ascii_digit field then invalid_mountinfo
      else if limit < digits_value 10 field then invalid_mountinfo
      else Ok (digits_value 10 field))"

definition parse_number :: "string \<Rightarrow> nat result" where
  "parse_number field = parse_digits u64_max field"

definition parse_device :: "string \<Rightarrow> (nat \<times> nat) result" where
  "parse_device field =
     (let major = takeWhile (\<lambda>c. c \<noteq> CHR '':'') field; rest = dropWhile (\<lambda>c. c \<noteq> CHR '':'') field in
      if rest = [] then invalid_mountinfo
      else rbind (parse_digits u32_max major) (\<lambda>a. rbind (parse_digits u32_max (tl rest)) (\<lambda>b. Ok (a, b))))"

definition is_octal :: "char \<Rightarrow> bool" where
  "is_octal c \<longleftrightarrow> byte_in (CHR ''0'') (CHR ''7'') c"

fun decode_path :: "string \<Rightarrow> string result" where
  "decode_path [] = Ok []"
| "decode_path (c # cs) =
     (if c = backslash then
        (case cs of
           a # b # d # rest \<Rightarrow>
             if \<not> list_all is_octal [a, b, d] then invalid_mountinfo
             else
               (let v = digits_value 8 [a, b, d] in
                if 255 < v then invalid_mountinfo
                else rbind (decode_path rest) (\<lambda>output. Ok (char_of v # output)))
         | _ \<Rightarrow> invalid_mountinfo)
      else rbind (decode_path cs) (\<lambda>output. Ok (c # output)))"

definition parse_line :: "string \<Rightarrow> mount result" where
  "parse_line line =
     (let fields = split_on (CHR '' '') line; separator = length (takeWhile (\<lambda>field. field \<noteq> ''-'') fields) in
      if separator = length fields then invalid_mountinfo
      else if separator < 6 \<or> length fields \<noteq> separator + 4 \<or> list_ex (\<lambda>field. field = []) (take 5 fields)
      then invalid_mountinfo
      else if \<not> list_all is_ascii_digit (fields ! 1) then invalid_mountinfo
      else
        rbind (parse_number (fields ! 0)) (\<lambda>ident.
        rbind (parse_device (fields ! 2)) (\<lambda>device.
        rbind (decode_path (fields ! 3)) (\<lambda>root.
        rbind (decode_path (fields ! 4)) (\<lambda>point.
        if \<not> is_absolute point then invalid_mountinfo
        else Ok \<lparr>mt_id = ident, mt_device = device,
                 mt_root = (if is_absolute root then Some (path_components root) else None),
                 mt_point = path_components point\<rparr>)))))"

definition parse_counted :: "nat \<times> mount list \<Rightarrow> string \<Rightarrow> (nat \<times> mount list) result" where
  "parse_counted st line =
     (case st of (count, mounts) \<Rightarrow>
        if MAX_MOUNTS \<le> count then Err ResourceLimit ''mount topology exceeds 8,192 entries''
        else if MAX_LINE_BYTES < length line then Err ResourceLimit ''mount topology line exceeds 16 KiB''
        else rbind (parse_line line) (\<lambda>m. Ok (Suc count, mounts @ [m])))"

definition parse_topology :: "string \<Rightarrow> mount list result" where
  "parse_topology bytes =
     (if bytes = [] \<or> last bytes \<noteq> newline then invalid_mountinfo
      else
        rbind (rfold parse_counted (0, []) (split_on newline (butlast bytes))) (\<lambda>st.
        if snd st = [] then invalid_mountinfo else Ok (snd st)))"

definition read_topology :: "string sys \<Rightarrow> mount list result" where
  "read_topology mountinfo =
     (case mountinfo of
        SysOk content \<Rightarrow>
          (let bytes = take (MAX_MOUNTINFO_BYTES + 1) content in
           if MAX_MOUNTINFO_BYTES < length bytes then Err ResourceLimit ''mount topology exceeds one MiB''
           else parse_topology bytes)
      | _ \<Rightarrow> Err SystemError ''read filesystem policy mount topology'')"

subsection \<open>Regions\<close>

record region =
  rg_device :: "nat \<times> nat"
  rg_path :: path

definition region_overlaps :: "region \<Rightarrow> region \<Rightarrow> bool" where
  "region_overlaps a b \<longleftrightarrow>
     rg_device a = rg_device b \<and> (prefix (rg_path b) (rg_path a) \<or> prefix (rg_path a) (rg_path b))"

text \<open>\<open>Path::strip_prefix\<close>.\<close>

definition strip_path :: "path \<Rightarrow> path \<Rightarrow> path option" where
  "strip_path p base = (if prefix base p then Some (drop (length base) p) else None)"

definition mounts_beneath :: "mount list \<Rightarrow> path \<Rightarrow> region list" where
  "mounts_beneath mounts p =
     List.map_filter (\<lambda>m. map_option (\<lambda>root. \<lparr>rg_device = mt_device m, rg_path = root\<rparr>) (mt_root m))
       (filter (\<lambda>m. mt_point m \<noteq> p \<and> prefix p (mt_point m)) mounts)"

type_synonym locator = "path \<Rightarrow> (nat \<times> path) result"

definition region_of :: "mount list \<Rightarrow> locator \<Rightarrow> path \<Rightarrow> region result" where
  "region_of mounts locate p =
     rbind (locate p) (\<lambda>found.
     case find (\<lambda>m. mt_id m = fst found) mounts of
       None \<Rightarrow> unlocated
     | Some m \<Rightarrow>
         (case (mt_root m, strip_path (snd found) (mt_point m), strip_path p (snd found)) of
            (Some root, Some served, Some missing) \<Rightarrow>
              Ok \<lparr>rg_device = mt_device m, rg_path = root @ served @ missing\<rparr>
          | _ \<Rightarrow> unlocated))"

definition reserve_regions :: "mount list \<Rightarrow> locator \<Rightarrow> region list \<Rightarrow> path \<Rightarrow> region list result" where
  "reserve_regions mounts locate reserved p =
     rbind (region_of mounts locate p) (\<lambda>r. Ok (reserved @ r # mounts_beneath mounts p))"

definition reject_overlap_with :: "mount list \<Rightarrow> locator \<Rightarrow> path \<Rightarrow> path list \<Rightarrow> unit result" where
  "reject_overlap_with mounts locate grant protected =
     rbind (rfold (reserve_regions mounts locate) [] protected) (\<lambda>reserved.
     rbind (region_of mounts locate grant) (\<lambda>r.
     if list_all (\<lambda>exposed. list_all (\<lambda>p. \<not> region_overlaps exposed p) reserved) (r # mounts_beneath mounts grant)
     then Ok ()
     else Err Unsupported ''user grant exposes a mounted alias of protected filesystem state''))"

text \<open>\<open>Path::ancestors\<close>, longest first: an absolute path ends with the root, a relative one with the empty path.\<close>

definition path_ancestors :: "path \<Rightarrow> path list" where
  "path_ancestors p = (if p \<noteq> [] \<and> hd p = RootDir then rev (tl (prefixes p)) else rev (prefixes p))"

datatype statx_answer = MountId nat | NoMountId | StatxNoEnt | StatxFails

fun locate_among :: "(path \<Rightarrow> statx_answer) \<Rightarrow> path list \<Rightarrow> (nat \<times> path) result" where
  "locate_among statx [] = unlocated"
| "locate_among statx (candidate # rest) =
     (case statx candidate of
        MountId ident \<Rightarrow> Ok (ident, candidate)
      | NoMountId \<Rightarrow> unlocated
      | StatxNoEnt \<Rightarrow> locate_among statx rest
      | StatxFails \<Rightarrow> Err SystemError ''identify the mount serving a filesystem policy path'')"

definition kernel_mount :: "(path \<Rightarrow> statx_answer) \<Rightarrow> locator" where
  "kernel_mount statx p = locate_among statx (path_ancestors p)"

definition reject_overlap :: "mount list \<Rightarrow> (path \<Rightarrow> statx_answer) \<Rightarrow> path \<Rightarrow> path list \<Rightarrow> unit result" where
  "reject_overlap mounts statx grant protected = reject_overlap_with mounts (kernel_mount statx) grant protected"

subsection \<open>What a path exposes\<close>

text \<open>
  The kernel serves every path from one mount, whose root is placed at a mount point. The location of
  a path is the device and the path below the root of its filesystem; a mount without a path root has
  none. A path below another one is served by the same mount or by one that is mounted strictly
  between the two.
\<close>

definition location :: "(path \<Rightarrow> mount) \<Rightarrow> path \<Rightarrow> ((nat \<times> nat) \<times> path) option" where
  "location serves p =
     map_option (\<lambda>root. (mt_device (serves p), root @ drop (length (mt_point (serves p))) p)) (mt_root (serves p))"

definition kernel_view :: "mount list \<Rightarrow> (path \<Rightarrow> statx_answer) \<Rightarrow> (path \<Rightarrow> mount) \<Rightarrow> bool" where
  "kernel_view mounts statx serves \<longleftrightarrow>
     (\<forall>p ident existing. kernel_mount statx p = Ok (ident, existing) \<longrightarrow>
        find (\<lambda>m. mt_id m = ident) mounts = None \<or> find (\<lambda>m. mt_id m = ident) mounts = Some (serves p)) \<and>
     (\<forall>p q. prefix p q \<longrightarrow>
        serves q = serves p \<or>
        (serves q \<in> set mounts \<and> strict_prefix p (mt_point (serves q)) \<and> prefix (mt_point (serves q)) q))"

definition region_holds :: "region \<Rightarrow> (nat \<times> nat) \<times> path \<Rightarrow> bool" where
  "region_holds r loc \<longleftrightarrow> rg_device r = fst loc \<and> prefix (rg_path r) (snd loc)"

text \<open>
  The policy checks overlap of regions, of paths and of identities and relies on one law: two regions
  that hold the same point overlap. What is disjoint from a list then shares no point with it.
\<close>

locale overlap_relation =
  fixes holds :: "'a \<Rightarrow> 'x \<Rightarrow> bool" and overlaps :: "'a \<Rightarrow> 'a \<Rightarrow> bool"
  assumes meet: "holds a x \<Longrightarrow> holds b x \<Longrightarrow> overlaps a b"
begin

lemma separated: "list_all (\<lambda>b. \<not> overlaps a b) bs \<Longrightarrow> holds a x \<Longrightarrow> b \<in> set bs \<Longrightarrow> \<not> holds b x"
  using meet by (auto simp: list_all_iff)

lemma separated_lists:
  "list_all (\<lambda>a. list_all (\<lambda>b. \<not> overlaps a b) bs) as \<Longrightarrow> a \<in> set as \<Longrightarrow> holds a x \<Longrightarrow> b \<in> set bs \<Longrightarrow> \<not> holds b x"
  using separated by (auto simp: list_all_iff)

end

interpretation regions: overlap_relation region_holds region_overlaps
  by unfold_locales (auto simp: region_holds_def region_overlaps_def dest: prefix_same_cases)

lemma region_of_located:
  assumes r: "region_of mounts (kernel_mount statx) p = Ok r" and view: "kernel_view mounts statx serves"
  obtains "location serves p = Some (rg_device r, rg_path r)" "prefix (mt_point (serves p)) p"
proof -
  obtain ident existing where k: "kernel_mount statx p = Ok (ident, existing)"
    using r by (auto simp: region_of_def result_simps)
  then obtain m root served missing where m: "find (\<lambda>m. mt_id m = ident) mounts = Some m" "mt_root m = Some root"
      "strip_path existing (mt_point m) = Some served" "strip_path p existing = Some missing"
      and eq: "r = \<lparr>rg_device = mt_device m, rg_path = root @ served @ missing\<rparr>"
    using r by (auto simp: region_of_def unlocated_def split: option.splits)
  have "serves p = m" using view k m(1) unfolding kernel_view_def by force
  moreover have "prefix (mt_point m) p" "drop (length (mt_point m)) p = served @ missing"
    using m(3,4) by (auto simp: strip_path_def prefix_def split: if_splits)
  ultimately show thesis using that m(2) eq by (simp add: location_def)
qed

lemma exposed_regions:
  assumes r: "region_of mounts (kernel_mount statx) p = Ok r" and view: "kernel_view mounts statx serves"
    and q: "prefix p q" and loc: "location serves q = Some loc"
  shows "\<exists>r' \<in> set (r # mounts_beneath mounts p). region_holds r' loc"
proof (cases "serves q = serves p")
  case True
  obtain "location serves p = Some (rg_device r, rg_path r)" and pre: "prefix (mt_point (serves p)) p"
    by (rule region_of_located [OF r view])
  then obtain root where root: "mt_root (serves p) = Some root" "rg_device r = mt_device (serves p)"
      "rg_path r = root @ drop (length (mt_point (serves p))) p"
    by (auto simp: location_def)
  have "drop (length (mt_point (serves p))) q = drop (length (mt_point (serves p))) p @ drop (length p) q"
    using q prefix_length_le [OF pre] by (auto simp: prefix_def)
  then have "region_holds r loc" using loc root True by (auto simp: location_def region_holds_def)
  then show ?thesis by simp
next
  case False
  then have b: "serves q \<in> set mounts" "strict_prefix p (mt_point (serves q))" "prefix (mt_point (serves q)) q"
    using view q unfolding kernel_view_def by blast+
  obtain root where root: "mt_root (serves q) = Some root" using loc by (auto simp: location_def)
  let ?r = "\<lparr>rg_device = mt_device (serves q), rg_path = root\<rparr>"
  have "?r \<in> set (mounts_beneath mounts p)"
    unfolding mounts_beneath_def using b(1,2) root
    by (auto simp: List.map_filter_def strict_prefix_def image_iff intro!: bexI [of _ "serves q"])
  moreover have "region_holds ?r loc" using loc root by (auto simp: location_def region_holds_def)
  ultimately show ?thesis by auto
qed

lemma reserve_regions_Ok:
  "reserve_regions mounts locate acc p = Ok acc' \<longleftrightarrow>
     (\<exists>r. region_of mounts locate p = Ok r \<and> acc' = acc @ r # mounts_beneath mounts p)"
  by (auto simp: reserve_regions_def result_simps)

lemma reserve_regions_members:
  assumes "rfold (reserve_regions mounts locate) acc protected = Ok reserved"
  shows "set acc \<subseteq> set reserved"
    and "\<forall>p \<in> set protected. \<exists>r. region_of mounts locate p = Ok r \<and> set (r # mounts_beneath mounts p) \<subseteq> set reserved"
  using assms
proof (induction protected arbitrary: acc)
  case (Cons p protected)
  {
    case 1
    then obtain r where "rfold (reserve_regions mounts locate) (acc @ r # mounts_beneath mounts p) protected = Ok reserved"
      by (auto simp: reserve_regions_Ok rbind_eq_Inr)
    from Cons.IH(1) [OF this] show ?case by simp
  next
    case 2
    then obtain r where r: "region_of mounts locate p = Ok r"
        and rest: "rfold (reserve_regions mounts locate) (acc @ r # mounts_beneath mounts p) protected = Ok reserved"
      by (auto simp: reserve_regions_Ok rbind_eq_Inr)
    then show ?case using Cons.IH [OF rest] r by auto
  }
qed simp_all

lemma accepted_grant_reaches:
  assumes ok: "reject_overlap mounts statx grant protected = Ok ()" and view: "kernel_view mounts statx serves"
    and p: "p \<in> set protected" and q: "prefix grant q" "prefix p q'"
    and loc: "location serves q = Some loc" "location serves q' = Some loc'"
  shows "loc \<noteq> loc'"
proof
  assume same: "loc = loc'"
  obtain reserved r where reserved: "rfold (reserve_regions mounts (kernel_mount statx)) [] protected = Ok reserved"
      and r: "region_of mounts (kernel_mount statx) grant = Ok r"
      and disjoint: "list_all (\<lambda>a. list_all (\<lambda>b. \<not> region_overlaps a b) reserved) (r # mounts_beneath mounts grant)"
    using ok by (auto simp: reject_overlap_def reject_overlap_with_def result_simps split: if_splits)
  obtain rp where rp: "region_of mounts (kernel_mount statx) p = Ok rp" "set (rp # mounts_beneath mounts p) \<subseteq> set reserved"
    using reserve_regions_members(2) [OF reserved] p by blast
  obtain a where a: "a \<in> set (r # mounts_beneath mounts grant)" "region_holds a loc"
    using exposed_regions [OF r view q(1) loc(1)] by blast
  obtain b where b: "b \<in> set (rp # mounts_beneath mounts p)" "region_holds b loc"
    using exposed_regions [OF rp(1) view q(2) loc(2)] same by blast
  have "b \<in> set reserved" using b(1) rp(2) by blast
  then show False using regions.separated_lists [OF disjoint a] b(2) by blast
qed

end
