(* ===== verification/Mount_Properties.thy ===== *)
theory Mount_Properties
  imports Mount_Topology
begin

text \<open>
  The parser of the mount topology inverts the format that the kernel documents for
  \<open>/proc/self/mountinfo\<close>, and an accepted grant shares no location with protected state.
\<close>

subsection \<open>The format of mountinfo\<close>

record mount_entry =
  me_id :: nat
  me_parent :: nat
  me_major :: nat
  me_minor :: nat
  me_root :: string
  me_point :: string
  me_options :: string
  me_optional :: "string list"
  me_fstype :: string
  me_source :: string
  me_super :: string

fun decimal :: "nat \<Rightarrow> string" where
  "decimal n = (if n < 10 then [char_of (48 + n)] else decimal (n div 10) @ [char_of (48 + n mod 10)])"

declare decimal.simps [simp del]

definition mangled :: "char \<Rightarrow> bool" where
  "mangled c \<longleftrightarrow> c \<in> {CHR '' '', CHR 0x09, newline, backslash}"

definition encode_char :: "char \<Rightarrow> string" where
  "encode_char c =
     (if mangled c
      then [backslash, char_of (48 + of_char c div 64 :: nat), char_of (48 + of_char c div 8 mod 8 :: nat), char_of (48 + of_char c mod 8 :: nat)]
      else [c])"

definition encode_path :: "string \<Rightarrow> string" where
  "encode_path s = concat (map encode_char s)"

fun join_on :: "char \<Rightarrow> string list \<Rightarrow> string" where
  "join_on sep [] = []"
| "join_on sep [q] = q"
| "join_on sep (q # qs) = q @ sep # join_on sep qs"

definition entry_fields :: "mount_entry \<Rightarrow> string list" where
  "entry_fields e =
     [decimal (me_id e), decimal (me_parent e), decimal (me_major e) @ CHR '':'' # decimal (me_minor e),
      encode_path (me_root e), encode_path (me_point e), me_options e] @
     me_optional e @ [''-'', me_fstype e, me_source e, me_super e]"

definition render_line :: "mount_entry \<Rightarrow> string" where
  "render_line e = join_on (CHR '' '') (entry_fields e)"

definition render_topology :: "mount_entry list \<Rightarrow> string" where
  "render_topology es = concat (map (\<lambda>e. render_line e @ [newline]) es)"

definition plain_field :: "string \<Rightarrow> bool" where
  "plain_field s \<longleftrightarrow> CHR '' '' \<notin> set s \<and> newline \<notin> set s"

definition valid_entry :: "mount_entry \<Rightarrow> bool" where
  "valid_entry e \<longleftrightarrow>
     me_id e \<le> u64_max \<and> me_major e \<le> u32_max \<and> me_minor e \<le> u32_max \<and>
     me_root e \<noteq> [] \<and> me_root e \<noteq> ''-'' \<and> is_absolute (me_point e) \<and>
     me_options e \<noteq> ''-'' \<and> ''-'' \<notin> set (me_optional e) \<and>
     list_all plain_field ([me_options e, me_fstype e, me_source e, me_super e] @ me_optional e) \<and>
     length (render_line e) \<le> MAX_LINE_BYTES"

definition mount_of :: "mount_entry \<Rightarrow> mount" where
  "mount_of e =
     \<lparr>mt_id = me_id e, mt_device = (me_major e, me_minor e),
      mt_root = (if is_absolute (me_root e) then Some (path_components (me_root e)) else None),
      mt_point = path_components (me_point e)\<rparr>"

subsection \<open>Fields\<close>

lemma decimal_simps: "n < 10 \<Longrightarrow> decimal n = [char_of (48 + n)]"
  "\<not> n < 10 \<Longrightarrow> decimal n = decimal (n div 10) @ [char_of (48 + n mod 10)]"
  by (simp_all add: decimal.simps [of n])

lemma digit_char: "d < 10 \<Longrightarrow> is_ascii_digit (char_of (48 + d)) \<and> digit_value (char_of (48 + d)) = d"
  by (simp add: ascii_defs digit_value_def)

lemma digits_value_snoc: "digits_value base (s @ [c]) = digits_value base s * base + digit_value c"
  by (simp add: digits_value_def)

lemma decimal_facts: "list_all is_ascii_digit (decimal n) \<and> decimal n \<noteq> [] \<and> digits_value 10 (decimal n) = n"
proof (induction n rule: decimal.induct)
  case (1 n)
  show ?case
  proof (cases "n < 10")
    case True
    then show ?thesis using digit_char [of n] by (simp add: decimal_simps digits_value_def)
  next
    case False
    with 1 show ?thesis using digit_char [of "n mod 10"] by (simp add: decimal_simps digits_value_snoc)
  qed
qed

lemma parse_decimal: "n \<le> limit \<Longrightarrow> parse_digits limit (decimal n) = Ok n"
  using decimal_facts [of n] by (simp add: parse_digits_def)

lemma decimal_absent:
  assumes "\<not> is_ascii_digit c"
  shows "c \<notin> set (decimal n)"
  using decimal_facts [of n] assms by (auto simp: list_all_iff)

lemma no_digits: "\<not> is_ascii_digit (CHR '' '')" "\<not> is_ascii_digit newline" "\<not> is_ascii_digit (CHR '':'')" "\<not> is_ascii_digit (CHR ''-'')"
  by (simp_all add: ascii_defs)

lemma takeWhile_colon:
  assumes "CHR '':'' \<notin> set s"
  shows "takeWhile (\<lambda>c. c \<noteq> CHR '':'') (s @ CHR '':'' # t) = s" "dropWhile (\<lambda>c. c \<noteq> CHR '':'') (s @ CHR '':'' # t) = CHR '':'' # t"
  using assms by (auto simp: takeWhile_append dropWhile_append)

lemma parse_device_decimal:
  "a \<le> u32_max \<Longrightarrow> b \<le> u32_max \<Longrightarrow> parse_device (decimal a @ CHR '':'' # decimal b) = Ok (a, b)"
  unfolding parse_device_def Let_def takeWhile_colon [OF decimal_absent [OF no_digits(3)]]
  by (simp add: parse_decimal)

lemma char_of_eq: "char_of (n :: nat) = c \<longleftrightarrow> n mod 256 = of_char c" "c = char_of (n :: nat) \<longleftrightarrow> n mod 256 = of_char c"
proof -
  show "char_of n = c \<longleftrightarrow> n mod 256 = of_char c" by (simp add: char_of_eq_iff take_bit_eq_mod)
  then show "c = char_of n \<longleftrightarrow> n mod 256 = of_char c" by auto
qed

lemma mangled_chars: "char_of (32 :: nat) = CHR '' ''" "char_of (9 :: nat) = CHR 0x09" "char_of (10 :: nat) = newline"
  "char_of (92 :: nat) = backslash"
  by (simp_all add: char_of_eq)

lemma decode_encode_char: "decode_path (encode_char c @ rest) = rbind (decode_path rest) (\<lambda>output. Ok (c # output))"
proof (cases "mangled c")
  case True
  then have "c = CHR '' '' \<or> c = CHR 0x09 \<or> c = newline \<or> c = backslash" by (simp add: mangled_def)
  then show ?thesis
    by (elim disjE) (simp_all add: encode_char_def mangled_def is_octal_def byte_in_def digits_value_def digit_value_def mangled_chars)
qed (simp add: encode_char_def mangled_def)

lemma decode_encode_path: "decode_path (encode_path s) = Ok s"
  by (induction s) (simp_all add: encode_path_def decode_encode_char)

lemma encode_path_plain: "plain_field (encode_path s)"
proof -
  have "plain_field (encode_char c)" for c
    by (auto simp: plain_field_def encode_char_def mangled_def char_of_eq)
  then show ?thesis by (auto simp: encode_path_def plain_field_def)
qed

lemma encode_path_dash: "encode_path s = ''-'' \<longleftrightarrow> s = ''-''" "encode_path s = [] \<longleftrightarrow> s = []"
proof -
  have ne: "encode_char c \<noteq> []" for c by (simp add: encode_char_def)
  then show "encode_path s = [] \<longleftrightarrow> s = []" by (auto simp: encode_path_def)
  have "decode_path ''-'' = Ok ''-''" by simp
  then show "encode_path s = ''-'' \<longleftrightarrow> s = ''-''"
    using decode_encode_path [of s] by (auto simp: encode_path_def encode_char_def mangled_def)
qed

lemma split_join_on: "qs \<noteq> [] \<Longrightarrow> \<forall>q \<in> set qs. sep \<notin> set q \<Longrightarrow> split_on sep (join_on sep qs) = qs"
  by (induction sep qs rule: join_on.induct) (auto simp: split_on_absent split_on_append)

lemma set_join_on: "set (join_on sep qs) \<subseteq> insert sep (\<Union>q \<in> set qs. set q)"
  by (induction sep qs rule: join_on.induct) auto

subsection \<open>Lines and the whole topology\<close>

lemma entry_fields_plain:
  assumes "valid_entry e"
  shows "\<forall>q \<in> set (entry_fields e). plain_field q"
proof -
  have dec: "plain_field (decimal n)" for n
    using decimal_absent [OF no_digits(1), of n] decimal_absent [OF no_digits(2), of n] by (simp add: plain_field_def)
  have "plain_field (decimal a @ CHR '':'' # decimal b)" for a b
    using dec [of a] dec [of b] by (simp add: plain_field_def)
  moreover have "plain_field ''-''" by (simp add: plain_field_def)
  ultimately show ?thesis
    using assms dec encode_path_plain unfolding entry_fields_def valid_entry_def by (simp add: list_all_iff)
qed

lemma split_render_line:
  assumes "valid_entry e"
  shows "split_on (CHR '' '') (render_line e) = entry_fields e"
  unfolding render_line_def
  by (rule split_join_on) (use entry_fields_plain [OF assms] in \<open>auto simp: plain_field_def entry_fields_def\<close>)

lemma render_line_no_newline:
  assumes "valid_entry e"
  shows "newline \<notin> set (render_line e)"
  using set_join_on [of "CHR '' ''" "entry_fields e"] entry_fields_plain [OF assms]
  unfolding render_line_def plain_field_def by fastforce

lemma parse_render_line:
  assumes v: "valid_entry e"
  shows "parse_line (render_line e) = Ok (mount_of e)"
proof -
  let ?F = "entry_fields e"
  have dash: "decimal n \<noteq> ''-''" for n
    using decimal_absent [OF no_digits(4), of n] by auto
  have device: "decimal a @ CHR '':'' # decimal b \<noteq> ''-''" for a b
  proof
    assume "decimal a @ CHR '':'' # decimal b = ''-''"
    then have "CHR '':'' \<in> set ''-''" by (metis in_set_conv_decomp)
    then show False by simp
  qed
  have point: "me_point e \<noteq> ''-''" "me_point e \<noteq> []" using v by (auto simp: valid_entry_def)
  have head: "\<forall>q \<in> set ([decimal (me_id e), decimal (me_parent e), decimal (me_major e) @ CHR '':'' # decimal (me_minor e),
      encode_path (me_root e), encode_path (me_point e), me_options e] @ me_optional e). q \<noteq> ''-''"
    using v dash device point(1) by (auto simp: valid_entry_def encode_path_dash)
  have sep: "length (takeWhile (\<lambda>field. field \<noteq> ''-'') ?F) = 6 + length (me_optional e)"
    unfolding entry_fields_def using head by (simp add: takeWhile_append)
  have len: "length ?F = 10 + length (me_optional e)" by (simp add: entry_fields_def)
  have take: "take 5 ?F = [decimal (me_id e), decimal (me_parent e), decimal (me_major e) @ CHR '':'' # decimal (me_minor e),
      encode_path (me_root e), encode_path (me_point e)]" by (simp add: entry_fields_def)
  have nth: "?F ! 0 = decimal (me_id e)" "?F ! 1 = decimal (me_parent e)"
      "?F ! 2 = decimal (me_major e) @ CHR '':'' # decimal (me_minor e)" "?F ! 3 = encode_path (me_root e)" "?F ! 4 = encode_path (me_point e)"
    by (simp_all add: entry_fields_def)
  have full: "\<not> list_ex (\<lambda>field. field = []) (take 5 ?F)"
    unfolding take using v point(2) decimal_facts by (simp add: encode_path_dash valid_entry_def)
  have numbers: "parse_number (decimal (me_id e)) = Ok (me_id e)"
      "parse_device (decimal (me_major e) @ CHR '':'' # decimal (me_minor e)) = Ok (me_major e, me_minor e)"
      "list_all is_ascii_digit (decimal (me_parent e))" "is_absolute (me_point e)"
    using v parse_device_decimal decimal_facts by (auto simp: valid_entry_def parse_number_def parse_decimal)
  show ?thesis
    unfolding parse_line_def Let_def split_render_line [OF v] sep len nth
    using full numbers by (simp add: decode_encode_path mount_of_def)
qed

lemma split_render_topology:
  assumes "es \<noteq> []" and "list_all valid_entry es"
  shows "split_on newline (butlast (render_topology es)) = map render_line es"
  using assms
proof (induction es rule: list_nonempty_induct)
  case (single e)
  then show ?case using render_line_no_newline [of e] by (simp add: render_topology_def split_on_absent)
next
  case (cons e es)
  have "render_topology es \<noteq> []" using cons(1) by (cases es) (simp_all add: render_topology_def)
  then have "butlast (render_topology (e # es)) = render_line e @ newline # butlast (render_topology es)"
    by (simp add: render_topology_def butlast_append)
  then show ?case using cons render_line_no_newline [of e] by (simp add: split_on_append)
qed

lemma parse_lines:
  assumes "list_all valid_entry es" and "k + length es \<le> MAX_MOUNTS"
  shows "rfold parse_counted (k, ms) (map render_line es) = Ok (k + length es, ms @ map mount_of es)"
  using assms
proof (induction es arbitrary: k ms)
  case (Cons e es)
  then have "parse_counted (k, ms) (render_line e) = Ok (Suc k, ms @ [mount_of e])"
    by (simp add: parse_counted_def parse_render_line) (simp add: valid_entry_def)
  then show ?case using Cons.IH [of "Suc k" "ms @ [mount_of e]"] Cons.prems by simp
qed simp

text \<open>
  Reading the mount topology inverts the format of mountinfo. For every non-empty list of valid
  entries within the bounds, with octal escapes in the paths, any optional fields and any source, the
  parser returns exactly the mounts of these entries, in their order.
\<close>

theorem mountinfo_round_trip:
  assumes "es \<noteq> []" and "list_all valid_entry es" and "length es \<le> MAX_MOUNTS"
    and "length (render_topology es) \<le> MAX_MOUNTINFO_BYTES"
  shows "read_topology (SysOk (render_topology es)) = Ok (map mount_of es)"
proof -
  have "render_topology es \<noteq> []" "last (render_topology es) = newline"
    using assms(1) by (induction es rule: list_nonempty_induct) (simp_all add: render_topology_def)
  then have "parse_topology (render_topology es) = Ok (map mount_of es)"
    using assms(1-3) parse_lines [of es 0 "[]"] by (simp add: parse_topology_def split_render_topology)
  then show ?thesis using assms(4) by (simp add: read_topology_def Let_def)
qed

definition sample_entry :: mount_entry where
  "sample_entry =
     \<lparr>me_id = 9, me_parent = 1, me_major = 8, me_minor = 2, me_root = ''/u/a b'', me_point = ''/srv/x'', me_options = ''rw'',
      me_optional = [], me_fstype = ''ext4'', me_source = ''/dev/sda2'', me_super = ''rw''\<rparr>"

theorem mountinfo_round_trip_witness:
  "read_topology (SysOk (render_topology [sample_entry])) = Ok [mount_of sample_entry]"
proof -
  have line: "length (render_line sample_entry) \<le> 60"
    by (simp add: render_line_def entry_fields_def sample_entry_def decimal_simps encode_path_def encode_char_def mangled_def)
  then have "valid_entry sample_entry"
    by (simp add: valid_entry_def MAX_LINE_BYTES_def) (simp add: sample_entry_def u64_max_num u32_max_num plain_field_def)
  then show ?thesis
    using mountinfo_round_trip [of "[sample_entry]"] line
    by (simp add: MAX_MOUNTS_def MAX_MOUNTINFO_BYTES_def render_topology_def)
qed

text \<open>
  C32: An accepted grant is not an alias of protected state. When the check of the mount topology
  accepts a grant, then for every kernel whose mounts the topology lists, no path at or below the
  grant and no path at or below a protected path name the same location of a filesystem,
  whatever bind, subtree and nested mounts lie between them.
\<close>

theorem accepted_grants_are_not_aliases:
  assumes "reject_overlap mounts statx grant protected = Ok ()" and "kernel_view mounts statx serves"
    and "p \<in> set protected" and "prefix grant q" and "prefix p q'" and "location serves q = Some loc"
  shows "location serves q' \<noteq> Some loc"
  using accepted_grant_reaches [OF assms] by blast

definition sample_mounts :: "mount list" where
  "sample_mounts =
     [\<lparr>mt_id = 1, mt_device = (8, 1), mt_root = Some [RootDir], mt_point = [RootDir]\<rparr>,
      \<lparr>mt_id = 2, mt_device = (8, 2), mt_root = Some [RootDir], mt_point = [RootDir, Normal ''home'']\<rparr>]"

definition homed :: "path \<Rightarrow> bool" where
  "homed p \<longleftrightarrow> prefix [RootDir, Normal ''home''] p"

definition sample_serves :: "path \<Rightarrow> mount" where
  "sample_serves p = (if homed p then sample_mounts ! 1 else sample_mounts ! 0)"

definition sample_statx :: "path \<Rightarrow> statx_answer" where
  "sample_statx p = (if p = [] then StatxFails else MountId (mt_id (sample_serves p)))"

lemma path_ancestors_first: "\<exists>rest. path_ancestors p = p # rest"
  by (cases p rule: rev_cases) (auto simp: path_ancestors_def)

lemma sample_view: "kernel_view sample_mounts sample_statx sample_serves"
proof -
  have located: "kernel_mount sample_statx p = (if p = [] then Err SystemError ''identify the mount serving a filesystem policy path''
      else Ok (mt_id (sample_serves p), p))" for p
  proof -
    obtain rest where "path_ancestors p = p # rest" using path_ancestors_first [of p] by blast
    then show ?thesis unfolding kernel_mount_def by (cases "p = []") (simp_all only: locate_among.simps sample_statx_def if_True if_False statx_answer.case simp_thms)
  qed
  have found: "find (\<lambda>m. mt_id m = mt_id (sample_serves p)) sample_mounts = Some (sample_serves p)" for p
  proof -
    have "sample_serves p = sample_mounts ! 1 \<or> sample_serves p = sample_mounts ! 0" by (simp only: sample_serves_def split: if_split) simp
    then show ?thesis by (elim disjE) (simp_all add: sample_mounts_def)
  qed
  have below: "sample_serves q = sample_serves p \<or> (sample_serves q \<in> set sample_mounts \<and>
      strict_prefix p (mt_point (sample_serves q)) \<and> prefix (mt_point (sample_serves q)) q)" if "prefix p q" for p q
  proof (cases "homed q \<and> \<not> homed p")
    case True
    then have sub: "prefix [RootDir, Normal ''home''] q" "\<not> prefix [RootDir, Normal ''home''] p" by (simp_all only: homed_def) simp_all
    then have "prefix p [RootDir, Normal ''home'']" using prefix_same_cases [OF that sub(1)] by blast
    moreover have "p \<noteq> [RootDir, Normal ''home'']" using sub(2) by blast
    ultimately have "strict_prefix p (mt_point (sample_mounts ! 1))" by (simp add: strict_prefix_def sample_mounts_def)
    moreover have "prefix (mt_point (sample_mounts ! 1)) q" using sub(1) by (simp add: sample_mounts_def)
    moreover have "sample_mounts ! 1 \<in> set sample_mounts" by (simp add: sample_mounts_def)
    ultimately show ?thesis using True by (simp only: sample_serves_def if_True simp_thms)
  next
    case False
    have "homed q" if "homed p" using that \<open>prefix p q\<close> unfolding homed_def by (rule prefix_order.trans)
    with False have "homed q = homed p" by blast
    then have "sample_serves q = sample_serves p" by (simp only: sample_serves_def)
    then show ?thesis by (rule disjI1)
  qed
  have view: "find (\<lambda>m. mt_id m = ident) sample_mounts = Some (sample_serves p)"
    if "kernel_mount sample_statx p = Ok (ident, existing)" for p ident existing
  proof -
    have "ident = mt_id (sample_serves p)" using that unfolding located by (cases "p = []") auto
    then show ?thesis by (simp only: found)
  qed
  show ?thesis
    unfolding kernel_view_def by (intro conjI allI impI disjI2 [of _ "find _ _ = None"] view below; assumption)
qed

theorem accepted_grants_are_not_aliases_witness:
  "location sample_serves [RootDir, Normal ''home'', Normal ''u'', Normal ''x''] \<noteq>
     Some ((8, 1), [RootDir, Normal ''srv'', Normal ''data''])"
proof (rule accepted_grants_are_not_aliases [OF _ sample_view, where grant = "[RootDir, Normal ''srv'']" and
      p = "[RootDir, Normal ''home'', Normal ''u'']" and q = "[RootDir, Normal ''srv'', Normal ''data'']"])
  show "reject_overlap sample_mounts sample_statx [RootDir, Normal ''srv''] [[RootDir, Normal ''home'', Normal ''u'']] = Ok ()"
    by (simp add: reject_overlap_def reject_overlap_with_def reserve_regions_def region_of_def kernel_mount_def path_ancestors_def
        sample_statx_def sample_serves_def homed_def sample_mounts_def strip_path_def mounts_beneath_def List.map_filter_def region_overlaps_def)
qed (simp_all add: location_def sample_serves_def homed_def sample_mounts_def)

end
