(* ===== verification/Confinement.thy ===== *)
theory Confinement
  imports Mount_Topology "HOL-Library.Product_Lexorder"
begin

text \<open>
  The filesystem confinement of a Linux launch: \<open>platform/linux/confinement/paths.rs\<close> (the plan and
  the resolution of executables), \<open>identity.rs\<close> (descriptor ancestry) and \<open>policy.rs\<close> (the Landlock
  rules). Planning only looks; a host answers each kind of inspection of a path, and the kinds may
  disagree, as when a path is replaced between two of them. The rights of the Landlock crate are a
  parameter. The effective home of a launch is that of \<open>quarters-cli/src/process.rs\<close>. Texts that only
  explain the plan (limitations, the terminal status) are left out.
\<close>

subsection \<open>Requests, grants and the host\<close>

datatype user_grant_access = GrantReadOnly | GrantReadWrite

record user_confinement_grant =
  ug_path :: string
  ug_access :: user_grant_access

record confinement_request =
  rq_space_home :: string
  rq_effective_home :: string
  rq_runtime :: string
  rq_store_root :: string
  rq_current_executable :: string
  rq_request_executable :: "string option"
  rq_host_path :: "string option"
  rq_user_grants :: "user_confinement_grant list"
  rq_working_directory :: "string option"
  rq_home_view :: bool

record confinement_grant =
  cg_path :: string
  cg_access :: string
  cg_source :: string
  cg_required :: bool
  cg_device :: nat
  cg_inode :: nat

record working_directory =
  wd_path :: string
  wd_device :: nat
  wd_inode :: nat

record confinement_plan =
  pn_working_directory :: working_directory
  pn_quarter_command_root :: string
  pn_grants :: "confinement_grant list"
  pn_omitted_paths :: "string list"
  pn_executable_path :: "string list"
  pn_omitted_host_path_entries :: nat

datatype terminal_probe = TerminalOpens | TerminalNxio | TerminalNotFound | TerminalFails

record confine_host =
  cf_uid :: nat
  cf_canonicalize :: "string \<Rightarrow> string sys"
  cf_metadata :: "string \<Rightarrow> file_stat sys"
  cf_symlink_metadata :: "string \<Rightarrow> file_stat sys"
  cf_open_path :: "string \<Rightarrow> file_stat sys"
  cf_ancestor :: "string \<Rightarrow> nat \<Rightarrow> (nat \<times> nat) sys"
  cf_open_directory :: "string \<Rightarrow> file_stat sys"
  cf_open_terminal :: "string \<Rightarrow> terminal_probe"
  cf_account_home :: "string option sys"
  cf_mountinfo :: "string sys"
  cf_statx :: "path \<Rightarrow> statx_answer"

definition io_ok :: "string \<Rightarrow> 'a sys \<Rightarrow> 'a result" where
  "io_ok action r = (case r of SysOk x \<Rightarrow> Ok x | _ \<Rightarrow> Err SystemError action)"

lemma io_ok_eq [result_simps]: "io_ok action r = Inr x \<longleftrightarrow> r = SysOk x"
  by (simp add: io_ok_def split: sys.splits)

definition path_is_dir :: "confine_host \<Rightarrow> string \<Rightarrow> bool" where
  "path_is_dir host p = (case cf_metadata host p of SysOk m \<Rightarrow> is_dir m | _ \<Rightarrow> False)"

text \<open>\<open>Path::starts_with\<close> and the equality of paths compare components.\<close>

definition path_starts_with :: "string \<Rightarrow> string \<Rightarrow> bool" where
  "path_starts_with p base = prefix (path_components base) (path_components p)"

definition paths_overlap :: "string \<Rightarrow> string \<Rightarrow> bool" where
  "paths_overlap left right \<longleftrightarrow> path_starts_with left right \<or> path_starts_with right left"

subsection \<open>Descriptor ancestry (\<open>identity.rs\<close>)\<close>

definition MAX_ANCESTORS :: nat where "MAX_ANCESTORS = 256"

record anchor =
  an_metadata :: file_stat
  an_inode :: "nat \<times> nat"
  an_ancestry :: "(nat \<times> nat) list"

definition inode_from_metadata :: "file_stat \<Rightarrow> nat \<times> nat" where
  "inode_from_metadata m = (st_dev m, st_ino m)"

fun anchor_walk :: "confine_host \<Rightarrow> string \<Rightarrow> nat \<Rightarrow> nat \<Rightarrow> (nat \<times> nat) list \<Rightarrow> (nat \<times> nat) list result" where
  "anchor_walk host path 0 k ancestry = Err ResourceLimit ''filesystem policy ancestry exceeds 256 directories''"
| "anchor_walk host path (Suc n) k ancestry =
     rbind (io_ok ''inspect filesystem policy identity'' (cf_ancestor host path k)) (\<lambda>current.
     rbind (io_ok ''open policy anchor ancestor'' (cf_ancestor host path (Suc k))) (\<lambda>parent.
     let extended = (if ancestry \<noteq> [] \<and> last ancestry = current then ancestry else ancestry @ [current]) in
     if current = parent then Ok extended else anchor_walk host path n (Suc k) extended))"

definition open_anchor :: "confine_host \<Rightarrow> string \<Rightarrow> anchor result" where
  "open_anchor host path =
     rbind (io_ok ''open filesystem policy identity'' (cf_open_path host path)) (\<lambda>metadata.
     let inode = inode_from_metadata metadata in
     rbind (if is_dir metadata then Ok ()
         else (case path_parent path of
                 None \<Rightarrow> Err Unsupported ''policy file has no parent directory''
               | Some parent \<Rightarrow> rbind (io_ok ''open filesystem policy identity'' (cf_open_path host parent)) (\<lambda>_. Ok ()))) (\<lambda>_.
     rbind (anchor_walk host path MAX_ANCESTORS 0 [inode]) (\<lambda>ancestry.
     Ok \<lparr>an_metadata = metadata, an_inode = inode, an_ancestry = ancestry\<rparr>)))"

definition anchor_overlaps :: "anchor \<Rightarrow> anchor \<Rightarrow> bool" where
  "anchor_overlaps a b \<longleftrightarrow> an_inode b \<in> set (an_ancestry a) \<or> an_inode a \<in> set (an_ancestry b)"

definition verify_anchor :: "anchor \<Rightarrow> nat \<Rightarrow> nat \<Rightarrow> unit result" where
  "verify_anchor a device inode =
     (if an_inode a = (device, inode) then Ok ()
      else Err Unsupported ''a filesystem policy anchor changed during overlap validation'')"

definition existing_anchor :: "confine_host \<Rightarrow> anchor list \<Rightarrow> string \<Rightarrow> anchor list result" where
  "existing_anchor host anchors path =
     (case cf_symlink_metadata host path of
        SysOk _ \<Rightarrow> rbind (open_anchor host path) (\<lambda>a. Ok (anchors @ [a]))
      | SysNotFound \<Rightarrow> Ok anchors
      | SysFail \<Rightarrow> Err SystemError ''inspect reserved policy identity'')"

definition existing_anchors :: "confine_host \<Rightarrow> string list \<Rightarrow> anchor list result" where
  "existing_anchors host paths = rfold (existing_anchor host) [] paths"

subsection \<open>Built-in grants\<close>

definition MAX_USER_GRANTS :: nat where "MAX_USER_GRANTS = 32"

definition EXECUTABLE_ROOTS :: "string list" where
  "EXECUTABLE_ROOTS =
     [''/usr'', ''/bin'', ''/sbin'', ''/lib'', ''/lib32'', ''/lib64'', ''/libx32'', ''/opt'', ''/nix/store'',
      ''/run/current-system/sw'', ''/nix/var/nix/profiles/default'']"

definition DEVICE_PATHS :: "string list" where
  "DEVICE_PATHS =
     [''/dev/null'', ''/dev/zero'', ''/dev/full'', ''/dev/random'', ''/dev/urandom'', ''/dev/tty'', ''/dev/ptmx'', ''/dev/pts'']"

text \<open>The grants and the omitted paths of a plan under construction.\<close>

type_synonym draft = "confinement_grant list \<times> string list"

definition grant_of :: "string \<Rightarrow> string \<Rightarrow> string \<Rightarrow> bool \<Rightarrow> file_stat \<Rightarrow> confinement_grant" where
  "grant_of path access source required m =
     \<lparr>cg_path = path, cg_access = access, cg_source = source, cg_required = required, cg_device = st_dev m, cg_inode = st_ino m\<rparr>"

definition validate_private_directory :: "confine_host \<Rightarrow> string \<Rightarrow> unit result" where
  "validate_private_directory host path =
     rbind (io_ok ''inspect filesystem policy directory'' (cf_symlink_metadata host path)) (\<lambda>m.
     let private = mode_bits (st_mode m) = 448 in
     if is_dir m \<and> \<not> is_symlink m \<and> st_uid m = cf_uid host \<and> private then Ok ()
     else Err CorruptState ''it is not a protected current-user directory'')"

definition push_canonical :: "confine_host \<Rightarrow> string \<Rightarrow> string \<Rightarrow> string \<Rightarrow> bool \<Rightarrow> draft \<Rightarrow> draft result" where
  "push_canonical host path access source required draft =
     rbind (io_ok ''resolve required filesystem policy path'' (cf_canonicalize host path)) (\<lambda>canonical.
     rbind (io_ok ''inspect required filesystem policy path'' (cf_metadata host canonical)) (\<lambda>m.
     Ok (fst draft @ [grant_of canonical access source required m], snd draft)))"

definition push_optional :: "confine_host \<Rightarrow> string \<Rightarrow> string \<Rightarrow> string \<Rightarrow> draft \<Rightarrow> draft result" where
  "push_optional host path access source draft =
     (case cf_canonicalize host path of
        SysOk canonical \<Rightarrow>
          rbind (io_ok ''inspect optional filesystem policy path'' (cf_metadata host canonical)) (\<lambda>m.
          Ok (fst draft @ [grant_of canonical access source False m], snd draft))
      | SysNotFound \<Rightarrow> Ok (fst draft, snd draft @ [path])
      | SysFail \<Rightarrow> Err SystemError ''resolve optional filesystem policy path'')"

definition terminal_is_unavailable :: "terminal_probe \<Rightarrow> bool" where
  "terminal_is_unavailable probe \<longleftrightarrow> probe = TerminalNxio \<or> probe = TerminalNotFound"

definition push_optional_terminal :: "confine_host \<Rightarrow> string \<Rightarrow> draft \<Rightarrow> draft result" where
  "push_optional_terminal host path draft =
     (if cf_open_terminal host path = TerminalOpens then push_optional host path ''device'' ''compatibility-device'' draft
      else if terminal_is_unavailable (cf_open_terminal host path) then Ok (fst draft, snd draft @ [path])
      else Err SystemError ''probe optional terminal device'')"

definition add_resolver_target :: "confine_host \<Rightarrow> draft \<Rightarrow> draft result" where
  "add_resolver_target host draft =
     (case cf_canonicalize host ''/etc/resolv.conf'' of
        SysOk target \<Rightarrow>
          if \<not> path_starts_with target ''/etc'' then push_canonical host target ''read-file'' ''derived-resolver-target'' False draft
          else Ok draft
      | SysNotFound \<Rightarrow> Ok (fst draft, snd draft @ [''/etc/resolv.conf''])
      | SysFail \<Rightarrow> Err SystemError ''resolve DNS configuration'')"

definition add_device :: "confine_host \<Rightarrow> draft \<Rightarrow> string \<Rightarrow> draft result" where
  "add_device host draft path =
     (if path = ''/dev/null'' then push_canonical host path ''device'' ''compatibility-device'' True draft
      else if path = ''/dev/tty'' then push_optional_terminal host path draft
      else push_optional host path ''device'' ''compatibility-device'' draft)"

definition host_hierarchy :: "confinement_grant \<Rightarrow> bool" where
  "host_hierarchy g \<longleftrightarrow> cg_source g \<in> {''system-executable-root'', ''system-configuration'', ''process-compatibility''}"

definition overlaps_executable_root :: "string \<Rightarrow> string \<Rightarrow> confinement_grant list \<Rightarrow> bool" where
  "overlaps_executable_root store home grants \<longleftrightarrow>
     list_ex (\<lambda>g. host_hierarchy g \<and> (path_starts_with store (cg_path g) \<or> path_starts_with home (cg_path g))) grants"

definition identity_overlap :: "confine_host \<Rightarrow> anchor \<Rightarrow> anchor \<Rightarrow> bool \<Rightarrow> confinement_grant \<Rightarrow> bool result" where
  "identity_overlap host store_anchor home_anchor found g =
     rbind (open_anchor host (cg_path g)) (\<lambda>a.
     rbind (verify_anchor a (cg_device g) (cg_inode g)) (\<lambda>_.
     Ok (found \<or> anchor_overlaps store_anchor a \<or> anchor_overlaps home_anchor a)))"

definition ensure_store_disjoint :: "confine_host \<Rightarrow> string \<Rightarrow> string \<Rightarrow> confinement_grant list \<Rightarrow> unit result" where
  "ensure_store_disjoint host root home_path grants =
     rbind (io_ok ''resolve confinement store root'' (cf_canonicalize host root)) (\<lambda>store.
     rbind (io_ok ''resolve confinement Quarter home'' (cf_canonicalize host home_path)) (\<lambda>home.
     rbind (open_anchor host store) (\<lambda>store_anchor.
     rbind (open_anchor host home) (\<lambda>home_anchor.
     rbind (rfold (identity_overlap host store_anchor home_anchor) False (filter host_hierarchy grants)) (\<lambda>found.
     if \<not> overlaps_executable_root store home grants \<and> \<not> found then Ok ()
     else Err Unsupported ''the Quarters store overlaps a protected host hierarchy admitted by confinement'')))))"

definition built_in_grants :: "confine_host \<Rightarrow> confinement_request \<Rightarrow> draft result" where
  "built_in_grants host rq =
     rbind (push_canonical host (rq_space_home rq) ''read-write'' ''quarter-home'' True ([], [])) (\<lambda>draft.
     rbind (push_canonical host (rq_runtime rq) ''read-write'' ''quarter-runtime'' True draft) (\<lambda>draft.
     rbind (rfold (\<lambda>draft path. push_optional host path ''read-execute'' ''system-executable-root'' draft) draft EXECUTABLE_ROOTS) (\<lambda>draft.
     rbind (push_canonical host ''/etc'' ''read'' ''system-configuration'' True draft) (\<lambda>draft.
     rbind (push_canonical host ''/proc'' ''read'' ''process-compatibility'' True draft) (\<lambda>draft.
     rbind (add_resolver_target host draft) (\<lambda>draft.
     rbind (ensure_store_disjoint host (rq_store_root rq) (rq_space_home rq) (fst draft)) (\<lambda>_.
     rfold (add_device host) draft DEVICE_PATHS)))))))"

subsection \<open>User grants\<close>

definition reserve_path :: "confine_host \<Rightarrow> string list \<Rightarrow> string \<times> string \<Rightarrow> string list result" where
  "reserve_path host reserved entry =
     rbind (io_ok (snd entry) (cf_canonicalize host (fst entry))) (\<lambda>canonical. Ok (reserved @ [canonical]))"

definition credential_paths :: "confine_host \<Rightarrow> string \<Rightarrow> string \<Rightarrow> string list" where
  "credential_paths host passwd_home name =
     (let lexical = path_join passwd_home name in
      [case cf_canonicalize host lexical of SysOk canonical \<Rightarrow> canonical | _ \<Rightarrow> lexical, lexical])"

definition reserved_paths :: "confine_host \<Rightarrow> confinement_request \<Rightarrow> string list result" where
  "reserved_paths host rq =
     rbind (rfold (reserve_path host) []
        ([(rq_store_root rq, ''resolve the Quarters store root''), (rq_runtime rq, ''resolve the Quarter runtime''),
          (rq_current_executable rq, ''resolve the running Quarters executable'')] @
         (case rq_request_executable rq of None \<Rightarrow> [] | Some p \<Rightarrow> [(p, ''resolve the request executable'')]))) (\<lambda>reserved.
     rbind (io_ok ''resolve the current account'' (cf_account_home host)) (\<lambda>user.
     case user of
       None \<Rightarrow> Err Unsupported ''the current account has no passwd record''
     | Some dir \<Rightarrow>
         rbind (io_ok ''resolve the current account home'' (cf_canonicalize host dir)) (\<lambda>passwd_home.
         Ok (reserved @ credential_paths host passwd_home ''.ssh'' @ credential_paths host passwd_home ''.gnupg'' @
             (if rq_home_view rq then [passwd_home] else [])))))"

definition reject_reserved_grant :: "string \<Rightarrow> string list \<Rightarrow> unit result" where
  "reject_reserved_grant grant reserved =
     (if list_all (\<lambda>path. \<not> paths_overlap grant path) reserved then Ok ()
      else Err Unsupported ''user grant overlaps Quarters management, runtime, executable, credential, or home-view state'')"

definition reject_built_in_grant_overlap :: "string \<Rightarrow> anchor \<Rightarrow> confinement_grant list \<Rightarrow> anchor list \<Rightarrow> unit result" where
  "reject_built_in_grant_overlap path a grants built_in =
     (if list_all (\<lambda>g. \<not> paths_overlap path (cg_path g)) grants \<and> list_all (\<lambda>b. \<not> anchor_overlaps a b) built_in then Ok ()
      else Err Unsupported ''user grant overlaps a built-in confinement root'')"

definition user_access_class :: "user_grant_access \<Rightarrow> file_stat \<Rightarrow> string result" where
  "user_access_class access m =
     (if is_file m \<and> st_nlink m \<noteq> 1
      then Err Unsupported ''user file grants require a single-link file; hard-link aliases are not permitted''
      else if is_dir m then Ok (if access = GrantReadOnly then ''data-read'' else ''data-read-write'')
      else if is_file m then Ok (if access = GrantReadOnly then ''data-read-file'' else ''data-read-write-file'')
      else Err Unsupported ''user-granted path is not a regular file or directory'')"

record user_grant_inputs =
  ui_reserved :: "string list"
  ui_reserved_anchors :: "anchor list"
  ui_built_in_anchors :: "anchor list"
  ui_mounts :: "mount list"
  ui_protected :: "string list"

type_synonym user_grant_state = "confinement_grant list \<times> string list \<times> anchor list"

definition add_user_grant ::
  "confine_host \<Rightarrow> user_grant_inputs \<Rightarrow> user_grant_state \<Rightarrow> user_confinement_grant \<Rightarrow> user_grant_state result" where
  "add_user_grant host inp st requested =
     (case st of (grants, user_paths, user_anchors) \<Rightarrow>
      if \<not> is_absolute (ug_path requested) then Err InvalidInput ''--grant-path requires an existing absolute path''
      else
        rbind (io_ok ''resolve user-granted path'' (cf_canonicalize host (ug_path requested))) (\<lambda>canonical.
        if list_ex (\<lambda>p. path_components p = path_components canonical) user_paths
        then Err InvalidInput ''multiple --grant-path options resolve to the same path''
        else
          rbind (open_anchor host canonical) (\<lambda>a.
          if list_ex (\<lambda>p. paths_overlap p canonical) user_paths \<or> list_ex (\<lambda>previous. anchor_overlaps previous a) user_anchors
          then Err InvalidInput ''overlapping --grant-path options are ambiguous''
          else
            rbind (reject_reserved_grant canonical (ui_reserved inp)) (\<lambda>_.
            if list_ex (\<lambda>reserved. anchor_overlaps reserved a) (ui_reserved_anchors inp)
            then Err Unsupported ''user grant overlaps a protected filesystem identity''
            else
              rbind (reject_built_in_grant_overlap canonical a grants (ui_built_in_anchors inp)) (\<lambda>_.
              rbind (reject_overlap (ui_mounts inp) (cf_statx host) (path_components canonical) (map path_components (ui_protected inp))) (\<lambda>_.
              rbind (user_access_class (ug_access requested) (an_metadata a)) (\<lambda>access.
              Ok (grants @ [grant_of canonical access ''user-granted'' True (an_metadata a)],
                  user_paths @ [canonical], user_anchors @ [a]))))))))"

definition built_in_anchor :: "confine_host \<Rightarrow> anchor list \<Rightarrow> confinement_grant \<Rightarrow> anchor list result" where
  "built_in_anchor host anchors g =
     rbind (open_anchor host (cg_path g)) (\<lambda>a.
     rbind (verify_anchor a (cg_device g) (cg_inode g)) (\<lambda>_. Ok (anchors @ [a])))"

text \<open>
  Before the topology is read the source resolves every grant once and drops the answers, so that
  automounts on their paths are in place; the answers of a host here are those after that.
\<close>

definition add_user_grants :: "confine_host \<Rightarrow> confinement_request \<Rightarrow> confinement_grant list \<Rightarrow> confinement_grant list result" where
  "add_user_grants host rq grants =
     (if MAX_USER_GRANTS < length (rq_user_grants rq)
      then Err ResourceLimit ''filesystem confinement accepts at most 32 user grants''
      else if rq_user_grants rq = [] then Ok grants
      else
        rbind (reserved_paths host rq) (\<lambda>reserved.
        rbind (existing_anchors host reserved) (\<lambda>reserved_anchors.
        rbind (rfold (built_in_anchor host) [] grants) (\<lambda>built_in_anchors.
        rbind (read_topology (cf_mountinfo host)) (\<lambda>mounts.
        rbind (rfold (add_user_grant host
            \<lparr>ui_reserved = reserved, ui_reserved_anchors = reserved_anchors, ui_built_in_anchors = built_in_anchors,
             ui_mounts = mounts, ui_protected = reserved @ map cg_path grants\<rparr>) (grants, [], []) (rq_user_grants rq)) (\<lambda>st.
        Ok (fst st)))))))"

subsection \<open>The plan\<close>

text \<open>Components are ordered as the derived order of \<open>std::path::Component\<close>; paths compare component-wise.\<close>

instantiation path_component :: linorder
begin

fun component_key :: "path_component \<Rightarrow> nat \<times> string" where
  "component_key RootDir = (0, [])"
| "component_key CurDir = (1, [])"
| "component_key ParentDir = (2, [])"
| "component_key (Normal q) = (3, q)"

definition less_eq_path_component :: "path_component \<Rightarrow> path_component \<Rightarrow> bool" where
  "less_eq_path_component a b \<longleftrightarrow> component_key a \<le> component_key b"

definition less_path_component :: "path_component \<Rightarrow> path_component \<Rightarrow> bool" where
  "less_path_component a b \<longleftrightarrow> component_key a < component_key b"

instance
proof
  have inj: "component_key a = component_key b \<Longrightarrow> a = b" for a b by (cases a; cases b) auto
  fix a b c :: path_component
  show "a < b \<longleftrightarrow> a \<le> b \<and> \<not> b \<le> a" "a \<le> a" "a \<le> b \<Longrightarrow> b \<le> c \<Longrightarrow> a \<le> c" "a \<le> b \<or> b \<le> a"
    by (auto simp: less_eq_path_component_def less_path_component_def)
  show "a \<le> b \<Longrightarrow> b \<le> a \<Longrightarrow> a = b"
    unfolding less_eq_path_component_def using inj by (simp add: order_antisym)
qed

end

definition grant_key :: "confinement_grant \<Rightarrow> path \<times> string" where
  "grant_key g = (path_components (cg_path g), cg_access g)"

text \<open>\<open>retain\<close> with a set of the keys seen so far.\<close>

fun retain_new :: "('a \<Rightarrow> 'k) \<Rightarrow> 'k list \<Rightarrow> 'a list \<Rightarrow> 'a list" where
  "retain_new key seen [] = []"
| "retain_new key seen (x # xs) =
     (if key x \<in> set seen then retain_new key seen xs else x # retain_new key (key x # seen) xs)"

definition deduplicate_grants :: "confinement_grant list \<Rightarrow> confinement_grant list" where
  "deduplicate_grants grants = sort_key grant_key (retain_new grant_key [] grants)"

definition command_directories :: "confine_host \<Rightarrow> confinement_grant \<Rightarrow> string list" where
  "command_directories host g =
     filter (path_is_dir host) [path_join (cg_path g) ''bin'', path_join (cg_path g) ''sbin''] @
     (if path_components (cg_path g) \<noteq> [] \<and> last (path_components (cg_path g)) = Normal ''bin'' then [cg_path g] else [])"

definition retained_host_entry :: "confine_host \<Rightarrow> confinement_grant list \<Rightarrow> string \<Rightarrow> string option" where
  "retained_host_entry host grants entry =
     (case cf_canonicalize host entry of
        SysOk canonical \<Rightarrow>
          (let granted = list_ex (\<lambda>g. cg_access g = ''read-execute'' \<and> path_starts_with canonical (cg_path g)) grants in
           if path_is_dir host canonical \<and> granted then Some canonical else None)
      | _ \<Rightarrow> None)"

definition reconstructed_path :: "confine_host \<Rightarrow> string \<Rightarrow> string \<Rightarrow> confinement_grant list \<Rightarrow> string option \<Rightarrow> string list" where
  "reconstructed_path host home runtime grants host_path =
     retain_new path_components []
       ([path_join runtime ''bin'', path_join home ''.local/bin'', path_join home ''.cargo/bin'', path_join home ''.local/share/npm/bin'',
         path_join home ''.local/share/uv/tools/bin'', path_join home ''.nix-profile/bin''] @
        concat (map (command_directories host) (filter (\<lambda>g. cg_access g = ''read-execute'') grants)) @
        (case host_path of None \<Rightarrow> [] | Some value \<Rightarrow> List.map_filter (retained_host_entry host grants) (split_paths value)))"

definition omitted_path_count :: "confine_host \<Rightarrow> string option \<Rightarrow> string list \<Rightarrow> nat" where
  "omitted_path_count host host_path allowed =
     (case host_path of
        None \<Rightarrow> 0
      | Some value \<Rightarrow>
          length (filter (\<lambda>entry. path_components entry \<notin> set (map path_components allowed))
            (List.map_filter (\<lambda>entry. case cf_canonicalize host entry of SysOk c \<Rightarrow> Some c | _ \<Rightarrow> None) (split_paths value))))"

subsection \<open>The working directory\<close>

fun component_string :: "path_component \<Rightarrow> string" where
  "component_string RootDir = []"
| "component_string CurDir = ''.''"
| "component_string ParentDir = ''..''"
| "component_string (Normal q) = q"

definition strip_path_prefix :: "string \<Rightarrow> string \<Rightarrow> string option" where
  "strip_path_prefix p base = map_option (\<lambda>rest. join_slash (map component_string rest)) (strip_path (path_components p) (path_components base))"

definition identified :: "confine_host \<Rightarrow> string \<Rightarrow> string \<Rightarrow> working_directory result" where
  "identified host path source =
     rbind (io_ok ''open requested working directory'' (cf_open_directory host source)) (\<lambda>m.
     Ok \<lparr>wd_path = path, wd_device = st_dev m, wd_inode = st_ino m\<rparr>)"

definition canonical_working_directory :: "confine_host \<Rightarrow> string \<Rightarrow> string result" where
  "canonical_working_directory host path =
     (if \<not> is_absolute path then Err InvalidInput ''--workdir requires an existing absolute directory''
      else
        rbind (io_ok ''resolve requested working directory'' (cf_canonicalize host path)) (\<lambda>canonical.
        if path_is_dir host canonical then Ok canonical
        else Err InvalidInput ''--workdir must identify an existing directory''))"

definition resolve_existing_working_directory :: "confine_host \<Rightarrow> string \<Rightarrow> working_directory result" where
  "resolve_existing_working_directory host path =
     rbind (canonical_working_directory host path) (\<lambda>canonical. identified host canonical canonical)"

definition resolve_home_view_working_directory :: "confine_host \<Rightarrow> string \<Rightarrow> string \<Rightarrow> string \<Rightarrow> working_directory result" where
  "resolve_home_view_working_directory host path home_path effective_home =
     rbind (canonical_working_directory host path) (\<lambda>canonical.
     rbind (io_ok ''resolve Quarter home for working directory'' (cf_canonicalize host home_path)) (\<lambda>space.
     rbind (io_ok ''resolve passwd home for working directory'' (cf_canonicalize host effective_home)) (\<lambda>passwd.
     case strip_path_prefix canonical space of
       Some relative \<Rightarrow> identified host (path_join passwd relative) canonical
     | None \<Rightarrow>
         (case strip_path_prefix canonical passwd of
            None \<Rightarrow> identified host canonical canonical
          | Some relative \<Rightarrow>
              (let counterpart = path_join space relative in
               if path_is_dir host counterpart then identified host (path_join passwd relative) counterpart
               else Err Unsupported ''--workdir is hidden by --home-view and has no Quarter counterpart'')))))"

definition resolve_working_directory ::
  "confine_host \<Rightarrow> confinement_request \<Rightarrow> confinement_grant list \<Rightarrow> string \<Rightarrow> working_directory result" where
  "resolve_working_directory host rq grants effective =
     (case rq_working_directory rq of
        None \<Rightarrow> identified host effective (if rq_home_view rq then rq_space_home rq else effective)
      | Some requested \<Rightarrow>
          rbind (if rq_home_view rq then resolve_home_view_working_directory host requested (rq_space_home rq) (rq_effective_home rq)
                 else resolve_existing_working_directory host requested) (\<lambda>directory.
          rbind (io_ok ''resolve Quarter home for working directory'' (cf_canonicalize host (rq_space_home rq))) (\<lambda>space.
          let canonical = wd_path directory;
              data_granted = list_ex (\<lambda>g. cg_source g = ''user-granted'' \<and> cg_access g \<in> {''data-read'', ''data-read-write''} \<and>
                path_starts_with canonical (cg_path g)) grants
          in if rq_home_view rq \<and> path_starts_with canonical effective then Ok directory
             else if \<not> rq_home_view rq \<and> path_starts_with canonical space then Ok directory
             else if data_granted then Ok directory
             else Err Unsupported ''a confined --workdir outside the Quarter home requires an explicit data grant'')))"

definition build_plan :: "confine_host \<Rightarrow> confinement_request \<Rightarrow> confinement_plan result" where
  "build_plan host rq =
     rbind (validate_private_directory host (rq_space_home rq)) (\<lambda>_.
     rbind (validate_private_directory host (rq_runtime rq)) (\<lambda>_.
     rbind (built_in_grants host rq) (\<lambda>draft.
     rbind (add_user_grants host rq (fst draft)) (\<lambda>all.
     let grants = deduplicate_grants all in
     if \<not> list_ex (\<lambda>g. cg_access g = ''read-execute'') grants
     then Err Unsupported ''filesystem confinement found no executable system root''
     else
       rbind (io_ok ''resolve confined Quarter command root'' (cf_canonicalize host (rq_effective_home rq))) (\<lambda>command_root.
       let executable_path = reconstructed_path host (rq_effective_home rq) (rq_runtime rq) grants (rq_host_path rq) in
       rbind (resolve_working_directory host rq grants command_root) (\<lambda>directory.
       Ok \<lparr>pn_working_directory = directory, pn_quarter_command_root = command_root, pn_grants = grants,
           pn_omitted_paths = snd draft, pn_executable_path = executable_path,
           pn_omitted_host_path_entries = omitted_path_count host (rq_host_path rq) executable_path\<rparr>))))))"

subsection \<open>The home of a launch (\<open>process.rs\<close>)\<close>

text \<open>With a home view the effective home is the passwd home of the account; \<open>available\<close> is the probed capability.\<close>

definition host_home :: "confine_host \<Rightarrow> string result" where
  "host_home host =
     rbind (io_ok ''could not resolve the current account home'' (cf_account_home host)) (\<lambda>user.
     case user of
       None \<Rightarrow> Err Unsupported ''the current account has no passwd record''
     | Some dir \<Rightarrow> if is_absolute dir then Ok dir else Err CorruptState ''the current account passwd home is not absolute'')"

definition effective_home :: "confine_host \<Rightarrow> bool \<Rightarrow> string \<Rightarrow> bool \<Rightarrow> string result" where
  "effective_home host available quarter_home home_view =
     (if \<not> home_view then Ok quarter_home
      else if \<not> available then Err Unsupported ''--home-view is unavailable on this host''
      else host_home host)"

subsection \<open>Executables\<close>

definition resolve_name :: "confine_host \<Rightarrow> string \<Rightarrow> string \<Rightarrow> string result" where
  "resolve_name host program search_path =
     (case find (\<lambda>candidate. case cf_metadata host candidate of SysOk m \<Rightarrow> is_file m \<and> executable_bits (st_mode m) | _ \<Rightarrow> False)
         (map (\<lambda>directory. path_join directory program) (split_paths search_path)) of
        Some candidate \<Rightarrow> Ok candidate
      | None \<Rightarrow> Err NotFound ''command is unavailable on the confined PATH'')"

definition open_stable_executable :: "confine_host \<Rightarrow> string \<Rightarrow> file_stat \<Rightarrow> unit result" where
  "open_stable_executable host path expected =
     rbind (io_ok ''open confined executable'' (cf_open_path host path)) (\<lambda>observed.
     if st_dev observed = st_dev expected \<and> st_ino observed = st_ino expected \<and> is_file observed then Ok ()
     else Err SystemError ''the confined executable changed while it was being opened'')"

definition resolve_confined_executable :: "confine_host \<Rightarrow> string \<Rightarrow> string \<Rightarrow> confinement_plan \<Rightarrow> string result" where
  "resolve_confined_executable host program search_path plan =
     rbind (if is_absolute program then Ok program
            else (case path_components program of
                    [Normal _] \<Rightarrow> resolve_name host program search_path
                  | _ \<Rightarrow> Err InvalidInput ''confined commands must use an absolute path or a bare command name'')) (\<lambda>candidate.
     rbind (io_ok ''resolve confined executable'' (cf_canonicalize host candidate)) (\<lambda>canonical.
     let allowed = path_starts_with canonical (pn_quarter_command_root plan) \<or>
       list_ex (\<lambda>g. cg_access g \<in> {''read-execute'', ''read-write''} \<and> path_starts_with canonical (cg_path g)) (pn_grants plan) in
     rbind (io_ok ''inspect confined executable'' (cf_metadata host canonical)) (\<lambda>m.
     if \<not> allowed \<or> \<not> is_file m \<or> \<not> executable_bits (st_mode m)
     then Err Unsupported ''the requested executable is outside the confined executable roots''
     else rbind (open_stable_executable host canonical m) (\<lambda>_. Ok canonical))))"

subsection \<open>The rules (\<open>policy.rs\<close>)\<close>

text \<open>The rights of the Landlock crate: \<open>AccessFs::from_read\<close> and \<open>from_all\<close> of ABI 3 and four single rights.
  \<open>path_fd\<close> answers \<open>PathFd::new\<close> with the answer of \<open>fstat\<close> on the descriptor, \<open>add_rule\<close> the crate's \<open>add_rule\<close>.\<close>

record 'r landlock_rights =
  lr_from_read :: "'r set"
  lr_from_all :: "'r set"
  lr_execute :: 'r
  lr_read_file :: 'r
  lr_write_file :: 'r
  lr_truncate :: 'r

definition grant_access :: "'r landlock_rights \<Rightarrow> confinement_grant \<Rightarrow> 'r set result" where
  "grant_access lr g =
     (let a = cg_access g in
      if a = ''read-file'' \<or> a = ''data-read-file'' then Ok {lr_read_file lr}
      else if a = ''read'' \<or> a = ''data-read'' then Ok (lr_from_read lr - {lr_execute lr})
      else if a = ''read-execute'' then Ok (lr_from_read lr)
      else if a = ''read-write'' then Ok (lr_from_all lr)
      else if a = ''data-read-write'' then Ok (lr_from_all lr - {lr_execute lr})
      else if a = ''data-read-write-file'' then Ok {lr_read_file lr, lr_write_file lr, lr_truncate lr}
      else if a = ''device'' then Ok {lr_read_file lr, lr_write_file lr}
      else Err CorruptState ''filesystem policy contains an unknown access class'')"

definition prepare_rule ::
  "'r landlock_rights \<Rightarrow> (string \<Rightarrow> file_stat sys sys) \<Rightarrow> (confinement_grant \<Rightarrow> unit result) \<Rightarrow>
     (string \<times> 'r set) list \<Rightarrow> confinement_grant \<Rightarrow> (string \<times> 'r set) list result" where
  "prepare_rule lr path_fd add_rule rules g =
     rbind (grant_access lr g) (\<lambda>access.
     rbind (case path_fd (cg_path g) of SysOk descriptor \<Rightarrow> Ok descriptor | _ \<Rightarrow> Err Unsupported ''open a filesystem policy anchor'') (\<lambda>descriptor.
     rbind (io_ok ''could not inspect an opened filesystem policy anchor'' descriptor) (\<lambda>m.
     if st_dev m \<noteq> cg_device g \<or> st_ino m \<noteq> cg_inode g
     then Err Unsupported ''a filesystem policy anchor changed after validation''
     else if cg_access g \<in> {''data-read-file'', ''data-read-write-file''} \<and> st_nlink m \<noteq> 1
     then Err Unsupported ''a user file grant acquired a hard-link alias after validation''
     else rbind (add_rule g) (\<lambda>_. Ok (rules @ [(cg_path g, access)])))))"

definition prepare_confinement ::
  "'r landlock_rights \<Rightarrow> unit result \<Rightarrow> (string \<Rightarrow> file_stat sys sys) \<Rightarrow> (confinement_grant \<Rightarrow> unit result) \<Rightarrow>
     confinement_plan \<Rightarrow> (string \<times> 'r set) list result" where
  "prepare_confinement lr new_ruleset path_fd add_rule plan =
     rbind new_ruleset (\<lambda>_. rfold (prepare_rule lr path_fd add_rule) [] (pn_grants plan))"

end
