(* ===== verification/Confinement_Properties.thy ===== *)
theory Confinement_Properties
  imports Confinement
begin

text \<open>
  What an accepted confinement plan admits: user grants share nothing with any other rule or with
  protected state, the store outside the Quarter's own home stays closed, and what resolves as a
  command is admitted as an executable and never comes from user-granted data, with and without the
  home view of the launch.
\<close>

subsection \<open>Paths\<close>

definition path_holds :: "string \<Rightarrow> path \<Rightarrow> bool" where
  "path_holds p q \<longleftrightarrow> prefix (path_components p) q"

interpretation grants: overlap_relation path_holds paths_overlap
  by unfold_locales (auto simp: path_holds_def paths_overlap_def path_starts_with_def dest: prefix_same_cases)

lemma paths_overlap_sym: "paths_overlap p q \<longleftrightarrow> paths_overlap q p"
  by (auto simp: paths_overlap_def)

lemma path_starts_with_holds: "path_starts_with p base \<longleftrightarrow> path_holds base (path_components p)"
  by (simp add: path_starts_with_def path_holds_def)

subsection \<open>Built-in grants\<close>

definition built_in :: "confine_host \<Rightarrow> confinement_request \<Rightarrow> confinement_grant \<Rightarrow> bool" where
  "built_in host rq g \<longleftrightarrow>
     (cg_source g = ''quarter-home'' \<and> cg_access g = ''read-write'' \<and> cf_canonicalize host (rq_space_home rq) = SysOk (cg_path g)) \<or>
     (cg_source g = ''quarter-runtime'' \<and> cg_access g = ''read-write'' \<and> cf_canonicalize host (rq_runtime rq) = SysOk (cg_path g)) \<or>
     (cg_source g = ''system-executable-root'' \<and> cg_access g = ''read-execute'') \<or>
     (cg_source g = ''system-configuration'' \<and> cg_access g = ''read'') \<or>
     (cg_source g = ''process-compatibility'' \<and> cg_access g = ''read'') \<or>
     (cg_source g = ''derived-resolver-target'' \<and> cg_access g = ''read-file'') \<or>
     (cg_source g = ''compatibility-device'' \<and> cg_access g = ''device'')"

definition resolved_grant :: "confine_host \<Rightarrow> confinement_grant \<Rightarrow> bool" where
  "resolved_grant host g \<longleftrightarrow> (\<exists>p. cf_canonicalize host p = SysOk (cg_path g))"

lemma push_canonical_Ok:
  assumes "push_canonical host path access source required draft = Ok draft'"
  obtains c m where "cf_canonicalize host path = SysOk c" "fst draft' = fst draft @ [grant_of c access source required m]"
  using assms by (auto simp: push_canonical_def result_simps)

lemma push_optional_Ok:
  assumes "push_optional host path access source draft = Ok draft'"
  shows "fst draft' = fst draft \<or>
     (\<exists>c m. cf_canonicalize host path = SysOk c \<and> fst draft' = fst draft @ [grant_of c access source False m])"
  using assms by (auto simp: push_optional_def result_simps split: sys.splits)

lemma grant_of_sel [simp]:
  "cg_path (grant_of p a s r m) = p" "cg_access (grant_of p a s r m) = a" "cg_source (grant_of p a s r m) = s"
  by (simp_all add: grant_of_def)

lemma add_device_Ok:
  assumes "add_device host draft path = Ok draft'"
  shows "\<exists>ds. fst draft' = fst draft @ ds \<and>
     list_all (\<lambda>g. resolved_grant host g \<and> cg_source g = ''compatibility-device'' \<and> cg_access g = ''device'') ds"
proof -
  have optional: ?thesis if "push_optional host path ''device'' ''compatibility-device'' draft = Ok draft'"
    using push_optional_Ok [OF that] by (auto simp: resolved_grant_def)
  have required: ?thesis if "push_canonical host path ''device'' ''compatibility-device'' True draft = Ok draft'"
    by (rule push_canonical_Ok [OF that]) (auto simp: resolved_grant_def)
  show ?thesis
    using assms optional required unfolding add_device_def push_optional_terminal_def by (auto split: if_splits)
qed

lemma add_devices_Ok:
  assumes "rfold (add_device host) draft paths = Ok draft'"
  shows "\<exists>ds. fst draft' = fst draft @ ds \<and>
     list_all (\<lambda>g. resolved_grant host g \<and> cg_source g = ''compatibility-device'' \<and> cg_access g = ''device'') ds"
proof (rule rfold_invariant [OF assms])
  fix u x v
  assume "\<exists>ds. fst u = fst draft @ ds \<and>
     list_all (\<lambda>g. resolved_grant host g \<and> cg_source g = ''compatibility-device'' \<and> cg_access g = ''device'') ds"
    and "add_device host u x = Ok v"
  with add_device_Ok [of host u x v] show "\<exists>ds. fst v = fst draft @ ds \<and>
     list_all (\<lambda>g. resolved_grant host g \<and> cg_source g = ''compatibility-device'' \<and> cg_access g = ''device'') ds"
    by force
qed simp

definition built_in_draft :: "confine_host \<Rightarrow> confinement_request \<Rightarrow> confinement_grant list \<Rightarrow> bool" where
  "built_in_draft host rq gs \<longleftrightarrow> list_all (\<lambda>g. built_in host rq g \<and> resolved_grant host g) gs"

lemma built_in_sources:
  "cg_source g = ''system-executable-root'' \<Longrightarrow> cg_access g = ''read-execute'' \<Longrightarrow> built_in host rq g"
  "cg_source g = ''system-configuration'' \<Longrightarrow> cg_access g = ''read'' \<Longrightarrow> built_in host rq g"
  "cg_source g = ''process-compatibility'' \<Longrightarrow> cg_access g = ''read'' \<Longrightarrow> built_in host rq g"
  "cg_source g = ''derived-resolver-target'' \<Longrightarrow> cg_access g = ''read-file'' \<Longrightarrow> built_in host rq g"
  "cg_source g = ''compatibility-device'' \<Longrightarrow> cg_access g = ''device'' \<Longrightarrow> built_in host rq g"
  by (simp_all add: built_in_def)

lemma draft_push:
  assumes "push_canonical host path access source required draft = Ok draft'" and "built_in_draft host rq (fst draft)"
    and "\<And>c m. cf_canonicalize host path = SysOk c \<Longrightarrow> built_in host rq (grant_of c access source required m)"
  shows "built_in_draft host rq (fst draft')"
  by (rule push_canonical_Ok [OF assms(1)]) (use assms(2,3) in \<open>auto simp: built_in_draft_def resolved_grant_def\<close>)

lemma draft_roots:
  assumes "rfold (\<lambda>draft path. push_optional host path ''read-execute'' ''system-executable-root'' draft) draft paths = Ok draft'"
    and "built_in_draft host rq (fst draft)" "\<exists>h \<in> set (fst draft). P h"
  shows "built_in_draft host rq (fst draft') \<and> (\<exists>h \<in> set (fst draft'). P h)"
proof (rule rfold_invariant [OF assms(1)])
  fix u x v
  assume "built_in_draft host rq (fst u) \<and> (\<exists>h \<in> set (fst u). P h)"
    and "push_optional host x ''read-execute'' ''system-executable-root'' u = Ok v"
  then show "built_in_draft host rq (fst v) \<and> (\<exists>h \<in> set (fst v). P h)"
    using push_optional_Ok [of host x "''read-execute''" "''system-executable-root''" u v]
    by (auto simp: built_in_draft_def resolved_grant_def intro!: built_in_sources(1))
qed (use assms in auto)

lemma built_in_grants_Ok:
  assumes "built_in_grants host rq = Ok draft"
  obtains gs ds where "fst draft = gs @ ds" "built_in_draft host rq gs" "built_in_draft host rq ds"
    "ensure_store_disjoint host (rq_store_root rq) (rq_space_home rq) gs = Ok ()"
    "list_all (\<lambda>g. cg_source g = ''compatibility-device'' \<and> cg_access g = ''device'') ds"
    "\<exists>h \<in> set gs. cg_access h = ''read-write'' \<and> cf_canonicalize host (rq_space_home rq) = SysOk (cg_path h)"
proof -
  obtain d1 d2 d3 d4 d5 d6 where
    s: "push_canonical host (rq_space_home rq) ''read-write'' ''quarter-home'' True ([], []) = Ok d1"
    "push_canonical host (rq_runtime rq) ''read-write'' ''quarter-runtime'' True d1 = Ok d2"
    "rfold (\<lambda>draft path. push_optional host path ''read-execute'' ''system-executable-root'' draft) d2 EXECUTABLE_ROOTS = Ok d3"
    "push_canonical host ''/etc'' ''read'' ''system-configuration'' True d3 = Ok d4"
    "push_canonical host ''/proc'' ''read'' ''process-compatibility'' True d4 = Ok d5"
    "add_resolver_target host d5 = Ok d6"
    "ensure_store_disjoint host (rq_store_root rq) (rq_space_home rq) (fst d6) = Ok ()"
    "rfold (add_device host) d6 DEVICE_PATHS = Ok draft"
    using assms by (auto simp: built_in_grants_def result_simps)
  let ?H = "\<lambda>h. cg_access h = ''read-write'' \<and> cf_canonicalize host (rq_space_home rq) = SysOk (cg_path h)"
  have grows: "\<exists>h \<in> set (fst draft'). ?H h"
    if "push_canonical host path access source required draft = Ok draft'" "\<exists>h \<in> set (fst draft). ?H h"
    for path access source required draft draft'
    by (rule push_canonical_Ok [OF that(1)]) (use that(2) in auto)
  have "built_in_draft host rq (fst d1)"
    by (rule draft_push [OF s(1)]) (auto simp: built_in_draft_def built_in_def)
  then have b2: "built_in_draft host rq (fst d2)" by (rule draft_push [OF s(2)]) (auto simp: built_in_def)
  have "\<exists>h \<in> set (fst d1). ?H h" by (rule push_canonical_Ok [OF s(1)]) auto
  then have h2: "\<exists>h \<in> set (fst d2). ?H h" by (rule grows [OF s(2)])
  have b3: "built_in_draft host rq (fst d3)" and h3: "\<exists>h \<in> set (fst d3). ?H h" using draft_roots [OF s(3) b2 h2] by blast+
  have b4: "built_in_draft host rq (fst d4)" by (rule draft_push [OF s(4) b3]) (simp add: built_in_sources)
  have b5: "built_in_draft host rq (fst d5)" by (rule draft_push [OF s(5) b4]) (simp add: built_in_sources)
  have h5: "\<exists>h \<in> set (fst d5). ?H h" by (rule grows [OF s(5) grows [OF s(4) h3]])
  have "built_in_draft host rq (fst d6) \<and> (\<exists>h \<in> set (fst d6). ?H h)"
  proof (cases "fst d6 = fst d5")
    case False
    then obtain target where p: "push_canonical host target ''read-file'' ''derived-resolver-target'' False d5 = Ok d6"
      using s(6) by (auto simp: add_resolver_target_def split: sys.splits if_splits)
    show ?thesis using draft_push [OF p b5] grows [OF p h5] by (simp add: built_in_sources)
  qed (use b5 h5 in simp)
  then have b6: "built_in_draft host rq (fst d6)" and h6: "\<exists>h \<in> set (fst d6). ?H h" by blast+
  obtain ds where ds: "fst draft = fst d6 @ ds"
      "list_all (\<lambda>g. resolved_grant host g \<and> cg_source g = ''compatibility-device'' \<and> cg_access g = ''device'') ds"
    using add_devices_Ok [OF s(8)] by blast
  have "built_in_draft host rq ds"
    using ds(2) by (auto simp: built_in_draft_def list_all_iff built_in_sources)
  then show thesis
    using that [OF ds(1) b6 _ s(7) _ h6] ds(2) by (auto simp: list_all_iff)
qed

subsection \<open>User grants\<close>

definition DATA_CLASSES :: "string set" where
  "DATA_CLASSES = {''data-read'', ''data-read-write'', ''data-read-file'', ''data-read-write-file''}"

lemma user_access_class_data: "user_access_class access m = Ok a \<Longrightarrow> a \<in> DATA_CLASSES"
  by (auto simp: user_access_class_def DATA_CLASSES_def split: if_splits)

definition separate :: "string list \<Rightarrow> confinement_grant \<Rightarrow> bool" where
  "separate ps g \<longleftrightarrow> list_all (\<lambda>p. \<not> paths_overlap (cg_path g) p) ps"

definition user_draft :: "confine_host \<Rightarrow> string list \<Rightarrow> confinement_grant list \<Rightarrow> confinement_grant list \<Rightarrow> bool" where
  "user_draft host reserved grants us \<longleftrightarrow>
     list_all (\<lambda>u. resolved_grant host u \<and> cg_source u = ''user-granted'' \<and> cg_access u \<in> DATA_CLASSES \<and>
       separate (reserved @ map cg_path grants) u) us \<and>
     sorted_wrt (\<lambda>u v. \<not> paths_overlap (cg_path u) (cg_path v)) us"

lemma user_draft_snoc:
  assumes "user_draft host reserved grants us" and "resolved_grant host u" "cg_source u = ''user-granted''" "cg_access u \<in> DATA_CLASSES"
    and "separate (reserved @ map cg_path grants) u" and "list_all (\<lambda>v. \<not> paths_overlap (cg_path v) (cg_path u)) us"
  shows "user_draft host reserved grants (us @ [u])"
  using assms by (auto simp: user_draft_def sorted_wrt_append list_all_iff)

lemma add_user_grant_Ok:
  assumes run: "add_user_grant host inp (grants @ us, map cg_path us, anchors) requested = Ok st"
    and us: "user_draft host (ui_reserved inp) grants us"
  shows "\<exists>vs anchors'. st = (grants @ vs, map cg_path vs, anchors') \<and> user_draft host (ui_reserved inp) grants vs"
proof -
  obtain c a access where c: "cf_canonicalize host (ug_path requested) = SysOk c"
      "\<not> list_ex (\<lambda>p. paths_overlap p c) (map cg_path us)" "reject_reserved_grant c (ui_reserved inp) = Ok ()"
      "reject_built_in_grant_overlap c a (grants @ us) (ui_built_in_anchors inp) = Ok ()"
      "user_access_class (ug_access requested) (an_metadata a) = Ok access"
      and st: "st = (grants @ us @ [grant_of c access ''user-granted'' True (an_metadata a)], map cg_path us @ [c], anchors @ [a])"
    using run unfolding add_user_grant_def by (auto simp: result_simps split: if_splits)
  let ?u = "grant_of c access ''user-granted'' True (an_metadata a)"
  have "user_draft host (ui_reserved inp) grants (us @ [?u])"
  proof (rule user_draft_snoc [OF us])
    show "resolved_grant host ?u" using c(1) by (auto simp: resolved_grant_def)
    show "cg_access ?u \<in> DATA_CLASSES" using user_access_class_data [OF c(5)] by simp
    show "separate (ui_reserved inp @ map cg_path grants) ?u"
      using c(3,4) by (auto simp: separate_def reject_reserved_grant_def reject_built_in_grant_overlap_def list_all_iff split: if_splits)
    show "list_all (\<lambda>v. \<not> paths_overlap (cg_path v) (cg_path ?u)) us"
      using c(2) by (auto simp: list_all_iff list_ex_iff)
  qed simp
  then show ?thesis using st by (intro exI [of _ "us @ [?u]"] exI [of _ "anchors @ [a]"]) simp
qed

lemma add_user_grants_Ok:
  assumes "add_user_grants host rq grants = Ok gs"
  obtains "gs = grants" | us reserved where "gs = grants @ us" "reserved_paths host rq = Ok reserved" "user_draft host reserved grants us"
proof (cases "rq_user_grants rq = []")
  case True
  then show thesis using assms that(1) by (auto simp: add_user_grants_def split: if_splits)
next
  case False
  have "\<exists>reserved inp st. reserved_paths host rq = Ok reserved \<and> ui_reserved inp = reserved \<and>
      rfold (add_user_grant host inp) (grants, [], []) (rq_user_grants rq) = Ok st \<and> gs = fst st"
    using assms False unfolding add_user_grants_def
    by (clarsimp simp: result_simps split: if_splits) (intro exI conjI, rule user_grant_inputs.select_convs(1), blast)
  then obtain reserved inp st where r: "reserved_paths host rq = Ok reserved" "ui_reserved inp = reserved"
      and fold: "rfold (add_user_grant host inp) (grants, [], []) (rq_user_grants rq) = Ok st" and gs: "gs = fst st"
    by blast
  have "\<exists>us anchors. st = (grants @ us, map cg_path us, anchors) \<and> user_draft host reserved grants us"
  proof (rule rfold_invariant [OF fold])
    show "\<exists>us anchors. (grants, [], []) = (grants @ us, map cg_path us, anchors) \<and> user_draft host reserved grants us"
      by (intro exI [of _ "[]"]) (simp add: user_draft_def)
  next
    fix u x v
    assume "\<exists>us anchors. u = (grants @ us, map cg_path us, anchors) \<and> user_draft host reserved grants us"
      and v: "add_user_grant host inp u x = Ok v"
    then obtain us anchors where "u = (grants @ us, map cg_path us, anchors)" "user_draft host (ui_reserved inp) grants us"
      using r(2) by blast
    then show "\<exists>us anchors. v = (grants @ us, map cg_path us, anchors) \<and> user_draft host reserved grants us"
      using add_user_grant_Ok [of host inp grants us anchors x v] v r(2) by simp
  qed
  then show thesis using that(2) r(1) gs by auto
qed

subsection \<open>The plan\<close>

lemma retain_new_set: "set (retain_new key seen xs) \<subseteq> set xs"
  by (induction xs arbitrary: seen) auto

lemma retain_new_keys: "key ` set (retain_new key seen xs) \<union> set seen = key ` set xs \<union> set seen"
proof (induction xs arbitrary: seen)
  case (Cons x xs)
  show ?case using Cons.IH [of seen] Cons.IH [of "key x # seen"] by (cases "key x \<in> set seen") (simp_all add: insert_absorb)
qed simp

lemma deduplicate_subset: "set (deduplicate_grants gs) \<subseteq> set gs"
  using retain_new_set by (simp add: deduplicate_grants_def)

lemma deduplicate_keeps: "g \<in> set gs \<Longrightarrow> \<exists>g' \<in> set (deduplicate_grants gs). grant_key g' = grant_key g"
proof -
  assume "g \<in> set gs"
  then have "grant_key g \<in> grant_key ` set (retain_new grant_key [] gs)" using retain_new_keys [of grant_key "[]" gs] by simp
  then show ?thesis by (auto simp: deduplicate_grants_def)
qed

text \<open>What a successful plan consists of.\<close>

lemma build_plan_Ok:
  assumes "build_plan host rq = Ok plan"
  obtains gs ds us where "set (pn_grants plan) \<subseteq> set (gs @ ds @ us)"
    "\<And>g. g \<in> set (gs @ ds @ us) \<Longrightarrow> \<exists>g' \<in> set (pn_grants plan). grant_key g' = grant_key g"
    "built_in_draft host rq gs" "built_in_draft host rq ds"
    "list_all (\<lambda>g. cg_source g = ''compatibility-device'' \<and> cg_access g = ''device'') ds"
    "ensure_store_disjoint host (rq_store_root rq) (rq_space_home rq) gs = Ok ()"
    "\<exists>h \<in> set gs. cg_access h = ''read-write'' \<and> cf_canonicalize host (rq_space_home rq) = SysOk (cg_path h)"
    "us = [] \<or> (\<exists>reserved. reserved_paths host rq = Ok reserved \<and> user_draft host reserved (gs @ ds) us)"
    "cf_canonicalize host (rq_effective_home rq) = SysOk (pn_quarter_command_root plan)"
proof -
  obtain draft all where b: "built_in_grants host rq = Ok draft" and u: "add_user_grants host rq (fst draft) = Ok all"
      and p: "pn_grants plan = deduplicate_grants all" "cf_canonicalize host (rq_effective_home rq) = SysOk (pn_quarter_command_root plan)"
    using assms by (auto simp: build_plan_def result_simps Let_def split: if_splits)
  obtain gs ds where d: "fst draft = gs @ ds" "built_in_draft host rq gs" "built_in_draft host rq ds"
    "ensure_store_disjoint host (rq_store_root rq) (rq_space_home rq) gs = Ok ()"
    "list_all (\<lambda>g. cg_source g = ''compatibility-device'' \<and> cg_access g = ''device'') ds"
    "\<exists>h \<in> set gs. cg_access h = ''read-write'' \<and> cf_canonicalize host (rq_space_home rq) = SysOk (cg_path h)"
    by (rule built_in_grants_Ok [OF b])
  obtain us where us: "all = (gs @ ds) @ us"
      "us = [] \<or> (\<exists>reserved. reserved_paths host rq = Ok reserved \<and> user_draft host reserved (gs @ ds) us)"
    by (rule add_user_grants_Ok [OF u]) (auto simp: d(1))
  show thesis
    by (rule that [of gs ds us])
      (use d us p deduplicate_subset [of all] deduplicate_keeps [of _ all] in \<open>simp_all add: subset_iff\<close>)
qed

lemma built_in_not_user: "built_in host rq g \<Longrightarrow> cg_source g \<noteq> ''user-granted''"
  by (auto simp: built_in_def)

text \<open>The users' part of a plan, and that it is apart from everything else.\<close>

lemma user_grants_apart:
  assumes plan: "build_plan host rq = Ok plan" and g: "g \<in> set (pn_grants plan)" "cg_source g = ''user-granted''"
  obtains reserved where "reserved_paths host rq = Ok reserved" "list_all (\<lambda>p. \<not> paths_overlap (cg_path g) p) reserved"
    "cg_access g \<in> DATA_CLASSES"
    "\<And>g'. g' \<in> set (pn_grants plan) \<Longrightarrow> g' \<noteq> g \<Longrightarrow> \<not> paths_overlap (cg_path g) (cg_path g')"
proof (rule build_plan_Ok [OF plan])
  fix gs ds us
  assume sub: "set (pn_grants plan) \<subseteq> set (gs @ ds @ us)" and b: "built_in_draft host rq gs" "built_in_draft host rq ds"
    and us: "us = [] \<or> (\<exists>reserved. reserved_paths host rq = Ok reserved \<and> user_draft host reserved (gs @ ds) us)"
  have "g \<notin> set (gs @ ds)" using b g(2) built_in_not_user by (auto simp: built_in_draft_def list_all_iff)
  then have gu: "g \<in> set us" using sub g(1) by auto
  then obtain reserved where r: "reserved_paths host rq = Ok reserved" "user_draft host reserved (gs @ ds) us" using us by auto
  have sep: "separate (reserved @ map cg_path (gs @ ds)) g" "cg_access g \<in> DATA_CLASSES"
    using r(2) gu by (auto simp: user_draft_def list_all_iff)
  have other: "\<not> paths_overlap (cg_path g) (cg_path g')" if g': "g' \<in> set us" "g' \<noteq> g" for g'
  proof -
    obtain i where i: "i < length us" "us ! i = g" using gu by (auto simp: in_set_conv_nth)
    obtain j where j: "j < length us" "us ! j = g'" using g'(1) by (auto simp: in_set_conv_nth)
    note ij = i(1) j(1) i(2) j(2)
    have "i \<noteq> j" using g'(2) ij by auto
    then show ?thesis
      using ij r(2) paths_overlap_sym unfolding user_draft_def sorted_wrt_iff_nth_less by (metis linorder_neqE_nat)
  qed
  show thesis
    by (rule that [OF r(1)]) (use sep other sub in \<open>auto simp: separate_def list_all_iff\<close>)
qed

text \<open>
  The state that no user grant may touch, named from the request and the account: the store root, the
  runtime, the executables that took the request, the credential directories of the account, as
  written and as resolved, and with a home view the account home.
\<close>

definition protected_state :: "confine_host \<Rightarrow> confinement_request \<Rightarrow> string \<Rightarrow> bool" where
  "protected_state host rq p \<longleftrightarrow>
     (\<exists>named \<in> {rq_store_root rq, rq_runtime rq, rq_current_executable rq} \<union> set_option (rq_request_executable rq).
        cf_canonicalize host named = SysOk p) \<or>
     (\<exists>dir account. cf_account_home host = SysOk (Some dir) \<and> cf_canonicalize host dir = SysOk account \<and>
        ((\<exists>name \<in> {''.ssh'', ''.gnupg''}. p = path_join account name \<or> cf_canonicalize host (path_join account name) = SysOk p) \<or>
         rq_home_view rq \<and> p = account))"

lemma reserved_paths_complete:
  assumes "reserved_paths host rq = Ok reserved" and "protected_state host rq p"
  shows "p \<in> set reserved"
  using assms unfolding protected_state_def
  by (auto simp: reserved_paths_def reserve_path_def credential_paths_def result_simps Let_def split: option.splits)

lemma user_grants_clear:
  assumes "build_plan host rq = Ok plan" and "g \<in> set (pn_grants plan)" and "cg_source g = ''user-granted''" and "protected_state host rq p"
  shows "\<not> paths_overlap (cg_path g) p"
  by (rule user_grants_apart [OF assms(1-3)]) (use reserved_paths_complete [OF _ assms(4)] in \<open>auto simp: list_all_iff\<close>)

text \<open>
  C28: User grants are isolated. In an accepted plan a user-granted path has a data access class, it
  overlaps no other rule of the plan, built in or user-granted, and it overlaps no reserved path. In
  particular it overlaps neither the store root, the runtime, the executables that took the request,
  the account's \<open>.ssh\<close> and \<open>.gnupg\<close>, as written or as resolved, nor, with a home view, the account home.
\<close>

theorem user_grants_are_isolated:
  assumes "build_plan host rq = Ok plan" and "g \<in> set (pn_grants plan)" and "cg_source g = ''user-granted''"
  shows "cg_access g \<in> DATA_CLASSES \<and>
     (\<forall>g' \<in> set (pn_grants plan) - {g}. \<not> paths_overlap (cg_path g) (cg_path g')) \<and>
     (\<exists>reserved. reserved_paths host rq = Ok reserved \<and> list_all (\<lambda>p. \<not> paths_overlap (cg_path g) p) reserved) \<and>
     (\<forall>p. protected_state host rq p \<longrightarrow> \<not> paths_overlap (cg_path g) p)"
  by (rule user_grants_apart [OF assms]) (use user_grants_clear [OF assms] in auto)

subsection \<open>The rights of the rules\<close>

text \<open>Landlock admits at a path the union of the rights of all rules at or above it.\<close>

definition granted_rights :: "(string \<times> 'r set) list \<Rightarrow> path \<Rightarrow> 'r set" where
  "granted_rights rules q = \<Union> (snd ` {r \<in> set rules. path_holds (fst r) q})"

text \<open>
  The rules are bound to the directories they name before the home view is mounted. The view
  (\<open>platform_enter_home_view\<close>) binds the space home over the account home. At a path below the account
  home the kernel then walks up through the space home to its root, and goes on above the mount point,
  which it skips as hidden. These are the paths, as they were named before the mount, whose rules
  count at a path of the launched process.
\<close>

definition launch_view :: "confine_host \<Rightarrow> confinement_request \<Rightarrow> (path \<times> path) option" where
  "launch_view host rq =
     (if rq_home_view rq
      then (case (cf_canonicalize host (rq_space_home rq), cf_canonicalize host (rq_effective_home rq)) of
              (SysOk space, SysOk account) \<Rightarrow> Some (path_components space, path_components account)
            | _ \<Rightarrow> None)
      else None)"

definition walked :: "(path \<times> path) option \<Rightarrow> path \<Rightarrow> path set" where
  "walked view q =
     (case view of
        Some (space, account) \<Rightarrow>
          if prefix account q
          then {space @ r | r. prefix r (drop (length account) q)} \<union> {a. strict_prefix a account}
          else {a. prefix a q}
      | None \<Rightarrow> {a. prefix a q})"

definition view_rights :: "(path \<times> path) option \<Rightarrow> (string \<times> 'r set) list \<Rightarrow> path \<Rightarrow> 'r set" where
  "view_rights view rules q = \<Union> (snd ` {r \<in> set rules. path_components (fst r) \<in> walked view q})"

lemma walked_outside: "(\<And>space account. view = Some (space, account) \<Longrightarrow> \<not> prefix account q) \<Longrightarrow> walked view q = {a. prefix a q}"
  by (auto simp: walked_def split: option.split)

lemma view_rights_outside:
  "(\<And>space account. view = Some (space, account) \<Longrightarrow> \<not> prefix account q) \<Longrightarrow> view_rights view rules q = granted_rights rules q"
  by (simp add: view_rights_def granted_rights_def walked_outside path_holds_def)

lemma granted_rights_rule: "r \<in> set rules \<Longrightarrow> path_holds (fst r) q \<Longrightarrow> snd r \<subseteq> granted_rights rules q"
  by (auto simp: granted_rights_def)

lemma view_rights_rule: "r \<in> set rules \<Longrightarrow> path_components (fst r) \<in> walked view q \<Longrightarrow> snd r \<subseteq> view_rights view rules q"
  by (auto simp: view_rights_def)

definition rules_of :: "'r landlock_rights \<Rightarrow> confinement_grant list \<Rightarrow> (string \<times> 'r set) list \<Rightarrow> bool" where
  "rules_of lr gs rules \<longleftrightarrow> list_all2 (\<lambda>g r. fst r = cg_path g \<and> grant_access lr g = Ok (snd r)) gs rules"

lemma rules_of_members:
  assumes "rules_of lr gs rules"
  shows "x \<in> set rules \<Longrightarrow> \<exists>g \<in> set gs. fst x = cg_path g \<and> grant_access lr g = Ok (snd x)"
    and "g \<in> set gs \<Longrightarrow> \<exists>x \<in> set rules. fst x = cg_path g \<and> grant_access lr g = Ok (snd x)"
  using assms unfolding rules_of_def by (induction rule: list_all2_induct) auto

lemma prepare_rule_Ok:
  "prepare_rule lr path_fd add_rule rules g = Ok rules' \<Longrightarrow> \<exists>access. rules' = rules @ [(cg_path g, access)] \<and> grant_access lr g = Ok access"
  by (auto simp: prepare_rule_def result_simps split: sys.splits if_splits)

lemma prepare_rules:
  "rfold (prepare_rule lr path_fd add_rule) rules gs = Ok rules' \<Longrightarrow> \<exists>new. rules' = rules @ new \<and> rules_of lr gs new"
proof (induction gs arbitrary: rules)
  case Nil
  then show ?case by (simp add: rules_of_def)
next
  case (Cons g gs)
  then obtain mid where m: "prepare_rule lr path_fd add_rule rules g = Ok mid" "rfold (prepare_rule lr path_fd add_rule) mid gs = Ok rules'"
    by (auto simp: rbind_eq_Inr)
  obtain access where a: "mid = rules @ [(cg_path g, access)]" "grant_access lr g = Ok access" using prepare_rule_Ok [OF m(1)] by blast
  obtain new where n: "rules' = mid @ new" "rules_of lr gs new" using Cons.IH [OF m(2)] by blast
  show ?case using a n by (intro exI [of _ "(cg_path g, access) # new"]) (simp add: rules_of_def)
qed

lemma prepared_rights:
  assumes "prepare_confinement lr new_ruleset path_fd add_rule plan = Ok rules"
  shows "granted_rights rules q = (\<Union>g \<in> {g \<in> set (pn_grants plan). path_holds (cg_path g) q}. \<Union> {r. grant_access lr g = Ok r})"
    and "g \<in> set (pn_grants plan) \<Longrightarrow> \<exists>r. grant_access lr g = Ok r"
proof -
  have r: "rules_of lr (pn_grants plan) rules"
    using assms prepare_rules [of lr path_fd add_rule "[]" "pn_grants plan" rules] by (auto simp: prepare_confinement_def result_simps)
  note left = rules_of_members(1) [OF r] and right = rules_of_members(2) [OF r]
  show "g \<in> set (pn_grants plan) \<Longrightarrow> \<exists>r. grant_access lr g = Ok r" using right by blast
  show "granted_rights rules q = (\<Union>g \<in> {g \<in> set (pn_grants plan). path_holds (cg_path g) q}. \<Union> {r. grant_access lr g = Ok r})"
    unfolding granted_rights_def using left right by fastforce
qed

text \<open>With a home view no user grant overlaps the account home, so none is hidden by it.\<close>

lemma launch_account:
  assumes "effective_home host available (rq_space_home rq) (rq_home_view rq) = Ok (rq_effective_home rq)"
    and "launch_view host rq = Some (space, account)"
  obtains p s where "protected_state host rq p" "account = path_components p" "cf_canonicalize host (rq_effective_home rq) = SysOk p"
    "cf_canonicalize host (rq_space_home rq) = SysOk s" "space = path_components s"
proof -
  have "rq_home_view rq" using assms(2) by (auto simp: launch_view_def split: if_splits)
  moreover have "cf_account_home host = SysOk (Some (rq_effective_home rq))"
    using assms(1) calculation by (auto simp: effective_home_def host_home_def result_simps split: if_splits option.splits)
  moreover obtain s p where "cf_canonicalize host (rq_space_home rq) = SysOk s" "cf_canonicalize host (rq_effective_home rq) = SysOk p"
      "space = path_components s" "account = path_components p"
    using assms(2) by (auto simp: launch_view_def split: if_splits sys.splits)
  ultimately show thesis using that unfolding protected_state_def by blast
qed

lemma user_grants_visible:
  assumes "build_plan host rq = Ok plan" and "g \<in> set (pn_grants plan)" and "cg_source g = ''user-granted''"
    and "effective_home host available (rq_space_home rq) (rq_home_view rq) = Ok (rq_effective_home rq)"
    and "launch_view host rq = Some (space, account)"
  shows "\<not> prefix account (path_components (cg_path g)) \<and> \<not> prefix (path_components (cg_path g)) account"
proof (rule launch_account [OF assms(4,5)])
  fix p assume "protected_state host rq p" "account = path_components p"
  then show ?thesis using user_grants_clear [OF assms(1-3)] by (auto simp: paths_overlap_def path_starts_with_def)
qed

text \<open>
  C29: Below a user grant the rules admit exactly the requested data access. When the policy of an
  accepted plan has been prepared, the rights at every path at or below a user-granted path are those
  of its own access class, although rules combine by union, and they never include execution. For the
  effective home of a launch this is so too where a home view is mounted.
\<close>

theorem user_data_has_exactly_its_rights:
  assumes "build_plan host rq = Ok plan" and "prepare_confinement lr new_ruleset path_fd add_rule plan = Ok rules"
    and "g \<in> set (pn_grants plan)" and "cg_source g = ''user-granted''" and "path_holds (cg_path g) q"
    and "lr_execute lr \<notin> {lr_read_file lr, lr_write_file lr, lr_truncate lr}"
  shows "grant_access lr g = Ok (granted_rights rules q) \<and> lr_execute lr \<notin> granted_rights rules q \<and>
     (\<forall>available. effective_home host available (rq_space_home rq) (rq_home_view rq) = Ok (rq_effective_home rq) \<longrightarrow>
        view_rights (launch_view host rq) rules q = granted_rights rules q)"
proof (rule conjI [OF _ conjI])
  have same: "view_rights (launch_view host rq) rules q = granted_rights rules q"
    if "effective_home host available (rq_space_home rq) (rq_home_view rq) = Ok (rq_effective_home rq)" for available
  proof (rule view_rights_outside)
    fix space account assume view: "launch_view host rq = Some (space, account)"
    show "\<not> prefix account q"
      using user_grants_visible [OF assms(1,3,4) that view] assms(5) prefix_same_cases unfolding path_holds_def by blast
  qed
  then show "\<forall>available. effective_home host available (rq_space_home rq) (rq_home_view rq) = Ok (rq_effective_home rq) \<longrightarrow>
        view_rights (launch_view host rq) rules q = granted_rights rules q" by blast
  obtain rights where r: "grant_access lr g = Ok rights" using prepared_rights(2) [OF assms(2,3)] by blast
  have data: "cg_access g \<in> DATA_CLASSES" by (rule user_grants_apart [OF assms(1,3,4)])
  have apart: "g' = g" if g': "g' \<in> set (pn_grants plan)" "path_holds (cg_path g') q" for g'
    by (rule user_grants_apart [OF assms(1,3,4)]) (use g' grants.meet [OF assms(5) g'(2)] in blast)
  have only: "{g' \<in> set (pn_grants plan). path_holds (cg_path g') q} = {g}" using apart assms(3,5) by blast
  have eq: "granted_rights rules q = rights" unfolding prepared_rights(1) [OF assms(2)] only using r by simp
  have "lr_execute lr \<notin> rights"
    using data unfolding DATA_CLASSES_def
    by (elim insertE emptyE) (use r assms(6) in \<open>auto simp: grant_access_def Let_def\<close>)
  then show "grant_access lr g = Ok (granted_rights rules q)" "lr_execute lr \<notin> granted_rights rules q"
    using r by (simp_all only: eq simp_thms)
qed

subsection \<open>The store\<close>

text \<open>
  What the kernel's directories guarantee of the ancestry that is read through descriptors: below a
  resolved path it contains the inode of that path.
\<close>

definition faithful_anchors :: "confine_host \<Rightarrow> bool" where
  "faithful_anchors host \<longleftrightarrow>
     (\<forall>p q x y a b. cf_canonicalize host x = SysOk p \<longrightarrow> cf_canonicalize host y = SysOk q \<longrightarrow>
        open_anchor host p = Ok a \<longrightarrow> open_anchor host q = Ok b \<longrightarrow> path_starts_with q p \<longrightarrow> an_inode a \<in> set (an_ancestry b))"

lemma identity_overlap_Ok:
  assumes "rfold (identity_overlap host s h) found gs = Ok False"
  shows "\<not> found \<and> (\<forall>g \<in> set gs. \<exists>a. open_anchor host (cg_path g) = Ok a \<and> \<not> anchor_overlaps s a)"
  using assms
proof (induction gs arbitrary: found)
  case (Cons g gs)
  then obtain mid where m: "identity_overlap host s h found g = Ok mid" "rfold (identity_overlap host s h) mid gs = Ok False"
    by (auto simp: rbind_eq_Inr)
  then show ?case using Cons.IH [OF m(2)] by (auto simp: identity_overlap_def result_simps)
qed simp

lemma store_not_in_hierarchy:
  assumes e: "ensure_store_disjoint host root home_path gs = Ok ()" and f: "faithful_anchors host"
    and store: "cf_canonicalize host root = SysOk store" and g: "g \<in> set gs" "host_hierarchy g" "resolved_grant host g"
  shows "\<not> paths_overlap store (cg_path g)"
proof
  assume overlap: "paths_overlap store (cg_path g)"
  obtain home s h where s: "open_anchor host store = Ok s" "\<not> overlaps_executable_root store home gs"
      and fold: "rfold (identity_overlap host s h) False (filter host_hierarchy gs) = Ok False"
    using e store by (auto simp: ensure_store_disjoint_def result_simps split: if_splits)
  have "\<not> path_starts_with store (cg_path g)"
    using s(2) g(1,2) by (auto simp: overlaps_executable_root_def list_ex_iff)
  then have starts: "path_starts_with (cg_path g) store" using overlap by (auto simp: paths_overlap_def)
  obtain a where a: "open_anchor host (cg_path g) = Ok a" "\<not> anchor_overlaps s a"
    using identity_overlap_Ok [OF fold] g(1,2) by auto
  show False
    using f s(1) store g(3) starts a unfolding faithful_anchors_def resolved_grant_def anchor_overlaps_def by blast
qed

text \<open>
  C30: The store stays closed. On a host whose descriptor ancestry is faithful, the prepared policy of
  an accepted plan admits at a path of the store outside the Quarter's own home and runtime at most
  reading and writing an existing file, and that only through a rule for the resolver target or a
  device; no rule admits listing, creating, removing or executing anything there.
\<close>

theorem store_outside_the_quarter_stays_closed:
  assumes "build_plan host rq = Ok plan" and "prepare_confinement lr new_ruleset path_fd add_rule plan = Ok rules"
    and "faithful_anchors host" and "cf_canonicalize host (rq_store_root rq) = SysOk store" and "path_holds store q"
    and "cf_canonicalize host (rq_space_home rq) = SysOk home" and "\<not> path_holds home q"
    and "cf_canonicalize host (rq_runtime rq) = SysOk runtime" and "\<not> path_holds runtime q"
  shows "granted_rights rules q \<subseteq> {lr_read_file lr, lr_write_file lr} \<and>
     (\<forall>g \<in> set (pn_grants plan). path_holds (cg_path g) q \<longrightarrow>
        cg_source g = ''derived-resolver-target'' \<or> cg_source g = ''compatibility-device'')"
proof -
  have source: "(cg_source g = ''derived-resolver-target'' \<and> cg_access g = ''read-file'') \<or>
      (cg_source g = ''compatibility-device'' \<and> cg_access g = ''device'')"
    if g: "g \<in> set (pn_grants plan)" "path_holds (cg_path g) q" for g
  proof (rule build_plan_Ok [OF assms(1)])
    fix gs ds us
    assume sub: "set (pn_grants plan) \<subseteq> set (gs @ ds @ us)" and b: "built_in_draft host rq gs" "built_in_draft host rq ds"
      and dev: "list_all (\<lambda>g. cg_source g = ''compatibility-device'' \<and> cg_access g = ''device'') ds"
      and e: "ensure_store_disjoint host (rq_store_root rq) (rq_space_home rq) gs = Ok ()"
      and us: "us = [] \<or> (\<exists>reserved. reserved_paths host rq = Ok reserved \<and> user_draft host reserved (gs @ ds) us)"
    have overlap: "paths_overlap store (cg_path g)" using grants.meet [OF assms(5) g(2)] .
    have "g \<notin> set us"
    proof
      assume u: "g \<in> set us"
      then obtain reserved where r: "reserved_paths host rq = Ok reserved" "user_draft host reserved (gs @ ds) us" using us by auto
      have "store \<in> set reserved"
        using r(1) assms(4) by (auto simp: reserved_paths_def reserve_path_def result_simps split: option.splits)
      moreover have "separate (reserved @ map cg_path (gs @ ds)) g" using r(2) u by (auto simp: user_draft_def list_all_iff)
      ultimately show False using overlap paths_overlap_sym by (auto simp: separate_def list_all_iff)
    qed
    then have "g \<in> set gs \<or> g \<in> set ds" using sub g(1) by auto
    then show ?thesis
    proof
      assume "g \<in> set ds"
      then show ?thesis using dev by (auto simp: list_all_iff)
    next
      assume gg: "g \<in> set gs"
      then have bi: "built_in host rq g" "resolved_grant host g" using b(1) by (auto simp: built_in_draft_def list_all_iff)
      have "\<not> host_hierarchy g" using store_not_in_hierarchy [OF e assms(3,4) gg _ bi(2)] overlap by blast
      moreover have "cg_path g \<noteq> home" "cg_path g \<noteq> runtime" using g(2) assms(7,9) by auto
      ultimately show ?thesis using bi(1) assms(6,8) by (auto simp: built_in_def host_hierarchy_def)
    qed
  qed
  have "granted_rights rules q \<subseteq> {lr_read_file lr, lr_write_file lr}"
    unfolding prepared_rights(1) [OF assms(2)] using source by (fastforce simp: grant_access_def Let_def)
  then show ?thesis using source by blast
qed

subsection \<open>Executables\<close>

lemma resolve_confined_executable_Ok:
  assumes "resolve_confined_executable host program search plan = Ok p"
  shows "path_holds (pn_quarter_command_root plan) (path_components p) \<or>
     (\<exists>g \<in> set (pn_grants plan). (cg_access g = ''read-execute'' \<or> cg_access g = ''read-write'') \<and> path_holds (cg_path g) (path_components p))"
  using assms unfolding resolve_confined_executable_def
  by (auto simp: result_simps path_starts_with_holds list_ex_iff Let_def split: if_splits)

lemma plan_rule:
  assumes "build_plan host rq = Ok plan" and "prepare_confinement lr new_ruleset path_fd add_rule plan = Ok rules"
    and e: "e \<in> set (pn_grants plan)" "cg_access e \<in> {''read-execute'', ''read-write''}"
  obtains x where "x \<in> set rules" "fst x = cg_path e" "grant_access lr e = Ok (snd x)"
    "\<And>g. g \<in> set (pn_grants plan) \<Longrightarrow> cg_source g = ''user-granted'' \<Longrightarrow> \<not> paths_overlap (cg_path g) (cg_path e)"
proof -
  have "rules_of lr (pn_grants plan) rules"
    using assms(2) prepare_rules [of lr path_fd add_rule "[]" "pn_grants plan" rules] by (auto simp: prepare_confinement_def result_simps)
  then obtain x where x: "x \<in> set rules" "fst x = cg_path e" "grant_access lr e = Ok (snd x)" using rules_of_members(2) e(1) by blast
  have "\<not> paths_overlap (cg_path g) (cg_path e)" if g: "g \<in> set (pn_grants plan)" "cg_source g = ''user-granted''" for g
  proof (rule user_grants_apart [OF assms(1) g])
    assume data: "cg_access g \<in> DATA_CLASSES"
      and apart: "\<And>g'. g' \<in> set (pn_grants plan) \<Longrightarrow> g' \<noteq> g \<Longrightarrow> \<not> paths_overlap (cg_path g) (cg_path g')"
    have "e \<noteq> g" using e(2) data by (auto simp: DATA_CLASSES_def)
    then show ?thesis using apart [OF e(1)] by simp
  qed
  then show thesis using that x by blast
qed

lemma plan_home_rule:
  assumes "build_plan host rq = Ok plan" and "prepare_confinement lr new_ruleset path_fd add_rule plan = Ok rules"
  obtains home r where "cf_canonicalize host (rq_space_home rq) = SysOk home" "r \<in> set rules" "snd r = lr_from_all lr"
    "path_components (fst r) = path_components home"
    "\<And>g. g \<in> set (pn_grants plan) \<Longrightarrow> cg_source g = ''user-granted'' \<Longrightarrow> \<not> paths_overlap (cg_path g) home"
proof (rule build_plan_Ok [OF assms(1)])
  fix gs ds us
  assume keys: "\<And>g. g \<in> set (gs @ ds @ us) \<Longrightarrow> \<exists>g' \<in> set (pn_grants plan). grant_key g' = grant_key g"
    and "\<exists>h \<in> set gs. cg_access h = ''read-write'' \<and> cf_canonicalize host (rq_space_home rq) = SysOk (cg_path h)"
  then obtain h where h: "h \<in> set gs" "cg_access h = ''read-write''" "cf_canonicalize host (rq_space_home rq) = SysOk (cg_path h)" by blast
  then obtain h' where h': "h' \<in> set (pn_grants plan)" "cg_access h' = ''read-write''" "path_components (cg_path h') = path_components (cg_path h)"
    using keys [of h] by (auto simp: grant_key_def)
  show thesis
  proof (rule plan_rule [OF assms h'(1)])
    fix x assume x: "x \<in> set rules" "fst x = cg_path h'" "grant_access lr h' = Ok (snd x)"
      and apart: "\<And>g. g \<in> set (pn_grants plan) \<Longrightarrow> cg_source g = ''user-granted'' \<Longrightarrow> \<not> paths_overlap (cg_path g) (cg_path h')"
    show thesis
      by (rule that [OF h(3) x(1)]) (use x h'(2,3) apart in \<open>auto simp: grant_access_def Let_def paths_overlap_def path_starts_with_def\<close>)
  qed (use h'(2) in simp)
qed

text \<open>Below the account home of a view every command runs from the Quarter's home.\<close>

lemma command_in_view:
  assumes "build_plan host rq = Ok plan" and "prepare_confinement lr new_ruleset path_fd add_rule plan = Ok rules"
    and "effective_home host available (rq_space_home rq) (rq_home_view rq) = Ok (rq_effective_home rq)"
    and view: "launch_view host rq = Some (space, account)" "prefix account q" and "lr_execute lr \<in> lr_from_all lr"
  shows "lr_execute lr \<in> view_rights (launch_view host rq) rules q \<and>
     (\<forall>g \<in> set (pn_grants plan). cg_source g = ''user-granted'' \<longrightarrow> path_components (cg_path g) \<notin> walked (launch_view host rq) q)"
proof (rule plan_home_rule [OF assms(1,2)])
  fix home r
  assume home: "cf_canonicalize host (rq_space_home rq) = SysOk home" and r: "r \<in> set rules" "snd r = lr_from_all lr"
      "path_components (fst r) = path_components home"
    and apart: "\<And>g. g \<in> set (pn_grants plan) \<Longrightarrow> cg_source g = ''user-granted'' \<Longrightarrow> \<not> paths_overlap (cg_path g) home"
  have space: "space = path_components home" by (rule launch_account [OF assms(3) view(1)]) (use home in auto)
  have up: "walked (launch_view host rq) q = {space @ r | r. prefix r (drop (length account) q)} \<union> {a. strict_prefix a account}"
    using view by (simp add: walked_def)
  have "path_components (fst r) \<in> walked (launch_view host rq) q" unfolding up using space r(3) by auto
  then have "lr_execute lr \<in> view_rights (launch_view host rq) rules q" using view_rights_rule [OF r(1)] r(2) assms(6) by blast
  moreover have "path_components (cg_path g) \<notin> walked (launch_view host rq) q"
    if g: "g \<in> set (pn_grants plan)" "cg_source g = ''user-granted''" for g
    using apart [OF g] user_grants_visible [OF assms(1) g assms(3) view(1)] unfolding up space
    by (auto simp: paths_overlap_def path_starts_with_def strict_prefix_def)
  ultimately show ?thesis by blast
qed

text \<open>Elsewhere it runs from a rule at or above its own path, which no user grant overlaps.\<close>

lemma command_rule:
  assumes "build_plan host rq = Ok plan" and "prepare_confinement lr new_ruleset path_fd add_rule plan = Ok rules"
    and "effective_home host available (rq_space_home rq) (rq_home_view rq) = Ok (rq_effective_home rq)"
    and "resolve_confined_executable host' program search plan = Ok p"
    and "lr_execute lr \<in> lr_from_read lr" and "lr_execute lr \<in> lr_from_all lr"
    and outside: "\<And>space account. launch_view host rq = Some (space, account) \<Longrightarrow> \<not> prefix account (path_components p)"
  obtains e :: confinement_grant where "path_holds (cg_path e) (path_components p)" "lr_execute lr \<in> granted_rights rules (path_components p)"
    "\<And>g. g \<in> set (pn_grants plan) \<Longrightarrow> cg_source g = ''user-granted'' \<Longrightarrow> \<not> paths_overlap (cg_path g) (cg_path e)"
proof -
  let ?q = "path_components p"
  have "\<exists>e \<in> set (pn_grants plan). cg_access e \<in> {''read-execute'', ''read-write''} \<and> path_holds (cg_path e) ?q"
    using resolve_confined_executable_Ok [OF assms(4)]
  proof
    assume command: "path_holds (pn_quarter_command_root plan) ?q"
    show ?thesis
    proof (rule build_plan_Ok [OF assms(1)])
      fix gs ds us
      assume keys: "\<And>g. g \<in> set (gs @ ds @ us) \<Longrightarrow> \<exists>g' \<in> set (pn_grants plan). grant_key g' = grant_key g"
        and h: "\<exists>h \<in> set gs. cg_access h = ''read-write'' \<and> cf_canonicalize host (rq_space_home rq) = SysOk (cg_path h)"
        and root: "cf_canonicalize host (rq_effective_home rq) = SysOk (pn_quarter_command_root plan)"
      have "\<not> rq_home_view rq" using outside command h root by (auto simp: launch_view_def path_holds_def)
      then have "rq_effective_home rq = rq_space_home rq" using assms(3) by (simp add: effective_home_def)
      then obtain h where hh: "h \<in> set gs" "cg_access h = ''read-write''" "cg_path h = pn_quarter_command_root plan" using h root by auto
      obtain h' where "h' \<in> set (pn_grants plan)" "grant_key h' = grant_key h" using keys [of h] hh(1) by auto
      then show ?thesis using hh command by (auto simp: grant_key_def path_holds_def)
    qed
  qed auto
  then obtain e where e: "e \<in> set (pn_grants plan)" "cg_access e \<in> {''read-execute'', ''read-write''}" "path_holds (cg_path e) ?q" by blast
  show thesis
  proof (rule plan_rule [OF assms(1,2) e(1,2)])
    fix x
    assume x: "x \<in> set rules" "fst x = cg_path e" "grant_access lr e = Ok (snd x)"
      and clear: "\<And>g. g \<in> set (pn_grants plan) \<Longrightarrow> cg_source g = ''user-granted'' \<Longrightarrow> \<not> paths_overlap (cg_path g) (cg_path e)"
    have "lr_execute lr \<in> snd x" using x(3) e(2) assms(5,6) by (auto simp: grant_access_def Let_def)
    then have "lr_execute lr \<in> granted_rights rules ?q" using granted_rights_rule [OF x(1)] x(2) e(3) by auto
    then show thesis using that [OF e(3)] clear by blast
  qed
qed

text \<open>
  C31: A command that resolves is admitted and is never user data. With and without a home view,
  whatever name and search path resolve under an accepted plan of a launch, the rules of the prepared
  policy admit execution at the resolved path as the launched process sees it, with the space home
  bound over the account home in a home view, and no user-granted path is met on the way up from it.
\<close>

theorem resolved_commands_are_executable_and_not_user_data:
  assumes "build_plan host rq = Ok plan" and "prepare_confinement lr new_ruleset path_fd add_rule plan = Ok rules"
    and "effective_home host available (rq_space_home rq) (rq_home_view rq) = Ok (rq_effective_home rq)"
    and "resolve_confined_executable host' program search plan = Ok p"
    and "lr_execute lr \<in> lr_from_read lr" and "lr_execute lr \<in> lr_from_all lr"
  shows "lr_execute lr \<in> view_rights (launch_view host rq) rules (path_components p) \<and>
     (\<forall>g \<in> set (pn_grants plan). cg_source g = ''user-granted'' \<longrightarrow>
        path_components (cg_path g) \<notin> walked (launch_view host rq) (path_components p))"
proof (cases "\<exists>space account. launch_view host rq = Some (space, account) \<and> prefix account (path_components p)")
  case True
  then show ?thesis using command_in_view [OF assms(1-3) _ _ assms(6)] by blast
next
  case False
  then have outside: "\<And>space account. launch_view host rq = Some (space, account) \<Longrightarrow> \<not> prefix account (path_components p)" by blast
  show ?thesis
  proof (rule command_rule [OF assms outside])
    fix e :: confinement_grant
    assume "path_holds (cg_path e) (path_components p)" "lr_execute lr \<in> granted_rights rules (path_components p)"
      and "\<And>g. g \<in> set (pn_grants plan) \<Longrightarrow> cg_source g = ''user-granted'' \<Longrightarrow> \<not> paths_overlap (cg_path g) (cg_path e)"
    moreover have "view_rights (launch_view host rq) rules (path_components p) = granted_rights rules (path_components p)"
      "walked (launch_view host rq) (path_components p) = {a. prefix a (path_components p)}"
      by (rule view_rights_outside, rule outside, assumption) (rule walked_outside, rule outside, assumption)
    ultimately show ?thesis by (auto simp: path_holds_def dest: grants.meet [unfolded path_holds_def])
  qed
qed

end
