(* ===== verification/Confinement_Witness.thy ===== *)
theory Confinement_Witness
  imports Confinement_Properties
begin

text \<open>
  One concrete host and request on which the hypotheses of the confinement properties hold: a store
  \<open>/s\<close> with the Quarter's home \<open>/s/h\<close>, a runtime \<open>/r\<close>, the usual system roots and a granted
  directory \<open>/d\<close>. The request comes without a home view and with one over the account home \<open>/u\<close>.
\<close>

definition cw_known :: "string list" where
  "cw_known = [''/s'', ''/s/h'', ''/r'', ''/usr'', ''/etc'', ''/proc'', ''/dev/null'', ''/q'', ''/u'', ''/d'']"

definition cw_inode :: "string \<Rightarrow> nat" where
  "cw_inode p =
     (if p = ''/'' then 0 else if p = ''/s'' then 1 else if p = ''/s/h'' then 2 else if p = ''/r'' then 3 else if p = ''/usr'' then 4
      else if p = ''/etc'' then 5 else if p = ''/proc'' then 6 else if p = ''/dev'' then 7 else if p = ''/dev/null'' then 8
      else if p = ''/q'' then 9 else if p = ''/u'' then 10 else 11)"

definition cw_is_file :: "string \<Rightarrow> bool" where
  "cw_is_file p \<longleftrightarrow> p = ''/q'' \<or> p = ''/dev/null''"

definition cw_stat :: "bool \<Rightarrow> nat \<Rightarrow> file_stat" where
  "cw_stat file i =
     \<lparr>st_dev = 0, st_ino = i, st_uid = 0, st_gid = 0, st_mode = (if file then 33216 else 16832), st_nlink = 1,
      st_size = 0, st_mtime = 0, st_mtime_nsec = 0, st_ctime = 0, st_ctime_nsec = 0\<rparr>"

definition cw_metadata :: "string \<Rightarrow> file_stat sys" where
  "cw_metadata p = (if p \<in> set ([''/'', ''/dev''] @ cw_known) then SysOk (cw_stat (cw_is_file p) (cw_inode p)) else SysNotFound)"

definition cw_dirs :: "string \<Rightarrow> nat list" where
  "cw_dirs p = (if p = ''/s/h'' then [2, 1, 0] else if p = ''/q'' then [0] else if p = ''/dev/null'' then [7, 0] else [cw_inode p, 0])"

definition cw_host :: confine_host where
  "cw_host =
     \<lparr>cf_uid = 0, cf_canonicalize = (\<lambda>p. if p \<in> set cw_known then SysOk p else SysNotFound), cf_metadata = cw_metadata,
      cf_symlink_metadata = cw_metadata, cf_open_path = cw_metadata,
      cf_ancestor = (\<lambda>p k. SysOk (0, cw_dirs p ! min k (length (cw_dirs p) - 1))), cf_open_directory = cw_metadata,
      cf_open_terminal = (\<lambda>_. TerminalNxio), cf_account_home = SysOk (Some ''/u''),
      cf_mountinfo = SysOk (''7 0 8:1 / / rw - ext4 x rw'' @ [newline]), cf_statx = (\<lambda>_. MountId 7)\<rparr>"

definition cw_request :: "bool \<Rightarrow> confinement_request" where
  "cw_request v =
     \<lparr>rq_space_home = ''/s/h'', rq_effective_home = (if v then ''/u'' else ''/s/h''), rq_runtime = ''/r'', rq_store_root = ''/s'', rq_current_executable = ''/q'',
      rq_request_executable = None, rq_host_path = None, rq_user_grants = [\<lparr>ug_path = ''/d'', ug_access = GrantReadOnly\<rparr>],
      rq_working_directory = None, rq_home_view = v\<rparr>"

lemma cw_host_sel:
  "cf_uid cw_host = 0" "cf_canonicalize cw_host p = (if p \<in> set cw_known then SysOk p else SysNotFound)"
  "cf_metadata cw_host p = cw_metadata p" "cf_symlink_metadata cw_host p = cw_metadata p" "cf_open_path cw_host p = cw_metadata p"
  "cf_ancestor cw_host p k = SysOk (0, cw_dirs p ! min k (length (cw_dirs p) - 1))" "cf_open_directory cw_host p = cw_metadata p"
  "cf_open_terminal cw_host p = TerminalNxio" "cf_account_home cw_host = SysOk (Some ''/u'')"
  "cf_mountinfo cw_host = SysOk (''7 0 8:1 / / rw - ext4 x rw'' @ [newline])" "cf_statx cw_host q = MountId 7"
  by (simp_all add: cw_host_def)

lemma cw_request_sel:
  "rq_space_home (cw_request v) = ''/s/h''" "rq_effective_home (cw_request v) = (if v then ''/u'' else ''/s/h'')" "rq_runtime (cw_request v) = ''/r''" "rq_store_root (cw_request v) = ''/s''"
  "rq_current_executable (cw_request v) = ''/q''" "rq_request_executable (cw_request v) = None" "rq_host_path (cw_request v) = None"
  "rq_user_grants (cw_request v) = [\<lparr>ug_path = ''/d'', ug_access = GrantReadOnly\<rparr>]" "rq_working_directory (cw_request v) = None"
  "rq_home_view (cw_request v) = v"
  by (simp_all add: cw_request_def)

lemma cw_stat_sel:
  "st_dev (cw_stat f i) = 0" "st_ino (cw_stat f i) = i" "st_uid (cw_stat f i) = 0" "st_nlink (cw_stat f i) = 1"
  "is_dir (cw_stat f i) \<longleftrightarrow> \<not> f" "is_file (cw_stat f i) \<longleftrightarrow> f" "\<not> is_symlink (cw_stat f i)"
  "mode_bits (st_mode (cw_stat f i)) = 448"
  by (simp_all add: cw_stat_def s_kind_def S_IFMT_def s_kinds mode_bits_mod)

lemma cw_known_meta:
  "cw_metadata ''/'' = SysOk (cw_stat False 0)" "cw_metadata ''/s'' = SysOk (cw_stat False 1)" "cw_metadata ''/s/h'' = SysOk (cw_stat False 2)"
  "cw_metadata ''/r'' = SysOk (cw_stat False 3)" "cw_metadata ''/usr'' = SysOk (cw_stat False 4)" "cw_metadata ''/etc'' = SysOk (cw_stat False 5)"
  "cw_metadata ''/proc'' = SysOk (cw_stat False 6)" "cw_metadata ''/dev'' = SysOk (cw_stat False 7)" "cw_metadata ''/dev/null'' = SysOk (cw_stat True 8)"
  "cw_metadata ''/q'' = SysOk (cw_stat True 9)" "cw_metadata ''/u'' = SysOk (cw_stat False 10)" "cw_metadata ''/d'' = SysOk (cw_stat False 11)"
  "cw_metadata ''/u/.ssh'' = SysNotFound" "cw_metadata ''/u/.gnupg'' = SysNotFound"
  by (simp_all add: cw_metadata_def cw_known_def cw_is_file_def cw_inode_def)

definition cw_anchor :: "bool \<Rightarrow> nat \<Rightarrow> nat list \<Rightarrow> anchor" where
  "cw_anchor f i dirs = \<lparr>an_metadata = cw_stat f i, an_inode = (0, i), an_ancestry = map (Pair 0) dirs\<rparr>"

lemma anchor_walk_step:
  assumes "0 < n"
  shows "anchor_walk host path n k ancestry =
     rbind (io_ok ''inspect filesystem policy identity'' (cf_ancestor host path k)) (\<lambda>current.
     rbind (io_ok ''open policy anchor ancestor'' (cf_ancestor host path (Suc k))) (\<lambda>parent.
     let extended = (if ancestry \<noteq> [] \<and> last ancestry = current then ancestry else ancestry @ [current]) in
     if current = parent then Ok extended else anchor_walk host path (n - 1) (Suc k) extended))"
proof -
  obtain m where m: "n = Suc m" using assms gr0_implies_Suc by blast
  show ?thesis unfolding m diff_Suc_1 by (rule anchor_walk.simps(2))
qed

lemma cw_parents: "path_parent ''/q'' = Some ''/''" "path_parent ''/dev/null'' = Some ''/dev''"
  by (simp_all add: path_parent_def trim_components_def)

lemma cw_anchors:
  "open_anchor cw_host ''/s'' = Ok (cw_anchor False 1 [1, 0])" "open_anchor cw_host ''/s/h'' = Ok (cw_anchor False 2 [2, 1, 0])"
  "open_anchor cw_host ''/r'' = Ok (cw_anchor False 3 [3, 0])" "open_anchor cw_host ''/usr'' = Ok (cw_anchor False 4 [4, 0])"
  "open_anchor cw_host ''/etc'' = Ok (cw_anchor False 5 [5, 0])" "open_anchor cw_host ''/proc'' = Ok (cw_anchor False 6 [6, 0])"
  "open_anchor cw_host ''/dev/null'' = Ok (cw_anchor True 8 [8, 7, 0])" "open_anchor cw_host ''/q'' = Ok (cw_anchor True 9 [9, 0])"
  "open_anchor cw_host ''/u'' = Ok (cw_anchor False 10 [10, 0])" "open_anchor cw_host ''/d'' = Ok (cw_anchor False 11 [11, 0])"
  by (simp_all add: open_anchor_def cw_host_sel cw_known_meta io_ok_def inode_from_metadata_def cw_stat_sel cw_parents MAX_ANCESTORS_def
      anchor_walk_step cw_dirs_def cw_inode_def cw_anchor_def Let_def)

lemma cw_components:
  "path_components ''/s'' = [RootDir, Normal ''s'']" "path_components ''/s/h'' = [RootDir, Normal ''s'', Normal ''h'']"
  "path_components ''/r'' = [RootDir, Normal ''r'']" "path_components ''/usr'' = [RootDir, Normal ''usr'']"
  "path_components ''/etc'' = [RootDir, Normal ''etc'']" "path_components ''/proc'' = [RootDir, Normal ''proc'']"
  "path_components ''/dev/null'' = [RootDir, Normal ''dev'', Normal ''null'']" "path_components ''/q'' = [RootDir, Normal ''q'']"
  "path_components ''/u'' = [RootDir, Normal ''u'']" "path_components ''/d'' = [RootDir, Normal ''d'']"
  "path_components ''/u/.ssh'' = [RootDir, Normal ''u'', Normal ''.ssh'']" "path_components ''/u/.gnupg'' = [RootDir, Normal ''u'', Normal ''.gnupg'']"
  by (simp_all add: path_components_def body_component_def)

lemma cw_canonical:
  "cf_canonicalize cw_host ''/s'' = SysOk ''/s''" "cf_canonicalize cw_host ''/s/h'' = SysOk ''/s/h''"
  "cf_canonicalize cw_host ''/r'' = SysOk ''/r''" "cf_canonicalize cw_host ''/usr'' = SysOk ''/usr''"
  "cf_canonicalize cw_host ''/etc'' = SysOk ''/etc''" "cf_canonicalize cw_host ''/proc'' = SysOk ''/proc''"
  "cf_canonicalize cw_host ''/dev/null'' = SysOk ''/dev/null''" "cf_canonicalize cw_host ''/q'' = SysOk ''/q''"
  "cf_canonicalize cw_host ''/u'' = SysOk ''/u''" "cf_canonicalize cw_host ''/d'' = SysOk ''/d''"
  by (simp_all add: cw_host_sel cw_known_def)

lemma cw_absent:
  "list_all (\<lambda>p. cf_canonicalize cw_host p = SysNotFound) (tl EXECUTABLE_ROOTS @ tl DEVICE_PATHS @ [''/etc/resolv.conf'', ''/u/.ssh'', ''/u/.gnupg''])"
  by (simp add: cw_host_sel cw_known_def EXECUTABLE_ROOTS_def DEVICE_PATHS_def)

lemma push_optional_absent:
  "list_all (\<lambda>p. cf_canonicalize host p = SysNotFound) paths \<Longrightarrow>
     rfold (\<lambda>draft path. push_optional host path access source draft) draft paths = Ok (fst draft, snd draft @ paths)"
  by (induction paths arbitrary: draft) (auto simp: push_optional_def)

lemma cw_device_absent:
  assumes "path \<in> set (tl DEVICE_PATHS)"
  shows "add_device cw_host draft path = Ok (fst draft, snd draft @ [path])"
proof -
  have absent: "cf_canonicalize cw_host path = SysNotFound" using assms cw_absent by (simp add: list_all_iff)
  have "path \<noteq> ''/dev/null''" using assms by (auto simp: DEVICE_PATHS_def)
  then show ?thesis
    by (simp add: add_device_def push_optional_terminal_def terminal_is_unavailable_def push_optional_def absent cw_host_sel(8))
qed

lemma cw_devices_absent:
  "set paths \<subseteq> set (tl DEVICE_PATHS) \<Longrightarrow> rfold (add_device cw_host) draft paths = Ok (fst draft, snd draft @ paths)"
  by (induction paths arbitrary: draft) (simp_all add: cw_device_absent)

definition cw_gs :: "confinement_grant list" where
  "cw_gs =
     [grant_of ''/s/h'' ''read-write'' ''quarter-home'' True (cw_stat False 2), grant_of ''/r'' ''read-write'' ''quarter-runtime'' True (cw_stat False 3),
      grant_of ''/usr'' ''read-execute'' ''system-executable-root'' False (cw_stat False 4),
      grant_of ''/etc'' ''read'' ''system-configuration'' True (cw_stat False 5), grant_of ''/proc'' ''read'' ''process-compatibility'' True (cw_stat False 6)]"

definition cw_device :: confinement_grant where
  "cw_device = grant_of ''/dev/null'' ''device'' ''compatibility-device'' True (cw_stat True 8)"

definition cw_user :: confinement_grant where
  "cw_user = grant_of ''/d'' ''data-read'' ''user-granted'' True (cw_stat False 11)"

lemma grant_of_identity [simp]: "cg_device (grant_of p a s r m) = st_dev m" "cg_inode (grant_of p a s r m) = st_ino m"
  by (simp_all add: grant_of_def)

lemma cw_roots:
  "rfold (\<lambda>draft path. push_optional cw_host path ''read-execute'' ''system-executable-root'' draft) draft EXECUTABLE_ROOTS =
     Ok (fst draft @ [grant_of ''/usr'' ''read-execute'' ''system-executable-root'' False (cw_stat False 4)], snd draft @ tl EXECUTABLE_ROOTS)"
proof -
  have roots: "EXECUTABLE_ROOTS = ''/usr'' # tl EXECUTABLE_ROOTS" by (simp add: EXECUTABLE_ROOTS_def)
  have usr: "push_optional cw_host ''/usr'' ''read-execute'' ''system-executable-root'' draft =
      Ok (fst draft @ [grant_of ''/usr'' ''read-execute'' ''system-executable-root'' False (cw_stat False 4)], snd draft)"
    by (simp add: push_optional_def cw_canonical cw_host_sel(3) cw_known_meta io_ok_def)
  have absent: "list_all (\<lambda>p. cf_canonicalize cw_host p = SysNotFound) (tl EXECUTABLE_ROOTS)" using cw_absent by simp
  show ?thesis by (subst roots) (simp only: rfold.simps usr rbind_Inr push_optional_absent [OF absent] fst_conv snd_conv)
qed

lemma cw_anchor_sel:
  "an_inode (cw_anchor f i dirs) = (0, i)" "an_ancestry (cw_anchor f i dirs) = map (Pair 0) dirs" "an_metadata (cw_anchor f i dirs) = cw_stat f i"
  by (simp_all add: cw_anchor_def)

lemma cw_disjoint: "ensure_store_disjoint cw_host ''/s'' ''/s/h'' cw_gs = Ok ()"
  by (simp add: ensure_store_disjoint_def cw_canonical cw_anchors io_ok_def cw_gs_def host_hierarchy_def identity_overlap_def verify_anchor_def
      cw_anchor_sel cw_stat_sel anchor_overlaps_def overlaps_executable_root_def path_starts_with_def cw_components)

lemma cw_built_in: "\<exists>omitted. built_in_grants cw_host (cw_request v) = Ok (cw_gs @ [cw_device], omitted)"
proof -
  have resolver: "add_resolver_target cw_host draft = Ok (fst draft, snd draft @ [''/etc/resolv.conf''])" for draft
    using cw_absent by (simp add: add_resolver_target_def)
  have devices: "DEVICE_PATHS = ''/dev/null'' # tl DEVICE_PATHS" by (simp add: DEVICE_PATHS_def)
  have null: "add_device cw_host draft ''/dev/null'' = Ok (fst draft @ [cw_device], snd draft)" for draft
    by (simp add: add_device_def push_canonical_def cw_canonical cw_host_sel(3) cw_known_meta io_ok_def cw_device_def)
  have device_fold: "rfold (add_device cw_host) draft DEVICE_PATHS = Ok (fst draft @ [cw_device], snd draft @ tl DEVICE_PATHS)" for draft
    by (subst devices) (simp only: rfold.simps null rbind_Inr fst_conv snd_conv cw_devices_absent [OF subset_refl])
  show ?thesis
    using cw_disjoint unfolding cw_gs_def
    by (simp add: built_in_grants_def cw_request_sel push_canonical_def cw_canonical cw_host_sel(3) cw_known_meta io_ok_def cw_roots resolver
        device_fold)
qed

subsection \<open>The user grant\<close>

definition cw_reserved :: "bool \<Rightarrow> string list" where
  "cw_reserved v = [''/s'', ''/r'', ''/q'', ''/u/.ssh'', ''/u/.ssh'', ''/u/.gnupg'', ''/u/.gnupg''] @ (if v then [''/u''] else [])"

lemma cw_joins: "path_join ''/u'' ''.ssh'' = ''/u/.ssh''" "path_join ''/u'' ''.gnupg'' = ''/u/.gnupg''"
  by (simp_all add: path_join_def is_absolute_def starts_with_def)

lemma cw_reserved_paths: "reserved_paths cw_host (cw_request v) = Ok (cw_reserved v)"
  using cw_absent
  by (simp add: reserved_paths_def reserve_path_def credential_paths_def cw_request_sel cw_canonical io_ok_def cw_host_sel(9) cw_joins cw_reserved_def
      Let_def)

definition cw_reserved_anchor_list :: "bool \<Rightarrow> anchor list" where
  "cw_reserved_anchor_list v =
     [cw_anchor False 1 [1, 0], cw_anchor False 3 [3, 0], cw_anchor True 9 [9, 0]] @ (if v then [cw_anchor False 10 [10, 0]] else [])"

lemma cw_reserved_anchors:
  "existing_anchors cw_host (cw_reserved v) = Ok (cw_reserved_anchor_list v)"
  by (simp add: existing_anchors_def existing_anchor_def cw_reserved_def cw_reserved_anchor_list_def cw_host_sel(4) cw_known_meta cw_anchors)

lemma cw_built_in_anchors:
  "rfold (built_in_anchor cw_host) [] (cw_gs @ [cw_device]) =
     Ok [cw_anchor False 2 [2, 1, 0], cw_anchor False 3 [3, 0], cw_anchor False 4 [4, 0], cw_anchor False 5 [5, 0], cw_anchor False 6 [6, 0],
         cw_anchor True 8 [8, 7, 0]]"
  by (simp add: cw_gs_def cw_device_def built_in_anchor_def cw_anchors verify_anchor_def cw_anchor_sel cw_stat_sel)

definition cw_mount :: mount where
  "cw_mount = \<lparr>mt_id = 7, mt_device = (8, 1), mt_root = Some [RootDir], mt_point = [RootDir]\<rparr>"

lemma cw_line: "parse_line ''7 0 8:1 / / rw - ext4 x rw'' = Ok cw_mount"
proof -
  have fields: "split_on (CHR '' '') ''7 0 8:1 / / rw - ext4 x rw'' = [''7'', ''0'', ''8:1'', ''/'', ''/'', ''rw'', ''-'', ''ext4'', ''x'', ''rw'']"
    by simp
  have numbers: "parse_number ''7'' = Ok 7" "parse_device ''8:1'' = Ok (8, 1)"
    by (simp_all add: parse_number_def parse_device_def parse_digits_def digits_value_def digit_value_def is_ascii_digit_def byte_in_def Let_def
        u64_max_num u32_max_num)
  have root: "path_components ''/'' = [RootDir]" "is_absolute ''/''" "is_ascii_digit (CHR ''0'')"
    by (simp_all add: path_components_def body_component_def is_absolute_def starts_with_def is_ascii_digit_def byte_in_def)
  show ?thesis by (simp add: parse_line_def fields numbers root cw_mount_def Let_def)
qed

lemma cw_topology: "read_topology (cf_mountinfo cw_host) = Ok [cw_mount]"
proof -
  have lines: "split_on newline ''7 0 8:1 / / rw - ext4 x rw'' = [''7 0 8:1 / / rw - ext4 x rw'']" by simp
  have "parse_counted (0, []) ''7 0 8:1 / / rw - ext4 x rw'' = Ok (1, [cw_mount])"
    by (simp add: parse_counted_def cw_line MAX_MOUNTS_def MAX_LINE_BYTES_def)
  then show ?thesis
    unfolding cw_host_sel read_topology_def parse_topology_def
    by (simp only: sys.case Let_def butlast_snoc lines rfold.simps rbind_Inr snd_conv) (simp add: MAX_MOUNTINFO_BYTES_def lines)
qed

lemma cw_region: "region_of [cw_mount] (kernel_mount (\<lambda>_. MountId 7)) (RootDir # q) = Ok \<lparr>rg_device = (8, 1), rg_path = RootDir # q\<rparr>"
proof -
  have "last (prefixes q) = q" by (cases q rule: rev_cases) simp_all
  then have "hd (path_ancestors (RootDir # q)) = RootDir # q" "path_ancestors (RootDir # q) \<noteq> []"
    by (simp_all add: path_ancestors_def hd_rev last_map)
  then have "kernel_mount (\<lambda>_. MountId 7) (RootDir # q) = Ok (7, RootDir # q)"
    unfolding kernel_mount_def by (cases "path_ancestors (RootDir # q)") simp_all
  then show ?thesis by (simp add: region_of_def cw_mount_def strip_path_def)
qed

lemma cw_no_nested: "mounts_beneath [cw_mount] (RootDir # x # q) = []"
  by (simp add: mounts_beneath_def cw_mount_def)

lemma cw_no_alias:
  "reject_overlap [cw_mount] (\<lambda>_. MountId 7) [RootDir, Normal ''d''] (map path_components ((cw_reserved v) @ map cg_path (cw_gs @ [cw_device]))) = Ok ()"
  by (simp add: reject_overlap_def reject_overlap_with_def reserve_regions_def cw_reserved_def cw_gs_def cw_device_def cw_components cw_region
      cw_no_nested region_overlaps_def)

definition cw_inputs :: "bool \<Rightarrow> user_grant_inputs" where
  "cw_inputs v =
     \<lparr>ui_reserved = (cw_reserved v), ui_reserved_anchors = cw_reserved_anchor_list v,
      ui_built_in_anchors = [cw_anchor False 2 [2, 1, 0], cw_anchor False 3 [3, 0], cw_anchor False 4 [4, 0], cw_anchor False 5 [5, 0],
        cw_anchor False 6 [6, 0], cw_anchor True 8 [8, 7, 0]],
      ui_mounts = [cw_mount], ui_protected = (cw_reserved v) @ map cg_path (cw_gs @ [cw_device])\<rparr>"

lemma cw_user_grant:
  "add_user_grant cw_host (cw_inputs v) (cw_gs @ [cw_device], [], []) \<lparr>ug_path = ''/d'', ug_access = GrantReadOnly\<rparr> =
     Ok (cw_gs @ [cw_device, cw_user], [''/d''], [cw_anchor False 11 [11, 0]])"
proof -
  have statx: "cf_statx cw_host = (\<lambda>_. MountId 7)" by (rule ext) (rule cw_host_sel)
  have lexical: "list_all (\<lambda>p. \<not> paths_overlap ''/d'' p) ((cw_reserved v) @ map cg_path (cw_gs @ [cw_device]))"
    by (simp add: cw_reserved_def cw_gs_def cw_device_def paths_overlap_def path_starts_with_def cw_components)
  show ?thesis
    using lexical
    by (simp add: add_user_grant_def cw_inputs_def cw_reserved_anchor_list_def is_absolute_def starts_with_def cw_canonical io_ok_def cw_anchors reject_reserved_grant_def
        reject_built_in_grant_overlap_def list_all_iff anchor_overlaps_def cw_anchor_sel statx cw_components cw_no_alias [simplified]
        user_access_class_def cw_stat_sel cw_user_def)
qed

lemma cw_user_grants: "add_user_grants cw_host (cw_request v) (cw_gs @ [cw_device]) = Ok (cw_gs @ [cw_device, cw_user])"
  unfolding add_user_grants_def cw_request_sel cw_reserved_paths cw_built_in_anchors cw_topology rbind_Inr cw_reserved_anchors cw_inputs_def [symmetric]
  by (simp add: MAX_USER_GRANTS_def cw_user_grant)

subsection \<open>The plan and its rules\<close>

lemma retain_new_distinct: "distinct (map key xs) \<Longrightarrow> key ` set xs \<inter> set seen = {} \<Longrightarrow> retain_new key seen xs = xs"
  by (induction xs arbitrary: seen) auto

lemma cw_deduplicate: "set (deduplicate_grants (cw_gs @ [cw_device, cw_user])) = set (cw_gs @ [cw_device, cw_user])"
proof -
  have "distinct (map grant_key (cw_gs @ [cw_device, cw_user]))"
    by (simp add: cw_gs_def cw_device_def cw_user_def grant_key_def cw_components)
  then show ?thesis by (simp add: deduplicate_grants_def retain_new_distinct)
qed

lemma cw_plan: "\<exists>plan. build_plan cw_host (cw_request v) = Ok plan \<and> set (pn_grants plan) = set (cw_gs @ [cw_device, cw_user]) \<and>
    pn_quarter_command_root plan = (if v then ''/u'' else ''/s/h'')"
proof -
  obtain omitted where built: "built_in_grants cw_host (cw_request v) = Ok (cw_gs @ [cw_device], omitted)" using cw_built_in by blast
  have protected: "validate_private_directory cw_host ''/s/h'' = Ok ()" "validate_private_directory cw_host ''/r'' = Ok ()"
    by (simp_all add: validate_private_directory_def cw_host_sel(1,4) cw_known_meta io_ok_def cw_stat_sel)
  have executable: "list_ex (\<lambda>g. cg_access g = ''read-execute'') (deduplicate_grants (cw_gs @ [cw_device, cw_user]))"
    unfolding list_ex_iff cw_deduplicate by (simp add: cw_gs_def)
  have directory: "resolve_working_directory cw_host (cw_request w) gs (if w then ''/u'' else ''/s/h'') =
      Ok \<lparr>wd_path = (if w then ''/u'' else ''/s/h''), wd_device = 0, wd_inode = 2\<rparr>" for w gs
    by (cases w) (simp_all add: resolve_working_directory_def cw_request_sel identified_def cw_host_sel(7) cw_known_meta io_ok_def cw_stat_sel)
  note directories = directory [of True, unfolded if_True] directory [of False, unfolded if_False]
  show ?thesis
    using built executable cw_user_grants [of v]
    by (cases v) (simp_all add: build_plan_def cw_request_sel protected cw_canonical io_ok_def directories Let_def cw_deduplicate)
qed

definition cw_rights :: "nat landlock_rights" where
  "cw_rights = \<lparr>lr_from_read = {0, 1}, lr_from_all = {0, 1, 2, 3}, lr_execute = 0, lr_read_file = 1, lr_write_file = 2, lr_truncate = 3\<rparr>"

lemma prepare_rules_succeed:
  "\<forall>g \<in> set gs. \<forall>rules. \<exists>rules'. prepare_rule lr path_fd add_rule rules g = Ok rules' \<Longrightarrow>
     \<exists>rules'. rfold (prepare_rule lr path_fd add_rule) rules gs = Ok rules'"
proof (induction gs arbitrary: rules)
  case (Cons g gs)
  then obtain mid where "prepare_rule lr path_fd add_rule rules g = Ok mid" by fastforce
  then show ?case using Cons by simp
qed simp

lemma cw_rules:
  assumes "set (pn_grants plan) = set (cw_gs @ [cw_device, cw_user])"
  shows "\<exists>rules. prepare_confinement cw_rights (Ok ()) (SysOk \<circ> cw_metadata) (\<lambda>_. Ok ()) plan = Ok rules"
proof -
  have "\<exists>rules'. prepare_rule cw_rights (SysOk \<circ> cw_metadata) (\<lambda>_. Ok ()) rules g = Ok rules'"
    if g: "g \<in> set (cw_gs @ [cw_device, cw_user])" for g rules
    using g unfolding cw_gs_def cw_device_def cw_user_def
    by (simp only: append.simps list.set) (elim insertE emptyE; simp add: prepare_rule_def grant_access_def cw_known_meta cw_stat_sel Let_def io_ok_def)
  then show ?thesis
    unfolding prepare_confinement_def rbind_Inr by (intro prepare_rules_succeed) (simp only: assms, blast)
qed

lemma cw_faithful: "faithful_anchors cw_host"
proof -
  have inv: "p \<in> set cw_known" if "cf_canonicalize cw_host x = SysOk p" for x p
    using that by (simp add: cw_host_sel(2) split: if_splits)
  have "an_inode a \<in> set (an_ancestry b)"
    if "p \<in> set cw_known" "q \<in> set cw_known" "open_anchor cw_host p = Ok a" "open_anchor cw_host q = Ok b" "path_starts_with q p" for p q a b
  proof (cases "p = q")
    case True
    then show ?thesis using that unfolding cw_known_def
      by (simp only: list.set) (elim insertE emptyE; auto simp: cw_anchors cw_anchor_sel)
  next
    case False
    have "p = ''/s'' \<and> q = ''/s/h''"
      using that(1,2,5) False unfolding cw_known_def
      by (simp only: list.set) (elim insertE emptyE; simp add: path_starts_with_def cw_components)
    then show ?thesis using that(3,4) by (auto simp: cw_anchors cw_anchor_sel)
  qed
  then show ?thesis unfolding faithful_anchors_def using inv by blast
qed

subsection \<open>The properties on this host\<close>

lemma cw_user_sel: "cw_user \<in> set (cw_gs @ [cw_device, cw_user])" "cg_source cw_user = ''user-granted''" "cg_path cw_user = ''/d''"
  by (simp_all add: cw_user_def)

theorem user_grants_are_isolated_witness:
  "\<exists>plan. build_plan cw_host (cw_request False) = Ok plan \<and> cw_user \<in> set (pn_grants plan) \<and>
     (\<forall>g' \<in> set (pn_grants plan) - {cw_user}. \<not> paths_overlap ''/d'' (cg_path g'))"
proof -
  obtain plan where plan: "build_plan cw_host (cw_request False) = Ok plan" "set (pn_grants plan) = set (cw_gs @ [cw_device, cw_user])"
    using cw_plan by blast
  have user: "cw_user \<in> set (pn_grants plan)" unfolding plan(2) by (rule cw_user_sel)
  show ?thesis using user_grants_are_isolated [OF plan(1) user cw_user_sel(2)] plan(1) user unfolding cw_user_sel(3) by blast
qed

theorem user_data_has_exactly_its_rights_witness:
  "\<exists>plan rules. build_plan cw_host (cw_request False) = Ok plan \<and>
     prepare_confinement cw_rights (Ok ()) (SysOk \<circ> cw_metadata) (\<lambda>_. Ok ()) plan = Ok rules \<and>
     granted_rights rules [RootDir, Normal ''d'', Normal ''x''] = {1}"
proof -
  obtain plan where plan: "build_plan cw_host (cw_request False) = Ok plan" "set (pn_grants plan) = set (cw_gs @ [cw_device, cw_user])"
    using cw_plan by blast
  have user: "cw_user \<in> set (pn_grants plan)" unfolding plan(2) by (rule cw_user_sel)
  obtain rules where rules: "prepare_confinement cw_rights (Ok ()) (SysOk \<circ> cw_metadata) (\<lambda>_. Ok ()) plan = Ok rules" using cw_rules [OF plan(2)] by blast
  have below: "path_holds (cg_path cw_user) [RootDir, Normal ''d'', Normal ''x'']" by (simp add: path_holds_def cw_user_sel(3) cw_components)
  have "grant_access cw_rights cw_user = Ok (granted_rights rules [RootDir, Normal ''d'', Normal ''x''])"
    using user_data_has_exactly_its_rights [OF plan(1) rules user cw_user_sel(2) below] by (simp add: cw_rights_def)
  then have "granted_rights rules [RootDir, Normal ''d'', Normal ''x''] = {1}"
    by (simp add: grant_access_def cw_user_def cw_rights_def)
  then show ?thesis using plan(1) rules by blast
qed

theorem store_outside_the_quarter_stays_closed_witness:
  "\<exists>plan rules. build_plan cw_host (cw_request False) = Ok plan \<and>
     prepare_confinement cw_rights (Ok ()) (SysOk \<circ> cw_metadata) (\<lambda>_. Ok ()) plan = Ok rules \<and>
     granted_rights rules [RootDir, Normal ''s'', Normal ''x''] \<subseteq> {1, 2}"
proof -
  obtain plan where plan: "build_plan cw_host (cw_request False) = Ok plan" "set (pn_grants plan) = set (cw_gs @ [cw_device, cw_user])"
    using cw_plan by blast
  obtain rules where rules: "prepare_confinement cw_rights (Ok ()) (SysOk \<circ> cw_metadata) (\<lambda>_. Ok ()) plan = Ok rules" using cw_rules [OF plan(2)] by blast
  have "granted_rights rules [RootDir, Normal ''s'', Normal ''x''] \<subseteq> {lr_read_file cw_rights, lr_write_file cw_rights}"
    using store_outside_the_quarter_stays_closed
      [OF plan(1) rules cw_faithful, of "''/s''" "[RootDir, Normal ''s'', Normal ''x'']" "''/s/h''" "''/r''"]
    unfolding cw_request_sel cw_canonical path_holds_def cw_components by simp
  then show ?thesis using plan(1) rules by (auto simp: cw_rights_def)
qed

definition cw_command_host :: confine_host where
  "cw_command_host =
     cw_host\<lparr>cf_canonicalize := SysOk, cf_metadata := \<lambda>_. SysOk (cw_stat True 12), cf_open_path := \<lambda>_. SysOk (cw_stat True 12)\<rparr>"

lemma cw_command:
  assumes "path_holds root (path_components p)" and "is_absolute p"
    and "root = pn_quarter_command_root plan \<or> (\<exists>g \<in> set (pn_grants plan). cg_access g = ''read-execute'' \<and> cg_path g = root)"
  shows "resolve_confined_executable cw_command_host p [] plan = Ok p"
proof -
  have "executable_bits (st_mode (cw_stat True 12))" by (simp add: cw_stat_def executable_bits_def)
  moreover have "path_starts_with p (pn_quarter_command_root plan) \<or>
      list_ex (\<lambda>g. cg_access g \<in> {''read-execute'', ''read-write''} \<and> path_starts_with p (cg_path g)) (pn_grants plan)"
    using assms(1,3) by (auto simp: path_starts_with_holds list_ex_iff)
  ultimately show ?thesis
    using assms(2) by (auto simp: resolve_confined_executable_def open_stable_executable_def cw_command_host_def io_ok_def cw_stat_sel Let_def)
qed

text \<open>A system command without a view, and a command of the Quarter under its home view.\<close>

theorem resolved_commands_are_executable_and_not_user_data_witness:
  "(\<exists>plan rules. build_plan cw_host (cw_request False) = Ok plan \<and>
      prepare_confinement cw_rights (Ok ()) (SysOk \<circ> cw_metadata) (\<lambda>_. Ok ()) plan = Ok rules \<and>
      resolve_confined_executable cw_command_host ''/usr/x'' [] plan = Ok ''/usr/x'' \<and>
      0 \<in> view_rights (launch_view cw_host (cw_request False)) rules [RootDir, Normal ''usr'', Normal ''x'']) \<and>
   (\<exists>plan rules. build_plan cw_host (cw_request True) = Ok plan \<and>
      prepare_confinement cw_rights (Ok ()) (SysOk \<circ> cw_metadata) (\<lambda>_. Ok ()) plan = Ok rules \<and>
      resolve_confined_executable cw_command_host ''/u/x'' [] plan = Ok ''/u/x'' \<and>
      0 \<in> view_rights (launch_view cw_host (cw_request True)) rules [RootDir, Normal ''u'', Normal ''x''] \<and>
      0 \<notin> granted_rights rules [RootDir, Normal ''u'', Normal ''x''])"
proof -
  have components: "path_components ''/usr/x'' = [RootDir, Normal ''usr'', Normal ''x'']" "path_components ''/u/x'' = [RootDir, Normal ''u'', Normal ''x'']"
    "is_absolute ''/usr/x''" "is_absolute ''/u/x''"
    by (simp_all add: path_components_def body_component_def is_absolute_def starts_with_def)
  have home: "effective_home cw_host True (rq_space_home (cw_request v)) (rq_home_view (cw_request v)) = Ok (rq_effective_home (cw_request v))" for v
    by (simp add: effective_home_def host_home_def cw_request_sel cw_host_sel(9) io_ok_def is_absolute_def starts_with_def)
  have admitted: "\<exists>plan rules. build_plan cw_host (cw_request v) = Ok plan \<and> set (pn_grants plan) = set (cw_gs @ [cw_device, cw_user]) \<and>
      prepare_confinement cw_rights (Ok ()) (SysOk \<circ> cw_metadata) (\<lambda>_. Ok ()) plan = Ok rules \<and>
      resolve_confined_executable cw_command_host p [] plan = Ok p \<and>
      0 \<in> view_rights (launch_view cw_host (cw_request v)) rules (path_components p)"
    if p: "path_holds (if v then ''/u'' else ''/usr'') (path_components p)" "is_absolute p" for v p
  proof -
    obtain plan where plan: "build_plan cw_host (cw_request v) = Ok plan" "set (pn_grants plan) = set (cw_gs @ [cw_device, cw_user])"
        "pn_quarter_command_root plan = (if v then ''/u'' else ''/s/h'')"
      using cw_plan by blast
    obtain rules where rules: "prepare_confinement cw_rights (Ok ()) (SysOk \<circ> cw_metadata) (\<lambda>_. Ok ()) plan = Ok rules" using cw_rules [OF plan(2)] by blast
    have resolved: "resolve_confined_executable cw_command_host p [] plan = Ok p"
      by (rule cw_command [OF p]) (auto simp: plan(2,3) cw_gs_def)
    have "0 \<in> view_rights (launch_view cw_host (cw_request v)) rules (path_components p)"
      using resolved_commands_are_executable_and_not_user_data [OF plan(1) rules home resolved] by (simp add: cw_rights_def)
    then show ?thesis using plan rules resolved by blast
  qed
  have closed: "0 \<notin> granted_rights rules [RootDir, Normal ''u'', Normal ''x'']"
    if "prepare_confinement cw_rights (Ok ()) (SysOk \<circ> cw_metadata) (\<lambda>_. Ok ()) plan = Ok rules"
      "set (pn_grants plan) = set (cw_gs @ [cw_device, cw_user])" for plan rules
    unfolding prepared_rights(1) [OF that(1)] that(2) by (auto simp: cw_gs_def cw_device_def cw_user_def path_holds_def cw_components)
  show ?thesis
    using admitted [of False "''/usr/x''"] admitted [of True "''/u/x''"] closed
    unfolding components by (simp add: path_holds_def cw_components) blast
qed

end
