(* ===== verification/Discovery_Classes.thy ===== *)
theory Discovery_Classes
  imports Fs_Types Paths
begin

text \<open>
  The classes of discovered entries, \<open>discovery/classify.rs\<close>: the class of an entry by its path and
  mode, the disclosed patterns of credential-shaped paths and the matching that is implemented. The
  cache directories of the platform are an argument; they are fixed lists in \<open>platform/linux.rs\<close> and
  \<open>platform/macos.rs\<close>.
\<close>

subsection \<open>Selectors and classes\<close>

datatype discovery_selector = SelectHome | SelectRuntime

definition selector_str :: "discovery_selector \<Rightarrow> string" where
  "selector_str s = (case s of SelectHome \<Rightarrow> ''home'' | SelectRuntime \<Rightarrow> ''runtime'')"

datatype discovery_class =
    ClassConfiguration | ClassData | ClassState | ClassCache | ClassCredentialShaped | ClassRuntimeSocket
  | ClassRuntime | ClassUnclassified

definition linux_derived_cache_directories :: "string list" where
  "linux_derived_cache_directories = []"

definition macos_derived_cache_directories :: "string list" where
  "macos_derived_cache_directories = [''Library/Caches'']"

subsection \<open>Credential-shaped paths\<close>

definition CREDENTIAL_PATTERNS :: "string list" where
  "CREDENTIAL_PATTERNS =
     [''.anthropic'', ''.anthropic/**'', ''.aws'', ''.aws/**'', ''.azure'', ''.azure/**'',
      ''.cargo/credentials'', ''.cargo/credentials/**'', ''.cargo/credentials.toml'', ''.cargo/credentials.toml/**'',
      ''.claude'', ''.claude/**'', ''.codex'', ''.codex/**'', ''.config/anthropic'', ''.config/anthropic/**'',
      ''.config/gcloud'', ''.config/gcloud/**'', ''.config/gh'', ''.config/gh/**'', ''.config/opencode'', ''.config/opencode/**'',
      ''.docker'', ''.docker/**'', ''.env'', ''.env.*'', ''.env.*/**'', ''.env/**'', ''.git-credentials'', ''.git-credentials/**'',
      ''.gnupg'', ''.gnupg/**'', ''.kube'', ''.kube/**'', ''.netrc'', ''.netrc/**'', ''.npmrc'', ''.npmrc/**'',
      ''.openai'', ''.openai/**'', ''.pgpass'', ''.pypirc'', ''.pypirc/**'', ''.ssh'', ''.ssh/**'',
      ''**/.pgpass'', ''**/.pgpass/**'', ''**/*.kdbx'', ''**/*.kdbx/**'', ''**/*.key'', ''**/*.key/**'',
      ''**/*.p12'', ''**/*.p12/**'', ''**/*.pem'', ''**/*.pem/**'', ''**/*.pfx'', ''**/*.pfx/**'',
      ''**/auth.json'', ''**/auth.json/**'', ''**/credentials'', ''**/credentials/**'',
      ''**/credentials.json'', ''**/credentials.json/**'', ''**/hosts.yml'', ''**/hosts.yml/**'',
      ''**/token'', ''**/token/**'', ''**/token.json'', ''**/token.json/**'']"

definition CREDENTIAL_PREFIXES :: "string list" where
  "CREDENTIAL_PREFIXES =
     [''.anthropic'', ''.aws'', ''.azure'', ''.cargo/credentials'', ''.cargo/credentials.toml'', ''.claude'', ''.codex'',
      ''.config/anthropic'', ''.config/gcloud'', ''.config/gh'', ''.config/opencode'', ''.docker'', ''.env'',
      ''.git-credentials'', ''.gnupg'', ''.kube'', ''.netrc'', ''.npmrc'', ''.openai'', ''.pypirc'', ''.ssh'']"

definition CREDENTIAL_COMPONENTS :: "string list" where
  "CREDENTIAL_COMPONENTS =
     [''auth.json'', ''credentials'', ''credentials.json'', ''hosts.yml'', ''token'', ''token.json'', ''.pgpass'']"

definition CREDENTIAL_SUFFIXES :: "string list" where
  "CREDENTIAL_SUFFIXES = [''.pem'', ''.key'', ''.p12'', ''.pfx'', ''.kdbx'']"

definition ascii_lowercase :: "string \<Rightarrow> string" where
  "ascii_lowercase value = map to_ascii_lowercase value"

definition joined_ascii_lowercase :: "string list \<Rightarrow> string" where
  "joined_ascii_lowercase path = join_slash (map ascii_lowercase path)"

definition credential_shaped_component :: "string \<Rightarrow> bool" where
  "credential_shaped_component component =
     (let component = ascii_lowercase component in
      component \<in> set CREDENTIAL_COMPONENTS \<or> list_ex (ends_with component) CREDENTIAL_SUFFIXES)"

definition credential_shaped_components :: "string list \<Rightarrow> bool" where
  "credential_shaped_components path =
     (let value = joined_ascii_lowercase path;
          prefix = list_ex (\<lambda>p. value = p \<or>
            (case strip_prefix value p of None \<Rightarrow> False | Some tail \<Rightarrow> starts_with tail ''/'')) CREDENTIAL_PREFIXES
      in prefix \<or> value = ''.env'' \<or> starts_with value ''.env.'' \<or> list_ex credential_shaped_component path)"

definition normal_components :: "string \<Rightarrow> string list" where
  "normal_components p = List.map_filter (\<lambda>c. case c of Normal value \<Rightarrow> Some value | _ \<Rightarrow> None) (path_components p)"

definition credential_shaped_path :: "string \<Rightarrow> bool" where
  "credential_shaped_path p = credential_shaped_components (normal_components p)"

subsection \<open>The class of an entry\<close>

definition components_start_with :: "string list \<Rightarrow> string list \<Rightarrow> bool" where
  "components_start_with path expected \<longleftrightarrow>
     length expected \<le> length path \<and> list_all (\<lambda>(component, e). component = e) (zip path expected)"

definition derived_cache :: "string list \<Rightarrow> string list \<Rightarrow> bool" where
  "derived_cache roots path = list_ex (\<lambda>root. components_start_with path (normal_components root)) roots"

definition classify :: "string list \<Rightarrow> discovery_selector \<Rightarrow> string list \<Rightarrow> nat \<Rightarrow> discovery_class" where
  "classify caches selector path mode =
     (if credential_shaped_components path then ClassCredentialShaped
      else if s_kind mode = S_IFSOCK then ClassRuntimeSocket
      else if selector = SelectRuntime then ClassRuntime
      else
        (case path of
           [] \<Rightarrow> ClassUnclassified
         | first # _ \<Rightarrow>
             if first = ''.cache'' \<or> derived_cache caches path then ClassCache
             else if first = ''.config'' then ClassConfiguration
             else if components_start_with path [''.local'', ''state''] then ClassState
             else if components_start_with path [''.local'', ''share''] \<or> components_start_with path [''.local'', ''bin''] \<or>
               \<not> starts_with first ''.'' then ClassData
             else if length path = 1 \<and> s_kind mode = S_IFREG then ClassConfiguration
             else ClassUnclassified))"

subsection \<open>What the patterns mean\<close>

text \<open>
  The notation of the disclosed patterns: a pattern is split at slashes; a first \<open>**\<close> stands for any
  number of directories, a last one for at least one further component, and a star within a component
  for any bytes of it. Letters are compared case-insensitively.
\<close>

fun star_matches :: "string \<Rightarrow> string \<Rightarrow> bool" where
  "star_matches [] text = (text = [])"
| "star_matches (c # pattern) [] = (c = CHR ''*'' \<and> star_matches pattern [])"
| "star_matches (c # pattern) (t # text) =
     (if c = CHR ''*'' then star_matches pattern (t # text) \<or> star_matches (c # pattern) text
      else c = t \<and> star_matches pattern text)"

fun pattern_matches :: "string list \<Rightarrow> string list \<Rightarrow> bool" where
  "pattern_matches [] path = (path = [])"
| "pattern_matches [p] path =
     (if p = ''**'' then path \<noteq> [] else (case path of [q] \<Rightarrow> star_matches p q | _ \<Rightarrow> False))"
| "pattern_matches (p # p' # ps) path =
     (if p = ''**'' then pattern_matches (p' # ps) path \<or> (case path of [] \<Rightarrow> False | _ # qs \<Rightarrow> pattern_matches (p # p' # ps) qs)
      else (case path of [] \<Rightarrow> False | q # qs \<Rightarrow> star_matches p q \<and> pattern_matches (p' # ps) qs))"

definition glob_matches :: "string \<Rightarrow> string list \<Rightarrow> bool" where
  "glob_matches pattern path = pattern_matches (split_slash pattern) (map ascii_lowercase path)"

lemma star_literal: "CHR ''*'' \<notin> set p \<Longrightarrow> star_matches p t \<longleftrightarrow> t = p"
  by (induction p t rule: star_matches.induct) auto

lemma star_suffix: "CHR ''*'' \<notin> set p \<Longrightarrow> star_matches (CHR ''*'' # p) t \<longleftrightarrow> ends_with t p"
proof (induction t)
  case (Cons c t)
  have "ends_with (c # t) p \<longleftrightarrow> c # t = p \<or> ends_with t p" by (auto simp: ends_with_iff Cons_eq_append_conv)
  then show ?case using Cons by (simp add: star_literal)
qed (auto simp: star_literal ends_with_iff)

lemma star_prefix: "CHR ''*'' \<notin> set p \<Longrightarrow> star_matches (p @ ''*'') t \<longleftrightarrow> starts_with t p"
proof (induction p arbitrary: t)
  case Nil
  have "star_matches ''*'' t" by (induction t) simp_all
  then show ?case by (simp add: starts_with_def)
next
  case (Cons c p)
  then show ?case by (cases t) (auto simp: starts_with_def)
qed

lemma pattern_segment:
  "p \<noteq> ''**'' \<Longrightarrow> pattern_matches (p # ps) path \<longleftrightarrow> (case path of [] \<Rightarrow> False | q # qs \<Rightarrow> star_matches p q \<and> pattern_matches ps qs)"
  by (cases ps) (auto split: list.splits)

lemma pattern_any_depth: "pattern_matches (''**'' # p # ps) path \<longleftrightarrow> (\<exists>pre qs. path = pre @ qs \<and> pattern_matches (p # ps) qs)"
proof (induction path)
  case (Cons q qs)
  have "(\<exists>pre rs. q # qs = pre @ rs \<and> pattern_matches (p # ps) rs) \<longleftrightarrow>
      pattern_matches (p # ps) (q # qs) \<or> (\<exists>pre rs. qs = pre @ rs \<and> pattern_matches (p # ps) rs)"
    by (auto simp: Cons_eq_append_conv)
  then show ?case using Cons by simp
qed simp

lemma pattern_below: "pattern_matches [''**''] path \<longleftrightarrow> path \<noteq> []"
  by simp

lemma pattern_literals:
  "\<forall>p \<in> set ps. CHR ''*'' \<notin> set p \<Longrightarrow> pattern_matches (ps @ qs) path \<longleftrightarrow> (\<exists>rest. path = ps @ rest \<and> pattern_matches qs rest)"
proof (induction ps arbitrary: path)
  case (Cons p ps)
  then have "p \<noteq> ''**''" by auto
  then show ?case using Cons by (auto simp: pattern_segment star_literal split: list.splits)
qed simp

subsection \<open>The patterns by their kind\<close>

definition patterns_below :: "string list \<Rightarrow> string list" where
  "patterns_below ps = concat (map (\<lambda>p. [p, p @ ''/**'']) ps)"

definition disclosed :: "string list" where
  "disclosed =
     patterns_below CREDENTIAL_PREFIXES @ patterns_below [''.env.*''] @ [''.pgpass''] @
     patterns_below (map (\<lambda>c. ''**/'' @ c) CREDENTIAL_COMPONENTS) @ patterns_below (map (\<lambda>s. ''**/*'' @ s) CREDENTIAL_SUFFIXES)"

text \<open>The list is in byte order; within it the kinds keep the order of their own lists, up to the suffixes.\<close>

lemma disclosed_patterns: "set CREDENTIAL_PATTERNS = set disclosed"
proof -
  define early where "early =
    [''.anthropic'', ''.aws'', ''.azure'', ''.cargo/credentials'', ''.cargo/credentials.toml'', ''.claude'', ''.codex'',
     ''.config/anthropic'', ''.config/gcloud'', ''.config/gh'', ''.config/opencode'', ''.docker'']"
  define late where "late = [''.git-credentials'', ''.gnupg'', ''.kube'', ''.netrc'', ''.npmrc'', ''.openai'']"
  define names where "names = [''auth.json'', ''credentials'', ''credentials.json'', ''hosts.yml'', ''token'', ''token.json'']"
  define ends where "ends = [''.kdbx'', ''.key'', ''.p12'', ''.pem'', ''.pfx'']"
  have listed: "CREDENTIAL_PATTERNS =
      patterns_below early @ [''.env'', ''.env.*'', ''.env.*/**'', ''.env/**''] @ patterns_below late @ [''.pgpass''] @
      patterns_below [''.pypirc'', ''.ssh''] @ patterns_below [''**/.pgpass''] @ patterns_below (map (\<lambda>s. ''**/*'' @ s) ends) @
      patterns_below (map (\<lambda>c. ''**/'' @ c) names)"
    unfolding early_def late_def names_def ends_def by (simp add: CREDENTIAL_PATTERNS_def patterns_below_def)
  have prefixes: "CREDENTIAL_PREFIXES = early @ [''.env''] @ late @ [''.pypirc'', ''.ssh'']"
    unfolding early_def late_def by (simp add: CREDENTIAL_PREFIXES_def)
  have components: "CREDENTIAL_COMPONENTS = names @ [''.pgpass'']" unfolding names_def by (simp add: CREDENTIAL_COMPONENTS_def)
  have suffixes: "set CREDENTIAL_SUFFIXES = set ends" unfolding ends_def by (auto simp: CREDENTIAL_SUFFIXES_def)
  have same: "set (patterns_below (map (\<lambda>s. ''**/*'' @ s) CREDENTIAL_SUFFIXES)) = set (patterns_below (map (\<lambda>s. ''**/*'' @ s) ends))"
    using suffixes by (simp add: patterns_below_def)
  have append: "patterns_below (ps @ qs) = patterns_below ps @ patterns_below qs" for ps qs by (simp add: patterns_below_def)
  have env: "set (patterns_below [''.env'']) \<union> set (patterns_below [''.env.*'']) = {''.env'', ''.env.*'', ''.env.*/**'', ''.env/**''}"
    by (auto simp: patterns_below_def)
  show ?thesis
    unfolding disclosed_def set_append same listed unfolding prefixes components append map_append set_append env [symmetric] list.set
    by (auto simp: patterns_below_def)
qed

lemma split_slash_at: "split_slash (p @ CHR ''/'' # s) = split_slash p @ split_slash s"
proof (induction p)
  case (Cons c p)
  show ?case using Cons by (cases "split_slash p") auto
qed simp

definition below_or_at :: "string \<Rightarrow> string list \<Rightarrow> bool" where
  "below_or_at p path \<longleftrightarrow> glob_matches p path \<or> glob_matches (p @ ''/**'') path"

lemma glob_patterns_below: "(\<exists>p \<in> set (patterns_below ps). glob_matches p path) \<longleftrightarrow> (\<exists>p \<in> set ps. below_or_at p path)"
  by (auto simp: patterns_below_def below_or_at_def)

lemma split_slash_chars: "q \<in> set (split_slash p) \<Longrightarrow> set q \<subseteq> set p"
proof (induction p arbitrary: q)
  case (Cons c p)
  then show ?case by (cases "split_slash p") (force split: if_splits)+
qed simp

text \<open>What a pattern matches together with its companion for everything below.\<close>

lemma below_or_at_literal:
  assumes "CHR ''*'' \<notin> set p"
  shows "below_or_at p path \<longleftrightarrow> (\<exists>rest. map ascii_lowercase path = split_slash p @ rest)"
proof -
  have "\<forall>q \<in> set (split_slash p). CHR ''*'' \<notin> set q"
    using assms split_slash_chars by blast
  note literal = pattern_literals [OF this]
  have "glob_matches p path \<longleftrightarrow> map ascii_lowercase path = split_slash p"
    using literal [of "[]"] by (auto simp: glob_matches_def)
  moreover have "glob_matches (p @ ''/**'') path \<longleftrightarrow> (\<exists>rest. map ascii_lowercase path = split_slash p @ rest \<and> rest \<noteq> [])"
    using literal [of "[''**'']"] split_slash_at [of p "''**''"] by (simp add: glob_matches_def)
  ultimately show ?thesis unfolding below_or_at_def by (metis append_Nil2)
qed

lemma below_or_at_segment:
  assumes "CHR ''/'' \<notin> set p" "p \<noteq> ''**''"
  shows "below_or_at p path \<longleftrightarrow> (\<exists>q rest. map ascii_lowercase path = q # rest \<and> star_matches p q)"
  using assms split_slash_at [of p "''**''"]
  by (auto simp: below_or_at_def glob_matches_def split_slash_no_slash pattern_segment split: list.splits)

lemma below_or_at_anywhere:
  assumes "CHR ''/'' \<notin> set p" "p \<noteq> ''**''"
  shows "below_or_at (''**/'' @ p) path \<longleftrightarrow> (\<exists>q \<in> set (map ascii_lowercase path). star_matches p q)"
proof -
  have split: "split_slash (''**/'' @ p) = [''**'', p]" "split_slash ((''**/'' @ p) @ ''/**'') = [''**'', p, ''**'']"
    using assms(1) split_slash_at [of "''**/'' @ p" "''**''"] by (simp_all add: split_slash_no_slash)
  let ?L = "map ascii_lowercase path"
  have at: "pattern_matches [p] qs \<longleftrightarrow> (\<exists>q. qs = [q] \<and> star_matches p q)" for qs
    using assms(2) by (auto split: list.splits)
  have below: "pattern_matches [p, ''**''] qs \<longleftrightarrow> (\<exists>q rest. qs = q # rest \<and> rest \<noteq> [] \<and> star_matches p q)" for qs
    using assms(2) by (cases qs) (auto simp: pattern_segment)
  have "below_or_at (''**/'' @ p) path \<longleftrightarrow>
      (\<exists>pre q. ?L = pre @ [q] \<and> star_matches p q) \<or> (\<exists>pre q rest. ?L = pre @ q # rest \<and> rest \<noteq> [] \<and> star_matches p q)"
    unfolding below_or_at_def glob_matches_def split pattern_any_depth at below by blast
  also have "\<dots> \<longleftrightarrow> (\<exists>pre q rest. ?L = pre @ q # rest \<and> star_matches p q)" by blast
  also have "\<dots> \<longleftrightarrow> (\<exists>q \<in> set ?L. star_matches p q)" by (metis in_set_conv_decomp)
  finally show ?thesis .
qed

subsection \<open>The matching by its kind\<close>

lemma to_ascii_lowercase_slash: "to_ascii_lowercase c = CHR ''/'' \<longleftrightarrow> c = CHR ''/''"
proof -
  have "to_ascii_lowercase c \<noteq> CHR ''/''" if "byte_in (CHR ''A'') (CHR ''Z'') c"
  proof
    assume "to_ascii_lowercase c = CHR ''/''"
    then have "(of_char (char_of ((of_char c :: nat) + 32)) :: nat) = 47" using that by (simp add: to_ascii_lowercase_def)
    then show False using that by (simp add: byte_in_def)
  qed
  moreover have "\<not> byte_in (CHR ''A'') (CHR ''Z'') (CHR ''/'')" by (simp add: byte_in_def)
  ultimately show ?thesis by (auto simp: to_ascii_lowercase_def)
qed

definition entry_names :: "string list \<Rightarrow> bool" where
  "entry_names path \<longleftrightarrow> list_all (\<lambda>q. q \<noteq> [] \<and> CHR ''/'' \<notin> set q) path"

lemma entry_names_lower: "entry_names path \<Longrightarrow> entry_names (map ascii_lowercase path)"
  by (auto simp: entry_names_def list_all_iff ascii_lowercase_def to_ascii_lowercase_slash dest!: sym [of "CHR ''/''"])

lemma split_joined: "entry_names L \<Longrightarrow> L \<noteq> [] \<Longrightarrow> split_slash (join_slash L) = L"
  by (rule split_join_slash) (auto simp: entry_names_def list_all_iff)

text \<open>A prefix of whole components.\<close>

lemma joined_prefix:
  assumes "entry_names L" "p \<noteq> []"
  shows "(join_slash L = p \<or> (case strip_prefix (join_slash L) p of None \<Rightarrow> False | Some tail \<Rightarrow> starts_with tail ''/'')) \<longleftrightarrow>
     (\<exists>rest. L = split_slash p @ rest)"
proof (cases "L = []")
  case True
  then show ?thesis using assms(2) by (auto simp: strip_prefix_def starts_with_def)
next
  case False
  note split = split_joined [OF assms(1) False]
  have "(case strip_prefix (join_slash L) p of None \<Rightarrow> False | Some tail \<Rightarrow> starts_with tail ''/'') \<longleftrightarrow>
      (\<exists>t. join_slash L = p @ CHR ''/'' # t)"
    by (auto simp: strip_prefix_eq_Some starts_with_iff split: option.splits)
  also have "\<dots> \<longleftrightarrow> (\<exists>rest. rest \<noteq> [] \<and> L = split_slash p @ rest)"
  proof
    assume "\<exists>t. join_slash L = p @ CHR ''/'' # t"
    then show "\<exists>rest. rest \<noteq> [] \<and> L = split_slash p @ rest" using split split_slash_at split_slash_not_Nil by metis
  next
    assume "\<exists>rest. rest \<noteq> [] \<and> L = split_slash p @ rest"
    then obtain rest where r: "rest \<noteq> []" "L = split_slash p @ rest" by blast
    have "join_slash (qs @ rest) = join_slash qs @ CHR ''/'' # join_slash rest" if "qs \<noteq> []" for qs
      using that r(1) by (induction qs rule: join_slash.induct) (auto simp: join_slash_Cons)
    then show "\<exists>t. join_slash L = p @ CHR ''/'' # t" using r(2) join_split_slash [of p] by auto
  qed
  finally have below: "(case strip_prefix (join_slash L) p of None \<Rightarrow> False | Some tail \<Rightarrow> starts_with tail ''/'') \<longleftrightarrow>
      (\<exists>rest. rest \<noteq> [] \<and> L = split_slash p @ rest)" .
  have "join_slash L = p \<longleftrightarrow> L = split_slash p" using split join_split_slash by metis
  with below show ?thesis by (metis append_Nil2)
qed

text \<open>A prefix of the first component.\<close>

lemma joined_starts_with:
  assumes "entry_names L" "p \<noteq> []" "CHR ''/'' \<notin> set p"
  shows "starts_with (join_slash L) p \<longleftrightarrow> (\<exists>q rest. L = q # rest \<and> starts_with q p)"
proof (cases L)
  case (Cons q rest)
  have "starts_with (q @ CHR ''/'' # t) p \<longleftrightarrow> starts_with q p" for t
    using assms(3) by (auto simp: starts_with_iff append_eq_append_conv2 Cons_eq_append_conv)
  then show ?thesis using Cons by (cases "rest = []") (simp_all add: join_slash_Cons)
qed (use assms in \<open>simp add: starts_with_iff\<close>)

text \<open>
  C36: The disclosed patterns are the classification. For every list of directory-entry names the
  matching that is implemented calls a path credential-shaped exactly when one of the disclosed
  patterns matches it in the notation of \<open>CREDENTIAL_PATTERNS\<close>, letters compared case-insensitively.
\<close>

theorem disclosed_patterns_are_the_classification:
  assumes "entry_names path"
  shows "credential_shaped_components path \<longleftrightarrow> (\<exists>p \<in> set CREDENTIAL_PATTERNS. glob_matches p path)"
proof -
  let ?L = "map ascii_lowercase path"
  note names = entry_names_lower [OF assms]
  have literal: "list_all (\<lambda>p. p \<noteq> [] \<and> CHR ''*'' \<notin> set p) CREDENTIAL_PREFIXES"
    "list_all (\<lambda>p. p \<noteq> [] \<and> CHR ''*'' \<notin> set p \<and> CHR ''/'' \<notin> set p) CREDENTIAL_COMPONENTS"
    "list_all (\<lambda>p. CHR ''*'' \<notin> set p \<and> CHR ''/'' \<notin> set p \<and> p \<noteq> ''*'') CREDENTIAL_SUFFIXES"
    by (simp_all add: CREDENTIAL_PREFIXES_def CREDENTIAL_COMPONENTS_def CREDENTIAL_SUFFIXES_def)
  have env: "''.env'' \<in> set CREDENTIAL_PREFIXES" and pgpass: "''.pgpass'' \<in> set CREDENTIAL_COMPONENTS"
    by (simp_all add: CREDENTIAL_PREFIXES_def CREDENTIAL_COMPONENTS_def)
  define at_prefix where "at_prefix p \<longleftrightarrow> (\<exists>rest. ?L = split_slash p @ rest)" for p
  have prefixes: "below_or_at p path \<longleftrightarrow> at_prefix p" if "p \<in> set CREDENTIAL_PREFIXES" for p
    using that literal(1) below_or_at_literal [of p path] by (auto simp: at_prefix_def list_all_iff)
  have dotenv: "below_or_at ''.env.*'' path \<longleftrightarrow> starts_with (join_slash ?L) ''.env.''"
    using below_or_at_segment [of "''.env.*''" path] star_prefix [of "''.env.''"] joined_starts_with [OF names, of "''.env.''"] by simp
  have components: "below_or_at (''**/'' @ c) path \<longleftrightarrow> c \<in> set ?L" if "c \<in> set CREDENTIAL_COMPONENTS" for c
  proof -
    have c: "CHR ''*'' \<notin> set c" "CHR ''/'' \<notin> set c" using that literal(2) by (auto simp: list_all_iff)
    then have "c \<noteq> ''**''" by auto
    then show ?thesis using below_or_at_anywhere [of c path] star_literal [OF c(1)] c(2) by auto
  qed
  have suffixes: "below_or_at (''**/*'' @ s) path \<longleftrightarrow> (\<exists>q \<in> set ?L. ends_with q s)" if "s \<in> set CREDENTIAL_SUFFIXES" for s
  proof -
    have c: "CHR ''*'' \<notin> set s" "CHR ''/'' \<notin> set (CHR ''*'' # s)" "CHR ''*'' # s \<noteq> ''**''"
      using that literal(3) by (auto simp: list_all_iff)
    show ?thesis using below_or_at_anywhere [OF c(2,3), of path] star_suffix [OF c(1)] by simp
  qed
  have only: "glob_matches ''.pgpass'' path \<Longrightarrow> ''.pgpass'' \<in> set ?L"
    using below_or_at_literal [of "''.pgpass''" path] by (auto simp: below_or_at_def)
  have "(\<exists>p \<in> set CREDENTIAL_PATTERNS. glob_matches p path) \<longleftrightarrow>
      (\<exists>p \<in> set CREDENTIAL_PREFIXES. at_prefix p) \<or> starts_with (join_slash ?L) ''.env.'' \<or>
      (\<exists>c \<in> set CREDENTIAL_COMPONENTS. c \<in> set ?L) \<or> (\<exists>s \<in> set CREDENTIAL_SUFFIXES. \<exists>q \<in> set ?L. ends_with q s)"
    using prefixes dotenv components suffixes only pgpass
    unfolding disclosed_patterns disclosed_def set_append bex_Un glob_patterns_below by auto
  also have "\<dots> \<longleftrightarrow> credential_shaped_components path"
  proof -
    have "at_prefix p \<longleftrightarrow> join_slash ?L = p \<or> (case strip_prefix (join_slash ?L) p of None \<Rightarrow> False | Some tail \<Rightarrow> starts_with tail ''/'')"
      if "p \<in> set CREDENTIAL_PREFIXES" for p
      using that literal(1) joined_prefix [OF names, of p] by (auto simp: at_prefix_def list_all_iff)
    then show ?thesis
      using env unfolding credential_shaped_components_def credential_shaped_component_def joined_ascii_lowercase_def Let_def list_ex_iff
      by auto
  qed
  finally show ?thesis by simp
qed

theorem disclosed_patterns_are_the_classification_witness:
  "credential_shaped_components [''Work'', ''TOKEN'', ''x''] \<longleftrightarrow> (\<exists>p \<in> set CREDENTIAL_PATTERNS. glob_matches p [''Work'', ''TOKEN'', ''x''])"
  by (rule disclosed_patterns_are_the_classification) (simp add: entry_names_def)

end
