(* ===== verification/Discovery_Scan.thy ===== *)
theory Discovery_Scan
  imports Discovery_Classes "HOL-Library.AList"
begin

text \<open>
  The metadata scan of discovery, \<open>discovery/scan.rs\<close>, and its snapshots, \<open>discovery/mod.rs\<close>. A scan
  works on observations: for every name of a directory stream the answers to the calls that the
  scanner makes on it. The clock and the reservations of memory answer in the order they are asked.
\<close>

subsection \<open>Class counts (\<open>report.rs\<close>)\<close>

record class_counts =
  cc_configuration :: nat
  cc_data :: nat
  cc_state :: nat
  cc_cache :: nat
  cc_credential_shaped :: nat
  cc_runtime_socket :: nat
  cc_runtime :: nat
  cc_unclassified :: nat

definition class_counts_default :: class_counts where
  "class_counts_default =
     \<lparr>cc_configuration = 0, cc_data = 0, cc_state = 0, cc_cache = 0, cc_credential_shaped = 0, cc_runtime_socket = 0,
      cc_runtime = 0, cc_unclassified = 0\<rparr>"

fun increment :: "class_counts \<Rightarrow> discovery_class \<Rightarrow> class_counts" where
  "increment c ClassConfiguration = c\<lparr>cc_configuration := sat_add (cc_configuration c) 1\<rparr>"
| "increment c ClassData = c\<lparr>cc_data := sat_add (cc_data c) 1\<rparr>"
| "increment c ClassState = c\<lparr>cc_state := sat_add (cc_state c) 1\<rparr>"
| "increment c ClassCache = c\<lparr>cc_cache := sat_add (cc_cache c) 1\<rparr>"
| "increment c ClassCredentialShaped = c\<lparr>cc_credential_shaped := sat_add (cc_credential_shaped c) 1\<rparr>"
| "increment c ClassRuntimeSocket = c\<lparr>cc_runtime_socket := sat_add (cc_runtime_socket c) 1\<rparr>"
| "increment c ClassRuntime = c\<lparr>cc_runtime := sat_add (cc_runtime c) 1\<rparr>"
| "increment c ClassUnclassified = c\<lparr>cc_unclassified := sat_add (cc_unclassified c) 1\<rparr>"

definition class_total :: "class_counts \<Rightarrow> nat" where
  "class_total c =
     sat_add (sat_add (sat_add (sat_add (sat_add (sat_add (sat_add (cc_configuration c) (cc_data c)) (cc_state c)) (cc_cache c))
       (cc_credential_shaped c)) (cc_runtime_socket c)) (cc_runtime c)) (cc_unclassified c)"

definition saturating_add_counts :: "class_counts \<Rightarrow> class_counts \<Rightarrow> class_counts" where
  "saturating_add_counts a b =
     \<lparr>cc_configuration = sat_add (cc_configuration a) (cc_configuration b), cc_data = sat_add (cc_data a) (cc_data b),
      cc_state = sat_add (cc_state a) (cc_state b), cc_cache = sat_add (cc_cache a) (cc_cache b),
      cc_credential_shaped = sat_add (cc_credential_shaped a) (cc_credential_shaped b),
      cc_runtime_socket = sat_add (cc_runtime_socket a) (cc_runtime_socket b),
      cc_runtime = sat_add (cc_runtime a) (cc_runtime b), cc_unclassified = sat_add (cc_unclassified a) (cc_unclassified b)\<rparr>"

subsection \<open>Limits, identities and snapshots (\<open>mod.rs\<close>)\<close>

record discovery_limits =
  dl_entries :: nat
  dl_depth :: nat
  dl_relative_path_bytes :: nat
  dl_phase_milliseconds :: nat
  dl_pending_name_bytes :: nat

definition MAXIMUM_DEPTH :: nat where "MAXIMUM_DEPTH = 256"

definition DISCOVERY_ALPHA :: discovery_limits where
  "DISCOVERY_ALPHA =
     \<lparr>dl_entries = 262144, dl_depth = 64, dl_relative_path_bytes = 4096, dl_phase_milliseconds = 5000,
      dl_pending_name_bytes = 16 * 1024 * 1024\<rparr>"

record entry_identity =
  ei_kind :: nat
  ei_device :: nat
  ei_inode :: nat
  ei_mode :: nat
  ei_uid :: nat
  ei_gid :: nat
  ei_links :: nat
  ei_size :: int
  ei_modified_seconds :: int
  ei_modified_nanoseconds :: int
  ei_changed_seconds :: int
  ei_changed_nanoseconds :: int

definition identity_from_stat :: "file_stat \<Rightarrow> entry_identity" where
  "identity_from_stat m =
     \<lparr>ei_kind = s_kind (st_mode m), ei_device = st_dev m, ei_inode = st_ino m, ei_mode = st_mode m AND 4095, ei_uid = st_uid m,
      ei_gid = st_gid m, ei_links = st_nlink m, ei_size = st_size m, ei_modified_seconds = st_mtime m,
      ei_modified_nanoseconds = st_mtime_nsec m, ei_changed_seconds = st_ctime m, ei_changed_nanoseconds = st_ctime_nsec m\<rparr>"

definition same_object :: "entry_identity \<Rightarrow> entry_identity \<Rightarrow> bool" where
  "same_object a b \<longleftrightarrow> ei_kind a = ei_kind b \<and> ei_device a = ei_device b \<and> ei_inode a = ei_inode b"

record entry_record =
  er_class :: discovery_class
  er_identity :: entry_identity

record root_identity =
  ri_device :: nat
  ri_inode :: nat
  ri_kind :: nat
  ri_uid :: nat
  ri_gid :: nat

definition root_identity_from_stat :: "file_stat \<Rightarrow> root_identity" where
  "root_identity_from_stat m =
     \<lparr>ri_device = st_dev m, ri_inode = st_ino m, ri_kind = s_kind (st_mode m), ri_uid = st_uid m, ri_gid = st_gid m\<rparr>"

text \<open>The entries by their keys, as an association list with one pair for each key.\<close>

record snapshot =
  sn_entries :: "(string \<times> entry_record) list"
  sn_roots :: "discovery_selector \<Rightarrow> nat option"
  sn_root_identities :: "discovery_selector \<Rightarrow> root_identity option"
  sn_root_complete :: "discovery_selector \<Rightarrow> bool option"
  sn_root_bounds_exceeded :: "discovery_selector \<Rightarrow> bool option"
  sn_complete :: bool
  sn_bounds_exceeded :: bool
  sn_unreadable_directories :: nat
  sn_unreadable_classes :: class_counts
  sn_unstable_entries :: nat
  sn_foreign_owned :: nat
  sn_non_local_filesystems :: nat
  sn_metadata_errors :: nat
  sn_entry_key_collisions :: nat

definition snapshot_default :: snapshot where
  "snapshot_default =
     \<lparr>sn_entries = [], sn_roots = Map.empty, sn_root_identities = Map.empty, sn_root_complete = Map.empty,
      sn_root_bounds_exceeded = Map.empty, sn_complete = True, sn_bounds_exceeded = False, sn_unreadable_directories = 0,
      sn_unreadable_classes = class_counts_default, sn_unstable_entries = 0, sn_foreign_owned = 0, sn_non_local_filesystems = 0,
      sn_metadata_errors = 0, sn_entry_key_collisions = 0\<rparr>"

definition stalled_snapshot :: "discovery_selector list \<Rightarrow> snapshot" where
  "stalled_snapshot selectors =
     foldl (\<lambda>sn s. sn\<lparr>sn_root_complete := (sn_root_complete sn)(s \<mapsto> False), sn_root_bounds_exceeded := (sn_root_bounds_exceeded sn)(s \<mapsto> True)\<rparr>)
       (snapshot_default\<lparr>sn_complete := False, sn_bounds_exceeded := True\<rparr>) selectors"

subsection \<open>What a scan observes\<close>

text \<open>
  \<open>SysNotFound\<close> of a lookup stands for \<open>ENOENT\<close>, \<open>ELOOP\<close> and \<open>ENOTDIR\<close>, which the scanner does not tell
  apart. \<open>nd_local\<close> is the answer of \<open>filesystem_is_local\<close>, \<open>nd_stream\<close> tells whether the stream ended
  without an error.
\<close>

datatype directory_open = DirectoryOpened | DirectoryDenied | DirectoryMoved | DirectoryFails

datatype node =
  Node (nd_name: string) (nd_stat: "file_stat sys") (nd_open: directory_open) (nd_opened: "file_stat sys") (nd_local: "bool sys")
    (nd_listing: "node list") (nd_stream: bool) (nd_after: "file_stat sys")

record root_obs =
  ro_open :: "unit sys"
  ro_stat :: "file_stat sys"
  ro_listing :: "node list"
  ro_stream :: bool
  ro_after :: "file_stat sys"
  ro_elapsed :: "nat \<Rightarrow> nat"
  ro_reserve :: "nat \<Rightarrow> bool"
  ro_merge :: bool

fun node_weight :: "node \<Rightarrow> nat" where
  "node_weight (Node n s d opened l listing stream a) = Suc (sum_list (map node_weight listing))"

definition node_weights :: "node list \<Rightarrow> nat" where
  "node_weights ns = sum_list (map node_weight ns)"

lemma node_weights_simps [simp]: "node_weights [] = 0" "node_weights (n # ns) = node_weight n + node_weights ns"
  "node_weights (ms @ ns) = node_weights ms + node_weights ns"
  by (simp_all add: node_weights_def)

lemma node_weight_pos: "0 < node_weight n"
  by (cases n) simp

lemma node_weight_listing: "node_weights (nd_listing n) < node_weight n"
  by (cases n) (simp add: node_weights_def)

subsection \<open>The scanner\<close>

record scan_env =
  se_uid :: nat
  se_limits :: discovery_limits
  se_caches :: "string list"
  se_hash :: "string \<Rightarrow> string"
  se_elapsed :: "nat \<Rightarrow> nat"
  se_reserve :: "nat \<Rightarrow> bool"

record scanner =
  sc_snapshot :: snapshot
  sc_pending_names :: nat
  sc_pending_name_bytes :: nat
  sc_asked :: nat
  sc_reserved :: nat

definition scanner_new :: scanner where
  "scanner_new = \<lparr>sc_snapshot = snapshot_default, sc_pending_names = 0, sc_pending_name_bytes = 0, sc_asked = 0, sc_reserved = 0\<rparr>"

definition on_snapshot :: "(snapshot \<Rightarrow> snapshot) \<Rightarrow> scanner \<Rightarrow> scanner" where
  "on_snapshot f sc = sc\<lparr>sc_snapshot := f (sc_snapshot sc)\<rparr>"

definition timed_out :: "scan_env \<Rightarrow> scanner \<Rightarrow> bool \<times> scanner" where
  "timed_out env sc = (dl_phase_milliseconds (se_limits env) \<le> se_elapsed env (sc_asked sc), sc\<lparr>sc_asked := Suc (sc_asked sc)\<rparr>)"

definition try_reserve :: "scan_env \<Rightarrow> string \<Rightarrow> scanner \<Rightarrow> scanner result" where
  "try_reserve env action sc =
     (if se_reserve env (sc_reserved sc) then Ok (sc\<lparr>sc_reserved := Suc (sc_reserved sc)\<rparr>) else Err ResourceLimit action)"

definition exceed_bounds :: "snapshot \<Rightarrow> snapshot" where
  "exceed_bounds sn = sn\<lparr>sn_bounds_exceeded := True, sn_complete := False\<rparr>"

definition count_unstable :: "snapshot \<Rightarrow> snapshot" where
  "count_unstable sn = sn\<lparr>sn_unstable_entries := sat_add (sn_unstable_entries sn) 1, sn_complete := False\<rparr>"

definition count_metadata_error :: "snapshot \<Rightarrow> snapshot" where
  "count_metadata_error sn = sn\<lparr>sn_metadata_errors := sat_add (sn_metadata_errors sn) 1, sn_complete := False\<rparr>"

definition count_non_local :: "snapshot \<Rightarrow> snapshot" where
  "count_non_local sn = sn\<lparr>sn_non_local_filesystems := sat_add (sn_non_local_filesystems sn) 1, sn_complete := False\<rparr>"

text \<open>\<open>entry_key\<close>: the hash of the selector and of every component behind its length in little-endian order.\<close>

definition le_u64 :: "nat \<Rightarrow> string" where
  "le_u64 n = rev (be_bytes 8 n)"

definition entry_key_bytes :: "discovery_selector \<Rightarrow> string list \<Rightarrow> string" where
  "entry_key_bytes selector path =
     ''quarters-discovery-entry-v1'' @ [CHR 0x00] @ selector_str selector @
     concat (map (\<lambda>component. le_u64 (min (length component) u64_max) @ component) path)"

definition entry_key :: "(string \<Rightarrow> string) \<Rightarrow> discovery_selector \<Rightarrow> string list \<Rightarrow> string" where
  "entry_key hash selector path = hash (entry_key_bytes selector path)"

definition record_entry :: "scan_env \<Rightarrow> discovery_selector \<Rightarrow> string list \<Rightarrow> file_stat \<Rightarrow> scanner \<Rightarrow> scanner result" where
  "record_entry env selector path m sc =
     (let sc = (if st_uid m \<noteq> se_uid env
                then on_snapshot (\<lambda>sn. sn\<lparr>sn_foreign_owned := sat_add (sn_foreign_owned sn) 1\<rparr>) sc else sc) in
      rbind (try_reserve env ''could not reserve bounded discovery entries'' sc) (\<lambda>sc.
      let key = entry_key (se_hash env) selector path;
          entry = \<lparr>er_class = classify (se_caches env) selector path (st_mode m), er_identity = identity_from_stat m\<rparr>;
          collision = (map_of (sn_entries (sc_snapshot sc)) key \<noteq> None);
          sc = on_snapshot (\<lambda>sn. sn\<lparr>sn_entries := AList.update key entry (sn_entries sn)\<rparr>) sc
      in Ok (if collision
             then on_snapshot (\<lambda>sn. sn\<lparr>sn_entry_key_collisions := sat_add (sn_entry_key_collisions sn) 1, sn_complete := False\<rparr>) sc
             else sc)))"

fun read_names :: "scan_env \<Rightarrow> nat \<Rightarrow> node list \<Rightarrow> bool \<Rightarrow> node list \<Rightarrow> scanner \<Rightarrow> (node list \<times> scanner) result" where
  "read_names env remaining [] stream names sc =
     Ok (names, if stream then sc else on_snapshot count_metadata_error sc)"
| "read_names env remaining (n # rest) stream names sc =
     (if nd_name n = ''.'' \<or> nd_name n = ''..'' then read_names env remaining rest stream names sc
      else
        (let name_bytes = length (nd_name n); (late, sc) = timed_out env sc;
             exceeds_entries = remaining \<le> length names;
             exceeds_name_bytes = dl_pending_name_bytes (se_limits env) < sat_add (sc_pending_name_bytes sc) name_bytes
         in if late \<or> exceeds_entries \<or> exceeds_name_bytes then Ok (names, on_snapshot exceed_bounds sc)
            else rbind (try_reserve env ''could not reserve bounded discovery names'' sc) (\<lambda>sc.
              read_names env remaining rest stream (names @ [n])
                (sc\<lparr>sc_pending_names := sat_add (sc_pending_names sc) 1,
                    sc_pending_name_bytes := sat_add (sc_pending_name_bytes sc) name_bytes\<rparr>))))"

definition scan_names :: "scan_env \<Rightarrow> node list \<Rightarrow> bool \<Rightarrow> scanner \<Rightarrow> (node list \<times> scanner) result" where
  "scan_names env listing stream sc =
     (if sn_bounds_exceeded (sc_snapshot sc) then Ok ([], sc)
      else
        (let recorded = length (sn_entries (sc_snapshot sc));
             remaining = dl_entries (se_limits env) - sat_add recorded (sc_pending_names sc)
         in rbind (try_reserve env ''could not reserve bounded discovery memory'' sc) (\<lambda>sc.
            read_names env remaining listing stream [] sc)))"

definition release_pending_name :: "string \<Rightarrow> scanner \<Rightarrow> scanner" where
  "release_pending_name name sc =
     sc\<lparr>sc_pending_names := sc_pending_names sc - 1, sc_pending_name_bytes := sc_pending_name_bytes sc - length name\<rparr>"

definition limit_reached :: "scan_env \<Rightarrow> string list \<Rightarrow> string \<Rightarrow> nat \<Rightarrow> scanner \<Rightarrow> bool \<times> scanner" where
  "limit_reached env parent name depth sc =
     (let path_bytes = sum_list (map (\<lambda>value. length value + 1) parent) + length name; (late, sc) = timed_out env sc; l = se_limits env;
          exceeded = (sn_bounds_exceeded (sc_snapshot sc) \<or> dl_entries l \<le> length (sn_entries (sc_snapshot sc)) \<or>
            dl_depth l < min (depth + 1) u32_max \<or> dl_relative_path_bytes l < path_bytes \<or> late)
      in (exceeded, if exceeded then on_snapshot exceed_bounds sc else sc))"

definition note_unreadable :: "scan_env \<Rightarrow> discovery_selector \<Rightarrow> string list \<Rightarrow> nat \<Rightarrow> snapshot \<Rightarrow> snapshot" where
  "note_unreadable env selector path mode sn =
     sn\<lparr>sn_unreadable_directories := sat_add (sn_unreadable_directories sn) 1,
        sn_unreadable_classes := increment (sn_unreadable_classes sn) (classify (se_caches env) selector path mode), sn_complete := False\<rparr>"

text \<open>\<open>mount_is_local\<close>: a directory on its parent's filesystem is traversed without asking.\<close>

definition mount_is_local :: "nat \<Rightarrow> file_stat \<Rightarrow> bool sys \<Rightarrow> bool sys" where
  "mount_is_local parent_device opened is_local = (if st_dev opened = parent_device then SysOk True else is_local)"

definition may_traverse :: "nat \<Rightarrow> file_stat \<Rightarrow> bool sys \<Rightarrow> scanner \<Rightarrow> bool \<times> scanner" where
  "may_traverse parent_device opened is_local sc =
     (case mount_is_local parent_device opened is_local of
        SysOk True \<Rightarrow> (True, sc)
      | SysOk False \<Rightarrow> (False, on_snapshot count_non_local sc)
      | _ \<Rightarrow> (False, on_snapshot count_metadata_error sc))"

definition recheck_directory :: "file_stat sys \<Rightarrow> entry_identity \<Rightarrow> scanner \<Rightarrow> scanner" where
  "recheck_directory after expected sc =
     (case after of
        SysOk m \<Rightarrow> if identity_from_stat m = expected then sc else on_snapshot count_unstable sc
      | _ \<Rightarrow> on_snapshot count_metadata_error sc)"

text \<open>What \<open>visit_directory\<close> does before it walks: whether to enter, and the metadata of the opened directory.\<close>

definition enter_child ::
  "scan_env \<Rightarrow> discovery_selector \<Rightarrow> node \<Rightarrow> string list \<Rightarrow> nat \<Rightarrow> file_stat \<Rightarrow> scanner \<Rightarrow> file_stat option \<times> scanner" where
  "enter_child env selector n path device m sc =
     (if st_mode m AND 320 \<noteq> 320 then (None, on_snapshot (note_unreadable env selector path (st_mode m)) sc)
      else
        (case nd_open n of
           DirectoryDenied \<Rightarrow> (None, on_snapshot (note_unreadable env selector path (st_mode m)) sc)
         | DirectoryMoved \<Rightarrow> (None, on_snapshot count_unstable sc)
         | DirectoryFails \<Rightarrow> (None, on_snapshot count_metadata_error sc)
         | DirectoryOpened \<Rightarrow>
             (case nd_opened n of
                SysOk opened \<Rightarrow>
                  if \<not> (identity_from_stat opened = identity_from_stat m \<and> is_dir opened) then (None, on_snapshot count_unstable sc)
                  else
                    (case may_traverse device opened (nd_local n) sc of
                       (True, sc) \<Rightarrow> (Some opened, sc)
                     | (False, sc) \<Rightarrow> (None, sc))
              | _ \<Rightarrow> (None, on_snapshot count_metadata_error sc))))"

lemma read_names_weight:
  "read_names env remaining listing stream names sc = Ok (ns, sc') \<Longrightarrow> node_weights ns \<le> node_weights names + node_weights listing"
  by (induction env remaining listing stream names sc rule: read_names.induct)
    (fastforce simp: result_simps timed_out_def Let_def split: if_splits)+

lemma scan_names_weight: "scan_names env listing stream sc = Ok (ns, sc') \<Longrightarrow> node_weights ns \<le> node_weights listing"
  using read_names_weight by (fastforce simp: scan_names_def result_simps Let_def split: if_splits)

text \<open>The loop of \<open>walk\<close> over the names it has read; a directory is walked before the names after it.\<close>

function visit_entries ::
  "scan_env \<Rightarrow> discovery_selector \<Rightarrow> string list \<Rightarrow> nat \<Rightarrow> nat \<Rightarrow> node list \<Rightarrow> scanner \<Rightarrow> scanner result" where
  "visit_entries env selector relative depth device [] sc = Ok sc"
| "visit_entries env selector relative depth device (n # ns) sc =
     (case limit_reached env relative (nd_name n) depth (release_pending_name (nd_name n) sc) of
        (True, sc) \<Rightarrow> Ok sc
      | (False, sc) \<Rightarrow>
          (case nd_stat n of
             SysNotFound \<Rightarrow> visit_entries env selector relative depth device ns (on_snapshot count_unstable sc)
           | SysFail \<Rightarrow> visit_entries env selector relative depth device ns (on_snapshot count_metadata_error sc)
           | SysOk m \<Rightarrow>
               (let path = relative @ [nd_name n] in
                rbind (record_entry env selector path m sc) (\<lambda>sc.
                rbind (if is_dir m
                       then (case enter_child env selector n path device m sc of
                               (None, sc) \<Rightarrow> Ok sc
                             | (Some opened, sc) \<Rightarrow>
                                 rbind (scan_names env (nd_listing n) (nd_stream n) sc) (\<lambda>(names, sc).
                                 rbind (visit_entries env selector path (min (depth + 1) u32_max) (st_dev opened) names sc) (\<lambda>sc.
                                 Ok (recheck_directory (nd_after n) (identity_from_stat m) sc))))
                       else Ok sc) (\<lambda>sc.
                visit_entries env selector relative depth device ns sc)))))"
  by pat_completeness auto
termination
  by (relation "measure (\<lambda>(env, selector, relative, depth, device, ns, sc). node_weights ns)")
    (auto dest!: scan_names_weight intro: le_less_trans [OF _ trans_less_add1 [OF node_weight_listing]]
      simp: add_pos_nonneg node_weight_pos)

declare visit_entries.simps(2) [simp del]

definition walk :: "scan_env \<Rightarrow> discovery_selector \<Rightarrow> string list \<Rightarrow> nat \<Rightarrow> nat \<Rightarrow> node list \<Rightarrow> bool \<Rightarrow> scanner \<Rightarrow> scanner result" where
  "walk env selector relative depth device listing stream sc =
     rbind (scan_names env listing stream sc) (\<lambda>(names, sc). visit_entries env selector relative depth device names sc)"

subsection \<open>Roots\<close>

definition open_discovery_root :: "nat \<Rightarrow> root_obs \<Rightarrow> (root_identity \<times> entry_identity \<times> nat) result" where
  "open_discovery_root uid root =
     rbind (case ro_open root of SysOk _ \<Rightarrow> Ok () | _ \<Rightarrow> Err SystemError ''could not open the discovery root'') (\<lambda>_.
     rbind (case ro_stat root of SysOk m \<Rightarrow> Ok m | _ \<Rightarrow> Err SystemError ''could not open the discovery root'') (\<lambda>m.
     let private_mode = mode_bits (st_mode m) = 448 in
     if is_dir m \<and> st_uid m = uid \<and> private_mode then Ok (root_identity_from_stat m, identity_from_stat m, st_dev m)
     else Err CorruptState ''the discovery root is not a private current-user directory''))"

definition merge_entry :: "snapshot \<Rightarrow> string \<times> entry_record \<Rightarrow> snapshot" where
  "merge_entry sn entry =
     (let collision = (map_of (sn_entries sn) (fst entry) \<noteq> None);
          sn = sn\<lparr>sn_entries := AList.update (fst entry) (snd entry) (sn_entries sn)\<rparr>
      in if collision then sn\<lparr>sn_entry_key_collisions := sat_add (sn_entry_key_collisions sn) 1, sn_complete := False\<rparr> else sn)"

definition merge_snapshot :: "bool \<Rightarrow> snapshot \<Rightarrow> snapshot \<Rightarrow> snapshot result" where
  "merge_snapshot reserved combined part =
     (if \<not> reserved then Err ResourceLimit ''could not reserve combined discovery entries''
      else
        (let c = foldl merge_entry combined (sn_entries part) in
         Ok (c\<lparr>sn_roots := sn_roots c ++ sn_roots part,
               sn_root_identities := sn_root_identities c ++ sn_root_identities part,
               sn_root_complete := sn_root_complete c ++ sn_root_complete part,
               sn_root_bounds_exceeded := sn_root_bounds_exceeded c ++ sn_root_bounds_exceeded part,
               sn_complete := sn_complete c \<and> sn_complete part,
               sn_bounds_exceeded := sn_bounds_exceeded c \<or> sn_bounds_exceeded part,
               sn_unreadable_directories := sat_add (sn_unreadable_directories c) (sn_unreadable_directories part),
               sn_unreadable_classes := saturating_add_counts (sn_unreadable_classes c) (sn_unreadable_classes part),
               sn_unstable_entries := sat_add (sn_unstable_entries c) (sn_unstable_entries part),
               sn_foreign_owned := sat_add (sn_foreign_owned c) (sn_foreign_owned part),
               sn_non_local_filesystems := sat_add (sn_non_local_filesystems c) (sn_non_local_filesystems part),
               sn_metadata_errors := sat_add (sn_metadata_errors c) (sn_metadata_errors part),
               sn_entry_key_collisions := sat_add (sn_entry_key_collisions c) (sn_entry_key_collisions part)\<rparr>)))"

text \<open>What is the same for every root of a scan.\<close>

record scan_setup =
  su_uid :: nat
  su_limits :: discovery_limits
  su_caches :: "string list"
  su_hash :: "string \<Rightarrow> string"

definition root_env :: "scan_setup \<Rightarrow> root_obs \<Rightarrow> scan_env" where
  "root_env cfg root =
     \<lparr>se_uid = su_uid cfg, se_limits = su_limits cfg, se_caches = su_caches cfg, se_hash = su_hash cfg,
      se_elapsed = ro_elapsed root, se_reserve = ro_reserve root\<rparr>"

definition scan_root_with :: "scan_setup \<Rightarrow> discovery_selector \<Rightarrow> root_obs \<Rightarrow> snapshot result" where
  "scan_root_with cfg selector root =
     rbind (open_discovery_root (su_uid cfg) root) (\<lambda>(identity, expected, device).
     let sc = on_snapshot (\<lambda>sn. sn\<lparr>sn_root_identities := (sn_root_identities sn)(selector \<mapsto> identity)\<rparr>) scanner_new in
     rbind (walk (root_env cfg root) selector [] 0 device (ro_listing root) (ro_stream root) sc) (\<lambda>sc.
     let sn = sc_snapshot (recheck_directory (ro_after root) expected sc) in
     Ok (sn\<lparr>sn_roots := (sn_roots sn)(selector \<mapsto> length (sn_entries sn)),
            sn_root_complete := (sn_root_complete sn)(selector \<mapsto> sn_complete sn),
            sn_root_bounds_exceeded := (sn_root_bounds_exceeded sn)(selector \<mapsto> sn_bounds_exceeded sn)\<rparr>)))"

definition scan_one :: "scan_setup \<Rightarrow> snapshot \<Rightarrow> discovery_selector \<times> root_obs \<Rightarrow> snapshot result" where
  "scan_one cfg combined entry =
     rbind (scan_root_with cfg (fst entry) (snd entry)) (\<lambda>part. merge_snapshot (ro_merge (snd entry)) combined part)"

definition scan :: "scan_setup \<Rightarrow> (discovery_selector \<times> root_obs) list \<Rightarrow> snapshot result" where
  "scan cfg roots = rfold (scan_one cfg) snapshot_default roots"

text \<open>\<open>sort_unstable\<close> and \<open>dedup\<close> of the selectors: the home before the runtime.\<close>

definition unique_selectors :: "discovery_selector list \<Rightarrow> discovery_selector list" where
  "unique_selectors selectors = filter (\<lambda>s. s \<in> set selectors) [SelectHome, SelectRuntime]"

text \<open>How the worker thread went: whether it started, and whether it answered before the deadline.\<close>

datatype worker = WorkerFails | WorkerStalls | WorkerAnswers

definition take_snapshot ::
  "scan_setup \<Rightarrow> (discovery_selector \<Rightarrow> root_obs) \<Rightarrow> worker \<Rightarrow> discovery_selector list \<Rightarrow> snapshot result" where
  "take_snapshot cfg observe worker selectors =
     (if MAXIMUM_DEPTH < dl_depth (su_limits cfg) then Err InvalidInput ''discovery depth exceeds the supported maximum''
      else
        (let unique = unique_selectors selectors in
         case worker of
           WorkerFails \<Rightarrow> Err SystemError ''could not start the discovery scan''
         | WorkerStalls \<Rightarrow> Ok (stalled_snapshot unique)
         | WorkerAnswers \<Rightarrow> scan cfg (map (\<lambda>s. (s, observe s)) unique)))"

end
