(* ===== verification/Discovery_Report.thy ===== *)
theory Discovery_Report
  imports Discovery_Scan
begin

text \<open>
  The comparison of two snapshots, \<open>diff\<close> of \<open>discovery/mod.rs\<close>, and the report of one discovery,
  \<open>discovery/report.rs\<close>. The constant texts of a report (disclosures, limitations) are left out.
\<close>

record discovery_delta =
  dd_created :: class_counts
  dd_modified :: class_counts
  dd_replaced :: class_counts
  dd_deleted :: class_counts

definition discovery_delta_default :: discovery_delta where
  "discovery_delta_default =
     \<lparr>dd_created = class_counts_default, dd_modified = class_counts_default, dd_replaced = class_counts_default,
      dd_deleted = class_counts_default\<rparr>"

definition diff_after :: "(string \<times> entry_record) list \<Rightarrow> discovery_delta \<Rightarrow> string \<times> entry_record \<Rightarrow> discovery_delta" where
  "diff_after pre delta entry =
     (case map_of pre (fst entry) of
        None \<Rightarrow> delta\<lparr>dd_created := increment (dd_created delta) (er_class (snd entry))\<rparr>
      | Some before \<Rightarrow>
          if er_identity before = er_identity (snd entry) then delta
          else if same_object (er_identity before) (er_identity (snd entry))
          then delta\<lparr>dd_modified := increment (dd_modified delta) (er_class (snd entry))\<rparr>
          else delta\<lparr>dd_replaced := increment (dd_replaced delta) (er_class (snd entry))\<rparr>)"

definition diff_before :: "(string \<times> entry_record) list \<Rightarrow> discovery_delta \<Rightarrow> string \<times> entry_record \<Rightarrow> discovery_delta" where
  "diff_before post delta entry =
     (if map_of post (fst entry) = None then delta\<lparr>dd_deleted := increment (dd_deleted delta) (er_class (snd entry))\<rparr> else delta)"

definition snapshot_diff :: "snapshot \<Rightarrow> snapshot \<Rightarrow> discovery_delta" where
  "snapshot_diff pre post =
     foldl (diff_before (sn_entries post)) (foldl (diff_after (sn_entries pre)) discovery_delta_default (sn_entries post)) (sn_entries pre)"

record discovery_totals =
  dt_created :: nat
  dt_modified :: nat
  dt_replaced :: nat
  dt_deleted :: nat

definition totals_of_delta :: "discovery_delta \<Rightarrow> discovery_totals" where
  "totals_of_delta delta =
     \<lparr>dt_created = class_total (dd_created delta), dt_modified = class_total (dd_modified delta),
      dt_replaced = class_total (dd_replaced delta), dt_deleted = class_total (dd_deleted delta)\<rparr>"

record discovery_child =
  dc_exit_code :: "int option"
  dc_signal :: "int option"

record discovery_root_report =
  rr_selector :: discovery_selector
  rr_entries_pre :: nat
  rr_entries_post :: "nat option"
  rr_complete_pre :: bool
  rr_complete_post :: "bool option"
  rr_bounds_exceeded_pre :: bool
  rr_bounds_exceeded_post :: "bool option"

record discovery_observation =
  ob_unreadable_directories :: nat
  ob_unreadable_classes :: class_counts
  ob_unstable_entries :: nat
  ob_foreign_owned :: nat
  ob_non_local_filesystems :: nat
  ob_root_identity_changed :: bool
  ob_metadata_errors :: nat
  ob_entry_key_collisions :: nat

record discovery_report =
  dr_space :: string
  dr_state :: string
  dr_complete :: bool
  dr_child :: discovery_child
  dr_roots :: "discovery_root_report list"
  dr_delta :: "discovery_delta option"
  dr_totals :: "discovery_totals option"
  dr_observation :: discovery_observation
  dr_limits :: discovery_limits

definition unwrap_or :: "'a \<Rightarrow> 'a option \<Rightarrow> 'a" where
  "unwrap_or d x = (case x of None \<Rightarrow> d | Some y \<Rightarrow> y)"

definition root_report :: "snapshot \<Rightarrow> snapshot option \<Rightarrow> discovery_selector \<Rightarrow> discovery_root_report option" where
  "root_report pre post selector =
     map_option (\<lambda>count.
       \<lparr>rr_selector = selector, rr_entries_pre = count, rr_entries_post = Option.bind post (\<lambda>value. sn_roots value selector),
        rr_complete_pre = unwrap_or False (sn_root_complete pre selector),
        rr_complete_post = Option.bind post (\<lambda>value. sn_root_complete value selector),
        rr_bounds_exceeded_pre = unwrap_or True (sn_root_bounds_exceeded pre selector),
        rr_bounds_exceeded_post = Option.bind post (\<lambda>value. sn_root_bounds_exceeded value selector)\<rparr>) (sn_roots pre selector)"

definition post_count :: "snapshot option \<Rightarrow> (snapshot \<Rightarrow> nat) \<Rightarrow> nat" where
  "post_count post f = (case post of None \<Rightarrow> 0 | Some value \<Rightarrow> f value)"

definition post_is :: "snapshot option \<Rightarrow> (snapshot \<Rightarrow> bool) \<Rightarrow> bool" where
  "post_is post P = (case post of None \<Rightarrow> False | Some value \<Rightarrow> P value)"

definition discovery_report_of ::
  "string \<Rightarrow> snapshot \<Rightarrow> snapshot option \<Rightarrow> discovery_child \<Rightarrow> discovery_limits \<Rightarrow> discovery_report" where
  "discovery_report_of space pre post child limits =
     (let post_failed = (post = None);
          bounds_exceeded = (sn_bounds_exceeded pre \<or> post_is post sn_bounds_exceeded);
          root_identity_changed = post_is post (\<lambda>value. list_ex (\<lambda>s. sn_root_identities pre s \<noteq> sn_root_identities value s) [SelectHome, SelectRuntime]);
          observation_gap = (\<not> sn_complete pre \<or> post_is post (\<lambda>value. \<not> sn_complete value) \<or> root_identity_changed);
          delta = (case post of
             Some value \<Rightarrow> if \<not> bounds_exceeded \<and> \<not> observation_gap then Some (snapshot_diff pre value) else None
           | None \<Rightarrow> None);
          complete = post_is post (\<lambda>value. sn_complete pre \<and> sn_complete value \<and> \<not> bounds_exceeded \<and> \<not> root_identity_changed);
          state = (if post_failed then ''post-scan-failed'' else if bounds_exceeded then ''bounds-exceeded''
             else if root_identity_changed then ''root-identity-changed'' else if observation_gap then ''observation-gap'' else ''measured'')
      in \<lparr>dr_space = space, dr_state = state, dr_complete = complete, dr_child = child,
          dr_roots = List.map_filter (root_report pre post) [SelectHome, SelectRuntime],
          dr_delta = delta, dr_totals = map_option totals_of_delta delta,
          dr_observation =
            \<lparr>ob_unreadable_directories = sat_add (sn_unreadable_directories pre) (post_count post sn_unreadable_directories),
             ob_unreadable_classes =
               (case post of None \<Rightarrow> sn_unreadable_classes pre
                | Some value \<Rightarrow> saturating_add_counts (sn_unreadable_classes pre) (sn_unreadable_classes value)),
             ob_unstable_entries = sat_add (sn_unstable_entries pre) (post_count post sn_unstable_entries),
             ob_foreign_owned = sat_add (sn_foreign_owned pre) (post_count post sn_foreign_owned),
             ob_non_local_filesystems = sat_add (sn_non_local_filesystems pre) (post_count post sn_non_local_filesystems),
             ob_root_identity_changed = root_identity_changed,
             ob_metadata_errors = sat_add (sn_metadata_errors pre) (post_count post sn_metadata_errors),
             ob_entry_key_collisions = sat_add (sn_entry_key_collisions pre) (post_count post sn_entry_key_collisions)\<rparr>,
          dr_limits = limits\<rparr>)"

end
