(* ===== verification/Discovery_Properties.thy ===== *)
theory Discovery_Properties
  imports Discovery_Report
begin

text \<open>
  What a discovery measures. A walk that ends with a complete snapshot has recorded exactly the
  entries of a tree that held still; a stable tree within the limits gives such a snapshot; whatever
  is observed, the snapshot stays within the limits; and a published delta is the exact difference of
  two trees.
\<close>

subsection \<open>The tree behind the observations\<close>

definition proper :: "node list \<Rightarrow> node list" where
  "proper ns = filter (\<lambda>n. \<not> (nd_name n = ''.'' \<or> nd_name n = ''..'')) ns"

lemma proper_simps [simp]:
  "proper [] = []" "proper (n # ns) = (if nd_name n = ''.'' \<or> nd_name n = ''..'' then proper ns else n # proper ns)"
  by (simp_all add: proper_def)

lemma proper_weight: "node_weights (proper ns) \<le> node_weights ns"
  by (induction ns) auto

lemma proper_listing_weight: "node_weights (proper (nd_listing n)) < node_weight n + k"
  using proper_weight [of "nd_listing n"] node_weight_listing [of n] by simp

function tree_entries :: "string list \<Rightarrow> node list \<Rightarrow> (string list \<times> file_stat) list" where
  "tree_entries relative [] = []"
| "tree_entries relative (n # ns) =
     (case nd_stat n of
        SysOk m \<Rightarrow>
          (relative @ [nd_name n], m) # (if is_dir m then tree_entries (relative @ [nd_name n]) (proper (nd_listing n)) else [])
      | _ \<Rightarrow> []) @ tree_entries relative ns"
  by pat_completeness auto
termination
  by (relation "measure (\<lambda>(relative, ns). node_weights ns)")
    (auto intro: proper_listing_weight simp: node_weight_pos)

declare tree_entries.simps(2) [simp del]

text \<open>
  An observation of a tree that held still: every name could be inspected; every directory is readable by
  its owner, was opened as the entry that was seen, is on a local filesystem, was listed to its end and
  looked the same afterwards.
\<close>

function clean :: "nat \<Rightarrow> node list \<Rightarrow> bool" where
  "clean device [] = True"
| "clean device (n # ns) \<longleftrightarrow>
     (case nd_stat n of
        SysOk m \<Rightarrow>
          is_dir m \<longrightarrow>
            st_mode m AND 320 = 320 \<and> nd_open n = DirectoryOpened \<and>
            (case nd_opened n of
               SysOk opened \<Rightarrow>
                 identity_from_stat opened = identity_from_stat m \<and> is_dir opened \<and>
                 mount_is_local device opened (nd_local n) = SysOk True \<and> clean (st_dev opened) (proper (nd_listing n))
             | _ \<Rightarrow> False) \<and>
            nd_stream n \<and> (case nd_after n of SysOk after \<Rightarrow> identity_from_stat after = identity_from_stat m | _ \<Rightarrow> False)
      | _ \<Rightarrow> False) \<and> clean device ns"
  by pat_completeness auto
termination
  by (relation "measure (\<lambda>(device, ns). node_weights ns)")
    (auto intro: proper_listing_weight simp: node_weight_pos)

declare clean.simps(2) [simp del]

definition recorded :: "scan_env \<Rightarrow> discovery_selector \<Rightarrow> string list \<times> file_stat \<Rightarrow> string \<times> entry_record" where
  "recorded env selector entry =
     (entry_key (se_hash env) selector (fst entry),
      \<lparr>er_class = classify (se_caches env) selector (fst entry) (st_mode (snd entry)), er_identity = identity_from_stat (snd entry)\<rparr>)"

subsection \<open>Steps of a scanner\<close>

abbreviation complete :: "scanner \<Rightarrow> bool" where "complete sc \<equiv> sn_complete (sc_snapshot sc)"
abbreviation entries :: "scanner \<Rightarrow> (string \<times> entry_record) list" where "entries sc \<equiv> sn_entries (sc_snapshot sc)"

definition consistent :: "scanner \<Rightarrow> bool" where
  "consistent sc \<longleftrightarrow> (sn_bounds_exceeded (sc_snapshot sc) \<longrightarrow> \<not> complete sc)"

text \<open>
  A step that, when the snapshot is complete after it, has appended the given entries, was taken from a complete
  snapshot and had a condition satisfied.
\<close>

definition extends :: "scanner \<Rightarrow> (string \<times> entry_record) list \<Rightarrow> bool \<Rightarrow> scanner \<Rightarrow> bool" where
  "extends sc es ok sc' \<longleftrightarrow>
     (consistent sc \<longrightarrow> consistent sc' \<and> (complete sc' \<longrightarrow> ok \<and> complete sc \<and> entries sc' = entries sc @ es))"

lemma extends_refl: "sc_snapshot sc' = sc_snapshot sc \<Longrightarrow> extends sc [] True sc'"
  by (simp add: extends_def consistent_def)

lemma extends_trans:
  "extends a es ok b \<Longrightarrow> extends b fs ok' c \<Longrightarrow> extends a (es @ fs) (ok \<and> ok') c"
  by (auto simp: extends_def)

lemma extends_incomplete: "\<not> complete sc' \<Longrightarrow> extends sc es ok sc'"
  by (simp add: extends_def consistent_def)

lemma extends_cong: "extends sc es ok sc' \<Longrightarrow> (ok \<Longrightarrow> ok' \<and> es = fs) \<Longrightarrow> extends sc fs ok' sc'"
  by (auto simp: extends_def)

lemma count_incomplete [simp]:
  "\<not> complete (on_snapshot count_unstable sc)" "\<not> complete (on_snapshot count_metadata_error sc)"
  "\<not> complete (on_snapshot count_non_local sc)" "\<not> complete (on_snapshot exceed_bounds sc)"
  "\<not> complete (on_snapshot (note_unreadable env selector path mode) sc)"
  by (simp_all add: on_snapshot_def count_unstable_def count_metadata_error_def count_non_local_def exceed_bounds_def note_unreadable_def)

lemma timed_out_snapshot: "timed_out env sc = (late, sc') \<Longrightarrow> sc_snapshot sc' = sc_snapshot sc"
  by (auto simp: timed_out_def)

lemma try_reserve_snapshot: "try_reserve env action sc = Ok sc' \<Longrightarrow> sc_snapshot sc' = sc_snapshot sc"
  by (auto simp: try_reserve_def split: if_splits)

lemma release_snapshot: "sc_snapshot (release_pending_name name sc) = sc_snapshot sc"
  by (simp add: release_pending_name_def)

lemma read_names_extends:
  "read_names env remaining listing stream names sc = Ok (ns, sc') \<Longrightarrow> extends sc [] (stream \<and> ns = names @ proper listing) sc'"
proof (induction env remaining listing stream names sc rule: read_names.induct)
  case (1 env remaining stream names sc)
  then show ?case by (auto intro: extends_incomplete extends_refl split: if_splits)
next
  case (2 env remaining n rest stream names sc)
  show ?case
  proof (cases "nd_name n = ''.'' \<or> nd_name n = ''..''")
    case True
    then show ?thesis using 2(1) [OF True] 2(3) by simp
  next
    case False
    obtain late sc1 where t: "timed_out env sc = (late, sc1)" by (cases "timed_out env sc")
    let ?stop = "late \<or> remaining \<le> length names \<or>
        dl_pending_name_bytes (se_limits env) < sat_add (sc_pending_name_bytes sc1) (length (nd_name n))"
    show ?thesis
    proof (cases ?stop)
      case True
      then have "sc' = on_snapshot exceed_bounds sc1" using 2(3) False t by (auto simp: Let_def)
      then show ?thesis using extends_incomplete count_incomplete(4) by blast
    next
      case go: False
      then obtain sc2 where r: "try_reserve env ''could not reserve bounded discovery names'' sc1 = Ok sc2"
        and next_names: "read_names env remaining rest stream (names @ [n])
            (sc2\<lparr>sc_pending_names := sat_add (sc_pending_names sc2) 1,
                sc_pending_name_bytes := sat_add (sc_pending_name_bytes sc2) (length (nd_name n))\<rparr>) = Ok (ns, sc')"
        using 2(3) False t by (auto simp: Let_def result_simps)
      have "sc_snapshot sc2 = sc_snapshot sc" using timed_out_snapshot [OF t] try_reserve_snapshot [OF r] by simp
      then have "extends sc [] True
          (sc2\<lparr>sc_pending_names := sat_add (sc_pending_names sc2) 1,
              sc_pending_name_bytes := sat_add (sc_pending_name_bytes sc2) (length (nd_name n))\<rparr>)"
        by (intro extends_refl) simp
      from extends_trans [OF this 2(2) [OF False refl refl t [symmetric] refl refl go r next_names]] show ?thesis
        using False by simp
    qed
  qed
qed

lemma scan_names_extends:
  assumes "scan_names env listing stream sc = Ok (ns, sc')"
  shows "extends sc [] (stream \<and> ns = proper listing) sc'"
proof (cases "sn_bounds_exceeded (sc_snapshot sc)")
  case True
  then show ?thesis using assms by (auto simp: scan_names_def extends_def consistent_def)
next
  case False
  then obtain sc1 where r: "try_reserve env ''could not reserve bounded discovery memory'' sc = Ok sc1"
      and names: "read_names env (dl_entries (se_limits env) - sat_add (length (entries sc)) (sc_pending_names sc)) listing stream [] sc1 = Ok (ns, sc')"
    using assms by (auto simp: scan_names_def Let_def result_simps)
  show ?thesis using extends_trans [OF extends_refl [OF try_reserve_snapshot [OF r]] read_names_extends [OF names]] by simp
qed

lemma limit_reached_extends:
  assumes "limit_reached env parent name depth sc = (reached, sc')"
  shows "extends sc [] (\<not> reached) sc'"
proof -
  obtain late sc1 where t: "timed_out env sc = (late, sc1)" by (cases "timed_out env sc")
  then show ?thesis
    using assms extends_refl [OF timed_out_snapshot [OF t]] extends_incomplete [OF count_incomplete(4), of sc "[]" False sc1]
    by (auto simp: limit_reached_def Let_def split: if_splits)
qed

lemma update_absent: "map_of al k = None \<Longrightarrow> AList.update k v al = al @ [(k, v)]"
  by (induction al) (auto split: if_splits)

lemma record_entry_extends:
  assumes "record_entry env selector path m sc = Ok sc'"
  shows "extends sc [recorded env selector (path, m)] True sc'"
proof -
  define owned where "owned = (if st_uid m \<noteq> se_uid env
    then on_snapshot (\<lambda>sn. sn\<lparr>sn_foreign_owned := sat_add (sn_foreign_owned sn) 1\<rparr>) sc else sc)"
  obtain sc1 where r: "try_reserve env ''could not reserve bounded discovery entries'' owned = Ok sc1"
    using assms by (auto simp: record_entry_def Let_def owned_def result_simps split: if_splits)
  have same: "entries owned = entries sc" "complete owned = complete sc"
    "sn_bounds_exceeded (sc_snapshot owned) = sn_bounds_exceeded (sc_snapshot sc)"
    by (simp_all add: owned_def on_snapshot_def)
  show ?thesis
    using assms r try_reserve_snapshot [OF r] same
    by (auto simp: record_entry_def Let_def owned_def [symmetric] recorded_def extends_def consistent_def on_snapshot_def update_absent
        split: if_splits)
qed

definition entered :: "node \<Rightarrow> nat \<Rightarrow> file_stat \<Rightarrow> file_stat \<Rightarrow> bool" where
  "entered n device m opened \<longleftrightarrow>
     st_mode m AND 320 = 320 \<and> nd_open n = DirectoryOpened \<and> nd_opened n = SysOk opened \<and>
     identity_from_stat opened = identity_from_stat m \<and> is_dir opened \<and> mount_is_local device opened (nd_local n) = SysOk True"

lemma may_traverse_True: "may_traverse device opened l sc = (True, sc') \<longleftrightarrow> mount_is_local device opened l = SysOk True \<and> sc' = sc"
  by (auto simp: may_traverse_def split: sys.splits bool.splits)

lemma may_traverse_False: "may_traverse device opened l sc = (False, sc') \<Longrightarrow> \<not> complete sc'"
  by (auto simp: may_traverse_def split: sys.splits bool.splits)

lemma enter_child_Some: "enter_child env selector n path device m sc = (Some opened, sc') \<Longrightarrow> entered n device m opened \<and> sc' = sc"
  by (auto simp: enter_child_def entered_def may_traverse_True split: if_splits directory_open.splits sys.splits prod.splits bool.splits)

lemma enter_child_None: "enter_child env selector n path device m sc = (None, sc') \<Longrightarrow> \<not> complete sc'"
  by (auto simp: enter_child_def dest!: may_traverse_False split: if_splits directory_open.splits sys.splits prod.splits bool.splits)

definition unchanged_after :: "file_stat sys \<Rightarrow> file_stat \<Rightarrow> bool" where
  "unchanged_after after m \<longleftrightarrow> (case after of SysOk seen \<Rightarrow> identity_from_stat seen = identity_from_stat m | _ \<Rightarrow> False)"

lemma recheck_extends: "extends sc [] (unchanged_after after m) (recheck_directory after (identity_from_stat m) sc)"
proof (cases "unchanged_after after m")
  case True
  then have "recheck_directory after (identity_from_stat m) sc = sc"
    by (auto simp: recheck_directory_def unchanged_after_def split: sys.splits)
  then show ?thesis using True extends_refl [of sc sc] by simp
next
  case False
  then have "\<not> complete (recheck_directory after (identity_from_stat m) sc)"
    by (auto simp: recheck_directory_def unchanged_after_def split: sys.splits)
  then show ?thesis by (rule extends_incomplete)
qed

definition directory_clean :: "nat \<Rightarrow> node \<Rightarrow> file_stat \<Rightarrow> bool" where
  "directory_clean device n m \<longleftrightarrow>
     (\<exists>opened. entered n device m opened \<and> clean (st_dev opened) (proper (nd_listing n))) \<and> nd_stream n \<and> unchanged_after (nd_after n) m"

lemma clean_Cons:
  "clean device (n # ns) \<longleftrightarrow> (case nd_stat n of SysOk m \<Rightarrow> is_dir m \<longrightarrow> directory_clean device n m | _ \<Rightarrow> False) \<and> clean device ns"
  by (auto simp: clean.simps(2) directory_clean_def entered_def unchanged_after_def split: sys.splits)

definition below_entries :: "scan_env \<Rightarrow> discovery_selector \<Rightarrow> string list \<Rightarrow> node list \<Rightarrow> (string \<times> entry_record) list" where
  "below_entries env selector relative ns = map (recorded env selector) (tree_entries relative ns)"

lemma below_entries_Cons:
  "nd_stat n = SysOk m \<Longrightarrow> below_entries env selector relative (n # ns) =
     [recorded env selector (relative @ [nd_name n], m)] @
     (if is_dir m then below_entries env selector (relative @ [nd_name n]) (proper (nd_listing n)) else []) @
     below_entries env selector relative ns"
  by (simp add: below_entries_def tree_entries.simps(2))

text \<open>A listing that was read, then a walk over the names that were read.\<close>

lemma extends_listed:
  "extends sc [] (stream \<and> names = listed_names) sc1 \<Longrightarrow> extends sc1 (f names) (P names) sc2 \<Longrightarrow>
     extends sc (f listed_names) (stream \<and> P listed_names) sc2"
  by (auto simp: extends_def)

subsection \<open>The runs of a walk\<close>

text \<open>The successful runs of \<open>visit_entries\<close> as a relation, one rule for each way through the loop.\<close>

inductive visits ::
  "scan_env \<Rightarrow> discovery_selector \<Rightarrow> string list \<Rightarrow> nat \<Rightarrow> nat \<Rightarrow> node list \<Rightarrow> scanner \<Rightarrow> scanner \<Rightarrow> bool"
  for env :: scan_env and selector :: discovery_selector where
  finished: "visits env selector relative depth device [] sc sc"
| stopped: "limit_reached env relative (nd_name n) depth (release_pending_name (nd_name n) sc) = (True, sc1) \<Longrightarrow>
     visits env selector relative depth device (n # ns) sc sc1"
| missing: "limit_reached env relative (nd_name n) depth (release_pending_name (nd_name n) sc) = (False, sc1) \<Longrightarrow>
     nd_stat n = SysNotFound \<Longrightarrow> visits env selector relative depth device ns (on_snapshot count_unstable sc1) sc' \<Longrightarrow>
     visits env selector relative depth device (n # ns) sc sc'"
| failed: "limit_reached env relative (nd_name n) depth (release_pending_name (nd_name n) sc) = (False, sc1) \<Longrightarrow>
     nd_stat n = SysFail \<Longrightarrow> visits env selector relative depth device ns (on_snapshot count_metadata_error sc1) sc' \<Longrightarrow>
     visits env selector relative depth device (n # ns) sc sc'"
| plain: "limit_reached env relative (nd_name n) depth (release_pending_name (nd_name n) sc) = (False, sc1) \<Longrightarrow>
     nd_stat n = SysOk m \<Longrightarrow> record_entry env selector (relative @ [nd_name n]) m sc1 = Ok sc2 \<Longrightarrow> \<not> is_dir m \<Longrightarrow>
     visits env selector relative depth device ns sc2 sc' \<Longrightarrow>
     visits env selector relative depth device (n # ns) sc sc'"
| skipped: "limit_reached env relative (nd_name n) depth (release_pending_name (nd_name n) sc) = (False, sc1) \<Longrightarrow>
     nd_stat n = SysOk m \<Longrightarrow> record_entry env selector (relative @ [nd_name n]) m sc1 = Ok sc2 \<Longrightarrow> is_dir m \<Longrightarrow>
     enter_child env selector n (relative @ [nd_name n]) device m sc2 = (None, sc3) \<Longrightarrow>
     visits env selector relative depth device ns sc3 sc' \<Longrightarrow>
     visits env selector relative depth device (n # ns) sc sc'"
| walked: "limit_reached env relative (nd_name n) depth (release_pending_name (nd_name n) sc) = (False, sc1) \<Longrightarrow>
     nd_stat n = SysOk m \<Longrightarrow> record_entry env selector (relative @ [nd_name n]) m sc1 = Ok sc2 \<Longrightarrow> is_dir m \<Longrightarrow>
     enter_child env selector n (relative @ [nd_name n]) device m sc2 = (Some opened, sc3) \<Longrightarrow>
     scan_names env (nd_listing n) (nd_stream n) sc3 = Ok (names, sc4) \<Longrightarrow>
     visits env selector (relative @ [nd_name n]) (min (depth + 1) u32_max) (st_dev opened) names sc4 sc5 \<Longrightarrow>
     visits env selector relative depth device ns (recheck_directory (nd_after n) (identity_from_stat m) sc5) sc' \<Longrightarrow>
     visits env selector relative depth device (n # ns) sc sc'"

lemma visit_entries_visits:
  "visit_entries env selector relative depth device ns sc = Ok sc' \<Longrightarrow> visits env selector relative depth device ns sc sc'"
proof (induction env selector relative depth device ns sc arbitrary: sc' rule: visit_entries.induct)
  case (1 env selector relative depth device sc)
  then show ?case by (auto intro: visits.finished)
next
  case (2 env selector relative depth device n ns sc)
  let ?path = "relative @ [nd_name n]"
  obtain reached sc1 where l: "limit_reached env relative (nd_name n) depth (release_pending_name (nd_name n) sc) = (reached, sc1)"
    by (cases "limit_reached env relative (nd_name n) depth (release_pending_name (nd_name n) sc)")
  note run = 2(5) [unfolded visit_entries.simps(2) l prod.case]
  show ?case
  proof (cases reached)
    case True
    then show ?thesis using l run visits.stopped by simp
  next
    case reached: False
    then have l': "limit_reached env relative (nd_name n) depth (release_pending_name (nd_name n) sc) = (False, sc1)" using l by simp
    show ?thesis
    proof (cases "nd_stat n")
      case SysNotFound
      then show ?thesis using visits.missing [OF l' SysNotFound 2(3) [OF l' [symmetric] refl SysNotFound]] run reached by simp
    next
      case SysFail
      then show ?thesis using visits.failed [OF l' SysFail 2(4) [OF l' [symmetric] refl SysFail]] run reached by simp
    next
      case (SysOk m)
      then obtain sc2 where r: "record_entry env selector ?path m sc1 = Ok sc2" using run reached by (auto simp: rbind_eq_Inr Let_def)
      note run' = run [simplified reached SysOk Let_def r, simplified]
      note rest = 2(2) [OF l' [symmetric] refl SysOk refl r]
      note inner = 2(1) [OF l' [symmetric] refl SysOk refl r]
      show ?thesis
      proof (cases "is_dir m")
        case False
        then show ?thesis using visits.plain [OF l' SysOk r False rest] run' r by simp
      next
        case dir: True
        show ?thesis
        proof (cases "enter_child env selector n ?path device m sc2")
          case (Pair found sc3)
          show ?thesis
          proof (cases found)
            case None
            then show ?thesis
              using visits.skipped [OF l' SysOk r dir, of device sc3 ns sc'] rest [of sc3 sc'] run' r dir Pair by simp
          next
            case (Some opened)
            then obtain names sc4 sc5 where names: "scan_names env (nd_listing n) (nd_stream n) sc3 = Ok (names, sc4)"
                and walk: "visit_entries env selector ?path (min (depth + 1) u32_max) (st_dev opened) names sc4 = Ok sc5"
                and after: "visit_entries env selector relative depth device ns (recheck_directory (nd_after n) (identity_from_stat m) sc5) = Ok sc'"
              using run' r dir Pair by (auto simp: rbind_eq_Inr)
            have enter: "enter_child env selector n ?path device m sc2 = (Some opened, sc3)" using Pair Some by simp
            have "visits env selector ?path (min (depth + 1) u32_max) (st_dev opened) names sc4 sc5"
              by (rule inner [OF dir enter [symmetric] refl names refl walk])
            moreover have "visits env selector relative depth device ns (recheck_directory (nd_after n) (identity_from_stat m) sc5) sc'"
              by (rule rest [OF _ after]) (simp only: dir simp_thms if_True enter prod.case option.case names rbind_Inr walk)
            ultimately show ?thesis by (rule visits.walked [OF l' SysOk r dir enter names])
          qed
        qed
      qed
    qed
  qed
qed

lemma limit_passed_extends:
  assumes "limit_reached env relative (nd_name n) depth (release_pending_name (nd_name n) sc) = (False, sc1)"
  shows "extends sc [] True sc1"
  using extends_trans [OF extends_refl [OF release_snapshot] limit_reached_extends [OF assms]] by simp

lemma extends_lost: "extends sc [] True sc1 \<Longrightarrow> extends sc2 es ok sc' \<Longrightarrow> \<not> complete sc2 \<Longrightarrow> extends sc fs ok' sc'"
  by (auto simp: extends_def consistent_def)

lemma visits_extends:
  "visits env selector relative depth device ns sc sc' \<Longrightarrow>
     extends sc (below_entries env selector relative ns) (clean device ns) sc'"
proof (induction rule: visits.induct)
  case (finished relative depth device sc)
  then show ?case using extends_refl [of sc sc] by (simp add: below_entries_def)
next
  case (stopped relative n depth sc sc1 device ns)
  have "extends sc [] False sc1"
    using extends_trans [OF extends_refl [OF release_snapshot] limit_reached_extends [OF stopped]] by simp
  then show ?case by (rule extends_cong) simp
next
  case (missing relative n depth sc sc1 device ns sc')
  then show ?case using extends_lost [OF limit_passed_extends] count_incomplete(1) by blast
next
  case (failed relative n depth sc sc1 device ns sc')
  then show ?case using extends_lost [OF limit_passed_extends] count_incomplete(2) by blast
next
  case (plain relative n depth sc sc1 m sc2 device ns sc')
  have "extends sc (([] @ [recorded env selector (relative @ [nd_name n], m)]) @ below_entries env selector relative ns)
      ((True \<and> True) \<and> clean device ns) sc'"
    by (intro extends_trans [OF extends_trans [OF limit_passed_extends [OF plain(1)] record_entry_extends [OF plain(3)]]] plain.IH)
  then show ?case
    by (rule extends_cong) (use plain(2,4) in \<open>simp add: below_entries_Cons clean_Cons\<close>)
next
  case (skipped relative n depth sc sc1 m sc2 device sc3 ns sc')
  then show ?case using extends_lost [OF limit_passed_extends] enter_child_None by blast
next
  case (walked relative n depth sc sc1 m sc2 device opened sc3 names sc4 sc5 ns sc')
  let ?path = "relative @ [nd_name n]"
  have enter: "entered n device m opened" and same: "sc3 = sc2" using enter_child_Some [OF walked(5)] by simp_all
  have listed: "extends sc3 (below_entries env selector ?path (proper (nd_listing n)))
      (nd_stream n \<and> clean (st_dev opened) (proper (nd_listing n))) sc5"
    by (rule extends_listed [where f = "below_entries env selector ?path" and P = "clean (st_dev opened)", OF scan_names_extends [OF walked(6)]
        walked.IH(1)])
  have "extends sc (((([] @ [recorded env selector (?path, m)]) @ below_entries env selector ?path (proper (nd_listing n))) @ []) @
      below_entries env selector relative ns)
      ((((True \<and> True) \<and> nd_stream n \<and> clean (st_dev opened) (proper (nd_listing n))) \<and> unchanged_after (nd_after n) m) \<and> clean device ns) sc'"
    by (rule extends_trans [OF extends_trans [OF extends_trans [OF extends_trans [OF limit_passed_extends [OF walked(1)]
      record_entry_extends [OF walked(3)]] listed [unfolded same]] recheck_extends] walked.IH(2)])
  then show ?case
    by (rule extends_cong) (use walked(2,4) enter in \<open>auto simp: below_entries_Cons clean_Cons directory_clean_def\<close>)
qed

lemma walk_extends:
  assumes "walk env selector relative depth device listing stream sc = Ok sc'"
  shows "extends sc (below_entries env selector relative (proper listing)) (stream \<and> clean device (proper listing)) sc'"
proof -
  obtain names sc1 where "scan_names env listing stream sc = Ok (names, sc1)"
      "visit_entries env selector relative depth device names sc1 = Ok sc'"
    using assms by (auto simp: walk_def result_simps)
  then show ?thesis
    using extends_listed [where f = "below_entries env selector relative" and P = "clean device", OF scan_names_extends]
      visits_extends [OF visit_entries_visits] by blast
qed

subsection \<open>Limits\<close>

definition path_within :: "discovery_limits \<Rightarrow> string list \<Rightarrow> bool" where
  "path_within l path \<longleftrightarrow> length path \<le> dl_depth l \<and> length (join_slash path) \<le> dl_relative_path_bytes l"

definition recorded_within :: "scan_env \<Rightarrow> discovery_selector \<Rightarrow> (string \<times> entry_record) list \<Rightarrow> bool" where
  "recorded_within env selector es \<longleftrightarrow>
     distinct (map fst es) \<and>
     (\<forall>k \<in> set (map fst es). \<exists>path. k = entry_key (se_hash env) selector path \<and> path_within (se_limits env) path)"

text \<open>The limits are numbers of 64 bits, a depth is one of 32 bits.\<close>

definition limit_widths :: "discovery_limits \<Rightarrow> bool" where
  "limit_widths l \<longleftrightarrow> dl_entries l \<le> u64_max \<and> dl_pending_name_bytes l \<le> u64_max \<and> dl_depth l < u32_max"

definition within :: "scan_env \<Rightarrow> discovery_selector \<Rightarrow> scanner \<Rightarrow> bool" where
  "within env selector sc \<longleftrightarrow>
     length (entries sc) + sc_pending_names sc \<le> dl_entries (se_limits env) \<and>
     sc_pending_name_bytes sc \<le> dl_pending_name_bytes (se_limits env) \<and> recorded_within env selector (entries sc)"

definition same_load :: "scanner \<Rightarrow> scanner \<Rightarrow> bool" where
  "same_load sc sc' \<longleftrightarrow>
     entries sc' = entries sc \<and> sc_pending_names sc' = sc_pending_names sc \<and> sc_pending_name_bytes sc' = sc_pending_name_bytes sc"

lemma same_load_within: "same_load sc sc' \<Longrightarrow> within env selector sc' = within env selector sc"
  by (simp add: same_load_def within_def)

lemma same_load_trans: "same_load a b \<Longrightarrow> same_load b c \<Longrightarrow> same_load a c"
  by (simp add: same_load_def)

lemma same_load_count [simp]:
  "same_load sc sc" "same_load sc (on_snapshot count_unstable sc)" "same_load sc (on_snapshot count_metadata_error sc)"
  "same_load sc (on_snapshot count_non_local sc)" "same_load sc (on_snapshot exceed_bounds sc)"
  "same_load sc (on_snapshot (note_unreadable env selector path mode) sc)"
  by (simp_all add: same_load_def on_snapshot_def count_unstable_def count_metadata_error_def count_non_local_def exceed_bounds_def
      note_unreadable_def)

lemma timed_out_load: "timed_out env sc = (late, sc') \<Longrightarrow> same_load sc sc'"
  by (auto simp: timed_out_def same_load_def)

lemma try_reserve_load: "try_reserve env action sc = Ok sc' \<Longrightarrow> same_load sc sc'"
  by (auto simp: try_reserve_def same_load_def split: if_splits)

lemma limit_reached_load: "limit_reached env parent name depth sc = (reached, sc') \<Longrightarrow> same_load sc sc'"
  using timed_out_load [of env sc] same_load_trans [OF _ same_load_count(5)]
  by (cases "timed_out env sc") (auto simp: limit_reached_def Let_def split: if_splits)

lemma limit_passed:
  assumes "limit_reached env relative name depth sc = (False, sc')" "depth = length relative" "limit_widths (se_limits env)"
  shows "length (entries sc) < dl_entries (se_limits env)" "path_within (se_limits env) (relative @ [name])"
proof -
  obtain late sc1 where t: "timed_out env sc = (late, sc1)" by (cases "timed_out env sc")
  then have e: "entries sc1 = entries sc" using timed_out_load [OF t] by (simp add: same_load_def)
  have "sum_list (map (\<lambda>value. length value + 1) relative) + length name = length (join_slash (relative @ [name]))"
    by (induction relative) (simp_all add: length_join_slash)
  then show "length (entries sc) < dl_entries (se_limits env)" "path_within (se_limits env) (relative @ [name])"
    using assms t e by (auto simp: limit_reached_def Let_def path_within_def limit_widths_def split: if_splits)
qed

lemma recheck_load: "same_load sc (recheck_directory after m sc)"
  by (auto simp: recheck_directory_def split: sys.splits)

lemma enter_child_load: "enter_child env selector n path device m sc = (found, sc') \<Longrightarrow> same_load sc sc'"
  by (auto simp: enter_child_def may_traverse_def split: if_splits directory_open.splits sys.splits prod.splits bool.splits)

lemma read_names_load:
  "read_names env remaining listing stream names sc = Ok (ns, sc') \<Longrightarrow> limit_widths (se_limits env) \<Longrightarrow>
     length (entries sc) + sc_pending_names sc + (remaining - length names) \<le> dl_entries (se_limits env) \<Longrightarrow>
     sc_pending_name_bytes sc \<le> dl_pending_name_bytes (se_limits env) \<Longrightarrow>
     entries sc' = entries sc \<and> length (entries sc) + sc_pending_names sc' \<le> dl_entries (se_limits env) \<and>
     sc_pending_name_bytes sc' \<le> dl_pending_name_bytes (se_limits env) \<and>
     length names \<le> length ns \<and> sc_pending_names sc' = sc_pending_names sc + (length ns - length names)"
proof (induction env remaining listing stream names sc rule: read_names.induct)
  case (1 env remaining stream names sc)
  then show ?case using same_load_count(3) [of sc] by (auto simp: same_load_def split: if_splits)
next
  case (2 env remaining n rest stream names sc)
  show ?case
  proof (cases "nd_name n = ''.'' \<or> nd_name n = ''..''")
    case True
    then have "read_names env remaining rest stream names sc = Ok (ns, sc')" using 2(3) by simp
    from 2(1) [OF True this 2(4-6)] show ?thesis .
  next
    case False
    obtain late sc1 where t: "timed_out env sc = (late, sc1)" by (cases "timed_out env sc")
    have same: "same_load sc sc1" by (rule timed_out_load [OF t])
    let ?stop = "late \<or> remaining \<le> length names \<or>
        dl_pending_name_bytes (se_limits env) < sat_add (sc_pending_name_bytes sc1) (length (nd_name n))"
    show ?thesis
    proof (cases ?stop)
      case True
      then have "sc' = on_snapshot exceed_bounds sc1 \<and> ns = names" using 2(3) False t by (auto simp: Let_def)
      then show ?thesis using 2(5,6) same same_load_count(5) [of sc1] by (simp add: same_load_def)
    next
      case go: False
      then obtain sc2 where r: "try_reserve env ''could not reserve bounded discovery names'' sc1 = Ok sc2"
        and next_names: "read_names env remaining rest stream (names @ [n])
            (sc2\<lparr>sc_pending_names := sat_add (sc_pending_names sc2) 1,
                sc_pending_name_bytes := sat_add (sc_pending_name_bytes sc2) (length (nd_name n))\<rparr>) = Ok (ns, sc')"
        using 2(3) False t by (auto simp: Let_def result_simps)
      note load = same_load_trans [OF same try_reserve_load [OF r]]
      have room: "length names < remaining" "dl_entries (se_limits env) \<le> u64_max" using go 2(4) by (simp_all add: limit_widths_def)
      have "sc_pending_names sc + 1 \<le> u64_max" using room 2(5) by linarith
      then have exact: "sat_add (sc_pending_names sc) 1 = sc_pending_names sc + 1" by (rule sat_add_exact)
      let ?sc3 = "sc2\<lparr>sc_pending_names := sat_add (sc_pending_names sc2) 1,
                sc_pending_name_bytes := sat_add (sc_pending_name_bytes sc2) (length (nd_name n))\<rparr>"
      have counted: "entries ?sc3 = entries sc" "sc_pending_names ?sc3 = sc_pending_names sc + 1" "length (names @ [n]) = length names + 1"
        using load exact by (simp_all add: same_load_def)
      have p1: "length (entries ?sc3) + sc_pending_names ?sc3 + (remaining - length (names @ [n])) \<le> dl_entries (se_limits env)"
        using 2(5) room(1) unfolding counted by linarith
      have p2: "sc_pending_name_bytes ?sc3 \<le> dl_pending_name_bytes (se_limits env)"
        using go load same by (simp add: same_load_def)
      show ?thesis
        using 2(2) [OF False refl refl t [symmetric] refl refl go r next_names 2(4) p1 p2] unfolding counted by auto
    qed
  qed
qed

lemma scan_names_within:
  assumes "scan_names env listing stream sc = Ok (ns, sc')" "within env selector sc" "limit_widths (se_limits env)"
  shows "within env selector sc' \<and> sc_pending_names sc' = sc_pending_names sc + length ns"
proof (cases "sn_bounds_exceeded (sc_snapshot sc)")
  case True
  then show ?thesis using assms by (auto simp: scan_names_def)
next
  case False
  let ?remaining = "dl_entries (se_limits env) - sat_add (length (entries sc)) (sc_pending_names sc)"
  obtain sc1 where r: "try_reserve env ''could not reserve bounded discovery memory'' sc = Ok sc1"
      and names: "read_names env ?remaining listing stream [] sc1 = Ok (ns, sc')"
    using assms(1) False by (auto simp: scan_names_def Let_def result_simps)
  have load: "entries sc1 = entries sc" "sc_pending_names sc1 = sc_pending_names sc" "sc_pending_name_bytes sc1 = sc_pending_name_bytes sc"
    using try_reserve_load [OF r] by (simp_all add: same_load_def)
  have "sat_add (length (entries sc)) (sc_pending_names sc) = length (entries sc) + sc_pending_names sc"
    using assms(2,3) by (intro sat_add_exact) (simp add: within_def limit_widths_def)
  then have "length (entries sc1) + sc_pending_names sc1 + (?remaining - length ([] :: node list)) \<le> dl_entries (se_limits env)"
    using assms(2) load by (simp add: within_def)
  from read_names_load [OF names assms(3) this] show ?thesis using assms(2) load by (simp add: within_def)
qed

lemma record_entry_within:
  assumes "record_entry env selector path m sc = Ok sc'" "within env selector sc" "path_within (se_limits env) path"
    and "length (entries sc) + sc_pending_names sc < dl_entries (se_limits env)"
  shows "within env selector sc' \<and> sc_pending_names sc' = sc_pending_names sc"
proof -
  let ?key = "entry_key (se_hash env) selector path"
  define owned where "owned = (if st_uid m \<noteq> se_uid env
    then on_snapshot (\<lambda>sn. sn\<lparr>sn_foreign_owned := sat_add (sn_foreign_owned sn) 1\<rparr>) sc else sc)"
  obtain sc1 where r: "try_reserve env ''could not reserve bounded discovery entries'' owned = Ok sc1"
    using assms(1) by (auto simp: record_entry_def Let_def owned_def result_simps split: if_splits)
  have "same_load sc owned" by (simp add: owned_def same_load_def on_snapshot_def)
  then have load: "same_load sc sc1" using try_reserve_load [OF r] same_load_trans by blast
  obtain v where e: "entries sc' = AList.update ?key v (entries sc)" and pending: "sc_pending_names sc' = sc_pending_names sc"
      "sc_pending_name_bytes sc' = sc_pending_name_bytes sc"
    using assms(1) r load
    by (auto simp: record_entry_def Let_def owned_def [symmetric] on_snapshot_def same_load_def split: if_splits)
  have keys: "map fst (entries sc') = (if ?key \<in> set (map fst (entries sc)) then map fst (entries sc) else map fst (entries sc) @ [?key])"
    unfolding e by (rule AList.update_keys)
  then have "length (map fst (entries sc')) \<le> length (map fst (entries sc)) + 1" by (simp del: length_map split: if_splits)
  moreover have "recorded_within env selector (entries sc')"
    using assms(2,3) unfolding within_def recorded_within_def keys by auto
  ultimately show ?thesis using assms(2,4) pending by (simp add: within_def)
qed

lemma released_within:
  assumes "limit_reached env relative (nd_name n) depth (release_pending_name (nd_name n) sc) = (reached, sc1)"
    and "within env selector sc" "length (n # ns) \<le> sc_pending_names sc"
  shows "within env selector sc1" "length (entries sc1) + sc_pending_names sc1 < dl_entries (se_limits env)"
    "sc_pending_names sc = sc_pending_names sc1 + 1"
proof -
  have "same_load (release_pending_name (nd_name n) sc) sc1" by (rule limit_reached_load [OF assms(1)])
  then have "entries sc1 = entries sc" "sc_pending_names sc1 = sc_pending_names sc - 1" "sc_pending_name_bytes sc1 \<le> sc_pending_name_bytes sc"
    by (simp_all add: same_load_def release_pending_name_def)
  then show "within env selector sc1" "length (entries sc1) + sc_pending_names sc1 < dl_entries (se_limits env)"
    "sc_pending_names sc = sc_pending_names sc1 + 1"
    using assms(2,3) by (auto simp: within_def)
qed

lemma visits_within:
  assumes widths: "limit_widths (se_limits env)"
  shows "visits env selector relative depth device ns sc sc' \<Longrightarrow> depth = length relative \<Longrightarrow> within env selector sc \<Longrightarrow>
     length ns \<le> sc_pending_names sc \<Longrightarrow> within env selector sc' \<and> sc_pending_names sc \<le> sc_pending_names sc' + length ns"
proof (induction rule: visits.induct)
  case (finished relative depth device sc)
  then show ?case by simp
next
  case (stopped relative n depth sc sc1 device ns)
  show ?case using released_within [OF stopped(1,3,4)] by simp
next
  case (missing relative n depth sc sc1 device ns sc')
  note r = released_within [OF missing(1,6,7)]
  have same: "same_load sc1 (on_snapshot count_unstable sc1)" by simp
  have "within env selector (on_snapshot count_unstable sc1)" using same_load_within [OF same] r(1) by blast
  moreover have "sc_pending_names (on_snapshot count_unstable sc1) = sc_pending_names sc1" using same by (simp add: same_load_def)
  ultimately show ?case using missing.IH [OF missing(5)] r(3) missing(7) by simp
next
  case (failed relative n depth sc sc1 device ns sc')
  note r = released_within [OF failed(1,6,7)]
  have same: "same_load sc1 (on_snapshot count_metadata_error sc1)" by simp
  have "within env selector (on_snapshot count_metadata_error sc1)" using same_load_within [OF same] r(1) by blast
  moreover have "sc_pending_names (on_snapshot count_metadata_error sc1) = sc_pending_names sc1" using same by (simp add: same_load_def)
  ultimately show ?case using failed.IH [OF failed(5)] r(3) failed(7) by simp
next
  case (plain relative n depth sc sc1 m sc2 device ns sc')
  note r = released_within [OF plain(1,8,9)]
  note passed = limit_passed [OF plain(1,7) widths]
  have "within env selector sc2 \<and> sc_pending_names sc2 = sc_pending_names sc1"
    by (rule record_entry_within [OF plain(3) r(1) passed(2) r(2)])
  then show ?case using plain.IH [OF plain(7)] r(3) plain(9) by simp
next
  case (skipped relative n depth sc sc1 m sc2 device sc3 ns sc')
  note r = released_within [OF skipped(1,9,10)]
  note passed = limit_passed [OF skipped(1,8) widths]
  have "within env selector sc2 \<and> sc_pending_names sc2 = sc_pending_names sc1"
    by (rule record_entry_within [OF skipped(3) r(1) passed(2) r(2)])
  moreover have "same_load sc2 sc3" by (rule enter_child_load [OF skipped(5)])
  ultimately have "within env selector sc3 \<and> sc_pending_names sc3 = sc_pending_names sc1"
    using same_load_within [of sc2 sc3 env selector] by (simp add: same_load_def)
  then show ?case using skipped.IH [OF skipped(8)] r(3) skipped(10) by simp
next
  case (walked relative n depth sc sc1 m sc2 device opened sc3 names sc4 sc5 ns sc')
  note r = released_within [OF walked(1,12,13)]
  note passed = limit_passed [OF walked(1,11) widths]
  let ?path = "relative @ [nd_name n]"
  have depth: "min (depth + 1) u32_max = length ?path"
    using passed(2) widths walked(11) by (simp add: path_within_def limit_widths_def)
  have "within env selector sc2 \<and> sc_pending_names sc2 = sc_pending_names sc1"
    by (rule record_entry_within [OF walked(3) r(1) passed(2) r(2)])
  moreover have "same_load sc2 sc3" by (rule enter_child_load [OF walked(5)])
  ultimately have w3: "within env selector sc3 \<and> sc_pending_names sc3 = sc_pending_names sc1"
    using same_load_within [of sc2 sc3 env selector] by (simp add: same_load_def)
  have w4: "within env selector sc4 \<and> sc_pending_names sc4 = sc_pending_names sc3 + length names"
    by (rule scan_names_within [OF walked(6) _ widths]) (use w3 in simp)
  have w5: "within env selector sc5 \<and> sc_pending_names sc4 \<le> sc_pending_names sc5 + length names"
    by (rule walked.IH(1) [OF depth]) (use w4 in simp_all)
  define sc6 where "sc6 = recheck_directory (nd_after n) (identity_from_stat m) sc5"
  have "same_load sc5 sc6" unfolding sc6_def by (rule recheck_load)
  then have w6: "within env selector sc6 \<and> sc_pending_names sc6 = sc_pending_names sc5"
    using w5 same_load_within [of sc5 sc6 env selector] by (simp add: same_load_def)
  show ?case
    using walked.IH(2) [OF walked(11)] w3 w4 w5 w6 r(3) walked(13) unfolding sc6_def [symmetric] by simp
qed

text \<open>
  C34: A scan stays within its limits, whatever it observes. However the names, the calls, the clock and
  the reservations answer, the snapshot of a root has at most the configured number of entries, one for
  each key, and every key is that of a path within the depth and the length that are configured.
\<close>

theorem scans_stay_within_their_limits:
  assumes "scan_root_with cfg selector root = Ok sn" and "limit_widths (su_limits cfg)"
  shows "length (sn_entries sn) \<le> dl_entries (su_limits cfg) \<and> distinct (map fst (sn_entries sn)) \<and>
     (\<forall>k \<in> set (map fst (sn_entries sn)). \<exists>path. k = entry_key (su_hash cfg) selector path \<and> path_within (su_limits cfg) path)"
proof -
  let ?env = "root_env cfg root"
  have env: "se_limits ?env = su_limits cfg" "se_hash ?env = su_hash cfg" by (simp_all add: root_env_def)
  obtain identity device sc expected where
    w: "walk ?env selector [] 0 device (ro_listing root) (ro_stream root)
          (on_snapshot (\<lambda>sn. sn\<lparr>sn_root_identities := (sn_root_identities sn)(selector \<mapsto> identity)\<rparr>) scanner_new) = Ok sc"
    and sn: "sn_entries sn = entries (recheck_directory (ro_after root) expected sc)"
    using assms(1) by (auto simp: scan_root_with_def result_simps Let_def)
  obtain names sc1 where names: "scan_names ?env (ro_listing root) (ro_stream root)
        (on_snapshot (\<lambda>sn. sn\<lparr>sn_root_identities := (sn_root_identities sn)(selector \<mapsto> identity)\<rparr>) scanner_new) = Ok (names, sc1)"
      and run: "visit_entries ?env selector [] 0 device names sc1 = Ok sc"
    using w by (auto simp: walk_def result_simps)
  have "within ?env selector (on_snapshot (\<lambda>sn. sn\<lparr>sn_root_identities := (sn_root_identities sn)(selector \<mapsto> identity)\<rparr>) scanner_new)"
    by (simp add: within_def recorded_within_def on_snapshot_def scanner_new_def snapshot_default_def)
  from scan_names_within [OF names this] have "within ?env selector sc1 \<and> length names \<le> sc_pending_names sc1"
    using assms(2) env by simp
  then have "within ?env selector sc" using visits_within [OF _ visit_entries_visits [OF run]] assms(2) env by simp
  moreover have "entries (recheck_directory (ro_after root) expected sc) = entries sc" using recheck_load by (simp add: same_load_def)
  ultimately show ?thesis unfolding sn by (simp add: within_def recorded_within_def env)
qed

end
