(* ===== verification/Discovery_Delta.thy ===== *)
theory Discovery_Delta
  imports Discovery_Properties
begin

text \<open>
  The delta of two scans against the trees that were observed: what a complete snapshot of several roots
  contains, and that a published delta counts exactly the paths that differ, each by its kind of change and
  its class.
\<close>

subsection \<open>Complete snapshots\<close>

definition held_still :: "root_obs \<Rightarrow> bool" where
  "held_still root \<longleftrightarrow> ro_stream root \<and>
     (\<exists>m. ro_stat root = SysOk m \<and> clean (st_dev m) (proper (ro_listing root)) \<and> unchanged_after (ro_after root) m)"

type_synonym place = "discovery_selector \<times> string list"

definition place_key :: "scan_setup \<Rightarrow> place \<Rightarrow> string" where
  "place_key cfg k = entry_key (su_hash cfg) (fst k) (snd k)"

definition place_record :: "scan_setup \<Rightarrow> place \<Rightarrow> file_stat \<Rightarrow> entry_record" where
  "place_record cfg k m =
     \<lparr>er_class = classify (su_caches cfg) (fst k) (snd k) (st_mode m), er_identity = identity_from_stat m\<rparr>"

definition root_places :: "discovery_selector \<times> root_obs \<Rightarrow> (place \<times> file_stat) list" where
  "root_places entry = map (\<lambda>(path, m). ((fst entry, path), m)) (tree_entries [] (proper (ro_listing (snd entry))))"

definition places :: "(discovery_selector \<times> root_obs) list \<Rightarrow> (place \<times> file_stat) list" where
  "places roots = concat (map root_places roots)"

definition keyed :: "scan_setup \<Rightarrow> (place \<times> file_stat) list \<Rightarrow> (string \<times> entry_record) list" where
  "keyed cfg ps = map (\<lambda>(k, m). (place_key cfg k, place_record cfg k m)) ps"

lemma below_entries_keyed:
  "below_entries (root_env cfg root) selector [] (proper (ro_listing root)) = keyed cfg (root_places (selector, root))"
  by (simp add: below_entries_def keyed_def root_places_def recorded_def place_key_def place_record_def root_env_def case_prod_beta)

lemma scan_root_complete:
  assumes "scan_root_with cfg selector root = Ok sn" "sn_complete sn"
  shows "sn_entries sn = keyed cfg (root_places (selector, root)) \<and> held_still root"
proof -
  let ?env = "root_env cfg root"
  obtain m sc where m: "ro_stat root = SysOk m" and
    w: "walk ?env selector [] 0 (st_dev m) (ro_listing root) (ro_stream root)
          (on_snapshot (\<lambda>sn. sn\<lparr>sn_root_identities := (sn_root_identities sn)(selector \<mapsto> root_identity_from_stat m)\<rparr>) scanner_new) = Ok sc"
    and sn: "sn_entries sn = entries (recheck_directory (ro_after root) (identity_from_stat m) sc)"
      "sn_complete sn = complete (recheck_directory (ro_after root) (identity_from_stat m) sc)"
    using assms(1) by (auto simp: scan_root_with_def open_discovery_root_def result_simps Let_def split: sys.splits if_splits)
  note e = extends_trans [OF walk_extends [OF w] recheck_extends, of "ro_after root" m]
  have "consistent (on_snapshot (\<lambda>sn. sn\<lparr>sn_root_identities := (sn_root_identities sn)(selector \<mapsto> root_identity_from_stat m)\<rparr>) scanner_new)"
    by (simp add: consistent_def on_snapshot_def scanner_new_def snapshot_default_def)
  with e have "complete (recheck_directory (ro_after root) (identity_from_stat m) sc) \<longrightarrow>
      (ro_stream root \<and> clean (st_dev m) (proper (ro_listing root))) \<and> unchanged_after (ro_after root) m \<and>
      entries (recheck_directory (ro_after root) (identity_from_stat m) sc) =
        below_entries ?env selector [] (proper (ro_listing root))"
    by (auto simp: extends_def on_snapshot_def scanner_new_def snapshot_default_def)
  then show ?thesis using assms(2) sn m unfolding below_entries_keyed held_still_def by auto
qed

definition distinct_keys :: "(string \<times> entry_record) list \<Rightarrow> bool" where
  "distinct_keys es \<longleftrightarrow> distinct (map fst es)"

lemma merge_entries_complete:
  "sn_complete (foldl merge_entry sn es) \<Longrightarrow>
     sn_complete sn \<and> sn_entries (foldl merge_entry sn es) = sn_entries sn @ es \<and>
     (distinct_keys (sn_entries sn) \<longrightarrow> distinct_keys (sn_entries sn @ es))"
proof (induction es arbitrary: sn)
  case (Cons e es)
  have step: "sn_complete (merge_entry sn e) \<Longrightarrow> sn_complete sn \<and> map_of (sn_entries sn) (fst e) = None \<and> sn_entries (merge_entry sn e) = sn_entries sn @ [e]"
    by (auto simp: merge_entry_def Let_def update_absent split: if_splits)
  have c: "sn_complete (merge_entry sn e)"
    "sn_entries (foldl merge_entry (merge_entry sn e) es) = sn_entries (merge_entry sn e) @ es"
    "distinct_keys (sn_entries (merge_entry sn e)) \<longrightarrow> distinct_keys (sn_entries (merge_entry sn e) @ es)"
    using Cons.IH [of "merge_entry sn e"] Cons.prems by auto
  show ?case using step [OF c(1)] c(2,3) by (auto simp: map_of_eq_None_iff distinct_keys_def)
qed simp

lemma merge_snapshot_complete:
  assumes "merge_snapshot reserved combined part = Ok sn" "sn_complete sn"
  shows "sn_complete combined \<and> sn_complete part \<and> sn_entries sn = sn_entries combined @ sn_entries part \<and>
     (distinct_keys (sn_entries combined) \<longrightarrow> distinct_keys (sn_entries sn))"
  using assms merge_entries_complete [of combined "sn_entries part"]
  by (auto simp: merge_snapshot_def Let_def split: if_splits)

lemma scan_from_complete:
  "rfold (scan_one cfg) combined roots = Ok sn \<Longrightarrow> sn_complete sn \<Longrightarrow>
     sn_complete combined \<and> sn_entries sn = sn_entries combined @ keyed cfg (places roots) \<and>
     (distinct_keys (sn_entries combined) \<longrightarrow> distinct_keys (sn_entries sn)) \<and>
     (\<forall>entry \<in> set roots. held_still (snd entry))"
proof (induction roots arbitrary: combined)
  case Nil
  then show ?case by (simp add: places_def keyed_def)
next
  case (Cons entry roots)
  obtain selector root where entry: "entry = (selector, root)" by (cases entry)
  obtain mid where mid: "scan_one cfg combined entry = Ok mid" and rest: "rfold (scan_one cfg) mid roots = Ok sn"
    using Cons.prems(1) by (auto simp: rbind_eq_Inr)
  obtain part where part: "scan_root_with cfg selector root = Ok part" and merged: "merge_snapshot (ro_merge root) combined part = Ok mid"
    using mid by (auto simp: scan_one_def entry result_simps)
  note ih = Cons.IH [OF rest Cons.prems(2)]
  note m = merge_snapshot_complete [OF merged] and p = scan_root_complete [OF part]
  have "keyed cfg (places (entry # roots)) = keyed cfg (root_places (selector, root)) @ keyed cfg (places roots)"
    by (simp add: places_def keyed_def entry)
  then show ?case using ih m p by (auto simp: entry)
qed

text \<open>A complete scan has recorded exactly the entries of trees that held still, each key once.\<close>

lemma scan_complete:
  assumes "scan cfg roots = Ok sn" "sn_complete sn"
  shows "sn_entries sn = keyed cfg (places roots)" "distinct_keys (keyed cfg (places roots))"
    "\<forall>entry \<in> set roots. held_still (snd entry)"
  using scan_from_complete [OF assms(1) [unfolded scan_def] assms(2)] by (auto simp: snapshot_default_def distinct_keys_def)

lemma places_distinct: "distinct_keys (keyed cfg ps) \<Longrightarrow> distinct (map fst ps)"
proof -
  have "map fst (keyed cfg ps) = map (place_key cfg) (map fst ps)" by (simp add: keyed_def case_prod_beta)
  then show "distinct_keys (keyed cfg ps) \<Longrightarrow> distinct (map fst ps)" unfolding distinct_keys_def using distinct_map by metis
qed

subsection \<open>Counting changes\<close>

datatype change = Created | Modified | Replaced | Deleted

fun class_count :: "class_counts \<Rightarrow> discovery_class \<Rightarrow> nat" where
  "class_count c ClassConfiguration = cc_configuration c"
| "class_count c ClassData = cc_data c"
| "class_count c ClassState = cc_state c"
| "class_count c ClassCache = cc_cache c"
| "class_count c ClassCredentialShaped = cc_credential_shaped c"
| "class_count c ClassRuntimeSocket = cc_runtime_socket c"
| "class_count c ClassRuntime = cc_runtime c"
| "class_count c ClassUnclassified = cc_unclassified c"

fun delta_count :: "discovery_delta \<Rightarrow> change \<Rightarrow> discovery_class \<Rightarrow> nat" where
  "delta_count d Created = class_count (dd_created d)"
| "delta_count d Modified = class_count (dd_modified d)"
| "delta_count d Replaced = class_count (dd_replaced d)"
| "delta_count d Deleted = class_count (dd_deleted d)"

lemma class_count_increment: "class_count (increment k c) d = (if d = c then sat_add (class_count k d) 1 else class_count k d)"
  by (cases c; cases d) simp_all

definition identity_change :: "entry_identity \<Rightarrow> entry_identity \<Rightarrow> change option" where
  "identity_change before after = (if before = after then None else if same_object before after then Some Modified else Some Replaced)"

definition change_after :: "(string \<times> entry_record) list \<Rightarrow> string \<times> entry_record \<Rightarrow> change option" where
  "change_after pre e = (case map_of pre (fst e) of None \<Rightarrow> Some Created | Some before \<Rightarrow> identity_change (er_identity before) (er_identity (snd e)))"

definition change_before :: "(string \<times> entry_record) list \<Rightarrow> string \<times> entry_record \<Rightarrow> change option" where
  "change_before post e = (if map_of post (fst e) = None then Some Deleted else None)"

lemma diff_after_count:
  "delta_count (diff_after pre d e) ch c =
     (if change_after pre e = Some ch \<and> er_class (snd e) = c then sat_add (delta_count d ch c) 1 else delta_count d ch c)"
  by (cases ch) (auto simp: diff_after_def change_after_def identity_change_def class_count_increment split: option.splits)

lemma diff_before_count:
  "delta_count (diff_before post d e) ch c =
     (if change_before post e = Some ch \<and> er_class (snd e) = c then sat_add (delta_count d ch c) 1 else delta_count d ch c)"
  by (cases ch) (auto simp: diff_before_def change_before_def class_count_increment)

lemma saturating_count:
  assumes step: "\<And>d e. count (f d e) = (if P e then sat_add (count d) 1 else count d)"
  shows "count d \<le> u64_max \<Longrightarrow> count (foldl f d es) = min (count d + length (filter P es)) u64_max"
proof (induction es arbitrary: d)
  case (Cons e es)
  have "count (f d e) \<le> u64_max" using Cons.prems by (simp add: step sat_add_le)
  from Cons.IH [OF this] show ?case by (auto simp: step sat_add_def)
qed simp

lemma snapshot_diff_count:
  "delta_count (snapshot_diff pre post) ch c =
     min (length (filter (\<lambda>e. change_after (sn_entries pre) e = Some ch \<and> er_class (snd e) = c) (sn_entries post)) +
          length (filter (\<lambda>e. change_before (sn_entries post) e = Some ch \<and> er_class (snd e) = c) (sn_entries pre))) u64_max"
proof -
  have zero: "delta_count discovery_delta_default ch c = 0"
    by (cases ch; cases c) (simp_all add: discovery_delta_default_def class_counts_default_def)
  let ?mid = "foldl (diff_after (sn_entries pre)) discovery_delta_default (sn_entries post)"
  let ?after = "length (filter (\<lambda>e. change_after (sn_entries pre) e = Some ch \<and> er_class (snd e) = c) (sn_entries post))"
  have "delta_count ?mid ch c = min ?after u64_max"
    using saturating_count [of "\<lambda>d. delta_count d ch c" "diff_after (sn_entries pre)", OF diff_after_count, of discovery_delta_default "sn_entries post"]
    by (simp add: zero)
  then show ?thesis
    unfolding snapshot_diff_def
    using saturating_count [of "\<lambda>d. delta_count d ch c" "diff_before (sn_entries post)", OF diff_before_count, of ?mid "sn_entries pre"]
    by (simp add: min_def)
qed

subsection \<open>Entry keys\<close>

lemma le_u64_inj: "a \<le> u64_max \<Longrightarrow> b \<le> u64_max \<Longrightarrow> le_u64 a = le_u64 b \<Longrightarrow> a = b"
  unfolding le_u64_def rev_is_rev_conv using from_be_bytes_u64 by metis

lemma length_le_u64 [simp]: "length (le_u64 n) = 8"
  by (simp add: le_u64_def)

definition short_names :: "string list \<Rightarrow> bool" where
  "short_names path \<longleftrightarrow> list_all (\<lambda>q. length q \<le> u64_max) path"

lemma component_bytes_inj:
  "short_names path \<Longrightarrow> short_names path' \<Longrightarrow>
     concat (map (\<lambda>q. le_u64 (min (length q) u64_max) @ q) path) = concat (map (\<lambda>q. le_u64 (min (length q) u64_max) @ q) path') \<Longrightarrow>
     path = path'"
proof (induction path arbitrary: path')
  case Nil
  then show ?case by (cases path') (auto dest: arg_cong [of _ _ length])
next
  case (Cons q path)
  show ?case
  proof (cases path')
    case Nil
    then show ?thesis using Cons.prems(3) by (auto dest: arg_cong [of _ _ length])
  next
    case (Cons q' rest)
    have short: "length q \<le> u64_max" "length q' \<le> u64_max" "short_names path" "short_names rest"
      using Cons.prems Cons by (simp_all add: short_names_def)
    then have "le_u64 (length q) = le_u64 (length q') \<and> q @ concat (map (\<lambda>q. le_u64 (min (length q) u64_max) @ q) path) =
        q' @ concat (map (\<lambda>q. le_u64 (min (length q) u64_max) @ q) rest)"
      using Cons.prems(3) Cons by (simp add: min_absorb1)
    moreover from this have "length q = length q'" using le_u64_inj short by blast
    ultimately show ?thesis using Cons.IH [OF short(3,4)] Cons by simp
  qed
qed

text \<open>The hashed bytes determine the selector and the path.\<close>

lemma entry_key_bytes_inj:
  assumes "short_names path" "short_names path'" "entry_key_bytes s path = entry_key_bytes s' path'"
  shows "s = s' \<and> path = path'"
proof -
  have "s = s'" using assms(3) by (cases s; cases s') (simp_all add: entry_key_bytes_def selector_str_def)
  then show ?thesis using component_bytes_inj [OF assms(1,2)] assms(3) by (simp add: entry_key_bytes_def)
qed

text \<open>The hash separates the keys of the given places.\<close>

definition separates :: "scan_setup \<Rightarrow> place set \<Rightarrow> bool" where
  "separates cfg ks \<longleftrightarrow>
     (\<forall>k \<in> ks. short_names (snd k)) \<and> inj_on (su_hash cfg) ((\<lambda>k. entry_key_bytes (fst k) (snd k)) ` ks)"

lemma separates_keys: "separates cfg ks \<Longrightarrow> inj_on (place_key cfg) ks"
proof (rule inj_onI)
  fix k k'
  assume s: "separates cfg ks" and k: "k \<in> ks" "k' \<in> ks" and eq: "place_key cfg k = place_key cfg k'"
  have "entry_key_bytes (fst k) (snd k) = entry_key_bytes (fst k') (snd k')"
    using s k eq unfolding separates_def place_key_def entry_key_def by (auto dest: inj_onD)
  then show "k = k'" using entry_key_bytes_inj [of "snd k" "snd k'" "fst k" "fst k'"] s k by (auto simp: separates_def prod_eq_iff)
qed

subsection \<open>The difference of two trees\<close>

definition tree_change :: "(place \<Rightarrow> file_stat option) \<Rightarrow> (place \<Rightarrow> file_stat option) \<Rightarrow> place \<Rightarrow> change option" where
  "tree_change pre post k =
     (case pre k of
        None \<Rightarrow> (case post k of None \<Rightarrow> None | Some _ \<Rightarrow> Some Created)
      | Some before \<Rightarrow>
          (case post k of
             None \<Rightarrow> Some Deleted
           | Some after \<Rightarrow> identity_change (identity_from_stat before) (identity_from_stat after)))"

definition change_class :: "scan_setup \<Rightarrow> (place \<Rightarrow> file_stat option) \<Rightarrow> (place \<Rightarrow> file_stat option) \<Rightarrow> place \<Rightarrow> discovery_class" where
  "change_class cfg pre post k =
     er_class (place_record cfg k (case post k of Some after \<Rightarrow> after | None \<Rightarrow> the (pre k)))"

lemma keyed_lookup:
  assumes "inj_on (place_key cfg) S" "k \<in> S"
  shows "fst ` set ps \<subseteq> S \<Longrightarrow> map_of (keyed cfg ps) (place_key cfg k) = map_option (place_record cfg k) (map_of ps k)"
proof (induction ps)
  case Nil
  then show ?case by (simp add: keyed_def)
next
  case (Cons p ps)
  obtain k' m where p: "p = (k', m)" by (cases p)
  have "place_key cfg k = place_key cfg k' \<longleftrightarrow> k = k'" using assms Cons.prems p by (auto dest: inj_onD)
  then show ?case using Cons p by (auto simp: keyed_def)
qed

lemma length_filter_places:
  assumes "distinct (map fst ps)"
  shows "length (filter (\<lambda>(k, m). Q k) ps) = card {k \<in> fst ` set ps. Q k}"
proof -
  have "distinct (map fst (filter (\<lambda>(k, m). Q k) ps))" using assms by (rule distinct_map_filter)
  then have "card (set (map fst (filter (\<lambda>(k, m). Q k) ps))) = length (map fst (filter (\<lambda>(k, m). Q k) ps))" by (rule distinct_card)
  moreover have "set (map fst (filter (\<lambda>(k, m). Q k) ps)) = {k \<in> fst ` set ps. Q k}" by force
  ultimately show ?thesis by simp
qed

lemma length_filter_keyed:
  assumes "distinct (map fst ps)"
    and "\<And>k m. (k, m) \<in> set ps \<Longrightarrow> P (place_key cfg k, place_record cfg k m) \<longleftrightarrow> Q k"
  shows "length (filter P (keyed cfg ps)) = card {k \<in> fst ` set ps. Q k}"
proof -
  have "filter P (keyed cfg ps) = keyed cfg (filter (\<lambda>(k, m). P (place_key cfg k, place_record cfg k m)) ps)"
    by (induction ps) (auto simp: keyed_def)
  moreover have "filter (\<lambda>(k, m). P (place_key cfg k, place_record cfg k m)) ps = filter (\<lambda>(k, m). Q k) ps"
    using assms(2) by (intro filter_cong) auto
  ultimately show ?thesis using length_filter_places [OF assms(1)] by (simp add: keyed_def)
qed

lemma keyed_difference:
  assumes keys: "distinct (map fst A)" "distinct (map fst B)" and inj: "inj_on (place_key cfg) (fst ` set A \<union> fst ` set B)"
  shows "length (filter (\<lambda>e. change_after (keyed cfg A) e = Some ch \<and> er_class (snd e) = c) (keyed cfg B)) +
     length (filter (\<lambda>e. change_before (keyed cfg B) e = Some ch \<and> er_class (snd e) = c) (keyed cfg A)) =
     card {k. tree_change (map_of A) (map_of B) k = Some ch \<and> change_class cfg (map_of A) (map_of B) k = c}"
proof -
  let ?Q = "\<lambda>k. tree_change (map_of A) (map_of B) k = Some ch \<and> change_class cfg (map_of A) (map_of B) k = c"
  note lookup = keyed_lookup [OF inj]
  have after: "change_after (keyed cfg A) (place_key cfg k, place_record cfg k m) = Some ch \<and>
      er_class (snd (place_key cfg k, place_record cfg k m)) = c \<longleftrightarrow> ?Q k" if "(k, m) \<in> set B" for k m
  proof -
    have "map_of B k = Some m" using that keys(2) by simp
    moreover have "k \<in> fst ` set A \<union> fst ` set B" using that by force
    ultimately show ?thesis
      using lookup [of k A] by (auto simp: change_after_def tree_change_def change_class_def place_record_def split: option.splits)
  qed
  have before: "change_before (keyed cfg B) (place_key cfg k, place_record cfg k m) = Some ch \<and>
      er_class (snd (place_key cfg k, place_record cfg k m)) = c \<longleftrightarrow> k \<notin> fst ` set B \<and> ?Q k" if "(k, m) \<in> set A" for k m
  proof -
    have "map_of A k = Some m" using that keys(1) by simp
    moreover have "k \<in> fst ` set A \<union> fst ` set B" using that by force
    moreover have "map_of B k = None \<longleftrightarrow> k \<notin> fst ` set B" by (rule map_of_eq_None_iff)
    ultimately show ?thesis
      using lookup [of k B] by (auto simp: change_before_def tree_change_def change_class_def)
  qed
  have parts: "{k. ?Q k} = {k \<in> fst ` set B. ?Q k} \<union> {k \<in> fst ` set A. k \<notin> fst ` set B \<and> ?Q k}"
    by (auto simp: tree_change_def map_of_eq_None_iff split: option.splits)
  have apart: "{k \<in> fst ` set B. ?Q k} \<inter> {k \<in> fst ` set A. k \<notin> fst ` set B \<and> ?Q k} = {}" by blast
  have "card {k. ?Q k} = card ({k \<in> fst ` set B. ?Q k} \<union> {k \<in> fst ` set A. k \<notin> fst ` set B \<and> ?Q k})"
    by (rule arg_cong [OF parts])
  also have "\<dots> = card {k \<in> fst ` set B. ?Q k} + card {k \<in> fst ` set A. k \<notin> fst ` set B \<and> ?Q k}"
    by (rule card_Un_disjoint [OF _ _ apart]) simp_all
  finally have total: "card {k. ?Q k} = card {k \<in> fst ` set B. ?Q k} + card {k \<in> fst ` set A. k \<notin> fst ` set B \<and> ?Q k}" .
  have news: "length (filter (\<lambda>e. change_after (keyed cfg A) e = Some ch \<and> er_class (snd e) = c) (keyed cfg B)) =
      card {k \<in> fst ` set B. ?Q k}"
    by (rule length_filter_keyed [OF keys(2)]) (rule after)
  have olds: "length (filter (\<lambda>e. change_before (keyed cfg B) e = Some ch \<and> er_class (snd e) = c) (keyed cfg A)) =
      card {k \<in> fst ` set A. k \<notin> fst ` set B \<and> ?Q k}"
    by (rule length_filter_keyed [OF keys(1)]) (rule before)
  show ?thesis unfolding total news olds by (rule refl)
qed
text \<open>
  C33: A published delta is the exact difference of two trees. When the report of two scans carries a
  delta, every directory of both trees held still while it was scanned, and for each kind of change and
  each class the delta counts exactly the observed paths that were created, modified in place, replaced
  by another object or deleted, up to saturation, provided the hash separates the keys of these paths.
\<close>

theorem published_delta_is_exact:
  assumes "scan cfg roots_pre = Ok pre" and "scan cfg roots_post = Ok post"
    and "dr_delta (discovery_report_of space pre (Some post) child limits) = Some delta"
    and "separates cfg (fst ` set (places roots_pre) \<union> fst ` set (places roots_post))"
  shows "delta_count delta ch c =
       min (card {k. tree_change (map_of (places roots_pre)) (map_of (places roots_post)) k = Some ch \<and>
         change_class cfg (map_of (places roots_pre)) (map_of (places roots_post)) k = c}) u64_max \<and>
     (\<forall>entry \<in> set (roots_pre @ roots_post). held_still (snd entry))"
proof -
  have complete: "sn_complete pre" "sn_complete post" and delta: "delta = snapshot_diff pre post"
    using assms(3) by (auto simp: discovery_report_of_def Let_def post_is_def split: if_splits)
  note a = scan_complete [OF assms(1) complete(1)] and b = scan_complete [OF assms(2) complete(2)]
  have "delta_count delta ch c =
      min (card {k. tree_change (map_of (places roots_pre)) (map_of (places roots_post)) k = Some ch \<and>
        change_class cfg (map_of (places roots_pre)) (map_of (places roots_post)) k = c}) u64_max"
    unfolding delta snapshot_diff_count a(1) b(1)
      keyed_difference [OF places_distinct [OF a(2)] places_distinct [OF b(2)] separates_keys [OF assms(4)]] by (rule refl)
  moreover have "\<forall>entry \<in> set (roots_pre @ roots_post). held_still (snd entry)" using a(3) b(3) by (simp only: set_append ball_Un)
  ultimately show ?thesis by (rule conjI)
qed

text \<open>A scan that stalled gives no delta.\<close>

lemma stalled_scans_carry_no_delta:
  "dr_delta (discovery_report_of space (stalled_snapshot selectors) post child limits) = None"
proof -
  have "sn_bounds_exceeded (foldl (\<lambda>sn s. sn\<lparr>sn_root_complete := (sn_root_complete sn)(s \<mapsto> False),
      sn_root_bounds_exceeded := (sn_root_bounds_exceeded sn)(s \<mapsto> True)\<rparr>) sn selectors) = sn_bounds_exceeded sn" for sn :: snapshot
    by (induction selectors arbitrary: sn) simp_all
  then have "sn_bounds_exceeded (stalled_snapshot selectors)" by (simp add: stalled_snapshot_def)
  then show ?thesis by (simp add: discovery_report_of_def Let_def split: option.splits)
qed

end
