(* ===== verification/Discovery_Completion.thy ===== *)
theory Discovery_Completion
  imports Discovery_Delta
begin

text \<open>
  A scan of trees that hold still and fit the limits completes when the clock and the memory allow it, and
  two such scans give a measured report.
\<close>

subsection \<open>Steps that are not disturbed\<close>

definition quiet_env :: "scan_env \<Rightarrow> bool" where
  "quiet_env env \<longleftrightarrow> (\<forall>n. se_elapsed env n < dl_phase_milliseconds (se_limits env)) \<and> (\<forall>n. se_reserve env n)"

definition loaded :: "(discovery_selector \<Rightarrow> root_identity option) \<Rightarrow> scanner \<Rightarrow> (string \<times> entry_record) list \<Rightarrow> nat \<Rightarrow> nat \<Rightarrow> bool" where
  "loaded ids sc es p b \<longleftrightarrow>
     sn_root_identities (sc_snapshot sc) = ids \<and> complete sc \<and> \<not> sn_bounds_exceeded (sc_snapshot sc) \<and> entries sc = es \<and> sc_pending_names sc = p \<and> sc_pending_name_bytes sc = b"

lemma loaded_timed_out: "quiet_env env \<Longrightarrow> loaded ids sc es p b \<Longrightarrow> \<exists>sc'. timed_out env sc = (False, sc') \<and> loaded ids sc' es p b"
  by (simp add: timed_out_def quiet_env_def loaded_def not_le)

lemma loaded_reserve: "quiet_env env \<Longrightarrow> loaded ids sc es p b \<Longrightarrow> \<exists>sc'. try_reserve env action sc = Ok sc' \<and> loaded ids sc' es p b"
  by (simp add: try_reserve_def quiet_env_def loaded_def)

lemma loaded_release: "loaded ids sc es (Suc p) (length name + b) \<Longrightarrow> loaded ids (release_pending_name name sc) es p b"
  by (simp add: release_pending_name_def loaded_def)

lemma loaded_limit:
  assumes "quiet_env env" "loaded ids sc es p b" "length es < dl_entries (se_limits env)"
    and "path_within (se_limits env) (relative @ [name])" "depth = length relative"
  shows "\<exists>sc'. limit_reached env relative name depth sc = (False, sc') \<and> loaded ids sc' es p b"
proof -
  obtain sc' where t: "timed_out env sc = (False, sc')" "loaded ids sc' es p b" using loaded_timed_out [OF assms(1,2)] by blast
  have "sum_list (map (\<lambda>value. length value + 1) relative) + length name = length (join_slash (relative @ [name]))"
    by (induction relative) (simp_all add: length_join_slash)
  moreover have "\<not> dl_depth (se_limits env) < min (depth + 1) u32_max" using assms(4,5) by (simp add: path_within_def)
  ultimately show ?thesis
    using t assms(3,4) by (auto simp: limit_reached_def path_within_def loaded_def Let_def)
qed

lemma loaded_record:
  assumes "quiet_env env" "loaded ids sc es p b" "distinct_keys (es @ [recorded env selector (path, m)])"
  shows "\<exists>sc'. record_entry env selector path m sc = Ok sc' \<and> loaded ids sc' (es @ [recorded env selector (path, m)]) p b"
proof -
  define owned where "owned = (if st_uid m \<noteq> se_uid env
    then on_snapshot (\<lambda>sn. sn\<lparr>sn_foreign_owned := sat_add (sn_foreign_owned sn) 1\<rparr>) sc else sc)"
  have "loaded ids owned es p b" using assms(2) by (simp add: owned_def loaded_def on_snapshot_def)
  then obtain sc' where r: "try_reserve env ''could not reserve bounded discovery entries'' owned = Ok sc'" "loaded ids sc' es p b"
    using loaded_reserve [OF assms(1)] by blast
  have "map_of es (entry_key (se_hash env) selector path) = None"
    using assms(3) by (simp add: distinct_keys_def recorded_def map_of_eq_None_iff)
  then show ?thesis
    using r by (auto simp: record_entry_def owned_def [symmetric] Let_def loaded_def on_snapshot_def recorded_def update_absent)
qed

definition name_bytes :: "node list \<Rightarrow> nat" where
  "name_bytes ns = sum_list (map (\<lambda>n. length (nd_name n)) ns)"

lemma name_bytes_simps [simp]: "name_bytes [] = 0" "name_bytes (n # ns) = length (nd_name n) + name_bytes ns"
  by (simp_all add: name_bytes_def)

lemma loaded_read_names:
  "quiet_env env \<Longrightarrow> limit_widths (se_limits env) \<Longrightarrow> loaded ids sc es p b \<Longrightarrow> stream \<Longrightarrow>
     length names + length (proper listing) \<le> remaining \<Longrightarrow> p + length (proper listing) \<le> u64_max \<Longrightarrow>
     b + name_bytes (proper listing) \<le> dl_pending_name_bytes (se_limits env) \<Longrightarrow>
     \<exists>sc'. read_names env remaining listing stream names sc = Ok (names @ proper listing, sc') \<and>
       loaded ids sc' es (p + length (proper listing)) (b + name_bytes (proper listing))"
proof (induction listing arbitrary: names sc p b)
  case Nil
  then show ?case by simp
next
  case (Cons n listing)
  show ?case
  proof (cases "nd_name n = ''.'' \<or> nd_name n = ''..''")
    case True
    then show ?thesis using Cons.IH [OF Cons.prems(1-4), of names] Cons.prems(5-7) by simp
  next
    case False
    obtain sc1 where t: "timed_out env sc = (False, sc1)" "loaded ids sc1 es p b" using loaded_timed_out [OF Cons.prems(1,3)] by blast
    obtain sc2 where r: "try_reserve env ''could not reserve bounded discovery names'' sc1 = Ok sc2" "loaded ids sc2 es p b"
      using loaded_reserve [OF Cons.prems(1) t(2)] by blast
    have fits: "length names < remaining" "p + 1 \<le> u64_max" "b + length (nd_name n) \<le> dl_pending_name_bytes (se_limits env)"
      using Cons.prems(5-7) False by simp_all
    have "b + length (nd_name n) \<le> u64_max" using fits(3) Cons.prems(2) by (simp add: limit_widths_def)
    then have exact: "sat_add p 1 = p + 1" "sat_add b (length (nd_name n)) = b + length (nd_name n)"
      using sat_add_exact fits(2) by blast+
    let ?sc3 = "sc2\<lparr>sc_pending_names := sat_add (sc_pending_names sc2) 1,
        sc_pending_name_bytes := sat_add (sc_pending_name_bytes sc2) (length (nd_name n))\<rparr>"
    have load: "loaded ids ?sc3 es (p + 1) (b + length (nd_name n))" using r(2) exact by (simp add: loaded_def)
    have "\<exists>sc'. read_names env remaining listing stream (names @ [n]) ?sc3 = Ok ((names @ [n]) @ proper listing, sc') \<and>
        loaded ids sc' es (p + 1 + length (proper listing)) (b + length (nd_name n) + name_bytes (proper listing))"
      by (rule Cons.IH [OF Cons.prems(1,2) load Cons.prems(4)]) (use Cons.prems(5-7) False in simp_all)
    then show ?thesis
      using False t r(1) fits(1,3) exact(2) by (auto simp: loaded_def Let_def)
  qed
qed

lemma loaded_scan_names:
  assumes "quiet_env env" "limit_widths (se_limits env)" "loaded ids sc es p b" "stream"
    and "length es + p + length (proper listing) \<le> dl_entries (se_limits env)"
    and "b + name_bytes (proper listing) \<le> dl_pending_name_bytes (se_limits env)"
  shows "\<exists>sc'. scan_names env listing stream sc = Ok (proper listing, sc') \<and>
     loaded ids sc' es (p + length (proper listing)) (b + name_bytes (proper listing))"
proof -
  obtain sc1 where r: "try_reserve env ''could not reserve bounded discovery memory'' sc = Ok sc1" "loaded ids sc1 es p b"
    using loaded_reserve [OF assms(1,3)] by blast
  have room: "length es + p + length (proper listing) \<le> u64_max" using assms(2,5) by (simp add: limit_widths_def)
  then have exact: "sat_add (length es) p = length es + p" by (intro sat_add_exact) simp
  have "\<exists>sc'. read_names env (dl_entries (se_limits env) - (length es + p)) listing stream [] sc1 = Ok ([] @ proper listing, sc') \<and>
      loaded ids sc' es (p + length (proper listing)) (b + name_bytes (proper listing))"
    by (rule loaded_read_names [OF assms(1,2) r(2) assms(4) _ _ assms(6)]) (use assms(5) room in simp_all)
  then show ?thesis using assms(3) r(1) exact by (auto simp: scan_names_def loaded_def Let_def)
qed

subsection \<open>A tree that fits\<close>

definition tree_bytes :: "string list \<Rightarrow> node list \<Rightarrow> nat" where
  "tree_bytes relative ns = sum_list (map (\<lambda>(path, m). length (last path)) (tree_entries relative ns))"

lemma tree_Cons:
  assumes "nd_stat n = SysOk m"
  shows "tree_entries relative (n # ns) = (relative @ [nd_name n], m) #
      (if is_dir m then tree_entries (relative @ [nd_name n]) (proper (nd_listing n)) else []) @ tree_entries relative ns"
    "tree_bytes relative (n # ns) = length (nd_name n) +
      (if is_dir m then tree_bytes (relative @ [nd_name n]) (proper (nd_listing n)) else 0) + tree_bytes relative ns"
  using assms by (simp_all add: tree_bytes_def tree_entries.simps(2))

lemma clean_stat: "clean device (n # ns) \<Longrightarrow> \<exists>m. nd_stat n = SysOk m"
  by (auto simp: clean_Cons split: sys.splits)

lemma clean_size: "clean device ns \<Longrightarrow> length ns \<le> length (tree_entries relative ns) \<and> name_bytes ns \<le> tree_bytes relative ns"
proof (induction ns)
  case (Cons n ns)
  obtain m where m: "nd_stat n = SysOk m" using clean_stat [OF Cons.prems] by blast
  have "clean device ns" using Cons.prems by (simp add: clean_Cons)
  with Cons.IH show ?case by (simp add: tree_Cons [OF m])
qed (simp add: tree_bytes_def)

definition tree_within :: "discovery_limits \<Rightarrow> string list \<Rightarrow> node list \<Rightarrow> bool" where
  "tree_within l relative ns \<longleftrightarrow> list_all (\<lambda>(path, m). path_within l path) (tree_entries relative ns)"

lemma visit_entries_completes:
  assumes quiet: "quiet_env env" and widths: "limit_widths (se_limits env)"
  shows "clean device ns \<Longrightarrow> depth = length relative \<Longrightarrow> tree_within (se_limits env) relative ns \<Longrightarrow>
     loaded ids sc es (length ns + p) (name_bytes ns + b) \<Longrightarrow>
     length es + length (tree_entries relative ns) + p \<le> dl_entries (se_limits env) \<Longrightarrow>
     tree_bytes relative ns + b \<le> dl_pending_name_bytes (se_limits env) \<Longrightarrow>
     distinct_keys (es @ below_entries env selector relative ns) \<Longrightarrow>
     \<exists>sc'. visit_entries env selector relative depth device ns sc = Ok sc' \<and> loaded ids sc' (es @ below_entries env selector relative ns) p b"
proof (induction relative ns arbitrary: device depth sc es p b rule: tree_entries.induct)
  case (1 relative)
  then show ?case by (simp add: below_entries_def)
next
  case (2 relative n ns)
  let ?path = "relative @ [nd_name n]" and ?l = "se_limits env"
  obtain m where m: "nd_stat n = SysOk m" using clean_stat [OF 2(3)] by blast
  have rest_clean: "clean device ns" using 2(3) by (simp add: clean_Cons)
  note size = clean_size [OF rest_clean, of relative]
  have here: "path_within ?l ?path" and rest_within: "tree_within ?l relative ns"
    using 2(5) by (simp_all add: tree_within_def tree_Cons [OF m])
  let ?e = "recorded env selector (?path, m)"
  let ?inner = "if is_dir m then below_entries env selector ?path (proper (nd_listing n)) else []"
  have below: "below_entries env selector relative (n # ns) = [?e] @ ?inner @ below_entries env selector relative ns"
    by (rule below_entries_Cons [OF m])
  have "loaded ids (release_pending_name (nd_name n) sc) es (length ns + p) (name_bytes ns + b)"
    by (rule loaded_release) (use 2(6) in \<open>simp add: ac_simps\<close>)
  then obtain sc1 where l: "limit_reached env relative (nd_name n) depth (release_pending_name (nd_name n) sc) = (False, sc1)"
      and load1: "loaded ids sc1 es (length ns + p) (name_bytes ns + b)"
    using loaded_limit [OF quiet _ _ here 2(4)] 2(7) by (force simp: tree_Cons [OF m])
  have "distinct_keys (es @ [?e])" using 2(9) unfolding below by (simp add: distinct_keys_def)
  then obtain sc2 where r: "record_entry env selector ?path m sc1 = Ok sc2" and load2: "loaded ids sc2 (es @ [?e]) (length ns + p) (name_bytes ns + b)"
    using loaded_record [OF quiet load1] by blast
  have inner: "\<exists>sc3. (if is_dir m
       then (case enter_child env selector n ?path device m sc2 of
               (None, sc) \<Rightarrow> Ok sc
             | (Some opened, sc) \<Rightarrow>
                 rbind (scan_names env (nd_listing n) (nd_stream n) sc) (\<lambda>(names, sc).
                 rbind (visit_entries env selector ?path (min (depth + 1) u32_max) (st_dev opened) names sc) (\<lambda>sc.
                 Ok (recheck_directory (nd_after n) (identity_from_stat m) sc))))
       else Ok sc2) = Ok sc3 \<and> loaded ids sc3 (es @ [?e] @ ?inner) (length ns + p) (name_bytes ns + b)"
  proof (cases "is_dir m")
    case False
    then show ?thesis using load2 by simp
  next
    case dir: True
    let ?names = "proper (nd_listing n)"
    obtain opened where opened: "entered n device m opened" "clean (st_dev opened) ?names" "nd_stream n" "unchanged_after (nd_after n) m"
      using 2(3) dir m by (auto simp: clean_Cons directory_clean_def)
    have enter: "enter_child env selector n ?path device m sc2 = (Some opened, sc2)"
      using opened(1) by (auto simp: enter_child_def entered_def may_traverse_def)
    note names_size = clean_size [OF opened(2), of ?path]
    obtain sc4 where names: "scan_names env (nd_listing n) (nd_stream n) sc2 = Ok (?names, sc4)"
        and load4: "loaded ids sc4 (es @ [?e]) (length ?names + (length ns + p)) (name_bytes ?names + (name_bytes ns + b))"
      using loaded_scan_names [OF quiet widths load2 opened(3)] 2(7,8) dir size names_size
      by (force simp: tree_Cons [OF m] ac_simps)
    have depth: "min (depth + 1) u32_max = length ?path"
      using here widths 2(4) by (simp add: path_within_def limit_widths_def)
    have "\<exists>sc5. visit_entries env selector ?path (min (depth + 1) u32_max) (st_dev opened) ?names sc4 = Ok sc5 \<and>
        loaded ids sc5 ((es @ [?e]) @ below_entries env selector ?path ?names) (length ns + p) (name_bytes ns + b)"
    proof (rule 2(1) [OF m dir opened(2) depth _ load4])
      show "tree_within ?l ?path ?names" using 2(5) dir by (simp add: tree_within_def tree_Cons [OF m])
      show "length (es @ [?e]) + length (tree_entries ?path ?names) + (length ns + p) \<le> dl_entries ?l"
        using 2(7) dir size by (simp add: tree_Cons [OF m])
      show "tree_bytes ?path ?names + (name_bytes ns + b) \<le> dl_pending_name_bytes ?l"
        using 2(8) dir size by (simp add: tree_Cons [OF m])
      show "distinct_keys ((es @ [?e]) @ below_entries env selector ?path ?names)"
        using 2(9) dir unfolding below by (auto simp: distinct_keys_def)
    qed
    then obtain sc5 where walk: "visit_entries env selector ?path (min (depth + 1) u32_max) (st_dev opened) ?names sc4 = Ok sc5"
        and load5: "loaded ids sc5 ((es @ [?e]) @ below_entries env selector ?path ?names) (length ns + p) (name_bytes ns + b)" by blast
    have "recheck_directory (nd_after n) (identity_from_stat m) sc5 = sc5"
      using opened(4) by (auto simp: recheck_directory_def unchanged_after_def split: sys.splits)
    then show ?thesis
      using load5 by (intro exI [of _ sc5]) (simp only: dir simp_thms if_True enter prod.case option.case names rbind_Inr walk append_assoc)
  qed
  then obtain sc3 where load3: "loaded ids sc3 (es @ [?e] @ ?inner) (length ns + p) (name_bytes ns + b)"
      and step: "visit_entries env selector relative depth device (n # ns) sc = visit_entries env selector relative depth device ns sc3"
    unfolding visit_entries.simps(2) l prod.case m sys.case Let_def r rbind_Inr by force
  have "\<exists>sc'. visit_entries env selector relative depth device ns sc3 = Ok sc' \<and>
      loaded ids sc' ((es @ [?e] @ ?inner) @ below_entries env selector relative ns) p b"
  proof (rule 2(2) [OF rest_clean 2(4) rest_within load3])
    show "length (es @ [?e] @ ?inner) + length (tree_entries relative ns) + p \<le> dl_entries ?l"
      using 2(7) by (simp add: tree_Cons [OF m] below_entries_def split: if_splits)
    show "tree_bytes relative ns + b \<le> dl_pending_name_bytes ?l" using 2(8) by (simp add: tree_Cons [OF m])
    show "distinct_keys ((es @ [?e] @ ?inner) @ below_entries env selector relative ns)" using 2(9) unfolding below by simp
  qed
  then show ?case unfolding step below by simp
qed

subsection \<open>Roots that are ready\<close>

definition ready_root :: "scan_setup \<Rightarrow> root_obs \<Rightarrow> bool" where
  "ready_root cfg root \<longleftrightarrow>
     held_still root \<and> ro_open root = SysOk () \<and>
     (\<exists>m. ro_stat root = SysOk m \<and> is_dir m \<and> st_uid m = su_uid cfg \<and> mode_bits (st_mode m) = 448) \<and>
     quiet_env (root_env cfg root) \<and> ro_merge root \<and>
     length (tree_entries [] (proper (ro_listing root))) \<le> dl_entries (su_limits cfg) \<and>
     tree_bytes [] (proper (ro_listing root)) \<le> dl_pending_name_bytes (su_limits cfg) \<and>
     tree_within (su_limits cfg) [] (proper (ro_listing root))"

definition root_id :: "root_obs \<Rightarrow> root_identity option" where
  "root_id root = (case ro_stat root of SysOk m \<Rightarrow> Some (root_identity_from_stat m) | _ \<Rightarrow> None)"

lemma scan_root_completes:
  assumes ready: "ready_root cfg root" and widths: "limit_widths (su_limits cfg)"
    and keys: "distinct_keys (keyed cfg (root_places (selector, root)))"
  shows "\<exists>sn. scan_root_with cfg selector root = Ok sn \<and> sn_complete sn \<and> \<not> sn_bounds_exceeded sn \<and>
     sn_entries sn = keyed cfg (root_places (selector, root)) \<and> sn_root_identities sn = (\<lambda>s. if s = selector then root_id root else None)"
proof -
  let ?env = "root_env cfg root" and ?names = "proper (ro_listing root)"
  have env: "se_limits ?env = su_limits cfg" by (simp add: root_env_def)
  obtain m where m: "ro_stat root = SysOk m" "is_dir m" "st_uid m = su_uid cfg" "mode_bits (st_mode m) = 448"
      and still: "ro_stream root" "clean (st_dev m) ?names" "unchanged_after (ro_after root) m"
      and quiet: "quiet_env ?env" and opens: "ro_open root = SysOk ()"
    using ready by (auto simp: ready_root_def held_still_def)
  let ?ids = "\<lambda>s. if s = selector then root_id root else None"
  let ?start = "on_snapshot (\<lambda>sn. sn\<lparr>sn_root_identities := (sn_root_identities sn)(selector \<mapsto> root_identity_from_stat m)\<rparr>) scanner_new"
  have start: "loaded ?ids ?start [] 0 0"
    by (auto simp: loaded_def on_snapshot_def scanner_new_def snapshot_default_def root_id_def m(1))
  note size = clean_size [OF still(2), of "[]"]
  obtain sc1 where names: "scan_names ?env (ro_listing root) (ro_stream root) ?start = Ok (?names, sc1)"
      and load1: "loaded ?ids sc1 [] (length ?names + 0) (name_bytes ?names + 0)"
    using loaded_scan_names [OF quiet _ start still(1), of "ro_listing root"] ready widths size
    by (auto simp: ready_root_def env)
  have "\<exists>sc'. visit_entries ?env selector [] 0 (st_dev m) ?names sc1 = Ok sc' \<and> loaded ?ids sc' ([] @ below_entries ?env selector [] ?names) 0 0"
    by (rule visit_entries_completes [OF quiet _ still(2) _ _ load1])
      (use ready widths keys in \<open>simp_all add: ready_root_def env below_entries_keyed\<close>)
  then obtain sc2 where run: "visit_entries ?env selector [] 0 (st_dev m) ?names sc1 = Ok sc2"
      and load2: "loaded ?ids sc2 (keyed cfg (root_places (selector, root))) 0 0"
    by (auto simp: below_entries_keyed)
  have "recheck_directory (ro_after root) (identity_from_stat m) sc2 = sc2"
    using still(3) by (auto simp: recheck_directory_def unchanged_after_def split: sys.splits)
  then show ?thesis
    using load2 names run m opens by (simp add: scan_root_with_def open_discovery_root_def walk_def loaded_def Let_def)
qed

lemma merge_entries_apart:
  "distinct_keys (sn_entries sn @ es) \<Longrightarrow> foldl merge_entry sn es = sn\<lparr>sn_entries := sn_entries sn @ es\<rparr>"
proof (induction es arbitrary: sn)
  case (Cons e es)
  have "merge_entry sn e = sn\<lparr>sn_entries := sn_entries sn @ [e]\<rparr>"
    using Cons.prems by (auto simp: merge_entry_def Let_def distinct_keys_def update_absent map_of_eq_None_iff)
  then show ?case using Cons.IH [of "sn\<lparr>sn_entries := sn_entries sn @ [e]\<rparr>"] Cons.prems by simp
qed simp

definition root_ids :: "(discovery_selector \<times> root_obs) list \<Rightarrow> discovery_selector \<Rightarrow> root_identity option" where
  "root_ids roots = foldl (\<lambda>ids entry. ids ++ (\<lambda>s. if s = fst entry then root_id (snd entry) else None)) Map.empty roots"

lemma scan_from_completes:
  assumes widths: "limit_widths (su_limits cfg)"
  shows "\<forall>entry \<in> set roots. ready_root cfg (snd entry) \<Longrightarrow> sn_complete combined \<Longrightarrow> \<not> sn_bounds_exceeded combined \<Longrightarrow>
     distinct_keys (sn_entries combined @ keyed cfg (places roots)) \<Longrightarrow>
     \<exists>sn. rfold (scan_one cfg) combined roots = Ok sn \<and> sn_complete sn \<and> \<not> sn_bounds_exceeded sn \<and>
       sn_root_identities sn =
         foldl (\<lambda>ids entry. ids ++ (\<lambda>s. if s = fst entry then root_id (snd entry) else None)) (sn_root_identities combined) roots"
proof (induction roots arbitrary: combined)
  case Nil
  then show ?case by simp
next
  case (Cons entry roots)
  obtain selector root where entry: "entry = (selector, root)" by (cases entry)
  have split: "keyed cfg (places (entry # roots)) = keyed cfg (root_places (selector, root)) @ keyed cfg (places roots)"
    by (simp add: places_def keyed_def entry)
  have "distinct_keys (keyed cfg (root_places (selector, root)))"
    using Cons.prems(4) unfolding split by (simp add: distinct_keys_def)
  then obtain part where part: "scan_root_with cfg selector root = Ok part" "sn_complete part" "\<not> sn_bounds_exceeded part"
      "sn_entries part = keyed cfg (root_places (selector, root))" "sn_root_identities part = (\<lambda>s. if s = selector then root_id root else None)"
    using scan_root_completes [OF _ widths, of root selector] Cons.prems(1) entry by auto
  have "distinct_keys (sn_entries combined @ sn_entries part)"
    using Cons.prems(4) unfolding split part(4) by (auto simp: distinct_keys_def)
  note merged = merge_entries_apart [OF this]
  have "ro_merge root" using Cons.prems(1) entry by (simp add: ready_root_def)
  then obtain mid where mid: "merge_snapshot (ro_merge root) combined part = Ok mid" "sn_complete mid" "\<not> sn_bounds_exceeded mid"
      "sn_entries mid = sn_entries combined @ sn_entries part"
      "sn_root_identities mid = sn_root_identities combined ++ (\<lambda>s. if s = selector then root_id root else None)"
    using merged part(2,3,5) Cons.prems(2,3) by (simp add: merge_snapshot_def Let_def)
  have step: "scan_one cfg combined entry = Ok mid" using part(1) mid(1) by (simp add: scan_one_def entry)
  have "distinct_keys (sn_entries mid @ keyed cfg (places roots))"
    using Cons.prems(4) unfolding split mid(4) part(4) by simp
  then have "\<exists>sn. rfold (scan_one cfg) mid roots = Ok sn \<and> sn_complete sn \<and> \<not> sn_bounds_exceeded sn \<and>
      sn_root_identities sn =
        foldl (\<lambda>ids entry. ids ++ (\<lambda>s. if s = fst entry then root_id (snd entry) else None)) (sn_root_identities mid) roots"
    using Cons.IH [of mid] Cons.prems(1) mid(2,3) by simp
  then show ?case unfolding rfold.simps step rbind_Inr foldl.simps mid(5) unfolding entry fst_conv snd_conv .
qed

lemma scan_completes:
  assumes "limit_widths (su_limits cfg)" "\<forall>entry \<in> set roots. ready_root cfg (snd entry)" "distinct_keys (keyed cfg (places roots))"
  shows "\<exists>sn. scan cfg roots = Ok sn \<and> sn_complete sn \<and> \<not> sn_bounds_exceeded sn \<and> sn_root_identities sn = root_ids roots"
  using scan_from_completes [OF assms(1,2), of snapshot_default] assms(3)
  by (simp add: scan_def root_ids_def snapshot_default_def)

lemma keyed_distinct:
  assumes "distinct (map fst ps)" "separates cfg (fst ` set ps)"
  shows "distinct_keys (keyed cfg ps)"
proof -
  have "map fst (keyed cfg ps) = map (place_key cfg) (map fst ps)" by (simp add: keyed_def case_prod_beta)
  moreover have "distinct (map (place_key cfg) (map fst ps))"
    using assms(1) separates_keys [OF assms(2)] by (subst distinct_map) (simp add: assms(1))
  ultimately show ?thesis by (simp only: distinct_keys_def)
qed

text \<open>
  C35: An undisturbed discovery is measured. When both times every selected root is a private directory whose
  tree holds still and fits the limits, the clock stays within the time of a phase, memory can be reserved,
  the roots are the same directories and the hash separates the observed paths, both scans return and
  the report is measured, complete and carries a delta.
\<close>

theorem undisturbed_discovery_is_measured:
  assumes "limit_widths (su_limits cfg)"
    and "\<forall>entry \<in> set (roots_pre @ roots_post). ready_root cfg (snd entry)"
    and "distinct (map fst (places roots_pre))" and "distinct (map fst (places roots_post))"
    and "separates cfg (fst ` set (places roots_pre))" and "separates cfg (fst ` set (places roots_post))"
    and "root_ids roots_pre = root_ids roots_post"
  shows "\<exists>pre post delta. scan cfg roots_pre = Ok pre \<and> scan cfg roots_post = Ok post \<and>
     dr_delta (discovery_report_of space pre (Some post) child limits) = Some delta \<and>
     dr_state (discovery_report_of space pre (Some post) child limits) = ''measured'' \<and>
     dr_complete (discovery_report_of space pre (Some post) child limits)"
proof -
  obtain pre where pre: "scan cfg roots_pre = Ok pre" "sn_complete pre" "\<not> sn_bounds_exceeded pre" "sn_root_identities pre = root_ids roots_pre"
    using scan_completes [OF assms(1) _ keyed_distinct [OF assms(3,5)]] assms(2) by auto
  obtain post where post: "scan cfg roots_post = Ok post" "sn_complete post" "\<not> sn_bounds_exceeded post"
      "sn_root_identities post = root_ids roots_post"
    using scan_completes [OF assms(1) _ keyed_distinct [OF assms(4,6)]] assms(2) by auto
  have "\<not> list_ex (\<lambda>s. sn_root_identities pre s \<noteq> sn_root_identities post s) [SelectHome, SelectRuntime]"
    using pre(4) post(4) assms(7) by simp
  then show ?thesis
    using pre post by (simp add: discovery_report_of_def post_is_def Let_def)
qed

subsection \<open>One discovery\<close>

text \<open>A home with a file \<open>a\<close>; the command rewrites it and creates a directory \<open>d\<close> with a file \<open>token\<close>.\<close>

definition dw_stat :: "nat \<Rightarrow> nat \<Rightarrow> int \<Rightarrow> file_stat" where
  "dw_stat i mode t =
     \<lparr>st_dev = 0, st_ino = i, st_uid = 0, st_gid = 0, st_mode = mode, st_nlink = 1, st_size = 0, st_mtime = t, st_mtime_nsec = 0,
      st_ctime = t, st_ctime_nsec = 0\<rparr>"

definition dw_file :: "string \<Rightarrow> nat \<Rightarrow> int \<Rightarrow> node" where
  "dw_file n i t = Node n (SysOk (dw_stat i 33152 t)) DirectoryFails SysFail SysFail [] True SysFail"

definition dw_directory :: node where
  "dw_directory =
     Node ''d'' (SysOk (dw_stat 3 16832 1)) DirectoryOpened (SysOk (dw_stat 3 16832 1)) SysFail [dw_file ''token'' 4 1] True
       (SysOk (dw_stat 3 16832 1))"

definition dw_root :: "node list \<Rightarrow> int \<Rightarrow> root_obs" where
  "dw_root ns t =
     \<lparr>ro_open = SysOk (), ro_stat = SysOk (dw_stat 1 16832 t), ro_listing = ns, ro_stream = True, ro_after = SysOk (dw_stat 1 16832 t),
      ro_elapsed = (\<lambda>_. 0), ro_reserve = (\<lambda>_. True), ro_merge = True\<rparr>"

definition dw_pre :: "(discovery_selector \<times> root_obs) list" where
  "dw_pre = [(SelectHome, dw_root [dw_file ''a'' 2 0] 0)]"

definition dw_post :: "(discovery_selector \<times> root_obs) list" where
  "dw_post = [(SelectHome, dw_root [dw_file ''a'' 2 1, dw_directory] 1)]"

definition dw_setup :: scan_setup where
  "dw_setup = \<lparr>su_uid = 0, su_limits = DISCOVERY_ALPHA, su_caches = linux_derived_cache_directories, su_hash = id\<rparr>"

lemma dw_stat_sel:
  "st_mode (dw_stat i mode t) = mode" "st_uid (dw_stat i mode t) = 0" "st_dev (dw_stat i mode t) = 0"
  "s_kind 33152 = S_IFREG" "s_kind 16832 = S_IFDIR" "S_IFREG \<noteq> S_IFDIR" "S_IFREG \<noteq> S_IFSOCK" "S_IFDIR \<noteq> S_IFSOCK" "(16832 :: nat) AND 320 = 320"
  by (simp_all add: dw_stat_def s_kind_def S_IFMT_def s_kinds)

lemma dw_trees:
  "tree_entries [] (proper [dw_file ''a'' 2 0]) = [([''a''], dw_stat 2 33152 0)]"
  "tree_entries [] (proper [dw_file ''a'' 2 1, dw_directory]) =
     [([''a''], dw_stat 2 33152 1), ([''d''], dw_stat 3 16832 1), ([''d'', ''token''], dw_stat 4 33152 1)]"
  by (simp_all add: dw_file_def dw_directory_def tree_entries.simps(2) dw_stat_sel)

lemma dw_clean: "clean 0 (proper [dw_file ''a'' 2 0])" "clean 0 (proper [dw_file ''a'' 2 1, dw_directory])"
  by (simp_all add: dw_file_def dw_directory_def clean.simps(2) dw_stat_sel mount_is_local_def)

lemma dw_places:
  "places dw_pre = [((SelectHome, [''a'']), dw_stat 2 33152 0)]"
  "places dw_post =
     [((SelectHome, [''a'']), dw_stat 2 33152 1), ((SelectHome, [''d'']), dw_stat 3 16832 1),
      ((SelectHome, [''d'', ''token'']), dw_stat 4 33152 1)]"
  by (simp_all add: places_def root_places_def dw_pre_def dw_post_def dw_root_def dw_trees del: proper_simps)

lemma dw_ready: "\<forall>entry \<in> set (dw_pre @ dw_post). ready_root dw_setup (snd entry)"
proof -
  have quiet: "quiet_env (root_env dw_setup (dw_root ns t))" for ns t
    by (simp add: quiet_env_def root_env_def dw_root_def dw_setup_def DISCOVERY_ALPHA_def)
  have "ready_root dw_setup (dw_root [dw_file ''a'' 2 0] 0)" "ready_root dw_setup (dw_root [dw_file ''a'' 2 1, dw_directory] 1)"
    using quiet
    by (simp_all add: ready_root_def held_still_def dw_root_def dw_clean dw_trees dw_stat_sel unchanged_after_def dw_setup_def
        DISCOVERY_ALPHA_def tree_bytes_def tree_within_def path_within_def mode_bits_mod del: proper_simps)
  then show ?thesis by (simp add: dw_pre_def dw_post_def)
qed

lemma dw_widths: "limit_widths (su_limits dw_setup)"
  by (simp add: limit_widths_def dw_setup_def DISCOVERY_ALPHA_def u64_max_num u32_max_num)

lemma dw_separates: "separates dw_setup (fst ` set (places dw_pre) \<union> fst ` set (places dw_post))"
  by (simp add: separates_def dw_setup_def dw_places short_names_def u64_max_num)

lemma dw_parts: "separates dw_setup (fst ` set (places dw_pre))" "separates dw_setup (fst ` set (places dw_post))"
  by (simp_all add: separates_def dw_setup_def dw_places short_names_def u64_max_num)

lemma dw_distinct: "distinct (map fst (places dw_pre))" "distinct (map fst (places dw_post))"
  by (simp_all add: dw_places)

lemma dw_ids: "root_ids dw_pre = root_ids dw_post"
  by (simp add: root_ids_def dw_pre_def dw_post_def dw_root_def root_id_def root_identity_from_stat_def dw_stat_def cong: if_cong)

theorem undisturbed_discovery_is_measured_witness:
  "\<exists>pre post delta. scan dw_setup dw_pre = Ok pre \<and> scan dw_setup dw_post = Ok post \<and>
     dr_delta (discovery_report_of ''s'' pre (Some post) \<lparr>dc_exit_code = Some 0, dc_signal = None\<rparr> DISCOVERY_ALPHA) = Some delta \<and>
     dr_state (discovery_report_of ''s'' pre (Some post) \<lparr>dc_exit_code = Some 0, dc_signal = None\<rparr> DISCOVERY_ALPHA) = ''measured'' \<and>
     dr_complete (discovery_report_of ''s'' pre (Some post) \<lparr>dc_exit_code = Some 0, dc_signal = None\<rparr> DISCOVERY_ALPHA)"
  by (rule undisturbed_discovery_is_measured [OF dw_widths dw_ready dw_distinct dw_parts dw_ids])

theorem scans_stay_within_their_limits_witness:
  "\<exists>sn. scan_root_with dw_setup SelectHome (dw_root [dw_file ''a'' 2 0] 0) = Ok sn \<and> length (sn_entries sn) \<le> 262144"
proof -
  have "distinct_keys (keyed dw_setup (root_places (SelectHome, dw_root [dw_file ''a'' 2 0] 0)))"
    using keyed_distinct [OF dw_distinct(1) dw_parts(1)] by (simp add: places_def dw_pre_def)
  then obtain sn where sn: "scan_root_with dw_setup SelectHome (dw_root [dw_file ''a'' 2 0] 0) = Ok sn"
    using scan_root_completes [OF _ dw_widths] dw_ready by (force simp: dw_pre_def)
  have "length (sn_entries sn) \<le> 262144"
    using scans_stay_within_their_limits [OF sn dw_widths] by (simp add: dw_setup_def DISCOVERY_ALPHA_def)
  with sn show ?thesis by blast
qed

theorem published_delta_is_exact_witness:
  "\<exists>pre post delta. scan dw_setup dw_pre = Ok pre \<and> scan dw_setup dw_post = Ok post \<and>
     dr_delta (discovery_report_of ''s'' pre (Some post) \<lparr>dc_exit_code = Some 0, dc_signal = None\<rparr> DISCOVERY_ALPHA) = Some delta \<and>
     delta_count delta Created ClassCredentialShaped = 1"
proof -
  let ?report = "\<lambda>pre post. discovery_report_of ''s'' pre (Some post) \<lparr>dc_exit_code = Some 0, dc_signal = None\<rparr> DISCOVERY_ALPHA"
  obtain pre where pre: "scan dw_setup dw_pre = Ok pre" "sn_complete pre" "\<not> sn_bounds_exceeded pre" "sn_root_identities pre = root_ids dw_pre"
    using scan_completes [OF dw_widths _ keyed_distinct [OF dw_distinct(1) dw_parts(1)]] dw_ready by auto
  obtain post where post: "scan dw_setup dw_post = Ok post" "sn_complete post" "\<not> sn_bounds_exceeded post"
      "sn_root_identities post = root_ids dw_post"
    using scan_completes [OF dw_widths _ keyed_distinct [OF dw_distinct(2) dw_parts(2)]] dw_ready by auto
  obtain delta where delta: "dr_delta (?report pre post) = Some delta"
    using pre post dw_ids by (simp add: discovery_report_of_def post_is_def Let_def)
  have created: "{k. tree_change (map_of (places dw_pre)) (map_of (places dw_post)) k = Some Created \<and>
      change_class dw_setup (map_of (places dw_pre)) (map_of (places dw_post)) k = ClassCredentialShaped} = {(SelectHome, [''d'', ''token''])}"
  proof -
    have classes: "classify [] SelectHome [''d''] 16832 = ClassData" "classify [] SelectHome [''d'', ''token''] 33152 = ClassCredentialShaped"
      by (simp_all add: classify_def credential_shaped_components_def credential_shaped_component_def joined_ascii_lowercase_def
          ascii_lowercase_def to_ascii_lowercase_def byte_in_def CREDENTIAL_PREFIXES_def CREDENTIAL_COMPONENTS_def CREDENTIAL_SUFFIXES_def
          strip_prefix_def starts_with_def ends_with_def dw_stat_sel derived_cache_def components_start_with_def Let_def)
    have moved: "identity_change x y \<noteq> Some Created" for x y by (simp add: identity_change_def)
    have no_caches: "su_caches dw_setup = []" by (simp add: dw_setup_def linux_derived_cache_directories_def)
    show ?thesis
    proof (rule set_eqI)
      fix k
      consider "k = (SelectHome, [''a''])" | "k = (SelectHome, [''d''])" | "k = (SelectHome, [''d'', ''token''])"
        | "k \<notin> {(SelectHome, [''a'']), (SelectHome, [''d'']), (SelectHome, [''d'', ''token''])}" by blast
      then show "k \<in> {k. tree_change (map_of (places dw_pre)) (map_of (places dw_post)) k = Some Created \<and>
          change_class dw_setup (map_of (places dw_pre)) (map_of (places dw_post)) k = ClassCredentialShaped} \<longleftrightarrow>
          k \<in> {(SelectHome, [''d'', ''token''])}"
        by cases (simp_all add: tree_change_def change_class_def dw_places place_record_def no_caches classes dw_stat_sel moved)
    qed
  qed
  have "delta_count delta Created ClassCredentialShaped = 1"
    using published_delta_is_exact [OF pre(1) post(1) delta dw_separates, of Created ClassCredentialShaped]
    by (simp add: created u64_max_num)
  with pre(1) post(1) delta show ?thesis by blast
qed

end
