(* ===== verification/Clone_Walk.thy ===== *)
theory Clone_Walk
  imports Tree_Observation
begin

text \<open>
  The tree walk behind clones, artifacts and rollbacks (\<open>store/lifecycle/walk.rs\<close>,
  \<open>store/lifecycle/walk/support.rs\<close>) with its report (\<open>store/lifecycle/policy.rs\<close>). The source home is an
  observation: for one name the outcome of every call the walker may make on it, whichever kind
  the first lookup reports. The staging home is the map from relative paths to what has been
  written there; a call that creates a name fails when the name exists. The outcomes of the calls
  on the staging side are a function of the call and the path, since no call is made twice on one path.

  \<open>SysNotFound\<close> of a call on a source entry stands for \<open>ENOENT\<close>, \<open>ELOOP\<close> and \<open>ENOTDIR\<close>, which
  \<open>source_entry_error\<close> does not tell apart. A failed walk returns no staging tree: its callers remove
  the whole staging directory. Umask, allocation failures and the test hooks are not modelled.
\<close>

subsection \<open>Policy and report\<close>

datatype clone_mode = Preview | Execute

record clone_policy =
  po_include_cache :: bool
  po_includes_sensitive_state :: bool

record clone_counts =
  cc_entries :: nat
  cc_files :: nat
  cc_directories :: nat
  cc_symlinks :: nat
  cc_logical_bytes :: nat

record clone_exclusions =
  ce_cache_roots :: nat
  ce_sockets :: nat
  ce_fifos :: nat
  ce_devices :: nat
  ce_foreign_owned :: nat
  ce_hard_linked_files_copied_independently :: nat
  ce_symlinks_into_omitted_cache_roots :: nat
  ce_managed_command_links :: nat

record clone_report =
  cr_source :: string
  cr_destination :: string
  cr_mode :: clone_mode
  cr_layout :: space_layout
  cr_destination_space_id :: "string option"
  cr_policy :: clone_policy
  cr_limits :: clone_limits
  cr_counts :: clone_counts
  cr_exclusions :: clone_exclusions
  cr_metadata_not_preserved :: "string list"
  cr_detached_processes :: string
  cr_embedded_absolute_paths :: string

definition clone_counts_default :: clone_counts where
  "clone_counts_default =
     \<lparr>cc_entries = 0, cc_files = 0, cc_directories = 0, cc_symlinks = 0, cc_logical_bytes = 0\<rparr>"

definition clone_exclusions_default :: clone_exclusions where
  "clone_exclusions_default =
     \<lparr>ce_cache_roots = 0, ce_sockets = 0, ce_fifos = 0, ce_devices = 0, ce_foreign_owned = 0,
      ce_hard_linked_files_copied_independently = 0, ce_symlinks_into_omitted_cache_roots = 0,
      ce_managed_command_links = 0\<rparr>"

definition clone_report_new :: "string \<Rightarrow> string \<Rightarrow> clone_mode \<Rightarrow> space_layout \<Rightarrow> bool \<Rightarrow> clone_report" where
  "clone_report_new source destination mode layout cache =
     \<lparr>cr_source = source, cr_destination = destination, cr_mode = mode, cr_layout = layout,
      cr_destination_space_id = None,
      cr_policy = \<lparr>po_include_cache = cache, po_includes_sensitive_state = True\<rparr>,
      cr_limits = ALPHA, cr_counts = clone_counts_default, cr_exclusions = clone_exclusions_default,
      cr_metadata_not_preserved =
        [''timestamps'', ''ACLs'', ''extended attributes'', ''filesystem flags'',
         ''set-user-ID, set-group-ID and sticky mode bits'', ''sparse extent layout'',
         ''hard-link relationships''],
      cr_detached_processes = ''unknown'',
      cr_embedded_absolute_paths = ''copied without rewriting and may still select source state''\<rparr>"

subsection \<open>Observations of the source\<close>

record source_file =
  sf_opened :: "file_stat sys"
  sf_get_flags :: "unit sys"
  sf_set_flags :: "unit sys"
  sf_reads :: "string list"
  sf_readable :: bool
  sf_post :: "file_stat sys"

datatype source_node = SourceNode
    (sn_name: string) (sn_stat: "file_stat sys") (sn_directory: "source_directory sys")
    (sn_file: "source_file sys") (sn_target: "string sys") (sn_after: "file_stat sys")
  and source_directory = SourceDirectory
    (sd_opened: "file_stat sys") (sd_listing: "source_node list") (sd_complete: bool)
    (sd_mode: "file_stat sys") (sd_post: "file_stat sys")

fun source_weight :: "source_node \<Rightarrow> nat" where
  "source_weight (SourceNode n s (SysOk (SourceDirectory opened ns complete mode post)) f t a) =
     Suc (sum_list (map source_weight ns))"
| "source_weight (SourceNode n s d f t a) = 1"

definition source_weights :: "source_node list \<Rightarrow> nat" where
  "source_weights ns = sum_list (map source_weight ns)"

lemma source_weights_simps [simp]:
  "source_weights [] = 0" "source_weights (n # ns) = source_weight n + source_weights ns"
  by (simp_all add: source_weights_def)

lemma source_weight_pos [simp]: "source_weight n > 0"
  by (cases n rule: source_weight.cases) simp_all

lemma source_weight_directory:
  "sn_directory n = SysOk d \<Longrightarrow> source_weight n = Suc (source_weights (sd_listing d))"
  by (cases n; cases d) (simp add: source_weights_def)

definition source_listed :: "source_node list \<Rightarrow> source_node list" where
  "source_listed ns = sort_key sn_name (filter (\<lambda>n. \<not> dot_entry (sn_name n)) ns)"

lemma source_weights_insort: "source_weights (insort_key f x ns) = source_weight x + source_weights ns"
  by (induction ns) auto

lemma source_weights_listed: "source_weights (source_listed ns) \<le> source_weights ns"
proof -
  have "source_weights (sort_key f xs) = source_weights xs" for f :: "source_node \<Rightarrow> string" and xs
    by (induction xs) (auto simp: source_weights_insort)
  moreover have "source_weights (filter P xs) \<le> source_weights xs" for P xs
    by (induction xs) auto
  ultimately show ?thesis by (simp add: source_listed_def)
qed

subsection \<open>The walker\<close>

datatype staged_node = StagedDirectory nat | StagedFile nat string | StagedLink string

datatype staging_call =
  MakeDirectory | OpenDirectory | MakeFile | WriteBlock nat | ChangeFileMode | SyncFile | MakeLink
| ChangeDirectoryMode | SyncStagedDirectory

record walk_control =
  wc_artifact_source :: bool
  wc_recreate_cache_roots :: bool

definition walk_control_default :: walk_control where
  "walk_control_default = \<lparr>wc_artifact_source = False, wc_recreate_cache_roots = True\<rparr>"

definition walk_control_for_artifact :: walk_control where
  "walk_control_for_artifact = \<lparr>wc_artifact_source = True, wc_recreate_cache_roots = False\<rparr>"

text \<open>
  What one walk is given besides the trees: the control, whether there is a destination, the current
  user, the derived cache directories of the platform, and the failing calls on the staging side.
\<close>

record walk_env =
  we_control :: walk_control
  we_destination :: bool
  we_uid :: nat
  we_derived_caches :: "string list"
  we_fails :: "staging_call \<Rightarrow> string list \<Rightarrow> bool"

record walker =
  wk_report :: clone_report
  wk_excluded_cache_roots :: "string list list"
  wk_symlinks_by_cache_root :: "string list \<Rightarrow> nat option"
  wk_buffered_entries :: nat
  wk_staging :: "string list \<Rightarrow> staged_node option"

definition cache_roots :: "walk_env \<Rightarrow> string list list" where
  "cache_roots env = [''.cache''] # map split_slash (we_derived_caches env)"

definition walker_new :: "walk_env \<Rightarrow> clone_report \<Rightarrow> walker" where
  "walker_new env report =
     \<lparr>wk_report = report, wk_excluded_cache_roots = [], wk_symlinks_by_cache_root = (\<lambda>_. None),
      wk_buffered_entries = 0,
      wk_staging = (\<lambda>p. if we_destination env \<and> p = [] then Some (StagedDirectory 448) else None)\<rparr>"

definition count_up :: "(clone_counts \<Rightarrow> clone_counts) \<Rightarrow> walker \<Rightarrow> walker" where
  "count_up f w = w\<lparr>wk_report := (wk_report w)\<lparr>cr_counts := f (cr_counts (wk_report w))\<rparr>\<rparr>"

definition exclude_up :: "(clone_exclusions \<Rightarrow> clone_exclusions) \<Rightarrow> walker \<Rightarrow> walker" where
  "exclude_up f w = w\<lparr>wk_report := (wk_report w)\<lparr>cr_exclusions := f (cr_exclusions (wk_report w))\<rparr>\<rparr>"

abbreviation walker_limits :: "walker \<Rightarrow> clone_limits" where
  "walker_limits w \<equiv> cr_limits (wk_report w)"

subsection \<open>Errors and identity\<close>

definition changed_source :: "'a result" where
  "changed_source = Err CorruptState ''source entry changed during clone''"

fun source_entry_call :: "string \<Rightarrow> 'a sys \<Rightarrow> 'a result" where
  "source_entry_call operation (SysOk x) = Ok x"
| "source_entry_call operation SysNotFound = changed_source"
| "source_entry_call operation SysFail = Err SystemError operation"

definition nix_call :: "string \<Rightarrow> 'a sys \<Rightarrow> 'a result" where
  "nix_call operation r = (case r of SysOk x \<Rightarrow> Ok x | _ \<Rightarrow> Err SystemError operation)"

definition entry_metadata :: "file_stat sys \<Rightarrow> file_stat result" where
  "entry_metadata r = source_entry_call ''could not inspect source entry'' r"

definition walk_verify_identity :: "file_stat \<Rightarrow> file_stat \<Rightarrow> nat \<Rightarrow> unit result" where
  "walk_verify_identity expected actual k = (if same_entry expected actual k then Ok () else changed_source)"

lemma source_entry_call_ok [result_simps]: "source_entry_call m r = Ok x \<longleftrightarrow> r = SysOk x"
  by (cases r) (auto simp: changed_source_def)

lemma nix_call_ok [result_simps]: "nix_call m r = Ok x \<longleftrightarrow> r = SysOk x"
  by (cases r) (auto simp: nix_call_def)

lemma entry_metadata_ok [result_simps]: "entry_metadata r = Ok x \<longleftrightarrow> r = SysOk x"
  by (simp add: entry_metadata_def result_simps)

lemma walk_verify_identity_ok [result_simps]:
  "walk_verify_identity a b k = Ok u \<longleftrightarrow> b = a \<and> s_kind (st_mode a) = k"
  by (auto simp: walk_verify_identity_def same_entry_iff changed_source_def)

subsection \<open>Listings and paths (\<open>walk/support.rs\<close>)\<close>

fun gather_names :: "nat \<Rightarrow> source_node list \<Rightarrow> source_node list \<Rightarrow> bool \<Rightarrow> source_node list result" where
  "gather_names available names [] complete =
     (if complete then Ok names else Err SystemError ''could not read source directory'')"
| "gather_names available names (n # ns) complete =
     (if dot_entry (sn_name n) then gather_names available names ns complete
      else if length names \<ge> available then Err ResourceLimit ''clone entry count exceeds the limit''
      else gather_names available (names @ [n]) ns complete)"

definition clone_directory_names :: "source_directory \<Rightarrow> nat \<Rightarrow> source_node list result" where
  "clone_directory_names d available =
     rbind (gather_names available [] (sd_listing d) (sd_complete d)) (\<lambda>names. Ok (sort_key sn_name names))"

fun sum_component_bytes :: "nat \<Rightarrow> string list \<Rightarrow> nat result" where
  "sum_component_bytes components [] = Ok components"
| "sum_component_bytes components (c # path) =
     (case checked_add components (length c) of
        None \<Rightarrow> Err ResourceLimit ''relative path length cannot be represented''
      | Some components \<Rightarrow> sum_component_bytes components path)"

definition relative_byte_length :: "string list \<Rightarrow> nat result" where
  "relative_byte_length path =
     rbind (sum_component_bytes 0 path) (\<lambda>components.
     case checked_add components (length path - 1) of
       None \<Rightarrow> Err ResourceLimit ''relative path length cannot be represented''
     | Some bytes \<Rightarrow> Ok bytes)"

definition clone_child_path :: "string list \<Rightarrow> string \<Rightarrow> clone_report \<Rightarrow> string list result" where
  "clone_child_path parent name report =
     (let component_bytes = length name; child = parent @ [name] in
      if component_bytes > lim_component_bytes (cr_limits report)
      then Err ResourceLimit ''clone path-component bytes exceeds the limit''
      else rbind (relative_byte_length child) (\<lambda>relative_bytes.
        if relative_bytes > lim_relative_path_bytes (cr_limits report)
        then Err ResourceLimit ''clone relative-path bytes exceeds the limit''
        else Ok child))"

text \<open>Reading the listing of one directory: its names are accounted before the first is visited.\<close>

definition buffer_names :: "source_directory \<Rightarrow> walker \<Rightarrow> (source_node list \<times> walker) result" where
  "buffer_names d w =
     (let accounted = sat_add (cc_entries (cr_counts (wk_report w))) (wk_buffered_entries w);
          available = lim_entries (walker_limits w) - accounted in
      rbind (clone_directory_names d available) (\<lambda>names.
      Ok (names, w\<lparr>wk_buffered_entries := sat_add (wk_buffered_entries w) (length names)\<rparr>)))"

subsection \<open>Accounting\<close>

definition clone_note_entry :: "walker \<Rightarrow> walker result" where
  "clone_note_entry w =
     (let observed = sat_add (cc_entries (cr_counts (wk_report w))) 1 in
      if observed > lim_entries (walker_limits w) then Err ResourceLimit ''clone entry count exceeds the limit''
      else Ok (count_up (\<lambda>c. c\<lparr>cc_entries := observed\<rparr>) w))"

definition clone_add_logical_bytes :: "walker \<Rightarrow> nat \<Rightarrow> walker result" where
  "clone_add_logical_bytes w bytes =
     (case checked_add (cc_logical_bytes (cr_counts (wk_report w))) bytes of
        None \<Rightarrow> Err ResourceLimit ''clone logical bytes exceeds the limit''
      | Some observed \<Rightarrow>
          if observed > lim_logical_bytes (walker_limits w) then Err ResourceLimit ''clone logical bytes exceeds the limit''
          else Ok (count_up (\<lambda>c. c\<lparr>cc_logical_bytes := observed\<rparr>) w))"

definition ordered_insert :: "string list \<Rightarrow> string list list \<Rightarrow> string list list" where
  "ordered_insert x xs = (if x \<in> set xs then xs else insort x xs)"

definition is_excluded_cache :: "walk_env \<Rightarrow> walker \<Rightarrow> string list \<Rightarrow> bool" where
  "is_excluded_cache env w path \<longleftrightarrow>
     \<not> po_include_cache (cr_policy (wk_report w)) \<and> list_ex (\<lambda>root. root = path) (cache_roots env)"

definition walker_finish :: "walker \<Rightarrow> walker" where
  "walker_finish w =
     exclude_up (\<lambda>e. e\<lparr>ce_symlinks_into_omitted_cache_roots :=
       foldl sat_add 0 (List.map_filter (wk_symlinks_by_cache_root w) (wk_excluded_cache_roots w))\<rparr>) w"

subsection \<open>The staging side\<close>

definition staging_call :: "walk_env \<Rightarrow> staging_call \<Rightarrow> string list \<Rightarrow> string \<Rightarrow> unit result" where
  "staging_call env call path operation = (if we_fails env call path then Err SystemError operation else Ok ())"

definition stage :: "string list \<Rightarrow> staged_node \<Rightarrow> walker \<Rightarrow> walker" where
  "stage path n w = w\<lparr>wk_staging := (wk_staging w)(path \<mapsto> n)\<rparr>"

definition claim_name :: "walk_env \<Rightarrow> staging_call \<Rightarrow> string list \<Rightarrow> string \<Rightarrow> walker \<Rightarrow> unit result" where
  "claim_name env call path operation w =
     (if wk_staging w path \<noteq> None then Err SystemError operation else staging_call env call path operation)"

definition create_directory_at :: "walk_env \<Rightarrow> string list \<Rightarrow> walker \<Rightarrow> walker result" where
  "create_directory_at env path w =
     rbind (claim_name env MakeDirectory path ''could not create staging directory'' w) (\<lambda>_.
     rbind (staging_call env OpenDirectory path ''could not open staging directory'') (\<lambda>_.
     Ok (stage path (StagedDirectory 448) w)))"

definition create_empty_cache :: "walk_env \<Rightarrow> string list \<Rightarrow> walker \<Rightarrow> walker result" where
  "create_empty_cache env path w =
     rbind (create_directory_at env path w) (\<lambda>w.
     rbind (staging_call env SyncStagedDirectory path ''could not sync empty cache directory'') (\<lambda>_. Ok w))"

definition apply_directory_mode :: "walk_env \<Rightarrow> nat \<Rightarrow> string list \<Rightarrow> walker \<Rightarrow> walker result" where
  "apply_directory_mode env source_mode path w =
     rbind (staging_call env ChangeDirectoryMode path ''could not apply staging directory mode'') (\<lambda>_.
     rbind (staging_call env SyncStagedDirectory path ''could not sync staging directory'') (\<lambda>_.
     Ok (stage path (StagedDirectory (mode_bits source_mode)) w)))"

text \<open>The copy loop: \<open>copied\<close> bytes so far, \<open>index\<close> counts the written blocks; an empty read is the end.\<close>

fun copy_bounded ::
  "walk_env \<Rightarrow> clone_report \<Rightarrow> string list \<Rightarrow> nat \<Rightarrow> nat \<Rightarrow> string \<Rightarrow> string list \<Rightarrow> bool \<Rightarrow> (nat \<times> string) result" where
  "copy_bounded env report path index copied written [] readable =
     (if readable then Ok (copied, written) else Err SystemError ''could not read source file'')"
| "copy_bounded env report path index copied written (block # blocks) readable =
     (if block = [] then Ok (copied, written)
      else case checked_add copied (length block) of
        None \<Rightarrow> Err ResourceLimit ''clone regular-file bytes exceeds the limit''
      | Some copied \<Rightarrow>
          if copied > lim_file_bytes (cr_limits report) then Err ResourceLimit ''clone regular-file bytes exceeds the limit''
          else (case checked_add (cc_logical_bytes (cr_counts report)) copied of
              None \<Rightarrow> Err ResourceLimit ''clone logical bytes exceeds the limit''
            | Some aggregate \<Rightarrow>
                if aggregate > lim_logical_bytes (cr_limits report)
                then Err ResourceLimit ''clone logical bytes exceeds the limit''
                else rbind (staging_call env (WriteBlock index) path ''could not write staging file'') (\<lambda>_.
                  copy_bounded env report path (index + 1) copied (written @ block) blocks readable)))"

definition copy_regular ::
  "walk_env \<Rightarrow> source_file \<Rightarrow> nat \<Rightarrow> string list \<Rightarrow> walker \<Rightarrow> (nat \<times> file_stat \<times> walker) result" where
  "copy_regular env source source_mode path w =
     rbind (claim_name env MakeFile path ''could not create staging file'' w) (\<lambda>_.
     let w = stage path (StagedFile 384 []) w in
     rbind (copy_bounded env (wk_report w) path 0 0 [] (sf_reads source) (sf_readable source)) (\<lambda>(copied, written).
     let w = stage path (StagedFile 384 written) w in
     rbind (staging_call env ChangeFileMode path ''could not apply staging file mode'') (\<lambda>_.
     let w = stage path (StagedFile (mode_bits source_mode) written) w in
     rbind (staging_call env SyncFile path ''could not sync staging file'') (\<lambda>_.
     rbind (nix_call ''could not recheck source file'' (sf_post source)) (\<lambda>post_read.
     Ok (copied, post_read, w))))))"

subsection \<open>One entry\<close>

definition exclude_cache :: "walk_env \<Rightarrow> string list \<Rightarrow> walker \<Rightarrow> walker result" where
  "exclude_cache env path w =
     (let w = exclude_up (\<lambda>e. e\<lparr>ce_cache_roots := ce_cache_roots e + 1\<rparr>) w;
          w = w\<lparr>wk_excluded_cache_roots := ordered_insert path (wk_excluded_cache_roots w)\<rparr> in
      if wc_recreate_cache_roots (we_control env) \<and> we_destination env then create_empty_cache env path w else Ok w)"

text \<open>\<open>Path::file_name\<close>.\<close>

definition path_file_name :: "string \<Rightarrow> string option" where
  "path_file_name path =
     (case rev (path_components path) of Normal name # rest \<Rightarrow> Some name | _ \<Rightarrow> None)"

definition is_managed_command_link :: "string list \<Rightarrow> string \<Rightarrow> bool" where
  "is_managed_command_link path target =
     (if length path \<noteq> 3 \<or> path ! 0 \<noteq> ''.local'' \<or> path ! 1 \<noteq> ''bin'' then False
      else let name = path ! 2 in
        if name = ''quarters'' then is_absolute target \<and> path_file_name target = Some ''quarters''
        else name \<in> {''ssh'', ''scp'', ''sftp'', ''ssh-add''} \<and> target = ''quarters'')"

definition below_root :: "string list \<Rightarrow> string list \<Rightarrow> bool" where
  "below_root resolved root \<longleftrightarrow> take (length root) resolved = root"

definition note_cache_links :: "walk_env \<Rightarrow> string list \<Rightarrow> walker \<Rightarrow> walker" where
  "note_cache_links env resolved w =
     w\<lparr>wk_symlinks_by_cache_root :=
         foldl (\<lambda>m root. if below_root resolved root
                         then m(root \<mapsto> sat_add (case m root of None \<Rightarrow> 0 | Some k \<Rightarrow> k) 1) else m)
           (wk_symlinks_by_cache_root w) (cache_roots env)\<rparr>"

definition open_regular_at :: "source_node \<Rightarrow> file_stat \<Rightarrow> source_file result" where
  "open_regular_at n expected =
     rbind (source_entry_call ''could not open source file'' (sn_file n)) (\<lambda>source.
     rbind (nix_call ''could not inspect opened source file'' (sf_opened source)) (\<lambda>actual.
     rbind (walk_verify_identity expected actual S_IFREG) (\<lambda>_.
     rbind (nix_call ''could not inspect source file flags'' (sf_get_flags source)) (\<lambda>_.
     rbind (nix_call ''could not prepare source file for reading'' (sf_set_flags source)) (\<lambda>_.
     Ok source)))))"

definition clone_visit_file :: "walk_env \<Rightarrow> string list \<Rightarrow> file_stat \<Rightarrow> source_node \<Rightarrow> walker \<Rightarrow> walker result" where
  "clone_visit_file env path metadata n w =
     (if st_size metadata < 0 then Err CorruptState ''source file has an invalid logical length''
      else let expected_length = nat (st_size metadata) in
        if expected_length > lim_file_bytes (walker_limits w)
        then Err ResourceLimit ''clone regular-file bytes exceeds the limit''
        else rbind (open_regular_at n metadata) (\<lambda>source.
          rbind (if we_destination env then copy_regular env source (st_mode metadata) path w
                 else rbind (nix_call ''could not recheck source file'' (sf_post source)) (\<lambda>post_read.
                   Ok (expected_length, post_read, w))) (\<lambda>(actual, post_read, w).
          rbind (walk_verify_identity metadata post_read S_IFREG) (\<lambda>_.
          rbind (entry_metadata (sn_after n)) (\<lambda>linked.
          rbind (walk_verify_identity metadata linked S_IFREG) (\<lambda>_.
          rbind (clone_add_logical_bytes w actual) (\<lambda>w.
          let w = count_up (\<lambda>c. c\<lparr>cc_files := cc_files c + 1\<rparr>) w in
          Ok (if st_nlink metadata > 1
              then exclude_up (\<lambda>e. e\<lparr>ce_hard_linked_files_copied_independently :=
                ce_hard_linked_files_copied_independently e + 1\<rparr>) w
              else w))))))))"

definition clone_visit_symlink ::
  "walk_env \<Rightarrow> string list \<Rightarrow> string list \<Rightarrow> file_stat \<Rightarrow> source_node \<Rightarrow> walker \<Rightarrow> walker result" where
  "clone_visit_symlink env parent_path path metadata n w =
     rbind (source_entry_call ''could not read symbolic link'' (sn_target n)) (\<lambda>target.
     let target_bytes = length target in
     if target_bytes > lim_symlink_target_bytes (walker_limits w)
     then Err ResourceLimit ''clone symbolic-link target bytes exceeds the limit''
     else rbind (entry_metadata (sn_after n)) (\<lambda>actual.
       rbind (walk_verify_identity metadata actual S_IFLNK) (\<lambda>_.
       if is_managed_command_link path target
       then Ok (exclude_up (\<lambda>e. e\<lparr>ce_managed_command_links := ce_managed_command_links e + 1\<rparr>) w)
       else (case resolve_relative_link_target parent_path target of
           None \<Rightarrow> Err CorruptState ''symbolic link escapes the source home''
         | Some resolved \<Rightarrow>
             rbind (clone_add_logical_bytes w target_bytes) (\<lambda>w.
             rbind (if we_destination env
                    then rbind (claim_name env MakeLink path ''could not create symbolic link'' w) (\<lambda>_.
                      Ok (stage path (StagedLink target) w))
                    else Ok w) (\<lambda>w.
             let w = note_cache_links env resolved w in
             Ok (count_up (\<lambda>c. c\<lparr>cc_symlinks := cc_symlinks c + 1\<rparr>) w)))))))"

definition clone_visit_special :: "nat \<Rightarrow> walker \<Rightarrow> walker result" where
  "clone_visit_special k w =
     (if k = S_IFSOCK then Ok (exclude_up (\<lambda>e. e\<lparr>ce_sockets := ce_sockets e + 1\<rparr>) w)
      else if k = S_IFIFO then Ok (exclude_up (\<lambda>e. e\<lparr>ce_fifos := ce_fifos e + 1\<rparr>) w)
      else if k = S_IFCHR \<or> k = S_IFBLK then Ok (exclude_up (\<lambda>e. e\<lparr>ce_devices := ce_devices e + 1\<rparr>) w)
      else Err CorruptState ''unsupported entry type'')"

definition open_directory_at :: "source_node \<Rightarrow> file_stat \<Rightarrow> source_directory result" where
  "open_directory_at n expected =
     rbind (source_entry_call ''could not open source directory'' (sn_directory n)) (\<lambda>d.
     rbind (nix_call ''could not inspect opened source directory'' (sd_opened d)) (\<lambda>actual.
     rbind (walk_verify_identity expected actual S_IFDIR) (\<lambda>_. Ok d)))"

text \<open>\<open>visit_directory\<close> before and after the recursive walk.\<close>

definition enter_source_directory ::
  "walk_env \<Rightarrow> string list \<Rightarrow> nat \<Rightarrow> file_stat \<Rightarrow> source_node \<Rightarrow> walker \<Rightarrow> (source_directory \<times> nat \<times> walker) result" where
  "enter_source_directory env path depth metadata n w =
     (if wc_artifact_source (we_control env) \<and> st_mode metadata AND 320 \<noteq> 320
      then Err CorruptState ''artifact source directory is not owner-readable and traversable''
      else let next_depth = min (depth + 1) u32_max in
        if next_depth > lim_depth (walker_limits w) then Err ResourceLimit ''clone directory depth exceeds the limit''
        else rbind (open_directory_at n metadata) (\<lambda>source.
          rbind (if we_destination env then create_directory_at env path w else Ok w) (\<lambda>w.
          Ok (source, next_depth, count_up (\<lambda>c. c\<lparr>cc_directories := cc_directories c + 1\<rparr>) w))))"

definition leave_source_directory :: "file_stat \<Rightarrow> file_stat \<Rightarrow> source_node \<Rightarrow> unit result" where
  "leave_source_directory metadata post_read n =
     rbind (walk_verify_identity metadata post_read S_IFDIR) (\<lambda>_.
     rbind (entry_metadata (sn_after n)) (\<lambda>linked.
     walk_verify_identity metadata linked S_IFDIR))"

definition seal_directory :: "walk_env \<Rightarrow> string list \<Rightarrow> source_directory \<Rightarrow> walker \<Rightarrow> walker result" where
  "seal_directory env relative d w =
     (if we_destination env
      then rbind (nix_call ''could not inspect source directory'' (sd_mode d)) (\<lambda>m.
        apply_directory_mode env (st_mode m) relative w)
      else Ok w)"

subsection \<open>The walk\<close>

lemma gather_names_ok:
  "gather_names available names ns complete = Ok out \<longleftrightarrow>
     complete \<and> out = names @ filter (\<lambda>n. \<not> dot_entry (sn_name n)) ns \<and>
     (length (filter (\<lambda>n. \<not> dot_entry (sn_name n)) ns) \<noteq> 0 \<longrightarrow> length out \<le> available)"
  by (induction available names ns complete rule: gather_names.induct) auto

lemma buffer_names_listed: "buffer_names d w = Ok (names, w') \<Longrightarrow> names = source_listed (sd_listing d)"
  by (auto simp: buffer_names_def clone_directory_names_def Let_def rbind_eq_Inr gather_names_ok source_listed_def)

lemma enter_source_directory_ok:
  "enter_source_directory env path depth metadata n w = Ok (d, next_depth, w') \<Longrightarrow> sn_directory n = SysOk d"
  by (auto simp: enter_source_directory_def open_directory_at_def Let_def result_simps split: if_splits)

function walk_source_directory ::
    "walk_env \<Rightarrow> string list \<Rightarrow> nat \<Rightarrow> source_directory \<Rightarrow> walker \<Rightarrow> (file_stat \<times> walker) result"
  and walk_source_entries ::
    "walk_env \<Rightarrow> string list \<Rightarrow> nat \<Rightarrow> source_node list \<Rightarrow> walker \<Rightarrow> walker result" where
  "walk_source_directory env relative depth d w =
     rbind (buffer_names d w) (\<lambda>(names, w).
     rbind (walk_source_entries env relative depth names w) (\<lambda>w.
     rbind (seal_directory env relative d w) (\<lambda>w.
     rbind (nix_call ''could not recheck source directory'' (sd_post d)) (\<lambda>post_read.
     Ok (post_read, w)))))"
| "walk_source_entries env relative depth [] w = Ok w"
| "walk_source_entries env relative depth (n # ns) w =
     (let w = w\<lparr>wk_buffered_entries := wk_buffered_entries w - 1\<rparr> in
      rbind (clone_child_path relative (sn_name n) (wk_report w)) (\<lambda>path.
      rbind (entry_metadata (sn_stat n)) (\<lambda>metadata.
      rbind (clone_note_entry w) (\<lambda>w.
      rbind (if is_excluded_cache env w path then exclude_cache env path w
             else if st_uid metadata \<noteq> we_uid env
             then Ok (exclude_up (\<lambda>e. e\<lparr>ce_foreign_owned := ce_foreign_owned e + 1\<rparr>) w)
             else let k = s_kind (st_mode metadata) in
               if k = S_IFDIR
               then rbind (enter_source_directory env path depth metadata n w) (\<lambda>(source, next_depth, w).
                 rbind (walk_source_directory env path next_depth source w) (\<lambda>(post_read, w).
                 rbind (leave_source_directory metadata post_read n) (\<lambda>_. Ok w)))
               else if k = S_IFREG then clone_visit_file env path metadata n w
               else if k = S_IFLNK then clone_visit_symlink env relative path metadata n w
               else clone_visit_special k w) (\<lambda>w.
      walk_source_entries env relative depth ns w)))))"
  by pat_completeness auto
termination
proof (relation "measure (case_sum (\<lambda>(env, relative, depth, d, w). 2 * source_weights (sd_listing d) + 1)
    (\<lambda>(env, relative, depth, ns, w). 2 * source_weights ns))", goal_cases)
  case (2 env relative depth d w x names w')
  then show ?case
    using source_weights_listed [of "sd_listing d"] by (auto dest!: buffer_names_listed)
next
  case 3
  then show ?case by (auto dest!: enter_source_directory_ok simp: source_weight_directory)
qed auto

declare walk_source_directory.simps [simp del] walk_source_entries.simps [simp del]

definition walk_home :: "walk_env \<Rightarrow> source_directory sys \<Rightarrow> clone_report \<Rightarrow>
    (clone_report \<times> (string list \<Rightarrow> staged_node option)) result" where
  "walk_home env source_home report =
     rbind (nix_call ''could not open source home'' source_home) (\<lambda>source.
     rbind (if we_destination env then staging_call env OpenDirectory [] ''could not open staging home'' else Ok ()) (\<lambda>_.
     rbind (walk_source_directory env [] 0 source (walker_new env report)) (\<lambda>(root_post_read, w).
     let w = walker_finish w in
     Ok (wk_report w, wk_staging w))))"

end
