(* ===== verification/Clone_Exact.thy ===== *)
theory Clone_Exact
  imports Clone_Walk
begin

text \<open>
  What a walk of \<open>Clone_Walk\<close> has to do, stated without the walker. \<open>dispose\<close> decides the fate of one
  entry, \<open>examined\<close> lists the entries a walk looks at, \<open>entry_ok\<close> is what the calls on one entry have
  to answer, and \<open>absorb\<close> is the effect of one entry on the report and on the staging tree. The main
  lemma is exact: a walk succeeds if and only if every examined entry is acceptable, the totals fit
  the limits and the staging side has room, and then its result is the fold of \<open>absorb\<close>.
\<close>

subsection \<open>The fate of an entry\<close>

datatype (discs_sels) disposition =
  CacheRoot | ForeignOwned | KeptDirectory nat | KeptFile nat string nat bool | KeptLink string "string list"
| ManagedLink | OmittedSocket | OmittedFifo | OmittedDevice

definition file_content :: "source_file \<Rightarrow> string" where
  "file_content f = concat (takeWhile (\<lambda>block. block \<noteq> []) (sf_reads f))"

definition dispose :: "walk_env \<Rightarrow> bool \<Rightarrow> string list \<Rightarrow> source_node \<Rightarrow> disposition option" where
  "dispose env cache path n =
     (case sn_stat n of
        SysOk m \<Rightarrow>
          if \<not> cache \<and> path \<in> set (cache_roots env) then Some CacheRoot
          else if st_uid m \<noteq> we_uid env then Some ForeignOwned
          else if is_dir m
          then (case sn_directory n of
              SysOk d \<Rightarrow> Some (KeptDirectory (case sd_mode d of SysOk s \<Rightarrow> mode_bits (st_mode s) | _ \<Rightarrow> 448))
            | _ \<Rightarrow> None)
          else if is_file m
          then (case sn_file n of
              SysOk f \<Rightarrow> Some (KeptFile (mode_bits (st_mode m)) (file_content f)
                (if we_destination env then length (file_content f) else nat (st_size m)) (st_nlink m > 1))
            | _ \<Rightarrow> None)
          else if is_symlink m
          then (case sn_target n of
              SysOk t \<Rightarrow>
                if is_managed_command_link path t then Some ManagedLink
                else map_option (KeptLink t) (resolve_relative_link_target (butlast path) t)
            | _ \<Rightarrow> None)
          else if s_kind (st_mode m) = S_IFSOCK then Some OmittedSocket
          else if s_kind (st_mode m) = S_IFIFO then Some OmittedFifo
          else if s_kind (st_mode m) \<in> {S_IFCHR, S_IFBLK} then Some OmittedDevice
          else None
      | _ \<Rightarrow> None)"

text \<open>The children a walk goes on to: those of the directories it keeps.\<close>

definition entered :: "walk_env \<Rightarrow> bool \<Rightarrow> string list \<Rightarrow> source_node \<Rightarrow> source_node list" where
  "entered env cache path n =
     (case dispose env cache path n of
        Some (KeptDirectory mode) \<Rightarrow> (case sn_directory n of SysOk d \<Rightarrow> source_listed (sd_listing d) | _ \<Rightarrow> [])
      | _ \<Rightarrow> [])"

lemma entered_weight: "source_weights (entered env cache path n) < source_weight n + k"
proof -
  have "source_weights (source_listed (sd_listing d)) < source_weight n + k" if "sn_directory n = SysOk d" for d
    using source_weight_directory [OF that] source_weights_listed [of "sd_listing d"] by simp
  then show ?thesis by (auto simp: entered_def split: option.splits disposition.splits sys.splits)
qed

function examined ::
  "walk_env \<Rightarrow> bool \<Rightarrow> string list \<Rightarrow> source_node list \<Rightarrow> (string list \<times> source_node) list" where
  "examined env cache relative [] = []"
| "examined env cache relative (n # ns) =
     (let path = relative @ [sn_name n] in
      (path, n) # examined env cache path (entered env cache path n)) @ examined env cache relative ns"
  by pat_completeness auto
termination
  by (relation "measure (\<lambda>(env, cache, relative, ns). source_weights ns)") (auto simp: entered_weight)

declare examined.simps [simp del]

lemma examined_Nil [simp]: "examined env cache relative [] = []"
  by (simp add: examined.simps)

lemma examined_Cons:
  "examined env cache relative (n # ns) =
     (relative @ [sn_name n], n) #
       examined env cache (relative @ [sn_name n]) (entered env cache (relative @ [sn_name n]) n) @
     examined env cache relative ns"
  by (simp add: examined.simps Let_def)

lemma examined_induct [case_names Nil Cons]:
  assumes "\<And>relative. P relative []"
    and "\<And>relative n ns. P (relative @ [sn_name n]) (entered env cache (relative @ [sn_name n]) n) \<Longrightarrow>
           P relative ns \<Longrightarrow> P relative (n # ns)"
  shows "P relative ns"
proof (induction "source_weights ns" arbitrary: relative ns rule: less_induct)
  case less
  show ?case
  proof (cases ns)
    case Nil
    then show ?thesis using assms(1) by simp
  next
    case (Cons n ns')
    show ?thesis unfolding Cons by (rule assms(2); rule less) (simp_all add: Cons entered_weight)
  qed
qed

lemma examined_below: "(path, n) \<in> set (examined env cache relative ns) \<Longrightarrow> \<exists>c rest. path = relative @ c # rest"
proof (induction relative ns rule: examined_induct [where env = env and cache = cache])
  case (Cons relative n' ns)
  then show ?case by (auto simp: examined_Cons)
qed simp

subsection \<open>What the calls on one entry have to answer\<close>

definition still :: "file_stat \<Rightarrow> file_stat sys list \<Rightarrow> bool" where
  "still m calls \<longleftrightarrow> list_all (\<lambda>s. s = SysOk m) calls"

definition answers :: "'a sys \<Rightarrow> bool" where
  "answers r \<longleftrightarrow> (case r of SysOk x \<Rightarrow> True | _ \<Rightarrow> False)"

definition staging_ok :: "walk_env \<Rightarrow> staging_call list \<Rightarrow> string list \<Rightarrow> bool" where
  "staging_ok env calls path \<longleftrightarrow> list_all (\<lambda>call. \<not> we_fails env call path) calls"

definition path_ok :: "string list \<Rightarrow> source_node \<Rightarrow> bool" where
  "path_ok path n \<longleftrightarrow> length (sn_name n) \<le> lim_component_bytes ALPHA \<and>
     length (join_slash path) \<le> lim_relative_path_bytes ALPHA"

definition directory_ok :: "walk_env \<Rightarrow> string list \<Rightarrow> file_stat \<Rightarrow> source_node \<Rightarrow> bool" where
  "directory_ok env path m n \<longleftrightarrow>
     (wc_artifact_source (we_control env) \<longrightarrow> st_mode m AND 320 = 320) \<and> length path \<le> lim_depth ALPHA \<and>
     (case sn_directory n of
        SysOk d \<Rightarrow> still m [sd_opened d, sd_post d, sn_after n] \<and> sd_complete d \<and>
          (we_destination env \<longrightarrow> answers (sd_mode d) \<and>
            staging_ok env [MakeDirectory, OpenDirectory, ChangeDirectoryMode, SyncStagedDirectory] path)
      | _ \<Rightarrow> False)"

definition copyable :: "walk_env \<Rightarrow> string list \<Rightarrow> source_file \<Rightarrow> bool" where
  "copyable env path f \<longleftrightarrow> (sf_readable f \<or> [] \<in> set (sf_reads f)) \<and>
     length (file_content f) \<le> lim_file_bytes ALPHA \<and>
     staging_ok env (MakeFile # map WriteBlock [0..<length (takeWhile (\<lambda>block. block \<noteq> []) (sf_reads f))] @
       [ChangeFileMode, SyncFile]) path"

definition file_ok :: "walk_env \<Rightarrow> string list \<Rightarrow> file_stat \<Rightarrow> source_node \<Rightarrow> bool" where
  "file_ok env path m n \<longleftrightarrow> 0 \<le> st_size m \<and> nat (st_size m) \<le> lim_file_bytes ALPHA \<and>
     (case sn_file n of
        SysOk f \<Rightarrow> still m [sf_opened f, sf_post f, sn_after n] \<and> answers (sf_get_flags f) \<and> answers (sf_set_flags f) \<and>
          (we_destination env \<longrightarrow> copyable env path f)
      | _ \<Rightarrow> False)"

definition link_ok :: "walk_env \<Rightarrow> string list \<Rightarrow> file_stat \<Rightarrow> source_node \<Rightarrow> bool" where
  "link_ok env path m n \<longleftrightarrow> still m [sn_after n] \<and>
     (case sn_target n of
        SysOk t \<Rightarrow> length t \<le> lim_symlink_target_bytes ALPHA \<and>
          (is_managed_command_link path t \<or>
           resolve_relative_link_target (butlast path) t \<noteq> None \<and>
             (we_destination env \<longrightarrow> staging_ok env [MakeLink] path))
      | _ \<Rightarrow> False)"

definition entry_ok :: "walk_env \<Rightarrow> bool \<Rightarrow> string list \<times> source_node \<Rightarrow> bool" where
  "entry_ok env cache = (\<lambda>(path, n). path_ok path n \<and>
     (case sn_stat n of
        SysOk m \<Rightarrow>
          if \<not> cache \<and> path \<in> set (cache_roots env)
          then wc_recreate_cache_roots (we_control env) \<and> we_destination env \<longrightarrow>
            staging_ok env [MakeDirectory, OpenDirectory, SyncStagedDirectory] path
          else if st_uid m \<noteq> we_uid env then True
          else if is_dir m then directory_ok env path m n
          else if is_file m then file_ok env path m n
          else if is_symlink m then link_ok env path m n
          else s_kind (st_mode m) \<in> {S_IFSOCK, S_IFIFO, S_IFCHR, S_IFBLK}
      | _ \<Rightarrow> False))"

subsection \<open>The effect of one entry\<close>

fun disposed_bytes :: "disposition \<Rightarrow> nat" where
  "disposed_bytes (KeptFile mode content bytes linked) = bytes"
| "disposed_bytes (KeptLink target resolved) = length target"
| "disposed_bytes _ = 0"

fun tally :: "disposition \<Rightarrow> clone_counts \<Rightarrow> clone_counts" where
  "tally (KeptDirectory mode) c = c\<lparr>cc_directories := cc_directories c + 1\<rparr>"
| "tally (KeptFile mode content bytes linked) c =
     c\<lparr>cc_files := cc_files c + 1, cc_logical_bytes := cc_logical_bytes c + bytes\<rparr>"
| "tally (KeptLink target resolved) c =
     c\<lparr>cc_symlinks := cc_symlinks c + 1, cc_logical_bytes := cc_logical_bytes c + length target\<rparr>"
| "tally _ c = c"

fun tally_omitted :: "disposition \<Rightarrow> clone_exclusions \<Rightarrow> clone_exclusions" where
  "tally_omitted CacheRoot e = e\<lparr>ce_cache_roots := ce_cache_roots e + 1\<rparr>"
| "tally_omitted ForeignOwned e = e\<lparr>ce_foreign_owned := ce_foreign_owned e + 1\<rparr>"
| "tally_omitted (KeptFile mode content bytes linked) e =
     (if linked then e\<lparr>ce_hard_linked_files_copied_independently := ce_hard_linked_files_copied_independently e + 1\<rparr> else e)"
| "tally_omitted ManagedLink e = e\<lparr>ce_managed_command_links := ce_managed_command_links e + 1\<rparr>"
| "tally_omitted OmittedSocket e = e\<lparr>ce_sockets := ce_sockets e + 1\<rparr>"
| "tally_omitted OmittedFifo e = e\<lparr>ce_fifos := ce_fifos e + 1\<rparr>"
| "tally_omitted OmittedDevice e = e\<lparr>ce_devices := ce_devices e + 1\<rparr>"
| "tally_omitted _ e = e"

fun staged_of :: "walk_env \<Rightarrow> disposition \<Rightarrow> staged_node option" where
  "staged_of env CacheRoot =
     (if wc_recreate_cache_roots (we_control env) then Some (StagedDirectory 448) else None)"
| "staged_of env (KeptDirectory mode) = Some (StagedDirectory mode)"
| "staged_of env (KeptFile mode content bytes linked) = Some (StagedFile mode content)"
| "staged_of env (KeptLink target resolved) = Some (StagedLink target)"
| "staged_of env _ = None"

definition install :: "walk_env \<Rightarrow> string list \<Rightarrow> disposition \<Rightarrow> walker \<Rightarrow> walker" where
  "install env path d w =
     (case staged_of env d of
        Some s \<Rightarrow> if we_destination env then stage path s w else w
      | None \<Rightarrow> w)"

fun note_caches :: "walk_env \<Rightarrow> string list \<Rightarrow> disposition \<Rightarrow> walker \<Rightarrow> walker" where
  "note_caches env path CacheRoot w =
     w\<lparr>wk_excluded_cache_roots := ordered_insert path (wk_excluded_cache_roots w)\<rparr>"
| "note_caches env path (KeptLink target resolved) w = note_cache_links env resolved w"
| "note_caches env path _ w = w"

definition absorb :: "walk_env \<Rightarrow> string list \<Rightarrow> disposition \<Rightarrow> walker \<Rightarrow> walker" where
  "absorb env path d w =
     install env path d (note_caches env path d (exclude_up (tally_omitted d) (count_up (tally d) w)))"

definition count_entry :: "walker \<Rightarrow> walker" where
  "count_entry w = count_up (\<lambda>c. c\<lparr>cc_entries := cc_entries c + 1\<rparr>) w"

definition absorb_entry :: "walk_env \<Rightarrow> bool \<Rightarrow> string list \<times> source_node \<Rightarrow> walker \<Rightarrow> walker" where
  "absorb_entry env cache = (\<lambda>(path, n) w.
     case dispose env cache path n of
       Some d \<Rightarrow> absorb env path d (count_entry w)
     | None \<Rightarrow> w)"

definition claims :: "walk_env \<Rightarrow> bool \<Rightarrow> string list \<times> source_node \<Rightarrow> bool" where
  "claims env cache = (\<lambda>(path, n).
     case dispose env cache path n of Some d \<Rightarrow> we_destination env \<and> staged_of env d \<noteq> None | None \<Rightarrow> False)"

definition entry_bytes_of :: "walk_env \<Rightarrow> bool \<Rightarrow> string list \<times> source_node \<Rightarrow> nat" where
  "entry_bytes_of env cache = (\<lambda>(path, n).
     case dispose env cache path n of Some d \<Rightarrow> disposed_bytes d | None \<Rightarrow> 0)"

text \<open>The names an execution creates, in the order of the walk.\<close>

definition claimed :: "walk_env \<Rightarrow> bool \<Rightarrow> (string list \<times> source_node) list \<Rightarrow> string list list" where
  "claimed env cache es = map fst (filter (claims env cache) es)"

subsection \<open>Single steps\<close>

definition walk_inv :: "bool \<Rightarrow> walker \<Rightarrow> bool" where
  "walk_inv cache w \<longleftrightarrow> cr_limits (wk_report w) = ALPHA \<and> po_include_cache (cr_policy (wk_report w)) = cache \<and>
     cc_entries (cr_counts (wk_report w)) + wk_buffered_entries w \<le> lim_entries ALPHA \<and>
     cc_logical_bytes (cr_counts (wk_report w)) \<le> lim_logical_bytes ALPHA"

abbreviation walked_bytes :: "walker \<Rightarrow> nat" where
  "walked_bytes w \<equiv> cc_logical_bytes (cr_counts (wk_report w))"

abbreviation walked_entries :: "walker \<Rightarrow> nat" where
  "walked_entries w \<equiv> cc_entries (cr_counts (wk_report w))"

lemma count_up_simps [simp]:
  "wk_report (count_up f w) = (wk_report w)\<lparr>cr_counts := f (cr_counts (wk_report w))\<rparr>"
  "wk_excluded_cache_roots (count_up f w) = wk_excluded_cache_roots w"
  "wk_symlinks_by_cache_root (count_up f w) = wk_symlinks_by_cache_root w"
  "wk_buffered_entries (count_up f w) = wk_buffered_entries w"
  "wk_staging (count_up f w) = wk_staging w"
  by (simp_all add: count_up_def)

lemma count_entry_simps [simp]:
  "wk_report (count_entry w) = (wk_report w)\<lparr>cr_counts := (cr_counts (wk_report w))\<lparr>cc_entries := walked_entries w + 1\<rparr>\<rparr>"
  "wk_excluded_cache_roots (count_entry w) = wk_excluded_cache_roots w"
  "wk_symlinks_by_cache_root (count_entry w) = wk_symlinks_by_cache_root w"
  "wk_buffered_entries (count_entry w) = wk_buffered_entries w"
  "wk_staging (count_entry w) = wk_staging w"
  by (simp_all add: count_entry_def)

lemma exclude_up_simps [simp]:
  "wk_report (exclude_up g w) = (wk_report w)\<lparr>cr_exclusions := g (cr_exclusions (wk_report w))\<rparr>"
  "wk_excluded_cache_roots (exclude_up g w) = wk_excluded_cache_roots w"
  "wk_symlinks_by_cache_root (exclude_up g w) = wk_symlinks_by_cache_root w"
  "wk_buffered_entries (exclude_up g w) = wk_buffered_entries w"
  "wk_staging (exclude_up g w) = wk_staging w"
  by (simp_all add: exclude_up_def)

lemma stage_simps [simp]:
  "wk_report (stage path s w) = wk_report w"
  "wk_excluded_cache_roots (stage path s w) = wk_excluded_cache_roots w"
  "wk_symlinks_by_cache_root (stage path s w) = wk_symlinks_by_cache_root w"
  "wk_buffered_entries (stage path s w) = wk_buffered_entries w"
  "wk_staging (stage path s w) = (wk_staging w)(path \<mapsto> s)"
  by (simp_all add: stage_def)

lemma note_cache_links_simps [simp]:
  "wk_report (note_cache_links env r w) = wk_report w"
  "wk_excluded_cache_roots (note_cache_links env r w) = wk_excluded_cache_roots w"
  "wk_buffered_entries (note_cache_links env r w) = wk_buffered_entries w"
  "wk_staging (note_cache_links env r w) = wk_staging w"
  by (simp_all add: note_cache_links_def)

lemma sum_component_bytes_ok:
  "sum_component_bytes k path = Ok j \<longleftrightarrow> j = k + sum_list (map length path) \<and> (path \<noteq> [] \<longrightarrow> j \<le> u64_max)"
  by (induction k path rule: sum_component_bytes.induct) (auto simp: checked_add_def)

lemma relative_byte_length_ok:
  "relative_byte_length path = Ok j \<longleftrightarrow> j = length (join_slash path) \<and> j \<le> u64_max"
  by (auto simp: relative_byte_length_def result_simps sum_component_bytes_ok checked_add_def length_join_slash
      split: option.splits if_splits)

lemma clone_child_path_ok:
  assumes "cr_limits r = ALPHA"
  shows "clone_child_path relative (sn_name n) r = Ok path \<longleftrightarrow>
    path = relative @ [sn_name n] \<and> path_ok path n"
  using assms
  by (auto simp: clone_child_path_def Let_def result_simps relative_byte_length_ok path_ok_def u64_max_num)

lemma clone_note_entry_ok:
  assumes "cr_limits (wk_report w) = ALPHA" "walked_entries w < lim_entries ALPHA"
  shows "clone_note_entry w = Ok (count_entry w)"
proof -
  have "sat_add (walked_entries w) 1 = walked_entries w + 1"
    using assms(2) by (simp add: sat_add_exact u64_max_num)
  with assms show ?thesis by (simp add: clone_note_entry_def count_entry_def count_up_def)
qed

lemma clone_add_logical_bytes_ok:
  assumes "cr_limits (wk_report w) = ALPHA"
  shows "clone_add_logical_bytes w k = Ok w' \<longleftrightarrow> walked_bytes w + k \<le> lim_logical_bytes ALPHA \<and>
    w' = count_up (\<lambda>c. c\<lparr>cc_logical_bytes := cc_logical_bytes c + k\<rparr>) w"
  using assms by (auto simp: clone_add_logical_bytes_def checked_add_def u64_max_num count_up_def)

lemma staging_call_ok [result_simps]: "staging_call env call path m = Ok u \<longleftrightarrow> \<not> we_fails env call path"
  by (simp add: staging_call_def)

lemma claim_name_ok [result_simps]:
  "claim_name env call path m w = Ok u \<longleftrightarrow> wk_staging w path = None \<and> \<not> we_fails env call path"
  by (auto simp: claim_name_def result_simps)

lemma staging_ok_simps [simp]:
  "staging_ok env [] path" "staging_ok env (call # calls) path \<longleftrightarrow> \<not> we_fails env call path \<and> staging_ok env calls path"
  "staging_ok env (calls @ calls') path \<longleftrightarrow> staging_ok env calls path \<and> staging_ok env calls' path"
  by (auto simp: staging_ok_def)

lemma still_simps [simp]: "still m []" "still m (s # calls) \<longleftrightarrow> s = SysOk m \<and> still m calls"
  by (auto simp: still_def)

lemma answers_simps [simp]: "answers (SysOk x)" "\<not> answers SysNotFound" "\<not> answers SysFail"
  by (simp_all add: answers_def)

lemma answers_iff: "answers r \<longleftrightarrow> (\<exists>x. r = SysOk x)"
  by (cases r) auto

lemma copy_bounded_ok:
  assumes "cr_limits r = ALPHA" "copied \<le> lim_file_bytes ALPHA"
    "cc_logical_bytes (cr_counts r) + copied \<le> lim_logical_bytes ALPHA"
  shows "copy_bounded env r path i copied written blocks readable = Ok (copied', written') \<longleftrightarrow>
    (let used = takeWhile (\<lambda>block. block \<noteq> []) blocks in
     (readable \<or> [] \<in> set blocks) \<and> copied' = copied + length (concat used) \<and> written' = written @ concat used \<and>
     copied' \<le> lim_file_bytes ALPHA \<and> cc_logical_bytes (cr_counts r) + copied' \<le> lim_logical_bytes ALPHA \<and>
     staging_ok env (map WriteBlock [i..<i + length used]) path)"
  using assms
proof (induction blocks arbitrary: i copied written)
  case Nil
  then show ?case by auto
next
  case (Cons block blocks)
  show ?case
  proof (cases "block = []")
    case True
    then show ?thesis using Cons.prems by auto
  next
    case False
    let ?used = "takeWhile (\<lambda>block. block \<noteq> []) blocks"
    have blocks: "staging_ok env (map WriteBlock [i..<i + length (block # ?used)]) path \<longleftrightarrow>
        \<not> we_fails env (WriteBlock i) path \<and> staging_ok env (map WriteBlock [i + 1..<i + 1 + length ?used]) path"
      by (simp add: upt_conv_Cons del: upt_Suc)
    have used: "takeWhile (\<lambda>block. block \<noteq> []) (block # blocks) = block # ?used"
      "concat (block # ?used) = block @ concat ?used" "[] \<in> set (block # blocks) \<longleftrightarrow> [] \<in> set blocks"
      using False by auto
    show ?thesis
    proof (cases "copied + length block \<le> lim_file_bytes ALPHA \<and>
        cc_logical_bytes (cr_counts r) + (copied + length block) \<le> lim_logical_bytes ALPHA")
      case True
      then have "checked_add copied (length block) = Some (copied + length block)"
        "checked_add (cc_logical_bytes (cr_counts r)) (copied + length block) =
           Some (cc_logical_bytes (cr_counts r) + (copied + length block))"
        by (simp_all add: checked_add_def u64_max_num)
      then have "copy_bounded env r path i copied written (block # blocks) readable =
          rbind (staging_call env (WriteBlock i) path ''could not write staging file'') (\<lambda>_.
            copy_bounded env r path (i + 1) (copied + length block) (written @ block) blocks readable)"
        using False True Cons.prems(1) by simp
      moreover note Cons.IH [OF Cons.prems(1), of "copied + length block" "i + 1" "written @ block", unfolded Let_def]
      ultimately show ?thesis
        using True unfolding Let_def used blocks by (auto simp: rbind_eq_Inr staging_call_ok simp del: length_concat)
    next
      case False': False
      then have "copy_bounded env r path i copied written (block # blocks) readable \<noteq> Ok (copied', written')"
        using False Cons.prems(1) by (auto simp: checked_add_def)
      moreover have "\<not> (copied + length (concat (block # us)) \<le> lim_file_bytes ALPHA \<and>
          cc_logical_bytes (cr_counts r) + (copied + length (concat (block # us))) \<le> lim_logical_bytes ALPHA)" for us
        using False' by auto
      ultimately show ?thesis using False by (auto simp: Let_def)
    qed
  qed
qed

lemma stage_stage [simp]: "stage path a (stage path b w) = stage path a w"
  by (simp add: stage_def)

lemma copy_regular_ok:
  assumes "cr_limits (wk_report w) = ALPHA" "walked_bytes w \<le> lim_logical_bytes ALPHA"
  shows "copy_regular env f mode path w = Ok (k, post, w') \<longleftrightarrow>
    copyable env path f \<and> wk_staging w path = None \<and> sf_post f = SysOk post \<and> k = length (file_content f) \<and>
    walked_bytes w + k \<le> lim_logical_bytes ALPHA \<and> w' = stage path (StagedFile (mode_bits mode) (file_content f)) w"
proof -
  have copy: "copy_bounded env (wk_report w) path 0 0 [] (sf_reads f) readable = Ok (k, written) \<longleftrightarrow>
      (readable \<or> [] \<in> set (sf_reads f)) \<and> k = length (file_content f) \<and> written = file_content f \<and>
      length (file_content f) \<le> lim_file_bytes ALPHA \<and> walked_bytes w + length (file_content f) \<le> lim_logical_bytes ALPHA \<and>
      staging_ok env (map WriteBlock [0..<length (takeWhile (\<lambda>block. block \<noteq> []) (sf_reads f))]) path"
    for readable k written
    using assms by (subst copy_bounded_ok) (auto simp: Let_def file_content_def simp del: length_concat)
  show ?thesis
    using assms
    by (auto simp: copy_regular_def result_simps Let_def copy copyable_def)
qed

lemma clone_visit_file_ok:
  assumes "cr_limits (wk_report w) = ALPHA" "walked_bytes w \<le> lim_logical_bytes ALPHA"
    and m: "sn_stat n = SysOk m" "cache \<or> path \<notin> set (cache_roots env)" "st_uid m = we_uid env" "is_file m"
  shows "clone_visit_file env path m n w = Ok w' \<longleftrightarrow>
    file_ok env path m n \<and> (we_destination env \<longrightarrow> wk_staging w path = None) \<and>
    walked_bytes w + entry_bytes_of env cache (path, n) \<le> lim_logical_bytes ALPHA \<and>
    w' = absorb env path (the (dispose env cache path n)) w"
proof (cases "sn_file n")
  case (SysOk f)
  have kinds: "S_IFREG \<noteq> S_IFDIR" by (simp add: s_kinds)
  define bytes where "bytes = (if we_destination env then length (file_content f) else nat (st_size m))"
  have d: "dispose env cache path n = Some (KeptFile (mode_bits (st_mode m)) (file_content f) bytes (st_nlink m > 1))"
    using m SysOk kinds by (auto simp: dispose_def bytes_def)
  have opened: "open_regular_at n m = Ok source \<longleftrightarrow> source = f \<and> sf_opened f = SysOk m \<and> answers (sf_get_flags f) \<and> answers (sf_set_flags f)"
    for source
    using m(4) SysOk by (auto simp: open_regular_at_def result_simps answers_iff)
  have effect: "(let w = count_up (\<lambda>c. c\<lparr>cc_files := cc_files c + 1\<rparr>) (count_up (\<lambda>c. c\<lparr>cc_logical_bytes := cc_logical_bytes c + bytes\<rparr>) v) in
        if st_nlink m > 1
        then exclude_up (\<lambda>e. e\<lparr>ce_hard_linked_files_copied_independently := ce_hard_linked_files_copied_independently e + 1\<rparr>) w
        else w) =
      absorb env path (KeptFile (mode_bits (st_mode m)) (file_content f) bytes (st_nlink m > 1)) w"
    if "v = (if we_destination env then stage path (StagedFile (mode_bits (st_mode m)) (file_content f)) w else w)" for v
    unfolding that by (simp add: absorb_def install_def Let_def count_up_def exclude_up_def stage_def)
  show ?thesis
  proof (cases "we_destination env")
    case True
    then show ?thesis
      using assms(1,2) m(4) SysOk effect [of "stage path (StagedFile (mode_bits (st_mode m)) (file_content f)) w"]
      by (auto simp: clone_visit_file_def file_ok_def Let_def result_simps opened copy_regular_ok clone_add_logical_bytes_ok
          d entry_bytes_of_def bytes_def)
  next
    case False
    then show ?thesis
      using assms(1,2) m(4) SysOk effect [of w]
      by (auto simp: clone_visit_file_def file_ok_def Let_def result_simps opened clone_add_logical_bytes_ok
          d entry_bytes_of_def bytes_def)
  qed
qed (simp_all add: clone_visit_file_def file_ok_def open_regular_at_def Let_def changed_source_def)

lemma clone_visit_symlink_ok:
  assumes "cr_limits (wk_report w) = ALPHA" "walked_bytes w \<le> lim_logical_bytes ALPHA"
    and m: "sn_stat n = SysOk m" "cache \<or> path \<notin> set (cache_roots env)" "st_uid m = we_uid env" "is_symlink m"
    and path: "path = relative @ [sn_name n]"
  shows "clone_visit_symlink env relative path m n w = Ok w' \<longleftrightarrow>
    link_ok env path m n \<and> (claims env cache (path, n) \<longrightarrow> wk_staging w path = None) \<and>
    walked_bytes w + entry_bytes_of env cache (path, n) \<le> lim_logical_bytes ALPHA \<and>
    w' = absorb env path (the (dispose env cache path n)) w"
proof (cases "sn_target n")
  case (SysOk t)
  have kinds: "S_IFLNK \<noteq> S_IFDIR" "S_IFLNK \<noteq> S_IFREG" by (simp_all add: s_kinds)
  have parent: "butlast path = relative" using path by simp
  have d: "dispose env cache path n =
      (if is_managed_command_link path t then Some ManagedLink
       else map_option (KeptLink t) (resolve_relative_link_target relative t))"
    using m SysOk kinds by (auto simp: dispose_def parent)
  show ?thesis
  proof (cases "is_managed_command_link path t")
    case True
    then show ?thesis using assms SysOk d
      by (auto simp: clone_visit_symlink_def link_ok_def Let_def result_simps claims_def entry_bytes_of_def absorb_def install_def
          count_up_def)
  next
    case unmanaged: False
    show ?thesis
    proof (cases "resolve_relative_link_target relative t")
      case None
      then show ?thesis using unmanaged SysOk parent
        by (auto simp: clone_visit_symlink_def link_ok_def Let_def result_simps)
    next
      case (Some resolved)
      have effect: "count_up (\<lambda>c. c\<lparr>cc_symlinks := cc_symlinks c + 1\<rparr>) (note_cache_links env resolved v) =
          absorb env path (KeptLink t resolved) w"
        if "v = (let w = count_up (\<lambda>c. c\<lparr>cc_logical_bytes := cc_logical_bytes c + length t\<rparr>) w in
            if we_destination env then stage path (StagedLink t) w else w)" for v
        unfolding that
        by (simp add: absorb_def install_def Let_def count_up_def exclude_up_def stage_def note_cache_links_def)
      show ?thesis
      proof (cases "we_destination env")
        case True
        then show ?thesis using assms(1,2) m(4) SysOk d unmanaged Some parent
            effect [of "stage path (StagedLink t) (count_up (\<lambda>c. c\<lparr>cc_logical_bytes := cc_logical_bytes c + length t\<rparr>) w)"]
          by (auto simp: clone_visit_symlink_def link_ok_def Let_def result_simps claims_def entry_bytes_of_def
              clone_add_logical_bytes_ok)
      next
        case False
        then show ?thesis using assms(1,2) m(4) SysOk d unmanaged Some parent
            effect [of "count_up (\<lambda>c. c\<lparr>cc_logical_bytes := cc_logical_bytes c + length t\<rparr>) w"]
          by (auto simp: clone_visit_symlink_def link_ok_def Let_def result_simps claims_def entry_bytes_of_def
              clone_add_logical_bytes_ok)
      qed
    qed
  qed
qed (simp_all add: clone_visit_symlink_def link_ok_def changed_source_def)

lemma clone_visit_special_ok:
  assumes "walked_bytes w \<le> lim_logical_bytes ALPHA"
    and m: "sn_stat n = SysOk m" "cache \<or> path \<notin> set (cache_roots env)" "st_uid m = we_uid env"
      "\<not> is_dir m" "\<not> is_file m" "\<not> is_symlink m"
  shows "clone_visit_special (s_kind (st_mode m)) w = Ok w' \<longleftrightarrow>
    s_kind (st_mode m) \<in> {S_IFSOCK, S_IFIFO, S_IFCHR, S_IFBLK} \<and> (claims env cache (path, n) \<longrightarrow> wk_staging w path = None) \<and>
    walked_bytes w + entry_bytes_of env cache (path, n) \<le> lim_logical_bytes ALPHA \<and>
    w' = absorb env path (the (dispose env cache path n)) w"
proof -
  let ?k = "s_kind (st_mode m)"
  have d: "dispose env cache path n =
      (if ?k = S_IFSOCK then Some OmittedSocket else if ?k = S_IFIFO then Some OmittedFifo
       else if ?k \<in> {S_IFCHR, S_IFBLK} then Some OmittedDevice else None)"
    using m by (auto simp: dispose_def)
  have "exclude_up f (count_up (\<lambda>c. c) w) = exclude_up f w" for f by (simp add: count_up_def)
  then show ?thesis using assms(1) unfolding d
    by (auto simp: clone_visit_special_def claims_def entry_bytes_of_def d absorb_def install_def count_up_def)
qed

lemma exclude_cache_ok:
  assumes "walked_bytes w \<le> lim_logical_bytes ALPHA" "sn_stat n = SysOk m" "\<not> cache" "path \<in> set (cache_roots env)"
  shows "exclude_cache env path w = Ok w' \<longleftrightarrow>
    (wc_recreate_cache_roots (we_control env) \<and> we_destination env \<longrightarrow>
       staging_ok env [MakeDirectory, OpenDirectory, SyncStagedDirectory] path) \<and>
    (claims env cache (path, n) \<longrightarrow> wk_staging w path = None) \<and>
    walked_bytes w + entry_bytes_of env cache (path, n) \<le> lim_logical_bytes ALPHA \<and>
    w' = absorb env path (the (dispose env cache path n)) w"
proof -
  have d: "dispose env cache path n = Some CacheRoot" using assms by (simp add: dispose_def)
  show ?thesis using assms(1) unfolding d
    by (auto simp: exclude_cache_def Let_def create_empty_cache_def create_directory_at_def result_simps claims_def d
        entry_bytes_of_def absorb_def install_def count_up_def exclude_up_def)
qed

lemma absorb_foreign:
  "absorb env path ForeignOwned w = exclude_up (\<lambda>e. e\<lparr>ce_foreign_owned := ce_foreign_owned e + 1\<rparr>) w"
  by (simp add: absorb_def install_def count_up_def exclude_up_def)

subsection \<open>Folding the effects\<close>

definition absorbed :: "walk_env \<Rightarrow> bool \<Rightarrow> (string list \<times> source_node) list \<Rightarrow> walker \<Rightarrow> walker" where
  "absorbed env cache es w = fold (absorb_entry env cache) es w"

definition fresh :: "walk_env \<Rightarrow> bool \<Rightarrow> (string list \<times> source_node) list \<Rightarrow> walker \<Rightarrow> bool" where
  "fresh env cache es w \<longleftrightarrow> distinct (claimed env cache es) \<and> list_all (\<lambda>p. wk_staging w p = None) (claimed env cache es)"

text \<open>The acceptance of a whole list of entries; what is buffered will still be visited by others.\<close>

definition fits :: "walk_env \<Rightarrow> bool \<Rightarrow> (string list \<times> source_node) list \<Rightarrow> walker \<Rightarrow> bool" where
  "fits env cache es w \<longleftrightarrow> list_all (entry_ok env cache) es \<and> fresh env cache es w \<and>
     walked_bytes w + sum_list (map (entry_bytes_of env cache) es) \<le> lim_logical_bytes ALPHA \<and>
     walked_entries w + length es + wk_buffered_entries w \<le> lim_entries ALPHA"

definition pending :: "nat \<Rightarrow> walker \<Rightarrow> walker" where
  "pending k w = w\<lparr>wk_buffered_entries := wk_buffered_entries w + k\<rparr>"

lemma pending_simps [simp]:
  "wk_report (pending k w) = wk_report w" "wk_buffered_entries (pending k w) = wk_buffered_entries w + k"
  "wk_staging (pending k w) = wk_staging w" "pending 0 w = w"
  by (simp_all add: pending_def)

lemma tally_simps [simp]:
  "cc_entries (tally d c) = cc_entries c" "cc_logical_bytes (tally d c) = cc_logical_bytes c + disposed_bytes d"
  by (cases d; simp)+

lemma note_caches_simps [simp]:
  "wk_report (note_caches env path d w) = wk_report w" "wk_staging (note_caches env path d w) = wk_staging w"
  "wk_buffered_entries (note_caches env path d w) = wk_buffered_entries w"
  by (cases d; simp)+

lemma install_simps [simp]:
  "wk_report (install env path d w) = wk_report w"
  "wk_buffered_entries (install env path d w) = wk_buffered_entries w"
  by (auto simp: install_def split: option.splits)

lemma absorb_simps [simp]:
  "cr_limits (wk_report (absorb env path d w)) = cr_limits (wk_report w)"
  "cr_policy (wk_report (absorb env path d w)) = cr_policy (wk_report w)"
  "cr_counts (wk_report (absorb env path d w)) = tally d (cr_counts (wk_report w))"
  "cr_exclusions (wk_report (absorb env path d w)) = tally_omitted d (cr_exclusions (wk_report w))"
  "wk_buffered_entries (absorb env path d w) = wk_buffered_entries w"
  by (simp_all add: absorb_def)

lemma absorb_staging:
  "wk_staging (absorb env path d w) =
     (case staged_of env d of
        Some s \<Rightarrow> if we_destination env then (wk_staging w)(path \<mapsto> s) else wk_staging w
      | None \<Rightarrow> wk_staging w)"
  by (simp add: absorb_def install_def split: option.splits)

lemma entry_ok_dispose:
  assumes "entry_ok env cache (path, n)"
  shows "\<exists>d. dispose env cache path n = Some d"
proof -
  obtain m where m: "sn_stat n = SysOk m" using assms by (auto simp: entry_ok_def split: sys.splits)
  consider (early) "\<not> cache \<and> path \<in> set (cache_roots env) \<or> st_uid m \<noteq> we_uid env"
    | (dir) "is_dir m" "directory_ok env path m n" | (reg) "is_file m" "file_ok env path m n"
    | (link) "is_symlink m" "link_ok env path m n" | (special) "s_kind (st_mode m) \<in> {S_IFSOCK, S_IFIFO, S_IFCHR, S_IFBLK}"
    using assms m by (simp add: entry_ok_def split: if_splits)
  then show ?thesis
  proof cases
    case dir
    then show ?thesis using m by (cases "sn_directory n") (simp_all add: dispose_def directory_ok_def)
  next
    case reg
    then show ?thesis using m
      by (cases "sn_file n"; cases "sn_directory n") (simp_all add: dispose_def file_ok_def s_kinds)
  next
    case link
    then show ?thesis using m by (cases "sn_target n") (auto simp: dispose_def link_ok_def s_kinds)
  next
    case special
    then show ?thesis using m by (auto simp: dispose_def s_kinds)
  qed (use m in \<open>auto simp: dispose_def\<close>)
qed

lemma absorb_entry_simps [simp]:
  "cr_limits (wk_report (absorb_entry env cache e w)) = cr_limits (wk_report w)"
  "cr_policy (wk_report (absorb_entry env cache e w)) = cr_policy (wk_report w)"
  "wk_buffered_entries (absorb_entry env cache e w) = wk_buffered_entries w"
  "walked_bytes (absorb_entry env cache e w) = walked_bytes w + entry_bytes_of env cache e"
  by (auto simp: absorb_entry_def entry_bytes_of_def split: option.splits prod.splits)

lemma absorb_entry_entries:
  "entry_ok env cache e \<Longrightarrow> walked_entries (absorb_entry env cache e w) = walked_entries w + 1"
  by (cases e) (auto simp: absorb_entry_def dest: entry_ok_dispose)

lemma absorb_entry_staging:
  "wk_staging (absorb_entry env cache e w) p = None \<longleftrightarrow>
     wk_staging w p = None \<and> \<not> (claims env cache e \<and> fst e = p)"
  by (auto simp: absorb_entry_def claims_def absorb_staging split: option.splits prod.splits)

lemma absorbed_simps [simp]:
  "cr_limits (wk_report (absorbed env cache es w)) = cr_limits (wk_report w)"
  "cr_policy (wk_report (absorbed env cache es w)) = cr_policy (wk_report w)"
  "wk_buffered_entries (absorbed env cache es w) = wk_buffered_entries w"
  "walked_bytes (absorbed env cache es w) = walked_bytes w + sum_list (map (entry_bytes_of env cache) es)"
  by (induction es arbitrary: w) (simp_all add: absorbed_def add.assoc)

lemma absorbed_Nil [simp]: "absorbed env cache [] w = w"
  and absorbed_Cons: "absorbed env cache (e # es) w = absorbed env cache es (absorb_entry env cache e w)"
  and absorbed_append: "absorbed env cache (es @ fs) w = absorbed env cache fs (absorbed env cache es w)"
  by (simp_all add: absorbed_def)

lemma absorbed_entries:
  "list_all (entry_ok env cache) es \<Longrightarrow> walked_entries (absorbed env cache es w) = walked_entries w + length es"
  by (induction es arbitrary: w) (simp_all add: absorbed_Cons absorb_entry_entries)

lemma absorbed_staging:
  "wk_staging (absorbed env cache es w) p = None \<longleftrightarrow> wk_staging w p = None \<and> p \<notin> set (claimed env cache es)"
proof (induction es arbitrary: w)
  case (Cons e es)
  show ?case by (simp add: absorbed_Cons Cons absorb_entry_staging claimed_def) blast
qed (simp add: claimed_def)

lemma claimed_append: "claimed env cache (es @ fs) = claimed env cache es @ claimed env cache fs"
  by (simp add: claimed_def)

lemma fresh_append:
  "fresh env cache (es @ fs) w \<longleftrightarrow> fresh env cache es w \<and> fresh env cache fs (absorbed env cache es w)"
  by (auto simp: fresh_def claimed_append list_all_iff absorbed_staging)

lemma fits_append:
  "fits env cache (es @ fs) w \<longleftrightarrow>
     list_all (entry_ok env cache) es \<and> fresh env cache es w \<and> fits env cache fs (absorbed env cache es w)"
  by (auto simp: fits_def fresh_append absorbed_entries)

text \<open>Effects of entries below a directory commute with what is done to the directory itself.\<close>

lemma note_cache_links_stage: "note_cache_links env r (stage path s w) = stage path s (note_cache_links env r w)"
  by (simp add: note_cache_links_def stage_def)

lemma stage_swap: "p \<noteq> q \<Longrightarrow> stage p a (stage q b w) = stage q b (stage p a w)"
  by (simp add: stage_def fun_upd_twist)

lemma up_stage: "count_up f (stage p s w) = stage p s (count_up f w)" "count_entry (stage p s w) = stage p s (count_entry w)"
  "exclude_up g (stage p s w) = stage p s (exclude_up g w)"
  by (simp_all add: count_up_def count_entry_def exclude_up_def stage_def)

lemma note_caches_stage: "note_caches env q d (stage p s w) = stage p s (note_caches env q d w)"
  by (cases d) (auto simp: note_cache_links_stage stage_def note_cache_links_def)

lemma absorb_stage: "p \<noteq> q \<Longrightarrow> absorb env q d (stage p s w) = stage p s (absorb env q d w)"
  by (simp add: absorb_def install_def up_stage note_caches_stage stage_swap split: option.splits)

lemma absorbed_stage:
  "p \<notin> fst ` set es \<Longrightarrow> absorbed env cache es (stage p s w) = stage p s (absorbed env cache es w)"
proof (induction es arbitrary: w)
  case (Cons e es)
  then have "absorb_entry env cache e (stage p s w) = stage p s (absorb_entry env cache e w)"
    by (auto simp: absorb_entry_def up_stage absorb_stage split: option.splits prod.splits)
  with Cons show ?case by (simp add: absorbed_Cons)
qed simp

lemma note_cache_links_pending: "note_cache_links env r (pending k w) = pending k (note_cache_links env r w)"
  by (simp add: note_cache_links_def pending_def)

lemma absorb_pending: "absorb env q d (pending k w) = pending k (absorb env q d w)"
  by (cases d) (simp_all add: absorb_def install_def note_cache_links_pending count_up_def exclude_up_def stage_def pending_def
      note_cache_links_def)

lemma up_pending: "count_entry (pending k w) = pending k (count_entry w)"
  by (cases w) (simp add: count_entry_def count_up_def pending_def)

lemma absorbed_pending: "absorbed env cache es (pending k w) = pending k (absorbed env cache es w)"
proof (induction es arbitrary: w)
  case (Cons e es)
  have "absorb_entry env cache e (pending k w) = pending k (absorb_entry env cache e w)"
    by (auto simp: absorb_entry_def absorb_pending up_pending split: option.splits prod.splits)
  with Cons show ?case by (simp add: absorbed_Cons)
qed simp

lemma fits_stage: "p \<notin> fst ` set es \<Longrightarrow> fits env cache es (stage p s w) \<longleftrightarrow> fits env cache es w"
proof -
  assume "p \<notin> fst ` set es"
  then have "q \<noteq> p" if "q \<in> set (claimed env cache es)" for q using that by (auto simp: claimed_def rev_image_eqI)
  then have "list_all (\<lambda>q. wk_staging (stage p s w) q = None) (claimed env cache es) \<longleftrightarrow>
      list_all (\<lambda>q. wk_staging w q = None) (claimed env cache es)"
    by (auto simp: list_all_iff)
  then show ?thesis by (simp add: fits_def fresh_def)
qed

lemma length_examined: "length ns \<le> length (examined env cache relative ns)"
proof (induction relative ns rule: examined_induct [where env = env and cache = cache])
  case (Cons relative n ns)
  then show ?case by (simp add: examined_Cons)
qed simp

lemma examined_strictly_below: "path \<notin> fst ` set (examined env cache path ns)"
  using examined_below by force

subsection \<open>The walk is the fold\<close>

lemma walk_inv_simps:
  "walk_inv cache w \<Longrightarrow> cr_limits (wk_report w) = ALPHA"
  "walk_inv cache w \<Longrightarrow> walked_entries w + wk_buffered_entries w \<le> lim_entries ALPHA"
  "walk_inv cache w \<Longrightarrow> walked_bytes w \<le> lim_logical_bytes ALPHA"
  "walk_inv cache w \<Longrightarrow> po_include_cache (cr_policy (wk_report w)) = cache"
  by (simp_all add: walk_inv_def)

lemma length_source_listed: "length (source_listed ns) = length (filter (\<lambda>n. \<not> dot_entry (sn_name n)) ns)"
  by (simp add: source_listed_def)

lemma buffer_names_ok:
  assumes "walk_inv cache w"
  shows "buffer_names d w = Ok (names, w') \<longleftrightarrow> sd_complete d \<and> names = source_listed (sd_listing d) \<and>
    walked_entries w + wk_buffered_entries w + length names \<le> lim_entries ALPHA \<and> w' = pending (length names) w"
proof -
  note inv = walk_inv_simps(1,2) [OF assms]
  have "sat_add (walked_entries w) (wk_buffered_entries w) = walked_entries w + wk_buffered_entries w"
    using inv by (simp add: sat_add_exact u64_max_num)
  moreover have "sat_add (wk_buffered_entries w) k = wk_buffered_entries w + k"
    if "walked_entries w + wk_buffered_entries w + k \<le> lim_entries ALPHA" for k
    using that by (simp add: sat_add_exact u64_max_num)
  ultimately show ?thesis
    using inv by (auto simp: buffer_names_def clone_directory_names_def Let_def rbind_eq_Inr gather_names_ok pending_def
        source_listed_def [symmetric] length_source_listed split: if_splits)
qed

lemma fits_entries: "fits env cache (examined env cache relative ns) w \<Longrightarrow>
    walked_entries w + wk_buffered_entries w + length ns \<le> lim_entries ALPHA"
  using length_examined [of ns env cache relative] by (simp add: fits_def)

lemma enter_source_directory_iff:
  assumes "cr_limits (wk_report w) = ALPHA" "is_dir m" "sn_directory n = SysOk d" "path = relative @ [sn_name n]"
    "length relative \<le> 64"
  shows "enter_source_directory env path (length relative) m n w = Ok (source, next_depth, w') \<longleftrightarrow>
    (wc_artifact_source (we_control env) \<longrightarrow> st_mode m AND 320 = 320) \<and> length path \<le> lim_depth ALPHA \<and>
    source = d \<and> next_depth = length path \<and> sd_opened d = SysOk m \<and>
    (we_destination env \<longrightarrow> wk_staging w path = None \<and> staging_ok env [MakeDirectory, OpenDirectory] path) \<and>
    w' = count_up (\<lambda>c. c\<lparr>cc_directories := cc_directories c + 1\<rparr>)
      (if we_destination env then stage path (StagedDirectory 448) w else w)"
proof -
  have "min (length relative + 1) u32_max = length path" using assms(4,5) by (simp add: u32_max_num)
  then show ?thesis
    using assms(1-3)
    by (auto simp: enter_source_directory_def open_directory_at_def create_directory_at_def Let_def result_simps)
qed

lemma directory_step:
  fixes env cache path n w m
  defines "kids \<equiv> entered env cache path n"
  assumes inv: "walk_inv cache w"
    and m: "sn_stat n = SysOk m" "cache \<or> path \<notin> set (cache_roots env)" "st_uid m = we_uid env" "is_dir m"
    and path: "path = relative @ [sn_name n]" "length relative \<le> 64"
    and walk: "\<And>v v'. walk_inv cache (pending (length kids) v) \<Longrightarrow> length path \<le> 64 \<Longrightarrow>
      walk_source_entries env path (length path) kids (pending (length kids) v) = Ok v' \<longleftrightarrow>
        fits env cache (examined env cache path kids) v \<and> v' = absorbed env cache (examined env cache path kids) v"
  shows "rbind (enter_source_directory env path (length relative) m n w) (\<lambda>(source, next_depth, w).
      rbind (walk_source_directory env path next_depth source w) (\<lambda>(post_read, w).
      rbind (leave_source_directory m post_read n) (\<lambda>_. Ok w))) = Ok w' \<longleftrightarrow>
    directory_ok env path m n \<and> (we_destination env \<longrightarrow> wk_staging w path = None) \<and>
    fits env cache (examined env cache path kids) (absorb env path (the (dispose env cache path n)) w) \<and>
    w' = absorbed env cache (examined env cache path kids) (absorb env path (the (dispose env cache path n)) w)"
proof (cases "sn_directory n")
  case (SysOk d)
  define mode where "mode = (case sd_mode d of SysOk s \<Rightarrow> mode_bits (st_mode s) | _ \<Rightarrow> 448)"
  have disp: "dispose env cache path n = Some (KeptDirectory mode)"
    using m SysOk by (auto simp: dispose_def mode_def)
  have kids: "kids = source_listed (sd_listing d)" using disp SysOk by (simp add: kids_def entered_def)
  let ?es = "examined env cache path kids"
  let ?dirs = "count_up (\<lambda>c. c\<lparr>cc_directories := cc_directories c + 1\<rparr>)"
  define v where "v = ?dirs (if we_destination env then stage path (StagedDirectory 448) w else w)"
  have absorb: "absorb env path (KeptDirectory mo) w =
      (if we_destination env then stage path (StagedDirectory mo) (?dirs w) else ?dirs w)" for mo
    by (simp add: absorb_def install_def exclude_up_def count_up_def)
  have fits: "fits env cache ?es v \<longleftrightarrow> fits env cache ?es (absorb env path (KeptDirectory mode) w)"
    using examined_strictly_below [of path env cache kids] by (simp add: v_def absorb up_stage fits_stage)
  have sealed: "seal_directory env path d (absorbed env cache ?es v) = Ok u \<longleftrightarrow>
      (we_destination env \<longrightarrow> answers (sd_mode d) \<and> staging_ok env [ChangeDirectoryMode, SyncStagedDirectory] path) \<and>
      u = absorbed env cache ?es (absorb env path (KeptDirectory mode) w)" for u
    using examined_strictly_below [of path env cache kids]
    by (auto simp: seal_directory_def apply_directory_mode_def result_simps answers_iff v_def absorb up_stage absorbed_stage mode_def)
  have inv_v: "walk_inv cache v" using inv by (simp add: v_def walk_inv_def)
  have inv_k: "walk_inv cache (pending (length kids) v)"
    if "walked_entries v + wk_buffered_entries v + length kids \<le> lim_entries ALPHA"
    using inv_v that by (simp add: walk_inv_def)
  have walked: "walk_source_directory env path (length path) d v = Ok (post, u) \<longleftrightarrow>
      sd_complete d \<and> sd_post d = SysOk post \<and> fits env cache ?es v \<and>
      (we_destination env \<longrightarrow> answers (sd_mode d) \<and> staging_ok env [ChangeDirectoryMode, SyncStagedDirectory] path) \<and>
      u = absorbed env cache ?es (absorb env path (KeptDirectory mode) w)" if "length path \<le> 64" for post u
  proof (cases "walked_entries v + wk_buffered_entries v + length kids \<le> lim_entries ALPHA")
    case True
    note run = walk [OF inv_k [OF True] that]
    show ?thesis using True
      by (auto simp: walk_source_directory.simps rbind_eq_Inr buffer_names_ok [OF inv_v] kids [symmetric] run sealed nix_call_ok
          simp del: staging_ok_simps ALPHA_simps)
  next
    case False
    then show ?thesis using fits_entries [of env cache path kids v]
      by (auto simp: walk_source_directory.simps rbind_eq_Inr buffer_names_ok [OF inv_v] kids [symmetric] simp del: ALPHA_simps)
  qed
  have enter: "enter_source_directory env path (length relative) m n w = Ok (source, next_depth, u) \<longleftrightarrow>
      (wc_artifact_source (we_control env) \<longrightarrow> st_mode m AND 320 = 320) \<and> length path \<le> lim_depth ALPHA \<and>
      source = d \<and> next_depth = length path \<and> sd_opened d = SysOk m \<and>
      (we_destination env \<longrightarrow> wk_staging w path = None \<and> staging_ok env [MakeDirectory, OpenDirectory] path) \<and> u = v"
    for source next_depth u
    unfolding v_def by (rule enter_source_directory_iff [OF walk_inv_simps(1) [OF inv] m(4) SysOk path])
  show ?thesis
  proof (cases "length path \<le> lim_depth ALPHA")
    case True
    then have "length path \<le> 64" by simp
    note walked = walked [OF this]
    show ?thesis
      by (auto simp: rbind_eq_Inr enter walked leave_source_directory_def entry_metadata_ok walk_verify_identity_ok
          directory_ok_def SysOk disp fits m(4) True simp del: ALPHA_simps)
  next
    case False
    then show ?thesis by (auto simp: rbind_eq_Inr enter directory_ok_def simp del: ALPHA_simps)
  qed
qed (simp_all add: enter_source_directory_def open_directory_at_def directory_ok_def Let_def changed_source_def)

lemma fits_Nil: "fits env cache [] w \<longleftrightarrow>
    walked_bytes w \<le> lim_logical_bytes ALPHA \<and> walked_entries w + wk_buffered_entries w \<le> lim_entries ALPHA"
  by (simp add: fits_def fresh_def claimed_def)

lemma fits_Cons: "fits env cache (e # es) w \<longleftrightarrow>
    entry_ok env cache e \<and> (claims env cache e \<longrightarrow> wk_staging w (fst e) = None) \<and> fits env cache es (absorb_entry env cache e w)"
  using fits_append [of env cache "[e]" es w]
  by (auto simp: fresh_def claimed_def absorbed_Cons)

lemma entered_other:
  assumes "sn_stat n = SysOk m" "\<not> is_dir m \<or> st_uid m \<noteq> we_uid env \<or> \<not> cache \<and> path \<in> set (cache_roots env)"
  shows "entered env cache path n = []"
proof -
  have "dispose env cache path n \<noteq> Some (KeptDirectory mode)" for mode
  proof (cases "st_uid m \<noteq> we_uid env \<or> \<not> cache \<and> path \<in> set (cache_roots env)")
    case True
    then show ?thesis using assms(1) by (auto simp: dispose_def)
  next
    case False
    then have "\<not> is_dir m" using assms(2) by blast
    moreover have "map_option (KeptLink t) r \<noteq> Some (KeptDirectory mode)" for t r by (cases r) simp_all
    ultimately show ?thesis using False assms(1)
      by (cases "sn_file n"; cases "sn_target n") (simp_all add: dispose_def)
  qed
  then show ?thesis by (simp add: entered_def split: option.split disposition.split)
qed

abbreviation entry_step :: "walk_env \<Rightarrow> string list \<Rightarrow> string list \<Rightarrow> nat \<Rightarrow> file_stat \<Rightarrow> source_node \<Rightarrow> walker \<Rightarrow> walker result" where
  "entry_step env relative path depth metadata n w \<equiv>
     (if is_excluded_cache env w path then exclude_cache env path w
      else if st_uid metadata \<noteq> we_uid env
      then Ok (exclude_up (\<lambda>e. e\<lparr>ce_foreign_owned := ce_foreign_owned e + 1\<rparr>) w)
      else let k = s_kind (st_mode metadata) in
        if k = S_IFDIR
        then rbind (enter_source_directory env path depth metadata n w) (\<lambda>(source, next_depth, w).
          rbind (walk_source_directory env path next_depth source w) (\<lambda>(post_read, w).
          rbind (leave_source_directory metadata post_read n) (\<lambda>_. Ok w)))
        else if k = S_IFREG then clone_visit_file env path metadata n w
        else if k = S_IFLNK then clone_visit_symlink env relative path metadata n w
        else clone_visit_special k w)"

lemma entry_step_ok:
  fixes env cache path n w
  defines "kids \<equiv> entered env cache path n"
  assumes inv: "walk_inv cache (count_entry w)"
    and n: "sn_stat n = SysOk m" "path_ok path n"
    and path: "path = relative @ [sn_name n]" "length relative \<le> 64"
    and walk: "\<And>v v'. walk_inv cache (pending (length kids) v) \<Longrightarrow> length path \<le> 64 \<Longrightarrow>
      walk_source_entries env path (length path) kids (pending (length kids) v) = Ok v' \<longleftrightarrow>
        fits env cache (examined env cache path kids) v \<and> v' = absorbed env cache (examined env cache path kids) v"
  shows "entry_step env relative path (length relative) m n (count_entry w) = Ok w' \<longleftrightarrow>
    fits env cache ((path, n) # examined env cache path kids) w \<and>
    w' = absorbed env cache ((path, n) # examined env cache path kids) w"
proof -
  let ?w = "count_entry w" and ?d = "the (dispose env cache path n)"
  note limits = walk_inv_simps(1) [OF inv] and bytes = walk_inv_simps(3) [OF inv]
  have excluded: "is_excluded_cache env ?w path \<longleftrightarrow> \<not> cache \<and> path \<in> set (cache_roots env)"
    using walk_inv_simps(4) [OF inv] by (auto simp: is_excluded_cache_def list_ex_iff)
  have absorb: "absorb_entry env cache (path, n) w = absorb env path ?d ?w" if "entry_ok env cache (path, n)"
    using entry_ok_dispose [OF that] by (auto simp: absorb_entry_def)
  have leaf: "fits env cache [] (absorb_entry env cache (path, n) w) \<longleftrightarrow>
      walked_bytes ?w + entry_bytes_of env cache (path, n) \<le> lim_logical_bytes ALPHA" if "entry_ok env cache (path, n)"
    using walk_inv_simps(2) [OF inv] absorb_entry_entries [OF that] by (simp add: fits_Nil)
  have leaf_ok: ?thesis
    if "kids = []" "entry_step env relative path (length relative) m n ?w = Ok w' \<longleftrightarrow>
        entry_ok env cache (path, n) \<and> (claims env cache (path, n) \<longrightarrow> wk_staging ?w path = None) \<and>
        walked_bytes ?w + entry_bytes_of env cache (path, n) \<le> lim_logical_bytes ALPHA \<and> w' = absorb env path ?d ?w"
    unfolding that(2) that(1) using leaf absorb by (auto simp: fits_Cons absorbed_Cons)
  note rest = n path limits bytes
  consider (cached) "\<not> cache" "path \<in> set (cache_roots env)"
    | (foreign) "cache \<or> path \<notin> set (cache_roots env)" "st_uid m \<noteq> we_uid env"
    | (own) "cache \<or> path \<notin> set (cache_roots env)" "st_uid m = we_uid env" by blast
  then show ?thesis
  proof cases
    case cached
    show ?thesis
      by (rule leaf_ok) (use cached n exclude_cache_ok [OF bytes n(1) cached] in \<open>simp_all add: excluded entered_other entry_ok_def kids_def\<close>)
  next
    case foreign
    have d: "dispose env cache path n = Some ForeignOwned" using foreign n by (auto simp: dispose_def)
    have bare: "\<not> claims env cache (path, n)" "entry_bytes_of env cache (path, n) = 0"
      by (simp_all add: claims_def entry_bytes_of_def d)
    have ok: "entry_ok env cache (path, n)" using foreign n by (auto simp: entry_ok_def)
    show ?thesis
      by (rule leaf_ok) (use foreign n bare ok bytes in \<open>auto simp: excluded entered_other kids_def d absorb_foreign\<close>)
  next
    case own
    have ne: "S_IFREG \<noteq> S_IFDIR" "S_IFLNK \<noteq> S_IFDIR" "S_IFLNK \<noteq> S_IFREG" by (simp_all add: s_kinds)
    consider (dir) "is_dir m" | (reg) "is_file m" | (link) "is_symlink m" | (special) "\<not> is_dir m" "\<not> is_file m" "\<not> is_symlink m"
      by blast
    then show ?thesis
    proof cases
      case dir
      have step: "entry_step env relative path (length relative) m n ?w =
          rbind (enter_source_directory env path (length relative) m n ?w) (\<lambda>(source, next_depth, w).
            rbind (walk_source_directory env path next_depth source w) (\<lambda>(post_read, w).
            rbind (leave_source_directory m post_read n) (\<lambda>_. Ok w)))"
        using own dir by (auto simp: excluded Let_def)
      have ok: "entry_ok env cache (path, n) \<longleftrightarrow> directory_ok env path m n" using own dir n by (auto simp: entry_ok_def)
      have claims: "directory_ok env path m n \<Longrightarrow> claims env cache (path, n) \<longleftrightarrow> we_destination env"
        using own dir n by (cases "sn_directory n") (auto simp: claims_def dispose_def directory_ok_def)
      have core: "entry_step env relative path (length relative) m n ?w = Ok w' \<longleftrightarrow>
          directory_ok env path m n \<and> (we_destination env \<longrightarrow> wk_staging ?w path = None) \<and>
          fits env cache (examined env cache path kids) (absorb env path ?d ?w) \<and>
          w' = absorbed env cache (examined env cache path kids) (absorb env path ?d ?w)"
        unfolding step kids_def by (rule directory_step [OF inv n(1) own dir path walk [unfolded kids_def]])
      show ?thesis
        unfolding core fits_Cons absorbed_Cons using absorb claims by (auto simp: ok)
    next
      case reg
      have claims: "file_ok env path m n \<Longrightarrow> claims env cache (path, n) \<longleftrightarrow> we_destination env"
        using own reg n ne by (cases "sn_file n") (auto simp: claims_def dispose_def file_ok_def)
      show ?thesis
        by (rule leaf_ok) (use own reg n ne claims clone_visit_file_ok [OF limits bytes n(1) own reg, of w'] in
            \<open>auto simp: excluded entered_other kids_def entry_ok_def Let_def\<close>)
    next
      case link
      show ?thesis
        by (rule leaf_ok) (use own link n ne clone_visit_symlink_ok [OF limits bytes n(1) own link path(1), of w'] in
            \<open>auto simp: excluded entered_other kids_def entry_ok_def Let_def\<close>)
    next
      case special
      show ?thesis
        by (rule leaf_ok) (use own special n clone_visit_special_ok [OF bytes n(1) own special, of w'] in
            \<open>auto simp: excluded entered_other kids_def entry_ok_def Let_def\<close>)
    qed
  qed
qed

lemma fits_pending:
  assumes "fits env cache (es @ fs) w" "k \<le> length fs"
  shows "fits env cache es (pending k w)"
proof -
  have es: "list_all (entry_ok env cache) es" "fresh env cache es w" and fs: "fits env cache fs (absorbed env cache es w)"
    using assms(1) by (simp_all add: fits_append)
  then show ?thesis using assms(2) by (simp add: fits_def absorbed_entries fresh_def)
qed

lemma fits_split:
  assumes "k \<le> length fs"
  shows "fits env cache (es @ fs) w \<longleftrightarrow> fits env cache es (pending k w) \<and> fits env cache fs (absorbed env cache es w)"
proof
  assume "fits env cache (es @ fs) w"
  then show "fits env cache es (pending k w) \<and> fits env cache fs (absorbed env cache es w)"
    using fits_pending [OF _ assms] fits_append by blast
next
  assume both: "fits env cache es (pending k w) \<and> fits env cache fs (absorbed env cache es w)"
  then have "list_all (entry_ok env cache) es" "fresh env cache es w" by (simp_all add: fits_def fresh_def)
  with both show "fits env cache (es @ fs) w" by (simp add: fits_append)
qed

lemma walk_source_entries_ok:
  assumes "walk_inv cache (pending (length ns) w)" "length relative \<le> 64"
  shows "walk_source_entries env relative (length relative) ns (pending (length ns) w) = Ok w' \<longleftrightarrow>
    fits env cache (examined env cache relative ns) w \<and> w' = absorbed env cache (examined env cache relative ns) w"
  using assms
proof (induction relative ns arbitrary: w w' rule: examined_induct [where env = env and cache = cache])
  case (Nil relative)
  then show ?case by (auto simp: walk_source_entries.simps fits_Nil walk_inv_def)
next
  case (Cons relative n ns)
  let ?path = "relative @ [sn_name n]" and ?k = "length ns"
  let ?es = "(?path, n) # examined env cache ?path (entered env cache ?path n)"
  let ?fs = "examined env cache relative ns"
  have split: "examined env cache relative (n # ns) = ?es @ ?fs" by (simp add: examined_Cons)
  have dec: "(pending (length (n # ns)) w)\<lparr>wk_buffered_entries := wk_buffered_entries (pending (length (n # ns)) w) - 1\<rparr> =
      pending ?k w"
    by (simp add: pending_def)
  have limits: "cr_limits (wk_report (pending ?k w)) = ALPHA" "walked_entries (pending ?k w) < lim_entries ALPHA"
    and inv: "walk_inv cache (count_entry (pending ?k w))"
    using Cons.prems(1) by (auto simp: walk_inv_def)
  define S where "S = (\<lambda>m. entry_step env relative ?path (length relative) m n (count_entry (pending ?k w)))"
  have step: "S m = Ok v \<longleftrightarrow> fits env cache ?es (pending ?k w) \<and> v = absorbed env cache ?es (pending ?k w)"
    if "sn_stat n = SysOk m" "path_ok ?path n" for m v
    unfolding S_def by (rule entry_step_ok [OF inv that refl Cons.prems(2) Cons.IH(1)])
  have rest: "walk_source_entries env relative (length relative) ns (absorbed env cache ?es (pending ?k w)) = Ok w' \<longleftrightarrow>
      fits env cache ?fs (absorbed env cache ?es w) \<and> w' = absorbed env cache ?fs (absorbed env cache ?es w)"
    if "fits env cache ?es (pending ?k w)"
  proof -
    have "walk_inv cache (pending ?k (absorbed env cache ?es w))"
      using that Cons.prems(1) absorbed_entries [of env cache ?es w] by (auto simp: walk_inv_def fits_def)
    from Cons.IH(2) [OF this Cons.prems(2)] show ?thesis by (simp add: absorbed_pending)
  qed
  have first: "path_ok ?path n \<and> (\<exists>m. sn_stat n = SysOk m)" if "fits env cache ?es (pending ?k w)"
  proof -
    have "entry_ok env cache (?path, n)" using that by (simp add: fits_Cons)
    then show ?thesis by (cases "sn_stat n") (auto simp: entry_ok_def)
  qed
  have whole: "fits env cache (?es @ ?fs) w \<longleftrightarrow>
      fits env cache ?es (pending ?k w) \<and> fits env cache ?fs (absorbed env cache ?es w)"
    by (rule fits_split) (rule length_examined)
  have "walk_source_entries env relative (length relative) (n # ns) (pending (length (n # ns)) w) = Ok w' \<longleftrightarrow>
      path_ok ?path n \<and> (\<exists>m. sn_stat n = SysOk m \<and>
        (\<exists>v. S m = Ok v \<and> walk_source_entries env relative (length relative) ns v = Ok w'))"
  proof -
    have head: "walk_source_entries env relative (length relative) (n # ns) (pending (length (n # ns)) w) =
        rbind (clone_child_path relative (sn_name n) (wk_report (pending ?k w))) (\<lambda>path.
        rbind (entry_metadata (sn_stat n)) (\<lambda>m.
        rbind (clone_note_entry (pending ?k w)) (\<lambda>w.
        rbind (entry_step env relative path (length relative) m n w) (\<lambda>w.
        walk_source_entries env relative (length relative) ns w))))"
      by (simp only: walk_source_entries.simps(2) dec Let_def)
    show ?thesis
      unfolding head clone_note_entry_ok [OF limits] rbind_Inr
      unfolding rbind_eq_Inr clone_child_path_ok [OF limits(1)] entry_metadata_ok S_def by blast
  qed
  also have "\<dots> \<longleftrightarrow> fits env cache ?es (pending ?k w) \<and>
      walk_source_entries env relative (length relative) ns (absorbed env cache ?es (pending ?k w)) = Ok w'"
    (is "?L \<longleftrightarrow> ?R")
  proof
    assume ?L
    then obtain m v where mv: "path_ok ?path n" "sn_stat n = SysOk m" "S m = Ok v"
      and tail: "walk_source_entries env relative (length relative) ns v = Ok w'" by blast
    from step [OF mv(2,1)] mv(3) have "fits env cache ?es (pending ?k w)" "v = absorbed env cache ?es (pending ?k w)" by blast+
    with tail show ?R by blast
  next
    assume R: ?R
    with first obtain m where m: "path_ok ?path n" "sn_stat n = SysOk m" by blast
    from R step [OF m(2,1)] have "S m = Ok (absorbed env cache ?es (pending ?k w))" by blast
    with R m show ?L by blast
  qed
  also have "\<dots> \<longleftrightarrow> fits env cache (?es @ ?fs) w \<and> w' = absorbed env cache (?es @ ?fs) w"
    unfolding absorbed_append whole using rest by blast
  finally show ?case unfolding split .
qed

end
