(* ===== verification/Clone_Survey.thy ===== *)
theory Clone_Survey
  imports Clone_Exact Discovery_Classes
begin

text \<open>
  The result of a whole walk in closed form: \<open>fates\<close> lists what happens to each examined entry, and
  the report and the staging tree of a successful walk are counted and read off that list. The walk
  succeeds exactly when \<open>accepted\<close> holds.
\<close>

subsection \<open>Reading results off the fates\<close>

definition fates_of :: "walk_env \<Rightarrow> bool \<Rightarrow> (string list \<times> source_node) list \<Rightarrow> (string list \<times> disposition) list" where
  "fates_of env cache es = List.map_filter (\<lambda>(path, n). map_option (Pair path) (dispose env cache path n)) es"

definition home_entries :: "walk_env \<Rightarrow> bool \<Rightarrow> source_directory \<Rightarrow> (string list \<times> source_node) list" where
  "home_entries env cache d = examined env cache [] (source_listed (sd_listing d))"

definition fates :: "walk_env \<Rightarrow> bool \<Rightarrow> source_directory \<Rightarrow> (string list \<times> disposition) list" where
  "fates env cache d = fates_of env cache (home_entries env cache d)"

definition how_many :: "(disposition \<Rightarrow> bool) \<Rightarrow> (string list \<times> disposition) list \<Rightarrow> nat" where
  "how_many P fs = length (filter (\<lambda>f. P (snd f)) fs)"

definition counts_of_fates :: "(string list \<times> disposition) list \<Rightarrow> clone_counts" where
  "counts_of_fates fs =
     \<lparr>cc_entries = length fs, cc_files = how_many is_KeptFile fs, cc_directories = how_many is_KeptDirectory fs,
      cc_symlinks = how_many is_KeptLink fs, cc_logical_bytes = sum_list (map (\<lambda>f. disposed_bytes (snd f)) fs)\<rparr>"

definition links_into :: "(string list \<times> disposition) list \<Rightarrow> string list \<Rightarrow> nat" where
  "links_into fs root = how_many (\<lambda>d. case d of KeptLink target resolved \<Rightarrow> below_root resolved root | _ \<Rightarrow> False) fs"

definition omitted_roots :: "walk_env \<Rightarrow> (string list \<times> disposition) list \<Rightarrow> string list list" where
  "omitted_roots env fs = filter (\<lambda>root. (root, CacheRoot) \<in> set fs) (cache_roots env)"

definition exclusions_of_fates :: "walk_env \<Rightarrow> (string list \<times> disposition) list \<Rightarrow> clone_exclusions" where
  "exclusions_of_fates env fs =
     \<lparr>ce_cache_roots = how_many (\<lambda>d. d = CacheRoot) fs, ce_sockets = how_many (\<lambda>d. d = OmittedSocket) fs,
      ce_fifos = how_many (\<lambda>d. d = OmittedFifo) fs, ce_devices = how_many (\<lambda>d. d = OmittedDevice) fs,
      ce_foreign_owned = how_many (\<lambda>d. d = ForeignOwned) fs,
      ce_hard_linked_files_copied_independently =
        how_many (\<lambda>d. case d of KeptFile mode content bytes linked \<Rightarrow> linked | _ \<Rightarrow> False) fs,
      ce_symlinks_into_omitted_cache_roots = sum_list (map (links_into fs) (omitted_roots env fs)),
      ce_managed_command_links = how_many (\<lambda>d. d = ManagedLink) fs\<rparr>"

definition staged_items :: "walk_env \<Rightarrow> (string list \<times> disposition) list \<Rightarrow> (string list \<times> staged_node) list" where
  "staged_items env fs = List.map_filter (\<lambda>(path, d). map_option (Pair path) (staged_of env d)) fs"

definition home_mode :: "source_directory \<Rightarrow> nat" where
  "home_mode d = (case sd_mode d of SysOk s \<Rightarrow> mode_bits (st_mode s) | _ \<Rightarrow> 448)"

definition staged_home :: "walk_env \<Rightarrow> bool \<Rightarrow> source_directory \<Rightarrow> string list \<Rightarrow> staged_node option" where
  "staged_home env cache d path =
     (if \<not> we_destination env then None
      else if path = [] then Some (StagedDirectory (home_mode d))
      else map_of (staged_items env (fates env cache d)) path)"

text \<open>Acceptance: what has to hold of the observed home, of the staging side and of the totals.\<close>

definition accepted :: "walk_env \<Rightarrow> bool \<Rightarrow> source_directory sys \<Rightarrow> bool" where
  "accepted env cache source_home =
     (case source_home of
        SysOk d \<Rightarrow>
          sd_complete d \<and> answers (sd_post d) \<and>
          (we_destination env \<longrightarrow> answers (sd_mode d) \<and>
             staging_ok env [OpenDirectory, ChangeDirectoryMode, SyncStagedDirectory] []) \<and>
          list_all (entry_ok env cache) (home_entries env cache d) \<and>
          distinct (claimed env cache (home_entries env cache d)) \<and>
          length (home_entries env cache d) \<le> lim_entries ALPHA \<and>
          sum_list (map (entry_bytes_of env cache) (home_entries env cache d)) \<le> lim_logical_bytes ALPHA
      | _ \<Rightarrow> False)"

definition known_platform :: "walk_env \<Rightarrow> bool" where
  "known_platform env \<longleftrightarrow>
     we_derived_caches env = linux_derived_cache_directories \<or> we_derived_caches env = macos_derived_cache_directories"

subsection \<open>The walker as a fold over fates\<close>

definition settle :: "walk_env \<Rightarrow> (string list \<times> disposition) list \<Rightarrow> walker \<Rightarrow> walker" where
  "settle env fs w = fold (\<lambda>(path, d) w. absorb env path d (count_entry w)) fs w"

lemma fates_of_simps [simp]: "fates_of env cache [] = []"
  and fates_of_Cons: "fates_of env cache ((path, n) # es) =
    (case dispose env cache path n of None \<Rightarrow> [] | Some d \<Rightarrow> [(path, d)]) @ fates_of env cache es"
  by (simp_all add: fates_of_def map_filter_simps split: option.split)

lemma settle_Nil [simp]: "settle env [] w = w"
  and settle_Cons [simp]: "settle env ((path, d) # fs) w = settle env fs (absorb env path d (count_entry w))"
  by (simp_all add: settle_def)

lemma absorbed_settle:
  "list_all (entry_ok env cache) es \<Longrightarrow> absorbed env cache es w = settle env (fates_of env cache es) w"
proof (induction es arbitrary: w)
  case (Cons e es)
  obtain path n where e: "e = (path, n)" by (cases e)
  have "entry_ok env cache (path, n)" using Cons.prems by (simp add: e)
  then obtain d where d: "dispose env cache path n = Some d" using entry_ok_dispose by blast
  then show ?case using Cons by (simp add: e absorbed_Cons absorb_entry_def fates_of_Cons)
qed simp

lemma length_fates_of: "list_all (entry_ok env cache) es \<Longrightarrow> length (fates_of env cache es) = length es"
proof (induction es)
  case (Cons e es)
  then show ?case by (cases e) (auto simp: fates_of_Cons dest!: entry_ok_dispose)
qed simp

lemma how_many_Cons [simp]: "how_many P [] = 0" "how_many P ((path, d) # fs) = (if P d then 1 else 0) + how_many P fs"
  by (simp_all add: how_many_def)

lemma settle_counts:
  "cr_counts (wk_report (settle env fs w)) =
     (let c = cr_counts (wk_report w); s = counts_of_fates fs in
      \<lparr>cc_entries = cc_entries c + cc_entries s, cc_files = cc_files c + cc_files s,
       cc_directories = cc_directories c + cc_directories s, cc_symlinks = cc_symlinks c + cc_symlinks s,
       cc_logical_bytes = cc_logical_bytes c + cc_logical_bytes s\<rparr>)"
proof (induction fs arbitrary: w)
  case (Cons f fs)
  obtain path d where f: "f = (path, d)" by (cases f)
  show ?case unfolding f settle_Cons Cons by (cases d) (simp_all add: counts_of_fates_def Let_def)
qed (simp add: counts_of_fates_def Let_def)

text \<open>The exclusions without the links into omitted caches, which \<open>walker_finish\<close> adds.\<close>

lemma settle_exclusions:
  "(cr_exclusions (wk_report (settle env fs w)))\<lparr>ce_symlinks_into_omitted_cache_roots := k\<rparr> =
     (let e = cr_exclusions (wk_report w); s = exclusions_of_fates env fs in
      \<lparr>ce_cache_roots = ce_cache_roots e + ce_cache_roots s, ce_sockets = ce_sockets e + ce_sockets s,
       ce_fifos = ce_fifos e + ce_fifos s, ce_devices = ce_devices e + ce_devices s,
       ce_foreign_owned = ce_foreign_owned e + ce_foreign_owned s,
       ce_hard_linked_files_copied_independently =
         ce_hard_linked_files_copied_independently e + ce_hard_linked_files_copied_independently s,
       ce_symlinks_into_omitted_cache_roots = k,
       ce_managed_command_links = ce_managed_command_links e + ce_managed_command_links s\<rparr>)"
proof (induction fs arbitrary: w)
  case (Cons f fs)
  obtain path d where f: "f = (path, d)" by (cases f)
  show ?case unfolding f settle_Cons Cons by (cases d) (simp_all add: exclusions_of_fates_def Let_def)
qed (simp add: exclusions_of_fates_def Let_def)

lemma settle_rest:
  "wk_report (settle env fs w) =
     (wk_report w)\<lparr>cr_counts := cr_counts (wk_report (settle env fs w)),
                   cr_exclusions := cr_exclusions (wk_report (settle env fs w))\<rparr>"
proof (induction fs arbitrary: w)
  case (Cons f fs)
  obtain path d where f: "f = (path, d)" by (cases f)
  show ?case unfolding f settle_Cons by (subst Cons.IH) (simp add: absorb_def)
qed simp

subsection \<open>Links into omitted caches\<close>

definition link_count :: "(string list \<Rightarrow> nat option) \<Rightarrow> string list \<Rightarrow> nat" where
  "link_count m root = (case m root of None \<Rightarrow> 0 | Some k \<Rightarrow> k)"

lemma note_roots_count:
  assumes "distinct roots" "link_count m root < u64_max"
  shows "link_count (foldl (\<lambda>m r. if below_root resolved r
           then m(r \<mapsto> sat_add (case m r of None \<Rightarrow> 0 | Some k \<Rightarrow> k) 1) else m) m roots) root =
    link_count m root + (if root \<in> set roots \<and> below_root resolved root then 1 else 0)"
  using assms
proof (induction roots arbitrary: m)
  case (Cons r roots)
  let ?m = "if below_root resolved r then m(r \<mapsto> sat_add (case m r of None \<Rightarrow> 0 | Some k \<Rightarrow> k) 1) else m"
  have absent: "link_count (foldl (\<lambda>m r. if below_root resolved r
      then m(r \<mapsto> sat_add (case m r of None \<Rightarrow> 0 | Some k \<Rightarrow> k) 1) else m) m' roots) root = link_count m' root"
    if "root \<notin> set roots" for m'
    using that by (induction roots arbitrary: m') (auto simp: link_count_def)
  show ?case
  proof (cases "root = r")
    case True
    have "sat_add (case m r of None \<Rightarrow> 0 | Some k \<Rightarrow> k) 1 = link_count m r + 1"
      using Cons.prems(2) True by (subst sat_add_exact) (auto simp: link_count_def)
    then have "link_count ?m root = link_count m root + (if below_root resolved root then 1 else 0)"
      using True by (simp add: link_count_def)
    with True Cons.prems(1) absent [of ?m] show ?thesis by simp
  next
    case False
    then have "link_count ?m root = link_count m root" by (simp add: link_count_def)
    with False Cons show ?thesis by simp
  qed
qed simp

lemma note_cache_links_count:
  assumes "distinct (cache_roots env)" "root \<in> set (cache_roots env)" "link_count (wk_symlinks_by_cache_root w) root < u64_max"
  shows "link_count (wk_symlinks_by_cache_root (note_cache_links env resolved w)) root =
    link_count (wk_symlinks_by_cache_root w) root + (if below_root resolved root then 1 else 0)"
  using note_roots_count [OF assms(1,3)] assms(2) by (simp add: note_cache_links_def)

lemma absorb_symlinks:
  "wk_symlinks_by_cache_root (absorb env path d (count_entry w)) =
     (case d of KeptLink target resolved \<Rightarrow> wk_symlinks_by_cache_root (note_cache_links env resolved w)
      | _ \<Rightarrow> wk_symlinks_by_cache_root w)"
  by (cases d) (simp_all add: absorb_def install_def note_cache_links_def)

lemma absorb_excluded:
  "wk_excluded_cache_roots (absorb env path d (count_entry w)) =
     (if d = CacheRoot then ordered_insert path (wk_excluded_cache_roots w) else wk_excluded_cache_roots w)"
  by (cases d) (simp_all add: absorb_def install_def)

lemma settle_links:
  assumes "distinct (cache_roots env)" "root \<in> set (cache_roots env)"
    and "link_count (wk_symlinks_by_cache_root w) root + length fs \<le> u64_max"
  shows "link_count (wk_symlinks_by_cache_root (settle env fs w)) root =
    link_count (wk_symlinks_by_cache_root w) root + links_into fs root"
  using assms(3)
proof (induction fs arbitrary: w)
  case (Cons f fs)
  obtain path d where f: "f = (path, d)" by (cases f)
  let ?w = "absorb env path d (count_entry w)"
  have room: "link_count (wk_symlinks_by_cache_root w) root < u64_max" using Cons.prems by simp
  have step: "link_count (wk_symlinks_by_cache_root ?w) root = link_count (wk_symlinks_by_cache_root w) root +
      (case d of KeptLink target resolved \<Rightarrow> if below_root resolved root then 1 else 0 | _ \<Rightarrow> 0)"
    using note_cache_links_count [OF assms(1,2) room] by (simp add: absorb_symlinks split: disposition.split)
  also have "\<dots> \<le> link_count (wk_symlinks_by_cache_root w) root + 1" by (simp split: disposition.split)
  finally have "link_count (wk_symlinks_by_cache_root ?w) root + length fs \<le> u64_max" using Cons.prems by simp
  from Cons.IH [OF this] step show ?case by (simp add: f links_into_def split: disposition.split)
qed (simp add: links_into_def)

lemma settle_excluded:
  "distinct (wk_excluded_cache_roots w) \<Longrightarrow> distinct (wk_excluded_cache_roots (settle env fs w)) \<and>
     set (wk_excluded_cache_roots (settle env fs w)) = set (wk_excluded_cache_roots w) \<union> {p. (p, CacheRoot) \<in> set fs}"
proof (induction fs arbitrary: w)
  case (Cons f fs)
  obtain path d where f: "f = (path, d)" by (cases f)
  have "distinct (ordered_insert p xs) \<and> set (ordered_insert p xs) = insert p (set xs)" if "distinct xs" for p xs
    using that by (auto simp: ordered_insert_def set_insort_key distinct_insort)
  with Cons show ?case by (auto simp: f absorb_excluded)
qed simp

lemma foldl_sat_add:
  "sum_list (map (link_count m) roots) + k \<le> u64_max \<Longrightarrow>
     foldl sat_add k (List.map_filter m roots) = k + sum_list (map (link_count m) roots)"
proof (induction roots arbitrary: k)
  case (Cons r roots)
  then show ?case
    by (cases "m r") (simp_all add: map_filter_simps link_count_def sat_add_exact)
qed simp

subsection \<open>The staging tree\<close>

lemma staged_items_simps [simp]: "staged_items env [] = []"
  "staged_items env ((path, d) # fs) =
     (case staged_of env d of None \<Rightarrow> [] | Some s \<Rightarrow> [(path, s)]) @ staged_items env fs"
  by (simp_all add: staged_items_def map_filter_simps split: option.split)

lemma settle_staging:
  "distinct (map fst (staged_items env fs)) \<Longrightarrow> we_destination env \<Longrightarrow>
     wk_staging (settle env fs w) = wk_staging w ++ map_of (staged_items env fs)"
proof (induction fs arbitrary: w)
  case (Cons f fs)
  obtain path d where f: "f = (path, d)" by (cases f)
  show ?case
  proof (cases "staged_of env d")
    case None
    with Cons show ?thesis by (simp add: f absorb_staging)
  next
    case (Some s)
    with Cons.prems(1) have absent: "map_of (staged_items env fs) path = None" by (simp add: f map_of_eq_None_iff)
    have "(wk_staging w)(path \<mapsto> s) ++ map_of (staged_items env fs) = wk_staging w ++ map_of (staged_items env ((path, d) # fs))"
      using absent Some by (auto simp: map_add_def fun_eq_iff split: option.split)
    moreover have "wk_staging (settle env ((path, d) # fs) w) = (wk_staging w)(path \<mapsto> s) ++ map_of (staged_items env fs)"
      using Some Cons by (simp add: f absorb_staging)
    ultimately show ?thesis by (simp only: f)
  qed
qed simp

lemma settle_preview: "\<not> we_destination env \<Longrightarrow> wk_staging (settle env fs w) = wk_staging w"
proof (induction fs arbitrary: w)
  case (Cons f fs)
  then show ?case by (cases f) (simp add: absorb_staging split: option.split)
qed simp

lemma claimed_items: "we_destination env \<Longrightarrow> map fst (staged_items env (fates_of env cache es)) = claimed env cache es"
proof (induction es)
  case (Cons e es)
  obtain path n where e: "e = (path, n)" by (cases e)
  show ?case
  proof (cases "dispose env cache path n")
    case None
    with Cons show ?thesis by (simp add: e fates_of_Cons claimed_def claims_def)
  next
    case (Some d)
    with Cons show ?thesis by (cases "staged_of env d") (simp_all add: e fates_of_Cons claimed_def claims_def)
  qed
qed (simp add: claimed_def)

lemma claimed_preview: "\<not> we_destination env \<Longrightarrow> claimed env cache es = []"
  by (auto simp: claimed_def claims_def filter_empty_conv split: option.splits)

lemma claimed_below: "p \<in> set (claimed env cache (home_entries env cache d)) \<Longrightarrow> p \<noteq> []"
  by (auto simp: claimed_def home_entries_def dest!: examined_below)

subsection \<open>The whole walk\<close>

lemma walker_new_inv:
  "walk_inv cache (walker_new env (clone_report_new source destination mode layout cache))"
  by (simp add: walk_inv_def walker_new_def clone_report_new_def clone_counts_default_def)

lemma walker_new_simps [simp]:
  "wk_report (walker_new env report) = report" "wk_excluded_cache_roots (walker_new env report) = []"
  "wk_symlinks_by_cache_root (walker_new env report) = (\<lambda>_. None)" "wk_buffered_entries (walker_new env report) = 0"
  "wk_staging (walker_new env report) =
     (\<lambda>p. if we_destination env \<and> p = [] then Some (StagedDirectory 448) else None)"
  by (simp_all add: walker_new_def)

lemma cache_roots_platform:
  "known_platform env \<Longrightarrow> distinct (cache_roots env) \<and> length (cache_roots env) \<le> 2"
  by (auto simp: known_platform_def cache_roots_def linux_derived_cache_directories_def macos_derived_cache_directories_def)

lemma cache_fates: "(p, CacheRoot) \<in> set (fates_of env cache es) \<Longrightarrow> p \<in> set (cache_roots env)"
proof (induction es)
  case (Cons e es)
  obtain path n where e: "e = (path, n)" by (cases e)
  have "map_option (KeptLink t) r \<noteq> Some CacheRoot" for t r by (cases r) simp_all
  then have "dispose env cache path n = Some CacheRoot \<Longrightarrow> path \<in> set (cache_roots env)"
    by (cases "sn_stat n"; cases "sn_directory n"; cases "sn_file n"; cases "sn_target n") (simp_all add: dispose_def split: if_splits)
  with Cons show ?case by (auto simp: e fates_of_Cons split: option.splits)
qed simp

lemma how_many_le: "how_many P fs \<le> length fs"
  by (simp add: how_many_def)

lemma finished_links:
  assumes "known_platform env" "length fs \<le> lim_entries ALPHA" "\<And>p. (p, CacheRoot) \<in> set fs \<Longrightarrow> p \<in> set (cache_roots env)"
    and "wk_excluded_cache_roots w = []" "wk_symlinks_by_cache_root w = (\<lambda>_. None)"
  shows "foldl sat_add 0 (List.map_filter (wk_symlinks_by_cache_root (settle env fs w)) (wk_excluded_cache_roots (settle env fs w))) =
    sum_list (map (links_into fs) (omitted_roots env fs))"
proof -
  let ?m = "wk_symlinks_by_cache_root (settle env fs w)" and ?roots = "wk_excluded_cache_roots (settle env fs w)"
  note roots = cache_roots_platform [OF assms(1)]
  have ex: "distinct ?roots" "set ?roots = {p. (p, CacheRoot) \<in> set fs}"
    using settle_excluded [of w env fs] assms(4) by simp_all
  have om: "distinct (omitted_roots env fs)" "set (omitted_roots env fs) = {p. (p, CacheRoot) \<in> set fs}"
    using roots assms(3) by (auto simp: omitted_roots_def)
  have "link_count ?m r = links_into fs r" if "r \<in> set ?roots" for r
    using settle_links [of env r w fs] roots that assms(2,3,5) ex(2) by (simp add: link_count_def u64_max_num)
  then have "map (link_count ?m) ?roots = map (links_into fs) ?roots" by simp
  then have sums: "sum_list (map (link_count ?m) ?roots) = sum_list (map (links_into fs) (omitted_roots env fs))"
    using ex om by (simp add: sum_list_distinct_conv_sum_set)
  have "length (omitted_roots env fs) \<le> 2"
    using roots le_trans [OF length_filter_le] by (auto simp: omitted_roots_def)
  moreover have "sum_list (map (links_into fs) rs) \<le> length rs * lim_entries ALPHA" for rs
    using le_trans [OF how_many_le assms(2)] by (induction rs) (auto simp: links_into_def add_mono simp del: ALPHA_simps)
  ultimately have "sum_list (map (links_into fs) (omitted_roots env fs)) \<le> 2 * lim_entries ALPHA"
    using mult_le_mono1 le_trans by blast
  then have "sum_list (map (link_count ?m) ?roots) + 0 \<le> u64_max" by (simp add: sums u64_max_num)
  from foldl_sat_add [OF this] sums show ?thesis by simp
qed

lemma walk_source_directory_root:
  fixes env cache d w
  defines "es \<equiv> home_entries env cache d"
  assumes inv: "walk_inv cache w" and idle: "wk_buffered_entries w = 0"
  shows "walk_source_directory env [] 0 d w = Ok (post, w') \<longleftrightarrow>
    sd_complete d \<and> sd_post d = SysOk post \<and> fits env cache es w \<and>
    (we_destination env \<longrightarrow> answers (sd_mode d) \<and> staging_ok env [ChangeDirectoryMode, SyncStagedDirectory] []) \<and>
    w' = (if we_destination env then stage [] (StagedDirectory (home_mode d)) (absorbed env cache es w) else absorbed env cache es w)"
proof -
  let ?names = "source_listed (sd_listing d)"
  have inv_k: "walk_inv cache (pending (length ?names) w)"
    if "walked_entries w + wk_buffered_entries w + length ?names \<le> lim_entries ALPHA"
    using inv that by (simp add: walk_inv_def)
  have run: "walk_source_entries env [] 0 ?names (pending (length ?names) w) = Ok v \<longleftrightarrow> fits env cache es w \<and> v = absorbed env cache es w"
    if "walked_entries w + wk_buffered_entries w + length ?names \<le> lim_entries ALPHA" for v
    using walk_source_entries_ok [OF inv_k [OF that], of "[]" env] by (simp add: es_def home_entries_def)
  have bound: "fits env cache es w \<Longrightarrow> walked_entries w + wk_buffered_entries w + length ?names \<le> lim_entries ALPHA"
    unfolding es_def home_entries_def by (rule fits_entries)
  have sealed: "seal_directory env [] d v = Ok u \<longleftrightarrow>
      (we_destination env \<longrightarrow> answers (sd_mode d) \<and> staging_ok env [ChangeDirectoryMode, SyncStagedDirectory] []) \<and>
      u = (if we_destination env then stage [] (StagedDirectory (home_mode d)) v else v)" for u v
    by (auto simp: seal_directory_def apply_directory_mode_def result_simps answers_iff home_mode_def)
  show ?thesis
  proof (cases "walked_entries w + wk_buffered_entries w + length ?names \<le> lim_entries ALPHA")
    case True
    then show ?thesis
      by (auto simp: walk_source_directory.simps rbind_eq_Inr buffer_names_ok [OF inv] run sealed nix_call_ok
          simp del: staging_ok_simps ALPHA_simps)
  next
    case False
    then show ?thesis using bound
      by (auto simp: walk_source_directory.simps rbind_eq_Inr buffer_names_ok [OF inv] simp del: ALPHA_simps)
  qed
qed

text \<open>For a new report the acceptance of the list is the one of \<open>accepted\<close>.\<close>

lemma fits_new:
  assumes "report = clone_report_new source destination mode layout cache"
  shows "fits env cache (home_entries env cache d) (walker_new env report) \<longleftrightarrow>
    list_all (entry_ok env cache) (home_entries env cache d) \<and>
    distinct (claimed env cache (home_entries env cache d)) \<and>
    length (home_entries env cache d) \<le> lim_entries ALPHA \<and>
    sum_list (map (entry_bytes_of env cache) (home_entries env cache d)) \<le> lim_logical_bytes ALPHA"
  using claimed_below [of _ env cache d]
  by (auto simp: fits_def fresh_def list_all_iff assms clone_report_new_def clone_counts_default_def)

definition surveyed :: "walk_env \<Rightarrow> bool \<Rightarrow> source_directory \<Rightarrow> clone_report \<Rightarrow> clone_report" where
  "surveyed env cache d report =
     report\<lparr>cr_counts := counts_of_fates (fates env cache d),
            cr_exclusions := exclusions_of_fates env (fates env cache d)\<rparr>"

lemma walk_result:
  fixes env cache d source destination mode layout
  defines "report \<equiv> clone_report_new source destination mode layout cache"
    and "es \<equiv> home_entries env cache d"
  assumes platform: "known_platform env" and ok: "list_all (entry_ok env cache) es" "length es \<le> lim_entries ALPHA"
  shows "wk_report (walker_finish (absorbed env cache es (walker_new env report))) = surveyed env cache d report"
proof -
  let ?w = "walker_new env report"
  let ?s = "settle env (fates env cache d) ?w"
  have settle: "absorbed env cache es ?w = ?s" using absorbed_settle [OF ok(1)] by (simp add: fates_def es_def)
  have len: "length (fates env cache d) \<le> lim_entries ALPHA"
    using length_fates_of [OF ok(1)] ok(2) by (simp add: fates_def es_def)
  have links: "foldl sat_add 0 (List.map_filter (wk_symlinks_by_cache_root ?s) (wk_excluded_cache_roots ?s)) =
      ce_symlinks_into_omitted_cache_roots (exclusions_of_fates env (fates env cache d))"
    using finished_links [OF platform len, of ?w] cache_fates by (simp add: exclusions_of_fates_def fates_def)
  have counts: "cr_counts (wk_report ?s) = counts_of_fates (fates env cache d)"
    by (simp add: settle_counts report_def clone_report_new_def clone_counts_default_def counts_of_fates_def)
  have exclusions: "(cr_exclusions (wk_report ?s))\<lparr>ce_symlinks_into_omitted_cache_roots :=
      ce_symlinks_into_omitted_cache_roots (exclusions_of_fates env (fates env cache d))\<rparr> =
      exclusions_of_fates env (fates env cache d)"
    by (subst settle_exclusions) (simp add: report_def clone_report_new_def clone_exclusions_default_def exclusions_of_fates_def)
  have "wk_report (walker_finish ?s) = (wk_report ?s)\<lparr>cr_exclusions := exclusions_of_fates env (fates env cache d)\<rparr>"
    unfolding walker_finish_def links exclude_up_simps exclusions ..
  also have "\<dots> = surveyed env cache d report"
    by (subst settle_rest) (simp add: counts surveyed_def)
  finally show ?thesis by (simp add: settle)
qed

lemma staged_result:
  fixes env cache d report
  defines "es \<equiv> home_entries env cache d"
  assumes "list_all (entry_ok env cache) es" "distinct (claimed env cache es)"
  shows "wk_staging (if we_destination env then stage [] (StagedDirectory (home_mode d)) (absorbed env cache es (walker_new env report))
      else absorbed env cache es (walker_new env report)) = staged_home env cache d"
proof (cases "we_destination env")
  case True
  have "distinct (map fst (staged_items env (fates env cache d)))"
    using claimed_items [OF True] assms(3) by (simp add: fates_def es_def)
  note staging = settle_staging [OF this True]
  show ?thesis
    using True absorbed_settle [OF assms(2)]
    by (auto simp: fun_eq_iff staged_home_def es_def fates_def [symmetric] staging map_add_def split: option.split)
next
  case False
  then show ?thesis using absorbed_settle [OF assms(2)] settle_preview [OF False]
    by (simp add: fun_eq_iff staged_home_def es_def)
qed

end
