(* ===== verification/Clone_Properties.thy ===== *)
theory Clone_Properties
  imports Clone_Survey
begin

text \<open>
  Properties of the clone walk: it is exactly its survey, its report accounts for every entry, the
  staging tree it leaves is self-contained and holds nothing of an omitted cache, and the preview
  predicts the execution.
\<close>

subsection \<open>A completed walk\<close>

lemma walk_home_exact:
  assumes "known_platform env"
  shows "walk_home env source_home (clone_report_new source destination mode layout cache) = Ok (report', staging) \<longleftrightarrow>
    accepted env cache source_home \<and>
    (\<exists>d. source_home = SysOk d \<and>
      report' = surveyed env cache d (clone_report_new source destination mode layout cache) \<and>
      staging = staged_home env cache d)"
proof (cases source_home)
  case (SysOk d)
  let ?report = "clone_report_new source destination mode layout cache" and ?es = "home_entries env cache d"
  let ?w = "walker_new env ?report"
  let ?last = "if we_destination env then stage [] (StagedDirectory (home_mode d)) (absorbed env cache ?es ?w)
    else absorbed env cache ?es ?w"
  have finish: "wk_report (walker_finish ?last) = wk_report (walker_finish (absorbed env cache ?es ?w))"
    "wk_staging (walker_finish ?last) = wk_staging ?last"
    by (simp_all add: walker_finish_def)
  have root: "walk_source_directory env [] 0 d ?w = Ok (post, w') \<longleftrightarrow> sd_post d = SysOk post \<and> w' = ?last \<and>
      sd_complete d \<and> fits env cache ?es ?w \<and>
      (we_destination env \<longrightarrow> answers (sd_mode d) \<and> staging_ok env [ChangeDirectoryMode, SyncStagedDirectory] [])" for post w'
    using walk_source_directory_root [OF walker_new_inv, where d = d] by auto
  have run: "walk_home env source_home ?report = Ok (report', staging) \<longleftrightarrow>
      accepted env cache source_home \<and> report' = wk_report (walker_finish (absorbed env cache ?es ?w)) \<and> staging = wk_staging ?last"
    unfolding walk_home_def SysOk accepted_def
    by (auto simp: rbind_eq_Inr nix_call_ok root Let_def finish answers_iff fits_new [OF refl] staging_call_ok
        simp del: ALPHA_simps)
  show ?thesis
  proof (cases "accepted env cache source_home")
    case True
    then have "list_all (entry_ok env cache) ?es" "length ?es \<le> lim_entries ALPHA" "distinct (claimed env cache ?es)"
      by (simp_all add: accepted_def SysOk)
    then show ?thesis
      unfolding run using walk_result [OF assms, of cache d] staged_result [of env cache d] by (simp add: SysOk)
  next
    case False
    then show ?thesis unfolding run by simp
  qed
qed (simp_all add: walk_home_def nix_call_def accepted_def)

lemma examined_parent:
  "(path, n) \<in> set (examined env cache relative ns) \<Longrightarrow> butlast path = relative \<or>
     (\<exists>n' m. (butlast path, n') \<in> set (examined env cache relative ns) \<and>
       dispose env cache (butlast path) n' = Some (KeptDirectory m))"
proof (induction relative ns rule: examined_induct [where env = env and cache = cache])
  case (Cons relative n' ns)
  let ?path = "relative @ [sn_name n']"
  have entered: "entered env cache ?path n' \<noteq> [] \<Longrightarrow> \<exists>m. dispose env cache ?path n' = Some (KeptDirectory m)"
    by (auto simp: entered_def split: option.splits disposition.splits)
  from Cons.prems consider "path = ?path" | "(path, n) \<in> set (examined env cache ?path (entered env cache ?path n'))"
    | "(path, n) \<in> set (examined env cache relative ns)"
    by (auto simp: examined_Cons)
  then show ?case
  proof cases
    case 2
    then have "entered env cache ?path n' \<noteq> []" by auto
    with Cons.IH(1) [OF 2] entered show ?thesis by (auto simp: examined_Cons)
  next
    case 3
    with Cons.IH(2) show ?thesis by (auto simp: examined_Cons)
  qed simp
qed simp

lemma kept_directory_no_root:
  "dispose env cache path n = Some (KeptDirectory m) \<Longrightarrow> cache \<or> path \<notin> set (cache_roots env)"
  by (cases "sn_stat n") (auto simp: dispose_def split: if_splits)

lemma examined_outside_caches:
  assumes "\<not> cache" "root \<in> set (cache_roots env)"
  shows "(path, n) \<in> set (examined env cache relative ns) \<Longrightarrow> length relative < length root \<Longrightarrow> path \<noteq> root @ c # rest"
proof (induction relative ns rule: examined_induct [where env = env and cache = cache])
  case (Cons relative n' ns)
  let ?path = "relative @ [sn_name n']"
  from Cons.prems(1) consider "path = ?path" | "(path, n) \<in> set (examined env cache ?path (entered env cache ?path n'))"
    | "(path, n) \<in> set (examined env cache relative ns)"
    by (auto simp: examined_Cons)
  then show ?case
  proof cases
    case 1
    with Cons.prems(2) show ?thesis by (auto dest: arg_cong [where f = length])
  next
    case 2
    then have "entered env cache ?path n' \<noteq> []" by auto
    then obtain m where "dispose env cache ?path n' = Some (KeptDirectory m)"
      by (auto simp: entered_def split: option.splits disposition.splits)
    then have ne: "?path \<noteq> root" using kept_directory_no_root assms by blast
    show ?thesis
    proof (cases "length ?path < length root")
      case True
      then show ?thesis by (rule Cons.IH(1) [OF 2])
    next
      case False
      then have len: "length root = length ?path" using Cons.prems(2) by simp
      obtain c' r' where "path = ?path @ c' # r'" using examined_below [OF 2] by blast
      then have "take (length root) path = ?path" by (simp add: len)
      with ne show ?thesis by auto
    qed
  next
    case 3
    then show ?thesis by (rule Cons.IH(2) [OF _ Cons.prems(2)])
  qed
qed simp

subsection \<open>What a staged entry is\<close>

lemma fates_of_member:
  "(path, d) \<in> set (fates_of env cache es) \<longleftrightarrow> (\<exists>n. (path, n) \<in> set es \<and> dispose env cache path n = Some d)"
  by (induction es) (auto simp: fates_of_Cons split: option.splits)

lemma staged_items_member:
  "(path, s) \<in> set (staged_items env fs) \<longleftrightarrow> (\<exists>d. (path, d) \<in> set fs \<and> staged_of env d = Some s)"
proof (induction fs)
  case (Cons f fs)
  then show ?case by (cases f) (auto split: option.splits)
qed simp

lemma staged_home_member:
  assumes "we_destination env" "distinct (claimed env cache (home_entries env cache d))" "path \<noteq> []"
  shows "staged_home env cache d path = Some s \<longleftrightarrow>
    (\<exists>n disp. (path, n) \<in> set (home_entries env cache d) \<and> dispose env cache path n = Some disp \<and> staged_of env disp = Some s)"
proof -
  have "distinct (map fst (staged_items env (fates env cache d)))"
    using claimed_items [OF assms(1)] assms(2) by (simp add: fates_def)
  then show ?thesis
    using assms(1,3) by (auto simp: staged_home_def map_of_eq_Some_iff staged_items_member fates_def fates_of_member)
qed

text \<open>An entry of the current user that every later look confirmed.\<close>

definition confirmed :: "walk_env \<Rightarrow> source_node \<Rightarrow> bool" where
  "confirmed env n \<longleftrightarrow> (\<exists>m. sn_stat n = SysOk m \<and> sn_after n = SysOk m \<and> st_uid m = we_uid env)"

definition staged_well :: "walk_env \<Rightarrow> string list \<Rightarrow> staged_node \<Rightarrow> bool" where
  "staged_well env path s \<longleftrightarrow> length (join_slash path) \<le> lim_relative_path_bytes ALPHA \<and>
     (case s of
        StagedDirectory m \<Rightarrow> m \<le> 511
      | StagedFile m content \<Rightarrow> m \<le> 511 \<and> length content \<le> lim_file_bytes ALPHA
      | StagedLink t \<Rightarrow> length t \<le> lim_symlink_target_bytes ALPHA \<and> \<not> is_managed_command_link path t \<and>
          resolve_relative_link_target (butlast path) t \<noteq> None)"

lemma staged_entry:
  assumes ok: "entry_ok env cache (path, n)" "dispose env cache path n = Some disp" "staged_of env disp = Some s"
    and dest: "we_destination env"
  shows "staged_well env path s \<and> (confirmed env n \<or> s = StagedDirectory 448 \<and> \<not> cache \<and> path \<in> set (cache_roots env))"
proof -
  obtain m where m: "sn_stat n = SysOk m" and len: "length (join_slash path) \<le> lim_relative_path_bytes ALPHA"
    using ok(1) by (auto simp: entry_ok_def path_ok_def split: sys.splits)
  consider (cached) "\<not> cache" "path \<in> set (cache_roots env)"
    | (foreign) "cache \<or> path \<notin> set (cache_roots env)" "st_uid m \<noteq> we_uid env"
    | (own) "cache \<or> path \<notin> set (cache_roots env)" "st_uid m = we_uid env" by blast
  then show ?thesis
  proof cases
    case cached
    then have "disp = CacheRoot" using ok(2) m by (simp add: dispose_def)
    then show ?thesis using ok(3) cached len by (auto simp: staged_well_def split: if_splits)
  next
    case foreign
    then have "disp = ForeignOwned" using ok(2) m by (auto simp: dispose_def)
    then show ?thesis using ok(3) by simp
  next
    case own
    consider (dir) "is_dir m" | (reg) "is_file m" "\<not> is_dir m" | (link) "is_symlink m" "\<not> is_file m" "\<not> is_dir m"
      | (special) "\<not> is_dir m" "\<not> is_file m" "\<not> is_symlink m" by blast
    then show ?thesis
    proof cases
      case dir
      then have dok: "directory_ok env path m n" using ok(1) own m by (auto simp: entry_ok_def)
      then obtain d where d: "sn_directory n = SysOk d" by (auto simp: directory_ok_def split: sys.splits)
      have "disp = KeptDirectory (case sd_mode d of SysOk s \<Rightarrow> mode_bits (st_mode s) | _ \<Rightarrow> 448)"
        using ok(2) m own dir d by (auto simp: dispose_def)
      then show ?thesis using ok(3) dok d len m own
        by (auto simp: staged_well_def confirmed_def directory_ok_def split: sys.splits)
    next
      case reg
      then have fok: "file_ok env path m n" using ok(1) own m by (auto simp: entry_ok_def)
      then obtain f where f: "sn_file n = SysOk f" by (auto simp: file_ok_def split: sys.splits)
      have "\<exists>bytes linked. disp = KeptFile (mode_bits (st_mode m)) (file_content f) bytes linked"
        using ok(2) m own reg f by (auto simp: dispose_def)
      then show ?thesis using ok(3) fok f len m own dest
        by (auto simp: staged_well_def confirmed_def file_ok_def copyable_def)
    next
      case link
      then have lok: "link_ok env path m n" using ok(1) own m by (auto simp: entry_ok_def)
      then obtain t where t: "sn_target n = SysOk t" by (auto simp: link_ok_def split: sys.splits)
      have "disp = ManagedLink \<or> \<not> is_managed_command_link path t \<and>
          (\<exists>r. resolve_relative_link_target (butlast path) t = Some r \<and> disp = KeptLink t r)"
        using ok(2) m own link t by (auto simp: dispose_def split: if_splits)
      then show ?thesis using ok(3) lok t len m own
        by (auto simp: staged_well_def confirmed_def link_ok_def)
    next
      case special
      then have "disp \<in> {OmittedSocket, OmittedFifo, OmittedDevice}"
        using ok(2) m own by (auto simp: dispose_def split: if_splits)
      then show ?thesis using ok(3) by auto
    qed
  qed
qed

subsection \<open>The two passes of one source\<close>

text \<open>
  What makes a preview comparable with an execution: names are unique, a file delivers as many bytes
  as its metadata announces, and the metadata of an open directory can be read.
\<close>

fun steady_file :: "file_stat sys \<Rightarrow> source_file sys \<Rightarrow> bool" where
  "steady_file (SysOk m) (SysOk f) \<longleftrightarrow>
     (is_file m \<longrightarrow> st_size m = int (length (file_content f)) \<and> (sf_readable f \<or> [] \<in> set (sf_reads f)))"
| "steady_file s f \<longleftrightarrow> True"

fun steady :: "source_node \<Rightarrow> bool" where
  "steady (SourceNode n s (SysOk (SourceDirectory opened ns complete mode post)) f t a) \<longleftrightarrow>
     steady_file s f \<and> answers mode \<and> distinct (map sn_name ns) \<and> list_all steady ns"
| "steady (SourceNode n s d f t a) \<longleftrightarrow> steady_file s f"

definition steady_home :: "source_directory \<Rightarrow> bool" where
  "steady_home d \<longleftrightarrow> answers (sd_mode d) \<and> distinct (map sn_name (sd_listing d)) \<and> list_all steady (sd_listing d)"

definition executing :: "bool \<Rightarrow> walk_env \<Rightarrow> walk_env" where
  "executing b env = env\<lparr>we_destination := b\<rparr>"

lemma executing_simps [simp]:
  "we_control (executing b env) = we_control env" "we_destination (executing b env) = b"
  "we_uid (executing b env) = we_uid env" "we_derived_caches (executing b env) = we_derived_caches env"
  "we_fails (executing b env) = we_fails env" "cache_roots (executing b env) = cache_roots env"
  "known_platform (executing b env) = known_platform env"
  by (simp_all add: executing_def cache_roots_def known_platform_def)

lemma steady_parts:
  assumes "steady n"
  shows "steady_file (sn_stat n) (sn_file n)"
    and "sn_directory n = SysOk d \<Longrightarrow> answers (sd_mode d) \<and> distinct (map sn_name (sd_listing d)) \<and> list_all steady (sd_listing d)"
proof -
  obtain name s dir f t a where n: "n = SourceNode name s dir f t a" by (cases n)
  show "steady_file (sn_stat n) (sn_file n)"
  proof (cases dir)
    case (SysOk d)
    then show ?thesis using assms by (cases d) (simp add: n)
  qed (use assms in \<open>simp_all add: n\<close>)
  show "answers (sd_mode d) \<and> distinct (map sn_name (sd_listing d)) \<and> list_all steady (sd_listing d)"
    if "sn_directory n = SysOk d"
    using that assms by (cases d) (simp add: n)
qed

lemma distinct_source_listed:
  "distinct (map sn_name ns) \<Longrightarrow> distinct (map sn_name (source_listed ns))"
proof -
  let ?xs = "filter (\<lambda>n. \<not> dot_entry (sn_name n)) ns"
  assume "distinct (map sn_name ns)"
  then have "distinct (map sn_name ?xs)" by (rule distinct_map_filter)
  moreover have "mset (map sn_name (sort_key sn_name ?xs)) = mset (map sn_name ?xs)" by simp
  ultimately show ?thesis unfolding source_listed_def using mset_eq_imp_distinct_iff by blast
qed

lemma steady_source_listed: "list_all steady ns \<Longrightarrow> list_all steady (source_listed ns)"
  by (auto simp: list_all_iff source_listed_def)

lemma entered_cases:
  obtains "entered env cache path n = []"
  | d m where "sn_directory n = SysOk d" "entered env cache path n = source_listed (sd_listing d)"
      "dispose env cache path n = Some (KeptDirectory m)"
proof (cases "entered env cache path n = []")
  case False
  then obtain m d where "dispose env cache path n = Some (KeptDirectory m)" "sn_directory n = SysOk d"
    by (auto simp: entered_def split: option.splits disposition.splits sys.splits)
  with that(2) show ?thesis by (simp add: entered_def)
qed (rule that(1))

lemma steady_entered:
  assumes "steady n"
  shows "list_all steady (entered env cache path n)" "distinct (map sn_name (entered env cache path n))"
proof -
  have "list_all steady (entered env cache path n) \<and> distinct (map sn_name (entered env cache path n))"
  proof (cases rule: entered_cases [of env cache path n])
    case (2 d m)
    note parts = steady_parts(2) [OF assms 2(1)]
    show ?thesis unfolding 2(2) using parts steady_source_listed distinct_source_listed by blast
  qed simp
  then show "list_all steady (entered env cache path n)" "distinct (map sn_name (entered env cache path n))" by blast+
qed

lemma examined_first:
  "(q, n) \<in> set (examined env cache relative ns) \<Longrightarrow> \<exists>n'\<in>set ns. \<exists>rest. q = relative @ sn_name n' # rest"
proof (induction ns)
  case (Cons n' ns)
  let ?path = "relative @ [sn_name n']"
  from Cons.prems consider "q = ?path" | "(q, n) \<in> set (examined env cache ?path (entered env cache ?path n'))"
    | "(q, n) \<in> set (examined env cache relative ns)"
    by (auto simp: examined_Cons)
  then show ?case
  proof cases
    case 2
    then show ?thesis using examined_below [OF 2] by auto
  next
    case 3
    then show ?thesis using Cons.IH by auto
  qed simp
qed simp

lemma examined_steady:
  "list_all steady ns \<Longrightarrow> (path, n) \<in> set (examined env cache relative ns) \<Longrightarrow> steady n"
proof (induction relative ns rule: examined_induct [where env = env and cache = cache])
  case (Cons relative n' ns)
  have "list_all steady (entered env cache (relative @ [sn_name n']) n')" using Cons.prems steady_entered(1) by auto
  with Cons show ?case by (auto simp: examined_Cons)
qed simp

lemma examined_distinct:
  "list_all steady ns \<Longrightarrow> distinct (map sn_name ns) \<Longrightarrow> distinct (map fst (examined env cache relative ns))"
proof (induction relative ns rule: examined_induct [where env = env and cache = cache])
  case (Cons relative n ns)
  let ?path = "relative @ [sn_name n]"
  let ?kids = "examined env cache ?path (entered env cache ?path n)" and ?rest = "examined env cache relative ns"
  have steady: "steady n" using Cons.prems by simp
  have kids: "distinct (map fst ?kids)" by (rule Cons.IH(1)) (rule steady_entered [OF steady])+
  have "insert ?path (fst ` set ?kids) \<inter> fst ` set ?rest = {}"
  proof (intro equals0I)
    fix q
    assume q: "q \<in> insert ?path (fst ` set ?kids) \<inter> fst ` set ?rest"
    have "q = ?path \<or> (\<exists>c r. q = ?path @ c # r)" if "q \<in> fst ` set ?kids" using that by (auto dest!: examined_below)
    with q obtain r where r: "q = ?path @ r" by auto
    from q obtain n2 where "(q, n2) \<in> set ?rest" by auto
    from examined_first [OF this] obtain n' r' where n': "n' \<in> set ns" "q = relative @ sn_name n' # r'" by blast
    with r have "sn_name n = sn_name n'" by simp
    from this n'(1) have "sn_name n \<in> sn_name ` set ns" by (rule image_eqI)
    then show False using Cons.prems(2) by simp
  qed
  moreover have "?path \<notin> fst ` set ?kids" by (rule examined_strictly_below)
  ultimately show ?case using kids Cons.IH(2) Cons.prems by (auto simp: examined_Cons)
qed simp

lemma dispose_executing:
  assumes "steady n"
  shows "dispose (executing True env) cache path n = dispose (executing False env) cache path n"
proof (cases "sn_stat n")
  case (SysOk m)
  have size: "length (file_content f) = nat (st_size m)" if "is_file m" "sn_file n = SysOk f" for f
    using steady_parts(1) [OF assms] that SysOk by simp
  show ?thesis
  proof (cases "is_file m")
    case True
    then show ?thesis using SysOk size by (cases "sn_file n") (simp_all add: dispose_def)
  next
    case False
    then show ?thesis using SysOk by (simp add: dispose_def)
  qed
qed (simp_all add: dispose_def)

lemma entry_ok_executing:
  assumes "steady n" "\<And>call p. \<not> we_fails env call p"
  shows "entry_ok (executing True env) cache (path, n) \<longleftrightarrow> entry_ok (executing False env) cache (path, n)"
proof (cases "sn_stat n")
  case (SysOk m)
  have fine: "staging_ok env' calls p" if "\<And>call p. \<not> we_fails env' call p" for env' calls p
    using that by (simp add: staging_ok_def list_all_iff)
  have none: "\<And>call p. \<not> we_fails (executing b env) call p" for b using assms(2) by simp
  have dirs: "directory_ok (executing True env) path m n \<longleftrightarrow> directory_ok (executing False env) path m n"
    using steady_parts(2) [OF assms(1)] by (cases "sn_directory n") (auto simp: directory_ok_def fine [OF none] simp del: staging_ok_simps)
  have regs: "file_ok (executing True env) path m n \<longleftrightarrow> file_ok (executing False env) path m n" if "is_file m"
    using steady_parts(1) [OF assms(1)] that SysOk
    by (cases "sn_file n") (auto simp: file_ok_def copyable_def fine [OF none] simp del: staging_ok_simps)
  have links: "link_ok (executing True env) path m n \<longleftrightarrow> link_ok (executing False env) path m n"
    by (cases "sn_target n") (simp_all add: link_ok_def fine [OF none] del: staging_ok_simps)
  show ?thesis
    using dirs regs links by (simp add: entry_ok_def SysOk fine [OF none] del: staging_ok_simps)
qed (simp_all add: entry_ok_def)

lemma entered_executing: "steady n \<Longrightarrow> entered (executing True env) cache path n = entered (executing False env) cache path n"
  by (simp add: entered_def dispose_executing)

lemma examined_executing:
  "list_all steady ns \<Longrightarrow> examined (executing True env) cache relative ns = examined (executing False env) cache relative ns"
proof (induction relative ns rule: examined_induct [where env = "executing True env" and cache = cache])
  case (Cons relative n ns)
  have "list_all steady (entered (executing True env) cache (relative @ [sn_name n]) n)"
    using Cons.prems steady_entered(1) by simp
  with Cons show ?case by (simp add: examined_Cons entered_executing)
qed simp

lemma accepted_executing:
  assumes "steady_home d" "\<And>call p. \<not> we_fails env call p"
  shows "accepted (executing True env) cache (SysOk d) \<longleftrightarrow> accepted (executing False env) cache (SysOk d)"
    and "fates (executing True env) cache d = fates (executing False env) cache d"
proof -
  let ?es = "home_entries (executing True env) cache d"
  have listed: "list_all steady (source_listed (sd_listing d))"
    and names: "distinct (map sn_name (source_listed (sd_listing d)))" and mode: "answers (sd_mode d)"
    using assms(1) steady_source_listed distinct_source_listed by (auto simp: steady_home_def)
  have es: "?es = home_entries (executing False env) cache d"
    unfolding home_entries_def by (rule examined_executing [OF listed])
  have steady: "steady n" if "(path, n) \<in> set ?es" for path n
    using that examined_steady [OF listed] unfolding home_entries_def by blast
  have ok: "list_all (entry_ok (executing True env) cache) ?es \<longleftrightarrow> list_all (entry_ok (executing False env) cache) ?es"
    using entry_ok_executing [OF steady assms(2)] by (auto simp: list_all_iff)
  have disp: "dispose (executing True env) cache path n = dispose (executing False env) cache path n"
    if "(path, n) \<in> set ?es" for path n by (rule dispose_executing [OF steady [OF that]])
  then have bytes: "sum_list (map (entry_bytes_of (executing True env) cache) ?es) =
      sum_list (map (entry_bytes_of (executing False env) cache) ?es)"
    by (intro arg_cong [where f = sum_list] map_cong) (auto simp: entry_bytes_of_def)
  have "distinct (map fst ?es)" unfolding home_entries_def by (rule examined_distinct [OF listed names])
  then have "distinct (claimed (executing True env) cache ?es)" unfolding claimed_def by (rule distinct_map_filter)
  moreover have "claimed (executing False env) cache ?es = []" by (rule claimed_preview) simp
  ultimately show "accepted (executing True env) cache (SysOk d) \<longleftrightarrow> accepted (executing False env) cache (SysOk d)"
    using ok bytes mode assms(2) by (simp add: accepted_def es)
  have "fates_of (executing True env) cache fs = fates_of (executing False env) cache fs" if "set fs \<subseteq> set ?es" for fs
    using that
  proof (induction fs)
    case (Cons f fs)
    then show ?case using disp by (cases f) (simp add: fates_of_Cons)
  qed simp
  then show "fates (executing True env) cache d = fates (executing False env) cache d"
    by (simp add: fates_def es)
qed

lemma surveyed_executing:
  "fates (executing True env) cache d = fates (executing False env) cache d \<Longrightarrow>
     surveyed (executing True env) cache d report = surveyed (executing False env) cache d report"
  by (simp add: surveyed_def exclusions_of_fates_def omitted_roots_def)

subsection \<open>The properties\<close>

text \<open>
  C20: On both platforms a walk from a new report returns exactly when the observed home is accepted:
  every call answered, every later look agreed with the first, no link climbs out of the home, names,
  depth, sizes, entries and bytes fit the limits, and the staging side took every name once. Its report
  is then the survey of the fates of the examined entries, and its staging tree holds exactly what
  the fates keep.
\<close>

theorem walks_are_exact:
  assumes "known_platform env"
  shows "walk_home env source_home (clone_report_new source destination mode layout cache) = Ok (report', staging) \<longleftrightarrow>
    accepted env cache source_home \<and>
    (\<exists>d. source_home = SysOk d \<and>
      report' = surveyed env cache d (clone_report_new source destination mode layout cache) \<and>
      staging = staged_home env cache d)"
  by (rule walk_home_exact [OF assms])

text \<open>
  C21: A preview and an execution over the same answers of a source that holds still, with a staging side that
  does not fail, agree: one succeeds exactly when the other does, and with the same report.
\<close>

theorem previews_predict_executions:
  fixes source destination :: string and mode :: clone_mode and layout :: space_layout and cache :: bool
  defines "report \<equiv> clone_report_new source destination mode layout cache"
  assumes "known_platform env" "steady_home d" "\<And>call p. \<not> we_fails env call p"
  shows "(\<exists>staging. walk_home (executing True env) (SysOk d) report = Ok (report', staging)) \<longleftrightarrow>
    (\<exists>staging. walk_home (executing False env) (SysOk d) report = Ok (report', staging))"
proof -
  have platform: "known_platform (executing b env)" for b using assms(2) by simp
  show ?thesis
    unfolding report_def walk_home_exact [OF platform]
    using accepted_executing [OF assms(3,4), of cache] surveyed_executing by simp
qed

text \<open>
  C22: The staging tree of a completed execution is self-contained: every name lies in a staged directory,
  permissions carry no bit beyond the ordinary nine, files, links and paths keep their limits, no link is
  managed by Quarters or resolves outside the tree, and every entry belongs to the current user and was
  confirmed by the last look at it, the recreated cache roots apart. When caches are not included, nothing
  below a cache root is staged.
\<close>

theorem staged_homes_are_self_contained:
  assumes "known_platform env" "we_destination env" "path \<noteq> []"
    and "walk_home env (SysOk d) (clone_report_new source destination mode layout cache) = Ok (report', staging)"
    and "staging path = Some s"
  shows "staged_well env path s \<and>
    (\<exists>m. staging (butlast path) = Some (StagedDirectory m)) \<and>
    ((\<exists>n. (path, n) \<in> set (home_entries env cache d) \<and> confirmed env n) \<or>
      s = StagedDirectory 448 \<and> \<not> cache \<and> path \<in> set (cache_roots env)) \<and>
    (\<not> cache \<longrightarrow> (\<forall>root\<in>set (cache_roots env). \<forall>c rest. path \<noteq> root @ c # rest))"
proof -
  let ?es = "home_entries env cache d"
  from assms(4) have acc: "accepted env cache (SysOk d)" and staging: "staging = staged_home env cache d"
    unfolding walk_home_exact [OF assms(1)] by auto
  then have ok: "\<And>e. e \<in> set ?es \<Longrightarrow> entry_ok env cache e" and dist: "distinct (claimed env cache ?es)"
    by (auto simp: accepted_def list_all_iff)
  note member = staged_home_member [OF assms(2) dist]
  obtain n disp where n: "(path, n) \<in> set ?es" "dispose env cache path n = Some disp" "staged_of env disp = Some s"
    using assms(5) member [OF assms(3)] by (auto simp: staging)
  note entry = staged_entry [OF ok [OF n(1)] n(2,3) assms(2)]
  have parent: "\<exists>m. staging (butlast path) = Some (StagedDirectory m)"
  proof (cases "butlast path = []")
    case True
    then show ?thesis using assms(2) by (auto simp: staging staged_home_def)
  next
    case False
    then obtain n' m where "(butlast path, n') \<in> set ?es" "dispose env cache (butlast path) n' = Some (KeptDirectory m)"
      using examined_parent [OF n(1) [unfolded home_entries_def]] by (auto simp: home_entries_def)
    then show ?thesis using member [OF False] by (fastforce simp: staging)
  qed
  have outside: "path \<noteq> root @ c # rest" if "\<not> cache" "root \<in> set (cache_roots env)" for root c rest
  proof -
    have "root \<noteq> []" using that(2) assms(1)
      by (auto simp: known_platform_def cache_roots_def linux_derived_cache_directories_def macos_derived_cache_directories_def)
    then show ?thesis
      using examined_outside_caches [OF that n(1) [unfolded home_entries_def]] by simp
  qed
  show ?thesis using entry n(1) parent outside by blast
qed

text \<open>
  C23: The report of a completed walk accounts for every entry once: included files, directories and links, omitted
  cache roots, special files, entries of other users and managed links add up to the entries examined. It stays
  within the entry and byte limits, and copied hard links are among its files.
\<close>

theorem reports_account_for_every_entry:
  assumes "known_platform env"
    and "walk_home env source_home (clone_report_new source destination mode layout cache) = Ok (report', staging)"
  defines "c \<equiv> cr_counts report'" and "e \<equiv> cr_exclusions report'"
  shows "cc_entries c = cc_files c + cc_directories c + cc_symlinks c + ce_cache_roots e + ce_sockets e + ce_fifos e +
      ce_devices e + ce_foreign_owned e + ce_managed_command_links e \<and>
    cc_entries c \<le> 100000 \<and> cc_logical_bytes c \<le> 10737418240 \<and>
    ce_hard_linked_files_copied_independently e \<le> cc_files c \<and>
    (cache \<longrightarrow> ce_cache_roots e = 0 \<and> ce_symlinks_into_omitted_cache_roots e = 0)"
proof -
  from assms(2) obtain d where d: "source_home = SysOk d" and acc: "accepted env cache (SysOk d)"
    and r: "report' = surveyed env cache d (clone_report_new source destination mode layout cache)"
    unfolding walk_home_exact [OF assms(1)] by auto
  let ?es = "home_entries env cache d" and ?fs = "fates env cache d"
  have ok: "list_all (entry_ok env cache) ?es" using acc by (simp add: accepted_def)
  have c: "c = counts_of_fates ?fs" and e: "e = exclusions_of_fates env ?fs" by (simp_all add: c_def e_def r surveyed_def)
  have total: "length fs = how_many is_KeptFile fs + how_many is_KeptDirectory fs + how_many is_KeptLink fs +
      how_many (\<lambda>d. d = CacheRoot) fs + how_many (\<lambda>d. d = OmittedSocket) fs + how_many (\<lambda>d. d = OmittedFifo) fs +
      how_many (\<lambda>d. d = OmittedDevice) fs + how_many (\<lambda>d. d = ForeignOwned) fs + how_many (\<lambda>d. d = ManagedLink) fs" for fs
  proof (induction fs)
    case (Cons f fs)
    obtain p dd where "f = (p, dd)" by (cases f)
    with Cons show ?case by (cases dd) simp_all
  qed simp
  have sum: "cc_entries c = cc_files c + cc_directories c + cc_symlinks c + ce_cache_roots e + ce_sockets e + ce_fifos e +
      ce_devices e + ce_foreign_owned e + ce_managed_command_links e"
    using total [of ?fs] by (simp add: c e counts_of_fates_def exclusions_of_fates_def)
  have entries: "cc_entries c \<le> 100000"
    using acc length_fates_of [OF ok] by (simp add: c counts_of_fates_def accepted_def fates_def)
  have "sum_list (map (\<lambda>f. disposed_bytes (snd f)) (fates_of env cache es)) = sum_list (map (entry_bytes_of env cache) es)" for es
  proof (induction es)
    case (Cons e' es)
    obtain p n where "e' = (p, n)" by (cases e')
    with Cons show ?case by (simp add: fates_of_Cons entry_bytes_of_def split: option.split)
  qed simp
  then have bytes: "cc_logical_bytes c \<le> 10737418240"
    using acc by (simp add: c counts_of_fates_def accepted_def fates_def)
  have "how_many (\<lambda>d. case d of KeptFile mode content bytes linked \<Rightarrow> linked | _ \<Rightarrow> False) fs \<le> how_many is_KeptFile fs" for fs
  proof (induction fs)
    case (Cons f fs)
    obtain p dd where "f = (p, dd)" by (cases f)
    with Cons show ?case by (cases dd) simp_all
  qed simp
  then have hard: "ce_hard_linked_files_copied_independently e \<le> cc_files c"
    by (simp add: c e counts_of_fates_def exclusions_of_fates_def)
  have caches: "ce_cache_roots e = 0 \<and> ce_symlinks_into_omitted_cache_roots e = 0" if cache
  proof -
    have never: "dispose env cache p n \<noteq> Some CacheRoot" for p n
    proof -
      have "map_option (KeptLink t) r \<noteq> Some CacheRoot" for t r by (cases r) simp_all
      then show ?thesis using that
        by (cases "sn_stat n"; cases "sn_directory n"; cases "sn_file n"; cases "sn_target n") (simp_all add: dispose_def)
    qed
    then have "(p, CacheRoot) \<notin> set ?fs" for p by (simp add: fates_def fates_of_member)
    then show ?thesis
      by (auto simp: e exclusions_of_fates_def omitted_roots_def how_many_def filter_empty_conv)
  qed
  show ?thesis using sum entries bytes hard caches by blast
qed

subsection \<open>One clone\<close>

text \<open>
  A home with a cache, a directory that holds a link back to a file, the file with a second hard
  link, and a socket.
\<close>

definition cl_stat :: "nat \<Rightarrow> nat \<Rightarrow> nat \<Rightarrow> int \<Rightarrow> file_stat" where
  "cl_stat i mode links len =
     \<lparr>st_dev = 1, st_ino = i, st_uid = 1000, st_gid = 1000, st_mode = mode, st_nlink = links, st_size = len, st_mtime = 0,
      st_mtime_nsec = 0, st_ctime = 0, st_ctime_nsec = 0\<rparr>"

definition cl_plain :: "string \<Rightarrow> file_stat \<Rightarrow> source_node" where
  "cl_plain n m = SourceNode n (SysOk m) SysFail SysFail SysFail (SysOk m)"

definition cl_directory :: "string \<Rightarrow> file_stat \<Rightarrow> source_node list \<Rightarrow> source_node" where
  "cl_directory n m ns =
     SourceNode n (SysOk m) (SysOk (SourceDirectory (SysOk m) ns True (SysOk m) (SysOk m))) SysFail SysFail (SysOk m)"

definition cl_file :: "string \<Rightarrow> file_stat \<Rightarrow> string \<Rightarrow> source_node" where
  "cl_file n m content =
     SourceNode n (SysOk m) SysFail
       (SysOk \<lparr>sf_opened = SysOk m, sf_get_flags = SysOk (), sf_set_flags = SysOk (), sf_reads = [content], sf_readable = True,
          sf_post = SysOk m\<rparr>) SysFail (SysOk m)"

definition cl_link :: "string \<Rightarrow> file_stat \<Rightarrow> string \<Rightarrow> source_node" where
  "cl_link n m target = SourceNode n (SysOk m) SysFail SysFail (SysOk target) (SysOk m)"

definition cl_home :: source_directory where
  "cl_home =
     SourceDirectory (SysOk (cl_stat 2 16832 5 0))
       [cl_plain ''.'' (cl_stat 2 16832 5 0), cl_plain ''s'' (cl_stat 7 49536 2 0), cl_file ''f'' (cl_stat 6 33184 2 2) ''hi'',
        cl_directory ''d'' (cl_stat 4 16877 2 0) [cl_link ''l'' (cl_stat 5 41471 2 4) ''../f''],
        cl_directory ''.cache'' (cl_stat 3 16832 2 0) [cl_file ''x'' (cl_stat 8 33184 2 2) ''no'']]
       True (SysOk (cl_stat 2 16832 5 0)) (SysOk (cl_stat 2 16832 5 0))"

definition cl_env :: walk_env where
  "cl_env =
     \<lparr>we_control = walk_control_default, we_destination = True, we_uid = 1000,
      we_derived_caches = linux_derived_cache_directories, we_fails = (\<lambda>_ _. False)\<rparr>"

definition cl_report :: clone_report where
  "cl_report = clone_report_new ''from'' ''to'' Execute Profile False"

lemma cl_simps:
  "st_mode (cl_stat i mode links len) = mode" "st_uid (cl_stat i mode links len) = 1000"
  "st_nlink (cl_stat i mode links len) = links" "st_size (cl_stat i mode links len) = len"
  "s_kind 16832 = S_IFDIR" "s_kind 16877 = S_IFDIR" "s_kind 33184 = S_IFREG" "s_kind 41471 = S_IFLNK" "s_kind 49536 = S_IFSOCK"
  "mode_bits 16832 = 448" "mode_bits 16877 = 493" "mode_bits 33184 = 416"
  "S_IFREG \<noteq> S_IFDIR" "S_IFLNK \<noteq> S_IFDIR" "S_IFLNK \<noteq> S_IFREG" "S_IFSOCK \<noteq> S_IFDIR" "S_IFSOCK \<noteq> S_IFREG" "S_IFSOCK \<noteq> S_IFLNK"
  "we_uid cl_env = 1000" "we_destination cl_env" "we_control cl_env = walk_control_default" "\<not> we_fails cl_env call path"
  "cache_roots cl_env = [[''.cache'']]"
  by (simp_all add: cl_stat_def cl_env_def cache_roots_def linux_derived_cache_directories_def s_kind_def S_IFMT_def s_kinds mode_bits_mod)

lemma cl_fates: "resolve_relative_link_target [''d''] ''../f'' = Some [''f'']"
  by (simp add: resolve_relative_link_target_def path_components_def body_component_def)

lemma cl_listed: "source_listed (sd_listing cl_home) =
    [cl_directory ''.cache'' (cl_stat 3 16832 2 0) [cl_file ''x'' (cl_stat 8 33184 2 2) ''no''],
     cl_directory ''d'' (cl_stat 4 16877 2 0) [cl_link ''l'' (cl_stat 5 41471 2 4) ''../f''],
     cl_file ''f'' (cl_stat 6 33184 2 2) ''hi'', cl_plain ''s'' (cl_stat 7 49536 2 0)]"
  by (simp add: source_listed_def cl_home_def cl_directory_def cl_file_def cl_plain_def cl_link_def dot_entry_def)

lemma cl_disposed:
  "dispose cl_env False [''.cache''] (cl_directory ''.cache'' m ns) = Some CacheRoot"
  "dispose cl_env False [''d''] (cl_directory ''d'' (cl_stat 4 16877 2 0) ns) = Some (KeptDirectory 493)"
  "dispose cl_env False [''d'', ''l''] (cl_link ''l'' (cl_stat 5 41471 2 4) ''../f'') = Some (KeptLink ''../f'' [''f''])"
  "dispose cl_env False [''f''] (cl_file ''f'' (cl_stat 6 33184 2 2) ''hi'') = Some (KeptFile 416 ''hi'' 2 True)"
  "dispose cl_env False [''s''] (cl_plain ''s'' (cl_stat 7 49536 2 0)) = Some OmittedSocket"
  by (simp_all add: dispose_def cl_directory_def cl_link_def cl_file_def cl_plain_def cl_simps cl_fates is_managed_command_link_def
      file_content_def)

lemma cl_entries: "home_entries cl_env False cl_home =
    [([''.cache''], cl_directory ''.cache'' (cl_stat 3 16832 2 0) [cl_file ''x'' (cl_stat 8 33184 2 2) ''no'']),
     ([''d''], cl_directory ''d'' (cl_stat 4 16877 2 0) [cl_link ''l'' (cl_stat 5 41471 2 4) ''../f'']),
     ([''d'', ''l''], cl_link ''l'' (cl_stat 5 41471 2 4) ''../f''),
     ([''f''], cl_file ''f'' (cl_stat 6 33184 2 2) ''hi''), ([''s''], cl_plain ''s'' (cl_stat 7 49536 2 0))]"
proof -
  have names: "sn_name (cl_directory n m ns) = n" "sn_name (cl_link n m t) = n" "sn_name (cl_file n m t) = n" "sn_name (cl_plain n m) = n"
    for n m ns t by (simp_all add: cl_directory_def cl_link_def cl_file_def cl_plain_def)
  have inner: "source_listed [cl_link ''l'' m t] = [cl_link ''l'' m t]" for m t
    by (simp add: source_listed_def names dot_entry_def)
  have below: "sn_directory (cl_directory n m ns) = SysOk (SourceDirectory (SysOk m) ns True (SysOk m) (SysOk m))" for n m ns
    by (simp add: cl_directory_def)
  show ?thesis
    by (simp add: home_entries_def cl_listed examined_Cons names entered_def cl_disposed below inner)
qed

lemma cl_platform: "known_platform cl_env"
  by (simp add: known_platform_def cl_env_def)

lemma cl_accepted: "accepted cl_env False (SysOk cl_home)"
proof -
  have entries: "list_all (entry_ok cl_env False) (home_entries cl_env False cl_home)"
    unfolding cl_entries
    by (simp add: entry_ok_def path_ok_def directory_ok_def file_ok_def link_ok_def copyable_def cl_directory_def cl_link_def
        cl_file_def cl_plain_def cl_simps cl_fates staging_ok_def list_all_iff file_content_def walk_control_default_def)
  show ?thesis
    using entries
    by (simp add: accepted_def cl_entries claimed_def claims_def cl_disposed cl_simps entry_bytes_of_def walk_control_default_def)
      (simp add: cl_home_def)
qed

definition cl_result :: clone_report where
  "cl_result =
     cl_report\<lparr>cr_counts := \<lparr>cc_entries = 5, cc_files = 1, cc_directories = 1, cc_symlinks = 1, cc_logical_bytes = 6\<rparr>,
       cr_exclusions := clone_exclusions_default\<lparr>ce_cache_roots := 1, ce_sockets := 1,
         ce_hard_linked_files_copied_independently := 1\<rparr>\<rparr>"

lemma cl_fates_list: "fates cl_env False cl_home =
    [([''.cache''], CacheRoot), ([''d''], KeptDirectory 493), ([''d'', ''l''], KeptLink ''../f'' [''f'']),
     ([''f''], KeptFile 416 ''hi'' 2 True), ([''s''], OmittedSocket)]"
  by (simp add: fates_def cl_entries fates_of_Cons cl_disposed)

lemma cl_surveyed: "surveyed cl_env False cl_home cl_report = cl_result"
  by (simp add: surveyed_def cl_fates_list counts_of_fates_def exclusions_of_fates_def links_into_def omitted_roots_def cl_simps
      below_root_def cl_result_def clone_exclusions_default_def)

theorem walks_are_exact_witness:
  "\<exists>staging. walk_home cl_env (SysOk cl_home) cl_report = Ok (cl_result, staging) \<and>
     staging [''f''] = Some (StagedFile 416 ''hi'') \<and> staging [''d''] = Some (StagedDirectory 493) \<and>
     staging [''.cache'', ''x''] = None"
proof -
  have "walk_home cl_env (SysOk cl_home) cl_report = Ok (cl_result, staged_home cl_env False cl_home)"
    unfolding cl_report_def walks_are_exact [OF cl_platform]
    using cl_accepted cl_surveyed by (simp add: cl_report_def)
  then show ?thesis
    by (simp add: staged_home_def cl_simps cl_fates_list walk_control_default_def)
qed

lemma cl_walk: "walk_home cl_env (SysOk cl_home) cl_report = Ok (cl_result, staged_home cl_env False cl_home)"
  unfolding cl_report_def walk_home_exact [OF cl_platform] using cl_accepted cl_surveyed by (simp add: cl_report_def)

lemma cl_steady: "steady_home cl_home"
  by (simp add: steady_home_def cl_home_def cl_directory_def cl_file_def cl_plain_def cl_link_def cl_simps file_content_def)

theorem previews_predict_executions_witness:
  "\<exists>staging. walk_home (executing False cl_env) (SysOk cl_home) cl_report = Ok (cl_result, staging)"
proof -
  have "executing True cl_env = cl_env" by (simp add: executing_def cl_env_def)
  then have "\<exists>staging. walk_home (executing True cl_env) (SysOk cl_home) cl_report = Ok (cl_result, staging)"
    using cl_walk by simp
  then show ?thesis
    using previews_predict_executions [OF cl_platform cl_steady, where source = "''from''" and destination = "''to''" and
      mode = Execute and layout = Profile and cache = False and report' = cl_result]
    by (simp add: cl_report_def cl_simps)
qed

theorem staged_homes_are_self_contained_witness:
  "\<exists>m. staged_home cl_env False cl_home [''d''] = Some (StagedDirectory m) \<and>
     staged_well cl_env [''d'', ''l''] (StagedLink ''../f'')"
proof -
  have "staged_home cl_env False cl_home [''d'', ''l''] = Some (StagedLink ''../f'')"
    by (simp add: staged_home_def cl_simps cl_fates_list walk_control_default_def)
  from staged_homes_are_self_contained [OF cl_platform _ _ cl_walk [unfolded cl_report_def] this]
  show ?thesis by (simp add: cl_simps)
qed

theorem reports_account_for_every_entry_witness:
  "cc_entries (cr_counts cl_result) = 5 \<and> cc_entries (cr_counts cl_result) \<le> 100000"
  using reports_account_for_every_entry [OF cl_platform cl_walk [unfolded cl_report_def]] by (simp add: cl_result_def)

end
