(* ===== verification/Spec2Isabelle.thy ===== *)
theory Spec2Isabelle
  imports Bundle_Export Mcp_Transport Space_Upgrade Environment_Properties Recovery_Completion Root_Completion Mount_Properties Confinement_Witness Discovery_Completion Clone_Properties
begin

text \<open>
  A verification development for Quarters.

  Quarters gives native commands another persistent home. A store under one root directory holds
  \<^emph>\<open>spaces\<close> (private directories with a manifest, an activity lock and a home), \<^emph>\<open>artifacts\<close>
  (templates and snapshots of homes) and hidden control entries: markers of unfinished
  transactions, freeze markers, working directories of unfinished creations, a trash. The core crate
  (\<open>src/crates/quarters-core\<close>) owns the store and the policy; the command line (\<open>quarters-cli\<close>) launches
  processes under a planned environment and, on Linux, under a Landlock policy; the MCP server
  (\<open>quarters-mcp\<close>) offers the core to agents over standard input and output. Paths below are relative
  to \<open>src/crates/quarters-core/src\<close> unless a crate is named.

  \<^bold>\<open>Conventions.\<close> A byte is a \<^typ>\<open>char\<close>, a byte string a \<^typ>\<open>string\<close>; presentation text is a list of code
  points. Machine integers are natural numbers with the width written out (\<open>sat_add\<close>, \<open>checked_add\<close>,
  big-endian encodings with their bounds). A fallible function returns \<open>quarters_error + 'a\<close>; an error
  keeps its kind and the constant part of its message, hints and wrapped sources are dropped. What the
  program observes of the world in one call (metadata, a listing, an answer of the kernel) is an
  argument; JSON and the hash functions are parameters, with the round trip of what was written as
  a named hypothesis where a result needs it (\<open>marker_codec\<close>, \<open>manifest_codec\<close>, \<open>creation_codec\<close>,
  \<open>usable_env\<close>).

  \<^bold>\<open>Foundations.\<close> \<open>Quarters_Prelude\<close>: results, bounded arithmetic, byte helpers. \<open>Space_Model\<close>
  (\<open>model.rs\<close>): names, identifiers, manifests. \<open>Fs_Types\<close>: metadata, private-anchor checks, the bounded
  private read (\<open>store_policy.rs\<close>, \<open>store/private_read.rs\<close>). \<open>Paths\<close>: components and link containment
  (\<open>store/lifecycle\<close>). \<open>Store_Policy\<close>: opening and validating a space (\<open>store.rs\<close>). \<open>Artifact_Model\<close>:
  artifact manifests. \<open>Text\<close> (\<open>text.rs\<close>): the escaping of untrusted text.

  \<^bold>\<open>Bundles and integrity.\<close> \<open>Bundle_Format\<close> is the writer and the authenticating parser of
  \<open>store/artifact/bundle/format.rs\<close>; \<open>Bundle_Proofs\<close> relates byte streams to entry lists,
  \<open>Bundle_Canonical\<close> and \<open>Bundle_Safety\<close> characterise what is accepted, \<open>Bundle_Properties\<close> states
  the contract. \<open>Tree_Observation\<close> and \<open>Integrity\<close> model the descriptor-relative verifier
  (\<open>store/artifact/integrity.rs\<close>) over observations of a tree that may change under the walk;
  \<open>Bundle_Export\<close> is the export walk and its agreement with the importer.

  \<^bold>\<open>Copies of homes.\<close> \<open>Clone_Walk\<close> is the walk behind clones, artifacts and rollbacks
  (\<open>store/lifecycle/walk.rs\<close>, \<open>walk/support.rs\<close>, \<open>policy.rs\<close>): a recursion over the observed source that
  writes a staging tree, a map from relative paths, call by call, and counts into the report. \<open>Clone_Exact\<close> states the
  fate of each entry without the walker and shows that a walk is the fold of these fates, with
  the exact conditions under which it succeeds; \<open>Clone_Survey\<close> turns the fold into a closed form of report and tree;
  \<open>Clone_Properties\<close> derives the contract of a clone, the agreement of preview and execution, the
  containment of the staged tree and the balance of the report.

  \<^bold>\<open>The store as a program.\<close> \<open>Store_World\<close> is the world of the transactions: the entries of one
  directory, the trash and the next inode; every system call consumes one element of a fault
  script and succeeds, fails with a partial effect, or stops the process with a partial effect. \<open>wp\<close>
  is the weakest precondition over all scripts, \<open>runs\<close> that of the undisturbed run; \<open>keeps\<close> marks
  programs that only look. A result under \<open>wp\<close> with the trivial filter is a statement about every failing
  call and every crash. \<open>Store_Markers\<close> holds the markers and scans the transactions share.
  On it are built: rollback of a space to a snapshot (\<open>Rollback\<close> and the \<open>Rollback_\<close> theories,
  \<open>store/artifact/rollback.rs\<close>), rename (\<open>Space_Rename\<close>, \<open>Rename_Safety\<close>, \<open>Rename_Store\<close>, \<open>Rename_Properties\<close>,
  \<open>store/rename.rs\<close>), the cooperative freeze of the space that a name opens (\<open>Freeze\<close>), manifest replacement and the upgrade
  (\<open>Manifest_Replace\<close>, \<open>Space_Upgrade\<close>), creation (\<open>Space_Create\<close>, \<open>Create_Completion\<close>, \<open>store/create.rs\<close>),
  removal (\<open>Space_Remove\<close>), recovery of a store (\<open>Store_Recovery\<close>, \<open>Recovery_Properties\<close>,
  \<open>Recovery_Completion\<close>, \<open>store_recovery.rs\<close>) and the root-format marker (\<open>Root_Format\<close>,
  \<open>Root_Publication\<close>, \<open>Root_Completion\<close>, \<open>store/layout.rs\<close> and \<open>store/layout/marker.rs\<close>). For each of
  them one group of lemmas shows that every state a crash can leave belongs to a small family of
  recoverable states, another that an undisturbed run, of the operation or of its recovery, returns
  from each of these states with the intended effect. Rollback, rename, creation and the marker are
  composed with any number of interrupted recoveries.

  \<^bold>\<open>Processes.\<close> \<open>Environment\<close> and \<open>Environment_Properties\<close> (\<open>environment.rs\<close>, \<open>quarters-cli/src/process.rs\<close>):
  the planned environment of a child, its narrowing under confinement, and the escape back to
  the host. \<open>Mount_Topology\<close> and \<open>Mount_Properties\<close> (\<open>platform/linux/confinement/mounts.rs\<close>): the parser
  of mountinfo and the refusal of grants that alias protected state. \<open>Confinement\<close>
  (\<open>platform/linux/confinement/paths.rs\<close>, \<open>identity.rs\<close>, \<open>policy.rs\<close>, with the requests and the working directory of
  \<open>platform/mod.rs\<close>): the plan of a confined launch over the answers of a host, descriptor ancestry,
  user grants, the resolution of commands and the rules for the Landlock crate, whose rights are a
  parameter. \<open>Confinement_Properties\<close> shows that user grants share nothing with other rules or with
  protected state, that rules combine below them to exactly their own rights, that the rest of the
  store stays closed on hosts whose ancestry is faithful, and that what resolves as a command may run
  and is not user data, with and without a home view: \<open>walked\<close> says which rules the kernel meets on the
  way up from a path of a process that has the space home bound over the account home.
  \<open>Confinement_Witness\<close> evaluates all of it on one host, in both modes. The locale
  \<open>overlap_relation\<close> states what it means to compare places instead of their contents; it is
  interpreted on the regions of mounts and on the paths of grants.

  \<^bold>\<open>Discovery.\<close> \<open>Discovery_Classes\<close> (\<open>discovery/classify.rs\<close>) is the classification of entries, with the
  proof that the disclosed patterns of credential-shaped paths are what is matched. \<open>Discovery_Scan\<close>
  (\<open>discovery/scan.rs\<close>, \<open>mod.rs\<close>) is the bounded metadata scan over observations of a tree,
  \<open>Discovery_Report\<close> the comparison of snapshots and the report. \<open>Discovery_Properties\<close> describes the
  runs of the walk by an inductive relation and shows that it stays within its limits and that a complete
  snapshot has recorded exactly a tree that held still; \<open>Discovery_Delta\<close> that a published delta is the
  exact difference of two trees; \<open>Discovery_Completion\<close> that undisturbed scans give one.

  \<^bold>\<open>The MCP server.\<close> \<open>Mcp_Admission\<close> (\<open>quarters-mcp/src/lifecycle.rs\<close>): request admission and protocol
  families as a step relation of the open connection, the close when the transport is dropped and a
  second relation for what outlives it, with invariants by rule induction. \<open>Mcp_Transport\<close> (\<open>quarters-mcp/src/transport.rs\<close>): framing, the receive loop and the encoder.

  \<^bold>\<open>Bounds.\<close> The constants are those of the code (1024 markers, renames and recovery entries, 32
  requests, 8 attempts to read a marker, one mebibyte per frame and of mountinfo, 256 ancestors).
  No fuel is used beyond the retry bounds the code has; recursive walks recurse on the observed
  tree. Completion results assume that the directories stay within the scan bounds of the code, which
  the definitions of the ready states state (\<open>bounded_store\<close>, \<open>bounded_renames\<close>, \<open>quiet_store\<close>,
  \<open>unmarked_root\<close>).

  \<^bold>\<open>Not modelled.\<close> Advisory locks and the agent processes (\<open>store_lock.rs\<close>, \<open>agent/\<close>): their answers are
  inputs of the operations that ask. The transaction around a clone (\<open>store/lifecycle/copy.rs\<close>), the
  artifact catalogue, import staging and host fork publish whole trees, which the one-directory
  world of the store does not hold. The command line, its grammar and its output, the MCP
  tool models and the quality crate are glue or presentation. Concurrent operations are covered only
  in so far as observations may be arbitrary and locks may be refused; two interleaved mutations of one
  store are excluded by the management lock, which is a hypothesis of this kind.
\<close>

end
